(* ===== verification/Prelude.thy ===== *)
theory Prelude
  imports Main "HOL-Library.AList" "HOL-Library.Multiset"
begin

text \<open>
  Shared vocabulary of the development: what the modelled TypeScript uses of the JavaScript
  standard library.

  \<^item> \<open>js_error\<close> and \<open>'a result\<close>: a thrown exception is \<open>Inl e\<close>, a return is \<open>Inr x\<close>.
    \<open>Diverges\<close> is the value of a recursion whose fuel ran out; every use comes with a lemma
    that the fuel given by the model is enough.
  \<^item> \<open>rbind\<close>, \<open>rfold\<close>: sequencing, and a \<open>for ... of\<close> loop whose body may throw.
  \<^item> \<open>Map\<close> and plain objects used as maps: association lists in insertion order.
    \<open>Map.prototype.set\<close> on a present key keeps its position (\<open>js_put\<close>), \<open>delete\<close> removes the
    entry (\<open>js_del\<close>), \<open>get\<close> is \<open>map_of\<close>.
  \<^item> \<open>Set\<close>: lists without duplicates in insertion order (\<open>set_add\<close>).
  \<^item> arrays: lists; \<open>findIndex\<close>, \<open>splice(i, 1)\<close>, \<open>at\<close> with negative indices, assignment past the
    end (which leaves holes) and the stable \<open>sort\<close>.
\<close>

named_theorems js_simps \<open>laws of the JavaScript containers\<close>
named_theorems result_simps \<open>laws of the result monad\<close>

section \<open>Results and exceptions\<close>

datatype js_error =
    AssertionError
  | TypeError
  | UserError string
  | ApplicationError string
  | OperationalError string
  | UnexpectedError string
  | Diverges

type_synonym 'a result = "js_error + 'a"

definition rbind :: "'a result \<Rightarrow> ('a \<Rightarrow> 'b result) \<Rightarrow> 'b result" where
  "rbind m f = (case m of Inl e \<Rightarrow> Inl e | Inr x \<Rightarrow> f x)"

definition assert_ok :: "bool \<Rightarrow> unit result" where
  "assert_ok b = (if b then Inr () else Inl AssertionError)"

fun rfold :: "('x \<Rightarrow> 's \<Rightarrow> 's result) \<Rightarrow> 'x list \<Rightarrow> 's \<Rightarrow> 's result" where
  "rfold f [] s = Inr s"
| "rfold f (x # xs) s = rbind (f x s) (rfold f xs)"

lemma rbind_simps [simp, result_simps]:
  "rbind (Inl e) f = Inl e" "rbind (Inr x) f = f x"
  by (simp_all add: rbind_def)

lemma rbind_Inr_iff [result_simps]: "rbind m f = Inr y \<longleftrightarrow> (\<exists>x. m = Inr x \<and> f x = Inr y)"
  by (cases m) auto

lemma rbind_Inl_iff [result_simps]:
  "rbind m f = Inl e \<longleftrightarrow> m = Inl e \<or> (\<exists>x. m = Inr x \<and> f x = Inl e)"
  by (cases m) auto

lemma rbind_assoc: "rbind (rbind m f) g = rbind m (\<lambda>x. rbind (f x) g)"
  by (cases m) auto

lemma assert_ok_Inr [simp]: "assert_ok b = Inr u \<longleftrightarrow> b"
  by (auto simp: assert_ok_def)

lemma assert_ok_Inl [simp]: "assert_ok b = Inl e \<longleftrightarrow> \<not> b \<and> e = AssertionError"
  by (auto simp: assert_ok_def)

lemma rbind_assert_ok [simp]: "b \<Longrightarrow> rbind (assert_ok b) f = f ()"
  by (simp add: assert_ok_def)

lemma rbind_cong [fundef_cong]:
  "m = m' \<Longrightarrow> (\<And>x. m' = Inr x \<Longrightarrow> f x = f' x) \<Longrightarrow> rbind m f = rbind m' f'"
  by (cases m') auto

lemma rfold_append: "rfold f (xs @ ys) s = rbind (rfold f xs s) (rfold f ys)"
proof (induction xs arbitrary: s)
  case Nil
  then show ?case by simp
next
  case (Cons x xs)
  then show ?case by (cases "f x s") simp_all
qed

text \<open>Partial correctness of a loop: what every iteration keeps holds at the end.\<close>

lemma rfold_invariant:
  assumes "rfold f xs s = Inr s'" and "P s"
    and "\<And>x s s'. x \<in> set xs \<Longrightarrow> P s \<Longrightarrow> f x s = Inr s' \<Longrightarrow> P s'"
  shows "P s'"
  using assms
proof (induction xs arbitrary: s)
  case Nil
  then show ?case by simp
next
  case (Cons x xs)
  then obtain t where t: "f x s = Inr t" "rfold f xs t = Inr s'"
    by (auto simp: result_simps)
  have "P t" using Cons.prems(3)[OF _ Cons.prems(2) t(1)] by simp
  then show ?case using Cons.IH[OF t(2)] Cons.prems(3) by (meson list.set_intros(2))
qed

text \<open>Total correctness of a loop: if no iteration throws under the invariant, it returns.\<close>

lemma rfold_total:
  assumes "P s"
    and "\<And>x s. x \<in> set xs \<Longrightarrow> P s \<Longrightarrow> \<exists>s'. f x s = Inr s' \<and> P s'"
  shows "\<exists>s'. rfold f xs s = Inr s' \<and> P s'"
  using assms
proof (induction xs arbitrary: s)
  case Nil
  then show ?case by simp
next
  case (Cons x xs)
  from Cons.prems obtain t where t: "f x s = Inr t" "P t" by fastforce
  from Cons.IH[OF t(2)] Cons.prems(2) have "\<exists>s'. rfold f xs t = Inr s' \<and> P s'" by auto
  with t(1) show ?case by auto
qed

text \<open>The same two rules with the part of the list already processed.\<close>

lemma rfold_total_prefix:
  assumes "P [] s"
    and "\<And>pre x rest s. xs = pre @ x # rest \<Longrightarrow> P pre s \<Longrightarrow> \<exists>s'. f x s = Inr s' \<and> P (pre @ [x]) s'"
  shows "\<exists>s'. rfold f xs s = Inr s' \<and> P xs s'"
  using assms
proof (induction xs rule: rev_induct)
  case Nil
  then show ?case by simp
next
  case (snoc x xs)
  have "\<exists>s'. rfold f xs s = Inr s' \<and> P xs s'"
    using snoc.IH[OF snoc.prems(1)] snoc.prems(2) by simp
  then obtain t where t: "rfold f xs s = Inr t" "P xs t" by auto
  obtain s' where "f x t = Inr s'" "P (xs @ [x]) s'"
    using snoc.prems(2)[of xs x "[]"] t(2) by auto
  with t(1) show ?case by (simp add: rfold_append)
qed

lemma rfold_invariant_prefix:
  assumes "rfold f xs s = Inr s'" and "P [] s"
    and "\<And>pre x rest s s'. xs = pre @ x # rest \<Longrightarrow> P pre s \<Longrightarrow> f x s = Inr s' \<Longrightarrow> P (pre @ [x]) s'"
  shows "P xs s'"
  using assms
proof (induction xs arbitrary: s' rule: rev_induct)
  case Nil
  then show ?case by simp
next
  case (snoc x xs)
  from snoc.prems(1) obtain t where t: "rfold f xs s = Inr t" "f x t = Inr s'"
    by (auto simp: rfold_append result_simps)
  have "P xs t" using snoc.IH[OF t(1) snoc.prems(2)] snoc.prems(3) by simp
  then show ?case using snoc.prems(3)[of xs x "[]"] t(2) by simp
qed

lemma rfold_map: "rfold f (map g xs) s = rfold (\<lambda>x. f (g x)) xs s"
proof (induction xs arbitrary: s)
  case Nil
  then show ?case by simp
next
  case (Cons x xs)
  then show ?case by (cases "f (g x) s") simp_all
qed

lemma rfold_cong [fundef_cong]:
  assumes "xs = ys" and "s = t" and "\<And>x s. x \<in> set ys \<Longrightarrow> f x s = g x s"
  shows "rfold f xs s = rfold g ys t"
  using assms(3) unfolding assms(1,2)
proof (induction ys arbitrary: t)
  case Nil
  then show ?case by simp
next
  case (Cons y ys)
  then have "f y t = g y t" by simp
  moreover have "rfold f ys = rfold g ys" using Cons by (intro ext) auto
  ultimately show ?case by simp
qed

text \<open>A loop all of whose iterations return is a plain fold.\<close>

lemma rfold_Inr: "rfold (\<lambda>x s. Inr (f x s)) xs s = Inr (fold f xs s)"
  by (induction xs arbitrary: s) auto

text \<open>The operator \<open>??\<close>.\<close>

definition or_else :: "'a option \<Rightarrow> 'a \<Rightarrow> 'a" where
  "or_else x d = (case x of None \<Rightarrow> d | Some y \<Rightarrow> y)"

section \<open>Maps in insertion order\<close>

type_synonym ('k, 'v) js_map = "('k \<times> 'v) list"

definition js_put :: "'k \<Rightarrow> 'v \<Rightarrow> ('k, 'v) js_map \<Rightarrow> ('k, 'v) js_map" where
  "js_put k v m = AList.update k v m"

definition js_del :: "'k \<Rightarrow> ('k, 'v) js_map \<Rightarrow> ('k, 'v) js_map" where
  "js_del k m = filter (\<lambda>(k', _). k' \<noteq> k) m"

definition js_has :: "('k, 'v) js_map \<Rightarrow> 'k \<Rightarrow> bool" where
  "js_has m k \<longleftrightarrow> map_of m k \<noteq> None"

definition js_keys :: "('k, 'v) js_map \<Rightarrow> 'k list" where
  "js_keys m = map fst m"

definition js_values :: "('k, 'v) js_map \<Rightarrow> 'v list" where
  "js_values m = map snd m"

text \<open>A JavaScript map never holds a key twice.\<close>

definition js_wf :: "('k, 'v) js_map \<Rightarrow> bool" where
  "js_wf m \<longleftrightarrow> distinct (map fst m)"

lemma js_put_code [simp]:
  "js_put k v [] = [(k, v)]"
  "js_put k v (p # m) = (if fst p = k then (k, v) # m else p # js_put k v m)"
  by (simp_all add: js_put_def)

lemma js_get_put [simp, js_simps]: "map_of (js_put k v m) = (map_of m)(k \<mapsto> v)"
  by (simp add: js_put_def update_conv')

lemma js_get_del [simp, js_simps]: "map_of (js_del k m) = (map_of m)(k := None)"
  by (induction m) (auto simp: js_del_def fun_eq_iff)

lemma js_wf_nil [simp]: "js_wf []"
  by (simp add: js_wf_def)

lemma js_wf_put [simp, intro]: "js_wf m \<Longrightarrow> js_wf (js_put k v m)"
  by (simp add: js_wf_def js_put_def distinct_update)

lemma js_wf_del [simp, intro]: "js_wf m \<Longrightarrow> js_wf (js_del k m)"
  by (simp add: js_wf_def js_del_def distinct_map_filter)

lemma js_get_iff: "js_wf m \<Longrightarrow> map_of m k = Some v \<longleftrightarrow> (k, v) \<in> set m"
  by (simp add: js_wf_def)

lemma js_values_set: "js_wf m \<Longrightarrow> set (js_values m) = ran (map_of m)"
  by (force simp: js_values_def js_wf_def ran_def)

lemma js_keys_set: "set (js_keys m) = dom (map_of m)"
  by (simp add: js_keys_def dom_map_of_conv_image_fst)

lemma js_has_dom [simp]: "js_has m k \<longleftrightarrow> k \<in> dom (map_of m)"
  by (auto simp: js_has_def)

lemma js_values_put:
  "js_wf m \<Longrightarrow> set (js_values (js_put k v m)) = insert v (ran ((map_of m)(k := None)))"
  by (auto simp: js_values_set ran_def)

lemma js_put_fst: "fst ` set (js_put k v m) = insert k (fst ` set m)"
  by (simp add: js_put_def dom_update)

lemma js_put_new: "k \<notin> fst ` set m \<Longrightarrow> js_put k v m = m @ [(k, v)]"
  by (induction m) auto

text \<open>Inserting the values of a map one by one, in order, rebuilds the map.\<close>

lemma js_rebuild:
  assumes "js_wf m" "\<And>k v. (k, v) \<in> set m \<Longrightarrow> k = key v"
  shows "fold (\<lambda>v. js_put (key v) v) (js_values m) [] = m"
proof -
  have "fold (\<lambda>v. js_put (key v) v) (map snd suf) pre = pre @ suf" if "m = pre @ suf" for pre suf
    using that
  proof (induction suf arbitrary: pre)
    case Nil
    then show ?case by simp
  next
    case (Cons p suf)
    obtain k v where p: "p = (k, v)" by (cases p)
    have "k = key v" using assms(2) Cons.prems p by simp
    moreover have "k \<notin> fst ` set pre" using assms(1) Cons.prems p by (auto simp: js_wf_def)
    ultimately show ?case using Cons.IH[of "pre @ [p]"] Cons.prems p by (simp add: js_put_new)
  qed
  from this[of "[]" m] show ?thesis by (simp add: js_values_def)
qed

text \<open>
  The contract of an insertion-ordered map, and what a client may conclude from it alone:
  a sequence of insertions leaves exactly the last value of every key.
\<close>

locale ordered_map =
  fixes emp :: "'m"
    and look :: "'m \<Rightarrow> 'k \<Rightarrow> 'v option"
    and put :: "'k \<Rightarrow> 'v \<Rightarrow> 'm \<Rightarrow> 'm"
    and del :: "'k \<Rightarrow> 'm \<Rightarrow> 'm"
  assumes look_emp: "look emp = Map.empty"
    and look_put: "look (put k v m) = (look m)(k \<mapsto> v)"
    and look_del: "look (del k m) = (look m)(k := None)"
begin

lemma look_put_all:
  "look (fold (\<lambda>x. put (key x) (val x)) xs m) = look m ++ map_of (rev (map (\<lambda>x. (key x, val x)) xs))"
  by (induction xs arbitrary: m) (auto simp: look_put map_add_upd_left fun_eq_iff map_add_def split: option.splits)

lemma look_del_all:
  "look (fold (\<lambda>x. del (key x)) xs m) = (look m) |` (- key ` set xs)"
  by (induction xs arbitrary: m) (auto simp: look_del fun_eq_iff restrict_map_def)

end

interpretation jm: ordered_map "[]" map_of js_put js_del
  by unfold_locales simp_all

section \<open>Sets in insertion order\<close>

definition set_add :: "'a \<Rightarrow> 'a list \<Rightarrow> 'a list" where
  "set_add x xs = (if x \<in> set xs then xs else xs @ [x])"

definition set_del :: "'a \<Rightarrow> 'a list \<Rightarrow> 'a list" where
  "set_del x xs = filter (\<lambda>y. y \<noteq> x) xs"

definition set_of_array :: "'a list \<Rightarrow> 'a list" where
  "set_of_array xs = fold set_add xs []"

lemma set_add_set [simp, js_simps]: "set (set_add x xs) = insert x (set xs)"
  by (auto simp: set_add_def)

lemma set_add_distinct [simp, intro]: "distinct xs \<Longrightarrow> distinct (set_add x xs)"
  by (simp add: set_add_def)

lemma set_del_set [simp, js_simps]: "set (set_del x xs) = set xs - {x}"
  by (auto simp: set_del_def)

lemma set_del_distinct [simp, intro]: "distinct xs \<Longrightarrow> distinct (set_del x xs)"
  by (simp add: set_del_def)

lemma fold_set_add: "set (fold set_add xs ys) = set xs \<union> set ys"
  by (induction xs arbitrary: ys) auto

lemma fold_set_add_distinct: "distinct ys \<Longrightarrow> distinct (fold set_add xs ys)"
  by (induction xs arbitrary: ys) auto

lemma set_of_array_set [simp, js_simps]: "set (set_of_array xs) = set xs"
  by (simp add: set_of_array_def fold_set_add)

lemma set_of_array_distinct [simp, intro]: "distinct (set_of_array xs)"
  by (simp add: set_of_array_def fold_set_add_distinct)

section \<open>Arrays\<close>

fun findIndex :: "('a \<Rightarrow> bool) \<Rightarrow> 'a list \<Rightarrow> nat option" where
  "findIndex p [] = None"
| "findIndex p (x # xs) = (if p x then Some 0 else map_option Suc (findIndex p xs))"

definition splice1 :: "nat \<Rightarrow> 'a list \<Rightarrow> 'a list" where
  "splice1 i xs = take i xs @ drop (Suc i) xs"

text \<open>\<open>Array.prototype.at\<close>: a negative index counts from the end; out of range is undefined.\<close>

definition js_at :: "'a list \<Rightarrow> int \<Rightarrow> 'a option" where
  "js_at xs i =
     (let j = (if i < 0 then int (length xs) + i else i)
      in if 0 \<le> j \<and> j < int (length xs) then Some (xs ! nat j) else None)"

text \<open>
  An array whose elements may be null or missing has elements of type \<open>'a option\<close>: \<open>None\<close>
  stands for \<open>null\<close>, \<open>undefined\<close> and a hole, which the modelled code treats alike. Assigning
  past the end extends the array and leaves holes.
\<close>

definition array_put :: "nat \<Rightarrow> 'a option \<Rightarrow> 'a option list \<Rightarrow> 'a option list" where
  "array_put i v xs =
     (if i < length xs then xs[i := v] else xs @ replicate (i - length xs) None @ [v])"

definition array_get :: "'a option list \<Rightarrow> nat \<Rightarrow> 'a option" where
  "array_get xs i = (if i < length xs then xs ! i else None)"

fun sort_insert :: "('a \<Rightarrow> 'a \<Rightarrow> int) \<Rightarrow> 'a \<Rightarrow> 'a list \<Rightarrow> 'a list" where
  "sort_insert cmp x [] = [x]"
| "sort_insert cmp x (y # ys) = (if cmp x y \<le> 0 then x # y # ys else y # sort_insert cmp x ys)"

definition js_sort :: "('a \<Rightarrow> 'a \<Rightarrow> int) \<Rightarrow> 'a list \<Rightarrow> 'a list" where
  "js_sort cmp xs = foldr (sort_insert cmp) xs []"

lemma findIndex_None [simp]: "findIndex p xs = None \<longleftrightarrow> (\<forall>x \<in> set xs. \<not> p x)"
  by (induction xs) auto

lemma findIndex_SomeD:
  "findIndex p xs = Some i \<Longrightarrow> i < length xs \<and> p (xs ! i) \<and> (\<forall>j < i. \<not> p (xs ! j))"
proof (induction xs arbitrary: i)
  case Nil
  then show ?case by simp
next
  case (Cons x xs)
  show ?case
  proof (cases "p x")
    case True
    with Cons.prems show ?thesis by simp
  next
    case False
    with Cons.prems obtain k where k: "findIndex p xs = Some k" "i = Suc k" by auto
    with Cons.IH[OF k(1)] False show ?thesis
      by (auto simp: less_Suc_eq_0_disj nth_Cons split: nat.splits)
  qed
qed

lemma splice1_mset: "i < length xs \<Longrightarrow> mset xs = add_mset (xs ! i) (mset (splice1 i xs))"
  by (subst id_take_nth_drop[of i xs]) (auto simp: splice1_def)

lemma splice1_length: "i < length xs \<Longrightarrow> length (splice1 i xs) = length xs - 1"
  by (simp add: splice1_def)

lemma splice1_subset: "set (splice1 i xs) \<subseteq> set xs"
  using set_take_subset set_drop_subset unfolding splice1_def by fastforce

lemma array_get_put [simp, js_simps]:
  "array_get (array_put i v xs) j = (if j = i then v else array_get xs j)"
  by (auto simp: array_get_def array_put_def nth_append nth_Cons' less_Suc_eq)

lemma sort_insert_mset [simp]: "mset (sort_insert cmp x ys) = add_mset x (mset ys)"
  by (induction ys) auto

lemma js_sort_mset [simp]: "mset (js_sort cmp xs) = mset xs"
  by (induction xs) (simp_all add: js_sort_def)

lemma js_sort_set [simp]: "set (js_sort cmp xs) = set xs"
  using js_sort_mset by (metis set_mset_mset)

lemma js_sort_length [simp]: "length (js_sort cmp xs) = length xs"
  using js_sort_mset by (metis size_mset)

section \<open>Walks that avoid nodes\<close>

text \<open>
  A recursive traversal that carries the nodes of its own path explores walks that never enter
  a node again. \<open>avoid R D\<close> is \<open>R\<close> without the edges into \<open>D\<close>; restricting a traversal to
  walks that do not come back loses no reachable node.
\<close>

definition avoid :: "('a \<times> 'a) set \<Rightarrow> 'a set \<Rightarrow> ('a \<times> 'a) set" where
  "avoid R D = {(a, b). (a, b) \<in> R \<and> b \<notin> D}"

lemma avoid_subset: "avoid R D \<subseteq> R"
  by (auto simp: avoid_def)

lemma avoid_empty [simp]: "avoid R {} = R"
  by (auto simp: avoid_def)

lemma avoid_mono: "D \<subseteq> D' \<Longrightarrow> (a, b) \<in> (avoid R D')\<^sup>+ \<Longrightarrow> (a, b) \<in> (avoid R D)\<^sup>+"
  by (erule trancl_mono) (auto simp: avoid_def)

lemma avoid_end: "(a, b) \<in> (avoid R D)\<^sup>+ \<Longrightarrow> b \<notin> D"
  by (induction rule: trancl.induct) (auto simp: avoid_def)

lemma avoid_no_return:
  assumes "(b, m) \<in> (avoid R D)\<^sup>+" and "m \<noteq> b"
  shows "(b, m) \<in> (avoid R (insert b D))\<^sup>+"
  using assms
proof (induction rule: trancl_induct)
  case (base y)
  then show ?case by (auto simp: avoid_def)
next
  case (step y z)
  from step.hyps(2) step.prems have yz: "(y, z) \<in> avoid R (insert b D)"
    by (auto simp: avoid_def)
  show ?case
  proof (cases "y = b")
    case True
    with yz show ?thesis by auto
  next
    case False
    with step.IH yz show ?thesis by (meson trancl.trancl_into_trancl)
  qed
qed

lemma avoid_unfold:
  "(n, m) \<in> (avoid R D)\<^sup>+ \<longleftrightarrow>
     (\<exists>b. (n, b) \<in> R \<and> b \<notin> D \<and> (m = b \<or> (b, m) \<in> (avoid R (insert b D))\<^sup>+))" (is "?l \<longleftrightarrow> ?r")
proof
  assume ?l
  then obtain b where "(n, b) \<in> avoid R D" "m = b \<or> (b, m) \<in> (avoid R D)\<^sup>+"
    by (metis converse_tranclE)
  then show ?r using avoid_no_return by (fastforce simp: avoid_def)
next
  assume ?r
  then obtain b where b: "(n, b) \<in> avoid R D" "m = b \<or> (b, m) \<in> (avoid R (insert b D))\<^sup>+"
    by (auto simp: avoid_def)
  then have "m = b \<or> (b, m) \<in> (avoid R D)\<^sup>+" using avoid_mono[of D "insert b D"] by blast
  with b(1) show ?l by (metis r_into_trancl trancl_into_trancl2)
qed

lemma avoid_start: "{m. (n, m) \<in> (avoid R {n})\<^sup>+} = {m. (n, m) \<in> R\<^sup>+} - {n}"
  using avoid_no_return[of n _ R "{}"] avoid_end[of n _ R "{n}"] avoid_mono[of "{}" "{n}" n _ R]
  by auto

lemma fold_union_set:
  assumes "\<And>x r. x \<in> set xs \<Longrightarrow> set (f x r) = A x \<union> set r"
  shows "set (fold f xs r) = (\<Union>x \<in> set xs. A x) \<union> set r"
  using assms by (induction xs arbitrary: r) auto

section \<open>Decimal numerals\<close>

fun nat_str :: "nat \<Rightarrow> string" where
  "nat_str n =
     (if n < 10 then [char_of (48 + n)] else nat_str (n div 10) @ [char_of (48 + n mod 10)])"

declare nat_str.simps [simp del]

definition str_val :: "string \<Rightarrow> nat" where
  "str_val s = foldl (\<lambda>a c. 10 * a + (of_char c - 48)) 0 s"

lemma str_val_nat_str [simp]: "str_val (nat_str n) = n"
proof (induction n rule: nat_str.induct)
  case (1 n)
  show ?case
  proof (cases "n < 10")
    case True
    then show ?thesis by (subst nat_str.simps) (simp add: str_val_def)
  next
    case False
    with 1 have IH: "foldl (\<lambda>a c. 10 * a + (of_char c - 48)) 0 (nat_str (n div 10)) = n div 10"
      by (simp add: str_val_def)
    have "n mod 10 < 10" by simp
    then have "(of_char (char_of (48 + n mod 10) :: char) :: nat) = 48 + n mod 10" by simp
    with False IH show ?thesis by (subst nat_str.simps) (simp add: str_val_def)
  qed
qed

lemma nat_str_inject [simp]: "nat_str m = nat_str n \<longleftrightarrow> m = n"
  by (metis str_val_nat_str)

lemma nat_str_digits: "c \<in> set (nat_str n) \<Longrightarrow> 48 \<le> (of_char c :: nat) \<and> (of_char c :: nat) \<le> 57"
proof (induction n rule: nat_str.induct)
  case (1 n)
  have "n mod 10 < 10" by simp
  with 1 show ?case
    by (subst (asm) nat_str.simps) (auto split: if_splits)
qed

lemma nat_str_no_dash: "CHR ''-'' \<notin> set (nat_str n)"
  using nat_str_digits[of "CHR ''-''" n] by auto

text \<open>A separator that does not occur in the first parts splits a string in one way only.\<close>

lemma sep_unique:
  "x \<notin> set as \<Longrightarrow> x \<notin> set bs \<Longrightarrow> as @ x # cs = bs @ x # ds \<longleftrightarrow> as = bs \<and> cs = ds"
proof (induction as arbitrary: bs)
  case Nil
  then show ?case by (cases bs) auto
next
  case (Cons a as)
  then show ?case by (cases bs) auto
qed

end
