(* ===== verification/Interfaces.thy ===== *)
theory Interfaces
  imports Complex_Main Prelude
begin

text \<open>
  The data of workflows and executions: \<^verbatim>\<open>packages/workflow/src/interfaces.ts\<close>.

  Objects that the code compares with \<open>===\<close> carry their identity: \<open>node_ref\<close> is the reference of
  an \<open>INode\<close>, so two nodes with equal fields but different references are different values, as in
  the code, and \<open>=\<close> on the record is \<open>===\<close> on the object. Values the modelled code never looks
  into (parameters, item payloads, errors) are JSON values.
\<close>

section \<open>Connection types\<close>

datatype NodeConnectionType =
    AiAgent | AiChain | AiDocument | AiEmbedding | AiLanguageModel | AiMemory | AiOutputParser
  | AiRetriever | AiReranker | AiTextSplitter | AiTool | AiVectorStore | MainConn

fun conn_type_str :: "NodeConnectionType \<Rightarrow> string" where
  "conn_type_str AiAgent = ''ai_agent''"
| "conn_type_str AiChain = ''ai_chain''"
| "conn_type_str AiDocument = ''ai_document''"
| "conn_type_str AiEmbedding = ''ai_embedding''"
| "conn_type_str AiLanguageModel = ''ai_languageModel''"
| "conn_type_str AiMemory = ''ai_memory''"
| "conn_type_str AiOutputParser = ''ai_outputParser''"
| "conn_type_str AiRetriever = ''ai_retriever''"
| "conn_type_str AiReranker = ''ai_reranker''"
| "conn_type_str AiTextSplitter = ''ai_textSplitter''"
| "conn_type_str AiTool = ''ai_tool''"
| "conn_type_str AiVectorStore = ''ai_vectorStore''"
| "conn_type_str MainConn = ''main''"

lemma conn_type_str_inject [simp]: "conn_type_str a = conn_type_str b \<longleftrightarrow> a = b"
  by (cases a; cases b) simp_all

lemma conn_type_str_no_dash: "CHR ''-'' \<notin> set (conn_type_str t)"
  by (cases t) simp_all

text \<open>\<open>Object.values(NodeConnectionTypes)\<close>: the type is finite, in this order.\<close>

definition nodeConnectionTypes :: "NodeConnectionType list" where
  "nodeConnectionTypes =
     [AiAgent, AiChain, AiDocument, AiEmbedding, AiLanguageModel, AiMemory, AiOutputParser,
      AiRetriever, AiReranker, AiTextSplitter, AiTool, AiVectorStore, MainConn]"

lemma nodeConnectionTypes_UNIV: "set nodeConnectionTypes = UNIV"
proof -
  have "t \<in> set nodeConnectionTypes" for t by (cases t) (simp_all add: nodeConnectionTypes_def)
  then show ?thesis by auto
qed

instantiation NodeConnectionType :: enum
begin

definition enum_NodeConnectionType :: "NodeConnectionType list" where
  "enum_NodeConnectionType = nodeConnectionTypes"

definition enum_all_NodeConnectionType :: "(NodeConnectionType \<Rightarrow> bool) \<Rightarrow> bool" where
  "enum_all_NodeConnectionType P = list_all P nodeConnectionTypes"

definition enum_ex_NodeConnectionType :: "(NodeConnectionType \<Rightarrow> bool) \<Rightarrow> bool" where
  "enum_ex_NodeConnectionType P = list_ex P nodeConnectionTypes"

instance
proof
  show "UNIV = set (enum_class.enum :: NodeConnectionType list)"
    by (simp add: enum_NodeConnectionType_def nodeConnectionTypes_UNIV)
  show "distinct (enum_class.enum :: NodeConnectionType list)"
    by (simp add: enum_NodeConnectionType_def nodeConnectionTypes_def)
qed (simp_all add: enum_all_NodeConnectionType_def enum_ex_NodeConnectionType_def list_all_iff
    list_ex_iff nodeConnectionTypes_UNIV)

end

section \<open>Values\<close>

datatype json =
    JNull
  | JBool bool
  | JNum rat
  | JStr string
  | JArr "json list"
  | JObj "(string \<times> json) list"

text \<open>An item is an object with at least the key \<open>json\<close>; \<open>{ json: {} }\<close> is the empty item.\<close>

type_synonym INodeExecutionData = "(string, json) js_map"

text \<open>The field of a JSON value: \<open>null\<close> has none and throws, a primitive value or an array has no own field.\<close>

definition json_get :: "json \<Rightarrow> string \<Rightarrow> json option result" where
  "json_get j k = (case j of JNull \<Rightarrow> Inl TypeError | JObj fs \<Rightarrow> Inr (map_of fs k) | _ \<Rightarrow> Inr None)"

text \<open>A value as a condition.\<close>

fun truthy :: "json \<Rightarrow> bool" where
  "truthy JNull = False"
| "truthy (JBool b) = b"
| "truthy (JNum x) = (x \<noteq> 0)"
| "truthy (JStr s) = (s \<noteq> [])"
| "truthy (JArr _) = True"
| "truthy (JObj _) = True"

definition truthy_at :: "json option \<Rightarrow> bool" where
  "truthy_at j = (case j of None \<Rightarrow> False | Some j \<Rightarrow> truthy j)"

definition empty_item :: INodeExecutionData where
  "empty_item = [(''json'', JObj [])]"

section \<open>Nodes and connections\<close>

datatype OnError = ContinueErrorOutput | ContinueRegularOutput | StopWorkflow

record INodeCredentialsDetails =
  cred_id :: "string option"
  cred_name :: string

record INode =
  node_ref :: nat
  node_id :: string
  node_name :: string
  node_typeVersion :: rat
  node_type :: string
  node_position :: "rat \<times> rat"
  node_disabled :: "bool option"
  node_notes :: "string option"
  node_notesInFlow :: "bool option"
  node_retryOnFail :: "bool option"
  node_maxTries :: "nat option"
  node_waitBetweenTries :: "nat option"
  node_alwaysOutputData :: "bool option"
  node_executeOnce :: "bool option"
  node_onError :: "OnError option"
  node_continueOnFail :: "bool option"
  node_parameters :: "(string, json) js_map"
  node_credentials :: "(string, INodeCredentialsDetails) js_map option"
  node_webhookId :: "string option"
  node_extendsCredential :: "string option"
  node_rewireOutputLogTo :: "NodeConnectionType option"
  node_forceCustomOperation :: "(string \<times> string) option"

text \<open>\<open>node.disabled\<close> in a condition: an absent flag counts as false.\<close>

definition is_disabled :: "INode \<Rightarrow> bool" where
  "is_disabled n \<longleftrightarrow> node_disabled n = Some True"

text \<open>A node with the given reference, name and type and no optional field set.\<close>

definition plain_node :: "nat \<Rightarrow> string \<Rightarrow> string \<Rightarrow> INode" where
  "plain_node r nm ty =
     \<lparr>node_ref = r, node_id = nm, node_name = nm, node_typeVersion = 1, node_type = ty,
      node_position = (0, 0), node_disabled = None, node_notes = None, node_notesInFlow = None,
      node_retryOnFail = None, node_maxTries = None, node_waitBetweenTries = None,
      node_alwaysOutputData = None, node_executeOnce = None, node_onError = None,
      node_continueOnFail = None, node_parameters = [], node_credentials = None,
      node_webhookId = None, node_extendsCredential = None, node_rewireOutputLogTo = None,
      node_forceCustomOperation = None\<rparr>"

lemma plain_node_simps [simp]:
  "node_ref (plain_node r nm ty) = r" "node_name (plain_node r nm ty) = nm"
  "node_type (plain_node r nm ty) = ty" "node_disabled (plain_node r nm ty) = None"
  "is_disabled (plain_node r nm ty) = False"
  "plain_node r nm ty = plain_node r' nm' ty' \<longleftrightarrow> r = r' \<and> nm = nm' \<and> ty = ty'"
  by (auto simp: plain_node_def is_disabled_def)

record IConnection =
  conn_node :: string
  conn_type :: NodeConnectionType
  conn_index :: nat

type_synonym NodeInputConnections = "IConnection list option list"
type_synonym INodeConnections = "(NodeConnectionType, NodeInputConnections) js_map"
type_synonym IConnections = "(string, INodeConnections) js_map"
type_synonym INodes = "(string, INode) js_map"

section \<open>Run data\<close>

datatype ExecutionStatus =
    StCanceled | StCrashed | StError | StNew | StRunning | StSuccess | StUnknown | StWaiting

datatype WorkflowExecuteMode =
    ModeCli | ModeError | ModeIntegrated | ModeInternal | ModeManual | ModeRetry | ModeTrigger
  | ModeWebhook | ModeEvaluation

record ISourceData =
  previousNode :: string
  previousNodeOutput :: "nat option"
  previousNodeRun :: "nat option"

record RelatedExecution =
  rel_executionId :: string
  rel_workflowId :: string

record ITaskSubRunMetadata =
  sub_node :: string
  sub_runIndex :: nat

record ITaskMetadata =
  meta_subRun :: "ITaskSubRunMetadata list option"
  meta_parentExecution :: "RelatedExecution option"
  meta_subExecution :: "RelatedExecution option"
  meta_subExecutionsCount :: "nat option"

type_synonym ITaskDataConnections =
  "(NodeConnectionType, INodeExecutionData list option list) js_map"
type_synonym ITaskDataConnectionsSource =
  "(NodeConnectionType, ISourceData option list) js_map"

record ITaskStartedData =
  startTime :: int
  executionIndex :: "nat option"
  task_source :: "ISourceData option list"
  task_hints :: "json list option"

record ITaskData = ITaskStartedData +
  executionTime :: int
  executionStatus :: "ExecutionStatus option"
  task_data :: "ITaskDataConnections option"
  task_inputOverride :: "ITaskDataConnections option"
  task_error :: "json option"
  task_metadata :: "ITaskMetadata option"

type_synonym IRunData = "(string, ITaskData list) js_map"
type_synonym IPinData = "(string, INodeExecutionData list) js_map"

record IExecuteData =
  exec_data :: ITaskDataConnections
  exec_metadata :: "ITaskMetadata option"
  exec_node :: INode
  exec_source :: "ITaskDataConnectionsSource option"

type_synonym IWaitingForExecution = "(string, (nat, ITaskDataConnections) js_map) js_map"
type_synonym IWaitingForExecutionSource =
  "(string, (nat, ITaskDataConnectionsSource) js_map) js_map"

text \<open>A task run with the given output data and no optional field set.\<close>

definition plain_task :: "ITaskDataConnections option \<Rightarrow> ITaskData" where
  "plain_task d =
     \<lparr>startTime = 0, executionIndex = None, task_source = [], task_hints = None,
      executionTime = 0, executionStatus = None, task_data = d, task_inputOverride = None,
      task_error = None, task_metadata = None\<rparr>"

lemma plain_task_simps [simp]:
  "task_data (plain_task d) = d" "executionIndex (plain_task d) = None"
  by (simp_all add: plain_task_def)

end
