(* ===== verification/Connections.thy ===== *)
theory Connections
  imports Interfaces
begin

text \<open>
  The connection tables of a workflow: \<^verbatim>\<open>packages/workflow/src/common/*.ts\<close>.

  A table maps a node name to its connections, per connection type and per output (or input)
  index. \<open>getConnectedNodes\<close> walks a table from a node; \<open>mapConnectionsByDestination\<close> turns the
  table indexed by source into the one indexed by destination.
\<close>

section \<open>Looking up connections\<close>

lemma IConnection_eta [simp]:
  "\<lparr>conn_node = conn_node c, conn_type = conn_type c, conn_index = conn_index c\<rparr> = (c :: IConnection)"
  by (cases c) simp


text \<open>\<open>arr.forEach(byIndex => byIndex?.forEach(...))\<close> visits these connections in this order.\<close>

definition flat_conns :: "NodeInputConnections \<Rightarrow> IConnection list" where
  "flat_conns arr = concat (map (\<lambda>o'. case o' of None \<Rightarrow> [] | Some l \<Rightarrow> l) arr)"

lemma flat_conns_set: "set (flat_conns arr) = {c. \<exists>l. Some l \<in> set arr \<and> c \<in> set l}"
  by (auto simp: flat_conns_def split: option.splits)

text \<open>\<open>NodeConnectionType | 'ALL' | 'ALL_NON_MAIN'\<close>.\<close>

datatype ConnectionFilter = OfType NodeConnectionType | AllTypes | AllNonMain

fun filter_types :: "ConnectionFilter \<Rightarrow> INodeConnections \<Rightarrow> NodeConnectionType list" where
  "filter_types AllTypes ic = js_keys ic"
| "filter_types AllNonMain ic = filter (\<lambda>t. t \<noteq> MainConn) (js_keys ic)"
| "filter_types (OfType t) ic = [t]"

section \<open>getConnectedNodes\<close>

text \<open>
  The merge of the nodes found below a connection: from the last to the first, a node already in
  the list is removed (its first occurrence only) and the node is put in front.
\<close>

definition merge_nodes :: "string list \<Rightarrow> string list \<Rightarrow> string list" where
  "merge_nodes add ret = foldr (\<lambda>p r. p # remove1 p r) add ret"

lemma merge_nodes_set [simp]: "set (merge_nodes add ret) = set add \<union> set ret"
proof (induction add)
  case Nil
  then show ?case by (simp add: merge_nodes_def)
next
  case (Cons a add)
  have "set (remove1 a r) \<union> {a} = set r \<union> {a}" for r :: "string list"
    by (induction r) auto
  then have "set (merge_nodes (a # add) ret) = set (merge_nodes add ret) \<union> {a}"
    by (simp add: merge_nodes_def)
  with Cons show ?case by auto
qed

definition next_depth :: "int \<Rightarrow> int" where
  "next_depth depth = (if depth = -1 then depth else depth - 1)"

text \<open>
  \<open>checked\<close> is the list of nodes on the way to \<open>nodeName\<close> (the code copies it before it adds the
  node, so it is a parameter, not shared state). The recursion ends because \<open>checked\<close> gains a key
  of the table at every level.
\<close>

function getConnectedNodes ::
    "IConnections \<Rightarrow> string \<Rightarrow> ConnectionFilter \<Rightarrow> int \<Rightarrow> string list \<Rightarrow> string list" where
  "getConnectedNodes cs nodeName ct depth checked =
     (if depth = 0 then []
      else case map_of cs nodeName of
        None \<Rightarrow> []
      | Some ic \<Rightarrow>
          fold (\<lambda>ty returnNodes.
            case map_of ic ty of
              None \<Rightarrow> returnNodes
            | Some arr \<Rightarrow>
                if nodeName \<in> set checked then returnNodes
                else fold (\<lambda>connection returnNodes.
                    if conn_node connection \<in> set (checked @ [nodeName]) then returnNodes
                    else merge_nodes
                      (getConnectedNodes cs (conn_node connection) ct (next_depth depth)
                         (checked @ [nodeName]))
                      (conn_node connection # returnNodes))
                  (flat_conns arr) returnNodes)
            (filter_types ct ic) [])"
  by pat_completeness auto
termination
proof (relation "measure (\<lambda>(cs, n, ct, d, checked). card (set (js_keys cs) - set checked))")
  fix cs :: IConnections and n ct d ch ic ty r arr c ret
  assume "map_of cs n = Some ic" and nch: "n \<notin> set ch"
  then have "n \<in> set (js_keys cs)" by (auto simp: js_keys_set)
  then have "set (js_keys cs) - set (ch @ [n]) \<subset> set (js_keys cs) - set ch"
    using nch by auto
  then have "card (set (js_keys cs) - set (ch @ [n])) < card (set (js_keys cs) - set ch)"
    by (rule psubset_card_mono[rotated]) simp
  then show "((cs, conn_node c, ct, next_depth d, ch @ [n]), cs, n, ct, d, ch)
      \<in> measure (\<lambda>(cs, n, ct, d, checked). card (set (js_keys cs) - set checked))"
    by simp
qed simp

declare getConnectedNodes.simps [simp del]

definition getChildNodes ::
    "IConnections \<Rightarrow> string \<Rightarrow> ConnectionFilter \<Rightarrow> int \<Rightarrow> string list" where
  "getChildNodes connectionsBySourceNode nodeName ty depth =
     getConnectedNodes connectionsBySourceNode nodeName ty depth []"

definition getParentNodes ::
    "IConnections \<Rightarrow> string \<Rightarrow> ConnectionFilter \<Rightarrow> int \<Rightarrow> string list" where
  "getParentNodes connectionsByDestinationNode nodeName ty depth =
     getConnectedNodes connectionsByDestinationNode nodeName ty depth []"

definition getNodeByName :: "INodes \<Rightarrow> string \<Rightarrow> INode option" where
  "getNodeByName nodes nm = map_of nodes nm"

text \<open>The overload of \<open>getNodeByName\<close> for an array of nodes: the first node with the name.\<close>

definition getNodeByNameArray :: "INode list \<Rightarrow> string \<Rightarrow> INode option" where
  "getNodeByNameArray nodes nm = find (\<lambda>n. node_name n = nm) nodes"

section \<open>mapConnectionsByDestination\<close>

text \<open>
  One connection \<open>ci\<close> at output \<open>i\<close> of type \<open>ty\<close> of node \<open>src\<close>: the destination's array is
  created and padded with empty arrays up to \<open>ci.index\<close>, where the reverse entry is pushed.
\<close>

definition push_at :: "nat \<Rightarrow> 'a \<Rightarrow> 'a list option list \<Rightarrow> 'a list option list" where
  "push_at k e arr =
     (let arr' = arr @ replicate (Suc k - length arr) (Some [])
      in arr'[k := map_option (\<lambda>l. l @ [e]) (arr' ! k)])"

definition addByDestination ::
    "string \<Rightarrow> NodeConnectionType \<Rightarrow> nat \<Rightarrow> IConnection \<Rightarrow> IConnections \<Rightarrow> IConnections" where
  "addByDestination src ty i ci ret =
     (let byType = (case map_of ret (conn_node ci) of None \<Rightarrow> [] | Some x \<Rightarrow> x);
          arr = (case map_of byType (conn_type ci) of None \<Rightarrow> [] | Some x \<Rightarrow> x);
          entry = \<lparr>conn_node = src, conn_type = ty, conn_index = i\<rparr>
      in js_put (conn_node ci)
           (js_put (conn_type ci) (push_at (conn_index ci) entry arr) byType) ret)"

definition mapConnectionsByDestination :: "IConnections \<Rightarrow> IConnections" where
  "mapConnectionsByDestination cs =
     fold (\<lambda>(src, ic).
       fold (\<lambda>(ty, arr).
         fold (\<lambda>(i, o').
           fold (addByDestination src ty i) (case o' of None \<Rightarrow> [] | Some l \<Rightarrow> l))
         (List.enumerate 0 arr)) ic) cs []"

section \<open>Correctness of getConnectedNodes\<close>

text \<open>The edges a filter lets through, as a relation on node names.\<close>

definition conn_edges :: "IConnections \<Rightarrow> ConnectionFilter \<Rightarrow> (string \<times> string) set" where
  "conn_edges cs ct =
     {(a, b). \<exists>ic ty arr c. map_of cs a = Some ic \<and> ty \<in> set (filter_types ct ic) \<and>
        map_of ic ty = Some arr \<and> c \<in> set (flat_conns arr) \<and> b = conn_node c}"

lemma getConnectedNodes_step:
  assumes "n \<notin> set ch"
  shows "set (getConnectedNodes cs n ct (-1) ch) =
    {m. \<exists>b. (n, b) \<in> conn_edges cs ct \<and> b \<notin> insert n (set ch) \<and>
       (m = b \<or> m \<in> set (getConnectedNodes cs b ct (-1) (ch @ [n])))}"
proof (cases "map_of cs n")
  case None
  then show ?thesis by (subst getConnectedNodes.simps) (simp add: conn_edges_def)
next
  case (Some ic)
  define below where "below c = (if conn_node c \<in> set (ch @ [n]) then {}
    else insert (conn_node c) (set (getConnectedNodes cs (conn_node c) ct (-1) (ch @ [n]))))" for c :: IConnection
  define visit where "visit = (\<lambda>(c::IConnection) ret. if conn_node c \<in> set (ch @ [n]) then ret
      else merge_nodes (getConnectedNodes cs (conn_node c) ct (next_depth (-1)) (ch @ [n]))
        (conn_node c # ret))"
  have inner: "set (fold visit xs r) = (\<Union>c \<in> set xs. below c) \<union> set r" for xs r
    by (rule fold_union_set) (auto simp: below_def visit_def next_depth_def)
  have outer: "set (fold (\<lambda>ty ret. case map_of ic ty of None \<Rightarrow> ret
      | Some arr \<Rightarrow> fold visit (flat_conns arr) ret) tys r) =
    (\<Union>ty \<in> set tys. case map_of ic ty of None \<Rightarrow> {}
      | Some arr \<Rightarrow> (\<Union>c \<in> set (flat_conns arr). below c)) \<union> set r" for tys r
    by (rule fold_union_set) (simp add: inner split: option.split)
  have "getConnectedNodes cs n ct (-1) ch = fold (\<lambda>ty ret. case map_of ic ty of None \<Rightarrow> ret
      | Some arr \<Rightarrow> fold visit (flat_conns arr) ret) (filter_types ct ic) []"
    using Some assms by (subst getConnectedNodes.simps) (simp add: visit_def cong: option.case_cong)
  then have "set (getConnectedNodes cs n ct (-1) ch) =
    (\<Union>ty \<in> set (filter_types ct ic). case map_of ic ty of None \<Rightarrow> {}
      | Some arr \<Rightarrow> (\<Union>c \<in> set (flat_conns arr). below c))"
    by (simp add: outer)
  also have "\<dots> = {m. \<exists>b. (n, b) \<in> conn_edges cs ct \<and> b \<notin> insert n (set ch) \<and>
       (m = b \<or> m \<in> set (getConnectedNodes cs b ct (-1) (ch @ [n])))}"
    using Some by (fastforce simp: conn_edges_def below_def split: option.splits if_splits)
  finally show ?thesis .
qed

lemma getConnectedNodes_avoid:
  "n \<notin> set ch \<Longrightarrow> set (getConnectedNodes cs n ct (-1) ch) =
     {m. (n, m) \<in> (avoid (conn_edges cs ct) (insert n (set ch)))\<^sup>+}"
proof (induction "card (set (js_keys cs) - set ch)" arbitrary: n ch rule: less_induct)
  case less
  have IH: "set (getConnectedNodes cs b ct (-1) (ch @ [n])) =
      {m. (b, m) \<in> (avoid (conn_edges cs ct) (insert b (insert n (set ch))))\<^sup>+}"
    if b: "(n, b) \<in> conn_edges cs ct" "b \<notin> insert n (set ch)" for b
  proof -
    have "n \<in> set (js_keys cs)" using b(1) by (auto simp: conn_edges_def js_keys_set)
    then have "set (js_keys cs) - set (ch @ [n]) \<subset> set (js_keys cs) - set ch"
      using less.prems by auto
    then have "card (set (js_keys cs) - set (ch @ [n])) < card (set (js_keys cs) - set ch)"
      by (rule psubset_card_mono[rotated]) simp
    from less.hyps[OF this, of b] b(2) show ?thesis by (simp add: insert_commute)
  qed
  show ?case
    unfolding getConnectedNodes_step[OF less.prems]
    using IH by (subst avoid_unfold) blast
qed

text \<open>The nodes found without a depth limit are exactly the nodes reachable from the start.\<close>

lemma getConnectedNodes_reachable:
  "set (getConnectedNodes cs n ct (-1) []) = {m. (n, m) \<in> (conn_edges cs ct)\<^sup>+} - {n}"
  by (simp add: getConnectedNodes_avoid avoid_start)

section \<open>Correctness of mapConnectionsByDestination\<close>

text \<open>The connections stored for a node, a connection type and an index; none when absent.\<close>

definition lookup_conns ::
    "IConnections \<Rightarrow> string \<Rightarrow> NodeConnectionType \<Rightarrow> nat \<Rightarrow> IConnection list" where
  "lookup_conns cs a ty i =
     (case map_of cs a of None \<Rightarrow> [] | Some ic \<Rightarrow>
      (case map_of ic ty of None \<Rightarrow> [] | Some arr \<Rightarrow>
        (case array_get arr i of None \<Rightarrow> [] | Some l \<Rightarrow> l)))"

text \<open>All connections of a table with where they start, in the order of the loops.\<close>

definition array_entries ::
    "string \<Rightarrow> NodeConnectionType \<Rightarrow> NodeInputConnections \<Rightarrow>
      (string \<times> NodeConnectionType \<times> nat \<times> IConnection) list" where
  "array_entries src ty arr =
     concat (map (\<lambda>(i, o'). map (\<lambda>ci. (src, ty, i, ci)) (case o' of None \<Rightarrow> [] | Some l \<Rightarrow> l))
       (List.enumerate 0 arr))"

definition table_entries ::
    "IConnections \<Rightarrow> (string \<times> NodeConnectionType \<times> nat \<times> IConnection) list" where
  "table_entries cs =
     concat (map (\<lambda>(src, ic). concat (map (\<lambda>(ty, arr). array_entries src ty arr) ic)) cs)"

text \<open>A table as a JavaScript object: no key twice on either level.\<close>

definition wf_table :: "IConnections \<Rightarrow> bool" where
  "wf_table cs \<longleftrightarrow> js_wf cs \<and> (\<forall>(a, ic) \<in> set cs. js_wf ic)"

definition dense_table :: "IConnections \<Rightarrow> bool" where
  "dense_table cs \<longleftrightarrow> (\<forall>a ic ty arr. map_of cs a = Some ic \<longrightarrow> map_of ic ty = Some arr \<longrightarrow> None \<notin> set arr)"

lemma fold_concat_map: "fold f (concat (map g xs)) = fold (\<lambda>x. fold f (g x)) xs"
  by (induction xs) auto

lemma mapConnectionsByDestination_entries:
  "mapConnectionsByDestination cs =
     fold (\<lambda>(src, ty, i, ci). addByDestination src ty i ci) (table_entries cs) []"
  unfolding mapConnectionsByDestination_def table_entries_def array_entries_def
  by (simp add: fold_concat_map fold_map comp_def case_prod_unfold)

text \<open>What is stored at an index, as a list: the reading of a dense array.\<close>

definition stored :: "'a list option list \<Rightarrow> nat \<Rightarrow> 'a list" where
  "stored arr i = (case array_get arr i of None \<Rightarrow> [] | Some l \<Rightarrow> l)"

lemma stored_nil [simp]: "stored [] i = []"
  by (simp add: stored_def array_get_def)

lemma stored_push_at:
  assumes "None \<notin> set arr"
  shows "stored (push_at k e arr) j = stored arr j @ (if j = k then [e] else [])"
proof -
  define arr' where "arr' = arr @ replicate (Suc k - length arr) (Some [])"
  have len: "k < length arr'" by (simp add: arr'_def)
  have no: "None \<notin> set arr'" using assms by (auto simp: arr'_def)
  have same: "stored arr' i = stored arr i" for i
    by (auto simp: stored_def arr'_def array_get_def nth_append)
  from len no have "arr' ! k \<noteq> None" using nth_mem[of k arr'] by metis
  then have "stored (arr'[k := map_option (\<lambda>l. l @ [e]) (arr' ! k)]) j =
      stored arr' j @ (if j = k then [e] else [])"
    using len by (auto simp: stored_def array_get_def)
  then show ?thesis by (simp add: push_at_def arr'_def[symmetric] same)
qed

lemma push_at_dense:
  assumes "None \<notin> set arr"
  shows "None \<notin> set (push_at k e arr)"
proof
  define arr' where "arr' = arr @ replicate (Suc k - length arr) (Some [])"
  assume "None \<in> set (push_at k e arr)"
  then have "None \<in> insert (map_option (\<lambda>l. l @ [e]) (arr' ! k)) (set arr')"
    using set_update_subset_insert by (fastforce simp: push_at_def arr'_def[symmetric])
  moreover have "None \<notin> set arr'" using assms by (auto simp: arr'_def)
  moreover have "arr' ! k \<in> set arr'" by (rule nth_mem) (simp add: arr'_def)
  ultimately show False by auto
qed

lemma dense_addByDestination:
  "dense_table ret \<Longrightarrow> dense_table (addByDestination src ty i ci ret)"
  unfolding dense_table_def addByDestination_def Let_def
  by (auto simp: push_at_dense split: option.splits if_splits)

lemma lookup_conns_stored:
  "lookup_conns cs a ty i = (case map_of cs a of None \<Rightarrow> [] | Some ic \<Rightarrow>
     stored (case map_of ic ty of None \<Rightarrow> [] | Some arr \<Rightarrow> arr) i)"
  by (auto simp: lookup_conns_def stored_def array_get_def split: option.splits)

lemma lookup_addByDestination:
  assumes "dense_table ret"
  shows "lookup_conns (addByDestination src ty i ci ret) b t j =
    lookup_conns ret b t j @
    (if (b, t, j) = (conn_node ci, conn_type ci, conn_index ci)
     then [\<lparr>conn_node = src, conn_type = ty, conn_index = i\<rparr>] else [])"
proof -
  define arr where "arr = (case map_of ret (conn_node ci) of None \<Rightarrow> []
    | Some x \<Rightarrow> (case map_of x (conn_type ci) of None \<Rightarrow> [] | Some y \<Rightarrow> y))"
  have "None \<notin> set arr"
  proof (cases "map_of ret (conn_node ci)")
    case (Some x)
    with assms show ?thesis
      by (cases "map_of x (conn_type ci)") (simp_all add: arr_def dense_table_def)
  qed (simp add: arr_def)
  note push = stored_push_at[OF this]
  show ?thesis
    using push by (auto simp: lookup_conns_stored addByDestination_def Let_def arr_def
        split: option.splits)
qed

text \<open>The whole function, exactly: every entry appears once, in the order of the loops.\<close>

lemma lookup_fold_addByDestination:
  "dense_table ret \<Longrightarrow>
   lookup_conns (fold (\<lambda>(src, ty, i, ci). addByDestination src ty i ci) es ret) b t j =
   lookup_conns ret b t j @
   [\<lparr>conn_node = src, conn_type = ty, conn_index = i\<rparr>.
     (src, ty, i, ci) \<leftarrow> es, ci = \<lparr>conn_node = b, conn_type = t, conn_index = j\<rparr>]"
proof (induction es arbitrary: ret)
  case Nil
  then show ?case by simp
next
  case (Cons e es)
  obtain src ty i ci where e: "e = (src, ty, i, ci)" by (metis prod_cases4)
  have ci: "(b, t, j) = (conn_node ci, conn_type ci, conn_index ci) \<longleftrightarrow>
      ci = \<lparr>conn_node = b, conn_type = t, conn_index = j\<rparr>"
    by (cases ci) auto
  show ?case
    using Cons.IH[OF dense_addByDestination[OF Cons.prems]]
      lookup_addByDestination[OF Cons.prems] by (auto simp: e ci)
qed

lemma mapConnectionsByDestination_lookup:
  "lookup_conns (mapConnectionsByDestination cs) b t j =
   [\<lparr>conn_node = src, conn_type = ty, conn_index = i\<rparr>.
     (src, ty, i, ci) \<leftarrow> table_entries cs, ci = \<lparr>conn_node = b, conn_type = t, conn_index = j\<rparr>]"
proof -
  have "dense_table []" by (simp add: dense_table_def)
  from lookup_fold_addByDestination[OF this] show ?thesis
    by (simp add: mapConnectionsByDestination_entries lookup_conns_def)
qed

lemma table_entries_lookup:
  assumes "wf_table cs"
  shows "(a, ty, i, c) \<in> set (table_entries cs) \<longleftrightarrow> c \<in> set (lookup_conns cs a ty i)"
proof -
  have "(a, ty, i, c) \<in> set (table_entries cs) \<longleftrightarrow>
      (\<exists>ic arr l. (a, ic) \<in> set cs \<and> (ty, arr) \<in> set ic \<and> (i, Some l) \<in> set (List.enumerate 0 arr) \<and> c \<in> set l)"
    by (fastforce simp: table_entries_def array_entries_def split: option.splits)
  also have "\<dots> \<longleftrightarrow> (\<exists>ic arr l. map_of cs a = Some ic \<and> map_of ic ty = Some arr \<and>
      i < length arr \<and> arr ! i = Some l \<and> c \<in> set l)"
  proof -
    have "(a, ic) \<in> set cs \<and> (ty, arr) \<in> set ic \<longleftrightarrow>
        map_of cs a = Some ic \<and> map_of ic ty = Some arr" for ic arr
      using assms js_get_iff[of cs a ic] js_get_iff[of ic ty arr] by (auto simp: wf_table_def)
    then show ?thesis by (auto simp: in_set_enumerate_eq)
  qed
  also have "\<dots> \<longleftrightarrow> c \<in> set (lookup_conns cs a ty i)"
  proof (cases "map_of cs a")
    case (Some ic)
    then show ?thesis
    proof (cases "map_of ic ty")
      case arr: (Some arr)
      with Some show ?thesis by (cases "arr ! i") (simp_all add: lookup_conns_def array_get_def)
    qed (simp add: lookup_conns_def)
  qed (simp add: lookup_conns_def)
  finally show ?thesis .
qed

text \<open>The two tables hold the same connections, read from their two ends.\<close>

lemma mapConnectionsByDestination_inverts:
  assumes "wf_table cs"
  shows "\<lparr>conn_node = a, conn_type = ty, conn_index = i\<rparr>
      \<in> set (lookup_conns (mapConnectionsByDestination cs) b t j) \<longleftrightarrow>
    \<lparr>conn_node = b, conn_type = t, conn_index = j\<rparr> \<in> set (lookup_conns cs a ty i)"
  by (force simp: mapConnectionsByDestination_lookup table_entries_lookup[OF assms, symmetric])

lemma wf_addByDestination: "wf_table ret \<Longrightarrow> wf_table (addByDestination src ty i ci ret)"
proof -
  assume wf: "wf_table ret"
  have "js_wf (case map_of ret (conn_node ci) of None \<Rightarrow> [] | Some x \<Rightarrow> x)"
    using wf by (auto simp: wf_table_def split: option.split dest: map_of_SomeD)
  moreover have "set (js_put k v ret) \<subseteq> insert (k, v) (set ret)" for k v
    by (induction ret) auto
  ultimately show ?thesis
    using wf by (fastforce simp: wf_table_def addByDestination_def Let_def)
qed

lemma wf_mapConnectionsByDestination: "wf_table (mapConnectionsByDestination cs)"
proof -
  have "wf_table ret \<Longrightarrow>
      wf_table (fold (\<lambda>(src, ty, i, ci). addByDestination src ty i ci) es ret)" for es ret
    by (induction es arbitrary: ret) (auto simp: wf_addByDestination)
  moreover have "wf_table []" by (simp add: wf_table_def)
  ultimately show ?thesis by (simp only: mapConnectionsByDestination_entries)
qed

text \<open>Inverting twice gives back the same connections.\<close>

lemma mapConnectionsByDestination_twice:
  assumes "wf_table cs"
  shows "set (lookup_conns (mapConnectionsByDestination (mapConnectionsByDestination cs)) a ty i) =
    set (lookup_conns cs a ty i)"
proof -
  have "c \<in> set (lookup_conns (mapConnectionsByDestination (mapConnectionsByDestination cs)) a ty i)
      \<longleftrightarrow> c \<in> set (lookup_conns cs a ty i)" for c :: IConnection
    using mapConnectionsByDestination_inverts[OF wf_mapConnectionsByDestination[of cs],
        of "conn_node c" "conn_type c" "conn_index c" a ty i]
      mapConnectionsByDestination_inverts[OF assms, of a ty i "conn_node c" "conn_type c" "conn_index c"]
    by simp
  then show ?thesis by blast
qed

section \<open>Properties\<close>

text \<open>
  Without a depth limit, \<open>getConnectedNodes\<close> returns exactly the nodes, other than the start,
  that connections of the wanted types lead to.
\<close>

theorem getConnectedNodes_exact:
  "set (getConnectedNodes cs n ct (-1) []) = {m. (n, m) \<in> (conn_edges cs ct)\<^sup>+} - {n}"
  by (rule getConnectedNodes_reachable)

definition sample_table :: IConnections where
  "sample_table = [(''a'', [(MainConn, [None, Some [\<lparr>conn_node = ''b'', conn_type = MainConn, conn_index = 2\<rparr>]])])]"

text \<open>
  The table by destination holds the same connections as the table by source, read from their
  other end, and building it twice gives back the first table's connections.
\<close>

theorem mapConnectionsByDestination_inverse:
  assumes "wf_table cs"
  shows "(\<lparr>conn_node = a, conn_type = ty, conn_index = i\<rparr>
        \<in> set (lookup_conns (mapConnectionsByDestination cs) b t j) \<longleftrightarrow>
      \<lparr>conn_node = b, conn_type = t, conn_index = j\<rparr> \<in> set (lookup_conns cs a ty i)) \<and>
    set (lookup_conns (mapConnectionsByDestination (mapConnectionsByDestination cs)) a ty i) =
      set (lookup_conns cs a ty i)"
  using mapConnectionsByDestination_inverts[OF assms] mapConnectionsByDestination_twice[OF assms] by blast

lemma mapConnectionsByDestination_inverse_witness:
  "wf_table sample_table \<and> \<lparr>conn_node = ''a'', conn_type = MainConn, conn_index = 1\<rparr>
     \<in> set (lookup_conns (mapConnectionsByDestination sample_table) ''b'' MainConn 2)"
proof -
  have wf: "wf_table sample_table" by code_simp
  have "\<lparr>conn_node = ''b'', conn_type = MainConn, conn_index = 2\<rparr> \<in> set (lookup_conns sample_table ''a'' MainConn 1)"
    by code_simp
  with wf show ?thesis
    using mapConnectionsByDestination_inverse[OF wf, of "''a''" MainConn 1 "''b''" MainConn 2] by blast
qed

end
