(* ===== verification/Workflow.thy ===== *)
theory Workflow
  imports Connections
begin

text \<open>
  The workflow object: \<^verbatim>\<open>packages/workflow/src/workflow.ts\<close> (class \<open>Workflow\<close>): its
  nodes by name, the two connection tables and the queries the execution engine makes on them.

  A node type is looked up through \<open>w_nodeTypes\<close>, the interface \<open>INodeTypes\<close> the caller hands to
  the constructor; of a node type the model keeps the fields the modelled code reads. The
  parameter defaults the constructor fills in come from \<open>NodeHelpers.getNodeParameters\<close>, which is
  an argument of \<open>new_workflow\<close>.
\<close>

section \<open>Node types\<close>

text \<open>An output is a connection type or a configuration object with an optional type.\<close>

datatype NodeOutput = OutputName NodeConnectionType | OutputConf "NodeConnectionType option"

text \<open>\<open>outputs\<close> is a list or an expression string that is only evaluated at run time.\<close>

datatype NodeOutputs = OutputList "NodeOutput list" | OutputExpr string

record INodeType =
  nt_name :: string
  nt_group :: "string list"
  nt_outputs :: NodeOutputs
  nt_trigger :: bool
  nt_poll :: bool

type_synonym INodeTypes = "string \<Rightarrow> rat \<Rightarrow> INodeType option"

section \<open>The workflow object\<close>

record Workflow =
  w_id :: string
  w_name :: "string option"
  w_nodes :: INodes
  w_bySource :: IConnections
  w_byDestination :: IConnections
  w_nodeTypes :: INodeTypes
  w_active :: bool
  w_settings :: "(string, json) js_map"
  w_staticData :: "(string, json) js_map"
  w_testStaticData :: "(string, json) js_map option"
  w_pinData :: "IPinData option"

record WorkflowParameters =
  wp_id :: string
  wp_name :: "string option"
  wp_nodes :: "INode list"
  wp_connections :: IConnections
  wp_active :: bool
  wp_nodeTypes :: INodeTypes
  wp_staticData :: "(string, json) js_map option"
  wp_settings :: "(string, json) js_map option"
  wp_pinData :: "IPinData option"

definition fill_defaults ::
    "(INodeType \<Rightarrow> INode \<Rightarrow> (string, json) js_map option) \<Rightarrow> INodeTypes \<Rightarrow> INode \<Rightarrow> INode" where
  "fill_defaults getNodeParameters types n =
     (case types (node_type n) (node_typeVersion n) of
        None \<Rightarrow> n
      | Some nt \<Rightarrow> n\<lparr>node_parameters :=
          (case getNodeParameters nt n of None \<Rightarrow> [] | Some p \<Rightarrow> p)\<rparr>)"

definition new_workflow ::
    "(INodeType \<Rightarrow> INode \<Rightarrow> (string, json) js_map option) \<Rightarrow> WorkflowParameters \<Rightarrow> Workflow" where
  "new_workflow getNodeParameters p =
     \<lparr>w_id = wp_id p, w_name = wp_name p,
      w_nodes = fold (\<lambda>n m. js_put (node_name n) (fill_defaults getNodeParameters (wp_nodeTypes p) n) m)
        (wp_nodes p) [],
      w_bySource = wp_connections p,
      w_byDestination = mapConnectionsByDestination (wp_connections p),
      w_nodeTypes = wp_nodeTypes p,
      w_active = wp_active p,
      w_settings = (case wp_settings p of None \<Rightarrow> [] | Some s \<Rightarrow> s),
      w_staticData = (case wp_staticData p of None \<Rightarrow> [] | Some s \<Rightarrow> s),
      w_testStaticData = None,
      w_pinData = wp_pinData p\<rparr>"

definition w_getNode :: "Workflow \<Rightarrow> string \<Rightarrow> INode option" where
  "w_getNode w nm = getNodeByName (w_nodes w) nm"

definition w_getNodes :: "Workflow \<Rightarrow> string list \<Rightarrow> INode list" where
  "w_getNodes w names = List.map_filter (w_getNode w) names"

definition w_getPinDataOfNode :: "Workflow \<Rightarrow> string \<Rightarrow> INodeExecutionData list option" where
  "w_getPinDataOfNode w nm = (case w_pinData w of None \<Rightarrow> None | Some pd \<Rightarrow> map_of pd nm)"

definition queryNodes :: "Workflow \<Rightarrow> (INodeType \<Rightarrow> bool) \<Rightarrow> INode list" where
  "queryNodes w check =
     filter (\<lambda>n. \<not> is_disabled n \<and>
        (case w_nodeTypes w (node_type n) (node_typeVersion n) of None \<Rightarrow> False | Some nt \<Rightarrow> check nt))
       (js_values (w_nodes w))"

definition getTriggerNodes :: "Workflow \<Rightarrow> INode list" where
  "getTriggerNodes w = queryNodes w nt_trigger"

definition getPollNodes :: "Workflow \<Rightarrow> INode list" where
  "getPollNodes w = queryNodes w nt_poll"

definition w_getChildNodes :: "Workflow \<Rightarrow> string \<Rightarrow> ConnectionFilter \<Rightarrow> int \<Rightarrow> string list" where
  "w_getChildNodes w nm ty depth = getChildNodes (w_bySource w) nm ty depth"

definition w_getParentNodes :: "Workflow \<Rightarrow> string \<Rightarrow> ConnectionFilter \<Rightarrow> int \<Rightarrow> string list" where
  "w_getParentNodes w nm ty depth = getParentNodes (w_byDestination w) nm ty depth"

text \<open>\<open>NodeHelpers.isTool\<close>: the first output that is a plain name decides.\<close>

fun outputs_tool :: "NodeOutput list \<Rightarrow> bool" where
  "outputs_tool [] = False"
| "outputs_tool (OutputName t # _) = (t = AiTool)"
| "outputs_tool (OutputConf t # outs) = (if t = Some AiTool then True else outputs_tool outs)"

fun is_infix :: "string \<Rightarrow> string \<Rightarrow> bool" where
  "is_infix p [] = (p = [])"
| "is_infix p (c # cs) = (take (length p) (c # cs) = p \<or> is_infix p cs)"

definition isTool :: "INodeType \<Rightarrow> (string, json) js_map \<Rightarrow> bool" where
  "isTool nt params =
     (if is_infix ''vectorStore'' (nt_name nt)
      then map_of params ''mode'' = Some (JStr ''retrieve-as-tool'')
      else case nt_outputs nt of OutputList outs \<Rightarrow> outputs_tool outs | OutputExpr _ \<Rightarrow> False)"

end
