(* ===== verification/DirectedGraph.thy ===== *)
theory DirectedGraph
  imports Workflow
begin

text \<open>
  The editable graph of the partial execution: class \<open>DirectedGraph\<close> of
  \<^verbatim>\<open>packages/core/src/execution-engine/partial-execution-utils/directed-graph.ts\<close>.

  Nodes and connections are two insertion-ordered maps; a connection's key is the string that
  \<open>makeKey\<close> builds. Operations that assert (\<open>a.ok\<close>) return a result. \<open>wf_graph\<close> is the class
  invariant: every key belongs to its value and every connection joins nodes of the graph.
\<close>

section \<open>Data\<close>

record GraphConnection =
  gc_from :: INode
  gc_to :: INode
  gc_type :: NodeConnectionType
  gc_outputIndex :: nat
  gc_inputIndex :: nat

record DirectedGraph =
  g_nodes :: "(string, INode) js_map"
  g_connections :: "(string, GraphConnection) js_map"

text \<open>What \<open>addConnection\<close> takes: type and indices may be left out.\<close>

record ConnectionInput =
  ci_from :: INode
  ci_to :: INode
  ci_type :: "NodeConnectionType option"
  ci_outputIndex :: "nat option"
  ci_inputIndex :: "nat option"

definition new_graph :: DirectedGraph where
  "new_graph = \<lparr>g_nodes = [], g_connections = []\<rparr>"

definition makeKey :: "GraphConnection \<Rightarrow> string" where
  "makeKey c = node_name (gc_from c) @ ''-'' @ conn_type_str (gc_type c) @ ''-'' @
     nat_str (gc_outputIndex c) @ ''-'' @ nat_str (gc_inputIndex c) @ ''-'' @ node_name (gc_to c)"

section \<open>Operations\<close>

definition hasNode :: "DirectedGraph \<Rightarrow> string \<Rightarrow> bool" where
  "hasNode g nm = js_has (g_nodes g) nm"

definition getNodesByNames :: "DirectedGraph \<Rightarrow> string list \<Rightarrow> INode list" where
  "getNodesByNames g names =
     fold (\<lambda>nm nodes. case map_of (g_nodes g) nm of None \<Rightarrow> nodes | Some n \<Rightarrow> set_add n nodes) names []"

definition getConnections :: "DirectedGraph \<Rightarrow> INode option \<Rightarrow> GraphConnection list" where
  "getConnections g to' =
     filter (\<lambda>c. case to' of None \<Rightarrow> True | Some n \<Rightarrow> gc_to c = n) (js_values (g_connections g))"

definition addNode :: "INode \<Rightarrow> DirectedGraph \<Rightarrow> DirectedGraph" where
  "addNode n g = g\<lparr>g_nodes := js_put (node_name n) n (g_nodes g)\<rparr>"

definition addNodes :: "INode list \<Rightarrow> DirectedGraph \<Rightarrow> DirectedGraph" where
  "addNodes ns g = fold addNode ns g"

text \<open>\<open>this.nodes.get(node.name) === node\<close>\<close>

definition in_graph :: "DirectedGraph \<Rightarrow> INode \<Rightarrow> bool" where
  "in_graph g n \<longleftrightarrow> map_of (g_nodes g) (node_name n) = Some n"

definition getDirectChildConnections :: "DirectedGraph \<Rightarrow> INode \<Rightarrow> GraphConnection list result" where
  "getDirectChildConnections g n =
     rbind (assert_ok (in_graph g n))
       (\<lambda>_. Inr (filter (\<lambda>c. gc_from c = n) (js_values (g_connections g))))"

definition getDirectParentConnections :: "DirectedGraph \<Rightarrow> INode \<Rightarrow> GraphConnection list result" where
  "getDirectParentConnections g n =
     rbind (assert_ok (in_graph g n))
       (\<lambda>_. Inr (filter (\<lambda>c. gc_to c = n) (js_values (g_connections g))))"

definition complete_input :: "ConnectionInput \<Rightarrow> GraphConnection" where
  "complete_input ci =
     \<lparr>gc_from = ci_from ci, gc_to = ci_to ci,
      gc_type = (case ci_type ci of None \<Rightarrow> MainConn | Some t \<Rightarrow> t),
      gc_outputIndex = (case ci_outputIndex ci of None \<Rightarrow> 0 | Some i \<Rightarrow> i),
      gc_inputIndex = (case ci_inputIndex ci of None \<Rightarrow> 0 | Some i \<Rightarrow> i)\<rparr>"

definition put_connection :: "GraphConnection \<Rightarrow> DirectedGraph \<Rightarrow> DirectedGraph" where
  "put_connection c g = g\<lparr>g_connections := js_put (makeKey c) c (g_connections g)\<rparr>"

definition addConnection :: "ConnectionInput \<Rightarrow> DirectedGraph \<Rightarrow> DirectedGraph result" where
  "addConnection ci g =
     rbind (assert_ok (in_graph g (ci_from ci))) (\<lambda>_.
     rbind (assert_ok (in_graph g (ci_to ci))) (\<lambda>_.
     Inr (put_connection (complete_input ci) g)))"

text \<open>A complete connection passed as an input, as \<open>clone\<close> and \<open>findSubgraph\<close> do.\<close>

definition input_of :: "GraphConnection \<Rightarrow> ConnectionInput" where
  "input_of c =
     \<lparr>ci_from = gc_from c, ci_to = gc_to c, ci_type = Some (gc_type c),
      ci_outputIndex = Some (gc_outputIndex c), ci_inputIndex = Some (gc_inputIndex c)\<rparr>"

definition addConnections :: "ConnectionInput list \<Rightarrow> DirectedGraph \<Rightarrow> DirectedGraph result" where
  "addConnections inputs g = rfold addConnection inputs g"

text \<open>
  \<open>removeNode\<close> without reconnecting drops the connections at the node, then the node. With
  \<open>reconnectConnections\<close> every incoming connection is joined to every outgoing one, except those
  the skip function names, and the new connections are returned.
\<close>

definition drop_connections_at :: "INode \<Rightarrow> DirectedGraph \<Rightarrow> DirectedGraph" where
  "drop_connections_at n g =
     g\<lparr>g_connections := filter (\<lambda>(_, c). \<not> (gc_to c = n \<or> gc_from c = n)) (g_connections g)\<rparr>"

definition removeNode :: "INode \<Rightarrow> DirectedGraph \<Rightarrow> DirectedGraph" where
  "removeNode n g = (drop_connections_at n g)\<lparr>g_nodes := js_del (node_name n) (g_nodes g)\<rparr>"

definition join_connections :: "GraphConnection \<Rightarrow> GraphConnection \<Rightarrow> GraphConnection" where
  "join_connections inc out = inc\<lparr>gc_to := gc_to out, gc_inputIndex := gc_inputIndex out\<rparr>"

definition bridging_connections ::
    "(GraphConnection \<Rightarrow> bool) \<Rightarrow> GraphConnection list \<Rightarrow> GraphConnection list \<Rightarrow> GraphConnection list" where
  "bridging_connections skip incs outs =
     [join_connections inc out. inc \<leftarrow> incs, \<not> skip inc, out \<leftarrow> outs, \<not> skip out]"

definition removeNodeReconnect ::
    "(GraphConnection \<Rightarrow> bool) \<Rightarrow> INode \<Rightarrow> DirectedGraph \<Rightarrow> (DirectedGraph \<times> GraphConnection list) result" where
  "removeNodeReconnect skip n g =
     rbind (getDirectParentConnections g n) (\<lambda>incs.
     rbind (getDirectChildConnections g n) (\<lambda>outs.
       let new = bridging_connections skip incs outs;
           g' = fold put_connection new (drop_connections_at n g)
       in Inr (g'\<lparr>g_nodes := js_del (node_name n) (g_nodes g')\<rparr>, new)))"

definition getConnection ::
    "DirectedGraph \<Rightarrow> INode \<Rightarrow> nat \<Rightarrow> NodeConnectionType \<Rightarrow> nat \<Rightarrow> INode \<Rightarrow> GraphConnection option" where
  "getConnection g from' outputIndex ty inputIndex to' =
     map_of (g_connections g)
       (makeKey \<lparr>gc_from = from', gc_to = to', gc_type = ty, gc_outputIndex = outputIndex,
          gc_inputIndex = inputIndex\<rparr>)"

definition clone :: "DirectedGraph \<Rightarrow> DirectedGraph result" where
  "clone g = addConnections (map input_of (getConnections g None))
     (addNodes (js_values (g_nodes g)) new_graph)"

section \<open>Import and export\<close>

definition fromWorkflow :: "Workflow \<Rightarrow> DirectedGraph result" where
  "fromWorkflow w =
     rfold (\<lambda>(fromName, ic) g.
       case w_getNode w fromName of
         None \<Rightarrow> Inl AssertionError
       | Some from' \<Rightarrow>
           rfold (\<lambda>(ty, arr) g.
             rfold (\<lambda>(i, conns) g.
               rfold (\<lambda>c g.
                 case w_getNode w (conn_node c) of
                   None \<Rightarrow> Inl AssertionError
                 | Some to' \<Rightarrow>
                     addConnection \<lparr>ci_from = from', ci_to = to', ci_type = Some ty,
                       ci_outputIndex = Some i, ci_inputIndex = Some (conn_index c)\<rparr> g)
               (case conns of None \<Rightarrow> [] | Some l \<Rightarrow> l) g)
             (List.enumerate 0 arr) g)
           ic g)
     (w_bySource w) (addNodes (js_values (w_nodes w)) new_graph)"

text \<open>
  \<open>toIConnections\<close>: the entry of a source node is created with the type of its first connection
  only, so a later connection of another type indexes \<open>undefined\<close> and throws.
\<close>

definition addIConnection :: "GraphConnection \<Rightarrow> IConnections \<Rightarrow> IConnections result" where
  "addIConnection c res =
     (let byType = (case map_of res (node_name (gc_from c)) of
                      None \<Rightarrow> [(gc_type c, [])] | Some bt \<Rightarrow> bt)
      in case map_of byType (gc_type c) of
           None \<Rightarrow> Inl TypeError
         | Some arr \<Rightarrow>
             let grp = (case array_get arr (gc_outputIndex c) of None \<Rightarrow> [] | Some l \<Rightarrow> l);
                 entry = \<lparr>conn_node = node_name (gc_to c), conn_type = gc_type c,
                          conn_index = gc_inputIndex c\<rparr>
             in Inr (js_put (node_name (gc_from c))
                  (js_put (gc_type c) (array_put (gc_outputIndex c) (Some (grp @ [entry])) arr) byType)
                  res))"

definition toIConnections :: "DirectedGraph \<Rightarrow> IConnections result" where
  "toIConnections g = rfold addIConnection (js_values (g_connections g)) []"

definition toWorkflow ::
    "(INodeType \<Rightarrow> INode \<Rightarrow> (string, json) js_map option) \<Rightarrow> WorkflowParameters \<Rightarrow> DirectedGraph \<Rightarrow>
      Workflow result" where
  "toWorkflow getNodeParameters p g =
     rbind (toIConnections g) (\<lambda>conns.
       Inr (new_workflow getNodeParameters
         (p\<lparr>wp_nodes := js_values (g_nodes g), wp_connections := conns\<rparr>)))"

section \<open>The class invariant\<close>

abbreviation graph_nodes :: "DirectedGraph \<Rightarrow> INode set" where
  "graph_nodes g \<equiv> set (js_values (g_nodes g))"

abbreviation graph_conns :: "DirectedGraph \<Rightarrow> GraphConnection set" where
  "graph_conns g \<equiv> set (js_values (g_connections g))"

definition wf_graph :: "DirectedGraph \<Rightarrow> bool" where
  "wf_graph g \<longleftrightarrow> js_wf (g_nodes g) \<and> js_wf (g_connections g) \<and>
     (\<forall>(k, n) \<in> set (g_nodes g). k = node_name n) \<and>
     (\<forall>(k, c) \<in> set (g_connections g). k = makeKey c \<and> in_graph g (gc_from c) \<and> in_graph g (gc_to c))"

lemma wf_graphD:
  assumes "wf_graph g"
  shows "js_wf (g_nodes g)" "js_wf (g_connections g)"
    "\<And>k n. map_of (g_nodes g) k = Some n \<Longrightarrow> k = node_name n"
    "\<And>k c. map_of (g_connections g) k = Some c \<Longrightarrow> k = makeKey c"
    "\<And>k c. map_of (g_connections g) k = Some c \<Longrightarrow> in_graph g (gc_from c)"
    "\<And>k c. map_of (g_connections g) k = Some c \<Longrightarrow> in_graph g (gc_to c)"
  using assms unfolding wf_graph_def by (fastforce dest: map_of_SomeD)+

lemma wf_graphI:
  assumes "js_wf (g_nodes g)" "js_wf (g_connections g)"
    "\<And>k n. map_of (g_nodes g) k = Some n \<Longrightarrow> k = node_name n"
    "\<And>k c. map_of (g_connections g) k = Some c \<Longrightarrow>
       k = makeKey c \<and> in_graph g (gc_from c) \<and> in_graph g (gc_to c)"
  shows "wf_graph g"
  using assms unfolding wf_graph_def by (fastforce simp: js_get_iff)

lemma in_graph_iff: "wf_graph g \<Longrightarrow> in_graph g n \<longleftrightarrow> n \<in> graph_nodes g"
  using wf_graphD(1,3)[of g] by (auto simp: in_graph_def js_values_set ran_def)

lemma in_graph_unique: "in_graph g n \<Longrightarrow> in_graph g m \<Longrightarrow> node_name n = node_name m \<Longrightarrow> n = m"
  by (simp add: in_graph_def)

lemma graph_conns_iff: "wf_graph g \<Longrightarrow> c \<in> graph_conns g \<longleftrightarrow> map_of (g_connections g) (makeKey c) = Some c"
  using wf_graphD(2,4)[of g] by (auto simp: js_values_set ran_def)

lemma graph_conns_in:
  assumes "wf_graph g" "c \<in> graph_conns g"
  shows "in_graph g (gc_from c)" "in_graph g (gc_to c)"
  using assms wf_graphD(5,6)[of g] by (auto simp: graph_conns_iff)

lemma wf_new_graph [simp]: "wf_graph new_graph"
  by (simp add: wf_graph_def new_graph_def)

lemma wf_addNode:
  assumes wf: "wf_graph g" and new: "map_of (g_nodes g) (node_name n) \<in> {None, Some n}"
  shows "wf_graph (addNode n g)"
proof (rule wf_graphI)
  have mono: "in_graph g m \<Longrightarrow> in_graph (addNode n g) m" for m
    using new by (auto simp: in_graph_def addNode_def)
  fix k c assume "map_of (g_connections (addNode n g)) k = Some c"
  then show "k = makeKey c \<and> in_graph (addNode n g) (gc_from c) \<and> in_graph (addNode n g) (gc_to c)"
    using wf_graphD(4-6)[OF wf] mono by (auto simp: addNode_def)
qed (use wf_graphD[OF wf] in \<open>auto simp: addNode_def split: if_splits\<close>)

lemma in_graph_put [simp]: "in_graph (put_connection c g) n = in_graph g n"
  by (simp add: in_graph_def put_connection_def)

lemma g_nodes_put [simp]: "g_nodes (put_connection c g) = g_nodes g"
  by (simp add: put_connection_def)

lemma wf_put_connection:
  assumes wf: "wf_graph g" and ends: "in_graph g (gc_from c)" "in_graph g (gc_to c)"
  shows "wf_graph (put_connection c g)"
proof (rule wf_graphI)
  fix k c' assume "map_of (g_connections (put_connection c g)) k = Some c'"
  then have "k = makeKey c \<and> c' = c \<or> map_of (g_connections g) k = Some c'"
    by (auto simp: put_connection_def split: if_splits)
  then show "k = makeKey c' \<and> in_graph (put_connection c g) (gc_from c') \<and>
      in_graph (put_connection c g) (gc_to c')"
    using wf_graphD(4-6)[OF wf] ends unfolding in_graph_put by blast
qed (use wf_graphD(1-3)[OF wf] in \<open>simp_all add: put_connection_def\<close>)

lemma addConnection_Inr:
  "addConnection ci g = Inr g' \<longleftrightarrow>
     in_graph g (ci_from ci) \<and> in_graph g (ci_to ci) \<and> g' = put_connection (complete_input ci) g"
  by (auto simp: addConnection_def result_simps)

lemma complete_input_of [simp]: "complete_input (input_of c) = c"
  by (simp add: complete_input_def input_of_def)

lemma complete_input_simps [simp]:
  "gc_from (complete_input ci) = ci_from ci" "gc_to (complete_input ci) = ci_to ci"
  by (simp_all add: complete_input_def)

lemma wf_addConnection: "wf_graph g \<Longrightarrow> addConnection ci g = Inr g' \<Longrightarrow> wf_graph g'"
  by (auto simp: addConnection_Inr intro: wf_put_connection)

lemma in_graph_fold_put [simp]: "in_graph (fold put_connection cs g) n = in_graph g n"
  by (induction cs arbitrary: g) auto

lemma g_nodes_fold_put [simp]: "g_nodes (fold put_connection cs g) = g_nodes g"
  by (induction cs arbitrary: g) auto

lemma wf_fold_put:
  assumes "wf_graph g" "\<And>c. c \<in> set cs \<Longrightarrow> in_graph g (gc_from c) \<and> in_graph g (gc_to c)"
  shows "wf_graph (fold put_connection cs g)"
  using assms by (induction cs arbitrary: g) (auto simp: wf_put_connection)

lemma map_of_filter_values:
  "js_wf m \<Longrightarrow> map_of (filter (\<lambda>(_, v). P v) m) k = (case map_of m k of None \<Rightarrow> None
     | Some v \<Rightarrow> if P v then Some v else None)"
  by (induction m) (auto simp: js_wf_def image_iff split: option.splits intro: map_of_eq_None_iff[THEN iffD2])

lemma drop_connections_at_get:
  "wf_graph g \<Longrightarrow> map_of (g_connections (drop_connections_at n g)) k =
     (case map_of (g_connections g) k of None \<Rightarrow> None
      | Some c \<Rightarrow> if gc_to c = n \<or> gc_from c = n then None else Some c)"
  using map_of_filter_values[OF wf_graphD(2), of g "\<lambda>c. \<not> (gc_to c = n \<or> gc_from c = n)" k]
  by (auto simp: drop_connections_at_def split: option.splits)

lemma drop_connections_at_simps [simp]:
  "g_nodes (drop_connections_at n g) = g_nodes g"
  "in_graph (drop_connections_at n g) m = in_graph g m"
  by (simp_all add: drop_connections_at_def in_graph_def)

lemma js_wf_filter: "js_wf m \<Longrightarrow> js_wf (filter P m)"
  by (simp add: js_wf_def distinct_map_filter)

lemma wf_drop_connections_at: "wf_graph g \<Longrightarrow> wf_graph (drop_connections_at n g)"
proof (rule wf_graphI)
  assume wf: "wf_graph g"
  note wd = wf_graphD[OF wf]
  fix k c assume "map_of (g_connections (drop_connections_at n g)) k = Some c"
  then have "map_of (g_connections g) k = Some c"
    by (auto simp: drop_connections_at_get[OF wf] split: option.splits if_splits)
  then show "k = makeKey c \<and> in_graph (drop_connections_at n g) (gc_from c) \<and>
      in_graph (drop_connections_at n g) (gc_to c)"
    using wd(4-6) by simp
qed (use wf_graphD in \<open>auto simp: js_wf_filter drop_connections_at_def\<close>)

text \<open>Removing a node of the graph keeps the invariant; removing a node object that only shares
  its name with one would not, because the node is deleted by name.\<close>

lemma wf_removeNode:
  assumes wf: "wf_graph g" and n: "in_graph g n"
  shows "wf_graph (removeNode n g)"
proof (rule wf_graphI)
  note wd = wf_graphD[OF wf_drop_connections_at[OF wf, of n]]
  fix k c assume "map_of (g_connections (removeNode n g)) k = Some c"
  then have c: "map_of (g_connections (drop_connections_at n g)) k = Some c"
    by (simp add: removeNode_def)
  then have "gc_to c \<noteq> n" "gc_from c \<noteq> n"
    by (auto simp: drop_connections_at_get[OF wf] split: option.splits if_splits)
  with wd(4-6)[OF c] n show
    "k = makeKey c \<and> in_graph (removeNode n g) (gc_from c) \<and> in_graph (removeNode n g) (gc_to c)"
    by (auto simp: in_graph_def removeNode_def)
qed (use wf_graphD[OF wf_drop_connections_at[OF wf, of n]] in
    \<open>auto simp: removeNode_def split: if_splits\<close>)

section \<open>clone copies the graph\<close>

lemma addNodes_put: "addNodes ns g = g\<lparr>g_nodes := fold (\<lambda>n. js_put (node_name n) n) ns (g_nodes g)\<rparr>"
  by (induction ns arbitrary: g) (auto simp: addNodes_def addNode_def)

lemma fold_put_connection:
  "fold put_connection cs g = g\<lparr>g_connections := fold (\<lambda>c. js_put (makeKey c) c) cs (g_connections g)\<rparr>"
  by (induction cs arbitrary: g) (auto simp: put_connection_def)

lemma addConnections_Inr:
  assumes "\<And>c. c \<in> set cs \<Longrightarrow> in_graph g (gc_from c) \<and> in_graph g (gc_to c)"
  shows "addConnections (map input_of cs) g = Inr (fold put_connection cs g)"
  using assms
proof (induction cs arbitrary: g)
  case Nil
  then show ?case by (simp add: addConnections_def)
next
  case (Cons c cs)
  have "addConnection (input_of c) g = Inr (put_connection c g)"
    using Cons.prems by (simp add: addConnection_Inr) (simp add: input_of_def)
  moreover have "addConnections (map input_of cs) (put_connection c g) =
      Inr (fold put_connection cs (put_connection c g))"
    by (rule Cons.IH) (use Cons.prems in auto)
  ultimately show ?case by (simp add: addConnections_def)
qed

lemma clone_identical:
  assumes wf: "wf_graph g"
  shows "clone g = Inr g"
proof -
  define g0 where "g0 = addNodes (js_values (g_nodes g)) new_graph"
  have nodes: "fold (\<lambda>n. js_put (node_name n) n) (js_values (g_nodes g)) [] = g_nodes g"
    using wf by (intro js_rebuild) (auto simp: wf_graph_def)
  have g0: "g0 = \<lparr>g_nodes = g_nodes g, g_connections = []\<rparr>"
    by (simp add: g0_def addNodes_put nodes new_graph_def)
  have all: "getConnections g None = js_values (g_connections g)"
    by (simp add: getConnections_def)
  have "addConnections (map input_of (getConnections g None)) g0 =
      Inr (fold put_connection (js_values (g_connections g)) g0)"
    unfolding all by (rule addConnections_Inr)
      (use graph_conns_in[OF wf] in \<open>auto simp: g0 in_graph_def\<close>)
  moreover have "fold (\<lambda>c. js_put (makeKey c) c) (js_values (g_connections g)) [] = g_connections g"
    using wf by (intro js_rebuild) (auto simp: wf_graph_def)
  ultimately show ?thesis
    by (simp add: clone_def g0_def[symmetric] fold_put_connection) (simp add: g0)
qed

section \<open>Export to a connection table\<close>

text \<open>Every node has outgoing connections of one type only.\<close>

definition one_type_in :: "GraphConnection set \<Rightarrow> bool" where
  "one_type_in C \<longleftrightarrow> (\<forall>c \<in> C. \<forall>d \<in> C.
     node_name (gc_from c) = node_name (gc_from d) \<longrightarrow> gc_type c = gc_type d)"

definition one_output_type :: "DirectedGraph \<Rightarrow> bool" where
  "one_output_type g \<longleftrightarrow> one_type_in (graph_conns g)"

definition conn_entry :: "GraphConnection \<Rightarrow> IConnection" where
  "conn_entry c = \<lparr>conn_node = node_name (gc_to c), conn_type = gc_type c, conn_index = gc_inputIndex c\<rparr>"

text \<open>The table after some connections: one type per source, and what is stored where.\<close>

definition export_inv :: "GraphConnection list \<Rightarrow> IConnections \<Rightarrow> bool" where
  "export_inv pre res \<longleftrightarrow>
     (\<forall>a. (map_of res a = None \<longleftrightarrow> (\<forall>c \<in> set pre. node_name (gc_from c) \<noteq> a)) \<and>
       (\<forall>ic. map_of res a = Some ic \<longrightarrow>
          (\<exists>t. dom (map_of ic) = {t} \<and> (\<forall>c \<in> set pre. node_name (gc_from c) = a \<longrightarrow> gc_type c = t)))) \<and>
     (\<forall>a t i. lookup_conns res a t i =
        [conn_entry c. c \<leftarrow> pre, node_name (gc_from c) = a \<and> gc_type c = t \<and> gc_outputIndex c = i])"

lemma export_invD:
  assumes "export_inv pre res"
  shows "map_of res a = None \<longleftrightarrow> (\<forall>c \<in> set pre. node_name (gc_from c) \<noteq> a)"
    "map_of res a = Some ic \<Longrightarrow>
       \<exists>t. dom (map_of ic) = {t} \<and> (\<forall>c \<in> set pre. node_name (gc_from c) = a \<longrightarrow> gc_type c = t)"
    "lookup_conns res a t i =
       [conn_entry c. c \<leftarrow> pre, node_name (gc_from c) = a \<and> gc_type c = t \<and> gc_outputIndex c = i]"
  using assms unfolding export_inv_def by blast+

lemma stored_array_put:
  "stored (array_put k (Some (stored arr k @ [e])) arr) j = stored arr j @ (if j = k then [e] else [])"
  by (simp add: stored_def)

lemma addIConnection_eq:
  "addIConnection c res =
     (case map_of (case map_of res (node_name (gc_from c)) of None \<Rightarrow> [(gc_type c, [])] | Some bt \<Rightarrow> bt)
        (gc_type c) of
        None \<Rightarrow> Inl TypeError
      | Some arr \<Rightarrow> Inr (js_put (node_name (gc_from c))
          (js_put (gc_type c)
             (array_put (gc_outputIndex c) (Some (stored arr (gc_outputIndex c) @ [conn_entry c])) arr)
             (case map_of res (node_name (gc_from c)) of None \<Rightarrow> [(gc_type c, [])] | Some bt \<Rightarrow> bt))
          res))"
  unfolding addIConnection_def Let_def stored_def conn_entry_def ..

lemma export_inv_step:
  assumes inv: "export_inv pre res"
    and same: "\<And>d. d \<in> set pre \<Longrightarrow> node_name (gc_from d) = node_name (gc_from c) \<Longrightarrow> gc_type d = gc_type c"
  shows "\<exists>res'. addIConnection c res = Inr res' \<and> export_inv (pre @ [c]) res'"
proof -
  define a ty where "a = node_name (gc_from c)" and "ty = gc_type c"
  note here = a_def[symmetric] ty_def[symmetric]
  define bt where "bt = (case map_of res a of None \<Rightarrow> [(ty, [])] | Some bt \<Rightarrow> bt)"
  have dom: "dom (map_of bt) = {ty}"
  proof (cases "map_of res a")
    case (Some ic)
    then obtain d where d: "d \<in> set pre" "node_name (gc_from d) = a"
      using export_invD(1)[OF inv, of a] by auto
    obtain t where t: "dom (map_of ic) = {t}" "\<forall>c \<in> set pre. node_name (gc_from c) = a \<longrightarrow> gc_type c = t"
      using export_invD(2)[OF inv Some] by blast
    have "gc_type d = ty" using same[OF d(1)] d(2) by (simp add: a_def ty_def)
    with t(2) d have "t = ty" by blast
    with Some t show ?thesis by (simp add: bt_def)
  qed (simp add: bt_def)
  then obtain arr where arr: "map_of bt ty = Some arr" by blast
  define res' where "res' = js_put a (js_put ty
    (array_put (gc_outputIndex c) (Some (stored arr (gc_outputIndex c) @ [conn_entry c])) arr) bt) res"
  have "addIConnection c res = Inr res'"
    unfolding addIConnection_eq here bt_def[symmetric] res'_def by (simp add: arr)
  moreover have "export_inv (pre @ [c]) res'"
    unfolding export_inv_def
  proof (intro conjI allI)
    fix b
    have old: "map_of res b = None \<longleftrightarrow> (\<forall>c \<in> set pre. node_name (gc_from c) \<noteq> b)"
      by (rule export_invD(1)[OF inv])
    then show "map_of res' b = None \<longleftrightarrow> (\<forall>c \<in> set (pre @ [c]). node_name (gc_from c) \<noteq> b)"
      by (auto simp: res'_def here)
    show "map_of res' b = Some ic \<longrightarrow>
        (\<exists>t. dom (map_of ic) = {t} \<and> (\<forall>c \<in> set (pre @ [c]). node_name (gc_from c) = b \<longrightarrow> gc_type c = t))" for ic
    proof (cases "b = a")
      case True
      then show ?thesis using dom same by (auto simp: res'_def a_def ty_def)
    next
      case False
      then show ?thesis using export_invD(2)[OF inv, of b ic] by (simp add: res'_def here)
    qed
  next
    fix b t i
    have old: "lookup_conns res b t i =
        [conn_entry c. c \<leftarrow> pre, node_name (gc_from c) = b \<and> gc_type c = t \<and> gc_outputIndex c = i]"
      by (rule export_invD(3)[OF inv])
    have "lookup_conns res' b t i = lookup_conns res b t i @
        (if b = a \<and> t = ty \<and> i = gc_outputIndex c then [conn_entry c] else [])"
      using arr stored_array_put[of "gc_outputIndex c" arr "conn_entry c" i] dom
      by (auto simp: lookup_conns_stored res'_def bt_def split: option.splits if_splits)
    then show "lookup_conns res' b t i = [conn_entry c. c \<leftarrow> pre @ [c],
        node_name (gc_from c) = b \<and> gc_type c = t \<and> gc_outputIndex c = i]"
      by (auto simp: old here)
  qed
  ultimately show ?thesis by blast
qed

lemma export_inv_nil: "export_inv [] []"
  by (simp add: export_inv_def lookup_conns_def)

lemma export_inv_clash:
  assumes inv: "export_inv pre res" and d: "d \<in> set pre"
    "node_name (gc_from d) = node_name (gc_from c)" "gc_type d \<noteq> gc_type c"
  shows "addIConnection c res = Inl TypeError"
proof -
  obtain ic where ic: "map_of res (node_name (gc_from c)) = Some ic"
    using export_invD(1)[OF inv, of "node_name (gc_from c)"] d(1,2) by auto
  then obtain t where "dom (map_of ic) = {t}" "gc_type d = t"
    using export_invD(2)[OF inv] d(1,2) by blast
  with d(3) have "gc_type c \<notin> dom (map_of ic)" by simp
  then have "map_of ic (gc_type c) = None" by (simp only: domIff not_not)
  with ic show ?thesis by (simp add: addIConnection_eq)
qed

text \<open>The export of a graph in which every node uses one output type.\<close>

lemma toIConnections_lookup:
  assumes "one_output_type g"
  shows "\<exists>t. toIConnections g = Inr t \<and> (\<forall>a ty i. lookup_conns t a ty i =
     [conn_entry c. c \<leftarrow> js_values (g_connections g),
        node_name (gc_from c) = a \<and> gc_type c = ty \<and> gc_outputIndex c = i])"
proof -
  have "\<exists>t. rfold addIConnection (js_values (g_connections g)) [] = Inr t \<and>
      export_inv (js_values (g_connections g)) t"
  proof (rule rfold_total_prefix)
    fix pre c rest res
    assume split: "js_values (g_connections g) = pre @ c # rest" and inv: "export_inv pre res"
    have "set pre \<subseteq> graph_conns g" "c \<in> graph_conns g" unfolding split by auto
    with assms show "\<exists>res'. addIConnection c res = Inr res' \<and> export_inv (pre @ [c]) res'"
      unfolding one_output_type_def one_type_in_def by (intro export_inv_step[OF inv]) blast
  qed (rule export_inv_nil)
  then show ?thesis by (auto simp: toIConnections_def export_inv_def)
qed

text \<open>A node with outgoing connections of two types cannot be exported.\<close>

lemma toIConnections_fails:
  assumes "\<not> one_output_type g"
  shows "toIConnections g = Inl TypeError"
proof -
  have clash: "rfold addIConnection cs res = Inl TypeError \<or> one_type_in (set (pre @ cs))"
    if "export_inv pre res" "one_type_in (set pre)" for cs pre res
    using that
  proof (induction cs arbitrary: pre res)
    case Nil
    then show ?case by simp
  next
    case (Cons c cs)
    show ?case
    proof (cases "\<exists>d \<in> set pre. node_name (gc_from d) = node_name (gc_from c) \<and> gc_type d \<noteq> gc_type c")
      case True
      then show ?thesis using export_inv_clash[OF Cons.prems(1)] by auto
    next
      case False
      then obtain res' where res': "addIConnection c res = Inr res'" "export_inv (pre @ [c]) res'"
        using export_inv_step[OF Cons.prems(1), of c] by blast
      have "one_type_in (set (pre @ [c]))"
        using False Cons.prems(2) unfolding one_type_in_def by (metis Un_iff empty_iff insert_iff list.set set_append)
      from Cons.IH[OF res'(2) this] res'(1) show ?thesis by simp
    qed
  qed
  have "one_type_in (set [])" by (simp add: one_type_in_def)
  from clash[OF export_inv_nil this, of "js_values (g_connections g)"] assms show ?thesis
    by (simp add: toIConnections_def one_output_type_def)
qed

section \<open>Import of a workflow\<close>

text \<open>The graph connection that an entry of the table stands for, in a workflow whose nodes exist.\<close>

definition conn_of :: "Workflow \<Rightarrow> string \<times> NodeConnectionType \<times> nat \<times> IConnection \<Rightarrow> GraphConnection" where
  "conn_of w e = (case e of (src, ty, i, c) \<Rightarrow>
     \<lparr>gc_from = the (w_getNode w src), gc_to = the (w_getNode w (conn_node c)), gc_type = ty,
      gc_outputIndex = i, gc_inputIndex = conn_index c\<rparr>)"

definition import_entry ::
    "Workflow \<Rightarrow> string \<times> NodeConnectionType \<times> nat \<times> IConnection \<Rightarrow> DirectedGraph \<Rightarrow> DirectedGraph result" where
  "import_entry w e g = (case e of (src, ty, i, c) \<Rightarrow>
     (case w_getNode w (conn_node c) of
        None \<Rightarrow> Inl AssertionError
      | Some to' \<Rightarrow> addConnection \<lparr>ci_from = the (w_getNode w src), ci_to = to', ci_type = Some ty,
          ci_outputIndex = Some i, ci_inputIndex = Some (conn_index c)\<rparr> g))"

lemma import_entry_pair:
  "import_entry w (src, ty, i, c) = (\<lambda>g. case w_getNode w (conn_node c) of
     None \<Rightarrow> Inl AssertionError
   | Some to' \<Rightarrow> addConnection \<lparr>ci_from = the (w_getNode w src), ci_to = to', ci_type = Some ty,
       ci_outputIndex = Some i, ci_inputIndex = Some (conn_index c)\<rparr> g)"
  by (simp add: import_entry_def fun_eq_iff)

lemma rfold_concat_map: "rfold f (concat (map g xs)) = rfold (\<lambda>x. rfold f (g x)) xs"
proof
  show "rfold f (concat (map g xs)) s = rfold (\<lambda>x. rfold f (g x)) xs s" for s
  proof (induction xs arbitrary: s)
    case Nil
    then show ?case by simp
  next
    case (Cons x xs)
    then show ?case by (cases "rfold f (g x) s") (simp_all add: rfold_append)
  qed
qed

lemma rfold_mapped: "rfold f (map g xs) = rfold (\<lambda>x. f (g x)) xs"
  by (rule ext) (rule rfold_map)

lemma fromWorkflow_entries:
  assumes "\<And>src ic. (src, ic) \<in> set (w_bySource w) \<Longrightarrow> w_getNode w src \<noteq> None"
  shows "fromWorkflow w =
    rfold (import_entry w) (table_entries (w_bySource w)) (addNodes (js_values (w_nodes w)) new_graph)"
  unfolding fromWorkflow_def table_entries_def array_entries_def rfold_concat_map
proof (rule rfold_cong[OF refl refl], goal_cases)
  case (1 p g)
  obtain src ic where p: "p = (src, ic)" by (cases p)
  with assms 1 have "w_getNode w src \<noteq> None" by fastforce
  then show ?case
    by (simp add: p rfold_concat_map rfold_mapped case_prod_unfold import_entry_pair option.case_eq_if
        del: not_None_eq cong: if_cong)
qed

lemma import_entries:
  assumes "\<And>e. e \<in> set es \<Longrightarrow> case e of (src, ty, i, c) \<Rightarrow>
      (\<exists>n. w_getNode w src = Some n \<and> in_graph g n) \<and> (\<exists>n. w_getNode w (conn_node c) = Some n \<and> in_graph g n)"
  shows "rfold (import_entry w) es g = Inr (fold put_connection (map (conn_of w) es) g)"
  using assms
proof (induction es arbitrary: g)
  case Nil
  then show ?case by simp
next
  case (Cons e es)
  obtain src ty i c where e: "e = (src, ty, i, c)" by (metis prod_cases4)
  with Cons.prems[of e] obtain n m where
    "w_getNode w src = Some n" "in_graph g n" "w_getNode w (conn_node c) = Some m" "in_graph g m"
    by auto
  then have "import_entry w e g = Inr (put_connection (conn_of w e) g)"
    by (simp add: import_entry_def e addConnection_Inr) (simp add: conn_of_def complete_input_def)
  moreover have "rfold (import_entry w) es (put_connection (conn_of w e) g) =
      Inr (fold put_connection (map (conn_of w) es) (put_connection (conn_of w e) g))"
    by (rule Cons.IH) (use Cons.prems in auto)
  ultimately show ?case by simp
qed

lemma map_of_rev_inj:
  assumes "inj_on key (set cs)" "c \<in> set cs"
  shows "map_of (rev (map (\<lambda>c. (key c, c)) cs)) (key c) = Some c"
proof -
  have "map_of (rev (map (\<lambda>c. (key c, c)) cs)) (key c) \<noteq> None"
    using assms(2) by (simp add: map_of_eq_None_iff image_image)
  then obtain d where d: "map_of (rev (map (\<lambda>c. (key c, c)) cs)) (key c) = Some d" by blast
  then have "(key c, d) \<in> set (rev (map (\<lambda>c. (key c, c)) cs))" by (rule map_of_SomeD)
  then have "key d = key c" "d \<in> set cs" by auto
  with assms have "d = c" by (auto dest: inj_onD)
  with d show ?thesis by simp
qed

text \<open>Connections with different keys are all kept.\<close>

lemma graph_conns_fold_put:
  assumes "g_connections g = []" "inj_on makeKey (set cs)"
  shows "graph_conns (fold put_connection cs g) = set cs"
proof -
  have wf: "js_wf m \<Longrightarrow> js_wf (fold (\<lambda>c. js_put (makeKey c) c) ds m)"
    for m and ds :: "GraphConnection list"
    by (induction ds arbitrary: m) auto
  have "graph_conns (fold put_connection cs g) =
      ran (map_of (rev (map (\<lambda>c. (makeKey c, c)) cs)))"
    using assms(1) jm.look_put_all[of makeKey "\<lambda>c. c" cs "[]"]
    by (simp add: fold_put_connection js_values_set wf)
  also have "\<dots> = set cs"
  proof (intro equalityI subsetI)
    fix c assume "c \<in> ran (map_of (rev (map (\<lambda>c. (makeKey c, c)) cs)))"
    then obtain k where "map_of (rev (map (\<lambda>c. (makeKey c, c)) cs)) k = Some c"
      by (auto simp: ran_def)
    then have "(k, c) \<in> set (rev (map (\<lambda>c. (makeKey c, c)) cs))" by (rule map_of_SomeD)
    then show "c \<in> set cs" by auto
  next
    fix c assume "c \<in> set cs"
    from map_of_rev_inj[OF assms(2) this] show "c \<in> ran (map_of (rev (map (\<lambda>c. (makeKey c, c)) cs)))"
      by (auto simp: ran_def)
  qed
  finally show ?thesis .
qed

lemma wf_addIConnection:
  assumes "wf_table res" "addIConnection c res = Inr res'"
  shows "wf_table res'"
proof -
  define bt where "bt = (case map_of res (node_name (gc_from c)) of None \<Rightarrow> [(gc_type c, [])] | Some bt \<Rightarrow> bt)"
  have "js_wf bt"
  proof (cases "map_of res (node_name (gc_from c))")
    case None
    then show ?thesis by (simp add: bt_def js_wf_def)
  next
    case (Some x)
    then show ?thesis using assms(1) map_of_SomeD[OF Some] by (auto simp: bt_def wf_table_def)
  qed
  moreover have "set (js_put k v res) \<subseteq> insert (k, v) (set res)" for k v
    by (induction res) auto
  ultimately show ?thesis
    using assms unfolding addIConnection_eq bt_def[symmetric]
    by (fastforce simp: wf_table_def split: option.splits)
qed

lemma wf_toIConnections: "toIConnections g = Inr t \<Longrightarrow> wf_table t"
  unfolding toIConnections_def
  by (erule rfold_invariant) (simp add: wf_table_def, rule wf_addIConnection)

lemma export_source:
  assumes "one_output_type g" "toIConnections g = Inr t" "(a, ic) \<in> set t"
  shows "\<exists>c \<in> graph_conns g. node_name (gc_from c) = a"
proof -
  have "\<exists>t. rfold addIConnection (js_values (g_connections g)) [] = Inr t \<and>
      export_inv (js_values (g_connections g)) t"
  proof (rule rfold_total_prefix)
    fix pre c rest res
    assume split: "js_values (g_connections g) = pre @ c # rest" and inv: "export_inv pre res"
    have "set pre \<subseteq> graph_conns g" "c \<in> graph_conns g" unfolding split by auto
    with assms(1) show "\<exists>res'. addIConnection c res = Inr res' \<and> export_inv (pre @ [c]) res'"
      unfolding one_output_type_def one_type_in_def by (intro export_inv_step[OF inv]) blast
  qed (rule export_inv_nil)
  with assms(2) have "export_inv (js_values (g_connections g)) t" by (simp add: toIConnections_def)
  moreover have "map_of t a = Some ic"
    using wf_toIConnections[OF assms(2)] assms(3) by (simp add: wf_table_def js_get_iff)
  ultimately show ?thesis using export_invD(1)[of _ t a] by auto
qed

text \<open>Exporting a graph and importing the result gives back its nodes and connections.\<close>

lemma fromWorkflow_toIConnections:
  assumes wf: "wf_graph g" and one: "one_output_type g" and t: "toIConnections g = Inr t"
  shows "\<exists>g'. fromWorkflow (w\<lparr>w_nodes := g_nodes g, w_bySource := t\<rparr>) = Inr g' \<and>
    wf_graph g' \<and> g_nodes g' = g_nodes g \<and> graph_conns g' = graph_conns g"
proof -
  let ?w = "w\<lparr>w_nodes := g_nodes g, w_bySource := t\<rparr>"
  define g0 where "g0 = addNodes (js_values (g_nodes g)) new_graph"
  have "fold (\<lambda>n. js_put (node_name n) n) (js_values (g_nodes g)) [] = g_nodes g"
    using wf by (intro js_rebuild) (auto simp: wf_graph_def)
  then have g0: "g0 = \<lparr>g_nodes = g_nodes g, g_connections = []\<rparr>"
    by (simp add: g0_def addNodes_put new_graph_def)
  have get: "w_getNode ?w (node_name n) = Some n" if "in_graph g n" for n
    using that by (simp add: w_getNode_def getNodeByName_def in_graph_def)
  have entries: "(a, ty, i, e) \<in> set (table_entries t) \<longleftrightarrow>
      (\<exists>c \<in> graph_conns g. a = node_name (gc_from c) \<and> ty = gc_type c \<and> i = gc_outputIndex c \<and> e = conn_entry c)"
    for a ty i e
    using toIConnections_lookup[OF one] t table_entries_lookup[OF wf_toIConnections[OF t], of a ty i e]
    by auto
  have ends: "case e of (src, ty, i, c) \<Rightarrow> (\<exists>n. w_getNode ?w src = Some n \<and> in_graph g0 n) \<and>
      (\<exists>n. w_getNode ?w (conn_node c) = Some n \<and> in_graph g0 n)"
    if "e \<in> set (table_entries t)" for e
  proof -
    obtain src ty i c where e: "e = (src, ty, i, c)" by (metis prod_cases4)
    with that entries obtain d where "d \<in> graph_conns g" "src = node_name (gc_from d)" "c = conn_entry d"
      by blast
    then show ?thesis
      using get graph_conns_in[OF wf] by (auto simp: e conn_entry_def g0 in_graph_def)
  qed
  have conn: "conn_of ?w (node_name (gc_from c), gc_type c, gc_outputIndex c, conn_entry c) = c"
    if "c \<in> graph_conns g" for c
    using get graph_conns_in[OF wf that] by (simp add: conn_of_def conn_entry_def)
  have all: "set (map (conn_of ?w) (table_entries t)) = graph_conns g"
  proof (intro equalityI subsetI)
    fix c assume "c \<in> set (map (conn_of ?w) (table_entries t))"
    then show "c \<in> graph_conns g" using entries conn by auto
  next
    fix c assume "c \<in> graph_conns g"
    then have "(node_name (gc_from c), gc_type c, gc_outputIndex c, conn_entry c) \<in> set (table_entries t)"
      using entries by blast
    then show "c \<in> set (map (conn_of ?w) (table_entries t))"
      using conn[OF \<open>c \<in> graph_conns g\<close>] by (metis image_eqI set_map)
  qed
  have inj: "inj_on makeKey (graph_conns g)"
    by (rule inj_onI) (metis graph_conns_iff[OF wf] option.inject)
  have src: "w_getNode ?w a \<noteq> None" if "(a, ic) \<in> set (w_bySource ?w)" for a ic
    using export_source[OF one t, of a ic] that get graph_conns_in[OF wf] by force
  have "fromWorkflow ?w = rfold (import_entry ?w) (table_entries t) g0"
    using fromWorkflow_entries[OF src] by (simp add: g0_def)
  also have "\<dots> = Inr (fold put_connection (map (conn_of ?w) (table_entries t)) g0)"
    by (rule import_entries[OF ends])
  finally have "fromWorkflow ?w = Inr (fold put_connection (map (conn_of ?w) (table_entries t)) g0)" .
  moreover have "graph_conns (fold put_connection (map (conn_of ?w) (table_entries t)) g0) = graph_conns g"
    using graph_conns_fold_put[of g0] inj all by (simp add: g0)
  moreover have "wf_graph (fold put_connection (map (conn_of ?w) (table_entries t)) g0)"
  proof (rule wf_fold_put)
    show "wf_graph g0" using wf by (simp add: g0 wf_graph_def)
  next
    fix c assume "c \<in> set (map (conn_of ?w) (table_entries t))"
    then have "c \<in> graph_conns g" using all by blast
    then show "in_graph g0 (gc_from c) \<and> in_graph g0 (gc_to c)"
      using graph_conns_in[OF wf] by (simp add: g0 in_graph_def)
  qed
  ultimately show ?thesis by (auto simp: g0)
qed

section \<open>Connection keys\<close>

text \<open>
  Two connections between nodes of the graph have the same key only if they are equal. Names
  without a dash guarantee it; in general the keys of two connections can coincide.
\<close>

definition keys_faithful :: "DirectedGraph \<Rightarrow> bool" where
  "keys_faithful g \<longleftrightarrow> inj_on makeKey {c. in_graph g (gc_from c) \<and> in_graph g (gc_to c)}"

definition dash_free :: "DirectedGraph \<Rightarrow> bool" where
  "dash_free g \<longleftrightarrow> (\<forall>n \<in> graph_nodes g. CHR ''-'' \<notin> set (node_name n))"

lemma makeKey_inject:
  assumes "CHR ''-'' \<notin> set (node_name (gc_from c))" "CHR ''-'' \<notin> set (node_name (gc_from d))"
  shows "makeKey c = makeKey d \<longleftrightarrow> node_name (gc_from c) = node_name (gc_from d) \<and>
    gc_type c = gc_type d \<and> gc_outputIndex c = gc_outputIndex d \<and>
    gc_inputIndex c = gc_inputIndex d \<and> node_name (gc_to c) = node_name (gc_to d)"
  using assms by (simp add: makeKey_def sep_unique conn_type_str_no_dash nat_str_no_dash)

lemma dash_free_keys: "wf_graph g \<Longrightarrow> dash_free g \<Longrightarrow> keys_faithful g"
  unfolding keys_faithful_def
proof (rule inj_onI, clarify)
  fix c d :: GraphConnection
  assume wf: "wf_graph g" and df: "dash_free g" and key: "makeKey c = makeKey d"
    and ends: "in_graph g (gc_from c)" "in_graph g (gc_to c)" "in_graph g (gc_from d)" "in_graph g (gc_to d)"
  have "CHR ''-'' \<notin> set (node_name (gc_from c))" "CHR ''-'' \<notin> set (node_name (gc_from d))"
    using df ends(1,3) in_graph_iff[OF wf] by (auto simp: dash_free_def)
  from key[unfolded makeKey_inject[OF this]] show "c = d"
    using in_graph_unique[OF ends(1,3)] in_graph_unique[OF ends(2,4)] by simp
qed

text \<open>Adding a connection when keys are faithful adds exactly that connection.\<close>

lemma graph_conns_put_connection:
  assumes wf: "wf_graph g" and keys: "keys_faithful g" and ends: "in_graph g (gc_from c)" "in_graph g (gc_to c)"
  shows "graph_conns (put_connection c g) = insert c (graph_conns g)"
proof -
  have "graph_conns (put_connection c g) = insert c (ran ((map_of (g_connections g))(makeKey c := None)))"
    using wf_graphD(2)[OF wf] by (simp add: put_connection_def js_values_put)
  also have "\<dots> = insert c (graph_conns g)"
  proof -
    have "d = c" if "map_of (g_connections g) (makeKey c) = Some d" for d
      using keys wf_graphD(4-6)[OF wf that] ends unfolding keys_faithful_def
      by (auto dest: inj_onD)
    then have "insert c (ran ((map_of (g_connections g))(makeKey c := None))) = insert c (ran (map_of (g_connections g)))"
      unfolding ran_def by auto (metis option.inject)
    then show ?thesis using wf_graphD(2)[OF wf] by (simp add: js_values_set)
  qed
  finally show ?thesis .
qed

lemma keys_faithful_nodes: "g_nodes g = g_nodes h \<Longrightarrow> keys_faithful g = keys_faithful h"
  by (simp add: keys_faithful_def in_graph_def)

lemma graph_conns_fold_put_faithful:
  assumes "wf_graph g" "keys_faithful g" "\<And>c. c \<in> set cs \<Longrightarrow> in_graph g (gc_from c) \<and> in_graph g (gc_to c)"
  shows "graph_conns (fold put_connection cs g) = set cs \<union> graph_conns g"
  using assms
proof (induction cs arbitrary: g)
  case Nil
  then show ?case by simp
next
  case (Cons c cs)
  have "graph_conns (fold put_connection cs (put_connection c g)) = set cs \<union> graph_conns (put_connection c g)"
    using Cons.prems keys_faithful_nodes[of "put_connection c g" g]
    by (intro Cons.IH) (auto intro: wf_put_connection)
  then show ?case using graph_conns_put_connection[OF Cons.prems(1,2)] Cons.prems(3) by simp
qed

lemma graph_conns_drop:
  "wf_graph g \<Longrightarrow> graph_conns (drop_connections_at n g) = {c \<in> graph_conns g. gc_to c \<noteq> n \<and> gc_from c \<noteq> n}"
  by (auto simp: drop_connections_at_def js_values_def)

section \<open>Removing a node and bridging it\<close>

lemma bridging_set:
  "set (bridging_connections skip incs outs) =
     {join_connections inc out | inc out. inc \<in> set incs \<and> \<not> skip inc \<and> out \<in> set outs \<and> \<not> skip out}"
  by (auto simp: bridging_connections_def)

lemma join_connections_simps [simp]:
  "gc_from (join_connections a b) = gc_from a" "gc_to (join_connections a b) = gc_to b"
  "gc_type (join_connections a b) = gc_type a"
  by (simp_all add: join_connections_def)

lemma direct_connections:
  assumes "in_graph g n"
  shows "getDirectParentConnections g n = Inr (filter (\<lambda>c. gc_to c = n) (js_values (g_connections g)))"
    "getDirectChildConnections g n = Inr (filter (\<lambda>c. gc_from c = n) (js_values (g_connections g)))"
  using assms by (simp_all add: getDirectParentConnections_def getDirectChildConnections_def)

text \<open>The node has no connection to itself that would be bridged.\<close>

definition no_self_loop :: "(GraphConnection \<Rightarrow> bool) \<Rightarrow> INode \<Rightarrow> DirectedGraph \<Rightarrow> bool" where
  "no_self_loop skip n g \<longleftrightarrow> (\<forall>c \<in> graph_conns g. gc_from c = n \<and> gc_to c = n \<longrightarrow> skip c)"

lemma removeNodeReconnect_conns:
  assumes wf: "wf_graph g" and keys: "keys_faithful g" and n: "in_graph g n" and loop: "no_self_loop skip n g"
    and res: "removeNodeReconnect skip n g = Inr (g', new)"
  shows "wf_graph g'" "g_nodes g' = js_del (node_name n) (g_nodes g)"
    "graph_conns g' = {c \<in> graph_conns g. gc_to c \<noteq> n \<and> gc_from c \<noteq> n} \<union>
       {join_connections inc out | inc out. inc \<in> graph_conns g \<and> gc_to inc = n \<and> \<not> skip inc \<and>
          out \<in> graph_conns g \<and> gc_from out = n \<and> \<not> skip out}"
proof -
  define incs outs where "incs = filter (\<lambda>c. gc_to c = n) (js_values (g_connections g))"
    and "outs = filter (\<lambda>c. gc_from c = n) (js_values (g_connections g))"
  define h where "h = fold put_connection (bridging_connections skip incs outs) (drop_connections_at n g)"
  have new: "new = bridging_connections skip incs outs"
    and g': "g' = h\<lparr>g_nodes := js_del (node_name n) (g_nodes h)\<rparr>"
    using res n by (auto simp: removeNodeReconnect_def direct_connections Let_def incs_def outs_def h_def)
  have ends: "in_graph g (gc_from c) \<and> in_graph g (gc_to c) \<and> gc_from c \<noteq> n \<and> gc_to c \<noteq> n"
    if "c \<in> set (bridging_connections skip incs outs)" for c
    using that loop graph_conns_in[OF wf]
    by (auto simp: bridging_set incs_def outs_def no_self_loop_def)
  have wfh: "wf_graph h"
    unfolding h_def using ends by (intro wf_fold_put wf_drop_connections_at wf) auto
  have conns: "graph_conns h = set (bridging_connections skip incs outs) \<union>
      {c \<in> graph_conns g. gc_to c \<noteq> n \<and> gc_from c \<noteq> n}"
    unfolding h_def graph_conns_drop[OF wf, symmetric]
    using ends keys_faithful_nodes[of "drop_connections_at n g" g] keys
    by (intro graph_conns_fold_put_faithful wf_drop_connections_at wf) auto
  then show "graph_conns g' = {c \<in> graph_conns g. gc_to c \<noteq> n \<and> gc_from c \<noteq> n} \<union>
       {join_connections inc out | inc out. inc \<in> graph_conns g \<and> gc_to inc = n \<and> \<not> skip inc \<and>
          out \<in> graph_conns g \<and> gc_from out = n \<and> \<not> skip out}"
    by (auto simp: g' bridging_set incs_def outs_def)
  show "g_nodes g' = js_del (node_name n) (g_nodes g)" by (simp add: g' h_def)
  show "wf_graph g'"
  proof (rule wf_graphI)
    fix k c assume c: "map_of (g_connections g') k = Some c"
    then have k: "map_of (g_connections h) k = Some c" by (simp add: g')
    then have "c \<in> graph_conns h" using wf_graphD(2)[OF wfh] by (auto simp: js_values_set ran_def)
    then have "gc_from c \<noteq> n" "gc_to c \<noteq> n" using conns ends by auto
    moreover have "in_graph h n" using n by (simp add: h_def)
    ultimately show "k = makeKey c \<and> in_graph g' (gc_from c) \<and> in_graph g' (gc_to c)"
      using wf_graphD(4-6)[OF wfh k] by (auto simp: in_graph_def g')
  qed (use wf_graphD[OF wfh] in \<open>auto simp: g' split: if_splits\<close>)
qed

lemma removeNodeReconnect_total: "in_graph g n \<Longrightarrow> \<exists>r. removeNodeReconnect skip n g = Inr r"
  by (simp add: removeNodeReconnect_def direct_connections Let_def)

section \<open>Sample graphs\<close>

text \<open>Graphs for concrete instances: nodes, then connections.\<close>

definition edge :: "INode \<Rightarrow> INode \<Rightarrow> ConnectionInput" where
  "edge a b = \<lparr>ci_from = a, ci_to = b, ci_type = None, ci_outputIndex = None, ci_inputIndex = None\<rparr>"

definition typed_edge :: "NodeConnectionType \<Rightarrow> INode \<Rightarrow> INode \<Rightarrow> ConnectionInput" where
  "typed_edge ty a b = (edge a b)\<lparr>ci_type := Some ty\<rparr>"

definition sample_node :: "nat \<Rightarrow> string \<Rightarrow> INode" where
  "sample_node i nm = plain_node i nm ''t''"

definition sample_graph :: "INode list \<Rightarrow> ConnectionInput list \<Rightarrow> DirectedGraph" where
  "sample_graph ns cs = (case addConnections cs (addNodes ns new_graph) of Inr g \<Rightarrow> g | Inl _ \<Rightarrow> new_graph)"

section \<open>Properties\<close>

text \<open>
  C34: Exporting a graph to a connection table and importing that table gives back the nodes and
  the connections; the export throws exactly when a node has outgoing connections of two types.
\<close>

theorem toIConnections_roundtrip:
  assumes wf: "wf_graph g"
  shows "if one_output_type g
    then \<exists>t g'. toIConnections g = Inr t \<and> fromWorkflow (w\<lparr>w_nodes := g_nodes g, w_bySource := t\<rparr>) = Inr g' \<and>
      wf_graph g' \<and> g_nodes g' = g_nodes g \<and> graph_conns g' = graph_conns g
    else toIConnections g = Inl TypeError"
proof (cases "one_output_type g")
  case True
  then obtain t where t: "toIConnections g = Inr t" using toIConnections_lookup by blast
  from fromWorkflow_toIConnections[OF wf True t] t True show ?thesis by auto
qed (simp add: toIConnections_fails)

definition chain_graph :: DirectedGraph where
  "chain_graph = (let a = sample_node 0 ''a''; b = sample_node 1 ''b''; c = sample_node 2 ''c''
     in sample_graph [a, b, c] [(edge a b)\<lparr>ci_outputIndex := Some 1\<rparr>, edge b c])"

lemma toIConnections_roundtrip_witness:
  "\<exists>t g'. toIConnections chain_graph = Inr t \<and>
     fromWorkflow (undefined\<lparr>w_nodes := g_nodes chain_graph, w_bySource := t\<rparr>) = Inr g' \<and>
     graph_conns g' = graph_conns chain_graph"
proof -
  have wf: "wf_graph chain_graph" by code_simp
  have "toIConnections chain_graph \<noteq> Inl TypeError" by code_simp
  with toIConnections_roundtrip[OF wf, of undefined] show ?thesis by (metis (full_types))
qed

text \<open>A copy of a well-formed graph has the same nodes and connections in the same order.\<close>

theorem clone_same:
  assumes "wf_graph g"
  shows "clone g = Inr g"
  by (rule clone_identical[OF assms])

lemma clone_same_witness: "clone chain_graph = Inr chain_graph"
proof -
  have "wf_graph chain_graph" by code_simp
  then show ?thesis by (rule clone_same)
qed

text \<open>
  Removing a node with reconnection removes it and its connections and joins every connection
  that came in and is not skipped with every such one that went out, if the node has no such loop.
\<close>

theorem removeNodeReconnect_exact:
  assumes wf: "wf_graph g" and dash: "dash_free g" and n: "in_graph g n" and loop: "no_self_loop skip n g"
  shows "\<exists>g' new. removeNodeReconnect skip n g = Inr (g', new) \<and> wf_graph g' \<and>
    g_nodes g' = js_del (node_name n) (g_nodes g) \<and>
    graph_conns g' = {c \<in> graph_conns g. gc_to c \<noteq> n \<and> gc_from c \<noteq> n} \<union>
       {join_connections inc out | inc out. inc \<in> graph_conns g \<and> gc_to inc = n \<and> \<not> skip inc \<and>
          out \<in> graph_conns g \<and> gc_from out = n \<and> \<not> skip out}"
proof -
  obtain g' new where res: "removeNodeReconnect skip n g = Inr (g', new)"
    using removeNodeReconnect_total[OF n] by (metis surj_pair)
  with removeNodeReconnect_conns[OF wf dash_free_keys[OF wf dash] n loop res] show ?thesis by blast
qed

lemma removeNodeReconnect_exact_witness:
  "\<exists>g' new. removeNodeReconnect (\<lambda>_. False) (sample_node 1 ''b'') chain_graph = Inr (g', new) \<and> wf_graph g'"
proof -
  have hyps: "wf_graph chain_graph" "dash_free chain_graph" "in_graph chain_graph (sample_node 1 ''b'')"
    by code_simp+
  have "list_all (\<lambda>c. \<not> (gc_from c = sample_node 1 ''b'' \<and> gc_to c = sample_node 1 ''b''))
      (js_values (g_connections chain_graph))" by code_simp
  then have "no_self_loop (\<lambda>_. False) (sample_node 1 ''b'') chain_graph"
    by (auto simp: no_self_loop_def list_all_iff)
  from removeNodeReconnect_exact[OF hyps this] show ?thesis by blast
qed

end
