(* ===== verification/GraphSearch.thy ===== *)
theory GraphSearch
  imports DirectedGraph
begin

text \<open>
  The traversals of \<open>DirectedGraph\<close> (\<^verbatim>\<open>directed-graph.ts\<close>): all children, all parent
  connections and the depth-first search for a node. The recursions thread one set of seen
  elements through all calls; the model gives them fuel, one more than the number of elements
  that can be seen, and the lemmas show that it never runs out.
\<close>

section \<open>The traversals\<close>

fun getChildrenRecursive :: "nat \<Rightarrow> DirectedGraph \<Rightarrow> INode \<Rightarrow> INode list \<Rightarrow> INode list result" where
  "getChildrenRecursive 0 g n children = Inl Diverges"
| "getChildrenRecursive (Suc fuel) g n children =
     rbind (getDirectChildConnections g n) (\<lambda>directChildren.
       rfold (\<lambda>directChild children.
         if gc_to directChild \<in> set children then Inr children
         else getChildrenRecursive fuel g (gc_to directChild) (set_add (gc_to directChild) children))
       directChildren children)"

definition getChildren :: "DirectedGraph \<Rightarrow> INode \<Rightarrow> INode list result" where
  "getChildren g n = getChildrenRecursive (Suc (length (g_nodes g))) g n []"

fun getParentConnectionsRecursive ::
    "nat \<Rightarrow> DirectedGraph \<Rightarrow> INode \<Rightarrow> GraphConnection list \<Rightarrow> GraphConnection list result" where
  "getParentConnectionsRecursive 0 g n conns = Inl Diverges"
| "getParentConnectionsRecursive (Suc fuel) g n conns =
     rbind (getDirectParentConnections g n) (\<lambda>parentConnections.
       rfold (\<lambda>connection conns.
         if connection \<in> set conns then Inr conns
         else getParentConnectionsRecursive fuel g (gc_from connection) (set_add connection conns))
       parentConnections conns)"

definition getParentConnections :: "DirectedGraph \<Rightarrow> INode \<Rightarrow> GraphConnection list result" where
  "getParentConnections g n = getParentConnectionsRecursive (Suc (length (g_connections g))) g n []"

text \<open>
  The search returns the node found, if any, and the nodes seen so far. Once a child's search
  has found a node, the loop over the children returns it.
\<close>

fun depthFirstSearchRecursive ::
    "nat \<Rightarrow> DirectedGraph \<Rightarrow> (INode \<Rightarrow> bool) \<Rightarrow> INode \<Rightarrow> INode list \<Rightarrow> (INode option \<times> INode list) result" where
  "depthFirstSearchRecursive 0 g fn from' seen = Inl Diverges"
| "depthFirstSearchRecursive (Suc fuel) g fn from' seen =
     (if from' \<in> set seen then Inr (None, seen)
      else if fn from' then Inr (Some from', set_add from' seen)
      else rbind (getDirectChildConnections g from') (\<lambda>childConnections.
        rfold (\<lambda>childConnection (found, seen).
          case found of
            Some n \<Rightarrow> Inr (Some n, seen)
          | None \<Rightarrow> depthFirstSearchRecursive fuel g fn (gc_to childConnection) seen)
        childConnections (None, set_add from' seen)))"

definition depthFirstSearch :: "DirectedGraph \<Rightarrow> INode \<Rightarrow> (INode \<Rightarrow> bool) \<Rightarrow> INode option result" where
  "depthFirstSearch g from' fn =
     rbind (depthFirstSearchRecursive (Suc (Suc (length (g_nodes g)))) g fn from' [])
       (\<lambda>(found, _). Inr found)"

section \<open>The contract of a marking traversal\<close>

text \<open>
  \<open>getChildrenRecursive\<close> and \<open>getParentConnectionsRecursive\<close> are one scheme: expand a node into
  marks, skip the marks already taken, take the others and recurse on the node of the mark. The
  locale states the scheme's two equations; over a finite set of marks it follows that the
  traversal returns and takes exactly the marks that can be reached.
\<close>

locale marking_traversal =
  fixes expand :: "'n \<Rightarrow> 'm list result"
    and node_of :: "'m \<Rightarrow> 'n"
    and walk :: "nat \<Rightarrow> 'n \<Rightarrow> 'm list \<Rightarrow> 'm list result"
  assumes walk_0: "walk 0 x S = Inl Diverges"
    and walk_Suc: "walk (Suc k) x S = rbind (expand x) (\<lambda>ys.
      rfold (\<lambda>y S. if y \<in> set S then Inr S else walk k (node_of y) (set_add y S)) ys S)"
begin

definition marks :: "'n \<Rightarrow> 'm set" where
  "marks x = (case expand x of Inl e \<Rightarrow> {} | Inr ys \<Rightarrow> set ys)"

definition next_mark :: "('m \<times> 'm) set" where
  "next_mark = {(a, b). b \<in> marks (node_of a)}"

definition grown :: "'n \<Rightarrow> 'm set \<Rightarrow> 'm list \<Rightarrow> 'm list \<Rightarrow> bool" where
  "grown x M S S' \<longleftrightarrow> set S \<subseteq> set S' \<and> set S' \<subseteq> M \<and> distinct S' \<and>
     (\<forall>y \<in> set S' - set S. marks (node_of y) \<subseteq> set S') \<and>
     (\<forall>y \<in> set S' - set S. \<exists>z \<in> marks x. (z, y) \<in> next_mark\<^sup>*)"

lemma grown_step:
  assumes "grown x M S S1" "y \<in> marks x" "y \<in> M" "y \<notin> set S1"
    and "grown (node_of y) M (set_add y S1) S2" "marks (node_of y) \<subseteq> set S2"
  shows "grown x M S S2"
proof -
  have "\<exists>z \<in> marks x. (z, u) \<in> next_mark\<^sup>*" if u: "u \<in> set S2 - set S" for u
  proof -
    consider "u \<in> set S1 - set S" | "u = y" | "u \<in> set S2 - set (set_add y S1)" using u by auto
    then show ?thesis
    proof cases
      case 3
      then obtain z where z: "z \<in> marks (node_of y)" "(z, u) \<in> next_mark\<^sup>*"
        using assms(5) unfolding grown_def by blast
      then have "(y, u) \<in> next_mark\<^sup>*" by (auto simp: next_mark_def intro: converse_rtrancl_into_rtrancl)
      with assms(2) show ?thesis by blast
    next
      case 1
      then show ?thesis using assms(1) unfolding grown_def by blast
    next
      case 2
      then show ?thesis using assms(2) by blast
    qed
  qed
  moreover have "marks (node_of u) \<subseteq> set S2" if u: "u \<in> set S2 - set S" for u
  proof -
    consider "u \<in> set S1 - set S" | "u = y" | "u \<in> set S2 - set (set_add y S1)" using u by auto
    then show ?thesis
    proof cases
      case 1
      then have "marks (node_of u) \<subseteq> set S1" using assms(1) unfolding grown_def by blast
      then show ?thesis using assms(5) unfolding grown_def by auto
    next
      case 2
      with assms(6) show ?thesis by simp
    next
      case 3
      then show ?thesis using assms(5) unfolding grown_def by blast
    qed
  qed
  ultimately show ?thesis using assms(1,5) by (auto simp: grown_def)
qed

lemma walk_grows:
  assumes fin: "finite M"
    and total: "\<And>x. x \<in> V \<Longrightarrow> \<exists>ys. expand x = Inr ys \<and> set ys \<subseteq> M"
    and node: "\<And>y. y \<in> M \<Longrightarrow> node_of y \<in> V"
  shows "x \<in> V \<Longrightarrow> set S \<subseteq> M \<Longrightarrow> distinct S \<Longrightarrow> card (M - set S) < k \<Longrightarrow>
    \<exists>S'. walk k x S = Inr S' \<and> grown x M S S' \<and> marks x \<subseteq> set S'"
proof (induction k arbitrary: x S)
  case 0
  then show ?case by simp
next
  case (Suc k)
  obtain ys where ys: "expand x = Inr ys" "set ys \<subseteq> M" using total[OF Suc.prems(1)] by blast
  then have marks_x: "marks x = set ys" by (simp add: marks_def)
  let ?f = "\<lambda>y S. if y \<in> set S then Inr S else walk k (node_of y) (set_add y S)"
  have "\<exists>S'. rfold ?f ys S = Inr S' \<and> (grown x M S S' \<and> set ys \<subseteq> set S')"
  proof (rule rfold_total_prefix)
    show "grown x M S S \<and> set [] \<subseteq> set S" using Suc.prems by (simp add: grown_def)
  next
    fix pre y rest S1
    assume split: "ys = pre @ y # rest" and inv: "grown x M S S1 \<and> set pre \<subseteq> set S1"
    show "\<exists>S'. ?f y S1 = Inr S' \<and> (grown x M S S' \<and> set (pre @ [y]) \<subseteq> set S')"
    proof (cases "y \<in> set S1")
      case True
      with inv show ?thesis by simp
    next
      case False
      have y: "y \<in> M" "y \<in> marks x" using ys(2) by (auto simp: split marks_x)
      have sub: "set S \<subseteq> set S1" "set S1 \<subseteq> M" "distinct S1"
        using inv unfolding grown_def by blast+
      have "M - set (set_add y S1) \<subset> M - set S" using y(1) False sub(1) by auto
      then have "card (M - set (set_add y S1)) < card (M - set S)"
        by (rule psubset_card_mono[rotated]) (simp add: fin)
      then have "card (M - set (set_add y S1)) < k" using Suc.prems(4) by simp
      then obtain S2 where S2: "walk k (node_of y) (set_add y S1) = Inr S2"
        "grown (node_of y) M (set_add y S1) S2" "marks (node_of y) \<subseteq> set S2"
        using Suc.IH[of "node_of y" "set_add y S1"] node[OF y(1)] sub(2,3) y(1) by auto
      have "grown x M S S2" using grown_step[OF _ y(2,1) False S2(2,3)] inv by blast
      moreover have "set (set_add y S1) \<subseteq> set S2" using S2(2) unfolding grown_def by blast
      then have "set (pre @ [y]) \<subseteq> set S2" using inv by auto
      ultimately show ?thesis using S2(1) False by simp
    qed
  qed
  then obtain S' where "rfold ?f ys S = Inr S'" "grown x M S S'" "set ys \<subseteq> set S'" by blast
  then show ?case unfolding walk_Suc ys(1) rbind_simps marks_x by (intro exI[of _ S']) simp
qed

text \<open>From no marks, the traversal returns exactly the reachable marks, each once.\<close>

lemma walk_reachable:
  assumes "finite M" "\<And>x. x \<in> V \<Longrightarrow> \<exists>ys. expand x = Inr ys \<and> set ys \<subseteq> M"
    and "\<And>y. y \<in> M \<Longrightarrow> node_of y \<in> V" and "x \<in> V" "card M < k"
  shows "\<exists>S. walk k x [] = Inr S \<and> distinct S \<and> set S = {y. \<exists>z \<in> marks x. (z, y) \<in> next_mark\<^sup>*}"
proof -
  obtain S where S: "walk k x [] = Inr S" "grown x M [] S" "marks x \<subseteq> set S"
    using walk_grows[of M V x "[]" k] assms by auto
  have "y \<in> set S" if "z \<in> marks x" "(z, y) \<in> next_mark\<^sup>*" for z y
    using that(2)
  proof (induction rule: rtrancl_induct)
    case base
    with that(1) S(3) show ?case by blast
  next
    case (step u v)
    then show ?case using S(2) by (auto simp: grown_def next_mark_def)
  qed
  with S show ?thesis by (auto simp: grown_def)
qed

end

text \<open>Both traversals of the class follow the scheme.\<close>

interpretation children: marking_traversal
    "\<lambda>n. rbind (getDirectChildConnections g n) (\<lambda>cs. Inr (map gc_to cs))" "\<lambda>n. n"
    "\<lambda>k n. getChildrenRecursive k g n" for g
  by unfold_locales (simp_all add: rbind_assoc rfold_mapped)

interpretation parents: marking_traversal
    "\<lambda>n. getDirectParentConnections g n" gc_from "\<lambda>k n. getParentConnectionsRecursive k g n" for g
  by unfold_locales simp_all

section \<open>What the traversals return\<close>

definition g_edges :: "DirectedGraph \<Rightarrow> (INode \<times> INode) set" where
  "g_edges g = {(gc_from c, gc_to c) | c. c \<in> graph_conns g}"

definition main_edges :: "DirectedGraph \<Rightarrow> (INode \<times> INode) set" where
  "main_edges g = {(gc_from c, gc_to c) | c. c \<in> graph_conns g \<and> gc_type c = MainConn}"

lemma g_edges_in: "wf_graph g \<Longrightarrow> (a, b) \<in> g_edges g \<Longrightarrow> in_graph g a \<and> in_graph g b"
  by (auto simp: g_edges_def graph_conns_in)

lemma main_edges_subset: "main_edges g \<subseteq> g_edges g"
  by (auto simp: main_edges_def g_edges_def)

lemma trancl_main_edges: "(a, b) \<in> (main_edges g)\<^sup>+ \<Longrightarrow> (a, b) \<in> (g_edges g)\<^sup>+"
  using trancl_mono main_edges_subset by blast

lemma card_graph_nodes: "card (graph_nodes g) \<le> length (g_nodes g)"
  using card_length[of "js_values (g_nodes g)"] by (simp add: js_values_def)

lemma card_graph_conns: "card (graph_conns g) \<le> length (g_connections g)"
  using card_length[of "js_values (g_connections g)"] by (simp add: js_values_def)

text \<open>\<open>getChildren\<close> returns every node reachable by at least one connection, once.\<close>

lemma getChildren_reachable:
  assumes wf: "wf_graph g" and n: "in_graph g n"
  shows "\<exists>cs. getChildren g n = Inr cs \<and> distinct cs \<and> set cs = {m. (n, m) \<in> (g_edges g)\<^sup>+}"
proof -
  have marks: "children.marks g a = {b. (a, b) \<in> g_edges g}" if "in_graph g a" for a
    using that by (auto simp: children.marks_def direct_connections g_edges_def)
  obtain cs where cs: "getChildren g n = Inr cs" "distinct cs"
    "set cs = {y. \<exists>z \<in> children.marks g n. (z, y) \<in> (children.next_mark g)\<^sup>*}"
  proof -
    have "\<exists>S. getChildrenRecursive (Suc (length (g_nodes g))) g n [] = Inr S \<and> distinct S \<and>
        set S = {y. \<exists>z \<in> children.marks g n. (z, y) \<in> (children.next_mark g)\<^sup>*}"
    proof (rule children.walk_reachable[of "graph_nodes g" "{n. in_graph g n}"])
      fix x assume "x \<in> {n. in_graph g n}"
      then show "\<exists>ys. rbind (getDirectChildConnections g x) (\<lambda>cs. Inr (map gc_to cs)) = Inr ys \<and> set ys \<subseteq> graph_nodes g"
        using graph_conns_in[OF wf] by (auto simp: direct_connections in_graph_iff[OF wf, symmetric])
    qed (use n card_graph_nodes[of g] in \<open>auto simp: in_graph_iff[OF wf]\<close>)
    then show thesis using that unfolding getChildren_def by blast
  qed
  have next1: "(a, b) \<in> children.next_mark g \<longleftrightarrow> (a, b) \<in> g_edges g" if "in_graph g a" for a b
    using marks[OF that] by (auto simp: children.next_mark_def)
  have walk: "(a, b) \<in> (children.next_mark g)\<^sup>* \<longleftrightarrow> (a, b) \<in> (g_edges g)\<^sup>*" if a: "in_graph g a" for a b
  proof
    assume "(a, b) \<in> (children.next_mark g)\<^sup>*"
    then have "(a, b) \<in> (g_edges g)\<^sup>* \<and> in_graph g b"
      by (induction rule: rtrancl_induct)
        (use a next1 g_edges_in[OF wf] in \<open>auto intro: rtrancl_into_rtrancl\<close>)
    then show "(a, b) \<in> (g_edges g)\<^sup>*" by simp
  next
    assume "(a, b) \<in> (g_edges g)\<^sup>*"
    then have "(a, b) \<in> (children.next_mark g)\<^sup>* \<and> in_graph g b"
      by (induction rule: rtrancl_induct)
        (use a next1 g_edges_in[OF wf] in \<open>auto intro: rtrancl_into_rtrancl\<close>)
    then show "(a, b) \<in> (children.next_mark g)\<^sup>*" by simp
  qed
  have "set cs = {m. (n, m) \<in> (g_edges g)\<^sup>+}"
    using cs(3) marks[OF n] walk g_edges_in[OF wf]
    by (auto intro: rtrancl_into_trancl2) (metis tranclD)
  with cs show ?thesis by blast
qed

text \<open>\<open>getParentConnections\<close> returns every connection from whose target the node can be reached.\<close>

lemma getParentConnections_reachable:
  assumes wf: "wf_graph g" and n: "in_graph g n"
  shows "\<exists>cs. getParentConnections g n = Inr cs \<and> distinct cs \<and>
    set cs = {c \<in> graph_conns g. (gc_to c, n) \<in> (g_edges g)\<^sup>*}"
proof -
  have marks: "parents.marks g a = {c \<in> graph_conns g. gc_to c = a}" if "in_graph g a" for a
    using that by (auto simp: parents.marks_def direct_connections)
  obtain cs where cs: "getParentConnections g n = Inr cs" "distinct cs"
    "set cs = {y. \<exists>z \<in> parents.marks g n. (z, y) \<in> (parents.next_mark g)\<^sup>*}"
  proof -
    have "\<exists>S. getParentConnectionsRecursive (Suc (length (g_connections g))) g n [] = Inr S \<and> distinct S \<and>
        set S = {y. \<exists>z \<in> parents.marks g n. (z, y) \<in> (parents.next_mark g)\<^sup>*}"
      by (rule parents.walk_reachable[of "graph_conns g" "{n. in_graph g n}"])
        (use n card_graph_conns[of g] graph_conns_in[OF wf] in \<open>auto simp: direct_connections\<close>)
    then show thesis using that unfolding getParentConnections_def by blast
  qed
  have next1: "(c, d) \<in> parents.next_mark g \<longleftrightarrow> d \<in> graph_conns g \<and> gc_to d = gc_from c"
    if "c \<in> graph_conns g" for c d
    using marks graph_conns_in[OF wf that] by (auto simp: parents.next_mark_def)
  have sound: "d \<in> graph_conns g \<and> (gc_to d, n) \<in> (g_edges g)\<^sup>*"
    if "c \<in> graph_conns g" "gc_to c = n" "(c, d) \<in> (parents.next_mark g)\<^sup>*" for c d
    using that(3)
  proof (induction rule: rtrancl_induct)
    case (step d e)
    then have "e \<in> graph_conns g" "gc_to e = gc_from d" using next1 by blast+
    moreover have "(gc_from d, gc_to d) \<in> g_edges g" using step.IH by (auto simp: g_edges_def)
    ultimately show ?case using step.IH by (auto intro: converse_rtrancl_into_rtrancl)
  qed (use that in auto)
  have complete: "\<exists>c \<in> graph_conns g. gc_to c = n \<and> (c, d) \<in> (parents.next_mark g)\<^sup>*"
    if "(m, n) \<in> (g_edges g)\<^sup>*" "d \<in> graph_conns g" "gc_to d = m" for m d
    using that
  proof (induction arbitrary: d rule: converse_rtrancl_induct)
    case (step m m')
    then obtain e where e: "e \<in> graph_conns g" "gc_from e = m" "gc_to e = m'"
      by (auto simp: g_edges_def)
    from step.IH[OF e(1,3)] obtain c where "c \<in> graph_conns g" "gc_to c = n"
      "(c, e) \<in> (parents.next_mark g)\<^sup>*" by blast
    moreover have "(e, d) \<in> parents.next_mark g" using next1[OF e(1)] step.prems e(2) by simp
    ultimately show ?case using rtrancl.rtrancl_into_rtrancl by metis
  qed blast
  have "set cs = {c \<in> graph_conns g. (gc_to c, n) \<in> (g_edges g)\<^sup>*}"
    unfolding cs(3) marks[OF n] using sound complete by blast
  with cs show ?thesis by blast
qed

section \<open>The depth-first search\<close>

definition searched :: "DirectedGraph \<Rightarrow> (INode \<Rightarrow> bool) \<Rightarrow> INode list \<Rightarrow> INode list \<Rightarrow> bool" where
  "searched g fn S S' \<longleftrightarrow> set S \<subseteq> set S' \<and> set S' \<subseteq> graph_nodes g \<and>
     (\<forall>y \<in> set S' - set S. \<not> fn y \<and> (g_edges g) `` {y} \<subseteq> set S')"

lemma searched_step:
  assumes "searched g fn S S1" "searched g fn S1 S2"
  shows "searched g fn S S2"
proof -
  have "\<not> fn y \<and> (g_edges g) `` {y} \<subseteq> set S2" if y: "y \<in> set S2 - set S" for y
  proof (cases "y \<in> set S1")
    case True
    with y assms(1) have "\<not> fn y \<and> (g_edges g) `` {y} \<subseteq> set S1" unfolding searched_def by blast
    with assms(2) show ?thesis unfolding searched_def by blast
  next
    case False
    with y assms(2) show ?thesis unfolding searched_def by blast
  qed
  then show ?thesis using assms unfolding searched_def by blast
qed

text \<open>The edges of the walks that end at the first node that satisfies the predicate.\<close>

definition edges_until :: "DirectedGraph \<Rightarrow> (INode \<Rightarrow> bool) \<Rightarrow> (INode \<times> INode) set" where
  "edges_until g fn = {(a, b) \<in> g_edges g. \<not> fn a}"

lemma edges_until_walk: "(a, b) \<in> (edges_until g fn)\<^sup>* \<Longrightarrow> (a, b) \<in> (g_edges g)\<^sup>*"
  by (erule rtrancl_mono[THEN subsetD, rotated]) (auto simp: edges_until_def)

abbreviation search_result :: "DirectedGraph \<Rightarrow> (INode \<Rightarrow> bool) \<Rightarrow> INode \<Rightarrow> INode list \<Rightarrow>
    INode option \<times> INode list \<Rightarrow> bool" where
  "search_result g fn n S r \<equiv>
     (case fst r of Some m \<Rightarrow> fn m \<and> (n, m) \<in> (edges_until g fn)\<^sup>*
      | None \<Rightarrow> n \<in> set (snd r) \<and> searched g fn S (snd r))"

lemma depthFirstSearchRecursive_result:
  assumes wf: "wf_graph g"
  shows "n \<in> graph_nodes g \<Longrightarrow> set S \<subseteq> graph_nodes g \<Longrightarrow> card (graph_nodes g - set S) < k \<Longrightarrow>
    \<exists>r. depthFirstSearchRecursive k g fn n S = Inr r \<and> search_result g fn n S r"
proof (induction k arbitrary: n S)
  case 0
  then show ?case by simp
next
  case (Suc k)
  consider "n \<in> set S" | "n \<notin> set S" "fn n" | "n \<notin> set S" "\<not> fn n" by blast
  then show ?case
  proof cases
    case 3
    define cs where "cs = filter (\<lambda>c. gc_from c = n) (js_values (g_connections g))"
    have cs: "getDirectChildConnections g n = Inr cs"
      using Suc.prems(1) by (simp add: direct_connections in_graph_iff[OF wf] cs_def)
    let ?S = "set_add n S"
    let ?f = "\<lambda>c (found, seen). case found of Some m \<Rightarrow> Inr (Some m, seen)
      | None \<Rightarrow> depthFirstSearchRecursive k g fn (gc_to c) seen"
    define P :: "GraphConnection list \<Rightarrow> INode option \<times> INode list \<Rightarrow> bool" where "P pre r = (case fst r of Some m \<Rightarrow> fn m \<and> (n, m) \<in> (edges_until g fn)\<^sup>*
      | None \<Rightarrow> searched g fn ?S (snd r) \<and> gc_to ` set pre \<subseteq> set (snd r))" for pre r
    have "\<exists>r. rfold ?f cs (None, ?S) = Inr r \<and> P cs r"
    proof (rule rfold_total_prefix)
      show "P [] (None, ?S)" using Suc.prems by (simp add: P_def searched_def)
    next
      fix pre c rest r
      assume split: "cs = pre @ c # rest" and inv: "P pre r"
      obtain found seen where r: "r = (found, seen)" by (cases r)
      have c: "c \<in> graph_conns g" "gc_from c = n"
        using arg_cong[OF split, of set] unfolding cs_def by auto
      then have edge: "(n, gc_to c) \<in> g_edges g" "gc_to c \<in> graph_nodes g"
        using graph_conns_in[OF wf c(1)] by (auto simp: g_edges_def in_graph_iff[OF wf])
      show "\<exists>r'. ?f c r = Inr r' \<and> P (pre @ [c]) r'"
      proof (cases found)
        case None
        then have s: "searched g fn ?S seen" "gc_to ` set pre \<subseteq> set seen" using inv r by (auto simp: P_def)
        then have "graph_nodes g - set seen \<subset> graph_nodes g - set S" "set seen \<subseteq> graph_nodes g"
          using Suc.prems(1) 3(1) by (auto simp: searched_def)
        moreover from this(1) have "card (graph_nodes g - set seen) < card (graph_nodes g - set S)"
          by (rule psubset_card_mono[rotated]) simp
        ultimately obtain r' where r': "depthFirstSearchRecursive k g fn (gc_to c) seen = Inr r'"
          "search_result g fn (gc_to c) seen r'"
          using Suc.IH[OF edge(2), of seen] Suc.prems(3) by auto
        have "P (pre @ [c]) r'"
        proof (cases "fst r'")
          case None
          with r'(2) have new: "searched g fn seen (snd r')" "gc_to c \<in> set (snd r')" by auto
          from searched_step[OF s(1) new(1)] new s(2) None show ?thesis
            unfolding P_def by (auto simp: searched_def)
        next
          case (Some m)
          have "(n, gc_to c) \<in> edges_until g fn" using edge(1) 3(2) by (simp add: edges_until_def)
          with r'(2) Some show ?thesis by (auto simp: P_def intro: converse_rtrancl_into_rtrancl)
        qed
        with r'(1) None r show ?thesis by simp
      qed (use inv r in \<open>auto simp: P_def\<close>)
    qed
    then obtain r where r: "rfold ?f cs (None, ?S) = Inr r" "P cs r" by blast
    have "search_result g fn n S r"
    proof (cases "fst r")
      case None
      with r(2) have s: "searched g fn ?S (snd r)" "gc_to ` set cs \<subseteq> set (snd r)" by (auto simp: P_def)
      have "(g_edges g) `` {n} \<subseteq> set (snd r)" using s(2) by (auto simp: cs_def g_edges_def)
      with s(1) 3(2) have "searched g fn S (snd r)" "n \<in> set (snd r)"
        unfolding searched_def by auto
      with None show ?thesis by simp
    qed (use r(2) in \<open>auto simp: P_def\<close>)
    with r(1) 3 cs show ?thesis by simp
  qed (use Suc.prems in \<open>auto simp: searched_def\<close>)
qed

text \<open>The search returns a node that satisfies the predicate, if one is reachable.\<close>

lemma depthFirstSearch_finds:
  assumes wf: "wf_graph g" and n: "in_graph g n"
  shows "\<exists>r. depthFirstSearch g n fn = Inr r \<and>
    (case r of Some m \<Rightarrow> fn m \<and> (n, m) \<in> (edges_until g fn)\<^sup>*
     | None \<Rightarrow> \<forall>m. (n, m) \<in> (g_edges g)\<^sup>* \<longrightarrow> \<not> fn m)"
proof -
  have "card (graph_nodes g - set []) < Suc (Suc (length (g_nodes g)))"
    using card_graph_nodes[of g] by simp
  moreover have "n \<in> graph_nodes g" "set [] \<subseteq> graph_nodes g" using n in_graph_iff[OF wf] by simp_all
  ultimately obtain r where r: "depthFirstSearchRecursive (Suc (Suc (length (g_nodes g)))) g fn n [] = Inr r"
    "search_result g fn n [] r"
    using depthFirstSearchRecursive_result[OF wf] by blast
  have "\<not> fn m" if "fst r = None" "(n, m) \<in> (g_edges g)\<^sup>*" for m
  proof -
    have "m \<in> set (snd r)"
      using that(2) by (induction rule: rtrancl_induct) (use that(1) r(2) in \<open>auto simp: searched_def\<close>)
    with that(1) r(2) show ?thesis by (auto simp: searched_def)
  qed
  with r show ?thesis unfolding depthFirstSearch_def r(1)
    by (cases "fst r") (auto simp: case_prod_unfold)
qed

section \<open>Properties\<close>

text \<open>\<open>getChildren\<close> returns every node reachable by at least one connection, once.\<close>

theorem getChildren_exact:
  assumes "wf_graph g" "in_graph g n"
  shows "\<exists>cs. getChildren g n = Inr cs \<and> distinct cs \<and> set cs = {m. (n, m) \<in> (g_edges g)\<^sup>+}"
  by (rule getChildren_reachable[OF assms])

lemma getChildren_exact_witness:
  "\<exists>cs. getChildren chain_graph (sample_node 0 ''a'') = Inr cs \<and>
     set cs = {m. (sample_node 0 ''a'', m) \<in> (g_edges chain_graph)\<^sup>+}"
proof -
  have "wf_graph chain_graph" "in_graph chain_graph (sample_node 0 ''a'')" by code_simp+
  from getChildren_exact[OF this] show ?thesis by blast
qed

text \<open>
  \<open>getParentConnections\<close> returns, once each, the connections from whose target the node can be
  reached.
\<close>

theorem getParentConnections_exact:
  assumes "wf_graph g" "in_graph g n"
  shows "\<exists>cs. getParentConnections g n = Inr cs \<and> distinct cs \<and>
    set cs = {c \<in> graph_conns g. (gc_to c, n) \<in> (g_edges g)\<^sup>*}"
  by (rule getParentConnections_reachable[OF assms])

lemma getParentConnections_exact_witness:
  "\<exists>cs. getParentConnections chain_graph (sample_node 2 ''c'') = Inr cs \<and> distinct cs"
proof -
  have "wf_graph chain_graph" "in_graph chain_graph (sample_node 2 ''c'')" by code_simp+
  from getParentConnections_exact[OF this] show ?thesis by blast
qed

text \<open>The depth-first search finds a node that satisfies the predicate if one is reachable.\<close>

theorem depthFirstSearch_exact:
  assumes "wf_graph g" "in_graph g n"
  shows "\<exists>r. depthFirstSearch g n fn = Inr r \<and>
    (case r of Some m \<Rightarrow> fn m \<and> (n, m) \<in> (edges_until g fn)\<^sup>*
     | None \<Rightarrow> \<forall>m. (n, m) \<in> (g_edges g)\<^sup>* \<longrightarrow> \<not> fn m)"
  by (rule depthFirstSearch_finds[OF assms])

lemma depthFirstSearch_exact_witness:
  "\<exists>m. depthFirstSearch chain_graph (sample_node 0 ''a'') (\<lambda>n. node_name n = ''c'') = Inr (Some m) \<and> node_name m = ''c''"
proof -
  have hyps: "wf_graph chain_graph" "in_graph chain_graph (sample_node 0 ''a'')" by code_simp+
  have "depthFirstSearch chain_graph (sample_node 0 ''a'') (\<lambda>n. node_name n = ''c'') \<noteq> Inr None" by code_simp
  with depthFirstSearch_exact[OF hyps, of "\<lambda>n. node_name n = ''c''"] show ?thesis
    by (auto split: option.splits)
qed

end
