(* ===== verification/GraphSCC.thy ===== *)
theory GraphSCC
  imports GraphSearch
begin

text \<open>
  \<open>getStronglyConnectedComponents\<close> of class \<open>DirectedGraph\<close> (\<^verbatim>\<open>directed-graph.ts\<close>): the local
  variables that the closure \<open>followNode\<close> shares are the record \<open>SccState\<close>; the stack is kept with
  its top first. The recursion has fuel, one more than the number of nodes, since every call
  below the first visits a new node.
\<close>

record SccState =
  scc_id :: nat
  scc_visited :: "INode list"
  scc_ids :: "(INode, nat) js_map"
  scc_low :: "(INode, nat) js_map"
  scc_stack :: "INode list"
  scc_sccs :: "INode list list"

fun popLoop :: "(INode, nat) js_map \<Rightarrow> nat \<Rightarrow> INode list \<Rightarrow> INode list \<Rightarrow> INode list \<times> INode list" where
  "popLoop low ownId scc [] = (scc, [])"
| "popLoop low ownId scc (next # stack) =
     (if map_of low next = Some ownId then popLoop low ownId (set_add next scc) stack
      else (scc, next # stack))"

definition enter_node :: "INode \<Rightarrow> SccState \<Rightarrow> SccState" where
  "enter_node n st = st\<lparr>scc_visited := set_add n (scc_visited st),
     scc_low := js_put n (scc_id st) (scc_low st), scc_ids := js_put n (scc_id st) (scc_ids st),
     scc_id := scc_id st + 1, scc_stack := n # scc_stack st\<rparr>"

definition min_low :: "INode \<Rightarrow> INode \<Rightarrow> SccState \<Rightarrow> SccState result" where
  "min_low n child st =
     (if child \<in> set (scc_stack st)
      then case (map_of (scc_low st) child, map_of (scc_low st) n) of
             (Some c, Some own) \<Rightarrow> Inr (st\<lparr>scc_low := js_put n (min c own) (scc_low st)\<rparr>)
           | _ \<Rightarrow> Inl AssertionError
      else Inr st)"

definition leave_node :: "INode \<Rightarrow> SccState \<Rightarrow> SccState result" where
  "leave_node n st =
     (case (map_of (scc_ids st) n, map_of (scc_low st) n) of
        (Some ownId, Some ownLow) \<Rightarrow>
          Inr (if ownId = ownLow
               then let (scc, stack) = popLoop (scc_low st) ownId [] (scc_stack st)
                    in st\<lparr>scc_stack := stack,
                          scc_sccs := (if length scc > 0 then scc_sccs st @ [scc] else scc_sccs st)\<rparr>
               else st)
      | _ \<Rightarrow> Inl AssertionError)"

fun followNode :: "nat \<Rightarrow> DirectedGraph \<Rightarrow> INode \<Rightarrow> SccState \<Rightarrow> SccState result" where
  "followNode 0 g n st = Inl Diverges"
| "followNode (Suc fuel) g n st =
     (if n \<in> set (scc_visited st) then Inr st
      else
        let st = enter_node n st
        in rbind (getDirectChildConnections g n) (\<lambda>cs.
           rbind (rfold (\<lambda>child st. rbind (followNode fuel g child st) (min_low n child)) (map gc_to cs) st)
             (leave_node n)))"

definition getStronglyConnectedComponents :: "DirectedGraph \<Rightarrow> INode list list result" where
  "getStronglyConnectedComponents g =
     rbind (rfold (followNode (Suc (length (g_nodes g))) g) (js_values (g_nodes g))
         \<lparr>scc_id = 0, scc_visited = [], scc_ids = [], scc_low = [], scc_stack = [], scc_sccs = []\<rparr>)
       (\<lambda>st. Inr (scc_sccs st))"

section \<open>The invariant of the search\<close>

abbreviation id_of :: "SccState \<Rightarrow> INode \<Rightarrow> nat" where
  "id_of st n \<equiv> the (map_of (scc_ids st) n)"

text \<open>
  Every visited node has an id and a low link; the low link is the id of a node it reaches and
  not above its own id. The stack is ordered by id. No node is twice on the stack or in the
  components found, and two nodes of a component reach each other.
\<close>

definition scc_inv :: "DirectedGraph \<Rightarrow> SccState \<Rightarrow> bool" where
  "scc_inv g st \<longleftrightarrow>
     set (scc_visited st) \<subseteq> graph_nodes g \<and>
     (\<forall>v. map_of (scc_ids st) v \<noteq> None \<longleftrightarrow> v \<in> set (scc_visited st)) \<and>
     (\<forall>v \<in> set (scc_visited st). id_of st v < scc_id st) \<and>
     (\<forall>v \<in> set (scc_visited st). \<exists>w \<in> set (scc_visited st).
        map_of (scc_low st) v = Some (id_of st w) \<and> id_of st w \<le> id_of st v \<and> (v, w) \<in> (g_edges g)\<^sup>*) \<and>
     inj_on (id_of st) (set (scc_visited st)) \<and>
     sorted_wrt (\<lambda>a b. id_of st b < id_of st a) (scc_stack st) \<and>
     distinct (scc_stack st @ concat (scc_sccs st)) \<and>
     set (scc_stack st @ concat (scc_sccs st)) \<subseteq> set (scc_visited st) \<and>
     (\<forall>C \<in> set (scc_sccs st). C \<noteq> [] \<and> (\<forall>a \<in> set C. \<forall>b \<in> set C. (a, b) \<in> (g_edges g)\<^sup>*))"

lemma popLoop_while:
  "distinct (scc @ stack) \<Longrightarrow> popLoop low k scc stack =
     (scc @ takeWhile (\<lambda>n. map_of low n = Some k) stack, dropWhile (\<lambda>n. map_of low n = Some k) stack)"
  by (induction stack arbitrary: scc) (auto simp: set_add_def)

text \<open>What a call keeps: it visits more nodes and leaves the numbers of the old ones alone.\<close>

definition scc_ext :: "SccState \<Rightarrow> SccState \<Rightarrow> bool" where
  "scc_ext st st' \<longleftrightarrow> set (scc_visited st) \<subseteq> set (scc_visited st') \<and>
     (\<forall>v \<in> set (scc_visited st). map_of (scc_ids st') v = map_of (scc_ids st) v \<and>
        map_of (scc_low st') v = map_of (scc_low st) v)"

lemma scc_ext_refl [simp]: "scc_ext st st"
  by (simp add: scc_ext_def)

lemma scc_ext_trans: "scc_ext a b \<Longrightarrow> scc_ext b c \<Longrightarrow> scc_ext a c"
  unfolding scc_ext_def by (metis subset_iff)

lemma scc_inv_enter:
  assumes inv: "scc_inv g st" and n: "n \<in> graph_nodes g" "n \<notin> set (scc_visited st)"
  shows "scc_inv g (enter_node n st)"
proof -
  let ?st = "enter_node n st"
  have ids: "map_of (scc_ids ?st) = (map_of (scc_ids st))(n \<mapsto> scc_id st)"
    and low: "map_of (scc_low ?st) = (map_of (scc_low st))(n \<mapsto> scc_id st)"
    and vis: "set (scc_visited ?st) = insert n (set (scc_visited st))"
    by (auto simp: enter_node_def)
  have old: "v \<noteq> n \<Longrightarrow> id_of ?st v = id_of st v" and new: "id_of ?st n = scc_id st" for v
    by (simp_all add: ids)
  have mem: "v \<noteq> n" if "v \<in> set (scc_stack st @ concat (scc_sccs st))" for v
    using that n(2) inv unfolding scc_inv_def by blast
  have "\<exists>w \<in> set (scc_visited ?st). map_of (scc_low ?st) v = Some (id_of ?st w) \<and>
      id_of ?st w \<le> id_of ?st v \<and> (v, w) \<in> (g_edges g)\<^sup>*" if v: "v \<in> set (scc_visited ?st)" for v
  proof (cases "v = n")
    case True
    then show ?thesis by (intro bexI[of _ n]) (simp_all add: low new vis)
  next
    case False
    then have "v \<in> set (scc_visited st)" using v vis by simp
    then obtain w where w: "w \<in> set (scc_visited st)" "map_of (scc_low st) v = Some (id_of st w)"
      "id_of st w \<le> id_of st v" "(v, w) \<in> (g_edges g)\<^sup>*"
      using inv unfolding scc_inv_def by blast
    then have "w \<noteq> n" using n(2) by blast
    with w False show ?thesis by (intro bexI[of _ w]) (simp_all add: low old vis)
  qed
  moreover have "inj_on (id_of ?st) (set (scc_visited ?st))"
  proof -
    have "inj_on (id_of ?st) (set (scc_visited st))"
      using inv old n(2) unfolding scc_inv_def by (metis (no_types, lifting) inj_on_cong)
    moreover have "id_of ?st n \<notin> id_of ?st ` set (scc_visited st)"
      using inv old new n(2) unfolding scc_inv_def by (metis (no_types, lifting) imageE less_irrefl)
    ultimately show ?thesis by (simp add: vis n(2))
  qed
  moreover have "sorted_wrt (\<lambda>a b. id_of ?st b < id_of ?st a) (scc_stack ?st)"
  proof -
    have "sorted_wrt (\<lambda>a b. id_of ?st b < id_of ?st a) (scc_stack st)"
      by (rule sorted_wrt_mono_rel[of _ "\<lambda>a b. id_of st b < id_of st a"])
        (use inv mem old in \<open>auto simp: scc_inv_def\<close>)
    moreover have "id_of ?st v < id_of ?st n" if "v \<in> set (scc_stack st)" for v
      using that mem[of v] old[of v] new inv unfolding scc_inv_def by auto
    ultimately show ?thesis by (simp add: enter_node_def)
  qed
  moreover have "v \<in> set (scc_visited ?st) \<Longrightarrow> id_of ?st v < scc_id ?st" for v
    using inv old[of v] new vis unfolding scc_inv_def by (cases "v = n") (auto simp: enter_node_def less_Suc_eq)
  moreover have "map_of (scc_ids ?st) v \<noteq> None \<longleftrightarrow> v \<in> set (scc_visited ?st)" for v
    using inv unfolding ids vis scc_inv_def by simp
  moreover have "distinct (scc_stack ?st @ concat (scc_sccs ?st))"
    using inv mem[of n] unfolding scc_inv_def by (auto simp: enter_node_def)
  moreover have "set (scc_stack ?st @ concat (scc_sccs ?st)) \<subseteq> set (scc_visited ?st)"
    using inv unfolding vis scc_inv_def by (auto simp: enter_node_def)
  ultimately show ?thesis using inv n(1) unfolding scc_inv_def by (simp add: vis) (simp add: enter_node_def)
qed

lemma scc_inv_min_low:
  assumes inv: "scc_inv g st" and n: "n \<in> set (scc_visited st)" and edge: "(n, child) \<in> g_edges g"
  shows "\<exists>l. min_low n child st = Inr (st\<lparr>scc_low := l\<rparr>) \<and> scc_inv g (st\<lparr>scc_low := l\<rparr>) \<and>
    (\<forall>v. v \<noteq> n \<longrightarrow> map_of l v = map_of (scc_low st) v)"
proof (cases "child \<in> set (scc_stack st)")
  case False
  with inv show ?thesis by (intro exI[of _ "scc_low st"]) (simp add: min_low_def)
next
  case True
  then have "child \<in> set (scc_visited st)" using inv unfolding scc_inv_def by auto
  then obtain w where w: "w \<in> set (scc_visited st)" "map_of (scc_low st) child = Some (id_of st w)"
      "id_of st w \<le> id_of st child" "(child, w) \<in> (g_edges g)\<^sup>*"
    using inv unfolding scc_inv_def by blast
  obtain u where u: "u \<in> set (scc_visited st)" "map_of (scc_low st) n = Some (id_of st u)"
      "id_of st u \<le> id_of st n" "(n, u) \<in> (g_edges g)\<^sup>*"
    using inv n unfolding scc_inv_def by blast
  define l where "l = js_put n (min (id_of st w) (id_of st u)) (scc_low st)"
  define x where "x = (if id_of st w \<le> id_of st u then w else u)"
  have x: "x \<in> set (scc_visited st)" "map_of l n = Some (id_of st x)" "id_of st x \<le> id_of st n"
    "(n, x) \<in> (g_edges g)\<^sup>*"
    using w u edge by (auto simp: x_def l_def intro: converse_rtrancl_into_rtrancl)
  have l: "map_of l v = map_of (scc_low st) v" if "v \<noteq> n" for v using that by (simp add: l_def)
  have "\<exists>w \<in> set (scc_visited st). map_of l v = Some (id_of st w) \<and> id_of st w \<le> id_of st v \<and>
      (v, w) \<in> (g_edges g)\<^sup>*" if "v \<in> set (scc_visited st)" for v
    using x l[of v] inv that unfolding scc_inv_def by (cases "v = n") auto
  then have "scc_inv g (st\<lparr>scc_low := l\<rparr>)" using inv unfolding scc_inv_def by simp
  moreover have "min_low n child st = Inr (st\<lparr>scc_low := l\<rparr>)"
    using True w(2) u(2) by (simp add: min_low_def l_def)
  ultimately show ?thesis using l by blast
qed

text \<open>Leaving a node pops only nodes pushed since the node was entered.\<close>

lemma scc_inv_leave:
  assumes inv: "scc_inv g st" and stack: "scc_stack st = p @ n # rest"
    and p: "\<And>v. v \<in> set p \<Longrightarrow> (n, v) \<in> (g_edges g)\<^sup>*"
  shows "\<exists>st' q. leave_node n st = Inr st' \<and> scc_inv g st' \<and> scc_ext st st' \<and>
    scc_visited st' = scc_visited st \<and> scc_stack st' = q @ rest \<and> set q \<subseteq> insert n (set p)"
proof -
  have n: "n \<in> set (scc_visited st)" using inv stack unfolding scc_inv_def by auto
  then obtain w where w: "w \<in> set (scc_visited st)" "map_of (scc_low st) n = Some (id_of st w)"
    using inv unfolding scc_inv_def by blast
  obtain i where i: "map_of (scc_ids st) n = Some i" using inv n unfolding scc_inv_def by blast
  show ?thesis
  proof (cases "id_of st w = i")
    case False
    then have "leave_node n st = Inr st" by (simp add: leave_node_def i w(2))
    with inv stack show ?thesis by (intro exI[of _ st] exI[of _ "p @ [n]"]) auto
  next
    case True
    let ?P = "\<lambda>v. map_of (scc_low st) v = Some i"
    let ?take = "takeWhile ?P (p @ n # rest)" and ?drop = "dropWhile ?P (p @ n # rest)"
    have "\<not> ?P (hd rest)" if ne: "rest \<noteq> []"
    proof -
      obtain v where v: "v = hd rest" "v \<in> set rest" using hd_in_set[OF ne] by blast
      then have "id_of st v < i" "v \<in> set (scc_visited st)"
        using inv stack i unfolding scc_inv_def by (auto simp: sorted_wrt_append)
      moreover obtain u where "map_of (scc_low st) v = Some (id_of st u)" "id_of st u \<le> id_of st v"
        using inv calculation(2) unfolding scc_inv_def by blast
      ultimately show ?thesis using v(1) by simp
    qed
    then have rest: "takeWhile ?P rest = []" "dropWhile ?P rest = rest" by (cases rest; simp)+
    have take: "set ?take \<subseteq> insert n (set p)" and split: "?take @ ?drop = p @ n # rest"
      using rest by (auto simp: takeWhile_append dest: set_takeWhileD split: if_splits)
    have drop: "\<exists>q. ?drop = q @ rest \<and> set q \<subseteq> insert n (set p)"
    proof (cases "\<forall>v \<in> set p. ?P v")
      case all: True
      then show ?thesis using rest by (intro exI[of _ "if ?P n then [] else [n]"]) (simp add: dropWhile_append)
    next
      case False
      then show ?thesis
        by (intro exI[of _ "dropWhile ?P p @ [n]"])
          (auto simp: dropWhile_append1 dest: set_dropWhileD)
    qed
    have mutual: "(a, b) \<in> (g_edges g)\<^sup>*" if "a \<in> set ?take" "b \<in> set ?take" for a b
    proof -
      have "a \<in> set (scc_visited st)" "?P a"
        using set_takeWhileD[OF that(1)] inv unfolding scc_inv_def stack by auto
      then obtain u where "u \<in> set (scc_visited st)" "id_of st u = i" "(a, u) \<in> (g_edges g)\<^sup>*"
        using inv unfolding scc_inv_def by fastforce
      moreover have "u = n" using calculation inv n i unfolding scc_inv_def inj_on_def by auto
      moreover have "(n, b) \<in> (g_edges g)\<^sup>*" using take that(2) p by auto
      ultimately show ?thesis by auto
    qed
    obtain tk dr where tk: "tk = ?take" and dr: "dr = ?drop" by blast
    define st' where "st' = st\<lparr>scc_stack := dr,
      scc_sccs := (if length tk > 0 then scc_sccs st @ [tk] else scc_sccs st)\<rparr>"
    have st': "scc_stack st' = ?drop"
      "scc_sccs st' = (if ?take = [] then scc_sccs st else scc_sccs st @ [?take])"
      by (simp_all add: st'_def tk dr)
    have dist: "distinct (scc_stack st)" using inv unfolding scc_inv_def by simp
    then have leave: "leave_node n st = Inr st'"
      using i w(2) True by (simp add: leave_node_def popLoop_while stack st'_def tk dr)
    have sub: "set ?drop \<subseteq> set (scc_stack st)" "set ?take \<subseteq> set (scc_stack st)"
      using stack by (auto dest: set_dropWhileD set_takeWhileD)
    have perm: "mset (scc_stack st' @ concat (scc_sccs st')) = mset (scc_stack st @ concat (scc_sccs st))"
    proof -
      have "mset (scc_stack st') + mset (concat (scc_sccs st')) =
          mset (?take @ ?drop) + mset (concat (scc_sccs st))"
        unfolding tk[symmetric] dr[symmetric] by (cases "tk = []") (simp_all add: st'_def)
      then show ?thesis unfolding split stack[symmetric] by simp
    qed
    have old: "sorted_wrt (\<lambda>a b. id_of st b < id_of st a) (scc_stack st)"
      "distinct (scc_stack st @ concat (scc_sccs st))"
      "set (scc_stack st @ concat (scc_sccs st)) \<subseteq> set (scc_visited st)"
      "\<And>C. C \<in> set (scc_sccs st) \<Longrightarrow> C \<noteq> [] \<and> (\<forall>a \<in> set C. \<forall>b \<in> set C. (a, b) \<in> (g_edges g)\<^sup>*)"
      using inv unfolding scc_inv_def by simp_all
    have comps: "C \<noteq> [] \<and> (\<forall>a \<in> set C. \<forall>b \<in> set C. (a, b) \<in> (g_edges g)\<^sup>*)"
      if C: "C \<in> set (scc_sccs st')" for C
    proof (cases "C \<in> set (scc_sccs st)")
      case False
      with C have "C = tk" "tk \<noteq> []" by (auto simp: st'_def split: if_splits)
      moreover have "(a, b) \<in> (g_edges g)\<^sup>*" if "a \<in> set tk" "b \<in> set tk" for a b
        using mutual that unfolding tk by metis
      ultimately show ?thesis by blast
    qed (rule old(4))
    have "sorted_wrt (\<lambda>a b. id_of st b < id_of st a) (tk @ dr)"
      using old(1) split by (simp add: stack tk dr)
    then have "sorted_wrt (\<lambda>a b. id_of st' b < id_of st' a) (scc_stack st')"
      by (simp add: sorted_wrt_append st'_def)
    moreover have "distinct (scc_stack st' @ concat (scc_sccs st'))"
      using old(2) mset_eq_imp_distinct_iff[OF perm] by blast
    moreover have "set (scc_stack st' @ concat (scc_sccs st')) \<subseteq> set (scc_visited st)"
      using old(3) mset_eq_setD[OF perm] by blast
    moreover have "\<forall>C \<in> set (scc_sccs st'). C \<noteq> [] \<and> (\<forall>a \<in> set C. \<forall>b \<in> set C. (a, b) \<in> (g_edges g)\<^sup>*)"
      using comps by (rule ballI)
    moreover have same: "scc_visited st' = scc_visited st" "scc_ids st' = scc_ids st"
      "scc_low st' = scc_low st" "scc_id st' = scc_id st" by (simp_all add: st'_def)
    ultimately have "scc_inv g st'"
      using inv unfolding scc_inv_def same by (elim conjE) (intro conjI; assumption)
    moreover have "scc_ext st st'" by (simp add: scc_ext_def st'_def)
    ultimately show ?thesis using leave drop st'(1) same(1) by auto
  qed
qed

section \<open>The search is sound\<close>

definition followed :: "DirectedGraph \<Rightarrow> INode \<Rightarrow> SccState \<Rightarrow> SccState \<Rightarrow> bool" where
  "followed g n st st' \<longleftrightarrow> scc_inv g st' \<and> scc_ext st st' \<and> n \<in> set (scc_visited st') \<and>
     (\<exists>p. scc_stack st' = p @ scc_stack st \<and> (\<forall>v \<in> set p. (n, v) \<in> (g_edges g)\<^sup>*))"

text \<open>While the children of an entered node are followed.\<close>

definition following :: "DirectedGraph \<Rightarrow> INode \<Rightarrow> SccState \<Rightarrow> SccState \<Rightarrow> bool" where
  "following g n st s \<longleftrightarrow> scc_inv g s \<and> scc_ext st s \<and> n \<in> set (scc_visited s) \<and>
     (\<exists>p. scc_stack s = p @ n # scc_stack st \<and> (\<forall>v \<in> set p. (n, v) \<in> (g_edges g)\<^sup>*))"

lemma following_step:
  assumes "following g n st s" "n \<notin> set (scc_visited st)" "(n, child) \<in> g_edges g" "followed g child s s1"
  shows "\<exists>s2. min_low n child s1 = Inr s2 \<and> following g n st s2"
proof -
  have s1: "scc_inv g s1" "scc_ext s s1" using assms(4) unfolding followed_def by blast+
  have n1: "n \<in> set (scc_visited s1)" using assms(1) s1(2) unfolding following_def scc_ext_def by blast
  obtain l where l: "min_low n child s1 = Inr (s1\<lparr>scc_low := l\<rparr>)" "scc_inv g (s1\<lparr>scc_low := l\<rparr>)"
    "\<And>v. v \<noteq> n \<Longrightarrow> map_of l v = map_of (scc_low s1) v"
    using scc_inv_min_low[OF s1(1) n1 assms(3)] by blast
  have "scc_ext st s1" using assms(1) s1(2) unfolding following_def by (blast intro: scc_ext_trans)
  then have ext: "scc_ext st (s1\<lparr>scc_low := l\<rparr>)"
  proof -
    have "map_of l v = map_of (scc_low s1) v" if "v \<in> set (scc_visited st)" for v
      using l(3)[of v] assms(2) that by metis
    with \<open>scc_ext st s1\<close> show ?thesis unfolding scc_ext_def by simp
  qed
  obtain p where p: "scc_stack s = p @ n # scc_stack st" "\<forall>v \<in> set p. (n, v) \<in> (g_edges g)\<^sup>*"
    using assms(1) unfolding following_def by blast
  obtain q where q: "scc_stack s1 = q @ scc_stack s" "\<forall>v \<in> set q. (child, v) \<in> (g_edges g)\<^sup>*"
    using assms(4) unfolding followed_def by blast
  have "scc_stack (s1\<lparr>scc_low := l\<rparr>) = (q @ p) @ n # scc_stack st" using p(1) q(1) by simp
  moreover have "\<forall>v \<in> set (q @ p). (n, v) \<in> (g_edges g)\<^sup>*"
    using p(2) q(2) assms(3) by (auto intro: converse_rtrancl_into_rtrancl)
  ultimately have "following g n st (s1\<lparr>scc_low := l\<rparr>)"
    using l(2) ext n1 unfolding following_def by (auto simp del: append_assoc)
  with l(1) show ?thesis by blast
qed

lemma following_leave:
  assumes "following g n st s" "n \<notin> set (scc_visited st)"
  shows "\<exists>st'. leave_node n s = Inr st' \<and> followed g n st st'"
proof -
  obtain p where p: "scc_stack s = p @ n # scc_stack st" "\<And>v. v \<in> set p \<Longrightarrow> (n, v) \<in> (g_edges g)\<^sup>*"
    using assms(1) unfolding following_def by blast
  obtain st' q where st': "leave_node n s = Inr st'" "scc_inv g st'" "scc_ext s st'"
    "scc_visited st' = scc_visited s" "scc_stack st' = q @ scc_stack st" "set q \<subseteq> insert n (set p)"
    using scc_inv_leave[OF _ p(1), of g] p(2) assms(1) unfolding following_def by blast
  have "scc_ext st st'" using assms(1) st'(3) unfolding following_def by (blast intro: scc_ext_trans)
  then have "followed g n st st'"
    using st'(2,4,5,6) p(2) assms(1) unfolding followed_def following_def by auto
  with st'(1) show ?thesis by blast
qed

lemma followNode_follows:
  assumes wf: "wf_graph g"
  shows "n \<in> graph_nodes g \<Longrightarrow> scc_inv g st \<Longrightarrow> card (graph_nodes g - set (scc_visited st)) < k \<Longrightarrow>
    \<exists>st'. followNode k g n st = Inr st' \<and> followed g n st st'"
proof (induction k arbitrary: n st)
  case 0
  then show ?case by simp
next
  case (Suc k)
  show ?case
  proof (cases "n \<in> set (scc_visited st)")
    case True
    with Suc.prems(2) show ?thesis by (intro exI[of _ st]) (simp add: followed_def)
  next
    case False
    define cs where "cs = filter (\<lambda>c. gc_from c = n) (js_values (g_connections g))"
    have cs: "getDirectChildConnections g n = Inr cs"
      using Suc.prems(1) by (simp add: direct_connections in_graph_iff[OF wf] cs_def)
    let ?f = "\<lambda>child st. rbind (followNode k g child st) (min_low n child)"
    have enter: "scc_ext st (enter_node n st)"
      using False by (auto simp: scc_ext_def enter_node_def)
    have start: "following g n st (enter_node n st)"
      using scc_inv_enter[OF Suc.prems(2,1) False] enter unfolding following_def
      by (simp add: enter_node_def)
    have "\<exists>s. rfold ?f (map gc_to cs) (enter_node n st) = Inr s \<and> following g n st s"
    proof (rule rfold_total[where P = "following g n st", OF start])
      fix child s assume child: "child \<in> set (map gc_to cs)" and s: "following g n st s"
      have edge: "(n, child) \<in> g_edges g" using child by (auto simp: cs_def g_edges_def)
      have in_g: "child \<in> graph_nodes g" using g_edges_in[OF wf edge] in_graph_iff[OF wf] by blast
      have "graph_nodes g - set (scc_visited s) \<subset> graph_nodes g - set (scc_visited st)"
        using s False Suc.prems(1) unfolding following_def scc_ext_def by auto
      then have "card (graph_nodes g - set (scc_visited s)) < card (graph_nodes g - set (scc_visited st))"
        by (rule psubset_card_mono[rotated]) simp
      then have "card (graph_nodes g - set (scc_visited s)) < k" using Suc.prems(3) by simp
      then obtain s1 where s1: "followNode k g child s = Inr s1" "followed g child s s1"
        using Suc.IH[OF in_g] s unfolding following_def by blast
      show "\<exists>s'. ?f child s = Inr s' \<and> following g n st s'"
        using following_step[OF s False edge s1(2)] s1(1) by simp
    qed
    then obtain s where s: "rfold ?f (map gc_to cs) (enter_node n st) = Inr s" "following g n st s"
      by blast
    from following_leave[OF s(2) False] s(1) False show ?thesis by (simp add: cs Let_def)
  qed
qed

lemma sccs_disjoint:
  assumes "distinct (concat Cs)" "[] \<notin> set Cs" "i < length Cs" "j < length Cs" "i \<noteq> j"
  shows "set (Cs ! i) \<inter> set (Cs ! j) = {}"
proof -
  have "distinct Cs" using assms(1,2) by (simp add: distinct_concat_iff removeAll_id)
  then have "Cs ! i \<noteq> Cs ! j" using assms(3-5) by (simp add: nth_eq_iff_index_eq)
  with assms(1,3,4) show ?thesis by (simp add: distinct_concat_iff)
qed

text \<open>
  The call returns for every well-formed graph; the nodes of each component reach each other,
  and no node is in two components.
\<close>

lemma getStronglyConnectedComponents_sound:
  assumes wf: "wf_graph g"
  shows "\<exists>Cs. getStronglyConnectedComponents g = Inr Cs \<and>
    (\<forall>C \<in> set Cs. C \<noteq> [] \<and> set C \<subseteq> graph_nodes g \<and> (\<forall>a \<in> set C. \<forall>b \<in> set C. (a, b) \<in> (g_edges g)\<^sup>*)) \<and>
    distinct (concat Cs)"
proof -
  let ?st = "\<lparr>scc_id = 0, scc_visited = [], scc_ids = [], scc_low = [], scc_stack = [], scc_sccs = []\<rparr>"
  have "\<exists>st. rfold (followNode (Suc (length (g_nodes g))) g) (js_values (g_nodes g)) ?st = Inr st \<and> scc_inv g st"
  proof (rule rfold_total)
    show "scc_inv g ?st" by (simp add: scc_inv_def)
  next
    fix n st assume n: "n \<in> graph_nodes g" and inv: "scc_inv g st"
    have "card (graph_nodes g - set (scc_visited st)) < Suc (length (g_nodes g))"
      using card_graph_nodes[of g] card_mono[of "graph_nodes g" "graph_nodes g - set (scc_visited st)"] by auto
    from followNode_follows[OF wf n inv this]
    show "\<exists>st'. followNode (Suc (length (g_nodes g))) g n st = Inr st' \<and> scc_inv g st'"
      unfolding followed_def by blast
  qed
  then obtain st where st: "rfold (followNode (Suc (length (g_nodes g))) g) (js_values (g_nodes g)) ?st = Inr st"
    "scc_inv g st" by blast
  have "getStronglyConnectedComponents g = Inr (scc_sccs st)"
    by (simp only: getStronglyConnectedComponents_def st(1) rbind_simps)
  moreover have "set C \<subseteq> graph_nodes g" if "C \<in> set (scc_sccs st)" for C
    using st(2) that unfolding scc_inv_def by auto
  ultimately show ?thesis using st(2) unfolding scc_inv_def by auto
qed

text \<open>
  A node of a cycle is not always in a component: the children's low links are not final when
  they are compared, and the loop that pops a component stops at the first node whose low link
  differs. Here \<open>r\<close> reaches \<open>a\<close>, \<open>a\<close> reaches \<open>b\<close> and \<open>r\<close>, and \<open>b\<close> reaches \<open>a\<close>: one component
  of three nodes, and the call returns none.
\<close>

definition scc_nested :: DirectedGraph where
  "scc_nested = (let r = sample_node 0 ''r''; a = sample_node 1 ''a''; b = sample_node 2 ''b''
     in sample_graph [r, a, b] [edge r a, edge a b, edge a r, edge b a])"

lemma scc_nested_none: "getStronglyConnectedComponents scc_nested = Inr []"
  by code_simp

end
