(* ===== verification/FilterDisabled.thy ===== *)
theory FilterDisabled
  imports GraphSCC
begin

text \<open>
  \<open>filterDisabledNodes\<close> (\<^verbatim>\<open>filter-disabled-nodes.ts\<close>): every disabled node is removed from a copy
  of the graph and its main parents are joined to its main children. The lemmas give the main
  connections of the result exactly: two enabled nodes are joined if and only if a main path
  leads from one to the other through disabled nodes only.
\<close>

section \<open>The operation\<close>

definition not_main :: "GraphConnection \<Rightarrow> bool" where
  "not_main c \<longleftrightarrow> gc_type c \<noteq> MainConn"

definition remove_if_disabled :: "INode \<Rightarrow> DirectedGraph \<Rightarrow> DirectedGraph result" where
  "remove_if_disabled n g =
     (if is_disabled n then rbind (removeNodeReconnect not_main n g) (\<lambda>(g', _). Inr g') else Inr g)"

definition filterDisabledNodes :: "DirectedGraph \<Rightarrow> DirectedGraph result" where
  "filterDisabledNodes g =
     rbind (clone g) (\<lambda>fg. rfold remove_if_disabled (js_values (g_nodes fg)) fg)"

section \<open>Paths through a set of nodes\<close>

definition through :: "('a \<times> 'a) set \<Rightarrow> 'a set \<Rightarrow> ('a \<times> 'a) set" where
  "through M D = M O {(d, b) \<in> M. d \<in> D}\<^sup>*"

lemma through_base: "(a, b) \<in> M \<Longrightarrow> (a, b) \<in> through M D"
  by (auto simp: through_def)

lemma through_step: "(a, d) \<in> through M D \<Longrightarrow> d \<in> D \<Longrightarrow> (d, b) \<in> M \<Longrightarrow> (a, b) \<in> through M D"
  by (auto simp: through_def relcomp_unfold intro: rtrancl.rtrancl_into_rtrancl)

lemma through_empty [simp]: "through M {} = M"
  by (auto simp: through_def)

lemma through_induct [consumes 1, case_names base step]:
  assumes "(a, b) \<in> through M D" and "\<And>b. (a, b) \<in> M \<Longrightarrow> P b"
    and "\<And>d b. (a, d) \<in> through M D \<Longrightarrow> P d \<Longrightarrow> d \<in> D \<Longrightarrow> (d, b) \<in> M \<Longrightarrow> P b"
  shows "P b"
proof -
  obtain x where x: "(a, x) \<in> M" "(x, b) \<in> {(d, b) \<in> M. d \<in> D}\<^sup>*"
    using assms(1) by (auto simp: through_def)
  have "(a, b) \<in> through M D \<and> P b"
    using x(2)
  proof (induction rule: rtrancl_induct)
    case base
    show ?case using through_base[OF x(1)] assms(2)[OF x(1)] by blast
  next
    case (step d c)
    then have d: "d \<in> D" "(d, c) \<in> M" by auto
    show ?case using through_step[OF _ d] assms(3)[OF _ _ d] step.IH by blast
  qed
  then show ?thesis by simp
qed

lemma through_trans:
  assumes "(a, d) \<in> through M D" "d \<in> D" "(d, b) \<in> through M D"
  shows "(a, b) \<in> through M D"
  using assms(3)
proof (induction rule: through_induct)
  case (base b)
  with assms(1,2) show ?case by (rule through_step)
next
  case (step e b)
  then show ?case by (metis through_step)
qed

lemma through_mono: "D \<subseteq> D' \<Longrightarrow> (a, b) \<in> through M D \<Longrightarrow> (a, b) \<in> through M D'"
  by (erule through_induct) (auto intro: through_base through_step)

lemma through_insert:
  "(a, b) \<in> through M (insert n D) \<longleftrightarrow>
     (a, b) \<in> through M D \<or> (a, n) \<in> through M D \<and> (n, b) \<in> through M D"
proof
  assume "(a, b) \<in> through M (insert n D)"
  then show "(a, b) \<in> through M D \<or> (a, n) \<in> through M D \<and> (n, b) \<in> through M D"
  proof (induction rule: through_induct)
    case (step d b)
    then show ?case by (metis insert_iff through_base through_step)
  qed (simp add: through_base)
next
  assume "(a, b) \<in> through M D \<or> (a, n) \<in> through M D \<and> (n, b) \<in> through M D"
  then show "(a, b) \<in> through M (insert n D)"
    using through_mono[of D "insert n D"] through_trans[of a n M "insert n D" b] by blast
qed

text \<open>A loop through \<open>D\<close> at a node outside needs a cycle among the nodes and \<open>D\<close>.\<close>

lemma through_cycle: "(a, b) \<in> through M D \<Longrightarrow> a \<in> D' \<Longrightarrow> b \<in> D' \<Longrightarrow> D \<subseteq> D' \<Longrightarrow>
    (a, b) \<in> {(x, y) \<in> M. x \<in> D' \<and> y \<in> D'}\<^sup>+"
proof (induction rule: through_induct)
  case (step d b)
  then have "(a, d) \<in> {(x, y) \<in> M. x \<in> D' \<and> y \<in> D'}\<^sup>+" by blast
  then show ?case by (rule trancl_into_trancl) (use step in auto)
qed auto

section \<open>The main connections of the result\<close>

definition disabled_edges :: "DirectedGraph \<Rightarrow> (INode \<times> INode) set" where
  "disabled_edges g = {(a, b) \<in> main_edges g. a \<in> Collect is_disabled \<and> b \<in> Collect is_disabled}"

definition bypassed :: "DirectedGraph \<Rightarrow> INode set \<Rightarrow> DirectedGraph \<Rightarrow> bool" where
  "bypassed g D h \<longleftrightarrow> wf_graph h \<and> keys_faithful h \<and>
     (\<forall>n. in_graph h n \<longleftrightarrow> in_graph g n \<and> n \<notin> D) \<and>
     main_edges h = {(a, b) \<in> through (main_edges g) D. a \<notin> D \<and> b \<notin> D} \<and>
     {c \<in> graph_conns h. not_main c} = {c \<in> graph_conns g. not_main c \<and> gc_from c \<notin> D \<and> gc_to c \<notin> D}"

lemma bypassedD:
  assumes "bypassed g D h"
  shows "wf_graph h" "keys_faithful h" "in_graph h n \<longleftrightarrow> in_graph g n \<and> n \<notin> D"
    "(a, b) \<in> main_edges h \<longleftrightarrow> (a, b) \<in> through (main_edges g) D \<and> a \<notin> D \<and> b \<notin> D"
    "c \<in> graph_conns h \<and> not_main c \<longleftrightarrow> c \<in> graph_conns g \<and> not_main c \<and> gc_from c \<notin> D \<and> gc_to c \<notin> D"
  using assms unfolding bypassed_def by blast+

lemma main_edge_iff:
  "(a, b) \<in> main_edges g \<longleftrightarrow> (\<exists>c \<in> graph_conns g. gc_type c = MainConn \<and> gc_from c = a \<and> gc_to c = b)"
  by (auto simp: main_edges_def)

lemma keys_faithful_less: "keys_faithful g \<Longrightarrow> (\<And>n. in_graph h n \<Longrightarrow> in_graph g n) \<Longrightarrow> keys_faithful h"
  unfolding keys_faithful_def by (auto intro: inj_on_subset)

lemma bypassed_step:
  assumes h: "bypassed g D h" and n: "in_graph h n" and dis: "is_disabled n"
    and D: "D \<subseteq> Collect is_disabled" and acyc: "acyclic (disabled_edges g)"
  shows "\<exists>h' new. removeNodeReconnect not_main n h = Inr (h', new) \<and> bypassed g (insert n D) h'"
proof -
  note hD = bypassedD[OF h]
  have "(n, n) \<notin> main_edges h"
  proof
    assume "(n, n) \<in> main_edges h"
    then have "(n, n) \<in> through (main_edges g) D" using hD(4) by blast
    then have "(n, n) \<in> (disabled_edges g)\<^sup>+"
      unfolding disabled_edges_def by (rule through_cycle) (use dis D in auto)
    with acyc show False by (simp add: acyclic_def)
  qed
  then have loop: "no_self_loop not_main n h"
    by (auto simp: no_self_loop_def main_edges_def not_main_def)
  obtain h' new where h': "removeNodeReconnect not_main n h = Inr (h', new)"
    using removeNodeReconnect_total[OF n] by (metis surj_pair)
  note conns = removeNodeReconnect_conns[OF hD(1,2) n loop h']
  have nodes: "in_graph h' m \<longleftrightarrow> in_graph h m \<and> m \<noteq> n" for m
    using conns(2) n by (auto simp: in_graph_def)
  have main: "(a, b) \<in> main_edges h' \<longleftrightarrow>
      a \<noteq> n \<and> b \<noteq> n \<and> ((a, b) \<in> main_edges h \<or> (a, n) \<in> main_edges h \<and> (n, b) \<in> main_edges h)" for a b
  proof
    assume "(a, b) \<in> main_edges h'"
    then obtain c where c: "c \<in> graph_conns h'" "gc_type c = MainConn" "a = gc_from c" "b = gc_to c"
      by (auto simp: main_edge_iff)
    from c(1) consider "c \<in> graph_conns h" "gc_to c \<noteq> n" "gc_from c \<noteq> n"
      | inc out where "c = join_connections inc out" "inc \<in> graph_conns h" "gc_to inc = n" "\<not> not_main inc"
          "out \<in> graph_conns h" "gc_from out = n" "\<not> not_main out"
      unfolding conns(3) by blast
    then show "a \<noteq> n \<and> b \<noteq> n \<and> ((a, b) \<in> main_edges h \<or> (a, n) \<in> main_edges h \<and> (n, b) \<in> main_edges h)"
    proof cases
      case 1
      with c show ?thesis by (auto simp: main_edge_iff)
    next
      case 2
      then have "(a, n) \<in> main_edges h" "(n, b) \<in> main_edges h"
        using c by (auto simp: main_edge_iff not_main_def)
      with \<open>(n, n) \<notin> main_edges h\<close> show ?thesis by blast
    qed
  next
    assume r: "a \<noteq> n \<and> b \<noteq> n \<and> ((a, b) \<in> main_edges h \<or> (a, n) \<in> main_edges h \<and> (n, b) \<in> main_edges h)"
    show "(a, b) \<in> main_edges h'"
    proof (cases "(a, b) \<in> main_edges h")
      case True
      then obtain c where "c \<in> graph_conns h" "gc_type c = MainConn" "a = gc_from c" "b = gc_to c"
        by (auto simp: main_edge_iff)
      with r have "c \<in> graph_conns h'" unfolding conns(3) by blast
      then show ?thesis unfolding main_edge_iff
        using \<open>gc_type c = MainConn\<close> \<open>a = gc_from c\<close> \<open>b = gc_to c\<close> by blast
    next
      case False
      with r obtain inc out where "inc \<in> graph_conns h" "gc_type inc = MainConn" "a = gc_from inc" "n = gc_to inc"
        "out \<in> graph_conns h" "gc_type out = MainConn" "n = gc_from out" "b = gc_to out"
        by (auto simp: main_edge_iff)
      then have "join_connections inc out \<in> graph_conns h'"
        unfolding conns(3) not_main_def by (intro UnI2 CollectI exI[of _ inc] exI[of _ out]) simp
      then show ?thesis unfolding main_edge_iff
        by (intro bexI[of _ "join_connections inc out"]) (simp_all add: \<open>gc_type inc = MainConn\<close> \<open>a = gc_from inc\<close> \<open>b = gc_to out\<close>)
    qed
  qed
  have "main_edges h' = {(a, b) \<in> through (main_edges g) (insert n D). a \<notin> insert n D \<and> b \<notin> insert n D}"
    using hD(3)[of n] n by (auto simp: main hD(4) through_insert)
  moreover have "{c \<in> graph_conns h'. not_main c} =
      {c \<in> graph_conns g. not_main c \<and> gc_from c \<notin> insert n D \<and> gc_to c \<notin> insert n D}"
  proof -
    have "c \<in> graph_conns h' \<and> not_main c \<longleftrightarrow>
        c \<in> graph_conns h \<and> not_main c \<and> gc_from c \<noteq> n \<and> gc_to c \<noteq> n" for c
      unfolding conns(3) by (auto simp: not_main_def)
    with hD(5) show ?thesis by blast
  qed
  moreover have "keys_faithful h'" using keys_faithful_less[OF hD(2)] nodes by blast
  ultimately have "bypassed g (insert n D) h'"
    using conns(1) hD(3) nodes unfolding bypassed_def by blast
  with h' show ?thesis by blast
qed

lemma filterDisabledNodes_bypassed:
  assumes wf: "wf_graph g" and keys: "keys_faithful g" and acyc: "acyclic (disabled_edges g)"
  shows "\<exists>h. filterDisabledNodes g = Inr h \<and> bypassed g {n \<in> graph_nodes g. is_disabled n} h"
proof -
  let ?ns = "js_values (g_nodes g)"
  have dist: "distinct ?ns"
  proof -
    have "inj_on snd (set (g_nodes g))"
      proof (rule inj_onI)
      fix p q assume "p \<in> set (g_nodes g)" "q \<in> set (g_nodes g)" "snd p = snd q"
      moreover have "\<forall>p \<in> set (g_nodes g). fst p = node_name (snd p)" using wf unfolding wf_graph_def by auto
      ultimately show "p = q" by (simp add: prod_eq_iff)
    qed
    moreover have "distinct (g_nodes g)" using wf unfolding wf_graph_def js_wf_def distinct_map by blast
    ultimately show ?thesis by (simp add: js_values_def distinct_map)
  qed
  have "\<exists>h. rfold remove_if_disabled ?ns g = Inr h \<and> bypassed g {n \<in> set ?ns. is_disabled n} h"
  proof (rule rfold_total_prefix[where P = "\<lambda>ns h. bypassed g {n \<in> set ns. is_disabled n} h"])
    show "bypassed g {n \<in> set []. is_disabled n} g" using wf keys by (auto simp: bypassed_def)
  next
    fix pre n rest h
    assume split: "?ns = pre @ n # rest" and h: "bypassed g {n \<in> set pre. is_disabled n} h"
    show "\<exists>h'. remove_if_disabled n h = Inr h' \<and> bypassed g {m \<in> set (pre @ [n]). is_disabled m} h'"
    proof (cases "is_disabled n")
      case True
      have "n \<in> graph_nodes g" "n \<notin> set pre" using split dist by auto
      then have "in_graph h n" using bypassedD(3)[OF h] in_graph_iff[OF wf] by auto
      from bypassed_step[OF h this True _ acyc] obtain h' new where
        h': "removeNodeReconnect not_main n h = Inr (h', new)"
        "bypassed g (insert n {n \<in> set pre. is_disabled n}) h'" by blast
      moreover have "insert n {n \<in> set pre. is_disabled n} = {m \<in> set (pre @ [n]). is_disabled m}"
        using True by auto
      ultimately show ?thesis using True by (simp add: remove_if_disabled_def)
    next
      case False
      then have "{m \<in> set (pre @ [n]). is_disabled m} = {n \<in> set pre. is_disabled n}" by auto
      with h False show ?thesis by (simp add: remove_if_disabled_def)
    qed
  qed
  then show ?thesis by (simp add: filterDisabledNodes_def clone_identical[OF wf])
qed

text \<open>C1: Let the graph be well-formed, no name of a node contain \<open>-\<close> (the keys of connections, whose parts are joined by
  \<open>-\<close>, may be the same for two connections otherwise: \<open>dash_collision\<close>), and no disabled nodes form a cycle. Then the
  result holds exactly the enabled nodes; two of them are joined by a main connection if and only if a main path leads
  through disabled nodes only; their other connections are kept.\<close>

lemma filterDisabledNodes_exact:
  assumes wf: "wf_graph g" and dash: "dash_free g" and acyc: "acyclic (disabled_edges g)"
  shows "\<exists>h. filterDisabledNodes g = Inr h \<and> wf_graph h \<and>
    graph_nodes h = {n \<in> graph_nodes g. \<not> is_disabled n} \<and>
    main_edges h = {(a, b). \<not> is_disabled a \<and> \<not> is_disabled b \<and>
      (a, b) \<in> main_edges g O {(d, b) \<in> main_edges g. is_disabled d}\<^sup>*} \<and>
    {c \<in> graph_conns h. not_main c} =
      {c \<in> graph_conns g. not_main c \<and> \<not> is_disabled (gc_from c) \<and> \<not> is_disabled (gc_to c)}"
proof -
  let ?D = "{n \<in> graph_nodes g. is_disabled n}"
  obtain h where h: "filterDisabledNodes g = Inr h" "bypassed g ?D h"
    using filterDisabledNodes_bypassed[OF wf dash_free_keys[OF wf dash] acyc] by blast
  note hD = bypassedD[OF h(2)]
  have ends: "a \<in> graph_nodes g \<and> b \<in> graph_nodes g" if "(a, b) \<in> main_edges g" for a b
    using g_edges_in[OF wf] that main_edges_subset in_graph_iff[OF wf] by blast
  have same: "{(d, b) \<in> main_edges g. is_disabled d} = {(d, b) \<in> main_edges g. d \<in> ?D}"
    using ends by auto
  have thr: "a \<in> graph_nodes g \<and> b \<in> graph_nodes g" if "(a, b) \<in> through (main_edges g) ?D" for a b
    using that by (induction rule: through_induct) (use ends in blast)+
  have "graph_nodes h = {n \<in> graph_nodes g. \<not> is_disabled n}"
    using hD(3) in_graph_iff[OF wf] in_graph_iff[OF hD(1)] by auto
  moreover have "main_edges h = {(a, b). \<not> is_disabled a \<and> \<not> is_disabled b \<and>
      (a, b) \<in> main_edges g O {(d, b) \<in> main_edges g. is_disabled d}\<^sup>*}"
  proof (intro set_eqI, clarify)
    fix a b
    show "(a, b) \<in> main_edges h \<longleftrightarrow> (a, b) \<in> {(a, b). \<not> is_disabled a \<and> \<not> is_disabled b \<and>
        (a, b) \<in> main_edges g O {(d, b) \<in> main_edges g. is_disabled d}\<^sup>*}"
      unfolding same through_def[symmetric] hD(4) using thr[of a b] by blast
  qed
  moreover have "{c \<in> graph_conns h. not_main c} =
      {c \<in> graph_conns g. not_main c \<and> \<not> is_disabled (gc_from c) \<and> \<not> is_disabled (gc_to c)}"
    using hD(5) graph_conns_in[OF wf] in_graph_iff[OF wf] by auto
  ultimately show ?thesis using h(1) hD(1) by blast
qed

text \<open>
  A disabled node with a main connection to itself: the joined connections of the loop end at
  the removed node.
\<close>

definition disabled_node :: "nat \<Rightarrow> string \<Rightarrow> INode" where
  "disabled_node i nm = (sample_node i nm)\<lparr>node_disabled := Some True\<rparr>"

definition disabled_loop :: DirectedGraph where
  "disabled_loop = (let t = sample_node 0 ''t''; d = disabled_node 1 ''d''; x = sample_node 2 ''x''
     in sample_graph [t, d, x] [edge t d, edge d d, edge d x])"

definition disabled_chain :: DirectedGraph where
  "disabled_chain = (let t = sample_node 0 ''t''; d = disabled_node 1 ''d''; x = sample_node 2 ''x''
     in sample_graph [t, d, x] [edge t d, edge d x])"

lemma disabled_loop_dangles:
  "(case filterDisabledNodes disabled_loop of Inl e \<Rightarrow> False
    | Inr h \<Rightarrow> list_ex (\<lambda>c. \<not> in_graph h (gc_from c)) (js_values (g_connections h)))"
  by code_simp

lemma no_disabled_edges:
  "list_all (\<lambda>c. \<not> (gc_type c = MainConn \<and> is_disabled (gc_from c) \<and> is_disabled (gc_to c)))
     (js_values (g_connections g)) \<Longrightarrow> acyclic (disabled_edges g)"
proof -
  assume "list_all (\<lambda>c. \<not> (gc_type c = MainConn \<and> is_disabled (gc_from c) \<and> is_disabled (gc_to c)))
     (js_values (g_connections g))"
  then have "disabled_edges g = {}" by (auto simp: disabled_edges_def main_edges_def list_all_iff)
  then show ?thesis by (simp add: acyclic_def)
qed

lemma filterDisabledNodes_witness:
  "\<exists>h. filterDisabledNodes disabled_chain = Inr h \<and>
     graph_nodes h = {n \<in> graph_nodes disabled_chain. \<not> is_disabled n}"
proof -
  have "wf_graph disabled_chain" "dash_free disabled_chain" by code_simp+
  moreover have "acyclic (disabled_edges disabled_chain)" by (rule no_disabled_edges) code_simp
  ultimately show ?thesis using filterDisabledNodes_exact[of disabled_chain] by blast
qed

text \<open>Names with \<open>-\<close> can make the keys of two connections coincide: the second overwrites the first.\<close>

lemma dash_collision:
  "let conn = (\<lambda>from to. \<lparr>gc_from = sample_node 0 from, gc_to = sample_node 1 to, gc_type = MainConn, gc_outputIndex = 0, gc_inputIndex = 0\<rparr>)
   in makeKey (conn ''a'' ''b-main-0-0-c'') = makeKey (conn ''a-main-0-0-b'' ''c'')"
  by code_simp

end
