(* ===== verification/RewireGraph.thy ===== *)
theory RewireGraph
  imports FilterDisabled
begin

text \<open>
  \<open>rewireGraph\<close> (\<^verbatim>\<open>rewire-graph.ts\<close>): to execute a tool alone, its agent is replaced by a virtual
  tool executor. The function also writes \<open>rewireOutputLogTo\<close> on the tool object, which the graph
  shares; nodes are values here, so \<open>map_nodes\<close> makes the change in every place of the graph that
  holds the tool, and the tool's new value is part of the result.
\<close>

section \<open>The operation\<close>

record AiAgentRequest =
  agent_query :: json
  agent_tool_name :: string

definition TOOL_EXECUTOR_NODE_NAME :: string where
  "TOOL_EXECUTOR_NODE_NAME = ''PartialExecutionToolExecutor''"

definition fresh_ref :: "DirectedGraph \<Rightarrow> nat" where
  "fresh_ref g = Suc (fold max (map node_ref (js_values (g_nodes g))) 0)"

definition toolExecutor :: "nat \<Rightarrow> INode \<Rightarrow> AiAgentRequest option \<Rightarrow> INode" where
  "toolExecutor ref rootNode req =
     (plain_node ref TOOL_EXECUTOR_NODE_NAME ''@n8n/n8n-nodes-langchain.toolExecutor'')
       \<lparr>node_disabled := Some False, node_id := node_id rootNode, node_typeVersion := 0,
        node_parameters := [
          (''query'', case req of None \<Rightarrow> JObj [] | Some r \<Rightarrow> agent_query r),
          (''toolName'', JStr (case req of None \<Rightarrow> [] | Some r \<Rightarrow> agent_tool_name r))]\<rparr>"

definition map_conn :: "(INode \<Rightarrow> INode) \<Rightarrow> GraphConnection \<Rightarrow> GraphConnection" where
  "map_conn f c = c\<lparr>gc_from := f (gc_from c), gc_to := f (gc_to c)\<rparr>"

definition map_nodes :: "(INode \<Rightarrow> INode) \<Rightarrow> DirectedGraph \<Rightarrow> DirectedGraph" where
  "map_nodes f g = \<lparr>g_nodes = map (\<lambda>(k, n). (k, f n)) (g_nodes g),
     g_connections = map (\<lambda>(k, c). (k, map_conn f c)) (g_connections g)\<rparr>"

definition replace_node :: "INode \<Rightarrow> INode \<Rightarrow> INode \<Rightarrow> INode" where
  "replace_node old new n = (if n = old then new else n)"

definition rewireGraph ::
    "INode \<Rightarrow> DirectedGraph \<Rightarrow> AiAgentRequest option \<Rightarrow> (DirectedGraph \<times> INode) result" where
  "rewireGraph tool g req =
     rbind (clone g) (\<lambda>modified.
     rbind (getChildren modified tool) (\<lambda>children.
     case children of
       [] \<Rightarrow> Inr (g, tool)
     | rootNode # _ \<Rightarrow>
         rbind (getDirectParentConnections modified rootNode) (\<lambda>parents.
         let incoming = filter (\<lambda>c. gc_type c = MainConn) parents;
             exec = toolExecutor (fresh_ref modified) rootNode req;
             tool' = tool\<lparr>node_rewireOutputLogTo := Some AiTool\<rparr>;
             re = replace_node tool tool';
             modified = map_nodes re (addNode exec modified)
         in rbind (addConnection \<lparr>ci_from = tool', ci_to = exec, ci_type = Some AiTool,
                     ci_outputIndex = None, ci_inputIndex = None\<rparr> modified) (\<lambda>modified.
            rbind (addConnections (map (\<lambda>cn. \<lparr>ci_from = re (gc_from cn), ci_to = exec,
                     ci_type = Some (gc_type cn), ci_outputIndex = None, ci_inputIndex = None\<rparr>) incoming)
                     modified) (\<lambda>modified.
            Inr (removeNode (re rootNode) modified, tool'))))))"

section \<open>Updating a node in the whole graph\<close>

lemma map_conn_simps [simp]:
  "gc_from (map_conn f c) = f (gc_from c)" "gc_to (map_conn f c) = f (gc_to c)"
  "gc_type (map_conn f c) = gc_type c" "gc_outputIndex (map_conn f c) = gc_outputIndex c"
  "gc_inputIndex (map_conn f c) = gc_inputIndex c"
  by (simp_all add: map_conn_def)

lemma map_of_map_snd: "map_of (map (\<lambda>(k, v). (k, f v)) m) k = map_option f (map_of m k)"
  by (induction m) auto

lemma graph_nodes_map [simp]: "graph_nodes (map_nodes f g) = f ` graph_nodes g"
  by (force simp: map_nodes_def js_values_def)

lemma graph_conns_map [simp]: "graph_conns (map_nodes f g) = map_conn f ` graph_conns g"
  by (force simp: map_nodes_def js_values_def)

lemma in_graph_map:
  assumes "\<And>n. node_name (f n) = node_name n" "in_graph g n"
  shows "in_graph (map_nodes f g) (f n)"
  using assms by (simp add: in_graph_def map_nodes_def map_of_map_snd)

lemma wf_map_nodes:
  assumes names: "\<And>n. node_name (f n) = node_name n" and wf: "wf_graph g"
  shows "wf_graph (map_nodes f g)"
proof (rule wf_graphI)
  have key: "makeKey (map_conn f c) = makeKey c" for c by (simp add: makeKey_def names)
  fix k c assume "map_of (g_connections (map_nodes f g)) k = Some c"
  then obtain c0 where c0: "map_of (g_connections g) k = Some c0" "c = map_conn f c0"
    by (auto simp: map_nodes_def map_of_map_snd)
  then show "k = makeKey c \<and> in_graph (map_nodes f g) (gc_from c) \<and> in_graph (map_nodes f g) (gc_to c)"
    using wf_graphD(4-6)[OF wf c0(1)] in_graph_map[of f g] names by (simp add: key)
next
  fix k n assume "map_of (g_nodes (map_nodes f g)) k = Some n"
  then show "k = node_name n"
    using wf_graphD(3)[OF wf] names by (auto simp: map_nodes_def map_of_map_snd)
qed (use wf_graphD(1,2)[OF wf] in \<open>auto simp: map_nodes_def js_wf_def comp_def case_prod_unfold\<close>)

lemma dash_free_map: "(\<And>n. node_name (f n) = node_name n) \<Longrightarrow> dash_free (map_nodes f g) = dash_free g"
  by (simp add: dash_free_def)

lemma replace_node_name: "node_name new = node_name old \<Longrightarrow> node_name (replace_node old new n) = node_name n"
  by (simp add: replace_node_def)

lemma graph_nodes_addNode:
  assumes "wf_graph g" "map_of (g_nodes g) (node_name n) = None"
  shows "graph_nodes (addNode n g) = insert n (graph_nodes g)"
  using assms(2) by (simp add: addNode_def js_put_new map_of_eq_None_iff js_values_def)

lemma graph_conns_removeNode:
  assumes "wf_graph g"
  shows "graph_conns (removeNode n g) = {c \<in> graph_conns g. gc_to c \<noteq> n \<and> gc_from c \<noteq> n}"
  using graph_conns_drop[OF assms] by (simp add: removeNode_def)

lemma graph_nodes_removeNode:
  assumes "wf_graph g" "in_graph g n"
  shows "graph_nodes (removeNode n g) = graph_nodes g - {n}"
proof -
  have "in_graph (removeNode n g) m \<longleftrightarrow> in_graph g m \<and> m \<noteq> n" for m
    using assms(2) by (auto simp: in_graph_def removeNode_def)
  then show ?thesis using in_graph_iff[OF assms(1)] in_graph_iff[OF wf_removeNode[OF assms]] by auto
qed

section \<open>What the rewired graph is\<close>

lemma toolExecutor_name [simp]: "node_name (toolExecutor r n req) = TOOL_EXECUTOR_NODE_NAME"
  by (simp add: toolExecutor_def)

lemma executor_name_no_dash: "CHR ''-'' \<notin> set TOOL_EXECUTOR_NODE_NAME"
  by (simp add: TOOL_EXECUTOR_NODE_NAME_def)

definition exec_conn :: "INode \<Rightarrow> INode \<Rightarrow> NodeConnectionType \<Rightarrow> GraphConnection" where
  "exec_conn exec n ty = \<lparr>gc_from = n, gc_to = exec, gc_type = ty, gc_outputIndex = 0, gc_inputIndex = 0\<rparr>"

lemma getChildren_root:
  assumes wf: "wf_graph g" and n: "in_graph g n" and ch: "getChildren g n = Inr (r # rest)"
  shows "in_graph g r"
proof -
  obtain cs where "getChildren g n = Inr cs" "set cs = {m. (n, m) \<in> (g_edges g)\<^sup>+}"
    using getChildren_reachable[OF wf n] by blast
  with ch have "(n, r) \<in> (g_edges g)\<^sup>+" by auto
  then show ?thesis using g_edges_in[OF wf] by (meson tranclD2)
qed

text \<open>
  The first node the tool reaches is gone; its executor takes the tool's output and all main
  connections of that node, every one of them from output 0 to input 0.
\<close>

lemma rewireGraph_exact:
  assumes wf: "wf_graph g" and dash: "dash_free g" and tool: "in_graph g tool"
    and fresh: "\<not> hasNode g TOOL_EXECUTOR_NODE_NAME" and ch: "getChildren g tool = Inr (rt # rest)"
  shows "\<exists>h exec tool' re. rewireGraph tool g req = Inr (h, tool') \<and> wf_graph h \<and>
    tool' = tool\<lparr>node_rewireOutputLogTo := Some AiTool\<rparr> \<and> re = replace_node tool tool' \<and>
    node_name exec = TOOL_EXECUTOR_NODE_NAME \<and>
    graph_nodes h = insert exec (re ` graph_nodes g) - {re rt} \<and>
    graph_conns h = {c \<in> insert (exec_conn exec tool' AiTool) (map_conn re ` graph_conns g \<union>
        {exec_conn exec (re (gc_from c)) MainConn | c. c \<in> graph_conns g \<and> gc_to c = rt \<and> gc_type c = MainConn}).
      gc_from c \<noteq> re rt \<and> gc_to c \<noteq> re rt}"
proof -
  define exec where "exec = toolExecutor (fresh_ref g) rt req"
  define tool' where "tool' = tool\<lparr>node_rewireOutputLogTo := Some AiTool\<rparr>"
  define re where "re = replace_node tool tool'"
  have name: "node_name (re n) = node_name n" for n
    unfolding re_def by (rule replace_node_name) (simp add: tool'_def)
  have none: "map_of (g_nodes g) (node_name exec) = None" using fresh by (simp add: hasNode_def exec_def domIff)
  have rt: "in_graph g rt" using getChildren_root[OF wf tool ch] .
  define incoming where "incoming = filter (\<lambda>c. gc_to c = rt \<and> gc_type c = MainConn) (js_values (g_connections g))"
  define g1 where "g1 = map_nodes re (addNode exec g)"
  have "exec \<noteq> tool" using none tool by (auto simp: in_graph_def)
  then have re_exec: "re exec = exec" and re_tool: "re tool = tool'"
    by (simp_all add: re_def replace_node_def)
  have wf1: "wf_graph g1"
    unfolding g1_def by (intro wf_map_nodes wf_addNode wf name) (simp add: none)
  have nodes1: "graph_nodes g1 = insert exec (re ` graph_nodes g)"
    by (simp add: g1_def graph_nodes_addNode[OF wf none] re_exec)
  have conns1: "graph_conns g1 = map_conn re ` graph_conns g"
    by (simp add: g1_def) (simp add: addNode_def)
  have in1: "in_graph g1 exec" "in_graph g n \<Longrightarrow> in_graph g1 (re n)" for n
    using in_graph_iff[OF wf] in_graph_iff[OF wf1] nodes1 by auto
  have tool1: "in_graph g1 tool'" using in1(2)[OF tool] by (simp add: re_tool)
  have keys1: "keys_faithful g1"
  proof (rule dash_free_keys[OF wf1])
    show "dash_free g1" using dash executor_name_no_dash
      by (auto simp: dash_free_def nodes1 name exec_def)
  qed
  define ins where "ins = exec_conn exec tool' AiTool # map (\<lambda>c. exec_conn exec (re (gc_from c)) MainConn) incoming"
  have ends: "in_graph g1 (gc_from c) \<and> in_graph g1 (gc_to c)" if "c \<in> set ins" for c
    using that in1 tool1 graph_conns_in[OF wf] by (auto simp: ins_def exec_conn_def incoming_def)
  define g2 where "g2 = fold put_connection ins g1"
  have wf2: "wf_graph g2" unfolding g2_def using ends by (intro wf_fold_put wf1) auto
  have conns2: "graph_conns g2 = set ins \<union> graph_conns g1"
    unfolding g2_def using ends by (intro graph_conns_fold_put_faithful wf1 keys1)
  have first: "addConnection \<lparr>ci_from = tool', ci_to = exec, ci_type = Some AiTool,
      ci_outputIndex = None, ci_inputIndex = None\<rparr> g1 = Inr (put_connection (exec_conn exec tool' AiTool) g1)"
    using tool1 in1(1) by (simp add: addConnection_Inr complete_input_def exec_conn_def)
  have rest: "addConnections (map (\<lambda>cn. \<lparr>ci_from = re (gc_from cn), ci_to = exec,
      ci_type = Some (gc_type cn), ci_outputIndex = None, ci_inputIndex = None\<rparr>) cs) h =
      Inr (fold put_connection (map (\<lambda>c. exec_conn exec (re (gc_from c)) MainConn) cs) h)"
    if "\<And>n. in_graph h n = in_graph g1 n" "set cs \<subseteq> set incoming" for cs h
    using that
  proof (induction cs arbitrary: h)
    case Nil
    then show ?case by (simp add: addConnections_def)
  next
    case (Cons c cs)
    have "c \<in> set incoming" using Cons.prems(2) by simp
    then have "in_graph h (re (gc_from c))" "in_graph h exec" "gc_type c = MainConn"
      using Cons.prems(1) in1 graph_conns_in[OF wf] by (auto simp: incoming_def)
    then have "addConnection \<lparr>ci_from = re (gc_from c), ci_to = exec, ci_type = Some (gc_type c),
        ci_outputIndex = None, ci_inputIndex = None\<rparr> h =
        Inr (put_connection (exec_conn exec (re (gc_from c)) MainConn) h)"
      by (simp add: addConnection_Inr complete_input_def exec_conn_def)
    moreover note Cons.IH[of "put_connection (exec_conn exec (re (gc_from c)) MainConn) h"]
    ultimately show ?case using Cons.prems by (simp add: addConnections_def)
  qed
  have "rewireGraph tool g req = Inr (removeNode (re rt) g2, tool')"
    using direct_connections(1)[OF rt] ch
    by (simp add: rewireGraph_def clone_identical[OF wf] Let_def exec_def[symmetric] tool'_def[symmetric]
        re_def[symmetric] incoming_def[symmetric] g1_def[symmetric] first rest g2_def ins_def)
  moreover have "wf_graph (removeNode (re rt) g2)"
    using wf2 in1(2)[OF rt] by (intro wf_removeNode) (auto simp: g2_def)
  moreover have "graph_nodes (removeNode (re rt) g2) = insert exec (re ` graph_nodes g) - {re rt}"
    using in1(2)[OF rt] nodes1
    by (subst graph_nodes_removeNode[OF wf2]) (simp_all add: g2_def)
  moreover have "graph_conns (removeNode (re rt) g2) = {c \<in> insert (exec_conn exec tool' AiTool) (map_conn re ` graph_conns g \<union>
        {exec_conn exec (re (gc_from c)) MainConn | c. c \<in> graph_conns g \<and> gc_to c = rt \<and> gc_type c = MainConn}).
      gc_from c \<noteq> re rt \<and> gc_to c \<noteq> re rt}"
    unfolding graph_conns_removeNode[OF wf2] conns2 conns1 by (auto simp: ins_def incoming_def)
  moreover have "node_name exec = TOOL_EXECUTOR_NODE_NAME" by (simp add: exec_def)
  ultimately show ?thesis using tool'_def re_def by blast
qed

definition tool_graph :: DirectedGraph where
  "tool_graph = (let t = sample_node 0 ''t''; agent = sample_node 1 ''agent''; tool = sample_node 2 ''tool''
     in sample_graph [t, agent, tool] [(edge t agent)\<lparr>ci_outputIndex := Some 1\<rparr>, typed_edge AiTool tool agent])"

lemma rewireGraph_witness:
  "\<exists>h tool'. rewireGraph (sample_node 2 ''tool'') tool_graph None = Inr (h, tool') \<and> wf_graph h \<and>
     tool' = (sample_node 2 ''tool'')\<lparr>node_rewireOutputLogTo := Some AiTool\<rparr>"
proof -
  have hyps: "wf_graph tool_graph" "dash_free tool_graph" "in_graph tool_graph (sample_node 2 ''tool'')"
    "\<not> hasNode tool_graph TOOL_EXECUTOR_NODE_NAME"
    "getChildren tool_graph (sample_node 2 ''tool'') = Inr [sample_node 1 ''agent'']"
    by code_simp+
  show ?thesis
    using rewireGraph_exact[OF hyps, of None] by blast
qed

end
