(* ===== verification/Subgraph.thy ===== *)
theory Subgraph
  imports FilterDisabled
begin

text \<open>
  \<open>findSubgraph\<close> (\<^verbatim>\<open>find-subgraph.ts\<close>): from the destination up to the trigger. The recursion
  carries the branch of connections it came along; it ends because no node is entered twice on a
  branch. The lemmas say what is in the subgraph: every simple main path from the trigger to the
  destination, only connections of the graph that lead to the destination, and the other
  connections above the nodes found.
\<close>

section \<open>The operation\<close>

definition addConnectionNodes :: "GraphConnection \<Rightarrow> DirectedGraph \<Rightarrow> DirectedGraph result" where
  "addConnectionNodes c g = addConnection (input_of c) (addNodes [gc_from c, gc_to c] g)"

definition keep_branch :: "GraphConnection list \<Rightarrow> DirectedGraph \<Rightarrow> DirectedGraph result" where
  "keep_branch branch newGraph = rfold addConnectionNodes branch newGraph"

function findSubgraphRecursive ::
    "DirectedGraph \<Rightarrow> INode \<Rightarrow> INode \<Rightarrow> INode \<Rightarrow> DirectedGraph \<Rightarrow> GraphConnection list \<Rightarrow>
      DirectedGraph result" where
  "findSubgraphRecursive g destinationNode current trigger newGraph currentBranch =
     (if current = trigger then keep_branch currentBranch (addNode trigger newGraph)
      else rbind (getDirectParentConnections g current) (\<lambda>parentConnections.
        if parentConnections = [] then Inr newGraph
        else if current = destinationNode \<and> (\<exists>c \<in> set currentBranch. gc_to c = destinationNode)
          then Inr newGraph
        else if \<exists>c \<in> set currentBranch. gc_to c = current then keep_branch currentBranch newGraph
        else rfold (\<lambda>parentConnection newGraph.
            if gc_type parentConnection \<noteq> MainConn then Inr newGraph
            else findSubgraphRecursive g destinationNode (gc_from parentConnection) trigger newGraph
              (currentBranch @ [parentConnection]))
          parentConnections newGraph))"
  by pat_completeness auto

lemma getDirectParentConnections_Inr:
  "getDirectParentConnections g n = Inr ps \<longleftrightarrow>
     in_graph g n \<and> ps = filter (\<lambda>c. gc_to c = n) (js_values (g_connections g))"
  by (auto simp: getDirectParentConnections_def result_simps)

lemma getDirectChildConnections_Inr:
  "getDirectChildConnections g n = Inr cs \<longleftrightarrow>
     in_graph g n \<and> cs = filter (\<lambda>c. gc_from c = n) (js_values (g_connections g))"
  by (auto simp: getDirectChildConnections_def result_simps)

lemma in_graph_nodes: "in_graph g n \<Longrightarrow> n \<in> graph_nodes g"
  unfolding in_graph_def js_values_def by (drule map_of_SomeD) force

text \<open>Every recursive call enters a node of the graph that is not on the branch.\<close>

termination findSubgraphRecursive
proof (relation "measure (\<lambda>(g, d, current, t, new, branch). card (graph_nodes g - gc_to ` set branch))")
  fix g :: DirectedGraph and d current t :: INode and new new' :: DirectedGraph
    and branch ps :: "GraphConnection list" and c
  assume ps: "getDirectParentConnections g current = Inr ps"
    and fresh: "\<not> (\<exists>c \<in> set branch. gc_to c = current)" and c: "c \<in> set ps"
  from ps c have "gc_to c = current" "current \<in> graph_nodes g"
    by (auto simp: getDirectParentConnections_Inr in_graph_nodes)
  then have "current \<in> graph_nodes g - gc_to ` set branch" "current \<in> gc_to ` set (branch @ [c])"
    using fresh by auto
  then have "graph_nodes g - gc_to ` set (branch @ [c]) \<subset> graph_nodes g - gc_to ` set branch" by auto
  then have "card (graph_nodes g - gc_to ` set (branch @ [c])) < card (graph_nodes g - gc_to ` set branch)"
    by (rule psubset_card_mono[rotated]) simp
  then show "((g, d, gc_from c, t, new', branch @ [c]), g, d, current, t, new, branch) \<in>
      measure (\<lambda>(g, d, current, t, new, branch). card (graph_nodes g - gc_to ` set branch))"
    by simp
qed simp

declare findSubgraphRecursive.simps [simp del]

definition addUtilityConnections :: "DirectedGraph \<Rightarrow> INode \<Rightarrow> DirectedGraph \<Rightarrow> DirectedGraph result" where
  "addUtilityConnections g n subgraph =
     rbind (getParentConnections g n) (\<lambda>parentConnections.
       rfold (\<lambda>connection subgraph.
         if gc_type connection = MainConn then Inr subgraph else addConnectionNodes connection subgraph)
       parentConnections subgraph)"

definition findSubgraph :: "DirectedGraph \<Rightarrow> INode \<Rightarrow> INode \<Rightarrow> DirectedGraph result" where
  "findSubgraph g destination trigger =
     rbind (findSubgraphRecursive g destination destination trigger new_graph []) (\<lambda>subgraph.
       rfold (addUtilityConnections g) (js_values (g_nodes subgraph)) subgraph)"

section \<open>Subgraphs\<close>

definition subgraph_of :: "DirectedGraph \<Rightarrow> DirectedGraph \<Rightarrow> bool" where
  "subgraph_of h g \<longleftrightarrow> wf_graph h \<and> (\<forall>n. in_graph h n \<longrightarrow> in_graph g n) \<and> graph_conns h \<subseteq> graph_conns g"

definition more :: "DirectedGraph \<Rightarrow> DirectedGraph \<Rightarrow> bool" where
  "more h h' \<longleftrightarrow> (\<forall>n. in_graph h n \<longrightarrow> in_graph h' n) \<and> graph_conns h \<subseteq> graph_conns h'"

lemma more_refl [simp]: "more h h"
  by (simp add: more_def)

lemma more_trans: "more a b \<Longrightarrow> more b c \<Longrightarrow> more a c"
  by (auto simp: more_def)

lemma subgraph_new [simp]: "subgraph_of new_graph g"
  by (simp add: subgraph_of_def) (simp add: new_graph_def in_graph_def js_values_def)

lemma addNode_present: "in_graph g n \<Longrightarrow> subgraph_of h g \<Longrightarrow>
    map_of (g_nodes h) (node_name n) \<in> {None, Some n}"
proof -
  assume n: "in_graph g n" and sub: "subgraph_of h g"
  show ?thesis
  proof (cases "map_of (g_nodes h) (node_name n)")
    case (Some m)
    moreover have "node_name m = node_name n"
      using wf_graphD(3)[of h] sub Some by (simp add: subgraph_of_def)
    ultimately have "in_graph h m" by (simp add: in_graph_def)
    then have "m = n" using sub n in_graph_unique \<open>node_name m = node_name n\<close> by (auto simp: subgraph_of_def)
    with Some show ?thesis by simp
  qed simp
qed

lemma subgraph_addNode:
  assumes "in_graph g n" "subgraph_of h g"
  shows "subgraph_of (addNode n h) g" "more h (addNode n h)" "in_graph (addNode n h) m \<longleftrightarrow> m = n \<or> in_graph h m"
proof -
  note new = addNode_present[OF assms]
  show nodes: "in_graph (addNode n h) m \<longleftrightarrow> m = n \<or> in_graph h m" for m
    using new by (auto simp: in_graph_def addNode_def)
  have "graph_conns (addNode n h) = graph_conns h" by (simp add: addNode_def)
  then show "subgraph_of (addNode n h) g" "more h (addNode n h)"
    using assms nodes wf_addNode[OF _ new] by (auto simp: subgraph_of_def more_def)
qed

lemma subgraph_put:
  assumes wf: "wf_graph g" and sub: "subgraph_of h g" and c: "c \<in> graph_conns g"
    and ends: "in_graph h (gc_from c)" "in_graph h (gc_to c)"
  shows "subgraph_of (put_connection c h) g" "graph_conns (put_connection c h) = insert c (graph_conns h)"
proof -
  have h: "wf_graph h" using sub by (simp add: subgraph_of_def)
  have "d = c" if "map_of (g_connections h) (makeKey c) = Some d" for d
  proof -
    have "d \<in> graph_conns h" using that wf_graphD(2)[OF h] by (auto simp: js_values_set ran_def)
    then have "d \<in> graph_conns g" using sub by (auto simp: subgraph_of_def)
    moreover have "makeKey d = makeKey c" using wf_graphD(4)[OF h that] by simp
    ultimately show ?thesis using graph_conns_iff[OF wf] c by (metis option.inject)
  qed
  then have "insert c (ran ((map_of (g_connections h))(makeKey c := None))) = insert c (ran (map_of (g_connections h)))"
    unfolding ran_def by auto (metis option.inject)
  moreover have "graph_conns (put_connection c h) = insert c (ran ((map_of (g_connections h))(makeKey c := None)))"
    using wf_graphD(2)[OF h] by (simp add: put_connection_def js_values_put)
  ultimately show conns: "graph_conns (put_connection c h) = insert c (graph_conns h)"
    using wf_graphD(2)[OF h] by (simp add: js_values_set)
  then show "subgraph_of (put_connection c h) g"
    using sub c wf_put_connection[OF h ends] by (auto simp: subgraph_of_def)
qed

lemma addConnectionNodes_sub:
  assumes wf: "wf_graph g" and sub: "subgraph_of h g" and c: "c \<in> graph_conns g"
  shows "\<exists>h'. addConnectionNodes c h = Inr h' \<and> subgraph_of h' g \<and>
    graph_conns h' = insert c (graph_conns h) \<and>
    (\<forall>n. in_graph h' n \<longleftrightarrow> n = gc_from c \<or> n = gc_to c \<or> in_graph h n)"
proof -
  let ?h = "addNode (gc_to c) (addNode (gc_from c) h)"
  note ends = graph_conns_in[OF wf c]
  note s1 = subgraph_addNode[OF ends(1) sub]
  note s2 = subgraph_addNode[OF ends(2) s1(1)]
  have "in_graph ?h (gc_from c)" "in_graph ?h (gc_to c)" using s1(3) s2(3) by blast+
  note put = subgraph_put[OF wf s2(1) c this]
  have "addConnectionNodes c h = Inr (put_connection c ?h)"
    using \<open>in_graph ?h (gc_from c)\<close> \<open>in_graph ?h (gc_to c)\<close>
    by (simp add: addConnectionNodes_def addNodes_def addConnection_Inr) (simp add: input_of_def)
  moreover have "graph_conns ?h = graph_conns h" by (simp add: addNode_def)
  ultimately show ?thesis using put s1(3) s2(3) by auto
qed

lemma addConnectionNodes_all:
  assumes wf: "wf_graph g" and sub: "subgraph_of h g" and cs: "set cs \<subseteq> graph_conns g"
  shows "\<exists>h'. rfold addConnectionNodes cs h = Inr h' \<and> subgraph_of h' g \<and>
    graph_conns h' = set cs \<union> graph_conns h \<and>
    (\<forall>n. in_graph h' n \<longleftrightarrow> n \<in> gc_from ` set cs \<union> gc_to ` set cs \<or> in_graph h n)"
  using sub cs
proof (induction cs arbitrary: h)
  case Nil
  then show ?case by simp
next
  case (Cons c cs)
  have "c \<in> graph_conns g" "set cs \<subseteq> graph_conns g" using Cons.prems(2) by auto
  then obtain h1 where h1: "addConnectionNodes c h = Inr h1" "subgraph_of h1 g"
    "graph_conns h1 = insert c (graph_conns h)" "\<And>n. in_graph h1 n \<longleftrightarrow> n = gc_from c \<or> n = gc_to c \<or> in_graph h n"
    using addConnectionNodes_sub[OF wf Cons.prems(1)] by blast
  obtain h2 where h2: "rfold addConnectionNodes cs h1 = Inr h2" "subgraph_of h2 g"
    "graph_conns h2 = set cs \<union> graph_conns h1"
    "\<And>n. in_graph h2 n \<longleftrightarrow> n \<in> gc_from ` set cs \<union> gc_to ` set cs \<or> in_graph h1 n"
    using Cons.IH[OF h1(2)] \<open>set cs \<subseteq> graph_conns g\<close> by blast
  have "rfold addConnectionNodes (c # cs) h = Inr h2" by (simp add: h1(1) h2(1))
  moreover have "graph_conns h2 = set (c # cs) \<union> graph_conns h" using h2(3) h1(3) by auto
  moreover have "in_graph h2 n \<longleftrightarrow> n \<in> gc_from ` set (c # cs) \<union> gc_to ` set (c # cs) \<or> in_graph h n" for n
    using h2(4) h1(4) by auto
  ultimately show ?case using h2(2) by blast
qed

section \<open>What is found leads to the destination\<close>

definition leads :: "DirectedGraph \<Rightarrow> INode \<Rightarrow> INode set" where
  "leads g d = {n. (n, d) \<in> (main_edges g)\<^sup>*}"

definition found :: "DirectedGraph \<Rightarrow> INode \<Rightarrow> DirectedGraph \<Rightarrow> bool" where
  "found g d h \<longleftrightarrow> subgraph_of h g \<and> (\<forall>n. in_graph h n \<longrightarrow> n \<in> leads g d) \<and>
     (\<forall>c \<in> graph_conns h. gc_type c = MainConn)"

definition branch_ok :: "DirectedGraph \<Rightarrow> INode \<Rightarrow> GraphConnection list \<Rightarrow> bool" where
  "branch_ok g d branch \<longleftrightarrow> (\<forall>c \<in> set branch. c \<in> graph_conns g \<and> gc_type c = MainConn \<and> gc_to c \<in> leads g d)"

lemma leads_step: "c \<in> graph_conns g \<Longrightarrow> gc_type c = MainConn \<Longrightarrow> gc_to c \<in> leads g d \<Longrightarrow> gc_from c \<in> leads g d"
  unfolding leads_def by (auto simp: main_edges_def intro: converse_rtrancl_into_rtrancl)

lemma keep_branch_found:
  assumes wf: "wf_graph g" and h: "found g d h" and br: "branch_ok g d branch"
  shows "\<exists>h'. keep_branch branch h = Inr h' \<and> found g d h' \<and> more h h' \<and> set branch \<subseteq> graph_conns h'"
proof -
  have cs: "set branch \<subseteq> graph_conns g" and sub: "subgraph_of h g"
    using br h by (auto simp: branch_ok_def found_def)
  obtain h' where h': "rfold addConnectionNodes branch h = Inr h'" "subgraph_of h' g"
    "graph_conns h' = set branch \<union> graph_conns h"
    "\<And>n. in_graph h' n \<longleftrightarrow> n \<in> gc_from ` set branch \<union> gc_to ` set branch \<or> in_graph h n"
    using addConnectionNodes_all[OF wf sub cs] by blast
  have "n \<in> leads g d" if n: "in_graph h' n" for n
  proof -
    consider c where "c \<in> set branch" "n = gc_from c \<or> n = gc_to c" | "in_graph h n"
      using n h'(4) by blast
    then show ?thesis
    proof cases
      case 1
      with br show ?thesis using leads_step[of c g d] unfolding branch_ok_def by blast
    next
      case 2
      with h show ?thesis by (simp add: found_def)
    qed
  qed
  then have "found g d h'" using h h'(2,3) br unfolding found_def branch_ok_def by blast
  moreover have "more h h'" using h'(3,4) by (auto simp: more_def)
  ultimately show ?thesis using h'(1,3) unfolding keep_branch_def by blast
qed

lemma findSubgraphRecursive_found:
  "wf_graph g \<Longrightarrow> in_graph g current \<Longrightarrow> in_graph g trigger \<Longrightarrow> current \<in> leads g d \<Longrightarrow> found g d h \<Longrightarrow>
     branch_ok g d branch \<Longrightarrow>
     \<exists>h'. findSubgraphRecursive g d current trigger h branch = Inr h' \<and> found g d h' \<and> more h h'"
proof (induction g d current trigger h branch rule: findSubgraphRecursive.induct)
  case (1 g d current trigger h branch)
  note wf = "1.prems"(1) and prems = "1.prems"(2-)
  show ?case
  proof (cases "current = trigger")
    case True
    have sub: "subgraph_of h g" using prems(4) by (simp add: found_def)
    note add = subgraph_addNode[OF prems(2) sub]
    have "found g d (addNode trigger h)"
      using prems(3,4) True add(1,3) unfolding found_def by (auto simp: addNode_def)
    from keep_branch_found[OF wf this prems(5)] obtain h' where
      "keep_branch branch (addNode trigger h) = Inr h'" "found g d h'" "more (addNode trigger h) h'"
      by blast
    then show ?thesis using True more_trans[OF add(2)] by (subst findSubgraphRecursive.simps) simp
  next
    case False
    define ps where "ps = filter (\<lambda>c. gc_to c = current) (js_values (g_connections g))"
    have ps: "getDirectParentConnections g current = Inr ps"
      using prems(1) by (simp add: direct_connections ps_def)
    have stop: ?thesis if "findSubgraphRecursive g d current trigger h branch = Inr h"
      using that prems(4) by simp
    show ?thesis
    proof (cases "ps = [] \<or> current = d \<and> (\<exists>c \<in> set branch. gc_to c = d)")
      case True
      then show ?thesis using False ps by (intro stop) (subst findSubgraphRecursive.simps, auto)
    next
      case go: False
      show ?thesis
      proof (cases "\<exists>c \<in> set branch. gc_to c = current")
        case True
        then have "findSubgraphRecursive g d current trigger h branch = keep_branch branch h"
          using False ps go by (subst findSubgraphRecursive.simps) auto
        with keep_branch_found[OF wf prems(4,5)] show ?thesis by metis
      next
        case fresh: False
        let ?f = "\<lambda>c h. if gc_type c \<noteq> MainConn then Inr h
          else findSubgraphRecursive g d (gc_from c) trigger h (branch @ [c])"
        have "findSubgraphRecursive g d current trigger h branch = rfold ?f ps h"
          using False ps go fresh by (subst findSubgraphRecursive.simps) auto
        moreover have "\<exists>h'. rfold ?f ps h = Inr h' \<and> found g d h' \<and> more h h'"
        proof (rule rfold_total[where P = "\<lambda>h'. found g d h' \<and> more h h'"])
          fix c h1 assume c: "c \<in> set ps" and h1: "found g d h1 \<and> more h h1"
          have cg: "c \<in> graph_conns g" "gc_to c = current" using c by (auto simp: ps_def)
          show "\<exists>h'. ?f c h1 = Inr h' \<and> found g d h' \<and> more h h'"
          proof (cases "gc_type c = MainConn")
            case True
            have "branch_ok g d (branch @ [c])"
              using prems(3,5) cg True by (auto simp: branch_ok_def)
            moreover have "gc_from c \<in> leads g d" using leads_step[OF cg(1) True] prems(3) cg(2) by simp
            moreover have "in_graph g (gc_from c)" using graph_conns_in[OF wf cg(1)] by simp
            ultimately obtain h' where "findSubgraphRecursive g d (gc_from c) trigger h1 (branch @ [c]) = Inr h'"
              "found g d h'" "more h1 h'"
              using "1.IH"[of ps c h1] False ps go fresh c True wf prems(2) h1 by auto
            with h1 True show ?thesis using more_trans by auto
          qed (use h1 in simp)
        qed (use prems(4) in simp)
        ultimately show ?thesis by simp
      qed
    qed
  qed
qed

section \<open>Every simple path from the trigger is kept\<close>

fun main_path :: "DirectedGraph \<Rightarrow> INode \<Rightarrow> GraphConnection list \<Rightarrow> INode \<Rightarrow> bool" where
  "main_path g current [] trigger = (current = trigger)"
| "main_path g current (c # cs) trigger =
     (current \<noteq> trigger \<and> c \<in> graph_conns g \<and> gc_type c = MainConn \<and> gc_to c = current \<and>
      main_path g (gc_from c) cs trigger)"

lemma findSubgraphRecursive_keeps:
  assumes wf: "wf_graph g" and trigger: "in_graph g trigger"
  shows "main_path g current path trigger \<Longrightarrow> in_graph g current \<Longrightarrow> current \<in> leads g d \<Longrightarrow>
    found g d h \<Longrightarrow> branch_ok g d branch \<Longrightarrow> distinct (map gc_to (branch @ path)) \<Longrightarrow>
    \<exists>h'. findSubgraphRecursive g d current trigger h branch = Inr h' \<and>
      set branch \<union> set path \<subseteq> graph_conns h' \<and> in_graph h' trigger"
proof (induction path arbitrary: current h branch)
  case Nil
  have sub: "subgraph_of h g" using Nil.prems(4) by (simp add: found_def)
  note add = subgraph_addNode[OF trigger sub]
  have eq: "current = trigger" using Nil.prems(1) by simp
  have "found g d (addNode trigger h)"
    using Nil.prems(3,4) eq add(1,3) unfolding found_def by (auto simp: addNode_def)
  from keep_branch_found[OF wf this Nil.prems(5)] obtain h' where
    "keep_branch branch (addNode trigger h) = Inr h'" "more (addNode trigger h) h'" "set branch \<subseteq> graph_conns h'"
    by blast
  then show ?case using eq add(3) by (subst findSubgraphRecursive.simps) (auto simp: more_def)
next
  case (Cons c path)
  have c: "c \<in> graph_conns g" "gc_type c = MainConn" "gc_to c = current" "current \<noteq> trigger"
    and path: "main_path g (gc_from c) path trigger" using Cons.prems(1) by auto
  have fresh: "\<not> (\<exists>e \<in> set branch. gc_to e = current)"
    using Cons.prems(6) c(3) by (fastforce simp: image_iff)
  obtain ps where ps: "getDirectParentConnections g current = Inr ps" "c \<in> set ps"
    "set ps \<subseteq> {e \<in> graph_conns g. gc_to e = current}"
    using Cons.prems(2) c by (auto simp: direct_connections)
  then obtain pre post where split: "ps = pre @ c # post" by (meson split_list)
  let ?f = "\<lambda>c h. if gc_type c \<noteq> MainConn then Inr h
    else findSubgraphRecursive g d (gc_from c) trigger h (branch @ [c])"
  have unfold: "findSubgraphRecursive g d current trigger h branch = rfold ?f ps h"
    using c(4) fresh ps(1,2) by (subst findSubgraphRecursive.simps) auto
  have branch: "branch_ok g d (branch @ [e])" "gc_from e \<in> leads g d" "in_graph g (gc_from e)"
    if "e \<in> set ps" "gc_type e = MainConn" for e
    using that ps(3) Cons.prems(3,5) leads_step[of e g d] graph_conns_in[OF wf, of e]
    by (auto simp: branch_ok_def)
  have loop: "\<exists>h'. rfold ?f es h1 = Inr h' \<and> found g d h' \<and> more h1 h'"
    if "set es \<subseteq> set ps" "found g d h1" for es h1
  proof (rule rfold_total[where P = "\<lambda>h'. found g d h' \<and> more h1 h'"])
    fix e h2 assume e: "e \<in> set es" and h2: "found g d h2 \<and> more h1 h2"
    then show "\<exists>h'. ?f e h2 = Inr h' \<and> found g d h' \<and> more h1 h'"
      using findSubgraphRecursive_found[OF wf _ trigger, of "gc_from e" d h2 "branch @ [e]"] branch[of e] that(1)
        more_trans[of h1 h2] by (cases "gc_type e = MainConn") fastforce+
  qed (use that in simp)
  obtain h1 where h1: "rfold ?f pre h = Inr h1" "found g d h1"
    using loop[of pre h] Cons.prems(4) split by auto
  obtain h2 where h2: "findSubgraphRecursive g d (gc_from c) trigger h1 (branch @ [c]) = Inr h2"
    "set (branch @ [c]) \<union> set path \<subseteq> graph_conns h2" "in_graph h2 trigger"
    using Cons.IH[OF path branch(3,2)[OF ps(2) c(2)] h1(2) branch(1)[OF ps(2) c(2)]] Cons.prems(6) by auto
  have "found g d h2"
    using findSubgraphRecursive_found[OF wf branch(3)[OF ps(2) c(2)] trigger branch(2)[OF ps(2) c(2)] h1(2)
        branch(1)[OF ps(2) c(2)]] h2(1) by auto
  then obtain h3 where h3: "rfold ?f post h2 = Inr h3" "more h2 h3" using loop[of post h2] split by auto
  have "rfold ?f ps h = Inr h3" using h1(1) h2(1) h3(1) c(2) by (simp add: split rfold_append)
  with h2(2,3) h3(2) unfold show ?case by (auto simp: more_def)
qed

section \<open>The utility connections\<close>

lemma addUtilityConnections_adds:
  assumes wf: "wf_graph g" and n: "in_graph g n" and sub: "subgraph_of h g"
  shows "\<exists>h'. addUtilityConnections g n h = Inr h' \<and> subgraph_of h' g \<and> more h h' \<and>
    graph_conns h' = graph_conns h \<union> {c \<in> graph_conns g. gc_type c \<noteq> MainConn \<and> (gc_to c, n) \<in> (g_edges g)\<^sup>*}"
proof -
  obtain cs where cs: "getParentConnections g n = Inr cs"
    "set cs = {c \<in> graph_conns g. (gc_to c, n) \<in> (g_edges g)\<^sup>*}"
    using getParentConnections_reachable[OF wf n] by blast
  let ?u = "filter (\<lambda>c. gc_type c \<noteq> MainConn) cs"
  have loop: "rfold (\<lambda>c h. if gc_type c = MainConn then Inr h else addConnectionNodes c h) xs h1 =
      rfold addConnectionNodes (filter (\<lambda>c. gc_type c \<noteq> MainConn) xs) h1" for xs h1
  proof (induction xs arbitrary: h1)
    case (Cons x xs)
    then show ?case by (cases "addConnectionNodes x h1") auto
  qed simp
  have "set ?u \<subseteq> graph_conns g" using cs(2) by auto
  then obtain h' where "rfold addConnectionNodes ?u h = Inr h'" "subgraph_of h' g"
    "graph_conns h' = set ?u \<union> graph_conns h"
    "\<And>n. in_graph h' n \<longleftrightarrow> n \<in> gc_from ` set ?u \<union> gc_to ` set ?u \<or> in_graph h n"
    using addConnectionNodes_all[OF wf sub] by blast
  then show ?thesis using cs loop by (intro exI[of _ h']) (auto simp: addUtilityConnections_def more_def)
qed

lemma utility_stage:
  assumes wf: "wf_graph g" and sub: "subgraph_of s g"
  shows "\<exists>h. rfold (addUtilityConnections g) (js_values (g_nodes s)) s = Inr h \<and> subgraph_of h g \<and> more s h \<and>
    graph_conns h = graph_conns s \<union>
      {c \<in> graph_conns g. gc_type c \<noteq> MainConn \<and> (\<exists>n \<in> graph_nodes s. (gc_to c, n) \<in> (g_edges g)\<^sup>*)}"
proof -
  let ?U = "\<lambda>ns. {c \<in> graph_conns g. gc_type c \<noteq> MainConn \<and> (\<exists>n \<in> set ns. (gc_to c, n) \<in> (g_edges g)\<^sup>*)}"
  have "\<exists>h. rfold (addUtilityConnections g) (js_values (g_nodes s)) s = Inr h \<and>
      (subgraph_of h g \<and> more s h \<and> graph_conns h = graph_conns s \<union> ?U (js_values (g_nodes s)))"
  proof (rule rfold_total_prefix)
    fix pre n rest h
    assume split: "js_values (g_nodes s) = pre @ n # rest"
      and h: "subgraph_of h g \<and> more s h \<and> graph_conns h = graph_conns s \<union> ?U pre"
    have "n \<in> graph_nodes s" by (simp add: split)
    then have "in_graph g n" using sub in_graph_iff by (auto simp: subgraph_of_def)
    then obtain h' where h': "addUtilityConnections g n h = Inr h'" "subgraph_of h' g" "more h h'"
      "graph_conns h' = graph_conns h \<union>
        {c \<in> graph_conns g. gc_type c \<noteq> MainConn \<and> (gc_to c, n) \<in> (g_edges g)\<^sup>*}"
      using addUtilityConnections_adds[OF wf _ conjunct1[OF h]] by blast
    moreover have "graph_conns h' = graph_conns s \<union> ?U (pre @ [n])" using h h'(4) by auto
    ultimately show "\<exists>h'. addUtilityConnections g n h = Inr h' \<and>
        (subgraph_of h' g \<and> more s h' \<and> graph_conns h' = graph_conns s \<union> ?U (pre @ [n]))"
      using h more_trans by blast
  qed (use sub in simp)
  then show ?thesis by blast
qed

section \<open>The subgraph\<close>

lemma found_new: "found g d new_graph"
  by (simp add: found_def) (simp add: new_graph_def in_graph_def js_values_def)

lemma findSubgraph_stages:
  assumes wf: "wf_graph g" and ends: "in_graph g d" "in_graph g t"
  shows "\<exists>s h. findSubgraphRecursive g d d t new_graph [] = Inr s \<and> found g d s \<and>
    findSubgraph g d t = Inr h \<and> subgraph_of h g \<and> more s h \<and>
    graph_conns h = graph_conns s \<union>
      {c \<in> graph_conns g. gc_type c \<noteq> MainConn \<and> (\<exists>n \<in> graph_nodes s. (gc_to c, n) \<in> (g_edges g)\<^sup>*)}"
proof -
  have "d \<in> leads g d" "branch_ok g d []" by (simp_all add: leads_def branch_ok_def)
  then obtain s where s: "findSubgraphRecursive g d d t new_graph [] = Inr s" "found g d s"
    using findSubgraphRecursive_found[OF wf ends _ found_new] by blast
  then have "subgraph_of s g" by (simp add: found_def)
  from utility_stage[OF wf this] s show ?thesis by (auto simp: findSubgraph_def)
qed

text \<open>C26: The result is a part of the graph, and everything in it leads to the destination.\<close>

lemma findSubgraph_sound:
  assumes wf: "wf_graph g" and ends: "in_graph g d" "in_graph g t"
  shows "\<exists>h. findSubgraph g d t = Inr h \<and> wf_graph h \<and> graph_nodes h \<subseteq> graph_nodes g \<and>
    graph_conns h \<subseteq> graph_conns g \<and>
    (\<forall>c \<in> graph_conns h. if gc_type c = MainConn then (gc_to c, d) \<in> (main_edges g)\<^sup>*
       else (gc_to c, d) \<in> (g_edges g)\<^sup>*)"
proof -
  obtain s h where s: "found g d s" and h: "findSubgraph g d t = Inr h" "subgraph_of h g"
    "graph_conns h = graph_conns s \<union>
      {c \<in> graph_conns g. gc_type c \<noteq> MainConn \<and> (\<exists>n \<in> graph_nodes s. (gc_to c, n) \<in> (g_edges g)\<^sup>*)}"
    using findSubgraph_stages[OF assms] by blast
  have wfs: "wf_graph s" using s by (simp add: found_def subgraph_of_def)
  have lead: "(n, d) \<in> (main_edges g)\<^sup>*" if "n \<in> graph_nodes s" for n
    using that s in_graph_iff[OF wfs] by (simp add: found_def leads_def)
  have "if gc_type c = MainConn then (gc_to c, d) \<in> (main_edges g)\<^sup>* else (gc_to c, d) \<in> (g_edges g)\<^sup>*"
    if c: "c \<in> graph_conns h" for c
  proof (cases "c \<in> graph_conns s")
    case True
    then have "gc_type c = MainConn" "gc_to c \<in> graph_nodes s"
      using s graph_conns_in[OF wfs True] in_graph_iff[OF wfs] by (auto simp: found_def)
    with lead show ?thesis by simp
  next
    case False
    with c h(3) obtain n where n: "gc_type c \<noteq> MainConn" "n \<in> graph_nodes s" "(gc_to c, n) \<in> (g_edges g)\<^sup>*"
      by blast
    have "(n, d) \<in> (g_edges g)\<^sup>*" using lead[OF n(2)] rtrancl_mono[OF main_edges_subset] by blast
    with n show ?thesis by auto
  qed
  moreover have "graph_nodes h \<subseteq> graph_nodes g"
    using h(2) in_graph_iff[OF wf] in_graph_iff[of h] by (auto simp: subgraph_of_def)
  ultimately show ?thesis using h(1,2) by (auto simp: subgraph_of_def)
qed

text \<open>C25: Every connection on a simple main path from the trigger to the destination is in the subgraph.\<close>

lemma findSubgraph_complete:
  assumes wf: "wf_graph g" and ends: "in_graph g d" "in_graph g t"
    and path: "main_path g d path t" and simple: "distinct (map gc_to path)"
  shows "\<exists>h. findSubgraph g d t = Inr h \<and> set path \<subseteq> graph_conns h \<and> in_graph h t"
proof -
  have "d \<in> leads g d" "branch_ok g d []" by (simp_all add: leads_def branch_ok_def)
  then obtain s where s: "findSubgraphRecursive g d d t new_graph [] = Inr s" "set path \<subseteq> graph_conns s" "in_graph s t"
    using findSubgraphRecursive_keeps[OF wf ends(2) path ends(1) _ found_new, where branch = "[]"] simple by auto
  with findSubgraph_stages[OF wf ends] show ?thesis unfolding more_def by fastforce
qed

text \<open>
  A cycle that leads to the destination is kept even if the trigger does not reach it: the rule
  for nodes already visited keeps the branch.
\<close>

definition foreign_cycle :: DirectedGraph where
  "foreign_cycle = (let t = sample_node 0 ''t''; a = sample_node 1 ''a''; b = sample_node 2 ''b''; d = sample_node 3 ''d''
     in sample_graph [t, a, b, d] [edge t d, edge a b, edge b a, edge b d])"

lemma findSubgraph_foreign_cycle:
  "(case findSubgraph foreign_cycle (sample_node 3 ''d'') (sample_node 0 ''t'') of
      Inl e \<Rightarrow> False
    | Inr h \<Rightarrow> in_graph h (sample_node 1 ''a'') \<and> in_graph h (sample_node 2 ''b''))"
  by code_simp

text \<open>
  The parent connections are taken from all nodes above, so a utility node of a node \<open>z\<close> outside
  the subgraph brings \<open>z\<close> in.
\<close>

definition foreign_utility :: DirectedGraph where
  "foreign_utility = (let t = sample_node 0 ''t''; z = sample_node 1 ''z''; m = sample_node 2 ''m''; d = sample_node 3 ''d''
     in sample_graph [t, z, m, d] [edge t d, edge z d, typed_edge AiLanguageModel m z])"

lemma findSubgraph_foreign_utility:
  "(case findSubgraph foreign_utility (sample_node 3 ''d'') (sample_node 0 ''t'') of
      Inl e \<Rightarrow> False
    | Inr h \<Rightarrow> in_graph h (sample_node 1 ''z'') \<and>
        list_all (\<lambda>c. gc_to c = sample_node 3 ''d'' \<longrightarrow> gc_from c = sample_node 0 ''t'') (js_values (g_connections h)))"
  by code_simp

text \<open>A connection from a disabled node that has a loop makes the search fail.\<close>

lemma findSubgraph_disabled_loop:
  "rbind (filterDisabledNodes disabled_loop)
     (\<lambda>g. findSubgraph g (sample_node 2 ''x'') (sample_node 0 ''t'')) = Inl AssertionError"
  by code_simp

definition branching_graph :: DirectedGraph where
  "branching_graph = (let t = sample_node 0 ''t''; a = sample_node 1 ''a''; b = sample_node 2 ''b''; d = sample_node 3 ''d''
     in sample_graph [t, a, b, d] [edge t a, edge a d, edge a b])"

definition branching_path :: "GraphConnection list" where
  "branching_path = map (\<lambda>(a, b). complete_input (edge a b))
     [(sample_node 1 ''a'', sample_node 3 ''d''), (sample_node 0 ''t'', sample_node 1 ''a'')]"

lemma branching_graph_facts:
  "wf_graph branching_graph" "in_graph branching_graph (sample_node 3 ''d'')" "in_graph branching_graph (sample_node 0 ''t'')"
  by code_simp+

lemma findSubgraph_sound_witness:
  "\<exists>h. findSubgraph branching_graph (sample_node 3 ''d'') (sample_node 0 ''t'') = Inr h \<and> wf_graph h \<and>
     graph_conns h \<subseteq> graph_conns branching_graph"
  using findSubgraph_sound[OF branching_graph_facts] by blast

lemma findSubgraph_complete_witness:
  "\<exists>h. findSubgraph branching_graph (sample_node 3 ''d'') (sample_node 0 ''t'') = Inr h \<and>
     set branching_path \<subseteq> graph_conns h"
proof -
  have "main_path branching_graph (sample_node 3 ''d'') branching_path (sample_node 0 ''t'')"
    "distinct (map gc_to branching_path)" by code_simp+
  from findSubgraph_complete[OF branching_graph_facts this] show ?thesis by blast
qed

end
