(* ===== verification/StartNodes.thy ===== *)
theory StartNodes
  imports Subgraph
begin

text \<open>
  Which nodes a partial execution starts from: \<open>getIncomingData\<close>, \<open>getIncomingDataFromAnyRun\<close>
  (\<^verbatim>\<open>get-incoming-data.ts\<close>), \<open>isDirty\<close>, \<open>findStartNodes\<close> (\<^verbatim>\<open>find-start-nodes.ts\<close>) and
  \<open>handleCycles\<close> (\<^verbatim>\<open>handle-cycles.ts\<close>). The start nodes are the first nodes on the ways from the
  trigger, along connections that carried data, that are dirty, the destination or an unfinished
  loop.
\<close>

section \<open>Incoming data\<close>

text \<open>\<open>data?.[type].at(i)\<close>: a run with data but no entry for the type throws.\<close>

definition getIncomingData ::
    "IRunData \<Rightarrow> string \<Rightarrow> int \<Rightarrow> NodeConnectionType \<Rightarrow> nat \<Rightarrow> INodeExecutionData list option result" where
  "getIncomingData rd nodeName runIndex ty outputIndex =
     (case map_of rd nodeName of
        None \<Rightarrow> Inr None
      | Some runs \<Rightarrow>
          case js_at runs runIndex of
            None \<Rightarrow> Inr None
          | Some task \<Rightarrow>
              case task_data task of
                None \<Rightarrow> Inr None
              | Some d \<Rightarrow>
                  case map_of d ty of
                    None \<Rightarrow> Inl TypeError
                  | Some outputs \<Rightarrow>
                      Inr (case js_at outputs (int outputIndex) of Some (Some items) \<Rightarrow> Some items | _ \<Rightarrow> None))"

fun getIncomingDataFromRuns ::
    "IRunData \<Rightarrow> string \<Rightarrow> NodeConnectionType \<Rightarrow> nat \<Rightarrow> nat list \<Rightarrow>
      (INodeExecutionData list \<times> nat) option result" where
  "getIncomingDataFromRuns rd nodeName ty outputIndex [] = Inr None"
| "getIncomingDataFromRuns rd nodeName ty outputIndex (runIndex # runIndices) =
     rbind (getIncomingData rd nodeName (int runIndex) ty outputIndex) (\<lambda>d.
       case d of
         Some (item # items) \<Rightarrow> Inr (Some (item # items, runIndex))
       | _ \<Rightarrow> getIncomingDataFromRuns rd nodeName ty outputIndex runIndices)"

definition getRunIndexLength :: "IRunData \<Rightarrow> string \<Rightarrow> nat" where
  "getRunIndexLength rd nodeName = (case map_of rd nodeName of None \<Rightarrow> 0 | Some runs \<Rightarrow> length runs)"

definition getIncomingDataFromAnyRun ::
    "IRunData \<Rightarrow> string \<Rightarrow> NodeConnectionType \<Rightarrow> nat \<Rightarrow> (INodeExecutionData list \<times> nat) option result" where
  "getIncomingDataFromAnyRun rd nodeName ty outputIndex =
     getIncomingDataFromRuns rd nodeName ty outputIndex [0..<getRunIndexLength rd nodeName]"

text \<open>The items a run put out, when the run has an entry for the type.\<close>

definition run_items :: "ITaskData \<Rightarrow> NodeConnectionType \<Rightarrow> nat \<Rightarrow> INodeExecutionData list option" where
  "run_items task ty i =
     (case task_data task of None \<Rightarrow> None
      | Some d \<Rightarrow> case map_of d ty of None \<Rightarrow> None
        | Some outputs \<Rightarrow> if i < length outputs then outputs ! i else None)"

definition runs_of :: "IRunData \<Rightarrow> string \<Rightarrow> ITaskData list" where
  "runs_of rd nm = (case map_of rd nm of None \<Rightarrow> [] | Some runs \<Rightarrow> runs)"

definition typed_runs :: "IRunData \<Rightarrow> string \<Rightarrow> NodeConnectionType \<Rightarrow> bool" where
  "typed_runs rd nm ty \<longleftrightarrow> list_all (\<lambda>t. case task_data t of None \<Rightarrow> True | Some d \<Rightarrow> map_of d ty \<noteq> None) (runs_of rd nm)"

lemma js_at_nat [simp]: "js_at xs (int i) = (if i < length xs then Some (xs ! i) else None)"
  by (simp add: js_at_def)

lemma js_at_mem: "js_at xs i = Some x \<Longrightarrow> x \<in> set xs"
  by (auto simp: js_at_def Let_def split: if_splits)

lemma js_at_nil [simp]: "js_at [] i = None"
  by (simp add: js_at_def)

lemma js_at_last [simp]: "js_at xs (-1) = (if xs = [] then None else Some (last xs))"
  by (cases xs rule: rev_cases) (simp_all add: js_at_def Let_def)

lemma getIncomingData_typed:
  assumes "typed_runs rd nm ty" "js_at (runs_of rd nm) ri = Some task"
  shows "getIncomingData rd nm ri ty i = Inr (run_items task ty i)"
proof -
  have mem: "task \<in> set (runs_of rd nm)" using js_at_mem[OF assms(2)] .
  then obtain runs where runs: "map_of rd nm = Some runs" "runs_of rd nm = runs"
    by (cases "map_of rd nm") (auto simp: runs_of_def)
  show ?thesis
  proof (cases "task_data task")
    case None
    with runs assms(2) show ?thesis by (simp add: getIncomingData_def run_items_def)
  next
    case (Some d)
    then obtain outputs where "map_of d ty = Some outputs"
      using assms(1) mem unfolding typed_runs_def list_all_iff by fastforce
    with runs assms(2) Some show ?thesis
      by (simp add: getIncomingData_def run_items_def split: option.splits)
  qed
qed

lemma getIncomingData_absent: "js_at (runs_of rd nm) ri = None \<Longrightarrow> getIncomingData rd nm ri ty i = Inr None"
  by (cases "map_of rd nm") (simp_all add: getIncomingData_def runs_of_def)

lemma getIncomingDataFromRuns_typed:
  assumes "typed_runs rd nm ty" "\<And>ri. ri \<in> set ris \<Longrightarrow> ri < length (runs_of rd nm)"
  shows "getIncomingDataFromRuns rd nm ty i ris =
    Inr (map_option (\<lambda>ri. (the (run_items (runs_of rd nm ! ri) ty i), ri))
      (List.find (\<lambda>ri. run_items (runs_of rd nm ! ri) ty i \<notin> {None, Some []}) ris))"
  using assms(2)
proof (induction ris)
  case (Cons ri ris)
  have "getIncomingData rd nm (int ri) ty i = Inr (run_items (runs_of rd nm ! ri) ty i)"
    using Cons.prems by (intro getIncomingData_typed assms(1)) simp
  with Cons show ?case by (auto split: option.splits list.splits)
qed simp

text \<open>The first run with items on the output, if any.\<close>

definition first_run :: "IRunData \<Rightarrow> string \<Rightarrow> NodeConnectionType \<Rightarrow> nat \<Rightarrow> nat option" where
  "first_run rd nm ty i =
     List.find (\<lambda>ri. run_items (runs_of rd nm ! ri) ty i \<notin> {None, Some []}) [0..<length (runs_of rd nm)]"

lemma getIncomingDataFromAnyRun_first:
  assumes "typed_runs rd nm ty"
  shows "getIncomingDataFromAnyRun rd nm ty i =
    Inr (map_option (\<lambda>ri. (the (run_items (runs_of rd nm ! ri) ty i), ri)) (first_run rd nm ty i))"
proof -
  have "getRunIndexLength rd nm = length (runs_of rd nm)"
    by (simp add: getRunIndexLength_def runs_of_def split: option.splits)
  then have "getIncomingDataFromAnyRun rd nm ty i =
      getIncomingDataFromRuns rd nm ty i [0..<length (runs_of rd nm)]"
    by (simp add: getIncomingDataFromAnyRun_def)
  also have "\<dots> = Inr (map_option (\<lambda>ri. (the (run_items (runs_of rd nm ! ri) ty i), ri)) (first_run rd nm ty i))"
    unfolding first_run_def by (rule getIncomingDataFromRuns_typed[OF assms]) simp
  finally show ?thesis .
qed

section \<open>Start nodes\<close>

definition isDirty :: "INode \<Rightarrow> IRunData \<Rightarrow> IPinData \<Rightarrow> bool" where
  "isDirty n rd pd =
     (if map_of pd (node_name n) \<noteq> None then False
      else if map_of rd (node_name n) \<noteq> None then False
      else True)"

definition splitInBatches :: string where
  "splitInBatches = ''n8n-nodes-base.splitInBatches''"

text \<open>A loop node whose \<open>done\<close> output has no data in the last run.\<close>

definition loopUnfinished :: "INode \<Rightarrow> IRunData \<Rightarrow> bool result" where
  "loopUnfinished n rd =
     (if node_type n = splitInBatches
      then rbind (getIncomingData rd (node_name n) (-1) MainConn 0) (\<lambda>d.
        Inr (case d of None \<Rightarrow> True | Some items \<Rightarrow> items = []))
      else Inr False)"

function findStartNodesRecursive ::
    "DirectedGraph \<Rightarrow> INode \<Rightarrow> INode \<Rightarrow> IRunData \<Rightarrow> IPinData \<Rightarrow> INode list \<Rightarrow> INode list \<Rightarrow> INode list result" where
  "findStartNodesRecursive g current destination rd pd startNodes seen =
     (if isDirty current rd pd then Inr (set_add current startNodes)
      else if current = destination then Inr (set_add current startNodes)
      else rbind (loopUnfinished current rd) (\<lambda>unfinished.
        if unfinished then Inr (set_add current startNodes)
        else if current \<in> set seen then Inr startNodes
        else rbind (getDirectChildConnections g current) (\<lambda>outGoingConnections.
          rfold (\<lambda>c startNodes.
            rbind (getIncomingDataFromAnyRun rd (node_name (gc_from c)) (gc_type c) (gc_outputIndex c))
              (\<lambda>nodeRunData.
                let hasNoRunData = (case nodeRunData of None \<Rightarrow> True | Some (d, _) \<Rightarrow> d = []);
                    hasNoPinnedData = (map_of pd (node_name (gc_from c)) = None)
                in if hasNoRunData \<and> hasNoPinnedData then Inr startNodes
                   else findStartNodesRecursive g (gc_to c) destination rd pd startNodes
                     (set_add current seen)))
            outGoingConnections startNodes)))"
  by pat_completeness auto

termination
proof (relation "measure (\<lambda>(g, c, d, rd, pd, st, seen). card (graph_nodes g - set seen))")
  fix g :: DirectedGraph and current d :: INode and rd pd and st st' seen :: "INode list" and cs :: "GraphConnection list" and c
  assume "getDirectChildConnections g current = Inr cs" and fresh: "current \<notin> set seen"
  then have "current \<in> graph_nodes g - set seen"
    by (auto simp: getDirectChildConnections_Inr in_graph_nodes)
  then have "graph_nodes g - set (set_add current seen) \<subset> graph_nodes g - set seen" by auto
  then have "card (graph_nodes g - set (set_add current seen)) < card (graph_nodes g - set seen)"
    by (rule psubset_card_mono[rotated]) simp
  then show "((g, gc_to c, d, rd, pd, st', set_add current seen), g, current, d, rd, pd, st, seen) \<in>
      measure (\<lambda>(g, c, d, rd, pd, st, seen). card (graph_nodes g - set seen))" for c
    by simp
qed simp

declare findStartNodesRecursive.simps [simp del]

definition findStartNodes ::
    "DirectedGraph \<Rightarrow> INode \<Rightarrow> INode \<Rightarrow> IPinData \<Rightarrow> IRunData \<Rightarrow> INode list result" where
  "findStartNodes g trigger destination pd rd =
     findStartNodesRecursive g trigger destination rd pd [] []"

section \<open>The frontier\<close>

definition unfinished :: "INode \<Rightarrow> IRunData \<Rightarrow> bool" where
  "unfinished n rd \<longleftrightarrow> node_type n = splitInBatches \<and>
     (runs_of rd (node_name n) = [] \<or> run_items (last (runs_of rd (node_name n))) MainConn 0 \<in> {None, Some []})"

text \<open>Where a way from the trigger ends, and which connections it takes.\<close>

definition stops :: "INode \<Rightarrow> IRunData \<Rightarrow> IPinData \<Rightarrow> INode \<Rightarrow> bool" where
  "stops destination rd pd n \<longleftrightarrow> isDirty n rd pd \<or> n = destination \<or> unfinished n rd"

definition carries :: "IRunData \<Rightarrow> IPinData \<Rightarrow> GraphConnection \<Rightarrow> bool" where
  "carries rd pd c \<longleftrightarrow> first_run rd (node_name (gc_from c)) (gc_type c) (gc_outputIndex c) \<noteq> None \<or>
     map_of pd (node_name (gc_from c)) \<noteq> None"

definition executed :: "DirectedGraph \<Rightarrow> INode \<Rightarrow> IRunData \<Rightarrow> IPinData \<Rightarrow> (INode \<times> INode) set" where
  "executed g destination rd pd =
     {(gc_from c, gc_to c) | c. c \<in> graph_conns g \<and> carries rd pd c \<and> \<not> stops destination rd pd (gc_from c)}"

definition run_data_typed :: "DirectedGraph \<Rightarrow> IRunData \<Rightarrow> bool" where
  "run_data_typed g rd \<longleftrightarrow>
     list_all (\<lambda>c. typed_runs rd (node_name (gc_from c)) (gc_type c)) (js_values (g_connections g)) \<and>
     list_all (\<lambda>n. node_type n = splitInBatches \<longrightarrow> typed_runs rd (node_name n) MainConn) (js_values (g_nodes g))"

lemma loopUnfinished_typed:
  assumes "node_type n = splitInBatches \<Longrightarrow> typed_runs rd (node_name n) MainConn"
  shows "loopUnfinished n rd = Inr (unfinished n rd)"
proof (cases "node_type n = splitInBatches")
  case loop: True
  show ?thesis
  proof (cases "runs_of rd (node_name n) = []")
    case True
    with loop show ?thesis by (simp add: loopUnfinished_def unfinished_def getIncomingData_absent)
  next
    case False
    then have "getIncomingData rd (node_name n) (-1) MainConn 0 =
        Inr (run_items (last (runs_of rd (node_name n))) MainConn 0)"
      by (intro getIncomingData_typed assms loop) simp
    with loop False show ?thesis by (auto simp: loopUnfinished_def unfinished_def split: option.splits)
  qed
qed (simp add: loopUnfinished_def unfinished_def)

lemma first_run_items: "first_run rd nm ty i = Some ri \<Longrightarrow> the (run_items (runs_of rd nm ! ri) ty i) \<noteq> []"
  unfolding first_run_def find_Some_iff by auto

text \<open>What the search adds below a node.\<close>

definition frontier ::
    "DirectedGraph \<Rightarrow> INode \<Rightarrow> IRunData \<Rightarrow> IPinData \<Rightarrow> INode \<Rightarrow> INode set \<Rightarrow> INode set" where
  "frontier g d rd pd n seen =
     (if stops d rd pd n then {n} else if n \<in> seen then {}
      else {m. stops d rd pd m \<and> (n, m) \<in> (avoid (executed g d rd pd) (insert n seen))\<^sup>+})"

lemma frontier_unfold:
  assumes n: "\<not> stops d rd pd n" "n \<notin> seen" and seen: "\<And>s. s \<in> seen \<Longrightarrow> \<not> stops d rd pd s"
  shows "frontier g d rd pd n seen = (\<Union>b \<in> executed g d rd pd `` {n}. frontier g d rd pd b (insert n seen))"
proof -
  let ?R = "executed g d rd pd" and ?D = "insert n seen"
  have below: "frontier g d rd pd b ?D =
      {m. stops d rd pd m \<and> b \<notin> ?D \<and> (m = b \<or> (b, m) \<in> (avoid ?R (insert b ?D))\<^sup>+)}" for b
  proof (cases "stops d rd pd b")
    case True
    then have "(b, m) \<notin> (avoid ?R (insert b ?D))\<^sup>+" for m
      by (auto dest!: tranclD simp: avoid_def executed_def)
    with True n seen show ?thesis by (auto simp: frontier_def)
  next
    case False
    then show ?thesis by (auto simp: frontier_def)
  qed
  show ?thesis unfolding below using n by (auto simp: frontier_def avoid_unfold[of n _ ?R ?D])
qed

lemma findStartNodesRecursive_frontier:
  "wf_graph g \<Longrightarrow> run_data_typed g rd \<Longrightarrow> in_graph g current \<Longrightarrow> (\<And>s. s \<in> set seen \<Longrightarrow> \<not> stops d rd pd s) \<Longrightarrow> distinct S \<Longrightarrow>
     \<exists>S'. findStartNodesRecursive g current d rd pd S seen = Inr S' \<and> distinct S' \<and>
       set S' = set S \<union> frontier g d rd pd current (set seen)"
proof (induction g current d rd pd S seen rule: findStartNodesRecursive.induct)
  case (1 g current d rd pd S seen)
  note wf = "1.prems"(1) and typed = "1.prems"(2) and cur = "1.prems"(3) and seen = "1.prems"(4)
  have loop: "loopUnfinished current rd = Inr (unfinished current rd)"
    using typed cur in_graph_iff[OF wf] by (intro loopUnfinished_typed) (auto simp: run_data_typed_def list_all_iff)
  show ?case
  proof (cases "stops d rd pd current")
    case True
    then show ?thesis using loop "1.prems"(5)
      by (subst findStartNodesRecursive.simps) (auto simp: stops_def frontier_def)
  next
    case go: False
    then have nostop: "\<not> isDirty current rd pd" "current \<noteq> d" "\<not> unfinished current rd" by (auto simp: stops_def)
    show ?thesis
    proof (cases "current \<in> set seen")
      case True
      with nostop loop go "1.prems"(5) show ?thesis
        by (subst findStartNodesRecursive.simps) (simp add: frontier_def)
    next
      case fresh: False
      define cs where "cs = filter (\<lambda>c. gc_from c = current) (js_values (g_connections g))"
      have cs: "getDirectChildConnections g current = Inr cs" using cur by (simp add: direct_connections cs_def)
      let ?f = "\<lambda>c startNodes.
            rbind (getIncomingDataFromAnyRun rd (node_name (gc_from c)) (gc_type c) (gc_outputIndex c))
              (\<lambda>nodeRunData.
                let hasNoRunData = (case nodeRunData of None \<Rightarrow> True | Some (d, _) \<Rightarrow> d = []);
                    hasNoPinnedData = (map_of pd (node_name (gc_from c)) = None)
                in if hasNoRunData \<and> hasNoPinnedData then Inr startNodes
                   else findStartNodesRecursive g (gc_to c) d rd pd startNodes (set_add current seen))"
      have unfold: "findStartNodesRecursive g current d rd pd S seen = rfold ?f cs S"
        using nostop loop fresh cs by (subst findStartNodesRecursive.simps) simp
      let ?A = "\<lambda>c. if carries rd pd c then frontier g d rd pd (gc_to c) (insert current (set seen)) else {}"
      have "\<exists>S'. rfold ?f cs S = Inr S' \<and> (distinct S' \<and> set S' = set S \<union> (\<Union>c \<in> set cs. ?A c))"
      proof (rule rfold_total_prefix)
        fix pre c rest S1
        assume split: "cs = pre @ c # rest" and S1: "distinct S1 \<and> set S1 = set S \<union> (\<Union>c \<in> set pre. ?A c)"
        have c_in: "c \<in> set cs" by (simp add: split)
        then have c: "c \<in> graph_conns g" "gc_from c = current" by (auto simp: cs_def)
        have "typed_runs rd (node_name (gc_from c)) (gc_type c)"
          using typed c(1) by (auto simp: run_data_typed_def list_all_iff)
        note data = getIncomingDataFromAnyRun_first[OF this, of "gc_outputIndex c"]
        show "\<exists>S'. ?f c S1 = Inr S' \<and> (distinct S' \<and> set S' = set S \<union> (\<Union>c \<in> set (pre @ [c]). ?A c))"
        proof (cases "carries rd pd c")
          case False
          then have "?f c S1 = Inr S1" by (simp add: data carries_def)
          with False S1 show ?thesis by simp
        next
          case True
          then have f: "?f c S1 = findStartNodesRecursive g (gc_to c) d rd pd S1 (set_add current seen)"
            by (auto simp: data carries_def dest: first_run_items)
          have "\<exists>S'. findStartNodesRecursive g (gc_to c) d rd pd S1 (set_add current seen) = Inr S' \<and> distinct S' \<and>
              set S' = set S1 \<union> frontier g d rd pd (gc_to c) (set (set_add current seen))"
            by (rule "1.IH"[OF nostop(1,2) loop nostop(3) fresh cs c_in data refl refl])
              (use True wf typed graph_conns_in[OF wf c(1)] seen go S1 in
                \<open>auto simp: carries_def dest: first_run_items\<close>)
          with f True S1 show ?thesis by auto
        qed
      qed (use "1.prems"(5) in simp)
      moreover have "(\<Union>c \<in> set cs. ?A c) = frontier g d rd pd current (set seen)"
      proof -
        have "executed g d rd pd `` {current} = gc_to ` {c \<in> set cs. carries rd pd c}"
          using go by (auto simp: executed_def cs_def)
        then show ?thesis using frontier_unfold[OF go fresh seen, of g] by auto
      qed
      ultimately show ?thesis using unfold by auto
    qed
  qed
qed

text \<open>C2: Let the graph be well-formed and the run data typed: a recorded run of the source of a connection with an output has
  an entry for the type of the connection (a \<open>TypeError\<close> is thrown for others). Then the start nodes are
  the nodes where a way from the trigger along executed connections first stops, each once.\<close>

lemma findStartNodes_exact:
  assumes wf: "wf_graph g" and typed: "run_data_typed g rd" and t: "in_graph g t"
  shows "\<exists>S. findStartNodes g t d pd rd = Inr S \<and> distinct S \<and>
    set S = {m. stops d rd pd m \<and> (t, m) \<in> (executed g d rd pd)\<^sup>*}"
proof -
  let ?R = "executed g d rd pd"
  obtain S where S: "findStartNodes g t d pd rd = Inr S" "distinct S" "set S = frontier g d rd pd t {}"
    using findStartNodesRecursive_frontier[OF wf typed t, of "[]" d pd "[]"] by (auto simp: findStartNodes_def)
  have "frontier g d rd pd t {} = {m. stops d rd pd m \<and> (t, m) \<in> ?R\<^sup>*}"
  proof (cases "stops d rd pd t")
    case True
    then have "(t, m) \<notin> ?R\<^sup>+" for m by (auto dest!: tranclD simp: executed_def)
    with True show ?thesis by (auto simp: frontier_def rtrancl_eq_or_trancl)
  next
    case False
    have "(t, m) \<in> (avoid ?R {t})\<^sup>+ \<longleftrightarrow> (t, m) \<in> ?R\<^sup>+ \<and> m \<noteq> t" for m
      using avoid_start[of t ?R] by blast
    with False show ?thesis by (auto simp: frontier_def rtrancl_eq_or_trancl)
  qed
  with S show ?thesis by metis
qed

text \<open>The trigger has run, the node after it has not.\<close>

lemma findStartNodes_exact_witness:
  "\<exists>S. findStartNodes chain_graph (sample_node 0 ''a'') (sample_node 2 ''c'') []
       [(''a'', [plain_task (Some [(MainConn, [None, Some [empty_item]])])])] = Inr S \<and> distinct S"
proof -
  have hyps: "wf_graph chain_graph"
    "run_data_typed chain_graph [(''a'', [plain_task (Some [(MainConn, [None, Some [empty_item]])])])]"
    "in_graph chain_graph (sample_node 0 ''a'')" by code_simp+
  from findStartNodes_exact[OF hyps] show ?thesis by blast
qed

end
