(* ===== verification/Cycles.thy ===== *)
theory Cycles
  imports StartNodes
begin

text \<open>
  \<open>handleCycles\<close> (\<^verbatim>\<open>handle-cycles.ts\<close>) and \<open>cleanRunData\<close> (\<^verbatim>\<open>clean-run-data.ts\<close>): start nodes inside
  a strongly connected component are replaced by the component's first node on the way from the
  trigger, and the run data of everything after the start nodes is dropped.
\<close>

section \<open>Start nodes in cycles\<close>

definition replace_in_cycle ::
    "DirectedGraph \<Rightarrow> INode \<Rightarrow> INode \<Rightarrow> INode list \<Rightarrow> INode list \<Rightarrow> INode list result" where
  "replace_in_cycle g trigger startNode cycle newStartNodes =
     (if startNode \<in> set cycle
      then rbind (depthFirstSearch g trigger (\<lambda>n. n \<in> set cycle)) (\<lambda>firstNode.
        case firstNode of
          None \<Rightarrow> Inl AssertionError
        | Some f \<Rightarrow> Inr (set_add f (set_del startNode newStartNodes)))
      else Inr newStartNodes)"

definition handleCycles :: "DirectedGraph \<Rightarrow> INode list \<Rightarrow> INode \<Rightarrow> INode list result" where
  "handleCycles g startNodes trigger =
     rbind (getStronglyConnectedComponents g) (\<lambda>components.
       let cycles = filter (\<lambda>cycle. length cycle \<ge> 1) components
       in if length cycles = 0 then Inr startNodes
          else rfold (\<lambda>startNode. rfold (replace_in_cycle g trigger startNode) cycles) startNodes startNodes)"

abbreviation mutual :: "DirectedGraph \<Rightarrow> INode \<Rightarrow> INode \<Rightarrow> bool" where
  "mutual g a b \<equiv> (a, b) \<in> (g_edges g)\<^sup>* \<and> (b, a) \<in> (g_edges g)\<^sup>*"

lemma mutual_trans: "mutual g a b \<Longrightarrow> mutual g b c \<Longrightarrow> mutual g a c"
  by auto

lemma components_facts:
  assumes "wf_graph g" "getStronglyConnectedComponents g = Inr Cs"
  shows "\<And>C. C \<in> set Cs \<Longrightarrow> C \<noteq> []" "\<And>C a b. C \<in> set Cs \<Longrightarrow> a \<in> set C \<Longrightarrow> b \<in> set C \<Longrightarrow> mutual g a b"
    "distinct (concat Cs)"
proof -
  obtain Cs' where Cs': "getStronglyConnectedComponents g = Inr Cs'"
    "\<forall>C \<in> set Cs'. C \<noteq> [] \<and> set C \<subseteq> graph_nodes g \<and> (\<forall>a \<in> set C. \<forall>b \<in> set C. (a, b) \<in> (g_edges g)\<^sup>*)"
    "distinct (concat Cs')"
    using getStronglyConnectedComponents_sound[OF assms(1)] by blast
  with assms(2) have "Cs' = Cs" by simp
  with Cs' show "\<And>C. C \<in> set Cs \<Longrightarrow> C \<noteq> []" "distinct (concat Cs)"
    "\<And>C a b. C \<in> set Cs \<Longrightarrow> a \<in> set C \<Longrightarrow> b \<in> set C \<Longrightarrow> mutual g a b" by blast+
qed

text \<open>Every start node keeps a representative, and every new one represents an old one.\<close>

definition represents :: "DirectedGraph \<Rightarrow> INode list \<Rightarrow> INode list \<Rightarrow> bool" where
  "represents g new old \<longleftrightarrow> distinct new \<and> (\<forall>s \<in> set old. \<exists>n \<in> set new. mutual g s n) \<and>
     (\<forall>n \<in> set new. \<exists>s \<in> set old. mutual g s n)"

lemma replace_in_cycle_represents:
  assumes wf: "wf_graph g" and t: "in_graph g t" and reach: "(t, s) \<in> (g_edges g)\<^sup>*"
    and C: "\<And>a b. a \<in> set C \<Longrightarrow> b \<in> set C \<Longrightarrow> mutual g a b"
    and s: "s \<in> set old" and new: "represents g new old"
  shows "\<exists>new'. replace_in_cycle g t s C new = Inr new' \<and> represents g new' old"
proof (cases "s \<in> set C")
  case True
  obtain r where r: "depthFirstSearch g t (\<lambda>n. n \<in> set C) = Inr r"
    "case r of Some m \<Rightarrow> m \<in> set C \<and> (t, m) \<in> (edges_until g (\<lambda>n. n \<in> set C))\<^sup>* | None \<Rightarrow> \<forall>m. (t, m) \<in> (g_edges g)\<^sup>* \<longrightarrow> m \<notin> set C"
    using depthFirstSearch_finds[OF wf t, of "\<lambda>n. n \<in> set C"] by blast
  then obtain f where f: "r = Some f" "f \<in> set C" using True reach by (cases r) auto
  have sf: "mutual g s f" using C[OF True f(2)] .
  let ?new = "set_add f (set_del s new)"
  have "\<exists>n \<in> set ?new. mutual g a n" if a: "a \<in> set old" for a
  proof -
    obtain n where n: "n \<in> set new" "mutual g a n" using new a unfolding represents_def by blast
    show ?thesis
    proof (cases "n = s")
      case True
      with n sf have "mutual g a f" using mutual_trans[of a s g f] by simp
      then show ?thesis by auto
    qed (use n in auto)
  qed
  moreover have "\<exists>a \<in> set old. mutual g a n" if "n \<in> set ?new" for n
    using that new s sf by (auto simp: represents_def)
  moreover have "distinct ?new" using new by (simp add: represents_def)
  ultimately have "represents g ?new old" unfolding represents_def by blast
  with r(1) f(1) True show ?thesis by (simp add: replace_in_cycle_def)
qed (use new in \<open>simp add: replace_in_cycle_def\<close>)

lemma handleCycles_represents:
  assumes wf: "wf_graph g" and t: "in_graph g t" and dist: "distinct starts"
    and reach: "\<And>s. s \<in> set starts \<Longrightarrow> (t, s) \<in> (g_edges g)\<^sup>*"
  shows "\<exists>new. handleCycles g starts t = Inr new \<and> represents g new starts"
proof -
  obtain Cs where Cs: "getStronglyConnectedComponents g = Inr Cs"
    using getStronglyConnectedComponents_sound[OF wf] by blast
  let ?cycles = "filter (\<lambda>cycle. length cycle \<ge> 1) Cs"
  have start: "represents g starts starts" using dist by (auto simp: represents_def)
  have "\<exists>new. rfold (\<lambda>s. rfold (replace_in_cycle g t s) ?cycles) starts starts = Inr new \<and> represents g new starts"
  proof (rule rfold_total[where P = "\<lambda>new. represents g new starts", OF start])
    fix s new assume s: "s \<in> set starts" and new: "represents g new starts"
    show "\<exists>new'. rfold (replace_in_cycle g t s) ?cycles new = Inr new' \<and> represents g new' starts"
    proof (rule rfold_total[where P = "\<lambda>new. represents g new starts", OF new])
      fix C new1 assume "C \<in> set ?cycles" and new1: "represents g new1 starts"
      then have "\<And>a b. a \<in> set C \<Longrightarrow> b \<in> set C \<Longrightarrow> mutual g a b" using components_facts(2)[OF wf Cs] by auto
      from replace_in_cycle_represents[OF wf t reach[OF s] this s new1]
      show "\<exists>s'. replace_in_cycle g t s C new1 = Inr s' \<and> represents g s' starts" by blast
    qed
  qed
  with start show ?thesis by (cases "length ?cycles = 0") (auto simp: handleCycles_def Cs Let_def)
qed

text \<open>The node of a component that the search from the trigger finds.\<close>

definition first_of :: "DirectedGraph \<Rightarrow> INode \<Rightarrow> INode list \<Rightarrow> INode" where
  "first_of g t C = (case depthFirstSearch g t (\<lambda>n. n \<in> set C) of Inr (Some f) \<Rightarrow> f | _ \<Rightarrow> t)"

lemma replace_in_cycle_first:
  assumes wf: "wf_graph g" and t: "in_graph g t" and reach: "(t, s) \<in> (g_edges g)\<^sup>*"
  shows "\<exists>new'. replace_in_cycle g t s C new = Inr new' \<and>
    set new' = (if s \<in> set C then insert (first_of g t C) (set new - {s}) else set new) \<and>
    (s \<in> set C \<longrightarrow> first_of g t C \<in> set C \<and> (t, first_of g t C) \<in> (edges_until g (\<lambda>n. n \<in> set C))\<^sup>*)"
proof (cases "s \<in> set C")
  case True
  obtain r where r: "depthFirstSearch g t (\<lambda>n. n \<in> set C) = Inr r"
    "case r of Some m \<Rightarrow> m \<in> set C \<and> (t, m) \<in> (edges_until g (\<lambda>n. n \<in> set C))\<^sup>* | None \<Rightarrow> \<forall>m. (t, m) \<in> (g_edges g)\<^sup>* \<longrightarrow> m \<notin> set C"
    using depthFirstSearch_finds[OF wf t, of "\<lambda>n. n \<in> set C"] by blast
  then obtain f where "r = Some f" using True reach by (cases r) auto
  with r True show ?thesis by (auto simp: replace_in_cycle_def first_of_def)
qed (simp add: replace_in_cycle_def)

definition in_component :: "INode list list \<Rightarrow> INode \<Rightarrow> bool" where
  "in_component Cs s \<longleftrightarrow> (\<exists>C \<in> set Cs. s \<in> set C)"

definition firsts :: "DirectedGraph \<Rightarrow> INode \<Rightarrow> INode list list \<Rightarrow> INode set \<Rightarrow> INode set" where
  "firsts g t Cs S = {first_of g t C | C. C \<in> set Cs \<and> set C \<inter> S \<noteq> {}}"

lemma replace_start_node:
  assumes wf: "wf_graph g" and t: "in_graph g t" and reach: "(t, s) \<in> (g_edges g)\<^sup>*" and disj: "distinct (concat Cs)" "[] \<notin> set Cs"
  shows "\<exists>new'. rfold (replace_in_cycle g t s) Cs new = Inr new' \<and>
    set new' = (if in_component Cs s then firsts g t Cs {s} \<union> (set new - {s}) else set new)"
  using disj
proof (induction Cs arbitrary: new)
  case (Cons C Cs)
  obtain new1 where new1: "replace_in_cycle g t s C new = Inr new1"
    "set new1 = (if s \<in> set C then insert (first_of g t C) (set new - {s}) else set new)"
    using replace_in_cycle_first[OF wf t reach, of C new] by blast
  have "distinct (concat Cs)" "[] \<notin> set Cs" using Cons.prems by auto
  from Cons.IH[OF this, of new1] obtain new2 where new2: "rfold (replace_in_cycle g t s) Cs new1 = Inr new2"
    "set new2 = (if in_component Cs s then firsts g t Cs {s} \<union> (set new1 - {s}) else set new1)" by blast
  have "\<not> in_component Cs s" if "s \<in> set C" using that Cons.prems by (auto simp: in_component_def)
  then have "set new2 = (if in_component (C # Cs) s then firsts g t (C # Cs) {s} \<union> (set new - {s}) else set new)"
    using new1(2) new2(2) by (auto simp: in_component_def firsts_def)
  with new1(1) new2(1) show ?case by simp
qed (simp add: in_component_def firsts_def)

text \<open>
  C28: If the trigger reaches the start nodes, no assertion fails, and exactly the start nodes inside of the computed
  components are replaced: each component with a start node gives one new start node, the node of it that is
  entered first on a way from the trigger, which passes through no other node of the component. So every old
  start node and its replacement reach each other.
\<close>

theorem handleCycles_first_of_cycle:
  assumes wf: "wf_graph g" and t: "in_graph g t" and dist: "distinct starts"
    and reach: "\<And>s. s \<in> set starts \<Longrightarrow> (t, s) \<in> (g_edges g)\<^sup>*"
  shows "\<exists>Cs new. getStronglyConnectedComponents g = Inr Cs \<and> handleCycles g starts t = Inr new \<and>
    distinct new \<and> set new = {s \<in> set starts. \<not> in_component Cs s} \<union> firsts g t Cs (set starts) \<and>
    (\<forall>C \<in> set Cs. set C \<inter> set starts \<noteq> {} \<longrightarrow>
      first_of g t C \<in> set C \<and> (t, first_of g t C) \<in> (edges_until g (\<lambda>n. n \<in> set C))\<^sup>*) \<and>
    represents g new starts"
proof -
  obtain Cs where Cs: "getStronglyConnectedComponents g = Inr Cs"
    using getStronglyConnectedComponents_sound[OF wf] by blast
  note facts = components_facts[OF wf Cs]
  have nonempty: "[] \<notin> set Cs" using facts(1) by blast
  have all: "filter (\<lambda>cycle. length cycle \<ge> 1) Cs = Cs" using facts(1) by (auto simp: filter_id_conv Suc_le_eq)
  have entry: "first_of g t C \<in> set C \<and> (t, first_of g t C) \<in> (edges_until g (\<lambda>n. n \<in> set C))\<^sup>*"
    if "s \<in> set starts" "s \<in> set C" for s C
    using replace_in_cycle_first[OF wf t reach[OF that(1)], of C "[]"] that(2) by blast
  have same: "C = D" if "C \<in> set Cs" "D \<in> set Cs" "x \<in> set C" "x \<in> set D" for C D x
    using that facts(3) by (metis distinct_concat_iff disjoint_iff)
  let ?new = "\<lambda>pre. (set starts - {s \<in> set pre. in_component Cs s}) \<union> firsts g t Cs (set pre)"
  have "\<exists>new. rfold (\<lambda>s. rfold (replace_in_cycle g t s) Cs) starts starts = Inr new \<and> set new = ?new starts"
  proof (rule rfold_total_prefix[where P = "\<lambda>pre new. set new = ?new pre"])
    fix pre s rest new
    assume split: "starts = pre @ s # rest" and new: "set new = ?new pre"
    have s: "s \<in> set starts" using split by simp
    obtain new' where new': "rfold (replace_in_cycle g t s) Cs new = Inr new'"
      "set new' = (if in_component Cs s then firsts g t Cs {s} \<union> (set new - {s}) else set new)"
      using replace_start_node[OF wf t reach[OF s] facts(3) nonempty] by blast
    have union: "firsts g t Cs (set (pre @ [s])) = firsts g t Cs (set pre) \<union> firsts g t Cs {s}"
      by (auto simp: firsts_def)
    have "set new' = ?new (pre @ [s])"
    proof (cases "in_component Cs s")
      case True
      have "s \<in> firsts g t Cs {s}" if f: "s \<in> firsts g t Cs (set pre)"
      proof -
        obtain C x where C: "C \<in> set Cs" "x \<in> set C" "x \<in> set pre" "s = first_of g t C" using f by (auto simp: firsts_def)
        then have "s \<in> set C" using entry[of x C] split by auto
        with C show ?thesis by (auto simp: firsts_def)
      qed
      then show ?thesis using new new'(2) True union by auto
    next
      case False
      then have "firsts g t Cs {s} = {}" by (auto simp: firsts_def in_component_def)
      then show ?thesis using new new'(2) False union by auto
    qed
    with new'(1) show "\<exists>s'. rfold (replace_in_cycle g t s) Cs new = Inr s' \<and> set s' = ?new (pre @ [s])" by blast
  qed (simp add: firsts_def)
  then obtain new where new: "rfold (\<lambda>s. rfold (replace_in_cycle g t s) Cs) starts starts = Inr new" "set new = ?new starts" by blast
  have "rfold (\<lambda>s. rfold (replace_in_cycle g t s) []) xs acc = Inr acc" for xs acc by (induction xs) simp_all
  then have "new = starts" if "Cs = []" using new(1) that by simp
  then have run: "handleCycles g starts t = Inr new"
    unfolding handleCycles_def Cs rbind_simps Let_def all using new(1) by simp
  from handleCycles_represents[OF wf t dist reach] run have rep: "represents g new starts" by auto
  have "set new = {s \<in> set starts. \<not> in_component Cs s} \<union> firsts g t Cs (set starts)" using new(2) by auto
  with Cs run rep entry show ?thesis by (intro exI[of _ Cs] exI[of _ new]) (auto simp: represents_def)
qed

text \<open>The filter that is to drop components without a cycle keeps every component.\<close>

lemma handleCycles_keeps_singletons:
  assumes "wf_graph g" "getStronglyConnectedComponents g = Inr Cs"
  shows "filter (\<lambda>cycle. length cycle \<ge> 1) Cs = Cs"
  using components_facts(1)[OF assms] by (auto simp: filter_id_conv Suc_le_eq)

section \<open>Run data of the nodes that run again\<close>

definition cleanNode :: "DirectedGraph \<Rightarrow> INode \<Rightarrow> IRunData \<Rightarrow> IRunData result" where
  "cleanNode g n rd =
     rbind (getParentConnections g n) (\<lambda>subNodeConnections.
       Inr (fold (\<lambda>c rd. if gc_type c = MainConn then rd else js_del (node_name (gc_from c)) rd)
              subNodeConnections (js_del (node_name n) rd)))"

definition cleanFrom :: "DirectedGraph \<Rightarrow> INode \<Rightarrow> IRunData \<Rightarrow> IRunData result" where
  "cleanFrom g nodeToClean rd =
     rbind (getChildren g nodeToClean) (\<lambda>children.
       rfold (cleanNode g) (nodeToClean # children) (js_del (node_name nodeToClean) rd))"

definition cleanRunData :: "IRunData \<Rightarrow> DirectedGraph \<Rightarrow> INode list \<Rightarrow> IRunData result" where
  "cleanRunData runData g nodesToClean =
     rbind (rfold (cleanFrom g) nodesToClean runData)
     (\<lambda>rd. Inr (fold (\<lambda>nm rd. if \<not> hasNode g nm then js_del nm rd else rd) (js_keys rd) rd))"

definition keep_names :: "string set \<Rightarrow> IRunData \<Rightarrow> IRunData" where
  "keep_names N rd = filter (\<lambda>(k, _). k \<in> N) rd"

lemma keep_names_UNIV [simp]: "keep_names UNIV rd = rd"
  by (simp add: keep_names_def)

lemma js_del_keep: "js_del k (keep_names N rd) = keep_names (N - {k}) rd"
  by (induction rd) (auto simp: js_del_def keep_names_def)

lemma fold_del_keep:
  "fold (\<lambda>x rd. if P x then js_del (key x) rd else rd) xs (keep_names N rd) =
     keep_names (N - key ` {x \<in> set xs. P x}) rd"
proof (induction xs arbitrary: N)
  case (Cons x xs)
  have "N - {key x} - key ` {x \<in> set xs. P x} = N - key ` {y \<in> set (x # xs). P y}" if "P x" using that by auto
  moreover have "{y \<in> set (x # xs). P y} = {y \<in> set xs. P y}" if "\<not> P x" using that by auto
  ultimately show ?case using Cons by (simp add: js_del_keep)
qed simp

text \<open>The names a node that runs again takes with it.\<close>

definition node_and_utilities :: "DirectedGraph \<Rightarrow> INode \<Rightarrow> string set" where
  "node_and_utilities g m = insert (node_name m)
     {node_name (gc_from c) | c. c \<in> graph_conns g \<and> not_main c \<and> (gc_to c, m) \<in> (g_edges g)\<^sup>*}"

lemma cleanNode_keep:
  assumes "wf_graph g" "in_graph g m"
  shows "cleanNode g m (keep_names N rd) = Inr (keep_names (N - node_and_utilities g m) rd)"
proof -
  obtain cs where cs: "getParentConnections g m = Inr cs"
    "set cs = {c \<in> graph_conns g. (gc_to c, m) \<in> (g_edges g)\<^sup>*}"
    using getParentConnections_reachable[OF assms] by blast
  have "fold (\<lambda>c rd. if gc_type c = MainConn then rd else js_del (node_name (gc_from c)) rd) cs
      (js_del (node_name m) (keep_names N rd)) =
      keep_names (N - {node_name m} - (\<lambda>c. node_name (gc_from c)) ` {c \<in> set cs. not_main c}) rd"
  proof -
    have swap: "(\<lambda>c rd. if gc_type c = MainConn then rd else js_del (node_name (gc_from c)) rd) =
        (\<lambda>c rd. if not_main c then js_del (node_name (gc_from c)) rd else rd)"
      by (auto simp: not_main_def fun_eq_iff)
    show ?thesis unfolding swap js_del_keep fold_del_keep ..
  qed
  moreover have "N - {node_name m} - (\<lambda>c. node_name (gc_from c)) ` {c \<in> set cs. not_main c} = N - node_and_utilities g m"
    by (auto simp: cs(2) node_and_utilities_def)
  ultimately show ?thesis by (simp add: cleanNode_def cs(1))
qed

definition cleaned_names :: "DirectedGraph \<Rightarrow> INode \<Rightarrow> string set" where
  "cleaned_names g n = (\<Union>m \<in> {m. (n, m) \<in> (g_edges g)\<^sup>*}. node_and_utilities g m)"

lemma clean_from_keep:
  assumes wf: "wf_graph g" and n: "in_graph g n"
  shows "cleanFrom g n (keep_names N rd) =
    Inr (keep_names (N - cleaned_names g n) rd)"
proof -
  obtain cs where cs: "getChildren g n = Inr cs" "set cs = {m. (n, m) \<in> (g_edges g)\<^sup>+}"
    using getChildren_reachable[OF wf n] by blast
  have "rfold (cleanNode g) ms (keep_names K rd) = Inr (keep_names (K - (\<Union>m \<in> set ms. node_and_utilities g m)) rd)"
    if "\<And>m. m \<in> set ms \<Longrightarrow> in_graph g m" for ms K
    using that
  proof (induction ms arbitrary: K)
    case (Cons m ms)
    then show ?case using cleanNode_keep[OF wf, of m K rd] by (simp add: Diff_eq inf_assoc)
  qed simp
  moreover have "in_graph g m" if "m \<in> set (n # cs)" for m
    using that n cs(2) g_edges_in[OF wf] by (auto dest: tranclD2)
  ultimately have "rfold (cleanNode g) (n # cs) (keep_names (N - {node_name n}) rd) =
      Inr (keep_names (N - {node_name n} - (\<Union>m \<in> set (n # cs). node_and_utilities g m)) rd)" by blast
  moreover have "N - {node_name n} - (\<Union>m \<in> set (n # cs). node_and_utilities g m) = N - cleaned_names g n"
    by (auto simp: cs(2) cleaned_names_def rtrancl_eq_or_trancl node_and_utilities_def)
  ultimately show ?thesis by (simp only: cleanFrom_def cs(1) rbind_simps js_del_keep)
qed

text \<open>
  C37: For nodes of a well-formed graph no error is thrown, and what is left, in the old order, is the run data of the graph's nodes that no node to clean
  reaches and that are not a utility node above a node reached.
\<close>

lemma cleanRunData_exact:
  assumes wf: "wf_graph g" and ns: "\<And>n. n \<in> set ns \<Longrightarrow> in_graph g n"
  shows "cleanRunData rd g ns = Inr (filter (\<lambda>(k, _). hasNode g k \<and>
    \<not> (\<exists>n \<in> set ns. \<exists>m. (n, m) \<in> (g_edges g)\<^sup>* \<and> (k = node_name m \<or>
       (\<exists>c \<in> graph_conns g. gc_type c \<noteq> MainConn \<and> (gc_to c, m) \<in> (g_edges g)\<^sup>* \<and> k = node_name (gc_from c))))) rd)"
proof -
  have "rfold (cleanFrom g) ns (keep_names N rd) =
      Inr (keep_names (N - (\<Union>n \<in> set ns. cleaned_names g n)) rd)" for N
    using ns
  proof (induction ns arbitrary: N)
    case (Cons n ns)
    then show ?case using clean_from_keep[OF wf, of n N rd] by (simp add: Diff_eq inf_assoc)
  qed simp
  from this[of UNIV] have first: "rfold (cleanFrom g) ns rd =
      Inr (keep_names (- (\<Union>n \<in> set ns. cleaned_names g n)) rd)" by (simp add: Compl_eq_Diff_UNIV)
  let ?rd = "keep_names (- (\<Union>n \<in> set ns. cleaned_names g n)) rd"
  have "fold (\<lambda>nm rd. if \<not> hasNode g nm then js_del nm rd else rd) (js_keys ?rd) ?rd =
      keep_names (- (\<Union>n \<in> set ns. cleaned_names g n) - {nm \<in> set (js_keys ?rd). \<not> hasNode g nm}) rd"
    using fold_del_keep[of "\<lambda>nm. \<not> hasNode g nm" "\<lambda>nm. nm"] by simp
  also have "\<dots> = filter (\<lambda>(k, _). hasNode g k \<and> k \<notin> (\<Union>n \<in> set ns. cleaned_names g n)) rd"
    unfolding keep_names_def by (rule filter_cong) (auto simp: js_keys_def image_iff)
  finally have "cleanRunData rd g ns = Inr (filter (\<lambda>(k, _). hasNode g k \<and> k \<notin> (\<Union>n \<in> set ns. cleaned_names g n)) rd)"
    by (simp add: cleanRunData_def first)
  moreover have "k \<in> (\<Union>n \<in> set ns. cleaned_names g n) \<longleftrightarrow> (\<exists>n \<in> set ns. \<exists>m. (n, m) \<in> (g_edges g)\<^sup>* \<and> (k = node_name m \<or>
       (\<exists>c \<in> graph_conns g. gc_type c \<noteq> MainConn \<and> (gc_to c, m) \<in> (g_edges g)\<^sup>* \<and> k = node_name (gc_from c))))" for k
    by (auto simp: cleaned_names_def node_and_utilities_def not_main_def)
  ultimately show ?thesis by (simp only: )
qed

text \<open>
  The parent connections are taken from all nodes above, so the run data of the model \<open>m\<close> of the
  node \<open>a\<close> is dropped when only \<open>b\<close>, behind \<open>a\<close>, is to run again.
\<close>

definition upstream_utility :: DirectedGraph where
  "upstream_utility = (let a = sample_node 0 ''a''; m = sample_node 1 ''m''; b = sample_node 2 ''b''
     in sample_graph [a, m, b] [typed_edge AiLanguageModel m a, edge a b])"

lemma cleanRunData_upstream_utility:
  "(case cleanRunData [(''a'', []), (''m'', []), (''b'', [])] upstream_utility [sample_node 2 ''b''] of
      Inl e \<Rightarrow> False | Inr rd \<Rightarrow> js_keys rd = [''a''])"
  by code_simp

section \<open>Witnesses\<close>

definition looping_graph :: DirectedGraph where
  "looping_graph = (let t = sample_node 0 ''t''; a = sample_node 1 ''a''; b = sample_node 2 ''b''
     in sample_graph [t, a, b] [edge t a, edge a b, edge b a])"

lemma looping_edges:
  "(sample_node 0 ''t'', sample_node 1 ''a'') \<in> g_edges looping_graph"
  "(sample_node 1 ''a'', sample_node 2 ''b'') \<in> g_edges looping_graph"
proof -
  have ex: "(a, b) \<in> g_edges g" if "list_ex (\<lambda>c. gc_from c = a \<and> gc_to c = b) (js_values (g_connections g))" for g a b
    using that by (auto simp: g_edges_def list_ex_iff)
  show "(sample_node 0 ''t'', sample_node 1 ''a'') \<in> g_edges looping_graph"
    "(sample_node 1 ''a'', sample_node 2 ''b'') \<in> g_edges looping_graph" by (rule ex; code_simp)+
qed

lemma handleCycles_first_of_cycle_witness:
  "handleCycles looping_graph [sample_node 2 ''b''] (sample_node 0 ''t'') = Inr [sample_node 1 ''a''] \<and>
     represents looping_graph [sample_node 1 ''a''] [sample_node 2 ''b'']"
proof -
  have hyps: "wf_graph looping_graph" "in_graph looping_graph (sample_node 0 ''t'')" by code_simp+
  have reach: "s \<in> set [sample_node 2 ''b''] \<Longrightarrow> (sample_node 0 ''t'', s) \<in> (g_edges looping_graph)\<^sup>*" for s
    using looping_edges by (auto intro: rtrancl_trans)
  have run: "handleCycles looping_graph [sample_node 2 ''b''] (sample_node 0 ''t'') = Inr [sample_node 1 ''a'']" by code_simp
  from handleCycles_first_of_cycle[OF hyps _ reach, of "[sample_node 2 ''b'']"] obtain new where
    "handleCycles looping_graph [sample_node 2 ''b''] (sample_node 0 ''t'') = Inr new" "represents looping_graph new [sample_node 2 ''b'']"
    by auto
  with run show ?thesis by simp
qed

lemma cleanRunData_exact_witness:
  "\<exists>rd. cleanRunData [(''t'', []), (''a'', []), (''z'', [])] looping_graph [sample_node 1 ''a''] = Inr rd \<and>
     (''a'', []) \<notin> set rd \<and> (''z'', []) \<notin> set rd"
proof -
  have hyps: "wf_graph looping_graph" "in_graph looping_graph (sample_node 1 ''a'')" by code_simp+
  have z: "\<not> hasNode looping_graph ''z''" by code_simp
  have a: "''a'' = node_name (sample_node 1 ''a'')" by code_simp
  from cleanRunData_exact[OF hyps(1), of "[sample_node 1 ''a'']"] hyps(2) z a show ?thesis by fastforce
qed

end
