(* ===== verification/SourceGroups.thy ===== *)
theory SourceGroups
  imports Cycles
begin

text \<open>
  \<open>getSourceDataGroups\<close> (\<^verbatim>\<open>get-source-data-groups.ts\<close>): the incoming connections of a node are
  dealt out into groups with one connection per input. \<open>localeCompare\<close> is an argument; the loop
  ends because every group but the first iteration after a group takes a connection away.
\<close>

section \<open>The operation\<close>

record SourceConnectionGroup =
  complete :: bool
  group_connections :: "GraphConnection list"

definition newGroup :: SourceConnectionGroup where
  "newGroup = \<lparr>complete = True, group_connections = []\<rparr>"

definition sortByInputIndexThenByName ::
    "(string \<Rightarrow> string \<Rightarrow> int) \<Rightarrow> GraphConnection \<Rightarrow> GraphConnection \<Rightarrow> int" where
  "sortByInputIndexThenByName localeCompare c1 c2 =
     (if gc_inputIndex c1 = gc_inputIndex c2
      then localeCompare (node_name (gc_from c1)) (node_name (gc_from c2))
      else int (gc_inputIndex c1) - int (gc_inputIndex c2))"

definition hasData :: "IRunData \<Rightarrow> IPinData \<Rightarrow> GraphConnection \<Rightarrow> bool" where
  "hasData rd pd c \<longleftrightarrow> map_of rd (node_name (gc_from c)) \<noteq> None \<or> map_of pd (node_name (gc_from c)) \<noteq> None"

text \<open>\<open>Math.min\<close> over both lists; only called when one of them has an element.\<close>

definition lowestInput :: "GraphConnection list \<Rightarrow> GraphConnection list \<Rightarrow> int" where
  "lowestInput withData withoutData =
     (case map (\<lambda>c. int (gc_inputIndex c)) (withData @ withoutData) of [] \<Rightarrow> 0 | i # is \<Rightarrow> fold min is i)"

definition at_input :: "int \<Rightarrow> GraphConnection \<Rightarrow> bool" where
  "at_input i c \<longleftrightarrow> int (gc_inputIndex c) = i"

definition push_connection :: "GraphConnection \<Rightarrow> SourceConnectionGroup \<Rightarrow> SourceConnectionGroup" where
  "push_connection c gr = gr\<lparr>group_connections := group_connections gr @ [c]\<rparr>"

lemma lowestInput_at:
  assumes "withData \<noteq> [] \<or> withoutData \<noteq> []"
  shows "\<exists>c \<in> set withData \<union> set withoutData. at_input (lowestInput withData withoutData) c"
proof -
  obtain i "is" where m: "map (\<lambda>c. int (gc_inputIndex c)) (withData @ withoutData) = i # is"
    using assms by (cases "map (\<lambda>c. int (gc_inputIndex c)) (withData @ withoutData)") auto
  have "fold min is i \<in> set (i # is)"
  proof (induction "is" arbitrary: i)
    case (Cons j js)
    have "fold min js (min j i) \<in> set (min j i # js)" by (rule Cons)
    moreover have "min j i = j \<or> min j i = i" by linarith
    ultimately show ?case by auto
  qed simp
  then have "lowestInput withData withoutData \<in> set (map (\<lambda>c. int (gc_inputIndex c)) (withData @ withoutData))"
    unfolding lowestInput_def m by simp
  then show ?thesis by (auto simp: at_input_def)
qed

function groupLoop ::
    "GraphConnection list \<Rightarrow> GraphConnection list \<Rightarrow> SourceConnectionGroup \<Rightarrow> int \<Rightarrow>
      SourceConnectionGroup list \<Rightarrow> SourceConnectionGroup list" where
  "groupLoop withData withoutData currentGroup currentInputIndex groups =
     (if withData = [] \<and> withoutData = [] then groups @ [currentGroup]
      else case findIndex (at_input (currentInputIndex + 1)) withData of
        Some i \<Rightarrow> groupLoop (splice1 i withData) withoutData (push_connection (withData ! i) currentGroup)
                    (currentInputIndex + 1) groups
      | None \<Rightarrow> (case findIndex (at_input (currentInputIndex + 1)) withoutData of
          Some i \<Rightarrow> groupLoop withData (splice1 i withoutData)
                      ((push_connection (withoutData ! i) currentGroup)\<lparr>complete := False\<rparr>)
                      (currentInputIndex + 1) groups
        | None \<Rightarrow> groupLoop withData withoutData newGroup (lowestInput withData withoutData - 1)
                    (groups @ [currentGroup])))"
  by pat_completeness auto

termination
proof (relation "measure (\<lambda>(w, wo, gr, i, gs). 2 * (length w + length wo) + (if i = lowestInput w wo - 1 then 0 else 1))")
  fix w wo :: "GraphConnection list" and gr i gs
  assume ne: "\<not> (w = [] \<and> wo = [])" and none: "findIndex (at_input (i + 1)) w = None"
    "findIndex (at_input (i + 1)) wo = None"
  have "i \<noteq> lowestInput w wo - 1"
    using lowestInput_at[of w wo] ne none by auto
  then show "((w, wo, newGroup, lowestInput w wo - 1, gs @ [gr]), w, wo, gr, i, gs) \<in>
      measure (\<lambda>(w, wo, gr, i, gs). 2 * (length w + length wo) + (if i = lowestInput w wo - 1 then 0 else 1))"
    by simp
next
  fix w wo :: "GraphConnection list" and gr i gs x
  assume "findIndex (at_input (i + 1)) w = Some x"
  then have "Suc (length (splice1 x w)) = length w" using findIndex_SomeD[of _ w x] splice1_length[of x w] by fastforce
  then show "((splice1 x w, wo, push_connection (w ! x) gr, i + 1, gs), w, wo, gr, i, gs) \<in>
      measure (\<lambda>(w, wo, gr, i, gs). 2 * (length w + length wo) + (if i = lowestInput w wo - 1 then 0 else 1))"
    by simp
next
  fix w wo :: "GraphConnection list" and gr i gs x
  assume "findIndex (at_input (i + 1)) wo = Some x"
  then have "Suc (length (splice1 x wo)) = length wo" using findIndex_SomeD[of _ wo x] splice1_length[of x wo] by fastforce
  then show "((w, splice1 x wo, (push_connection (wo ! x) gr)\<lparr>complete := False\<rparr>, i + 1, gs), w, wo, gr, i, gs) \<in>
      measure (\<lambda>(w, wo, gr, i, gs). 2 * (length w + length wo) + (if i = lowestInput w wo - 1 then 0 else 1))"
    by simp
qed simp

declare groupLoop.simps [simp del]

definition getSourceDataGroups ::
    "(string \<Rightarrow> string \<Rightarrow> int) \<Rightarrow> DirectedGraph \<Rightarrow> INode \<Rightarrow> IRunData \<Rightarrow> IPinData \<Rightarrow> SourceConnectionGroup list" where
  "getSourceDataGroups localeCompare g n rd pd =
     (let connections = getConnections g (Some n);
          withData = filter (hasData rd pd) connections;
          withoutData = filter (\<lambda>c. \<not> hasData rd pd c \<and> gc_type c = MainConn) connections
      in if withData = [] \<and> withoutData = [] then []
         else let withData = js_sort (sortByInputIndexThenByName localeCompare) withData;
                  withoutData = js_sort (sortByInputIndexThenByName localeCompare) withoutData
              in groupLoop withData withoutData newGroup (lowestInput withData withoutData - 1) [])"

section \<open>The groups\<close>

text \<open>The inputs of a group follow each other, and it is complete when all its sources have data.\<close>

definition consecutive :: "GraphConnection list \<Rightarrow> int \<Rightarrow> bool" where
  "consecutive cs i \<longleftrightarrow> (\<forall>k < length cs. int (gc_inputIndex (cs ! k)) = i - int (length cs) + 1 + int k)"

definition group_ok :: "(GraphConnection \<Rightarrow> bool) \<Rightarrow> SourceConnectionGroup \<Rightarrow> bool" where
  "group_ok has gr \<longleftrightarrow> group_connections gr \<noteq> [] \<and> (\<exists>i. consecutive (group_connections gr) i) \<and>
     (complete gr \<longleftrightarrow> (\<forall>c \<in> set (group_connections gr). has c))"

definition group_mset :: "SourceConnectionGroup list \<Rightarrow> GraphConnection multiset" where
  "group_mset gs = mset (concat (map group_connections gs))"

lemma consecutive_push: "consecutive cs i \<Longrightarrow> at_input (i + 1) c \<Longrightarrow> consecutive (cs @ [c]) (i + 1)"
  by (auto simp: consecutive_def at_input_def nth_append less_Suc_eq)

lemma groupLoop_ok:
  "(\<And>gr. gr \<in> set gs \<Longrightarrow> group_ok has gr) \<Longrightarrow> (\<And>c. c \<in> set w \<Longrightarrow> has c) \<Longrightarrow> (\<And>c. c \<in> set wo \<Longrightarrow> \<not> has c) \<Longrightarrow>
     consecutive (group_connections gr) i \<Longrightarrow> (complete gr \<longleftrightarrow> (\<forall>c \<in> set (group_connections gr). has c)) \<Longrightarrow>
     (group_connections gr = [] \<Longrightarrow> (w \<noteq> [] \<or> wo \<noteq> []) \<and> i = lowestInput w wo - 1) \<Longrightarrow>
     (\<forall>gr' \<in> set (groupLoop w wo gr i gs). group_ok has gr') \<and>
     group_mset (groupLoop w wo gr i gs) = group_mset gs + mset (group_connections gr) + mset w + mset wo"
proof (induction w wo gr i gs rule: groupLoop.induct)
  case (1 w wo gr i gs)
  note gs = "1.prems"(1) and w = "1.prems"(2) and wo = "1.prems"(3) and con = "1.prems"(4)
    and compl = "1.prems"(5) and first = "1.prems"(6)
  show ?case
  proof (cases "w = [] \<and> wo = []")
    case True
    then have "groupLoop w wo gr i gs = gs @ [gr]" by (subst groupLoop.simps) simp
    moreover have "group_ok has gr" using True con compl first by (auto simp: group_ok_def)
    ultimately show ?thesis using gs True by (auto simp: group_mset_def)
  next
    case False
    show ?thesis
    proof (cases "findIndex (at_input (i + 1)) w")
      case (Some x)
      have x: "x < length w" "at_input (i + 1) (w ! x)" using findIndex_SomeD[OF Some] by simp_all
      have eq: "groupLoop w wo gr i gs = groupLoop (splice1 x w) wo (push_connection (w ! x) gr) (i + 1) gs"
        using False Some by (subst groupLoop.simps) auto
      have "(\<forall>gr' \<in> set (groupLoop (splice1 x w) wo (push_connection (w ! x) gr) (i + 1) gs). group_ok has gr') \<and>
          group_mset (groupLoop (splice1 x w) wo (push_connection (w ! x) gr) (i + 1) gs) =
            group_mset gs + mset (group_connections (push_connection (w ! x) gr)) + mset (splice1 x w) + mset wo"
        by (rule "1.IH"(3)[OF False Some])
          (use gs w wo compl x splice1_subset[of x w] consecutive_push[OF con x(2)] in
            \<open>auto simp: push_connection_def\<close>)
      then show ?thesis unfolding eq using splice1_mset[OF x(1)] by (simp add: push_connection_def)
    next
      case none: None
      show ?thesis
      proof (cases "findIndex (at_input (i + 1)) wo")
        case (Some x)
        have x: "x < length wo" "at_input (i + 1) (wo ! x)" using findIndex_SomeD[OF Some] by simp_all
        let ?gr = "(push_connection (wo ! x) gr)\<lparr>complete := False\<rparr>"
        have eq: "groupLoop w wo gr i gs = groupLoop w (splice1 x wo) ?gr (i + 1) gs"
          using False none Some by (subst groupLoop.simps) (auto simp del: findIndex_None)
        have "(\<forall>gr' \<in> set (groupLoop w (splice1 x wo) ?gr (i + 1) gs). group_ok has gr') \<and>
            group_mset (groupLoop w (splice1 x wo) ?gr (i + 1) gs) =
              group_mset gs + mset (group_connections ?gr) + mset w + mset (splice1 x wo)"
          by (rule "1.IH"(2)[OF False none Some])
            (use gs w wo x splice1_subset[of x wo] consecutive_push[OF con x(2)] in
              \<open>auto simp: push_connection_def\<close>)
        then show ?thesis unfolding eq using splice1_mset[OF x(1)] by (simp add: push_connection_def)
      next
        case None
        have eq: "groupLoop w wo gr i gs = groupLoop w wo newGroup (lowestInput w wo - 1) (gs @ [gr])"
          using False none None by (subst groupLoop.simps) (auto simp del: findIndex_None)
        have "group_connections gr \<noteq> []"
          using first lowestInput_at[of w wo] none None by auto
        then have "group_ok has gr" using con compl by (auto simp: group_ok_def)
        have "(\<forall>gr' \<in> set (groupLoop w wo newGroup (lowestInput w wo - 1) (gs @ [gr])). group_ok has gr') \<and>
            group_mset (groupLoop w wo newGroup (lowestInput w wo - 1) (gs @ [gr])) =
              group_mset (gs @ [gr]) + mset (group_connections newGroup) + mset w + mset wo"
          by (rule "1.IH"(1)[OF False none None])
            (use gs w wo \<open>group_ok has gr\<close> False in \<open>auto simp: newGroup_def consecutive_def\<close>)
        then show ?thesis unfolding eq by (simp add: group_mset_def newGroup_def)
      qed
    qed
  qed
qed

text \<open>
  The groups deal out all incoming connections that have data or are main connections; each
  group takes consecutive inputs and is complete when every source in it has data.
\<close>

lemma getSourceDataGroups_deal:
  "(\<forall>gr \<in> set (getSourceDataGroups lc g n rd pd). group_ok (hasData rd pd) gr) \<and>
   group_mset (getSourceDataGroups lc g n rd pd) =
     mset (filter (\<lambda>c. gc_to c = n \<and> (hasData rd pd c \<or> gc_type c = MainConn)) (js_values (g_connections g)))"
proof -
  define cs where "cs = filter (\<lambda>c. gc_to c = n) (js_values (g_connections g))"
  define w wo where "w = filter (hasData rd pd) cs" and "wo = filter (\<lambda>c. \<not> hasData rd pd c \<and> gc_type c = MainConn) cs"
  have all: "mset w + mset wo = mset (filter (\<lambda>c. hasData rd pd c \<or> gc_type c = MainConn) cs)"
    unfolding w_def wo_def by (induction cs) auto
  have cs: "filter (\<lambda>c. gc_to c = n \<and> (hasData rd pd c \<or> gc_type c = MainConn)) (js_values (g_connections g)) =
      filter (\<lambda>c. hasData rd pd c \<or> gc_type c = MainConn) cs"
    by (simp add: cs_def conj_commute)
  have conns: "getConnections g (Some n) = cs" by (simp add: getConnections_def cs_def)
  show ?thesis
  proof (cases "w = [] \<and> wo = []")
    case True
    then have "getSourceDataGroups lc g n rd pd = []"
      by (simp add: getSourceDataGroups_def conns w_def wo_def)
    with True all show ?thesis by (simp add: cs group_mset_def)
  next
    case False
    let ?w = "js_sort (sortByInputIndexThenByName lc) w" and ?wo = "js_sort (sortByInputIndexThenByName lc) wo"
    have eq: "getSourceDataGroups lc g n rd pd = groupLoop ?w ?wo newGroup (lowestInput ?w ?wo - 1) []"
      using False unfolding getSourceDataGroups_def conns Let_def w_def wo_def by auto
    have "?w \<noteq> [] \<or> ?wo \<noteq> []" using False by (metis js_sort_length length_0_conv)
    then have "(\<forall>gr \<in> set (groupLoop ?w ?wo newGroup (lowestInput ?w ?wo - 1) []). group_ok (hasData rd pd) gr) \<and>
        group_mset (groupLoop ?w ?wo newGroup (lowestInput ?w ?wo - 1) []) =
          group_mset [] + mset (group_connections newGroup) + mset ?w + mset ?wo"
      by (intro groupLoop_ok) (auto simp: w_def wo_def newGroup_def consecutive_def)
    then show ?thesis unfolding eq cs using all by (simp add: group_mset_def newGroup_def)
  qed
qed

text \<open>
  Inputs 0 and 2 have data, input 1 is not connected: the gap ends the group, so the node gets
  two complete groups with one input each.
\<close>

definition gap_graph :: DirectedGraph where
  "gap_graph = (let a = sample_node 0 ''a''; b = sample_node 1 ''b''; n = sample_node 2 ''n''
     in sample_graph [a, b, n] [edge a n, (edge b n)\<lparr>ci_inputIndex := Some 2\<rparr>])"

lemma getSourceDataGroups_gap:
  "map (\<lambda>gr. (complete gr, map gc_inputIndex (group_connections gr)))
     (getSourceDataGroups (\<lambda>_ _. 0) gap_graph (sample_node 2 ''n'') [(''a'', []), (''b'', [])] []) =
   [(True, [0]), (True, [2])]"
  by code_simp

section \<open>Property\<close>

text \<open>
  C27: The groups deal out all incoming connections that have data or are main connections; each
  group takes consecutive inputs and is complete when every source in it has data.
\<close>

theorem getSourceDataGroups_exact:
  "(\<forall>gr \<in> set (getSourceDataGroups lc g n rd pd). group_ok (hasData rd pd) gr) \<and>
   group_mset (getSourceDataGroups lc g n rd pd) =
     mset (filter (\<lambda>c. gc_to c = n \<and> (hasData rd pd c \<or> gc_type c = MainConn)) (js_values (g_connections g)))"
  by (rule getSourceDataGroups_deal)

lemma getSourceDataGroups_exact_witness:
  "\<exists>gr1 gr2. getSourceDataGroups (\<lambda>_ _. 0) gap_graph (sample_node 2 ''n'') [(''a'', []), (''b'', [])] [] = [gr1, gr2] \<and>
     group_ok (hasData [(''a'', []), (''b'', [])] []) gr1 \<and> group_ok (hasData [(''a'', []), (''b'', [])] []) gr2"
proof -
  let ?gs = "getSourceDataGroups (\<lambda>_ _. 0) gap_graph (sample_node 2 ''n'') [(''a'', []), (''b'', [])] []"
  have "length ?gs = Suc (Suc 0)" by code_simp
  then obtain gr1 gr2 where "?gs = [gr1, gr2]" by (auto simp: length_Suc_conv)
  with getSourceDataGroups_exact[of "\<lambda>_ _. 0" gap_graph "sample_node 2 ''n''" "[(''a'', []), (''b'', [])]" "[]"]
  show ?thesis by auto
qed

end
