(* ===== verification/ExecutionStack.thy ===== *)
theory ExecutionStack
  imports SourceGroups
begin

text \<open>
  \<open>recreateNodeExecutionStack\<close>, \<open>addWaitingExecution\<close> and \<open>addWaitingExecutionSource\<close>
  (\<^verbatim>\<open>recreate-node-execution-stack.ts\<close>) and \<open>getNextExecutionIndex\<close> (\<^verbatim>\<open>run-data-utils.ts\<close>): from the
  start nodes and the run data, the stack of nodes to execute and the nodes that wait for input.
\<close>

section \<open>Waiting executions\<close>

text \<open>
  Both waiting tables are maps from node name, run index and connection type to an array. The
  code updates the nested objects in place, creating them when absent.
\<close>

type_synonym 'a waiting = "(string, (nat, (NodeConnectionType, 'a option list) js_map) js_map) js_map"

definition put_waiting ::
    "'a waiting \<Rightarrow> string \<Rightarrow> nat \<Rightarrow> NodeConnectionType \<Rightarrow> nat \<Rightarrow> 'a option \<Rightarrow> 'a waiting" where
  "put_waiting waiting nodeName runIndex inputType inputIndex x =
     (let waitingObject = or_else (map_of waiting nodeName) [];
          taskDataConnections = or_else (map_of waitingObject runIndex) [];
          dataList = array_put inputIndex x (or_else (map_of taskDataConnections inputType) [])
      in js_put nodeName (js_put runIndex (js_put inputType dataList taskDataConnections) waitingObject) waiting)"

definition addWaitingExecution ::
    "IWaitingForExecution \<Rightarrow> string \<Rightarrow> nat \<Rightarrow> NodeConnectionType \<Rightarrow> nat \<Rightarrow> INodeExecutionData list option \<Rightarrow>
      IWaitingForExecution" where
  "addWaitingExecution waitingExecution nodeName runIndex inputType inputIndex executionData =
     put_waiting waitingExecution nodeName runIndex inputType inputIndex executionData"

definition addWaitingExecutionSource ::
    "IWaitingForExecutionSource \<Rightarrow> string \<Rightarrow> nat \<Rightarrow> NodeConnectionType \<Rightarrow> nat \<Rightarrow> ISourceData option \<Rightarrow>
      IWaitingForExecutionSource" where
  "addWaitingExecutionSource waitingSource nodeName runIndex inputType inputIndex sourceData =
     put_waiting waitingSource nodeName runIndex inputType inputIndex sourceData"

definition get_waiting :: "'a waiting \<Rightarrow> string \<Rightarrow> nat \<Rightarrow> NodeConnectionType \<Rightarrow> nat \<Rightarrow> 'a option" where
  "get_waiting waiting nm ri ty i =
     array_get (or_else (map_of (or_else (map_of (or_else (map_of waiting nm) []) ri) []) ty) []) i"

lemma or_else_simps [simp]: "or_else None d = d" "or_else (Some x) d = x"
  by (simp_all add: or_else_def)

lemma get_put_waiting [simp]:
  "get_waiting (put_waiting w nm ri ty i x) nm' ri' ty' i' =
     (if nm' = nm \<and> ri' = ri \<and> ty' = ty \<and> i' = i then x else get_waiting w nm' ri' ty' i')"
  by (simp add: get_waiting_def put_waiting_def Let_def)

lemma get_waiting_nil [simp]: "get_waiting [] nm ri ty i = None"
  by (simp add: get_waiting_def array_get_def)

section \<open>The stack\<close>

record StackState =
  nodeExecutionStack :: "IExecuteData list"
  waitingExecution :: IWaitingForExecution
  waitingExecutionSource :: IWaitingForExecutionSource

definition source_of :: "GraphConnection \<Rightarrow> nat \<Rightarrow> ISourceData" where
  "source_of c runIndex =
     \<lparr>previousNode = node_name (gc_from c), previousNodeOutput = Some (gc_outputIndex c),
      previousNodeRun = Some runIndex\<rparr>"

definition execute_data ::
    "INode \<Rightarrow> INodeExecutionData list list \<Rightarrow> ITaskDataConnectionsSource option \<Rightarrow> IExecuteData" where
  "execute_data n incomingData src =
     \<lparr>exec_data = [(MainConn, map Some incomingData)], exec_metadata = None, exec_node = n, exec_source = src\<rparr>"

text \<open>One connection of a complete group: its data, if it has any, and always its source.\<close>

definition collect_incoming ::
    "IRunData \<Rightarrow> IPinData \<Rightarrow> GraphConnection \<Rightarrow> INodeExecutionData list list \<times> ISourceData list \<Rightarrow>
      (INodeExecutionData list list \<times> ISourceData list) result" where
  "collect_incoming rd pd c = (\<lambda>(incomingData, sources).
     case map_of pd (node_name (gc_from c)) of
       Some items \<Rightarrow> Inr (incomingData @ [items], sources @ [source_of c 0])
     | None \<Rightarrow>
         rbind (assert_ok (map_of rd (node_name (gc_from c)) \<noteq> None)) (\<lambda>_.
         rbind (getIncomingDataFromAnyRun rd (node_name (gc_from c)) (gc_type c) (gc_outputIndex c)) (\<lambda>d.
         Inr (case d of
           Some (items, runIndex) \<Rightarrow> (incomingData @ [items], sources @ [source_of c runIndex])
         | None \<Rightarrow> (incomingData, sources @ [source_of c 0])))))"

definition add_complete ::
    "IRunData \<Rightarrow> IPinData \<Rightarrow> INode \<Rightarrow> GraphConnection list \<Rightarrow> StackState \<Rightarrow> StackState result" where
  "add_complete rd pd startNode cs st =
     rbind (rfold (collect_incoming rd pd) cs ([], [])) (\<lambda>(incomingData, sources).
       Inr (st\<lparr>nodeExecutionStack := nodeExecutionStack st @
         [execute_data startNode incomingData (Some [(MainConn, map Some sources)])]\<rparr>))"

definition add_waiting :: "IRunData \<Rightarrow> string \<Rightarrow> nat \<Rightarrow> GraphConnection \<Rightarrow> StackState \<Rightarrow> StackState result" where
  "add_waiting rd nodeName nextRunIndex c st =
     rbind (getIncomingDataFromAnyRun rd (node_name (gc_from c)) (gc_type c) (gc_outputIndex c)) (\<lambda>d.
       case d of
         None \<Rightarrow> Inr st
       | Some (items, _) \<Rightarrow> Inr (st
           \<lparr>waitingExecution := addWaitingExecution (waitingExecution st) nodeName nextRunIndex (gc_type c)
              (gc_inputIndex c) (Some items),
            waitingExecutionSource := addWaitingExecutionSource (waitingExecutionSource st) nodeName nextRunIndex
              (gc_type c) (gc_inputIndex c) (Some (source_of c nextRunIndex))\<rparr>))"

definition add_group ::
    "IRunData \<Rightarrow> IPinData \<Rightarrow> INode \<Rightarrow> SourceConnectionGroup \<Rightarrow> StackState \<Rightarrow> StackState result" where
  "add_group rd pd startNode gr st =
     (if complete gr then add_complete rd pd startNode (group_connections gr) st
      else
        let nextRunIndex = (case map_of (waitingExecution st) (node_name startNode) of
              None \<Rightarrow> 0 | Some w \<Rightarrow> length w)
        in rfold (add_waiting rd (node_name startNode) nextRunIndex) (group_connections gr) st)"

definition add_start_node ::
    "(string \<Rightarrow> string \<Rightarrow> int) \<Rightarrow> DirectedGraph \<Rightarrow> IRunData \<Rightarrow> IPinData \<Rightarrow> INode \<Rightarrow> StackState \<Rightarrow> StackState result" where
  "add_start_node localeCompare g rd pd startNode st =
     rbind (getDirectParentConnections g startNode) (\<lambda>parents.
       if filter (\<lambda>c. gc_type c = MainConn) parents = []
       then Inr (st\<lparr>nodeExecutionStack := nodeExecutionStack st @ [execute_data startNode [[empty_item]] None]\<rparr>)
       else rfold (add_group rd pd startNode) (getSourceDataGroups localeCompare g startNode rd pd) st)"

definition recreateNodeExecutionStack ::
    "(string \<Rightarrow> string \<Rightarrow> int) \<Rightarrow> DirectedGraph \<Rightarrow> INode list \<Rightarrow> IRunData \<Rightarrow> IPinData \<Rightarrow> StackState result" where
  "recreateNodeExecutionStack localeCompare g startNodes rd pd =
     rbind (rfold (\<lambda>n _. assert_ok (\<not> is_disabled n)) (js_values (g_nodes g)) ()) (\<lambda>_.
       rfold (add_start_node localeCompare g rd pd) startNodes
         \<lparr>nodeExecutionStack = [], waitingExecution = [], waitingExecutionSource = []\<rparr>)"

definition getNextExecutionIndex :: "IRunData \<Rightarrow> nat" where
  "getNextExecutionIndex runData =
     (if js_keys runData = [] then 0
      else let previousIndices = List.map_filter executionIndex (concat (js_values runData))
           in if length previousIndices = 0 then 0
              else fold max previousIndices 0 + 1)"

section \<open>What the stack is\<close>

text \<open>The items a connection brings: pinned data first, then the first run with items.\<close>

definition conn_input :: "IRunData \<Rightarrow> IPinData \<Rightarrow> GraphConnection \<Rightarrow> (INodeExecutionData list \<times> nat) option" where
  "conn_input rd pd c =
     (case map_of pd (node_name (gc_from c)) of
        Some items \<Rightarrow> Some (items, 0)
      | None \<Rightarrow> map_option (\<lambda>ri. (the (run_items (runs_of rd (node_name (gc_from c)) ! ri) (gc_type c) (gc_outputIndex c)), ri))
          (first_run rd (node_name (gc_from c)) (gc_type c) (gc_outputIndex c)))"

definition entry_of :: "IRunData \<Rightarrow> IPinData \<Rightarrow> INode \<Rightarrow> GraphConnection list \<Rightarrow> IExecuteData" where
  "entry_of rd pd n cs =
     execute_data n (map fst (List.map_filter (conn_input rd pd) cs))
       (Some [(MainConn, map (\<lambda>c. Some (source_of c (case conn_input rd pd c of None \<Rightarrow> 0 | Some (_, ri) \<Rightarrow> ri))) cs)])"

definition start_entries ::
    "(string \<Rightarrow> string \<Rightarrow> int) \<Rightarrow> DirectedGraph \<Rightarrow> IRunData \<Rightarrow> IPinData \<Rightarrow> INode \<Rightarrow> IExecuteData list" where
  "start_entries lc g rd pd n =
     (if \<exists>c \<in> graph_conns g. gc_to c = n \<and> gc_type c = MainConn
      then map (\<lambda>gr. entry_of rd pd n (group_connections gr)) (filter complete (getSourceDataGroups lc g n rd pd))
      else [execute_data n [[empty_item]] None])"

text \<open>
  An incomplete group whose connections bring no items leaves no trace; the others are numbered for each
  start node. In a waiting entry the last connection to an input counts.
\<close>

definition conn_items :: "IRunData \<Rightarrow> GraphConnection \<Rightarrow> INodeExecutionData list option" where
  "conn_items rd c = map_option (\<lambda>ri. the (run_items (runs_of rd (node_name (gc_from c)) ! ri) (gc_type c) (gc_outputIndex c)))
     (first_run rd (node_name (gc_from c)) (gc_type c) (gc_outputIndex c))"

definition waiting_groups ::
    "(string \<Rightarrow> string \<Rightarrow> int) \<Rightarrow> DirectedGraph \<Rightarrow> IRunData \<Rightarrow> IPinData \<Rightarrow> INode \<Rightarrow> SourceConnectionGroup list" where
  "waiting_groups lc g rd pd n =
     (if \<exists>c \<in> graph_conns g. gc_to c = n \<and> gc_type c = MainConn
      then filter (\<lambda>gr. \<not> complete gr \<and> (\<exists>c \<in> set (group_connections gr). conn_items rd c \<noteq> None)) (getSourceDataGroups lc g n rd pd)
      else [])"

definition conn_at :: "IRunData \<Rightarrow> GraphConnection list \<Rightarrow> NodeConnectionType \<Rightarrow> nat \<Rightarrow> GraphConnection option" where
  "conn_at rd cs ty i = List.find (\<lambda>c. gc_type c = ty \<and> gc_inputIndex c = i \<and> conn_items rd c \<noteq> None) (rev cs)"

definition group_conn_at :: "IRunData \<Rightarrow> SourceConnectionGroup list \<Rightarrow> nat \<Rightarrow> NodeConnectionType \<Rightarrow> nat \<Rightarrow> GraphConnection option" where
  "group_conn_at rd gs ri ty i = (if ri < length gs then conn_at rd (group_connections (gs ! ri)) ty i else None)"

definition waiting_conn ::
    "(string \<Rightarrow> string \<Rightarrow> int) \<Rightarrow> DirectedGraph \<Rightarrow> IRunData \<Rightarrow> IPinData \<Rightarrow> INode list \<Rightarrow>
      string \<Rightarrow> nat \<Rightarrow> NodeConnectionType \<Rightarrow> nat \<Rightarrow> GraphConnection option" where
  "waiting_conn lc g rd pd starts nm ri ty i = (case List.find (\<lambda>n. node_name n = nm) starts of
     None \<Rightarrow> None | Some n \<Rightarrow> group_conn_at rd (waiting_groups lc g rd pd n) ri ty i)"

text \<open>What the waiting tables hold, and the indexes they have for a node.\<close>

definition waiting_keys :: "'a waiting \<Rightarrow> string \<Rightarrow> nat list" where
  "waiting_keys w nm = js_keys (or_else (map_of w nm) [])"

definition waits_with :: "IRunData \<Rightarrow> (string \<Rightarrow> nat \<Rightarrow> NodeConnectionType \<Rightarrow> nat \<Rightarrow> GraphConnection option) \<Rightarrow> StackState \<Rightarrow> bool" where
  "waits_with rd f st \<longleftrightarrow> (\<forall>nm ri ty i.
     get_waiting (waitingExecution st) nm ri ty i = Option.bind (f nm ri ty i) (conn_items rd) \<and>
     get_waiting (waitingExecutionSource st) nm ri ty i = map_option (\<lambda>c. source_of c ri) (f nm ri ty i))"

lemma first_run_SomeD:
  assumes "first_run rd nm ty i = Some ri"
  shows "\<exists>items. run_items (runs_of rd nm ! ri) ty i = Some items \<and> items \<noteq> [] \<and> ri < length (runs_of rd nm)"
  using assms unfolding first_run_def find_Some_iff by auto

lemma collect_incoming_all:
  assumes "\<And>c. c \<in> set cs \<Longrightarrow> typed_runs rd (node_name (gc_from c)) (gc_type c) \<and> hasData rd pd c"
  shows "rfold (collect_incoming rd pd) cs (d, s) =
    Inr (d @ map fst (List.map_filter (conn_input rd pd) cs),
      s @ map (\<lambda>c. source_of c (case conn_input rd pd c of None \<Rightarrow> 0 | Some (_, ri) \<Rightarrow> ri)) cs)"
  using assms
proof (induction cs arbitrary: d s)
  case (Cons c cs)
  have "typed_runs rd (node_name (gc_from c)) (gc_type c)" "hasData rd pd c" using Cons.prems by auto
  note data = getIncomingDataFromAnyRun_first[OF this(1), of "gc_outputIndex c"]
  have "collect_incoming rd pd c (d, s) =
      Inr (d @ (case conn_input rd pd c of None \<Rightarrow> [] | Some (items, _) \<Rightarrow> [items]),
        s @ [source_of c (case conn_input rd pd c of None \<Rightarrow> 0 | Some (_, ri) \<Rightarrow> ri)])"
    using \<open>hasData rd pd c\<close>
    by (cases "map_of pd (node_name (gc_from c))"; cases "first_run rd (node_name (gc_from c)) (gc_type c) (gc_outputIndex c)")
      (auto simp: collect_incoming_def conn_input_def data hasData_def)
  with Cons show ?case by (cases "conn_input rd pd c") (auto simp: map_filter_simps)
qed (simp add: map_filter_simps)

lemma waiting_keys_put:
  "waiting_keys (put_waiting w nm ri ty i x) nm' =
     (if nm' = nm \<and> ri \<notin> set (waiting_keys w nm) then waiting_keys w nm @ [ri] else waiting_keys w nm')"
proof -
  have keys: "js_keys (js_put k v m) = (if k \<in> set (js_keys m) then js_keys m else js_keys m @ [k])"
    for k :: nat and v and m :: "(nat, (NodeConnectionType, 'a option list) js_map) js_map"
    by (induction m) (auto simp: js_keys_def)
  show ?thesis by (auto simp: waiting_keys_def put_waiting_def Let_def keys)
qed

lemma conn_at_snoc:
  "conn_at rd (cs @ [c]) ty i = (if gc_type c = ty \<and> gc_inputIndex c = i \<and> conn_items rd c \<noteq> None then Some c else conn_at rd cs ty i)"
  by (cases "conn_items rd c") (simp_all add: conn_at_def)

text \<open>Adding the connections of a group under an index that is not used for another node.\<close>

lemma add_waiting_all:
  assumes typed: "\<And>c. c \<in> set cs \<Longrightarrow> typed_runs rd (node_name (gc_from c)) (gc_type c)"
    and start: "waits_with rd f st" "\<And>ty i. f nm ri ty i = None" "ri \<notin> set (waiting_keys (waitingExecution st) nm)"
  shows "\<exists>st'. rfold (add_waiting rd nm ri) cs st = Inr st' \<and> nodeExecutionStack st' = nodeExecutionStack st \<and>
    waits_with rd (\<lambda>nm' ri' ty i. if nm' = nm \<and> ri' = ri then conn_at rd cs ty i else f nm' ri' ty i) st' \<and>
    (\<forall>nm'. waiting_keys (waitingExecution st') nm' = (if nm' = nm \<and> (\<exists>c \<in> set cs. conn_items rd c \<noteq> None)
      then waiting_keys (waitingExecution st) nm @ [ri] else waiting_keys (waitingExecution st) nm'))"
proof (rule rfold_total_prefix[where P = "\<lambda>cs st'. nodeExecutionStack st' = nodeExecutionStack st \<and>
    waits_with rd (\<lambda>nm' ri' ty i. if nm' = nm \<and> ri' = ri then conn_at rd cs ty i else f nm' ri' ty i) st' \<and>
    (\<forall>nm'. waiting_keys (waitingExecution st') nm' = (if nm' = nm \<and> (\<exists>c \<in> set cs. conn_items rd c \<noteq> None)
      then waiting_keys (waitingExecution st) nm @ [ri] else waiting_keys (waitingExecution st) nm'))"])
  have "(\<lambda>nm' ri' ty i. if nm' = nm \<and> ri' = ri then conn_at rd [] ty i else f nm' ri' ty i) = f"
    using start(2) by (auto simp: conn_at_def fun_eq_iff)
  then show "nodeExecutionStack st = nodeExecutionStack st \<and>
      waits_with rd (\<lambda>nm' ri' ty i. if nm' = nm \<and> ri' = ri then conn_at rd [] ty i else f nm' ri' ty i) st \<and>
      (\<forall>nm'. waiting_keys (waitingExecution st) nm' = (if nm' = nm \<and> (\<exists>c \<in> set []. conn_items rd c \<noteq> None)
        then waiting_keys (waitingExecution st) nm @ [ri] else waiting_keys (waitingExecution st) nm'))"
    using start(1) by simp
next
  fix pre c rest and s :: StackState
  assume split: "cs = pre @ c # rest" and s: "nodeExecutionStack s = nodeExecutionStack st \<and>
    waits_with rd (\<lambda>nm' ri' ty i. if nm' = nm \<and> ri' = ri then conn_at rd pre ty i else f nm' ri' ty i) s \<and>
    (\<forall>nm'. waiting_keys (waitingExecution s) nm' = (if nm' = nm \<and> (\<exists>c \<in> set pre. conn_items rd c \<noteq> None)
      then waiting_keys (waitingExecution st) nm @ [ri] else waiting_keys (waitingExecution st) nm'))"
  have "typed_runs rd (node_name (gc_from c)) (gc_type c)" using typed split by simp
  note data = getIncomingDataFromAnyRun_first[OF this, of "gc_outputIndex c"]
  show "\<exists>s'. add_waiting rd nm ri c s = Inr s' \<and> (nodeExecutionStack s' = nodeExecutionStack st \<and>
    waits_with rd (\<lambda>nm' ri' ty i. if nm' = nm \<and> ri' = ri then conn_at rd (pre @ [c]) ty i else f nm' ri' ty i) s' \<and>
    (\<forall>nm'. waiting_keys (waitingExecution s') nm' = (if nm' = nm \<and> (\<exists>c \<in> set (pre @ [c]). conn_items rd c \<noteq> None)
      then waiting_keys (waitingExecution st) nm @ [ri] else waiting_keys (waitingExecution st) nm')))"
  proof (cases "first_run rd (node_name (gc_from c)) (gc_type c) (gc_outputIndex c)")
    case None
    then have none: "conn_items rd c = None" by (simp add: conn_items_def)
    have "(\<lambda>nm' ri' ty i. if nm' = nm \<and> ri' = ri then conn_at rd (pre @ [c]) ty i else f nm' ri' ty i) =
        (\<lambda>nm' ri' ty i. if nm' = nm \<and> ri' = ri then conn_at rd pre ty i else f nm' ri' ty i)" by (simp add: conn_at_snoc none fun_eq_iff)
    then show ?thesis using s none None by (simp add: add_waiting_def data)
  next
    case (Some k)
    obtain items where items: "run_items (runs_of rd (node_name (gc_from c)) ! k) (gc_type c) (gc_outputIndex c) = Some items"
      using first_run_SomeD[OF Some] by blast
    then have some: "conn_items rd c = Some items" by (simp add: conn_items_def Some)
    let ?s = "s\<lparr>waitingExecution := put_waiting (waitingExecution s) nm ri (gc_type c) (gc_inputIndex c) (Some items),
      waitingExecutionSource := put_waiting (waitingExecutionSource s) nm ri (gc_type c) (gc_inputIndex c) (Some (source_of c ri))\<rparr>"
    have "add_waiting rd nm ri c s = Inr ?s"
      by (simp add: add_waiting_def data Some items addWaitingExecution_def addWaitingExecutionSource_def)
    moreover have "waits_with rd (\<lambda>nm' ri' ty i. if nm' = nm \<and> ri' = ri then conn_at rd (pre @ [c]) ty i else f nm' ri' ty i) ?s"
      using s unfolding waits_with_def by (auto simp: conn_at_snoc some)
    moreover have "waiting_keys (waitingExecution ?s) nm' = (if nm' = nm then waiting_keys (waitingExecution st) nm @ [ri]
        else waiting_keys (waitingExecution st) nm')" for nm'
      using s start(3) by (simp add: waiting_keys_put)
    ultimately show ?thesis using s some by auto
  qed
qed

lemma group_connections_in:
  assumes "gr \<in> set (getSourceDataGroups lc g n rd pd)" "c \<in> set (group_connections gr)"
  shows "c \<in> graph_conns g" "gc_to c = n" "complete gr \<Longrightarrow> hasData rd pd c"
proof -
  let ?gs = "getSourceDataGroups lc g n rd pd"
  have "c \<in># group_mset ?gs" using assms by (auto simp: group_mset_def)
  then show "c \<in> graph_conns g" "gc_to c = n" using getSourceDataGroups_deal[of lc g n rd pd] by auto
  show "complete gr \<Longrightarrow> hasData rd pd c"
    using assms getSourceDataGroups_deal[of lc g n rd pd] by (auto simp: group_ok_def)
qed

text \<open>The groups of one start node, one after the other.\<close>

definition added_waits :: "(string \<Rightarrow> nat \<Rightarrow> NodeConnectionType \<Rightarrow> nat \<Rightarrow> GraphConnection option) \<Rightarrow> IRunData \<Rightarrow> string \<Rightarrow>
    SourceConnectionGroup list \<Rightarrow> string \<Rightarrow> nat \<Rightarrow> NodeConnectionType \<Rightarrow> nat \<Rightarrow> GraphConnection option" where
  "added_waits f rd nm gs nm' ri ty i = (if nm' = nm then group_conn_at rd gs ri ty i else f nm' ri ty i)"

definition waiting_added :: "(string \<Rightarrow> nat \<Rightarrow> NodeConnectionType \<Rightarrow> nat \<Rightarrow> GraphConnection option) \<Rightarrow> IRunData \<Rightarrow> string \<Rightarrow>
    SourceConnectionGroup list \<Rightarrow> StackState \<Rightarrow> StackState \<Rightarrow> bool" where
  "waiting_added f rd nm gs st st' \<longleftrightarrow> waits_with rd (added_waits f rd nm gs) st' \<and>
     (\<forall>nm'. waiting_keys (waitingExecution st') nm' = (if nm' = nm then [0..<length gs] else waiting_keys (waitingExecution st) nm'))"

lemma add_group_step:
  assumes typed: "run_data_typed g rd" and gr: "gr \<in> set (getSourceDataGroups lc g n rd pd)"
    and ok: "waiting_added f rd (node_name n) gs st s"
  shows "\<exists>s'. add_group rd pd n gr s = Inr s' \<and>
    waiting_added f rd (node_name n) (gs @ (if \<not> complete gr \<and> (\<exists>c \<in> set (group_connections gr). conn_items rd c \<noteq> None) then [gr] else [])) st s' \<and>
    nodeExecutionStack s' = nodeExecutionStack s @ (if complete gr then [entry_of rd pd n (group_connections gr)] else [])"
proof -
  have c: "typed_runs rd (node_name (gc_from c)) (gc_type c)" if "c \<in> set (group_connections gr)" for c
    using group_connections_in[OF gr that] typed by (auto simp: run_data_typed_def list_all_iff)
  show ?thesis
  proof (cases "complete gr")
    case True
    then have "rfold (collect_incoming rd pd) (group_connections gr) ([], []) =
        Inr ([] @ map fst (List.map_filter (conn_input rd pd) (group_connections gr)),
          [] @ map (\<lambda>c. source_of c (case conn_input rd pd c of None \<Rightarrow> 0 | Some (_, ri) \<Rightarrow> ri)) (group_connections gr))"
      using c group_connections_in(3)[OF gr] by (intro collect_incoming_all) blast
    with True ok show ?thesis
      by (simp add: add_group_def add_complete_def entry_of_def comp_def waiting_added_def waits_with_def)
  next
    case False
    let ?cs = "group_connections gr" let ?nm = "node_name n"
    have keys: "waiting_keys (waitingExecution s) ?nm = [0..<length gs]" using ok by (simp add: waiting_added_def)
    have "(case map_of (waitingExecution s) ?nm of None \<Rightarrow> 0 | Some w \<Rightarrow> length w) = length (waiting_keys (waitingExecution s) ?nm)"
      by (simp add: waiting_keys_def js_keys_def split: option.split)
    then have ri: "(case map_of (waitingExecution s) ?nm of None \<Rightarrow> 0 | Some w \<Rightarrow> length w) = length gs" by (simp add: keys)
    have "\<exists>s'. rfold (add_waiting rd ?nm (length gs)) ?cs s = Inr s' \<and> nodeExecutionStack s' = nodeExecutionStack s \<and>
        waits_with rd (\<lambda>nm' ri' ty i. if nm' = ?nm \<and> ri' = length gs then conn_at rd ?cs ty i else added_waits f rd ?nm gs nm' ri' ty i) s' \<and>
        (\<forall>nm'. waiting_keys (waitingExecution s') nm' = (if nm' = ?nm \<and> (\<exists>c \<in> set ?cs. conn_items rd c \<noteq> None)
          then waiting_keys (waitingExecution s) ?nm @ [length gs] else waiting_keys (waitingExecution s) nm'))"
    proof (rule add_waiting_all)
      show "waits_with rd (added_waits f rd ?nm gs) s" using ok by (simp add: waiting_added_def)
    qed (use c keys in \<open>simp_all add: added_waits_def group_conn_at_def\<close>)
    then obtain s' where s': "rfold (add_waiting rd ?nm (length gs)) ?cs s = Inr s'" "nodeExecutionStack s' = nodeExecutionStack s"
      "waits_with rd (\<lambda>nm' ri' ty i. if nm' = ?nm \<and> ri' = length gs then conn_at rd ?cs ty i else added_waits f rd ?nm gs nm' ri' ty i) s'"
      "\<forall>nm'. waiting_keys (waitingExecution s') nm' = (if nm' = ?nm \<and> (\<exists>c \<in> set ?cs. conn_items rd c \<noteq> None)
          then waiting_keys (waitingExecution s) ?nm @ [length gs] else waiting_keys (waitingExecution s) nm')" by blast
    have "(\<lambda>nm' ri' ty i. if nm' = ?nm \<and> ri' = length gs then conn_at rd ?cs ty i else added_waits f rd ?nm gs nm' ri' ty i) =
        added_waits f rd ?nm (gs @ (if \<exists>c \<in> set ?cs. conn_items rd c \<noteq> None then [gr] else []))"
    proof (cases "\<exists>c \<in> set ?cs. conn_items rd c \<noteq> None")
      case False
      then have "conn_at rd ?cs ty i = None" for ty i by (auto simp: conn_at_def find_None_iff)
      with False show ?thesis by (auto simp: added_waits_def group_conn_at_def fun_eq_iff)
    qed (auto simp: added_waits_def group_conn_at_def fun_eq_iff nth_append less_Suc_eq)
    with s' ok keys False show ?thesis by (auto simp: add_group_def ri waiting_added_def)
  qed
qed

lemma add_start_node_step:
  assumes wf: "wf_graph g" and typed: "run_data_typed g rd" and n: "in_graph g n"
    and ok: "waits_with rd f st" "\<And>ri ty i. f (node_name n) ri ty i = None" "waiting_keys (waitingExecution st) (node_name n) = []"
  shows "\<exists>st'. add_start_node lc g rd pd n st = Inr st' \<and> waiting_added f rd (node_name n) (waiting_groups lc g rd pd n) st st' \<and>
    nodeExecutionStack st' = nodeExecutionStack st @ start_entries lc g rd pd n"
proof -
  define ps where "ps = filter (\<lambda>c. gc_to c = n) (js_values (g_connections g))"
  have ps: "getDirectParentConnections g n = Inr ps" using n by (simp add: direct_connections ps_def)
  have main: "filter (\<lambda>c. gc_type c = MainConn) ps = [] \<longleftrightarrow> \<not> (\<exists>c \<in> graph_conns g. gc_to c = n \<and> gc_type c = MainConn)"
    by (auto simp: ps_def filter_empty_conv)
  have same: "added_waits f rd (node_name n) [] = f" using ok(2) by (auto simp: added_waits_def group_conn_at_def fun_eq_iff)
  have none: "waiting_added f rd (node_name n) [] st s" if "waitingExecution s = waitingExecution st" "waitingExecutionSource s = waitingExecutionSource st"
    for s using ok(1,3) that same by (simp add: waiting_added_def waits_with_def)
  show ?thesis
  proof (cases "\<exists>c \<in> graph_conns g. gc_to c = n \<and> gc_type c = MainConn")
    case False
    then have "filter (\<lambda>c. gc_type c = MainConn) ps = []" "start_entries lc g rd pd n = [execute_data n [[empty_item]] None]"
        "waiting_groups lc g rd pd n = []"
      using main by (simp_all only: start_entries_def waiting_groups_def if_False not_True_eq_False simp_thms)
    with none show ?thesis by (simp add: add_start_node_def ps)
  next
    case True
    let ?gs = "getSourceDataGroups lc g n rd pd"
    let ?es = "\<lambda>gs. map (\<lambda>gr. entry_of rd pd n (group_connections gr)) (filter complete gs)"
    let ?ws = "filter (\<lambda>gr. \<not> complete gr \<and> (\<exists>c \<in> set (group_connections gr). conn_items rd c \<noteq> None))"
    have "\<exists>st'. rfold (add_group rd pd n) ?gs st = Inr st' \<and>
        (waiting_added f rd (node_name n) (?ws ?gs) st st' \<and> nodeExecutionStack st' = nodeExecutionStack st @ ?es ?gs)"
    proof (rule rfold_total_prefix)
      fix pre gr rest and s :: StackState
      assume "?gs = pre @ gr # rest" and s: "waiting_added f rd (node_name n) (?ws pre) st s \<and>
         nodeExecutionStack s = nodeExecutionStack st @ ?es pre"
      then have "gr \<in> set ?gs" by simp
      have ws: "?ws (pre @ [gr]) = ?ws pre @ (if \<not> complete gr \<and> (\<exists>c \<in> set (group_connections gr). conn_items rd c \<noteq> None) then [gr] else [])"
        "?es (pre @ [gr]) = ?es pre @ (if complete gr then [entry_of rd pd n (group_connections gr)] else [])" by simp_all
      from s have inv: "waiting_added f rd (node_name n) (?ws pre) st s" and stack: "nodeExecutionStack s = nodeExecutionStack st @ ?es pre" by blast+
      from add_group_step[OF typed \<open>gr \<in> set ?gs\<close> inv] obtain s' where s': "add_group rd pd n gr s = Inr s'"
        "waiting_added f rd (node_name n) (?ws (pre @ [gr])) st s'"
        "nodeExecutionStack s' = nodeExecutionStack s @ (if complete gr then [entry_of rd pd n (group_connections gr)] else [])"
        unfolding ws by blast
      have "nodeExecutionStack s' = nodeExecutionStack st @ ?es (pre @ [gr])" unfolding ws s'(3) stack by (rule append_assoc)
      with s'(1,2) show "\<exists>s'. add_group rd pd n gr s = Inr s' \<and>
          (waiting_added f rd (node_name n) (?ws (pre @ [gr])) st s' \<and>
           nodeExecutionStack s' = nodeExecutionStack st @ ?es (pre @ [gr]))" by blast
    qed (use none in simp)
    moreover have "filter (\<lambda>c. gc_type c = MainConn) ps \<noteq> []" using main True by blast
    moreover have "start_entries lc g rd pd n = ?es ?gs" unfolding start_entries_def using True by (rule if_P)
    moreover have "waiting_groups lc g rd pd n = ?ws ?gs" unfolding waiting_groups_def using True by (rule if_P)
    ultimately show ?thesis by (simp add: add_start_node_def ps)
  qed
qed

lemma no_disabled_nodes:
  "rfold (\<lambda>n _. assert_ok (\<not> is_disabled n)) ns () = (if \<exists>n \<in> set ns. is_disabled n then Inl AssertionError else Inr ())"
  by (induction ns) (auto simp: assert_ok_def)

text \<open>
  C3: For start nodes of a well-formed graph whose run data has an entry for every connection type used: a disabled
  node in the graph is an assertion error; without one the stack has, in order, one entry for each complete group of
  each start node, and the waiting tables hold exactly the incomplete groups with items, numbered for each start node:
  at the place of an input the items of the first run of the node connected there that has some, and that node as
  source, with the number of the group as its run.
\<close>

theorem recreateNodeExecutionStack_exact:
  assumes wf: "wf_graph g" and typed: "run_data_typed g rd"
    and starts: "\<forall>n \<in> set starts. in_graph g n" "distinct starts"
  shows "if \<exists>n \<in> graph_nodes g. is_disabled n then recreateNodeExecutionStack lc g starts rd pd = Inl AssertionError
    else \<exists>st. recreateNodeExecutionStack lc g starts rd pd = Inr st \<and>
      nodeExecutionStack st = concat (map (start_entries lc g rd pd) starts) \<and>
      waits_with rd (waiting_conn lc g rd pd starts) st"
proof (cases "\<exists>n \<in> graph_nodes g. is_disabled n")
  case True
  then show ?thesis by (simp add: recreateNodeExecutionStack_def no_disabled_nodes)
next
  case False
  let ?st = "\<lparr>nodeExecutionStack = [], waitingExecution = [], waitingExecutionSource = []\<rparr>"
  let ?f = "\<lambda>ns. waiting_conn lc g rd pd ns"
  let ?inv = "\<lambda>ns s. waits_with rd (?f ns) s \<and> (\<forall>nm. nm \<notin> node_name ` set ns \<longrightarrow> waiting_keys (waitingExecution s) nm = []) \<and>
      nodeExecutionStack s = concat (map (start_entries lc g rd pd) ns)"
  have "\<exists>st. rfold (add_start_node lc g rd pd) starts ?st = Inr st \<and> ?inv starts st"
  proof (rule rfold_total_prefix[where P = ?inv])
    show "?inv [] ?st" by (simp add: waits_with_def waiting_conn_def waiting_keys_def js_keys_def)
  next
    fix pre n rest and s :: StackState
    assume split: "starts = pre @ n # rest" and s: "?inv pre s"
    have n: "in_graph g n" using starts(1) by (simp add: split)
    have new: "node_name n \<notin> node_name ` set pre"
    proof
      assume "node_name n \<in> node_name ` set pre"
      then obtain m where m: "m \<in> set pre" "node_name m = node_name n" by auto
      then have "in_graph g m" using starts(1) by (simp add: split)
      then have "m = n" using n m(2) by (simp add: in_graph_def)
      then show False using m(1) starts(2) by (simp add: split)
    qed
    have found: "List.find (\<lambda>m. node_name m = nm) (pre @ [n]) =
        (if nm = node_name n then Some n else List.find (\<lambda>m. node_name m = nm) pre)" for nm
      using new by (induction pre) auto
    then have conn: "?f (pre @ [n]) = added_waits (?f pre) rd (node_name n) (waiting_groups lc g rd pd n)"
      by (auto simp: waiting_conn_def added_waits_def fun_eq_iff)
    have "List.find (\<lambda>m. node_name m = node_name n) pre = None" using new by (auto simp: find_None_iff image_iff)
    then have "?f pre (node_name n) ri ty i = None" for ri ty i by (simp add: waiting_conn_def)
    from add_start_node_step[OF wf typed n, of "?f pre" s lc pd] this s new obtain s' where
      s': "add_start_node lc g rd pd n s = Inr s'" "waiting_added (?f pre) rd (node_name n) (waiting_groups lc g rd pd n) s s'"
        "nodeExecutionStack s' = nodeExecutionStack s @ start_entries lc g rd pd n" by auto
    have "?inv (pre @ [n]) s'" using s'(2,3) s by (simp add: waiting_added_def conn)
    with s'(1) show "\<exists>s'. add_start_node lc g rd pd n s = Inr s' \<and> ?inv (pre @ [n]) s'" by blast
  qed
  with False show ?thesis by (auto simp: recreateNodeExecutionStack_def no_disabled_nodes)
qed

section \<open>Where data and sources part\<close>

definition item :: "string \<Rightarrow> INodeExecutionData" where
  "item s = [(''json'', JObj [(''v'', JStr s)])]"

definition main_run :: "INodeExecutionData list option list \<Rightarrow> ITaskData" where
  "main_run outputs = plain_task (Some [(MainConn, outputs)])"

text \<open>
  Input 0 comes from an output that had no items, input 1 has items: the entry holds one data
  array, at input 0, and two sources.
\<close>

definition two_inputs :: DirectedGraph where
  "two_inputs = (let a = sample_node 0 ''a''; b = sample_node 1 ''b''; n = sample_node 2 ''n''
     in sample_graph [a, b, n] [(edge a n)\<lparr>ci_outputIndex := Some 1\<rparr>, (edge b n)\<lparr>ci_inputIndex := Some 1\<rparr>])"

lemma recreate_shifts_inputs:
  "(case recreateNodeExecutionStack (\<lambda>_ _. 0) two_inputs [sample_node 2 ''n'']
      [(''a'', [main_run [Some [item ''a''], Some []]]), (''b'', [main_run [Some [item ''b'']]])] [] of
     Inl e \<Rightarrow> False
   | Inr st \<Rightarrow> map exec_data (nodeExecutionStack st) = [[(MainConn, [Some [item ''b'']])]] \<and>
       map (\<lambda>e. map_option (\<lambda>s. map_option length (map_of s MainConn)) (exec_source e)) (nodeExecutionStack st) = [Some (Some 2)])"
  by code_simp

text \<open>An incomplete group takes run data only: the pinned items of \<open>a\<close> are not kept.\<close>

lemma recreate_ignores_pinned:
  "(case recreateNodeExecutionStack (\<lambda>_ _. 0) two_inputs [sample_node 2 ''n''] [] [(''a'', [item ''p''])] of
     Inl e \<Rightarrow> False
   | Inr st \<Rightarrow> nodeExecutionStack st = [] \<and> waitingExecution st = [])"
  by code_simp

text \<open>
  The items come from run 1 of \<open>a\<close>, the first with items, but the waiting source names run 0,
  the index in the waiting table.
\<close>

lemma recreate_names_wrong_run:
  "(case recreateNodeExecutionStack (\<lambda>_ _. 0) two_inputs [sample_node 2 ''n'']
      [(''a'', [main_run [None, None], main_run [None, Some [item ''a'']]])] [] of
     Inl e \<Rightarrow> False
   | Inr st \<Rightarrow> get_waiting (waitingExecution st) ''n'' 0 MainConn 0 = Some [item ''a''] \<and>
       map_option previousNodeRun (get_waiting (waitingExecutionSource st) ''n'' 0 MainConn 0) = Some (Some 0))"
  by code_simp

section \<open>The next execution index\<close>

lemma fold_max_ge: "(m::nat) \<le> fold max xs m" "x \<in> set xs \<Longrightarrow> x \<le> fold max xs m"
proof (induction xs arbitrary: m)
  case (Cons a xs)
  { case 1 then show ?case using Cons(1)[of "max a m"] by simp }
  { case 2
    then show ?case using Cons(1)[of "max a m"] Cons(2)[of "max a m"] by fastforce }
qed simp_all

lemma map_filter_set: "set (List.map_filter f xs) = {y. \<exists>x \<in> set xs. f x = Some y}"
  by (force simp: List.map_filter_def)

text \<open>No run has the next index or a later one.\<close>

lemma getNextExecutionIndex_fresh:
  assumes "(nm, runs) \<in> set rd" "run \<in> set runs" "executionIndex run = Some i"
  shows "i < getNextExecutionIndex rd"
proof -
  let ?is = "List.map_filter executionIndex (concat (js_values rd))"
  have "i \<in> set ?is" using assms by (force simp: map_filter_set js_values_def)
  then have "?is \<noteq> []" "i \<le> fold max ?is 0" using fold_max_ge(2) by (auto simp: fold_max_ge)
  moreover have "js_keys rd \<noteq> []" using assms(1) by (auto simp: js_keys_def)
  ultimately show ?thesis by (simp add: getNextExecutionIndex_def Let_def)
qed

section \<open>Witnesses\<close>

definition two_inputs_data :: IRunData where
  "two_inputs_data = [(''a'', [main_run [Some [item ''x''], Some [item ''a'']]]), (''b'', [main_run [Some [item ''b'']]])]"

lemma recreateNodeExecutionStack_exact_witness:
  "\<exists>st. recreateNodeExecutionStack (\<lambda>_ _. 0) two_inputs [sample_node 2 ''n''] two_inputs_data [] = Inr st \<and>
     nodeExecutionStack st = start_entries (\<lambda>_ _. 0) two_inputs two_inputs_data [] (sample_node 2 ''n'') \<and>
     length (nodeExecutionStack st) = 1"
proof -
  have hyps: "wf_graph two_inputs" "run_data_typed two_inputs two_inputs_data" by code_simp+
  have "list_all (\<lambda>n. \<not> is_disabled n) (js_values (g_nodes two_inputs))" by code_simp
  then have en: "\<not> (\<exists>n \<in> graph_nodes two_inputs. is_disabled n)" by (simp add: list_all_iff)
  have "in_graph two_inputs (sample_node 2 ''n'')" by code_simp
  then have starts: "\<forall>n \<in> set [sample_node 2 ''n'']. in_graph two_inputs n" "distinct [sample_node 2 ''n'']" by simp_all
  have "case recreateNodeExecutionStack (\<lambda>_ _. 0) two_inputs [sample_node 2 ''n''] two_inputs_data [] of
      Inl _ \<Rightarrow> False | Inr st \<Rightarrow> length (nodeExecutionStack st) = 1" by code_simp
  with recreateNodeExecutionStack_exact[OF hyps starts, of "\<lambda>_ _. 0" "[]"] en show ?thesis by auto
qed

lemma getNextExecutionIndex_fresh_witness:
  "3 < getNextExecutionIndex [(''a'', [(main_run [])\<lparr>executionIndex := Some 3\<rparr>])]"
  by (rule getNextExecutionIndex_fresh[of "''a''" "[(main_run [])\<lparr>executionIndex := Some 3\<rparr>]"]) (simp, simp, code_simp)

end
