(* ===== verification/WorkflowQueries.thy ===== *)
theory WorkflowQueries
  imports Workflow
begin

text \<open>
  The searches of class \<open>Workflow\<close> (\<^verbatim>\<open>packages/workflow/src/workflow.ts\<close>): highest parents, start
  node, breadth-first search, connection indexes, main input parent, paths, connections between
  nodes, static data and renaming a node. Arrays that the code shares between recursive calls
  (\<open>checkedNodes\<close>, \<open>visitedNodes\<close>) are threaded through as state.
\<close>

section \<open>Static data\<close>

text \<open>
  Static data is an observable object; what the model keeps is its content. \<open>testStaticData\<close> is
  used when it holds a truthy value for the key.
\<close>

definition static_key :: "string \<Rightarrow> INode option \<Rightarrow> string result" where
  "static_key ty n =
     (if ty = ''global'' then Inr ''global''
      else if ty = ''node'' then
        (case n of
           None \<Rightarrow> Inl (ApplicationError ''The request data of context type \"node\" the node parameter has to be set!'')
         | Some n \<Rightarrow> Inr (''node:'' @ node_name n))
      else Inl (ApplicationError ''Unknown context type. Only `global` and `node` are supported.''))"

definition getStaticData :: "string \<Rightarrow> INode option \<Rightarrow> Workflow \<Rightarrow> (json \<times> Workflow) result" where
  "getStaticData ty n w =
     rbind (static_key ty n) (\<lambda>key.
       case (case w_testStaticData w of None \<Rightarrow> None | Some t \<Rightarrow>
               (case map_of t key of None \<Rightarrow> None | Some v \<Rightarrow> if truthy v then Some v else None)) of
         Some v \<Rightarrow> Inr (v, w)
       | None \<Rightarrow>
           case map_of (w_staticData w) key of
             None \<Rightarrow> Inr (JObj [], w\<lparr>w_staticData := js_put key (JObj []) (w_staticData w)\<rparr>)
           | Some v \<Rightarrow> Inr (v, w))"

definition setTestStaticData :: "(string, json) js_map \<Rightarrow> Workflow \<Rightarrow> Workflow" where
  "setTestStaticData d w = w\<lparr>w_testStaticData := Some d\<rparr>"

definition overrideStaticData :: "(string, json) js_map option \<Rightarrow> Workflow \<Rightarrow> Workflow" where
  "overrideStaticData d w =
     w\<lparr>w_staticData := js_put ''__dataChanged'' (JBool True) (case d of None \<Rightarrow> [] | Some s \<Rightarrow> s)\<rparr>"

section \<open>Renaming a node\<close>

text \<open>
  \<open>applyAccessPatterns\<close> (regular expressions over expression strings) is an argument. The flag
  \<open>hasRenamableContent\<close> is passed on into objects, not into arrays.
\<close>

fun renameNodeInParameterValue :: "(string \<Rightarrow> string) \<Rightarrow> bool \<Rightarrow> json \<Rightarrow> json" where
  "renameNodeInParameterValue apply_patterns has (JStr s) =
     (if (s \<noteq> [] \<and> hd s = CHR ''='') \<or> has then JStr (apply_patterns s) else JStr s)"
| "renameNodeInParameterValue apply_patterns has (JArr vs) =
     JArr (map (renameNodeInParameterValue apply_patterns False) vs)"
| "renameNodeInParameterValue apply_patterns has (JObj kvs) =
     JObj (map (\<lambda>(k, v). (k, renameNodeInParameterValue apply_patterns has v)) kvs)"
| "renameNodeInParameterValue apply_patterns has JNull = JObj []"
| "renameNodeInParameterValue apply_patterns has v = v"

definition restrictedKeys :: "string list" where
  "restrictedKeys = [''hasOwnProperty'', ''isPrototypeOf'', ''propertyIsEnumerable'', ''toLocaleString'',
     ''toString'', ''valueOf'', ''constructor'', ''prototype'', ''__proto__'', ''__defineGetter__'',
     ''__defineSetter__'', ''__lookupGetter__'', ''__lookupSetter__'']"

definition lower_char :: "char \<Rightarrow> char" where
  "lower_char c = (let n = (of_char c :: nat) in if 65 \<le> n \<and> n \<le> 90 then char_of (n + 32) else c)"

definition toLowerCase :: "string \<Rightarrow> string" where
  "toLowerCase s = map lower_char s"

definition NODES_WITH_RENAMABLE_CONTENT :: "string list" where
  "NODES_WITH_RENAMABLE_CONTENT = [''n8n-nodes-base.code'', ''n8n-nodes-base.function'',
     ''n8n-nodes-base.functionItem'', ''n8n-nodes-base.aiTransform'']"

definition NODES_WITH_RENAMABLE_FORM_HTML_CONTENT :: "string list" where
  "NODES_WITH_RENAMABLE_FORM_HTML_CONTENT = [''n8n-nodes-base.form'']"

definition NODES_WITH_RENAMEABLE_TOPLEVEL_HTML_CONTENT :: "string list" where
  "NODES_WITH_RENAMEABLE_TOPLEVEL_HTML_CONTENT = [''n8n-nodes-base.mailgun'', ''n8n-nodes-base.html'']"

definition update_key :: "string \<Rightarrow> (json \<Rightarrow> json) \<Rightarrow> (string, json) js_map \<Rightarrow> (string, json) js_map" where
  "update_key k f kvs = map (\<lambda>(k', v). (k', if k' = k then f v else v)) kvs"

text \<open>The \<open>html\<close> of every form field of type \<open>html\<close>.\<close>

fun rename_form_field :: "(json \<Rightarrow> json) \<Rightarrow> json \<Rightarrow> json" where
  "rename_form_field f (JObj kvs) =
     (if map_of kvs ''fieldType'' = Some (JStr ''html'') then JObj (update_key ''html'' f kvs) else JObj kvs)"
| "rename_form_field f v = v"

fun rename_field_values :: "(json \<Rightarrow> json) \<Rightarrow> json \<Rightarrow> json" where
  "rename_field_values f (JArr vs) = JArr (map (rename_form_field f) vs)"
| "rename_field_values f v = v"

fun renameFormFields :: "(json \<Rightarrow> json) \<Rightarrow> json \<Rightarrow> json" where
  "renameFormFields f (JObj kvs) = JObj (update_key ''values'' (rename_field_values f) kvs)"
| "renameFormFields f v = v"

definition rename_parameters :: "(string \<Rightarrow> string) \<Rightarrow> INode \<Rightarrow> INode" where
  "rename_parameters apply_patterns n =
     (let p = map (\<lambda>(k, v). (k, renameNodeInParameterValue apply_patterns False v)) (node_parameters n);
          content = renameNodeInParameterValue apply_patterns True;
          p = (if node_type n \<in> set NODES_WITH_RENAMABLE_CONTENT then update_key ''jsCode'' content p else p);
          p = (if node_type n \<in> set NODES_WITH_RENAMEABLE_TOPLEVEL_HTML_CONTENT then update_key ''html'' content p else p);
          p = (if node_type n \<in> set NODES_WITH_RENAMABLE_FORM_HTML_CONTENT
               then update_key ''formFields'' (renameFormFields content) p else p)
      in n\<lparr>node_parameters := p\<rparr>)"

definition rename_key :: "string \<Rightarrow> string \<Rightarrow> (string, 'v) js_map \<Rightarrow> ('v \<Rightarrow> 'v) \<Rightarrow> (string, 'v) js_map" where
  "rename_key currentName newName m f =
     (case map_of m currentName of
        None \<Rightarrow> m
      | Some v \<Rightarrow> js_del currentName (js_put newName (f v) m))"

definition rename_targets :: "string \<Rightarrow> string \<Rightarrow> IConnections \<Rightarrow> IConnections" where
  "rename_targets currentName newName cs =
     map (\<lambda>(src, ic). (src, map (\<lambda>(ty, arr). (ty, map (map_option (map (\<lambda>c :: IConnection.
       if conn_node c = currentName then c\<lparr>conn_node := newName\<rparr> else c))) arr)) ic)) cs"

definition renameNode :: "(string \<Rightarrow> string) \<Rightarrow> string \<Rightarrow> string \<Rightarrow> Workflow \<Rightarrow> Workflow result" where
  "renameNode apply_patterns currentName newName w =
     (if toLowerCase newName \<in> set (map toLowerCase restrictedKeys)
      then Inl (UserError (''Node name \"'' @ newName @ ''\" is a restricted name.''))
      else
        let nodes = rename_key currentName newName (w_nodes w) (\<lambda>n. n\<lparr>node_name := newName\<rparr>);
            nodes = map (\<lambda>(k, n). (k, rename_parameters apply_patterns n)) nodes;
            src = rename_targets currentName newName (rename_key currentName newName (w_bySource w) (\<lambda>ic. ic))
        in Inr (w\<lparr>w_nodes := nodes, w_bySource := src, w_byDestination := mapConnectionsByDestination src\<rparr>))"

section \<open>Highest parents and the start node\<close>

definition select_index :: "nat option \<Rightarrow> NodeInputConnections \<Rightarrow> NodeInputConnections" where
  "select_index idx arr = (case idx of None \<Rightarrow> arr | Some i \<Rightarrow> if i < length arr then [arr ! i] else [])"

fun getHighestNode ::
    "nat \<Rightarrow> Workflow \<Rightarrow> string \<Rightarrow> nat option \<Rightarrow> string list \<Rightarrow> (string list \<times> string list) result" where
  "getHighestNode 0 w nodeName nodeConnectionIndex checkedNodes = Inl Diverges"
| "getHighestNode (Suc fuel) w nodeName nodeConnectionIndex checkedNodes =
     (case map_of (w_nodes w) nodeName of
        None \<Rightarrow> Inl TypeError
      | Some n \<Rightarrow>
          let currentHighest = (if node_disabled n = Some False then [nodeName] else [])
          in case map_of (w_byDestination w) nodeName of
               None \<Rightarrow> Inr (currentHighest, checkedNodes)
             | Some ic \<Rightarrow>
                 case map_of ic MainConn of
                   None \<Rightarrow> Inr (currentHighest, checkedNodes)
                 | Some arr \<Rightarrow>
                     if nodeName \<in> set checkedNodes then Inr (currentHighest, checkedNodes)
                     else rfold (\<lambda>connection (returnNodes, checkedNodes).
                         if conn_node connection \<in> set checkedNodes then Inr (returnNodes, checkedNodes)
                         else case map_of (w_nodes w) (conn_node connection) of
                           None \<Rightarrow> Inr (returnNodes, checkedNodes)
                         | Some m \<Rightarrow>
                             rbind (getHighestNode fuel w (conn_node connection) None checkedNodes)
                               (\<lambda>(addNodes, checkedNodes).
                                 let addNodes = (if addNodes = [] \<and> node_disabled m \<noteq> Some True
                                                 then [conn_node connection] else addNodes)
                                 in Inr (fold set_add addNodes returnNodes, checkedNodes)))
                       (flat_conns (select_index nodeConnectionIndex arr)) ([], checkedNodes @ [nodeName]))"

definition highest_fuel :: "Workflow \<Rightarrow> nat" where
  "highest_fuel w = Suc (length (w_nodes w))"

definition MANUAL_CHAT_TRIGGER_LANGCHAIN_NODE_TYPE :: string where
  "MANUAL_CHAT_TRIGGER_LANGCHAIN_NODE_TYPE = ''@n8n/n8n-nodes-langchain.manualChatTrigger''"

definition STARTING_NODE_TYPES :: "string list" where
  "STARTING_NODE_TYPES = [''n8n-nodes-base.manualTrigger'', ''n8n-nodes-base.executeWorkflowTrigger'',
     ''n8n-nodes-base.errorTrigger'', ''n8n-nodes-base.start'', ''n8n-nodes-base.evaluationTrigger'']"

definition starting_index :: "INode \<Rightarrow> int" where
  "starting_index n = (case findIndex (\<lambda>t. t = node_type n) STARTING_NODE_TYPES of None \<Rightarrow> -1 | Some i \<Rightarrow> int i)"

fun firstTrigger :: "Workflow \<Rightarrow> string list \<Rightarrow> INode option result" where
  "firstTrigger w [] = Inr None"
| "firstTrigger w (nodeName # nodeNames) =
     (case map_of (w_nodes w) nodeName of
        None \<Rightarrow> Inl TypeError
      | Some n \<Rightarrow>
          case w_nodeTypes w (node_type n) (node_typeVersion n) of
            None \<Rightarrow> Inl TypeError
          | Some nt \<Rightarrow>
              if nt_name nt = MANUAL_CHAT_TRIGGER_LANGCHAIN_NODE_TYPE then firstTrigger w nodeNames
              else if nt_trigger nt \<or> nt_poll nt then
                (if node_disabled n = Some True then firstTrigger w nodeNames else Inr (Some n))
              else firstTrigger w nodeNames)"

definition startingNodes :: "Workflow \<Rightarrow> INode list" where
  "startingNodes w = js_sort (\<lambda>a b. starting_index a - starting_index b) (js_values (w_nodes w))"

definition getStartNodeOf :: "Workflow \<Rightarrow> string list \<Rightarrow> INode option result" where
  "getStartNodeOf w nodeNames =
     (case (case nodeNames of
              [nodeName] \<Rightarrow> (case map_of (w_nodes w) nodeName of
                 Some n \<Rightarrow> if is_disabled n then None else Some n | None \<Rightarrow> None)
            | _ \<Rightarrow> None) of
        Some n \<Rightarrow> Inr (Some n)
      | None \<Rightarrow>
          rbind (firstTrigger w nodeNames) (\<lambda>r.
            case r of
              Some n \<Rightarrow> Inr (Some n)
            | None \<Rightarrow> Inr (List.find (\<lambda>n. node_type n \<in> set STARTING_NODE_TYPES \<and> node_disabled n \<noteq> Some True)
                         (startingNodes w))))"

definition getStartNode :: "Workflow \<Rightarrow> string option \<Rightarrow> INode option result" where
  "getStartNode w destinationNode =
     (case destinationNode of
        Some d \<Rightarrow>
          if d = [] then getStartNodeOf w (js_keys (w_nodes w))
          else
            rbind (getHighestNode (highest_fuel w) w d None []) (\<lambda>(nodeNames, _).
              let nodeNames = (if nodeNames = [] then [d] else nodeNames)
              in rbind (getStartNodeOf w nodeNames) (\<lambda>r.
                   case r of Some n \<Rightarrow> Inr (Some n) | None \<Rightarrow> Inr (map_of (w_nodes w) (hd nodeNames))))
      | None \<Rightarrow> getStartNodeOf w (js_keys (w_nodes w)))"

section \<open>What the highest parents are\<close>

definition parent_edges :: "Workflow \<Rightarrow> (string \<times> string) set" where
  "parent_edges w = conn_edges (w_byDestination w) (OfType MainConn)"

definition highest_ok :: "Workflow \<Rightarrow> string \<Rightarrow> string \<Rightarrow> bool" where
  "highest_ok w nm m \<longleftrightarrow> (nm, m) \<in> (parent_edges w)\<^sup>* \<and>
     (\<exists>n. map_of (w_nodes w) m = Some n \<and> node_disabled n \<noteq> Some True)"

lemma select_index_subset: "set (flat_conns (select_index idx arr)) \<subseteq> set (flat_conns arr)"
  by (auto simp: flat_conns_set select_index_def split: option.splits if_splits) (metis nth_mem)

lemma getHighestNode_ok:
  "map_of (w_nodes w) nm \<noteq> None \<Longrightarrow> set chk \<subseteq> set (js_keys (w_nodes w)) \<Longrightarrow>
     card (set (js_keys (w_nodes w)) - set chk) < k \<Longrightarrow>
     \<exists>r chk'. getHighestNode k w nm idx chk = Inr (r, chk') \<and> (\<forall>m \<in> set r. highest_ok w nm m) \<and>
       distinct r \<and> set chk \<subseteq> set chk' \<and> set chk' \<subseteq> set (js_keys (w_nodes w))"
proof (induction k arbitrary: nm idx chk)
  case 0
  then show ?case by simp
next
  case (Suc k)
  obtain n where n: "map_of (w_nodes w) nm = Some n" using Suc.prems(1) by blast
  let ?names = "set (js_keys (w_nodes w))"
  let ?cur = "if node_disabled n = Some False then [nm] else []"
  have cur: "\<forall>m \<in> set ?cur. highest_ok w nm m" using n by (simp add: highest_ok_def)
  show ?case
  proof (cases "\<exists>ic arr. map_of (w_byDestination w) nm = Some ic \<and> map_of ic MainConn = Some arr \<and> nm \<notin> set chk")
    case False
    then have "getHighestNode (Suc k) w nm idx chk = Inr (?cur, chk)"
      using n by (auto simp: Let_def split: option.splits)
    then show ?thesis using cur Suc.prems(2) by simp
  next
    case True
    then obtain ic arr where arr: "map_of (w_byDestination w) nm = Some ic" "map_of ic MainConn = Some arr" "nm \<notin> set chk"
      by blast
    let ?f = "\<lambda>c (ret, chk). if conn_node c \<in> set chk then Inr (ret, chk)
      else case map_of (w_nodes w) (conn_node c) of None \<Rightarrow> Inr (ret, chk)
        | Some m \<Rightarrow> rbind (getHighestNode k w (conn_node c) None chk) (\<lambda>(add, chk).
            let add = (if add = [] \<and> node_disabled m \<noteq> Some True then [conn_node c] else add)
            in Inr (fold set_add add ret, chk))"
    let ?cs = "flat_conns (select_index idx arr)"
    have eq: "getHighestNode (Suc k) w nm idx chk = rfold ?f ?cs ([], chk @ [nm])"
      using n arr by (simp add: Let_def)
    let ?P = "\<lambda>(r, chk'). (\<forall>m \<in> set r. highest_ok w nm m) \<and> distinct r \<and>
      insert nm (set chk) \<subseteq> set chk' \<and> set chk' \<subseteq> ?names"
    have nm: "nm \<in> ?names" using n by (auto simp: js_keys_set)
    have "\<exists>s. rfold ?f ?cs ([], chk @ [nm]) = Inr s \<and> ?P s"
    proof (rule rfold_total)
      show "?P ([], chk @ [nm])" using Suc.prems(2) nm by auto
    next
      fix c :: IConnection and s assume c: "c \<in> set ?cs" and P: "?P s"
      obtain ret chk1 where s: "s = (ret, chk1)" by (cases s)
      have edge: "(nm, conn_node c) \<in> parent_edges w"
        using arr c select_index_subset[of idx arr] by (auto simp: parent_edges_def conn_edges_def)
      show "\<exists>s'. ?f c s = Inr s' \<and> ?P s'"
      proof (cases "conn_node c \<in> set chk1 \<or> map_of (w_nodes w) (conn_node c) = None")
        case True
        then show ?thesis using P s by auto
      next
        case False
        then obtain m where m: "map_of (w_nodes w) (conn_node c) = Some m" and fresh: "conn_node c \<notin> set chk1" by auto
        have "?names - set chk1 \<subset> ?names - set chk" using P s nm arr(3) by auto
        then have "card (?names - set chk1) < card (?names - set chk)" by (rule psubset_card_mono[rotated]) simp
        then have "card (?names - set chk1) < k" using Suc.prems(3) by simp
        then obtain r chk2 where r: "getHighestNode k w (conn_node c) None chk1 = Inr (r, chk2)"
          "\<forall>x \<in> set r. highest_ok w (conn_node c) x" "distinct r" "set chk1 \<subseteq> set chk2" "set chk2 \<subseteq> ?names"
          using Suc.IH[of "conn_node c" chk1 None] m P s by auto
        let ?add = "if r = [] \<and> node_disabled m \<noteq> Some True then [conn_node c] else r"
        have "highest_ok w nm x" if "x \<in> set ?add" for x
        proof -
          have "highest_ok w (conn_node c) x"
            using that r(2) m by (auto simp: highest_ok_def split: if_splits)
          with edge show ?thesis unfolding highest_ok_def by (auto intro: converse_rtrancl_into_rtrancl)
        qed
        then have "?P (fold set_add ?add ret, chk2)"
          using P s r(4,5) by (auto simp: fold_set_add intro: fold_set_add_distinct)
        moreover have "?f c s = Inr (fold set_add ?add ret, chk2)"
          using s fresh m r(1) by (simp add: Let_def)
        ultimately show ?thesis by blast
      qed
    qed
    then show ?thesis unfolding eq by auto
  qed
qed

text \<open>
  The highest parents of a node are enabled nodes of the workflow from which main connections
  lead to it, or the node itself, each once.
\<close>

lemma getHighestNode_sound:
  assumes "map_of (w_nodes w) nm \<noteq> None"
  shows "\<exists>r chk. getHighestNode (highest_fuel w) w nm idx [] = Inr (r, chk) \<and> distinct r \<and>
    (\<forall>m \<in> set r. (nm, m) \<in> (conn_edges (w_byDestination w) (OfType MainConn))\<^sup>* \<and>
       (\<exists>n. map_of (w_nodes w) m = Some n \<and> \<not> is_disabled n))"
proof -
  have "card (set (js_keys (w_nodes w)) - set []) < highest_fuel w"
    using card_length[of "js_keys (w_nodes w)"] by (simp add: highest_fuel_def js_keys_def less_Suc_eq_le)
  from getHighestNode_ok[OF assms _ this, of idx] obtain r chk where
    "getHighestNode (highest_fuel w) w nm idx [] = Inr (r, chk)" "distinct r" "\<forall>m \<in> set r. highest_ok w nm m"
    by auto
  then show ?thesis by (auto simp: highest_ok_def parent_edges_def is_disabled_def)
qed

definition line_workflow :: Workflow where
  "line_workflow = new_workflow (\<lambda>_ _. None)
     \<lparr>wp_id = ''1'', wp_name = None, wp_nodes = [plain_node 0 ''a'' ''t'', plain_node 1 ''b'' ''t'', plain_node 2 ''c'' ''t''],
      wp_connections = map (\<lambda>(s, d). (s, [(MainConn, [Some [\<lparr>conn_node = d, conn_type = MainConn, conn_index = 0\<rparr>]])]))
        [(''a'', ''b''), (''b'', ''c'')],
      wp_active = False, wp_nodeTypes = (\<lambda>_ _. None), wp_staticData = None, wp_settings = None, wp_pinData = None\<rparr>"

lemma getHighestNode_sound_witness:
  "\<exists>r chk. getHighestNode (highest_fuel line_workflow) line_workflow ''c'' None [] = Inr (r, chk) \<and> distinct r \<and> r = [''a'']"
proof -
  have "js_has (w_nodes line_workflow) ''c''" by code_simp
  then have hyp: "map_of (w_nodes line_workflow) ''c'' \<noteq> None" unfolding js_has_def .
  have "case getHighestNode (highest_fuel line_workflow) line_workflow ''c'' None [] of Inl _ \<Rightarrow> False | Inr (r, _) \<Rightarrow> r = [''a'']"
    by code_simp
  with getHighestNode_sound[OF hyp, of None] show ?thesis by auto
qed

end
