(* ===== verification/WorkflowSearch.thy ===== *)
theory WorkflowSearch
  imports WorkflowQueries
begin

text \<open>
  More searches of class \<open>Workflow\<close> (\<^verbatim>\<open>workflow.ts\<close>): \<open>searchNodesBFS\<close>, \<open>getNodeConnectionIndexes\<close>,
  \<open>getParentMainInputNode\<close>, \<open>getConnectionsBetweenNodes\<close> and \<open>hasPath\<close>.
\<close>

section \<open>Breadth-first search\<close>

record IConnectedNode =
  cn_name :: string
  cn_indicies :: "nat list"
  cn_depth :: nat

text \<open>
  \<open>visited\<close> is a map in the order of the visits, so the array \<open>returnConns\<close> of the code is its
  list of values without the source node; the objects of the array are the ones in the map, so
  a later change of \<open>indicies\<close> shows in both.
\<close>

definition dedupe :: "'a list \<Rightarrow> 'a list" where
  "dedupe xs = set_of_array xs"

definition main_conns :: "IConnections \<Rightarrow> string \<Rightarrow> IConnection list" where
  "main_conns cs nm =
     (case map_of cs nm of None \<Rightarrow> []
      | Some ic \<Rightarrow> case map_of ic MainConn of None \<Rightarrow> [] | Some arr \<Rightarrow> flat_conns arr)"

definition bfs_visit ::
    "IConnections \<Rightarrow> nat \<Rightarrow> IConnectedNode \<Rightarrow> (string, IConnectedNode) js_map \<times> IConnectedNode list \<Rightarrow>
      (string, IConnectedNode) js_map \<times> IConnectedNode list" where
  "bfs_visit cs depth cur = (\<lambda>(visited, queue).
     case map_of visited (cn_name cur) of
       Some v \<Rightarrow> (js_put (cn_name cur) (v\<lparr>cn_indicies := dedupe (cn_indicies v @ cn_indicies cur)\<rparr>) visited, queue)
     | None \<Rightarrow> (js_put (cn_name cur) cur visited,
         queue @ map (\<lambda>c. \<lparr>cn_name = conn_node c, cn_indicies = [conn_index c], cn_depth = depth\<rparr>)
           (main_conns cs (cn_name cur))))"

fun bfsLoop ::
    "nat \<Rightarrow> IConnections \<Rightarrow> int \<Rightarrow> nat \<Rightarrow> IConnectedNode list \<Rightarrow> (string, IConnectedNode) js_map \<Rightarrow>
      (string, IConnectedNode) js_map result" where
  "bfsLoop 0 cs maxDepth depth queue visited = Inl Diverges"
| "bfsLoop (Suc fuel) cs maxDepth depth queue visited =
     (if queue = [] then Inr visited
      else if maxDepth \<noteq> -1 \<and> int depth > maxDepth then Inr visited
      else let (visited, queue) = fold (bfs_visit cs (Suc depth)) queue (visited, [])
           in bfsLoop fuel cs maxDepth (Suc depth) queue visited)"

definition searchNodesBFS :: "IConnections \<Rightarrow> string \<Rightarrow> int \<Rightarrow> IConnectedNode list result" where
  "searchNodesBFS cs sourceNode maxDepth =
     rbind (bfsLoop (length cs + 3) cs maxDepth 0
         [\<lparr>cn_name = sourceNode, cn_indicies = [], cn_depth = 0\<rparr>] [])
       (\<lambda>visited. Inr (filter (\<lambda>v. cn_name v \<noteq> sourceNode) (js_values visited)))"

definition getParentNodesByDepth :: "Workflow \<Rightarrow> string \<Rightarrow> int \<Rightarrow> IConnectedNode list result" where
  "getParentNodesByDepth w nodeName maxDepth = searchNodesBFS (w_byDestination w) nodeName maxDepth"

text \<open>\<open>m\<close> is at distance \<open>d\<close> from the source.\<close>

definition at_dist :: "('a \<times> 'a) set \<Rightarrow> 'a \<Rightarrow> 'a \<Rightarrow> nat \<Rightarrow> bool" where
  "at_dist E s m d \<longleftrightarrow> (s, m) \<in> E ^^ d \<and> (\<forall>j < d. (s, m) \<notin> E ^^ j)"

lemma at_dist_unique: "at_dist E s m i \<Longrightarrow> at_dist E s m j \<Longrightarrow> i = j"
  unfolding at_dist_def by (metis linorder_neqE_nat)

lemma at_dist_exists: "(s, m) \<in> E ^^ d \<Longrightarrow> \<exists>j \<le> d. at_dist E s m j"
proof -
  assume a: "(s, m) \<in> E ^^ d"
  let ?j = "LEAST j. (s, m) \<in> E ^^ j"
  have "(s, m) \<in> E ^^ ?j" "?j \<le> d" using a by (auto intro: LeastI Least_le)
  moreover have "\<forall>i < ?j. (s, m) \<notin> E ^^ i" using not_less_Least by blast
  ultimately show ?thesis unfolding at_dist_def by blast
qed

lemma at_dist_pred:
  assumes "at_dist E s m (Suc d)"
  shows "\<exists>p. at_dist E s p d \<and> (p, m) \<in> E"
proof -
  obtain p where p: "(s, p) \<in> E ^^ d" "(p, m) \<in> E" using assms by (auto simp: at_dist_def)
  obtain j where j: "j \<le> d" "at_dist E s p j" using at_dist_exists[OF p(1)] by blast
  then have "(s, m) \<in> E ^^ Suc j" using p(2) unfolding at_dist_def by auto
  then have "\<not> Suc j < Suc d" using assms unfolding at_dist_def by blast
  with j have "j = d" by simp
  with j(2) p(2) show ?thesis by blast
qed

definition bfs_visited ::
    "(string \<times> string) set \<Rightarrow> string \<Rightarrow> nat \<Rightarrow> (string, IConnectedNode) js_map \<Rightarrow> bool" where
  "bfs_visited E s d visited \<longleftrightarrow> js_wf visited \<and>
     (\<forall>m v. map_of visited m = Some v \<longrightarrow> cn_name v = m \<and> at_dist E s m (cn_depth v) \<and> cn_depth v < d)"

definition bfs_queue :: "(string \<times> string) set \<Rightarrow> string \<Rightarrow> nat \<Rightarrow> IConnectedNode list \<Rightarrow> bool" where
  "bfs_queue E s d queue \<longleftrightarrow> (\<forall>q \<in> set queue. cn_depth q = d \<and> (s, cn_name q) \<in> E ^^ d)"

text \<open>Inside a level: what is visited so far, and that the queue has the successors of the new nodes.\<close>

definition bfs_level ::
    "(string \<times> string) set \<Rightarrow> string \<Rightarrow> nat \<Rightarrow> (string, IConnectedNode) js_map \<Rightarrow> string set \<Rightarrow>
      (string, IConnectedNode) js_map \<times> IConnectedNode list \<Rightarrow> bool" where
  "bfs_level E s d visited0 done' = (\<lambda>(visited, queue). bfs_visited E s (Suc d) visited \<and> bfs_queue E s (Suc d) queue \<and>
     dom (map_of visited) = dom (map_of visited0) \<union> done' \<and>
     E `` (dom (map_of visited) - dom (map_of visited0)) = cn_name ` set queue)"

lemma main_conns_edges: "conn_node ` set (main_conns cs nm) = conn_edges cs (OfType MainConn) `` {nm}"
  by (force simp: main_conns_def conn_edges_def split: option.splits)

lemma bfs_visit_level:
  assumes E: "E = conn_edges cs (OfType MainConn)" and lev: "bfs_level E s d visited0 D vq"
    and old: "\<And>m j. at_dist E s m j \<Longrightarrow> j < d \<Longrightarrow> m \<in> dom (map_of visited0)"
    and q: "cn_depth q = d" "(s, cn_name q) \<in> E ^^ d"
  shows "bfs_level E s d visited0 (insert (cn_name q) D) (bfs_visit cs (Suc d) q vq)"
proof -
  obtain visited queue where vq: "vq = (visited, queue)" by (cases vq)
  have v: "bfs_visited E s (Suc d) visited" "bfs_queue E s (Suc d) queue"
    "dom (map_of visited) = dom (map_of visited0) \<union> D"
    "E `` (dom (map_of visited) - dom (map_of visited0)) = cn_name ` set queue"
    using lev unfolding bfs_level_def vq by blast+
  show ?thesis
  proof (cases "map_of visited (cn_name q)")
    case (Some x)
    let ?v = "js_put (cn_name q) (x\<lparr>cn_indicies := dedupe (cn_indicies x @ cn_indicies q)\<rparr>) visited"
    have "bfs_visited E s (Suc d) ?v" using v(1) Some unfolding bfs_visited_def by auto
    moreover have "dom (map_of ?v) = dom (map_of visited)" using Some by auto
    ultimately show ?thesis using v Some
      by (auto simp: bfs_level_def vq bfs_visit_def)
  next
    case None
    let ?new = "map (\<lambda>c. \<lparr>cn_name = conn_node c, cn_indicies = [conn_index c], cn_depth = Suc d\<rparr>) (main_conns cs (cn_name q))"
    have fresh: "cn_name q \<notin> dom (map_of visited0)" using None v(3) by auto
    have "at_dist E s (cn_name q) d"
    proof -
      obtain j where "j \<le> d" "at_dist E s (cn_name q) j" using at_dist_exists[OF q(2)] by blast
      then show ?thesis using old[of "cn_name q" j] fresh by (cases "j = d") auto
    qed
    then have vis: "bfs_visited E s (Suc d) (js_put (cn_name q) q visited)"
      using v(1) q(1) unfolding bfs_visited_def by auto
    have names: "cn_name ` set ?new = E `` {cn_name q}"
      unfolding E main_conns_edges[symmetric] by force
    have "bfs_queue E s (Suc d) ?new"
      unfolding bfs_queue_def
    proof
      fix x assume x: "x \<in> set ?new"
      then have "cn_name x \<in> E `` {cn_name q}" unfolding names[symmetric] by (rule imageI)
      then have "(s, cn_name x) \<in> E ^^ Suc d" using q(2) by auto
      with x show "cn_depth x = Suc d \<and> (s, cn_name x) \<in> E ^^ Suc d" by auto
    qed
    then have que: "bfs_queue E s (Suc d) (queue @ ?new)" using v(2) by (auto simp: bfs_queue_def)
    have "dom (map_of (js_put (cn_name q) q visited)) - dom (map_of visited0) =
        insert (cn_name q) (dom (map_of visited) - dom (map_of visited0))" using fresh by auto
    then have "E `` (dom (map_of (js_put (cn_name q) q visited)) - dom (map_of visited0)) = cn_name ` set (queue @ ?new)"
      using v(4) names by (simp add: image_Un Image_Un) (metis Image_Un Un_commute insert_is_Un)
    then show ?thesis using vis que v(3) None by (auto simp: bfs_level_def vq bfs_visit_def)
  qed
qed

lemma bfs_levels:
  assumes E: "E = conn_edges cs (OfType MainConn)"
    and old: "\<And>m j. at_dist E s m j \<Longrightarrow> j < d \<Longrightarrow> m \<in> dom (map_of visited0)"
  shows "bfs_queue E s d qs \<Longrightarrow> bfs_level E s d visited0 D vq \<Longrightarrow>
    bfs_level E s d visited0 (D \<union> cn_name ` set qs) (fold (bfs_visit cs (Suc d)) qs vq)"
proof (induction qs arbitrary: D vq)
  case (Cons q qs)
  have "bfs_level E s d visited0 (insert (cn_name q) D) (bfs_visit cs (Suc d) q vq)"
    using Cons.prems by (intro bfs_visit_level[OF E _ old]) (auto simp: bfs_queue_def)
  from Cons.IH[OF _ this] Cons.prems(1) show ?case by (simp add: bfs_queue_def)
qed simp

text \<open>Between levels.\<close>

definition bfs_inv ::
    "(string \<times> string) set \<Rightarrow> string \<Rightarrow> nat \<Rightarrow> IConnectedNode list \<Rightarrow> (string, IConnectedNode) js_map \<Rightarrow> bool" where
  "bfs_inv E s d queue visited \<longleftrightarrow> bfs_visited E s d visited \<and> bfs_queue E s d queue \<and>
     (\<forall>m j. at_dist E s m j \<and> j < d \<longrightarrow> m \<in> dom (map_of visited)) \<and>
     (\<forall>m. at_dist E s m d \<longrightarrow> m \<in> cn_name ` set queue)"

lemma bfs_inv_step:
  assumes E: "E = conn_edges cs (OfType MainConn)" and inv: "bfs_inv E s d queue visited"
    and step: "fold (bfs_visit cs (Suc d)) queue (visited, []) = (visited', queue')"
  shows "bfs_inv E s (Suc d) queue' visited'"
    "dom (map_of visited') = dom (map_of visited) \<union> cn_name ` set queue"
    "cn_name ` set queue' = E `` (dom (map_of visited') - dom (map_of visited))"
proof -
  have old: "m \<in> dom (map_of visited)" if "at_dist E s m j" "j < d" for m j
    using inv that unfolding bfs_inv_def by blast
  have "bfs_level E s d visited {} (visited, [])"
    using inv unfolding bfs_level_def bfs_inv_def bfs_queue_def bfs_visited_def by fastforce
  moreover have "bfs_queue E s d queue" using inv unfolding bfs_inv_def by blast
  ultimately have "bfs_level E s d visited ({} \<union> cn_name ` set queue) (fold (bfs_visit cs (Suc d)) queue (visited, []))"
    by (intro bfs_levels[OF E old])
  then have "bfs_level E s d visited ({} \<union> cn_name ` set queue) (visited', queue')" unfolding step .
  then have lev: "bfs_visited E s (Suc d) visited'" "bfs_queue E s (Suc d) queue'"
    "dom (map_of visited') = dom (map_of visited) \<union> cn_name ` set queue"
    "E `` (dom (map_of visited') - dom (map_of visited)) = cn_name ` set queue'"
    unfolding bfs_level_def Un_empty_left by blast+
  have done': "m \<in> dom (map_of visited')" if "at_dist E s m j" "j < Suc d" for m j
  proof (cases "j = d")
    case True
    with that(1) inv lev(3) show ?thesis unfolding bfs_inv_def by blast
  next
    case False
    with that(2) have "j < d" by simp
    with old[OF that(1)] lev(3) show ?thesis by blast
  qed
  have next': "m \<in> cn_name ` set queue'" if m: "at_dist E s m (Suc d)" for m
  proof -
    obtain p where p: "at_dist E s p d" "(p, m) \<in> E" using at_dist_pred[OF m] by blast
    have "p \<in> dom (map_of visited')" using done'[OF p(1)] by simp
    moreover have "p \<notin> dom (map_of visited)"
    proof
      assume "p \<in> dom (map_of visited)"
      then obtain v :: IConnectedNode where "at_dist E s p (cn_depth v)" "cn_depth v < d"
        using inv unfolding bfs_inv_def bfs_visited_def by blast
      with at_dist_unique[OF p(1)] show False by blast
    qed
    ultimately show ?thesis using p(2) lev(4) by blast
  qed
  show "bfs_inv E s (Suc d) queue' visited'"
    using lev(1,2) done' next' unfolding bfs_inv_def by blast
  show "dom (map_of visited') = dom (map_of visited) \<union> cn_name ` set queue"
    "cn_name ` set queue' = E `` (dom (map_of visited') - dom (map_of visited))"
    using lev(3,4) by simp_all
qed

text \<open>
  A level with no new key of the table has no successors, so the loop ends after as many levels
  as there are keys, and two more.
\<close>

lemma bfsLoop_result:
  assumes E: "E = conn_edges cs (OfType MainConn)"
  shows "bfs_inv E s d queue visited \<Longrightarrow>
    (if queue = [] then 0 else Suc (card (set (js_keys cs) - dom (map_of visited)))) < k \<Longrightarrow>
    \<exists>d' visited'. bfsLoop k cs (-1) d queue visited = Inr visited' \<and> bfs_inv E s d' [] visited'"
proof (induction k arbitrary: d queue visited)
  case 0
  then show ?case by simp
next
  case (Suc k)
  show ?case
  proof (cases "queue = []")
    case True
    with Suc.prems show ?thesis by auto
  next
    case False
    obtain visited' queue' where step: "fold (bfs_visit cs (Suc d)) queue (visited, []) = (visited', queue')"
      by (metis surj_pair)
    note inv = bfs_inv_step[OF E Suc.prems(1) step]
    have "(if queue' = [] then 0 else Suc (card (set (js_keys cs) - dom (map_of visited')))) < k"
    proof (cases "queue' = []")
      case True
      with Suc.prems(2) False show ?thesis by simp
    next
      case ne: False
      then have "E `` (dom (map_of visited') - dom (map_of visited)) \<noteq> {}" unfolding inv(3)[symmetric] by simp
      then obtain p m where p: "p \<in> dom (map_of visited')" "p \<notin> dom (map_of visited)" "(p, m) \<in> E" by blast
      then have "p \<in> set (js_keys cs)" by (auto simp: E conn_edges_def js_keys_set)
      then have "set (js_keys cs) - dom (map_of visited') \<subset> set (js_keys cs) - dom (map_of visited)"
        using p(1,2) inv(2) by blast
      then have "card (set (js_keys cs) - dom (map_of visited')) < card (set (js_keys cs) - dom (map_of visited))"
        by (rule psubset_card_mono[rotated]) simp
      with Suc.prems(2) False ne show ?thesis by simp
    qed
    from Suc.IH[OF inv(1) this] False step show ?thesis by simp
  qed
qed

lemma no_dist_beyond:
  assumes "\<forall>m. \<not> at_dist E s m d" "at_dist E s m j"
  shows "j < d"
proof (rule ccontr)
  assume "\<not> j < d"
  then have "d \<le> j" by simp
  from this assms(2) have "\<exists>m. at_dist E s m d"
  proof (induction j arbitrary: m rule: dec_induct)
    case (step j)
    from at_dist_pred[OF step.prems] step.IH show ?case by blast
  qed blast
  with assms(1) show False by blast
qed

text \<open>
  C35: Without a depth limit, the search returns every other node that main connections lead to,
  once, with its distance.
\<close>

lemma searchNodesBFS_distances:
  "\<exists>r. searchNodesBFS cs s (-1) = Inr r \<and> distinct (map cn_name r) \<and>
     cn_name ` set r = {m. (s, m) \<in> (conn_edges cs (OfType MainConn))\<^sup>*} - {s} \<and>
     (\<forall>v \<in> set r. at_dist (conn_edges cs (OfType MainConn)) s (cn_name v) (cn_depth v))"
proof -
  let ?E = "conn_edges cs (OfType MainConn)"
  let ?q = "[\<lparr>cn_name = s, cn_indicies = [], cn_depth = 0\<rparr>]"
  have "bfs_inv ?E s 0 ?q []"
    by (auto simp: bfs_inv_def bfs_visited_def bfs_queue_def at_dist_def)
  moreover have "Suc (card (set (js_keys cs) - dom (map_of ([] :: (string, IConnectedNode) js_map)))) < length cs + 3"
    using card_length[of "js_keys cs"] by (simp add: js_keys_def)
  ultimately obtain d visited where v: "bfsLoop (length cs + 3) cs (-1) 0 ?q [] = Inr visited" "bfs_inv ?E s d [] visited"
    using bfsLoop_result[OF refl, of cs s 0 ?q "[]" "length cs + 3"] by auto
  have vis: "js_wf visited" "\<And>m x. map_of visited m = Some x \<Longrightarrow> cn_name x = m \<and> at_dist ?E s m (cn_depth x)"
    "\<And>m j. at_dist ?E s m j \<Longrightarrow> j < d \<Longrightarrow> m \<in> dom (map_of visited)" "\<forall>m. \<not> at_dist ?E s m d"
    using v(2) unfolding bfs_inv_def bfs_visited_def by auto
  let ?r = "filter (\<lambda>v. cn_name v \<noteq> s) (js_values visited)"
  have mem: "x \<in> set (js_values visited) \<longleftrightarrow> map_of visited (cn_name x) = Some x" for x
    using vis(1,2) by (auto simp: js_values_set ran_def)
  have "distinct (map cn_name (js_values visited))"
  proof -
    have "map cn_name (js_values visited) = map fst visited"
      using vis(1,2) by (auto simp: js_values_def js_get_iff)
    then show ?thesis using vis(1) by (simp add: js_wf_def)
  qed
  then have "distinct (map cn_name ?r)" by (simp add: distinct_map_filter)
  moreover have "cn_name ` set ?r = {m. (s, m) \<in> ?E\<^sup>*} - {s}"
  proof (intro set_eqI iffI)
    fix m assume "m \<in> cn_name ` set ?r"
    then obtain x where "map_of visited m = Some x" "m \<noteq> s" using mem by auto
    then show "m \<in> {m. (s, m) \<in> ?E\<^sup>*} - {s}"
      using vis(2)[of m x] relpow_imp_rtrancl[of "(s, m)"] unfolding at_dist_def by blast
  next
    fix m assume m: "m \<in> {m. (s, m) \<in> ?E\<^sup>*} - {s}"
    then obtain n where n: "(s, m) \<in> ?E ^^ n" using rtrancl_imp_relpow by blast
    obtain j where "at_dist ?E s m j" using at_dist_exists[OF n] by blast
    then have "m \<in> dom (map_of visited)" using vis(3) no_dist_beyond[OF vis(4)] by blast
    then obtain x where "map_of visited m = Some x" by blast
    then have "cn_name x = m" "x \<in> set ?r" using m vis(2)[of m x] mem[of x] by auto
    then show "m \<in> cn_name ` set ?r" by blast
  qed
  moreover have "\<forall>x \<in> set ?r. at_dist ?E s (cn_name x) (cn_depth x)"
  proof
    fix x assume "x \<in> set ?r"
    then have "map_of visited (cn_name x) = Some x" using mem[of x] by simp
    with vis(2) show "at_dist ?E s (cn_name x) (cn_depth x)" by blast
  qed
  ultimately show ?thesis using v(1) by (auto simp: searchNodesBFS_def)
qed

definition fork_table :: IConnections where
  "fork_table = (let c = (\<lambda>nm. \<lparr>conn_node = nm, conn_type = MainConn, conn_index = 0\<rparr>)
     in [(''a'', [(MainConn, [Some [c ''b'', c ''c'']])]), (''b'', [(MainConn, [Some [c ''c'']])])])"

lemma searchNodesBFS_distances_witness:
  "\<exists>r. searchNodesBFS fork_table ''a'' (-1) = Inr r \<and> map cn_name r = [''b'', ''c''] \<and>
     (\<forall>v \<in> set r. at_dist (conn_edges fork_table (OfType MainConn)) ''a'' (cn_name v) (cn_depth v))"
proof -
  have "case searchNodesBFS fork_table ''a'' (-1) of Inl _ \<Rightarrow> False | Inr r \<Rightarrow> map cn_name r = [''b'', ''c'']" by code_simp
  with searchNodesBFS_distances[of fork_table "''a''"] show ?thesis by auto
qed

end
