(* ===== verification/WorkflowPaths.thy ===== *)
theory WorkflowPaths
  imports WorkflowSearch
begin

text \<open>
  Paths between two nodes in class \<open>Workflow\<close> (\<^verbatim>\<open>workflow.ts\<close>): \<open>getNodeConnectionIndexes\<close>,
  \<open>getParentMainInputNode\<close>, \<open>getConnectionsBetweenNodes\<close>, \<open>hasPath\<close>, and what \<open>renameNode\<close> does
  to nodes and connections.
\<close>

section \<open>getNodeConnectionIndexes\<close>

record INodeConnection =
  sourceIndex :: nat
  destinationIndex :: nat

text \<open>The connections into a node with their position in the array of their input.\<close>

definition indexed_conns :: "IConnections \<Rightarrow> NodeConnectionType \<Rightarrow> string \<Rightarrow> (nat \<times> IConnection) list" where
  "indexed_conns cs ty nm =
     (case map_of cs nm of None \<Rightarrow> []
      | Some ic \<Rightarrow> case map_of ic ty of None \<Rightarrow> []
        | Some arr \<Rightarrow> concat (map (\<lambda>o'. case o' of None \<Rightarrow> [] | Some l \<Rightarrow> List.enumerate 0 l) arr))"

definition has_input :: "IConnections \<Rightarrow> NodeConnectionType \<Rightarrow> string \<Rightarrow> bool" where
  "has_input cs ty nm = (case map_of cs nm of None \<Rightarrow> False | Some ic \<Rightarrow> map_of ic ty \<noteq> None)"

fun getNodeConnectionIndexes ::
    "nat \<Rightarrow> Workflow \<Rightarrow> string \<Rightarrow> string \<Rightarrow> NodeConnectionType \<Rightarrow> int \<Rightarrow> string list \<Rightarrow>
      (INodeConnection option \<times> string list) result" where
  "getNodeConnectionIndexes 0 w nodeName parentNodeName ty depth checked = Inl Diverges"
| "getNodeConnectionIndexes (Suc fuel) w nodeName parentNodeName ty depth checked =
     (if w_getNode w parentNodeName = None then Inr (None, checked)
      else if depth = 0 then Inr (None, checked)
      else if \<not> has_input (w_byDestination w) ty nodeName then Inr (None, checked)
      else if nodeName \<in> set checked then Inr (None, checked)
      else rfold (\<lambda>(i, connection) (found, checked).
          case found of
            Some r \<Rightarrow> Inr (Some r, checked)
          | None \<Rightarrow>
              if parentNodeName = conn_node connection
              then Inr (Some \<lparr>sourceIndex = conn_index connection, destinationIndex = i\<rparr>, checked)
              else if conn_node connection \<in> set checked then Inr (None, checked)
              else getNodeConnectionIndexes fuel w (conn_node connection) parentNodeName ty (next_depth depth) checked)
        (indexed_conns (w_byDestination w) ty nodeName) (None, checked @ [nodeName]))"

definition connectionIndexes :: "Workflow \<Rightarrow> string \<Rightarrow> string \<Rightarrow> NodeConnectionType \<Rightarrow> int \<Rightarrow> INodeConnection option result" where
  "connectionIndexes w nodeName parentNodeName ty depth =
     rbind (getNodeConnectionIndexes (Suc (Suc (length (w_byDestination w)))) w nodeName parentNodeName ty depth [])
       (\<lambda>(r, _). Inr r)"

definition direct_indexes :: "IConnections \<Rightarrow> NodeConnectionType \<Rightarrow> string \<Rightarrow> string \<Rightarrow> INodeConnection set" where
  "direct_indexes cs ty nm parent =
     {\<lparr>sourceIndex = conn_index c, destinationIndex = i\<rparr> | i c. (i, c) \<in> set (indexed_conns cs ty nm) \<and> conn_node c = parent}"

lemma indexed_conns_edges: "(\<lambda>(i, c). conn_node c) ` set (indexed_conns cs ty nm) = conn_edges cs (OfType ty) `` {nm}"
proof -
  have "snd ` set (List.enumerate 0 l) = set l" for l :: "IConnection list"
    by (simp add: set_map[symmetric] del: set_map)
  then have "snd ` set (concat (map (\<lambda>o'. case o' of None \<Rightarrow> [] | Some l \<Rightarrow> List.enumerate 0 l) arr)) = set (flat_conns arr)"
    for arr :: NodeInputConnections
  proof (induction arr)
    case (Cons o' arr)
    then show ?case using \<open>\<And>l. snd ` set (List.enumerate 0 l) = set l\<close>
      by (cases o') (simp_all add: flat_conns_def image_Un)
  qed (simp add: flat_conns_def)
  then have "snd ` set (indexed_conns cs ty nm) =
      (case map_of cs nm of None \<Rightarrow> {} | Some ic \<Rightarrow> case map_of ic ty of None \<Rightarrow> {} | Some arr \<Rightarrow> set (flat_conns arr))"
    unfolding indexed_conns_def
    by (cases "map_of cs nm"; cases "map_of (the (map_of cs nm)) ty") (simp_all del: set_concat)
  moreover have "conn_edges cs (OfType ty) `` {nm} = conn_node `
      (case map_of cs nm of None \<Rightarrow> {} | Some ic \<Rightarrow> case map_of ic ty of None \<Rightarrow> {} | Some arr \<Rightarrow> set (flat_conns arr))"
    by (auto simp: conn_edges_def split: option.splits)
  ultimately show ?thesis by (metis (no_types, lifting) case_prod_unfold image_cong image_image)
qed

text \<open>What a search that finds nothing has seen.\<close>

definition indexes_seen :: "(string \<times> string) set \<Rightarrow> string \<Rightarrow> string list \<Rightarrow> string list \<Rightarrow> bool" where
  "indexes_seen E parent S S' \<longleftrightarrow> set S \<subseteq> set S' \<and>
     (\<forall>y \<in> set S' - set S. parent \<notin> E `` {y} \<and> E `` {y} \<subseteq> set S' \<union> {z. E `` {z} = {}})"

lemma indexes_seen_trans:
  assumes "indexes_seen E parent S S1" "indexes_seen E parent S1 S2"
  shows "indexes_seen E parent S S2"
  using assms unfolding indexes_seen_def by blast

lemma getNodeConnectionIndexes_result:
  assumes parent: "w_getNode w parent \<noteq> None" and E: "E = conn_edges (w_byDestination w) (OfType ty)"
    and K: "K = set (js_keys (w_byDestination w))"
  shows "card (K - set S) < k \<Longrightarrow>
    \<exists>r S'. getNodeConnectionIndexes k w nm parent ty (-1) S = Inr (r, S') \<and>
      (case r of
         Some x \<Rightarrow> \<exists>m. (nm, m) \<in> E\<^sup>* \<and> x \<in> direct_indexes (w_byDestination w) ty m parent
       | None \<Rightarrow> (nm \<in> set S' \<or> E `` {nm} = {}) \<and> indexes_seen E parent S S')"
proof (induction k arbitrary: nm S)
  case 0
  then show ?case by simp
next
  case (Suc k)
  let ?res = "\<lambda>nm S r. case fst r of
         Some x \<Rightarrow> \<exists>m. (nm, m) \<in> E\<^sup>* \<and> x \<in> direct_indexes (w_byDestination w) ty m parent
       | None \<Rightarrow> (nm \<in> set (snd r) \<or> E `` {nm} = {}) \<and> indexes_seen E parent S (snd r)"
  consider "\<not> has_input (w_byDestination w) ty nm" | "nm \<in> set S"
    | "has_input (w_byDestination w) ty nm" "nm \<notin> set S" by blast
  then show ?case
  proof cases
    case 1
    then have "E `` {nm} = {}" by (auto simp: E has_input_def conn_edges_def)
    with 1 parent show ?thesis by (simp add: indexes_seen_def)
  next
    case 2
    with parent show ?thesis by (simp add: indexes_seen_def)
  next
    case 3
    define cs where "cs = indexed_conns (w_byDestination w) ty nm"
    have edges: "(\<lambda>(i, c). conn_node c) ` set cs = E `` {nm}" unfolding cs_def E by (rule indexed_conns_edges)
    let ?f = "\<lambda>(i, connection) (found, checked).
          case found of
            Some r \<Rightarrow> Inr (Some r, checked)
          | None \<Rightarrow>
              if parent = conn_node connection
              then Inr (Some \<lparr>sourceIndex = conn_index connection, destinationIndex = i\<rparr>, checked)
              else if conn_node connection \<in> set checked then Inr (None, checked)
              else getNodeConnectionIndexes k w (conn_node connection) parent ty (-1) checked"
    have eq: "getNodeConnectionIndexes (Suc k) w nm parent ty (-1) S = rfold ?f cs (None, S @ [nm])"
    proof -
      have nd: "next_depth (-1) = -1" by (simp add: next_depth_def)
      show ?thesis using 3 parent unfolding getNodeConnectionIndexes.simps nd cs_def by auto
    qed
    define P where "P pre r = (case fst r of
         Some x \<Rightarrow> \<exists>m. (nm, m) \<in> E\<^sup>* \<and> x \<in> direct_indexes (w_byDestination w) ty m parent
       | None \<Rightarrow> indexes_seen E parent (S @ [nm]) (snd r) \<and>
           parent \<notin> (\<lambda>(i, c). conn_node c) ` set pre \<and>
           (\<lambda>(i, c). conn_node c) ` set pre \<subseteq> set (snd r) \<union> {z. E `` {z} = {}})"
      for pre :: "(nat \<times> IConnection) list" and r :: "INodeConnection option \<times> string list"
    have "\<exists>r. rfold ?f cs (None, S @ [nm]) = Inr r \<and> P cs r"
    proof (rule rfold_total_prefix)
      show "P [] (None, S @ [nm])" by (simp add: P_def indexes_seen_def)
    next
      fix pre x rest r
      assume split: "cs = pre @ x # rest" and inv: "P pre r"
      obtain i c where x: "x = (i, c)" by (cases x)
      obtain fnd S1 where r: "r = (fnd, S1)" by (cases r)
      have mem: "(i, c) \<in> set cs" by (simp add: split x)
      then have edge: "(nm, conn_node c) \<in> E" using edges by force
      show "\<exists>r'. ?f x r = Inr r' \<and> P (pre @ [x]) r'"
      proof (cases fnd)
        case (Some y)
        with inv r x show ?thesis by (simp add: P_def)
      next
        case None
        then have s: "indexes_seen E parent (S @ [nm]) S1" "parent \<notin> (\<lambda>(i, c). conn_node c) ` set pre"
          "(\<lambda>(i, c). conn_node c) ` set pre \<subseteq> set S1 \<union> {z. E `` {z} = {}}"
          using inv r unfolding P_def by simp_all
        consider "parent = conn_node c" | "parent \<noteq> conn_node c" "conn_node c \<in> set S1"
          | "parent \<noteq> conn_node c" "conn_node c \<notin> set S1" by blast
        then show ?thesis
        proof cases
          case 1
          have "\<lparr>sourceIndex = conn_index c, destinationIndex = i\<rparr> \<in> direct_indexes (w_byDestination w) ty nm parent"
            using mem 1 by (auto simp: direct_indexes_def cs_def)
          with 1 None r x show ?thesis by (auto simp: P_def)
        next
          case 2
          with None r x s show ?thesis by (auto simp: P_def)
        next
          case new: 3
          have "nm \<in> K" using 3(1) by (auto simp: K has_input_def js_keys_set split: option.splits)
          then have "K - set S1 \<subset> K - set S" using s(1) 3(2) by (auto simp: indexes_seen_def)
          then have "card (K - set S1) < card (K - set S)" by (rule psubset_card_mono[rotated]) (simp add: K)
          then have "card (K - set S1) < k" using Suc.prems by simp
          from Suc.IH[OF this, of "conn_node c"] obtain r' S2 where
            r': "getNodeConnectionIndexes k w (conn_node c) parent ty (-1) S1 = Inr (r', S2)"
            "case r' of
              Some x \<Rightarrow> \<exists>m. (conn_node c, m) \<in> E\<^sup>* \<and> x \<in> direct_indexes (w_byDestination w) ty m parent
            | None \<Rightarrow> (conn_node c \<in> set S2 \<or> E `` {conn_node c} = {}) \<and> indexes_seen E parent S1 S2" by auto
          have "P (pre @ [x]) (r', S2)"
          proof (cases r')
            case (Some y)
            with r'(2) edge show ?thesis by (auto simp: P_def intro: converse_rtrancl_into_rtrancl)
          next
            case None
            with r'(2) have n: "conn_node c \<in> set S2 \<or> E `` {conn_node c} = {}" "indexes_seen E parent S1 S2" by simp_all
            have "indexes_seen E parent (S @ [nm]) S2" using indexes_seen_trans[OF s(1) n(2)] .
            moreover have "set S1 \<subseteq> set S2" using n(2) unfolding indexes_seen_def by blast
            ultimately show ?thesis using s(2,3) n(1) new(1) None x by (auto simp: P_def)
          qed
          with r' new None r x show ?thesis by simp
        qed
      qed
    qed
    then obtain r S' where r: "rfold ?f cs (None, S @ [nm]) = Inr (r, S')" "P cs (r, S')" by (metis surj_pair)
    have "?res nm S (r, S')"
    proof (cases r)
      case None
      with r(2) have s: "indexes_seen E parent (S @ [nm]) S'" "parent \<notin> E `` {nm}"
        "E `` {nm} \<subseteq> set S' \<union> {z. E `` {z} = {}}" unfolding P_def edges by simp_all
      have "parent \<notin> E `` {y} \<and> E `` {y} \<subseteq> set S' \<union> {z. E `` {z} = {}}" if y: "y \<in> set S' - set S" for y
      proof (cases "y = nm")
        case True
        with s(2,3) show ?thesis by blast
      next
        case False
        with y have "y \<in> set S' - set (S @ [nm])" by simp
        with s(1) show ?thesis unfolding indexes_seen_def by blast
      qed
      then have "nm \<in> set S'" "indexes_seen E parent S S'"
        using s(1) unfolding indexes_seen_def by auto
      with None show ?thesis by simp
    qed (use r(2) in \<open>simp add: P_def\<close>)
    then have "case r of
         Some x \<Rightarrow> \<exists>m. (nm, m) \<in> E\<^sup>* \<and> x \<in> direct_indexes (w_byDestination w) ty m parent
       | None \<Rightarrow> (nm \<in> set S' \<or> E `` {nm} = {}) \<and> indexes_seen E parent S S'" unfolding fst_conv snd_conv .
    then show ?thesis unfolding eq r(1) by blast
  qed
qed

text \<open>
  Without a depth limit, indexes are found if and only if the parent exists and connections
  of the type lead from it to the node; they are those of a connection from the parent.
\<close>

lemma connectionIndexes_found:
  assumes "w_getNode w parent \<noteq> None"
  shows "\<exists>r. connectionIndexes w nm parent ty (-1) = Inr r \<and>
    (r \<noteq> None \<longleftrightarrow> (nm, parent) \<in> (conn_edges (w_byDestination w) (OfType ty))\<^sup>+) \<and>
    (\<forall>x. r = Some x \<longrightarrow> (\<exists>m. (nm, m) \<in> (conn_edges (w_byDestination w) (OfType ty))\<^sup>* \<and>
       x \<in> direct_indexes (w_byDestination w) ty m parent))"
proof -
  let ?E = "conn_edges (w_byDestination w) (OfType ty)"
  have "card (set (js_keys (w_byDestination w)) - set []) < Suc (Suc (length (w_byDestination w)))"
    using card_length[of "js_keys (w_byDestination w)"] by (simp add: js_keys_def)
  from getNodeConnectionIndexes_result[OF assms refl refl this, of nm ty] obtain r S where
    r: "getNodeConnectionIndexes (Suc (Suc (length (w_byDestination w)))) w nm parent ty (-1) [] = Inr (r, S)"
    "case r of
         Some x \<Rightarrow> \<exists>m. (nm, m) \<in> ?E\<^sup>* \<and> x \<in> direct_indexes (w_byDestination w) ty m parent
       | None \<Rightarrow> (nm \<in> set S \<or> ?E `` {nm} = {}) \<and> indexes_seen ?E parent [] S" by auto
  have some: "(nm, parent) \<in> ?E\<^sup>+" if x: "(nm, m) \<in> ?E\<^sup>*" "x \<in> direct_indexes (w_byDestination w) ty m parent" for m x
  proof -
    obtain i c where "(i, c) \<in> set (indexed_conns (w_byDestination w) ty m)" "conn_node c = parent"
      using x(2) by (auto simp: direct_indexes_def)
    then have "(m, parent) \<in> ?E" using indexed_conns_edges[of "w_byDestination w" ty m] by force
    with x(1) show ?thesis by (rule rtrancl_into_trancl1)
  qed
  have none: "(nm, parent) \<notin> ?E\<^sup>+" if "r = None"
  proof
    assume "(nm, parent) \<in> ?E\<^sup>+"
    then obtain m where m: "(nm, m) \<in> ?E\<^sup>*" "(m, parent) \<in> ?E" by (meson tranclD2)
    have s: "nm \<in> set S \<union> {z. ?E `` {z} = {}}" "indexes_seen ?E parent [] S" using r(2) that by auto
    have "m \<in> set S \<union> {z. ?E `` {z} = {}}"
      using m(1)
    proof (induction rule: rtrancl_induct)
      case (step y z)
      then show ?case using s(2) unfolding indexes_seen_def by auto
    qed (rule s(1))
    with m(2) s(2) show False unfolding indexes_seen_def by auto
  qed
  have "connectionIndexes w nm parent ty (-1) = Inr r" by (simp add: connectionIndexes_def r(1) del: getNodeConnectionIndexes.simps)
  with r(2) some none show ?thesis by (cases r) auto
qed

section \<open>getParentMainInputNode\<close>

text \<open>The first connection of another type than main that names a node.\<close>

definition first_utility_target :: "INodeConnections \<Rightarrow> string option" where
  "first_utility_target ic =
     map_option conn_node (List.find (\<lambda>c. conn_node c \<noteq> [])
       (concat (map (\<lambda>(ty, arr). if ty = MainConn then [] else flat_conns arr) ic)))"

function getParentMainInputNode :: "Workflow \<Rightarrow> INode \<Rightarrow> string list \<Rightarrow> INode result" where
  "getParentMainInputNode w n visitedNodes =
     (if node_name n \<in> set visitedNodes then Inr n
      else case map_of (w_bySource w) (node_name n) of
        None \<Rightarrow> Inr n
      | Some nodeConnections \<Rightarrow>
          case first_utility_target nodeConnections of
            None \<Rightarrow> Inr n
          | Some target \<Rightarrow>
              case w_getNode w target of
                None \<Rightarrow> Inl (ApplicationError (''Node \"'' @ target @ ''\" not found''))
              | Some returnNode \<Rightarrow> getParentMainInputNode w returnNode (set_add (node_name n) visitedNodes))"
  by pat_completeness auto

termination getParentMainInputNode
proof (relation "measure (\<lambda>(w, n, v). card (set (js_keys (w_bySource w)) - set v))")
  fix w :: Workflow and n m :: INode and v ic t
  assume "node_name n \<notin> set v" "map_of (w_bySource w) (node_name n) = Some ic"
  then have "node_name n \<in> set (js_keys (w_bySource w)) - set v" by (auto simp: js_keys_set)
  then have "set (js_keys (w_bySource w)) - set (set_add (node_name n) v) \<subset> set (js_keys (w_bySource w)) - set v" by auto
  then have "card (set (js_keys (w_bySource w)) - set (set_add (node_name n) v)) < card (set (js_keys (w_bySource w)) - set v)"
    by (rule psubset_card_mono[rotated]) simp
  then show "((w, m, set_add (node_name n) v), w, n, v) \<in> measure (\<lambda>(w, n, v). card (set (js_keys (w_bySource w)) - set v))"
    by simp
qed simp

declare getParentMainInputNode.simps [simp del]

definition utility_edges :: "Workflow \<Rightarrow> (string \<times> string) set" where
  "utility_edges w = conn_edges (w_bySource w) AllNonMain"

lemma find_SomeD: "List.find P xs = Some x \<Longrightarrow> x \<in> set xs \<and> P x"
  by (induction xs) (auto split: if_splits)

lemma first_utility_target_edge:
  assumes "js_wf ic" "map_of (w_bySource w) a = Some ic" "first_utility_target ic = Some t"
  shows "(a, t) \<in> utility_edges w"
proof -
  obtain c where c: "List.find (\<lambda>c. conn_node c \<noteq> []) (concat (map (\<lambda>(ty, arr). if ty = MainConn then [] else flat_conns arr) ic)) = Some c"
    "t = conn_node c" using assms(3) by (auto simp: first_utility_target_def)
  from find_SomeD[OF c(1)] obtain ty arr where "(ty, arr) \<in> set ic" "ty \<noteq> MainConn" "c \<in> set (flat_conns arr)"
    by (auto split: if_splits)
  moreover from this(1) have "map_of ic ty = Some arr" using assms(1) by (simp add: js_get_iff)
  moreover from calculation(4) have "ty \<in> set (js_keys ic)" unfolding js_keys_set by blast
  ultimately show ?thesis using assms(2) c(2)
    unfolding utility_edges_def conn_edges_def
    by (auto intro!: exI[of _ ic] exI[of _ ty] exI[of _ arr] exI[of _ c])
qed

text \<open>
  The node returned is reached by connections of other types than main, and it has none that
  leads on, or the way came back to it.
\<close>

lemma getParentMainInputNode_end:
  assumes "wf_table (w_bySource w)" and names: "\<And>k m. w_getNode w k = Some m \<Longrightarrow> node_name m = k"
    and "getParentMainInputNode w n V = Inr r"
  shows "(node_name n, node_name r) \<in> (utility_edges w)\<^sup>* \<and>
    (node_name r \<in> set V \<or> (node_name r, node_name r) \<in> (utility_edges w)\<^sup>+ \<or>
     (case map_of (w_bySource w) (node_name r) of None \<Rightarrow> True | Some ic \<Rightarrow> first_utility_target ic = None))"
  using assms
proof (induction w n V rule: getParentMainInputNode.induct)
  case (1 w n V)
  show ?case
  proof (cases "node_name n \<in> set V \<or> map_of (w_bySource w) (node_name n) = None \<or>
      (\<exists>ic. map_of (w_bySource w) (node_name n) = Some ic \<and> first_utility_target ic = None)")
    case True
    then have "getParentMainInputNode w n V = Inr n" by (subst getParentMainInputNode.simps) auto
    then have "r = n" using "1.prems"(3) by simp
    with True show ?thesis by auto
  next
    case False
    then obtain ic t where ic: "node_name n \<notin> set V" "map_of (w_bySource w) (node_name n) = Some ic"
      "first_utility_target ic = Some t" by auto
    have "js_wf ic" using "1.prems"(1) map_of_SomeD[OF ic(2)] by (auto simp: wf_table_def)
    from first_utility_target_edge[OF this ic(2,3)] have edge: "(node_name n, t) \<in> utility_edges w" .
    obtain m where m: "w_getNode w t = Some m" "getParentMainInputNode w m (set_add (node_name n) V) = Inr r"
      using "1.prems"(3) ic by (subst (asm) getParentMainInputNode.simps) (auto split: option.splits)
    have name: "node_name m = t" using "1.prems"(2)[OF m(1)] .
    from "1.IH"[OF ic(1,2,3) m(1) "1.prems"(1,2) m(2)]
    have IH: "(t, node_name r) \<in> (utility_edges w)\<^sup>*"
      "node_name r \<in> set (set_add (node_name n) V) \<or> (node_name r, node_name r) \<in> (utility_edges w)\<^sup>+ \<or>
       (case map_of (w_bySource w) (node_name r) of None \<Rightarrow> True | Some ic \<Rightarrow> first_utility_target ic = None)"
      unfolding name by blast+
    have "(node_name r, node_name r) \<in> (utility_edges w)\<^sup>+" if "node_name r = node_name n"
      using edge IH(1) that by auto
    with IH edge show ?thesis by auto
  qed
qed

section \<open>getConnectionsBetweenNodes\<close>

definition getConnectionsBetweenNodes :: "Workflow \<Rightarrow> string list \<Rightarrow> string list \<Rightarrow> (IConnection \<times> IConnection) list" where
  "getConnectionsBetweenNodes w sources targets =
     concat (map (\<lambda>source.
       concat (map (\<lambda>(ty, arr).
         concat (map (\<lambda>(i, o').
           map (\<lambda>c. (\<lparr>conn_node = source, conn_type = ty, conn_index = i\<rparr>, c))
             (filter (\<lambda>c. conn_node c \<in> set targets) (case o' of None \<Rightarrow> [] | Some l \<Rightarrow> l)))
           (List.enumerate 0 arr)))
         (case map_of (w_bySource w) source of None \<Rightarrow> [] | Some ic \<Rightarrow> ic)))
       sources)"

text \<open>The pairs are the connections stored from a source to a target, with their place.\<close>

lemma getConnectionsBetweenNodes_exact:
  assumes "wf_table (w_bySource w)"
  shows "(a, b) \<in> set (getConnectionsBetweenNodes w sources targets) \<longleftrightarrow>
    conn_node a \<in> set sources \<and> conn_node b \<in> set targets \<and>
    b \<in> set (lookup_conns (w_bySource w) (conn_node a) (conn_type a) (conn_index a))"
proof -
  have inner: "(ty, arr) \<in> set ic \<longleftrightarrow> map_of ic ty = Some arr" if "map_of (w_bySource w) s = Some ic" for s ic ty arr
    using assms map_of_SomeD[OF that] by (auto simp: wf_table_def js_get_iff)
  have group: "(\<exists>o'. (i, o') \<in> set (List.enumerate 0 arr) \<and> b \<in> set (case o' of None \<Rightarrow> [] | Some l \<Rightarrow> l)) \<longleftrightarrow>
      b \<in> set (case array_get arr i of None \<Rightarrow> [] | Some l \<Rightarrow> l)" for i and arr :: NodeInputConnections
    by (auto simp: in_set_enumerate_eq array_get_def)
  have mem: "(a, b) \<in> set (getConnectionsBetweenNodes w sources targets) \<longleftrightarrow>
      conn_node b \<in> set targets \<and> conn_node a \<in> set sources \<and> (\<exists>arr. (conn_type a, arr) \<in>
        set (case map_of (w_bySource w) (conn_node a) of None \<Rightarrow> [] | Some ic \<Rightarrow> ic) \<and>
      (\<exists>o'. (conn_index a, o') \<in> set (List.enumerate 0 arr) \<and> b \<in> set (case o' of None \<Rightarrow> [] | Some l \<Rightarrow> l)))"
    unfolding getConnectionsBetweenNodes_def by (cases a) (fastforce simp: image_iff)
  show ?thesis
  proof (cases "map_of (w_bySource w) (conn_node a)")
    case (Some ic)
    then show ?thesis unfolding mem group
      by (cases "map_of ic (conn_type a)") (auto simp: lookup_conns_def inner)
  qed (simp add: mem lookup_conns_def)
qed

section \<open>hasPath\<close>

definition connection_types :: "Workflow \<Rightarrow> NodeConnectionType list" where
  "connection_types w = set_of_array (concat (map js_keys (js_values (w_bySource w) @ js_values (w_byDestination w))))"

text \<open>What a visited node adds to the queue: by type, its children, then its parents, not visited yet.\<close>

definition path_neighbours :: "Workflow \<Rightarrow> string list \<Rightarrow> string \<Rightarrow> string list" where
  "path_neighbours w visited nodeName =
     concat (map (\<lambda>ty.
         filter (\<lambda>m. m \<notin> set visited) (w_getChildNodes w nodeName (OfType ty) (-1)) @
         filter (\<lambda>m. m \<notin> set visited) (w_getParentNodes w nodeName (OfType ty) (-1)))
       (connection_types w))"

function pathLoop :: "Workflow \<Rightarrow> string \<Rightarrow> int \<Rightarrow> string list \<Rightarrow> (string \<times> int) list \<Rightarrow> bool" where
  "pathLoop w toNodeName maxDepth visited [] = False"
| "pathLoop w toNodeName maxDepth visited ((nodeName, depth) # queue) =
     (if depth > maxDepth then pathLoop w toNodeName maxDepth visited queue
      else if nodeName \<in> set visited then pathLoop w toNodeName maxDepth visited queue
      else if nodeName = toNodeName then True
      else let visited = set_add nodeName visited
           in pathLoop w toNodeName maxDepth visited
                (queue @ map (\<lambda>m. (m, depth + 1)) (path_neighbours w visited nodeName)))"
  by pat_completeness auto

definition path_keys :: "Workflow \<Rightarrow> string set" where
  "path_keys w = set (js_keys (w_bySource w)) \<union> set (js_keys (w_byDestination w))"

lemma no_neighbours: "nm \<notin> path_keys w \<Longrightarrow> path_neighbours w visited nm = []"
proof -
  assume "nm \<notin> path_keys w"
  then have "map_of (w_bySource w) nm = None" "map_of (w_byDestination w) nm = None"
    by (auto simp: path_keys_def js_keys_set domIff)
  then have "getConnectedNodes (w_bySource w) nm (OfType ty) (-1) [] = []"
    "getConnectedNodes (w_byDestination w) nm (OfType ty) (-1) [] = []" for ty
    by (simp_all add: getConnectedNodes.simps)
  then show ?thesis
    by (simp add: path_neighbours_def w_getChildNodes_def w_getParentNodes_def getChildNodes_def getParentNodes_def)
qed

termination pathLoop
proof (relation "measures [\<lambda>(w, t, d, v, q). card (path_keys w - set v), \<lambda>(w, t, d, v, q). length q]")
  fix w :: Workflow and t nm :: string and d dep :: int and v :: "string list" and q and v'
  assume fresh: "nm \<notin> set v" and v': "v' = set_add nm v"
  show "((w, t, d, v', q @ map (\<lambda>m. (m, dep + 1)) (path_neighbours w v' nm)), w, t, d, v, (nm, dep) # q)
      \<in> measures [\<lambda>(w, t, d, v, q). card (path_keys w - set v), \<lambda>(w, t, d, v, q). length q]"
  proof (cases "nm \<in> path_keys w")
    case True
    then have "path_keys w - set v' \<subset> path_keys w - set v" using fresh v' by auto
    then have "card (path_keys w - set v') < card (path_keys w - set v)"
      by (rule psubset_card_mono[rotated]) (simp add: path_keys_def)
    then show ?thesis by simp
  next
    case False
    then have "path_keys w - set v' = path_keys w - set v" using v' by auto
    with False show ?thesis by (simp add: no_neighbours)
  qed
qed auto

declare pathLoop.simps(2) [simp del]

definition w_hasPath :: "Workflow \<Rightarrow> string \<Rightarrow> string \<Rightarrow> int \<Rightarrow> bool" where
  "w_hasPath w fromNodeName toNodeName maxDepth =
     (if fromNodeName = toNodeName then True
      else pathLoop w toNodeName maxDepth [] [(fromNodeName, 0)])"

definition any_edges :: "Workflow \<Rightarrow> (string \<times> string) set" where
  "any_edges w = (\<Union>ty. conn_edges (w_bySource w) (OfType ty) \<union> conn_edges (w_byDestination w) (OfType ty))"

lemma path_neighbours_edges: "m \<in> set (path_neighbours w v n) \<Longrightarrow> (n, m) \<in> (any_edges w)\<^sup>*"
proof -
  assume "m \<in> set (path_neighbours w v n)"
  then obtain ty where "(n, m) \<in> (conn_edges (w_bySource w) (OfType ty))\<^sup>+ \<or>
      (n, m) \<in> (conn_edges (w_byDestination w) (OfType ty))\<^sup>+"
    by (auto simp: path_neighbours_def w_getChildNodes_def w_getParentNodes_def getChildNodes_def
        getParentNodes_def getConnectedNodes_reachable)
  moreover have "conn_edges (w_bySource w) (OfType ty) \<subseteq> any_edges w"
    "conn_edges (w_byDestination w) (OfType ty) \<subseteq> any_edges w" by (auto simp: any_edges_def)
  ultimately have "(n, m) \<in> (any_edges w)\<^sup>+" by (meson trancl_mono)
  then show ?thesis by (rule trancl_into_rtrancl)
qed

lemma pathLoop_path: "pathLoop w t d v q \<Longrightarrow> \<exists>n \<in> fst ` set q. (n, t) \<in> (any_edges w)\<^sup>*"
proof (induction w t d v q rule: pathLoop.induct)
  case (2 w t d v nm dep q)
  consider "dep > d" | "\<not> dep > d" "nm \<in> set v" | "\<not> dep > d" "nm \<notin> set v" "nm = t"
    | "\<not> dep > d" "nm \<notin> set v" "nm \<noteq> t" by blast
  then show ?case
  proof cases
    case 4
    then have "pathLoop w t d (set_add nm v) (q @ map (\<lambda>m. (m, dep + 1)) (path_neighbours w (set_add nm v) nm))"
      using "2.prems" by (simp add: pathLoop.simps(2) Let_def)
    from "2.IH"(3)[OF 4 refl this] obtain n where
      n: "n \<in> fst ` set q \<or> n \<in> set (path_neighbours w (set_add nm v) nm)" "(n, t) \<in> (any_edges w)\<^sup>*"
      by (auto simp: image_Un image_image)
    then show ?thesis
    proof (cases "n \<in> fst ` set q")
      case False
      with n have "(nm, t) \<in> (any_edges w)\<^sup>*" using path_neighbours_edges by (meson rtrancl_trans)
      then show ?thesis by simp
    qed (use n in auto)
  qed (use 2 in \<open>auto simp: pathLoop.simps(2)\<close>)
qed simp

text \<open>A path that is found consists of connections, in either direction.\<close>

lemma w_hasPath_sound: "w_hasPath w a b d \<Longrightarrow> (a, b) \<in> (any_edges w)\<^sup>*"
  using pathLoop_path[of w b d "[]" "[(a, 0)]"] by (auto simp: w_hasPath_def split: if_splits)

text \<open>
  The depth counts steps to all descendants or ancestors at once: a chain of three connections
  is a path of depth 1.
\<close>

definition chain_workflow :: Workflow where
  "chain_workflow =
     (let to' = (\<lambda>nm. [(MainConn, [Some [\<lparr>conn_node = nm, conn_type = MainConn, conn_index = 0\<rparr>]])]);
          src = [(''a'', to' ''b''), (''b'', to' ''c''), (''c'', to' ''d'')]
      in new_workflow (\<lambda>_ _. None)
        \<lparr>wp_id = ''w'', wp_name = None,
         wp_nodes = [plain_node 0 ''a'' ''t'', plain_node 1 ''b'' ''t'', plain_node 2 ''c'' ''t'', plain_node 3 ''d'' ''t''],
         wp_connections = src, wp_active = False, wp_nodeTypes = (\<lambda>_ _. None), wp_staticData = None,
         wp_settings = None, wp_pinData = None\<rparr>)"

lemma w_hasPath_ignores_length: "w_hasPath chain_workflow ''a'' ''d'' 1"
  by code_simp

section \<open>Renaming a node\<close>

text \<open>The tables after a rename: keys and targets have the new name in place of the old one.\<close>

definition renamed :: "string \<Rightarrow> string \<Rightarrow> string \<Rightarrow> string" where
  "renamed old new nm = (if nm = old then new else nm)"

definition rename_conn :: "string \<Rightarrow> string \<Rightarrow> IConnection \<Rightarrow> IConnection" where
  "rename_conn old new c = c\<lparr>conn_node := renamed old new (conn_node c)\<rparr>"

lemma rename_targets_conn:
  "rename_targets old new cs =
     map (\<lambda>(src, ic). (src, map (\<lambda>(ty, arr). (ty, map (map_option (map (rename_conn old new))) arr)) ic)) cs"
proof -
  have "(\<lambda>c :: IConnection. if conn_node c = old then c\<lparr>conn_node := new\<rparr> else c) = rename_conn old new"
    by (auto simp: rename_conn_def renamed_def fun_eq_iff)
  then show ?thesis by (simp add: rename_targets_def)
qed

lemma map_of_map_pair: "map_of (map (\<lambda>(k, v). (k, f v)) m) k = map_option f (map_of m k)"
  by (induction m) auto

lemma lookup_rename_targets:
  "lookup_conns (rename_targets old new cs) a ty i = map (rename_conn old new) (lookup_conns cs a ty i)"
  unfolding rename_targets_conn lookup_conns_def map_of_map_pair
  by (auto simp: map_of_map_pair array_get_def split: option.splits)

lemma lookup_rename_key:
  assumes "old \<noteq> new" "map_of cs new = None" "a \<noteq> new"
  shows "lookup_conns (rename_key old new cs (\<lambda>ic. ic)) (renamed old new a) ty i = lookup_conns cs a ty i"
  using assms by (auto simp: lookup_conns_def rename_key_def renamed_def split: option.splits)

text \<open>C36: A node renamed to a name that is not restricted and that neither a node nor stored connections have yet keeps its
  place: it is found under the new name only, and in all other nodes only the parameters are rewritten. No connection
  is stored under the old name any more, neither as source nor as target; those that were are stored under the new
  name, all others as before, each with its targets renamed; the table by destination is computed again.\<close>

lemma renameNode_renames:
  assumes "toLowerCase new \<notin> set (map toLowerCase restrictedKeys)" and "old \<noteq> new"
    and "map_of (w_nodes w) old = Some n" "map_of (w_nodes w) new = None" "map_of (w_bySource w) new = None"
  shows "\<exists>w'. renameNode apply_patterns old new w = Inr w' \<and>
    w_getNode w' old = None \<and> (\<exists>n'. w_getNode w' new = Some n' \<and> node_name n' = new \<and> node_ref n' = node_ref n) \<and>
    (\<forall>k. k \<noteq> old \<and> k \<noteq> new \<longrightarrow> w_getNode w' k = map_option (rename_parameters apply_patterns) (w_getNode w k)) \<and>
    (\<forall>a ty i. a \<noteq> new \<longrightarrow> lookup_conns (w_bySource w') (renamed old new a) ty i =
       map (rename_conn old new) (lookup_conns (w_bySource w) a ty i)) \<and>
    map_of (w_bySource w') old = None \<and>
    (\<forall>a ty i. \<forall>c \<in> set (lookup_conns (w_bySource w') a ty i). conn_node c \<noteq> old) \<and>
    w_byDestination w' = mapConnectionsByDestination (w_bySource w')"
proof -
  define nodes where "nodes = map (\<lambda>(k, n). (k, rename_parameters apply_patterns n))
    (rename_key old new (w_nodes w) (\<lambda>n. n\<lparr>node_name := new\<rparr>))"
  define src where "src = rename_targets old new (rename_key old new (w_bySource w) (\<lambda>ic. ic))"
  have "renameNode apply_patterns old new w =
      Inr (w\<lparr>w_nodes := nodes, w_bySource := src, w_byDestination := mapConnectionsByDestination src\<rparr>)"
    using assms(1) by (simp add: renameNode_def Let_def nodes_def src_def)
  moreover have "map_of nodes new = Some (rename_parameters apply_patterns (n\<lparr>node_name := new\<rparr>))" "map_of nodes old = None"
    using assms(2-4) by (simp_all add: nodes_def map_of_map_pair rename_key_def)
  moreover have "node_name (rename_parameters apply_patterns m) = node_name m"
    "node_ref (rename_parameters apply_patterns m) = node_ref m" for m
    by (simp_all add: rename_parameters_def Let_def)
  moreover have "lookup_conns src (renamed old new a) ty i = map (rename_conn old new) (lookup_conns (w_bySource w) a ty i)"
    if "a \<noteq> new" for a ty i
    using lookup_rename_key[OF assms(2,5) that, of ty i] by (simp add: src_def lookup_rename_targets)
  moreover have "map_of src old = None"
  proof -
    have "map_of (rename_targets old new cs) a = None" if "map_of cs a = None" for cs a
      using that by (induction cs) (auto simp: rename_targets_def)
    moreover have "map_of (rename_key old new (w_bySource w) (\<lambda>ic. ic)) old = None"
      by (cases "map_of (w_bySource w) old") (simp_all add: rename_key_def)
    ultimately show ?thesis by (simp add: src_def)
  qed
  moreover have "conn_node c \<noteq> old" if "c \<in> set (lookup_conns src a ty i)" for c a ty i
    using that assms(2) by (auto simp: src_def lookup_rename_targets rename_conn_def renamed_def split: if_splits)
  moreover have "map_of nodes k = map_option (rename_parameters apply_patterns) (map_of (w_nodes w) k)" if "k \<noteq> old" "k \<noteq> new" for k
    using assms(3) that by (simp add: nodes_def map_of_map_pair rename_key_def)
  ultimately show ?thesis by (simp add: w_getNode_def getNodeByName_def)
qed

lemma rename_key_same: "map_of (rename_key nm nm m f) nm = None"
  by (cases "map_of m nm") (simp_all add: rename_key_def)

text \<open>Renaming a node to its own name deletes it, and its outgoing connections.\<close>

lemma renameNode_same_name:
  assumes "toLowerCase nm \<notin> set (map toLowerCase restrictedKeys)" "map_of (w_nodes w) nm = Some n"
  shows "\<exists>w'. renameNode apply_patterns nm nm w = Inr w' \<and> w_getNode w' nm = None \<and>
    (\<forall>ty i. lookup_conns (w_bySource w') nm ty i = [])"
proof -
  have "renamed nm nm nm = nm" by (simp add: renamed_def)
  then show ?thesis using assms(1)
    by (auto simp: rename_key_same renameNode_def Let_def w_getNode_def getNodeByName_def map_of_map_pair lookup_rename_targets)
      (simp_all add: lookup_conns_def rename_key_same)
qed

text \<open>A \<open>null\<close> in the parameters becomes an empty object.\<close>

lemma renameNodeInParameterValue_null: "renameNodeInParameterValue f has JNull = JObj []"
  by simp

text \<open>Inside an array the content flag is lost: strings there are only renamed in expressions.\<close>

lemma renameNodeInParameterValue_array:
  "s \<noteq> [] \<Longrightarrow> hd s \<noteq> CHR ''='' \<Longrightarrow> renameNodeInParameterValue f True (JArr [JStr s]) = JArr [JStr s]"
  by simp

section \<open>Witnesses\<close>

lemma line_names: "w_getNode line_workflow k = Some m \<Longrightarrow> node_name m = k"
proof -
  assume "w_getNode line_workflow k = Some m"
  then have "(k, m) \<in> set (w_nodes line_workflow)" by (auto simp: w_getNode_def getNodeByName_def dest: map_of_SomeD)
  moreover have "list_all (\<lambda>(k, m). node_name m = k) (w_nodes line_workflow)" by code_simp
  ultimately show ?thesis by (auto simp: list_all_iff)
qed

lemma connectionIndexes_found_witness:
  "\<exists>x. connectionIndexes line_workflow ''c'' ''a'' MainConn (-1) = Inr (Some x) \<and>
     (''c'', ''a'') \<in> (conn_edges (w_byDestination line_workflow) (OfType MainConn))\<^sup>+"
proof -
  have "(case w_getNode line_workflow ''a'' of None \<Rightarrow> False | Some _ \<Rightarrow> True)" by code_simp
  then have hyp: "w_getNode line_workflow ''a'' \<noteq> None" by (auto split: option.splits)
  have "connectionIndexes line_workflow ''c'' ''a'' MainConn (-1) \<noteq> Inr None" by code_simp
  with connectionIndexes_found[OF hyp, of "''c''" MainConn] show ?thesis by auto
qed

lemma getParentMainInputNode_end_witness:
  "\<exists>r. getParentMainInputNode line_workflow (plain_node 0 ''a'' ''t'') [] = Inr r \<and>
     (''a'', node_name r) \<in> (utility_edges line_workflow)\<^sup>*"
proof -
  have wf: "wf_table (w_bySource line_workflow)" by code_simp
  have "case getParentMainInputNode line_workflow (plain_node 0 ''a'' ''t'') [] of Inl _ \<Rightarrow> False | Inr _ \<Rightarrow> True"
    by code_simp
  then obtain r where r: "getParentMainInputNode line_workflow (plain_node 0 ''a'' ''t'') [] = Inr r"
    by (auto split: sum.splits)
  have "node_name (plain_node 0 ''a'' ''t'') = ''a''" by code_simp
  with getParentMainInputNode_end[OF wf line_names r] r show ?thesis by metis
qed

lemma getConnectionsBetweenNodes_exact_witness:
  "(\<lparr>conn_node = ''a'', conn_type = MainConn, conn_index = 0\<rparr>, \<lparr>conn_node = ''b'', conn_type = MainConn, conn_index = 0\<rparr>)
     \<in> set (getConnectionsBetweenNodes line_workflow [''a'', ''b''] [''b''])"
proof -
  have wf: "wf_table (w_bySource line_workflow)" by code_simp
  have "\<lparr>conn_node = ''b'', conn_type = MainConn, conn_index = 0\<rparr> \<in> set (lookup_conns (w_bySource line_workflow) ''a'' MainConn 0)"
    by code_simp
  then show ?thesis unfolding getConnectionsBetweenNodes_exact[OF wf] by simp
qed

lemma w_hasPath_sound_witness: "(''a'', ''d'') \<in> (any_edges chain_workflow)\<^sup>*"
proof -
  have "w_hasPath chain_workflow ''a'' ''d'' 1" by code_simp
  then show ?thesis by (rule w_hasPath_sound)
qed

lemma renameNode_renames_witness:
  "\<exists>w'. renameNode (\<lambda>s. s) ''b'' ''x'' line_workflow = Inr w' \<and> w_getNode w' ''b'' = None \<and>
     lookup_conns (w_bySource w') ''x'' MainConn 0 = [\<lparr>conn_node = ''c'', conn_type = MainConn, conn_index = 0\<rparr>]"
proof -
  have r: "toLowerCase ''x'' \<notin> set (map toLowerCase restrictedKeys)" by code_simp
  have "js_has (w_nodes line_workflow) ''b''" by code_simp
  then obtain n where n: "map_of (w_nodes line_workflow) ''b'' = Some n" unfolding js_has_def by blast
  have free: "\<not> js_has (w_nodes line_workflow) ''x''" "\<not> js_has (w_bySource line_workflow) ''x''" by code_simp+
  have new: "map_of (w_nodes line_workflow) ''x'' = None" "map_of (w_bySource line_workflow) ''x'' = None"
    using free unfolding js_has_def by blast+
  have old: "lookup_conns (w_bySource line_workflow) ''b'' MainConn 0 = [\<lparr>conn_node = ''c'', conn_type = MainConn, conn_index = 0\<rparr>]"
    by code_simp
  obtain w' where w': "renameNode (\<lambda>s. s) ''b'' ''x'' line_workflow = Inr w'" "w_getNode w' ''b'' = None"
    "\<And>a ty i. a \<noteq> ''x'' \<Longrightarrow> lookup_conns (w_bySource w') (renamed ''b'' ''x'' a) ty i =
       map (rename_conn ''b'' ''x'') (lookup_conns (w_bySource line_workflow) a ty i)"
    using renameNode_renames[OF r _ n new, of "\<lambda>s. s"] by (elim exE conjE impE meta_impE) (simp, blast)
  from w'(3)[of "''b''" MainConn 0] have "lookup_conns (w_bySource w') ''x'' MainConn 0 =
      [\<lparr>conn_node = ''c'', conn_type = MainConn, conn_index = 0\<rparr>]"
    by (simp add: renamed_def rename_conn_def old)
  with w' show ?thesis by blast
qed

end
