(* ===== verification/PartialExecution.thy ===== *)
theory PartialExecution
  imports ExecutionStack RewireGraph WorkflowPaths
begin

text \<open>
  How an execution is set up: \<open>findTriggerForPartialExecution\<close>
  (\<^verbatim>\<open>find-trigger-for-partial-execution.ts\<close>) and the methods \<open>run\<close>, \<open>runPartialWorkflow\<close>,
  \<open>runPartialWorkflow2\<close> and \<open>forceInputNodeExecution\<close> of class \<open>WorkflowExecute\<close>
  (\<^verbatim>\<open>packages/core/src/execution-engine/workflow-execute.ts\<close>). Each method ends in
  \<open>processRunExecutionData\<close>, the run loop; the model returns the state and the workflow the loop
  is started with.
\<close>

section \<open>The trigger\<close>

definition ends_with :: "string \<Rightarrow> string \<Rightarrow> bool" where
  "ends_with suffix s \<longleftrightarrow> length suffix \<le> length s \<and> drop (length s - length suffix) s = suffix"

definition is_webhook :: "INode \<Rightarrow> bool" where
  "is_webhook n \<longleftrightarrow> ends_with ''webhook'' (node_type n)"

definition isTriggerNode :: "INodeType option \<Rightarrow> bool result" where
  "isTriggerNode nodeType =
     (case nodeType of None \<Rightarrow> Inl TypeError | Some nt \<Rightarrow> Inr (''trigger'' \<in> set (nt_group nt)))"

definition node_type_of :: "Workflow \<Rightarrow> INode \<Rightarrow> INodeType option" where
  "node_type_of w n = w_nodeTypes w (node_type n) (node_typeVersion n)"

definition rmap :: "('a \<Rightarrow> 'b result) \<Rightarrow> 'a list \<Rightarrow> 'b list result" where
  "rmap f xs = rfold (\<lambda>x ys. rbind (f x) (\<lambda>y. Inr (ys @ [y]))) xs []"

definition rfilter :: "('a \<Rightarrow> bool result) \<Rightarrow> 'a list \<Rightarrow> 'a list result" where
  "rfilter f xs = rfold (\<lambda>x ys. rbind (f x) (\<lambda>b. Inr (if b then ys @ [x] else ys))) xs []"

definition findAllParentTriggers :: "Workflow \<Rightarrow> string \<Rightarrow> INode list result" where
  "findAllParentTriggers w destinationNodeName =
     rbind (rmap (\<lambda>nm. case w_getNode w nm of None \<Rightarrow> Inl AssertionError | Some n \<Rightarrow> Inr n)
         (w_getParentNodes w destinationNodeName (OfType MainConn) (-1)))
       (rfilter (\<lambda>n. isTriggerNode (node_type_of w n)))"

text \<open>
  The comparison function for pinned triggers is not consistent for two webhooks, so the order the
  engine's \<open>sort\<close> gives is not fixed by the language; \<open>sort\<close> is an argument.
\<close>

definition webhook_first :: "INode \<Rightarrow> INode \<Rightarrow> int" where
  "webhook_first a b = (if is_webhook a then -1 else if is_webhook b then 1 else 0)"

definition choose_trigger ::
    "((INode \<Rightarrow> INode \<Rightarrow> int) \<Rightarrow> INode list \<Rightarrow> INode list) \<Rightarrow> Workflow \<Rightarrow> IRunData \<Rightarrow> INode list \<Rightarrow> INode option" where
  "choose_trigger sort' w rd parentTriggers =
     (case List.find (\<lambda>t. map_of rd (node_name t) \<noteq> None) parentTriggers of
        Some t \<Rightarrow> Some t
      | None \<Rightarrow>
          case sort' webhook_first (filter (\<lambda>t. w_getPinDataOfNode w (node_name t) \<noteq> None) parentTriggers) of
            t # _ \<Rightarrow> Some t
          | [] \<Rightarrow>
              case filter is_webhook parentTriggers of
                t # _ \<Rightarrow> Some t
              | [] \<Rightarrow> (case parentTriggers of [] \<Rightarrow> None | t # _ \<Rightarrow> Some t))"

definition findTriggerForPartialExecution ::
    "((INode \<Rightarrow> INode \<Rightarrow> int) \<Rightarrow> INode list \<Rightarrow> INode list) \<Rightarrow> Workflow \<Rightarrow> string \<Rightarrow> IRunData \<Rightarrow> INode option result" where
  "findTriggerForPartialExecution sort' w destinationNodeName rd =
     (case w_getNode w destinationNodeName of
        None \<Rightarrow> Inr None
      | Some destinationNode \<Rightarrow>
          rbind (isTriggerNode (node_type_of w destinationNode)) (\<lambda>isTrigger.
            if isTrigger \<and> \<not> is_disabled destinationNode then Inr (Some destinationNode)
            else rbind (findAllParentTriggers w destinationNodeName) (\<lambda>triggers.
              Inr (choose_trigger sort' w rd (filter (\<lambda>t. \<not> is_disabled t) triggers)))))"

section \<open>The state of an execution\<close>

record StartData =
  sd_destinationNode :: "string option"
  sd_originalDestinationNode :: "string option"
  sd_runNodeFilter :: "string list option"

record WorkflowExecute =
  we_status :: ExecutionStatus
  we_currentNodeExecutionIndex :: nat
  we_startData :: StartData
  we_runData :: IRunData
  we_pinData :: "IPinData option"
  we_stack :: StackState

record StartNodeData =
  sn_name :: string
  sn_sourceData :: "ISourceData option"

definition run ::
    "Workflow \<Rightarrow> INode option \<Rightarrow> string option \<Rightarrow> IPinData option \<Rightarrow> ITaskDataConnections option \<Rightarrow>
      WorkflowExecute \<Rightarrow> (WorkflowExecute \<times> Workflow) result" where
  "run w startNode destinationNode pinData triggerData we =
     rbind (case startNode of Some n \<Rightarrow> Inr (Some n) | None \<Rightarrow> getStartNode w destinationNode) (\<lambda>startNode.
       case startNode of
         None \<Rightarrow> Inl (ApplicationError ''No node to start the workflow from could be found'')
       | Some n \<Rightarrow>
           let runNodeFilter = (case destinationNode of
                 None \<Rightarrow> None
               | Some d \<Rightarrow> if d = [] then None else Some (w_getParentNodes w d (OfType MainConn) (-1) @ [d]));
               entry = \<lparr>exec_data = (case triggerData of Some d \<Rightarrow> d | None \<Rightarrow> [(MainConn, [Some [empty_item]])]),
                 exec_metadata = None, exec_node = n, exec_source = None\<rparr>
           in Inr (we\<lparr>we_status := StRunning,
                we_startData := \<lparr>sd_destinationNode = destinationNode, sd_originalDestinationNode = None,
                  sd_runNodeFilter = runNodeFilter\<rparr>,
                we_runData := [], we_pinData := pinData,
                we_stack := \<lparr>nodeExecutionStack = [entry], waitingExecution = [], waitingExecutionSource = []\<rparr>\<rparr>, w))"

definition forceInputNodeExecution :: "Workflow \<Rightarrow> bool" where
  "forceInputNodeExecution w \<longleftrightarrow> map_of (w_settings w) ''executionOrder'' \<noteq> Some (JStr ''v1'')"

section \<open>The first partial execution flow\<close>

text \<open>
  The incoming main connections of a node by destination; a table entry without \<open>main\<close> makes the
  \<open>for\<close> loop throw.
\<close>

definition incoming_main :: "INodeConnections \<Rightarrow> IConnection list result" where
  "incoming_main ic = (case map_of ic MainConn of None \<Rightarrow> Inl TypeError | Some arr \<Rightarrow> Inr (flat_conns arr))"

definition first_run_output :: "IRunData \<Rightarrow> IConnection \<Rightarrow> INodeExecutionData list option" where
  "first_run_output rd c =
     (case map_of rd (conn_node c) of
        Some (task # _) \<Rightarrow>
          (case task_data task of None \<Rightarrow> None
           | Some d \<Rightarrow> case map_of d (conn_type c) of None \<Rightarrow> None | Some outs \<Rightarrow> array_get outs (conn_index c))
      | _ \<Rightarrow> None)"

definition start_input ::
    "Workflow \<Rightarrow> IRunData \<Rightarrow> IPinData option \<Rightarrow> StartNodeData \<Rightarrow> IConnection \<Rightarrow>
      INodeExecutionData list list \<times> ISourceData list \<Rightarrow> INodeExecutionData list list \<times> ISourceData list" where
  "start_input w rd pd sn c = (\<lambda>(incomingData, sources).
     let source = (case sn_sourceData sn of Some s \<Rightarrow> s
           | None \<Rightarrow> \<lparr>previousNode = conn_node c, previousNodeOutput = None, previousNodeRun = None\<rparr>);
         pinned = (case w_getNode w (conn_node c) of None \<Rightarrow> None
           | Some n \<Rightarrow> case pd of None \<Rightarrow> None | Some p \<Rightarrow> map_of p (node_name n))
     in if (case w_getNode w (conn_node c) of None \<Rightarrow> False | Some n \<Rightarrow> is_disabled n) then (incomingData, sources)
        else case pinned of
          Some items \<Rightarrow> (incomingData @ [items], sources @ [source])
        | None \<Rightarrow>
            if map_of rd (conn_node c) = None then (incomingData, sources)
            else (incomingData @ (case first_run_output rd c of None \<Rightarrow> [] | Some items \<Rightarrow> [items]), sources @ [source]))"

definition push_waiting :: "'a waiting \<Rightarrow> string \<Rightarrow> NodeConnectionType \<Rightarrow> 'a option \<Rightarrow> 'a waiting" where
  "push_waiting waiting nm ty x =
     (let byRun = or_else (map_of waiting nm) [];
          byType = or_else (map_of byRun 0) [];
          arr = or_else (map_of byType ty) []
      in js_put nm (js_put 0 (js_put ty (arr @ [x]) byType) byRun) waiting)"

text \<open>\<open>runData[node][0].data![type][index]\<close>, with a throw for every part that is missing.\<close>

definition strict_output :: "IRunData \<Rightarrow> IConnection \<Rightarrow> INodeExecutionData list option result" where
  "strict_output rd c =
     (case map_of rd (conn_node c) of
        Some (task # _) \<Rightarrow>
          (case task_data task of None \<Rightarrow> Inl TypeError
           | Some d \<Rightarrow> case map_of d (conn_type c) of None \<Rightarrow> Inl TypeError
             | Some outs \<Rightarrow> Inr (array_get outs (conn_index c)))
      | _ \<Rightarrow> Inl TypeError)"

definition wait_destination :: "IRunData \<Rightarrow> string \<Rightarrow> IConnection \<Rightarrow> StackState \<Rightarrow> StackState result" where
  "wait_destination rd destinationNode c st =
     (if map_of rd (conn_node c) = None
      then Inr (st\<lparr>waitingExecution := push_waiting (waitingExecution st) destinationNode (conn_type c) None,
                   waitingExecutionSource := push_waiting (waitingExecutionSource st) destinationNode (conn_type c) None\<rparr>)
      else rbind (strict_output rd c) (\<lambda>d.
        Inr (st\<lparr>waitingExecution := push_waiting (waitingExecution st) destinationNode (conn_type c) d,
                waitingExecutionSource := push_waiting (waitingExecutionSource st) destinationNode (conn_type c)
                  (Some \<lparr>previousNode = conn_node c,
                    previousNodeOutput = (if conn_index c = 0 then None else Some (conn_index c)),
                    previousNodeRun = None\<rparr>)\<rparr>)))"

text \<open>One start node. A start node that is not in the workflow is pushed as \<open>null\<close>, on which the
  run loop throws; here it throws at once.\<close>

definition add_partial_start ::
    "Workflow \<Rightarrow> IRunData \<Rightarrow> string option \<Rightarrow> IPinData option \<Rightarrow> StartNodeData \<Rightarrow> StackState \<Rightarrow> StackState result" where
  "add_partial_start w rd destinationNode pd sn st =
     rbind (case map_of (w_byDestination w) (sn_name sn) of
              None \<Rightarrow> Inr ([[empty_item]], None)
            | Some ic \<Rightarrow> rbind (incoming_main ic) (\<lambda>cs.
                let (incomingData, sources) = fold (start_input w rd pd sn) cs ([], [])
                in Inr (incomingData, Some [(MainConn, map Some sources)]))) (\<lambda>(incomingData, source).
     case w_getNode w (sn_name sn) of
       None \<Rightarrow> Inl TypeError
     | Some n \<Rightarrow>
         let st = st\<lparr>nodeExecutionStack := nodeExecutionStack st @ [execute_data n incomingData source]\<rparr>
         in case destinationNode of
              None \<Rightarrow> Inr st
            | Some d \<Rightarrow>
                (case map_of (w_byDestination w) d of
                   None \<Rightarrow> Inr st
                 | Some ic \<Rightarrow> rbind (incoming_main ic) (\<lambda>cs. rfold (wait_destination rd d) cs st)))"

definition runPartialWorkflow ::
    "Workflow \<Rightarrow> IRunData \<Rightarrow> StartNodeData list \<Rightarrow> string option \<Rightarrow> IPinData option \<Rightarrow> WorkflowExecute \<Rightarrow>
      (WorkflowExecute \<times> Workflow) result" where
  "runPartialWorkflow w rd startNodes destinationNode pd we =
     (let destination = (case destinationNode of Some d \<Rightarrow> if d = [] then None else Some d | None \<Rightarrow> None)
      in rbind (rfold (add_partial_start w rd destination pd) startNodes
             \<lparr>nodeExecutionStack = [], waitingExecution = [], waitingExecutionSource = []\<rparr>) (\<lambda>st.
         let runNodeFilter = (case destination of
               None \<Rightarrow> None
             | Some d \<Rightarrow> if startNodes = [] then None else
                 Some (filter (\<lambda>nm. \<not> (case w_getNode w nm of None \<Rightarrow> False | Some n \<Rightarrow> is_disabled n))
                   (w_getParentNodes w d (OfType MainConn) (-1)) @ [d]))
         in Inr (we\<lparr>we_currentNodeExecutionIndex := getNextExecutionIndex rd, we_status := StRunning,
              we_startData := \<lparr>sd_destinationNode = destinationNode, sd_originalDestinationNode = None,
                sd_runNodeFilter = runNodeFilter\<rparr>,
              we_runData := rd, we_pinData := pd, we_stack := st\<rparr>, w)))"

section \<open>The second partial execution flow\<close>

definition workflow_params :: "Workflow \<Rightarrow> WorkflowParameters" where
  "workflow_params w =
     \<lparr>wp_id = w_id w, wp_name = w_name w, wp_nodes = js_values (w_nodes w), wp_connections = w_bySource w,
      wp_active = w_active w, wp_nodeTypes = w_nodeTypes w, wp_staticData = Some (w_staticData w),
      wp_settings = Some (w_settings w), wp_pinData = w_pinData w\<rparr>"

definition node_filter :: "DirectedGraph \<Rightarrow> string list" where
  "node_filter g = map node_name (js_values (g_nodes g))"

text \<open>A destination without parents: only its own subgraph.\<close>

definition runSingleNode ::
    "(string \<Rightarrow> string \<Rightarrow> int) \<Rightarrow> (INodeType \<Rightarrow> INode \<Rightarrow> (string, json) js_map option) \<Rightarrow> Workflow \<Rightarrow> DirectedGraph \<Rightarrow>
      INode \<Rightarrow> IRunData \<Rightarrow> IPinData \<Rightarrow> WorkflowExecute \<Rightarrow> (WorkflowExecute \<times> Workflow) result" where
  "runSingleNode lc gnp w g destination rd pd we =
     rbind (filterDisabledNodes g) (\<lambda>g.
     rbind (findSubgraph g destination destination) (\<lambda>g.
     rbind (cleanRunData rd g [destination]) (\<lambda>rd.
     rbind (recreateNodeExecutionStack lc g [destination] rd pd) (\<lambda>st.
     rbind (toWorkflow gnp (workflow_params w) g) (\<lambda>w'.
       Inr (we\<lparr>we_status := StRunning,
         we_startData := \<lparr>sd_destinationNode = Some (node_name destination), sd_originalDestinationNode = None,
           sd_runNodeFilter = Some (node_filter g)\<rparr>,
         we_runData := rd, we_pinData := Some pd, we_stack := st\<rparr>, w'))))))"

definition find_trigger_or_parent ::
    "((INode \<Rightarrow> INode \<Rightarrow> int) \<Rightarrow> INode list \<Rightarrow> INode list) \<Rightarrow> Workflow \<Rightarrow> string \<Rightarrow> IRunData \<Rightarrow> INode result" where
  "find_trigger_or_parent sort' w destinationNodeName rd =
     rbind (findTriggerForPartialExecution sort' w destinationNodeName rd) (\<lambda>trigger.
       case trigger of
         Some t \<Rightarrow> Inr t
       | None \<Rightarrow>
           (case List.find (\<lambda>nm. map_of rd nm \<noteq> None) (w_getParentNodes w destinationNodeName (OfType MainConn) (-1)) of
              None \<Rightarrow> Inl (UserError ''Connect a trigger to run this node'')
            | Some nm \<Rightarrow>
                case w_getNode w nm of
                  None \<Rightarrow> Inl (UserError ''Connect a trigger to run this node'')
                | Some n \<Rightarrow> Inr n))"

definition runFromTrigger ::
    "(string \<Rightarrow> string \<Rightarrow> int) \<Rightarrow> ((INode \<Rightarrow> INode \<Rightarrow> int) \<Rightarrow> INode list \<Rightarrow> INode list) \<Rightarrow> Workflow \<Rightarrow> DirectedGraph \<Rightarrow>
      INode \<Rightarrow> string \<Rightarrow> IRunData \<Rightarrow> IPinData \<Rightarrow> string list \<Rightarrow> WorkflowExecute \<Rightarrow> (WorkflowExecute \<times> Workflow) result" where
  "runFromTrigger lc sort' w g destination originalDestination rd pd dirtyNodeNames we =
     rbind (find_trigger_or_parent sort' w (node_name destination) rd) (\<lambda>trigger.
     rbind (filterDisabledNodes g) (\<lambda>g.
     rbind (findSubgraph g destination trigger) (\<lambda>g.
     rbind (cleanRunData rd g (getNodesByNames g dirtyNodeNames)) (\<lambda>rd.
     rbind (findStartNodes g trigger destination pd rd) (\<lambda>startNodes.
     rbind (handleCycles g startNodes trigger) (\<lambda>startNodes.
     rbind (cleanRunData rd g startNodes) (\<lambda>rd.
     rbind (recreateNodeExecutionStack lc g startNodes rd pd) (\<lambda>st.
       Inr (we\<lparr>we_currentNodeExecutionIndex := getNextExecutionIndex rd, we_status := StRunning,
         we_startData := \<lparr>sd_destinationNode = Some (node_name destination),
           sd_originalDestinationNode = Some originalDestination, sd_runNodeFilter = Some (node_filter g)\<rparr>,
         we_runData := rd, we_pinData := Some pd, we_stack := st\<rparr>, w)))))))))"

text \<open>
  \<open>toWorkflow\<close> fills in the parameter defaults of the node objects it is given, which are the
  objects in the graph; \<open>map_nodes\<close> makes the same change in the graph.
\<close>

definition runPartialWorkflow2 ::
    "(string \<Rightarrow> string \<Rightarrow> int) \<Rightarrow> ((INode \<Rightarrow> INode \<Rightarrow> int) \<Rightarrow> INode list \<Rightarrow> INode list) \<Rightarrow>
      (INodeType \<Rightarrow> INode \<Rightarrow> (string, json) js_map option) \<Rightarrow> Workflow \<Rightarrow> IRunData \<Rightarrow> IPinData \<Rightarrow> string list \<Rightarrow>
      string option \<Rightarrow> AiAgentRequest option \<Rightarrow> WorkflowExecute \<Rightarrow> (WorkflowExecute \<times> Workflow) result" where
  "runPartialWorkflow2 lc sort' gnp w rd pd dirtyNodeNames destinationNodeName agentRequest we =
     (case destinationNodeName of
        None \<Rightarrow> Inl AssertionError
      | Some destName \<Rightarrow>
          rbind (assert_ok (destName \<noteq> [])) (\<lambda>_.
          case w_getNode w destName of
            None \<Rightarrow> Inl AssertionError
          | Some destination \<Rightarrow>
              rbind (fromWorkflow w) (\<lambda>g.
              case node_type_of w destination of
                None \<Rightarrow> Inl TypeError
              | Some nt \<Rightarrow>
                  if isTool nt (node_parameters destination) then
                    rbind (rewireGraph destination g agentRequest) (\<lambda>(g, _).
                    rbind (toWorkflow gnp (workflow_params w) g) (\<lambda>w'.
                      case w_getNode w' TOOL_EXECUTOR_NODE_NAME of
                        None \<Rightarrow> Inl (OperationalError ''ToolExecutor can not be found'')
                      | Some toolExecutorNode \<Rightarrow>
                          runFromTrigger lc sort' w' (map_nodes (fill_defaults gnp (w_nodeTypes w)) g)
                            toolExecutorNode destName rd pd dirtyNodeNames we))
                  else
                    rbind (getDirectParentConnections g destination) (\<lambda>parents.
                      if length parents = 0 then runSingleNode lc gnp w g destination rd pd we
                      else runFromTrigger lc sort' w g destination destName rd pd dirtyNodeNames we))))"

section \<open>The trigger that is chosen\<close>

lemma rmap_Inr: "rmap f xs = Inr ys \<Longrightarrow> length ys = length xs \<and> (\<forall>i < length xs. f (xs ! i) = Inr (ys ! i))"
proof -
  assume "rmap f xs = Inr ys"
  then have "length ys = length xs \<and> (\<forall>i < length xs. f (xs ! i) = Inr (ys ! i))"
    unfolding rmap_def
  proof (rule rfold_invariant_prefix)
    fix pre x rest s s'
    assume split: "xs = pre @ x # rest" and inv: "length s = length pre \<and> (\<forall>i < length pre. f (pre ! i) = Inr (s ! i))"
      and "rbind (f x) (\<lambda>y. Inr (s @ [y])) = Inr s'"
    then obtain y where "f x = Inr y" "s' = s @ [y]" by (auto simp: result_simps)
    with inv show "length s' = length (pre @ [x]) \<and> (\<forall>i < length (pre @ [x]). f ((pre @ [x]) ! i) = Inr (s' ! i))"
      by (auto simp: nth_append less_Suc_eq)
  qed simp
  then show ?thesis .
qed

lemma rfilter_Inr: "rfilter f xs = Inr ys \<Longrightarrow> (\<forall>x \<in> set xs. \<exists>b. f x = Inr b) \<and> ys = filter (\<lambda>x. f x = Inr True) xs"
proof -
  assume "rfilter f xs = Inr ys"
  then have "(\<forall>x \<in> set xs. \<exists>b. f x = Inr b) \<and> ys = filter (\<lambda>x. f x = Inr True) xs"
    unfolding rfilter_def
  proof (rule rfold_invariant_prefix)
    fix pre x rest s s'
    assume inv: "(\<forall>x \<in> set pre. \<exists>b. f x = Inr b) \<and> s = filter (\<lambda>x. f x = Inr True) pre"
      and "rbind (f x) (\<lambda>b. Inr (if b then s @ [x] else s)) = Inr s'"
    then obtain b where "f x = Inr b" "s' = (if b then s @ [x] else s)" by (auto simp: result_simps)
    with inv show "(\<forall>y \<in> set (pre @ [x]). \<exists>b. f y = Inr b) \<and> s' = filter (\<lambda>x. f x = Inr True) (pre @ [x])"
      by auto
  qed simp
  then show ?thesis .
qed

definition trigger_candidate :: "Workflow \<Rightarrow> string \<Rightarrow> INode \<Rightarrow> bool" where
  "trigger_candidate w dest t \<longleftrightarrow> \<not> is_disabled t \<and> isTriggerNode (node_type_of w t) = Inr True \<and>
     (\<exists>nm. w_getNode w nm = Some t \<and> (nm = dest \<or> nm \<in> set (w_getParentNodes w dest (OfType MainConn) (-1))))"

lemma findAllParentTriggers_set:
  assumes "findAllParentTriggers w dest = Inr ts"
  shows "set ts = {t. isTriggerNode (node_type_of w t) = Inr True \<and>
    (\<exists>nm \<in> set (w_getParentNodes w dest (OfType MainConn) (-1)). w_getNode w nm = Some t)}"
proof -
  let ?names = "w_getParentNodes w dest (OfType MainConn) (-1)"
  obtain ns where ns: "rmap (\<lambda>nm. case w_getNode w nm of None \<Rightarrow> Inl AssertionError | Some n \<Rightarrow> Inr n) ?names = Inr ns"
    "rfilter (\<lambda>n. isTriggerNode (node_type_of w n)) ns = Inr ts"
    using assms by (auto simp: findAllParentTriggers_def result_simps)
  have get: "length ns = length ?names" "\<And>i. i < length ?names \<Longrightarrow> w_getNode w (?names ! i) = Some (ns ! i)"
    using rmap_Inr[OF ns(1)] by (auto split: option.splits)
  have "n \<in> set ns \<longleftrightarrow> (\<exists>nm \<in> set ?names. w_getNode w nm = Some n)" for n
    using get by (metis in_set_conv_nth option.inject)
  with rfilter_Inr[OF ns(2)] show ?thesis by auto
qed

lemma choose_trigger_in:
  assumes sort: "\<And>cmp xs. set (sort' cmp xs) = set xs" and t: "choose_trigger sort' w rd ts = Some t"
  shows "t \<in> set ts"
proof (cases "List.find (\<lambda>t. map_of rd (node_name t) \<noteq> None) ts")
  case (Some u)
  with t find_SomeD[OF Some] show ?thesis by (simp add: choose_trigger_def)
next
  case none: None
  define ps where "ps = filter (\<lambda>t. w_getPinDataOfNode w (node_name t) \<noteq> None) ts"
  show ?thesis
  proof (cases "sort' webhook_first ps")
    case (Cons u us)
    have "set (u # us) = set ps" using sort[of webhook_first ps] unfolding Cons .
    then have "u \<in> set ts" by (auto simp: ps_def)
    with t none Cons show ?thesis by (simp add: choose_trigger_def ps_def)
  next
    case nil: Nil
    show ?thesis
    proof (cases "filter is_webhook ts")
      case (Cons u us)
      then have "u \<in> set ts" using filter_is_subset[of is_webhook ts] by auto
      with t none nil Cons show ?thesis by (simp add: choose_trigger_def ps_def)
    next
      case Nil
      with t none nil show ?thesis by (cases ts) (simp_all add: choose_trigger_def ps_def)
    qed
  qed
qed

lemma choose_trigger_None: "choose_trigger sort' w rd ts = None \<Longrightarrow> ts = []"
  by (auto simp: choose_trigger_def split: option.splits list.splits)

text \<open>
  A trigger that is found is an enabled trigger node, the destination itself or a parent; if
  none is found for an existing destination, there is no such node.
\<close>

lemma findTriggerForPartialExecution_candidate:
  assumes "\<And>cmp xs. set (sort' cmp xs) = set xs"
    and "findTriggerForPartialExecution sort' w dest rd = Inr r" and "w_getNode w dest \<noteq> None"
  shows "case r of Some t \<Rightarrow> trigger_candidate w dest t | None \<Rightarrow> (\<forall>t. \<not> trigger_candidate w dest t)"
proof -
  obtain n where n: "w_getNode w dest = Some n" using assms(3) by blast
  obtain isT where isT: "isTriggerNode (node_type_of w n) = Inr isT"
    using assms(2) n by (auto simp: findTriggerForPartialExecution_def result_simps)
  show ?thesis
  proof (cases "isT \<and> \<not> is_disabled n")
    case True
    then have "r = Some n" using assms(2) n isT by (simp add: findTriggerForPartialExecution_def)
    with True n isT show ?thesis by (auto simp: trigger_candidate_def)
  next
    case False
    then obtain ts where ts: "findAllParentTriggers w dest = Inr ts"
      "r = choose_trigger sort' w rd (filter (\<lambda>t. \<not> is_disabled t) ts)"
      using assms(2) n isT by (auto simp: findTriggerForPartialExecution_def result_simps)
    have cand: "t \<in> set (filter (\<lambda>t. \<not> is_disabled t) ts) \<longleftrightarrow> trigger_candidate w dest t" for t
      using findAllParentTriggers_set[OF ts(1)] False isT n by (auto simp: trigger_candidate_def)
    show ?thesis
    proof (cases r)
      case None
      with ts(2) have "filter (\<lambda>t. \<not> is_disabled t) ts = []" using choose_trigger_None by metis
      with cand None show ?thesis by simp
    next
      case (Some t)
      then have "choose_trigger sort' w rd (filter (\<lambda>t. \<not> is_disabled t) ts) = Some t" using ts(2) by simp
      from choose_trigger_in[of sort', OF assms(1) this] have "trigger_candidate w dest t" unfolding cand .
      with Some show ?thesis by simp
    qed
  qed
qed

section \<open>The stack of the second flow\<close>

definition stack_has_main :: "StackState \<Rightarrow> bool" where
  "stack_has_main st \<longleftrightarrow> (\<forall>e \<in> set (nodeExecutionStack st). map_of (exec_data e) MainConn \<noteq> None)"

lemma add_start_node_nodes:
  assumes "add_start_node lc g rd pd n st = Inr st'"
  shows "in_graph g n" "exec_node ` set (nodeExecutionStack st') \<subseteq> insert n (exec_node ` set (nodeExecutionStack st))"
    "stack_has_main st \<Longrightarrow> stack_has_main st'"
proof -
  obtain ps where ps: "getDirectParentConnections g n = Inr ps"
    and rest: "(if filter (\<lambda>c. gc_type c = MainConn) ps = []
       then Inr (st\<lparr>nodeExecutionStack := nodeExecutionStack st @ [execute_data n [[empty_item]] None]\<rparr>)
       else rfold (add_group rd pd n) (getSourceDataGroups lc g n rd pd) st) = Inr st'"
    using assms by (auto simp: add_start_node_def result_simps)
  from ps show "in_graph g n" by (simp add: getDirectParentConnections_Inr)
  let ?sub = "\<lambda>s s'. exec_node ` set (nodeExecutionStack s') \<subseteq> insert n (exec_node ` set (nodeExecutionStack s)) \<and>
      (stack_has_main s \<longrightarrow> stack_has_main s')"
  have group: "?sub s s'" if "add_group rd pd n gr s = Inr s'" for gr s s'
  proof (cases "complete gr")
    case True
    with that show ?thesis
      by (auto simp: add_group_def add_complete_def execute_data_def result_simps stack_has_main_def)
  next
    case False
    define ri where "ri = (case map_of (waitingExecution s) (node_name n) of None \<Rightarrow> 0 | Some w \<Rightarrow> length w)"
    have "rfold (add_waiting rd (node_name n) ri) (group_connections gr) s = Inr s'"
      using that False by (simp add: add_group_def ri_def)
    then have "nodeExecutionStack s' = nodeExecutionStack s"
      by (rule rfold_invariant) (auto simp: add_waiting_def result_simps split: option.splits)
    then show ?thesis by (auto simp: stack_has_main_def)
  qed
  have "?sub st st'"
  proof (cases "filter (\<lambda>c. gc_type c = MainConn) ps = []")
    case True
    with rest show ?thesis by (auto simp: execute_data_def stack_has_main_def)
  next
    case False
    with rest have "rfold (add_group rd pd n) (getSourceDataGroups lc g n rd pd) st = Inr st'"
      by (simp split: if_splits)
    then show ?thesis
    proof (rule rfold_invariant)
      fix gr and s s' :: StackState
      assume "?sub st s" and step: "add_group rd pd n gr s = Inr s'"
      with group[OF step] show "?sub st s'" by blast
    qed blast
  qed
  then show "exec_node ` set (nodeExecutionStack st') \<subseteq> insert n (exec_node ` set (nodeExecutionStack st))"
    "stack_has_main st \<Longrightarrow> stack_has_main st'" by blast+
qed

lemma recreate_nodes:
  assumes "recreateNodeExecutionStack lc g starts rd pd = Inr st"
  shows "\<forall>e \<in> set (nodeExecutionStack st). in_graph g (exec_node e) \<and> exec_node e \<in> set starts" "stack_has_main st"
proof -
  let ?inv = "\<lambda>st. (\<forall>x \<in> exec_node ` set (nodeExecutionStack st). in_graph g x \<and> x \<in> set starts) \<and> stack_has_main st"
  have "rfold (add_start_node lc g rd pd) starts
      \<lparr>nodeExecutionStack = [], waitingExecution = [], waitingExecutionSource = []\<rparr> = Inr st"
    using assms by (auto simp: recreateNodeExecutionStack_def result_simps)
  then have "?inv st"
  proof (rule rfold_invariant)
    fix n and s s' :: StackState
    assume "n \<in> set starts" "?inv s" and step: "add_start_node lc g rd pd n s = Inr s'"
    with add_start_node_nodes[OF step] show "?inv s'" by blast
  qed (simp add: stack_has_main_def)
  then show "\<forall>e \<in> set (nodeExecutionStack st). in_graph g (exec_node e) \<and> exec_node e \<in> set starts" "stack_has_main st" by blast+
qed

lemma cleanRunData_in_graph:
  assumes "cleanRunData rd g ns = Inr rd'" "k \<in> set (js_keys rd')"
  shows "hasNode g k"
proof -
  obtain r where r: "rd' = fold (\<lambda>nm rd. if \<not> hasNode g nm then js_del nm rd else rd) (js_keys r) r"
    using assms(1) by (auto simp: cleanRunData_def result_simps)
  have "rd' = keep_names (UNIV - (\<lambda>x. x) ` {nm \<in> set (js_keys r). \<not> hasNode g nm}) r"
    unfolding r using fold_del_keep[of "\<lambda>nm. \<not> hasNode g nm" "\<lambda>nm. nm" "js_keys r" UNIV r] by simp
  with assms(2) show ?thesis by (force simp: keep_names_def js_keys_def)
qed

lemma in_node_filter: "in_graph g n \<Longrightarrow> node_name n \<in> set (node_filter g)"
  using in_graph_nodes[of g n] by (auto simp: node_filter_def)

definition stack_in_filter :: "WorkflowExecute \<Rightarrow> bool" where
  "stack_in_filter we \<longleftrightarrow> (case sd_runNodeFilter (we_startData we) of None \<Rightarrow> False
     | Some f \<Rightarrow> \<forall>e \<in> set (nodeExecutionStack (we_stack we)). node_name (exec_node e) \<in> set f) \<and> stack_has_main (we_stack we)"

lemma stack_in_filterI:
  assumes "recreateNodeExecutionStack lc g starts rd pd = Inr st" "sd_runNodeFilter (we_startData we) = Some (node_filter g)"
    and "we_stack we = st"
  shows "stack_in_filter we"
  using recreate_nodes[OF assms(1)] in_node_filter assms(2,3) by (auto simp: stack_in_filter_def)

lemma runFromTrigger_stack:
  assumes "runFromTrigger lc sort' w g d od rd pd dirty we = Inr (we', w')"
  shows "stack_in_filter we' \<and> we_status we' = StRunning"
proof -
  obtain g st starts rd1 where "recreateNodeExecutionStack lc g starts rd1 pd = Inr st"
    "we' = we\<lparr>we_currentNodeExecutionIndex := getNextExecutionIndex rd1, we_status := StRunning,
         we_startData := \<lparr>sd_destinationNode = Some (node_name d),
           sd_originalDestinationNode = Some od, sd_runNodeFilter = Some (node_filter g)\<rparr>,
         we_runData := rd1, we_pinData := Some pd, we_stack := st\<rparr>"
    using assms by (auto simp: runFromTrigger_def rbind_Inr_iff)
  then show ?thesis using stack_in_filterI by auto
qed

lemma runSingleNode_stack:
  assumes "runSingleNode lc gnp w g d rd pd we = Inr (we', w')"
  shows "stack_in_filter we' \<and> we_status we' = StRunning"
proof -
  obtain g st rd1 where "recreateNodeExecutionStack lc g [d] rd1 pd = Inr st"
    "we' = we\<lparr>we_status := StRunning,
         we_startData := \<lparr>sd_destinationNode = Some (node_name d), sd_originalDestinationNode = None,
           sd_runNodeFilter = Some (node_filter g)\<rparr>,
         we_runData := rd1, we_pinData := Some pd, we_stack := st\<rparr>"
    using assms by (auto simp: runSingleNode_def rbind_Inr_iff)
  then show ?thesis using stack_in_filterI by auto
qed

lemma runPartialWorkflow2_ready:
  assumes "runPartialWorkflow2 lc sort' gnp w rd pd dirty dest req we = Inr (we', w')"
  shows "stack_in_filter we' \<and> we_status we' = StRunning"
proof -
  obtain d destination g nt where start: "dest = Some d" "w_getNode w d = Some destination" "fromWorkflow w = Inr g"
    "node_type_of w destination = Some nt" "d \<noteq> []"
    using assms by (auto simp: runPartialWorkflow2_def result_simps split: option.splits)
  show ?thesis
  proof (cases "isTool nt (node_parameters destination)")
    case True
    then obtain g1 x w1 n where "runFromTrigger lc sort' w1 (map_nodes (fill_defaults gnp (w_nodeTypes w)) g1) n d rd pd dirty we
        = Inr (we', w')"
      using assms start by (auto simp: runPartialWorkflow2_def result_simps split: option.splits)
    then show ?thesis by (rule runFromTrigger_stack)
  next
    case False
    then obtain ps :: "GraphConnection list" where "(if length ps = 0 then runSingleNode lc gnp w g destination rd pd we
        else runFromTrigger lc sort' w g destination d rd pd dirty we) = Inr (we', w')"
      using assms start by (simp add: runPartialWorkflow2_def result_simps) blast
    then show ?thesis using runFromTrigger_stack runSingleNode_stack by (metis (full_types))
  qed
qed

text \<open>
  A partial execution that starts runs only nodes of its filter: every node on the stack is in it.
\<close>

lemma runPartialWorkflow2_stack:
  assumes "runPartialWorkflow2 lc sort' gnp w rd pd dirty dest req we = Inr (we', w')"
  shows "(\<exists>f. sd_runNodeFilter (we_startData we') = Some f \<and>
      (\<forall>e \<in> set (nodeExecutionStack (we_stack we')). node_name (exec_node e) \<in> set f)) \<and> we_status we' = StRunning"
  using runPartialWorkflow2_ready[OF assms] by (auto simp: stack_in_filter_def split: option.splits)

section \<open>Two start nodes in the first flow\<close>

text \<open>
  The waiting entries of the destination are added once per start node, each time for all its
  incoming connections: with two start nodes every connection is there twice.
\<close>

definition two_sources :: Workflow where
  "two_sources = new_workflow (\<lambda>_ _. None)
     \<lparr>wp_id = ''1'', wp_name = None, wp_nodes = [sample_node 0 ''a'', sample_node 1 ''b'', sample_node 2 ''d''],
      wp_connections = map (\<lambda>s. (s, [(MainConn, [Some [\<lparr>conn_node = ''d'', conn_type = MainConn, conn_index = 0\<rparr>]])])) [''a'', ''b''],
      wp_active = False, wp_nodeTypes = (\<lambda>_ _. None), wp_staticData = None, wp_settings = None, wp_pinData = None\<rparr>"

definition start_at :: "string \<Rightarrow> StartNodeData" where
  "start_at nm = \<lparr>sn_name = nm, sn_sourceData = None\<rparr>"

definition idle_execution :: WorkflowExecute where
  "idle_execution = \<lparr>we_status = StNew, we_currentNodeExecutionIndex = 0,
     we_startData = \<lparr>sd_destinationNode = None, sd_originalDestinationNode = None, sd_runNodeFilter = None\<rparr>,
     we_runData = [], we_pinData = None,
     we_stack = \<lparr>nodeExecutionStack = [], waitingExecution = [], waitingExecutionSource = []\<rparr>\<rparr>"

definition waiting_length :: "(WorkflowExecute \<times> Workflow) result \<Rightarrow> string \<Rightarrow> nat option" where
  "waiting_length r nm = (case r of Inl _ \<Rightarrow> None
     | Inr (we, _) \<Rightarrow> map_option length (map_of (or_else (map_of (or_else (map_of (waitingExecution (we_stack we)) nm) []) 0) []) MainConn))"

lemma runPartialWorkflow_waits_twice:
  "waiting_length (runPartialWorkflow two_sources [] [start_at ''a''] (Some ''d'') None idle_execution) ''d'' = Some 2"
  "waiting_length (runPartialWorkflow two_sources [] [start_at ''a'', start_at ''b''] (Some ''d'') None idle_execution) ''d'' = Some 4"
  by code_simp+

section \<open>Witnesses\<close>

definition trigger_type :: INodeType where
  "trigger_type = \<lparr>nt_name = ''trigger'', nt_group = [''trigger''], nt_outputs = OutputList [OutputName MainConn],
     nt_trigger = True, nt_poll = False\<rparr>"

definition action_type :: INodeType where
  "action_type = \<lparr>nt_name = ''action'', nt_group = [''transform''], nt_outputs = OutputList [OutputName MainConn],
     nt_trigger = False, nt_poll = False\<rparr>"

definition triggered :: Workflow where
  "triggered = line_workflow
     \<lparr>w_nodes := map (\<lambda>n. (node_name n, n)) [plain_node 0 ''a'' ''trigger'', plain_node 1 ''b'' ''action'', plain_node 2 ''c'' ''action''],
      w_nodeTypes := (\<lambda>ty _. Some (if ty = ''trigger'' then trigger_type else action_type))\<rparr>"

lemma findTriggerForPartialExecution_candidate_witness:
  "\<exists>t. findTriggerForPartialExecution (\<lambda>_ xs. rev xs) triggered ''c'' [] = Inr (Some t) \<and> trigger_candidate triggered ''c'' t"
proof -
  have "case findTriggerForPartialExecution (\<lambda>_ xs. rev xs) triggered ''c'' [] of Inr (Some _) \<Rightarrow> True | _ \<Rightarrow> False"
    by code_simp
  then obtain t where t: "findTriggerForPartialExecution (\<lambda>_ xs. rev xs) triggered ''c'' [] = Inr (Some t)"
    by (auto split: sum.splits option.splits)
  have "case w_getNode triggered ''c'' of None \<Rightarrow> False | Some _ \<Rightarrow> True" by code_simp
  then have c: "w_getNode triggered ''c'' \<noteq> None" by (auto split: option.splits)
  from findTriggerForPartialExecution_candidate[of "\<lambda>_ xs. rev xs", OF _ t c] t show ?thesis by simp
qed

lemma runPartialWorkflow2_stack_witness:
  "case runPartialWorkflow2 (\<lambda>_ _. 0) (\<lambda>_ xs. xs) (\<lambda>_ _. None) triggered [] [] [] (Some ''c'') None idle_execution of
     Inl _ \<Rightarrow> False
   | Inr (we, _) \<Rightarrow> we_status we = StRunning \<and> length (nodeExecutionStack (we_stack we)) = 1"
proof -
  let ?r = "runPartialWorkflow2 (\<lambda>_ _. 0) (\<lambda>_ xs. xs) (\<lambda>_ _. None) triggered [] [] [] (Some ''c'') None idle_execution"
  have "case ?r of Inl _ \<Rightarrow> False | Inr (we, _) \<Rightarrow> length (nodeExecutionStack (we_stack we)) = 1" by code_simp
  then obtain we w' where r: "?r = Inr (we, w')" "length (nodeExecutionStack (we_stack we)) = 1"
    by (auto split: sum.splits)
  from runPartialWorkflow2_stack[OF r(1)] r show ?thesis by simp
qed

end
