(* ===== verification/GraphUtils.thy ===== *)
theory GraphUtils
  imports Connections
begin

text \<open>
  Which selections of nodes can be extracted into a sub-workflow:
  \<^verbatim>\<open>packages/workflow/src/graph/graph-utils.ts\<close>. A \<open>Set\<close> is a list without duplicates in insertion
  order; a connection object of a table stands at one place only, so a set of connection objects is
  the list of them. \<open>selection_spec\<close> is what the documentation asks of a selection; the theorems
  show that \<open>parseExtractableSubgraphSelection\<close> decides it and what follows for an accepted selection.
\<close>

section \<open>Sets and adjacency lists\<close>

type_synonym IConnectionAdjacencyList = "(string, IConnection list) js_map"

definition intersection :: "'a list \<Rightarrow> 'a list \<Rightarrow> 'a list" where
  "intersection a b = filter (\<lambda>x. x \<in> set b) a"

definition set_union :: "'a list \<Rightarrow> 'a list \<Rightarrow> 'a list" where
  "set_union a b = fold set_add b a"

definition difference :: "'a list \<Rightarrow> 'a list \<Rightarrow> 'a list" where
  "difference minuend subtrahend = filter (\<lambda>x. x \<notin> set subtrahend) minuend"

lemma set_ops [simp]:
  "set (intersection a b) = set a \<inter> set b" "set (set_union a b) = set a \<union> set b"
  "set (difference a b) = set a - set b"
  by (auto simp: intersection_def set_union_def difference_def fold_set_add)

lemma set_ops_distinct [simp, intro]:
  "distinct a \<Longrightarrow> distinct (intersection a b)" "distinct a \<Longrightarrow> distinct (difference a b)"
  by (simp_all add: intersection_def difference_def)

definition adj_get :: "IConnectionAdjacencyList \<Rightarrow> string \<Rightarrow> IConnection list" where
  "adj_get adj n = (case map_of adj n of None \<Rightarrow> [] | Some cs \<Rightarrow> cs)"

definition buildAdjacencyList :: "IConnections \<Rightarrow> IConnectionAdjacencyList" where
  "buildAdjacencyList cs =
     fold (\<lambda>(src, _, _, c) adj. js_put src (adj_get adj src @ [c]) adj) (table_entries cs) []"

section \<open>Edges at the border of a selection\<close>

definition getInputEdges :: "string list \<Rightarrow> IConnectionAdjacencyList \<Rightarrow> (string \<times> IConnection) list" where
  "getInputEdges graphIds adj =
     concat (map (\<lambda>(from', tos). if from' \<in> set graphIds then []
       else map (Pair from') (filter (\<lambda>to'. conn_node to' \<in> set graphIds) tos)) adj)"

definition getOutputEdges :: "string list \<Rightarrow> IConnectionAdjacencyList \<Rightarrow> (string \<times> IConnection) list" where
  "getOutputEdges graphIds adj =
     concat (map (\<lambda>(from', tos). if from' \<notin> set graphIds then []
       else map (Pair from') (filter (\<lambda>to'. conn_node to' \<notin> set graphIds) tos)) adj)"

definition other_targets :: "IConnectionAdjacencyList \<Rightarrow> string \<Rightarrow> string list" where
  "other_targets adj n =
     set_of_array (map conn_node (filter (\<lambda>x. conn_type x = MainConn \<and> conn_node x \<noteq> n) (adj_get adj n)))"

definition getRootNodes :: "string list \<Rightarrow> IConnectionAdjacencyList \<Rightarrow> string list" where
  "getRootNodes graphIds adj =
     difference graphIds (fold (\<lambda>n inner. set_union inner (other_targets adj n)) graphIds [])"

definition getLeafNodes :: "string list \<Rightarrow> IConnectionAdjacencyList \<Rightarrow> string list" where
  "getLeafNodes graphIds adj = filter (\<lambda>n. length (intersection (other_targets adj n) graphIds) = 0) graphIds"

section \<open>Paths\<close>

definition main_targets :: "IConnectionAdjacencyList \<Rightarrow> string \<Rightarrow> string list" where
  "main_targets adj n = set_of_array (map conn_node (filter (\<lambda>x. conn_type x = MainConn) (adj_get adj n)))"

definition adj_targets :: "IConnectionAdjacencyList \<Rightarrow> string set" where
  "adj_targets adj = (\<Union>(n, cs) \<in> set adj. conn_node ` set cs)"

lemma adj_get_in: "c \<in> set (adj_get adj a) \<Longrightarrow> (a, adj_get adj a) \<in> set adj"
  by (auto simp: adj_get_def split: option.splits dest: map_of_SomeD)

lemma main_targets_in: "set (main_targets adj n) \<subseteq> adj_targets adj"
proof
  fix m assume "m \<in> set (main_targets adj n)"
  then obtain c where "c \<in> set (adj_get adj n)" "m = conn_node c" by (auto simp: main_targets_def)
  with adj_get_in show "m \<in> adj_targets adj" by (force simp: adj_targets_def)
qed

text \<open>The stack of the code with its top first.\<close>

function hasPathLoop :: "IConnectionAdjacencyList \<Rightarrow> string \<Rightarrow> string list \<Rightarrow> string list \<Rightarrow> bool" where
  "hasPathLoop adj end' seen [] = False"
| "hasPathLoop adj end' seen (next' # paths) =
     (if next' = end' then True
      else let seen = set_add next' seen
           in hasPathLoop adj end' seen (rev (difference (main_targets adj next') seen) @ paths))"
  by pat_completeness auto

lemma finite_adj_targets: "finite (adj_targets adj)"
  by (auto simp: adj_targets_def)

text \<open>
  A node that was not seen before is seen now; one that was seen leaves the stack, and only unseen
  nodes come onto it.
\<close>

termination hasPathLoop
proof (relation "measures [\<lambda>(adj, e, seen, st). card (adj_targets adj \<union> set st - set seen),
    \<lambda>(adj, e, seen, st). length (filter (\<lambda>n. n \<in> set seen) st)]")
  fix adj :: IConnectionAdjacencyList and e n :: string and seen paths seen'
  assume seen': "seen' = set_add n seen"
  let ?new = "rev (difference (main_targets adj n) seen') @ paths"
  have none: "filter (\<lambda>n. n \<in> set seen') (rev (difference (main_targets adj n) seen')) = []"
    by (simp add: filter_empty_conv)
  show "((adj, e, seen', ?new), adj, e, seen, n # paths) \<in> measures
      [\<lambda>(adj, e, seen, st). card (adj_targets adj \<union> set st - set seen),
       \<lambda>(adj, e, seen, st). length (filter (\<lambda>n. n \<in> set seen) st)]"
  proof (cases "n \<in> set seen")
    case True
    then have [simp]: "seen' = seen" by (simp add: seen' set_add_def)
    have "adj_targets adj \<union> set ?new - set seen' \<subseteq> adj_targets adj \<union> set (n # paths) - set seen"
      using main_targets_in[of adj n] by auto
    then have "card (adj_targets adj \<union> set ?new - set seen') \<le> card (adj_targets adj \<union> set (n # paths) - set seen)"
      by (rule card_mono[rotated]) (simp add: finite_adj_targets)
    with True none show ?thesis by (auto simp: le_less)
  next
    case False
    have "adj_targets adj \<union> set ?new - set seen' \<subset> adj_targets adj \<union> set (n # paths) - set seen"
      using main_targets_in[of adj n] False by (auto simp: seen')
    then have "card (adj_targets adj \<union> set ?new - set seen') < card (adj_targets adj \<union> set (n # paths) - set seen)"
      by (rule psubset_card_mono[rotated]) (simp add: finite_adj_targets)
    then show ?thesis by simp
  qed
qed simp

definition hasPath :: "string \<Rightarrow> string \<Rightarrow> IConnectionAdjacencyList \<Rightarrow> bool" where
  "hasPath start end' adj = hasPathLoop adj end' [] [start]"

section \<open>Extractable selections\<close>

datatype ExtractableErrorResult =
    MultipleInputNodes "string list"
  | MultipleOutputNodes "string list"
  | InputEdgeToNonRootNode string
  | OutputEdgeFromNonLeafNode string
  | NoContinuousPathFromRootToLeaf string string

record ExtractableSubgraphData =
  ex_start :: "string option"
  ex_end :: "string option"

definition set_first :: "'a list \<Rightarrow> 'a option" where
  "set_first xs = (case xs of [] \<Rightarrow> None | x # _ \<Rightarrow> Some x)"

definition input_nodes :: "string list \<Rightarrow> IConnectionAdjacencyList \<Rightarrow> string list" where
  "input_nodes graphIds adj = set_of_array (map (\<lambda>x. conn_node (snd x))
     (filter (\<lambda>x. conn_type (snd x) = MainConn) (getInputEdges graphIds adj)))"

definition output_nodes :: "string list \<Rightarrow> IConnectionAdjacencyList \<Rightarrow> string list" where
  "output_nodes graphIds adj = set_of_array (map fst
     (filter (\<lambda>x. conn_type (snd x) = MainConn) (getOutputEdges graphIds adj)))"

text \<open>A loop back to the only input (or from the only output) leaves no root (or leaf): it is tolerated.\<close>

definition tolerated :: "string list \<Rightarrow> string list \<Rightarrow> string list" where
  "tolerated ends border = (if length ends = 0 \<and> length border = 1 then border else ends)"

definition path_errors :: "IConnectionAdjacencyList \<Rightarrow> string option \<Rightarrow> string option \<Rightarrow> ExtractableErrorResult list" where
  "path_errors adj start end' = (case (start, end') of
     (Some s, Some e) \<Rightarrow> if s \<noteq> [] \<and> e \<noteq> [] \<and> \<not> hasPath s e adj then [NoContinuousPathFromRootToLeaf s e] else []
   | _ \<Rightarrow> [])"

definition parseExtractableSubgraphSelection ::
    "string list \<Rightarrow> IConnectionAdjacencyList \<Rightarrow> ExtractableErrorResult list + ExtractableSubgraphData" where
  "parseExtractableSubgraphSelection graphIds adj =
     (let inputNodes = input_nodes graphIds adj;
          rootNodes = tolerated (getRootNodes graphIds adj) inputNodes;
          rootInputNodes = intersection rootNodes inputNodes;
          outputNodes = output_nodes graphIds adj;
          leafNodes = tolerated (getLeafNodes graphIds adj) outputNodes;
          leafOutputNodes = intersection leafNodes outputNodes;
          start = set_first rootInputNodes;
          end' = set_first leafOutputNodes;
          errors = map InputEdgeToNonRootNode (difference inputNodes rootNodes) @
            (if length rootInputNodes > 1 then [MultipleInputNodes rootInputNodes] else []) @
            map OutputEdgeFromNonLeafNode (difference outputNodes leafNodes) @
            (if length leafOutputNodes > 1 then [MultipleOutputNodes leafOutputNodes] else []) @
            path_errors adj start end'
      in if length errors > 0 then Inl errors else Inr \<lparr>ex_start = start, ex_end = end'\<rparr>)"

section \<open>The graph of an adjacency list\<close>

definition adj_edges :: "IConnectionAdjacencyList \<Rightarrow> (string \<times> string) set" where
  "adj_edges adj = {(a, conn_node c) | a c. c \<in> set (adj_get adj a) \<and> conn_type c = MainConn}"

lemma main_targets_edges: "set (main_targets adj a) = adj_edges adj `` {a}"
  by (auto simp: main_targets_def adj_edges_def)

lemma other_targets_edges: "set (other_targets adj a) = adj_edges adj `` {a} - {a}"
  by (auto simp: other_targets_def adj_edges_def)

lemma adj_get_iff: "js_wf adj \<Longrightarrow> (a, cs) \<in> set adj \<Longrightarrow> adj_get adj a = cs"
  by (simp add: adj_get_def js_wf_def)

lemma adj_entries: "js_wf adj \<Longrightarrow> (\<exists>cs. (a, cs) \<in> set adj \<and> c \<in> set cs) \<longleftrightarrow> c \<in> set (adj_get adj a)"
  using adj_get_iff adj_get_in by metis

lemma border_edges:
  assumes "js_wf adj"
  shows "(a, c) \<in> set (getInputEdges S adj) \<longleftrightarrow> a \<notin> set S \<and> conn_node c \<in> set S \<and> c \<in> set (adj_get adj a)"
    "(a, c) \<in> set (getOutputEdges S adj) \<longleftrightarrow> a \<in> set S \<and> conn_node c \<notin> set S \<and> c \<in> set (adj_get adj a)"
  unfolding adj_entries[OF assms, symmetric] getInputEdges_def getOutputEdges_def
  by (fastforce split: if_splits)+

lemma input_nodes_set:
  assumes "js_wf adj"
  shows "set (input_nodes S adj) = {b \<in> set S. \<exists>a. a \<notin> set S \<and> (a, b) \<in> adj_edges adj}"
proof -
  have "b \<in> set (input_nodes S adj) \<longleftrightarrow> (\<exists>a c. (a, c) \<in> set (getInputEdges S adj) \<and> conn_type c = MainConn \<and> conn_node c = b)" for b
    by (force simp: input_nodes_def)
  then show ?thesis unfolding border_edges[OF assms] adj_edges_def set_eq_iff mem_Collect_eq prod.inject by metis
qed

lemma output_nodes_set:
  assumes "js_wf adj"
  shows "set (output_nodes S adj) = {a \<in> set S. \<exists>b. b \<notin> set S \<and> (a, b) \<in> adj_edges adj}"
proof -
  have "a \<in> set (output_nodes S adj) \<longleftrightarrow> (\<exists>c. (a, c) \<in> set (getOutputEdges S adj) \<and> conn_type c = MainConn)" for a
    by (force simp: output_nodes_def)
  then show ?thesis unfolding border_edges[OF assms] adj_edges_def set_eq_iff mem_Collect_eq prod.inject by metis
qed

lemma getRootNodes_set:
  "set (getRootNodes S adj) = {b \<in> set S. \<forall>a \<in> set S. a \<noteq> b \<longrightarrow> (a, b) \<notin> adj_edges adj}"
proof -
  have "set (fold (\<lambda>n inner. set_union inner (other_targets adj n)) xs ys) = set ys \<union> (\<Union>n \<in> set xs. set (other_targets adj n))" for xs ys
    by (induction xs arbitrary: ys) auto
  then show ?thesis by (auto simp: getRootNodes_def other_targets_edges)
qed

lemma getLeafNodes_set:
  "set (getLeafNodes S adj) = {a \<in> set S. \<forall>b \<in> set S. b \<noteq> a \<longrightarrow> (a, b) \<notin> adj_edges adj}"
proof -
  have "length (intersection (other_targets adj a) S) = 0 \<longleftrightarrow> (\<forall>b \<in> set S. b \<noteq> a \<longrightarrow> (a, b) \<notin> adj_edges adj)" for a
    using set_ops(1)[of "other_targets adj a" S] by (auto simp: other_targets_edges simp flip: set_empty2)
  then show ?thesis by (auto simp: getLeafNodes_def)
qed

section \<open>hasPath decides reachability\<close>

lemma hasPathLoop_exact:
  assumes "\<And>n. n \<in> set seen \<Longrightarrow> n \<noteq> e \<and> adj_edges adj `` {n} \<subseteq> set seen \<union> set st"
  shows "hasPathLoop adj e seen st \<longleftrightarrow> (\<exists>n \<in> set st. (n, e) \<in> (adj_edges adj)\<^sup>*)"
  using assms
proof (induction adj e seen st rule: hasPathLoop.induct)
  case (1 adj e seen)
  then show ?case by simp
next
  case (2 adj e seen n st)
  show ?case
  proof (cases "n = e")
    case False
    define seen' where "seen' = set_add n seen"
    define new where "new = rev (difference (main_targets adj n) seen') @ st"
    have new: "set new = (adj_edges adj `` {n} - set seen') \<union> set st"
      by (simp add: new_def main_targets_edges)
    have closed: "m \<noteq> e \<and> adj_edges adj `` {m} \<subseteq> set seen' \<union> set new" if "m \<in> set seen'" for m
      using that 2(2)[of m] False by (auto simp: seen'_def new)
    have "hasPathLoop adj e seen (n # st) = hasPathLoop adj e seen' new"
      using False by (simp add: seen'_def new_def Let_def)
    also have "\<dots> \<longleftrightarrow> (\<exists>m \<in> set new. (m, e) \<in> (adj_edges adj)\<^sup>*)"
      using 2(1)[OF False seen'_def] closed unfolding new_def by blast
    also have "\<dots> \<longleftrightarrow> (\<exists>m \<in> set (n # st). (m, e) \<in> (adj_edges adj)\<^sup>*)"
    proof
      assume "\<exists>m \<in> set new. (m, e) \<in> (adj_edges adj)\<^sup>*"
      then show "\<exists>m \<in> set (n # st). (m, e) \<in> (adj_edges adj)\<^sup>*"
        unfolding new by (auto intro: converse_rtrancl_into_rtrancl)
    next
      assume "\<exists>m \<in> set (n # st). (m, e) \<in> (adj_edges adj)\<^sup>*"
      then obtain m where m: "m \<in> set (n # st)" "(m, e) \<in> (adj_edges adj)\<^sup>*" by blast
      have "\<exists>x \<in> set new. (x, e) \<in> (adj_edges adj)\<^sup>*"
      proof -
        have "m \<in> set seen' \<union> set new" using m(1) by (auto simp: seen'_def new)
        with m(2) show ?thesis
        proof (induction rule: converse_rtrancl_induct)
          case base
          with closed[of e] show ?case by blast
        next
          case (step y z)
          then show ?case using closed[of y] by (blast intro: converse_rtrancl_into_rtrancl)
        qed
      qed
      then show "\<exists>m \<in> set new. (m, e) \<in> (adj_edges adj)\<^sup>*" .
    qed
    finally show ?thesis .
  qed auto
qed

lemma hasPath_reaches: "hasPath s e adj \<longleftrightarrow> (s, e) \<in> (adj_edges adj)\<^sup>*"
  using hasPathLoop_exact[of "[]" e adj "[s]"] by (simp add: hasPath_def)

text \<open>\<open>hasPath\<close> always answers, and answers whether main connections lead from start to end.\<close>

theorem hasPath_exact: "hasPath start end' adj \<longleftrightarrow> (start, end') \<in> (adj_edges adj)\<^sup>*"
  by (rule hasPath_reaches)

section \<open>Which selections are accepted\<close>

definition main_inputs :: "string list \<Rightarrow> IConnectionAdjacencyList \<Rightarrow> string set" where
  "main_inputs S adj = {b \<in> set S. \<exists>a. a \<notin> set S \<and> (a, b) \<in> adj_edges adj}"

definition main_outputs :: "string list \<Rightarrow> IConnectionAdjacencyList \<Rightarrow> string set" where
  "main_outputs S adj = {a \<in> set S. \<exists>b. b \<notin> set S \<and> (a, b) \<in> adj_edges adj}"

definition roots :: "string list \<Rightarrow> IConnectionAdjacencyList \<Rightarrow> string set" where
  "roots S adj = {b \<in> set S. \<forall>a \<in> set S. a \<noteq> b \<longrightarrow> (a, b) \<notin> adj_edges adj}"

definition leaves :: "string list \<Rightarrow> IConnectionAdjacencyList \<Rightarrow> string set" where
  "leaves S adj = {a \<in> set S. \<forall>b \<in> set S. b \<noteq> a \<longrightarrow> (a, b) \<notin> adj_edges adj}"

text \<open>
  At most one node of the selection is entered from outside, a root if there are roots; at most one
  is left, a leaf if there are leaves; and main connections lead from the one to the other.
\<close>

definition selection_spec :: "string list \<Rightarrow> IConnectionAdjacencyList \<Rightarrow> bool" where
  "selection_spec S adj \<longleftrightarrow>
     card (main_inputs S adj) \<le> 1 \<and> (roots S adj = {} \<or> main_inputs S adj \<subseteq> roots S adj) \<and>
     card (main_outputs S adj) \<le> 1 \<and> (leaves S adj = {} \<or> main_outputs S adj \<subseteq> leaves S adj) \<and>
     (\<forall>i \<in> main_inputs S adj. \<forall>u \<in> main_outputs S adj. (i, u) \<in> (adj_edges adj)\<^sup>*)"

text \<open>One side of the check: the border nodes against the tolerated ends.\<close>

definition side_fine :: "string list \<Rightarrow> string list \<Rightarrow> bool" where
  "side_fine ends border \<longleftrightarrow> difference border (tolerated ends border) = [] \<and>
     \<not> length (intersection (tolerated ends border) border) > 1"

lemma side_fine:
  assumes "distinct ends" "distinct border"
  shows "side_fine ends border \<longleftrightarrow> card (set border) \<le> 1 \<and> (set ends = {} \<or> set border \<subseteq> set ends)"
    and "side_fine ends border \<Longrightarrow> set border = set_option (set_first (intersection (tolerated ends border) border))"
proof -
  let ?t = "tolerated ends border" and ?i = "intersection (tolerated ends border) border"
  have dist: "distinct ?i" using assms by (auto simp: tolerated_def)
  have sub: "difference border ?t = [] \<longleftrightarrow> set border \<subseteq> set ?t"
    by (auto simp: difference_def filter_empty_conv)
  have len: "length ?i > 1 \<longleftrightarrow> card (set ?t \<inter> set border) > 1"
    using distinct_card[OF dist] by simp
  have t: "set ?t = (if ends = [] \<and> card (set border) = 1 then set border else set ends)"
    using distinct_card[OF assms(2)] by (simp add: tolerated_def)
  have int: "set border \<subseteq> set ?t \<Longrightarrow> set ?t \<inter> set border = set border" by blast
  show "side_fine ends border \<longleftrightarrow> card (set border) \<le> 1 \<and> (set ends = {} \<or> set border \<subseteq> set ends)"
  proof (cases "ends = []")
    case True
    have "card (set border) = 0 \<longleftrightarrow> border = []" by simp
    then show ?thesis unfolding side_fine_def sub len t using True int t
      by (cases "card (set border) = 1") (auto simp: le_Suc_eq)
  next
    case False
    then show ?thesis unfolding side_fine_def sub len t using int t by auto
  qed
  assume ok: "side_fine ends border"
  then have "set ?i = set border" unfolding side_fine_def sub using int by simp
  moreover have "length ?i \<le> 1" using ok by (simp add: side_fine_def)
  then have "set ?i = set_option (set_first ?i)" by (cases ?i) (auto simp: set_first_def)
  ultimately show "set border = set_option (set_first ?i)" by simp
qed

lemma set_first_in: "set_option (set_first xs) \<subseteq> set xs"
  by (cases xs) (auto simp: set_first_def)

lemma path_errors_none:
  assumes "s \<noteq> Some []" "e \<noteq> Some []"
  shows "path_errors adj s e = [] \<longleftrightarrow> (\<forall>a \<in> set_option s. \<forall>b \<in> set_option e. (a, b) \<in> (adj_edges adj)\<^sup>*)"
  using assms by (auto simp: path_errors_def hasPath_reaches split: option.splits)

lemma parse_decides:
  assumes wf: "js_wf adj" and dist: "distinct S" and named: "[] \<notin> set S"
  shows "case parseExtractableSubgraphSelection S adj of
      Inl errors \<Rightarrow> errors \<noteq> [] \<and> \<not> selection_spec S adj
    | Inr d \<Rightarrow> selection_spec S adj \<and> main_inputs S adj = set_option (ex_start d) \<and>
        main_outputs S adj = set_option (ex_end d)"
proof -
  define I R U L where "I = input_nodes S adj" and "R = getRootNodes S adj"
    and "U = output_nodes S adj" and "L = getLeafNodes S adj"
  note defs = I_def[symmetric] R_def[symmetric] U_def[symmetric] L_def[symmetric]
  have sets: "set I = main_inputs S adj" "set R = roots S adj" "set U = main_outputs S adj" "set L = leaves S adj"
    by (simp_all add: I_def R_def U_def L_def input_nodes_set[OF wf] output_nodes_set[OF wf] getRootNodes_set
        getLeafNodes_set main_inputs_def roots_def main_outputs_def leaves_def)
  have d: "distinct R" "distinct I" "distinct L" "distinct U"
    using dist by (simp_all add: I_def R_def U_def L_def input_nodes_def output_nodes_def getRootNodes_def getLeafNodes_def)
  define s e where "s = set_first (intersection (tolerated R I) I)" and "e = set_first (intersection (tolerated L U) U)"
  have "set_option s \<subseteq> set I" "set_option e \<subseteq> set U"
    using set_first_in[of "intersection (tolerated R I) I"] set_first_in[of "intersection (tolerated L U) U"]
    by (auto simp: s_def e_def)
  then have "s \<noteq> Some []" "e \<noteq> Some []"
    using named sets(1,3) by (auto simp: main_inputs_def main_outputs_def)
  note path = path_errors_none[OF this, of adj]
  define inOk outOk where "inOk \<longleftrightarrow> side_fine R I" and "outOk \<longleftrightarrow> side_fine L U"
  have result: "parseExtractableSubgraphSelection S adj = Inr \<lparr>ex_start = s, ex_end = e\<rparr>"
    if "inOk" "outOk" "path_errors adj s e = []"
    using that by (simp add: parseExtractableSubgraphSelection_def Let_def defs s_def e_def inOk_def outOk_def side_fine_def)
  have errors: "\<exists>errs. parseExtractableSubgraphSelection S adj = Inl errs \<and> errs \<noteq> []"
    if "\<not> (inOk \<and> outOk \<and> path_errors adj s e = [])"
    using that by (auto simp: parseExtractableSubgraphSelection_def Let_def defs s_def e_def inOk_def outOk_def side_fine_def)
  have spec: "selection_spec S adj \<longleftrightarrow> inOk \<and> outOk \<and> (\<forall>i \<in> set I. \<forall>u \<in> set U. (i, u) \<in> (adj_edges adj)\<^sup>*)"
    unfolding selection_spec_def inOk_def outOk_def side_fine(1)[OF d(1,2)] side_fine(1)[OF d(3,4)] sets by blast
  have ends: "inOk \<Longrightarrow> set I = set_option s" "outOk \<Longrightarrow> set U = set_option e"
    using side_fine(2)[OF d(1,2)] side_fine(2)[OF d(3,4)] unfolding inOk_def outOk_def s_def e_def by blast+
  show ?thesis
  proof (cases "inOk \<and> outOk \<and> path_errors adj s e = []")
    case True
    then have "parseExtractableSubgraphSelection S adj = Inr \<lparr>ex_start = s, ex_end = e\<rparr>" using result by blast
    moreover have "selection_spec S adj" using True spec path ends by simp
    ultimately show ?thesis using True ends sets by simp
  next
    case False
    then obtain errs where "parseExtractableSubgraphSelection S adj = Inl errs" "errs \<noteq> []" using errors by blast
    moreover have "\<not> selection_spec S adj" using False spec path ends by auto
    ultimately show ?thesis by simp
  qed
qed

text \<open>
  The selection of an accepted result holds all nodes between start and end: what can be reached
  from the start without passing the end is selected, and the path to the end runs inside.
\<close>

lemma inside_until_end:
  assumes U: "main_outputs S adj \<subseteq> {e}" and s: "s \<in> set S" and p: "(s, x) \<in> {(a, b) \<in> adj_edges adj. a \<noteq> e}\<^sup>*"
  shows "x \<in> set S"
  using p
proof (induction rule: rtrancl_induct)
  case (step y z)
  then show ?case using U by (auto simp: main_outputs_def)
qed (rule s)

lemma path_inside:
  assumes U: "main_outputs S adj \<subseteq> {e}" and s: "s \<in> set S" and p: "(s, e) \<in> (adj_edges adj)\<^sup>*"
  shows "(s, e) \<in> {(a, b) \<in> adj_edges adj. a \<in> set S \<and> b \<in> set S}\<^sup>*"
  using p s
proof (induction rule: converse_rtrancl_induct)
  case (step y z)
  show ?case
  proof (cases "z \<in> set S")
    case True
    with step show ?thesis by (auto intro: converse_rtrancl_into_rtrancl)
  next
    case False
    with step U have "y = e" by (auto simp: main_outputs_def)
    then show ?thesis by simp
  qed
qed simp

text \<open>
  C33: A selection is accepted exactly if it is entered from outside at one node at most (a root),
  left at one node at most (a leaf), and the one leads to the other; start and end are these nodes.
\<close>

theorem parseExtractableSubgraphSelection_exact:
  assumes "js_wf adj" "distinct S" "[] \<notin> set S"
  shows "case parseExtractableSubgraphSelection S adj of
      Inl errors \<Rightarrow> errors \<noteq> [] \<and> \<not> selection_spec S adj
    | Inr d \<Rightarrow> selection_spec S adj \<and> main_inputs S adj = set_option (ex_start d) \<and>
        main_outputs S adj = set_option (ex_end d)"
  by (rule parse_decides[OF assms])

text \<open>
  In an accepted selection with start and end, a path inside the selection leads from the start
  to the end, and no node that the start reaches before the end lies outside.
\<close>

theorem accepted_selection_closed:
  assumes "js_wf adj" "distinct S" "[] \<notin> set S"
    and "parseExtractableSubgraphSelection S adj = Inr \<lparr>ex_start = Some s, ex_end = Some e\<rparr>"
  shows "(s, e) \<in> {(a, b) \<in> adj_edges adj. a \<in> set S \<and> b \<in> set S}\<^sup>* \<and>
    (\<forall>x. (s, x) \<in> {(a, b) \<in> adj_edges adj. a \<noteq> e}\<^sup>* \<longrightarrow> x \<in> set S)"
proof -
  have spec: "selection_spec S adj" "main_inputs S adj = {s}" "main_outputs S adj = {e}"
    using parse_decides[OF assms(1-3)] assms(4) by auto
  have "s \<in> set S" using spec(2) by (auto simp: main_inputs_def)
  moreover have "(s, e) \<in> (adj_edges adj)\<^sup>*" using spec by (auto simp: selection_spec_def)
  ultimately show ?thesis
    using inside_until_end[of S adj e s] path_inside[of S adj e s] spec(3) by blast
qed

section \<open>Building the adjacency list\<close>

lemma buildAdjacencyList_fold:
  "adj_get (fold (\<lambda>(src, _, _, c) adj. js_put src (adj_get adj src @ [c]) adj) es adj) a =
     adj_get adj a @ [c. (src, _, _, c) \<leftarrow> es, src = a]"
proof (induction es arbitrary: adj)
  case (Cons e es)
  obtain src ty i c where e: "e = (src, ty, i, c)" by (metis prod_cases4)
  have "adj_get (js_put src (adj_get adj src @ [c]) adj) a = adj_get adj a @ (if src = a then [c] else [])"
    by (simp add: adj_get_def)
  with Cons show ?case by (simp add: e)
qed simp

lemma buildAdjacencyList_wf:
  "js_wf adj \<Longrightarrow> js_wf (fold (\<lambda>(src, _, _, c) adj. js_put src (adj_get adj src @ [c]) adj) es adj)"
  by (induction es arbitrary: adj) (auto simp: case_prod_unfold)

text \<open>
  The adjacency list of a connection table is well formed and holds, for every source, the
  connections stored for it under any type and output, in the order of the table.
\<close>

theorem buildAdjacencyList_exact:
  "js_wf (buildAdjacencyList cs) \<and>
   adj_get (buildAdjacencyList cs) a = [c. (src, _, _, c) \<leftarrow> table_entries cs, src = a]"
  using buildAdjacencyList_fold[of "table_entries cs" "[]" a] buildAdjacencyList_wf[of "[]" "table_entries cs"]
  unfolding buildAdjacencyList_def by (simp add: adj_get_def[of "[]"])

section \<open>Witnesses\<close>

definition to_main :: "string \<Rightarrow> IConnection" where
  "to_main nm = \<lparr>conn_node = nm, conn_type = MainConn, conn_index = 0\<rparr>"

definition selection_graph :: IConnectionAdjacencyList where
  "selection_graph = [(''t'', [to_main ''a'']), (''a'', [to_main ''b'']), (''b'', [to_main ''c''])]"

lemma parseExtractableSubgraphSelection_exact_witness:
  "\<not> selection_spec [''a'', ''c''] selection_graph \<and> selection_spec [''a'', ''b''] selection_graph"
proof -
  have wf: "js_wf selection_graph" "distinct [''a'', ''c'']" "[] \<notin> set [''a'', ''c'']"
    "distinct [''a'', ''b'']" "[] \<notin> set [''a'', ''b'']" by code_simp+
  have "case parseExtractableSubgraphSelection [''a'', ''c''] selection_graph of Inl _ \<Rightarrow> True | Inr _ \<Rightarrow> False"
    "case parseExtractableSubgraphSelection [''a'', ''b''] selection_graph of Inl _ \<Rightarrow> False | Inr _ \<Rightarrow> True" by code_simp+
  with parseExtractableSubgraphSelection_exact[OF wf(1-3)] parseExtractableSubgraphSelection_exact[OF wf(1,4,5)]
  show ?thesis by (auto split: sum.splits)
qed

lemma accepted_selection_closed_witness:
  "(''a'', ''b'') \<in> {(x, y) \<in> adj_edges selection_graph. x \<in> {''a'', ''b''} \<and> y \<in> {''a'', ''b''}}\<^sup>*"
proof -
  have wf: "js_wf selection_graph" "distinct [''a'', ''b'']" "[] \<notin> set [''a'', ''b'']"
    "parseExtractableSubgraphSelection [''a'', ''b''] selection_graph = Inr \<lparr>ex_start = Some ''a'', ex_end = Some ''b''\<rparr>"
    by code_simp+
  from accepted_selection_closed[OF wf] show ?thesis by simp
qed

end
