(* ===== verification/Concurrency.thy ===== *)
theory Concurrency
  imports Interfaces
begin

text \<open>
  The limit on concurrent executions: class \<open>ConcurrencyQueue\<close>
  (\<^verbatim>\<open>packages/cli/src/concurrency/concurrency-queue.ts\<close>) and class \<open>ConcurrencyControlService\<close>
  (\<^verbatim>\<open>packages/cli/src/concurrency/concurrency-control.service.ts\<close>).

  A queued execution is a promise the caller awaits; it is named by its execution id. Operations
  return the ids whose promises they resolve and the events they emit. The check event is debounced:
  the last payload waits in \<open>cq_check\<close> until the timer fires. \<open>semaphore\<close> is what a queue promises,
  a counting semaphore with a first-come, first-served line; \<open>represents\<close> is the refinement.
\<close>

section \<open>The queue\<close>

record ConcurrencyQueue =
  cq_capacity :: int
  cq_queue :: "string list"
  cq_check :: "int option"

datatype ConcurrencyEvent =
    ExecutionThrottled string
  | ExecutionReleased string
  | ConcurrencyCheck int

definition new_queue :: "int \<Rightarrow> ConcurrencyQueue" where
  "new_queue capacity = \<lparr>cq_capacity = capacity, cq_queue = [], cq_check = None\<rparr>"

text \<open>Whether the caller has to wait, the events, the queue.\<close>

definition enqueue :: "string \<Rightarrow> ConcurrencyQueue \<Rightarrow> bool \<times> ConcurrencyEvent list \<times> ConcurrencyQueue" where
  "enqueue executionId q =
     (let capacity = cq_capacity q - 1;
          q = q\<lparr>cq_capacity := capacity, cq_check := Some capacity\<rparr>
      in if capacity < 0
         then (True, [ExecutionThrottled executionId], q\<lparr>cq_queue := cq_queue q @ [executionId]\<rparr>)
         else (False, [], q))"

text \<open>The execution that is released, if one was waiting.\<close>

definition resolveNext :: "ConcurrencyQueue \<Rightarrow> string option \<times> ConcurrencyQueue" where
  "resolveNext q = (case cq_queue q of
      [] \<Rightarrow> (None, q)
    | executionId # queue \<Rightarrow> (Some executionId, q\<lparr>cq_queue := queue\<rparr>))"

definition dequeue :: "ConcurrencyQueue \<Rightarrow> string option \<times> ConcurrencyQueue" where
  "dequeue q = resolveNext (q\<lparr>cq_capacity := cq_capacity q + 1\<rparr>)"

definition queue_remove :: "string \<Rightarrow> ConcurrencyQueue \<Rightarrow> string option \<times> ConcurrencyQueue" where
  "queue_remove executionId q =
     (case findIndex (\<lambda>item. item = executionId) (cq_queue q) of
        None \<Rightarrow> (None, q)
      | Some index \<Rightarrow> resolveNext (q\<lparr>cq_queue := splice1 index (cq_queue q), cq_capacity := cq_capacity q + 1\<rparr>))"

definition queue_getAll :: "ConcurrencyQueue \<Rightarrow> string list" where
  "queue_getAll q = set_of_array (cq_queue q)"

definition queue_has :: "ConcurrencyQueue \<Rightarrow> string \<Rightarrow> bool" where
  "queue_has q executionId \<longleftrightarrow> (\<exists>item \<in> set (cq_queue q). item = executionId)"

definition release_events :: "string option \<Rightarrow> ConcurrencyEvent list" where
  "release_events r = (case r of None \<Rightarrow> [] | Some executionId \<Rightarrow> [ExecutionReleased executionId])"

definition check_fires :: "ConcurrencyQueue \<Rightarrow> ConcurrencyEvent list \<times> ConcurrencyQueue" where
  "check_fires q = (case cq_check q of None \<Rightarrow> [] | Some c \<Rightarrow> [ConcurrencyCheck c], q\<lparr>cq_check := None\<rparr>)"

section \<open>What the queue promises\<close>

record Semaphore =
  sem_running :: nat
  sem_waiting :: "string list"

definition sem_acquire :: "nat \<Rightarrow> string \<Rightarrow> Semaphore \<Rightarrow> bool \<times> Semaphore" where
  "sem_acquire limit x s =
     (if sem_running s < limit then (False, s\<lparr>sem_running := sem_running s + 1\<rparr>)
      else (True, s\<lparr>sem_waiting := sem_waiting s @ [x]\<rparr>))"

definition sem_release :: "Semaphore \<Rightarrow> string option \<times> Semaphore" where
  "sem_release s = (case sem_waiting s of
      [] \<Rightarrow> (None, s\<lparr>sem_running := sem_running s - 1\<rparr>)
    | x # xs \<Rightarrow> (Some x, s\<lparr>sem_waiting := xs\<rparr>))"

definition represents :: "nat \<Rightarrow> ConcurrencyQueue \<Rightarrow> Semaphore \<Rightarrow> bool" where
  "represents limit q s \<longleftrightarrow> cq_queue q = sem_waiting s \<and>
     cq_capacity q = int limit - int (sem_running s) - int (length (sem_waiting s)) \<and>
     sem_running s \<le> limit \<and> (sem_waiting s \<noteq> [] \<longrightarrow> sem_running s = limit)"

lemma represents_new: "represents limit (new_queue (int limit)) \<lparr>sem_running = 0, sem_waiting = []\<rparr>"
  by (simp add: represents_def new_queue_def)

lemma represents_enqueue:
  assumes "represents limit q s"
  obtains q' s' where "enqueue x q = (fst (sem_acquire limit x s), if fst (sem_acquire limit x s) then [ExecutionThrottled x] else [], q')"
    "sem_acquire limit x s = (fst (sem_acquire limit x s), s')" "represents limit q' s'"
proof (cases "sem_running s < limit")
  case True
  with assms have "cq_capacity q - 1 \<ge> 0" "sem_waiting s = []" by (auto simp: represents_def)
  with True assms that show thesis by (simp add: enqueue_def sem_acquire_def represents_def Let_def)
next
  case False
  with assms have "cq_capacity q - 1 < 0" by (simp add: represents_def)
  with False assms that show thesis by (simp add: enqueue_def sem_acquire_def represents_def Let_def)
qed

lemma represents_dequeue:
  assumes "represents limit q s" "0 < sem_running s"
  shows "fst (dequeue q) = fst (sem_release s) \<and> represents limit (snd (dequeue q)) (snd (sem_release s))"
  using assms by (cases "sem_waiting s") (auto simp: dequeue_def resolveNext_def sem_release_def represents_def)

text \<open>
  C32: The queue implements the semaphore: a new queue of a given capacity represents the idle
  semaphore, an execution waits in the one exactly if it waits in the other, and a finished execution
  (one that holds a slot) releases the same waiting execution in both.
\<close>

theorem queue_refines_semaphore:
  "represents limit (new_queue (int limit)) \<lparr>sem_running = 0, sem_waiting = []\<rparr> \<and>
   (represents limit q s \<longrightarrow>
      fst (enqueue x q) = fst (sem_acquire limit x s) \<and>
      represents limit (snd (snd (enqueue x q))) (snd (sem_acquire limit x s)) \<and>
      (0 < sem_running s \<longrightarrow> fst (dequeue q) = fst (sem_release s) \<and>
         represents limit (snd (dequeue q)) (snd (sem_release s))))"
proof (intro conjI impI)
  assume r: "represents limit q s"
  obtain q' s' where e: "enqueue x q = (fst (sem_acquire limit x s), if fst (sem_acquire limit x s) then [ExecutionThrottled x] else [], q')"
    "sem_acquire limit x s = (fst (sem_acquire limit x s), s')" "represents limit q' s'"
    using represents_enqueue[OF r] by blast
  show "fst (enqueue x q) = fst (sem_acquire limit x s)" using e(1) by (metis fst_conv)
  show "represents limit (snd (snd (enqueue x q))) (snd (sem_acquire limit x s))" using e by (metis snd_conv)
  assume "0 < sem_running s"
  from represents_dequeue[OF r this] show "fst (dequeue q) = fst (sem_release s)"
    "represents limit (snd (dequeue q)) (snd (sem_release s))" by blast+
qed (rule represents_new)

lemma queue_refines_semaphore_witness:
  "represents 1 (snd (snd (enqueue ''b'' (snd (snd (enqueue ''a'' (new_queue 1))))))) \<lparr>sem_running = 1, sem_waiting = [''b'']\<rparr>"
proof -
  let ?idle = "\<lparr>sem_running = 0, sem_waiting = []\<rparr>" and ?one = "\<lparr>sem_running = 1, sem_waiting = []\<rparr>"
  have acq: "snd (sem_acquire 1 ''a'' ?idle) = ?one" "snd (sem_acquire 1 ''b'' ?one) = \<lparr>sem_running = 1, sem_waiting = [''b'']\<rparr>"
    by (simp_all add: sem_acquire_def)
  have "represents 1 (new_queue (int 1)) ?idle" using queue_refines_semaphore[of 1 "new_queue 0" ?idle "''a''"] by blast
  then have "represents 1 (snd (snd (enqueue ''a'' (new_queue 1)))) ?one"
    using queue_refines_semaphore[of 1 "new_queue 1" ?idle "''a''"] acq(1) by simp
  then show ?thesis using queue_refines_semaphore[of 1 _ ?one "''b''"] acq(2) by metis
qed

section \<open>Admission control\<close>

text \<open>
  What a client of a limited resource relies on: how many holders a state accounts for, and that
  admitting and releasing keep the account.
\<close>

locale admission =
  fixes acquire :: "'id \<Rightarrow> 's \<Rightarrow> bool \<times> 's"
    and give_back :: "'s \<Rightarrow> 'id option \<times> 's"
    and accounts :: "'s \<Rightarrow> nat \<Rightarrow> bool"
    and limit :: nat
  assumes acquire_accounts: "accounts s n \<Longrightarrow> acquire x s = (waits, s') \<Longrightarrow> accounts s' (if waits then n else Suc n)"
    and give_back_accounts: "accounts s (Suc n) \<Longrightarrow> give_back s = (r, s') \<Longrightarrow> accounts s' (case r of None \<Rightarrow> n | Some _ \<Rightarrow> Suc n)"
    and accounts_bound: "accounts s n \<Longrightarrow> n \<le> limit"
begin

text \<open>A session: executions start (\<open>Some x\<close>) and holders finish (\<open>None\<close>); who holds a slot is counted.\<close>

fun session :: "'id option list \<Rightarrow> 's \<times> nat \<Rightarrow> 's \<times> nat" where
  "session [] c = c"
| "session (Some x # es) (s, n) = (case acquire x s of (waits, s') \<Rightarrow> session es (s', if waits then n else Suc n))"
| "session (None # es) (s, 0) = session es (s, 0)"
| "session (None # es) (s, Suc n) = (case give_back s of (r, s') \<Rightarrow> session es (s', case r of None \<Rightarrow> n | Some _ \<Rightarrow> Suc n))"

lemma session_accounts: "accounts s n \<Longrightarrow> session es (s, n) = (s', n') \<Longrightarrow> accounts s' n'"
proof (induction es "(s, n)" arbitrary: s n rule: session.induct)
  case (2 x es s n)
  obtain w t where a: "acquire x s = (w, t)" by fastforce
  from acquire_accounts[OF 2(2) a] 2(1,3) a show ?case by simp
next
  case (4 es s n)
  obtain r t where a: "give_back s = (r, t)" by fastforce
  from give_back_accounts[OF 4(2) a] 4(1,3) a show ?case by simp
qed simp_all

lemma session_bounded: "accounts s n \<Longrightarrow> snd (session es (s, n)) \<le> limit"
  using session_accounts[of s n es] accounts_bound by (metis prod.collapse)

end

text \<open>A queue of a given limit from which \<open>r\<close> waiting executions were removed, with \<open>n\<close> holders.\<close>

definition queue_accounts :: "nat \<Rightarrow> nat \<Rightarrow> ConcurrencyQueue \<Rightarrow> nat \<Rightarrow> bool" where
  "queue_accounts limit r q n \<longleftrightarrow> cq_capacity q = int limit - int n - int (length (cq_queue q)) \<and>
     n \<le> limit + r \<and> (cq_queue q \<noteq> [] \<longrightarrow> limit \<le> n)"

definition queue_acquire :: "string \<Rightarrow> ConcurrencyQueue \<Rightarrow> bool \<times> ConcurrencyQueue" where
  "queue_acquire x q = (case enqueue x q of (waits, _, q') \<Rightarrow> (waits, q'))"

interpretation cq: admission queue_acquire dequeue "queue_accounts limit r" "limit + r" for limit r :: nat
proof unfold_locales
  fix q q' n and x :: string and waits
  assume "queue_accounts limit r q n" "queue_acquire x q = (waits, q')"
  then show "queue_accounts limit r q' (if waits then n else Suc n)"
    by (auto simp: queue_accounts_def queue_acquire_def enqueue_def Let_def split: if_splits)
next
  fix q q' n and released :: "string option"
  assume "queue_accounts limit r q (Suc n)" "dequeue q = (released, q')"
  then show "queue_accounts limit r q' (case released of None \<Rightarrow> n | Some _ \<Rightarrow> Suc n)"
    by (auto simp: queue_accounts_def dequeue_def resolveNext_def split: list.splits)
qed (simp add: queue_accounts_def)

text \<open>
  In every sequence of starts and finishes from a new queue, the executions that were let through
  and have not finished never exceed the limit.
\<close>

theorem concurrency_bounded:
  "snd (cq.session es (new_queue (int limit), 0)) \<le> limit"
  using cq.session_bounded[of limit 0 "new_queue (int limit)" 0 es] by (simp add: queue_accounts_def new_queue_def)

section \<open>Removing a queued execution\<close>

text \<open>
  The slot that \<open>remove\<close> gives back is the one the removed execution was waiting for, not one that
  anybody holds; nevertheless the next in line is released. Here \<open>c\<close> starts beside \<open>a\<close> at limit 1.
\<close>

lemma remove_exceeds_limit:
  "(let (_, _, q) = enqueue ''a'' (new_queue 1);
        (_, _, q) = enqueue ''b'' q;
        (_, _, q) = enqueue ''c'' q
    in queue_remove ''b'' q) = (Some ''c'', \<lparr>cq_capacity = -1, cq_queue = [], cq_check = Some (-2)\<rparr>)"
  by code_simp

lemma queue_remove_Cons:
  assumes "cq_queue q = x # rest"
  shows "queue_remove x q = resolveNext (q\<lparr>cq_queue := rest, cq_capacity := cq_capacity q + 1\<rparr>)"
  using assms by (simp add: queue_remove_def splice1_def)

lemma findIndex_absent: "x \<notin> set xs \<Longrightarrow> findIndex (\<lambda>y. y = x) xs = None"
  by (simp; blast)

text \<open>Every removal of a waiting execution may let one more through.\<close>

lemma queue_remove_accounts:
  assumes "queue_accounts limit r q n" "queue_remove x q = (released, q')"
  shows "queue_accounts limit (Suc r) q' (case released of None \<Rightarrow> n | Some _ \<Rightarrow> Suc n)"
proof (cases "findIndex (\<lambda>item. item = x) (cq_queue q)")
  case None
  with assms show ?thesis by (auto simp: queue_remove_def queue_accounts_def)
next
  case (Some k)
  then have "k < length (cq_queue q)" using findIndex_SomeD by blast
  then have len: "Suc (length (splice1 k (cq_queue q))) = length (cq_queue q)" by (simp add: splice1_def)
  then have "cq_queue q \<noteq> []" by auto
  then show ?thesis using Some assms len
    by (cases "splice1 k (cq_queue q)") (auto simp: queue_remove_def queue_accounts_def resolveNext_def)
qed

text \<open>What \<open>removeAll\<close> does to one queue: every id that was queued at the start is removed in turn.\<close>

definition queue_removeAll :: "ConcurrencyQueue \<Rightarrow> string list \<times> ConcurrencyQueue" where
  "queue_removeAll q = fold (\<lambda>executionId (released, q).
     case queue_remove executionId q of (r, q') \<Rightarrow> (released @ (case r of None \<Rightarrow> [] | Some x \<Rightarrow> [x]), q'))
     (queue_getAll q) ([], q)"

fun every_second :: "'a list \<Rightarrow> 'a list" where
  "every_second [] = []"
| "every_second [x] = []"
| "every_second (x # y # xs) = y # every_second xs"

lemma every_second_subset: "set (every_second xs) \<subseteq> set xs"
  by (induction xs rule: every_second.induct) auto

lemma fold_remove_absent:
  assumes "set xs \<inter> set (cq_queue q) = {}"
  shows "fold (\<lambda>executionId (released, q).
     case queue_remove executionId q of (r, q') \<Rightarrow> (released @ (case r of None \<Rightarrow> [] | Some x \<Rightarrow> [x]), q')) xs (rel, q) = (rel, q)"
  using assms by (induction xs) (auto simp: queue_remove_def findIndex_absent)

lemma queue_removeAll_fold:
  assumes "distinct xs" "cq_queue q = xs"
  shows "fold (\<lambda>executionId (released, q).
      case queue_remove executionId q of (r, q') \<Rightarrow> (released @ (case r of None \<Rightarrow> [] | Some x \<Rightarrow> [x]), q')) xs (rel, q) =
    (rel @ every_second xs, q\<lparr>cq_queue := [], cq_capacity := cq_capacity q + int (length xs) - int (length (every_second xs))\<rparr>)"
  using assms
proof (induction xs arbitrary: q rel rule: every_second.induct)
  case (2 x)
  then show ?case by (simp add: queue_remove_Cons resolveNext_def)
next
  case (3 x y xs)
  have first: "queue_remove x q = (Some y, q\<lparr>cq_queue := xs, cq_capacity := cq_capacity q + 1\<rparr>)"
    using 3 by (simp add: queue_remove_Cons resolveNext_def)
  have second: "queue_remove y (q\<lparr>cq_queue := xs, cq_capacity := cq_capacity q + 1\<rparr>) =
      (None, q\<lparr>cq_queue := xs, cq_capacity := cq_capacity q + 1\<rparr>)"
    using 3 by (simp add: queue_remove_def findIndex_absent)
  have "distinct xs" using 3 by simp
  from 3(1)[OF this, of "q\<lparr>cq_queue := xs, cq_capacity := cq_capacity q + 1\<rparr>" "rel @ [y]"]
  show ?case by (simp add: first second)
qed (simp_all add: ConcurrencyQueue.equality)

lemma set_of_array_id: "distinct xs \<Longrightarrow> set_of_array xs = xs"
proof -
  have "distinct (ys @ xs) \<Longrightarrow> fold set_add xs ys = ys @ xs" for ys
    by (induction xs arbitrary: ys) (auto simp: set_add_def)
  from this[of "[]"] show "distinct xs \<Longrightarrow> set_of_array xs = xs" by (simp add: set_of_array_def)
qed

lemma queue_removeAll_eq:
  assumes "distinct (cq_queue q)"
  shows "queue_removeAll q = (every_second (cq_queue q),
    q\<lparr>cq_queue := [], cq_capacity := cq_capacity q + int (length (cq_queue q)) - int (length (every_second (cq_queue q)))\<rparr>)"
  unfolding queue_removeAll_def queue_getAll_def set_of_array_id[OF assms]
  using queue_removeAll_fold[OF assms refl, of "[]"] by simp

section \<open>The service\<close>

datatype ConcurrencyQueueType = Production | Evaluation

record ConcurrencyControl =
  cc_enabled :: bool
  cc_limits :: "(ConcurrencyQueueType, int) js_map"
  cc_queues :: "(ConcurrencyQueueType, ConcurrencyQueue) js_map"

text \<open>The constructor; \<open>queueMode\<close> is the setting \<open>executions.mode === 'queue'\<close>.\<close>

definition normalize_limit :: "ConcurrencyQueueType \<times> int \<Rightarrow> (ConcurrencyQueueType, int) js_map \<Rightarrow>
    (ConcurrencyQueueType, int) js_map result" where
  "normalize_limit = (\<lambda>(ty, limit) limits.
     if limit = 0 then Inl (UserError ''Concurrency limit set to invalid value'')
     else if limit < -1 then Inr (js_put ty (-1) limits) else Inr limits)"

definition new_control :: "int \<Rightarrow> int \<Rightarrow> bool \<Rightarrow> ConcurrencyControl result" where
  "new_control productionLimit evaluationLimit queueMode =
     (let limits = [(Production, productionLimit), (Evaluation, evaluationLimit)]
      in rbind (rfold normalize_limit limits limits) (\<lambda>limits.
        if (\<forall>l \<in> set (js_values limits). l = -1) \<or> queueMode
        then Inr \<lparr>cc_enabled = False, cc_limits = limits, cc_queues = []\<rparr>
        else Inr \<lparr>cc_enabled = True, cc_limits = limits,
          cc_queues = fold (\<lambda>(ty, limit) qs. if limit > 0 then js_put ty (new_queue limit) qs else qs) limits []\<rparr>))"

text \<open>The nine modes of the type are all there is, so the unknown-mode error cannot occur.\<close>

fun queue_type :: "WorkflowExecuteMode \<Rightarrow> ConcurrencyQueueType option" where
  "queue_type ModeWebhook = Some Production"
| "queue_type ModeTrigger = Some Production"
| "queue_type ModeEvaluation = Some Evaluation"
| "queue_type _ = None"

definition getQueue :: "ConcurrencyControl \<Rightarrow> WorkflowExecuteMode \<Rightarrow> (ConcurrencyQueueType \<times> ConcurrencyQueue) option" where
  "getQueue c mode = (case queue_type mode of None \<Rightarrow> None
     | Some ty \<Rightarrow> map_option (Pair ty) (map_of (cc_queues c) ty))"

definition isUnlimited :: "ConcurrencyControl \<Rightarrow> WorkflowExecuteMode \<Rightarrow> bool" where
  "isUnlimited c mode \<longleftrightarrow> getQueue c mode = None"

definition set_queue :: "ConcurrencyQueueType \<Rightarrow> ConcurrencyQueue \<Rightarrow> ConcurrencyControl \<Rightarrow> ConcurrencyControl" where
  "set_queue ty q c = c\<lparr>cc_queues := js_put ty q (cc_queues c)\<rparr>"

definition control_has :: "ConcurrencyControl \<Rightarrow> string \<Rightarrow> bool" where
  "control_has c executionId \<longleftrightarrow> cc_enabled c \<and> (\<exists>q \<in> set (js_values (cc_queues c)). queue_has q executionId)"

definition throttle :: "WorkflowExecuteMode \<Rightarrow> string \<Rightarrow> ConcurrencyControl \<Rightarrow> bool \<times> ConcurrencyEvent list \<times> ConcurrencyControl" where
  "throttle mode executionId c =
     (if \<not> cc_enabled c \<or> isUnlimited c mode then (False, [], c)
      else case getQueue c mode of None \<Rightarrow> (False, [], c)
        | Some (ty, q) \<Rightarrow> (case enqueue executionId q of (waits, events, q') \<Rightarrow> (waits, events, set_queue ty q' c)))"

definition release :: "WorkflowExecuteMode \<Rightarrow> ConcurrencyControl \<Rightarrow> string option \<times> ConcurrencyControl" where
  "release mode c =
     (if \<not> cc_enabled c \<or> isUnlimited c mode then (None, c)
      else case getQueue c mode of None \<Rightarrow> (None, c)
        | Some (ty, q) \<Rightarrow> (case dequeue q of (r, q') \<Rightarrow> (r, set_queue ty q' c)))"

definition remove_queued :: "WorkflowExecuteMode \<Rightarrow> string \<Rightarrow> ConcurrencyControl \<Rightarrow> string option \<times> ConcurrencyControl" where
  "remove_queued mode executionId c =
     (if \<not> cc_enabled c \<or> isUnlimited c mode then (None, c)
      else case getQueue c mode of None \<Rightarrow> (None, c)
        | Some (ty, q) \<Rightarrow> (case queue_remove executionId q of (r, q') \<Rightarrow> (r, set_queue ty q' c)))"

text \<open>The executions released from the queues, the ids given to \<open>cancelMany\<close> if it is called.\<close>

definition control_removeAll :: "string list \<Rightarrow> ConcurrencyControl \<Rightarrow> string list \<times> string list option \<times> ConcurrencyControl" where
  "control_removeAll executionIdsToCancel c =
     (if \<not> cc_enabled c then ([], None, c)
      else (concat (map (\<lambda>(ty, q). fst (queue_removeAll q)) (cc_queues c)),
            if length executionIdsToCancel = 0 then None else Some executionIdsToCancel,
            c\<lparr>cc_queues := map (\<lambda>(ty, q). (ty, snd (queue_removeAll q))) (cc_queues c)\<rparr>))"

definition disable :: "ConcurrencyControl \<Rightarrow> ConcurrencyControl" where
  "disable c = c\<lparr>cc_enabled := False\<rparr>"

definition CLOUD_TEMP_PRODUCTION_LIMIT :: int where
  "CLOUD_TEMP_PRODUCTION_LIMIT = 999"

definition CLOUD_TEMP_REPORTABLE_THRESHOLDS :: "int list" where
  "CLOUD_TEMP_REPORTABLE_THRESHOLDS = [5, 10, 20, 50, 100, 200]"

definition limitsToReport :: "int list" where
  "limitsToReport = map (\<lambda>t. CLOUD_TEMP_PRODUCTION_LIMIT - t) CLOUD_TEMP_REPORTABLE_THRESHOLDS"

definition shouldReport :: "bool \<Rightarrow> int \<Rightarrow> bool" where
  "shouldReport isCloud capacity \<longleftrightarrow> isCloud \<and> capacity \<in> set limitsToReport"

section \<open>Properties of the service\<close>

text \<open>
  The constructor throws exactly for a limit of zero; otherwise limiting is on exactly in regular
  mode with a positive limit, and then there is one empty queue, with the limit as its capacity, for
  every positive limit.
\<close>

theorem new_control_exact:
  "if p = 0 \<or> e = 0 then new_control p e queueMode = Inl (UserError ''Concurrency limit set to invalid value'')
   else \<exists>c. new_control p e queueMode = Inr c \<and>
     (cc_enabled c \<longleftrightarrow> \<not> queueMode \<and> (p > 0 \<or> e > 0)) \<and>
     (cc_enabled c \<longrightarrow>
       map_of (cc_queues c) Production = (if p > 0 then Some (new_queue p) else None) \<and>
       map_of (cc_queues c) Evaluation = (if e > 0 then Some (new_queue e) else None))"
proof (cases "p = 0 \<or> e = 0")
  case True
  then show ?thesis by (cases "p = 0") (simp_all add: new_control_def normalize_limit_def Let_def)
next
  case False
  then have "p < -1 \<or> p = -1 \<or> p > 0" "e < -1 \<or> e = -1 \<or> e > 0" by auto
  with False show ?thesis
    by (elim disjE) (auto simp: new_control_def normalize_limit_def js_values_def Let_def)
qed

lemma new_control_exact_witness:
  "\<exists>c. new_control 2 (-5) False = Inr c \<and> cc_enabled c \<and> map_of (cc_queues c) Production = Some (new_queue 2) \<and>
    map_of (cc_queues c) Evaluation = None"
  using new_control_exact[of 2 "-5" False] by auto

text \<open>
  \<open>removeAll\<close>, when limiting is on, leaves every queue empty; the executions it was to drop are
  not all dropped: every second one in line is released and runs.
\<close>

theorem control_removeAll_releases:
  assumes "cc_enabled c" and "\<forall>q \<in> set (js_values (cc_queues c)). distinct (cq_queue q)"
  shows "\<exists>cancelled c'. control_removeAll ids c = (concat (map (\<lambda>q. every_second (cq_queue q)) (js_values (cc_queues c))), cancelled, c') \<and>
    (\<forall>q \<in> set (js_values (cc_queues c')). cq_queue q = []) \<and>
    cancelled = (if ids = [] then None else Some ids)"
proof -
  have eq: "queue_removeAll q = (every_second (cq_queue q),
      q\<lparr>cq_queue := [], cq_capacity := cq_capacity q + int (length (cq_queue q)) - int (length (every_second (cq_queue q)))\<rparr>)"
    if "(ty, q) \<in> set (cc_queues c)" for ty q
    using assms(2) that by (intro queue_removeAll_eq) (force simp: js_values_def)
  have "map (\<lambda>(ty, q). fst (queue_removeAll q)) (cc_queues c) = map (\<lambda>q. every_second (cq_queue q)) (js_values (cc_queues c))"
    unfolding js_values_def map_map comp_def by (rule map_cong[OF refl]) (auto simp: eq)
  moreover have "cq_queue q = []"
    if "q \<in> set (js_values (map (\<lambda>(ty, q). (ty, snd (queue_removeAll q))) (cc_queues c)))" for q
    using that eq by (auto simp: js_values_def)
  ultimately show ?thesis using assms(1) by (auto simp: control_removeAll_def)
qed

lemma control_removeAll_releases_witness:
  "\<exists>cancelled c'. control_removeAll [] \<lparr>cc_enabled = True, cc_limits = [(Production, 1)],
       cc_queues = [(Production, \<lparr>cq_capacity = -3, cq_queue = [''b'', ''c'', ''d''], cq_check = None\<rparr>)]\<rparr> =
     ([''c''], cancelled, c') \<and> cancelled = None"
proof -
  let ?c = "\<lparr>cc_enabled = True, cc_limits = [(Production, 1)],
       cc_queues = [(Production, \<lparr>cq_capacity = -3, cq_queue = [''b'', ''c'', ''d''], cq_check = None\<rparr>)]\<rparr>"
  have "cc_enabled ?c" "\<forall>q \<in> set (js_values (cc_queues ?c)). distinct (cq_queue q)" by (simp_all add: js_values_def)
  from control_removeAll_releases[OF this, of "[]"] show ?thesis by (auto simp: js_values_def)
qed

end
