(* ===== verification/ActiveExecutions.thy ===== *)
theory ActiveExecutions
  imports Concurrency Interfaces
begin

text \<open>
  The executions of a process: class \<open>ActiveExecutions\<close> (\<^verbatim>\<open>packages/cli/src/active-executions.ts\<close>) on top
  of the concurrency control.

  Execution objects are shared between the map \<open>activeExecutions\<close> and the callback on their
  post-execution promise, so they live in a store and the map holds references. A call of \<open>add\<close> is
  split where it awaits: \<open>add_begin\<close> runs to the call of \<open>throttle\<close> (the database has created the
  execution), \<open>add_finish\<close> after the throttle let it through and the database call returned,
  \<open>add_fails\<close> if that call failed. \<open>on_settled\<close> is the \<open>finally\<close> callback of the promise. Calls to the
  database, to promises of others and to the response are a log of effects. \<open>ae_step\<close> is one step of
  the process in any order the event loop may choose, the stop of an execution by a user
  (\<^verbatim>\<open>packages/cli/src/executions/execution.service.ts\<close>) and a shutdown among them.
\<close>

section \<open>State\<close>

datatype Settlement = ResolvedRun | RejectedCancelled

record ExecutionData =
  ed_mode :: WorkflowExecuteMode
  ed_retryOf :: "string option"
  ed_workflowId :: string
  ed_httpResponse :: bool

record IExecutingWorkflowData =
  ex_id :: string
  ex_data :: ExecutionData
  ex_startedAt :: nat
  ex_status :: ExecutionStatus
  ex_responsePromise :: "nat option"
  ex_workflowExecution :: "nat option"
  ex_settled :: "Settlement option"
  ex_finished :: bool

record PendingAdd =
  pa_id :: string
  pa_data :: ExecutionData
  pa_new :: bool
  pa_waiting :: bool
  pa_failed :: bool

datatype AeEffect =
    CreateNewExecution string
  | SetRunning string
  | UpdateExistingExecution string
  | CancelMany "string list"
  | RejectResponse nat
  | ResolveResponse nat
  | CancelWorkflow nat
  | WriteChunk string
  | EndResponse string
  | StopBeforeRun WorkflowExecuteMode string
  | StopDuringRun string

record ActiveExecutions =
  ae_regular :: bool
  ae_control :: ConcurrencyControl
  ae_store :: "IExecutingWorkflowData list"
  ae_active :: "(string, nat) js_map"
  ae_adding :: "PendingAdd list"
  ae_log :: "AeEffect list"

definition new_active :: "bool \<Rightarrow> ConcurrencyControl \<Rightarrow> ActiveExecutions" where
  "new_active regular c = \<lparr>ae_regular = regular, ae_control = c, ae_store = [], ae_active = [], ae_adding = [], ae_log = []\<rparr>"

definition emit :: "AeEffect list \<Rightarrow> ActiveExecutions \<Rightarrow> ActiveExecutions" where
  "emit es st = st\<lparr>ae_log := ae_log st @ es\<rparr>"

definition execution_of :: "ActiveExecutions \<Rightarrow> string \<Rightarrow> IExecutingWorkflowData option" where
  "execution_of st executionId = (case map_of (ae_active st) executionId of
     None \<Rightarrow> None | Some r \<Rightarrow> if r < length (ae_store st) then Some (ae_store st ! r) else None)"

definition active_has :: "ActiveExecutions \<Rightarrow> string \<Rightarrow> bool" where
  "active_has st executionId \<longleftrightarrow> execution_of st executionId \<noteq> None"

definition getExecutionOrFail :: "ActiveExecutions \<Rightarrow> string \<Rightarrow> IExecutingWorkflowData result" where
  "getExecutionOrFail st executionId = (case execution_of st executionId of
     None \<Rightarrow> Inl (UnexpectedError ''No active execution found'') | Some x \<Rightarrow> Inr x)"

definition update_execution :: "string \<Rightarrow> (IExecutingWorkflowData \<Rightarrow> IExecutingWorkflowData) \<Rightarrow> ActiveExecutions \<Rightarrow> ActiveExecutions" where
  "update_execution executionId f st = (case map_of (ae_active st) executionId of
     None \<Rightarrow> st | Some r \<Rightarrow> st\<lparr>ae_store := (ae_store st)[r := f (ae_store st ! r)]\<rparr>)"

section \<open>Adding an execution\<close>

definition add_begin :: "ExecutionData \<Rightarrow> string option \<Rightarrow> string \<Rightarrow> ActiveExecutions \<Rightarrow> ActiveExecutions" where
  "add_begin d executionId createdId st =
     (let i = (case executionId of None \<Rightarrow> createdId | Some i \<Rightarrow> i);
          st = (if executionId = None then emit [CreateNewExecution i] st else st);
          (waits, _, c) = (if executionId = None \<and> \<not> ae_regular st then (False, [], ae_control st)
            else throttle (ed_mode d) i (ae_control st))
      in st\<lparr>ae_control := c, ae_adding := ae_adding st @
           [\<lparr>pa_id = i, pa_data = d, pa_new = (executionId = None), pa_waiting = waits, pa_failed = False\<rparr>]\<rparr>)"

definition ready :: "PendingAdd \<Rightarrow> bool" where
  "ready p \<longleftrightarrow> \<not> pa_waiting p \<and> \<not> pa_failed p"

definition registered :: "PendingAdd \<Rightarrow> nat \<Rightarrow> IExecutingWorkflowData option \<Rightarrow> IExecutingWorkflowData" where
  "registered p now resuming = \<lparr>ex_id = pa_id p, ex_data = pa_data p,
     ex_startedAt = (case resuming of None \<Rightarrow> now | Some x \<Rightarrow> ex_startedAt x),
     ex_status = StRunning,
     ex_responsePromise = (case resuming of None \<Rightarrow> None | Some x \<Rightarrow> ex_responsePromise x),
     ex_workflowExecution = None, ex_settled = None, ex_finished = False\<rparr>"

definition finish_effects :: "bool \<Rightarrow> PendingAdd \<Rightarrow> AeEffect list" where
  "finish_effects regular p =
     (if \<not> pa_new p then [UpdateExistingExecution (pa_id p)] else if regular then [SetRunning (pa_id p)] else [])"

definition add_finish :: "nat \<Rightarrow> nat \<Rightarrow> ActiveExecutions \<Rightarrow> ActiveExecutions" where
  "add_finish k now st =
     (let p = ae_adding st ! k;
          st = emit (finish_effects (ae_regular st) p) st
      in st\<lparr>ae_adding := splice1 k (ae_adding st),
           ae_store := ae_store st @ [registered p now (execution_of st (pa_id p))],
           ae_active := js_put (pa_id p) (length (ae_store st)) (ae_active st)\<rparr>)"

text \<open>The database call after \<open>throttle\<close> is rejected: \<open>add\<close> is rejected, nothing else happens.\<close>

definition add_fails :: "nat \<Rightarrow> ActiveExecutions \<Rightarrow> ActiveExecutions" where
  "add_fails k st = st\<lparr>ae_adding := (ae_adding st)[k := (ae_adding st ! k)\<lparr>pa_failed := True\<rparr>]\<rparr>"

text \<open>The promise of the execution the queue of type \<open>ty\<close> released is resolved.\<close>

fun mark_released :: "ConcurrencyQueueType \<Rightarrow> string \<Rightarrow> PendingAdd list \<Rightarrow> PendingAdd list" where
  "mark_released ty executionId [] = []"
| "mark_released ty executionId (p # ps) =
     (if pa_waiting p \<and> queue_type (ed_mode (pa_data p)) = Some ty \<and> pa_id p = executionId
      then p\<lparr>pa_waiting := False\<rparr> # ps else p # mark_released ty executionId ps)"

definition control_release :: "WorkflowExecuteMode \<Rightarrow> ActiveExecutions \<Rightarrow> ActiveExecutions" where
  "control_release mode st = (case release mode (ae_control st) of (r, c) \<Rightarrow>
     st\<lparr>ae_control := c, ae_adding := (case (r, queue_type mode) of
       (Some i, Some ty) \<Rightarrow> mark_released ty i (ae_adding st) | _ \<Rightarrow> ae_adding st)\<rparr>)"

text \<open>The \<open>finally\<close> callback of the execution object at \<open>r\<close>.\<close>

definition on_settled :: "nat \<Rightarrow> ActiveExecutions \<Rightarrow> ActiveExecutions" where
  "on_settled r st =
     (let x = ae_store st ! r;
          st = control_release (ed_mode (ex_data x)) st;
          st = st\<lparr>ae_store := (ae_store st)[r := x\<lparr>ex_finished := True\<rparr>]\<rparr>
      in if ex_status x = StWaiting
         then st\<lparr>ae_store := (ae_store st)[r := x\<lparr>ex_finished := True, ex_workflowExecution := None\<rparr>]\<rparr>
         else st\<lparr>ae_active := js_del (ex_id x) (ae_active st)\<rparr>)"

section \<open>The other operations\<close>

definition settle :: "Settlement \<Rightarrow> IExecutingWorkflowData \<Rightarrow> IExecutingWorkflowData" where
  "settle s x = (case ex_settled x of None \<Rightarrow> x\<lparr>ex_settled := Some s\<rparr> | Some _ \<Rightarrow> x)"

definition attachWorkflowExecution :: "string \<Rightarrow> nat \<Rightarrow> ActiveExecutions \<Rightarrow> ActiveExecutions result" where
  "attachWorkflowExecution executionId wfe st = rbind (getExecutionOrFail st executionId) (\<lambda>_.
     Inr (update_execution executionId (\<lambda>x. x\<lparr>ex_workflowExecution := Some wfe\<rparr>) st))"

definition attachResponsePromise :: "string \<Rightarrow> nat \<Rightarrow> ActiveExecutions \<Rightarrow> ActiveExecutions result" where
  "attachResponsePromise executionId pr st = rbind (getExecutionOrFail st executionId) (\<lambda>_.
     Inr (update_execution executionId (\<lambda>x. x\<lparr>ex_responsePromise := Some pr\<rparr>) st))"

definition resolveResponsePromise :: "string \<Rightarrow> ActiveExecutions \<Rightarrow> ActiveExecutions" where
  "resolveResponsePromise executionId st = (case execution_of st executionId of None \<Rightarrow> st
     | Some x \<Rightarrow> (case ex_responsePromise x of None \<Rightarrow> st | Some pr \<Rightarrow> emit [ResolveResponse pr] st))"

definition sendChunk :: "string \<Rightarrow> ActiveExecutions \<Rightarrow> ActiveExecutions" where
  "sendChunk executionId st = (case execution_of st executionId of None \<Rightarrow> st
     | Some x \<Rightarrow> if ed_httpResponse (ex_data x) then emit [WriteChunk executionId] st else st)"

definition option_effects :: "(nat \<Rightarrow> AeEffect) \<Rightarrow> nat option \<Rightarrow> AeEffect list" where
  "option_effects f r = (case r of None \<Rightarrow> [] | Some n \<Rightarrow> [f n])"

definition stopExecution :: "string \<Rightarrow> ActiveExecutions \<Rightarrow> ActiveExecutions" where
  "stopExecution executionId st = (case execution_of st executionId of
     None \<Rightarrow> st
   | Some x \<Rightarrow>
       let st = emit (option_effects RejectResponse (ex_responsePromise x)) st
       in if ex_status x = StWaiting then st\<lparr>ae_active := js_del executionId (ae_active st)\<rparr>
          else update_execution executionId (settle RejectedCancelled)
            (emit (option_effects CancelWorkflow (ex_workflowExecution x)) st))"

definition finalizeExecution :: "string \<Rightarrow> ActiveExecutions \<Rightarrow> ActiveExecutions" where
  "finalizeExecution executionId st = (case execution_of st executionId of
     None \<Rightarrow> st
   | Some x \<Rightarrow> update_execution executionId (settle ResolvedRun)
       (if ed_httpResponse (ex_data x) then emit [EndResponse executionId] st else st))"

definition resolveExecutionResponsePromise :: "string \<Rightarrow> ActiveExecutions \<Rightarrow> ActiveExecutions" where
  "resolveExecutionResponsePromise executionId st = (case execution_of st executionId of
     None \<Rightarrow> st
   | Some x \<Rightarrow> (case ex_responsePromise x of
         Some pr \<Rightarrow> if ex_status x \<noteq> StWaiting then emit [ResolveResponse pr] st else st
       | None \<Rightarrow> st))"

definition setStatus :: "string \<Rightarrow> ExecutionStatus \<Rightarrow> ActiveExecutions \<Rightarrow> ActiveExecutions result" where
  "setStatus executionId status st = rbind (getExecutionOrFail st executionId) (\<lambda>_.
     Inr (update_execution executionId (\<lambda>x. x\<lparr>ex_status := status\<rparr>) st))"

definition getStatus :: "string \<Rightarrow> ActiveExecutions \<Rightarrow> ExecutionStatus result" where
  "getStatus executionId st = rbind (getExecutionOrFail st executionId) (\<lambda>x. Inr (ex_status x))"

record IExecutionsCurrentSummary =
  su_id :: string
  su_retryOf :: "string option"
  su_startedAt :: nat
  su_mode :: WorkflowExecuteMode
  su_workflowId :: string
  su_status :: ExecutionStatus

definition getActiveExecutions :: "ActiveExecutions \<Rightarrow> IExecutionsCurrentSummary list" where
  "getActiveExecutions st = map (\<lambda>(i, r). let x = ae_store st ! r in
     \<lparr>su_id = i, su_retryOf = ed_retryOf (ex_data x), su_startedAt = ex_startedAt x, su_mode = ed_mode (ex_data x),
      su_workflowId = ed_workflowId (ex_data x), su_status = ex_status x\<rparr>) (ae_active st)"

text \<open>\<open>shutdown\<close> up to the loop that waits for the executions that are left.\<close>

definition shutdown_one :: "bool \<Rightarrow> string \<Rightarrow> ActiveExecutions \<times> string list \<Rightarrow> ActiveExecutions \<times> string list" where
  "shutdown_one cancelAll executionId = (\<lambda>(st, toCancel).
     case execution_of st executionId of
       None \<Rightarrow> (st, toCancel)
     | Some x \<Rightarrow>
         if ex_responsePromise x \<noteq> None \<or> (ae_regular st \<and> cancelAll)
         then (stopExecution executionId st, toCancel @ [executionId])
         else if ex_status x = StWaiting \<or> ex_status x = StNew
         then (st\<lparr>ae_active := js_del executionId (ae_active st)\<rparr>, toCancel)
         else (st, toCancel))"

definition shutdown :: "bool \<Rightarrow> ActiveExecutions \<Rightarrow> ActiveExecutions" where
  "shutdown cancelAll st =
     (let st = (if ae_regular st then st\<lparr>ae_control := disable (ae_control st)\<rparr> else st);
          (st, toCancel) = fold (shutdown_one cancelAll) (js_keys (ae_active st)) (st, []);
          (released, cancelled, c) = control_removeAll toCancel (ae_control st)
      in (case cancelled of None \<Rightarrow> (\<lambda>st. st) | Some ids \<Rightarrow> emit [CancelMany ids])
           (st\<lparr>ae_control := c, ae_adding := map (\<lambda>p. if pa_waiting p \<and> pa_id p \<in> set released
              then p\<lparr>pa_waiting := False\<rparr> else p) (ae_adding st)\<rparr>))"

section \<open>Stopping an execution\<close>

text \<open>
  \<open>stopInRegularMode\<close> of \<^verbatim>\<open>packages/cli/src/executions/execution.service.ts\<close>; the mode is that of the
  execution in the database. The promise of an execution that is taken out of the queue is never
  resolved: its call of \<open>add\<close> does not go on.
\<close>

fun drop_waiting :: "ConcurrencyQueueType \<Rightarrow> string \<Rightarrow> PendingAdd list \<Rightarrow> PendingAdd list" where
  "drop_waiting ty executionId [] = []"
| "drop_waiting ty executionId (p # ps) =
     (if pa_waiting p \<and> queue_type (ed_mode (pa_data p)) = Some ty \<and> pa_id p = executionId
      then ps else p # drop_waiting ty executionId ps)"

definition control_remove :: "WorkflowExecuteMode \<Rightarrow> string \<Rightarrow> ActiveExecutions \<Rightarrow> ActiveExecutions" where
  "control_remove mode executionId st = (case remove_queued mode executionId (ae_control st) of (r, c) \<Rightarrow>
     st\<lparr>ae_control := c, ae_adding := (case queue_type mode of
         None \<Rightarrow> ae_adding st
       | Some ty \<Rightarrow> (case r of None \<Rightarrow> (\<lambda>ps. ps) | Some i \<Rightarrow> mark_released ty i) (drop_waiting ty executionId (ae_adding st)))\<rparr>)"

definition stopInRegularMode :: "WorkflowExecuteMode \<Rightarrow> string \<Rightarrow> ActiveExecutions \<Rightarrow> ActiveExecutions" where
  "stopInRegularMode mode executionId st =
     (if control_has (ae_control st) executionId
      then emit [StopBeforeRun mode executionId] (control_remove mode executionId st)
      else emit [StopDuringRun executionId] (if active_has st executionId then stopExecution executionId st else st))"

section \<open>Steps\<close>

inductive ae_step :: "ActiveExecutions \<Rightarrow> ActiveExecutions \<Rightarrow> bool" where
  begin_step: "ae_step st (add_begin d executionId createdId st)"
| finish_step: "k < length (ae_adding st) \<Longrightarrow> ready (ae_adding st ! k) \<Longrightarrow> ae_step st (add_finish k now st)"
| fails_step: "k < length (ae_adding st) \<Longrightarrow> ready (ae_adding st ! k) \<Longrightarrow> ae_step st (add_fails k st)"
| settled_step: "r < length (ae_store st) \<Longrightarrow> ex_settled (ae_store st ! r) \<noteq> None \<Longrightarrow> \<not> ex_finished (ae_store st ! r) \<Longrightarrow>
    ae_step st (on_settled r st)"
| stop_step: "ae_step st (stopExecution executionId st)"
| user_stop_step: "ae_step st (stopInRegularMode mode executionId st)"
| shutdown_step: "ae_step st (shutdown cancelAll st)"
| finalize_step: "ae_step st (finalizeExecution executionId st)"
| attach_step: "attachWorkflowExecution executionId wfe st = Inr st' \<Longrightarrow> ae_step st st'"
| response_step: "attachResponsePromise executionId pr st = Inr st' \<Longrightarrow> ae_step st st'"
| resolve_step: "ae_step st (resolveResponsePromise executionId st)"
| clean_step: "ae_step st (resolveExecutionResponsePromise executionId st)"
| chunk_step: "ae_step st (sendChunk executionId st)"
| status_step: "setStatus executionId status st = Inr st' \<Longrightarrow> ae_step st st'"

inductive ae_reachable :: "ActiveExecutions \<Rightarrow> ActiveExecutions \<Rightarrow> bool" for st0 where
  ae_start: "ae_reachable st0 st0"
| ae_next: "ae_reachable st0 st \<Longrightarrow> ae_step st st' \<Longrightarrow> ae_reachable st0 st'"

section \<open>Who holds a slot\<close>

definition holds_pending :: "ConcurrencyQueueType \<Rightarrow> PendingAdd \<Rightarrow> bool" where
  "holds_pending ty p \<longleftrightarrow> \<not> pa_waiting p \<and> queue_type (ed_mode (pa_data p)) = Some ty"

definition waits_pending :: "ConcurrencyQueueType \<Rightarrow> PendingAdd \<Rightarrow> bool" where
  "waits_pending ty p \<longleftrightarrow> pa_waiting p \<and> queue_type (ed_mode (pa_data p)) = Some ty"

definition holds_active :: "ConcurrencyQueueType \<Rightarrow> IExecutingWorkflowData \<Rightarrow> bool" where
  "holds_active ty x \<longleftrightarrow> \<not> ex_finished x \<and> queue_type (ed_mode (ex_data x)) = Some ty"

definition count_if :: "('a \<Rightarrow> bool) \<Rightarrow> 'a list \<Rightarrow> nat" where
  "count_if P xs = length (filter P xs)"

text \<open>Executions of a queue's modes that were let through and are not over.\<close>

definition holders :: "ConcurrencyQueueType \<Rightarrow> ActiveExecutions \<Rightarrow> nat" where
  "holders ty st = count_if (holds_pending ty) (ae_adding st) + count_if (holds_active ty) (ae_store st)"

text \<open>The queued executions of a queue's modes that were stopped before they ran.\<close>

definition removes_from :: "ConcurrencyQueueType \<Rightarrow> AeEffect \<Rightarrow> bool" where
  "removes_from ty e \<longleftrightarrow> (case e of StopBeforeRun mode _ \<Rightarrow> queue_type mode = Some ty | _ \<Rightarrow> False)"

definition removals :: "ConcurrencyQueueType \<Rightarrow> ActiveExecutions \<Rightarrow> nat" where
  "removals ty st = count_if (removes_from ty) (ae_log st)"

definition slots_ok :: "(ConcurrencyQueueType \<Rightarrow> nat) \<Rightarrow> ActiveExecutions \<Rightarrow> bool" where
  "slots_ok L st \<longleftrightarrow> ae_regular st \<and> cc_enabled (ae_control st) \<and>
     (\<forall>ty q. map_of (cc_queues (ae_control st)) ty = Some q \<longrightarrow>
        queue_accounts (L ty) (removals ty st) q (holders ty st) \<and>
        cq_queue q = map pa_id (filter (waits_pending ty) (ae_adding st)))"

lemma count_if_simps [simp]:
  "count_if P [] = 0" "count_if P (x # xs) = (if P x then Suc (count_if P xs) else count_if P xs)"
  "count_if P (xs @ ys) = count_if P xs + count_if P ys"
  by (simp_all add: count_if_def)

lemma split_at: "k < length xs \<Longrightarrow> \<exists>a z b. xs = a @ z # b \<and> k = length a"
  by (metis id_take_nth_drop length_take min.absorb4)

lemma count_update: "k < length xs \<Longrightarrow> count_if P (xs[k := y]) + (if P (xs ! k) then 1 else 0) = count_if P xs + (if P y then 1 else 0)"
  by (drule split_at) auto

lemma count_update_same: "k < length xs \<Longrightarrow> P y = P (xs ! k) \<Longrightarrow> count_if P (xs[k := y]) = count_if P xs"
  using count_update[of k xs P y] by (simp split: if_splits)

lemma count_splice1: "k < length xs \<Longrightarrow> count_if P (splice1 k xs) + (if P (xs ! k) then 1 else 0) = count_if P xs"
  by (drule split_at) (auto simp: splice1_def)

lemma filter_splice1: "k < length xs \<Longrightarrow> \<not> P (xs ! k) \<Longrightarrow> filter P (splice1 k xs) = filter P xs"
  by (drule split_at) (auto simp: splice1_def)

lemma filter_update_same: "k < length xs \<Longrightarrow> \<not> P (xs ! k) \<Longrightarrow> \<not> P y \<Longrightarrow> filter P (xs[k := y]) = filter P xs"
  by (drule split_at) auto

lemma mark_released_Cons:
  "mark_released ty x (p # ps) = (if waits_pending ty p \<and> pa_id p = x then p\<lparr>pa_waiting := False\<rparr> # ps
     else p # mark_released ty x ps)"
  by (simp add: waits_pending_def)

lemma released_pending [simp]:
  "waits_pending ty (p\<lparr>pa_waiting := False\<rparr>) = False"
  "holds_pending ty (p\<lparr>pa_waiting := False\<rparr>) \<longleftrightarrow> queue_type (ed_mode (pa_data p)) = Some ty"
  by (simp_all add: waits_pending_def holds_pending_def)

lemma waits_pendingD:
  "waits_pending ty p \<Longrightarrow> \<not> holds_pending ty' p \<and> queue_type (ed_mode (pa_data p)) = Some ty"
  by (simp add: waits_pending_def holds_pending_def)

declare mark_released.simps(2) [simp del]

lemma mark_released_first:
  assumes "filter (waits_pending ty) ps = w # ws"
  shows "filter (waits_pending ty) (mark_released ty (pa_id w) ps) = ws \<and>
    count_if (holds_pending ty) (mark_released ty (pa_id w) ps) = Suc (count_if (holds_pending ty) ps)"
  using assms
proof (induction ps)
  case (Cons p ps)
  show ?case
  proof (cases "waits_pending ty p")
    case True
    with Cons.prems have "p = w" "filter (waits_pending ty) ps = ws" by auto
    with True show ?thesis using waits_pendingD[OF True] by (simp add: mark_released_Cons)
  next
    case False
    then show ?thesis using Cons by (simp add: mark_released_Cons)
  qed
qed simp

lemma mark_released_other:
  assumes "ty' \<noteq> ty"
  shows "filter (waits_pending ty') (mark_released ty x ps) = filter (waits_pending ty') ps \<and>
    count_if (holds_pending ty') (mark_released ty x ps) = count_if (holds_pending ty') ps"
proof (induction ps)
  case (Cons p ps)
  show ?case
  proof (cases "waits_pending ty p \<and> pa_id p = x")
    case True
    then have "\<not> waits_pending ty' p" "\<not> holds_pending ty' p" "queue_type (ed_mode (pa_data p)) \<noteq> Some ty'"
      using waits_pendingD[of ty p] waits_pendingD[of ty' p] assms by auto
    with True show ?thesis by (simp add: mark_released_Cons)
  next
    case False
    with Cons show ?thesis by (auto simp: mark_released_Cons)
  qed
qed simp

section \<open>The limit holds for the whole process\<close>

lemma new_control_shape:
  assumes "new_control (int p) (int e) False = Inr c"
  shows "0 < p \<and> 0 < e \<and> cc_enabled c \<and> map_of (cc_queues c) Production = Some (new_queue (int p)) \<and>
    map_of (cc_queues c) Evaluation = Some (new_queue (int e))"
proof -
  have "0 < p \<and> 0 < e"
    using assms by (cases "p = 0"; cases "e = 0") (auto simp: new_control_def normalize_limit_def Let_def)
  then show ?thesis
    using assms by (auto simp: new_control_def normalize_limit_def Let_def js_values_def)
qed

lemma slots_cong:
  assumes "slots_ok L st" "ae_regular st' = ae_regular st" "ae_control st' = ae_control st"
    and "\<And>ty. filter (waits_pending ty) (ae_adding st') = filter (waits_pending ty) (ae_adding st)"
    and "\<And>ty. holders ty st' = holders ty st" "\<And>ty. removals ty st' = removals ty st"
  shows "slots_ok L st'"
  using assms by (simp add: slots_ok_def)

lemma slots_same:
  assumes "slots_ok L st" "ae_regular st' = ae_regular st" "ae_control st' = ae_control st" "ae_adding st' = ae_adding st"
    and "\<And>ty. count_if (holds_active ty) (ae_store st') = count_if (holds_active ty) (ae_store st)" "ae_log st' = ae_log st"
  shows "slots_ok L st'"
  using assms by (simp add: slots_ok_def holders_def removals_def)

definition no_removal :: "AeEffect list \<Rightarrow> bool" where
  "no_removal es \<longleftrightarrow> (\<forall>ty. count_if (removes_from ty) es = 0)"

lemma no_removal_simps [simp]:
  "no_removal []" "no_removal [CreateNewExecution i]" "no_removal [ResolveResponse n]" "no_removal [WriteChunk i]"
  "no_removal [EndResponse i]" "no_removal [StopDuringRun i]" "no_removal (option_effects RejectResponse o1)"
  "no_removal (option_effects CancelWorkflow o1)" "no_removal (finish_effects regular p)"
  by (auto simp: no_removal_def removes_from_def option_effects_def finish_effects_def split: option.splits)

lemma slots_emit: "slots_ok L st \<Longrightarrow> no_removal es \<Longrightarrow> slots_ok L (emit es st)"
  by (erule slots_cong) (simp_all add: emit_def holders_def removals_def no_removal_def)

lemma slots_update:
  assumes "slots_ok L st" "\<And>x ty. holds_active ty (f x) = holds_active ty x"
  shows "slots_ok L (update_execution i f st)"
proof (cases "map_of (ae_active st) i")
  case (Some r)
  have "count_if (holds_active ty) ((ae_store st)[r := f (ae_store st ! r)]) = count_if (holds_active ty) (ae_store st)" for ty
    using count_update_same[of r "ae_store st" "holds_active ty" "f (ae_store st ! r)"] assms(2)
    by (cases "r < length (ae_store st)") (simp_all add: list_update_beyond)
  with Some assms(1) show ?thesis by (intro slots_same[OF assms(1)]) (simp_all add: update_execution_def)
qed (simp add: update_execution_def assms(1))

lemma holds_settle [simp]: "holds_active ty (settle s x) = holds_active ty x"
  by (simp add: settle_def holds_active_def split: option.splits)

lemma slots_add_begin:
  assumes ok: "slots_ok L st"
  shows "slots_ok L (add_begin d e i st)"
proof -
  define x where "x = (case e of None \<Rightarrow> i | Some j \<Rightarrow> j)"
  define st1 where "st1 = (if e = None then emit [CreateNewExecution x] st else st)"
  have ok1: "slots_ok L st1" using ok by (simp add: st1_def slots_emit)
  obtain waits es c where thr: "throttle (ed_mode d) x (ae_control st1) = (waits, es, c)" by (metis prod_cases3)
  let ?p = "\<lparr>pa_id = x, pa_data = d, pa_new = (e = None), pa_waiting = waits, pa_failed = False\<rparr>"
  have regular: "ae_regular st1" "cc_enabled (ae_control st1)" using ok1 by (simp_all add: slots_ok_def)
  have eq: "add_begin d e i st = st1\<lparr>ae_control := c, ae_adding := ae_adding st1 @ [?p]\<rparr>"
    using thr regular(1) by (simp add: add_begin_def x_def[symmetric] st1_def[symmetric])
  have queues: "queue_accounts (L ty) (removals ty st1) q (holders ty st1)" "cq_queue q = map pa_id (filter (waits_pending ty) (ae_adding st1))"
    if "map_of (cc_queues (ae_control st1)) ty = Some q" for ty q
    using ok1 that by (simp_all add: slots_ok_def)
  show ?thesis
  proof (cases "getQueue (ae_control st1) (ed_mode d)")
    case None
    then have c: "c = ae_control st1" "\<not> waits" using thr by (auto simp: throttle_def isUnlimited_def)
    have "queue_type (ed_mode d) \<noteq> Some ty" if "map_of (cc_queues (ae_control st1)) ty = Some q" for ty q
      using None that by (auto simp: getQueue_def split: option.splits)
    then show ?thesis using ok1 c
      by (fastforce simp: eq slots_ok_def holders_def holds_pending_def waits_pending_def removals_def)
  next
    case (Some tq)
    obtain ty q where tq: "tq = (ty, q)" by (cases tq)
    from Some have mode: "queue_type (ed_mode d) = Some ty" and q: "map_of (cc_queues (ae_control st1)) ty = Some q"
      by (auto simp: getQueue_def tq split: option.splits)
    obtain es' q' where enq: "enqueue x q = (waits, es', q')" and c: "c = set_queue ty q' (ae_control st1)"
      using thr Some regular by (auto simp: throttle_def isUnlimited_def tq split: prod.splits)
    have "queue_acquire x q = (waits, q')" by (simp add: queue_acquire_def enq)
    from cq.acquire_accounts[OF queues(1)[OF q] this]
    have acc: "queue_accounts (L ty) (removals ty st1) q' (if waits then holders ty st1 else Suc (holders ty st1))" .
    have "cq_queue q' = cq_queue q @ (if waits then [x] else [])"
      using enq by (auto simp: enqueue_def Let_def split: if_splits)
    then show ?thesis using ok1 acc queues mode q
      by (auto simp: eq c slots_ok_def set_queue_def holders_def holds_pending_def waits_pending_def removals_def split: if_splits)
  qed
qed

lemma slots_control_release:
  assumes ok: "slots_ok L st" and r: "r < length (ae_store st)" "\<not> ex_finished (ae_store st ! r)"
    and mode: "mode = ed_mode (ex_data (ae_store st ! r))" and y: "ex_finished y"
  shows "slots_ok L ((control_release mode st)\<lparr>ae_store := (ae_store (control_release mode st))[r := y]\<rparr>)"
proof -
  have cnt: "count_if (holds_active ty) ((ae_store st)[r := y]) + (if queue_type mode = Some ty then 1 else 0) = count_if (holds_active ty) (ae_store st)" for ty
    using count_update[OF r(1), of "holds_active ty" y] r(2) y by (simp add: holds_active_def mode)
  have en: "cc_enabled (ae_control st)" using ok by (simp add: slots_ok_def)
  show ?thesis
  proof (cases "getQueue (ae_control st) mode")
    case None
    then have rel: "control_release mode st = st"
      by (simp add: control_release_def release_def isUnlimited_def)
    have "queue_type mode \<noteq> Some ty" if "map_of (cc_queues (ae_control st)) ty = Some q" for ty q
      using None that by (auto simp: getQueue_def split: option.splits)
    then have "count_if (holds_active ty) ((ae_store st)[r := y]) = count_if (holds_active ty) (ae_store st)"
      if "map_of (cc_queues (ae_control st)) ty = Some q" for ty q
      using cnt[of ty] \<open>\<And>ty q. map_of (cc_queues (ae_control st)) ty = Some q \<Longrightarrow> queue_type mode \<noteq> Some ty\<close>[OF that] by simp
    then show ?thesis using ok by (simp add: rel slots_ok_def holders_def removals_def)
  next
    case (Some tq)
    obtain ty q where tq: "tq = (ty, q)" by (cases tq)
    from Some have ty: "queue_type mode = Some ty" and q: "map_of (cc_queues (ae_control st)) ty = Some q"
      by (auto simp: getQueue_def tq split: option.splits)
    obtain x q' where deq: "dequeue q = (x, q')" by fastforce
    have rel: "control_release mode st = st\<lparr>ae_control := set_queue ty q' (ae_control st),
        ae_adding := (case x of None \<Rightarrow> ae_adding st | Some i \<Rightarrow> mark_released ty i (ae_adding st))\<rparr>"
      using Some en ty by (simp add: control_release_def release_def isUnlimited_def tq deq split: option.splits)
    have acc: "queue_accounts (L ty) (removals ty st) q (holders ty st)" and line: "cq_queue q = map pa_id (filter (waits_pending ty) (ae_adding st))"
      using ok q by (simp_all add: slots_ok_def)
    define n where "n = count_if (holds_pending ty) (ae_adding st) + count_if (holds_active ty) ((ae_store st)[r := y])"
    have "holders ty st = Suc n" using cnt[of ty] ty by (simp add: n_def holders_def)
    with cq.give_back_accounts[of "L ty" "removals ty st" q n, OF _ deq] acc
    have acc': "queue_accounts (L ty) (removals ty st) q' (case x of None \<Rightarrow> n | Some _ \<Rightarrow> Suc n)" by simp
    have others: "cq_queue q'' = map pa_id (filter (waits_pending ty') (ae_adding st))" "queue_accounts (L ty') (removals ty' st) q'' (holders ty' st)"
      if "map_of (cc_queues (ae_control st)) ty' = Some q''" for ty' q''
      using ok that by (simp_all add: slots_ok_def)
    have cnt_other: "count_if (holds_active ty') ((ae_store st)[r := y]) = count_if (holds_active ty') (ae_store st)"
      if "ty' \<noteq> ty" for ty' using cnt[of ty'] ty that by simp
    show ?thesis
    proof (cases "filter (waits_pending ty) (ae_adding st)")
      case Nil
      then have "x = None" "cq_queue q' = []" using deq line by (auto simp: dequeue_def resolveNext_def)
      then show ?thesis using ok acc' others Nil en
        by (auto simp: rel slots_ok_def set_queue_def holders_def n_def cnt_other removals_def split: if_splits)
    next
      case (Cons w ws)
      then have x: "x = Some (pa_id w)" "cq_queue q' = map pa_id ws" using deq line by (auto simp: dequeue_def resolveNext_def)
      note mark = mark_released_first[OF Cons]
      show ?thesis using ok acc' others x mark mark_released_other[of _ ty] en
        by (auto simp: rel slots_ok_def set_queue_def holders_def n_def cnt_other removals_def split: if_splits)
    qed
  qed
qed

lemma slots_on_settled:
  assumes "slots_ok L st" "r < length (ae_store st)" "\<not> ex_finished (ae_store st ! r)"
  shows "slots_ok L (on_settled r st)"
proof -
  let ?x = "ae_store st ! r"
  let ?st = "control_release (ed_mode (ex_data ?x)) st"
  note rel = slots_control_release[OF assms refl]
  show ?thesis
  proof (cases "ex_status ?x = StWaiting")
    case True
    with rel[of "?x\<lparr>ex_finished := True, ex_workflowExecution := None\<rparr>"] show ?thesis
      by (simp add: on_settled_def Let_def)
  next
    case False
    then have eq: "on_settled r st = ?st\<lparr>ae_store := (ae_store ?st)[r := ?x\<lparr>ex_finished := True\<rparr>],
        ae_active := js_del (ex_id ?x) (ae_active ?st)\<rparr>"
      by (simp add: on_settled_def Let_def)
    from rel[of "?x\<lparr>ex_finished := True\<rparr>"] show ?thesis unfolding eq by (rule slots_same) simp_all
  qed
qed

lemma slots_add_finish:
  assumes ok: "slots_ok L st" and k: "k < length (ae_adding st)" "ready (ae_adding st ! k)"
  shows "slots_ok L (add_finish k now st)"
proof -
  let ?p = "ae_adding st ! k"
  let ?x = "registered ?p now (execution_of (emit (finish_effects (ae_regular st) ?p) st) (pa_id ?p))"
  have x: "ex_data ?x = pa_data ?p" "\<not> ex_finished ?x" by (simp_all add: registered_def)
  have "count_if (holds_pending ty) (splice1 k (ae_adding st)) + count_if (holds_active ty) (ae_store st @ [?x]) =
      count_if (holds_pending ty) (ae_adding st) + count_if (holds_active ty) (ae_store st)"
    "filter (waits_pending ty) (splice1 k (ae_adding st)) = filter (waits_pending ty) (ae_adding st)" for ty
    using count_splice1[OF k(1), of "holds_pending ty"] k(2) x filter_splice1[OF k(1), of "waits_pending ty"]
    by (auto simp: holds_pending_def holds_active_def waits_pending_def ready_def split: if_splits)
  then show ?thesis
    by (intro slots_cong[OF slots_emit[OF ok, of "finish_effects (ae_regular st) ?p"]])
      (simp_all add: add_finish_def Let_def emit_def holders_def removals_def del: count_if_simps(3))
qed

lemma slots_add_fails:
  assumes ok: "slots_ok L st" and k: "k < length (ae_adding st)" "ready (ae_adding st ! k)"
  shows "slots_ok L (add_fails k st)"
proof -
  let ?p = "(ae_adding st ! k)\<lparr>pa_failed := True\<rparr>"
  have "count_if (holds_pending ty) ((ae_adding st)[k := ?p]) = count_if (holds_pending ty) (ae_adding st)"
    "filter (waits_pending ty) ((ae_adding st)[k := ?p]) = filter (waits_pending ty) (ae_adding st)" for ty
    using k(2) count_update_same[OF k(1), of "holds_pending ty" ?p] filter_update_same[OF k(1), of "waits_pending ty" ?p]
    by (auto simp: holds_pending_def waits_pending_def ready_def)
  then show ?thesis by (intro slots_cong[OF ok]) (simp_all add: add_fails_def holders_def removals_def)
qed

lemma stopExecution_control:
  "ae_control (stopExecution i st) = ae_control st \<and> ae_regular (stopExecution i st) = ae_regular st \<and>
   (\<exists>es. ae_log (stopExecution i st) = ae_log st @ es \<and> (\<forall>ids. CancelMany ids \<notin> set es))"
proof (cases "execution_of st i")
  case (Some x)
  then show ?thesis
    by (cases "ex_responsePromise x"; cases "ex_workflowExecution x"; cases "map_of (ae_active st) i")
      (auto simp: stopExecution_def Let_def emit_def update_execution_def option_effects_def)
qed (simp add: stopExecution_def)

lemma shutdown_one_control:
  "ae_control (fst (shutdown_one ca i p)) = ae_control (fst p) \<and> ae_regular (fst (shutdown_one ca i p)) = ae_regular (fst p) \<and>
   (\<exists>es. ae_log (fst (shutdown_one ca i p)) = ae_log (fst p) @ es \<and> (\<forall>ids. CancelMany ids \<notin> set es))"
  using stopExecution_control[of i "fst p"] by (auto simp: shutdown_one_def case_prod_unfold split: option.splits)

lemma shutdown_all_control:
  "ae_control (fst (fold (shutdown_one ca) is p)) = ae_control (fst p) \<and>
   ae_regular (fst (fold (shutdown_one ca) is p)) = ae_regular (fst p) \<and>
   (\<exists>es. ae_log (fst (fold (shutdown_one ca) is p)) = ae_log (fst p) @ es \<and> (\<forall>ids. CancelMany ids \<notin> set es))"
proof (induction "is" arbitrary: p)
  case (Cons i "is")
  from Cons[of "shutdown_one ca i p"] shutdown_one_control[of ca i p] show ?case by fastforce
qed simp

lemma slots_stop: "slots_ok L st \<Longrightarrow> slots_ok L (stopExecution i st)"
proof (cases "execution_of st i")
  case (Some x)
  assume ok: "slots_ok L st"
  show ?thesis
  proof (cases "ex_status x = StWaiting")
    case True
    with Some show ?thesis
      by (auto simp: stopExecution_def Let_def intro!: slots_same[OF slots_emit[OF ok]])
  next
    case False
    with Some show ?thesis by (auto simp: stopExecution_def Let_def intro!: slots_update slots_emit ok)
  qed
qed (simp add: stopExecution_def)

lemma drop_waiting_Cons:
  "drop_waiting ty x (p # ps) = (if waits_pending ty p \<and> pa_id p = x then ps else p # drop_waiting ty x ps)"
  by (simp add: waits_pending_def)

declare drop_waiting.simps(2) [simp del]

lemma drop_waiting_others:
  "ty' \<noteq> ty \<Longrightarrow> filter (waits_pending ty') (drop_waiting ty x ps) = filter (waits_pending ty') ps"
  "count_if (holds_pending ty') (drop_waiting ty x ps) = count_if (holds_pending ty') ps"
  by (induction ps) (auto simp: drop_waiting_Cons dest: waits_pendingD, simp add: waits_pending_def)

lemma splice1_Cons: "splice1 0 (x # xs) = xs" "splice1 (Suc k) (x # xs) = x # splice1 k xs"
  by (simp_all add: splice1_def)

lemma drop_waiting_line:
  "filter (waits_pending ty) (drop_waiting ty x ps) = (case findIndex (\<lambda>i. i = x) (map pa_id (filter (waits_pending ty) ps)) of
     None \<Rightarrow> filter (waits_pending ty) ps | Some k \<Rightarrow> splice1 k (filter (waits_pending ty) ps))"
proof (induction ps)
  case (Cons p ps)
  show ?case
  proof (cases "waits_pending ty p \<and> pa_id p \<noteq> x")
    case True
    with Cons show ?thesis
      by (cases "findIndex (\<lambda>i. i = x) (map pa_id (filter (waits_pending ty) ps))") (simp_all add: drop_waiting_Cons splice1_Cons del: findIndex_None)
  next
    case False
    show ?thesis
    proof (cases "waits_pending ty p")
      case True
      with False show ?thesis by (simp add: drop_waiting_Cons splice1_Cons)
    next
      case other: False
      then have "filter (waits_pending ty) (p # ps) = filter (waits_pending ty) ps" by simp
      moreover have "filter (waits_pending ty) (drop_waiting ty x (p # ps)) = filter (waits_pending ty) (drop_waiting ty x ps)"
        using other by (simp add: drop_waiting_Cons)
      ultimately show ?thesis using Cons by (simp only:)
    qed
  qed
qed simp

lemma map_splice1: "map f (splice1 k xs) = splice1 k (map f xs)"
  by (simp add: splice1_def take_map drop_map)

lemma slots_control_remove:
  assumes ok: "slots_ok L st"
  shows "slots_ok L (emit [StopBeforeRun mode x] (control_remove mode x st))"
proof -
  have en: "cc_enabled (ae_control st)" using ok by (simp add: slots_ok_def)
  have queues: "queue_accounts (L ty) (removals ty st) q (holders ty st)" "cq_queue q = map pa_id (filter (waits_pending ty) (ae_adding st))"
    if "map_of (cc_queues (ae_control st)) ty = Some q" for ty q
    using ok that by (simp_all add: slots_ok_def)
  have more: "queue_accounts l r q n \<Longrightarrow> queue_accounts l (Suc r) q n" for l r q n by (simp add: queue_accounts_def)
  show ?thesis
  proof (cases "getQueue (ae_control st) mode")
    case None
    then have eq: "control_remove mode x st = st\<lparr>ae_adding := (case queue_type mode of
        None \<Rightarrow> ae_adding st | Some ty \<Rightarrow> drop_waiting ty x (ae_adding st))\<rparr>"
      by (simp add: control_remove_def remove_queued_def isUnlimited_def split: option.splits)
    have "queue_type mode \<noteq> Some ty" if "map_of (cc_queues (ae_control st)) ty = Some q" for ty q
      using None that by (auto simp: getQueue_def split: option.splits)
    then have line: "filter (waits_pending ty) (ae_adding (control_remove mode x st)) = filter (waits_pending ty) (ae_adding st)"
      "removes_from ty (StopBeforeRun mode x) = False"
      if "map_of (cc_queues (ae_control st)) ty = Some q" for ty q
      using that \<open>\<And>ty q. map_of (cc_queues (ae_control st)) ty = Some q \<Longrightarrow> queue_type mode \<noteq> Some ty\<close>[OF that]
      by (cases "queue_type mode"; auto simp: eq removes_from_def intro: drop_waiting_others(1))+
    moreover have "count_if (holds_pending ty) (ae_adding (control_remove mode x st)) = count_if (holds_pending ty) (ae_adding st)" for ty
      by (simp add: eq drop_waiting_others split: option.split)
    moreover have "ae_control (control_remove mode x st) = ae_control st" "ae_regular (control_remove mode x st) = ae_regular st"
      "ae_store (control_remove mode x st) = ae_store st" "ae_log (control_remove mode x st) = ae_log st" by (simp_all add: eq)
    ultimately show ?thesis using ok by (simp add: emit_def slots_ok_def holders_def removals_def)
  next
    case (Some tq)
    obtain ty q where tq: "tq = (ty, q)" by (cases tq)
    from Some have ty: "queue_type mode = Some ty" and q: "map_of (cc_queues (ae_control st)) ty = Some q"
      by (auto simp: getQueue_def tq split: option.splits)
    obtain rel q' where rem: "queue_remove x q = (rel, q')" by fastforce
    define ps where "ps = drop_waiting ty x (ae_adding st)"
    have eq: "control_remove mode x st = st\<lparr>ae_control := set_queue ty q' (ae_control st),
        ae_adding := (case rel of None \<Rightarrow> ps | Some i \<Rightarrow> mark_released ty i ps)\<rparr>"
      using Some en ty by (simp add: control_remove_def remove_queued_def isUnlimited_def tq rem ps_def split: option.splits)
    note line = queues(2)[OF q]
    have acc: "queue_accounts (L ty) (Suc (removals ty st)) q' (case rel of None \<Rightarrow> holders ty st | Some _ \<Rightarrow> Suc (holders ty st))"
      by (rule queue_remove_accounts[OF queues(1)[OF q] rem])
    have dropped: "count_if (holds_pending ty') ps = count_if (holds_pending ty') (ae_adding st)"
      "ty' \<noteq> ty \<Longrightarrow> filter (waits_pending ty') ps = filter (waits_pending ty') (ae_adding st)" for ty'
      by (simp_all add: ps_def drop_waiting_others)
    define F where "F = filter (waits_pending ty) ps"
    have shape: "(rel = None \<and> cq_queue q' = map pa_id F) \<or> (\<exists>w ws. F = w # ws \<and> rel = Some (pa_id w) \<and> cq_queue q' = map pa_id ws)"
    proof (cases "findIndex (\<lambda>i. i = x) (cq_queue q)")
      case None
      then show ?thesis using rem line unfolding F_def ps_def drop_waiting_line queue_remove_def by (simp del: findIndex_None)
    next
      case (Some k)
      have "F = splice1 k (filter (waits_pending ty) (ae_adding st))"
        using Some unfolding F_def ps_def drop_waiting_line line by simp
      then have "splice1 k (cq_queue q) = map pa_id F" by (simp add: line map_splice1)
      then show ?thesis using rem Some by (cases F) (auto simp: queue_remove_def resolveNext_def)
    qed
    show ?thesis
    proof (cases rel)
      case None
      then have "cq_queue q' = map pa_id (filter (waits_pending ty) ps)" using shape by (simp add: F_def)
      then show ?thesis using ok acc queues dropped None en ty
        by (auto simp: eq emit_def slots_ok_def set_queue_def holders_def removals_def removes_from_def split: if_splits)
    next
      case (Some i)
      then obtain w ws where ws: "filter (waits_pending ty) ps = w # ws" "i = pa_id w" "cq_queue q' = map pa_id ws"
        using shape by (auto simp: F_def)
      note mark = mark_released_first[OF ws(1)]
      show ?thesis using ok acc queues dropped mark mark_released_other[of _ ty] en ty Some ws
        by (auto simp: eq emit_def slots_ok_def set_queue_def holders_def removals_def removes_from_def split: if_splits)
    qed
  qed
qed

lemma slots_user_stop: "slots_ok L st \<Longrightarrow> slots_ok L (stopInRegularMode mode i st)"
  by (simp add: stopInRegularMode_def slots_control_remove slots_emit slots_stop)

lemma shutdown_control:
  "ae_regular (shutdown ca st) = ae_regular st"
  "ae_regular st \<Longrightarrow> ae_control (shutdown ca st) = disable (ae_control st)"
proof -
  define st1 where "st1 = (if ae_regular st then st\<lparr>ae_control := disable (ae_control st)\<rparr> else st)"
  obtain st2 toCancel where f: "fold (shutdown_one ca) (js_keys (ae_active st1)) (st1, []) = (st2, toCancel)"
    by fastforce
  have c: "ae_control st2 = ae_control st1" "ae_regular st2 = ae_regular st1"
    using shutdown_all_control[of ca "js_keys (ae_active st1)" "(st1, [])"] f by auto
  obtain released cancelled c' where r: "control_removeAll toCancel (ae_control st2) = (released, cancelled, c')"
    by (metis prod_cases3)
  show "ae_regular (shutdown ca st) = ae_regular st"
  proof -
    have "ae_regular st2 = ae_regular st" using c by (simp add: st1_def)
    then show ?thesis by (cases cancelled) (simp_all add: shutdown_def Let_def f r emit_def flip: st1_def)
  qed
  assume "ae_regular st"
  then have "ae_control st2 = disable (ae_control st)" "\<not> cc_enabled (ae_control st2)" using c by (simp_all add: st1_def disable_def)
  then show "ae_control (shutdown ca st) = disable (ae_control st)"
    by (simp add: shutdown_def Let_def f emit_def control_removeAll_def flip: st1_def)
qed

text \<open>No step switches limiting on, and none removes a queue.\<close>

lemma throttle_control:
  "cc_enabled (snd (snd (throttle m i c))) = cc_enabled c"
  "map_of (cc_queues (snd (snd (throttle m i c)))) ty \<noteq> None \<longleftrightarrow> map_of (cc_queues c) ty \<noteq> None"
  by (auto simp: throttle_def set_queue_def getQueue_def split: option.splits prod.splits)

lemma release_control:
  "cc_enabled (snd (release m c)) = cc_enabled c"
  "map_of (cc_queues (snd (release m c))) ty \<noteq> None \<longleftrightarrow> map_of (cc_queues c) ty \<noteq> None"
  by (auto simp: release_def set_queue_def getQueue_def split: option.splits prod.splits)

lemma remove_control:
  "cc_enabled (snd (remove_queued m i c)) = cc_enabled c"
  "map_of (cc_queues (snd (remove_queued m i c))) ty \<noteq> None \<longleftrightarrow> map_of (cc_queues c) ty \<noteq> None"
  by (auto simp: remove_queued_def set_queue_def getQueue_def split: option.splits prod.splits)

definition same_limits :: "ActiveExecutions \<Rightarrow> ActiveExecutions \<Rightarrow> bool" where
  "same_limits st st' \<longleftrightarrow> ae_regular st' = ae_regular st \<and> cc_enabled (ae_control st') = cc_enabled (ae_control st) \<and>
     (\<forall>ty. map_of (cc_queues (ae_control st')) ty \<noteq> None \<longleftrightarrow> map_of (cc_queues (ae_control st)) ty \<noteq> None)"

lemma same_limitsI: "ae_regular st' = ae_regular st \<Longrightarrow> ae_control st' = ae_control st \<Longrightarrow> same_limits st st'"
  by (simp add: same_limits_def)

lemma same_limits_add_begin: "same_limits st (add_begin d e i st)"
proof -
  let ?j = "case e of None \<Rightarrow> i | Some j \<Rightarrow> j"
  obtain w es c where t: "throttle (ed_mode d) ?j (ae_control st) = (w, es, c)" by (metis prod_cases3)
  then show ?thesis using throttle_control[of "ed_mode d" ?j "ae_control st"]
    by (cases e) (auto simp: add_begin_def Let_def emit_def same_limits_def)
qed

lemma same_limits_on_settled: "same_limits st (on_settled r st)"
proof -
  have "ae_control (on_settled r st) = snd (release (ed_mode (ex_data (ae_store st ! r))) (ae_control st))"
    "ae_regular (on_settled r st) = ae_regular st"
    by (simp_all add: on_settled_def control_release_def Let_def case_prod_unfold)
  then show ?thesis using release_control by (simp add: same_limits_def)
qed

lemma same_limits_stop: "same_limits st (stopExecution i st)"
  using stopExecution_control[of i st] by (simp add: same_limitsI)

lemma same_limits_user_stop: "same_limits st (stopInRegularMode m i st)"
proof (cases "control_has (ae_control st) i")
  case True
  then show ?thesis using remove_control[of m i "ae_control st"]
    by (simp add: stopInRegularMode_def control_remove_def same_limits_def emit_def case_prod_unfold)
next
  case False
  then show ?thesis using stopExecution_control[of i st]
    by (intro same_limitsI) (simp_all add: stopInRegularMode_def emit_def)
qed

text \<open>While limiting is on, the slots are accounted for; a shutdown switches it off for good.\<close>

definition limited :: "(ConcurrencyQueueType \<Rightarrow> nat) \<Rightarrow> ActiveExecutions \<Rightarrow> bool" where
  "limited L st \<longleftrightarrow> ae_regular st \<and>
     (cc_enabled (ae_control st) \<longrightarrow> slots_ok L st \<and> (\<forall>ty. map_of (cc_queues (ae_control st)) ty \<noteq> None))"

lemma limited_same: "limited L st \<Longrightarrow> same_limits st st' \<Longrightarrow> (slots_ok L st \<Longrightarrow> slots_ok L st') \<Longrightarrow> limited L st'"
  by (auto simp: limited_def same_limits_def)

lemma limited_emit: "limited L st \<Longrightarrow> no_removal es \<Longrightarrow> limited L (emit es st)"
  by (erule limited_same) (simp_all add: same_limits_def slots_emit, simp_all add: emit_def)

lemma limited_update:
  assumes "limited L st" "\<And>x ty. holds_active ty (f x) = holds_active ty x"
  shows "limited L (update_execution i f st)"
  using assms(1)
proof (rule limited_same)
  show "same_limits st (update_execution i f st)" by (auto simp: update_execution_def intro!: same_limitsI split: option.splits)
qed (rule slots_update[OF _ assms(2)])

lemma limited_step: "ae_step st st' \<Longrightarrow> limited L st \<Longrightarrow> limited L st'"
proof (induction rule: ae_step.induct)
  case (begin_step st d e i)
  then show ?case using same_limits_add_begin slots_add_begin by (rule limited_same)
next
  case (settled_step r st)
  from settled_step(4) same_limits_on_settled show ?case by (rule limited_same) (rule slots_on_settled[OF _ settled_step(1,3)])
next
  case (user_stop_step st m i)
  then show ?case using same_limits_user_stop slots_user_stop by (rule limited_same)
next
  case (shutdown_step st ca)
  then show ?case using shutdown_control[where ca = ca and st = st] by (simp add: limited_def disable_def)
next
  case (finish_step k st now)
  have "same_limits st (add_finish k now st)" by (simp add: same_limits_def add_finish_def Let_def emit_def)
  from limited_same[OF finish_step(3) this] show ?case using slots_add_finish[OF _ finish_step(1,2)] by blast
next
  case (fails_step k st)
  have "same_limits st (add_fails k st)" by (simp add: same_limits_def add_fails_def)
  from limited_same[OF fails_step(3) this] show ?case using slots_add_fails[OF _ fails_step(1,2)] by blast
next
  case (stop_step st i)
  then show ?case using same_limits_stop slots_stop by (rule limited_same)
next
  case (finalize_step st i)
  then show ?case by (auto simp: finalizeExecution_def intro!: limited_update limited_emit split: option.splits)
next
  case (attach_step i wfe st st')
  then show ?case by (auto simp: attachWorkflowExecution_def result_simps holds_active_def intro!: limited_update)
next
  case (response_step i pr st st')
  then show ?case by (auto simp: attachResponsePromise_def result_simps holds_active_def intro!: limited_update)
next
  case (status_step i s st st')
  then show ?case by (auto simp: setStatus_def result_simps holds_active_def intro!: limited_update)
qed (auto simp: resolveResponsePromise_def resolveExecutionResponsePromise_def sendChunk_def intro!: limited_emit split: option.splits)

lemma limited_reachable: "ae_reachable st0 st \<Longrightarrow> limited L st0 \<Longrightarrow> limited L st"
  by (induction rule: ae_reachable.induct) (auto intro: limited_step)

text \<open>
  C29: However starts, finishes, stops of running and of waiting executions, status changes, failing database calls,
  releases and shutdowns interleave: until a shutdown switches limiting off, the executions of a queue's modes that were
  let through and are not over exceed the limit by at most one for every waiting execution that was stopped; so
  they stay within it when no waiting one is stopped. Nobody waits while there are fewer than the limit allows, and
  the reported capacity is the limit less those who run and those who wait.
\<close>

theorem active_executions_bounded:
  assumes "new_control (int p) (int e) False = Inr c" and "ae_reachable (new_active True c) st" and "cc_enabled (ae_control st)"
  shows "\<exists>q. map_of (cc_queues (ae_control st)) ty = Some q \<and>
    (let limit = (case ty of Production \<Rightarrow> p | Evaluation \<Rightarrow> e) in
      holders ty st \<le> limit + removals ty st \<and>
      (cq_queue q \<noteq> [] \<longrightarrow> limit \<le> holders ty st) \<and>
      cq_capacity q = int limit - int (holders ty st) - int (length (cq_queue q)) \<and>
      cq_queue q = map pa_id (filter (waits_pending ty) (ae_adding st)))"
proof -
  define L where "L = (\<lambda>ty. case ty of Production \<Rightarrow> p | Evaluation \<Rightarrow> e)"
  have queues: "map_of (cc_queues c) Production = Some (new_queue (int p))"
    "map_of (cc_queues c) Evaluation = Some (new_queue (int e))" "cc_enabled c"
    using new_control_shape[OF assms(1)] by auto
  have start: "slots_ok L (new_active True c)"
    unfolding slots_ok_def
  proof (intro conjI allI impI)
    fix ty q assume "map_of (cc_queues (ae_control (new_active True c))) ty = Some q"
    then have "q = new_queue (int (L ty))" using queues by (cases ty) (simp_all add: new_active_def L_def)
    then show "queue_accounts (L ty) (removals ty (new_active True c)) q (holders ty (new_active True c))"
      "cq_queue q = map pa_id (filter (waits_pending ty) (ae_adding (new_active True c)))"
      by (simp_all add: new_active_def holders_def removals_def queue_accounts_def new_queue_def)
  qed (simp_all add: new_active_def queues)
  have "map_of (cc_queues c) ty \<noteq> None" for ty using queues by (cases ty) simp_all
  then have "limited L (new_active True c)" using start by (simp add: limited_def new_active_def)
  from limited_reachable[OF assms(2) this] have ok: "slots_ok L st" "map_of (cc_queues (ae_control st)) ty \<noteq> None"
    using assms(3) by (simp_all add: limited_def)
  then obtain q where q: "map_of (cc_queues (ae_control st)) ty = Some q" by blast
  with ok(1) have "queue_accounts (L ty) (removals ty st) q (holders ty st)"
    "cq_queue q = map pa_id (filter (waits_pending ty) (ae_adding st))" by (simp_all add: slots_ok_def)
  with q show ?thesis by (simp add: L_def queue_accounts_def)
qed

section \<open>Shutdown\<close>

text \<open>
  A shutdown never cancels executions in the database: in regular mode limiting is switched off
  first, in queue mode it is never on, and \<open>removeAll\<close> then returns at once, whatever executions
  with a response promise were stopped.
\<close>

theorem shutdown_cancels_nothing:
  assumes "ae_regular st \<or> \<not> cc_enabled (ae_control st)"
  shows "\<exists>es. ae_log (shutdown cancelAll st) = ae_log st @ es \<and> (\<forall>ids. CancelMany ids \<notin> set es)"
proof -
  define st1 where "st1 = (if ae_regular st then st\<lparr>ae_control := disable (ae_control st)\<rparr> else st)"
  have off: "\<not> cc_enabled (ae_control st1)" "ae_log st1 = ae_log st" using assms by (auto simp: st1_def disable_def)
  obtain st2 toCancel where f: "fold (shutdown_one cancelAll) (js_keys (ae_active st1)) (st1, []) = (st2, toCancel)"
    by fastforce
  have c: "ae_control st2 = ae_control st1" and es: "\<exists>es. ae_log st2 = ae_log st1 @ es \<and> (\<forall>ids. CancelMany ids \<notin> set es)"
    using shutdown_all_control[of cancelAll "js_keys (ae_active st1)" "(st1, [])"] f by auto
  have "control_removeAll toCancel (ae_control st2) = ([], None, ae_control st2)"
    using off(1) c by (simp add: control_removeAll_def)
  then have "ae_log (shutdown cancelAll st) = ae_log st2"
    by (simp add: shutdown_def Let_def f flip: st1_def)
  with es off(2) show ?thesis by simp
qed

section \<open>Instances\<close>

definition webhook_run :: ExecutionData where
  "webhook_run = \<lparr>ed_mode = ModeWebhook, ed_retryOf = None, ed_workflowId = ''1'', ed_httpResponse = False\<rparr>"

definition one_slot :: ConcurrencyControl where
  "one_slot = \<lparr>cc_enabled = True, cc_limits = [(Production, 1), (Evaluation, 1)],
     cc_queues = [(Production, new_queue 1), (Evaluation, new_queue 1)]\<rparr>"

definition two_started :: ActiveExecutions where
  "two_started = add_begin webhook_run None ''2'' (add_begin webhook_run None ''1'' (new_active True one_slot))"

definition one_removed :: ActiveExecutions where
  "one_removed = stopInRegularMode ModeWebhook ''2'' (add_begin webhook_run None ''3'' two_started)"

lemma active_executions_bounded_witness:
  "holders Production one_removed \<le> 1 + removals Production one_removed \<and> holders Production one_removed = 2"
proof -
  have c: "new_control (int 1) (int 1) False = Inr one_slot" by code_simp
  have "ae_reachable (new_active True one_slot) one_removed" unfolding one_removed_def two_started_def
    by (rule ae_next[OF ae_next[OF ae_next[OF ae_next[OF ae_start begin_step] begin_step] begin_step] user_stop_step])
  moreover have "cc_enabled (ae_control one_removed)" by code_simp
  ultimately have "holders Production one_removed \<le> 1 + removals Production one_removed"
    using active_executions_bounded[OF c, of one_removed Production] by (auto simp: Let_def)
  moreover have "holders Production one_removed = 2" by code_simp
  ultimately show ?thesis by blast
qed

lemma shutdown_cancels_nothing_witness:
  "\<forall>ids. CancelMany ids \<notin> set (ae_log (shutdown True (add_finish 0 7 two_started)))"
proof -
  have "ae_regular (add_finish 0 7 two_started)" by code_simp
  then obtain es where "ae_log (shutdown True (add_finish 0 7 two_started)) = ae_log (add_finish 0 7 two_started) @ es"
    "\<forall>ids. CancelMany ids \<notin> set es"
    using shutdown_cancels_nothing[of "add_finish 0 7 two_started" True] by blast
  moreover have "ae_log (add_finish 0 7 two_started) = [CreateNewExecution ''1'', CreateNewExecution ''2'', SetRunning ''1'']"
    by code_simp
  ultimately show ?thesis by simp
qed

text \<open>
  The running execution has a response promise and is stopped by the shutdown; the database is not
  told. A failing database call keeps the slot for ever: nothing releases it.
\<close>

lemma failed_add_keeps_slot:
  "(let st = add_fails 0 two_started
    in holders Production st = 1 \<and> ae_active st = [] \<and> count_if (waits_pending Production) (ae_adding st) = 1)"
  by code_simp

end
