(* ===== verification/TaskBroker.thy ===== *)
theory TaskBroker
  imports Prelude
begin

text \<open>
  The broker between nodes that request tasks and the task runners that execute them: class
  \<open>TaskBroker\<close> (\<^verbatim>\<open>packages/cli/src/task-runners/task-broker/task-broker.service.ts\<close>) and its messages
  (\<^verbatim>\<open>packages/@n8n/task-runner/src/message-types.ts\<close>).

  Request objects are shared between the list of pending requests and the calls of \<open>acceptOffer\<close>, so
  they live in a store and are named by their place. A call of \<open>acceptOffer\<close> is an \<open>AcceptProcess\<close> and
  stops at each of its awaits: for the runner, for the requester, and before the settings are sent; what a
  promise was settled with first waits in the process until it resumes. The other async handlers
  that go on after an await leave a \<open>Job\<close>. \<open>broker_step\<close> is one event of the process; the events may
  come in any order. The calls of \<open>nanoid\<close> are the argument \<open>ids\<close>, one id for each \<open>acceptOffer\<close>;
  \<open>process.hrtime\<close> is an argument of the events that read it. What the message callbacks are called with
  is the log \<open>bk_log\<close>. Payloads are opaque strings.
\<close>

section \<open>Messages\<close>

datatype ToRunner =
    ToRunner_InfoRequest
  | ToRunner_RunnerRegistered
  | ToRunner_TaskOfferAccept (taskId: string) (offerId: string)
  | ToRunner_TaskCancel (taskId: string) (reason: string)
  | ToRunner_TaskSettings (taskId: string) (settings: string)
  | ToRunner_RPCResponse (taskId: string) (callId: string) (status: string) (data: string)
  | ToRunner_TaskDataResponse (taskId: string) (requestId: string) (data: string)
  | ToRunner_NodeTypes (taskId: string) (requestId: string) (nodeTypes: string)

datatype ToRequester =
    ToRequester_TaskReady (requestId: string) (taskId: string)
  | ToRequester_TaskDone (taskId: string) (data: string)
  | ToRequester_TaskError (taskId: string) (error: string)
  | ToRequester_TaskDataRequest (taskId: string) (requestId: string) (requestParams: string)
  | ToRequester_NodeTypesRequest (taskId: string) (requestId: string) (requestParams: string)
  | ToRequester_RPC (taskId: string) (callId: string) (rpcName: string) (params: string)

datatype RequesterMessage =
    Requester_TaskSettings (taskId: string) (settings: string)
  | Requester_TaskCancel (taskId: string) (reason: string)
  | Requester_TaskDataResponse (taskId: string) (requestId: string) (data: string)
  | Requester_NodeTypesResponse (taskId: string) (requestId: string) (nodeTypes: string)
  | Requester_RPCResponse (taskId: string) (callId: string) (status: string) (data: string)
  | Requester_TaskRequest (requestId: string) (taskType: string)

datatype RunnerMessage =
    Runner_Info (runnerName: string) (runnerTypes: "string list")
  | Runner_TaskAccepted (taskId: string)
  | Runner_TaskRejected (taskId: string) (reason: string)
  | Runner_TaskDeferred (taskId: string)
  | Runner_TaskDone (taskId: string) (data: string)
  | Runner_TaskError (taskId: string) (error: string)
  | Runner_TaskOffer (offerId: string) (taskType: string) (validFor: int)
  | Runner_TaskDataRequest (taskId: string) (requestId: string) (requestParams: string)
  | Runner_NodeTypesRequest (taskId: string) (requestId: string) (requestParams: string)
  | Runner_RPC (taskId: string) (callId: string) (rpcName: string) (params: string)

section \<open>State\<close>

record TaskRunner =
  tr_id :: string
  tr_taskTypes :: "string list"

record Task =
  tk_id :: string
  tk_runnerId :: string
  tk_requesterId :: string
  tk_taskType :: string
  tk_timeout :: bool

record TaskOffer =
  of_offerId :: string
  of_runnerId :: string
  of_taskType :: string
  of_validFor :: int
  of_validUntil :: int

record TaskRequest =
  rq_requestId :: string
  rq_requesterId :: string
  rq_taskType :: string
  rq_acceptInProgress :: bool

datatype RunnerOutcome =
    RunnerAccepted | RunnerRejected string | RunnerDeferred | RunnerTimedOut

datatype RequesterOutcome =
    RequesterAccepted string | RequesterRejected string | RequesterTimedOut

text \<open>
  Where a call of \<open>acceptOffer\<close> stands. \<open>GivenUp\<close>: it returned before the runner accepted.
  \<open>AwaitSend\<close>: in \<open>sendTaskSettings\<close>, which has found the runner. \<open>Finished\<close>: it returned or threw.
\<close>

datatype Phase =
    AwaitRunner "RunnerOutcome option"
  | GivenUp
  | AwaitRequester "RequesterOutcome option"
  | AwaitSend string string
  | Finished

record AcceptProcess =
  ap_taskId :: string
  ap_offer :: TaskOffer
  ap_request :: nat
  ap_phase :: Phase

datatype Job =
    DeleteTask string
  | FailTimedOut string
  | SendToRunner string ToRunner

datatype BrokerEffect =
    MessageRunner string ToRunner
  | MessageRequester string ToRequester
  | TimedOutDuringTask
  | RequestNotFound string
  | Unhandled string

record TaskBroker =
  bk_runners :: "(string, TaskRunner) js_map"
  bk_requesters :: "string list"
  bk_tasks :: "(string, Task) js_map"
  bk_runnerAccepts :: "(string, nat) js_map"
  bk_requesterAccepts :: "(string, nat) js_map"
  bk_offers :: "TaskOffer list"
  bk_requests :: "nat list"
  bk_store :: "TaskRequest list"
  bk_procs :: "AcceptProcess list"
  bk_jobs :: "Job list"
  bk_log :: "BrokerEffect list"

datatype TaskRunnerMode = Internal | External

record BrokerConfig =
  cfg_taskTimeout :: nat
  cfg_mode :: TaskRunnerMode

text \<open>An error object is named by its message.\<close>

definition TaskRunnerExecutionTimeoutError :: "nat \<Rightarrow> string" where
  "TaskRunnerExecutionTimeoutError taskTimeout = ''Task execution timed out after '' @ nat_str taskTimeout @
     (if taskTimeout = 1 then '' second'' else '' seconds'')"

definition empty_broker :: TaskBroker where
  "empty_broker = \<lparr>bk_runners = [], bk_requesters = [], bk_tasks = [], bk_runnerAccepts = [],
     bk_requesterAccepts = [], bk_offers = [], bk_requests = [], bk_store = [], bk_procs = [],
     bk_jobs = [], bk_log = []\<rparr>"

definition new_broker :: "BrokerConfig \<Rightarrow> TaskBroker result" where
  "new_broker cfg =
     (if cfg_taskTimeout cfg \<le> 0 then Inl (UserError ''Task timeout must be greater than 0'') else Inr empty_broker)"

definition bk_emit :: "BrokerEffect \<Rightarrow> TaskBroker \<Rightarrow> TaskBroker" where
  "bk_emit e b = b\<lparr>bk_log := bk_log b @ [e]\<rparr>"

section \<open>Runners and requesters\<close>

definition messageRunner :: "string \<Rightarrow> ToRunner \<Rightarrow> TaskBroker \<Rightarrow> TaskBroker" where
  "messageRunner runnerId msg b = (case map_of (bk_runners b) runnerId of
     None \<Rightarrow> b | Some _ \<Rightarrow> bk_emit (MessageRunner runnerId msg) b)"

definition messageRequester :: "string \<Rightarrow> ToRequester \<Rightarrow> TaskBroker \<Rightarrow> TaskBroker" where
  "messageRequester requesterId msg b =
     (if requesterId \<in> set (bk_requesters b) then bk_emit (MessageRequester requesterId msg) b else b)"

definition registerRunner :: "TaskRunner \<Rightarrow> TaskBroker \<Rightarrow> TaskBroker" where
  "registerRunner runner b =
     bk_emit (MessageRunner (tr_id runner) ToRunner_RunnerRegistered)
       (b\<lparr>bk_runners := js_put (tr_id runner) runner (bk_runners b)\<rparr>)"

definition registerRequester :: "string \<Rightarrow> TaskBroker \<Rightarrow> TaskBroker" where
  "registerRequester requesterId b = b\<lparr>bk_requesters := set_add requesterId (bk_requesters b)\<rparr>"

definition deregisterRequester :: "string \<Rightarrow> TaskBroker \<Rightarrow> TaskBroker" where
  "deregisterRequester requesterId b = b\<lparr>bk_requesters := set_del requesterId (bk_requesters b)\<rparr>"

text \<open>A promise keeps what it is settled with first.\<close>

definition settle_runner :: "RunnerOutcome \<Rightarrow> nat \<Rightarrow> TaskBroker \<Rightarrow> TaskBroker" where
  "settle_runner r k b = (case ap_phase (bk_procs b ! k) of
     AwaitRunner None \<Rightarrow> b\<lparr>bk_procs := (bk_procs b)[k := (bk_procs b ! k)\<lparr>ap_phase := AwaitRunner (Some r)\<rparr>]\<rparr>
   | _ \<Rightarrow> b)"

definition settle_requester :: "RequesterOutcome \<Rightarrow> nat \<Rightarrow> TaskBroker \<Rightarrow> TaskBroker" where
  "settle_requester r k b = (case ap_phase (bk_procs b ! k) of
     AwaitRequester None \<Rightarrow> b\<lparr>bk_procs := (bk_procs b)[k := (bk_procs b ! k)\<lparr>ap_phase := AwaitRequester (Some r)\<rparr>]\<rparr>
   | _ \<Rightarrow> b)"

definition answer_runner :: "RunnerOutcome \<Rightarrow> string \<Rightarrow> TaskBroker \<Rightarrow> TaskBroker" where
  "answer_runner r tid b = (case map_of (bk_runnerAccepts b) tid of
     None \<Rightarrow> b
   | Some k \<Rightarrow> (settle_runner r k b)\<lparr>bk_runnerAccepts := js_del tid (bk_runnerAccepts b)\<rparr>)"

definition handleRunnerAccept :: "string \<Rightarrow> TaskBroker \<Rightarrow> TaskBroker" where
  "handleRunnerAccept = answer_runner RunnerAccepted"

definition handleRunnerReject :: "string \<Rightarrow> string \<Rightarrow> TaskBroker \<Rightarrow> TaskBroker" where
  "handleRunnerReject tid r = answer_runner (RunnerRejected r) tid"

definition handleRunnerDeferred :: "string \<Rightarrow> TaskBroker \<Rightarrow> TaskBroker" where
  "handleRunnerDeferred = answer_runner RunnerDeferred"

definition answer_requester :: "RequesterOutcome \<Rightarrow> string \<Rightarrow> TaskBroker \<Rightarrow> TaskBroker" where
  "answer_requester r tid b = (case map_of (bk_requesterAccepts b) tid of
     None \<Rightarrow> b
   | Some k \<Rightarrow> (settle_requester r k b)\<lparr>bk_requesterAccepts := js_del tid (bk_requesterAccepts b)\<rparr>)"

definition handleRequesterAccept :: "string \<Rightarrow> string \<Rightarrow> TaskBroker \<Rightarrow> TaskBroker" where
  "handleRequesterAccept tid s = answer_requester (RequesterAccepted s) tid"

definition handleRequesterReject :: "string \<Rightarrow> string \<Rightarrow> TaskBroker \<Rightarrow> TaskBroker" where
  "handleRequesterReject tid r = answer_requester (RequesterRejected r) tid"

definition cancelTask :: "string \<Rightarrow> string \<Rightarrow> TaskBroker \<Rightarrow> TaskBroker" where
  "cancelTask tid r b = (case map_of (bk_tasks b) tid of
     None \<Rightarrow> b
   | Some task \<Rightarrow> messageRunner (tk_runnerId task) (ToRunner_TaskCancel tid r) (b\<lparr>bk_tasks := js_del tid (bk_tasks b)\<rparr>))"

definition failTask :: "string \<Rightarrow> string \<Rightarrow> TaskBroker \<Rightarrow> TaskBroker" where
  "failTask tid e b = (case map_of (bk_tasks b) tid of
     None \<Rightarrow> b
   | Some task \<Rightarrow> messageRequester (tk_requesterId task) (ToRequester_TaskError tid e) (b\<lparr>bk_tasks := js_del tid (bk_tasks b)\<rparr>))"

definition deregisterRunner :: "string \<Rightarrow> string \<Rightarrow> TaskBroker \<Rightarrow> TaskBroker" where
  "deregisterRunner runnerId e b =
     (let b = b\<lparr>bk_runners := js_del runnerId (bk_runners b)\<rparr>;
          b = b\<lparr>bk_offers := filter (\<lambda>offer. of_runnerId offer \<noteq> runnerId) (bk_offers b)\<rparr>
      in fold (\<lambda>task b. if tk_runnerId task = runnerId
           then handleRunnerReject (tk_id task) (''The Task Runner ('' @ runnerId @ '') has disconnected: '' @ e)
             (failTask (tk_id task) e b)
           else b) (js_values (bk_tasks b)) b)"

text \<open>The runner of a task; without one, the task fails. \<open>Inl\<close> is the exception.\<close>

definition getRunnerOrFailTask :: "string \<Rightarrow> TaskBroker \<Rightarrow> TaskRunner result \<times> TaskBroker" where
  "getRunnerOrFailTask tid b = (case map_of (bk_tasks b) tid of
     None \<Rightarrow> (Inl (UnexpectedError (''Cannot find runner, failed to find task ('' @ tid @ '')'')), b)
   | Some task \<Rightarrow> (case map_of (bk_runners b) (tk_runnerId task) of
       None \<Rightarrow> (let e = ''Cannot find runner, failed to find runner ('' @ tk_runnerId task @ '')''
                in (Inl (UnexpectedError e), failTask tid e b))
     | Some runner \<Rightarrow> (Inr runner, b)))"

section \<open>Messages during a task\<close>

definition to_requester_of :: "string \<Rightarrow> ToRequester \<Rightarrow> TaskBroker \<Rightarrow> TaskBroker" where
  "to_requester_of tid msg b = (case map_of (bk_tasks b) tid of
     None \<Rightarrow> b | Some task \<Rightarrow> messageRequester (tk_requesterId task) msg b)"

definition handleRpcRequest :: "string \<Rightarrow> string \<Rightarrow> string \<Rightarrow> string \<Rightarrow> TaskBroker \<Rightarrow> TaskBroker" where
  "handleRpcRequest tid cid nm ps = to_requester_of tid (ToRequester_RPC tid cid nm ps)"

definition handleDataRequest :: "string \<Rightarrow> string \<Rightarrow> string \<Rightarrow> TaskBroker \<Rightarrow> TaskBroker" where
  "handleDataRequest tid rid ps = to_requester_of tid (ToRequester_TaskDataRequest tid rid ps)"

definition handleNodeTypesRequest :: "string \<Rightarrow> string \<Rightarrow> string \<Rightarrow> TaskBroker \<Rightarrow> TaskBroker" where
  "handleNodeTypesRequest tid rid ps = to_requester_of tid (ToRequester_NodeTypesRequest tid rid ps)"

text \<open>The message goes to a runner that has the id of the requester.\<close>

definition handleResponse :: "string \<Rightarrow> string \<Rightarrow> string \<Rightarrow> TaskBroker \<Rightarrow> TaskBroker" where
  "handleResponse tid rid d b = (case map_of (bk_tasks b) tid of
     None \<Rightarrow> b | Some task \<Rightarrow> messageRunner (tk_requesterId task) (ToRunner_TaskDataResponse tid rid d) b)"

definition bk_job :: "Job \<Rightarrow> TaskBroker \<Rightarrow> TaskBroker" where
  "bk_job j b = b\<lparr>bk_jobs := bk_jobs b @ [j]\<rparr>"

definition to_runner_of :: "string \<Rightarrow> ToRunner \<Rightarrow> TaskBroker \<Rightarrow> TaskBroker" where
  "to_runner_of tid msg b = (case getRunnerOrFailTask tid b of
     (Inl _, b) \<Rightarrow> b
   | (Inr runner, b) \<Rightarrow> bk_job (SendToRunner (tr_id runner) msg) b)"

definition handleRequesterRpcResponse :: "string \<Rightarrow> string \<Rightarrow> string \<Rightarrow> string \<Rightarrow> TaskBroker \<Rightarrow> TaskBroker" where
  "handleRequesterRpcResponse tid cid s d = to_runner_of tid (ToRunner_RPCResponse tid cid s d)"

definition handleRequesterDataResponse :: "string \<Rightarrow> string \<Rightarrow> string \<Rightarrow> TaskBroker \<Rightarrow> TaskBroker" where
  "handleRequesterDataResponse tid rid d = to_runner_of tid (ToRunner_TaskDataResponse tid rid d)"

definition handleRequesterNodeTypesResponse :: "string \<Rightarrow> string \<Rightarrow> string \<Rightarrow> TaskBroker \<Rightarrow> TaskBroker" where
  "handleRequesterNodeTypesResponse tid rid n = to_runner_of tid (ToRunner_NodeTypes tid rid n)"

section \<open>The end of a task\<close>

text \<open>Up to the await of the requester's callback; the task is deleted after it.\<close>

definition end_task :: "string \<Rightarrow> ToRequester \<Rightarrow> TaskBroker \<Rightarrow> TaskBroker" where
  "end_task tid msg b = (case map_of (bk_tasks b) tid of
     None \<Rightarrow> b
   | Some task \<Rightarrow> bk_job (DeleteTask tid)
       (messageRequester (tk_requesterId task) msg (b\<lparr>bk_tasks := js_put tid (task\<lparr>tk_timeout := False\<rparr>) (bk_tasks b)\<rparr>)))"

definition taskDoneHandler :: "string \<Rightarrow> string \<Rightarrow> TaskBroker \<Rightarrow> TaskBroker" where
  "taskDoneHandler tid d = end_task tid (ToRequester_TaskDone tid d)"

definition taskErrorHandler :: "string \<Rightarrow> string \<Rightarrow> TaskBroker \<Rightarrow> TaskBroker" where
  "taskErrorHandler tid e = end_task tid (ToRequester_TaskError tid e)"

definition handleTaskTimeout :: "BrokerConfig \<Rightarrow> string \<Rightarrow> TaskBroker \<Rightarrow> TaskBroker" where
  "handleTaskTimeout cfg tid b = (case map_of (bk_tasks b) tid of
     None \<Rightarrow> b
   | Some task \<Rightarrow> (case cfg_mode cfg of
       Internal \<Rightarrow> taskErrorHandler tid (TaskRunnerExecutionTimeoutError (cfg_taskTimeout cfg)) (bk_emit TimedOutDuringTask b)
     | External \<Rightarrow> bk_job (FailTimedOut tid)
         (messageRunner (tk_runnerId task) (ToRunner_TaskCancel tid ''Task execution timed out'') b)))"

section \<open>Matching offers and requests\<close>

definition expireTasks :: "int \<Rightarrow> TaskBroker \<Rightarrow> TaskBroker" where
  "expireTasks now b = b\<lparr>bk_offers := filter (\<lambda>offer. of_validFor offer = -1 \<or> \<not> of_validUntil offer < now) (bk_offers b)\<rparr>"

text \<open>\<open>acceptOffer\<close> up to the await for the runner.\<close>

definition acceptOffer :: "(nat \<Rightarrow> string) \<Rightarrow> TaskOffer \<Rightarrow> nat \<Rightarrow> TaskBroker \<Rightarrow> TaskBroker" where
  "acceptOffer ids offer r b =
     (let k = length (bk_procs b); tid = ids k
      in messageRunner (of_runnerId offer) (ToRunner_TaskOfferAccept tid (of_offerId offer))
        (b\<lparr>bk_runnerAccepts := js_put tid k (bk_runnerAccepts b),
           bk_procs := bk_procs b @ [\<lparr>ap_taskId = tid, ap_offer = offer, ap_request = r, ap_phase = AwaitRunner None\<rparr>]\<rparr>))"

definition settle_request :: "(nat \<Rightarrow> string) \<Rightarrow> nat \<Rightarrow> TaskBroker \<Rightarrow> TaskBroker" where
  "settle_request ids r b =
     (if rq_acceptInProgress (bk_store b ! r) then b
      else case findIndex (\<lambda>offer. of_taskType offer = rq_taskType (bk_store b ! r)) (bk_offers b) of
        None \<Rightarrow> b
      | Some i \<Rightarrow> acceptOffer ids (bk_offers b ! i) r
          (b\<lparr>bk_store := (bk_store b)[r := (bk_store b ! r)\<lparr>rq_acceptInProgress := True\<rparr>],
             bk_offers := splice1 i (bk_offers b)\<rparr>))"

definition settleTasks :: "(nat \<Rightarrow> string) \<Rightarrow> int \<Rightarrow> TaskBroker \<Rightarrow> TaskBroker" where
  "settleTasks ids now b = (let b = expireTasks now b in fold (settle_request ids) (bk_requests b) b)"

definition taskRequested :: "(nat \<Rightarrow> string) \<Rightarrow> int \<Rightarrow> TaskRequest \<Rightarrow> TaskBroker \<Rightarrow> TaskBroker" where
  "taskRequested ids now request b =
     settleTasks ids now (b\<lparr>bk_requests := bk_requests b @ [length (bk_store b)], bk_store := bk_store b @ [request]\<rparr>)"

definition taskOffered :: "(nat \<Rightarrow> string) \<Rightarrow> int \<Rightarrow> TaskOffer \<Rightarrow> TaskBroker \<Rightarrow> TaskBroker" where
  "taskOffered ids now offer b = settleTasks ids now (b\<lparr>bk_offers := bk_offers b @ [offer]\<rparr>)"

section \<open>The rest of an acceptance\<close>

definition set_phase :: "nat \<Rightarrow> Phase \<Rightarrow> TaskBroker \<Rightarrow> TaskBroker" where
  "set_phase k ph b = b\<lparr>bk_procs := (bk_procs b)[k := (bk_procs b ! k)\<lparr>ap_phase := ph\<rparr>]\<rparr>"

text \<open>The catch block: the runner did not accept.\<close>

definition runner_declined :: "nat \<Rightarrow> RunnerOutcome \<Rightarrow> TaskBroker \<Rightarrow> TaskBroker" where
  "runner_declined k out b =
     (let r = ap_request (bk_procs b ! k);
          b = set_phase k GivenUp (b\<lparr>bk_store := (bk_store b)[r := (bk_store b ! r)\<lparr>rq_acceptInProgress := False\<rparr>]\<rparr>)
      in if out = RunnerDeferred then b\<lparr>bk_requests := bk_requests b @ [r]\<rparr> else b)"

definition runner_accepted :: "nat \<Rightarrow> TaskBroker \<Rightarrow> TaskBroker" where
  "runner_accepted k b =
     (let p = bk_procs b ! k; offer = ap_offer p; tid = ap_taskId p; request = bk_store b ! ap_request p;
          task = \<lparr>tk_id = tid, tk_runnerId = of_runnerId offer, tk_requesterId = rq_requesterId request,
                  tk_taskType = of_taskType offer, tk_timeout = False\<rparr>;
          b = b\<lparr>bk_tasks := js_put tid task (bk_tasks b)\<rparr>
      in case findIndex (\<lambda>r. rq_requestId (bk_store b ! r) = rq_requestId request) (bk_requests b) of
           None \<Rightarrow> set_phase k Finished (bk_emit (RequestNotFound (rq_requestId request)) b)
         | Some i \<Rightarrow> set_phase k (AwaitRequester None)
             (messageRequester (rq_requesterId request) (ToRequester_TaskReady (rq_requestId request) tid)
               (b\<lparr>bk_requests := splice1 i (bk_requests b),
                  bk_requesterAccepts := js_put tid k (bk_requesterAccepts b)\<rparr>)))"

text \<open>The catch block for other errors: the task is cancelled and the error thrown on, to nobody.\<close>

definition requester_failed :: "nat \<Rightarrow> string \<Rightarrow> TaskBroker \<Rightarrow> TaskBroker" where
  "requester_failed k e b =
     bk_emit (Unhandled e) (set_phase k Finished (cancelTask (ap_taskId (bk_procs b ! k)) ''Unknown reason'' b))"

definition error_message :: "js_error \<Rightarrow> string" where
  "error_message e = (case e of UnexpectedError s \<Rightarrow> s | UserError s \<Rightarrow> s | _ \<Rightarrow> '''')"

text \<open>\<open>sendTaskSettings\<close> up to the await of \<open>getRunnerOrFailTask\<close>, and what is left of it.\<close>

definition requester_accepted :: "nat \<Rightarrow> string \<Rightarrow> TaskBroker \<Rightarrow> TaskBroker" where
  "requester_accepted k s b = (case getRunnerOrFailTask (ap_taskId (bk_procs b ! k)) b of
     (Inl e, b) \<Rightarrow> requester_failed k (error_message e) b
   | (Inr runner, b) \<Rightarrow> set_phase k (AwaitSend (tr_id runner) s) b)"

definition send_settings :: "nat \<Rightarrow> string \<Rightarrow> string \<Rightarrow> TaskBroker \<Rightarrow> TaskBroker" where
  "send_settings k runnerId s b =
     (let tid = ap_taskId (bk_procs b ! k)
      in set_phase k Finished (case map_of (bk_tasks b) tid of
           None \<Rightarrow> b
         | Some task \<Rightarrow> messageRunner runnerId (ToRunner_TaskSettings tid s)
             (b\<lparr>bk_tasks := js_put tid (task\<lparr>tk_timeout := True\<rparr>) (bk_tasks b)\<rparr>)))"

text \<open>A process whose promise is settled goes on to its next await.\<close>

definition resume :: "nat \<Rightarrow> TaskBroker \<Rightarrow> TaskBroker" where
  "resume k b = (case ap_phase (bk_procs b ! k) of
     AwaitRunner (Some RunnerAccepted) \<Rightarrow> runner_accepted k b
   | AwaitRunner (Some out) \<Rightarrow> runner_declined k out b
   | AwaitRequester (Some (RequesterAccepted s)) \<Rightarrow> requester_accepted k s b
   | AwaitRequester (Some (RequesterRejected r)) \<Rightarrow>
       set_phase k Finished (cancelTask (ap_taskId (bk_procs b ! k)) r b)
   | AwaitRequester (Some RequesterTimedOut) \<Rightarrow> requester_failed k ''Requester timed out'' b
   | AwaitSend runnerId s \<Rightarrow> send_settings k runnerId s b
   | _ \<Rightarrow> b)"

definition run_job :: "BrokerConfig \<Rightarrow> nat \<Rightarrow> TaskBroker \<Rightarrow> TaskBroker" where
  "run_job cfg j b =
     (let job = bk_jobs b ! j; b = b\<lparr>bk_jobs := splice1 j (bk_jobs b)\<rparr>
      in case job of
           DeleteTask tid \<Rightarrow> b\<lparr>bk_tasks := js_del tid (bk_tasks b)\<rparr>
         | FailTimedOut tid \<Rightarrow> taskErrorHandler tid (TaskRunnerExecutionTimeoutError (cfg_taskTimeout cfg)) b
         | SendToRunner runnerId msg \<Rightarrow> messageRunner runnerId msg b)"

section \<open>Events\<close>

text \<open>\<open>now\<close> is the clock when the message is read, \<open>later\<close> when \<open>settleTasks\<close> reads it again.\<close>

definition onRunnerMessage :: "(nat \<Rightarrow> string) \<Rightarrow> int \<Rightarrow> int \<Rightarrow> string \<Rightarrow> RunnerMessage \<Rightarrow> TaskBroker \<Rightarrow> TaskBroker" where
  "onRunnerMessage ids now later runnerId msg b = (case map_of (bk_runners b) runnerId of
     None \<Rightarrow> b
   | Some _ \<Rightarrow> (case msg of
       Runner_TaskAccepted tid \<Rightarrow> handleRunnerAccept tid b
     | Runner_TaskRejected tid r \<Rightarrow> handleRunnerReject tid r b
     | Runner_TaskDeferred tid \<Rightarrow> handleRunnerDeferred tid b
     | Runner_TaskOffer oid ty valid \<Rightarrow> taskOffered ids later
         \<lparr>of_offerId = oid, of_runnerId = runnerId, of_taskType = ty, of_validFor = valid,
          of_validUntil = (if valid = -1 then 0 else now + valid * 1000000)\<rparr> b
     | Runner_TaskDone tid d \<Rightarrow> taskDoneHandler tid d b
     | Runner_TaskError tid e \<Rightarrow> taskErrorHandler tid e b
     | Runner_TaskDataRequest tid rid ps \<Rightarrow> handleDataRequest tid rid ps b
     | Runner_NodeTypesRequest tid rid ps \<Rightarrow> handleNodeTypesRequest tid rid ps b
     | Runner_RPC tid cid nm ps \<Rightarrow> handleRpcRequest tid cid nm ps b
     | Runner_Info nm tys \<Rightarrow> b))"

fun onRequesterMessage :: "(nat \<Rightarrow> string) \<Rightarrow> int \<Rightarrow> string \<Rightarrow> RequesterMessage \<Rightarrow> TaskBroker \<Rightarrow> TaskBroker" where
  "onRequesterMessage ids now requesterId (Requester_TaskSettings tid s) = handleRequesterAccept tid s"
| "onRequesterMessage ids now requesterId (Requester_TaskCancel tid r) = cancelTask tid r"
| "onRequesterMessage ids now requesterId (Requester_TaskRequest rid ty) = taskRequested ids now
     \<lparr>rq_requestId = rid, rq_requesterId = requesterId, rq_taskType = ty, rq_acceptInProgress = False\<rparr>"
| "onRequesterMessage ids now requesterId (Requester_TaskDataResponse tid rid d) = handleRequesterDataResponse tid rid d"
| "onRequesterMessage ids now requesterId (Requester_NodeTypesResponse tid rid n) = handleRequesterNodeTypesResponse tid rid n"
| "onRequesterMessage ids now requesterId (Requester_RPCResponse tid cid s d) = handleRequesterRpcResponse tid cid s d"

datatype BrokerEvent =
    RegisterRunner TaskRunner
  | DeregisterRunner string string
  | RegisterRequester string
  | DeregisterRequester string
  | FromRunner int int string RunnerMessage
  | FromRequester int string RequesterMessage
  | RejectByRequester string string
  | RunnerAcceptTimeout nat
  | RequesterAcceptTimeout nat
  | TaskTimeout string
  | Resume nat
  | RunJob nat

fun broker_step :: "BrokerConfig \<Rightarrow> (nat \<Rightarrow> string) \<Rightarrow> BrokerEvent \<Rightarrow> TaskBroker \<Rightarrow> TaskBroker" where
  "broker_step cfg ids (RegisterRunner runner) b = registerRunner runner b"
| "broker_step cfg ids (DeregisterRunner runnerId e) b = deregisterRunner runnerId e b"
| "broker_step cfg ids (RegisterRequester requesterId) b = registerRequester requesterId b"
| "broker_step cfg ids (DeregisterRequester requesterId) b = deregisterRequester requesterId b"
| "broker_step cfg ids (FromRunner now later runnerId msg) b = onRunnerMessage ids now later runnerId msg b"
| "broker_step cfg ids (FromRequester now requesterId msg) b = onRequesterMessage ids now requesterId msg b"
| "broker_step cfg ids (RejectByRequester tid r) b = handleRequesterReject tid r b"
| "broker_step cfg ids (RunnerAcceptTimeout k) b = (if k < length (bk_procs b) then settle_runner RunnerTimedOut k b else b)"
| "broker_step cfg ids (RequesterAcceptTimeout k) b = (if k < length (bk_procs b) then settle_requester RequesterTimedOut k b else b)"
| "broker_step cfg ids (TaskTimeout tid) b = (case map_of (bk_tasks b) tid of
     None \<Rightarrow> b
   | Some task \<Rightarrow> if tk_timeout task
       then handleTaskTimeout cfg tid (b\<lparr>bk_tasks := js_put tid (task\<lparr>tk_timeout := False\<rparr>) (bk_tasks b)\<rparr>) else b)"
| "broker_step cfg ids (Resume k) b = (if k < length (bk_procs b) then resume k b else b)"
| "broker_step cfg ids (RunJob j) b = (if j < length (bk_jobs b) then run_job cfg j b else b)"

definition broker_run :: "BrokerConfig \<Rightarrow> (nat \<Rightarrow> string) \<Rightarrow> BrokerEvent list \<Rightarrow> TaskBroker \<Rightarrow> TaskBroker" where
  "broker_run cfg ids = fold (broker_step cfg ids)"

section \<open>The invariant\<close>

text \<open>The runner may still take a request, or has taken it; it has taken it.\<close>

definition live :: "AcceptProcess \<Rightarrow> bool" where
  "live p \<longleftrightarrow> ap_phase p \<noteq> GivenUp"

fun taken_phase :: "Phase \<Rightarrow> bool" where
  "taken_phase (AwaitRunner _) = False"
| "taken_phase GivenUp = False"
| "taken_phase _ = True"

definition unanswered :: "Phase \<Rightarrow> bool" where
  "unanswered ph \<longleftrightarrow> ph \<in> {AwaitRunner None, AwaitRunner (Some RunnerTimedOut), GivenUp}"

definition procs_ok :: "(nat \<Rightarrow> string) \<Rightarrow> TaskBroker \<Rightarrow> bool" where
  "procs_ok ids b \<longleftrightarrow> (\<forall>k < length (bk_procs b). let p = bk_procs b ! k in
     ap_taskId p = ids k \<and> ap_request p < length (bk_store b) \<and>
     of_taskType (ap_offer p) = rq_taskType (bk_store b ! ap_request p) \<and>
     (live p \<longrightarrow> rq_acceptInProgress (bk_store b ! ap_request p)))"

definition exclusive :: "TaskBroker \<Rightarrow> bool" where
  "exclusive b \<longleftrightarrow> (\<forall>j < length (bk_procs b). \<forall>k < length (bk_procs b).
     live (bk_procs b ! j) \<and> live (bk_procs b ! k) \<and> ap_request (bk_procs b ! j) = ap_request (bk_procs b ! k) \<longrightarrow> j = k)"

definition accepts_ok :: "(nat \<Rightarrow> string) \<Rightarrow> TaskBroker \<Rightarrow> bool" where
  "accepts_ok ids b \<longleftrightarrow>
     (\<forall>t k. map_of (bk_runnerAccepts b) t = Some k \<longrightarrow>
        k < length (bk_procs b) \<and> ids k = t \<and> unanswered (ap_phase (bk_procs b ! k))) \<and>
     (\<forall>t k. map_of (bk_requesterAccepts b) t = Some k \<longrightarrow> k < length (bk_procs b) \<and> ids k = t)"

text \<open>A task belongs to a process whose runner accepted it.\<close>

definition task_of :: "(nat \<Rightarrow> string) \<Rightarrow> TaskBroker \<Rightarrow> nat \<Rightarrow> string \<Rightarrow> Task \<Rightarrow> bool" where
  "task_of ids b k t task \<longleftrightarrow> k < length (bk_procs b) \<and> ids k = t \<and> tk_id task = t \<and>
     taken_phase (ap_phase (bk_procs b ! k)) \<and>
     tk_runnerId task = of_runnerId (ap_offer (bk_procs b ! k)) \<and>
     tk_taskType task = of_taskType (ap_offer (bk_procs b ! k)) \<and>
     tk_requesterId task = rq_requesterId (bk_store b ! ap_request (bk_procs b ! k))"

definition tasks_ok :: "(nat \<Rightarrow> string) \<Rightarrow> TaskBroker \<Rightarrow> bool" where
  "tasks_ok ids b \<longleftrightarrow> js_wf (bk_tasks b) \<and>
     (\<forall>t task. map_of (bk_tasks b) t = Some task \<longrightarrow> (\<exists>k. task_of ids b k t task))"

definition broker_ok :: "(nat \<Rightarrow> string) \<Rightarrow> TaskBroker \<Rightarrow> bool" where
  "broker_ok ids b \<longleftrightarrow> procs_ok ids b \<and> exclusive b \<and> accepts_ok ids b \<and> tasks_ok ids b \<and>
     (\<forall>r \<in> set (bk_requests b). r < length (bk_store b))"

lemma broker_ok_empty: "broker_ok ids empty_broker"
  by (simp add: broker_ok_def procs_ok_def exclusive_def accepts_ok_def tasks_ok_def empty_broker_def)

subsection \<open>Operations that only send messages and end tasks\<close>

definition same_task :: "Task \<Rightarrow> Task \<Rightarrow> bool" where
  "same_task task task' \<longleftrightarrow> tk_id task' = tk_id task \<and> tk_runnerId task' = tk_runnerId task \<and>
     tk_requesterId task' = tk_requesterId task \<and> tk_taskType task' = tk_taskType task"

definition ended :: "TaskBroker \<Rightarrow> TaskBroker \<Rightarrow> bool" where
  "ended b b' \<longleftrightarrow> bk_procs b' = bk_procs b \<and> bk_store b' = bk_store b \<and> bk_requests b' = bk_requests b \<and>
     bk_runnerAccepts b' = bk_runnerAccepts b \<and> bk_requesterAccepts b' = bk_requesterAccepts b \<and>
     (js_wf (bk_tasks b) \<longrightarrow> js_wf (bk_tasks b')) \<and>
     (\<forall>t task'. map_of (bk_tasks b') t = Some task' \<longrightarrow>
        (\<exists>task. map_of (bk_tasks b) t = Some task \<and> same_task task task'))"

lemma ended_refl [simp]: "ended b b"
  by (simp add: ended_def same_task_def)

lemma same_task_trans: "same_task x y \<Longrightarrow> same_task y z \<Longrightarrow> same_task x z"
  by (simp add: same_task_def)

lemma ended_trans: "ended a b \<Longrightarrow> ended b c \<Longrightarrow> ended a c"
proof -
  assume ab: "ended a b" and bc: "ended b c"
  have "\<exists>task. map_of (bk_tasks a) t = Some task \<and> same_task task task'" if "map_of (bk_tasks c) t = Some task'" for t task'
    using ab bc that same_task_trans unfolding ended_def by blast
  with ab bc show ?thesis by (simp add: ended_def)
qed

lemma ended_ok: "ended b b' \<Longrightarrow> broker_ok ids b \<Longrightarrow> broker_ok ids b'"
proof -
  assume e: "ended b b'" and ok: "broker_ok ids b"
  have "\<exists>k. task_of ids b' k t task'" if "map_of (bk_tasks b') t = Some task'" for t task'
  proof -
    from e that obtain task where task: "map_of (bk_tasks b) t = Some task" "same_task task task'"
      by (auto simp: ended_def)
    from ok task(1) obtain k where "task_of ids b k t task" unfolding broker_ok_def tasks_ok_def by blast
    with task(2) e have "task_of ids b' k t task'" by (simp add: task_of_def ended_def same_task_def)
    then show ?thesis ..
  qed
  with e ok show "broker_ok ids b'"
    by (simp add: broker_ok_def procs_ok_def exclusive_def accepts_ok_def tasks_ok_def ended_def)
qed

lemma ended_message [simp, intro]:
  "ended b (bk_emit e b)" "ended b (messageRunner r m b)" "ended b (messageRequester q m' b)" "ended b (bk_job j b)"
  by (auto simp: ended_def same_task_def bk_emit_def messageRunner_def messageRequester_def bk_job_def split: option.splits)

lemma ended_del: "ended b (b\<lparr>bk_tasks := js_del t (bk_tasks b)\<rparr>)"
  by (auto simp: ended_def same_task_def js_wf_del split: if_splits)

lemma ended_timeout: "map_of (bk_tasks b) t = Some task \<Longrightarrow>
    ended b (b\<lparr>bk_tasks := js_put t (task\<lparr>tk_timeout := on\<rparr>) (bk_tasks b)\<rparr>)"
  by (auto simp: ended_def same_task_def js_wf_put split: if_splits)

lemma ended_tasks [simp, intro]:
  "ended b (cancelTask t r b)" "ended b (failTask t e b)" "ended b (end_task t m b)" "ended b (to_requester_of t m b)"
  "ended b (taskDoneHandler t d b)" "ended b (taskErrorHandler t d b)" "ended b (handleTaskTimeout cfg t b)"
proof -
  show cancel: "ended b (cancelTask t r b)" for b r
    by (auto simp: cancelTask_def intro: ended_trans[OF ended_del] split: option.splits)
  show "ended b (failTask t e b)"
    by (auto simp: failTask_def intro: ended_trans[OF ended_del] split: option.splits)
  show e: "ended b (end_task t m b)" for b m
    by (auto simp: end_task_def intro: ended_trans[OF ended_trans[OF ended_timeout ended_message(3)] ended_message(4)]
        split: option.splits)
  show "ended b (to_requester_of t m b)" by (auto simp: to_requester_of_def split: option.splits)
  show "ended b (taskDoneHandler t d b)" "ended b (taskErrorHandler t d b)"
    by (simp_all add: taskDoneHandler_def taskErrorHandler_def e)
  show "ended b (handleTaskTimeout cfg t b)"
    by (auto simp: handleTaskTimeout_def taskErrorHandler_def intro: ended_trans[OF ended_message(1) e]
        ended_trans[OF ended_message(2)] split: option.splits TaskRunnerMode.splits)
qed

lemma ended_runner_of: "getRunnerOrFailTask t b = (r, b') \<Longrightarrow> ended b b'"
  by (auto simp: getRunnerOrFailTask_def Let_def split: option.splits)

lemma ended_to_runner_of [simp, intro]: "ended b (to_runner_of t m b)"
  by (auto simp: to_runner_of_def intro: ended_trans[OF ended_runner_of] dest: ended_runner_of split: prod.splits sum.splits)

subsection \<open>Operations that move a process on\<close>

lemma ok_phase:
  assumes ok: "broker_ok ids b" and k: "k < length (bk_procs b)"
    and live: "ph \<noteq> GivenUp \<longleftrightarrow> live (bk_procs b ! k)"
    and taken: "taken_phase (ap_phase (bk_procs b ! k)) \<Longrightarrow> taken_phase ph"
    and entry: "unanswered ph \<or> (\<forall>t. map_of (bk_runnerAccepts b) t \<noteq> Some k)"
  shows "broker_ok ids (set_phase k ph b)"
proof -
  let ?b = "set_phase k ph b"
  have proc: "ap_taskId (bk_procs ?b ! i) = ap_taskId (bk_procs b ! i) \<and> ap_offer (bk_procs ?b ! i) = ap_offer (bk_procs b ! i) \<and>
      ap_request (bk_procs ?b ! i) = ap_request (bk_procs b ! i) \<and> live (bk_procs ?b ! i) = live (bk_procs b ! i) \<and>
      (taken_phase (ap_phase (bk_procs b ! i)) \<longrightarrow> taken_phase (ap_phase (bk_procs ?b ! i)))"
    if "i < length (bk_procs b)" for i
    using that k live taken by (cases "i = k") (auto simp: set_phase_def live_def)
  have same: "length (bk_procs ?b) = length (bk_procs b)" "bk_store ?b = bk_store b" "bk_tasks ?b = bk_tasks b"
    "bk_requests ?b = bk_requests b" "bk_runnerAccepts ?b = bk_runnerAccepts b" "bk_requesterAccepts ?b = bk_requesterAccepts b"
    by (simp_all add: set_phase_def)
  have un: "unanswered (ap_phase (bk_procs ?b ! i))" if "map_of (bk_runnerAccepts b) t = Some i" for i t
  proof (cases "i = k")
    case True
    with entry that k show ?thesis by (auto simp: set_phase_def)
  next
    case False
    with ok that k show ?thesis by (auto simp: set_phase_def broker_ok_def accepts_ok_def)
  qed
  have "task_of ids ?b i t task" if "task_of ids b i t task" for i t task
    using that proc[of i] by (auto simp: task_of_def same)
  then have "tasks_ok ids ?b" using ok unfolding tasks_ok_def broker_ok_def same by blast
  moreover have "procs_ok ids ?b" using ok proc unfolding broker_ok_def procs_ok_def same Let_def by metis
  moreover have "exclusive ?b" using ok proc unfolding broker_ok_def exclusive_def same by metis
  moreover have "accepts_ok ids ?b" using ok un unfolding broker_ok_def accepts_ok_def same by blast
  ultimately show ?thesis using ok by (simp add: broker_ok_def same)
qed

lemma settle_set_phase:
  "settle_runner r k b = (if ap_phase (bk_procs b ! k) = AwaitRunner None then set_phase k (AwaitRunner (Some r)) b else b)"
  "settle_requester q k b = (if ap_phase (bk_procs b ! k) = AwaitRequester None then set_phase k (AwaitRequester (Some q)) b else b)"
  by (simp_all add: settle_runner_def settle_requester_def set_phase_def split: Phase.splits option.splits)

lemma set_phase_fields [simp]:
  "bk_runnerAccepts (set_phase k ph b) = bk_runnerAccepts b" "bk_requesterAccepts (set_phase k ph b) = bk_requesterAccepts b"
  "bk_store (set_phase k ph b) = bk_store b" "bk_tasks (set_phase k ph b) = bk_tasks b" "bk_requests (set_phase k ph b) = bk_requests b"
  "length (bk_procs (set_phase k ph b)) = length (bk_procs b)"
  by (simp_all add: set_phase_def)

lemma set_phase_swap:
  "set_phase k ph (messageRequester q m b) = messageRequester q m (set_phase k ph b)"
  "set_phase k ph (messageRunner q m' b) = messageRunner q m' (set_phase k ph b)"
  "set_phase k ph (bk_emit e b) = bk_emit e (set_phase k ph b)"
  "set_phase k ph (b\<lparr>bk_tasks := ts\<rparr>) = (set_phase k ph b)\<lparr>bk_tasks := ts\<rparr>"
  "set_phase k ph (b\<lparr>bk_requests := rs\<rparr>) = (set_phase k ph b)\<lparr>bk_requests := rs\<rparr>"
  "set_phase k ph (b\<lparr>bk_requesterAccepts := ra\<rparr>) = (set_phase k ph b)\<lparr>bk_requesterAccepts := ra\<rparr>"
  by (simp_all add: set_phase_def messageRequester_def messageRunner_def bk_emit_def split: option.splits)

lemma ok_forget:
  assumes "broker_ok ids b"
  shows "broker_ok ids (b\<lparr>bk_runnerAccepts := js_del t (bk_runnerAccepts b)\<rparr>)"
    "broker_ok ids (b\<lparr>bk_requesterAccepts := js_del t (bk_requesterAccepts b)\<rparr>)"
  using assms
  by (simp_all add: broker_ok_def procs_ok_def exclusive_def accepts_ok_def tasks_ok_def task_of_def)

lemma ok_answer_runner: "broker_ok ids b \<Longrightarrow> broker_ok ids (answer_runner r t b)"
proof (cases "map_of (bk_runnerAccepts b) t")
  case (Some k)
  assume ok: "broker_ok ids b"
  let ?b = "b\<lparr>bk_runnerAccepts := js_del t (bk_runnerAccepts b)\<rparr>"
  have k: "k < length (bk_procs b)" "ids k = t" and all: "\<And>t' k'. map_of (bk_runnerAccepts b) t' = Some k' \<Longrightarrow> ids k' = t'"
    using ok Some by (auto simp: broker_ok_def accepts_ok_def)
  have gone: "\<forall>t'. map_of (bk_runnerAccepts ?b) t' \<noteq> Some k" using all k(2) by auto
  have eq: "answer_runner r t b = settle_runner r k ?b"
    by (simp add: answer_runner_def Some settle_set_phase set_phase_def)
  show ?thesis
    unfolding eq settle_set_phase using ok_forget(1)[OF ok, of t] k gone
    by (auto intro!: ok_phase simp: live_def)
qed (simp add: answer_runner_def)

lemma ok_timed_out: "broker_ok ids b \<Longrightarrow> k < length (bk_procs b) \<Longrightarrow> broker_ok ids (settle_runner RunnerTimedOut k b)"
  by (auto simp: settle_set_phase live_def unanswered_def intro!: ok_phase)

text \<open>Once the runner has accepted there is no entry to answer for it.\<close>

lemma no_entry:
  assumes "broker_ok ids b" "\<not> unanswered (ap_phase (bk_procs b ! k))"
  shows "\<forall>t. map_of (bk_runnerAccepts b) t \<noteq> Some k"
  using assms by (auto simp: broker_ok_def accepts_ok_def)

lemma ok_taken:
  assumes "broker_ok ids b" "k < length (bk_procs b)" "taken_phase (ap_phase (bk_procs b ! k))" "taken_phase ph"
  shows "broker_ok ids (set_phase k ph b)"
proof -
  have "\<not> unanswered (ap_phase (bk_procs b ! k))" "live (bk_procs b ! k)" "ph \<noteq> GivenUp"
    using assms(3,4) by (auto simp: unanswered_def live_def)
  with assms no_entry[OF assms(1)] show ?thesis by (intro ok_phase) auto
qed

lemma ok_settle_requester: "broker_ok ids b \<Longrightarrow> k < length (bk_procs b) \<Longrightarrow> broker_ok ids (settle_requester q k b)"
  by (auto simp: settle_set_phase intro!: ok_taken)

lemma ok_answer_requester: "broker_ok ids b \<Longrightarrow> broker_ok ids (answer_requester q t b)"
proof (cases "map_of (bk_requesterAccepts b) t")
  case (Some k)
  assume ok: "broker_ok ids b"
  then have "k < length (bk_procs b)" using Some by (auto simp: broker_ok_def accepts_ok_def)
  from ok_forget(2)[OF ok_settle_requester[OF ok this, of q], of t] show ?thesis
    by (simp add: answer_requester_def Some settle_set_phase split: if_splits)
qed (simp add: answer_requester_def)

lemma ok_runner_declined:
  assumes ok: "broker_ok ids b" and k: "k < length (bk_procs b)" and ph: "ap_phase (bk_procs b ! k) = AwaitRunner (Some out)"
  shows "broker_ok ids (runner_declined k out b)"
proof -
  let ?r = "ap_request (bk_procs b ! k)"
  let ?b = "set_phase k GivenUp (b\<lparr>bk_store := (bk_store b)[?r := (bk_store b ! ?r)\<lparr>rq_acceptInProgress := False\<rparr>]\<rparr>)"
  have r: "?r < length (bk_store b)" using ok k by (auto simp: broker_ok_def procs_ok_def Let_def)
  have proc: "bk_procs ?b ! i = (if i = k then (bk_procs b ! k)\<lparr>ap_phase := GivenUp\<rparr> else bk_procs b ! i)"
    if "i < length (bk_procs b)" for i using that k by (simp add: set_phase_def)
  have other: "live (bk_procs b ! i) \<Longrightarrow> i \<noteq> k \<Longrightarrow> i < length (bk_procs b) \<Longrightarrow> ap_request (bk_procs b ! i) \<noteq> ?r" for i
    using ok k ph by (auto simp: broker_ok_def exclusive_def live_def)
  have store: "bk_store ?b ! s = (if s = ?r then (bk_store b ! ?r)\<lparr>rq_acceptInProgress := False\<rparr> else bk_store b ! s)" for s
    using r by (cases "s < length (bk_store b)") (auto simp: nth_list_update)
  have "procs_ok ids ?b"
    using ok other proc store by (auto simp: broker_ok_def procs_ok_def Let_def live_def)
  moreover have "exclusive ?b" using ok proc by (auto simp: broker_ok_def exclusive_def live_def)
  moreover have "accepts_ok ids ?b" using ok proc by (auto simp: broker_ok_def accepts_ok_def unanswered_def)
  moreover have "task_of ids ?b i t task" if "task_of ids b i t task" for i t task
    using that proc[of i] store ph by (auto simp: task_of_def)
  then have "tasks_ok ids ?b" using ok by (simp add: broker_ok_def tasks_ok_def) blast
  moreover have "\<forall>s \<in> set (bk_requests ?b). s < length (bk_store ?b)" using ok by (simp add: broker_ok_def)
  ultimately have "broker_ok ids ?b" by (simp add: broker_ok_def)
  moreover have "broker_ok ids (?b\<lparr>bk_requests := bk_requests ?b @ [?r]\<rparr>)"
    using \<open>broker_ok ids ?b\<close> r
    by (simp add: broker_ok_def procs_ok_def exclusive_def accepts_ok_def tasks_ok_def task_of_def)
  ultimately show ?thesis by (simp add: runner_declined_def Let_def)
qed

lemma ok_put_task:
  assumes "broker_ok ids b" "task_of ids b k t task"
  shows "broker_ok ids (b\<lparr>bk_tasks := js_put t task (bk_tasks b)\<rparr>)"
proof -
  have "task_of ids (b\<lparr>bk_tasks := ts\<rparr>) = task_of ids b" for ts by (simp add: task_of_def fun_eq_iff)
  with assms show ?thesis
    by (auto simp: broker_ok_def procs_ok_def exclusive_def accepts_ok_def tasks_ok_def js_wf_put)
qed

lemma ok_lists:
  assumes "broker_ok ids b"
  shows "set rs \<subseteq> {..< length (bk_store b)} \<Longrightarrow> broker_ok ids (b\<lparr>bk_requests := rs\<rparr>)"
    "k < length (bk_procs b) \<Longrightarrow> ids k = t \<Longrightarrow> broker_ok ids (b\<lparr>bk_requesterAccepts := js_put t k (bk_requesterAccepts b)\<rparr>)"
    "broker_ok ids (b\<lparr>bk_offers := os\<rparr>)" "broker_ok ids (b\<lparr>bk_runners := ns\<rparr>)" "broker_ok ids (b\<lparr>bk_requesters := qs\<rparr>)"
    "broker_ok ids (b\<lparr>bk_jobs := js\<rparr>)"
  using assms by (auto simp: broker_ok_def procs_ok_def exclusive_def accepts_ok_def tasks_ok_def task_of_def)

lemma ok_runner_accepted:
  assumes ok: "broker_ok ids b" and k: "k < length (bk_procs b)"
    and ph: "ap_phase (bk_procs b ! k) = AwaitRunner (Some RunnerAccepted)"
  shows "broker_ok ids (runner_accepted k b)"
proof -
  define p where "p = bk_procs b ! k"
  define request where "request = bk_store b ! ap_request p"
  define task where "task = \<lparr>tk_id = ap_taskId p, tk_runnerId = of_runnerId (ap_offer p), tk_requesterId = rq_requesterId request,
    tk_taskType = of_taskType (ap_offer p), tk_timeout = False\<rparr>"
  have tid: "ap_taskId p = ids k" using ok k by (auto simp: p_def broker_ok_def procs_ok_def Let_def)
  have phase: "broker_ok ids (set_phase k ph b)" if "taken_phase ph" for ph
  proof (rule ok_phase[OF ok k])
    show "unanswered ph \<or> (\<forall>t. map_of (bk_runnerAccepts b) t \<noteq> Some k)"
      using no_entry[OF ok, of k] ph by (simp add: unanswered_def)
  qed (use that ph in \<open>auto simp: live_def\<close>)
  have put: "broker_ok ids ((set_phase k ph b)\<lparr>bk_tasks := js_put (ids k) task (bk_tasks b)\<rparr>)" if "taken_phase ph" for ph
  proof -
    have "task_of ids (set_phase k ph b) k (ids k) task"
      using k that tid by (simp add: task_of_def task_def set_phase_def p_def request_def)
    from ok_put_task[OF phase[OF that] this] show ?thesis by simp
  qed
  show ?thesis
  proof (cases "findIndex (\<lambda>r. rq_requestId (bk_store b ! r) = rq_requestId request) (bk_requests b)")
    case None
    then have "runner_accepted k b = bk_emit (RequestNotFound (rq_requestId request))
        ((set_phase k Finished b)\<lparr>bk_tasks := js_put (ids k) task (bk_tasks b)\<rparr>)"
      by (simp add: runner_accepted_def Let_def request_def[unfolded p_def, symmetric] set_phase_swap tid[unfolded p_def]
          task_def p_def del: findIndex_None)
    with ended_ok[OF ended_message(1) put[of Finished]] show ?thesis by simp
  next
    case (Some i)
    let ?b = "(set_phase k (AwaitRequester None) b)\<lparr>bk_tasks := js_put (ids k) task (bk_tasks b),
        bk_requests := splice1 i (bk_requests b), bk_requesterAccepts := js_put (ids k) k (bk_requesterAccepts b)\<rparr>"
    have "runner_accepted k b = messageRequester (rq_requesterId request) (ToRequester_TaskReady (rq_requestId request) (ids k)) ?b"
      using Some by (simp add: runner_accepted_def Let_def request_def[unfolded p_def, symmetric] set_phase_swap tid[unfolded p_def]
          task_def p_def)
    moreover have "set (splice1 i (bk_requests b)) \<subseteq> {..< length (bk_store b)}"
      using ok splice1_subset[of i "bk_requests b"] by (auto simp: broker_ok_def)
    then have "broker_ok ids ?b"
      using ok_lists(2)[OF ok_lists(1)[OF put[of "AwaitRequester None"], of "splice1 i (bk_requests b)"], of k "ids k"] k by simp
    ultimately show ?thesis using ended_ok[OF ended_message(3)] by simp
  qed
qed

lemma ok_requester_failed: "broker_ok ids b \<Longrightarrow> k < length (bk_procs b) \<Longrightarrow> taken_phase (ap_phase (bk_procs b ! k)) \<Longrightarrow>
    broker_ok ids (requester_failed k e b)"
proof -
  assume ok: "broker_ok ids b" and k: "k < length (bk_procs b)" "taken_phase (ap_phase (bk_procs b ! k))"
  let ?b = "cancelTask (ap_taskId (bk_procs b ! k)) ''Unknown reason'' b"
  have e: "ended b ?b" by (rule ended_tasks)
  then have "bk_procs ?b = bk_procs b" by (simp add: ended_def)
  with ok_taken[OF ended_ok[OF e ok], of k Finished] k have "broker_ok ids (set_phase k Finished ?b)" by simp
  then show ?thesis unfolding requester_failed_def by (rule ended_ok[OF ended_message(1)])
qed

lemma ok_requester_accepted:
  assumes ok: "broker_ok ids b" and k: "k < length (bk_procs b)" "taken_phase (ap_phase (bk_procs b ! k))"
  shows "broker_ok ids (requester_accepted k s b)"
proof -
  obtain r b' where g: "getRunnerOrFailTask (ap_taskId (bk_procs b ! k)) b = (r, b')" by fastforce
  then have e: "ended b b'" by (rule ended_runner_of)
  then have same: "bk_procs b' = bk_procs b" by (simp add: ended_def)
  have ok': "broker_ok ids b'" by (rule ended_ok[OF e ok])
  show ?thesis
    using ok_requester_failed[OF ok', of k] ok_taken[OF ok', of k] k
    by (simp add: requester_accepted_def g same split: sum.split)
qed

lemma ok_send_settings:
  assumes ok: "broker_ok ids b" and k: "k < length (bk_procs b)" "taken_phase (ap_phase (bk_procs b ! k))"
  shows "broker_ok ids (send_settings k r s b)"
proof -
  let ?t = "ap_taskId (bk_procs b ! k)"
  show ?thesis
  proof (cases "map_of (bk_tasks b) ?t")
    case None
    then show ?thesis using ok_taken[OF ok k] by (simp add: send_settings_def)
  next
    case (Some task)
    let ?b = "messageRunner r (ToRunner_TaskSettings ?t s) (b\<lparr>bk_tasks := js_put ?t (task\<lparr>tk_timeout := True\<rparr>) (bk_tasks b)\<rparr>)"
    have e: "ended b ?b" by (rule ended_trans[OF ended_timeout[OF Some] ended_message(2)])
    then have "bk_procs ?b = bk_procs b" by (simp add: ended_def)
    with ok_taken[OF ended_ok[OF e ok], of k Finished] k Some show ?thesis by (simp add: send_settings_def Let_def)
  qed
qed

lemma ok_resume: "broker_ok ids b \<Longrightarrow> k < length (bk_procs b) \<Longrightarrow> broker_ok ids (resume k b)"
proof -
  assume ok: "broker_ok ids b" and k: "k < length (bk_procs b)"
  have rejected: "broker_ok ids (set_phase k Finished (cancelTask (ap_taskId (bk_procs b ! k)) r b))"
    if "taken_phase (ap_phase (bk_procs b ! k))" for r
  proof -
    have e: "ended b (cancelTask (ap_taskId (bk_procs b ! k)) r b)" by (rule ended_tasks)
    then have "bk_procs (cancelTask (ap_taskId (bk_procs b ! k)) r b) = bk_procs b" by (simp add: ended_def)
    with ok_taken[OF ended_ok[OF e ok], of k Finished] k that show ?thesis by simp
  qed
  show ?thesis
    using ok k rejected
    by (auto simp: resume_def ok_runner_accepted ok_runner_declined ok_requester_accepted ok_requester_failed ok_send_settings
        split: Phase.split option.split RunnerOutcome.split RequesterOutcome.split)
qed

subsection \<open>Matching\<close>

lemma acceptOffer_fields:
  "bk_procs (acceptOffer ids offer r b) = bk_procs b @ [\<lparr>ap_taskId = ids (length (bk_procs b)), ap_offer = offer, ap_request = r, ap_phase = AwaitRunner None\<rparr>]"
  "bk_store (acceptOffer ids offer r b) = bk_store b" "bk_offers (acceptOffer ids offer r b) = bk_offers b"
  "bk_requests (acceptOffer ids offer r b) = bk_requests b" "bk_tasks (acceptOffer ids offer r b) = bk_tasks b"
  "bk_runnerAccepts (acceptOffer ids offer r b) = js_put (ids (length (bk_procs b))) (length (bk_procs b)) (bk_runnerAccepts b)"
  "bk_requesterAccepts (acceptOffer ids offer r b) = bk_requesterAccepts b"
  by (simp_all add: acceptOffer_def messageRunner_def bk_emit_def Let_def split: option.splits)

lemma settle_request_cases:
  obtains (keep) "settle_request ids r b = b" "rq_acceptInProgress (bk_store b ! r) \<or>
      (\<forall>offer \<in> set (bk_offers b). of_taskType offer \<noteq> rq_taskType (bk_store b ! r))"
  | (accept) i where "\<not> rq_acceptInProgress (bk_store b ! r)" "i < length (bk_offers b)"
      "of_taskType (bk_offers b ! i) = rq_taskType (bk_store b ! r)"
      "settle_request ids r b = acceptOffer ids (bk_offers b ! i) r
          (b\<lparr>bk_store := (bk_store b)[r := (bk_store b ! r)\<lparr>rq_acceptInProgress := True\<rparr>], bk_offers := splice1 i (bk_offers b)\<rparr>)"
proof (cases "rq_acceptInProgress (bk_store b ! r)")
  case False
  show thesis
  proof (cases "findIndex (\<lambda>offer. of_taskType offer = rq_taskType (bk_store b ! r)) (bk_offers b)")
    case None
    with False keep show thesis by (simp add: settle_request_def)
  next
    case (Some i)
    with False findIndex_SomeD[OF Some] accept[of i] show thesis by (simp add: settle_request_def)
  qed
qed (use keep in \<open>simp add: settle_request_def\<close>)

lemma ok_settle_request:
  assumes ok: "broker_ok ids b" and r: "r < length (bk_store b)"
  shows "broker_ok ids (settle_request ids r b)"
proof (cases rule: settle_request_cases[of ids r b])
  case (accept i)
  let ?b = "settle_request ids r b" and ?n = "length (bk_procs b)"
  have fields: "bk_procs ?b = bk_procs b @ [\<lparr>ap_taskId = ids ?n, ap_offer = bk_offers b ! i, ap_request = r, ap_phase = AwaitRunner None\<rparr>]"
    "bk_store ?b = (bk_store b)[r := (bk_store b ! r)\<lparr>rq_acceptInProgress := True\<rparr>]" "bk_tasks ?b = bk_tasks b"
    "bk_runnerAccepts ?b = js_put (ids ?n) ?n (bk_runnerAccepts b)" "bk_requesterAccepts ?b = bk_requesterAccepts b"
    "bk_requests ?b = bk_requests b"
    unfolding accept(4) by (simp_all add: acceptOffer_fields)
  have store: "bk_store ?b ! s = (if s = r then (bk_store b ! r)\<lparr>rq_acceptInProgress := True\<rparr> else bk_store b ! s)" for s
    unfolding fields by (cases "s < length (bk_store b)") (use r in \<open>auto simp: nth_list_update\<close>)
  have free: "k < ?n \<Longrightarrow> live (bk_procs b ! k) \<Longrightarrow> ap_request (bk_procs b ! k) \<noteq> r" for k
    using ok accept(1) by (auto simp: broker_ok_def procs_ok_def Let_def)
  have len: "length (bk_store ?b) = length (bk_store b)" "length (bk_procs ?b) = Suc ?n" by (simp_all add: fields)
  have proc: "bk_procs ?b ! k = (if k = ?n then \<lparr>ap_taskId = ids ?n, ap_offer = bk_offers b ! i, ap_request = r, ap_phase = AwaitRunner None\<rparr>
      else bk_procs b ! k)" if "k < Suc ?n" for k using that by (auto simp: fields nth_append)
  have "procs_ok ids ?b"
    unfolding procs_ok_def len using ok r accept(3) proc store by (auto simp: broker_ok_def procs_ok_def Let_def less_Suc_eq)
  moreover have "exclusive ?b"
    unfolding exclusive_def len using ok free proc by (auto simp: broker_ok_def exclusive_def less_Suc_eq)
  moreover have "accepts_ok ids ?b"
    unfolding accepts_ok_def len using ok proc by (auto simp: broker_ok_def accepts_ok_def fields unanswered_def less_Suc_eq)
  moreover have "task_of ids ?b k t task" if "task_of ids b k t task" for k t task
    using that proc[of k] store by (auto simp: task_of_def len)
  then have "tasks_ok ids ?b" using ok by (simp add: broker_ok_def tasks_ok_def fields(3)) blast
  ultimately show ?thesis using ok by (simp add: broker_ok_def fields(6) len)
qed (use ok in simp)

lemma settle_request_length [simp]: "length (bk_store (settle_request ids r b)) = length (bk_store b)"
  by (cases rule: settle_request_cases[of ids r b]) (simp_all add: acceptOffer_fields)

lemma ok_settle_all: "broker_ok ids b \<Longrightarrow> set rs \<subseteq> {..< length (bk_store b)} \<Longrightarrow> broker_ok ids (fold (settle_request ids) rs b)"
  by (induction rs arbitrary: b) (simp_all add: ok_settle_request)

lemma ok_settleTasks: "broker_ok ids b \<Longrightarrow> broker_ok ids (settleTasks ids now b)"
  unfolding settleTasks_def expireTasks_def Let_def
  by (rule ok_settle_all) (auto simp: ok_lists(3), auto simp: broker_ok_def)

lemma ok_taskRequested:
  assumes ok: "broker_ok ids b"
  shows "broker_ok ids (taskRequested ids now request b)"
proof -
  let ?b = "b\<lparr>bk_requests := bk_requests b @ [length (bk_store b)], bk_store := bk_store b @ [request]\<rparr>"
  have nth: "r < length (bk_store b) \<Longrightarrow> bk_store ?b ! r = bk_store b ! r" for r by (simp add: nth_append)
  have procs: "k < length (bk_procs b) \<Longrightarrow> ap_request (bk_procs b ! k) < length (bk_store b)" for k
    using ok by (auto simp: broker_ok_def procs_ok_def Let_def)
  have "procs_ok ids ?b" using ok by (auto simp: broker_ok_def procs_ok_def Let_def nth_append)
  moreover have "task_of ids b k t task \<Longrightarrow> task_of ids ?b k t task" for k t task
    using procs by (auto simp: task_of_def nth_append)
  then have "tasks_ok ids ?b" using ok by (simp add: broker_ok_def tasks_ok_def) blast
  ultimately have "broker_ok ids ?b" using ok by (auto simp: broker_ok_def exclusive_def accepts_ok_def)
  then show ?thesis unfolding taskRequested_def by (rule ok_settleTasks)
qed

lemma ok_taskOffered: "broker_ok ids b \<Longrightarrow> broker_ok ids (taskOffered ids now offer b)"
  unfolding taskOffered_def by (intro ok_settleTasks ok_lists(3))

lemma ok_deregisterRunner: "broker_ok ids b \<Longrightarrow> broker_ok ids (deregisterRunner r e b)"
proof -
  have fold: "broker_ok ids b \<Longrightarrow> broker_ok ids (fold (\<lambda>task b. if tk_runnerId task = r
      then handleRunnerReject (tk_id task) m (failTask (tk_id task) e b) else b) ts b)" for m ts b
    by (induction ts arbitrary: b) (auto simp: handleRunnerReject_def intro: ok_answer_runner ended_ok[OF ended_tasks(2)])
  show "broker_ok ids b \<Longrightarrow> broker_ok ids (deregisterRunner r e b)"
    unfolding deregisterRunner_def Let_def by (intro fold ok_lists(3,4)) 
qed

lemma ok_run_job: "broker_ok ids b \<Longrightarrow> broker_ok ids (run_job cfg j b)"
proof -
  assume "broker_ok ids b"
  then have ok: "broker_ok ids (b\<lparr>bk_jobs := splice1 j (bk_jobs b)\<rparr>)" by (rule ok_lists(6))
  show ?thesis
    using ended_ok[OF ended_del ok] ended_ok[OF ended_tasks(6) ok] ended_ok[OF ended_message(2) ok]
    by (simp add: run_job_def Let_def split: Job.split)
qed

lemma ok_timeout: "broker_ok ids b \<Longrightarrow> map_of (bk_tasks b) t = Some task \<Longrightarrow>
    broker_ok ids (handleTaskTimeout cfg t (b\<lparr>bk_tasks := js_put t (task\<lparr>tk_timeout := False\<rparr>) (bk_tasks b)\<rparr>))"
  by (rule ended_ok[OF ended_tasks(7)]) (rule ended_ok[OF ended_timeout])

lemma ok_onRunnerMessage: "broker_ok ids b \<Longrightarrow> broker_ok ids (onRunnerMessage ids now later r m b)"
  by (auto simp: onRunnerMessage_def handleRunnerAccept_def handleRunnerReject_def handleRunnerDeferred_def handleDataRequest_def
      handleNodeTypesRequest_def handleRpcRequest_def ok_answer_runner ok_taskOffered intro: ended_ok[OF ended_tasks(4)]
      ended_ok[OF ended_tasks(5)] ended_ok[OF ended_tasks(6)] split: option.split RunnerMessage.split)

lemma ok_onRequesterMessage: "broker_ok ids b \<Longrightarrow> broker_ok ids (onRequesterMessage ids now q m b)"
  by (cases m) (auto simp: handleRequesterAccept_def handleRequesterDataResponse_def handleRequesterNodeTypesResponse_def
      handleRequesterRpcResponse_def ok_answer_requester ok_taskRequested intro: ended_ok[OF ended_tasks(1)] ended_ok[OF ended_to_runner_of])

lemma ok_step: "broker_ok ids b \<Longrightarrow> broker_ok ids (broker_step cfg ids e b)"
  by (cases e) (auto simp: registerRunner_def registerRequester_def deregisterRequester_def ok_deregisterRunner ok_onRunnerMessage
      ok_onRequesterMessage handleRequesterReject_def ok_answer_requester ok_timed_out ok_settle_requester ok_timeout ok_resume ok_run_job
      ok_lists intro!: ended_ok[OF ended_message(1)] split: option.split)

lemma ok_run: "broker_ok ids b \<Longrightarrow> broker_ok ids (broker_run cfg ids es b)"
  unfolding broker_run_def by (induction es arbitrary: b) (simp_all add: ok_step)

section \<open>Properties\<close>

text \<open>
  C30: In every state the broker can come to, whatever messages, timeouts, disconnections and
  continuations come in whatever order: no request is being offered to, or has been accepted by, two
  runners; and every task belongs to an acceptance by its runner, of an offer with the type the
  request asked for, and names the requester of that request.
\<close>

theorem broker_exclusive:
  assumes "b = broker_run cfg ids es empty_broker"
  shows "(\<forall>j < length (bk_procs b). \<forall>k < length (bk_procs b).
       live (bk_procs b ! j) \<and> live (bk_procs b ! k) \<and> ap_request (bk_procs b ! j) = ap_request (bk_procs b ! k) \<longrightarrow> j = k) \<and>
     (\<forall>t task. map_of (bk_tasks b) t = Some task \<longrightarrow>
       (\<exists>p \<in> set (bk_procs b). ap_taskId p = t \<and> taken_phase (ap_phase p) \<and> tk_runnerId task = of_runnerId (ap_offer p) \<and>
          tk_requesterId task = rq_requesterId (bk_store b ! ap_request p) \<and>
          tk_taskType task = rq_taskType (bk_store b ! ap_request p)))"
proof -
  have ok: "broker_ok ids b" unfolding assms by (rule ok_run[OF broker_ok_empty])
  have "\<exists>p \<in> set (bk_procs b). ap_taskId p = t \<and> taken_phase (ap_phase p) \<and> tk_runnerId task = of_runnerId (ap_offer p) \<and>
      tk_requesterId task = rq_requesterId (bk_store b ! ap_request p) \<and> tk_taskType task = rq_taskType (bk_store b ! ap_request p)"
    if "map_of (bk_tasks b) t = Some task" for t task
  proof -
    from ok that obtain k where k: "task_of ids b k t task" unfolding broker_ok_def tasks_ok_def by blast
    with ok show ?thesis
      by (intro bexI[of _ "bk_procs b ! k"]) (auto simp: task_of_def broker_ok_def procs_ok_def Let_def)
  qed
  with ok show ?thesis unfolding broker_ok_def exclusive_def by blast
qed

text \<open>
  What \<open>settleTasks\<close> leaves: the offers that are valid, less one for each new acceptance; what it may
  not leave is a request and an offer that match.
\<close>

definition valid_offer :: "int \<Rightarrow> TaskOffer \<Rightarrow> bool" where
  "valid_offer now offer \<longleftrightarrow> of_validFor offer = -1 \<or> now \<le> of_validUntil offer"

definition matched :: "TaskBroker \<Rightarrow> AcceptProcess \<Rightarrow> bool" where
  "matched b p \<longleftrightarrow> ap_phase p = AwaitRunner None \<and> of_taskType (ap_offer p) = rq_taskType (bk_store b ! ap_request p)"

definition no_match :: "TaskBroker \<Rightarrow> nat \<Rightarrow> bool" where
  "no_match b r \<longleftrightarrow> rq_acceptInProgress (bk_store b ! r) \<or>
     (\<forall>offer \<in> set (bk_offers b). of_taskType offer \<noteq> rq_taskType (bk_store b ! r))"

lemma settle_request_dealt:
  assumes r: "r < length (bk_store b)"
  obtains new where "bk_procs (settle_request ids r b) = bk_procs b @ new" "\<forall>p \<in> set new. matched (settle_request ids r b) p"
    "mset (bk_offers (settle_request ids r b)) + mset (map ap_offer new) = mset (bk_offers b)"
    "no_match (settle_request ids r b) r" "\<And>s. no_match b s \<Longrightarrow> no_match (settle_request ids r b) s"
    "\<And>p. matched b p \<Longrightarrow> matched (settle_request ids r b) p"
proof (cases rule: settle_request_cases[of ids r b])
  case keep
  with that[of "[]"] show thesis by (auto simp: no_match_def)
next
  case (accept i)
  let ?b = "settle_request ids r b"
  have fields: "bk_procs ?b = bk_procs b @ [\<lparr>ap_taskId = ids (length (bk_procs b)), ap_offer = bk_offers b ! i, ap_request = r, ap_phase = AwaitRunner None\<rparr>]"
    "bk_store ?b = (bk_store b)[r := (bk_store b ! r)\<lparr>rq_acceptInProgress := True\<rparr>]" "bk_offers ?b = splice1 i (bk_offers b)"
    unfolding accept(4) by (simp_all add: acceptOffer_fields)
  have store: "bk_store ?b ! s = (if s = r then (bk_store b ! r)\<lparr>rq_acceptInProgress := True\<rparr> else bk_store b ! s)" for s
    unfolding fields by (cases "s < length (bk_store b)") (use r in \<open>auto simp: nth_list_update\<close>)
  have offers: "set (bk_offers ?b) \<subseteq> set (bk_offers b)" using splice1_subset fields(3) by metis
  show thesis
  proof (rule that[OF fields(1)])
    show "mset (bk_offers ?b) + mset (map ap_offer [\<lparr>ap_taskId = ids (length (bk_procs b)), ap_offer = bk_offers b ! i, ap_request = r, ap_phase = AwaitRunner None\<rparr>]) = mset (bk_offers b)"
      using splice1_mset[OF accept(2)] fields(3) by simp
  qed (use accept(3) store offers in \<open>auto simp: matched_def no_match_def\<close>)
qed

lemma settle_all_dealt:
  assumes "set rs \<subseteq> {..< length (bk_store b)}"
  shows "\<exists>new. bk_procs (fold (settle_request ids) rs b) = bk_procs b @ new \<and> (\<forall>p \<in> set new. matched (fold (settle_request ids) rs b) p) \<and>
    mset (bk_offers (fold (settle_request ids) rs b)) + mset (map ap_offer new) = mset (bk_offers b) \<and>
    (\<forall>r \<in> set rs. no_match (fold (settle_request ids) rs b) r) \<and>
    (\<forall>s. no_match b s \<longrightarrow> no_match (fold (settle_request ids) rs b) s) \<and>
    (\<forall>p. matched b p \<longrightarrow> matched (fold (settle_request ids) rs b) p)"
  using assms
proof (induction rs arbitrary: b)
  case (Cons r rs)
  let ?b = "settle_request ids r b"
  obtain new where new: "bk_procs ?b = bk_procs b @ new" "\<forall>p \<in> set new. matched ?b p"
    "mset (bk_offers ?b) + mset (map ap_offer new) = mset (bk_offers b)"
    "no_match ?b r" "\<And>s. no_match b s \<Longrightarrow> no_match ?b s" "\<And>p. matched b p \<Longrightarrow> matched ?b p"
    using Cons.prems by (auto intro: settle_request_dealt[of r b ids])
  from Cons.prems have "set rs \<subseteq> {..< length (bk_store ?b)}" by simp
  from Cons.IH[OF this] obtain more where more: "bk_procs (fold (settle_request ids) rs ?b) = bk_procs ?b @ more"
    "\<forall>p \<in> set more. matched (fold (settle_request ids) rs ?b) p"
    "mset (bk_offers (fold (settle_request ids) rs ?b)) + mset (map ap_offer more) = mset (bk_offers ?b)"
    "\<forall>r \<in> set rs. no_match (fold (settle_request ids) rs ?b) r"
    "\<forall>s. no_match ?b s \<longrightarrow> no_match (fold (settle_request ids) rs ?b) s"
    "\<forall>p. matched ?b p \<longrightarrow> matched (fold (settle_request ids) rs ?b) p" by blast
  have "mset (bk_offers (fold (settle_request ids) rs ?b)) + mset (map ap_offer (new @ more)) = mset (bk_offers b)"
    by (simp add: new(3)[symmetric] more(3)[symmetric] ac_simps)
  with new more show ?case by (intro exI[of _ "new @ more"]) auto
qed simp

text \<open>
  After \<open>settleTasks\<close> no expired offer is left, and no waiting request and offer of the same type;
  the offers that are gone are exactly those the new acceptances have, each of the type its request
  asks for.
\<close>

theorem settleTasks_exact:
  assumes "\<forall>r \<in> set (bk_requests b). r < length (bk_store b)" and "b' = settleTasks ids now b"
  shows "(\<forall>offer \<in> set (bk_offers b'). valid_offer now offer) \<and>
    (\<forall>r \<in> set (bk_requests b). no_match b' r) \<and>
    (\<exists>new. bk_procs b' = bk_procs b @ new \<and> (\<forall>p \<in> set new. matched b' p) \<and>
       mset (bk_offers b') + mset (map ap_offer new) = filter_mset (valid_offer now) (mset (bk_offers b)))"
proof -
  let ?b = "expireTasks now b"
  have same: "bk_requests ?b = bk_requests b" "bk_procs ?b = bk_procs b" "bk_store ?b = bk_store b"
    "mset (bk_offers ?b) = filter_mset (valid_offer now) (mset (bk_offers b))"
    by (simp_all add: expireTasks_def valid_offer_def[abs_def] not_less)
  have "set (bk_requests b) \<subseteq> {..< length (bk_store ?b)}" using assms(1) same(3) by auto
  from settle_all_dealt[OF this, of ids] obtain new where new: "bk_procs b' = bk_procs b @ new" "\<forall>p \<in> set new. matched b' p"
    "mset (bk_offers b') + mset (map ap_offer new) = mset (bk_offers ?b)" "\<forall>r \<in> set (bk_requests b). no_match b' r"
    by (auto simp: assms(2) settleTasks_def Let_def same)
  have "set (bk_offers b') \<subseteq> set (bk_offers ?b)" using new(3) by (metis mset_subset_eq_add_left set_mset_mono set_mset_mset)
  then have "\<forall>offer \<in> set (bk_offers b'). valid_offer now offer"
    by (auto simp: expireTasks_def valid_offer_def not_less)
  with new same(4) show ?thesis by auto
qed

subsection \<open>A runner disconnects\<close>

definition error_messages :: "TaskBroker \<Rightarrow> string \<Rightarrow> string \<Rightarrow> Task list \<Rightarrow> BrokerEffect list" where
  "error_messages b rid e ts = [MessageRequester (tk_requesterId task) (ToRequester_TaskError (tk_id task) e).
     task \<leftarrow> ts, tk_runnerId task = rid \<and> tk_requesterId task \<in> set (bk_requesters b)]"

lemma fail_tasks_of_runner:
  assumes "distinct (map tk_id ts)" "\<forall>task \<in> set ts. map_of (bk_tasks b) (tk_id task) = Some task"
    "\<forall>task \<in> set ts. map_of (bk_runnerAccepts b) (tk_id task) = None"
  shows "fold (\<lambda>task b. if tk_runnerId task = rid then handleRunnerReject (tk_id task) m (failTask (tk_id task) e b) else b) ts b =
    b\<lparr>bk_tasks := filter (\<lambda>(t, _). \<forall>task \<in> set ts. tk_runnerId task = rid \<longrightarrow> tk_id task \<noteq> t) (bk_tasks b),
      bk_log := bk_log b @ error_messages b rid e ts\<rparr>"
  using assms
proof (induction ts arbitrary: b)
  case Nil
  then show ?case by (simp add: error_messages_def)
next
  case (Cons task ts)
  let ?es = "if tk_requesterId task \<in> set (bk_requesters b) then [MessageRequester (tk_requesterId task) (ToRequester_TaskError (tk_id task) e)] else []"
  let ?b = "if tk_runnerId task = rid then b\<lparr>bk_tasks := js_del (tk_id task) (bk_tasks b), bk_log := bk_log b @ ?es\<rparr> else b"
  have step: "(if tk_runnerId task = rid then handleRunnerReject (tk_id task) m (failTask (tk_id task) e b) else b) = ?b"
    using Cons.prems by (simp add: handleRunnerReject_def answer_runner_def failTask_def messageRequester_def bk_emit_def)
  have "distinct (map tk_id ts)" "\<forall>task \<in> set ts. map_of (bk_tasks ?b) (tk_id task) = Some task"
    "\<forall>task \<in> set ts. map_of (bk_runnerAccepts ?b) (tk_id task) = None"
  proof -
    have "\<forall>task' \<in> set ts. tk_id task' \<noteq> tk_id task"
      using Cons.prems(1) by (simp add: image_iff) metis
    then show "\<forall>task \<in> set ts. map_of (bk_tasks ?b) (tk_id task) = Some task" using Cons.prems(2) by simp
  qed (use Cons.prems in simp_all)
  from Cons.IH[OF this] have ih: "fold (\<lambda>task b. if tk_runnerId task = rid then handleRunnerReject (tk_id task) m (failTask (tk_id task) e b) else b) ts ?b =
    ?b\<lparr>bk_tasks := filter (\<lambda>(t, _). \<forall>task \<in> set ts. tk_runnerId task = rid \<longrightarrow> tk_id task \<noteq> t) (bk_tasks ?b),
      bk_log := bk_log ?b @ error_messages ?b rid e ts\<rparr>" .
  have tasks: "filter (\<lambda>(t, _). \<forall>task \<in> set ts. tk_runnerId task = rid \<longrightarrow> tk_id task \<noteq> t) (bk_tasks ?b) =
      filter (\<lambda>(t, _). \<forall>task \<in> set (task # ts). tk_runnerId task = rid \<longrightarrow> tk_id task \<noteq> t) (bk_tasks b)"
    by (cases "tk_runnerId task = rid") (auto simp: js_del_def case_prod_unfold intro!: filter_cong)
  have log: "bk_log ?b @ error_messages ?b rid e ts = bk_log b @ error_messages b rid e (task # ts)"
    by (simp add: error_messages_def)
  have "?b\<lparr>bk_tasks := T, bk_log := L\<rparr> = b\<lparr>bk_tasks := T, bk_log := L\<rparr>" for T L by simp
  then show ?case unfolding fold_simps step ih tasks log .
qed

text \<open>
  When a runner disconnects, it and its offers are forgotten, all its tasks and no others are
  deleted, and the requester of each is told, if it is still there. Acceptances in progress are not
  told: the rejection meant for them looks for tasks, which exist only once the runner has accepted.
\<close>

theorem deregisterRunner_exact:
  assumes "inj ids" and "b = broker_run cfg ids es empty_broker" and "b' = deregisterRunner rid e b"
  shows "map_of (bk_runners b') = (map_of (bk_runners b))(rid := None) \<and>
    bk_offers b' = filter (\<lambda>offer. of_runnerId offer \<noteq> rid) (bk_offers b) \<and>
    bk_tasks b' = filter (\<lambda>(t, task). tk_runnerId task \<noteq> rid) (bk_tasks b) \<and>
    bk_log b' = bk_log b @ error_messages b rid e (js_values (bk_tasks b)) \<and>
    bk_procs b' = bk_procs b"
proof -
  have ok: "broker_ok ids b" unfolding assms(2) by (rule ok_run[OF broker_ok_empty])
  then have "js_wf (bk_tasks b)" by (simp add: broker_ok_def tasks_ok_def)
  then have get: "map_of (bk_tasks b) t = Some task \<longleftrightarrow> (t, task) \<in> set (bk_tasks b)" for t task by (rule js_get_iff)
  have task: "tk_id task = t \<and> map_of (bk_runnerAccepts b) t = None" if t: "(t, task) \<in> set (bk_tasks b)" for t task
  proof -
    from ok t get obtain k where k: "task_of ids b k t task" unfolding broker_ok_def tasks_ok_def by blast
    have "\<not> unanswered (ap_phase (bk_procs b ! k))" using k by (auto simp: task_of_def unanswered_def)
    moreover have "map_of (bk_runnerAccepts b) t = Some j \<Longrightarrow> j = k" for j
      using ok k injD[OF assms(1)] by (auto simp: broker_ok_def accepts_ok_def task_of_def)
    ultimately have "map_of (bk_runnerAccepts b) t = None"
      using no_entry[OF ok, of k] by (cases "map_of (bk_runnerAccepts b) t") auto
    with k show ?thesis by (simp add: task_of_def)
  qed
  let ?b = "b\<lparr>bk_runners := js_del rid (bk_runners b), bk_offers := filter (\<lambda>offer. of_runnerId offer \<noteq> rid) (bk_offers b)\<rparr>"
  let ?ts = "js_values (bk_tasks b)"
  have "map tk_id ?ts = map fst (bk_tasks b)" using task by (auto simp: js_values_def)
  then have "distinct (map tk_id ?ts)" using \<open>js_wf (bk_tasks b)\<close> by (simp add: js_wf_def)
  moreover have "\<forall>task \<in> set ?ts. map_of (bk_tasks ?b) (tk_id task) = Some task \<and> map_of (bk_runnerAccepts ?b) (tk_id task) = None"
    using task get by (auto simp: js_values_def)
  ultimately have b': "b' = ?b\<lparr>bk_tasks := filter (\<lambda>(t, _). \<forall>task \<in> set ?ts. tk_runnerId task = rid \<longrightarrow> tk_id task \<noteq> t) (bk_tasks b),
      bk_log := bk_log b @ error_messages ?b rid e ?ts\<rparr>"
    unfolding assms(3) deregisterRunner_def Let_def by (subst fail_tasks_of_runner) simp_all
  have "(\<forall>task' \<in> set ?ts. tk_runnerId task' = rid \<longrightarrow> tk_id task' \<noteq> t) \<longleftrightarrow> tk_runnerId task \<noteq> rid" if "(t, task) \<in> set (bk_tasks b)" for t task
  proof -
    have "task' = task" if "(t', task') \<in> set (bk_tasks b)" "tk_id task' = t" for t' task'
      using that task[OF that(1)] get \<open>(t, task) \<in> set (bk_tasks b)\<close> by (metis option.inject)
    then show ?thesis using task[OF that] that by (fastforce simp: js_values_def)
  qed
  then have "filter (\<lambda>(t, _). \<forall>task \<in> set ?ts. tk_runnerId task = rid \<longrightarrow> tk_id task \<noteq> t) (bk_tasks b) =
      filter (\<lambda>(t, task). tk_runnerId task \<noteq> rid) (bk_tasks b)"
    by (intro filter_cong) (auto simp del: js_values_def)
  then have "bk_tasks b' = filter (\<lambda>(t, task). tk_runnerId task \<noteq> rid) (bk_tasks b)" unfolding b' by simp
  moreover have "bk_runners b' = js_del rid (bk_runners b)" "bk_procs b' = bk_procs b"
    "bk_offers b' = filter (\<lambda>offer. of_runnerId offer \<noteq> rid) (bk_offers b)" "bk_log b' = bk_log b @ error_messages b rid e ?ts"
    unfolding b' by (simp_all add: error_messages_def)
  ultimately show ?thesis by simp
qed

section \<open>Instances\<close>

definition js_runner :: TaskRunner where
  "js_runner = \<lparr>tr_id = ''r'', tr_taskTypes = [''javascript'']\<rparr>"

definition external :: BrokerConfig where
  "external = \<lparr>cfg_taskTimeout = 60, cfg_mode = External\<rparr>"

text \<open>A runner offers a task, a requester asks for one, and the runner answers.\<close>

definition offered :: "string \<Rightarrow> BrokerEvent" where
  "offered oid = FromRunner 0 0 ''r'' (Runner_TaskOffer oid ''javascript'' (-1))"

definition one_request :: "BrokerEvent list" where
  "one_request = [RegisterRunner js_runner, RegisterRequester ''q'', FromRequester 0 ''q'' (Requester_TaskRequest ''1'' ''javascript''),
     offered ''a'', offered ''b'']"

definition accepted_request :: "BrokerEvent list" where
  "accepted_request = one_request @ [FromRunner 0 0 ''r'' (Runner_TaskAccepted (nat_str 0)), Resume 0]"

lemma broker_exclusive_witness:
  "map_option tk_runnerId (map_of (bk_tasks (broker_run external nat_str accepted_request empty_broker)) ''0'') = Some ''r'' \<and>
   (\<exists>p \<in> set (bk_procs (broker_run external nat_str accepted_request empty_broker)). ap_taskId p = ''0'' \<and> taken_phase (ap_phase p))"
proof -
  let ?b = "broker_run external nat_str accepted_request empty_broker"
  have t: "map_option tk_runnerId (map_of (bk_tasks ?b) ''0'') = Some ''r''" by code_simp
  then obtain task where "map_of (bk_tasks ?b) ''0'' = Some task" by auto
  with broker_exclusive[of ?b external nat_str accepted_request] t show ?thesis by blast
qed

lemma settleTasks_exact_witness:
  "bk_requests (broker_run external nat_str one_request empty_broker) = [0] \<and>
   no_match (settleTasks nat_str 0 (broker_run external nat_str one_request empty_broker)) 0"
proof -
  let ?b = "broker_run external nat_str one_request empty_broker"
  have b: "bk_requests ?b = [0]" "length (bk_store ?b) = 1" by code_simp+
  then have "\<forall>r \<in> set (bk_requests ?b). r < length (bk_store ?b)" by simp
  from settleTasks_exact[OF this refl, of nat_str 0] b show ?thesis by simp
qed

lemma deregisterRunner_exact_witness:
  "bk_tasks (deregisterRunner ''r'' ''gone'' (broker_run external nat_str accepted_request empty_broker)) = []"
proof -
  let ?b = "broker_run external nat_str accepted_request empty_broker"
  have "inj nat_str" by (simp add: inj_def)
  from deregisterRunner_exact[OF this refl refl, of "''r''" "''gone''" external accepted_request]
  have "bk_tasks (deregisterRunner ''r'' ''gone'' ?b) = filter (\<lambda>(t, task). tk_runnerId task \<noteq> ''r'') (bk_tasks ?b)" by blast
  also have "\<dots> = []" by code_simp
  finally show ?thesis .
qed

section \<open>What the handlers leave undone\<close>

text \<open>
  A rejected request waits although an offer of its type is there: nothing calls \<open>settleTasks\<close>.
\<close>

lemma rejected_request_waits:
  "(let b = broker_run external nat_str (one_request @ [FromRunner 0 0 ''r'' (Runner_TaskRejected (nat_str 0) ''busy''), Resume 0]) empty_broker
    in (bk_requests b, map rq_acceptInProgress (bk_store b), map of_offerId (bk_offers b))) = ([0], [False], [''b''])"
  by code_simp

text \<open>
  A deferred request is pushed although it is still in the list; when it is accepted later, its second
  entry stays for ever.
\<close>

lemma deferred_request_stays:
  "(let b = broker_run external nat_str (one_request @ [FromRunner 0 0 ''r'' (Runner_TaskDeferred (nat_str 0)), Resume 0,
        offered ''c'', FromRunner 0 0 ''r'' (Runner_TaskAccepted (nat_str 1)), Resume 1]) empty_broker
    in (bk_requests b, map rq_acceptInProgress (bk_store b), js_keys (bk_tasks b))) = ([0], [True], [''1''])"
  by code_simp

text \<open>A runner whose answer comes after the timeout is not told that nobody waits for it.\<close>

lemma late_accept_ignored:
  "(let b = broker_run external nat_str (one_request @ [RunnerAcceptTimeout 0, Resume 0]) empty_broker;
        b' = broker_step external nat_str (FromRunner 0 0 ''r'' (Runner_TaskAccepted (nat_str 0))) b
    in (js_keys (bk_runnerAccepts b), bk_log b' = bk_log b, bk_tasks b')) = ([''0''], True, [])"
  by code_simp

text \<open>The answer to a data request goes to a runner with the id of the requester, that is, to nobody.\<close>

lemma handleResponse_lost:
  "(let b = broker_run external nat_str accepted_request empty_broker
    in (js_keys (bk_tasks b), bk_log (handleResponse ''0'' ''1'' ''d'' b) = bk_log b)) = ([''0''], True)"
  by code_simp

end
