(* ===== verification/NodeScheduling.thy ===== *)
theory NodeScheduling
  imports PartialExecution
begin

text \<open>
  Which nodes run next: \<open>incomingConnectionIsEmpty\<close>, \<open>prepareWaitingToExecution\<close>, \<open>addNodeToBeExecuted\<close>
  and the search for a waiting node at the end of an iteration of the run loop
  (\<^verbatim>\<open>packages/core/src/execution-engine/workflow-execute.ts\<close>).

  The scheduling functions change the stack and the two waiting tables, a \<open>StackState\<close>. A waiting
  entry is found by node name and an index; \<open>Object.keys\<close> of such a table gives the indices in ascending
  order. Positions of an array that are \<open>null\<close>, and the holes an assignment behind the end leaves, are
  both \<open>None\<close>, as they are after the execution was stored as JSON; a position behind the end is
  \<open>undefined\<close>, and \<open>array_get\<close> is \<open>None\<close> there.
\<close>

section \<open>Waiting entries\<close>

definition main_of :: "(NodeConnectionType, 'a list) js_map \<Rightarrow> 'a list result" where
  "main_of d = (case map_of d MainConn of None \<Rightarrow> Inl TypeError | Some arr \<Rightarrow> Inr arr)"

text \<open>\<open>connectionsByDestinationNode[node].main\<close> and its length.\<close>

definition main_inputs_of :: "Workflow \<Rightarrow> string \<Rightarrow> NodeInputConnections result" where
  "main_inputs_of w nm = (case map_of (w_byDestination w) nm of None \<Rightarrow> Inl TypeError | Some ic \<Rightarrow> main_of ic)"

definition entries_of :: "(string, (nat, 'a) js_map) js_map \<Rightarrow> string \<Rightarrow> (nat, 'a) js_map" where
  "entries_of t nm = or_else (map_of t nm) []"

definition index_keys :: "(nat, 'a) js_map \<Rightarrow> nat list" where
  "index_keys m = sort (js_keys m)"

definition put_entry :: "string \<Rightarrow> nat \<Rightarrow> 'a \<Rightarrow> (string, (nat, 'a) js_map) js_map \<Rightarrow> (string, (nat, 'a) js_map) js_map" where
  "put_entry nm i x t = js_put nm (js_put i x (entries_of t nm)) t"

definition del_entry :: "string \<Rightarrow> nat \<Rightarrow> (string, (nat, 'a) js_map) js_map \<Rightarrow> (string, (nat, 'a) js_map) js_map" where
  "del_entry nm i t = (case map_of t nm of None \<Rightarrow> t | Some m \<Rightarrow> js_put nm (js_del i m) t)"

text \<open>The entry of a node at an index; a missing one throws.\<close>

definition get_entry :: "(string, (nat, 'a) js_map) js_map \<Rightarrow> string \<Rightarrow> nat \<Rightarrow> 'a result" where
  "get_entry t nm i = (case map_of (entries_of t nm) i of None \<Rightarrow> Inl TypeError | Some x \<Rightarrow> Inr x)"

definition prepareWaitingToExecution :: "string \<Rightarrow> nat \<Rightarrow> nat \<Rightarrow> StackState \<Rightarrow> StackState" where
  "prepareWaitingToExecution nodeName numberOfConnections runIndex st = st
     \<lparr>waitingExecution := put_entry nodeName runIndex [(MainConn, replicate numberOfConnections None)] (waitingExecution st),
      waitingExecutionSource := put_entry nodeName runIndex [(MainConn, replicate numberOfConnections None)] (waitingExecutionSource st)\<rparr>"

text \<open>The first entry, in ascending order, that has no data at the input.\<close>

fun find_waiting :: "(nat, ITaskDataConnections) js_map \<Rightarrow> nat \<Rightarrow> nat list \<Rightarrow> nat option result" where
  "find_waiting entries inputIndex [] = Inr None"
| "find_waiting entries inputIndex (i # is) =
     rbind (case map_of entries i of None \<Rightarrow> Inl TypeError | Some e \<Rightarrow> main_of e) (\<lambda>arr.
       if array_get arr inputIndex = None then Inr (Some i) else find_waiting entries inputIndex is)"

text \<open>\<open>nodeSuccessData[outputIndex]\<close> where the data is \<open>null\<close> as a whole, or has nothing at the index.\<close>

type_synonym node_output = "INodeExecutionData list option list option"

definition output_at :: "node_output \<Rightarrow> nat \<Rightarrow> INodeExecutionData list option" where
  "output_at nodeSuccessData outputIndex = (case nodeSuccessData of None \<Rightarrow> None | Some outs \<Rightarrow> array_get outs outputIndex)"

definition or_undefined :: "nat \<Rightarrow> nat option" where
  "or_undefined i = (if i = 0 then None else Some i)"

definition source_entry :: "string \<Rightarrow> nat \<Rightarrow> nat \<Rightarrow> ISourceData" where
  "source_entry parentNodeName outputIndex runIndex =
     \<lparr>previousNode = parentNodeName, previousNodeOutput = or_undefined outputIndex, previousNodeRun = or_undefined runIndex\<rparr>"

text \<open>\<open>table[node][index].main[input] = x\<close>.\<close>

definition set_input :: "string \<Rightarrow> nat \<Rightarrow> nat \<Rightarrow> 'a option \<Rightarrow> 'a waiting \<Rightarrow> 'a waiting result" where
  "set_input nm i inputIndex x t = rbind (get_entry t nm i) (\<lambda>e. rbind (main_of e) (\<lambda>arr.
     Inr (put_entry nm i (js_put MainConn (array_put inputIndex x arr) e) t)))"

text \<open>The index of the entry the data goes to, and the state with the data in it.\<close>

definition add_to_waiting ::
    "nat \<Rightarrow> IConnection \<Rightarrow> nat \<Rightarrow> string \<Rightarrow> node_output \<Rightarrow> nat \<Rightarrow> StackState \<Rightarrow> (nat \<times> StackState) result" where
  "add_to_waiting numberOfInputs cn outputIndex parentNodeName nodeSuccessData runIndex st =
     (let nm = conn_node cn;
          st = (if map_of (waitingExecution st) nm = None
                then st\<lparr>waitingExecution := js_put nm [] (waitingExecution st),
                        waitingExecutionSource := js_put nm [] (waitingExecutionSource st)\<rparr> else st);
          entries = entries_of (waitingExecution st) nm
      in rbind (find_waiting entries (conn_index cn) (index_keys entries)) (\<lambda>found.
         let i = (case found of Some i \<Rightarrow> i | None \<Rightarrow> length entries);
             st = (if found = None then prepareWaitingToExecution nm numberOfInputs i st else st)
         in rbind (set_input nm i (conn_index cn) (output_at nodeSuccessData outputIndex) (waitingExecution st)) (\<lambda>we.
            rbind (set_input nm i (conn_index cn)
                (if nodeSuccessData = None then None else Some (source_entry parentNodeName outputIndex runIndex))
                (waitingExecutionSource st)) (\<lambda>ws.
              Inr (i, st\<lparr>waitingExecution := we, waitingExecutionSource := ws\<rparr>)))))"

section \<open>Nodes that are forced to run\<close>

text \<open>
  A missing run or output is \<open>undefined\<close> and counts as empty; an output that is there and \<open>null\<close>
  has no length.
\<close>

definition connection_empty :: "IRunData \<Rightarrow> nat \<Rightarrow> IConnection \<Rightarrow> bool result" where
  "connection_empty rd runIndex cn =
     (case map_of rd (conn_node cn) of
        None \<Rightarrow> Inr True
      | Some runs \<Rightarrow>
          if runIndex < length runs
          then case task_data (runs ! runIndex) of
                 None \<Rightarrow> Inr True
               | Some d \<Rightarrow> (case map_of d MainConn of
                     None \<Rightarrow> Inr True
                   | Some outs \<Rightarrow>
                       if conn_index cn < length outs
                       then case outs ! conn_index cn of None \<Rightarrow> Inl TypeError | Some items \<Rightarrow> Inr (length items = 0)
                       else Inr True)
          else Inr True)"

fun incomingConnectionIsEmpty :: "IRunData \<Rightarrow> IConnection list \<Rightarrow> nat \<Rightarrow> bool result" where
  "incomingConnectionIsEmpty rd [] runIndex = Inr True"
| "incomingConnectionIsEmpty rd (cn # cns) runIndex =
     rbind (connection_empty rd runIndex cn) (\<lambda>empty.
       if \<not> empty then Inr False else incomingConnectionIsEmpty rd cns runIndex)"

text \<open>\<open>connectionsByDestinationNode[node].main[0] ?? []\<close>.\<close>

definition first_inputs :: "Workflow \<Rightarrow> string \<Rightarrow> IConnection list result" where
  "first_inputs w nm = rbind (main_inputs_of w nm) (\<lambda>arr. Inr (or_else (array_get arr 0) []))"

definition enqueue_node :: "Workflow \<Rightarrow> IExecuteData \<Rightarrow> StackState \<Rightarrow> StackState" where
  "enqueue_node w e st = (if forceInputNodeExecution w
     then st\<lparr>nodeExecutionStack := nodeExecutionStack st @ [e]\<rparr>
     else st\<lparr>nodeExecutionStack := e # nodeExecutionStack st\<rparr>)"

definition stack_names :: "StackState \<Rightarrow> string list" where
  "stack_names st = map (\<lambda>e. node_name (exec_node e)) (nodeExecutionStack st)"

text \<open>The walk from an input node up through its parents, the nearest last.\<close>

fun node_to_add :: "IRunData \<Rightarrow> string list \<Rightarrow> string list \<Rightarrow> string \<Rightarrow> string option \<Rightarrow> string list \<Rightarrow> string option" where
  "node_to_add rd check onStack inputNode nodeToAdd [] = nodeToAdd"
| "node_to_add rd check onStack inputNode nodeToAdd (p # ps) =
     (if inputNode \<noteq> p \<and> p \<in> set check then None
      else if p \<in> set onStack then None
      else if map_of rd p \<noteq> None then nodeToAdd
      else node_to_add rd check onStack inputNode (Some p) ps)"

text \<open>The target nodes of all outputs of the parent.\<close>

definition output_nodes_of :: "Workflow \<Rightarrow> string \<Rightarrow> string list result" where
  "output_nodes_of w parentNodeName =
     (case map_of (w_bySource w) parentNodeName of None \<Rightarrow> Inl TypeError
      | Some ic \<Rightarrow> Inr (case map_of ic MainConn of None \<Rightarrow> [] | Some arr \<Rightarrow> map conn_node (flat_conns arr)))"

definition add_forced ::
    "Workflow \<Rightarrow> IRunData \<Rightarrow> string \<Rightarrow> nat \<Rightarrow> nat \<Rightarrow> string \<Rightarrow> StackState \<Rightarrow> StackState result" where
  "add_forced w rd parentNodeName outputIndex runIndex nodeToAdd st =
     rbind (case map_of (w_byDestination w) nodeToAdd of
              None \<Rightarrow> Inr True
            | Some _ \<Rightarrow> rbind (first_inputs w nodeToAdd) (\<lambda>cns. incomingConnectionIsEmpty rd cns runIndex)) (\<lambda>addEmptyItem.
       if \<not> addEmptyItem then Inr st
       else case w_getNode w nodeToAdd of
         None \<Rightarrow> Inl TypeError
       | Some n \<Rightarrow> Inr (enqueue_node w \<lparr>exec_data = [(MainConn, [Some [empty_item]])], exec_metadata = None, exec_node = n,
           exec_source = Some [(MainConn, [Some (source_entry parentNodeName outputIndex runIndex)])]\<rparr> st))"

text \<open>One incoming connection of the node: its source may have to run first.\<close>

definition force_input ::
    "Workflow \<Rightarrow> IRunData \<Rightarrow> string list \<Rightarrow> string \<Rightarrow> nat \<Rightarrow> node_output \<Rightarrow> nat \<Rightarrow> IConnection \<Rightarrow> StackState \<Rightarrow> StackState result" where
  "force_input w rd check parentNodeName outputIndex nodeSuccessData runIndex inputData st =
     (let inputNode = conn_node inputData; onStack = stack_names st
      in if inputNode = parentNodeName then Inr st
         else rbind (if inputNode \<in> set check
                then rbind (first_inputs w inputNode) (\<lambda>cns. incomingConnectionIsEmpty rd cns runIndex) else Inr True) (\<lambda>go.
           if \<not> go \<or> inputNode \<in> set onStack \<or> map_of rd inputNode \<noteq> None \<or> \<not> forceInputNodeExecution w then Inr st
           else
             let parentNodes = rev (w_getParentNodes w inputNode (OfType MainConn) (-1) @ [inputNode]);
                 nodeToAdd = node_to_add rd check onStack inputNode (Some inputNode) parentNodes;
                 above = (case nodeToAdd of None \<Rightarrow> [] | Some nm \<Rightarrow> w_getParentNodes w nm (OfType MainConn) (-1))
             in rbind (if parentNodeName \<in> set above
                  then (case output_at nodeSuccessData outputIndex of None \<Rightarrow> Inl TypeError | Some items \<Rightarrow> Inr (length items = 0))
                  else Inr False) (\<lambda>noInput.
                case (if noInput then None else nodeToAdd) of
                  None \<Rightarrow> Inr st
                | Some nm \<Rightarrow> add_forced w rd parentNodeName outputIndex runIndex nm st)))"

definition force_inputs ::
    "Workflow \<Rightarrow> IRunData \<Rightarrow> string \<Rightarrow> string \<Rightarrow> nat \<Rightarrow> node_output \<Rightarrow> nat \<Rightarrow> StackState \<Rightarrow> StackState result" where
  "force_inputs w rd nm parentNodeName outputIndex nodeSuccessData runIndex st =
     rbind (output_nodes_of w parentNodeName) (\<lambda>check.
     rbind (main_inputs_of w nm) (\<lambda>inputs.
       rfold (force_input w rd check parentNodeName outputIndex nodeSuccessData runIndex) (flat_conns inputs) st))"

section \<open>Adding a node\<close>

definition remove_waiting :: "string \<Rightarrow> nat \<Rightarrow> StackState \<Rightarrow> StackState" where
  "remove_waiting nm i st =
     (let we = del_entry nm i (waitingExecution st); ws = del_entry nm i (waitingExecutionSource st)
      in if entries_of we nm = []
         then st\<lparr>waitingExecution := js_del nm we, waitingExecutionSource := js_del nm ws\<rparr>
         else st\<lparr>waitingExecution := we, waitingExecutionSource := ws\<rparr>)"

text \<open>A waiting entry all of whose inputs have data becomes an entry of the stack.\<close>

definition release_waiting :: "Workflow \<Rightarrow> string \<Rightarrow> nat \<Rightarrow> ITaskDataConnections \<Rightarrow> StackState \<Rightarrow> StackState result" where
  "release_waiting w nm i d st =
     rbind (get_entry (waitingExecutionSource st) nm i) (\<lambda>src.
     case map_of (w_nodes w) nm of
       None \<Rightarrow> Inl TypeError
     | Some n \<Rightarrow>
         Inr (remove_waiting nm i (enqueue_node w
           \<lparr>exec_data = d, exec_metadata = None, exec_node = n, exec_source = Some src\<rparr> st)))"

text \<open>The data stays in the waiting tables; both entries are created anew with the arrays they had.\<close>

definition keep_waiting ::
    "nat \<Rightarrow> string \<Rightarrow> nat \<Rightarrow> nat \<Rightarrow> INodeExecutionData list option \<Rightarrow> StackState \<Rightarrow> StackState result" where
  "keep_waiting numberOfInputs nm i inputIndex items st =
     rbind (get_entry (waitingExecution st) nm i) (\<lambda>e. rbind (main_of e) (\<lambda>arr.
     rbind (get_entry (waitingExecutionSource st) nm i) (\<lambda>s. rbind (main_of s) (\<lambda>sarr.
       let st = prepareWaitingToExecution nm numberOfInputs i st
       in Inr (st\<lparr>waitingExecution := put_entry nm i [(MainConn, array_put inputIndex items arr)] (waitingExecution st),
             waitingExecutionSource := put_entry nm i [(MainConn, sarr)] (waitingExecutionSource st)\<rparr>)))))"

definition addNodeToBeExecuted ::
    "Workflow \<Rightarrow> IRunData \<Rightarrow> IConnection \<Rightarrow> nat \<Rightarrow> string \<Rightarrow> node_output \<Rightarrow> nat \<Rightarrow> StackState \<Rightarrow> StackState result" where
  "addNodeToBeExecuted w rd cn outputIndex parentNodeName nodeSuccessData runIndex st =
     rbind (main_inputs_of w (conn_node cn)) (\<lambda>inputs.
     if length inputs > 1 then
       let nodeWasWaiting = (map_of (waitingExecution st) (conn_node cn) \<noteq> None)
       in rbind (add_to_waiting (length inputs) cn outputIndex parentNodeName nodeSuccessData runIndex st) (\<lambda>(i, st).
          rbind (get_entry (waitingExecution st) (conn_node cn) i) (\<lambda>d. rbind (main_of d) (\<lambda>arr.
            if None \<notin> set arr then release_waiting w (conn_node cn) i d st
            else rbind (if nodeWasWaiting then Inr st
                    else force_inputs w rd (conn_node cn) parentNodeName outputIndex nodeSuccessData runIndex st)
                 (keep_waiting (length inputs) (conn_node cn) i (conn_index cn) (output_at nodeSuccessData outputIndex)))))
     else case map_of (w_nodes w) (conn_node cn) of
       None \<Rightarrow> Inl TypeError
     | Some n \<Rightarrow> Inr (enqueue_node w
         \<lparr>exec_data = [(MainConn, array_put (conn_index cn) (output_at nodeSuccessData outputIndex) (replicate (Suc (conn_index cn)) None))],
          exec_metadata = None, exec_node = n,
          exec_source = Some [(MainConn, [Some (source_entry parentNodeName outputIndex runIndex)])]\<rparr> st))"

section \<open>Waiting nodes when the stack is empty\<close>

datatype RequiredInputs = RequiredCount nat | RequiredIndexes "nat list"

text \<open>
  What the search reads of a node type: \<open>requiredInputs\<close>, evaluated where it is an expression, and
  \<open>inputs.length\<close>, which for an expression string is the length of the string.
\<close>

record InputDescription =
  in_required :: "RequiredInputs option"
  in_length :: nat

fun str_cmp :: "string \<Rightarrow> string \<Rightarrow> int" where
  "str_cmp [] [] = 0"
| "str_cmp [] (_ # _) = -1"
| "str_cmp (_ # _) [] = 1"
| "str_cmp (a # as) (b # bs) = (if a = b then str_cmp as bs else if (of_char a :: nat) < of_char b then -1 else 1)"

text \<open>\<open>Object.keys(entries).sort()\<close> sorts the indices as strings.\<close>

definition first_run_index :: "(nat, 'a) js_map \<Rightarrow> nat result" where
  "first_run_index entries = (case js_sort (\<lambda>a b. str_cmp (nat_str a) (nat_str b)) (index_keys entries) of
     [] \<Rightarrow> Inl TypeError | i # _ \<Rightarrow> Inr i)"

definition inputs_with_data :: "INodeExecutionData list option list \<Rightarrow> nat list" where
  "inputs_with_data arr = filter (\<lambda>i. arr ! i \<noteq> None) [0 ..< length arr]"

text \<open>Every input has to have data, so the search does not touch the node.\<close>

definition all_required :: "RequiredInputs option \<Rightarrow> nat \<Rightarrow> bool" where
  "all_required required inputsLength = (case required of
     None \<Rightarrow> False
   | Some (RequiredIndexes is) \<Rightarrow> length is = inputsLength
   | Some (RequiredCount n) \<Rightarrow> n = inputsLength)"

definition required_missing :: "RequiredInputs option \<Rightarrow> INodeExecutionData list option list \<Rightarrow> bool" where
  "required_missing required arr = (case required of
     None \<Rightarrow> False
   | Some (RequiredIndexes is) \<Rightarrow> \<not> set is \<subseteq> set (inputs_with_data arr)
   | Some (RequiredCount n) \<Rightarrow> length (inputs_with_data arr) < n)"

definition pad_inputs :: "nat \<Rightarrow> INodeExecutionData list list \<Rightarrow> INodeExecutionData list list" where
  "pad_inputs n xs = xs @ replicate (n - length xs) []"

definition entry_count :: "(string, (nat, 'a) js_map) js_map \<Rightarrow> nat" where
  "entry_count t = sum_list (map (\<lambda>(_, m). length m) t)"

text \<open>What one waiting node leads to: nothing, an entry without any data is dropped, or it is to run.\<close>

datatype WaitingVerdict = NotYet | Dropped nat | Runs nat "INodeExecutionData list list"

definition judge_waiting ::
    "(INode \<Rightarrow> InputDescription option) \<Rightarrow> Workflow \<Rightarrow> string list \<Rightarrow> StackState \<Rightarrow> string \<Rightarrow> WaitingVerdict result" where
  "judge_waiting describe w waitingNodes st nm =
     (case w_getNode w nm of
        None \<Rightarrow> Inr NotYet
      | Some n \<Rightarrow>
          rbind (if forceInputNodeExecution w then Inr (None, 0)
                 else case describe n of None \<Rightarrow> Inl TypeError | Some d \<Rightarrow> Inr (in_required d, in_length d))
            (\<lambda>(required, inputsLength).
          if all_required required inputsLength then Inr NotYet
          else if \<exists>p \<in> set (w_getParentNodes w nm (OfType MainConn) (-1)). p \<in> set waitingNodes then Inr NotYet
          else rbind (first_run_index (entries_of (waitingExecution st) nm)) (\<lambda>i.
               rbind (get_entry (waitingExecution st) nm i) (\<lambda>d. rbind (main_of d) (\<lambda>arr.
               if required_missing required arr then Inr NotYet
               else let taskDataMain = map (\<lambda>x. or_else x []) arr
                    in if filter (\<lambda>items. items \<noteq> []) taskDataMain = [] then Inr (Dropped i)
                       else case describe n of
                         None \<Rightarrow> Inl TypeError
                       | Some desc \<Rightarrow> Inr (Runs i (pad_inputs (in_length desc) taskDataMain)))))))"

function pick_waiting ::
    "(INode \<Rightarrow> InputDescription option) \<Rightarrow> Workflow \<Rightarrow> string list \<Rightarrow> string list \<Rightarrow> StackState \<Rightarrow> StackState result" where
  "pick_waiting describe w waitingNodes [] st = Inr st"
| "pick_waiting describe w waitingNodes (nm # nms) st =
     rbind (judge_waiting describe w waitingNodes st nm) (\<lambda>verdict.
       case verdict of
         NotYet \<Rightarrow> pick_waiting describe w waitingNodes nms st
       | Dropped i \<Rightarrow>
           let st = remove_waiting nm i st; names = js_keys (waitingExecution st)
           in pick_waiting describe w names names st
       | Runs i taskDataMain \<Rightarrow>
           rbind (get_entry (waitingExecutionSource st) nm i) (\<lambda>src.
           case map_of (w_nodes w) nm of
             None \<Rightarrow> Inl TypeError
           | Some n \<Rightarrow> Inr (remove_waiting nm i (st\<lparr>nodeExecutionStack := nodeExecutionStack st @
               [\<lparr>exec_data = [(MainConn, map Some taskDataMain)], exec_metadata = None, exec_node = n, exec_source = Some src\<rparr>]\<rparr>))))"
  by pat_completeness auto

lemma judge_waiting_entry:
  assumes "judge_waiting describe w ns st nm = Inr (Dropped i) \<or> judge_waiting describe w ns st nm = Inr (Runs i ds)"
  shows "\<exists>m d. map_of (waitingExecution st) nm = Some m \<and> map_of m i = Some d"
proof -
  have "\<exists>d. get_entry (waitingExecution st) nm i = Inr d"
    using assms by (auto simp: judge_waiting_def Let_def result_simps split: option.splits if_splits)
  then show ?thesis
    by (cases "map_of (waitingExecution st) nm") (auto simp: get_entry_def entries_of_def split: option.splits)
qed

lemma entry_count_put: "map_of t nm = Some m \<Longrightarrow> entry_count (js_put nm m' t) + length m = entry_count t + length m'"
  by (induction t) (auto simp: entry_count_def)

lemma entry_count_del: "entry_count (js_del nm t) \<le> entry_count t"
  by (induction t) (auto simp: entry_count_def js_del_def)

lemma js_del_length: "map_of m i = Some d \<Longrightarrow> length (js_del i m) < length m"
  unfolding js_del_def by (rule length_filter_less) (auto dest: map_of_SomeD)

lemma remove_waiting_count:
  assumes "map_of (waitingExecution st) nm = Some m" "map_of m i = Some d"
  shows "entry_count (waitingExecution (remove_waiting nm i st)) < entry_count (waitingExecution st)"
  using entry_count_put[OF assms(1), of "js_del i m"] js_del_length[OF assms(2)] assms(1)
    entry_count_del[of nm "js_put nm (js_del i m) (waitingExecution st)"]
  by (auto simp: remove_waiting_def del_entry_def Let_def)

text \<open>Every entry that is dropped makes the tables smaller.\<close>

lemma dropped_count:
  "judge_waiting describe w ns st nm = Inr (Dropped i) \<Longrightarrow>
   entry_count (waitingExecution (remove_waiting nm i st)) < entry_count (waitingExecution st)"
  using judge_waiting_entry[of describe w ns st nm i "[]"] remove_waiting_count by blast

termination pick_waiting
  by (relation "measures [\<lambda>(describe, w, ns, names, st). entry_count (waitingExecution st), \<lambda>(describe, w, ns, names, st). length names]")
    (auto dest!: dropped_count)

section \<open>Entries of the waiting tables\<close>

definition entry :: "(string, (nat, 'a) js_map) js_map \<Rightarrow> string \<Rightarrow> nat \<Rightarrow> 'a option" where
  "entry t nm i = map_of (entries_of t nm) i"

lemma entry_simps [simp]:
  "entry (put_entry nm i x t) nm' j = (if nm' = nm \<and> j = i then Some x else entry t nm' j)"
  "entry (del_entry nm i t) nm' j = (if nm' = nm \<and> j = i then None else entry t nm' j)"
  "entry (js_put nm m t) nm' j = (if nm' = nm then map_of m j else entry t nm' j)"
  "entry (js_del nm t) nm' j = (if nm' = nm then None else entry t nm' j)"
  by (auto simp: entry_def entries_of_def put_entry_def del_entry_def or_else_def split: option.splits)

lemma get_entry_Inr: "get_entry t nm i = Inr x \<longleftrightarrow> entry t nm i = Some x"
  by (simp add: get_entry_def entry_def split: option.splits)

lemma main_of_Inr: "main_of d = Inr arr \<longleftrightarrow> map_of d MainConn = Some arr"
  by (simp add: main_of_def split: option.splits)

lemma remove_waiting_entry:
  "entry (waitingExecution (remove_waiting nm i st)) nm' j = (if nm' = nm \<and> j = i then None else entry (waitingExecution st) nm' j)"
  "nodeExecutionStack (remove_waiting nm i st) = nodeExecutionStack st"
proof -
  have "j \<noteq> i \<Longrightarrow> entry (waitingExecution st) nm j = None"
    if "entries_of (del_entry nm i (waitingExecution st)) nm = []"
    using that entry_simps(2)[of nm i "waitingExecution st" nm j] by (simp add: entry_def)
  then show "entry (waitingExecution (remove_waiting nm i st)) nm' j = (if nm' = nm \<and> j = i then None else entry (waitingExecution st) nm' j)"
    by (auto simp: remove_waiting_def Let_def)
  show "nodeExecutionStack (remove_waiting nm i st) = nodeExecutionStack st" by (simp add: remove_waiting_def Let_def)
qed

lemma remove_waiting_sources:
  "nm' \<noteq> nm \<or> j \<noteq> i \<Longrightarrow> entry (waitingExecution st) nm' j \<noteq> None \<Longrightarrow>
   entry (waitingExecutionSource (remove_waiting nm i st)) nm' j = entry (waitingExecutionSource st) nm' j"
proof -
  assume a: "nm' \<noteq> nm \<or> j \<noteq> i" "entry (waitingExecution st) nm' j \<noteq> None"
  have "entries_of (del_entry nm i (waitingExecution st)) nm = [] \<Longrightarrow> nm' \<noteq> nm"
    using a entry_simps(2)[of nm i "waitingExecution st" nm j] by (auto simp: entry_def)
  with a show ?thesis by (auto simp: remove_waiting_def Let_def)
qed

text \<open>
  A waiting entry belongs to a node with several inputs, has a place for each of them, and lacks the
  data of one. Its sources have the same places.
\<close>

definition waiting_ok :: "Workflow \<Rightarrow> StackState \<Rightarrow> bool" where
  "waiting_ok w st \<longleftrightarrow> (\<forall>nm i d. entry (waitingExecution st) nm i = Some d \<longrightarrow>
     (\<exists>inputs arr s sarr. main_inputs_of w nm = Inr inputs \<and> length inputs > 1 \<and>
        map_of d MainConn = Some arr \<and> length arr = length inputs \<and> None \<in> set arr \<and>
        entry (waitingExecutionSource st) nm i = Some s \<and> map_of s MainConn = Some sarr \<and> length sarr = length inputs))"

text \<open>All outputs recorded in the run data are arrays.\<close>

definition runs_ok :: "IRunData \<Rightarrow> bool" where
  "runs_ok rd \<longleftrightarrow> (\<forall>nm runs task d outs. map_of rd nm = Some runs \<and> task \<in> set runs \<and> task_data task = Some d \<and>
     map_of d MainConn = Some outs \<longrightarrow> None \<notin> set outs)"

lemma incoming_total: "runs_ok rd \<Longrightarrow> \<exists>b. incomingConnectionIsEmpty rd cns i = Inr b"
proof (induction cns)
  case (Cons c cns)
  have "\<exists>b. connection_empty rd i c = Inr b"
  proof (cases "connection_empty rd i c")
    case (Inl e)
    then obtain runs d outs where "map_of rd (conn_node c) = Some runs" "i < length runs" "task_data (runs ! i) = Some d"
      "map_of d MainConn = Some outs" "conn_index c < length outs" "outs ! conn_index c = None"
      by (auto simp: connection_empty_def split: option.splits if_splits)
    moreover have "runs ! i \<in> set runs" using calculation(2) by simp
    moreover have "None \<in> set outs" using nth_mem[OF calculation(5)] calculation(6) by simp
    ultimately show ?thesis using Cons.prems unfolding runs_ok_def by blast
  qed simp
  with Cons show ?case by auto
qed (simp add: ex_bool_eq)

text \<open>In the order \<open>v1\<close> no input node is forced to run.\<close>

lemma force_input_v1:
  assumes "\<not> forceInputNodeExecution w" "runs_ok rd" "\<forall>nm \<in> set check. \<exists>inputs. main_inputs_of w nm = Inr inputs"
  shows "force_input w rd check parent oi d ri cn st = Inr st"
proof (cases "conn_node cn \<in> set check")
  case True
  with assms(3) obtain inputs where "main_inputs_of w (conn_node cn) = Inr inputs" by blast
  with incoming_total[OF assms(2)] obtain b where
    "rbind (first_inputs w (conn_node cn)) (\<lambda>cns. incomingConnectionIsEmpty rd cns ri) = Inr b"
    by (fastforce simp: first_inputs_def)
  with True assms(1) show ?thesis by (simp add: force_input_def Let_def)
qed (use assms(1) in \<open>simp add: force_input_def Let_def\<close>)

lemma force_inputs_v1:
  assumes "\<not> forceInputNodeExecution w" "runs_ok rd" "output_nodes_of w parent = Inr check"
    "\<forall>nm \<in> set check. \<exists>inputs. main_inputs_of w nm = Inr inputs" "main_inputs_of w nm = Inr inputs"
  shows "force_inputs w rd nm parent oi d ri st = Inr st"
proof -
  have "rfold (force_input w rd check parent oi d ri) cns st = Inr st" for cns
    by (induction cns) (simp_all add: force_input_v1[OF assms(1,2,4)])
  with assms(3,5) show ?thesis by (simp add: force_inputs_def)
qed

lemma find_waiting_total:
  assumes "\<forall>i \<in> set is. \<exists>d arr. map_of entries i = Some d \<and> map_of d MainConn = Some arr"
  shows "\<exists>r. find_waiting entries idx is = Inr r \<and> (\<forall>i. r = Some i \<longrightarrow> i \<in> set is)"
  using assms
proof (induction "is")
  case (Cons i "is")
  then obtain d arr where "map_of entries i = Some d" "map_of d MainConn = Some arr" by auto
  with Cons show ?case by (auto simp: main_of_def)
qed simp

lemma set_input_entry:
  assumes "entry t nm i = Some e" "map_of e MainConn = Some arr" "idx < length arr"
  shows "set_input nm i idx x t = Inr (put_entry nm i (js_put MainConn (arr[idx := x]) e) t)"
  using assms by (simp add: set_input_def get_entry_Inr[THEN iffD2] main_of_Inr[THEN iffD2] array_put_def)

lemma add_to_waiting_v1:
  assumes ok: "waiting_ok w st" and inputs: "main_inputs_of w (conn_node cn) = Inr inputs" "length inputs > 1"
    and idx: "conn_index cn < length inputs"
  obtains i st' d arr s sarr where "add_to_waiting (length inputs) cn oi parent (Some outs) ri st = Inr (i, st')"
    "nodeExecutionStack st' = nodeExecutionStack st"
    "entry (waitingExecution st') (conn_node cn) i = Some d" "map_of d MainConn = Some arr" "length arr = length inputs"
    "arr ! conn_index cn = array_get outs oi"
    "entry (waitingExecutionSource st') (conn_node cn) i = Some s" "map_of s MainConn = Some sarr" "length sarr = length inputs"
    "\<And>nm j. nm \<noteq> conn_node cn \<or> j \<noteq> i \<Longrightarrow> entry (waitingExecution st') nm j = entry (waitingExecution st) nm j"
    "\<And>nm j. nm \<noteq> conn_node cn \<or> j \<noteq> i \<Longrightarrow> entry (waitingExecution st) nm j \<noteq> None \<Longrightarrow>
      entry (waitingExecutionSource st') nm j = entry (waitingExecutionSource st) nm j"
proof -
  let ?nm = "conn_node cn"
  define st1 where "st1 = (if map_of (waitingExecution st) ?nm = None
      then st\<lparr>waitingExecution := js_put ?nm [] (waitingExecution st), waitingExecutionSource := js_put ?nm [] (waitingExecutionSource st)\<rparr> else st)"
  have empty: "entry (waitingExecution st) ?nm j = None" if "map_of (waitingExecution st) ?nm = None" for j
    using that by (simp add: entry_def entries_of_def)
  have e1: "entry (waitingExecution st1) nm j = entry (waitingExecution st) nm j"
    "entry (waitingExecution st) nm j \<noteq> None \<Longrightarrow> entry (waitingExecutionSource st1) nm j = entry (waitingExecutionSource st) nm j" for nm j
    using empty by (auto simp: st1_def)
  define entries where "entries = entries_of (waitingExecution st1) ?nm"
  have entries: "map_of entries j = entry (waitingExecution st) ?nm j" for j
    unfolding entries_def e1(1)[symmetric] by (simp add: entry_def)
  have "\<exists>d arr. map_of entries j = Some d \<and> map_of d MainConn = Some arr" if "j \<in> set (index_keys entries)" for j
  proof -
    from that obtain d where d: "map_of entries j = Some d" by (auto simp: index_keys_def js_keys_set)
    with ok show ?thesis unfolding entries waiting_ok_def by blast
  qed
  from find_waiting_total[of "index_keys entries" entries "conn_index cn"] this obtain found where
    found: "find_waiting entries (conn_index cn) (index_keys entries) = Inr found" "\<And>i. found = Some i \<Longrightarrow> i \<in> set (index_keys entries)"
    by blast
  define i where "i = (case found of Some i \<Rightarrow> i | None \<Rightarrow> length entries)"
  define st2 where "st2 = (if found = None then prepareWaitingToExecution ?nm (length inputs) i st1 else st1)"
  have e2: "nm \<noteq> ?nm \<or> j \<noteq> i \<Longrightarrow> entry (waitingExecution st2) nm j = entry (waitingExecution st) nm j"
    "nm \<noteq> ?nm \<or> j \<noteq> i \<Longrightarrow> entry (waitingExecution st) nm j \<noteq> None \<Longrightarrow> entry (waitingExecutionSource st2) nm j = entry (waitingExecutionSource st) nm j" for nm j
    using e1 by (auto simp: st2_def prepareWaitingToExecution_def)
  have "\<exists>d arr s sarr. entry (waitingExecution st2) ?nm i = Some d \<and> map_of d MainConn = Some arr \<and> length arr = length inputs \<and>
      entry (waitingExecutionSource st2) ?nm i = Some s \<and> map_of s MainConn = Some sarr \<and> length sarr = length inputs"
  proof (cases found)
    case None
    then show ?thesis by (simp add: st2_def prepareWaitingToExecution_def)
  next
    case (Some j)
    with found(2) obtain d where "entry (waitingExecution st) ?nm j = Some d"
      unfolding entries[symmetric] by (auto simp: index_keys_def js_keys_set)
    with ok inputs(1) e1 Some show ?thesis unfolding waiting_ok_def by (fastforce simp: st2_def i_def)
  qed
  then obtain d arr s sarr where at: "entry (waitingExecution st2) ?nm i = Some d" "map_of d MainConn = Some arr" "length arr = length inputs"
    "entry (waitingExecutionSource st2) ?nm i = Some s" "map_of s MainConn = Some sarr" "length sarr = length inputs" by blast
  have "conn_index cn < length arr" "conn_index cn < length sarr" using idx at(3,6) by simp_all
  then have run: "add_to_waiting (length inputs) cn oi parent (Some outs) ri st = Inr (i, st2
      \<lparr>waitingExecution := put_entry ?nm i (js_put MainConn (arr[conn_index cn := array_get outs oi]) d) (waitingExecution st2),
       waitingExecutionSource := put_entry ?nm i (js_put MainConn (sarr[conn_index cn := Some (source_entry parent oi ri)]) s) (waitingExecutionSource st2)\<rparr>)"
    unfolding add_to_waiting_def Let_def st1_def[symmetric] entries_def[symmetric] found(1) rbind_simps i_def[symmetric] st2_def[symmetric]
    by (simp add: output_at_def set_input_entry[OF at(1,2)] set_input_entry[OF at(4,5)])
  have "nodeExecutionStack st2 = nodeExecutionStack st" by (simp add: st2_def st1_def prepareWaitingToExecution_def)
  let ?st = "st2\<lparr>waitingExecution := put_entry ?nm i (js_put MainConn (arr[conn_index cn := array_get outs oi]) d) (waitingExecution st2),
       waitingExecutionSource := put_entry ?nm i (js_put MainConn (sarr[conn_index cn := Some (source_entry parent oi ri)]) s) (waitingExecutionSource st2)\<rparr>"
  have new: "entry (waitingExecution ?st) ?nm i = Some (js_put MainConn (arr[conn_index cn := array_get outs oi]) d)"
    "map_of (js_put MainConn (arr[conn_index cn := array_get outs oi]) d) MainConn = Some (arr[conn_index cn := array_get outs oi])"
    "entry (waitingExecutionSource ?st) ?nm i = Some (js_put MainConn (sarr[conn_index cn := Some (source_entry parent oi ri)]) s)"
    "map_of (js_put MainConn (sarr[conn_index cn := Some (source_entry parent oi ri)]) s) MainConn =
      Some (sarr[conn_index cn := Some (source_entry parent oi ri)])" by simp_all
  show thesis
    by (rule that[OF run _ new(1,2) _ _ new(3,4)])
      (use \<open>nodeExecutionStack st2 = nodeExecutionStack st\<close> e2 at(3,6) idx in auto)
qed

section \<open>Properties\<close>

lemma enqueue_v1: "\<not> forceInputNodeExecution w \<Longrightarrow> enqueue_node w e st = st\<lparr>nodeExecutionStack := e # nodeExecutionStack st\<rparr>"
  by (simp add: enqueue_node_def)

text \<open>
  Where the data of a connection goes: to an entry of the stack that has data for every input, or to
  a waiting entry.
\<close>

definition delivered :: "Workflow \<Rightarrow> IConnection \<Rightarrow> nat \<Rightarrow> INodeExecutionData list \<Rightarrow> StackState \<Rightarrow> StackState \<Rightarrow> bool" where
  "delivered w cn numberOfInputs items st st' \<longleftrightarrow>
     (\<exists>e arr. nodeExecutionStack st' = e # nodeExecutionStack st \<and> map_of (w_nodes w) (conn_node cn) = Some (exec_node e) \<and>
        map_of (exec_data e) MainConn = Some arr \<and> array_get arr (conn_index cn) = Some items \<and>
        (numberOfInputs > 1 \<longrightarrow> length arr = numberOfInputs \<and> None \<notin> set arr)) \<or>
     (numberOfInputs > 1 \<and> nodeExecutionStack st' = nodeExecutionStack st \<and>
      (\<exists>i d arr. entry (waitingExecution st') (conn_node cn) i = Some d \<and> map_of d MainConn = Some arr \<and>
        array_get arr (conn_index cn) = Some items))"

lemma release_waiting_v1:
  assumes "\<not> forceInputNodeExecution w" "entry (waitingExecutionSource st) nm i = Some s" "map_of (w_nodes w) nm = Some n"
  shows "release_waiting w nm i d st = Inr (remove_waiting nm i (st\<lparr>nodeExecutionStack :=
    \<lparr>exec_data = d, exec_metadata = None, exec_node = n, exec_source = Some s\<rparr> # nodeExecutionStack st\<rparr>))"
  using assms by (simp add: release_waiting_def get_entry_Inr[THEN iffD2] enqueue_v1)

lemma add_waiting_step_v1:
  assumes v1: "\<not> forceInputNodeExecution w" and ok: "waiting_ok w st" and rd: "runs_ok rd"
    and node: "map_of (w_nodes w) (conn_node cn) = Some n"
    and inputs: "main_inputs_of w (conn_node cn) = Inr inputs" "length inputs > 1" "conn_index cn < length inputs"
    and out: "output_nodes_of w parent = Inr check" "\<forall>nm \<in> set check. \<exists>inputs. main_inputs_of w nm = Inr inputs"
    and items: "array_get outs oi = Some items"
  shows "\<exists>st'. addNodeToBeExecuted w rd cn oi parent (Some outs) ri st = Inr st' \<and> waiting_ok w st' \<and>
    delivered w cn (length inputs) items st st'"
proof -
  let ?nm = "conn_node cn"
  obtain i st1 d arr s sarr where add: "add_to_waiting (length inputs) cn oi parent (Some outs) ri st = Inr (i, st1)"
    and stack: "nodeExecutionStack st1 = nodeExecutionStack st"
    and at: "entry (waitingExecution st1) ?nm i = Some d" "map_of d MainConn = Some arr" "length arr = length inputs"
      "arr ! conn_index cn = array_get outs oi"
      "entry (waitingExecutionSource st1) ?nm i = Some s" "map_of s MainConn = Some sarr" "length sarr = length inputs"
    and other: "\<And>nm j. nm \<noteq> ?nm \<or> j \<noteq> i \<Longrightarrow> entry (waitingExecution st1) nm j = entry (waitingExecution st) nm j"
      "\<And>nm j. nm \<noteq> ?nm \<or> j \<noteq> i \<Longrightarrow> entry (waitingExecution st) nm j \<noteq> None \<Longrightarrow>
        entry (waitingExecutionSource st1) nm j = entry (waitingExecutionSource st) nm j"
    by (rule add_to_waiting_v1[OF ok inputs, of oi parent outs ri]) (rule that; assumption?)
  have here: "array_get arr (conn_index cn) = Some items" using at(3,4) inputs(3) items by (simp add: array_get_def)
  show ?thesis
  proof (cases "None \<in> set arr")
    case False
    let ?e = "\<lparr>exec_data = d, exec_metadata = None, exec_node = n, exec_source = Some s\<rparr>"
    let ?st = "remove_waiting ?nm i (st1\<lparr>nodeExecutionStack := ?e # nodeExecutionStack st1\<rparr>)"
    have run: "addNodeToBeExecuted w rd cn oi parent (Some outs) ri st = Inr ?st"
      using inputs False at add node
      by (simp add: addNodeToBeExecuted_def Let_def get_entry_Inr[THEN iffD2] main_of_Inr[THEN iffD2] release_waiting_v1[OF v1])
    have "waiting_ok w ?st"
      unfolding waiting_ok_def
    proof (intro allI impI)
      fix nm j x assume x: "entry (waitingExecution ?st) nm j = Some x"
      then have ne: "nm \<noteq> ?nm \<or> j \<noteq> i" and x: "entry (waitingExecution st) nm j = Some x"
        using other(1)[of nm j] by (auto simp: remove_waiting_entry split: if_splits)
      have "entry (waitingExecutionSource ?st) nm j = entry (waitingExecutionSource st) nm j"
        using remove_waiting_sources[OF ne, of "st1\<lparr>nodeExecutionStack := ?e # nodeExecutionStack st1\<rparr>"] other(1)[OF ne] other(2)[OF ne] x by simp
      with ok x show "\<exists>inputs arr s sarr. main_inputs_of w nm = Inr inputs \<and> length inputs > 1 \<and> map_of x MainConn = Some arr \<and>
          length arr = length inputs \<and> None \<in> set arr \<and> entry (waitingExecutionSource ?st) nm j = Some s \<and>
          map_of s MainConn = Some sarr \<and> length sarr = length inputs"
        unfolding waiting_ok_def by simp
    qed
    moreover have "delivered w cn (length inputs) items st ?st"
      unfolding delivered_def
      by (rule disjI1) (use node at here False stack in \<open>auto simp: remove_waiting_entry\<close>)
    ultimately show ?thesis using run by blast
  next
    case True
    let ?st = "(prepareWaitingToExecution ?nm (length inputs) i st1)
      \<lparr>waitingExecution := put_entry ?nm i [(MainConn, arr)] (waitingExecution (prepareWaitingToExecution ?nm (length inputs) i st1)),
       waitingExecutionSource := put_entry ?nm i [(MainConn, sarr)] (waitingExecutionSource (prepareWaitingToExecution ?nm (length inputs) i st1))\<rparr>"
    have "array_put (conn_index cn) (array_get outs oi) arr = arr"
      using at(3,4) inputs(3) by (simp add: array_put_def list_update_same_conv)
    then have keep: "keep_waiting (length inputs) ?nm i (conn_index cn) (array_get outs oi) st1 = Inr ?st"
      using at by (simp add: keep_waiting_def Let_def get_entry_Inr[THEN iffD2] main_of_Inr[THEN iffD2])
    have run: "addNodeToBeExecuted w rd cn oi parent (Some outs) ri st = Inr ?st"
      using inputs True at add keep force_inputs_v1[OF v1 rd out inputs(1)]
      by (simp add: addNodeToBeExecuted_def Let_def get_entry_Inr[THEN iffD2] main_of_Inr[THEN iffD2] output_at_def)
    have e: "entry (waitingExecution ?st) nm j = (if nm = ?nm \<and> j = i then Some [(MainConn, arr)] else entry (waitingExecution st1) nm j)"
      "entry (waitingExecutionSource ?st) nm j = (if nm = ?nm \<and> j = i then Some [(MainConn, sarr)] else entry (waitingExecutionSource st1) nm j)" for nm j
      by (simp_all add: prepareWaitingToExecution_def)
    have "waiting_ok w ?st"
      unfolding waiting_ok_def e
      using ok other at inputs True by (auto simp: waiting_ok_def)
    moreover have "delivered w cn (length inputs) items st ?st"
      unfolding delivered_def e
      by (rule disjI2) (use here stack inputs in \<open>auto simp: prepareWaitingToExecution_def\<close>)
    ultimately show ?thesis using run by blast
  qed
qed

text \<open>C9: In the execution order \<open>v1\<close>, let no recorded run have \<open>null\<close> for an output (the code reads its length and
  throws), let the waiting entries be well-formed and the node, its inputs and the nodes after the parent be known.
  Then adding the node with the data of one of its inputs does not throw and the data is not lost: it is in a new entry
  on top of the stack, and for a node with several inputs only once every input has data, or in a waiting entry of the
  node. Waiting entries stay incomplete.\<close>

theorem addNodeToBeExecuted_delivers:
  assumes "\<not> forceInputNodeExecution w" and "waiting_ok w st" and "runs_ok rd"
    and "map_of (w_nodes w) (conn_node cn) = Some n"
    and "main_inputs_of w (conn_node cn) = Inr inputs" and "conn_index cn < length inputs"
    and "output_nodes_of w parent = Inr check" and "\<forall>nm \<in> set check. \<exists>inputs. main_inputs_of w nm = Inr inputs"
    and "array_get outs oi = Some items"
  shows "\<exists>st'. addNodeToBeExecuted w rd cn oi parent (Some outs) ri st = Inr st' \<and> waiting_ok w st' \<and>
    delivered w cn (length inputs) items st st'"
proof (cases "length inputs > 1")
  case True
  then show ?thesis using add_waiting_step_v1[OF assms(1-5) True assms(6-9)] by blast
next
  case False
  let ?arr = "array_put (conn_index cn) (Some items) (replicate (Suc (conn_index cn)) None)"
  let ?e = "\<lparr>exec_data = [(MainConn, ?arr)], exec_metadata = None, exec_node = n,
    exec_source = Some [(MainConn, [Some (source_entry parent oi ri)])]\<rparr>"
  have "addNodeToBeExecuted w rd cn oi parent (Some outs) ri st = Inr (st\<lparr>nodeExecutionStack := ?e # nodeExecutionStack st\<rparr>)"
    using assms False by (simp add: addNodeToBeExecuted_def enqueue_v1 output_at_def)
  moreover have "waiting_ok w (st\<lparr>nodeExecutionStack := ?e # nodeExecutionStack st\<rparr>)" using assms(2) by (simp add: waiting_ok_def)
  moreover have "delivered w cn (length inputs) items st (st\<lparr>nodeExecutionStack := ?e # nodeExecutionStack st\<rparr>)"
    unfolding delivered_def by (rule disjI1) (use False assms(4) in simp)
  ultimately show ?thesis by blast
qed

text \<open>A waiting entry without a single item on any input.\<close>

definition no_items :: "INodeExecutionData list option list \<Rightarrow> bool" where
  "no_items arr \<longleftrightarrow> (\<forall>x \<in> set arr. x = None \<or> x = Some [])"

definition only_dropped :: "StackState \<Rightarrow> StackState \<Rightarrow> string \<Rightarrow> nat \<Rightarrow> bool" where
  "only_dropped st st' nm i \<longleftrightarrow> entry (waitingExecution st') nm i = entry (waitingExecution st) nm i \<or>
     entry (waitingExecution st') nm i = None \<and>
     (\<exists>d arr. entry (waitingExecution st) nm i = Some d \<and> map_of d MainConn = Some arr \<and> no_items arr)"

definition picked :: "Workflow \<Rightarrow> StackState \<Rightarrow> StackState \<Rightarrow> bool" where
  "picked w st st' \<longleftrightarrow>
     (nodeExecutionStack st' = nodeExecutionStack st \<and> (\<forall>nm i. only_dropped st st' nm i)) \<or>
     (\<exists>e nm i d arr k. nodeExecutionStack st' = nodeExecutionStack st @ [e] \<and> map_of (w_nodes w) nm = Some (exec_node e) \<and>
        entry (waitingExecution st) nm i = Some d \<and> map_of d MainConn = Some arr \<and> \<not> no_items arr \<and>
        exec_data e = [(MainConn, map Some (pad_inputs k (map (\<lambda>x. or_else x []) arr)))] \<and>
        entry (waitingExecution st') nm i = None \<and> (\<forall>nm' j. nm' \<noteq> nm \<or> j \<noteq> i \<longrightarrow> only_dropped st st' nm' j))"

lemma filled_no_items: "filter (\<lambda>items. items \<noteq> []) (map (\<lambda>x. or_else x []) arr) = [] \<longleftrightarrow> no_items arr"
  by (induction arr) (auto simp: no_items_def or_else_def split: option.splits)

lemma judge_waiting_cases:
  "judge_waiting describe w ns st nm = Inr (Dropped i) \<Longrightarrow>
     \<exists>d arr. entry (waitingExecution st) nm i = Some d \<and> map_of d MainConn = Some arr \<and> no_items arr"
  "judge_waiting describe w ns st nm = Inr (Runs i ds) \<Longrightarrow>
     \<exists>d arr k. entry (waitingExecution st) nm i = Some d \<and> map_of d MainConn = Some arr \<and> \<not> no_items arr \<and>
       ds = pad_inputs k (map (\<lambda>x. or_else x []) arr)"
  unfolding judge_waiting_def Let_def filled_no_items
  by (auto simp: result_simps get_entry_Inr main_of_Inr split: option.splits if_splits)

lemma only_dropped_remove:
  assumes "entry (waitingExecution st) nm i = Some d" "map_of d MainConn = Some arr" "no_items arr"
    and "only_dropped (remove_waiting nm i st) st' nm' j"
  shows "only_dropped st st' nm' j"
  using assms by (auto simp: only_dropped_def remove_waiting_entry split: if_splits)

text \<open>
  The search among the waiting nodes ends, and what it takes out of the tables are entries
  without a single item, and at most one entry with items, which becomes the new end of the stack with
  an empty input for every input that has none.
\<close>

theorem pick_waiting_exact:
  assumes "pick_waiting describe w ns names st = Inr st'"
  shows "picked w st st'"
  using assms
proof (induction describe w ns names st rule: pick_waiting.induct)
  case (1 describe w ns st)
  then show ?case by (simp add: picked_def only_dropped_def)
next
  case (2 describe w ns nm nms st)
  from "2.prems" obtain v where v: "judge_waiting describe w ns st nm = Inr v" by (auto simp: result_simps)
  show ?case
  proof (cases v)
    case NotYet
    with v "2.IH"(1) "2.prems" show ?thesis by simp
  next
    case (Dropped i)
    let ?st = "remove_waiting nm i st"
    from "2.IH"(2)[OF v Dropped refl refl] "2.prems" v Dropped have p: "picked w ?st st'" by (simp add: Let_def)
    from judge_waiting_cases(1) v Dropped obtain d arr where
      gone: "entry (waitingExecution st) nm i = Some d" "map_of d MainConn = Some arr" "no_items arr" by blast
    have other: "only_dropped ?st st' nm' j \<Longrightarrow> only_dropped st st' nm' j" for nm' j
      by (rule only_dropped_remove[OF gone])
    have prior: "entry (waitingExecution ?st) nm' j = Some x \<Longrightarrow> entry (waitingExecution st) nm' j = Some x" for nm' j x
      by (simp add: remove_waiting_entry split: if_splits)
    show ?thesis
    proof (cases "nodeExecutionStack st' = nodeExecutionStack st \<and> (\<forall>nm' j. only_dropped ?st st' nm' j)")
      case True
      with other show ?thesis unfolding picked_def by blast
    next
      case False
      with p obtain e nm' i' d' arr' k where "nodeExecutionStack st' = nodeExecutionStack st @ [e]"
        "map_of (w_nodes w) nm' = Some (exec_node e)" "entry (waitingExecution ?st) nm' i' = Some d'"
        "map_of d' MainConn = Some arr'" "\<not> no_items arr'"
        "exec_data e = [(MainConn, map Some (pad_inputs k (map (\<lambda>x. or_else x []) arr')))]"
        "entry (waitingExecution st') nm' i' = None"
        "\<forall>nm'' j. nm'' \<noteq> nm' \<or> j \<noteq> i' \<longrightarrow> only_dropped ?st st' nm'' j"
        unfolding picked_def remove_waiting_entry(2) by blast
      with other prior show ?thesis unfolding picked_def by blast
    qed
  next
    case (Runs i ds)
    from judge_waiting_cases(2) v Runs obtain d arr k where
      at: "entry (waitingExecution st) nm i = Some d" "map_of d MainConn = Some arr" "\<not> no_items arr"
      "ds = pad_inputs k (map (\<lambda>x. or_else x []) arr)" by blast
    from "2.prems" v Runs obtain src n where n: "map_of (w_nodes w) nm = Some n"
      "st' = remove_waiting nm i (st\<lparr>nodeExecutionStack := nodeExecutionStack st @
        [\<lparr>exec_data = [(MainConn, map Some ds)], exec_metadata = None, exec_node = n, exec_source = Some src\<rparr>]\<rparr>)"
      by (auto simp: result_simps split: option.splits)
    show ?thesis
      unfolding picked_def
      by (rule disjI2) (use at n in \<open>auto simp: remove_waiting_entry only_dropped_def\<close>)
  qed
qed

section \<open>The work that is pending\<close>

text \<open>
  The names of the entries of the stack and of all waiting entries, counted with multiplicity. Adding a
  node in the order \<open>v1\<close> adds one name at most: the data opens a new entry, joins one, or moves one from
  the waiting tables to the stack.
\<close>

definition waiting_names :: "(string, (nat, 'a) js_map) js_map \<Rightarrow> string multiset" where
  "waiting_names t = (\<Sum>(nm, m) \<leftarrow> t. replicate_mset (length m) nm)"

definition pending :: "StackState \<Rightarrow> string multiset" where
  "pending st = mset (stack_names st) + waiting_names (waitingExecution st)"

definition names_match :: "Workflow \<Rightarrow> bool" where
  "names_match w \<longleftrightarrow> (\<forall>nm n. map_of (w_nodes w) nm = Some n \<longrightarrow> node_name n = nm)"

lemma waiting_names_put:
  "waiting_names (js_put nm m t) + replicate_mset (length (entries_of t nm)) nm = waiting_names t + replicate_mset (length m) nm"
  by (induction t) (auto simp: waiting_names_def entries_of_def or_else_def ac_simps split: option.splits)

lemma waiting_names_del: "waiting_names (js_del nm t) \<subseteq># waiting_names t"
  by (induction t) (auto simp: waiting_names_def js_del_def intro: subset_mset.add_mono subset_mset.add_increasing)

lemma js_put_length: "length (js_put i x m) = (if map_of m i = None then Suc (length m) else length m)"
  by (induction m) auto

lemma replicate_mset_add: "replicate_mset (m + n) x = replicate_mset m x + replicate_mset n x"
  by (induction m) auto

lemma put_entry_names:
  "waiting_names (put_entry nm i x t) = (if entry t nm i = None then add_mset nm (waiting_names t) else waiting_names t)"
  using waiting_names_put[of nm "js_put i x (entries_of t nm)" t]
  by (auto simp: put_entry_def js_put_length entry_def)

lemma remove_waiting_names:
  assumes "entry (waitingExecution st) nm i = Some x"
  shows "add_mset nm (waiting_names (waitingExecution (remove_waiting nm i st))) \<subseteq># waiting_names (waitingExecution st)"
proof -
  let ?t = "waitingExecution st"
  from assms obtain m where m: "map_of ?t nm = Some m" "map_of m i = Some x" "entries_of ?t nm = m"
    by (auto simp: entry_def entries_of_def or_else_def split: option.splits)
  obtain k where k: "length m = Suc (length (js_del i m) + k)" using js_del_length[OF m(2)] less_iff_Suc_add by auto
  have "waiting_names ?t + replicate_mset (length (js_del i m)) nm = waiting_names (del_entry nm i ?t) + replicate_mset (length m) nm"
    using waiting_names_put[of nm "js_del i m" ?t] m by (simp add: del_entry_def)
  then have "waiting_names ?t + replicate_mset (length (js_del i m)) nm =
      (add_mset nm (waiting_names (del_entry nm i ?t)) + replicate_mset k nm) + replicate_mset (length (js_del i m)) nm"
    unfolding k by (simp add: replicate_mset_add ac_simps)
  then have "waiting_names ?t = add_mset nm (waiting_names (del_entry nm i ?t)) + replicate_mset k nm"
    by (rule add_right_imp_eq)
  then have "add_mset nm (waiting_names (del_entry nm i ?t)) \<subseteq># waiting_names ?t" by simp
  moreover have "waiting_names (js_del nm (del_entry nm i ?t)) \<subseteq># waiting_names (del_entry nm i ?t)" by (rule waiting_names_del)
  ultimately show ?thesis
    by (auto simp: remove_waiting_def Let_def intro: subset_mset.order_trans[OF mset_subset_eq_add_mset_cancel[THEN iffD2]])
qed

lemma remove_waiting_pending:
  assumes "entry (waitingExecution st) nm i = Some x"
  shows "add_mset nm (pending (remove_waiting nm i st)) \<subseteq># pending st"
  using remove_waiting_names[OF assms] by (simp add: pending_def stack_names_def remove_waiting_entry(2))

lemma prepare_pending:
  "pending (prepareWaitingToExecution nm k i st) =
    (if entry (waitingExecution st) nm i = None then add_mset nm (pending st) else pending st)"
  "nodeExecutionStack (prepareWaitingToExecution nm k i st) = nodeExecutionStack st"
  by (auto simp: prepareWaitingToExecution_def pending_def stack_names_def put_entry_names)

lemma set_input_names:
  assumes "set_input nm i idx x t = Inr t'"
  shows "waiting_names t' = waiting_names t"
  using assms by (auto simp: set_input_def result_simps get_entry_Inr put_entry_names)

lemma add_to_waiting_pending:
  assumes "add_to_waiting k cn oi parent d ri st = Inr (i, st')"
  shows "pending st' \<subseteq># add_mset (conn_node cn) (pending st)" "nodeExecutionStack st' = nodeExecutionStack st"
proof -
  let ?nm = "conn_node cn"
  define st1 where "st1 = (if map_of (waitingExecution st) ?nm = None
      then st\<lparr>waitingExecution := js_put ?nm [] (waitingExecution st), waitingExecutionSource := js_put ?nm [] (waitingExecutionSource st)\<rparr> else st)"
  have st1: "pending st1 = pending st" "nodeExecutionStack st1 = nodeExecutionStack st"
    using waiting_names_put[of ?nm "[]" "waitingExecution st"]
    by (auto simp: st1_def pending_def stack_names_def entries_of_def or_else_def)
  from assms obtain found we ws where found: "i = (case found of Some i \<Rightarrow> i | None \<Rightarrow> length (entries_of (waitingExecution st1) ?nm))"
    "set_input ?nm i (conn_index cn) (output_at d oi)
       (waitingExecution (if found = None then prepareWaitingToExecution ?nm k i st1 else st1)) = Inr we"
    "st' = (if found = None then prepareWaitingToExecution ?nm k i st1 else st1)\<lparr>waitingExecution := we, waitingExecutionSource := ws\<rparr>"
    unfolding add_to_waiting_def Let_def st1_def[symmetric] by (auto simp: result_simps)
  have st': "pending st' = pending (if found = None then prepareWaitingToExecution ?nm k i st1 else st1)"
    unfolding found(3) using set_input_names[OF found(2)] by (simp add: pending_def stack_names_def)
  show "pending st' \<subseteq># add_mset ?nm (pending st)" unfolding st' using st1(1) by (auto simp: prepare_pending)
  show "nodeExecutionStack st' = nodeExecutionStack st" unfolding found(3) using st1(2) by (simp add: prepare_pending)
qed

lemma force_input_keeps: "\<not> forceInputNodeExecution w \<Longrightarrow> force_input w rd check parent oi d ri cn st = Inr st' \<Longrightarrow> st' = st"
  by (auto simp: force_input_def Let_def result_simps split: if_splits)

lemma force_inputs_keeps: "\<not> forceInputNodeExecution w \<Longrightarrow> force_inputs w rd nm parent oi d ri st = Inr st' \<Longrightarrow> st' = st"
proof -
  assume a: "\<not> forceInputNodeExecution w" "force_inputs w rd nm parent oi d ri st = Inr st'"
  have "rfold (force_input w rd check parent oi d ri) cns st = Inr st' \<Longrightarrow> st' = st" for check cns
    by (induction cns) (auto simp: result_simps dest: force_input_keeps[OF a(1)])
  with a(2) show ?thesis by (auto simp: force_inputs_def result_simps)
qed

lemma stack_has_main_Cons:
  "stack_has_main st \<Longrightarrow> map_of (exec_data e) MainConn \<noteq> None \<Longrightarrow> nodeExecutionStack st' = e # nodeExecutionStack st \<Longrightarrow> stack_has_main st'"
  by (simp add: stack_has_main_def)

lemma addNodeToBeExecuted_pending:
  assumes v1: "\<not> forceInputNodeExecution w" and names: "names_match w"
    and run: "addNodeToBeExecuted w rd cn oi parent d ri st = Inr st'"
  shows "pending st' \<subseteq># add_mset (conn_node cn) (pending st)" "stack_has_main st \<Longrightarrow> stack_has_main st'"
proof -
  let ?nm = "conn_node cn"
  from run obtain inputs where inputs: "main_inputs_of w ?nm = Inr inputs" by (auto simp: addNodeToBeExecuted_def result_simps)
  have "pending st' \<subseteq># add_mset ?nm (pending st) \<and> (stack_has_main st \<longrightarrow> stack_has_main st')"
  proof (cases "length inputs > 1")
    case False
    with run inputs obtain n where n: "map_of (w_nodes w) ?nm = Some n"
      and st': "st' = st\<lparr>nodeExecutionStack := \<lparr>exec_data = [(MainConn, array_put (conn_index cn) (output_at d oi) (replicate (Suc (conn_index cn)) None))],
        exec_metadata = None, exec_node = n, exec_source = Some [(MainConn, [Some (source_entry parent oi ri)])]\<rparr> # nodeExecutionStack st\<rparr>"
      by (auto simp: addNodeToBeExecuted_def enqueue_v1[OF v1] split: option.splits)
    have "node_name n = ?nm" using names n by (simp add: names_match_def)
    then show ?thesis unfolding st' by (simp add: pending_def stack_names_def stack_has_main_def)
  next
    case True
    with run inputs obtain i st1 where add: "add_to_waiting (length inputs) cn oi parent d ri st = Inr (i, st1)"
      by (auto simp: addNodeToBeExecuted_def Let_def result_simps)
    from run add inputs True obtain e arr where e: "entry (waitingExecution st1) ?nm i = Some e" "map_of e MainConn = Some arr"
      by (auto simp: addNodeToBeExecuted_def Let_def result_simps get_entry_Inr main_of_Inr)
    note waits = add_to_waiting_pending[OF add]
    show ?thesis
    proof (cases "None \<in> set arr")
      case False
      with run inputs True add e obtain n s where n: "map_of (w_nodes w) ?nm = Some n"
        and st': "st' = remove_waiting ?nm i (st1\<lparr>nodeExecutionStack := \<lparr>exec_data = e, exec_metadata = None, exec_node = n, exec_source = Some s\<rparr> # nodeExecutionStack st1\<rparr>)"
        by (auto simp: addNodeToBeExecuted_def Let_def result_simps get_entry_Inr main_of_Inr release_waiting_def enqueue_v1[OF v1] split: option.splits)
      have "node_name n = ?nm" using names n by (simp add: names_match_def)
      then have "pending (st1\<lparr>nodeExecutionStack := \<lparr>exec_data = e, exec_metadata = None, exec_node = n, exec_source = Some s\<rparr> # nodeExecutionStack st1\<rparr>)
          = add_mset ?nm (pending st1)" by (simp add: pending_def stack_names_def)
      with remove_waiting_pending[of "st1\<lparr>nodeExecutionStack := \<lparr>exec_data = e, exec_metadata = None, exec_node = n, exec_source = Some s\<rparr> # nodeExecutionStack st1\<rparr>" ?nm i e] e(1)
      have "pending st' \<subseteq># pending st1" unfolding st' by simp
      with waits(1) e(2) waits(2) show ?thesis
        unfolding st' by (auto simp: stack_has_main_def remove_waiting_entry(2))
    next
      case True
      with run inputs \<open>length inputs > 1\<close> add e obtain st2 where
        "st2 = st1 \<or> force_inputs w rd ?nm parent oi d ri st1 = Inr st2"
        "keep_waiting (length inputs) ?nm i (conn_index cn) (output_at d oi) st2 = Inr st'"
        by (auto simp: addNodeToBeExecuted_def Let_def result_simps get_entry_Inr main_of_Inr split: if_splits)
      then have "keep_waiting (length inputs) ?nm i (conn_index cn) (output_at d oi) st1 = Inr st'"
        using force_inputs_keeps[OF v1] by blast
      then have "pending st' = pending st1" "nodeExecutionStack st' = nodeExecutionStack st1"
        using e(1) by (auto simp: keep_waiting_def Let_def result_simps get_entry_Inr pending_def stack_names_def
          prepareWaitingToExecution_def put_entry_names)
      with waits show ?thesis by (simp add: stack_has_main_def)
    qed
  qed
  then show "pending st' \<subseteq># add_mset ?nm (pending st)" "stack_has_main st \<Longrightarrow> stack_has_main st'" by blast+
qed

lemma pick_waiting_pending:
  assumes "names_match w" "pick_waiting describe w ns names st = Inr st'" "stack_has_main st"
  shows "pending st' \<subseteq># pending st \<and> stack_has_main st'"
  using assms
proof (induction describe w ns names st rule: pick_waiting.induct)
  case (2 describe w ns nm nms st)
  from "2.prems"(2) obtain v where v: "judge_waiting describe w ns st nm = Inr v" by (auto simp: result_simps)
  show ?case
  proof (cases v)
    case NotYet
    with v "2.IH"(1) "2.prems" show ?thesis by simp
  next
    case (Dropped i)
    let ?st = "remove_waiting nm i st"
    have "stack_has_main ?st" using "2.prems"(3) by (simp add: stack_has_main_def remove_waiting_entry(2))
    with "2.IH"(2)[OF v Dropped refl refl] "2.prems"(1,2) v Dropped
    have IH: "pending st' \<subseteq># pending ?st \<and> stack_has_main st'" by (simp add: Let_def)
    from judge_waiting_cases(1) v Dropped obtain d where "entry (waitingExecution st) nm i = Some d" by blast
    from remove_waiting_pending[OF this] have "pending ?st \<subseteq># pending st" by (rule subset_mset.order_trans[rotated]) simp
    with IH show ?thesis by (blast intro: subset_mset.order_trans)
  next
    case (Runs i ds)
    from judge_waiting_cases(2) v Runs obtain d where at: "entry (waitingExecution st) nm i = Some d" by blast
    from "2.prems"(2) v Runs obtain src n where n: "map_of (w_nodes w) nm = Some n"
      and st': "st' = remove_waiting nm i (st\<lparr>nodeExecutionStack := nodeExecutionStack st @
        [\<lparr>exec_data = [(MainConn, map Some ds)], exec_metadata = None, exec_node = n, exec_source = Some src\<rparr>]\<rparr>)"
      by (auto simp: result_simps split: option.splits)
    let ?st = "st\<lparr>nodeExecutionStack := nodeExecutionStack st @
        [\<lparr>exec_data = [(MainConn, map Some ds)], exec_metadata = None, exec_node = n, exec_source = Some src\<rparr>]\<rparr>"
    have "node_name n = nm" using "2.prems"(1) n by (simp add: names_match_def)
    then have "pending ?st = add_mset nm (pending st)" by (simp add: pending_def stack_names_def)
    with remove_waiting_pending[of ?st nm i d] at "2.prems"(3) show ?thesis
      unfolding st' by (simp add: stack_has_main_def remove_waiting_entry(2))
  qed
qed simp

section \<open>Examples\<close>

definition run_order_v1 :: "(string, json) js_map" where
  "run_order_v1 = [(''executionOrder'', JStr ''v1'')]"

definition main_to :: "string \<Rightarrow> nat \<Rightarrow> IConnection" where
  "main_to nm i = \<lparr>conn_node = nm, conn_type = MainConn, conn_index = i\<rparr>"

definition small_workflow :: "string list \<Rightarrow> (string \<times> IConnection list) list \<Rightarrow> Workflow" where
  "small_workflow names cs = new_workflow (\<lambda>_ _. None)
     \<lparr>wp_id = ''1'', wp_name = None, wp_nodes = map (\<lambda>(i, nm). plain_node i nm ''t'') (enumerate 0 names),
      wp_connections = map (\<lambda>(s, l). (s, [(MainConn, [Some l])])) cs,
      wp_active = False, wp_nodeTypes = (\<lambda>_ _. None), wp_staticData = None, wp_settings = Some run_order_v1, wp_pinData = None\<rparr>"

definition merging :: Workflow where
  "merging = small_workflow [''a'', ''b'', ''m''] [(''a'', [main_to ''m'' 0]), (''b'', [main_to ''m'' 1])]"

definition idle_stack :: StackState where
  "idle_stack = \<lparr>nodeExecutionStack = [], waitingExecution = [], waitingExecutionSource = []\<rparr>"

definition numbered :: "nat \<Rightarrow> INodeExecutionData" where
  "numbered k = [(''json'', JObj [(''n'', JNum (of_nat k))])]"

definition add_numbered :: "string \<Rightarrow> nat \<Rightarrow> nat \<Rightarrow> nat \<Rightarrow> StackState \<Rightarrow> StackState result" where
  "add_numbered src i ri k = addNodeToBeExecuted merging [] (main_to ''m'' i) 0 src (Some [Some [numbered k]]) ri"

lemma addNodeToBeExecuted_delivers_witness:
  "\<exists>st'. add_numbered ''a'' 0 0 7 idle_stack = Inr st' \<and> waiting_ok merging st' \<and>
    delivered merging (main_to ''m'' 0) 2 [numbered 7] idle_stack st'"
proof -
  have v1: "\<not> forceInputNodeExecution merging" by code_simp
  have ok: "waiting_ok merging idle_stack" by (simp add: waiting_ok_def idle_stack_def entry_def entries_of_def or_else_def)
  have runs: "runs_ok []" by (simp add: runs_ok_def)
  have "case map_of (w_nodes merging) ''m'' of None \<Rightarrow> False | Some _ \<Rightarrow> True" by code_simp
  then obtain n where n: "map_of (w_nodes merging) (conn_node (main_to ''m'' 0)) = Some n"
    by (auto simp: main_to_def split: option.splits)
  have "case main_inputs_of merging ''m'' of Inr inputs \<Rightarrow> length inputs = 2 | _ \<Rightarrow> False" by code_simp
  then obtain inputs where inputs: "main_inputs_of merging (conn_node (main_to ''m'' 0)) = Inr inputs" "length inputs = 2"
    by (auto simp: main_to_def split: sum.splits)
  have out: "output_nodes_of merging ''a'' = Inr [''m'']" by code_simp
  have data: "array_get [Some [numbered 7]] 0 = Some [numbered 7]" by (simp add: array_get_def)
  have "conn_index (main_to ''m'' 0) < length inputs" using inputs(2) by (simp add: main_to_def)
  from addNodeToBeExecuted_delivers[OF v1 ok runs n inputs(1) this out _ data] inputs show ?thesis
    by (simp add: add_numbered_def main_to_def)
qed

definition one_input :: "INode \<Rightarrow> InputDescription option" where
  "one_input n = Some \<lparr>in_required = Some (RequiredCount 1), in_length = 2\<rparr>"

lemma pick_waiting_exact_witness:
  "\<exists>st st'. add_numbered ''a'' 0 0 7 idle_stack = Inr st \<and> pick_waiting one_input merging [''m''] [''m''] st = Inr st' \<and>
    picked merging st st' \<and> stack_names st' = [''m'']"
proof -
  have "case add_numbered ''a'' 0 0 7 idle_stack of Inl _ \<Rightarrow> False | Inr st \<Rightarrow>
      (case pick_waiting one_input merging [''m''] [''m''] st of Inl _ \<Rightarrow> False | Inr st' \<Rightarrow> stack_names st' = [''m''])"
    by code_simp
  then obtain st st' where "add_numbered ''a'' 0 0 7 idle_stack = Inr st"
    "pick_waiting one_input merging [''m''] [''m''] st = Inr st'" "stack_names st' = [''m'']"
    by (auto split: sum.splits)
  with pick_waiting_exact[of one_input merging "[''m'']" "[''m'']" st st'] show ?thesis by blast
qed

text \<open>
  A new entry gets the number of the entries of the node as its index. With the entry 1 alone that is 1
  again: the data of run 1 of node \<open>a\<close>, which waits there, is overwritten with that of run 2.
\<close>

lemma waiting_entry_overwritten:
  "case rbind (rbind (rbind (add_numbered ''a'' 0 0 10 idle_stack) (add_numbered ''a'' 0 1 11)) (add_numbered ''b'' 1 0 20))
     (\<lambda>st. rbind (add_numbered ''a'' 0 2 12 st) (\<lambda>st'. Inr (st, st'))) of
     Inl _ \<Rightarrow> False
   | Inr (st, st') \<Rightarrow> map fst (entries_of (waitingExecution st) ''m'') = [1] \<and>
       entry (waitingExecution st) ''m'' 1 = Some [(MainConn, [Some [numbered 11], None])] \<and>
       entry (waitingExecution st') ''m'' 1 = Some [(MainConn, [Some [numbered 12], None])] \<and>
       length (nodeExecutionStack st') = length (nodeExecutionStack st)"
  by code_simp

text \<open>The indices are sorted as strings, so run 10 comes before run 9.\<close>

lemma first_run_index_as_string: "first_run_index [(9, ()), (10, ())] = Inr 10"
  by code_simp

end
