(* ===== verification/RunNode.thy ===== *)
theory RunNode
  imports NodeScheduling
begin

text \<open>
  One node execution: \<open>runNode\<close>, \<open>getCustomOperation\<close>, \<open>assignPairedItems\<close>, \<open>handleNodeErrorOutput\<close> and the
  loop over the tries (\<^verbatim>\<open>packages/core/src/execution-engine/workflow-execute.ts\<close>).

  What a node type does when it is called is an argument of the model: \<open>env_execute\<close> gives the outcome
  of the calls of its \<open>execute\<close>, \<open>poll\<close>, \<open>trigger\<close> or routing function, numbered within one iteration of
  the run loop, which the execution index names. An arbitrary function covers every behaviour,
  errors and requests to wait included. The clock, the evaluation of the outputs of a node and the
  resolution of paired items are arguments too.
\<close>

section \<open>The environment\<close>

text \<open>What the engine reads of a node type.\<close>

record NodeKind =
  nk_execute :: bool
  nk_customOperations :: "(string \<times> string) list option"
  nk_poll :: bool
  nk_trigger :: bool
  nk_webhook :: bool
  nk_requestDefaults :: bool

datatype NodeData =
    DataUndefined
  | DataNull
  | DataOutputs "INodeExecutionData list option list"

record IRunNodeResponse =
  nr_data :: NodeData
  nr_hints :: "json list"
  nr_waits :: bool

text \<open>A call throws or returns; it may have asked to put the execution to wait before.\<close>

datatype NodeOutcome = Threw json bool | Gave IRunNodeResponse

record NodeToAdd =
  na_position :: "rat \<times> rat"
  na_connection :: IConnection
  na_outputIndex :: nat

record RunEnv =
  env_mode :: WorkflowExecuteMode
  env_kind :: "INode \<Rightarrow> NodeKind option"
  env_describe :: "INode \<Rightarrow> InputDescription option"
  env_outputTypes :: "INode \<Rightarrow> NodeConnectionType list"
  env_execute :: "nat \<Rightarrow> nat \<Rightarrow> INode \<Rightarrow> nat \<Rightarrow> ITaskDataConnections \<Rightarrow> NodeOutcome"
  env_pairedItem :: "string \<Rightarrow> ISourceData \<Rightarrow> json \<Rightarrow> INodeExecutionData option result"
  env_timedOut :: "nat \<Rightarrow> bool"
  env_aborted :: "nat \<Rightarrow> bool"
  env_startTime :: "nat \<Rightarrow> int"
  env_executionTime :: "nat \<Rightarrow> int"
  env_sort :: "(NodeToAdd \<Rightarrow> NodeToAdd \<Rightarrow> int) \<Rightarrow> NodeToAdd list \<Rightarrow> NodeToAdd list"

datatype HookCall =
    NodeExecuteBefore string nat
  | NodeExecuteAfter string nat
  | SendErrorChunk string nat

text \<open>
  The state of an execution together with the variables of the run loop: the last try, as name and
  run index, and the error of the current iteration.
\<close>

record RunState = WorkflowExecute +
  rs_waitTill :: bool
  rs_lastNodeExecuted :: "string option"
  rs_error :: "json option"
  rs_metadata :: "(string, ITaskMetadata list) js_map"
  rs_lastTry :: "(string \<times> nat) option"
  rs_executionError :: "json option"
  rs_hooks :: "HookCall list"

section \<open>Errors and items\<close>

definition error_object :: "string \<Rightarrow> json" where
  "error_object msg = JObj [(''message'', JStr msg)]"

definition error_json :: "js_error \<Rightarrow> json" where
  "error_json e = (case e of
     AssertionError \<Rightarrow> error_object ''Assertion failed'' | TypeError \<Rightarrow> error_object ''TypeError''
   | UserError s \<Rightarrow> error_object s | ApplicationError s \<Rightarrow> error_object s | OperationalError s \<Rightarrow> error_object s
   | UnexpectedError s \<Rightarrow> error_object s | Diverges \<Rightarrow> error_object ''Maximum call stack size exceeded'')"

definition json_field :: "INodeExecutionData \<Rightarrow> string \<Rightarrow> json option" where
  "json_field it k = (case map_of it ''json'' of Some (JObj fs) \<Rightarrow> map_of fs k | _ \<Rightarrow> None)"

definition json_nat :: "nat \<Rightarrow> json" where
  "json_nat n = JNum (of_nat n)"

text \<open>\<open>{ item, input }\<close>, where \<open>input\<close> is left out for the first one.\<close>

definition paired_item :: "nat \<Rightarrow> nat \<Rightarrow> json" where
  "paired_item itemIndex inputIndex =
     JObj ((''item'', json_nat itemIndex) # (if inputIndex = 0 then [] else [(''input'', json_nat inputIndex)]))"

definition pair_items :: "nat \<Rightarrow> INodeExecutionData list \<Rightarrow> INodeExecutionData list" where
  "pair_items inputIndex items =
     map (\<lambda>(itemIndex, it). js_put ''pairedItem'' (paired_item itemIndex inputIndex) it) (enumerate 0 items)"

definition pair_inputs :: "ITaskDataConnections \<Rightarrow> ITaskDataConnections" where
  "pair_inputs d = map (\<lambda>(ty, inputs). (ty, map (\<lambda>(i, items). map_option (pair_items i) items) (enumerate 0 inputs))) d"

section \<open>runNode\<close>

definition response :: "NodeData \<Rightarrow> NodeOutcome" where
  "response d = Gave \<lparr>nr_data = d, nr_hints = [], nr_waits = False\<rparr>"

definition main_data :: "ITaskDataConnections \<Rightarrow> NodeData" where
  "main_data d = (case map_of d MainConn of None \<Rightarrow> DataUndefined | Some outs \<Rightarrow> DataOutputs outs)"

definition getCustomOperation :: "INode \<Rightarrow> NodeKind \<Rightarrow> bool" where
  "getCustomOperation n kind = (case nk_customOperations kind of
     None \<Rightarrow> False
   | Some ops \<Rightarrow> (case (case node_forceCustomOperation n of
          Some (r, p) \<Rightarrow> (Some (JStr r), Some (JStr p))
        | None \<Rightarrow> (map_of (node_parameters n) ''resource'', map_of (node_parameters n) ''operation'')) of
       (Some (JStr r), Some (JStr p)) \<Rightarrow> (r, p) \<in> set ops
     | _ \<Rightarrow> False))"

text \<open>
  The data an executing node works on. In the order \<open>v1\<close> the first input with any data counts; a first
  input that is \<open>null\<close> has no length.
\<close>

definition connection_input :: "Workflow \<Rightarrow> ITaskDataConnections \<Rightarrow> INodeExecutionData list option result" where
  "connection_input w d =
     (let first = (case map_of d MainConn of Some (x # _) \<Rightarrow> x | _ \<Rightarrow> Some [])
      in if forceInputNodeExecution w then Inr first
         else rbind (main_of d) (\<lambda>inputs.
           case List.find (\<lambda>x. x \<noteq> None \<and> x \<noteq> Some []) inputs of Some x \<Rightarrow> Inr x | None \<Rightarrow> Inr first))"

definition execute_once :: "ITaskDataConnections \<Rightarrow> ITaskDataConnections" where
  "execute_once d = map (\<lambda>(ty, inputs). (ty, map (map_option (take 1)) inputs)) d"

text \<open>
  A recorded error that is thrown again: an error of one of the two node error classes itself, otherwise a
  new error with its message and stack.
\<close>

definition rethrown :: "json \<Rightarrow> json" where
  "rethrown e = (case e of
     JObj fs \<Rightarrow>
       if map_of fs ''name'' = Some (JStr ''NodeOperationError'') \<or> map_of fs ''name'' = Some (JStr ''NodeApiError'') then e
       else JObj ((''message'', or_else (map_of fs ''message'') (JStr [])) #
         (case map_of fs ''stack'' of None \<Rightarrow> [] | Some s \<Rightarrow> [(''stack'', s)]))
   | _ \<Rightarrow> error_object [])"

definition runNode :: "RunEnv \<Rightarrow> Workflow \<Rightarrow> RunState \<Rightarrow> nat \<Rightarrow> nat \<Rightarrow> IExecuteData \<Rightarrow> nat \<Rightarrow> NodeOutcome" where
  "runNode env w st k call ed runIndex =
     (let n = exec_node ed; inputData = exec_data ed
      in if is_disabled n then
           (case map_of inputData MainConn of
              Some (Some items # _) \<Rightarrow> response (DataOutputs [Some items])
            | _ \<Rightarrow> response DataUndefined)
         else case env_kind env n of
           None \<Rightarrow> Threw (error_json TypeError) False
         | Some kind \<Rightarrow>
             let executes = (nk_execute kind \<or> getCustomOperation n kind)
             in case (if executes \<or> (\<not> nk_poll kind \<and> \<not> nk_trigger kind \<and> \<not> nk_webhook kind)
                      then rbind (connection_input w inputData) (\<lambda>x.
                        case x of None \<Rightarrow> Inl TypeError | Some items \<Rightarrow> Inr (items \<noteq> []))
                      else Inr True) of
                  Inl e \<Rightarrow> Threw (error_json e) False
                | Inr False \<Rightarrow> response DataUndefined
                | Inr True \<Rightarrow>
                    if rs_lastNodeExecuted st = Some (node_name n) \<and> rs_error st \<noteq> None then Threw (rethrown (the (rs_error st))) False
                    else
                      let inputData = (if node_executeOnce n = Some True then execute_once inputData else inputData);
                          called = env_execute env k call n runIndex inputData
                      in if executes then called
                         else if nk_poll kind \<or> nk_trigger kind
                           then (if env_mode env = ModeManual then called else response (main_data inputData))
                         else if nk_webhook kind \<and> \<not> nk_requestDefaults kind then response (main_data inputData)
                         else called)"

section \<open>Paired items of the output\<close>

definition first_input_length :: "INodeExecutionData list option list \<Rightarrow> nat option" where
  "first_input_length inputs = (case inputs of [Some items] \<Rightarrow> Some (length items) | _ \<Rightarrow> None)"

text \<open>
  The items of one output; the flag is false once an item could not be fixed, which ends the loop
  over all outputs.
\<close>

fun fix_items :: "bool \<Rightarrow> bool \<Rightarrow> nat \<Rightarrow> INodeExecutionData list \<Rightarrow> INodeExecutionData list \<times> bool" where
  "fix_items single same i [] = ([], True)"
| "fix_items single same i (it # items) =
     (if map_of it ''pairedItem'' \<noteq> None
      then (case fix_items single same (Suc i) items of (items, go) \<Rightarrow> (it # items, go))
      else if single \<or> same
      then (case fix_items single same (Suc i) items of (items, go) \<Rightarrow>
          (js_put ''pairedItem'' (JObj [(''item'', json_nat (if single then 0 else i))]) it # items, go))
      else (it # items, False))"

fun fix_outputs :: "bool \<Rightarrow> bool \<Rightarrow> INodeExecutionData list option list \<Rightarrow> INodeExecutionData list option list" where
  "fix_outputs single same [] = []"
| "fix_outputs single same (None # outs) = None # fix_outputs single same outs"
| "fix_outputs single same (Some items # outs) = (case fix_items single same 0 items of
     (items, go) \<Rightarrow> Some items # (if go then fix_outputs single same outs else outs))"

text \<open>The fixed data, where \<open>undefined\<close> has become \<open>null\<close>, and whether the node counts as the last one executed.\<close>

definition assignPairedItems :: "NodeData \<Rightarrow> IExecuteData \<Rightarrow> (NodeData \<times> bool) result" where
  "assignPairedItems nodeSuccessData ed = (case nodeSuccessData of
     DataUndefined \<Rightarrow> Inr (DataNull, False)
   | DataNull \<Rightarrow> Inr (DataNull, True)
   | DataOutputs [] \<Rightarrow> Inr (DataOutputs [], True)
   | DataOutputs outs \<Rightarrow> rbind (main_of (exec_data ed)) (\<lambda>inputs.
       let single = (first_input_length inputs = Some 1)
       in if length outs = 1 \<and> length inputs = 1 \<and> hd outs = None then Inl TypeError
          else Inr (DataOutputs (fix_outputs single
            (length outs = 1 \<and> first_input_length inputs = Some (length (or_else (hd outs) []))) outs), True)))"

section \<open>The error output\<close>

text \<open>What counts as the error of an item, and the item without its \<open>error\<close> field.\<close>

definition item_error :: "INodeExecutionData \<Rightarrow> bool \<times> INodeExecutionData" where
  "item_error it =
     (let fields = (case map_of it ''json'' of Some (JObj fs) \<Rightarrow> fs | _ \<Rightarrow> []);
          has_error = truthy_at (json_field it ''error'')
      in if truthy_at (map_of it ''error'') then (True, js_del ''error'' it)
         else if has_error \<and> length fields = 1 then (True, it)
         else if has_error \<and> truthy_at (json_field it ''message'') \<and> length fields = 2 then (True, it)
         else (False, it))"

text \<open>\<open>pairedItem\<close> is an object, the first element of an array, or nothing usable.\<close>

definition paired_of :: "INodeExecutionData \<Rightarrow> json option" where
  "paired_of it = (case map_of it ''pairedItem'' of
     Some (JArr (p # _)) \<Rightarrow> Some p | Some (JObj fs) \<Rightarrow> Some (JObj fs) | _ \<Rightarrow> None)"

definition paired_input :: "json \<Rightarrow> nat" where
  "paired_input p = (case p of JObj fs \<Rightarrow> (case map_of fs ''input'' of
     Some (JNum q) \<Rightarrow> nat \<lfloor>q\<rfloor> | _ \<Rightarrow> 0) | _ \<Rightarrow> 0)"

definition merge_json :: "INodeExecutionData \<Rightarrow> INodeExecutionData \<Rightarrow> INodeExecutionData" where
  "merge_json source it =
     (let fields = (\<lambda>x. case map_of x ''json'' of Some (JObj fs) \<Rightarrow> fs | _ \<Rightarrow> [])
      in js_put ''json'' (JObj (fold (\<lambda>(k, v) fs. js_put k v fs) (fields it) (fields source))) it)"

definition error_item :: "RunEnv \<Rightarrow> IExecuteData \<Rightarrow> INodeExecutionData \<Rightarrow> INodeExecutionData result" where
  "error_item env ed it = (case (exec_source ed, paired_of it) of
     (Some src, Some p) \<Rightarrow> rbind (main_of src) (\<lambda>sources.
       case array_get sources (paired_input p) of
         None \<Rightarrow> Inl TypeError
       | Some s \<Rightarrow> rbind (env_pairedItem env (previousNode s) s p) (\<lambda>source.
           Inr (case source of None \<Rightarrow> it | Some sourceItem \<Rightarrow> merge_json sourceItem it)))
   | _ \<Rightarrow> Inr it)"

fun split_items :: "RunEnv \<Rightarrow> IExecuteData \<Rightarrow> INodeExecutionData list \<Rightarrow>
    (INodeExecutionData list \<times> INodeExecutionData list) result" where
  "split_items env ed [] = Inr ([], [])"
| "split_items env ed (it # items) = (case item_error it of
     (failed, it) \<Rightarrow>
       rbind (if failed then rbind (error_item env ed it) (\<lambda>e. Inr ([], [e])) else Inr ([it], [])) (\<lambda>(good, bad).
       rbind (split_items env ed items) (\<lambda>(goods, bads). Inr (good @ goods, bad @ bads))))"

text \<open>Output \<open>i\<close> and the errors so far; a missing output becomes an empty one.\<close>

definition split_output ::
    "RunEnv \<Rightarrow> IExecuteData \<Rightarrow> nat \<Rightarrow> INodeExecutionData list option list \<times> INodeExecutionData list \<Rightarrow>
      (INodeExecutionData list option list \<times> INodeExecutionData list) result" where
  "split_output env ed i = (\<lambda>(outs, errors).
     rbind (split_items env ed (or_else (array_get outs i) [])) (\<lambda>(goods, bads).
       Inr (array_put i (Some goods) outs, errors @ bads)))"

definition handleNodeErrorOutput ::
    "RunEnv \<Rightarrow> IExecuteData \<Rightarrow> INodeExecutionData list option list \<Rightarrow> INodeExecutionData list option list result" where
  "handleNodeErrorOutput env ed outs = (case env_kind env (exec_node ed) of
     None \<Rightarrow> Inl TypeError
   | Some _ \<Rightarrow>
       let mains = length (filter (\<lambda>t. t = MainConn) (env_outputTypes env (exec_node ed)))
       in rbind (rfold (split_output env ed) [0 ..< mains - 1] (outs, [])) (\<lambda>(outs, errors).
          Inr (if mains = 0 then outs else array_put (mains - 1) (Some errors) outs)))"

section \<open>The tries\<close>

definition max_tries :: "INode \<Rightarrow> nat" where
  "max_tries n = (if node_retryOnFail n = Some True
     then min 5 (max 2 (case node_maxTries n of None \<Rightarrow> 3 | Some 0 \<Rightarrow> 3 | Some m \<Rightarrow> m)) else 1)"

text \<open>\<open>nodeSuccessData?.[0]?.[0]\<close> and whether it reports an error.\<close>

definition first_item :: "NodeData \<Rightarrow> INodeExecutionData option" where
  "first_item d = (case d of DataOutputs (Some (it # _) # _) \<Rightarrow> Some it | _ \<Rightarrow> None)"

definition did_continue_on_fail :: "NodeData \<Rightarrow> bool" where
  "did_continue_on_fail d = (case first_item d of None \<Rightarrow> False | Some it \<Rightarrow> json_field it ''error'' \<noteq> None)"

text \<open>
  The variables of the loop over the tries. \<open>ts_data\<close> is \<open>nodeSuccessData\<close>, the data of the last call
  that returned; \<open>ts_calls\<close> counts the calls of \<open>runNode\<close>.
\<close>

record TryState =
  ts_tryIndex :: nat
  ts_calls :: nat
  ts_data :: NodeData
  ts_hints :: "json list"
  ts_state :: RunState

definition counted :: "bool \<Rightarrow> TryState \<Rightarrow> TryState" where
  "counted waits ts = ts\<lparr>ts_calls := Suc (ts_calls ts),
     ts_state := (ts_state ts)\<lparr>rs_waitTill := rs_waitTill (ts_state ts) \<or> waits\<rparr>\<rparr>"

text \<open>
  While the node reports an error itself it is called again, up to the last try. \<open>tryIndex\<close> is never
  larger than the index of the last try, so the test for that index is a comparison.
\<close>

function soft_retry ::
    "RunEnv \<Rightarrow> Workflow \<Rightarrow> nat \<Rightarrow> IExecuteData \<Rightarrow> nat \<Rightarrow> nat \<Rightarrow> IRunNodeResponse \<Rightarrow> TryState \<Rightarrow> (json + IRunNodeResponse) \<times> TryState" where
  "soft_retry env w k ed runIndex maxTries r ts =
     (if did_continue_on_fail (nr_data r) \<and> Suc (ts_tryIndex ts) < maxTries
      then case runNode env w (ts_state ts) k (ts_calls ts) ed runIndex of
             Threw e waits \<Rightarrow> (Inl e, counted waits ts)
           | Gave r \<Rightarrow> soft_retry env w k ed runIndex maxTries r
               ((counted (nr_waits r) ts)\<lparr>ts_tryIndex := Suc (ts_tryIndex ts), ts_data := nr_data r\<rparr>)
      else (Inr r, ts))"
  by pat_completeness auto

termination soft_retry
  by (relation "measure (\<lambda>(env, w, k, ed, runIndex, maxTries, r, ts). maxTries - ts_tryIndex ts)") (auto simp: counted_def)

declare soft_retry.simps [simp del]

definition call_node ::
    "RunEnv \<Rightarrow> Workflow \<Rightarrow> nat \<Rightarrow> IExecuteData \<Rightarrow> nat \<Rightarrow> nat \<Rightarrow> TryState \<Rightarrow> (json + IRunNodeResponse) \<times> TryState" where
  "call_node env w k ed runIndex maxTries ts =
     (case runNode env w (ts_state ts) k (ts_calls ts) ed runIndex of
        Threw e waits \<Rightarrow> (Inl e, counted waits ts)
      | Gave r \<Rightarrow> soft_retry env w k ed runIndex maxTries r ((counted (nr_waits r) ts)\<lparr>ts_data := nr_data r\<rparr>))"

text \<open>The data after a call, before paired items are assigned.\<close>

definition error_outputs :: "RunEnv \<Rightarrow> IExecuteData \<Rightarrow> NodeData \<Rightarrow> NodeData result" where
  "error_outputs env ed d = (case d of
     DataOutputs outs \<Rightarrow>
       if node_onError (exec_node ed) = Some ContinueErrorOutput
       then rbind (handleNodeErrorOutput env ed outs) (\<lambda>outs. Inr (DataOutputs outs)) else Inr d
   | _ \<Rightarrow> Inr d)"

text \<open>\<open>alwaysOutputData\<close>: an empty item that is paired with every input item.\<close>

definition always_item :: "INodeExecutionData list option list \<Rightarrow> INodeExecutionData" where
  "always_item inputs = empty_item @ [(''pairedItem'', JArr
     [JObj [(''item'', json_nat j), (''input'', json_nat i)]. (i, Some items) \<leftarrow> enumerate 0 inputs, j \<leftarrow> [0 ..< length items]])]"

definition always_output :: "IExecuteData \<Rightarrow> NodeData \<Rightarrow> NodeData result" where
  "always_output ed d =
     (if first_item d = None \<and> node_alwaysOutputData (exec_node ed) = Some True
      then rbind (main_of (exec_data ed)) (\<lambda>inputs.
        let outs = (case d of DataOutputs outs \<Rightarrow> outs | _ \<Rightarrow> [])
        in Inr (DataOutputs (array_put 0 (Some [always_item inputs]) outs)))
      else Inr d)"

definition pinned_data :: "RunState \<Rightarrow> INode \<Rightarrow> INodeExecutionData list option" where
  "pinned_data st n = (case we_pinData st of None \<Rightarrow> None
     | Some pd \<Rightarrow> if is_disabled n then None else map_of pd (node_name n))"

text \<open>One pass of the \<open>try\<close> block: the data it ends with, or the error it throws.\<close>

definition attempt ::
    "RunEnv \<Rightarrow> Workflow \<Rightarrow> nat \<Rightarrow> IExecuteData \<Rightarrow> nat \<Rightarrow> nat \<Rightarrow> TryState \<Rightarrow> (json + NodeData) \<times> TryState" where
  "attempt env w k ed runIndex maxTries ts =
     (let (called, ts) = (case pinned_data (ts_state ts) (exec_node ed) of
            Some items \<Rightarrow> (Inr (DataOutputs [Some items]), ts\<lparr>ts_data := DataOutputs [Some items]\<rparr>)
          | None \<Rightarrow> (case call_node env w k ed runIndex maxTries ts of
              (Inl e, ts) \<Rightarrow> (Inl e, ts)
            | (Inr r, ts) \<Rightarrow> (case error_outputs env ed (nr_data r) of
                Inl e \<Rightarrow> (Inl (error_json e), ts\<lparr>ts_hints := ts_hints ts @ nr_hints r\<rparr>)
              | Inr d \<Rightarrow> (Inr d, ts\<lparr>ts_hints := ts_hints ts @ nr_hints r, ts_data := d\<rparr>))))
      in case called of
        Inl e \<Rightarrow> (Inl e, ts)
      | Inr d \<Rightarrow> (case assignPairedItems d ed of
          Inl e \<Rightarrow> (Inl (error_json e), ts)
        | Inr (d, didRun) \<Rightarrow>
            let ts = (if didRun then ts\<lparr>ts_data := d, ts_state := (ts_state ts)\<lparr>rs_lastNodeExecuted := Some (node_name (exec_node ed))\<rparr>\<rparr>
                      else ts\<lparr>ts_data := d\<rparr>)
            in case always_output ed d of
                 Inl e \<Rightarrow> (Inl (error_json e), ts)
               | Inr d \<Rightarrow> (Inr d, ts\<lparr>ts_data := d\<rparr>)))"

lemma soft_retry_later: "ts_tryIndex ts \<le> ts_tryIndex (snd (soft_retry env w k ed runIndex maxTries r ts))"
proof (induction env w k ed runIndex maxTries r ts rule: soft_retry.induct)
  case (1 env w k ed runIndex maxTries r ts)
  then show ?case
    by (subst soft_retry.simps) (auto simp: counted_def split: NodeOutcome.split dest: Suc_leD)
qed

lemma attempt_later: "ts_tryIndex ts \<le> ts_tryIndex (snd (attempt env w k ed runIndex maxTries ts))"
proof -
  have "ts_tryIndex ts \<le> ts_tryIndex (snd (call_node env w k ed runIndex maxTries ts))"
    using soft_retry_later[of "(counted b ts)\<lparr>ts_data := d\<rparr>" env w k ed runIndex maxTries for b d]
    by (auto simp: call_node_def counted_def split: NodeOutcome.split)
  then show ?thesis
    by (cases "call_node env w k ed runIndex maxTries ts")
      (auto simp: attempt_def Let_def split: option.split sum.split prod.split)
qed

text \<open>Every try; the result is the error of the last one, if all of them threw.\<close>

function try_loop ::
    "RunEnv \<Rightarrow> Workflow \<Rightarrow> nat \<Rightarrow> IExecuteData \<Rightarrow> nat \<Rightarrow> nat \<Rightarrow> json option \<Rightarrow> TryState \<Rightarrow> json option \<times> TryState" where
  "try_loop env w k ed runIndex maxTries executionError ts =
     (if ts_tryIndex ts < maxTries
      then case attempt env w k ed runIndex maxTries ts of
             (Inr _, ts) \<Rightarrow> (None, ts)
           | (Inl e, ts) \<Rightarrow> try_loop env w k ed runIndex maxTries (Some e) (ts\<lparr>ts_tryIndex := Suc (ts_tryIndex ts),
               ts_state := (ts_state ts)\<lparr>rs_lastNodeExecuted := Some (node_name (exec_node ed))\<rparr>\<rparr>)
      else (executionError, ts))"
  by pat_completeness auto

termination try_loop
proof (relation "measure (\<lambda>(env, w, k, ed, runIndex, maxTries, e, ts). maxTries - ts_tryIndex ts)")
  fix env w k ed runIndex maxTries ts ts' and e :: "json option" and x :: "json + NodeData" and e' :: json
  assume a: "ts_tryIndex ts < maxTries" "(x, ts') = attempt env w k ed runIndex maxTries ts"
  have "ts_tryIndex ts \<le> ts_tryIndex ts'" using attempt_later[of ts env w k ed runIndex maxTries] unfolding a(2)[symmetric] by simp
  with a(1) show "((env, w, k, ed, runIndex, maxTries, Some e', ts'\<lparr>ts_tryIndex := Suc (ts_tryIndex ts'),
      ts_state := (ts_state ts')\<lparr>rs_lastNodeExecuted := Some (node_name (exec_node ed))\<rparr>\<rparr>), env, w, k, ed, runIndex, maxTries, e, ts)
    \<in> measure (\<lambda>(env, w, k, ed, runIndex, maxTries, e, ts). maxTries - ts_tryIndex ts)"
    by simp
qed auto

declare try_loop.simps [simp del]

section \<open>The number of calls\<close>

text \<open>
  A call that returns an error item moves the try index on, a call that throws inside the loop for such
  items does not: one more call per pass of the \<open>try\<close> block.
\<close>

lemma soft_retry_calls:
  assumes "soft_retry env w k ed runIndex maxTries r ts = (x, ts')" "ts_tryIndex ts < maxTries"
  shows "ts_calls ts' + ts_tryIndex ts \<le> ts_calls ts + ts_tryIndex ts' + (if Suc (ts_tryIndex ts') < maxTries then 1 else 0) \<and>
    (\<forall>r. x = Inr r \<longrightarrow> ts_calls ts' + ts_tryIndex ts \<le> ts_calls ts + ts_tryIndex ts') \<and> ts_tryIndex ts' < maxTries"
  using assms
proof (induction env w k ed runIndex maxTries r ts rule: soft_retry.induct)
  case (1 env w k ed runIndex maxTries r ts)
  show ?case
  proof (cases "did_continue_on_fail (nr_data r) \<and> Suc (ts_tryIndex ts) < maxTries")
    case False
    with "1.prems" show ?thesis by (subst (asm) soft_retry.simps) auto
  next
    case go: True
    show ?thesis
    proof (cases "runNode env w (ts_state ts) k (ts_calls ts) ed runIndex")
      case (Threw e b)
      with go "1.prems" show ?thesis by (subst (asm) soft_retry.simps) (auto simp: counted_def)
    next
      case (Gave r')
      from "1.prems"(1) go Gave have "soft_retry env w k ed runIndex maxTries r'
          ((counted (nr_waits r') ts)\<lparr>ts_tryIndex := Suc (ts_tryIndex ts), ts_data := nr_data r'\<rparr>) = (x, ts')"
        by (subst (asm) soft_retry.simps) simp
      from "1.IH"[OF go Gave this] go show ?thesis by (auto simp: counted_def)
    qed
  qed
qed

lemma call_node_calls:
  assumes "call_node env w k ed runIndex maxTries ts = (x, ts')" "ts_tryIndex ts < maxTries"
  shows "ts_calls ts' + ts_tryIndex ts \<le> ts_calls ts + ts_tryIndex ts' + (if Suc (ts_tryIndex ts') < maxTries then 2 else 1) \<and>
    ts_tryIndex ts' < maxTries"
proof (cases "runNode env w (ts_state ts) k (ts_calls ts) ed runIndex")
  case (Threw e b)
  with assms show ?thesis by (auto simp: call_node_def counted_def)
next
  case (Gave r)
  with assms(1) have "soft_retry env w k ed runIndex maxTries r ((counted (nr_waits r) ts)\<lparr>ts_data := nr_data r\<rparr>) = (x, ts')"
    by (simp add: call_node_def)
  from soft_retry_calls[OF this] assms(2) show ?thesis by (auto simp: counted_def split: if_splits)
qed

text \<open>What the steps after the call do to the counters: nothing.\<close>

lemma attempt_counters:
  "\<exists>x ts''. (ts'' = ts \<or> call_node env w k ed runIndex maxTries ts = (x, ts'')) \<and>
     ts_calls (snd (attempt env w k ed runIndex maxTries ts)) = ts_calls ts'' \<and>
     ts_tryIndex (snd (attempt env w k ed runIndex maxTries ts)) = ts_tryIndex ts''"
proof (cases "pinned_data (ts_state ts) (exec_node ed)")
  case None
  show ?thesis
    by (cases "call_node env w k ed runIndex maxTries ts", intro exI conjI disjI2, assumption)
      (auto simp: attempt_def Let_def None split: sum.split prod.split)
next
  case (Some items)
  have "ts_calls (snd (attempt env w k ed runIndex maxTries ts)) = ts_calls ts \<and>
     ts_tryIndex (snd (attempt env w k ed runIndex maxTries ts)) = ts_tryIndex ts"
    by (auto simp: attempt_def Let_def Some split: sum.split prod.split)
  then show ?thesis by blast
qed

lemma attempt_calls:
  assumes "attempt env w k ed runIndex maxTries ts = (x, ts')" "ts_tryIndex ts < maxTries"
  shows "ts_calls ts' + ts_tryIndex ts \<le> ts_calls ts + ts_tryIndex ts' + (if Suc (ts_tryIndex ts') < maxTries then 2 else 1) \<and>
    ts_tryIndex ts' < maxTries"
proof -
  from attempt_counters[of ts env w k ed runIndex maxTries] obtain x' ts'' where
    *: "ts'' = ts \<or> call_node env w k ed runIndex maxTries ts = (x', ts'')" "ts_calls ts' = ts_calls ts''" "ts_tryIndex ts' = ts_tryIndex ts''"
    unfolding assms(1) snd_conv by blast
  from *(1) show ?thesis unfolding *(2,3) using call_node_calls[of env w k ed runIndex maxTries ts x' ts''] assms(2) by auto
qed

lemma try_loop_calls:
  assumes "ts_tryIndex ts < maxTries"
  shows "ts_calls (snd (try_loop env w k ed runIndex maxTries e ts)) + 1 \<le> ts_calls ts + 2 * (maxTries - ts_tryIndex ts)"
  using assms
proof (induction env w k ed runIndex maxTries e ts rule: try_loop.induct)
  case (1 env w k ed runIndex maxTries e ts)
  obtain x ts' where at: "attempt env w k ed runIndex maxTries ts = (x, ts')" by fastforce
  note c = attempt_calls[OF at "1.prems"]
  have later: "ts_tryIndex ts \<le> ts_tryIndex ts'" using attempt_later[of ts env w k ed runIndex maxTries] at by simp
  show ?case
  proof (cases x)
    case (Inr d)
    with at "1.prems" c show ?thesis by (subst try_loop.simps) (auto split: if_splits)
  next
    case (Inl e')
    let ?ts = "ts'\<lparr>ts_tryIndex := Suc (ts_tryIndex ts'), ts_state := (ts_state ts')\<lparr>rs_lastNodeExecuted := Some (node_name (exec_node ed))\<rparr>\<rparr>"
    have step: "try_loop env w k ed runIndex maxTries e ts = try_loop env w k ed runIndex maxTries (Some e') ?ts"
      by (subst try_loop.simps) (use at Inl "1.prems" in simp)
    show ?thesis
    proof (cases "Suc (ts_tryIndex ts') < maxTries")
      case True
      with "1.IH"[OF "1.prems" at[symmetric] Inl] c later show ?thesis unfolding step by auto
    next
      case False
      then have "try_loop env w k ed runIndex maxTries (Some e') ?ts = (Some e', ?ts)" by (subst try_loop.simps) simp
      with False c "1.prems" show ?thesis unfolding step by auto
    qed
  qed
qed

definition first_try :: "RunState \<Rightarrow> TryState" where
  "first_try st = \<lparr>ts_tryIndex = 0, ts_calls = 0, ts_data = DataNull, ts_hints = [], ts_state = st\<rparr>"

text \<open>
  The loop over the tries ends for every node, whatever its calls do. Without \<open>retryOnFail\<close> the node is
  called once at most, with it there are two to five tries and less than twice as many calls.
\<close>

theorem try_loop_bounded:
  "let n = exec_node ed; calls = ts_calls (snd (try_loop env w k ed runIndex (max_tries n) None (first_try st)))
   in if node_retryOnFail n = Some True then 2 \<le> max_tries n \<and> max_tries n \<le> 5 \<and> calls < 2 * max_tries n
      else max_tries n = 1 \<and> calls \<le> 1"
proof -
  let ?n = "exec_node ed"
  have "max_tries ?n \<noteq> 0" by (auto simp: max_tries_def)
  then have "ts_tryIndex (first_try st) < max_tries ?n" by (simp add: first_try_def)
  from try_loop_calls[OF this, of env w k ed runIndex None]
  have calls: "ts_calls (snd (try_loop env w k ed runIndex (max_tries ?n) None (first_try st))) < 2 * max_tries ?n"
    by (simp add: first_try_def)
  show ?thesis
    unfolding Let_def using calls by (auto simp: max_tries_def)
qed

section \<open>The error output\<close>

definition failed :: "INodeExecutionData \<Rightarrow> bool" where
  "failed it = fst (item_error it)"

definition items_at :: "INodeExecutionData list option list \<Rightarrow> nat \<Rightarrow> INodeExecutionData list" where
  "items_at outs i = or_else (array_get outs i) []"

lemma split_items_exact:
  "split_items env ed items = Inr (goods, bads) \<Longrightarrow>
   goods = filter (\<lambda>it. \<not> failed it) items \<and> length bads = length (filter failed items)"
proof (induction items arbitrary: goods bads)
  case (Cons it items)
  have "\<not> failed it \<Longrightarrow> item_error it = (False, it)"
    by (auto simp: failed_def item_error_def Let_def split: if_splits)
  with Cons show ?case
    by (cases "item_error it") (auto simp: failed_def result_simps split: if_splits)
qed simp

text \<open>What the outputs hold after the first \<open>m\<close> of them were split.\<close>

definition split_done :: "INodeExecutionData list option list \<Rightarrow> nat \<Rightarrow>
    INodeExecutionData list option list \<times> INodeExecutionData list \<Rightarrow> bool" where
  "split_done outs m = (\<lambda>(outs', errors).
     (\<forall>i. array_get outs' i = (if i < m then Some (filter (\<lambda>it. \<not> failed it) (items_at outs i)) else array_get outs i)) \<and>
     length errors = (\<Sum>i<m. length (filter failed (items_at outs i))))"

lemma split_outputs_exact:
  "rfold (split_output env ed) [0 ..< m] (outs, []) = Inr r \<Longrightarrow> split_done outs m r"
proof (induction m arbitrary: r)
  case (Suc m)
  then obtain outs1 errors1 where one: "rfold (split_output env ed) [0 ..< m] (outs, []) = Inr (outs1, errors1)"
    "split_output env ed m (outs1, errors1) = Inr r" by (auto simp: rfold_append result_simps)
  with Suc.IH have d: "split_done outs m (outs1, errors1)" by blast
  then have "or_else (array_get outs1 m) [] = items_at outs m" by (simp add: split_done_def items_at_def)
  with one(2) obtain goods bads where "split_items env ed (items_at outs m) = Inr (goods, bads)"
    "r = (array_put m (Some goods) outs1, errors1 @ bads)" by (auto simp: split_output_def result_simps)
  with d split_items_exact show ?case by (fastforce simp: split_done_def less_Suc_eq)
qed (simp add: split_done_def)

text \<open>
  Where the errors of a node go to its last main output, the items of the other main outputs that
  report no error stay where they are, in order, and every item that reports one is on the last output.
\<close>

theorem handleNodeErrorOutput_exact:
  assumes "handleNodeErrorOutput env ed outs = Inr outs'"
    and "length (filter (\<lambda>t. t = MainConn) (env_outputTypes env (exec_node ed))) = Suc m"
  shows "(\<forall>i < m. array_get outs' i = Some (filter (\<lambda>it. \<not> failed it) (items_at outs i))) \<and>
    (\<exists>errors. array_get outs' m = Some errors \<and> length errors = (\<Sum>i<m. length (filter failed (items_at outs i)))) \<and>
    (\<forall>i > m. array_get outs' i = array_get outs i)"
proof -
  from assms obtain outs1 errors where "rfold (split_output env ed) [0 ..< m] (outs, []) = Inr (outs1, errors)"
    "outs' = array_put m (Some errors) outs1"
    by (auto simp: handleNodeErrorOutput_def Let_def result_simps split: option.splits)
  with split_outputs_exact[of env ed m outs "(outs1, errors)"] show ?thesis by (auto simp: split_done_def)
qed

section \<open>Paired items\<close>

text \<open>The same items up to the field \<open>pairedItem\<close>, which is only added where there is none.\<close>

definition pairing_added :: "INodeExecutionData \<Rightarrow> INodeExecutionData \<Rightarrow> bool" where
  "pairing_added it it' \<longleftrightarrow> it' = it \<or> (map_of it ''pairedItem'' = None \<and> (\<exists>p. it' = js_put ''pairedItem'' p it))"

lemma fix_items_exact:
  "list_all2 pairing_added items (fst (fix_items single same i items)) \<and>
   (single \<or> same \<longrightarrow> snd (fix_items single same i items) \<and>
     (\<forall>it \<in> set (fst (fix_items single same i items)). map_of it ''pairedItem'' \<noteq> None))"
proof (induction items arbitrary: i)
  case (Cons it items)
  from Cons[of "Suc i"] show ?case
    by (auto simp: pairing_added_def list.rel_refl split: prod.splits)
qed simp

lemma fix_outputs_exact:
  "list_all2 (rel_option (list_all2 pairing_added)) outs (fix_outputs single same outs) \<and>
   (single \<or> same \<longrightarrow> (\<forall>items it. Some items \<in> set (fix_outputs single same outs) \<and> it \<in> set items \<longrightarrow> map_of it ''pairedItem'' \<noteq> None))"
proof (induction outs)
  case (Cons out outs)
  have refl: "list_all2 (rel_option (list_all2 pairing_added)) outs outs"
    by (intro list.rel_refl option.rel_refl) (simp add: pairing_added_def)
  show ?case
  proof (cases out)
    case None
    with Cons show ?thesis by auto
  next
    case (Some items)
    obtain its go where its: "fix_items single same 0 items = (its, go)" by fastforce
    from fix_items_exact[of items single same 0] have "list_all2 pairing_added items its"
      "single \<or> same \<Longrightarrow> go \<and> (\<forall>it \<in> set its. map_of it ''pairedItem'' \<noteq> None)" unfolding its by simp_all
    then show ?thesis using Cons refl unfolding Some fix_outputs.simps its by (cases go) auto
  qed
qed simp

text \<open>
  The repair of paired items keeps every output and every item in place and adds the missing
  \<open>pairedItem\<close> only. If the node had a single input with a single item, all items are paired afterwards.
\<close>

theorem assignPairedItems_exact:
  assumes "assignPairedItems (DataOutputs outs) ed = Inr (d, ran')"
  shows "\<exists>outs'. d = DataOutputs outs' \<and> ran' \<and> list_all2 (rel_option (list_all2 pairing_added)) outs outs' \<and>
    (\<forall>items. map_of (exec_data ed) MainConn = Some [Some items] \<and> length items = 1 \<longrightarrow>
      (\<forall>its it. Some its \<in> set outs' \<and> it \<in> set its \<longrightarrow> map_of it ''pairedItem'' \<noteq> None))"
proof (cases outs)
  case Nil
  with assms show ?thesis by (simp add: assignPairedItems_def)
next
  case (Cons out rest)
  with assms obtain inputs where inputs: "map_of (exec_data ed) MainConn = Some inputs"
    and d: "d = DataOutputs (fix_outputs (first_input_length inputs = Some 1)
      (length outs = 1 \<and> first_input_length inputs = Some (length (or_else (hd outs) []))) outs)" and ran: "ran'"
    by (auto simp: assignPairedItems_def Let_def result_simps main_of_Inr split: if_splits)
  have single: "first_input_length inputs = Some 1" if "inputs = [Some items]" "length items = 1" for items
    using that by (simp add: first_input_length_def)
  define outs' where "outs' = fix_outputs (first_input_length inputs = Some 1)
      (length outs = 1 \<and> first_input_length inputs = Some (length (or_else (hd outs) []))) outs"
  have same: "list_all2 (rel_option (list_all2 pairing_added)) outs outs'"
    unfolding outs'_def by (rule fix_outputs_exact[THEN conjunct1])
  have paired: "\<forall>its it. Some its \<in> set outs' \<and> it \<in> set its \<longrightarrow> map_of it ''pairedItem'' \<noteq> None"
    if "first_input_length inputs = Some 1"
    unfolding outs'_def using fix_outputs_exact[THEN conjunct2, THEN mp, OF disjI1[OF that]] by blast
  have "d = DataOutputs outs'" unfolding outs'_def by (rule d)
  with ran inputs same paired single show ?thesis by auto
qed

section \<open>Examples\<close>

definition executing_kind :: NodeKind where
  "executing_kind = \<lparr>nk_execute = True, nk_customOperations = None, nk_poll = False, nk_trigger = False,
     nk_webhook = False, nk_requestDefaults = False\<rparr>"

definition sample_env :: "(nat \<Rightarrow> nat \<Rightarrow> INode \<Rightarrow> nat \<Rightarrow> ITaskDataConnections \<Rightarrow> NodeOutcome) \<Rightarrow> RunEnv" where
  "sample_env call = \<lparr>env_mode = ModeManual, env_kind = \<lambda>_. Some executing_kind, env_describe = one_input,
     env_outputTypes = \<lambda>_. [MainConn, MainConn], env_execute = call, env_pairedItem = \<lambda>_ _ _. Inr None, env_timedOut = \<lambda>_. False,
     env_aborted = \<lambda>_. False, env_startTime = \<lambda>_. 0, env_executionTime = \<lambda>_. 0, env_sort = js_sort\<rparr>"

definition start_entry :: "INode \<Rightarrow> IExecuteData" where
  "start_entry n = \<lparr>exec_data = [(MainConn, [Some [empty_item]])], exec_metadata = None, exec_node = n, exec_source = None\<rparr>"

definition run_at :: "INode \<Rightarrow> string list option \<Rightarrow> RunState" where
  "run_at n flt = \<lparr>we_status = StNew, we_currentNodeExecutionIndex = 0,
     we_startData = \<lparr>sd_destinationNode = None, sd_originalDestinationNode = None, sd_runNodeFilter = flt\<rparr>,
     we_runData = [], we_pinData = None,
     we_stack = \<lparr>nodeExecutionStack = [start_entry n], waitingExecution = [], waitingExecutionSource = []\<rparr>,
     rs_waitTill = False, rs_lastNodeExecuted = None, rs_error = None, rs_metadata = [], rs_lastTry = None, rs_executionError = None, rs_hooks = []\<rparr>"

definition reported :: INodeExecutionData where
  "reported = [(''json'', JObj [(''error'', JStr ''bad'')])]"

text \<open>
  A node that is allowed five tries and reports an error and throws in turn is called nine times: the
  inner loop does not count a call that throws.
\<close>

definition alternating :: "nat \<Rightarrow> nat \<Rightarrow> INode \<Rightarrow> nat \<Rightarrow> ITaskDataConnections \<Rightarrow> NodeOutcome" where
  "alternating k call n runIndex d =
     (if call mod 2 = 0 then response (DataOutputs [Some [reported]]) else Threw (error_object ''bad'') False)"

definition retrying :: INode where
  "retrying = (plain_node 0 ''a'' ''t'')\<lparr>node_retryOnFail := Some True, node_maxTries := Some 5\<rparr>"

lemma nine_calls:
  "ts_calls (snd (try_loop (sample_env alternating) merging 0 (start_entry retrying) 0 (max_tries retrying) None
     (first_try (run_at retrying None)))) = 9"
  by code_simp

lemma handleNodeErrorOutput_exact_witness:
  "\<exists>outs'. handleNodeErrorOutput (sample_env alternating) (start_entry retrying) [Some [numbered 1, reported, numbered 2]] = Inr outs' \<and>
    array_get outs' 0 = Some [numbered 1, numbered 2] \<and> (\<exists>errors. array_get outs' 1 = Some errors \<and> length errors = 1)"
proof -
  let ?outs = "[Some [numbered 1, reported, numbered 2]]"
  have "case handleNodeErrorOutput (sample_env alternating) (start_entry retrying) ?outs of Inl _ \<Rightarrow> False | Inr _ \<Rightarrow> True" by code_simp
  then obtain outs' where run: "handleNodeErrorOutput (sample_env alternating) (start_entry retrying) ?outs = Inr outs'"
    by (auto split: sum.splits)
  have types: "length (filter (\<lambda>t. t = MainConn) (env_outputTypes (sample_env alternating) (exec_node (start_entry retrying)))) = Suc 1"
    by (simp add: sample_env_def)
  have items: "filter (\<lambda>it. \<not> failed it) (items_at ?outs 0) = [numbered 1, numbered 2]" "length (filter failed (items_at ?outs 0)) = 1"
    by code_simp+
  from handleNodeErrorOutput_exact[OF run types] run items show ?thesis by simp
qed

lemma assignPairedItems_exact_witness:
  "\<exists>outs'. assignPairedItems (DataOutputs [None, Some [numbered 1]]) (start_entry retrying) = Inr (DataOutputs outs', True) \<and>
    list_all2 (rel_option (list_all2 pairing_added)) [None, Some [numbered 1]] outs' \<and>
    (\<forall>its it. Some its \<in> set outs' \<and> it \<in> set its \<longrightarrow> map_of it ''pairedItem'' \<noteq> None)"
proof -
  let ?outs = "[None, Some [numbered 1]]"
  have "case assignPairedItems (DataOutputs ?outs) (start_entry retrying) of Inl _ \<Rightarrow> False | Inr _ \<Rightarrow> True" by code_simp
  then obtain d ran' where run: "assignPairedItems (DataOutputs ?outs) (start_entry retrying) = Inr (d, ran')"
    by (auto split: sum.splits)
  have input: "map_of (exec_data (start_entry retrying)) MainConn = Some [Some [empty_item]] \<and> length [empty_item] = 1"
    by (simp add: start_entry_def)
  from assignPairedItems_exact[OF run] obtain outs' where outs': "d = DataOutputs outs'" "ran'"
    "list_all2 (rel_option (list_all2 pairing_added)) ?outs outs'"
    and paired: "\<forall>items. map_of (exec_data (start_entry retrying)) MainConn = Some [Some items] \<and> length items = 1 \<longrightarrow>
      (\<forall>its it. Some its \<in> set outs' \<and> it \<in> set its \<longrightarrow> map_of it ''pairedItem'' \<noteq> None)" by blast
  from paired input have all: "\<forall>its it. Some its \<in> set outs' \<and> it \<in> set its \<longrightarrow> map_of it ''pairedItem'' \<noteq> None" by blast
  from run outs'(1,2) have "assignPairedItems (DataOutputs ?outs) (start_entry retrying) = Inr (DataOutputs outs', True)" by simp
  with outs'(3) all show ?thesis by blast
qed

end
