(* ===== verification/RunLoop.thy ===== *)
theory RunLoop
  imports RunNode
begin

text \<open>
  The run loop: \<open>processRunExecutionData\<close> with \<open>checkReadyForExecution\<close>, \<open>ensureInputData\<close>, the result
  handed to the caller (\<open>processSuccessExecution\<close>, \<open>getFullRunData\<close>) and \<open>moveNodeMetadata\<close>
  (\<^verbatim>\<open>packages/core/src/execution-engine/workflow-execute.ts\<close>).

  \<open>loop_iteration\<close> is one iteration of the loop; it goes on, stops the loop, returns because the
  execution was cancelled, or throws. \<open>run_loop\<close> iterates it with a bound on the iterations, since a
  workflow with a cycle may run for ever. The calls of the life cycle hooks are a log. The
  environment says when the time is up and in which iterations the execution is cancelled.
\<close>

section \<open>Checks before the loop\<close>

text \<open>
  \<open>issues\<close> is \<open>NodeHelpers.getNodeParametersIssues\<close>; a node of an unknown type is an issue too. The
  names of the nodes with issues.
\<close>

definition checkReadyForExecution ::
    "(INode \<Rightarrow> bool) \<Rightarrow> RunEnv \<Rightarrow> Workflow \<Rightarrow> string option \<Rightarrow> string option \<Rightarrow> string list result" where
  "checkReadyForExecution issues env w startNode destinationNode =
     (let given = (\<lambda>x. case x of None \<Rightarrow> False | Some nm \<Rightarrow> nm \<noteq> []);
          checkNodes = (if given destinationNode
            then w_getParentNodes w (the destinationNode) (OfType MainConn) (-1) @ [the destinationNode]
            else if given startNode then w_getChildNodes w (the startNode) (OfType MainConn) (-1) @ [the startNode] else [])
      in rfold (\<lambda>nm found. case map_of (w_nodes w) nm of
             None \<Rightarrow> Inl TypeError
           | Some n \<Rightarrow> Inr (if is_disabled n then found
               else if env_kind env n = None \<or> issues n then set_add (node_name n) found else found)) checkNodes [])"

text \<open>An execution that waited: the node goes on as a disabled one and its last run is taken back.\<close>

definition resume_waiting :: "RunState \<Rightarrow> RunState result" where
  "resume_waiting st =
     (if \<not> rs_waitTill st then Inr st
      else case nodeExecutionStack (we_stack st) of
        [] \<Rightarrow> Inl TypeError
      | e # es \<Rightarrow> (case rs_lastNodeExecuted st of
          None \<Rightarrow> Inl TypeError
        | Some last' \<Rightarrow> (case map_of (we_runData st) last' of
            None \<Rightarrow> Inl TypeError
          | Some runs \<Rightarrow> Inr (st\<lparr>rs_waitTill := False,
              we_stack := (we_stack st)\<lparr>nodeExecutionStack := e\<lparr>exec_node := (exec_node e)\<lparr>node_disabled := Some True\<rparr>\<rparr> # es\<rparr>,
              we_runData := js_put last' (butlast runs) (we_runData st)\<rparr>))))"

definition start_processing :: "(INode \<Rightarrow> bool) \<Rightarrow> RunEnv \<Rightarrow> Workflow \<Rightarrow> RunState \<Rightarrow> RunState result" where
  "start_processing issues env w st =
     (let startNode = (case nodeExecutionStack (we_stack st) of [] \<Rightarrow> None | e # _ \<Rightarrow> Some (node_name (exec_node e)))
      in rbind (checkReadyForExecution issues env w startNode (sd_destinationNode (we_startData st))) (\<lambda>found.
         if found \<noteq> [] then Inl (ApplicationError ''The workflow has issues and cannot be executed for that reason. Please fix them first.'')
         else resume_waiting (st\<lparr>we_status := StRunning, rs_lastTry := None, rs_executionError := None\<rparr>)))"

section \<open>Input data\<close>

text \<open>Whether the node can run; if not, it is put at the end of the stack.\<close>

definition push_back :: "IExecuteData \<Rightarrow> RunState \<Rightarrow> RunState" where
  "push_back ed st = st\<lparr>we_stack := (we_stack st)\<lparr>nodeExecutionStack := nodeExecutionStack (we_stack st) @ [ed]\<rparr>\<rparr>"

fun ensure_inputs :: "Workflow \<Rightarrow> IExecuteData \<Rightarrow> nat list \<Rightarrow> bool result" where
  "ensure_inputs w ed [] = Inr True"
| "ensure_inputs w ed (connectionIndex # rest) =
     rbind (getHighestNode (highest_fuel w) w (node_name (exec_node ed)) (Some connectionIndex) []) (\<lambda>(highestNodes, _).
       if highestNodes = [] then Inr True
       else case map_of (exec_data ed) MainConn of
         None \<Rightarrow> Inr False
       | Some inputs \<Rightarrow>
           if forceInputNodeExecution w \<and>
              (length inputs < connectionIndex \<or> (connectionIndex < length inputs \<and> inputs ! connectionIndex = None))
           then Inr False else ensure_inputs w ed rest)"

definition ensureInputData :: "Workflow \<Rightarrow> IExecuteData \<Rightarrow> RunState \<Rightarrow> (bool \<times> RunState) result" where
  "ensureInputData w ed st =
     (let inputConnections = (case map_of (w_byDestination w) (node_name (exec_node ed)) of
            None \<Rightarrow> [] | Some ic \<Rightarrow> or_else (map_of ic MainConn) [])
      in rbind (ensure_inputs w ed [0 ..< length inputConnections]) (\<lambda>ok.
         Inr (if ok then (True, st) else (False, push_back ed st))))"

section \<open>The output of a node\<close>

text \<open>Error information goes to the \<open>json\<close> of an item; the message of an error that is \<open>null\<close> throws.\<close>

definition error_message_json :: "json \<Rightarrow> json result" where
  "error_message_json e = rbind (json_get e ''message'') (\<lambda>m.
     Inr (JObj (case m of None \<Rightarrow> [] | Some m \<Rightarrow> [(''error'', m)])))"

definition merge_error :: "INodeExecutionData \<Rightarrow> INodeExecutionData result" where
  "merge_error it =
     rbind (case map_of it ''json'' of
              None \<Rightarrow> Inr (None, None)
            | Some j \<Rightarrow> rbind (json_get j ''$error'') (\<lambda>e. rbind (json_get j ''$json'') (\<lambda>d. Inr (e, d)))) (\<lambda>(e, d).
     case (e, d) of
       (Some e, Some _) \<Rightarrow> rbind (error_message_json e) (\<lambda>m. Inr (js_put ''json'' m (js_put ''error'' e it)))
     | _ \<Rightarrow> (case map_of it ''error'' of
          None \<Rightarrow> Inr it
        | Some e \<Rightarrow> rbind (error_message_json e) (\<lambda>m. Inr (js_put ''json'' m it))))"

definition merge_errors :: "NodeData \<Rightarrow> INodeExecutionData list option list result" where
  "merge_errors d = (case d of
     DataOutputs outs \<Rightarrow> rmap (\<lambda>x. case x of None \<Rightarrow> Inl TypeError
       | Some items \<Rightarrow> rbind (rmap merge_error items) (\<lambda>items. Inr (Some items))) outs
   | _ \<Rightarrow> Inl TypeError)"

section \<open>The nodes that follow\<close>

text \<open>The connections of all outputs whose target is to be added, with the position of the target.\<close>

definition follows :: "Workflow \<Rightarrow> INodeExecutionData list option list \<Rightarrow> nat \<Rightarrow> IConnection \<Rightarrow> bool" where
  "follows w outs outputIndex cn = (case array_get outs outputIndex of
     None \<Rightarrow> False | Some items \<Rightarrow> length items \<noteq> 0 \<or> (conn_index cn > 0 \<and> forceInputNodeExecution w))"

definition position_of :: "Workflow \<Rightarrow> string \<Rightarrow> rat \<times> rat" where
  "position_of w nm = (case w_getNode w nm of None \<Rightarrow> (0, 0) | Some n \<Rightarrow> node_position n)"

definition output_connections :: "Workflow \<Rightarrow> string \<Rightarrow> (nat \<times> IConnection) list" where
  "output_connections w nm = (case map_of (w_bySource w) nm of
     None \<Rightarrow> []
   | Some ic \<Rightarrow> (case map_of ic MainConn of
       None \<Rightarrow> []
     | Some arr \<Rightarrow> [(i, cn). (i, Some cns) \<leftarrow> enumerate 0 arr, cn \<leftarrow> cns]))"

text \<open>The top-left node is to run first, so it is added last. Equal heights are not compared both ways.\<close>

definition compare_positions :: "NodeToAdd \<Rightarrow> NodeToAdd \<Rightarrow> int" where
  "compare_positions a b =
     (if snd (na_position a) < snd (na_position b) then 1
      else if snd (na_position a) > snd (na_position b) then -1
      else if fst (na_position a) > fst (na_position b) then -1 else 0)"

definition add_next :: "Workflow \<Rightarrow> string \<Rightarrow> INodeExecutionData list option list \<Rightarrow> nat \<Rightarrow> nat \<times> IConnection \<Rightarrow> RunState \<Rightarrow> RunState result" where
  "add_next w nm outs runIndex = (\<lambda>(outputIndex, cn) st.
     rbind (addNodeToBeExecuted w (we_runData st) cn outputIndex nm (Some outs) runIndex (we_stack st)) (\<lambda>stack.
       Inr (st\<lparr>we_stack := stack\<rparr>)))"

definition add_followers ::
    "RunEnv \<Rightarrow> Workflow \<Rightarrow> string \<Rightarrow> INodeExecutionData list option list \<Rightarrow> nat \<Rightarrow> RunState \<Rightarrow> RunState result" where
  "add_followers env w nm outs runIndex st =
     (if forceInputNodeExecution w
      then rfold (\<lambda>(i, cn) st. if map_of (w_nodes w) (conn_node cn) = None then Inl (ApplicationError ''Destination node not found'')
             else if follows w outs i cn then add_next w nm outs runIndex (i, cn) st else Inr st) (output_connections w nm) st
      else rbind (rfold (\<lambda>(i, cn) nodesToAdd. if map_of (w_nodes w) (conn_node cn) = None then Inl (ApplicationError ''Destination node not found'')
             else Inr (if follows w outs i cn
               then nodesToAdd @ [\<lparr>na_position = position_of w (conn_node cn), na_connection = cn, na_outputIndex = i\<rparr>] else nodesToAdd))
               (output_connections w nm) []) (\<lambda>nodesToAdd.
           rfold (\<lambda>x. add_next w nm outs runIndex (na_outputIndex x, na_connection x)) (env_sort env compare_positions nodesToAdd) st))"

section \<open>One iteration\<close>

datatype Iteration =
    Continue RunState
  | Break RunState
  | Cancelled RunState
  | Throws js_error RunState

definition log_hook :: "HookCall \<Rightarrow> RunState \<Rightarrow> RunState" where
  "log_hook h st = st\<lparr>rs_hooks := rs_hooks st @ [h]\<rparr>"

definition push_run :: "string \<Rightarrow> ITaskData \<Rightarrow> RunState \<Rightarrow> RunState" where
  "push_run nm task st = st\<lparr>we_runData := js_put nm (or_else (map_of (we_runData st) nm) [] @ [task]) (we_runData st)\<rparr>"

definition push_front :: "IExecuteData \<Rightarrow> RunState \<Rightarrow> RunState" where
  "push_front ed st = st\<lparr>we_stack := (we_stack st)\<lparr>nodeExecutionStack := ed # nodeExecutionStack (we_stack st)\<rparr>\<rparr>"

definition continues_on_error :: "INode \<Rightarrow> bool" where
  "continues_on_error n \<longleftrightarrow> node_continueOnFail n = Some True \<or>
     node_onError n = Some ContinueRegularOutput \<or> node_onError n = Some ContinueErrorOutput"

text \<open>The run as it is recorded: with output data, or with an error, or with both.\<close>

definition task_of_run :: "RunEnv \<Rightarrow> nat \<Rightarrow> IExecuteData \<Rightarrow> json list \<Rightarrow> RunState \<Rightarrow> ITaskData" where
  "task_of_run env k ed hints st =
     \<lparr>startTime = env_startTime env k, executionIndex = Some k,
      task_source = (case exec_source ed of None \<Rightarrow> [] | Some src \<Rightarrow> or_else (map_of src MainConn) []),
      task_hints = Some hints, executionTime = env_executionTime env k,
      executionStatus = Some (if rs_executionError st \<noteq> None then StError else if rs_waitTill st then StWaiting else StSuccess),
      task_data = None, task_inputOverride = None, task_error = rs_executionError st, task_metadata = exec_metadata ed\<rparr>"

text \<open>What a failed node passes on: its first input, if it has one.\<close>

definition input_as_output :: "IExecuteData \<Rightarrow> NodeData \<Rightarrow> NodeData" where
  "input_as_output ed d = (case map_of (exec_data ed) MainConn of
     Some (Some items # _) \<Rightarrow> DataOutputs [Some items] | _ \<Rightarrow> d)"

text \<open>The end of the iteration: if the stack is empty, one of the waiting nodes may run.\<close>

definition next_waiting :: "RunEnv \<Rightarrow> Workflow \<Rightarrow> RunState \<Rightarrow> RunState result" where
  "next_waiting env w st =
     (let waitingNodes = js_keys (waitingExecution (we_stack st))
      in if nodeExecutionStack (we_stack st) = [] \<and> waitingNodes \<noteq> []
         then rbind (pick_waiting (env_describe env) w waitingNodes waitingNodes (we_stack st)) (\<lambda>stack. Inr (st\<lparr>we_stack := stack\<rparr>))
         else Inr st)"

text \<open>After the tries, with the data of the node.\<close>

definition record_success ::
    "RunEnv \<Rightarrow> Workflow \<Rightarrow> nat \<Rightarrow> IExecuteData \<Rightarrow> nat \<Rightarrow> ITaskData \<Rightarrow> NodeData \<Rightarrow> RunState \<Rightarrow> Iteration" where
  "record_success env w k ed runIndex task d st =
     (let n = exec_node ed; nm = node_name n
      in case merge_errors d of
        Inl e \<Rightarrow> Throws e st
      | Inr outs \<Rightarrow>
          let task = task\<lparr>task_data := Some [(or_else (node_rewireOutputLogTo n) MainConn, outs)]\<rparr>;
              st = push_run nm task st
          in if rs_waitTill st then Break (push_front ed (log_hook (NodeExecuteAfter nm k) st))
             else if sd_destinationNode (we_startData st) = Some nm \<and> nm \<noteq> []
             then Continue (log_hook (NodeExecuteAfter nm k) st)
             else case add_followers env w nm outs runIndex st of
               Inl e \<Rightarrow> Throws e st
             | Inr st \<Rightarrow>
                 let st = log_hook (NodeExecuteAfter nm k) st
                 in case next_waiting env w st of Inl e \<Rightarrow> Throws e st | Inr st \<Rightarrow> Continue st)"

text \<open>The state after the tries, and the state in which the node has a list of runs.\<close>

definition after_tries :: "RunEnv \<Rightarrow> nat \<Rightarrow> json option \<Rightarrow> TryState \<Rightarrow> RunState" where
  "after_tries env k e ts =
     (let st = (ts_state ts)\<lparr>rs_executionError := e\<rparr> in if env_aborted env k then st\<lparr>we_status := StCanceled\<rparr> else st)"

definition with_runs :: "string \<Rightarrow> RunState \<Rightarrow> RunState" where
  "with_runs nm st = (if map_of (we_runData st) nm = None then st\<lparr>we_runData := js_put nm [] (we_runData st)\<rparr> else st)"

definition execute_node :: "RunEnv \<Rightarrow> Workflow \<Rightarrow> nat \<Rightarrow> IExecuteData \<Rightarrow> nat \<Rightarrow> RunState \<Rightarrow> Iteration" where
  "execute_node env w k ed runIndex st =
     (let n = exec_node ed; nm = node_name n;
          (executionError, ts) = try_loop env w k ed runIndex (max_tries n) None (first_try (log_hook (NodeExecuteBefore nm k) st));
          st = after_tries env k executionError ts
      in if executionError = None \<and> ts_data ts = DataNull \<and> \<not> rs_waitTill st then Continue st
         else
           let st = with_runs nm st; task = task_of_run env k ed (ts_hints ts) st
           in if executionError = None then record_success env w k ed runIndex task (ts_data ts) st
              else
                let st = log_hook (SendErrorChunk nm runIndex) st
                in if continues_on_error n
                   then record_success env w k ed runIndex task (input_as_output ed (ts_data ts)) st
                   else let st = push_front ed (push_run nm task st)
                        in Break (if env_aborted env k then st else log_hook (NodeExecuteAfter nm k) st))"

definition pop_entry :: "IExecuteData list \<Rightarrow> RunState \<Rightarrow> RunState" where
  "pop_entry rest st = st\<lparr>rs_executionError := None, we_currentNodeExecutionIndex := Suc (we_currentNodeExecutionIndex st),
     we_stack := (we_stack st)\<lparr>nodeExecutionStack := rest\<rparr>\<rparr>"

text \<open>
  An iteration on a stack that is not empty. The execution index \<open>k\<close> names it; a node that is not
  in the filter is dropped, one without input data is put back.
\<close>

definition loop_iteration :: "RunEnv \<Rightarrow> Workflow \<Rightarrow> RunState \<Rightarrow> Iteration" where
  "loop_iteration env w st =
     (let k = we_currentNodeExecutionIndex st;
          st = (if env_timedOut env k then st\<lparr>we_status := StCanceled\<rparr> else st)
      in if we_status st = StCanceled then Cancelled st
         else case nodeExecutionStack (we_stack st) of
           [] \<Rightarrow> Break st
         | ed # rest \<Rightarrow>
             let st = pop_entry rest st;
                 ed = ed\<lparr>exec_data := pair_inputs (exec_data ed)\<rparr>;
                 nm = node_name (exec_node ed);
                 runIndex = (case map_of (we_runData st) nm of None \<Rightarrow> 0 | Some runs \<Rightarrow> length runs)
             in if rs_lastTry st = Some (nm, runIndex)
                then Throws (ApplicationError ''Stopped execution because it seems to be in an endless loop'') st
                else if (case sd_runNodeFilter (we_startData st) of None \<Rightarrow> False | Some names \<Rightarrow> nm \<notin> set names)
                then Continue st
                else case ensureInputData w ed st of
                  Inl e \<Rightarrow> Throws e st
                | Inr (False, st) \<Rightarrow> Continue (st\<lparr>rs_lastTry := Some (nm, runIndex)\<rparr>)
                | Inr (True, st) \<Rightarrow> execute_node env w k ed runIndex st)"

datatype LoopEnd = Running | Ended | WasCancelled | Failed js_error

fun run_loop :: "nat \<Rightarrow> RunEnv \<Rightarrow> Workflow \<Rightarrow> RunState \<Rightarrow> LoopEnd \<times> RunState" where
  "run_loop 0 env w st = (Running, st)"
| "run_loop (Suc n) env w st =
     (if nodeExecutionStack (we_stack st) = [] then (Ended, st)
      else case loop_iteration env w st of
        Continue st \<Rightarrow> run_loop n env w st
      | Break st \<Rightarrow> (Ended, st)
      | Cancelled st \<Rightarrow> (WasCancelled, st)
      | Throws e st \<Rightarrow> (Failed e, st))"

section \<open>The result\<close>

text \<open>Metadata that was collected during the execution goes to the runs it belongs to.\<close>

definition merge_metadata :: "ITaskMetadata option \<Rightarrow> ITaskMetadata \<Rightarrow> ITaskMetadata" where
  "merge_metadata old new = (case old of None \<Rightarrow> new
     | Some o' \<Rightarrow> \<lparr>meta_subRun = (case meta_subRun new of None \<Rightarrow> meta_subRun o' | x \<Rightarrow> x),
         meta_parentExecution = (case meta_parentExecution new of None \<Rightarrow> meta_parentExecution o' | x \<Rightarrow> x),
         meta_subExecution = (case meta_subExecution new of None \<Rightarrow> meta_subExecution o' | x \<Rightarrow> x),
         meta_subExecutionsCount = (case meta_subExecutionsCount new of None \<Rightarrow> meta_subExecutionsCount o' | x \<Rightarrow> x)\<rparr>)"

definition move_one :: "string \<Rightarrow> nat \<times> ITaskMetadata \<Rightarrow> IRunData \<Rightarrow> IRunData" where
  "move_one nm = (\<lambda>(i, m) rd. case map_of rd nm of
     None \<Rightarrow> rd
   | Some runs \<Rightarrow> if i < length runs
       then js_put nm (runs[i := (runs ! i)\<lparr>task_metadata := Some (merge_metadata (task_metadata (runs ! i)) m)\<rparr>]) rd else rd)"

definition moveNodeMetadata :: "RunState \<Rightarrow> RunState" where
  "moveNodeMetadata st = st\<lparr>we_runData :=
     fold (\<lambda>(nm, ms). fold (move_one nm) (enumerate 0 ms)) (rs_metadata st) (we_runData st)\<rparr>"

record IRun =
  run_state :: RunState
  run_status :: ExecutionStatus
  run_finished :: bool
  run_error :: "json option"

definition getFullRunData :: "RunState \<Rightarrow> IRun" where
  "getFullRunData st = \<lparr>run_state = st, run_status = we_status st, run_finished = False, run_error = rs_error st\<rparr>"

definition is_canceled_message :: "json \<Rightarrow> bool" where
  "is_canceled_message e = (case e of JObj fs \<Rightarrow> (case map_of fs ''message'' of
     Some (JStr s) \<Rightarrow> is_infix ''canceled'' s | _ \<Rightarrow> False) | _ \<Rightarrow> False)"

definition processSuccessExecution :: "RunState \<Rightarrow> json option \<Rightarrow> IRun" where
  "processSuccessExecution st executionError =
     (let full = getFullRunData st;
          full = (case executionError of
              Some e \<Rightarrow> full\<lparr>run_error := Some e, run_status := (if is_canceled_message e then StCanceled else run_status full)\<rparr>
            | None \<Rightarrow> if rs_waitTill st then full\<lparr>run_status := StWaiting\<rparr>
                else full\<lparr>run_finished := True, run_status := StSuccess\<rparr>)
      in full\<lparr>run_state := (moveNodeMetadata st)\<lparr>rs_error := run_error full\<rparr>\<rparr>)"

definition finish_run :: "LoopEnd \<times> RunState \<Rightarrow> IRun option" where
  "finish_run = (\<lambda>(loopEnd, st). case loopEnd of
     Running \<Rightarrow> None
   | Failed e \<Rightarrow> Some ((getFullRunData st)\<lparr>run_error := Some (error_json e),
       run_state := (moveNodeMetadata st)\<lparr>rs_error := Some (error_json e)\<rparr>\<rparr>)
   | _ \<Rightarrow> Some (processSuccessExecution st
       (if we_status st = StCanceled \<and> rs_executionError st = None
        then Some (error_object ''The execution was cancelled'') else rs_executionError st)))"

definition processRunExecutionData ::
    "(INode \<Rightarrow> bool) \<Rightarrow> nat \<Rightarrow> RunEnv \<Rightarrow> Workflow \<Rightarrow> RunState \<Rightarrow> IRun option result" where
  "processRunExecutionData issues n env w st =
     rbind (start_processing issues env w st) (\<lambda>st. Inr (finish_run (run_loop n env w st)))"

section \<open>What the tries leave alone\<close>

text \<open>The tries change none of the fields that \<open>WorkflowExecute\<close> has.\<close>

definition same_execution :: "RunState \<Rightarrow> RunState \<Rightarrow> bool" where
  "same_execution st st' \<longleftrightarrow> WorkflowExecute.truncate st' = WorkflowExecute.truncate st"

lemma same_execution_fields:
  assumes "same_execution st st'"
  shows "we_runData st' = we_runData st" "we_stack st' = we_stack st" "we_startData st' = we_startData st"
    "we_currentNodeExecutionIndex st' = we_currentNodeExecutionIndex st" "we_status st' = we_status st"
  using assms by (simp_all add: same_execution_def WorkflowExecute.truncate_def)

lemma same_execution_trans: "same_execution a b \<Longrightarrow> same_execution b c \<Longrightarrow> same_execution a c"
  by (simp add: same_execution_def)

lemma counted_same: "same_execution st (ts_state ts) \<Longrightarrow> same_execution st (ts_state (counted b ts))"
  by (simp add: counted_def same_execution_def WorkflowExecute.truncate_def)

lemma soft_retry_same:
  "same_execution st (ts_state ts) \<Longrightarrow> same_execution st (ts_state (snd (soft_retry env w k ed runIndex maxTries r ts)))"
proof (induction env w k ed runIndex maxTries r ts rule: soft_retry.induct)
  case (1 env w k ed runIndex maxTries r ts)
  then show ?case
    by (subst soft_retry.simps) (auto simp: counted_same split: NodeOutcome.split)
qed

lemma call_node_same:
  "same_execution st (ts_state ts) \<Longrightarrow> same_execution st (ts_state (snd (call_node env w k ed runIndex maxTries ts)))"
  by (auto simp: call_node_def counted_same intro!: soft_retry_same split: NodeOutcome.split)

lemma last_executed_same: "same_execution st st' \<Longrightarrow> same_execution st (st'\<lparr>rs_lastNodeExecuted := x\<rparr>)"
  by (simp add: same_execution_def WorkflowExecute.truncate_def)

lemma attempt_same:
  assumes "same_execution st (ts_state ts)"
  shows "same_execution st (ts_state (snd (attempt env w k ed runIndex maxTries ts)))"
proof (cases "call_node env w k ed runIndex maxTries ts")
  case (Pair x ts')
  with call_node_same[OF assms, of env w k ed runIndex maxTries] have "same_execution st (ts_state ts')" by simp
  with assms show ?thesis
    by (auto simp: attempt_def Let_def Pair last_executed_same split: option.split sum.split prod.split)
qed

lemma try_loop_same:
  "same_execution st (ts_state ts) \<Longrightarrow> same_execution st (ts_state (snd (try_loop env w k ed runIndex maxTries e ts)))"
proof (induction env w k ed runIndex maxTries e ts rule: try_loop.induct)
  case (1 env w k ed runIndex maxTries e ts)
  obtain x ts' where at: "attempt env w k ed runIndex maxTries ts = (x, ts')" by fastforce
  with attempt_same[OF "1.prems", of env w k ed runIndex maxTries] have "same_execution st (ts_state ts')" by simp
  with "1.IH" "1.prems" at show ?case
    by (subst try_loop.simps) (auto simp: last_executed_same split: sum.split)
qed

section \<open>The run data grows\<close>

definition runs_of :: "IRunData \<Rightarrow> string \<Rightarrow> ITaskData list" where
  "runs_of rd nm = or_else (map_of rd nm) []"

lemma runs_of_put [simp]: "runs_of (js_put nm runs rd) nm' = (if nm' = nm then runs else runs_of rd nm')"
  by (simp add: runs_of_def or_else_def)

text \<open>
  The runs recorded from one state to a later one: nothing was taken away, all new runs are of nodes
  that the filter names, and they carry ascending execution indices.
\<close>

definition may_run :: "RunState \<Rightarrow> string \<Rightarrow> bool" where
  "may_run st nm \<longleftrightarrow> (case sd_runNodeFilter (we_startData st) of None \<Rightarrow> True | Some names \<Rightarrow> nm \<in> set names)"

definition recorded :: "RunState \<Rightarrow> RunState \<Rightarrow> (string \<times> ITaskData) list \<Rightarrow> nat list \<Rightarrow> bool" where
  "recorded st st' runs ks \<longleftrightarrow>
     (\<forall>nm. runs_of (we_runData st') nm = runs_of (we_runData st) nm @ map snd (filter (\<lambda>r. fst r = nm) runs)) \<and>
     (\<forall>r \<in> set runs. may_run st (fst r)) \<and> map (\<lambda>r. executionIndex (snd r)) runs = map Some ks \<and> sorted_wrt (<) ks \<and>
     (\<forall>k \<in> set ks. we_currentNodeExecutionIndex st \<le> k \<and> k < we_currentNodeExecutionIndex st') \<and>
     we_startData st' = we_startData st \<and> we_currentNodeExecutionIndex st \<le> we_currentNodeExecutionIndex st'"

lemma recorded_refl: "recorded st st [] []"
  by (simp add: recorded_def)

lemma recorded_trans:
  "recorded st st' runs ks \<Longrightarrow> recorded st' st'' runs' ks' \<Longrightarrow> recorded st st'' (runs @ runs') (ks @ ks')"
  by (auto simp: recorded_def may_run_def sorted_wrt_append intro: less_le_trans)

fun state_of :: "Iteration \<Rightarrow> RunState" where
  "state_of (Continue st) = st"
| "state_of (Break st) = st"
| "state_of (Cancelled st) = st"
| "state_of (Throws e st) = st"

text \<open>What happens after the run is recorded changes the stack and the log of the hooks only.\<close>

definition same_runs :: "RunState \<Rightarrow> RunState \<Rightarrow> bool" where
  "same_runs st st' \<longleftrightarrow> we_runData st' = we_runData st \<and> we_startData st' = we_startData st \<and>
     we_currentNodeExecutionIndex st' = we_currentNodeExecutionIndex st \<and> rs_executionError st' = rs_executionError st"

lemma add_next_runs: "add_next w nm outs ri x st = Inr st' \<Longrightarrow> same_runs st st'"
  by (cases x) (auto simp: add_next_def same_runs_def result_simps)

lemma rfold_same_runs:
  assumes "\<And>x st st'. f x st = Inr st' \<Longrightarrow> same_runs st st'" "rfold f xs st = Inr st'"
  shows "same_runs st st'"
  using assms(2)
proof (induction xs arbitrary: st)
  case (Cons x xs)
  then obtain st1 where "f x st = Inr st1" "rfold f xs st1 = Inr st'" by (auto simp: result_simps)
  with assms(1) Cons.IH show ?case by (fastforce simp: same_runs_def)
qed (simp add: same_runs_def)

lemma add_followers_runs:
  assumes "add_followers env w nm outs ri st = Inr st'"
  shows "same_runs st st'"
proof -
  have here: "same_runs st st" for st by (simp add: same_runs_def)
  show ?thesis
    using assms
    by (auto simp: add_followers_def result_simps here add_next_runs elim!: rfold_same_runs[rotated] split: if_splits)
qed

lemma next_waiting_runs: "next_waiting env w st = Inr st' \<Longrightarrow> same_runs st st'"
  by (auto simp: next_waiting_def Let_def same_runs_def result_simps split: if_splits)

lemma record_success_runs:
  "we_runData (state_of (record_success env w k ed ri task d st)) = we_runData st \<and>
     we_startData (state_of (record_success env w k ed ri task d st)) = we_startData st \<and>
     we_currentNodeExecutionIndex (state_of (record_success env w k ed ri task d st)) = we_currentNodeExecutionIndex st \<or>
   (\<exists>outs. same_runs (push_run (node_name (exec_node ed)) (task\<lparr>task_data := Some outs\<rparr>) st) (state_of (record_success env w k ed ri task d st)))"
proof (cases "merge_errors d")
  case (Inr outs)
  let ?nm = "node_name (exec_node ed)"
  let ?outs = "[(or_else (node_rewireOutputLogTo (exec_node ed)) MainConn, outs)]"
  let ?st = "push_run ?nm (task\<lparr>task_data := Some ?outs\<rparr>) st"
  have "same_runs ?st (state_of (record_success env w k ed ri task d st))"
  proof (cases "add_followers env w ?nm outs ri ?st")
    case Inl
    then show ?thesis by (simp add: record_success_def Let_def Inr same_runs_def push_front_def log_hook_def)
  next
    case (Inr st1)
    note f = add_followers_runs[OF this]
    show ?thesis
      using f Inr \<open>merge_errors d = _\<close>
      by (cases "next_waiting env w (log_hook (NodeExecuteAfter ?nm k) st1)")
        (auto simp: record_success_def Let_def same_runs_def push_front_def log_hook_def dest: next_waiting_runs)
  qed
  then show ?thesis by blast
qed (simp add: record_success_def)

definition one_run :: "nat \<Rightarrow> string \<Rightarrow> RunState \<Rightarrow> RunState \<Rightarrow> bool" where
  "one_run k nm st st' \<longleftrightarrow> we_startData st' = we_startData st \<and> we_currentNodeExecutionIndex st' = we_currentNodeExecutionIndex st \<and>
     ((\<forall>m. runs_of (we_runData st') m = runs_of (we_runData st) m) \<or>
      (\<exists>task. executionIndex task = Some k \<and>
         (\<forall>m. runs_of (we_runData st') m = runs_of (we_runData st) m @ (if m = nm then [task] else []))))"

lemma push_run_one: "executionIndex task = Some k \<Longrightarrow> same_runs (push_run nm task st) st' \<Longrightarrow> one_run k nm st st'"
  by (auto simp: one_run_def same_runs_def push_run_def runs_of_def or_else_def split: option.splits)

lemma record_success_one:
  assumes "executionIndex task = Some k"
  shows "one_run k (node_name (exec_node ed)) st (state_of (record_success env w k ed ri task d st))"
  using record_success_runs[of env w k ed ri task d st]
proof (elim disjE exE)
  fix outs
  assume "same_runs (push_run (node_name (exec_node ed)) (task\<lparr>task_data := Some outs\<rparr>) st) (state_of (record_success env w k ed ri task d st))"
  from push_run_one[OF _ this] assms show ?thesis by simp
qed (simp add: one_run_def)

lemma one_run_same:
  assumes "one_run k nm st1 st'" "we_startData st1 = we_startData st"
    "we_currentNodeExecutionIndex st1 = we_currentNodeExecutionIndex st" "\<And>m. runs_of (we_runData st1) m = runs_of (we_runData st) m"
  shows "one_run k nm st st'"
  using assms by (simp add: one_run_def)

lemma with_runs_fields [simp]:
  "runs_of (we_runData (with_runs nm st)) m = runs_of (we_runData st) m" "we_startData (with_runs nm st) = we_startData st"
  "we_currentNodeExecutionIndex (with_runs nm st) = we_currentNodeExecutionIndex st" "we_stack (with_runs nm st) = we_stack st"
  "rs_executionError (with_runs nm st) = rs_executionError st" "rs_waitTill (with_runs nm st) = rs_waitTill st"
  by (auto simp: with_runs_def runs_of_def or_else_def)

lemma after_tries_fields:
  assumes "try_loop env w k ed ri m None (first_try (log_hook h st)) = (e, ts)"
  shows "we_runData (after_tries env k e ts) = we_runData st" "we_stack (after_tries env k e ts) = we_stack st"
    "we_startData (after_tries env k e ts) = we_startData st"
    "we_currentNodeExecutionIndex (after_tries env k e ts) = we_currentNodeExecutionIndex st"
    "rs_executionError (after_tries env k e ts) = e"
proof -
  have "same_execution (log_hook h st) (ts_state (first_try (log_hook h st)))" by (simp add: same_execution_def first_try_def)
  from try_loop_same[OF this, of env w k ed ri m None] assms have "same_execution (log_hook h st) (ts_state ts)" by simp
  note f = same_execution_fields[OF this]
  show "we_runData (after_tries env k e ts) = we_runData st" "we_stack (after_tries env k e ts) = we_stack st"
    "we_startData (after_tries env k e ts) = we_startData st"
    "we_currentNodeExecutionIndex (after_tries env k e ts) = we_currentNodeExecutionIndex st"
    "rs_executionError (after_tries env k e ts) = e"
    using f by (simp_all add: after_tries_def Let_def log_hook_def)
qed

lemma execute_node_unfold:
  assumes "try_loop env w k ed ri (max_tries (exec_node ed)) None (first_try (log_hook (NodeExecuteBefore (node_name (exec_node ed)) k) st)) = (e, ts)"
  shows "execute_node env w k ed ri st =
     (let n = exec_node ed; nm = node_name n; st0 = after_tries env k e ts; st1 = with_runs nm st0; task = task_of_run env k ed (ts_hints ts) st1
      in if e = None \<and> ts_data ts = DataNull \<and> \<not> rs_waitTill st0 then Continue st0
         else if e = None then record_success env w k ed ri task (ts_data ts) st1
         else if continues_on_error n
         then record_success env w k ed ri task (input_as_output ed (ts_data ts)) (log_hook (SendErrorChunk nm ri) st1)
         else let st = push_front ed (push_run nm task (log_hook (SendErrorChunk nm ri) st1))
              in Break (if env_aborted env k then st else log_hook (NodeExecuteAfter nm k) st))"
  unfolding execute_node_def Let_def assms by simp

lemma execute_node_one: "one_run k (node_name (exec_node ed)) st (state_of (execute_node env w k ed ri st))"
proof -
  let ?n = "exec_node ed" let ?nm = "node_name ?n"
  obtain e ts where tl: "try_loop env w k ed ri (max_tries ?n) None (first_try (log_hook (NodeExecuteBefore ?nm k) st)) = (e, ts)" by fastforce
  note f = after_tries_fields[OF tl]
  let ?st1 = "with_runs ?nm (after_tries env k e ts)"
  let ?task = "task_of_run env k ed (ts_hints ts) ?st1"
  have task: "executionIndex ?task = Some k" by (simp add: task_of_run_def)
  have one: "one_run k ?nm st s" if "one_run k ?nm st' s" "st' = ?st1 \<or> st' = log_hook (SendErrorChunk ?nm ri) ?st1" for s st'
    by (rule one_run_same[OF that(1)]) (use that(2) f in \<open>auto simp: log_hook_def\<close>)
  have fails: "one_run k ?nm st s" if "same_runs (push_run ?nm ?task (log_hook (SendErrorChunk ?nm ri) ?st1)) s" for s
    by (rule one[OF push_run_one[OF task that] disjI2]) simp
  have none: "one_run k ?nm st (after_tries env k e ts)" using f by (simp add: one_run_def)
  show ?thesis
    unfolding execute_node_unfold[OF tl] Let_def
    using one[OF record_success_one[OF task]] none
      fails[of "push_front ed (push_run ?nm ?task (log_hook (SendErrorChunk ?nm ri) ?st1))"]
      fails[of "log_hook (NodeExecuteAfter ?nm k) (push_front ed (push_run ?nm ?task (log_hook (SendErrorChunk ?nm ri) ?st1)))"]
    by (auto simp: same_runs_def push_front_def log_hook_def)
qed

lemma one_run_recorded:
  assumes "one_run k nm st1 st'" "we_startData st1 = we_startData st" "we_runData st1 = we_runData st"
    "we_currentNodeExecutionIndex st = k" "we_currentNodeExecutionIndex st1 = Suc k" "may_run st nm"
  shows "\<exists>runs ks. recorded st st' runs ks \<and> fst ` set runs \<subseteq> {nm}"
proof -
  from assms(1) consider "\<forall>m. runs_of (we_runData st') m = runs_of (we_runData st1) m"
    | task where "executionIndex task = Some k" "\<forall>m. runs_of (we_runData st') m = runs_of (we_runData st1) m @ (if m = nm then [task] else [])"
    by (auto simp: one_run_def)
  then show ?thesis
  proof cases
    case 1
    with assms have "recorded st st' [] []" by (simp add: recorded_def one_run_def)
    then show ?thesis by (intro exI[of _ "[]"]) simp
  next
    case 2
    with assms have "recorded st st' [(nm, task)] [k]" by (auto simp: recorded_def one_run_def)
    then show ?thesis by (intro exI[of _ "[(nm, task)]"] exI[of _ "[k]"]) simp
  qed
qed

lemma ensureInputData_fields:
  assumes "ensureInputData w ed st = Inr (ok, st')"
  shows "we_startData st' = we_startData st \<and> we_runData st' = we_runData st \<and>
    we_currentNodeExecutionIndex st' = we_currentNodeExecutionIndex st \<and> (ok \<longrightarrow> st' = st)"
  using assms by (auto simp: ensureInputData_def Let_def result_simps push_back_def split: if_splits)

lemma loop_iteration_cases:
  assumes "nodeExecutionStack (we_stack st) = ed # rest"
  obtains (Cancelled) s where "loop_iteration env w st = Cancelled s" "we_runData s = we_runData st" "we_startData s = we_startData st"
      "we_currentNodeExecutionIndex s = we_currentNodeExecutionIndex st"
  | (Throws) e where "loop_iteration env w st = Throws e (pop_entry rest st)"
  | (Filtered) "loop_iteration env w st = Continue (pop_entry rest st)" "\<not> may_run st (node_name (exec_node ed))"
  | (PutBack) s x where "loop_iteration env w st = Continue (s\<lparr>rs_lastTry := x\<rparr>)"
      "ensureInputData w (ed\<lparr>exec_data := pair_inputs (exec_data ed)\<rparr>) (pop_entry rest st) = Inr (False, s)"
  | (Runs) ri where "loop_iteration env w st = execute_node env w (we_currentNodeExecutionIndex st)
        (ed\<lparr>exec_data := pair_inputs (exec_data ed)\<rparr>) ri (pop_entry rest st)"
      "may_run st (node_name (exec_node ed))" "ri = length (runs_of (we_runData st) (node_name (exec_node ed)))"
proof -
  let ?k = "we_currentNodeExecutionIndex st"
  let ?ed = "ed\<lparr>exec_data := pair_inputs (exec_data ed)\<rparr>"
  let ?nm = "node_name (exec_node ed)"
  let ?ri = "length (runs_of (we_runData st) ?nm)"
  let ?st = "pop_entry rest st"
  have name: "node_name (exec_node ?ed) = ?nm" by simp
  have ri: "(case map_of (we_runData ?st) ?nm of None \<Rightarrow> 0 | Some runs \<Rightarrow> length runs) = ?ri"
    by (simp add: pop_entry_def runs_of_def or_else_def split: option.split)
  have filt: "(case sd_runNodeFilter (we_startData ?st) of None \<Rightarrow> False | Some names \<Rightarrow> ?nm \<notin> set names) \<longleftrightarrow> \<not> may_run st ?nm"
    by (simp add: pop_entry_def may_run_def split: option.split)
  show thesis
  proof (cases "env_timedOut env ?k \<or> we_status st = StCanceled")
    case True
    then have "loop_iteration env w st = Cancelled (if env_timedOut env ?k then st\<lparr>we_status := StCanceled\<rparr> else st)"
      by (auto simp: loop_iteration_def Let_def)
    then show thesis by (rule Cancelled) simp_all
  next
    case False
    then have going: "(if env_timedOut env ?k then st\<lparr>we_status := StCanceled\<rparr> else st) = st" by simp
    from False have it: "loop_iteration env w st =
        (if rs_lastTry ?st = Some (?nm, ?ri)
         then Throws (ApplicationError ''Stopped execution because it seems to be in an endless loop'') ?st
         else if \<not> may_run st ?nm then Continue ?st
         else case ensureInputData w ?ed ?st of
           Inl e \<Rightarrow> Throws e ?st
         | Inr (False, st) \<Rightarrow> Continue (st\<lparr>rs_lastTry := Some (?nm, ?ri)\<rparr>)
         | Inr (True, st) \<Rightarrow> execute_node env w ?k ?ed ?ri st)"
      unfolding loop_iteration_def Let_def going assms list.case name ri filt by simp
    show thesis
    proof (cases "rs_lastTry ?st = Some (?nm, ?ri)")
      case True
      with it show thesis by (intro Throws) simp
    next
      case fresh: False
      show thesis
      proof (cases "may_run st ?nm")
        case False
        with it fresh show thesis by (intro Filtered) simp_all
      next
        case True
        show thesis
        proof (cases "ensureInputData w ?ed ?st")
          case (Inl e)
          with it fresh True show thesis by (intro Throws) simp
        next
          case (Inr r)
          then obtain ok s where r: "ensureInputData w ?ed ?st = Inr (ok, s)" by (cases r) simp
          show thesis
          proof (cases ok)
            case False
            with r it fresh True show thesis by (intro PutBack[where s = s and x = "Some (?nm, ?ri)"]) simp_all
          next
            case ok: True
            with r ensureInputData_fields[OF r] it fresh True show thesis by (intro Runs[where ri = ?ri]) simp_all
          qed
        qed
      qed
    qed
  qed
qed

lemma loop_iteration_recorded:
  "\<exists>runs ks. recorded st (state_of (loop_iteration env w st)) runs ks \<and> fst ` set runs \<subseteq> set (take 1 (stack_names (we_stack st)))"
proof -
  have none: "\<exists>runs ks. recorded st s runs ks \<and> fst ` set runs \<subseteq> N" if "we_startData s = we_startData st" "we_runData s = we_runData st"
    "we_currentNodeExecutionIndex st \<le> we_currentNodeExecutionIndex s" for s N
    using that by (intro exI[of _ "[]"]) (simp add: recorded_def)
  show ?thesis
  proof (cases "nodeExecutionStack (we_stack st)")
    case Nil
    show ?thesis by (rule none; use Nil in \<open>simp add: loop_iteration_def Let_def\<close>)
  next
    case (Cons ed rest)
    then have top: "set (take 1 (stack_names (we_stack st))) = {node_name (exec_node ed)}" by (simp add: stack_names_def)
    show ?thesis
      using Cons
    proof (cases rule: loop_iteration_cases[of st ed rest env w])
      case (PutBack s x)
      from ensureInputData_fields[OF PutBack(2)] show ?thesis unfolding PutBack(1) by (intro none) (simp_all add: pop_entry_def)
    next
      case (Runs ri)
      let ?ed = "ed\<lparr>exec_data := pair_inputs (exec_data ed)\<rparr>"
      have "\<exists>runs ks. recorded st (state_of (execute_node env w (we_currentNodeExecutionIndex st) ?ed ri (pop_entry rest st))) runs ks \<and>
          fst ` set runs \<subseteq> {node_name (exec_node ?ed)}"
        by (rule one_run_recorded[OF execute_node_one _ _ refl]) (use Runs(2) in \<open>simp_all add: pop_entry_def\<close>)
      then show ?thesis unfolding Runs(1) top by simp
    qed (rule none; auto simp: pop_entry_def)+
  qed
qed

lemma run_loop_appends: "\<exists>runs ks. recorded st (snd (run_loop n env w st)) runs ks"
proof (induction n arbitrary: st)
  case 0
  then show ?case using recorded_refl by auto
next
  case (Suc n)
  show ?case
  proof (cases "nodeExecutionStack (we_stack st) = []")
    case True
    then show ?thesis using recorded_refl by auto
  next
    case False
    obtain runs ks where one: "recorded st (state_of (loop_iteration env w st)) runs ks" using loop_iteration_recorded by meson
    show ?thesis
    proof (cases "loop_iteration env w st")
      case (Continue st1)
      with Suc.IH[of st1] one False show ?thesis by (auto intro: recorded_trans)
    qed (use False one in auto)
  qed
qed

text \<open>
  C7: Whatever the nodes do, the run loop takes no recorded run away; it appends runs in the order of
  execution, of nodes in the node filter only, each with an execution index of its own that no run had
  before the loop started.
\<close>

theorem run_loop_recorded: "\<exists>runs ks. recorded st (snd (run_loop n env w st)) runs ks"
  by (rule run_loop_appends)

section \<open>A node that fails\<close>

text \<open>
  After an iteration that stopped the loop with an error the failed entry is back on top of the
  stack, its run is recorded with the error, and so is the execution.
\<close>

definition failed_at :: "IExecuteData \<Rightarrow> IExecuteData list \<Rightarrow> json \<Rightarrow> RunState \<Rightarrow> RunState \<Rightarrow> bool" where
  "failed_at ed rest e st st' \<longleftrightarrow>
     nodeExecutionStack (we_stack st') = ed\<lparr>exec_data := pair_inputs (exec_data ed)\<rparr> # rest \<and>
     waitingExecution (we_stack st') = waitingExecution (we_stack st) \<and>
     (\<exists>task. runs_of (we_runData st') (node_name (exec_node ed)) = runs_of (we_runData st) (node_name (exec_node ed)) @ [task] \<and>
        task_error task = Some e \<and> executionStatus task = Some StError \<and> executionIndex task = Some (we_currentNodeExecutionIndex st)) \<and>
     (\<exists>r. finish_run (Ended, st') = Some r \<and> run_error r = Some e \<and> \<not> run_finished r)"

lemma record_success_break:
  assumes "record_success env w k ed ri task d st = Break st'"
  shows "\<exists>h outs. st' = push_front ed (log_hook h (push_run (node_name (exec_node ed)) (task\<lparr>task_data := Some outs\<rparr>) st))"
  using assms by (auto simp: record_success_def Let_def split: sum.splits if_splits)

lemma finish_run_error:
  "rs_executionError st = Some e \<Longrightarrow> \<exists>r. finish_run (Ended, st) = Some r \<and> run_error r = Some e \<and> \<not> run_finished r"
  by (simp add: finish_run_def processSuccessExecution_def Let_def getFullRunData_def)

lemma execute_node_break:
  assumes "execute_node env w k ed ri st = Break st'" "rs_executionError st' = Some e"
  shows "nodeExecutionStack (we_stack st') = ed # nodeExecutionStack (we_stack st)"
    "waitingExecution (we_stack st') = waitingExecution (we_stack st)"
    "\<exists>task. runs_of (we_runData st') (node_name (exec_node ed)) = runs_of (we_runData st) (node_name (exec_node ed)) @ [task] \<and>
        task_error task = Some e \<and> executionStatus task = Some StError \<and> executionIndex task = Some k"
proof -
  let ?n = "exec_node ed" let ?nm = "node_name ?n"
  obtain e' ts where tl: "try_loop env w k ed ri (max_tries ?n) None (first_try (log_hook (NodeExecuteBefore ?nm k) st)) = (e', ts)" by fastforce
  note f = after_tries_fields[OF tl]
  let ?st1 = "with_runs ?nm (after_tries env k e' ts)"
  let ?task = "task_of_run env k ed (ts_hints ts) ?st1"
  define ends where "ends task \<longleftrightarrow> nodeExecutionStack (we_stack st') = ed # nodeExecutionStack (we_stack ?st1) \<and>
      waitingExecution (we_stack st') = waitingExecution (we_stack ?st1) \<and>
      we_runData st' = we_runData (push_run ?nm task ?st1) \<and> rs_executionError st' = rs_executionError ?st1 \<and>
      task_error task = e' \<and> executionStatus task = executionStatus ?task \<and> executionIndex task = Some k" for task
  have task: "task_error ?task = e'" "executionIndex ?task = Some k" by (simp_all add: task_of_run_def f)
  have "\<exists>task. ends task"
  proof (cases "e' \<noteq> None \<and> \<not> continues_on_error ?n")
    case True
    with assms(1) have "ends ?task"
      unfolding execute_node_unfold[OF tl] Let_def ends_def using task
      by (auto simp: log_hook_def push_front_def push_run_def split: if_splits)
    then show ?thesis by blast
  next
    case False
    with assms(1) obtain st2 d where run: "record_success env w k ed ri ?task d st2 = Break st'"
      and st2: "we_stack st2 = we_stack ?st1" "we_runData st2 = we_runData ?st1" "rs_executionError st2 = rs_executionError ?st1"
      unfolding execute_node_unfold[OF tl] Let_def by (auto simp: log_hook_def split: if_splits)
    from record_success_break[OF run] obtain h outs where
      "st' = push_front ed (log_hook h (push_run ?nm (?task\<lparr>task_data := Some outs\<rparr>) st2))" by blast
    then have "ends (?task\<lparr>task_data := Some outs\<rparr>)"
      unfolding ends_def using task st2 by (simp add: log_hook_def push_front_def push_run_def)
    then show ?thesis by blast
  qed
  then obtain task where st': "ends task" by blast
  then have "e' = Some e" using assms(2) f(5) by (simp add: ends_def)
  show "nodeExecutionStack (we_stack st') = ed # nodeExecutionStack (we_stack st)"
    "waitingExecution (we_stack st') = waitingExecution (we_stack st)"
    using st' f(2) by (simp_all add: ends_def)
  show "\<exists>task. runs_of (we_runData st') ?nm = runs_of (we_runData st) ?nm @ [task] \<and>
        task_error task = Some e \<and> executionStatus task = Some StError \<and> executionIndex task = Some k"
  proof (intro exI[of _ task] conjI)
    have "or_else (map_of (we_runData ?st1) ?nm) [] = runs_of (we_runData st) ?nm"
      using with_runs_fields(1)[of ?nm "after_tries env k e' ts" ?nm] f(1) by (simp add: runs_of_def)
    then show "runs_of (we_runData st') ?nm = runs_of (we_runData st) ?nm @ [task]"
      using st' by (simp add: push_run_def ends_def)
  qed (use st' \<open>e' = Some e\<close> f(5) in \<open>simp_all add: task_of_run_def ends_def\<close>)
qed

text \<open>
  C8: If an iteration stops the loop with an error, the run of the node is recorded with the error and
  the index of the iteration, its entry is on top of the stack again, the waiting nodes are as before,
  and the result of the execution is that error: the execution can be tried again from that node.
\<close>

theorem loop_iteration_failed:
  assumes "nodeExecutionStack (we_stack st) = ed # rest" and "loop_iteration env w st = Break st'"
    and "rs_executionError st' = Some e"
  shows "failed_at ed rest e st st'"
proof -
  let ?ed = "ed\<lparr>exec_data := pair_inputs (exec_data ed)\<rparr>"
  from assms(2) obtain ri where "execute_node env w (we_currentNodeExecutionIndex st) ?ed ri (pop_entry rest st) = Break st'"
    by (cases rule: loop_iteration_cases[OF assms(1), of env w]) auto
  from execute_node_break[OF this assms(3)] finish_run_error[OF assms(3)] show ?thesis
    unfolding failed_at_def by (simp add: pop_entry_def)
qed

section \<open>The end of the loop\<close>

text \<open>
  Every iteration that continues takes a name out of the pending ones and adds names of nodes it leads
  to: the pending names become smaller in the multiset extension of the main connections.
\<close>

abbreviation main_steps :: "Workflow \<Rightarrow> (string \<times> string) set" where
  "main_steps w \<equiv> conn_edges (w_bySource w) (OfType MainConn)"

lemma output_connections_step: "(i, cn) \<in> set (output_connections w nm) \<Longrightarrow> (nm, conn_node cn) \<in> main_steps w"
proof -
  assume "(i, cn) \<in> set (output_connections w nm)"
  then obtain ic arr cns where "map_of (w_bySource w) nm = Some ic" "map_of ic MainConn = Some arr"
    "(i, Some cns) \<in> set (enumerate 0 arr)" "cn \<in> set cns"
    by (cases "map_of (w_bySource w) nm"; cases "map_of (the (map_of (w_bySource w) nm)) MainConn")
      (auto simp: output_connections_def split: option.splits)
  then have "cn \<in> set (flat_conns arr)" by (auto simp: flat_conns_set in_set_enumerate_eq dest!: nth_mem)
  with \<open>map_of (w_bySource w) nm = _\<close> \<open>map_of ic MainConn = _\<close> show ?thesis
    by (auto simp: conn_edges_def)
qed

lemma main_steps_finite: "finite (main_steps w)"
proof (rule finite_subset)
  show "main_steps w \<subseteq> (fst ` set (w_bySource w)) \<times>
      (\<Union>p \<in> set (w_bySource w). \<Union>q \<in> set (snd p). conn_node ` set (flat_conns (snd q)))"
  proof (rule subrelI)
    fix a b assume "(a, b) \<in> main_steps w"
    then obtain ic ty arr c where at: "(a, ic) \<in> set (w_bySource w)" "(ty, arr) \<in> set ic" "c \<in> set (flat_conns arr)" "b = conn_node c"
      by (auto simp: conn_edges_def dest!: map_of_SomeD)
    then have "a \<in> fst ` set (w_bySource w)" by force
    with at show "(a, b) \<in> (fst ` set (w_bySource w)) \<times>
      (\<Union>p \<in> set (w_bySource w). \<Union>q \<in> set (snd p). conn_node ` set (flat_conns (snd q)))" by force
  qed
qed auto

lemma pending_smaller:
  assumes "P = add_mset a M" "N \<subseteq># M + K" "\<forall>k \<in># K. (k, a) \<in> r"
  shows "(N, P) \<in> mult r"
proof -
  let ?I = "N \<inter># M"
  have sub: "N - ?I \<subseteq># K" using assms(2) by (simp add: diff_intersect_left_idem subset_eq_diff_conv ac_simps)
  have "(?I + (N - ?I), ?I + (P - ?I)) \<in> mult r"
  proof (rule one_step_implies_mult)
    have "a \<in># P - ?I" unfolding assms(1) by (simp add: add_mset_diff_bothsides in_diff_count)
    then show "P - ?I \<noteq> {#}" by auto
    show "\<forall>k \<in># N - ?I. \<exists>j \<in># P - ?I. (k, j) \<in> r"
      using \<open>a \<in># P - ?I\<close> assms(3) mset_subset_eqD[OF sub] by blast
  qed
  moreover have "?I + (N - ?I) = N" by (rule multiset_eqI) simp
  moreover have "?I + (P - ?I) = P" unfolding assms(1) by (rule multiset_eqI) (simp add: min_def)
  ultimately show ?thesis by simp
qed

text \<open>What a terminating run needs of the workflow and the environment.\<close>

definition loop_free :: "RunEnv \<Rightarrow> Workflow \<Rightarrow> bool" where
  "loop_free env w \<longleftrightarrow> \<not> forceInputNodeExecution w \<and> names_match w \<and> acyclic (main_steps w) \<and>
     (\<forall>cmp xs. set (env_sort env cmp xs) \<subseteq> set xs)"

lemma add_next_pending:
  assumes "\<not> forceInputNodeExecution w" "names_match w" "add_next w nm outs ri (i, cn) st = Inr st'" "stack_has_main (we_stack st)"
  shows "pending (we_stack st') \<subseteq># add_mset (conn_node cn) (pending (we_stack st))" "stack_has_main (we_stack st')"
  using assms(3,4) addNodeToBeExecuted_pending[OF assms(1,2)] by (auto simp: add_next_def result_simps)

lemma rfold_add_next_pending:
  assumes "\<not> forceInputNodeExecution w" "names_match w"
    "rfold (\<lambda>x. add_next w nm outs ri (f x)) xs st = Inr st'" "stack_has_main (we_stack st)"
  shows "pending (we_stack st') \<subseteq># pending (we_stack st) + mset (map (\<lambda>x. conn_node (snd (f x))) xs) \<and> stack_has_main (we_stack st')"
  using assms(3,4)
proof (induction xs arbitrary: st)
  case (Cons x xs)
  then obtain st1 where st1: "add_next w nm outs ri (f x) st = Inr st1" "rfold (\<lambda>x. add_next w nm outs ri (f x)) xs st1 = Inr st'"
    by (auto simp: result_simps)
  obtain i cn where fx: "f x = (i, cn)" by fastforce
  note one = add_next_pending[OF assms(1,2) st1(1)[unfolded fx] Cons.prems(2)]
  from Cons.IH[OF st1(2) one(2)] one(1) show ?case
    using fx by (auto intro: subset_mset.order_trans simp: subset_mset.add_right_mono)
qed simp

lemma add_followers_pending:
  assumes "loop_free env w" "add_followers env w nm outs ri st = Inr st'" "stack_has_main (we_stack st)"
  shows "\<exists>K. pending (we_stack st') \<subseteq># pending (we_stack st) + K \<and> (\<forall>k \<in># K. (nm, k) \<in> main_steps w) \<and> stack_has_main (we_stack st')"
proof -
  from assms(1) have v1: "\<not> forceInputNodeExecution w" and names: "names_match w"
    and sorts: "\<And>cmp xs. set (env_sort env cmp xs) \<subseteq> set xs" by (auto simp: loop_free_def)
  let ?add = "\<lambda>(i, cn) nodesToAdd. if map_of (w_nodes w) (conn_node cn) = None then Inl (ApplicationError ''Destination node not found'')
             else Inr (if follows w outs i cn
               then nodesToAdd @ [\<lparr>na_position = position_of w (conn_node cn), na_connection = cn, na_outputIndex = i\<rparr>] else nodesToAdd)"
  from assms(2) v1 obtain adds where adds: "rfold ?add (output_connections w nm) [] = Inr adds"
    "rfold (\<lambda>x. add_next w nm outs ri (na_outputIndex x, na_connection x)) (env_sort env compare_positions adds) st = Inr st'"
    by (auto simp: add_followers_def result_simps)
  have "\<forall>x \<in> set adds. na_connection x \<in> snd ` set (output_connections w nm)"
    if "rfold ?add cs acc = Inr adds" "snd ` set cs \<subseteq> snd ` set (output_connections w nm)"
      "\<forall>x \<in> set acc. na_connection x \<in> snd ` set (output_connections w nm)" for cs acc
    using that
  proof (induction cs arbitrary: acc)
    case (Cons c cs)
    obtain i cn where c: "c = (i, cn)" by fastforce
    with Cons.prems(1) obtain acc' where acc': "rfold ?add cs acc' = Inr adds"
      "acc' = (if follows w outs i cn
         then acc @ [\<lparr>na_position = position_of w (conn_node cn), na_connection = cn, na_outputIndex = i\<rparr>] else acc)"
      by (auto simp: result_simps split: if_splits)
    show ?case by (rule Cons.IH[OF acc'(1)]) (use Cons.prems(2,3) c acc'(2) in auto)
  qed simp
  from this[OF adds(1)] have "\<forall>x \<in> set adds. na_connection x \<in> snd ` set (output_connections w nm)" by simp
  then have steps: "\<forall>x \<in> set adds. (nm, conn_node (na_connection x)) \<in> main_steps w"
    using output_connections_step[of _ _ w nm] by fastforce
  let ?K = "mset (map (\<lambda>x. conn_node (na_connection x)) (env_sort env compare_positions adds))"
  have "\<forall>k \<in># ?K. (nm, k) \<in> main_steps w" using steps sorts[of compare_positions adds] by auto
  with rfold_add_next_pending[OF v1 names adds(2) assms(3)] show ?thesis by (intro exI[of _ ?K]) simp
qed

lemma next_waiting_pending:
  assumes "loop_free env w" "next_waiting env w st = Inr st'" "stack_has_main (we_stack st)"
  shows "pending (we_stack st') \<subseteq># pending (we_stack st) \<and> stack_has_main (we_stack st')"
  using assms pick_waiting_pending[of w]
  by (auto simp: next_waiting_def Let_def result_simps loop_free_def split: if_splits)

lemma record_success_pending:
  assumes "loop_free env w" "record_success env w k ed ri task d st = Continue st'" "stack_has_main (we_stack st)"
  shows "\<exists>K. pending (we_stack st') \<subseteq># pending (we_stack st) + K \<and>
    (\<forall>x \<in># K. (node_name (exec_node ed), x) \<in> main_steps w) \<and> stack_has_main (we_stack st')"
proof -
  let ?nm = "node_name (exec_node ed)"
  have here: ?thesis if "we_stack st' = we_stack st" using that assms(3) by (intro exI[of _ "{#}"]) simp
  show ?thesis
  proof (cases "we_stack st' = we_stack st")
    case False
    from assms(2) obtain outs where "merge_errors d = Inr outs" by (cases "merge_errors d") (auto simp: record_success_def Let_def)
    define st0 where "st0 = push_run ?nm (task\<lparr>task_data := Some [(or_else (node_rewireOutputLogTo (exec_node ed)) MainConn, outs)]\<rparr>) st"
    have st0: "we_stack st0 = we_stack st" by (simp add: st0_def push_run_def)
    note run = assms(2)[unfolded record_success_def Let_def \<open>merge_errors d = _\<close> sum.case st0_def[symmetric]]
    have "add_followers env w ?nm outs ri st0 \<noteq> Inl x" for x using run False st0 by (auto simp: log_hook_def split: if_splits)
    then obtain st1 where "add_followers env w ?nm outs ri st0 = Inr st1" by (cases "add_followers env w ?nm outs ri st0") auto
    with run False st0 have st1: "we_stack st0 = we_stack st" "add_followers env w ?nm outs ri st0 = Inr st1"
      "next_waiting env w (log_hook (NodeExecuteAfter ?nm k) st1) = Inr st'"
      by (auto simp: log_hook_def split: if_splits sum.splits)
    from add_followers_pending[OF assms(1) st1(2)] st1(1) assms(3) obtain K where
      K: "pending (we_stack st1) \<subseteq># pending (we_stack st) + K" "\<forall>x \<in># K. (?nm, x) \<in> main_steps w" "stack_has_main (we_stack st1)" by auto
    with next_waiting_pending[OF assms(1) st1(3)] show ?thesis by (auto simp: log_hook_def intro: subset_mset.order_trans)
  qed (rule here)
qed

lemma execute_node_pending:
  assumes "loop_free env w" "execute_node env w k ed ri st = Continue st'" "stack_has_main (we_stack st)"
  shows "\<exists>K. pending (we_stack st') \<subseteq># pending (we_stack st) + K \<and>
    (\<forall>x \<in># K. (node_name (exec_node ed), x) \<in> main_steps w) \<and> stack_has_main (we_stack st')"
proof -
  let ?n = "exec_node ed" let ?nm = "node_name ?n"
  obtain e ts where tl: "try_loop env w k ed ri (max_tries ?n) None (first_try (log_hook (NodeExecuteBefore ?nm k) st)) = (e, ts)" by fastforce
  note f = after_tries_fields[OF tl]
  let ?st1 = "with_runs ?nm (after_tries env k e ts)"
  from assms(2) consider "st' = after_tries env k e ts"
    | st0 task d where "we_stack st0 = we_stack st" "record_success env w k ed ri task d st0 = Continue st'"
  proof -
    show thesis
    proof (cases "e = None")
      case True
      with assms(2) show thesis
        unfolding execute_node_unfold[OF tl] Let_def using that(1) that(2)[of ?st1] f(2) by (auto split: if_splits)
    next
      case False
      with assms(2) show thesis
        unfolding execute_node_unfold[OF tl] Let_def using that(2)[of "log_hook (SendErrorChunk ?nm ri) ?st1"] f(2)
        by (auto simp: log_hook_def split: if_splits)
    qed
  qed
  then show ?thesis
  proof cases
    case 1
    with assms(3) f show ?thesis by (intro exI[of _ "{#}"]) simp
  next
    case 2
    from record_success_pending[OF assms(1) 2(2)] 2(1) assms(3) show ?thesis by simp
  qed
qed

lemma ensure_inputs_v1:
  "\<not> forceInputNodeExecution w \<Longrightarrow> map_of (exec_data ed) MainConn \<noteq> None \<Longrightarrow> ensure_inputs w ed is = Inr ok \<Longrightarrow> ok"
  by (induction "is") (auto simp: result_simps split: if_splits)

lemma pair_inputs_main: "map_of (pair_inputs d) MainConn = None \<longleftrightarrow> map_of d MainConn = None"
  by (induction d) (auto simp: pair_inputs_def)

text \<open>One iteration that continues.\<close>

lemma loop_iteration_pending:
  assumes "loop_free env w" "stack_has_main (we_stack st)" "nodeExecutionStack (we_stack st) = ed # rest"
    "loop_iteration env w st = Continue st'"
  shows "\<exists>M K. pending (we_stack st) = add_mset (node_name (exec_node ed)) M \<and> pending (we_stack st') \<subseteq># M + K \<and>
    (\<forall>x \<in># K. (node_name (exec_node ed), x) \<in> main_steps w) \<and> stack_has_main (we_stack st')"
proof -
  let ?nm = "node_name (exec_node ed)"
  let ?ed = "ed\<lparr>exec_data := pair_inputs (exec_data ed)\<rparr>"
  have P: "pending (we_stack st) = add_mset ?nm (pending (we_stack (pop_entry rest st)))"
    by (simp add: pending_def stack_names_def pop_entry_def assms(3))
  have main: "stack_has_main (we_stack (pop_entry rest st))" "map_of (exec_data ?ed) MainConn \<noteq> None"
    using assms(2,3) pair_inputs_main[of "exec_data ed"] by (auto simp: stack_has_main_def pop_entry_def)
  have "\<exists>K. pending (we_stack st') \<subseteq># pending (we_stack (pop_entry rest st)) + K \<and>
    (\<forall>x \<in># K. (?nm, x) \<in> main_steps w) \<and> stack_has_main (we_stack st')"
    using assms(3)
  proof (cases rule: loop_iteration_cases[of st ed rest env w])
    case Filtered
    with assms(4) main(1) show ?thesis by (intro exI[of _ "{#}"]) simp
  next
    case (PutBack s x)
    have False
      using PutBack(2) ensure_inputs_v1[OF _ main(2)] assms(1)
      by (auto simp: ensureInputData_def Let_def result_simps loop_free_def split: if_splits)
    then show ?thesis ..
  next
    case (Runs ri)
    with assms(4) have "execute_node env w (we_currentNodeExecutionIndex st) ?ed ri (pop_entry rest st) = Continue st'" by simp
    from execute_node_pending[OF assms(1) this main(1)] show ?thesis by simp
  qed (use assms(4) in simp_all)
  with P show ?thesis by blast
qed

lemma loop_iteration_smaller:
  assumes "loop_free env w" "stack_has_main (we_stack st)" "nodeExecutionStack (we_stack st) = ed # rest"
    "loop_iteration env w st = Continue st'"
  shows "(pending (we_stack st'), pending (we_stack st)) \<in> mult ((main_steps w)\<inverse>) \<and> stack_has_main (we_stack st')"
proof -
  from loop_iteration_pending[OF assms] obtain M K where P: "pending (we_stack st) = add_mset (node_name (exec_node ed)) M"
    and K: "pending (we_stack st') \<subseteq># M + K" "\<forall>x \<in># K. (node_name (exec_node ed), x) \<in> main_steps w" "stack_has_main (we_stack st')" by blast
  from pending_smaller[OF P K(1)] K(2,3) show ?thesis by simp
qed

lemma run_loop_stable: "fst (run_loop n env w st) \<noteq> Running \<Longrightarrow> n \<le> m \<Longrightarrow> run_loop m env w st = run_loop n env w st"
proof (induction n arbitrary: m st)
  case (Suc n)
  then obtain m' where m: "m = Suc m'" "n \<le> m'" by (cases m) auto
  show ?case
  proof (cases "nodeExecutionStack (we_stack st) = []")
    case False
    then show ?thesis
    proof (cases "loop_iteration env w st")
      case (Continue st')
      have "fst (run_loop n env w st') \<noteq> Running" using Suc.prems(1) False Continue by simp
      from Suc.IH[OF this m(2)] show ?thesis unfolding m(1) using False Continue by simp
    qed (simp_all add: m(1))
  qed (simp add: m(1))
qed simp

lemma run_loop_halts:
  assumes "loop_free env w" and "stack_has_main (we_stack st)"
  shows "\<exists>n. fst (run_loop n env w st) \<noteq> Running"
proof -
  have "wf ((main_steps w)\<inverse>)"
    using assms(1) by (intro finite_acyclic_wf_converse main_steps_finite) (simp add: loop_free_def)
  then have wf: "wf (inv_image (mult ((main_steps w)\<inverse>)) (\<lambda>st. pending (we_stack st)))" by (intro wf_inv_image wf_mult)
  show ?thesis
    using wf assms(2)
  proof (induction st rule: wf_induct_rule)
    case (less st)
    show ?case
    proof (cases "nodeExecutionStack (we_stack st)")
      case Nil
      then have "fst (run_loop (Suc 0) env w st) \<noteq> Running" by simp
      then show ?thesis by blast
    next
      case (Cons ed rest)
      show ?thesis
      proof (cases "loop_iteration env w st")
        case (Continue st')
        from loop_iteration_smaller[OF assms(1) less.prems Cons Continue] less.IH[of st'] obtain n where
          "fst (run_loop n env w st') \<noteq> Running" by auto
        then have "fst (run_loop (Suc n) env w st) \<noteq> Running" using Cons Continue by simp
        then show ?thesis by blast
      next
        case (Break st')
        then have "fst (run_loop (Suc 0) env w st) \<noteq> Running" using Cons by simp
        then show ?thesis by blast
      next
        case (Cancelled st')
        then have "fst (run_loop (Suc 0) env w st) \<noteq> Running" using Cons by simp
        then show ?thesis by blast
      next
        case (Throws e st')
        then have "fst (run_loop (Suc 0) env w st) \<noteq> Running" using Cons by simp
        then show ?thesis by blast
      qed
    qed
  qed
qed

text \<open>C31: In the execution order \<open>v1\<close>, with the nodes stored under their names, no cycle of main connections and a sort that
  returns the elements it is given, let every entry of the stack have main input data. Then the run loop ends for all
  behaviours of the nodes and all waiting entries: there is a number of iterations after which it has ended, and more
  of them change nothing.\<close>

theorem run_loop_ends:
  assumes "loop_free env w" and "stack_has_main (we_stack st)"
  shows "\<exists>n. fst (run_loop n env w st) \<noteq> Running \<and> (\<forall>m \<ge> n. run_loop m env w st = run_loop n env w st)"
  using run_loop_halts[OF assms] run_loop_stable by blast

section \<open>Whole executions\<close>

text \<open>An execution whose stack was set up, with the variables of the loop as the constructor leaves them.\<close>

definition fresh_run :: "WorkflowExecute \<Rightarrow> RunState" where
  "fresh_run we = WorkflowExecute.extend we (RunState.fields False None None [] None None [])"

lemma fresh_run_fields [simp]:
  "we_stack (fresh_run we) = we_stack we" "we_runData (fresh_run we) = we_runData we" "we_startData (fresh_run we) = we_startData we"
  "we_currentNodeExecutionIndex (fresh_run we) = we_currentNodeExecutionIndex we" "rs_waitTill (fresh_run we) = False"
  by (simp_all add: fresh_run_def WorkflowExecute.defs RunState.defs)

section \<open>Examples\<close>

text \<open>A workflow whose nodes are stored under their names and whose connections all lead to a node of higher rank.\<close>

definition ranked :: "(string \<Rightarrow> nat) \<Rightarrow> Workflow \<Rightarrow> bool" where
  "ranked rank w \<longleftrightarrow> (\<forall>p \<in> set (w_nodes w). node_name (snd p) = fst p) \<and> \<not> forceInputNodeExecution w \<and>
     (\<forall>p \<in> set (w_bySource w). \<forall>q \<in> set (snd p). \<forall>c \<in> set (flat_conns (snd q)). rank (fst p) < rank (conn_node c))"

lemma ranked_loop_free:
  assumes "ranked rank w"
  shows "loop_free (sample_env call) w"
proof -
  have "names_match w" using assms by (force simp: names_match_def ranked_def dest: map_of_SomeD)
  moreover have "acyclic ((main_steps w)\<inverse>)"
  proof (rule acyclicI_order)
    fix a b assume "(a, b) \<in> (main_steps w)\<inverse>"
    then show "rank b < rank a" using assms by (force simp: conn_edges_def ranked_def dest!: map_of_SomeD)
  qed
  ultimately show ?thesis using assms by (auto simp: loop_free_def ranked_def sample_env_def)
qed

definition letter_rank :: "string \<Rightarrow> nat" where
  "letter_rank nm = (if nm = ''a'' then 0 else if nm = ''b'' then 1 else 2)"

text \<open>Nodes that pass an item on, except \<open>b\<close>, which gives no data, and \<open>c\<close>, which throws.\<close>

definition passing :: "nat \<Rightarrow> nat \<Rightarrow> INode \<Rightarrow> nat \<Rightarrow> ITaskDataConnections \<Rightarrow> NodeOutcome" where
  "passing k call n runIndex d =
     (if node_name n = ''b'' then response DataNull
      else if node_name n = ''c'' then Threw (error_object ''bad'') False
      else response (DataOutputs [Some [numbered k]]))"

definition forked :: Workflow where
  "forked = small_workflow [''a'', ''b'', ''m''] [(''a'', [main_to ''m'' 0, main_to ''b'' 0]), (''b'', [main_to ''m'' 1])]"

lemma run_loop_ends_witness:
  "\<exists>n. fst (run_loop n (sample_env passing) forked (run_at (plain_node 0 ''a'' ''t'') None)) \<noteq> Running"
proof -
  have "ranked letter_rank forked" by code_simp
  from run_loop_ends[OF ranked_loop_free[OF this], of "run_at (plain_node 0 ''a'' ''t'') None" passing] show ?thesis
    by (auto simp: stack_has_main_def run_at_def start_entry_def)
qed

text \<open>
  The node \<open>b\<close> returns \<open>null\<close>, which goes on with the loop at once: the search for a waiting node is left
  out, and the loop ends although \<open>m\<close> has data and could run. It ends as a success.
\<close>

lemma waiting_node_left_behind:
  "case run_loop 5 (sample_env passing) forked (run_at (plain_node 0 ''a'' ''t'') None) of
     (e, st) \<Rightarrow> e = Ended \<and> js_keys (we_runData st) = [''a''] \<and>
       map_of (or_else (entry (waitingExecution (we_stack st)) ''m'' 0) []) MainConn = Some [Some (pair_items 0 [numbered 0]), None] \<and>
       map_option run_finished (finish_run (e, st)) = Some True"
  by code_simp

text \<open>If \<open>b\<close> returns no items instead, the waiting node runs.\<close>

definition quiet :: "nat \<Rightarrow> nat \<Rightarrow> INode \<Rightarrow> nat \<Rightarrow> ITaskDataConnections \<Rightarrow> NodeOutcome" where
  "quiet k call n runIndex d =
     (if node_name n = ''b'' then response (DataOutputs [Some []]) else response (DataOutputs [Some [numbered k]]))"

lemma waiting_node_runs:
  "case run_loop 5 (sample_env quiet) forked (run_at (plain_node 0 ''a'' ''t'') None) of
     (e, st) \<Rightarrow> e = Ended \<and> js_keys (we_runData st) = [''a'', ''b'', ''m''] \<and> waitingExecution (we_stack st) = []"
  by code_simp

text \<open>The message of an execution that was cancelled does not contain the word the result is searched for.\<close>

lemma cancelled_not_recognised: "\<not> is_canceled_message (error_object ''The execution was cancelled'')"
  by code_simp

definition failing :: RunState where
  "failing = run_at (plain_node 0 ''c'' ''t'') None"

lemma loop_iteration_failed_witness:
  "\<exists>e st'. loop_iteration (sample_env passing) forked failing = Break st' \<and>
    failed_at (start_entry (plain_node 0 ''c'' ''t'')) [] e failing st'"
proof -
  have "case loop_iteration (sample_env passing) forked failing of Break st' \<Rightarrow> rs_executionError st' \<noteq> None | _ \<Rightarrow> False" by code_simp
  then obtain st' e where run: "loop_iteration (sample_env passing) forked failing = Break st'" "rs_executionError st' = Some e"
    by (auto split: Iteration.splits)
  have "nodeExecutionStack (we_stack failing) = [start_entry (plain_node 0 ''c'' ''t'')]" by (simp add: failing_def run_at_def)
  from loop_iteration_failed[OF this run] run show ?thesis by blast
qed

end
