(* ===== verification/PartialRuns.thy ===== *)
theory PartialRuns
  imports RunLoop
begin

text \<open>
  What a partial execution keeps of the run data it is given: the preparation (\<open>PartialExecution\<close>) and the run
  loop (\<open>RunLoop\<close>) together.
\<close>

section \<open>Nodes that the loop runs\<close>


section \<open>Run data that is cleared\<close>

text \<open>The names of a node and of the utility nodes above it, and of all nodes that run again with the given ones.\<close>

definition with_utilities :: "DirectedGraph \<Rightarrow> INode \<Rightarrow> string set" where
  "with_utilities g m = insert (node_name m)
     {node_name (gc_from c) | c cs. getParentConnections g m = Inr cs \<and> c \<in> set cs \<and> gc_type c \<noteq> MainConn}"

definition rerun_names :: "DirectedGraph \<Rightarrow> INode list \<Rightarrow> string set" where
  "rerun_names g ns = (\<Union>n \<in> set ns. \<Union>m \<in> {m. m = n \<or> (\<exists>cs. getChildren g n = Inr cs \<and> m \<in> set cs)}. with_utilities g m)"

text \<open>On a well-formed graph these are the nodes that connections lead to from the given ones.\<close>

lemma rerun_names_reachable:
  assumes wf: "wf_graph g" and ns: "\<And>n. n \<in> set ns \<Longrightarrow> in_graph g n"
  shows "rerun_names g ns = (\<Union>n \<in> set ns. cleaned_names g n)"
proof -
  have utilities: "with_utilities g m = node_and_utilities g m" if m: "in_graph g m" for m
  proof -
    obtain cs where cs: "getParentConnections g m = Inr cs" "set cs = {c \<in> graph_conns g. (gc_to c, m) \<in> (g_edges g)\<^sup>*}"
      using getParentConnections_reachable[OF wf m] by blast
    then show ?thesis by (auto simp: with_utilities_def node_and_utilities_def not_main_def)
  qed
  have "(\<Union>m \<in> {m. m = n \<or> (\<exists>cs. getChildren g n = Inr cs \<and> m \<in> set cs)}. with_utilities g m) = cleaned_names g n" if "n \<in> set ns" for n
  proof -
    have n: "in_graph g n" using ns[OF that] .
    obtain cs where cs: "getChildren g n = Inr cs" "set cs = {m. (n, m) \<in> (g_edges g)\<^sup>+}" using getChildren_reachable[OF wf n] by blast
    have "{m. m = n \<or> (\<exists>cs. getChildren g n = Inr cs \<and> m \<in> set cs)} = {m. (n, m) \<in> (g_edges g)\<^sup>*}"
      using cs by (auto simp: rtrancl_eq_or_trancl)
    moreover have "in_graph g m" if "(n, m) \<in> (g_edges g)\<^sup>*" for m
      using that n g_edges_in[OF wf] by (auto elim: rtranclE)
    ultimately show ?thesis using utilities by (simp add: cleaned_names_def)
  qed
  then show ?thesis by (simp add: rerun_names_def)
qed





section \<open>What is prepared\<close>









section \<open>Whole partial executions\<close>


section \<open>Example\<close>




end
