(* ===== verification/Parameters.thy ===== *)
theory Parameters
  imports Workflow
begin

text \<open>
  Node parameters: the properties a node type declares, which of them are displayed, and in which order
  their values are resolved (\<^verbatim>\<open>packages/workflow/src/node-helpers.ts\<close>, the types in
  \<^verbatim>\<open>interfaces.ts\<close>).

  Parameter values are JSON values; \<open>undefined\<close> is \<open>None\<close>, and a key that holds \<open>undefined\<close> is an absent
  one. The functions of lodash (\<open>get\<close>, \<open>isEqual\<close>), the regular expressions and the conversion of other
  values to numbers are arguments, the record \<open>ParamLib\<close>.
\<close>

section \<open>Properties\<close>

datatype NodePropertyType =
    PtBoolean | PtButton | PtCollection | PtColor | PtDateTime | PtFixedCollection | PtHidden | PtJson
  | PtCallout | PtNotice | PtMultiOptions | PtNumber | PtOptions | PtString | PtCredentialsSelect
  | PtResourceLocator | PtCurlImport | PtResourceMapper | PtFilter | PtAssignmentCollection
  | PtCredentials | PtWorkflowSelector

datatype DisplayCondition =
    CndEq json | CndNot json | CndGte json | CndLte json | CndGt json | CndLt json
  | CndBetween json json | CndIncludes json | CndStartsWith string | CndEndsWith string
  | CndRegex string | CndExists

datatype DisplayRule = RuleValue "json option" | RuleCnd DisplayCondition

text \<open>The rules of a property name may be \<open>undefined\<close>.\<close>

type_synonym DisplayRules = "(string, DisplayRule list option) js_map"

record IDisplayOptions =
  do_show :: "DisplayRules option"
  do_hide :: "DisplayRules option"

record INodePropertyMode =
  pm_name :: string
  pm_validation :: "(string \<times> string) list"

text \<open>
  The fields of a property besides its name, type, default and options. Of the type options, \<open>multipleValues\<close>,
  the bounds on the number of fields and two options of the resource mapper count.
\<close>

record PropertyExtras =
  pp_displayName :: string
  pp_required :: "bool option"
  pp_displayOptions :: "IDisplayOptions option"
  pp_disabledOptions :: "IDisplayOptions option"
  pp_multipleValues :: "bool option"
  pp_minRequiredFields :: "nat option"
  pp_maxAllowedFields :: "nat option"
  pp_modes :: "INodePropertyMode list option"
  pp_validateType :: "string option"
  pp_fieldWord :: "string option"
  pp_resourceMapperMode :: "string option"
  pp_doNotInherit :: bool

datatype INodeProperties =
  Property (np_name: string) (np_type: NodePropertyType) (np_default: "json option") (np_extras: PropertyExtras)
    (np_options: "PropertyOption list option")
and PropertyOption =
    OptionValue string json "string option"
  | OptionProperty INodeProperties
  | OptionCollection string "INodeProperties list"

fun option_name :: "PropertyOption \<Rightarrow> string" where
  "option_name (OptionValue nm v a) = nm"
| "option_name (OptionProperty p) = np_name p"
| "option_name (OptionCollection nm ps) = nm"

section \<open>Library functions and values\<close>

record ParamLib =
  lib_get :: "json option \<Rightarrow> string \<Rightarrow> json option"
  lib_isEqual :: "json option \<Rightarrow> json option \<Rightarrow> bool"
  lib_regex :: "string \<Rightarrow> json option \<Rightarrow> bool result"
  lib_number :: "json option \<Rightarrow> rat option"

text \<open>What \<open>displayParameter\<close> reads of the node and of its type.\<close>

record ParamNode =
  pn_version :: "rat option"
  pn_typeName :: "string option"

definition field_of :: "json \<Rightarrow> string \<Rightarrow> json option" where
  "field_of j k = (case j of JObj fs \<Rightarrow> map_of fs k | _ \<Rightarrow> None)"

definition to_number :: "ParamLib \<Rightarrow> json option \<Rightarrow> rat option" where
  "to_number lib v = (case v of Some (JNum n) \<Rightarrow> Some n | _ \<Rightarrow> lib_number lib v)"

fun str_less :: "string \<Rightarrow> string \<Rightarrow> bool" where
  "str_less _ [] = False"
| "str_less [] (_ # _) = True"
| "str_less (a # as) (b # bs) = (if a = b then str_less as bs else (of_char a :: nat) < of_char b)"

text \<open>\<open><\<close> of JavaScript: two strings are compared as strings, other values as numbers, \<open>NaN\<close> is \<open>None\<close>.\<close>

definition js_less :: "ParamLib \<Rightarrow> json option \<Rightarrow> json option \<Rightarrow> bool" where
  "js_less lib a b = (case (a, b) of
     (Some (JStr s), Some (JStr t)) \<Rightarrow> str_less s t
   | _ \<Rightarrow> (case (to_number lib a, to_number lib b) of (Some x, Some y) \<Rightarrow> x < y | _ \<Rightarrow> False))"

definition js_less_eq :: "ParamLib \<Rightarrow> json option \<Rightarrow> json option \<Rightarrow> bool" where
  "js_less_eq lib a b = (case (a, b) of
     (Some (JStr s), Some (JStr t)) \<Rightarrow> \<not> str_less t s
   | _ \<Rightarrow> (case (to_number lib a, to_number lib b) of (Some x, Some y) \<Rightarrow> x \<le> y | _ \<Rightarrow> False))"

text \<open>Two values are the same one only if they are no objects.\<close>

definition is_object :: "json \<Rightarrow> bool" where
  "is_object j = (case j of JArr _ \<Rightarrow> True | JObj _ \<Rightarrow> True | _ \<Rightarrow> False)"

definition same_value :: "json option \<Rightarrow> json option \<Rightarrow> bool" where
  "same_value a b \<longleftrightarrow> a = b \<and> (\<forall>j. a = Some j \<longrightarrow> \<not> is_object j)"

lemma same_value_code [code]: "same_value a b = (a = b \<and> (case a of None \<Rightarrow> True | Some j \<Rightarrow> \<not> is_object j))"
  by (auto simp: same_value_def split: option.split)

definition js_includes :: "json option \<Rightarrow> json \<Rightarrow> bool result" where
  "js_includes v target = (case v of
     Some (JStr s) \<Rightarrow> (case target of JStr t \<Rightarrow> Inr (is_infix t s) | _ \<Rightarrow> Inr False)
   | Some (JArr xs) \<Rightarrow> Inr (\<exists>x \<in> set xs. same_value (Some x) (Some target))
   | _ \<Rightarrow> Inl TypeError)"

definition has_prefix :: "string \<Rightarrow> string \<Rightarrow> bool" where
  "has_prefix p s \<longleftrightarrow> take (length p) s = p"

definition has_suffix :: "string \<Rightarrow> string \<Rightarrow> bool" where
  "has_suffix p s \<longleftrightarrow> has_prefix (rev p) (rev s)"

definition on_string :: "(string \<Rightarrow> bool) \<Rightarrow> json option \<Rightarrow> bool result" where
  "on_string p v = (case v of Some (JStr s) \<Rightarrow> Inr (p s) | _ \<Rightarrow> Inl TypeError)"

text \<open>\<open>some\<close> and \<open>every\<close> with a test that may throw.\<close>

fun rsome :: "('a \<Rightarrow> bool result) \<Rightarrow> 'a list \<Rightarrow> bool result" where
  "rsome f [] = Inr False"
| "rsome f (x # xs) = rbind (f x) (\<lambda>b. if b then Inr True else rsome f xs)"

fun revery :: "('a \<Rightarrow> bool result) \<Rightarrow> 'a list \<Rightarrow> bool result" where
  "revery f [] = Inr True"
| "revery f (x # xs) = rbind (f x) (\<lambda>b. if b then revery f xs else Inr False)"

section \<open>Display of a parameter\<close>

definition getPropertyValues :: "ParamLib \<Rightarrow> ParamNode \<Rightarrow> json option \<Rightarrow> json option \<Rightarrow> string \<Rightarrow> json option list" where
  "getPropertyValues lib node nodeValues nodeValuesRoot propertyName =
     (let value = (case propertyName of
            CHR ''/'' # rest \<Rightarrow> lib_get lib nodeValuesRoot rest
          | _ \<Rightarrow>
            if propertyName = ''@version'' then Some (JNum (case pn_version node of None \<Rightarrow> 0 | Some v \<Rightarrow> v))
            else if propertyName = ''@tool''
            then Some (JBool (case pn_typeName node of None \<Rightarrow> False | Some nm \<Rightarrow> has_suffix ''Tool'' nm))
            else lib_get lib nodeValues propertyName);
          value = (case value of
            Some (JObj fs) \<Rightarrow> if truthy_at (map_of fs ''__rl'') then map_of fs ''value'' else value
          | _ \<Rightarrow> value)
      in case value of Some (JArr xs) \<Rightarrow> map Some xs | _ \<Rightarrow> [value])"

fun check_condition :: "ParamLib \<Rightarrow> DisplayCondition \<Rightarrow> json option \<Rightarrow> bool result" where
  "check_condition lib (CndEq t) v = Inr (lib_isEqual lib v (Some t))"
| "check_condition lib (CndNot t) v = Inr (\<not> lib_isEqual lib v (Some t))"
| "check_condition lib (CndGte t) v = Inr (js_less_eq lib (Some t) v)"
| "check_condition lib (CndLte t) v = Inr (js_less_eq lib v (Some t))"
| "check_condition lib (CndGt t) v = Inr (js_less lib (Some t) v)"
| "check_condition lib (CndLt t) v = Inr (js_less lib v (Some t))"
| "check_condition lib (CndBetween a b) v = Inr (js_less_eq lib (Some a) v \<and> js_less_eq lib v (Some b))"
| "check_condition lib (CndIncludes t) v = js_includes v t"
| "check_condition lib (CndStartsWith t) v = on_string (has_prefix t) v"
| "check_condition lib (CndEndsWith t) v = on_string (has_suffix t) v"
| "check_condition lib (CndRegex t) v = lib_regex lib t v"
| "check_condition lib CndExists v = Inr (v \<noteq> None \<and> v \<noteq> Some JNull \<and> v \<noteq> Some (JStr []))"

definition checkConditions :: "ParamLib \<Rightarrow> DisplayRule list \<Rightarrow> json option list \<Rightarrow> bool result" where
  "checkConditions lib conditions actualValues = rsome (\<lambda>c. case c of
     RuleCnd cnd \<Rightarrow> revery (check_condition lib cnd) actualValues
   | RuleValue v \<Rightarrow> Inr (\<exists>x \<in> set actualValues. same_value x v)) conditions"

text \<open>The rules of a property name; \<open>undefined\<close> has no \<open>some\<close>.\<close>

definition check_rules :: "ParamLib \<Rightarrow> DisplayRule list option \<Rightarrow> json option list \<Rightarrow> bool result" where
  "check_rules lib rules values = (case rules of None \<Rightarrow> Inl TypeError | Some cs \<Rightarrow> checkConditions lib cs values)"

definition is_expression :: "json option \<Rightarrow> bool" where
  "is_expression v = (case v of Some (JStr (CHR ''='' # _)) \<Rightarrow> True | _ \<Rightarrow> False)"

text \<open>The loops over the rules; \<open>None\<close> if none of them returned.\<close>

fun check_show :: "ParamLib \<Rightarrow> (string \<Rightarrow> json option list) \<Rightarrow> DisplayRules \<Rightarrow> bool option result" where
  "check_show lib values_of [] = Inr None"
| "check_show lib values_of ((propertyName, rules) # rest) =
     (let values = values_of propertyName
      in if \<exists>v \<in> set values. is_expression v then Inr (Some True)
         else if values = [] then Inr (Some False)
         else rbind (check_rules lib rules values) (\<lambda>ok. if ok then check_show lib values_of rest else Inr (Some False)))"

fun check_hide :: "ParamLib \<Rightarrow> (string \<Rightarrow> json option list) \<Rightarrow> DisplayRules \<Rightarrow> bool option result" where
  "check_hide lib values_of [] = Inr None"
| "check_hide lib values_of ((propertyName, rules) # rest) =
     (let values = values_of propertyName
      in if values = [] then check_hide lib values_of rest
         else rbind (check_rules lib rules values) (\<lambda>ok. if ok then Inr (Some False) else check_hide lib values_of rest))"

definition displayParameter :: "ParamLib \<Rightarrow> ParamNode \<Rightarrow> json option \<Rightarrow> IDisplayOptions option \<Rightarrow> json option \<Rightarrow> bool result" where
  "displayParameter lib node nodeValues displayOptions nodeValuesRoot =
     (case displayOptions of
        None \<Rightarrow> Inr True
      | Some opts \<Rightarrow>
          let root = (if truthy_at nodeValuesRoot then nodeValuesRoot else nodeValues);
              values_of = getPropertyValues lib node nodeValues root
          in rbind (case do_show opts of None \<Rightarrow> Inr None | Some rules \<Rightarrow> check_show lib values_of rules) (\<lambda>shown.
             case shown of
               Some b \<Rightarrow> Inr b
             | None \<Rightarrow> rbind (case do_hide opts of None \<Rightarrow> Inr None | Some rules \<Rightarrow> check_hide lib values_of rules)
                 (\<lambda>hidden. Inr (case hidden of Some b \<Rightarrow> b | None \<Rightarrow> True))))"

section \<open>The order in which parameters are resolved\<close>

text \<open>
  The names a property depends on by its display rules, one entry per name; the rules of \<open>show\<close> come
  first. Names that start with \<open>@\<close> are left out.
\<close>

definition rule_names :: "INodeProperties \<Rightarrow> string list" where
  "rule_names p = (case pp_displayOptions (np_extras p) of
     None \<Rightarrow> []
   | Some opts \<Rightarrow> filter (\<lambda>nm. take 1 nm \<noteq> ''@'')
       (js_keys (or_else (do_show opts) []) @ js_keys (or_else (do_hide opts) [])))"

definition getParameterDependencies :: "INodeProperties list \<Rightarrow> (string, string list) js_map" where
  "getParameterDependencies ps =
     fold (\<lambda>p deps. js_put (np_name p) (fold set_add (rule_names p) (or_else (map_of deps (np_name p)) [])) deps) ps []"

text \<open>
  The dependencies of a property that are not resolved yet. For each of them the property is added to
  the queue again; the \<open>continue\<close> that follows belongs to the loop over the dependencies, so that the
  property is resolved at once all the same.
\<close>

definition missing :: "string list \<Rightarrow> string list \<Rightarrow> string list" where
  "missing resolved deps = filter (\<lambda>d. d \<notin> set resolved \<and> take 1 d \<noteq> ''/'') deps"

record ResolveState =
  rv_order :: "nat list"
  rv_queue :: "nat list"
  rv_resolved :: "string list"
  rv_lastLength :: nat
  rv_lastReduction :: int
  rv_iterations :: int

text \<open>One round of the loop, for the index taken from the queue; the rest of the queue is \<open>queue\<close>.\<close>

definition resolve_step :: "INodeProperties list \<Rightarrow> (string, string list) js_map \<Rightarrow> nat \<Rightarrow> nat list \<Rightarrow> ResolveState \<Rightarrow> ResolveState result" where
  "resolve_step ps deps index queue st =
     (if length ps \<le> index then Inl TypeError
      else case map_of deps (np_name (ps ! index)) of
        None \<Rightarrow> Inl TypeError
      | Some ds \<Rightarrow>
          let name = np_name (ps ! index); iterations = rv_iterations st + 1;
              queue = queue @ map (\<lambda>_. index) (missing (rv_resolved st) ds);
              reduction = (if length queue < rv_lastLength st then iterations else rv_lastReduction st);
              st = st\<lparr>rv_iterations := iterations, rv_order := rv_order st @ [index],
                rv_resolved := rv_resolved st @ [name], rv_queue := queue\<rparr>
          in if ds = [] then Inr st
             else if iterations > reduction + int (length ps)
             then Inl (ApplicationError ''Could not resolve parameter dependencies. Max iterations reached!'')
             else Inr (st\<lparr>rv_lastReduction := reduction, rv_lastLength := length queue\<rparr>))"

text \<open>
  A round that puts the property back leaves the names that are resolved, or adds one; if it adds none,
  either the queue has lost a property whose dependencies are all there, or the limit comes nearer.
\<close>

definition unresolved :: "INodeProperties list \<Rightarrow> ResolveState \<Rightarrow> nat" where
  "unresolved ps st = card (np_name ` set ps - set (rv_resolved st))"

definition deps_at :: "INodeProperties list \<Rightarrow> (string, string list) js_map \<Rightarrow> nat \<Rightarrow> string list" where
  "deps_at ps deps k = or_else (map_of deps (np_name (ps ! k))) []"

definition ready_count :: "INodeProperties list \<Rightarrow> (string, string list) js_map \<Rightarrow> ResolveState \<Rightarrow> nat" where
  "ready_count ps deps st = length (filter (\<lambda>k. missing (rv_resolved st) (deps_at ps deps k) = []) (rv_queue st))"

definition resolve_measure :: "INodeProperties list \<Rightarrow> (string, string list) js_map \<Rightarrow> ResolveState \<Rightarrow> nat \<times> nat \<times> nat \<times> nat" where
  "resolve_measure ps deps st =
     (unresolved ps st, ready_count ps deps st,
      (if length (rv_queue st) < rv_lastLength st then 1 else 0),
      nat (rv_lastReduction st + int (length ps) - rv_iterations st))"

abbreviation resolve_less :: "((nat \<times> nat \<times> nat \<times> nat) \<times> (nat \<times> nat \<times> nat \<times> nat)) set" where
  "resolve_less \<equiv> less_than <*lex*> less_than <*lex*> less_than <*lex*> less_than"

lemma deps_at_Some: "map_of deps (np_name (ps ! k)) = Some ds \<Longrightarrow> deps_at ps deps k = ds"
  by (simp add: deps_at_def or_else_def)

lemma missing_cong: "set R = set R' \<Longrightarrow> missing R ds = missing R' ds"
  by (simp add: missing_def)

lemma missing_Nil [simp]: "missing R [] = []"
  by (simp add: missing_def)

lemma resolve_step_decreases:
  assumes st: "rv_queue st = index # queue" and ok: "resolve_step ps deps index queue st = Inr st'"
  shows "(resolve_measure ps deps st', resolve_measure ps deps st) \<in> resolve_less"
proof -
  let ?name = "np_name (ps ! index)"
  obtain ds where idx: "index < length ps" and ds: "map_of deps ?name = Some ds"
    using ok by (auto simp: resolve_step_def split: if_splits option.splits)
  have dat: "deps_at ps deps index = ds" using ds by (rule deps_at_Some)
  have res: "rv_resolved st' = rv_resolved st @ [?name]"
    and que: "rv_queue st' = queue @ map (\<lambda>_. index) (missing (rv_resolved st) ds)"
    and it: "rv_iterations st' = rv_iterations st + 1"
    using ok idx ds by (auto simp: resolve_step_def Let_def split: if_splits)
  show ?thesis
  proof (cases "?name \<in> set (rv_resolved st)")
    case False
    have "unresolved ps st' < unresolved ps st"
      unfolding unresolved_def
      by (rule psubset_card_mono) (use False idx in \<open>auto simp: res\<close>)
    then show ?thesis by (simp add: resolve_measure_def)
  next
    case True
    then have R: "set (rv_resolved st') = set (rv_resolved st)" by (auto simp: res)
    have un: "unresolved ps st' = unresolved ps st" by (simp add: unresolved_def R)
    have mi: "missing (rv_resolved st') xs = missing (rv_resolved st) xs" for xs
      by (rule missing_cong[OF R])
    show ?thesis
    proof (cases "missing (rv_resolved st) ds = []")
      case ready: True
      have "ready_count ps deps st' < ready_count ps deps st"
        by (simp add: ready_count_def st que mi ready dat)
      then show ?thesis by (simp add: resolve_measure_def un)
    next
      case waiting: False
      then have len: "length (rv_queue st) \<le> length (rv_queue st')"
        by (cases "missing (rv_resolved st) ds") (auto simp: st que)
      have rc: "ready_count ps deps st' = ready_count ps deps st"
        by (simp add: ready_count_def st que mi waiting dat)
      have ne: "ds \<noteq> []" using waiting by auto
      have red: "rv_lastReduction st' = (if length (rv_queue st') < rv_lastLength st then rv_iterations st + 1 else rv_lastReduction st)"
        and lim: "rv_iterations st + 1 \<le> rv_lastReduction st' + int (length ps)"
        and ll: "rv_lastLength st' = length (rv_queue st')"
        using ok idx ds ne by (auto simp: resolve_step_def Let_def que split: if_splits)
      show ?thesis
        using len red lim by (auto simp: resolve_measure_def un rc ll it split: if_splits)
    qed
  qed
qed

function resolve_loop :: "INodeProperties list \<Rightarrow> (string, string list) js_map \<Rightarrow> ResolveState \<Rightarrow> nat list result" where
  "resolve_loop ps deps st = (case rv_queue st of
     [] \<Rightarrow> Inr (rv_order st)
   | index # queue \<Rightarrow> (case resolve_step ps deps index queue st of Inl e \<Rightarrow> Inl e | Inr st' \<Rightarrow> resolve_loop ps deps st'))"
  by pat_completeness auto

termination
  by (relation "inv_image resolve_less (\<lambda>(ps, deps, st). resolve_measure ps deps st)")
    (auto intro: resolve_step_decreases)

declare resolve_loop.simps [simp del]

definition getParameterResolveOrder :: "INodeProperties list \<Rightarrow> (string, string list) js_map \<Rightarrow> nat list result" where
  "getParameterResolveOrder ps deps = resolve_loop ps deps
     \<lparr>rv_order = [], rv_queue = [0..<length ps], rv_resolved = [], rv_lastLength = length ps,
      rv_lastReduction = - 1, rv_iterations = 0\<rparr>"

text \<open>
  The order in closed form: every property once, then every property as often as it had missing
  dependencies when it was its turn.
\<close>

definition extra_rounds :: "INodeProperties list \<Rightarrow> (string, string list) js_map \<Rightarrow> nat \<Rightarrow> nat list" where
  "extra_rounds ps deps k = map (\<lambda>_. k) (missing (map np_name (take k ps)) (deps_at ps deps k))"

definition resolve_order :: "INodeProperties list \<Rightarrow> (string, string list) js_map \<Rightarrow> nat list" where
  "resolve_order ps deps = [0..<length ps] @ concat (map (extra_rounds ps deps) [0..<length ps])"

text \<open>Dependencies that can be resolved: each is another property, or belongs to the root.\<close>

definition deps_closed :: "INodeProperties list \<Rightarrow> (string, string list) js_map \<Rightarrow> bool" where
  "deps_closed ps deps \<longleftrightarrow> (\<forall>k < length ps. case map_of deps (np_name (ps ! k)) of
     None \<Rightarrow> False
   | Some ds \<Rightarrow> \<forall>d \<in> set ds. take 1 d = ''/'' \<or> (d \<in> np_name ` set ps \<and> d \<noteq> np_name (ps ! k)))"

text \<open>Once every dependency is there, each round takes one element off the queue.\<close>

lemma resolve_loop_ready:
  assumes "\<And>k. k \<in> set (rv_queue st) \<Longrightarrow> k < length ps \<and> map_of deps (np_name (ps ! k)) \<noteq> None
      \<and> missing (rv_resolved st) (deps_at ps deps k) = []"
    and "length (rv_queue st) \<le> rv_lastLength st"
  shows "resolve_loop ps deps st = Inr (rv_order st @ rv_queue st)"
  using assms
proof (induction "rv_queue st" arbitrary: st)
  case Nil
  then show ?case by (simp add: resolve_loop.simps)
next
  case (Cons k q)
  obtain ds where k: "k < length ps" and ds: "map_of deps (np_name (ps ! k)) = Some ds"
    and m: "missing (rv_resolved st) ds = []"
    using Cons.prems(1)[of k] by (auto simp: Cons.hyps(2)[symmetric] deps_at_Some)
  have lt: "length q < rv_lastLength st" using Cons.prems(2) by (simp add: Cons.hyps(2)[symmetric])
  have "\<exists>st'. resolve_step ps deps k q st = Inr st'"
    using k ds m lt by (simp add: resolve_step_def Let_def)
  then obtain st' where st': "resolve_step ps deps k q st = Inr st'" ..
  have q: "rv_queue st' = q" and o: "rv_order st' = rv_order st @ [k]"
    and r: "rv_resolved st' = rv_resolved st @ [np_name (ps ! k)]" and l: "length q \<le> rv_lastLength st'"
    using st' k ds m lt by (auto simp: resolve_step_def Let_def split: if_splits)
  have "resolve_loop ps deps st' = Inr (rv_order st' @ rv_queue st')"
  proof (rule Cons.hyps(1))
    show "q = rv_queue st'" by (simp add: q)
    show "length (rv_queue st') \<le> rv_lastLength st'" using l by (simp add: q)
    fix i assume "i \<in> set (rv_queue st')"
    then have "i \<in> set (rv_queue st)" by (simp add: q Cons.hyps(2)[symmetric])
    from Cons.prems(1)[OF this]
    show "i < length ps \<and> map_of deps (np_name (ps ! i)) \<noteq> None \<and> missing (rv_resolved st') (deps_at ps deps i) = []"
      by (auto simp: r missing_def filter_empty_conv)
  qed
  then show ?case
    by (subst resolve_loop.simps) (simp add: Cons.hyps(2)[symmetric] st' o q)
qed

text \<open>The first rounds take every property once and collect the repetitions at the end of the queue.\<close>

definition first_rounds :: "INodeProperties list \<Rightarrow> (string, string list) js_map \<Rightarrow> nat \<Rightarrow> ResolveState \<Rightarrow> bool" where
  "first_rounds ps deps k st \<longleftrightarrow>
     rv_order st = [0..<k] \<and> rv_queue st = [k..<length ps] @ concat (map (extra_rounds ps deps) [0..<k])
   \<and> rv_resolved st = map np_name (take k ps) \<and> rv_iterations st = int k
   \<and> length (rv_queue st) \<le> rv_lastLength st \<and> - 1 \<le> rv_lastReduction st"

lemma first_rounds_step:
  assumes inv: "first_rounds ps deps k st" and k: "k < length ps" and closed: "deps_closed ps deps"
  shows "\<exists>st'. resolve_loop ps deps st = resolve_loop ps deps st' \<and> first_rounds ps deps (Suc k) st'"
proof -
  let ?name = "np_name (ps ! k)"
  let ?q = "[Suc k..<length ps] @ concat (map (extra_rounds ps deps) [0..<k])"
  have up: "[k..<length ps] = k # [Suc k..<length ps]" using k by (simp add: upt_conv_Cons)
  have q: "rv_queue st = k # ?q" using inv by (simp add: first_rounds_def up)
  obtain ds where ds: "map_of deps ?name = Some ds"
    and dep: "\<forall>d \<in> set ds. take 1 d = ''/'' \<or> (d \<in> np_name ` set ps \<and> d \<noteq> ?name)"
    using closed k by (auto simp: deps_closed_def split: option.splits)
  have ex: "map (\<lambda>_. k) (missing (rv_resolved st) ds) = extra_rounds ps deps k"
    using inv by (simp add: extra_rounds_def first_rounds_def deps_at_Some ds)
  have lim: "rv_lastReduction st + int (length ps) \<ge> int (length ps) - 1"
    and it: "rv_iterations st = int k" using inv by (simp_all add: first_rounds_def)
  have last: "missing (rv_resolved st) ds = []" if "Suc k = length ps"
  proof -
    have "set ps = insert (ps ! k) (set (take k ps))"
      using that k by (metis list.simps(15) set_append take_Suc_conv_app_nth take_all order.refl Un_insert_right append_Nil2 list.set(1) sup_bot.right_neutral)
    then show ?thesis using dep inv by (auto simp: missing_def filter_empty_conv first_rounds_def)
  qed
  have len: "length (k # ?q) \<le> rv_lastLength st" using inv q by (simp add: first_rounds_def)
  have nolim: "\<not> int k + 1 > (if length (?q @ extra_rounds ps deps k) < rv_lastLength st then int k + 1 else rv_lastReduction st) + int (length ps)"
    using last lim k len ex by (cases "Suc k = length ps") auto
  have empty: "extra_rounds ps deps k = []" if "ds = []"
    using that by (simp add: extra_rounds_def deps_at_Some ds)
  have "\<exists>st'. resolve_step ps deps k ?q st = Inr st'"
    using k ds nolim by (simp add: resolve_step_def Let_def it ex)
  then obtain st' where st': "resolve_step ps deps k ?q st = Inr st'" ..
  have fields: "rv_order st' = rv_order st @ [k]" "rv_queue st' = ?q @ extra_rounds ps deps k"
    "rv_resolved st' = rv_resolved st @ [?name]" "rv_iterations st' = int k + 1"
    using st' k ds by (auto simp: resolve_step_def Let_def it ex split: if_splits)
  have "length (rv_queue st') \<le> rv_lastLength st'" and "- 1 \<le> rv_lastReduction st'"
    using st' k ds len empty inv by (auto simp: resolve_step_def Let_def it ex first_rounds_def split: if_splits)
  have "first_rounds ps deps (Suc k) st'"
    using inv k \<open>length (rv_queue st') \<le> rv_lastLength st'\<close> \<open>- 1 \<le> rv_lastReduction st'\<close>
    unfolding first_rounds_def fields by (simp add: take_Suc_conv_app_nth)
  moreover have "resolve_loop ps deps st = resolve_loop ps deps st'"
    by (subst resolve_loop.simps) (simp add: q st')
  ultimately show ?thesis by blast
qed

lemma first_rounds_all:
  assumes closed: "deps_closed ps deps" and init: "first_rounds ps deps 0 st" and k: "k \<le> length ps"
  shows "\<exists>st'. resolve_loop ps deps st = resolve_loop ps deps st' \<and> first_rounds ps deps k st'"
  using k
proof (induction k)
  case 0
  then show ?case using init by blast
next
  case (Suc k)
  then obtain st1 where "resolve_loop ps deps st = resolve_loop ps deps st1" "first_rounds ps deps k st1" by auto
  then show ?case using first_rounds_step[of ps deps k st1] closed Suc.prems by auto
qed

lemma resolve_order_closed:
  assumes closed: "deps_closed ps deps"
  shows "getParameterResolveOrder ps deps = Inr (resolve_order ps deps)"
proof -
  let ?st0 = "\<lparr>rv_order = [], rv_queue = [0..<length ps], rv_resolved = [], rv_lastLength = length ps,
      rv_lastReduction = - 1, rv_iterations = 0\<rparr>"
  have "first_rounds ps deps 0 ?st0" by (simp add: first_rounds_def)
  then obtain st where eq: "resolve_loop ps deps ?st0 = resolve_loop ps deps st"
    and inv: "first_rounds ps deps (length ps) st"
    using first_rounds_all[OF closed, of ?st0 "length ps"] by auto
  have "resolve_loop ps deps st = Inr (rv_order st @ rv_queue st)"
  proof (rule resolve_loop_ready)
    show "length (rv_queue st) \<le> rv_lastLength st" using inv unfolding first_rounds_def by blast
    fix k assume "k \<in> set (rv_queue st)"
    then have k: "k < length ps" using inv by (auto simp: first_rounds_def extra_rounds_def)
    then show "k < length ps \<and> map_of deps (np_name (ps ! k)) \<noteq> None \<and> missing (rv_resolved st) (deps_at ps deps k) = []"
      using closed inv by (fastforce simp: deps_closed_def deps_at_Some first_rounds_def missing_def filter_empty_conv split: option.splits)
  qed
  then show ?thesis using inv eq by (simp add: getParameterResolveOrder_def resolve_order_def first_rounds_def)
qed

text \<open>What the dependencies of a list of properties are.\<close>

lemma dependencies_fold:
  "map_of (fold (\<lambda>p deps. js_put (np_name p) (fold set_add (rule_names p) (or_else (map_of deps (np_name p)) [])) deps) ps deps) nm = None
     \<longleftrightarrow> map_of deps nm = None \<and> nm \<notin> np_name ` set ps"
  "set (or_else (map_of (fold (\<lambda>p deps. js_put (np_name p) (fold set_add (rule_names p) (or_else (map_of deps (np_name p)) [])) deps) ps deps) nm) [])
     = set (or_else (map_of deps nm) []) \<union> (\<Union>p \<in> {p \<in> set ps. np_name p = nm}. set (rule_names p))"
proof (induction ps arbitrary: deps)
  case (Cons p ps)
  {
    case 1
    show ?case unfolding fold_Cons comp_def Cons.IH(1) by auto
  next
    case 2
    show ?case unfolding fold_Cons comp_def Cons.IH(2) by (auto simp: or_else_def fold_set_add)
  }
qed auto

lemma getParameterDependencies_defined:
  "map_of (getParameterDependencies ps) nm = None \<longleftrightarrow> nm \<notin> np_name ` set ps"
  by (simp add: getParameterDependencies_def dependencies_fold(1))

lemma set_deps_at:
  "set (deps_at ps (getParameterDependencies ps) k) = (\<Union>p \<in> {p \<in> set ps. np_name p = np_name (ps ! k)}. set (rule_names p))"
  unfolding deps_at_def getParameterDependencies_def dependencies_fold(2) by (simp add: or_else_def)

text \<open>Properties whose display rules refer to other properties of the list, or to the root.\<close>

definition rules_closed :: "INodeProperties list \<Rightarrow> bool" where
  "rules_closed ps \<longleftrightarrow> (\<forall>p \<in> set ps. \<forall>d \<in> set (rule_names p).
     take 1 d = ''/'' \<or> (d \<in> np_name ` set ps \<and> d \<noteq> np_name p))"

lemma rules_closed_deps:
  assumes "rules_closed ps"
  shows "deps_closed ps (getParameterDependencies ps)"
  unfolding deps_closed_def
proof (intro allI impI)
  fix k assume k: "k < length ps"
  obtain ds where ds: "map_of (getParameterDependencies ps) (np_name (ps ! k)) = Some ds"
    using k getParameterDependencies_defined[of ps "np_name (ps ! k)"] by fastforce
  have "set ds = (\<Union>p \<in> {p \<in> set ps. np_name p = np_name (ps ! k)}. set (rule_names p))"
    using set_deps_at[of ps k] deps_at_Some[OF ds] by simp
  then show "case map_of (getParameterDependencies ps) (np_name (ps ! k)) of None \<Rightarrow> False
     | Some ds \<Rightarrow> \<forall>d \<in> set ds. take 1 d = ''/'' \<or> (d \<in> np_name ` set ps \<and> d \<noteq> np_name (ps ! k))"
    using assms ds unfolding rules_closed_def by fastforce
qed

lemma resolve_order_set [simp]: "set (resolve_order ps deps) = {..<length ps}"
  by (auto simp: resolve_order_def extra_rounds_def)

lemma resolve_order_last:
  assumes closed: "deps_closed ps deps" and split: "resolve_order ps deps = xs @ k # ys" and last: "k \<notin> set ys"
    and d: "d \<in> set (deps_at ps deps k)" "take 1 d \<noteq> ''/''"
  shows "d \<in> (\<lambda>i. np_name (ps ! i)) ` set xs"
proof -
  let ?n = "length ps"
  let ?E = "concat (map (extra_rounds ps deps) [0..<?n])"
  have k: "k < ?n" using split resolve_order_set[of ps deps] by auto
  obtain ds where ds: "map_of deps (np_name (ps ! k)) = Some ds" and dn: "d \<in> np_name ` set ps"
    using closed k d by (fastforce simp: deps_closed_def deps_at_Some split: option.splits)
  have split': "[0..<?n] @ ?E = xs @ k # ys" using split by (simp add: resolve_order_def)
  show ?thesis
  proof (cases "length xs < ?n")
    case True
    have xs: "xs = [0..<length xs]" and kx: "k = length xs"
    proof -
      have "take (length xs) ([0..<?n] @ ?E) = xs" "([0..<?n] @ ?E) ! length xs = k" by (simp_all add: split')
      then show "xs = [0..<length xs]" "k = length xs" using True by (simp_all add: nth_append)
    qed
    have "drop (Suc (length xs)) ([0..<?n] @ ?E) = ys" by (simp add: split')
    then have "set ?E \<subseteq> set ys" using True by auto
    then have "k \<notin> set ?E" using last by blast
    moreover have "set (extra_rounds ps deps k) \<subseteq> set ?E" "set (extra_rounds ps deps k) \<subseteq> {k}"
      using k by (auto simp: extra_rounds_def)
    ultimately have "set (extra_rounds ps deps k) = {}" by (metis empty_iff insertE subset_iff subset_empty subset_insert)
    then have "extra_rounds ps deps k = []" by (simp only: set_empty)
    then have "missing (map np_name (take k ps)) (deps_at ps deps k) = []" by (simp add: extra_rounds_def)
    then have "d \<in> np_name ` set (take k ps)" using d by (auto simp: missing_def filter_empty_conv)
    then obtain i where "i < k" "np_name (ps ! i) = d" using k by (auto simp: in_set_conv_nth)
    then show ?thesis using xs kx by (metis atLeastLessThan_iff imageI set_upt zero_le)
  next
    case False
    have "take ?n xs = take ?n ([0..<?n] @ ?E)" using False by (simp add: split')
    then have "set [0..<?n] \<subseteq> set xs" by (metis append_eq_conv_conj length_upt minus_nat.diff_0 set_take_subset)
    moreover obtain i where "i < ?n" "np_name (ps ! i) = d" using dn by (auto simp: in_set_conv_nth)
    ultimately show ?thesis by auto
  qed
qed

section \<open>Properties\<close>

definition sample_extras :: "IDisplayOptions option \<Rightarrow> PropertyExtras" where
  "sample_extras d = \<lparr>pp_displayName = [], pp_required = None, pp_displayOptions = d, pp_disabledOptions = None,
     pp_multipleValues = None, pp_minRequiredFields = None, pp_maxAllowedFields = None, pp_modes = None,
     pp_validateType = None, pp_fieldWord = None, pp_resourceMapperMode = None,
     pp_doNotInherit = False\<rparr>"

definition show_if :: "string \<Rightarrow> json \<Rightarrow> IDisplayOptions option" where
  "show_if nm v = Some \<lparr>do_show = Some [(nm, Some [RuleValue (Some v)])], do_hide = None\<rparr>"

text \<open>A library for the examples: paths of one name, and no conversions to numbers.\<close>

definition sample_lib :: ParamLib where
  "sample_lib = \<lparr>lib_get = (\<lambda>v k. case v of None \<Rightarrow> None | Some j \<Rightarrow> field_of j k), lib_isEqual = (=),
     lib_regex = (\<lambda>_ _. Inr False), lib_number = (\<lambda>_. None)\<rparr>"

definition sample_properties :: "INodeProperties list" where
  "sample_properties =
     [Property ''operation'' PtOptions (Some (JStr ''get'')) (sample_extras (show_if ''resource'' (JStr ''user''))) None,
      Property ''resource'' PtOptions (Some (JStr ''user'')) (sample_extras None) None]"

lemma sample_properties_closed: "rules_closed sample_properties"
  by (simp add: rules_closed_def sample_properties_def rule_names_def sample_extras_def show_if_def or_else_def js_keys_def)

text \<open>C23: If the display rules of the properties of a list refer to other properties of the list or to the
  root, the order in which they are resolved is found without reaching the limit on the iterations. It
  contains every property, and where a property occurs last, all properties its rules refer to have
  occurred before.\<close>

theorem parameters_resolved_after_dependencies:
  assumes "rules_closed ps"
  shows "\<exists>order. getParameterResolveOrder ps (getParameterDependencies ps) = Inr order \<and> set order = {..<length ps}
    \<and> (\<forall>xs k ys d. order = xs @ k # ys \<longrightarrow> k \<notin> set ys \<longrightarrow> d \<in> set (rule_names (ps ! k)) \<longrightarrow> take 1 d \<noteq> ''/'' \<longrightarrow>
        d \<in> (\<lambda>i. np_name (ps ! i)) ` set xs)"
proof -
  let ?deps = "getParameterDependencies ps"
  have closed: "deps_closed ps ?deps" by (rule rules_closed_deps[OF assms])
  have "d \<in> (\<lambda>i. np_name (ps ! i)) ` set xs"
    if split: "resolve_order ps ?deps = xs @ k # ys" and last: "k \<notin> set ys"
      and d: "d \<in> set (rule_names (ps ! k))" "take 1 d \<noteq> ''/''" for xs k ys d
  proof (rule resolve_order_last[OF closed split last _ d(2)])
    have "k < length ps" using split resolve_order_set[of ps ?deps] by auto
    then show "d \<in> set (deps_at ps ?deps k)" using d(1) nth_mem[of k ps] by (auto simp: set_deps_at simp del: nth_mem)
  qed
  then show ?thesis using resolve_order_closed[OF closed] by auto
qed

lemma parameters_resolved_after_dependencies_witness:
  "\<exists>order. getParameterResolveOrder sample_properties (getParameterDependencies sample_properties) = Inr order
    \<and> set order = {0, 1}"
  using parameters_resolved_after_dependencies[OF sample_properties_closed]
  by (auto simp: sample_properties_def lessThan_Suc)

text \<open>A single property whose display rule names the property itself is put back once, and then the limit on
  the iterations is reached: the order is never found.\<close>

theorem self_dependency_never_resolved:
  assumes "rule_names p = [np_name p]" "take 1 (np_name p) \<noteq> ''/''"
  shows "getParameterResolveOrder [p] (getParameterDependencies [p]) =
    Inl (ApplicationError ''Could not resolve parameter dependencies. Max iterations reached!'')"
proof -
  have deps: "getParameterDependencies [p] = [(np_name p, [np_name p])]"
    by (simp add: getParameterDependencies_def assms or_else_def set_add_def)
  show ?thesis unfolding getParameterResolveOrder_def deps
    by (subst resolve_loop.simps) (simp add: resolve_step_def Let_def missing_def assms assms(2)[simplified])
qed

lemma self_dependency_never_resolved_witness:
  "\<exists>p. getParameterResolveOrder [p] (getParameterDependencies [p]) =
    Inl (ApplicationError ''Could not resolve parameter dependencies. Max iterations reached!'')"
  using self_dependency_never_resolved[of "Property ''mode'' PtOptions None (sample_extras (show_if ''mode'' JNull)) None"]
  by (auto simp: rule_names_def sample_extras_def show_if_def or_else_def js_keys_def)

text \<open>Rules whose conditions do not throw.\<close>

definition rules_checked :: "ParamLib \<Rightarrow> (string \<Rightarrow> json option list) \<Rightarrow> DisplayRules \<Rightarrow> bool" where
  "rules_checked lib values_of rules \<longleftrightarrow> (\<forall>(nm, r) \<in> set rules. \<exists>b. check_rules lib r (values_of nm) = Inr b)"

definition rule_matches :: "ParamLib \<Rightarrow> (string \<Rightarrow> json option list) \<Rightarrow> string \<times> DisplayRule list option \<Rightarrow> bool" where
  "rule_matches lib values_of rule \<longleftrightarrow>
     values_of (fst rule) \<noteq> [] \<and> check_rules lib (snd rule) (values_of (fst rule)) = Inr True"

definition no_expressions :: "(string \<Rightarrow> json option list) \<Rightarrow> DisplayRules \<Rightarrow> bool" where
  "no_expressions values_of rules \<longleftrightarrow> (\<forall>(nm, r) \<in> set rules. \<forall>v \<in> set (values_of nm). \<not> is_expression v)"

lemma check_show_result:
  assumes "rules_checked lib values_of rules" "no_expressions values_of rules"
  shows "check_show lib values_of rules = Inr (if \<forall>r \<in> set rules. rule_matches lib values_of r then None else Some False)"
  using assms
proof (induction rules)
  case (Cons r rules)
  obtain nm cs b where r: "r = (nm, cs)" and b: "check_rules lib cs (values_of nm) = Inr b"
    using Cons.prems(1) by (cases r) (auto simp: rules_checked_def)
  have "check_show lib values_of rules = Inr (if \<forall>r \<in> set rules. rule_matches lib values_of r then None else Some False)"
    using Cons by (simp add: rules_checked_def no_expressions_def)
  then show ?case using Cons.prems(2) b by (auto simp: r rule_matches_def no_expressions_def Let_def)
qed simp

lemma check_hide_result:
  assumes "rules_checked lib values_of rules"
  shows "check_hide lib values_of rules = Inr (if \<exists>r \<in> set rules. rule_matches lib values_of r then Some False else None)"
  using assms
proof (induction rules)
  case (Cons r rules)
  obtain nm cs b where r: "r = (nm, cs)" and b: "check_rules lib cs (values_of nm) = Inr b"
    using Cons.prems by (cases r) (auto simp: rules_checked_def)
  have "check_hide lib values_of rules = Inr (if \<exists>r \<in> set rules. rule_matches lib values_of r then Some False else None)"
    using Cons by (simp add: rules_checked_def)
  then show ?case using b by (auto simp: r rule_matches_def Let_def)
qed simp

text \<open>If no value that a \<open>show\<close> rule reads is an expression, a parameter is displayed exactly when all \<open>show\<close>
  rules match and no \<open>hide\<close> rule matches; a rule matches when one of its conditions holds of all values
  of its property.\<close>

theorem displayParameter_rules:
  assumes "values_of = getPropertyValues lib node nodeValues (if truthy_at nodeValuesRoot then nodeValuesRoot else nodeValues)"
    and "rules_checked lib values_of (or_else (do_show opts) [])" "rules_checked lib values_of (or_else (do_hide opts) [])"
    and "no_expressions values_of (or_else (do_show opts) [])"
  shows "displayParameter lib node nodeValues (Some opts) nodeValuesRoot =
    Inr ((\<forall>r \<in> set (or_else (do_show opts) []). rule_matches lib values_of r)
       \<and> \<not> (\<exists>r \<in> set (or_else (do_hide opts) []). rule_matches lib values_of r))"
proof -
  have "(case do_show opts of None \<Rightarrow> Inr None | Some rules \<Rightarrow> check_show lib values_of rules)
      = Inr (if \<forall>r \<in> set (or_else (do_show opts) []). rule_matches lib values_of r then None else Some False)"
    using check_show_result[OF assms(2,4)] by (auto simp: or_else_def split: option.splits)
  moreover have "(case do_hide opts of None \<Rightarrow> Inr None | Some rules \<Rightarrow> check_hide lib values_of rules)
      = Inr (if \<exists>r \<in> set (or_else (do_hide opts) []). rule_matches lib values_of r then Some False else None)"
    using check_hide_result[OF assms(3)] by (auto simp: or_else_def split: option.splits)
  moreover have "displayParameter lib node nodeValues (Some opts) nodeValuesRoot =
    rbind (case do_show opts of None \<Rightarrow> Inr None | Some rules \<Rightarrow> check_show lib values_of rules) (\<lambda>shown.
      case shown of
        Some b \<Rightarrow> Inr b
      | None \<Rightarrow> rbind (case do_hide opts of None \<Rightarrow> Inr None | Some rules \<Rightarrow> check_hide lib values_of rules)
          (\<lambda>hidden. Inr (case hidden of Some b \<Rightarrow> b | None \<Rightarrow> True)))"
    unfolding displayParameter_def Let_def assms(1) option.case ..
  ultimately show ?thesis by simp
qed

lemma displayParameter_rules_witness:
  "displayParameter sample_lib \<lparr>pn_version = None, pn_typeName = None\<rparr> (Some (JObj [(''resource'', JStr ''user'')]))
     (show_if ''resource'' (JStr ''user'')) None = Inr True"
proof -
  let ?opts = "\<lparr>do_show = Some [(''resource'', Some [RuleValue (Some (JStr ''user''))])], do_hide = None\<rparr>"
  let ?j = "Some (JObj [(''resource'', JStr ''user'')])"
  let ?looked = "getPropertyValues sample_lib \<lparr>pn_version = None, pn_typeName = None\<rparr> ?j ?j"
  have vals: "?looked ''resource'' = [Some (JStr ''user'')]"
    by (simp add: getPropertyValues_def sample_lib_def field_of_def)
  have check: "check_rules sample_lib (Some [RuleValue (Some (JStr ''user''))]) [Some (JStr ''user'')] = Inr True"
    by (simp add: check_rules_def checkConditions_def same_value_def is_object_def)
  show ?thesis
    using displayParameter_rules[of ?looked sample_lib "\<lparr>pn_version = None, pn_typeName = None\<rparr>" ?j None ?opts]
    by (simp add: truthy_at_def or_else_def rules_checked_def no_expressions_def rule_matches_def vals check
        is_expression_def show_if_def ex_bool_eq)
qed

text \<open>If a value that the first \<open>show\<close> rule reads is an expression, the parameter is displayed, whatever the
  other \<open>show\<close> rules and the \<open>hide\<close> rules say.\<close>

theorem expression_displays_parameter:
  assumes "do_show opts = Some ((nm, r) # rules)"
    and "v \<in> set (getPropertyValues lib node nodeValues (if truthy_at nodeValuesRoot then nodeValuesRoot else nodeValues) nm)"
    and "is_expression v"
  shows "displayParameter lib node nodeValues (Some opts) nodeValuesRoot = Inr True"
  using assms by (auto simp: displayParameter_def Let_def)

lemma expression_displays_parameter_witness:
  "displayParameter sample_lib \<lparr>pn_version = None, pn_typeName = None\<rparr> (Some (JObj [(''mode'', JStr ''=x'')]))
     (Some \<lparr>do_show = Some [(''mode'', Some [])], do_hide = Some [(''mode'', Some [RuleValue (Some (JStr ''=x''))])]\<rparr>) None
   = Inr True"
  by (rule expression_displays_parameter[where nm = "''mode''" and v = "Some (JStr ''=x'')"])
    (simp_all add: getPropertyValues_def sample_lib_def field_of_def truthy_at_def is_expression_def)

end
