(* ===== verification/NodeParameters.thy ===== *)
theory NodeParameters
  imports Parameters
begin

text \<open>
  \<open>getNodeParameters\<close> of \<^verbatim>\<open>packages/workflow/src/node-helpers.ts\<close>: the values of the properties of a
  node, either with the default values filled in or with only the values that differ from them.

  The result is a map whose values may be \<open>undefined\<close> (\<open>None\<close>): such a key counts when the keys of the
  object are counted, and is no field of it otherwise. Values that are neither objects nor empty have
  no fields of their own (\<open>length\<close> and the methods of strings and arrays are no parameters).
\<close>

section \<open>Values\<close>

type_synonym param_values = "(string, json option) js_map"

definition values_obj :: "param_values \<Rightarrow> json" where
  "values_obj m = JObj (List.map_filter (\<lambda>(k, v). map_option (Pair k) v) m)"

definition obj_values :: "json \<Rightarrow> param_values" where
  "obj_values j = (case j of JObj fs \<Rightarrow> map (\<lambda>(k, v). (k, Some v)) fs | _ \<Rightarrow> [])"

definition value_at :: "json option \<Rightarrow> string \<Rightarrow> json option" where
  "value_at v k = (case v of None \<Rightarrow> None | Some j \<Rightarrow> field_of j k)"

text \<open>\<open>typeof v === 'object'\<close> holds of \<open>null\<close> too.\<close>

definition typeof_object :: "json option \<Rightarrow> bool" where
  "typeof_object v = (case v of None \<Rightarrow> False | Some j \<Rightarrow> j = JNull \<or> is_object j)"

text \<open>What \<open>Object.entries\<close> gives: the elements of an array and the characters of a string by their index.\<close>

definition by_index :: "json list \<Rightarrow> (string \<times> json) list" where
  "by_index xs = zip (map nat_str [0..<length xs]) xs"

definition object_entries :: "json option \<Rightarrow> (string \<times> json) list" where
  "object_entries v = (case v of
     Some (JObj fs) \<Rightarrow> fs
   | Some (JArr xs) \<Rightarrow> by_index xs
   | Some (JStr s) \<Rightarrow> by_index (map (\<lambda>c. JStr [c]) s)
   | _ \<Rightarrow> [])"

text \<open>The values a \<open>for ... of\<close> loop goes through.\<close>

definition iterate :: "json option \<Rightarrow> json list result" where
  "iterate v = (case v of
     Some (JArr xs) \<Rightarrow> Inr xs
   | Some (JStr s) \<Rightarrow> Inr (map (\<lambda>c. JStr [c]) s)
   | _ \<Rightarrow> Inl TypeError)"

text \<open>An entry of the options of a collection that is no property has a name and nothing else that is read.\<close>

definition no_extras :: PropertyExtras where
  "no_extras = \<lparr>pp_displayName = [], pp_required = None, pp_displayOptions = None, pp_disabledOptions = None,
     pp_multipleValues = None, pp_minRequiredFields = None, pp_maxAllowedFields = None, pp_modes = None,
     pp_validateType = None, pp_fieldWord = None, pp_resourceMapperMode = None,
     pp_doNotInherit = False\<rparr>"

fun as_property :: "PropertyOption \<Rightarrow> INodeProperties" where
  "as_property (OptionProperty p) = p"
| "as_property (OptionValue nm v a) = Property nm PtNotice None no_extras None"
| "as_property (OptionCollection nm ps) = Property nm PtNotice None no_extras None"

section \<open>Nesting of properties\<close>

primrec prop_depth :: "INodeProperties \<Rightarrow> nat" and option_depth :: "PropertyOption \<Rightarrow> nat" where
  "prop_depth (Property nm ty d ex os) =
     Suc (case map_option (map option_depth) os of None \<Rightarrow> 0 | Some ns \<Rightarrow> foldr max ns 0)"
| "option_depth (OptionValue nm v a) = 1"
| "option_depth (OptionProperty p) = prop_depth p"
| "option_depth (OptionCollection nm ps) = Suc (foldr max (map prop_depth ps) 0)"

definition props_depth :: "INodeProperties list \<Rightarrow> nat" where
  "props_depth ps = foldr max (map prop_depth ps) 0"

lemma foldr_max_le: "x \<in> set ns \<Longrightarrow> x \<le> foldr max ns (0::nat)"
  by (induction ns) (auto simp: le_max_iff_disj)

lemma foldr_max_less: "(\<And>x. x \<in> set ns \<Longrightarrow> x < k) \<Longrightarrow> 0 < k \<Longrightarrow> foldr max ns (0::nat) < k"
  by (induction ns) auto

lemma prop_depth_le: "p \<in> set ps \<Longrightarrow> prop_depth p \<le> props_depth ps"
  by (simp add: props_depth_def foldr_max_le)

lemma option_depth_less: "np_options p = Some os \<Longrightarrow> x \<in> set os \<Longrightarrow> option_depth x < prop_depth p"
  by (cases p) (auto simp: less_Suc_eq_le intro!: foldr_max_le)

lemma as_property_depth: "prop_depth (as_property x) \<le> option_depth x"
  by (cases x) auto

text \<open>The properties of a collection, and of an option of a fixed collection, lie deeper.\<close>

lemma collection_depth:
  assumes "np_options p = Some os"
  shows "props_depth (map as_property os) < prop_depth p"
  unfolding props_depth_def
proof (rule foldr_max_less)
  show "0 < prop_depth p" by (cases p) simp
  fix n assume "n \<in> set (map prop_depth (map as_property os))"
  then obtain x where x: "x \<in> set os" "n = prop_depth (as_property x)" by auto
  show "n < prop_depth p" using as_property_depth[of x] option_depth_less[OF assms x(1)] x(2) by simp
qed

lemma option_collection_depth:
  assumes "np_options p = Some os" "OptionCollection nm qs \<in> set os"
  shows "props_depth qs < prop_depth p"
  using option_depth_less[OF assms] by (simp add: props_depth_def)

section \<open>The state of the loop\<close>

record ParamState =
  pa_params :: param_values
  pa_full :: param_values
  pa_return :: "json option"

definition set_param :: "string \<Rightarrow> json option \<Rightarrow> ParamState \<Rightarrow> ParamState" where
  "set_param nm v st = st\<lparr>pa_params := js_put nm v (pa_params st), pa_full := js_put nm v (pa_full st)\<rparr>"

record ParamOptions =
  po_onlySimpleTypes :: bool
  po_dataIsResolved :: bool
  po_nodeValuesRoot :: "json option"
  po_parentType :: "NodePropertyType option"
  po_parameterDependencies :: "(string, string list) js_map option"

definition no_options :: ParamOptions where
  "no_options = \<lparr>po_onlySimpleTypes = False, po_dataIsResolved = False, po_nodeValuesRoot = None,
     po_parentType = None, po_parameterDependencies = None\<rparr>"

text \<open>The names that more than one property has.\<close>

definition duplicateParameterNames :: "INodeProperties list \<Rightarrow> string list" where
  "duplicateParameterNames ps = snd (fold (\<lambda>p (names, dups).
     if np_name p \<in> set names then (names, set_add (np_name p) dups) else (names @ [np_name p], dups)) ps ([], []))"

section \<open>Properties that are no collections\<close>

definition nullish :: "json option \<Rightarrow> bool" where
  "nullish v \<longleftrightarrow> v = None \<or> v = Some JNull"

definition filled_value :: "INodeProperties \<Rightarrow> json option \<Rightarrow> json option" where
  "filled_value p v =
     (if np_type p \<in> {PtBoolean, PtNumber, PtOptions} then (if v \<noteq> None then v else np_default p)
      else if np_type p = PtResourceLocator \<and> typeof_object (np_default p)
      then (if v \<noteq> None then v
            else Some (JObj (fold (\<lambda>(k, v). js_put k v) (object_entries (np_default p)) [(''__rl'', JBool True)])))
      else if nullish v then np_default p else v)"

definition not_default :: "ParamLib \<Rightarrow> NodePropertyType option \<Rightarrow> INodeProperties \<Rightarrow> json option \<Rightarrow> bool" where
  "not_default lib parentType p v \<longleftrightarrow>
     (v \<noteq> np_default p \<and> \<not> typeof_object v) \<or> (typeof_object v \<and> \<not> lib_isEqual lib v (np_default p))
   \<or> (v \<noteq> None \<and> parentType = Some PtCollection)"

definition is_collection :: "INodeProperties \<Rightarrow> bool" where
  "is_collection p \<longleftrightarrow> np_type p \<in> {PtCollection, PtFixedCollection}"

text \<open>
  The first half of a round: the conditions under which the property is left out, and the properties
  that are no collections. The flag tells whether the round goes on.
\<close>

definition simple_step :: "ParamLib \<Rightarrow> bool \<Rightarrow> bool \<Rightarrow> NodePropertyType option \<Rightarrow> string list
    \<Rightarrow> (ParamState \<Rightarrow> INodeProperties \<Rightarrow> bool result) \<Rightarrow> json option \<Rightarrow> INodeProperties \<Rightarrow> ParamState
    \<Rightarrow> (ParamState \<times> bool) result" where
  "simple_step lib returnDefaults returnNoneDisplayed parentType dups displayed nodeValues p st =
     (let v = value_at nodeValues (np_name p) in
      if \<not> truthy_at nodeValues \<or> (v = None \<and> (\<not> returnDefaults \<or> parentType = Some PtCollection))
      then Inr (st, False)
      else rbind (if returnNoneDisplayed then Inr True else displayed st p) (\<lambda>shown.
        if \<not> shown then Inr (st, False)
        else if is_collection p then Inr (st, True)
        else rbind (if np_name p \<in> set dups then displayed st p else Inr True) (\<lambda>shown.
          if \<not> shown then Inr (st, False)
          else if returnDefaults then Inr (set_param (np_name p) (filled_value p v) st, True)
          else if not_default lib parentType p v then Inr (set_param (np_name p) v st, False)
          else Inr (st, True))))"

section \<open>Collections\<close>

text \<open>\<open>rec\<close> stands for the call of \<open>getNodeParameters\<close> on the properties one level deeper.\<close>

definition collection_step :: "bool \<Rightarrow> (INodeProperties list \<Rightarrow> json option \<Rightarrow> param_values result)
    \<Rightarrow> json option \<Rightarrow> INodeProperties \<Rightarrow> ParamState \<Rightarrow> ParamState result" where
  "collection_step returnDefaults rec nodeValues p st =
     (let nm = np_name p; v = value_at nodeValues nm in
      if pp_multipleValues (np_extras p) = Some True
      then Inr (if v \<noteq> None then set_param nm v st
        else if returnDefaults
        then set_param nm (Some (case np_default p of Some (JArr xs) \<Rightarrow> JArr xs | _ \<Rightarrow> JArr [])) st
        else st\<lparr>pa_full := js_put nm (case map_of (pa_params st) nm of None \<Rightarrow> None | Some w \<Rightarrow> w) (pa_full st)\<rparr>)
      else if v \<noteq> None
      then (case np_options p of
          None \<Rightarrow> Inl TypeError
        | Some os \<Rightarrow> rbind (rec (map as_property os) v) (\<lambda>m. Inr (set_param nm (Some (values_obj m)) st)))
      else if returnDefaults then Inr (set_param nm (np_default p) st)
      else Inr st)"

text \<open>The properties of an option of a fixed collection.\<close>

definition item_properties :: "PropertyOption \<Rightarrow> INodeProperties list result" where
  "item_properties x = (case x of OptionCollection nm qs \<Rightarrow> Inr qs | _ \<Rightarrow> Inl TypeError)"

definition multi_values :: "INodeProperties \<Rightarrow> string \<Rightarrow> INodeProperties list result" where
  "multi_values p itemName = (case np_options p of
     None \<Rightarrow> Inl TypeError
   | Some os \<Rightarrow> (case find (\<lambda>x. option_name x = itemName) os of
        None \<Rightarrow> Inl (ApplicationError ''Could not find property option'')
      | Some x \<Rightarrow> item_properties x))"

definition multi_item :: "(INodeProperties list \<Rightarrow> json option \<Rightarrow> param_values result) \<Rightarrow> INodeProperties
    \<Rightarrow> json option \<Rightarrow> string \<Rightarrow> (string, json) js_map \<Rightarrow> (string, json) js_map result" where
  "multi_item rec p propertyValues itemName collectionValues = (case propertyValues of
     Some (JObj fs) \<Rightarrow>
       rbind (iterate (map_of fs itemName)) (\<lambda>items.
       rbind (rfold (\<lambda>nodeValue tempArrayValue.
           rbind (multi_values p itemName) (\<lambda>qs.
           rbind (rec qs (Some nodeValue)) (\<lambda>m. Inr (tempArrayValue @ [values_obj m])))) items []) (\<lambda>tempArrayValue.
       Inr (js_put itemName (JArr tempArrayValue) collectionValues)))
   | _ \<Rightarrow> Inr collectionValues)"

definition single_item :: "(INodeProperties list \<Rightarrow> json option \<Rightarrow> param_values result) \<Rightarrow> INodeProperties
    \<Rightarrow> json option \<Rightarrow> string \<Rightarrow> (string, json) js_map \<Rightarrow> (string, json) js_map result" where
  "single_item rec p v itemName collectionValues = (case np_options p of
     None \<Rightarrow> Inl TypeError
   | Some os \<Rightarrow> (case find (\<lambda>x. option_name x = itemName) os of
        None \<Rightarrow> Inr collectionValues
      | Some x \<Rightarrow>
          if v = None then Inl TypeError
          else rbind (item_properties x) (\<lambda>qs.
            rbind (rec qs (map_of (object_entries v) itemName)) (\<lambda>m.
            Inr (if m \<noteq> [] then js_put itemName (values_obj m) collectionValues else collectionValues)))))"

definition fixed_finish :: "bool \<Rightarrow> json option \<Rightarrow> INodeProperties \<Rightarrow> (string, json) js_map \<Rightarrow> ParamState \<Rightarrow> ParamState" where
  "fixed_finish returnDefaults propertyValues p collectionValues st =
     (if collectionValues \<noteq> [] \<or> returnDefaults then set_param (np_name p) (Some (JObj collectionValues)) st
      else case propertyValues of
        Some (JObj fs) \<Rightarrow>
          if pp_multipleValues (np_extras p) = Some False \<and> fs \<noteq> []
          then st\<lparr>pa_params := js_put (np_name p) (Some (JObj (map (\<lambda>(k, _). (k, JObj [])) fs))) (pa_params st)\<rparr>
          else st
      | _ \<Rightarrow> st)"

definition fixed_step :: "bool \<Rightarrow> (INodeProperties list \<Rightarrow> json option \<Rightarrow> param_values result)
    \<Rightarrow> json option \<Rightarrow> INodeProperties \<Rightarrow> ParamState \<Rightarrow> ParamState result" where
  "fixed_step returnDefaults rec nodeValues p st =
     (let v = value_at nodeValues (np_name p);
          propertyValues = (if returnDefaults \<and> v = None then np_default p else v);
          keys = map fst (object_entries propertyValues)
      in if \<not> returnDefaults \<and> pp_multipleValues (np_extras p) = Some False \<and> truthy_at propertyValues \<and> keys = []
         then Inr (st\<lparr>pa_return := nodeValues\<rparr>)
         else rbind (rfold (\<lambda>itemName.
             if pp_multipleValues (np_extras p) = Some True then multi_item rec p propertyValues itemName
             else single_item rec p v itemName) keys []) (\<lambda>collectionValues.
           Inr (fixed_finish returnDefaults propertyValues p collectionValues st)))"

definition complex_step :: "bool \<Rightarrow> (INodeProperties list \<Rightarrow> json option \<Rightarrow> param_values result)
    \<Rightarrow> json option \<Rightarrow> INodeProperties \<Rightarrow> ParamState \<Rightarrow> ParamState result" where
  "complex_step returnDefaults rec nodeValues p st =
     (if np_type p = PtCollection then collection_step returnDefaults rec nodeValues p st
      else if np_type p = PtFixedCollection then fixed_step returnDefaults rec nodeValues p st
      else Inr st)"

text \<open>Only properties that lie deeper are passed on.\<close>

lemma item_depth:
  assumes "np_options p = Some os" "find f os = Some x" "item_properties x = Inr qs"
  shows "props_depth qs < prop_depth p"
proof -
  obtain nm where "x = OptionCollection nm qs"
    using assms(3) by (auto simp: item_properties_def split: PropertyOption.splits)
  moreover have "x \<in> set os" using assms(2) by (auto simp: find_Some_iff)
  ultimately show ?thesis using assms(1) by (auto intro: option_collection_depth)
qed

lemma multi_values_depth: "multi_values p itemName = Inr qs \<Longrightarrow> props_depth qs < prop_depth p"
  by (auto simp: multi_values_def split: option.splits intro: item_depth)

lemma multi_item_cong:
  assumes "\<And>qs w. props_depth qs < prop_depth p \<Longrightarrow> rec qs w = rec' qs w"
  shows "multi_item rec p pv itemName coll = multi_item rec' p pv itemName coll"
  unfolding multi_item_def
  by (auto split: option.split json.split intro!: rbind_cong rfold_cong simp: assms multi_values_depth)

lemma single_item_cong:
  assumes "\<And>qs w. props_depth qs < prop_depth p \<Longrightarrow> rec qs w = rec' qs w"
  shows "single_item rec p v itemName coll = single_item rec' p v itemName coll"
  unfolding single_item_def
  by (auto split: option.split intro!: rbind_cong assms item_depth)

lemma complex_step_cong [fundef_cong]:
  assumes "returnDefaults = returnDefaults'" "nodeValues = nodeValues'" "p = p'" "st = st'"
    and rec: "\<And>qs w. props_depth qs < prop_depth p' \<Longrightarrow> rec qs w = rec' qs w"
  shows "complex_step returnDefaults rec nodeValues p st = complex_step returnDefaults' rec' nodeValues' p' st'"
proof -
  have multi: "multi_item rec p' = multi_item rec' p'" by (intro ext multi_item_cong rec)
  have single: "single_item rec p' = single_item rec' p'" by (intro ext single_item_cong rec)
  have coll: "collection_step returnDefaults' rec nodeValues' p' st' = collection_step returnDefaults' rec' nodeValues' p' st'"
    unfolding collection_step_def Let_def by (auto split: option.split simp: rec collection_depth)
  show ?thesis
    unfolding complex_step_def fixed_step_def assms(1-4) multi single coll ..
qed

section \<open>\<open>getNodeParameters\<close>\<close>

definition prepass_options :: "ParamOptions \<Rightarrow> (string, string list) js_map \<Rightarrow> ParamOptions" where
  "prepass_options opts deps = \<lparr>po_onlySimpleTypes = True, po_dataIsResolved = True,
     po_nodeValuesRoot = po_nodeValuesRoot opts, po_parentType = po_parentType opts,
     po_parameterDependencies = Some deps\<rparr>"

definition nested_options :: "json \<Rightarrow> NodePropertyType \<Rightarrow> ParamOptions" where
  "nested_options nodeValuesRoot parentType = no_options\<lparr>po_nodeValuesRoot := Some nodeValuesRoot, po_parentType := Some parentType\<rparr>"

text \<open>
  The values the display rules are checked against: those of the first pass, or, if there is none, the
  object that the loop itself fills; the same object is the root if no root is given.
\<close>

definition check_values :: "json option \<Rightarrow> ParamState \<Rightarrow> json" where
  "check_values check st = (case check of None \<Rightarrow> values_obj (pa_full st) | Some j \<Rightarrow> j)"

definition root_values :: "ParamOptions \<Rightarrow> json option \<Rightarrow> ParamState \<Rightarrow> json" where
  "root_values opts check st =
     (if truthy_at (po_nodeValuesRoot opts) then the (po_nodeValuesRoot opts) else check_values check st)"

definition displayed_in :: "ParamLib \<Rightarrow> ParamNode \<Rightarrow> ParamOptions \<Rightarrow> json option \<Rightarrow> ParamState \<Rightarrow> INodeProperties \<Rightarrow> bool result" where
  "displayed_in lib node opts check st p =
     displayParameter lib node (Some (check_values check st)) (pp_displayOptions (np_extras p)) (Some (root_values opts check st))"

definition init_params :: ParamState where
  "init_params = \<lparr>pa_params = [], pa_full = [], pa_return = None\<rparr>"

definition returned :: "ParamState \<Rightarrow> param_values" where
  "returned st = (case pa_return st of None \<Rightarrow> pa_params st | Some j \<Rightarrow> obj_values j)"

text \<open>One round: \<open>rec\<close> is the call one level deeper, with the values of the root and the type of the parent.\<close>

definition param_round :: "ParamLib \<Rightarrow> ParamNode \<Rightarrow> bool \<Rightarrow> bool \<Rightarrow> ParamOptions \<Rightarrow> INodeProperties list \<Rightarrow> json option
    \<Rightarrow> json option \<Rightarrow> (json \<Rightarrow> NodePropertyType \<Rightarrow> INodeProperties list \<Rightarrow> json option \<Rightarrow> param_values result)
    \<Rightarrow> nat \<Rightarrow> ParamState \<Rightarrow> ParamState result" where
  "param_round lib node returnDefaults returnNoneDisplayed opts ps nodeValues check rec index st =
     (if length ps \<le> index then Inl TypeError
      else if pa_return st \<noteq> None then Inr st
      else rbind (simple_step lib returnDefaults returnNoneDisplayed (po_parentType opts)
          (duplicateParameterNames ps) (displayed_in lib node opts check) nodeValues (ps ! index) st) (\<lambda>(st, goes_on).
        if \<not> goes_on \<or> po_onlySimpleTypes opts then Inr st
        else complex_step returnDefaults (rec (root_values opts check st) (np_type (ps ! index))) nodeValues (ps ! index) st))"

lemma param_round_cong [fundef_cong]:
  assumes "lib = lib'" "node = node'" "rd = rd'" "rn = rn'" "opts = opts'" "ps = ps'" "v = v'" "check = check'"
    "index = index'" "st = st'"
    and rec: "\<And>r ty qs w. props_depth qs < props_depth ps' \<Longrightarrow> rec r ty qs w = rec' r ty qs w"
  shows "param_round lib node rd rn opts ps v check rec index st = param_round lib' node' rd' rn' opts' ps' v' check' rec' index' st'"
proof (cases "index' < length ps'")
  case True
  have "complex_step rd' (rec r ty) v' (ps' ! index') t = complex_step rd' (rec' r ty) v' (ps' ! index') t" for r ty t
    by (rule complex_step_cong) (use True in \<open>auto intro!: rec intro: less_le_trans[OF _ prop_depth_le]\<close>)
  then show ?thesis unfolding param_round_def assms(1-10)
    by (auto intro!: rbind_cong split: prod.split)
qed (simp add: param_round_def assms(1-10))

function getNodeParameters :: "ParamLib \<Rightarrow> ParamNode \<Rightarrow> bool \<Rightarrow> bool \<Rightarrow> ParamOptions \<Rightarrow> INodeProperties list
    \<Rightarrow> json option \<Rightarrow> param_values result" where
  "getNodeParameters lib node returnDefaults returnNoneDisplayed opts ps nodeValues =
     (let deps = or_else (po_parameterDependencies opts) (getParameterDependencies ps) in
      rbind (if \<not> po_dataIsResolved opts \<and> \<not> returnNoneDisplayed
             then rbind (getNodeParameters lib node True True (prepass_options opts deps) ps nodeValues)
               (\<lambda>m. Inr (Some (values_obj m)))
             else Inr None) (\<lambda>check.
      rbind (getParameterResolveOrder ps deps) (\<lambda>order.
      rbind (rfold (param_round lib node returnDefaults returnNoneDisplayed opts ps nodeValues check
          (\<lambda>nodeValuesRoot parentType. getNodeParameters lib node returnDefaults returnNoneDisplayed
            (nested_options nodeValuesRoot parentType))) order init_params) (\<lambda>st.
      Inr (returned st)))))"
  by pat_completeness auto

termination
  by (relation "measures [\<lambda>(lib, node, rd, rn, opts, ps, v). props_depth ps,
      \<lambda>(lib, node, rd, rn, opts, ps, v). if po_dataIsResolved opts then 0 else 1]")
    (simp_all add: prepass_options_def)

declare getNodeParameters.simps [simp del]

section \<open>The keys of the result\<close>

lemma set_param_fields [simp]:
  "pa_params (set_param nm v st) = js_put nm v (pa_params st)"
  "pa_full (set_param nm v st) = js_put nm v (pa_full st)"
  "pa_return (set_param nm v st) = pa_return st"
  by (simp_all add: set_param_def)

lemma pa_return_init [simp]: "pa_return init_params = None" "pa_params init_params = []" "pa_full init_params = []"
  by (simp_all add: init_params_def)

text \<open>A round writes the key of its property only, and returns early with the given values only.\<close>

definition param_keys :: "INodeProperties list \<Rightarrow> json option \<Rightarrow> ParamState \<Rightarrow> bool" where
  "param_keys ps nodeValues st \<longleftrightarrow> js_wf (pa_params st) \<and> fst ` set (pa_params st) \<subseteq> np_name ` set ps
     \<and> (pa_return st = None \<or> pa_return st = nodeValues)"

lemma param_keys_put:
  "param_keys ps nodeValues st \<Longrightarrow> p \<in> set ps \<Longrightarrow>
   param_keys ps nodeValues (st\<lparr>pa_params := js_put (np_name p) v (pa_params st)\<rparr>)"
  unfolding param_keys_def by (simp add: js_put_fst)

lemma param_keys_full [simp]: "param_keys ps nodeValues (st\<lparr>pa_full := m\<rparr>) = param_keys ps nodeValues st"
  by (simp add: param_keys_def)

lemma param_keys_return: "param_keys ps nodeValues st \<Longrightarrow> param_keys ps nodeValues (st\<lparr>pa_return := nodeValues\<rparr>)"
  by (simp add: param_keys_def)

lemma param_keys_set [intro]:
  "param_keys ps nodeValues st \<Longrightarrow> p \<in> set ps \<Longrightarrow> param_keys ps nodeValues (set_param (np_name p) v st)"
  by (simp add: set_param_def param_keys_put)

lemma simple_step_keys:
  assumes "simple_step lib rd rn pt dups disp v p st = Inr (st', goes_on)" "param_keys ps v st" "p \<in> set ps"
  shows "param_keys ps v st'"
  using assms by (auto simp: simple_step_def Let_def result_simps split: if_splits)

lemma fixed_finish_keys:
  assumes "param_keys ps v st" "p \<in> set ps"
  shows "param_keys ps v (fixed_finish rd pv p coll st)"
  using assms by (auto simp: fixed_finish_def intro: param_keys_put split: option.split json.split)

lemma complex_step_keys:
  assumes "complex_step rd rec v p st = Inr st'" and keys: "param_keys ps v st" "p \<in> set ps"
  shows "param_keys ps v st'"
proof -
  have "param_keys ps v st'" if "collection_step rd rec v p st = Inr st'"
    using that keys by (auto simp: collection_step_def Let_def result_simps split: if_splits option.splits)
  moreover have "param_keys ps v st'" if "fixed_step rd rec v p st = Inr st'"
    using that keys by (auto simp: fixed_step_def Let_def result_simps fixed_finish_keys param_keys_return split: if_splits)
  ultimately show ?thesis using assms by (auto simp: complex_step_def split: if_splits)
qed

lemma getNodeParameters_keys:
  assumes "getNodeParameters lib node rd rn opts ps v = Inr m"
  shows "(js_wf m \<and> fst ` set m \<subseteq> np_name ` set ps) \<or> (\<exists>j. v = Some j \<and> m = obj_values j)"
proof -
  obtain check order rec st where
    loop: "rfold (param_round lib node rd rn opts ps v check rec) order init_params = Inr st"
    and m: "m = returned st"
    using assms by (subst (asm) getNodeParameters.simps) (auto simp: Let_def rbind_Inr_iff)
  have "param_keys ps v st"
    using loop
  proof (rule rfold_invariant)
    show "param_keys ps v init_params" by (simp add: param_keys_def)
    fix k st st' assume "param_keys ps v st" "param_round lib node rd rn opts ps v check rec k st = Inr st'"
    then show "param_keys ps v st'"
      by (auto simp: param_round_def result_simps not_le split: if_splits
          dest: simple_step_keys[OF _ _ nth_mem] complex_step_keys[OF _ _ nth_mem])
  qed
  then show ?thesis unfolding m returned_def param_keys_def by (auto split: option.split)
qed

section \<open>Lists of plain properties\<close>

text \<open>
  For properties with different names, none of them a collection, the result has a closed form: the
  displayed properties in their order, each with its value or default, or only those that differ from
  it. The order in which they are resolved does not show.
\<close>

definition plain_properties :: "INodeProperties list \<Rightarrow> bool" where
  "plain_properties ps \<longleftrightarrow> distinct (map np_name ps) \<and> (\<forall>p \<in> set ps. \<not> is_collection p)"

definition filled :: "INodeProperties list \<Rightarrow> json \<Rightarrow> param_values" where
  "filled ps j = map (\<lambda>p. (np_name p, filled_value p (field_of j (np_name p)))) ps"

definition stripped :: "ParamLib \<Rightarrow> INodeProperties list \<Rightarrow> json \<Rightarrow> param_values" where
  "stripped lib ps j = map (\<lambda>p. (np_name p, field_of j (np_name p)))
     (filter (\<lambda>p. field_of j (np_name p) \<noteq> None \<and> not_default lib None p (field_of j (np_name p))) ps)"

lemma duplicates_fold:
  "distinct (names @ map np_name ps) \<Longrightarrow>
   snd (fold (\<lambda>p (names, dups). if np_name p \<in> set names then (names, set_add (np_name p) dups)
      else (names @ [np_name p], dups)) ps (names, dups)) = dups"
  by (induction ps arbitrary: names) auto

lemma no_duplicates: "distinct (map np_name ps) \<Longrightarrow> duplicateParameterNames ps = []"
  unfolding duplicateParameterNames_def by (rule duplicates_fold) simp

lemma js_put_same: "map_of m k = Some v \<Longrightarrow> js_put k v m = m"
  by (induction m) (auto split: if_splits)

text \<open>Rounds that set a value of their own, in an order that first goes through the list once.\<close>

lemma put_rounds_list:
  assumes "distinct (map np_name ps)" "k \<le> length ps"
  shows "fold (\<lambda>i m. if c (ps ! i) then js_put (np_name (ps ! i)) (g (ps ! i)) m else m) [0..<k] []
    = map (\<lambda>p. (np_name p, g p)) (filter c (take k ps))"
  using assms(2)
proof (induction k)
  case (Suc k)
  have "np_name (ps ! k) \<notin> np_name ` set (take k ps)"
    using assms(1) Suc.prems by (auto simp: distinct_conv_nth in_set_conv_nth)
  then have "np_name (ps ! k) \<notin> fst ` set (map (\<lambda>p. (np_name p, g p)) (filter c (take k ps)))" by auto
  then show ?case using Suc by (simp add: take_Suc_conv_app_nth js_put_new)
qed simp

lemma put_rounds_again:
  assumes "distinct (map np_name ps)" "\<forall>i \<in> set E. i < length ps"
  shows "fold (\<lambda>i m. if c (ps ! i) then js_put (np_name (ps ! i)) (g (ps ! i)) m else m) E
      (map (\<lambda>p. (np_name p, g p)) (filter c ps))
    = map (\<lambda>p. (np_name p, g p)) (filter c ps)"
  using assms(2)
proof (induction E)
  case (Cons i E)
  have "map_of (map (\<lambda>p. (np_name p, g p)) (filter c ps)) (np_name (ps ! i)) = Some (g (ps ! i))" if "c (ps ! i)"
  proof (rule map_of_is_SomeI)
    show "distinct (map fst (map (\<lambda>p. (np_name p, g p)) (filter c ps)))"
      using assms(1) by (simp add: comp_def distinct_map_filter)
    show "(np_name (ps ! i), g (ps ! i)) \<in> set (map (\<lambda>p. (np_name p, g p)) (filter c ps))"
      using that Cons.prems by auto
  qed
  then show ?case using Cons by (auto simp: js_put_same)
qed simp

lemma put_rounds:
  assumes plain: "distinct (map np_name ps)"
    and round: "\<And>i st. i < length ps \<Longrightarrow> pa_return st = None \<Longrightarrow>
      f i st = Inr (if c (ps ! i) then set_param (np_name (ps ! i)) (g (ps ! i)) st else st)"
  shows "\<exists>st. rfold f (resolve_order ps deps) init_params = Inr st \<and> pa_return st = None
    \<and> pa_params st = map (\<lambda>p. (np_name p, g p)) (filter c ps)"
proof -
  let ?put = "\<lambda>i m. if c (ps ! i) then js_put (np_name (ps ! i)) (g (ps ! i)) m else m"
  have "\<exists>st'. rfold f is st = Inr st' \<and> pa_return st' = None \<and> pa_params st' = fold ?put is (pa_params st)"
    if "\<forall>i \<in> set is. i < length ps" "pa_return st = None" for "is" st
    using that
  proof (induction "is" arbitrary: st)
    case (Cons i "is")
    let ?t = "if c (ps ! i) then set_param (np_name (ps ! i)) (g (ps ! i)) st else st"
    have "\<exists>st'. rfold f is ?t = Inr st' \<and> pa_return st' = None \<and> pa_params st' = fold ?put is (pa_params ?t)"
      by (rule Cons.IH) (use Cons.prems in auto)
    moreover have "pa_params ?t = ?put i (pa_params st)" by simp
    ultimately show ?case using Cons.prems by (simp add: round)
  qed simp
  from this[of "resolve_order ps deps" init_params]
  obtain st where st: "rfold f (resolve_order ps deps) init_params = Inr st" "pa_return st = None"
    "pa_params st = fold ?put (resolve_order ps deps) []" by auto
  have "fold ?put (resolve_order ps deps) [] = map (\<lambda>p. (np_name p, g p)) (filter c ps)"
    unfolding resolve_order_def fold_append comp_def put_rounds_list[OF plain order.refl]
    using put_rounds_again[OF plain, of "concat (map (extra_rounds ps deps) [0..<length ps])" c g]
    by (simp add: extra_rounds_def)
  with st show ?thesis by auto
qed

lemma plain_round:
  assumes "plain_properties ps" "po_parentType opts \<noteq> Some PtCollection" "index < length ps" "pa_return st = None"
    and "if rn then c (ps ! index) else displayed_in lib node opts check st (ps ! index) = Inr (c (ps ! index))"
  shows "param_round lib node rd rn opts ps (Some (JObj fs)) check rec index st
   = Inr (let p = ps ! index; v = map_of fs (np_name p)
          in if c p \<and> (rd \<or> (v \<noteq> None \<and> not_default lib None p v))
             then set_param (np_name p) (if rd then filled_value p v else v) st else st)"
proof -
  have "\<not> is_collection (ps ! index)" "duplicateParameterNames ps = []"
    using assms(1,3) by (simp_all add: plain_properties_def no_duplicates)
  then show ?thesis using assms(2-5)
    by (cases rn) (auto simp: param_round_def simple_step_def Let_def complex_step_def is_collection_def value_at_def
      field_of_def truthy_at_def not_default_def)
qed

lemma plain_rounds:
  assumes plain: "plain_properties ps" and "po_parentType opts \<noteq> Some PtCollection"
    and "\<And>st p. p \<in> set ps \<Longrightarrow> if rn then c p else displayed_in lib node opts check st p = Inr (c p)"
  shows "\<exists>st. rfold (param_round lib node rd rn opts ps (Some (JObj fs)) check rec) (resolve_order ps deps) init_params = Inr st
    \<and> returned st = (if rd then filled (filter c ps) (JObj fs) else stripped lib (filter c ps) (JObj fs))"
proof -
  let ?v = "\<lambda>p. map_of fs (np_name p)"
  have "\<exists>st. rfold (param_round lib node rd rn opts ps (Some (JObj fs)) check rec) (resolve_order ps deps) init_params = Inr st
    \<and> pa_return st = None \<and> pa_params st = map (\<lambda>p. (np_name p, if rd then filled_value p (?v p) else ?v p))
      (filter (\<lambda>p. c p \<and> (rd \<or> (?v p \<noteq> None \<and> not_default lib None p (?v p)))) ps)"
  proof (rule put_rounds)
    show "distinct (map np_name ps)" using plain by (simp add: plain_properties_def)
    fix i and st :: ParamState assume i: "i < length ps" and r: "pa_return st = None"
    have "if rn then c (ps ! i) else displayed_in lib node opts check st (ps ! i) = Inr (c (ps ! i))"
      using assms(3) i by simp
    from plain_round[where c = c, OF plain assms(2) i r this]
    show "param_round lib node rd rn opts ps (Some (JObj fs)) check rec i st =
      Inr (if c (ps ! i) \<and> (rd \<or> (?v (ps ! i) \<noteq> None \<and> not_default lib None (ps ! i) (?v (ps ! i))))
        then set_param (np_name (ps ! i)) (if rd then filled_value (ps ! i) (?v (ps ! i)) else ?v (ps ! i)) st else st)"
      by (simp add: Let_def)
  qed
  moreover have "filter (\<lambda>p. c p \<and> ?v p \<noteq> None \<and> not_default lib None p (?v p)) ps
     = filter (\<lambda>p. ?v p \<noteq> None \<and> not_default lib None p (?v p)) (filter c ps)"
    by (simp add: conj_ac)
  ultimately show ?thesis
    by (cases rd) (auto simp: returned_def filled_def stripped_def field_of_def)
qed

text \<open>
  The display rules are checked against the values of the first pass, all defaults filled in.
  \<open>c\<close> tells for each property whether it is displayed.
\<close>

definition plain_display :: "ParamLib \<Rightarrow> ParamNode \<Rightarrow> json option \<Rightarrow> INodeProperties list \<Rightarrow> json \<Rightarrow> INodeProperties \<Rightarrow> bool result" where
  "plain_display lib node nodeValuesRoot ps j p =
     (let full = values_obj (filled ps j)
      in displayParameter lib node (Some full) (pp_displayOptions (np_extras p))
           (Some (if truthy_at nodeValuesRoot then the nodeValuesRoot else full)))"

lemma getNodeParameters_all:
  assumes plain: "plain_properties ps" and closed: "rules_closed ps"
    and opts: "po_parentType opts \<noteq> Some PtCollection"
      "or_else (po_parameterDependencies opts) (getParameterDependencies ps) = getParameterDependencies ps"
  shows "getNodeParameters lib node rd True opts ps (Some (JObj fs)) =
    Inr (if rd then filled ps (JObj fs) else stripped lib ps (JObj fs))"
proof -
  note order = resolve_order_closed[OF rules_closed_deps[OF closed]]
  let ?rec = "\<lambda>nodeValuesRoot parentType. getNodeParameters lib node rd True (nested_options nodeValuesRoot parentType)"
  obtain st where "rfold (param_round lib node rd True opts ps (Some (JObj fs)) None ?rec)
      (resolve_order ps (getParameterDependencies ps)) init_params = Inr st"
    and "returned st = (if rd then filled ps (JObj fs) else stripped lib ps (JObj fs))"
    using plain_rounds[OF plain opts(1), of True "\<lambda>p. True" lib node None rd fs ?rec "getParameterDependencies ps"] by auto
  then show ?thesis
    by (subst getNodeParameters.simps) (simp add: Let_def opts(2) order)
qed

lemma getNodeParameters_displayed:
  assumes plain: "plain_properties ps" and closed: "rules_closed ps"
    and opts: "po_parentType opts \<noteq> Some PtCollection" "po_parameterDependencies opts = None" "\<not> po_dataIsResolved opts"
    and shown: "\<And>p. p \<in> set ps \<Longrightarrow> plain_display lib node (po_nodeValuesRoot opts) ps (JObj fs) p = Inr (c p)"
  shows "getNodeParameters lib node rd False opts ps (Some (JObj fs)) =
    Inr (if rd then filled (filter c ps) (JObj fs) else stripped lib (filter c ps) (JObj fs))"
proof -
  note order = resolve_order_closed[OF rules_closed_deps[OF closed]]
  have deps: "or_else (po_parameterDependencies opts) (getParameterDependencies ps) = getParameterDependencies ps"
    by (simp add: opts(2) or_else_def)
  let ?check = "Some (values_obj (filled ps (JObj fs)))"
  have pre: "getNodeParameters lib node True True (prepass_options opts (getParameterDependencies ps)) ps (Some (JObj fs))
    = Inr (filled ps (JObj fs))"
    using getNodeParameters_all[OF plain closed, of "prepass_options opts (getParameterDependencies ps)" lib node True fs] opts(1)
    by (simp add: prepass_options_def or_else_def)
  have disp: "displayed_in lib node opts ?check st p = Inr (c p)" if "p \<in> set ps" for st p
    using shown[OF that] by (simp add: displayed_in_def plain_display_def check_values_def root_values_def Let_def split: if_splits)
  let ?rec = "\<lambda>nodeValuesRoot parentType. getNodeParameters lib node rd False (nested_options nodeValuesRoot parentType)"
  obtain st where "rfold (param_round lib node rd False opts ps (Some (JObj fs)) ?check ?rec)
      (resolve_order ps (getParameterDependencies ps)) init_params = Inr st"
    and "returned st = (if rd then filled (filter c ps) (JObj fs) else stripped lib (filter c ps) (JObj fs))"
    using plain_rounds[OF plain opts(1), of False c lib node ?check rd fs ?rec "getParameterDependencies ps"] disp by auto
  then show ?thesis
    by (subst getNodeParameters.simps) (simp add: Let_def deps order pre opts(3))
qed

section \<open>Properties\<close>

definition sample_param_node :: ParamNode where
  "sample_param_node = \<lparr>pn_version = None, pn_typeName = None\<rparr>"

lemma map_of_values_obj: "distinct (map fst m) \<Longrightarrow> field_of (values_obj m) nm = (case map_of m nm of None \<Rightarrow> None | Some v \<Rightarrow> v)"
proof (induction m)
  case (Cons p m)
  have "map_of m nm = None" if "fst p = nm" using Cons.prems that by (auto simp: map_of_eq_None_iff)
  moreover have "field_of (values_obj m) nm = (case map_of m nm of None \<Rightarrow> None | Some v \<Rightarrow> v)" using Cons by simp
  ultimately show ?case
    by (cases p; cases "snd p") (auto simp: values_obj_def field_of_def map_filter_simps)
qed (simp add: values_obj_def field_of_def map_filter_simps)

text \<open>The result has a value for a property of the list only, and for each at most one, or it is the object
  of the given values as it is.\<close>

theorem getNodeParameters_typed:
  assumes "getNodeParameters lib node returnDefaults returnNoneDisplayed opts ps nodeValues = Inr m"
  shows "(distinct (js_keys m) \<and> set (js_keys m) \<subseteq> np_name ` set ps) \<or> (\<exists>j. nodeValues = Some j \<and> m = obj_values j)"
  using getNodeParameters_keys[OF assms] by (auto simp: js_wf_def js_keys_def)

lemma sample_plain: "plain_properties sample_properties"
  by (simp add: plain_properties_def sample_properties_def is_collection_def)

lemma getNodeParameters_typed_witness:
  "\<exists>m. getNodeParameters sample_lib sample_param_node True True no_options sample_properties (Some (JObj [])) = Inr m
    \<and> ((distinct (js_keys m) \<and> set (js_keys m) \<subseteq> np_name ` set sample_properties) \<or> m = obj_values (JObj []))"
proof -
  have "getNodeParameters sample_lib sample_param_node True True no_options sample_properties (Some (JObj []))
    = Inr (filled sample_properties (JObj []))"
    using getNodeParameters_all[OF sample_plain sample_properties_closed, of no_options sample_lib sample_param_node True "[]"]
    by (simp add: no_options_def or_else_def)
  from getNodeParameters_typed[OF this] this show ?thesis by auto
qed

text \<open>C19: Let the properties have different names and no collections, their display rules name only other properties of
  the list, or of the root, and every rule evaluate on the values with all defaults filled in without an error (to \<open>c p\<close>). Then the result is
  known: with defaults, every displayed property in the order of the list with its value, or its default if there is
  none; without defaults, the displayed properties whose value differs from the default.\<close>

theorem getNodeParameters_plain_properties:
  assumes "plain_properties ps" "rules_closed ps"
    and "\<forall>p \<in> set ps. plain_display lib node nodeValuesRoot ps (JObj fs) p = Inr (c p)"
  shows "getNodeParameters lib node returnDefaults False (no_options\<lparr>po_nodeValuesRoot := nodeValuesRoot\<rparr>) ps (Some (JObj fs)) =
    Inr (if returnDefaults
      then map (\<lambda>p. (np_name p, filled_value p (map_of fs (np_name p)))) (filter c ps)
      else map (\<lambda>p. (np_name p, map_of fs (np_name p)))
        (filter (\<lambda>p. c p \<and> map_of fs (np_name p) \<noteq> None \<and> not_default lib None p (map_of fs (np_name p))) ps))"
proof -
  have "filter (\<lambda>p. c p \<and> map_of fs (np_name p) \<noteq> None \<and> not_default lib None p (map_of fs (np_name p))) ps
    = filter (\<lambda>p. map_of fs (np_name p) \<noteq> None \<and> not_default lib None p (map_of fs (np_name p))) (filter c ps)"
    by (simp add: conj_ac)
  then show ?thesis
    using getNodeParameters_displayed[OF assms(1,2), of "no_options\<lparr>po_nodeValuesRoot := nodeValuesRoot\<rparr>" lib node fs c returnDefaults] assms(3)
    by (simp add: no_options_def filled_def stripped_def field_of_def)
qed

lemma getNodeParameters_plain_properties_witness:
  "getNodeParameters sample_lib sample_param_node True False no_options sample_properties (Some (JObj [(''resource'', JStr ''file'')]))
   = Inr [(''resource'', Some (JStr ''file''))]"
proof -
  have full: "filled sample_properties (JObj [(''resource'', JStr ''file'')])
    = [(''operation'', Some (JStr ''get'')), (''resource'', Some (JStr ''file''))]"
    by (simp add: filled_def sample_properties_def filled_value_def field_of_def)
  have "\<forall>p \<in> set sample_properties. plain_display sample_lib sample_param_node None sample_properties
      (JObj [(''resource'', JStr ''file'')]) p = Inr (np_name p = ''resource'')"
    unfolding plain_display_def full
    by (simp add: sample_properties_def sample_extras_def show_if_def displayParameter_def values_obj_def map_filter_simps
        truthy_at_def getPropertyValues_def sample_lib_def field_of_def is_expression_def check_rules_def
        checkConditions_def same_value_def)
  from getNodeParameters_plain_properties[OF sample_plain sample_properties_closed this, of True]
  show ?thesis by (simp add: no_options_def sample_properties_def filled_value_def)
qed

text \<open>C20: For properties with different names, no collections and no resource locators (whose default is completed by the
  marker \<open>__rl\<close>), with display rules that name only other properties of the list, or of the root, and with hidden ones returned too: storing
  only the values that differ from the defaults loses nothing. Filling in the defaults again gives the same properties
  in the same order, and values that are the same or that \<open>isEqual\<close> of lodash takes for equal.\<close>

theorem strip_and_fill_defaults:
  assumes plain: "plain_properties ps" and closed: "rules_closed ps"
    and rl: "\<forall>p \<in> set ps. np_type p \<noteq> PtResourceLocator"
  shows "\<exists>m before after.
    getNodeParameters lib node False True no_options ps (Some (JObj fs)) = Inr m
  \<and> getNodeParameters lib node True True no_options ps (Some (JObj fs)) = Inr before
  \<and> getNodeParameters lib node True True no_options ps (Some (values_obj m)) = Inr after
  \<and> list_all2 (\<lambda>(k, a) (k', b). k = k' \<and> (a = b \<or> lib_isEqual lib a b)) before after"
proof -
  have res: "getNodeParameters lib node rd True no_options ps (Some (JObj gs)) =
      Inr (if rd then filled ps (JObj gs) else stripped lib ps (JObj gs))" for rd gs
    by (rule getNodeParameters_all[OF plain closed]) (simp_all add: no_options_def or_else_def)
  let ?m = "stripped lib ps (JObj fs)"
  obtain gs where gs: "values_obj ?m = JObj gs" by (simp add: values_obj_def)
  have dist: "distinct (map np_name ps)" using plain by (simp add: plain_properties_def)
  then have dm: "distinct (map fst ?m)"
    by (simp add: stripped_def comp_def distinct_map_filter)
  have field: "field_of (values_obj ?m) (np_name p) =
      (if not_default lib None p (field_of (JObj fs) (np_name p)) then field_of (JObj fs) (np_name p) else None)"
    if p: "p \<in> set ps" for p
  proof (cases "(np_name p, field_of (JObj fs) (np_name p)) \<in> set ?m")
    case True
    then have "map_of ?m (np_name p) = Some (field_of (JObj fs) (np_name p))" using dm by simp
    moreover have "not_default lib None p (field_of (JObj fs) (np_name p))"
      using True p dist by (auto simp: stripped_def dest: distinct_map[THEN iffD1] inj_onD)
    ultimately show ?thesis by (simp add: map_of_values_obj[OF dm])
  next
    case False
    then have no: "field_of (JObj fs) (np_name p) = None \<or> \<not> not_default lib None p (field_of (JObj fs) (np_name p))"
      using p by (auto simp: stripped_def)
    have "map_of ?m (np_name p) = None"
      using False p dist by (auto simp: map_of_eq_None_iff stripped_def)
    then show ?thesis using no by (auto simp: map_of_values_obj[OF dm])
  qed
  have "filled_value p v = filled_value p w \<or> lib_isEqual lib (filled_value p v) (filled_value p w)"
    if "p \<in> set ps" "w = (if not_default lib None p v then v else None)" for p v w
    using that rl by (cases v) (auto simp: filled_value_def not_default_def nullish_def typeof_object_def split: if_splits)
  then have "list_all2 (\<lambda>(k, a) (k', b). k = k' \<and> (a = b \<or> lib_isEqual lib a b)) (filled ps (JObj fs)) (filled ps (values_obj ?m))"
    by (auto simp: filled_def list_all2_map1 list_all2_map2 list_all2_same field)
  then show ?thesis using res[of False fs] res[of True fs] res[of True gs] by (simp add: gs)
qed

lemma strip_and_fill_defaults_witness:
  "\<exists>m before after.
    getNodeParameters sample_lib sample_param_node False True no_options sample_properties (Some (JObj [(''resource'', JStr ''user'')])) = Inr m
  \<and> getNodeParameters sample_lib sample_param_node True True no_options sample_properties (Some (JObj [(''resource'', JStr ''user'')])) = Inr before
  \<and> getNodeParameters sample_lib sample_param_node True True no_options sample_properties (Some (values_obj m)) = Inr after
  \<and> list_all2 (\<lambda>(k, a) (k', b). k = k' \<and> (a = b \<or> lib_isEqual sample_lib a b)) before after"
  by (rule strip_and_fill_defaults[OF sample_plain sample_properties_closed]) (simp add: sample_properties_def)

lemma returned_rounds:
  assumes "\<forall>i \<in> set is. i < length ps" "pa_return st = Some j"
  shows "rfold (param_round lib node rd rn opts ps v check rec) is st = Inr st"
  using assms by (induction "is") (auto simp: param_round_def)

lemma resolve_order_Cons: "\<exists>rest. resolve_order (p # ps) deps = 0 # rest \<and> (\<forall>i \<in> set rest. i < length (p # ps))"
proof -
  have "resolve_order (p # ps) deps = 0 # [1..<length (p # ps)] @ concat (map (extra_rounds (p # ps) deps) [0..<length (p # ps)])"
    by (simp add: resolve_order_def upt_conv_Cons del: upt_Suc)
  moreover have "\<forall>i \<in> set ([1..<length (p # ps)] @ concat (map (extra_rounds (p # ps) deps) [0..<length (p # ps)])). i < length (p # ps)"
    by (auto simp: extra_rounds_def)
  ultimately show ?thesis by blast
qed

text \<open>If the value of a fixed collection that allows one value is an empty object and no defaults are wanted,
  the function returns the given values as they are: values of other properties that equal their default
  are kept, and so are keys that belong to no property.\<close>

theorem empty_fixed_collection_returns_input:
  assumes closed: "rules_closed (p # ps)"
    and p: "np_type p = PtFixedCollection" "pp_multipleValues (np_extras p) = Some False"
    and v: "map_of fs (np_name p) = Some (JObj [])"
  shows "getNodeParameters lib node False True no_options (p # ps) (Some (JObj fs)) = Inr (obj_values (JObj fs))"
proof -
  let ?deps = "getParameterDependencies (p # ps)"
  note order = resolve_order_closed[OF rules_closed_deps[OF closed]]
  obtain rest where rest: "resolve_order (p # ps) ?deps = 0 # rest" "\<forall>i \<in> set rest. i < length (p # ps)"
    using resolve_order_Cons by blast
  have first: "param_round lib node False True no_options (p # ps) (Some (JObj fs)) None rec 0 init_params
    = Inr (init_params\<lparr>pa_return := Some (JObj fs)\<rparr>)" for rec
    using p v by (simp add: param_round_def simple_step_def Let_def value_at_def field_of_def truthy_at_def is_collection_def
        no_options_def complex_step_def fixed_step_def object_entries_def)
  show ?thesis
    by (subst getNodeParameters.simps)
      (use rest(2) in \<open>simp add: Let_def or_else_def no_options_def[THEN arg_cong[where f = po_parameterDependencies]]
        order rest(1) first returned_rounds returned_def\<close>)
qed

lemma empty_fixed_collection_returns_input_witness:
  "getNodeParameters sample_lib sample_param_node False True no_options
     [Property ''filters'' PtFixedCollection (Some (JObj [])) (no_extras\<lparr>pp_multipleValues := Some False\<rparr>) (Some []),
      Property ''limit'' PtNumber (Some (JNum 50)) no_extras None]
     (Some (JObj [(''filters'', JObj []), (''limit'', JNum 50), (''old'', JNull)]))
   = Inr [(''filters'', Some (JObj [])), (''limit'', Some (JNum 50)), (''old'', Some JNull)]"
  by (subst empty_fixed_collection_returns_input)
    (simp_all add: rules_closed_def rule_names_def no_extras_def obj_values_def)

text \<open>A fixed collection that allows one value and has a default with an entry for one of its options cannot be
  filled in: the entry of the default is looked up in the given value, which is \<open>undefined\<close>, and a
  \<open>TypeError\<close> is thrown.\<close>

theorem fixed_collection_default_throws:
  assumes p: "np_type p = PtFixedCollection" "pp_multipleValues (np_extras p) \<noteq> Some True" "rule_names p = []"
    and d: "np_default p = Some (JObj ((itemName, j) # rest))"
    and os: "np_options p = Some os" "itemName \<in> option_name ` set os"
    and v: "map_of fs (np_name p) = None"
  shows "getNodeParameters lib node True True no_options [p] (Some (JObj fs)) = Inl TypeError"
proof -
  have closed: "rules_closed [p]" using p(3) by (simp add: rules_closed_def)
  have order: "getParameterResolveOrder [p] (getParameterDependencies [p]) = Inr [0]"
    using resolve_order_closed[OF rules_closed_deps[OF closed]] p(3)
    by (simp add: resolve_order_def extra_rounds_def deps_at_def getParameterDependencies_def or_else_def)
  obtain x where x: "find (\<lambda>x. option_name x = itemName) os = Some x"
    using os(2) by (cases "find (\<lambda>x. option_name x = itemName) os") (auto simp: find_None_iff)
  have first: "param_round lib node True True no_options [p] (Some (JObj fs)) None rec 0 init_params = Inl TypeError" for rec
    using p v d os x by (simp add: param_round_def simple_step_def Let_def value_at_def field_of_def truthy_at_def is_collection_def
        no_options_def complex_step_def fixed_step_def object_entries_def single_item_def)
  show ?thesis
    by (subst getNodeParameters.simps) (simp add: Let_def or_else_def no_options_def[THEN arg_cong[where f = po_parameterDependencies]] order first)
qed

lemma fixed_collection_default_throws_witness:
  "getNodeParameters sample_lib sample_param_node True True no_options
     [Property ''range'' PtFixedCollection (Some (JObj [(''bounds'', JObj [])])) no_extras
       (Some [OptionCollection ''bounds'' [Property ''from'' PtNumber (Some (JNum 0)) no_extras None]])]
     (Some (JObj [])) = Inl TypeError"
  by (rule fixed_collection_default_throws) (auto simp: rule_names_def no_extras_def)

end
