(* ===== verification/FieldValidation.thy ===== *)
theory FieldValidation
  imports Parameters
begin

text \<open>
  Validation and conversion of values by field type (\<^verbatim>\<open>packages/workflow/src/type-validation.ts\<close>), with
  \<open>jsonParse\<close> of \<^verbatim>\<open>packages/workflow/src/utils.ts\<close> and the guards of \<^verbatim>\<open>packages/workflow/src/type-guards.ts\<close>.

  The regular expressions of the source are values of a data type of regular expressions, re_matched by
  derivatives. What JavaScript and its libraries do with values (\<open>Number\<close>, \<open>String\<close>, \<open>JSON\<close>, the parsers
  of luxon and esprima) is an argument, the record \<open>ValidationLib\<close>.
\<close>

section \<open>Regular expressions\<close>

datatype regex =
    REmpty | REps | RChar "char \<Rightarrow> bool" | RSeq regex regex | RAlt regex regex | RStar regex

fun nullable :: "regex \<Rightarrow> bool" where
  "nullable REmpty = False"
| "nullable REps = True"
| "nullable (RChar p) = False"
| "nullable (RSeq r s) = (nullable r \<and> nullable s)"
| "nullable (RAlt r s) = (nullable r \<or> nullable s)"
| "nullable (RStar r) = True"

fun derivative :: "char \<Rightarrow> regex \<Rightarrow> regex" where
  "derivative c REmpty = REmpty"
| "derivative c REps = REmpty"
| "derivative c (RChar p) = (if p c then REps else REmpty)"
| "derivative c (RSeq r s) =
     (if nullable r then RAlt (RSeq (derivative c r) s) (derivative c s) else RSeq (derivative c r) s)"
| "derivative c (RAlt r s) = RAlt (derivative c r) (derivative c s)"
| "derivative c (RStar r) = RSeq (derivative c r) (RStar r)"

fun regex_test :: "regex \<Rightarrow> string \<Rightarrow> bool" where
  "regex_test r [] = nullable r"
| "regex_test r (c # cs) = regex_test (derivative c r) cs"

text \<open>What the expressions mean.\<close>

inductive re_matched :: "regex \<Rightarrow> string \<Rightarrow> bool" where
  eps: "re_matched REps []"
| char: "p c \<Longrightarrow> re_matched (RChar p) [c]"
| seq: "re_matched r u \<Longrightarrow> re_matched s v \<Longrightarrow> re_matched (RSeq r s) (u @ v)"
| alt_left: "re_matched r u \<Longrightarrow> re_matched (RAlt r s) u"
| alt_right: "re_matched s u \<Longrightarrow> re_matched (RAlt r s) u"
| star_empty: "re_matched (RStar r) []"
| star_more: "re_matched r u \<Longrightarrow> u \<noteq> [] \<Longrightarrow> re_matched (RStar r) v \<Longrightarrow> re_matched (RStar r) (u @ v)"

inductive_simps re_matched_simps [simp]:
  "re_matched REmpty u" "re_matched REps u" "re_matched (RChar p) u" "re_matched (RAlt r s) u"

inductive_cases re_matched_seqE: "re_matched (RSeq r s) u"

lemma nullable_matched: "nullable r \<longleftrightarrow> re_matched r []"
  by (induction r) (auto elim: re_matched_seqE intro: re_matched.seq[of _ "[]" _ "[]", simplified] re_matched.star_empty)



fun rseqs :: "regex list \<Rightarrow> regex" where
  "rseqs [] = REps"
| "rseqs [r] = r"
| "rseqs (r # rs) = RSeq r (rseqs rs)"

definition rword :: "string \<Rightarrow> regex" where
  "rword s = rseqs (map (\<lambda>c. RChar (\<lambda>d. d = c)) s)"

definition ropt :: "regex \<Rightarrow> regex" where
  "ropt r = RAlt r REps"

definition rplus :: "regex \<Rightarrow> regex" where
  "rplus r = RSeq r (RStar r)"

definition rany :: regex where
  "rany = RStar (RChar (\<lambda>_. True))"

definition in_range :: "char \<Rightarrow> char \<Rightarrow> char \<Rightarrow> bool" where
  "in_range a b c \<longleftrightarrow> (of_char a :: nat) \<le> of_char c \<and> (of_char c :: nat) \<le> of_char b"

definition is_digit :: "char \<Rightarrow> bool" where
  "is_digit = in_range (CHR ''0'') (CHR ''9'')"

definition is_letter :: "char \<Rightarrow> bool" where
  "is_letter c \<longleftrightarrow> in_range (CHR ''a'') (CHR ''z'') c \<or> in_range (CHR ''A'') (CHR ''Z'') c"

text \<open>\<open>\s\<close> of JavaScript, within the characters of the model.\<close>

definition is_space :: "char \<Rightarrow> bool" where
  "is_space c \<longleftrightarrow> (of_char c :: nat) \<in> {9, 10, 11, 12, 13, 32, 160}"

definition re_alphanumeric :: regex where
  "re_alphanumeric = RSeq (RChar (\<lambda>c. is_letter c \<or> c = CHR ''_''))
     (RStar (RChar (\<lambda>c. is_letter c \<or> is_digit c \<or> c = CHR ''_'')))"

abbreviation re_digit :: regex where "re_digit \<equiv> RChar is_digit"
abbreviation re_sign :: regex where "re_sign \<equiv> RChar (\<lambda>c. c = CHR ''-'' \<or> c = CHR ''+'')"

definition re_colon_digits :: regex where
  "re_colon_digits = rseqs [RChar (\<lambda>c. c = CHR '':''), re_digit, re_digit]"

definition re_time :: regex where
  "re_time = rseqs [re_digit, re_digit, re_colon_digits, ropt re_colon_digits,
     ropt (rseqs [re_sign, re_digit, re_digit, re_digit, re_digit]),
     ropt (rseqs [re_sign, re_digit, ropt re_digit, ropt re_colon_digits])]"

definition re_url :: regex where
  "re_url = RAlt
     (rseqs [RAlt (RSeq (rword ''http'') (ropt (rword ''s''))) (RAlt (rword ''ftp'') (rword ''file'')), rword ''://'',
        RChar (\<lambda>c. \<not> is_space c), rany])
     (rseqs [rany, rword ''www.'', RChar (\<lambda>c. \<not> is_space c), rany])"

definition is_base64url :: "char \<Rightarrow> bool" where
  "is_base64url c \<longleftrightarrow> is_letter c \<or> is_digit c \<or> c = CHR ''-'' \<or> c = CHR ''_''"

definition re_jwt :: regex where
  "re_jwt = rseqs [rplus (RChar is_base64url), rword ''.'', rplus (RChar is_base64url), rword ''.'',
     RStar (RChar (\<lambda>c. is_base64url c \<or> c \<in> {CHR ''.'', CHR ''+'', CHR ''/'', CHR ''=''}))]"

section \<open>Values\<close>

text \<open>
  The values that are validated: \<open>undefined\<close>, JSON values, \<open>NaN\<close>, and dates (\<open>Date\<close> and \<open>DateTime\<close>, which are
  valid) by their milliseconds.
\<close>

datatype field_value = Undef | Js json | NotANumber | DateValue rat

text \<open>The part of a syntax tree of esprima that is read.\<close>

datatype SyntaxNode =
    ObjectExpression "(SyntaxNode \<times> SyntaxNode) list"
  | Identifier string
  | Literal json
  | ArrayExpression "SyntaxNode list"
  | OtherNode

record ValidationLib =
  vl_Number :: "field_value \<Rightarrow> rat option"
  vl_String :: "field_value \<Rightarrow> string"
  vl_stringify :: "field_value \<Rightarrow> string"
  vl_parse :: "string \<Rightarrow> json option"
  vl_esprima :: "string \<Rightarrow> SyntaxNode list option"
  vl_lower :: "string \<Rightarrow> string"
  vl_upper :: "string \<Rightarrow> string"
  vl_trim :: "string \<Rightarrow> string"
  vl_dates :: "(string \<Rightarrow> rat option) list"
  vl_match :: "string \<Rightarrow> string \<Rightarrow> string \<Rightarrow> bool result"

definition of_json :: "json option \<Rightarrow> field_value" where
  "of_json v = (case v of None \<Rightarrow> Undef | Some j \<Rightarrow> Js j)"

definition js_typeof :: "field_value \<Rightarrow> string" where
  "js_typeof v = (case v of
     Undef \<Rightarrow> ''undefined''
   | Js (JBool _) \<Rightarrow> ''boolean''
   | Js (JNum _) \<Rightarrow> ''number''
   | Js (JStr _) \<Rightarrow> ''string''
   | NotANumber \<Rightarrow> ''number''
   | _ \<Rightarrow> ''object'')"

definition truthy_value :: "field_value \<Rightarrow> bool" where
  "truthy_value v = (case v of Undef \<Rightarrow> False | NotANumber \<Rightarrow> False | Js j \<Rightarrow> truthy j | DateValue _ \<Rightarrow> True)"

section \<open>Parsing of JSON\<close>

text \<open>
  Properties of an object are given with their key and value, other members of an object expression are
  left out; \<open>undefined\<close> is no field of an object, and stands as \<open>null\<close> in an array.
\<close>

fun node_key :: "ValidationLib \<Rightarrow> json option \<Rightarrow> string" where
  "node_key lib v = vl_String lib (of_json v)"

fun syntaxNodeToValue :: "ValidationLib \<Rightarrow> SyntaxNode \<Rightarrow> json option" where
  "syntaxNodeToValue lib (ObjectExpression ps) = Some (JObj
     (fold (\<lambda>(k, v) m. case v of None \<Rightarrow> js_del k m | Some j \<Rightarrow> js_put k j m)
       (map (\<lambda>(k, v). (node_key lib (syntaxNodeToValue lib k), syntaxNodeToValue lib v)) ps) []))"
| "syntaxNodeToValue lib (Identifier s) = Some (JStr s)"
| "syntaxNodeToValue lib (Literal j) = Some j"
| "syntaxNodeToValue lib (ArrayExpression ns) = Some (JArr (map (\<lambda>n. or_else (syntaxNodeToValue lib n) JNull) ns))"
| "syntaxNodeToValue lib OtherNode = None"

definition parseJSObject :: "ValidationLib \<Rightarrow> string \<Rightarrow> json option option" where
  "parseJSObject lib s = (case vl_esprima lib (''('' @ s @ '')'') of
     None \<Rightarrow> None
   | Some body \<Rightarrow> Some (case find (\<lambda>n. case n of ObjectExpression _ \<Rightarrow> True | _ \<Rightarrow> False) body of
        None \<Rightarrow> None
      | Some n \<Rightarrow> syntaxNodeToValue lib n))"

text \<open>\<open>None\<close> is the error that \<open>JSON.parse\<close> threw.\<close>

record JSONParseOptions =
  jo_acceptJSObject :: bool
  jo_errorMessage :: "string option"
  jo_fallbackValue :: "json option"

definition jsonParse :: "ValidationLib \<Rightarrow> string \<Rightarrow> JSONParseOptions \<Rightarrow> json option result option" where
  "jsonParse lib s options = (case vl_parse lib s of
     Some j \<Rightarrow> Some (Inr (Some j))
   | None \<Rightarrow>
     (case (if jo_acceptJSObject options then parseJSObject lib s else None) of
        Some v \<Rightarrow> Some (Inr v)
      | None \<Rightarrow>
          (case jo_fallbackValue options of
             Some v \<Rightarrow> Some (Inr (Some v))
           | None \<Rightarrow> (case jo_errorMessage options of
                Some (m # ms) \<Rightarrow> Some (Inl (ApplicationError (m # ms)))
              | _ \<Rightarrow> None))))"

definition js_object_options :: JSONParseOptions where
  "js_object_options = \<lparr>jo_acceptJSObject = True, jo_errorMessage = None, jo_fallbackValue = None\<rparr>"

section \<open>Parsing of values\<close>

text \<open>A value, or the message of the error.\<close>

type_synonym 'a parsed = "string + 'a"

definition tryToParseNumber :: "ValidationLib \<Rightarrow> field_value \<Rightarrow> rat parsed" where
  "tryToParseNumber lib v = (case vl_Number lib v of
     None \<Rightarrow> Inl ''Failed to parse value to number'' | Some n \<Rightarrow> Inr n)"

definition tryToParseString :: "ValidationLib \<Rightarrow> field_value \<Rightarrow> string" where
  "tryToParseString lib v =
     (if js_typeof v = ''object'' then vl_stringify lib v
      else if v = Undef then [] else vl_String lib v)"

definition tryToParseAlphanumericString :: "ValidationLib \<Rightarrow> field_value \<Rightarrow> string parsed" where
  "tryToParseAlphanumericString lib v = (let s = tryToParseString lib v
     in if regex_test re_alphanumeric s then Inr s else Inl ''Value is not a valid alphanumeric string'')"

definition tryToParseBoolean :: "ValidationLib \<Rightarrow> field_value \<Rightarrow> bool parsed" where
  "tryToParseBoolean lib v =
     (let by_number = (if vl_Number lib v = Some 0 then Inr False else if vl_Number lib v = Some 1 then Inr True
          else Inl ''Failed to parse value as boolean'')
      in case v of
        Js (JBool b) \<Rightarrow> Inr b
      | Js (JStr s) \<Rightarrow>
          if vl_lower lib s = ''true'' then Inr True
          else if vl_lower lib s = ''false'' then Inr False
          else if vl_trim lib s \<noteq> [] then by_number
          else Inl ''Failed to parse value as boolean''
      | _ \<Rightarrow> by_number)"

text \<open>The parsers of luxon are tried in their order.\<close>

fun first_parsed :: "(string \<Rightarrow> 'a option) list \<Rightarrow> string \<Rightarrow> 'a option" where
  "first_parsed [] s = None"
| "first_parsed (f # fs) s = (case f s of Some x \<Rightarrow> Some x | None \<Rightarrow> first_parsed fs s)"

definition tryToParseDateTime :: "ValidationLib \<Rightarrow> field_value \<Rightarrow> rat parsed" where
  "tryToParseDateTime lib v = (case v of
     DateValue d \<Rightarrow> Inr d
   | _ \<Rightarrow> (case first_parsed (vl_dates lib) (vl_trim lib (vl_String lib v)) of
        None \<Rightarrow> Inl ''Value is not a valid date'' | Some d \<Rightarrow> Inr d))"

definition tryToParseTime :: "ValidationLib \<Rightarrow> field_value \<Rightarrow> string parsed" where
  "tryToParseTime lib v =
     (if regex_test re_time (vl_String lib v) then Inr (vl_String lib v) else Inl ''Value is not a valid time'')"

definition double_quotes :: "string \<Rightarrow> string" where
  "double_quotes s = map (\<lambda>c. if c = CHR 39 then CHR ''\"'' else c) s"

definition tryToParseArray :: "ValidationLib \<Rightarrow> field_value \<Rightarrow> json list parsed" where
  "tryToParseArray lib v = (case v of
     Js (JArr xs) \<Rightarrow> Inr xs
   | _ \<Rightarrow>
     let s = vl_String lib v;
         parsed = (case vl_parse lib s of Some j \<Rightarrow> Some j | None \<Rightarrow> vl_parse lib (double_quotes s))
     in case parsed of Some (JArr xs) \<Rightarrow> Inr xs | _ \<Rightarrow> Inl ''Value is not a valid array'')"

text \<open>\<open>typeof null\<close> is \<open>'object'\<close>: the text \<open>null\<close> parses as an object.\<close>

definition tryToParseObject :: "ValidationLib \<Rightarrow> field_value \<Rightarrow> field_value parsed" where
  "tryToParseObject lib v =
     (case v of
        Js (JObj fs) \<Rightarrow> Inr (Js (JObj fs))
      | DateValue d \<Rightarrow> Inr (DateValue d)
      | _ \<Rightarrow> (case jsonParse lib (vl_String lib v) js_object_options of
           Some (Inr (Some (JObj fs))) \<Rightarrow> Inr (Js (JObj fs))
         | Some (Inr (Some JNull)) \<Rightarrow> Inr (Js JNull)
         | _ \<Rightarrow> Inl ''Value is not a valid object''))"

definition tryToParseUrl :: "ValidationLib \<Rightarrow> field_value \<Rightarrow> string parsed" where
  "tryToParseUrl lib v =
     (let v = (case v of Js (JStr s) \<Rightarrow> if is_infix ''://'' s then v else Js (JStr (''http://'' @ s)) | _ \<Rightarrow> v);
          s = vl_String lib v
      in if regex_test re_url s then Inr s
         else Inl (''The value \"'' @ s @ ''\" is not a valid url.''))"

definition tryToParseJwt :: "ValidationLib \<Rightarrow> field_value \<Rightarrow> string parsed" where
  "tryToParseJwt lib v =
     (if truthy_value v \<and> regex_test re_jwt (vl_String lib v) then Inr (vl_String lib v)
      else Inl (''The value \"'' @ vl_String lib v @ ''\" is not a valid JWT token.''))"

section \<open>Form fields\<close>

definition ALLOWED_FORM_FIELDS_KEYS :: "string list" where
  "ALLOWED_FORM_FIELDS_KEYS = [''fieldLabel'', ''fieldType'', ''placeholder'', ''fieldOptions'', ''multiselect'',
     ''multipleFiles'', ''acceptFileTypes'', ''formatDate'', ''requiredField'']"

definition ALLOWED_FIELD_TYPES :: "string list" where
  "ALLOWED_FIELD_TYPES = [''date'', ''dropdown'', ''email'', ''file'', ''number'', ''password'', ''text'', ''textarea'']"

definition not_valid_json :: string where
  "not_valid_json = ''Value is not valid JSON''"

definition escape_html :: "string \<Rightarrow> string" where
  "escape_html s = concat (map (\<lambda>c. if c = CHR ''<'' then ''&lt;'' else if c = CHR ''>'' then ''&gt;'' else [c]) s)"

definition is_scalar :: "json \<Rightarrow> bool" where
  "is_scalar j = (case j of JBool _ \<Rightarrow> True | JNum _ \<Rightarrow> True | JStr _ \<Rightarrow> True | _ \<Rightarrow> False)"

fun dropdown_options_valid :: "nat \<Rightarrow> nat \<Rightarrow> json list \<Rightarrow> unit parsed" where
  "dropdown_options_valid index i [] = Inr ()"
| "dropdown_options_valid index i (x # xs) =
     (if x = JNull then Inl not_valid_json
      else case x of
        JObj [(k, JStr s)] \<Rightarrow>
          if k = ''option'' then dropdown_options_valid index (Suc i) xs
          else Inl (''Field dropdown in field '' @ nat_str index @ '' has an invalid option '' @ nat_str i)
      | _ \<Rightarrow> Inl (''Field dropdown in field '' @ nat_str index @ '' has an invalid option '' @ nat_str i))"

definition field_options :: "nat \<Rightarrow> json \<Rightarrow> json parsed" where
  "field_options index j =
     (let j = (case j of JArr xs \<Rightarrow> JObj [(''values'', JArr xs)] | _ \<Rightarrow> j);
          no_values = Inl (''Field dropdown in field '' @ nat_str index
            @ '' does has no 'values' property that contain an array of options'')
      in case j of
        JNull \<Rightarrow> Inl not_valid_json
      | JObj fs \<Rightarrow>
          if \<not> truthy_at (map_of fs ''values'') then no_values
          else (case the (map_of fs ''values'') of
             JArr xs \<Rightarrow> (case dropdown_options_valid index 0 xs of Inl m \<Rightarrow> Inl m | Inr _ \<Rightarrow> Inr j)
           | _ \<Rightarrow> Inl not_valid_json)
      | _ \<Rightarrow> no_values)"

definition form_field_value :: "ValidationLib \<Rightarrow> nat \<Rightarrow> string \<Rightarrow> json \<Rightarrow> json parsed" where
  "form_field_value lib index key j =
     (if key \<notin> set ALLOWED_FORM_FIELDS_KEYS
      then Inl (''Key '' @ [CHR 39] @ key @ [CHR 39] @ '' in field '' @ nat_str index @ '' is not valid for form fields'')
      else
        let j = (if key \<noteq> ''fieldOptions'' \<and> \<not> is_scalar j then JStr (vl_String lib (Js j))
                 else case j of JStr s \<Rightarrow> JStr (escape_html s) | _ \<Rightarrow> j)
        in if key = ''fieldType'' \<and> j \<notin> JStr ` set ALLOWED_FIELD_TYPES
           then Inl (''Field type '' @ [CHR 39] @ vl_String lib (Js j) @ [CHR 39] @ '' in field '' @ nat_str index
             @ '' is not valid for form fields'')
           else if key = ''fieldOptions'' then field_options index j
           else Inr j)"

fun form_field :: "ValidationLib \<Rightarrow> nat \<Rightarrow> (string \<times> json) list \<Rightarrow> (string \<times> json) list parsed" where
  "form_field lib index [] = Inr []"
| "form_field lib index ((k, j) # fs) = (case form_field_value lib index k j of
     Inl m \<Rightarrow> Inl m
   | Inr w \<Rightarrow> (case form_field lib index fs of Inl m \<Rightarrow> Inl m | Inr rest \<Rightarrow> Inr ((k, w) # rest)))"

text \<open>
  A field that is a string or an array has its indexes as keys, of which none is allowed; one without keys
  is taken as it is, \<open>null\<close> throws.
\<close>

fun form_fields :: "ValidationLib \<Rightarrow> nat \<Rightarrow> json list \<Rightarrow> json list parsed" where
  "form_fields lib index [] = Inr []"
| "form_fields lib index (x # xs) =
     (case (case x of
        JNull \<Rightarrow> Inl not_valid_json
      | JObj fs \<Rightarrow> (case form_field lib index fs of Inl m \<Rightarrow> Inl m | Inr gs \<Rightarrow> Inr (JObj gs))
      | JStr (_ # _) \<Rightarrow> Inl (''Key '' @ [CHR 39] @ ''0'' @ [CHR 39] @ '' in field '' @ nat_str index @ '' is not valid for form fields'')
      | JArr (_ # _) \<Rightarrow> Inl (''Key '' @ [CHR 39] @ ''0'' @ [CHR 39] @ '' in field '' @ nat_str index @ '' is not valid for form fields'')
      | _ \<Rightarrow> Inr x) of
      Inl m \<Rightarrow> Inl m
    | Inr y \<Rightarrow> (case form_fields lib (Suc index) xs of Inl m \<Rightarrow> Inl m | Inr ys \<Rightarrow> Inr (y # ys)))"

definition tryToParseJsonToFormFields :: "ValidationLib \<Rightarrow> field_value \<Rightarrow> json list parsed" where
  "tryToParseJsonToFormFields lib v = (case jsonParse lib (vl_String lib v) js_object_options of
     Some (Inr (Some (JArr xs))) \<Rightarrow> form_fields lib 0 xs
   | _ \<Rightarrow> Inl not_valid_json)"

section \<open>\<open>validateFieldType\<close>\<close>

datatype FieldType =
    FtBoolean | FtNumber | FtString | FtAlphanumeric | FtDateTime | FtTime | FtArray | FtObject | FtOptions
  | FtUrl | FtJwt | FtFormFields | FtOther string

fun field_type_name :: "FieldType \<Rightarrow> string" where
  "field_type_name FtBoolean = ''boolean''"
| "field_type_name FtNumber = ''number''"
| "field_type_name FtString = ''string''"
| "field_type_name FtAlphanumeric = ''string-alphanumeric''"
| "field_type_name FtDateTime = ''dateTime''"
| "field_type_name FtTime = ''time''"
| "field_type_name FtArray = ''array''"
| "field_type_name FtObject = ''object''"
| "field_type_name FtOptions = ''options''"
| "field_type_name FtUrl = ''url''"
| "field_type_name FtJwt = ''jwt''"
| "field_type_name FtFormFields = ''form-fields''"
| "field_type_name (FtOther s) = s"

datatype ValidationResult = Invalid string | Valid field_value

record ValidateFieldTypeOptions =
  vo_valueOptions :: "PropertyOption list"
  vo_strict :: bool
  vo_parseStrings :: bool

definition quoted :: "string \<Rightarrow> string" where
  "quoted s = [CHR 39] @ s @ [CHR 39]"

definition getValueDescription :: "ValidationLib \<Rightarrow> field_value \<Rightarrow> string" where
  "getValueDescription lib v =
     (if js_typeof v = ''object''
      then (case v of Js JNull \<Rightarrow> quoted ''null'' | Js (JArr _) \<Rightarrow> ''array'' | _ \<Rightarrow> ''object'')
      else quoted (vl_String lib v))"

definition option_value :: "PropertyOption \<Rightarrow> json option" where
  "option_value x = (case x of OptionValue nm v a \<Rightarrow> Some v | _ \<Rightarrow> None)"

definition validated :: "('a \<Rightarrow> field_value) \<Rightarrow> string \<Rightarrow> 'a parsed \<Rightarrow> ValidationResult" where
  "validated value message r = (case r of Inl _ \<Rightarrow> Invalid message | Inr x \<Rightarrow> Valid (value x))"

fun join_with :: "string \<Rightarrow> string list \<Rightarrow> string" where
  "join_with sep [] = []"
| "join_with sep [s] = s"
| "join_with sep (s # ss) = s @ sep @ join_with sep ss"

definition luxon_hint :: string where
  "luxon_hint = '' <br/><br/> Consider using <a href=\"https://moment.github.io/luxon/api-docs/index.html#datetimefromformat\" target=\"_blank\"><code>DateTime.fromFormat</code></a> to work with custom date formats.''"

definition validateFieldType :: "ValidationLib \<Rightarrow> string \<Rightarrow> field_value \<Rightarrow> FieldType \<Rightarrow> ValidateFieldTypeOptions \<Rightarrow> ValidationResult" where
  "validateFieldType lib fieldName v ty opts =
     (if v = Undef \<or> v = Js JNull then Valid Undef
      else
        let strict = vo_strict opts;
            message = quoted fieldName @ '' expects a '' @ field_type_name ty @ '' but we got '' @ getValueDescription lib v
        in case ty of
          FtString \<Rightarrow>
            if \<not> vo_parseStrings opts then Valid v
            else if strict \<and> js_typeof v \<noteq> ''string'' then Invalid message
            else Valid (Js (JStr (tryToParseString lib v)))
        | FtAlphanumeric \<Rightarrow>
            validated (Js \<circ> JStr) ''Value is not a valid alphanumeric string, only letters, numbers and underscore allowed''
              (tryToParseAlphanumericString lib v)
        | FtNumber \<Rightarrow>
            if strict \<and> js_typeof v \<noteq> ''number'' then Invalid message
            else validated (Js \<circ> JNum) message (tryToParseNumber lib v)
        | FtBoolean \<Rightarrow>
            if strict \<and> js_typeof v \<noteq> ''boolean'' then Invalid message
            else validated (Js \<circ> JBool) message (tryToParseBoolean lib v)
        | FtDateTime \<Rightarrow> validated DateValue (message @ luxon_hint) (tryToParseDateTime lib v)
        | FtTime \<Rightarrow>
            validated (Js \<circ> JStr) (quoted fieldName @ '' expects time (hh:mm:(:ss)) but we got '' @ getValueDescription lib v @ ''.'')
              (tryToParseTime lib v)
        | FtObject \<Rightarrow>
            if strict \<and> js_typeof v \<noteq> ''object'' then Invalid message
            else validated id message (tryToParseObject lib v)
        | FtArray \<Rightarrow>
            if strict \<and> \<not> (case v of Js (JArr _) \<Rightarrow> True | _ \<Rightarrow> False) then Invalid message
            else validated (Js \<circ> JArr) message (tryToParseArray lib v)
        | FtOptions \<Rightarrow>
            if \<exists>x \<in> set (vo_valueOptions opts). \<exists>j. v = Js j \<and> same_value (option_value x) (Some j) then Valid v
            else Invalid (quoted fieldName @ '' expects one of the following values: [''
              @ join_with '', '' (map (\<lambda>x. case option_value x of None \<Rightarrow> [] | Some j \<Rightarrow> vl_String lib (Js j)) (vo_valueOptions opts))
              @ ''] but we got '' @ getValueDescription lib v)
        | FtUrl \<Rightarrow> validated (Js \<circ> JStr) message (tryToParseUrl lib v)
        | FtJwt \<Rightarrow> validated (Js \<circ> JStr) ''Value is not a valid JWT token'' (tryToParseJwt lib v)
        | FtFormFields \<Rightarrow> (case tryToParseJsonToFormFields lib v of Inl m \<Rightarrow> Invalid m | Inr xs \<Rightarrow> Valid (Js (JArr xs)))
        | FtOther _ \<Rightarrow> Valid v)"

section \<open>Properties\<close>



lemma validated_Valid [simp]: "validated f m r = Valid w \<longleftrightarrow> (\<exists>x. r = Inr x \<and> w = f x)"
  by (auto simp: validated_def split: sum.split)

lemma validated_Invalid [simp]: "validated f m r = Invalid n \<longleftrightarrow> (\<exists>e. r = Inl e) \<and> n = m"
  by (auto simp: validated_def split: sum.split)



text \<open>A library for the examples.\<close>

definition sample_vlib :: ValidationLib where
  "sample_vlib = \<lparr>vl_Number = (\<lambda>v. case v of Js (JNum n) \<Rightarrow> Some n | _ \<Rightarrow> None),
     vl_String = (\<lambda>v. case v of Js (JStr s) \<Rightarrow> s | _ \<Rightarrow> []), vl_stringify = (\<lambda>_. []),
     vl_parse = (\<lambda>s. if s = ''null'' then Some JNull else None), vl_esprima = (\<lambda>_. None), vl_lower = (\<lambda>s. s), vl_upper = (\<lambda>s. s),
     vl_trim = (\<lambda>s. s), vl_dates = [], vl_match = (\<lambda>_ _ _. Inr False)\<rparr>"

definition field_options_default :: ValidateFieldTypeOptions where
  "field_options_default = \<lparr>vo_valueOptions = [], vo_strict = False, vo_parseStrings = False\<rparr>"


lemma jwt_not_empty [simp]: "\<not> re_matched re_jwt []"
  by (simp add: nullable_matched[symmetric] re_jwt_def rplus_def)

lemma url_scheme [simp]: "is_infix ''://'' (''http://'' @ s)"
  by simp




text \<open>What strict validation accepts, loose validation accepts too, with the same result.\<close>

theorem strict_accepts_less:
  assumes "validateFieldType lib fieldName v ty (opts\<lparr>vo_strict := True\<rparr>) = Valid w"
  shows "validateFieldType lib fieldName v ty (opts\<lparr>vo_strict := False\<rparr>) = Valid w"
  using assms by (cases ty) (auto simp: validateFieldType_def Let_def split: if_splits)

lemma strict_accepts_less_witness:
  "validateFieldType sample_vlib ''b'' (Js (JBool True)) FtBoolean (field_options_default\<lparr>vo_strict := False\<rparr>) = Valid (Js (JBool True))"
  by (rule strict_accepts_less)
    (simp add: validateFieldType_def tryToParseBoolean_def field_options_default_def js_typeof_def ex_bool_eq)

text \<open>The text \<open>null\<close> is accepted as an object, and converted to \<open>null\<close>.\<close>

theorem null_text_is_object:
  assumes "vl_parse lib ''null'' = Some JNull" "vl_String lib (Js (JStr ''null'')) = ''null''" "\<not> vo_strict opts"
  shows "validateFieldType lib fieldName (Js (JStr ''null'')) FtObject opts = Valid (Js JNull)"
  using assms by (simp add: validateFieldType_def tryToParseObject_def jsonParse_def)

lemma null_text_is_object_witness:
  "validateFieldType sample_vlib ''filter'' (Js (JStr ''null'')) FtObject field_options_default = Valid (Js JNull)"
  by (rule null_text_is_object) (simp_all add: sample_vlib_def field_options_default_def)

end
