(* ===== verification/FilterParameter.thy ===== *)
theory FilterParameter
  imports FieldValidation
begin

text \<open>
  Conditions of the filter parameter (\<^verbatim>\<open>packages/workflow/src/node-parameters/filter-parameter.ts\<close>): the
  conversion of their two values, the operations, and the combination of conditions.
\<close>

section \<open>Data\<close>

datatype FilterOperatorType = OpString | OpNumber | OpBoolean | OpArray | OpObject | OpDateTime | OpAny

fun operator_field_type :: "FilterOperatorType \<Rightarrow> FieldType" where
  "operator_field_type OpString = FtString"
| "operator_field_type OpNumber = FtNumber"
| "operator_field_type OpBoolean = FtBoolean"
| "operator_field_type OpArray = FtArray"
| "operator_field_type OpObject = FtObject"
| "operator_field_type OpDateTime = FtDateTime"
| "operator_field_type OpAny = FtOther ''any''"

record FilterOperatorValue =
  fo_type :: FilterOperatorType
  fo_operation :: string
  fo_rightType :: "FilterOperatorType option"
  fo_singleValue :: bool

record FilterConditionValue =
  fc_leftValue :: field_value
  fc_operator :: FilterOperatorValue
  fc_rightValue :: field_value

record FilterOptionsValue =
  fp_caseSensitive :: bool
  fp_strict :: bool
  fp_version :: "nat option"

record FilterValue =
  fv_options :: FilterOptionsValue
  fv_conditions :: "FilterConditionValue list"
  fv_combinator :: string

record FilterConditionMetadata =
  fm_index :: "nat option"
  fm_unresolvedExpressions :: bool
  fm_itemIndex :: "nat option"
  fm_inline :: bool

record FilterError =
  fe_message :: string
  fe_description :: string

section \<open>Conversion of the values\<close>

definition filter_options :: "bool \<Rightarrow> ValidateFieldTypeOptions" where
  "filter_options strict = \<lparr>vo_valueOptions = [], vo_strict = strict, vo_parseStrings = True\<rparr>"

definition parseSingleFilterValue :: "ValidationLib \<Rightarrow> field_value \<Rightarrow> FilterOperatorType \<Rightarrow> bool \<Rightarrow> nat \<Rightarrow> ValidationResult" where
  "parseSingleFilterValue lib v ty strict version =
     (if ty = OpAny \<or> v = Js JNull \<or> v = Undef then Valid v
      else if ty = OpBoolean \<and> \<not> strict
      then (case (if 2 \<le> version then validateFieldType lib ''filter'' v FtBoolean field_options_default else Invalid []) of
          Valid w \<Rightarrow> Valid w
        | Invalid _ \<Rightarrow> Valid (Js (JBool (truthy_value v))))
      else if ty = OpNumber \<and> v = NotANumber then Valid v
      else validateFieldType lib ''filter'' v (operator_field_type ty) (filter_options strict))"

definition withIndefiniteArticle :: "string \<Rightarrow> string" where
  "withIndefiniteArticle noun =
     (if is_infix (take 1 noun) ''aeiou'' then ''an '' else ''a '') @ noun"

definition composeInvalidTypeMessage :: "ValidationLib \<Rightarrow> bool \<Rightarrow> string \<Rightarrow> string \<Rightarrow> string \<Rightarrow> string \<Rightarrow> string" where
  "composeInvalidTypeMessage lib strict suffix type from v =
     (let from = vl_lower lib from
      in if strict
         then ''Wrong type: '' @ quoted v @ '' is '' @ withIndefiniteArticle from @ '' but was expecting ''
           @ withIndefiniteArticle type @ '' '' @ suffix
         else ''Conversion error: the '' @ from @ '' '' @ quoted v @ '' can't be converted to ''
           @ withIndefiniteArticle type @ '' '' @ suffix)"

definition getTypeDescription :: "bool \<Rightarrow> string" where
  "getTypeDescription strict =
     (if strict then ''Try changing the type of comparison. Alternatively you can enable 'Convert types where required'.''
      else ''Try changing the type of the comparison.'')"

definition composeInvalidTypeDescription :: "bool \<Rightarrow> string \<Rightarrow> string \<Rightarrow> string" where
  "composeInvalidTypeDescription strict type position =
     (let conversion = (if type = ''string'' then ''.toString()'' else if type = ''number'' then ''.toNumber()''
          else if type = ''boolean'' then ''.toBoolean()'' else []); newline = [CHR 10]
      in if strict \<and> conversion \<noteq> []
         then newline @ ''<p>Try either:</p>'' @ newline @ ''<ol>'' @ newline
           @ ''  <li>Enabling 'Convert types where required'</li>'' @ newline
           @ ''  <li>Converting the '' @ position @ '' field to '' @ withIndefiniteArticle type
           @ '' by adding <code>'' @ conversion @ ''</code></li>'' @ newline @ ''</ol>'' @ newline @ [CHR 9, CHR 9, CHR 9]
         else getTypeDescription strict)"

definition is_valid :: "ValidationResult \<Rightarrow> bool" where
  "is_valid r = (case r of Valid _ \<Rightarrow> True | Invalid _ \<Rightarrow> False)"

definition new_value :: "ValidationResult \<Rightarrow> field_value" where
  "new_value r = (case r of Valid v \<Rightarrow> v | Invalid _ \<Rightarrow> Undef)"

definition unresolved_value :: "FilterConditionMetadata \<Rightarrow> field_value \<Rightarrow> bool" where
  "unresolved_value metadata v \<longleftrightarrow> fm_unresolvedExpressions metadata
     \<and> (case v of Js (JStr s) \<Rightarrow> has_prefix ''='' s | _ \<Rightarrow> False)"

text \<open>The error is returned, not thrown.\<close>

definition parseFilterConditionValues :: "ValidationLib \<Rightarrow> FilterConditionValue \<Rightarrow> FilterOptionsValue \<Rightarrow> FilterConditionMetadata
    \<Rightarrow> FilterError + (field_value \<times> field_value)" where
  "parseFilterConditionValues lib condition options metadata =
     (let index = or_else (fm_index metadata) 0; itemIndex = or_else (fm_itemIndex metadata) 0;
          strict = fp_strict options; version = or_else (fp_version options) 1;
          operator = fc_operator condition; rightType = or_else (fo_rightType operator) (fo_type operator);
          leftValue = fc_leftValue condition; rightValue = fc_rightValue condition;
          parsedLeft = parseSingleFilterValue lib leftValue (fo_type operator) strict version;
          parsedRight = parseSingleFilterValue lib rightValue rightType strict version;
          leftValid = (is_valid parsedLeft \<or> unresolved_value metadata leftValue);
          rightValid = (is_valid parsedRight \<or> fo_singleValue operator \<or> unresolved_value metadata rightValue);
          suffix = (if \<not> fm_inline metadata
            then ''[condition '' @ nat_str index @ '', item '' @ nat_str itemIndex @ '']'' else ''[item '' @ nat_str itemIndex @ '']'');
          type_name = (\<lambda>ty. field_type_name (operator_field_type ty))
      in if \<not> leftValid \<and> \<not> rightValid \<and> js_typeof leftValue = js_typeof rightValue
         then Inl \<lparr>fe_message = ''Comparison type expects '' @ withIndefiniteArticle (type_name (fo_type operator))
             @ '' but both fields are '' @ withIndefiniteArticle (js_typeof leftValue),
           fe_description = getTypeDescription strict\<rparr>
         else if \<not> leftValid
         then Inl \<lparr>fe_message = composeInvalidTypeMessage lib strict suffix (type_name (fo_type operator)) (js_typeof leftValue)
             (vl_String lib leftValue),
           fe_description = composeInvalidTypeDescription strict (type_name (fo_type operator)) ''first''\<rparr>
         else if \<not> rightValid
         then Inl \<lparr>fe_message = composeInvalidTypeMessage lib strict suffix (type_name rightType) (js_typeof rightValue)
             (vl_String lib rightValue),
           fe_description = composeInvalidTypeDescription strict (type_name rightType) ''second''\<rparr>
         else Inr (new_value parsedLeft, new_value parsedRight))"

section \<open>Operations\<close>

text \<open>
  \<open>/source/flags\<close>: the shortest source after which only flags follow. Anything else is a source without
  flags.
\<close>

fun regex_split :: "string \<Rightarrow> string \<Rightarrow> (string \<times> string) option" where
  "regex_split source [] = None"
| "regex_split source (c # cs) =
     (if c = CHR ''/'' \<and> set cs \<subseteq> set ''gimusy'' then Some (source, cs)
      else if c = CHR 10 \<or> c = CHR 13 then None
      else regex_split (source @ [c]) cs)"

definition parseRegexPattern :: "string \<Rightarrow> string \<times> string" where
  "parseRegexPattern pattern = (case pattern of
     c # cs \<Rightarrow> if c = CHR ''/'' then or_else (regex_split [] cs) (pattern, []) else (pattern, [])
   | [] \<Rightarrow> (pattern, []))"

definition arrayContainsValue :: "ValidationLib \<Rightarrow> json list \<Rightarrow> field_value \<Rightarrow> bool \<Rightarrow> bool" where
  "arrayContainsValue lib xs v ignoreCase =
     (case (ignoreCase, v) of
        (True, Js (JStr s)) \<Rightarrow> \<exists>x \<in> set xs. case x of JStr t \<Rightarrow> vl_lower lib t = vl_lower lib s | _ \<Rightarrow> False
      | (_, Js j) \<Rightarrow> \<exists>x \<in> set xs. same_value (Some x) (Some j)
      | _ \<Rightarrow> False)"

definition value_exists :: "field_value \<Rightarrow> bool" where
  "value_exists v \<longleftrightarrow> v \<noteq> Undef \<and> v \<noteq> Js JNull \<and> v \<noteq> NotANumber"

text \<open>\<open>===\<close>: two dates or two objects are different ones, \<open>NaN\<close> equals nothing.\<close>

definition strict_eq :: "field_value \<Rightarrow> field_value \<Rightarrow> bool" where
  "strict_eq a b = (case (a, b) of
     (Undef, Undef) \<Rightarrow> True
   | (Js x, Js y) \<Rightarrow> same_value (Some x) (Some y)
   | _ \<Rightarrow> False)"

definition value_less :: "ValidationLib \<Rightarrow> field_value \<Rightarrow> field_value \<Rightarrow> bool" where
  "value_less lib a b = (case (a, b) of
     (Js (JStr s), Js (JStr t)) \<Rightarrow> str_less s t
   | _ \<Rightarrow> (case (vl_Number lib a, vl_Number lib b) of (Some x, Some y) \<Rightarrow> x < y | _ \<Rightarrow> False))"

definition value_less_eq :: "ValidationLib \<Rightarrow> field_value \<Rightarrow> field_value \<Rightarrow> bool" where
  "value_less_eq lib a b = (case (a, b) of
     (Js (JStr s), Js (JStr t)) \<Rightarrow> \<not> str_less t s
   | _ \<Rightarrow> (case (vl_Number lib a, vl_Number lib b) of (Some x, Some y) \<Rightarrow> x \<le> y | _ \<Rightarrow> False))"

text \<open>
  The cases of the \<open>switch\<close>; \<open>None\<close> if none of the operations is the one asked for. Only the case of strings
  ends with a \<open>break\<close>, the others go on with the next case.
\<close>

definition regex_operation :: "ValidationLib \<Rightarrow> field_value \<Rightarrow> string \<Rightarrow> bool result" where
  "regex_operation lib right left = (case right of
     Js (JStr pattern) \<Rightarrow> (case parseRegexPattern pattern of (source, flags) \<Rightarrow> vl_match lib source flags left)
   | _ \<Rightarrow> if truthy_value right then Inl TypeError else vl_match lib [] [] left)"

definition rnot :: "bool result \<Rightarrow> bool result" where
  "rnot r = rbind r (\<lambda>b. Inr (\<not> b))"

definition text_operation :: "ValidationLib \<Rightarrow> string \<Rightarrow> string \<Rightarrow> field_value \<Rightarrow> bool result option" where
  "text_operation lib operation left right =
     (if operation = ''empty'' then Some (Inr (left = []))
      else if operation = ''notEmpty'' then Some (Inr (left \<noteq> []))
      else if operation = ''equals'' then Some (Inr (strict_eq (Js (JStr left)) right))
      else if operation = ''notEquals'' then Some (Inr (\<not> strict_eq (Js (JStr left)) right))
      else if operation = ''contains'' then Some (Inr (is_infix (vl_String lib right) left))
      else if operation = ''notContains'' then Some (Inr (\<not> is_infix (vl_String lib right) left))
      else if operation = ''startsWith'' then Some (Inr (has_prefix (vl_String lib right) left))
      else if operation = ''notStartsWith'' then Some (Inr (\<not> has_prefix (vl_String lib right) left))
      else if operation = ''endsWith'' then Some (Inr (has_suffix (vl_String lib right) left))
      else if operation = ''notEndsWith'' then Some (Inr (\<not> has_suffix (vl_String lib right) left))
      else if operation = ''regex'' then Some (regex_operation lib right left)
      else if operation = ''notRegex'' then Some (rnot (regex_operation lib right left))
      else None)"

definition lower_text :: "ValidationLib \<Rightarrow> field_value \<Rightarrow> field_value" where
  "lower_text lib v = (case v of Js (JStr s) \<Rightarrow> Js (JStr (vl_lower lib s)) | _ \<Rightarrow> v)"

definition string_operation :: "ValidationLib \<Rightarrow> bool \<Rightarrow> string \<Rightarrow> field_value \<Rightarrow> field_value \<Rightarrow> bool result option" where
  "string_operation lib ignoreCase operation leftValue rightValue =
     (let leftValue = (if ignoreCase then lower_text lib leftValue else leftValue);
          rightValue = (if ignoreCase \<and> operation \<notin> {''regex'', ''notRegex''} then lower_text lib rightValue else rightValue);
          left = (case leftValue of Js (JStr s) \<Rightarrow> s | _ \<Rightarrow> []);
          right = (if rightValue = Undef \<or> rightValue = Js JNull then Js (JStr []) else rightValue)
      in text_operation lib operation left right)"

definition number_operation :: "ValidationLib \<Rightarrow> string \<Rightarrow> field_value \<Rightarrow> field_value \<Rightarrow> bool result option" where
  "number_operation lib operation left right =
     (if operation = ''empty'' then Some (Inr (\<not> value_exists left))
      else if operation = ''notEmpty'' then Some (Inr (value_exists left))
      else if operation = ''equals'' then Some (Inr (strict_eq left right))
      else if operation = ''notEquals'' then Some (Inr (\<not> strict_eq left right))
      else if operation = ''gt'' then Some (Inr (value_less lib right left))
      else if operation = ''lt'' then Some (Inr (value_less lib left right))
      else if operation = ''gte'' then Some (Inr (value_less_eq lib right left))
      else if operation = ''lte'' then Some (Inr (value_less_eq lib left right))
      else None)"

definition compare_dates :: "(rat \<Rightarrow> rat \<Rightarrow> bool) \<Rightarrow> field_value \<Rightarrow> field_value \<Rightarrow> bool result" where
  "compare_dates p a b = (case (a, b) of (DateValue x, DateValue y) \<Rightarrow> Inr (p x y) | _ \<Rightarrow> Inl TypeError)"

definition date_operation :: "string \<Rightarrow> field_value \<Rightarrow> field_value \<Rightarrow> bool result option" where
  "date_operation operation left right =
     (if operation = ''empty'' then Some (Inr (\<not> value_exists left))
      else if operation = ''notEmpty'' then Some (Inr (value_exists left))
      else if \<not> truthy_value left \<or> \<not> truthy_value right then Some (Inr False)
      else if operation = ''equals'' then Some (compare_dates (=) left right)
      else if operation = ''notEquals'' then Some (compare_dates (\<noteq>) left right)
      else if operation = ''after'' then Some (compare_dates (>) left right)
      else if operation = ''before'' then Some (compare_dates (<) left right)
      else if operation = ''afterOrEquals'' then Some (compare_dates (\<ge>) left right)
      else if operation = ''beforeOrEquals'' then Some (compare_dates (\<le>) left right)
      else None)"

definition boolean_operation :: "string \<Rightarrow> field_value \<Rightarrow> field_value \<Rightarrow> bool result option" where
  "boolean_operation operation left right =
     (if operation = ''empty'' then Some (Inr (\<not> value_exists left))
      else if operation = ''notEmpty'' then Some (Inr (value_exists left))
      else if operation = ''true'' then Some (Inr (truthy_value left))
      else if operation = ''false'' then Some (Inr (\<not> truthy_value left))
      else if operation = ''equals'' then Some (Inr (strict_eq left right))
      else if operation = ''notEquals'' then Some (Inr (\<not> strict_eq left right))
      else None)"

text \<open>A value that is no array has no \<open>includes\<close> and no \<open>length\<close>.\<close>

definition as_array :: "field_value \<Rightarrow> json list option" where
  "as_array v = (case v of Js (JArr xs) \<Rightarrow> Some xs | Undef \<Rightarrow> Some [] | Js JNull \<Rightarrow> Some [] | _ \<Rightarrow> None)"

definition array_operation :: "ValidationLib \<Rightarrow> bool \<Rightarrow> string \<Rightarrow> field_value \<Rightarrow> field_value \<Rightarrow> bool result option" where
  "array_operation lib ignoreCase operation left right =
     (let contains = (case as_array left of Some xs \<Rightarrow> Inr (arrayContainsValue lib xs right ignoreCase) | None \<Rightarrow> Inl TypeError);
          len = (case as_array left of Some xs \<Rightarrow> Js (JNum (of_nat (length xs))) | None \<Rightarrow> Undef)
      in if operation = ''contains'' then Some contains
         else if operation = ''notContains'' then Some (rnot contains)
         else if operation = ''lengthEquals'' then Some (Inr (strict_eq len right))
         else if operation = ''lengthNotEquals'' then Some (Inr (\<not> strict_eq len right))
         else if operation = ''lengthGt'' then Some (Inr (value_less lib right len))
         else if operation = ''lengthLt'' then Some (Inr (value_less lib len right))
         else if operation = ''lengthGte'' then Some (Inr (value_less_eq lib right len))
         else if operation = ''lengthLte'' then Some (Inr (value_less_eq lib len right))
         else if operation = ''empty'' then Some (Inr (strict_eq len (Js (JNum 0))))
         else if operation = ''notEmpty'' then Some (Inr (\<not> strict_eq len (Js (JNum 0))))
         else None)"

definition has_keys :: "field_value \<Rightarrow> bool" where
  "has_keys v = (case v of
     Js (JObj fs) \<Rightarrow> fs \<noteq> [] | Js (JArr xs) \<Rightarrow> xs \<noteq> [] | Js (JStr s) \<Rightarrow> s \<noteq> [] | DateValue _ \<Rightarrow> True | _ \<Rightarrow> False)"

definition object_operation :: "string \<Rightarrow> field_value \<Rightarrow> bool result option" where
  "object_operation operation left =
     (if operation = ''empty'' then Some (Inr (\<not> truthy_value left \<or> \<not> has_keys left))
      else if operation = ''notEmpty'' then Some (Inr (truthy_value left \<and> has_keys left))
      else None)"

definition otherwise :: "'a option \<Rightarrow> 'a option \<Rightarrow> 'a option" where
  "otherwise x y = (case x of None \<Rightarrow> y | Some _ \<Rightarrow> x)"

definition operation_result :: "ValidationLib \<Rightarrow> bool \<Rightarrow> FilterOperatorType \<Rightarrow> string \<Rightarrow> field_value \<Rightarrow> field_value \<Rightarrow> bool result option" where
  "operation_result lib ignoreCase ty operation left right =
     (let object = object_operation operation left;
          array = otherwise (array_operation lib ignoreCase operation left right) object;
          boolean = otherwise (boolean_operation operation left right) array;
          date = otherwise (date_operation operation left right) boolean;
          number = otherwise (number_operation lib operation left right) date
      in case ty of
        OpString \<Rightarrow> string_operation lib ignoreCase operation left right
      | OpNumber \<Rightarrow> number
      | OpDateTime \<Rightarrow> date
      | OpBoolean \<Rightarrow> boolean
      | OpArray \<Rightarrow> array
      | OpObject \<Rightarrow> object
      | OpAny \<Rightarrow> None)"

text \<open>An operation that is not known yields \<open>False\<close>, with a warning.\<close>

definition executeFilterCondition :: "ValidationLib \<Rightarrow> FilterConditionValue \<Rightarrow> FilterOptionsValue \<Rightarrow> FilterConditionMetadata \<Rightarrow> bool result" where
  "executeFilterCondition lib condition options metadata =
     (case parseFilterConditionValues lib condition options metadata of
        Inl e \<Rightarrow> Inl (ApplicationError (fe_message e))
      | Inr (left, right) \<Rightarrow>
          let operation = fo_operation (fc_operator condition)
          in if operation = ''exists'' then Inr (value_exists left)
             else if operation = ''notExists'' then Inr (\<not> value_exists left)
             else or_else (operation_result lib (\<not> fp_caseSensitive options) (fo_type (fc_operator condition)) operation left right)
               (Inr False))"

section \<open>Filters\<close>

definition filter_metadata :: "nat option \<Rightarrow> nat \<Rightarrow> FilterConditionMetadata" where
  "filter_metadata itemIndex index =
     \<lparr>fm_index = Some index, fm_unresolvedExpressions = False, fm_itemIndex = itemIndex, fm_inline = False\<rparr>"

definition executeFilter :: "ValidationLib \<Rightarrow> FilterValue \<Rightarrow> nat option \<Rightarrow> bool result" where
  "executeFilter lib v itemIndex =
     (let conditionPass = (\<lambda>(index, condition). executeFilterCondition lib condition (fv_options v) (filter_metadata itemIndex index))
      in if fv_combinator v = ''and'' then revery conditionPass (enumerate 0 (fv_conditions v))
         else if fv_combinator v = ''or'' then rsome conditionPass (enumerate 0 (fv_conditions v))
         else Inr False)"

text \<open>
  The \<open>catch\<close> block waits for a \<open>FilterError\<close>, but the conversion returns its errors: every round leaves the
  issues as they are.
\<close>

definition validateFilterParameter :: "ValidationLib \<Rightarrow> FilterValue \<Rightarrow> (string, string list) js_map" where
  "validateFilterParameter lib v =
     fold (\<lambda>(index, condition) issues.
       case parseFilterConditionValues lib condition (fv_options v)
         \<lparr>fm_index = Some index, fm_unresolvedExpressions = True, fm_itemIndex = None, fm_inline = True\<rparr> of
         Inl e \<Rightarrow> issues
       | Inr _ \<Rightarrow> issues) (enumerate 0 (fv_conditions v)) []"

section \<open>Properties\<close>

text \<open>The operations that come in pairs, and the operations that a type has on its own.\<close>

definition negations :: "(string \<times> string) list" where
  "negations = [(''exists'', ''notExists''), (''empty'', ''notEmpty''), (''equals'', ''notEquals''),
     (''contains'', ''notContains''), (''startsWith'', ''notStartsWith''), (''endsWith'', ''notEndsWith''),
     (''regex'', ''notRegex''), (''true'', ''false''), (''lengthEquals'', ''lengthNotEquals'')]"

fun paired_operations :: "FilterOperatorType \<Rightarrow> string list" where
  "paired_operations OpString = [''exists'', ''empty'', ''equals'', ''contains'', ''startsWith'', ''endsWith'', ''regex'']"
| "paired_operations OpNumber = [''exists'', ''empty'', ''equals'']"
| "paired_operations OpBoolean = [''exists'', ''empty'', ''equals'', ''true'']"
| "paired_operations OpArray = [''exists'', ''empty'', ''contains'', ''lengthEquals'']"
| "paired_operations OpObject = [''exists'', ''empty'']"
| "paired_operations OpDateTime = [''exists'', ''empty'']"
| "paired_operations OpAny = [''exists'']"

definition with_operation :: "string \<Rightarrow> FilterConditionValue \<Rightarrow> FilterConditionValue" where
  "with_operation operation condition = condition\<lparr>fc_operator := (fc_operator condition)\<lparr>fo_operation := operation\<rparr>\<rparr>"

definition negated :: "FilterConditionValue \<Rightarrow> FilterConditionValue" where
  "negated condition =
     with_operation (or_else (map_of negations (fo_operation (fc_operator condition))) (fo_operation (fc_operator condition))) condition"

definition negatable :: "FilterConditionValue \<Rightarrow> bool" where
  "negatable condition \<longleftrightarrow> fo_operation (fc_operator condition) \<in> set (paired_operations (fo_type (fc_operator condition)))"

lemma rnot_simps [simp]: "rnot (Inl e) = Inl e" "rnot (Inr b) = Inr (\<not> b)"
  by (simp_all add: rnot_def)

lemma parse_with_operation [simp]:
  "parseFilterConditionValues lib (with_operation operation condition) options metadata
   = parseFilterConditionValues lib condition options metadata"
  by (simp add: parseFilterConditionValues_def with_operation_def Let_def)

lemma with_operation_fields [simp]:
  "fo_operation (fc_operator (with_operation operation condition)) = operation"
  "fo_type (fc_operator (with_operation operation condition)) = fo_type (fc_operator condition)"
  by (simp_all add: with_operation_def)

lemma text_negation:
  assumes "operation \<in> set (paired_operations OpString)" "operation \<noteq> ''exists''"
  shows "text_operation lib (the (map_of negations operation)) left right = map_option rnot (text_operation lib operation left right)
    \<and> text_operation lib operation left right \<noteq> None
    \<and> (the (map_of negations operation) \<in> {''regex'', ''notRegex''} \<longleftrightarrow> operation \<in> {''regex'', ''notRegex''})"
proof -
  from assms have "operation \<in> {''empty'', ''equals'', ''contains'', ''startsWith'', ''endsWith'', ''regex''}" by simp
  then show ?thesis unfolding insert_iff empty_iff
    by (elim disjE; simp add: text_operation_def negations_def)
qed

lemma string_negation:
  assumes "operation \<in> set (paired_operations OpString)" "operation \<noteq> ''exists''"
  shows "string_operation lib ignoreCase (the (map_of negations operation)) left right
    = map_option rnot (string_operation lib ignoreCase operation left right)
    \<and> string_operation lib ignoreCase operation left right \<noteq> None"
  unfolding string_operation_def Let_def using text_negation[OF assms] by simp

lemma operation_negation:
  assumes "operation \<in> set (paired_operations ty)" "operation \<noteq> ''exists''"
  shows "operation_result lib ignoreCase ty (the (map_of negations operation)) left right
    = map_option rnot (operation_result lib ignoreCase ty operation left right)
    \<and> operation_result lib ignoreCase ty operation left right \<noteq> None"
proof (cases ty)
  case OpString
  then show ?thesis using assms string_negation[of operation lib ignoreCase left right] by (simp add: operation_result_def)
next
  case OpNumber
  then have "operation = ''empty'' \<or> operation = ''equals''" using assms by auto
  then show ?thesis unfolding OpNumber operation_result_def Let_def
    by (elim disjE; simp add: number_operation_def negations_def otherwise_def)
next
  case OpDateTime
  then have "operation = ''empty''" using assms by auto
  then show ?thesis unfolding OpDateTime operation_result_def Let_def
    by (simp add: date_operation_def negations_def otherwise_def)
next
  case OpBoolean
  then have "operation = ''empty'' \<or> operation = ''equals'' \<or> operation = ''true''" using assms by auto
  then show ?thesis unfolding OpBoolean operation_result_def Let_def
    by (elim disjE; simp add: boolean_operation_def negations_def otherwise_def)
next
  case OpArray
  then have "operation = ''empty'' \<or> operation = ''contains'' \<or> operation = ''lengthEquals''" using assms by auto
  then show ?thesis unfolding OpArray operation_result_def Let_def
    by (elim disjE; simp add: array_operation_def negations_def otherwise_def)
next
  case OpObject
  then have "operation = ''empty''" using assms by auto
  then show ?thesis unfolding OpObject operation_result_def Let_def
    by (simp add: object_operation_def negations_def)
next
  case OpAny
  then show ?thesis using assms by simp
qed

lemma negation_known: "operation \<in> set (paired_operations ty) \<Longrightarrow> \<exists>other. map_of negations operation = Some other
    \<and> other \<noteq> ''exists'' \<and> (other = ''notExists'' \<longleftrightarrow> operation = ''exists'')"
  by (cases ty) (auto simp: negations_def)

lemma executeFilterCondition_negated:
  assumes "negatable condition"
  shows "executeFilterCondition lib (negated condition) options metadata = rnot (executeFilterCondition lib condition options metadata)"
proof -
  let ?op = "fo_operation (fc_operator condition)" and ?ty = "fo_type (fc_operator condition)"
  have op: "?op \<in> set (paired_operations ?ty)" using assms by (simp add: negatable_def)
  obtain other where other: "map_of negations ?op = Some other" "other \<noteq> ''exists''" "other = ''notExists'' \<longleftrightarrow> ?op = ''exists''"
    using negation_known[OF op] by auto
  have neg: "negated condition = with_operation other condition" by (simp add: negated_def other(1) or_else_def)
  have no: "?op \<noteq> ''notExists''" using op by (cases ?ty) auto
  show ?thesis
  proof (cases "parseFilterConditionValues lib condition options metadata")
    case (Inl e)
    then show ?thesis by (simp add: executeFilterCondition_def neg)
  next
    case (Inr lr)
    obtain left right where lr: "lr = (left, right)" by (cases lr)
    show ?thesis
    proof (cases "?op = ''exists''")
      case True
      then show ?thesis using other Inr lr by (simp add: executeFilterCondition_def neg Let_def)
    next
      case False
      have "operation_result lib (\<not> fp_caseSensitive options) ?ty other left right
          = map_option rnot (operation_result lib (\<not> fp_caseSensitive options) ?ty ?op left right)
        \<and> operation_result lib (\<not> fp_caseSensitive options) ?ty ?op left right \<noteq> None"
        using operation_negation[OF op False] other(1) by simp
      then show ?thesis using False other no Inr lr
        by (auto simp: executeFilterCondition_def neg Let_def or_else_def)
    qed
  qed
qed

definition sample_condition :: FilterConditionValue where
  "sample_condition = \<lparr>fc_leftValue = Js (JStr ''abc''),
     fc_operator = \<lparr>fo_type = OpString, fo_operation = ''contains'', fo_rightType = None, fo_singleValue = False\<rparr>,
     fc_rightValue = Js (JStr ''bc'')\<rparr>"

definition sample_filter_options :: FilterOptionsValue where
  "sample_filter_options = \<lparr>fp_caseSensitive = True, fp_strict = True, fp_version = Some 2\<rparr>"

text \<open>A condition and the one with the opposite operation give opposite results, and throw the same errors; the
  comparisons of dates are left out, which are false when a date is missing.\<close>

theorem opposite_operations:
  assumes "negatable condition"
  shows "executeFilterCondition lib (negated condition) options metadata =
    (case executeFilterCondition lib condition options metadata of Inl e \<Rightarrow> Inl e | Inr b \<Rightarrow> Inr (\<not> b))"
  unfolding executeFilterCondition_negated[OF assms] by (cases "executeFilterCondition lib condition options metadata") simp_all

lemma sample_condition_true:
  "executeFilterCondition sample_vlib sample_condition sample_filter_options (filter_metadata None 0) = Inr True"
  by (simp add: executeFilterCondition_def parseFilterConditionValues_def Let_def sample_condition_def sample_filter_options_def
      filter_metadata_def or_else_def parseSingleFilterValue_def validateFieldType_def filter_options_def js_typeof_def
      tryToParseString_def sample_vlib_def is_valid_def new_value_def operation_result_def string_operation_def
      text_operation_def)

lemma opposite_operations_witness:
  "executeFilterCondition sample_vlib (negated sample_condition) sample_filter_options (filter_metadata None 0) = Inr False"
  by (subst opposite_operations) (simp_all add: negatable_def sample_condition_def[THEN arg_cong[where f = fc_operator]]
      sample_condition_true)

lemma revery_Inr: "revery f xs = Inr b \<Longrightarrow> b \<longleftrightarrow> (\<forall>x \<in> set xs. f x = Inr True)"
proof (induction xs)
  case (Cons x xs)
  then show ?case by (cases "f x") (auto split: if_splits)
qed simp

lemma validateFilterParameter_empty: "validateFilterParameter lib v = []"
proof -
  have "fold (\<lambda>(index, condition) issues. case g index condition of Inl e \<Rightarrow> issues | Inr _ \<Rightarrow> issues) xs issues = issues" for g xs and issues :: "(string, string list) js_map"
    by (induction xs arbitrary: issues) (auto split: sum.split)
  then show ?thesis by (simp add: validateFilterParameter_def)
qed

text \<open>Validation reports nothing about a filter whose execution fails because a value cannot be converted: the
  \<open>try\<close> of \<open>validateFilterParameter\<close> catches an error that is returned and not thrown.\<close>

theorem filter_errors_not_reported:
  assumes "parseFilterConditionValues lib c (fv_options v) (filter_metadata itemIndex 0) = Inl e"
    and "fv_conditions v = c # cs" "fv_combinator v = ''and''"
  shows "executeFilter lib v itemIndex = Inl (ApplicationError (fe_message e)) \<and> validateFilterParameter lib v = []"
  using assms by (simp add: executeFilter_def executeFilterCondition_def validateFilterParameter_empty)

lemma filter_errors_not_reported_witness:
  "\<exists>v e. executeFilter sample_vlib v None = Inl e \<and> validateFilterParameter sample_vlib v = []"
proof -
  let ?c = "sample_condition\<lparr>fc_leftValue := Js (JBool True)\<rparr>"
  let ?v = "\<lparr>fv_options = sample_filter_options, fv_conditions = [?c], fv_combinator = ''and''\<rparr>"
  obtain e where "parseFilterConditionValues sample_vlib ?c (fv_options ?v) (filter_metadata None 0) = Inl e"
    by (simp add: parseFilterConditionValues_def Let_def sample_condition_def sample_filter_options_def
      filter_metadata_def or_else_def parseSingleFilterValue_def validateFieldType_def filter_options_def js_typeof_def
      tryToParseString_def is_valid_def unresolved_value_def)
  from filter_errors_not_reported[OF this] show ?thesis by auto
qed

end
