(* ===== verification/ParameterIssues.thy ===== *)
theory ParameterIssues
  imports NodeParameters FilterParameter
begin

text \<open>
  The issues of the parameters of a node (\<open>getNodeParametersIssues\<close>, \<open>getParameterIssues\<close>, \<open>mergeIssues\<close> of
  \<^verbatim>\<open>packages/workflow/src/node-helpers.ts\<close>) and the guards of \<^verbatim>\<open>packages/workflow/src/type-guards.ts\<close>.
\<close>

section \<open>Guards\<close>

definition has_key :: "string \<Rightarrow> (string \<times> json) list \<Rightarrow> bool" where
  "has_key k fs \<longleftrightarrow> map_of fs k \<noteq> None"

definition object_with :: "string list \<Rightarrow> json option \<Rightarrow> bool" where
  "object_with ks v = (case v of Some (JObj fs) \<Rightarrow> (\<forall>k \<in> set ks. has_key k fs) | _ \<Rightarrow> False)"

definition isResourceLocatorValue :: "json option \<Rightarrow> bool" where
  "isResourceLocatorValue = object_with [''mode'', ''value'', ''__rl'']"

definition isINodeParameterResourceLocator :: "json option \<Rightarrow> bool" where
  "isINodeParameterResourceLocator = object_with [''value'', ''mode'']"

definition isResourceMapperValue :: "json option \<Rightarrow> bool" where
  "isResourceMapperValue = object_with [''mappingMode'', ''schema'', ''value'']"

definition isFilterValue :: "json option \<Rightarrow> bool" where
  "isFilterValue = object_with [''conditions'', ''combinator'']"

text \<open>\<open>typeof null\<close> is \<open>'object'\<close>, and \<open>null\<close> has no field \<open>value\<close>.\<close>

definition isValidResourceLocatorParameterValue :: "json option \<Rightarrow> bool result" where
  "isValidResourceLocatorParameterValue v = (case v of
     None \<Rightarrow> Inr False
   | Some JNull \<Rightarrow> Inl TypeError
   | Some (JObj fs) \<Rightarrow> Inr (case map_of fs ''value'' of Some (JNum n) \<Rightarrow> True | w \<Rightarrow> truthy_at w)
   | Some (JArr xs) \<Rightarrow> Inr False
   | Some j \<Rightarrow> Inr (truthy j))"

section \<open>Issues\<close>

record INodeIssues =
  ni_execution :: bool
  ni_parameters :: "(string, string list) js_map option"
  ni_credentials :: "(string, string list) js_map option"
  ni_typeUnknown :: bool

definition empty_issues :: INodeIssues where
  "empty_issues = \<lparr>ni_execution = False, ni_parameters = None, ni_credentials = None, ni_typeUnknown = False\<rparr>"

definition issues_at :: "(string, string list) js_map option \<Rightarrow> string \<Rightarrow> string list" where
  "issues_at m nm = or_else (map_of (or_else m []) nm) []"

definition add_issue :: "string \<Rightarrow> string \<Rightarrow> INodeIssues \<Rightarrow> INodeIssues" where
  "add_issue nm message issues =
     issues\<lparr>ni_parameters := Some (js_put nm (issues_at (ni_parameters issues) nm @ [message]) (or_else (ni_parameters issues) []))\<rparr>"

definition merge_property :: "(string, string list) js_map option \<Rightarrow> (string, string list) js_map option
    \<Rightarrow> (string, string list) js_map option" where
  "merge_property destination source = (case source of
     None \<Rightarrow> destination
   | Some m \<Rightarrow> Some (fold (\<lambda>(nm, messages) d. js_put nm (or_else (map_of d nm) [] @ messages) d) m (or_else destination [])))"

definition mergeIssues :: "INodeIssues \<Rightarrow> INodeIssues option \<Rightarrow> INodeIssues" where
  "mergeIssues destination source = (case source of
     None \<Rightarrow> destination
   | Some s \<Rightarrow> \<lparr>ni_execution = (ni_execution destination \<or> ni_execution s),
       ni_parameters = merge_property (ni_parameters destination) (ni_parameters s),
       ni_credentials = merge_property (ni_credentials destination) (ni_credentials s),
       ni_typeUnknown = (ni_typeUnknown destination \<or> ni_typeUnknown s)\<rparr>)"

section \<open>Validation of single values\<close>

record IssueLib =
  il_params :: ParamLib
  il_values :: ValidationLib
  il_filter :: "json \<Rightarrow> FilterValue"

definition field_type_of :: "ValidationLib \<Rightarrow> string \<Rightarrow> FieldType" where
  "field_type_of lib ty = or_else (map_of
     [(''boolean'', FtBoolean), (''number'', FtNumber), (''string'', FtString), (''string-alphanumeric'', FtAlphanumeric),
      (''datetime'', FtDateTime), (''time'', FtTime), (''array'', FtArray), (''object'', FtObject), (''options'', FtOptions),
      (''url'', FtUrl), (''jwt'', FtJwt), (''form-fields'', FtFormFields)] (vl_lower lib ty)) (FtOther ty)"

text \<open>\<open>?.toString()\<close> of a value.\<close>

definition text_of :: "ValidationLib \<Rightarrow> json option \<Rightarrow> string option" where
  "text_of lib v = (if nullish v then None else Some (vl_String lib (of_json v)))"

definition validateResourceLocatorParameter :: "ValidationLib \<Rightarrow> json option \<Rightarrow> INodePropertyMode \<Rightarrow> string list result" where
  "validateResourceLocatorParameter lib v mode =
     (let text = or_else (text_of lib (value_at v ''value'')) []
      in if has_prefix ''='' text then Inr []
         else rfold (\<lambda>(regex, message) errors.
             rbind (vl_match lib (''^'' @ regex @ ''$'') [] text) (\<lambda>ok. Inr (if ok then errors else errors @ [message])))
           (pm_validation mode) [])"

definition capitalize :: "ValidationLib \<Rightarrow> string \<Rightarrow> string" where
  "capitalize lib s = vl_upper lib (take 1 s) @ drop 1 s"

definition starts_expression :: "string option \<Rightarrow> bool" where
  "starts_expression s = (case s of None \<Rightarrow> False | Some s \<Rightarrow> has_prefix ''='' s)"

text \<open>The options of a field of a resource mapper are given as JSON.\<close>

definition json_options :: "json option \<Rightarrow> PropertyOption list" where
  "json_options v = (case v of
     Some (JArr xs) \<Rightarrow> map (\<lambda>x. OptionValue [] (or_else (field_of x ''value'') JNull) None) xs
   | _ \<Rightarrow> [])"

definition invalid_message :: "ValidationResult \<Rightarrow> string list" where
  "invalid_message r = (case r of Invalid (c # cs) \<Rightarrow> [c # cs] | _ \<Rightarrow> [])"

definition mapper_field_errors :: "ValidationLib \<Rightarrow> string \<Rightarrow> bool \<Rightarrow> json option \<Rightarrow> json \<Rightarrow> string list" where
  "mapper_field_errors lib word skipRequiredCheck values field =
     (let fid = vl_String lib (of_json (field_of field ''id''));
          fieldValue = (if truthy_at values then value_at values fid else Some JNull);
          required = (if truthy_at (field_of field ''required'') \<and> \<not> skipRequiredCheck \<and> (values = Some JNull \<or> fieldValue = None)
            then [word @ '' \"'' @ fid @ ''\" is required''] else []);
          invalid = (case field_of field ''type'' of
            Some (JStr (c # cs)) \<Rightarrow>
              if starts_expression (text_of lib fieldValue) then []
              else invalid_message (validateFieldType lib fid (of_json fieldValue) (field_type_of lib (c # cs))
                \<lparr>vo_valueOptions = json_options (field_of field ''options''), vo_strict = False, vo_parseStrings = False\<rparr>)
          | _ \<Rightarrow> [])
      in required @ invalid)"

definition validateResourceMapperParameter :: "ValidationLib \<Rightarrow> INodeProperties \<Rightarrow> json option \<Rightarrow> bool
    \<Rightarrow> (string, string list) js_map result" where
  "validateResourceMapperParameter lib p v skipRequiredCheck =
     (if value_at v ''mappingMode'' = Some (JStr ''autoMapInputData'') then Inr []
      else
        let word = capitalize lib (case pp_fieldWord (np_extras p) of Some (c # cs) \<Rightarrow> c # cs | _ \<Rightarrow> ''Field'')
        in case value_at v ''schema'' of
          Some (JArr entries) \<Rightarrow> rfold (\<lambda>field issues.
             if field = JNull then Inl TypeError
             else
               let key = np_name p @ ''.'' @ vl_String lib (of_json (field_of field ''id''));
                   errors = mapper_field_errors lib word skipRequiredCheck (value_at v ''value'') field
               in Inr (if errors \<noteq> [] then js_put key errors issues else issues)) entries []
        | _ \<Rightarrow> Inl TypeError)"

definition validateParameter :: "ValidationLib \<Rightarrow> INodeProperties \<Rightarrow> json option \<Rightarrow> string \<Rightarrow> string list" where
  "validateParameter lib p v ty =
     (if starts_expression (text_of lib v) then []
      else invalid_message (validateFieldType lib (np_name p) (of_json v) (field_type_of lib ty)
        \<lparr>vo_valueOptions = (if ty = ''options'' then or_else (np_options p) [] else []), vo_strict = False, vo_parseStrings = False\<rparr>))"

definition required_message :: "INodeProperties \<Rightarrow> string" where
  "required_message p = ''Parameter \"'' @ pp_displayName (np_extras p) @ ''\" is required.''"

definition value_missing :: "INodeProperties \<Rightarrow> json option \<Rightarrow> bool result" where
  "value_missing p v =
     (if np_type p \<in> {PtString, PtDateTime, PtOptions} then Inr (v = Some (JStr []) \<or> v = None)
      else if np_type p = PtMultiOptions then Inr (v = Some (JArr []))
      else if np_type p \<in> {PtResourceLocator, PtWorkflowSelector}
      then rbind (isValidResourceLocatorParameterValue v) (\<lambda>ok. Inr (\<not> ok))
      else Inr False)"

definition addToIssuesIfMissing :: "INodeIssues \<Rightarrow> INodeProperties \<Rightarrow> json option \<Rightarrow> INodeIssues result" where
  "addToIssuesIfMissing issues p v =
     rbind (value_missing p v) (\<lambda>m. Inr (if m then add_issue (np_name p) (required_message p) issues else issues))"

section \<open>Issues of a parameter\<close>

definition getParameterValueByPath :: "ParamLib \<Rightarrow> json option \<Rightarrow> string \<Rightarrow> string \<Rightarrow> json option" where
  "getParameterValueByPath lib nodeValues parameterName path =
     lib_get lib nodeValues (if path \<noteq> [] then path @ ''.'' @ parameterName else parameterName)"

fun first_segment :: "string \<Rightarrow> string" where
  "first_segment [] = []"
| "first_segment (c # cs) = (if c = CHR ''.'' then [] else c # first_segment cs)"

definition displayParameterPath :: "ParamLib \<Rightarrow> ParamNode \<Rightarrow> json option \<Rightarrow> IDisplayOptions option \<Rightarrow> string \<Rightarrow> bool result" where
  "displayParameterPath lib node nodeValues displayOptions path =
     displayParameter lib node (if path \<noteq> [] then lib_get lib nodeValues path else nodeValues) displayOptions
       (if path \<noteq> [] \<and> first_segment path = ''parameters'' then lib_get lib nodeValues ''parameters'' else nodeValues)"

definition required_issues :: "IssueLib \<Rightarrow> INodeProperties \<Rightarrow> json option \<Rightarrow> INodeIssues \<Rightarrow> INodeIssues result" where
  "required_issues lib p v issues =
     (if pp_multipleValues (np_extras p) \<noteq> None
      then (case v of
          Some (JArr xs) \<Rightarrow> rfold (\<lambda>x issues. addToIssuesIfMissing issues p (Some x)) xs issues
        | _ \<Rightarrow> Inr issues)
      else addToIssuesIfMissing issues p v)"

definition merge_keys :: "(string, string list) js_map \<Rightarrow> (string, string list) js_map \<Rightarrow> (string, string list) js_map" where
  "merge_keys new old = fold (\<lambda>(k, v). js_put k v) new old"

definition value_issues :: "IssueLib \<Rightarrow> INodeProperties \<Rightarrow> bool \<Rightarrow> json option \<Rightarrow> INodeIssues \<Rightarrow> INodeIssues result" where
  "value_issues lib p isDisplayed v issues =
     (if np_type p \<in> {PtResourceLocator, PtWorkflowSelector} \<and> isDisplayed
      then (if isINodeParameterResourceLocator v
        then (case find (\<lambda>m. Some (JStr (pm_name m)) = value_at v ''mode'') (or_else (pp_modes (np_extras p)) []) of
            None \<Rightarrow> Inr issues
          | Some mode \<Rightarrow> rbind (validateResourceLocatorParameter (il_values lib) v mode)
              (\<lambda>errors. Inr (fold (add_issue (np_name p)) errors issues)))
        else Inr issues)
      else if np_type p = PtResourceMapper \<and> isDisplayed
      then (if isResourceMapperValue v
        then rbind (validateResourceMapperParameter (il_values lib) p v (pp_resourceMapperMode (np_extras p) \<noteq> Some ''add''))
          (\<lambda>new. Inr (if new \<noteq> []
            then let old = or_else (ni_parameters issues) [];
                     old = (if map_of old (np_name p) = None then js_put (np_name p) [] old else old)
                 in issues\<lparr>ni_parameters := Some (merge_keys new old)\<rparr>
            else issues))
        else Inr issues)
      else if np_type p = PtFilter \<and> isDisplayed
      then (if isFilterValue v
        then (case value_at v ''conditions'' of
            Some (JArr _) \<Rightarrow>
              let new = validateFilterParameter (il_values lib) (il_filter lib (the v))
              in Inr (if new \<noteq> [] then issues\<lparr>ni_parameters := Some (merge_keys new (or_else (ni_parameters issues) []))\<rparr> else issues)
          | _ \<Rightarrow> Inl TypeError)
        else Inr issues)
      else (case pp_validateType (np_extras p) of
          Some (c # cs) \<Rightarrow> Inr (fold (add_issue (np_name p)) (validateParameter (il_values lib) p v (c # cs)) issues)
        | _ \<Rightarrow> Inr issues))"

section \<open>Child parameters\<close>

definition count_message :: "string \<Rightarrow> nat \<Rightarrow> string \<Rightarrow> string" where
  "count_message words n end_word = words @ '' '' @ nat_str n @ (if n = 1 then '' field is '' else '' fields are '') @ end_word"

definition field_count_error :: "INodeProperties \<Rightarrow> json option \<Rightarrow> string list" where
  "field_count_error p v =
     (let n = (case v of Some (JArr xs) \<Rightarrow> length xs | _ \<Rightarrow> 0);
          few = (case pp_minRequiredFields (np_extras p) of
            Some k \<Rightarrow> if n < k then [count_message ''At least'' k ''required.''] else [] | None \<Rightarrow> []);
          many = (case pp_maxAllowedFields (np_extras p) of
            Some k \<Rightarrow> if k \<noteq> 0 \<and> k < n then [count_message ''At most'' k ''allowed.''] else [] | None \<Rightarrow> [])
      in if many \<noteq> [] then many else few)"

text \<open>The paths and properties that the option of a fixed collection contributes, with its issues.\<close>

definition option_children :: "ParamLib \<Rightarrow> INodeProperties \<Rightarrow> json option \<Rightarrow> string \<Rightarrow> PropertyOption
    \<Rightarrow> (string \<times> INodeProperties) list \<times> INodeIssues \<Rightarrow> ((string \<times> INodeProperties) list \<times> INodeIssues) result" where
  "option_children lib p nodeValues basePath opt st = (case st of (children, issues) \<Rightarrow>
     let v = getParameterValueByPath lib nodeValues (option_name opt) (butlast basePath);
         issues = fold (add_issue (np_name p)) (field_count_error p v) issues
     in if v = None then Inr (children, issues)
        else if pp_multipleValues (np_extras p) \<noteq> None
        then (case v of
            Some (JArr xs) \<Rightarrow>
              if xs = [] then Inr (children, issues)
              else rbind (item_properties opt) (\<lambda>qs. Inr (children @ concat (map (\<lambda>i.
                map (Pair (basePath @ option_name opt @ ''['' @ nat_str i @ '']'')) qs) [0..<length xs]), issues))
          | _ \<Rightarrow> Inr (children, issues))
        else rbind (item_properties opt) (\<lambda>qs. Inr (children @ map (Pair (basePath @ option_name opt)) qs, issues)))"

definition child_properties :: "ParamLib \<Rightarrow> INodeProperties \<Rightarrow> json option \<Rightarrow> string \<Rightarrow> bool \<Rightarrow> INodeIssues
    \<Rightarrow> ((string \<times> INodeProperties) list \<times> INodeIssues) result" where
  "child_properties lib p nodeValues path isDisplayed issues = (case np_options p of
     None \<Rightarrow> Inr ([], issues)
   | Some os \<Rightarrow>
     let basePath = (if path \<noteq> [] then path @ ''.'' else [])
     in if np_type p = PtCollection then Inr (map (\<lambda>x. (basePath, as_property x)) os, issues)
        else if np_type p = PtFixedCollection \<and> isDisplayed
        then rfold (option_children lib p nodeValues (if basePath \<noteq> [] then basePath @ ''.'' else np_name p @ ''.'')) os ([], issues)
        else Inr ([], issues))"

lemma option_children_depth:
  assumes "option_children lib p nodeValues basePath opt (children, issues) = Inr (children', issues')"
    and "np_options p = Some os" "opt \<in> set os" and "\<forall>(b, q) \<in> set children. prop_depth q < prop_depth p"
  shows "\<forall>(b, q) \<in> set children'. prop_depth q < prop_depth p"
proof -
  have deep: "prop_depth q < prop_depth p" if item: "item_properties opt = Inr qs" and q: "q \<in> set qs" for qs q
  proof -
    obtain nm where "opt = OptionCollection nm qs"
      using item by (auto simp: item_properties_def split: PropertyOption.splits)
    then have "props_depth qs < prop_depth p" using assms(2,3) by (auto intro: option_collection_depth)
    then show ?thesis using prop_depth_le[OF q] by simp
  qed
  show ?thesis using assms(1,4) deep
    by (fastforce simp: option_children_def Let_def result_simps split: if_splits option.splits json.splits)
qed

lemma child_properties_depth:
  assumes "child_properties lib p nodeValues path isDisplayed issues = Inr (children, issues')"
  shows "\<forall>(b, q) \<in> set children. prop_depth q < prop_depth p"
proof (cases "np_options p")
  case None
  then show ?thesis using assms by (simp add: child_properties_def)
next
  case (Some os)
  have coll: "prop_depth (as_property x) < prop_depth p" if "x \<in> set os" for x
    using as_property_depth[of x] option_depth_less[OF Some that] by simp
  have fixed: "\<forall>(b, q) \<in> set children. prop_depth q < prop_depth p"
    if "rfold (option_children lib p nodeValues bp) os ([], issues) = Inr (children, issues')" for bp
  proof -
    have "\<forall>(b, q) \<in> set (fst (children, issues')). prop_depth q < prop_depth p"
      by (rule rfold_invariant[where P = "\<lambda>st. \<forall>(b, q) \<in> set (fst st). prop_depth q < prop_depth p", OF that])
        (auto dest!: option_children_depth[OF _ Some])
    then show ?thesis by simp
  qed
  show ?thesis using assms Some coll fixed by (auto simp: child_properties_def Let_def split: if_splits)
qed

section \<open>\<open>getParameterIssues\<close>\<close>

text \<open>The issues of the property itself; \<open>True\<close> if it is displayed.\<close>

definition own_issues :: "IssueLib \<Rightarrow> ParamNode \<Rightarrow> INodeProperties \<Rightarrow> json option \<Rightarrow> string \<Rightarrow> (bool \<times> INodeIssues) result" where
  "own_issues lib node p nodeValues path =
     rbind (displayParameterPath (il_params lib) node nodeValues (pp_displayOptions (np_extras p)) path) (\<lambda>isDisplayed.
     let v = getParameterValueByPath (il_params lib) nodeValues (np_name p) path in
     rbind (if pp_required (np_extras p) = Some True \<and> isDisplayed then required_issues lib p v empty_issues else Inr empty_issues) (\<lambda>issues.
     rbind (value_issues lib p isDisplayed v issues) (\<lambda>issues. Inr (isDisplayed, issues))))"

function getParameterIssues :: "IssueLib \<Rightarrow> ParamNode \<Rightarrow> json option \<Rightarrow> INodeProperties \<Rightarrow> string \<Rightarrow> INodeIssues result" where
  "getParameterIssues lib node nodeValues p path =
     rbind (own_issues lib node p nodeValues path) (\<lambda>(isDisplayed, issues).
     rbind (child_properties (il_params lib) p nodeValues path isDisplayed issues) (\<lambda>(children, issues).
     rfold (\<lambda>(basePath, q) issues.
       rbind (getParameterIssues lib node nodeValues q basePath) (\<lambda>found. Inr (mergeIssues issues (Some found))))
       children issues))"
  by pat_completeness auto

termination
  by (relation "measure (\<lambda>(lib, node, v, p, path). prop_depth p)") (auto dest!: child_properties_depth)

declare getParameterIssues.simps [simp del]

definition getNodeParametersIssues :: "IssueLib \<Rightarrow> ParamNode \<Rightarrow> INodeProperties list \<Rightarrow> INode \<Rightarrow> string list option
    \<Rightarrow> INodeIssues option result" where
  "getNodeParametersIssues lib pnode ps node pinDataNodeNames =
     (if node_disabled node = Some True \<or> node_name node \<in> set (or_else pinDataNodeNames []) then Inr None
      else rbind (rfold (\<lambda>p found.
          rbind (getParameterIssues lib pnode (Some (JObj (node_parameters node))) p [])
            (\<lambda>issues. Inr (mergeIssues found (Some issues)))) ps empty_issues) (\<lambda>found.
        Inr (if found = empty_issues then None else Some found)))"

section \<open>Examples\<close>

definition sample_ilib :: IssueLib where
  "sample_ilib = \<lparr>il_params = sample_lib, il_values = sample_vlib,
     il_filter = (\<lambda>_. \<lparr>fv_options = sample_filter_options, fv_conditions = [], fv_combinator = ''and''\<rparr>)\<rparr>"

definition required_extras :: "string \<Rightarrow> PropertyExtras" where
  "required_extras nm = no_extras\<lparr>pp_displayName := nm, pp_required := Some True\<rparr>"

definition url_property :: INodeProperties where
  "url_property = Property ''url'' PtString (Some (JStr [])) (required_extras ''URL'') None"

lemma url_property_simps [simp]:
  "np_name url_property = ''url''" "np_type url_property = PtString" "np_options url_property = None"
  "np_extras url_property = required_extras ''URL''"
  by (simp_all add: url_property_def)

lemma required_extras_simps [simp]:
  "pp_required (required_extras nm) = Some True" "pp_displayOptions (required_extras nm) = None"
  "pp_multipleValues (required_extras nm) = None" "pp_validateType (required_extras nm) = None"
  by (simp_all add: required_extras_def no_extras_def)

lemma sample_ilib_get [simp]: "lib_get (il_params sample_ilib) (Some (JObj fs)) k = map_of fs k"
  by (simp add: sample_ilib_def sample_lib_def field_of_def)

section \<open>Properties\<close>

lemma merge_property_issues:
  assumes "js_wf (or_else b [])"
  shows "issues_at (merge_property a b) nm = issues_at a nm @ issues_at b nm"
proof (cases b)
  case None
  then show ?thesis by (simp add: merge_property_def issues_at_def or_else_def)
next
  case (Some m)
  have "or_else (map_of (fold (\<lambda>(nm, messages) d. js_put nm (or_else (map_of d nm) [] @ messages) d) m d) nm) []
      = or_else (map_of d nm) [] @ or_else (map_of m nm) []" if "distinct (map fst m)" for d
    using that
  proof (induction m arbitrary: d)
    case (Cons x m)
    have "map_of m (fst x) = None" using Cons.prems by (simp add: map_of_eq_None_iff)
    then show ?case using Cons by (cases x) (auto simp: or_else_def)
  qed (simp add: or_else_def)
  then show ?thesis using assms Some by (simp add: merge_property_def issues_at_def or_else_def js_wf_def)
qed

text \<open>Merging keeps the messages of both sides, those of the destination first, and the flags of either.\<close>

theorem mergeIssues_keeps_messages:
  assumes "js_wf (or_else (ni_parameters s) [])" "js_wf (or_else (ni_credentials s) [])"
  shows "issues_at (ni_parameters (mergeIssues d (Some s))) nm = issues_at (ni_parameters d) nm @ issues_at (ni_parameters s) nm
    \<and> issues_at (ni_credentials (mergeIssues d (Some s))) nm = issues_at (ni_credentials d) nm @ issues_at (ni_credentials s) nm
    \<and> ni_execution (mergeIssues d (Some s)) = (ni_execution d \<or> ni_execution s)
    \<and> ni_typeUnknown (mergeIssues d (Some s)) = (ni_typeUnknown d \<or> ni_typeUnknown s)"
  using assms by (simp add: mergeIssues_def merge_property_issues)

lemma mergeIssues_keeps_messages_witness:
  "issues_at (ni_parameters (mergeIssues (add_issue ''url'' ''a'' empty_issues) (Some (add_issue ''url'' ''b'' empty_issues)))) ''url'' = [''a'', ''b'']"
  by (subst mergeIssues_keeps_messages[THEN conjunct1])
    (simp_all add: add_issue_def empty_issues_def issues_at_def or_else_def js_wf_def)

text \<open>Properties of which only a missing value is an issue.\<close>

definition only_required :: "INodeProperties \<Rightarrow> bool" where
  "only_required p \<longleftrightarrow> np_type p \<in> {PtString, PtDateTime, PtOptions} \<and> pp_multipleValues (np_extras p) = None
     \<and> pp_validateType (np_extras p) = None"

definition is_missing :: "ParamLib \<Rightarrow> json option \<Rightarrow> INodeProperties \<Rightarrow> bool" where
  "is_missing lib v p \<longleftrightarrow> lib_get lib v (np_name p) = None \<or> lib_get lib v (np_name p) = Some (JStr [])"

definition missing_issue :: "INodeProperties \<Rightarrow> INodeIssues" where
  "missing_issue p = empty_issues\<lparr>ni_parameters := Some [(np_name p, [required_message p])]\<rparr>"

lemma add_first_issue [simp]: "add_issue nm m empty_issues = empty_issues\<lparr>ni_parameters := Some [(nm, [m])]\<rparr>"
  by (simp add: add_issue_def empty_issues_def issues_at_def or_else_def)

lemma getParameterIssues_required:
  assumes p: "only_required p"
    and shown: "displayParameter (il_params lib) node v (pp_displayOptions (np_extras p)) v = Inr shown"
  shows "getParameterIssues lib node v p [] =
    Inr (if pp_required (np_extras p) = Some True \<and> shown \<and> is_missing (il_params lib) v p then missing_issue p else empty_issues)"
proof -
  have own: "own_issues lib node p v [] = Inr (shown,
      if pp_required (np_extras p) = Some True \<and> shown \<and> is_missing (il_params lib) v p then missing_issue p else empty_issues)"
    using p shown
    by (auto simp: own_issues_def displayParameterPath_def Let_def only_required_def required_issues_def addToIssuesIfMissing_def
        value_missing_def is_missing_def getParameterValueByPath_def value_issues_def missing_issue_def)
  have "child_properties (il_params lib) p v [] shown issues = Inr ([], issues)" for issues
    using p by (auto simp: child_properties_def only_required_def split: option.split)
  then show ?thesis by (subst getParameterIssues.simps) (simp add: own)
qed

lemma merge_no_issues [simp]: "mergeIssues d (Some empty_issues) = d"
  by (simp add: mergeIssues_def empty_issues_def merge_property_def)

lemma merge_missing_issue:
  assumes "np_name p \<notin> fst ` set (or_else (ni_parameters d) [])"
  shows "mergeIssues d (Some (missing_issue p)) =
    d\<lparr>ni_parameters := Some (or_else (ni_parameters d) [] @ [(np_name p, [required_message p])])\<rparr>"
proof -
  have "map_of (or_else (ni_parameters d) []) (np_name p) = None" using assms by (simp add: map_of_eq_None_iff)
  then show ?thesis using assms
    by (simp add: mergeIssues_def missing_issue_def empty_issues_def merge_property_def or_else_def[of None] js_put_new)
qed

lemma url_only_required: "only_required url_property"
  by (simp add: only_required_def)

text \<open>For a list of properties of which only a missing value is an issue, the issues of a node that is neither
  disabled nor pinned are exactly the required properties that are displayed and have no value, one
  message for each in the order of the list; without such a property there are none.\<close>

theorem required_parameters_reported:
  assumes "distinct (map np_name ps)" "\<forall>p \<in> set ps. only_required p"
    and "node_disabled node \<noteq> Some True" "node_name node \<notin> set (or_else pinned [])"
    and v: "v = Some (JObj (node_parameters node))"
    and "\<forall>p \<in> set ps. displayParameter (il_params lib) pnode v (pp_displayOptions (np_extras p)) v = Inr (c p)"
    and m: "missing_ps = filter (\<lambda>p. pp_required (np_extras p) = Some True \<and> c p \<and> is_missing (il_params lib) v p) ps"
  shows "getNodeParametersIssues lib pnode ps node pinned =
    Inr (if missing_ps = [] then None
         else Some (empty_issues\<lparr>ni_parameters := Some (map (\<lambda>p. (np_name p, [required_message p])) missing_ps)\<rparr>))"
proof -
  let ?miss = "\<lambda>p. pp_required (np_extras p) = Some True \<and> c p \<and> is_missing (il_params lib) v p"
  let ?list = "map (\<lambda>p. (np_name p, [required_message p]))"
  let ?found = "\<lambda>qs. empty_issues\<lparr>ni_parameters := (if filter ?miss qs = [] then None else Some (?list (filter ?miss qs)))\<rparr>"
  let ?round = "\<lambda>p found. rbind (getParameterIssues lib pnode v p []) (\<lambda>issues. Inr (mergeIssues found (Some issues)))"
  have "\<exists>found. rfold ?round ps empty_issues = Inr found \<and> found = ?found ps"
  proof (rule rfold_total_prefix)
    show "empty_issues = ?found []" by (simp add: empty_issues_def)
    fix pre p rest found
    assume ps: "ps = pre @ p # rest" and found: "found = ?found pre"
    have issues: "getParameterIssues lib pnode v p [] = Inr (if ?miss p then missing_issue p else empty_issues)"
      using assms(2,6) ps by (subst getParameterIssues_required[where shown = "c p"]) auto
    have "np_name p \<notin> np_name ` set pre" using assms(1) ps by auto
    then have new: "np_name p \<notin> fst ` set (or_else (ni_parameters found) [])"
      by (auto simp: found or_else_def split: if_splits)
    have "mergeIssues found (Some (if ?miss p then missing_issue p else empty_issues)) = ?found (pre @ [p])"
      using merge_missing_issue[OF new] by (auto simp: found or_else_def)
    then show "\<exists>s'. ?round p found = Inr s' \<and> s' = ?found (pre @ [p])"
      by (simp only: issues rbind_simps) blast
  qed
  then show ?thesis using assms(3,4) by (auto simp: getNodeParametersIssues_def v m empty_issues_def)
qed

lemma required_parameters_reported_witness:
  "getNodeParametersIssues sample_ilib sample_param_node [url_property] (plain_node 0 ''HTTP'' ''t'') None =
    Inr (Some (empty_issues\<lparr>ni_parameters := Some [(''url'', [required_message url_property])]\<rparr>))"
  by (subst required_parameters_reported[where c = "\<lambda>_. True" and v = "Some (JObj [])" and missing_ps = "[url_property]"])
    (simp_all add: url_only_required plain_node_def or_else_def displayParameter_def is_missing_def)

text \<open>If a required resource locator is \<open>null\<close>, the check throws a \<open>TypeError\<close> instead of reporting an issue.\<close>

theorem null_resource_locator_throws:
  assumes "np_type p = PtResourceLocator" "pp_required (np_extras p) = Some True" "pp_displayOptions (np_extras p) = None"
    and "pp_multipleValues (np_extras p) = None" "lib_get (il_params lib) (Some (JObj (node_parameters node))) (np_name p) = Some JNull"
    and "node_disabled node \<noteq> Some True" "node_name node \<notin> set (or_else pinned [])"
  shows "getNodeParametersIssues lib pnode (p # ps) node pinned = Inl TypeError"
proof -
  have "getParameterIssues lib pnode (Some (JObj (node_parameters node))) p [] = Inl TypeError"
    using assms by (subst getParameterIssues.simps)
      (simp add: own_issues_def displayParameterPath_def displayParameter_def required_issues_def addToIssuesIfMissing_def
        value_missing_def getParameterValueByPath_def isValidResourceLocatorParameterValue_def)
  then show ?thesis using assms(6,7) by (simp add: getNodeParametersIssues_def)
qed

lemma null_resource_locator_throws_witness:
  "getNodeParametersIssues sample_ilib sample_param_node [Property ''base'' PtResourceLocator None (required_extras ''Base'') None]
     ((plain_node 0 ''Airtable'' ''t'')\<lparr>node_parameters := [(''base'', JNull)]\<rparr>) None = Inl TypeError"
  by (rule null_resource_locator_throws) (simp_all add: plain_node_def or_else_def)

text \<open>The properties of a collection are checked at the level of the collection itself: if the node has no value
  of the name of a required one at the top level, it is reported as missing, whatever the value of the
  collection holds.\<close>

theorem collection_child_reported:
  assumes p: "np_type p = PtCollection" "np_options p = Some [OptionProperty q]" "pp_required (np_extras p) \<noteq> Some True"
      "pp_validateType (np_extras p) = None" "pp_displayOptions (np_extras p) = None"
    and q: "only_required q" "pp_required (np_extras q) = Some True" "pp_displayOptions (np_extras q) = None"
    and v: "lib_get (il_params lib) v (np_name q) = None"
  shows "getParameterIssues lib node v p [] = Inr (missing_issue q)"
proof -
  have own: "own_issues lib node p v [] = Inr (True, empty_issues)"
    using p by (simp add: own_issues_def displayParameterPath_def displayParameter_def value_issues_def)
  have child: "getParameterIssues lib node v q [] = Inr (missing_issue q)"
    using q v by (subst getParameterIssues_required[where shown = True]) (simp_all add: displayParameter_def is_missing_def)
  have "mergeIssues empty_issues (Some (missing_issue q)) = missing_issue q"
    by (simp add: mergeIssues_def missing_issue_def empty_issues_def merge_property_def or_else_def)
  then show ?thesis using p
    by (subst getParameterIssues.simps) (simp add: own child_properties_def child)
qed

lemma collection_child_reported_witness:
  "getParameterIssues sample_ilib sample_param_node (Some (JObj [(''options'', JObj [(''url'', JStr ''https://n8n.io'')])]))
     (Property ''options'' PtCollection (Some (JObj [])) no_extras (Some [OptionProperty url_property])) [] = Inr (missing_issue url_property)"
  by (rule collection_child_reported) (simp_all add: no_extras_def url_only_required)

text \<open>A fixed collection below the top level looks for its options at a path that has two dots after the path of its
  parent and leaves its own name out: without a value there, none of its properties is checked.\<close>

theorem nested_fixed_collection_unchecked:
  assumes p: "np_type p = PtFixedCollection" "np_options p = Some [opt]" "pp_required (np_extras p) \<noteq> Some True"
      "pp_validateType (np_extras p) = None" "pp_displayOptions (np_extras p) = None" "pp_minRequiredFields (np_extras p) = None"
    and path: "path \<noteq> []" and v: "lib_get (il_params lib) v (path @ ''..'' @ option_name opt) = None"
  shows "getParameterIssues lib node v p path = Inr empty_issues"
proof -
  have own: "own_issues lib node p v path = Inr (True, empty_issues)"
    using p by (simp add: own_issues_def displayParameterPath_def displayParameter_def value_issues_def)
  have "getParameterValueByPath (il_params lib) v (option_name opt) (butlast ((path @ ''.'') @ ''.'')) = None"
    using v path by (simp add: getParameterValueByPath_def butlast_append)
  then have "child_properties (il_params lib) p v path True empty_issues = Inr ([], empty_issues)"
    using p path by (simp add: child_properties_def option_children_def field_count_error_def Let_def split: option.split)
  then show ?thesis by (subst getParameterIssues.simps) (simp add: own)
qed

lemma nested_fixed_collection_unchecked_witness:
  "getParameterIssues sample_ilib sample_param_node (Some (JObj [(''body'', JObj [(''header'', JObj [(''pair'', JObj [])])])]))
     (Property ''header'' PtFixedCollection (Some (JObj [])) no_extras (Some [OptionCollection ''pair'' [url_property]])) ''body''
   = Inr empty_issues"
  by (rule nested_fixed_collection_unchecked[where opt = "OptionCollection ''pair'' [url_property]"]) (simp_all add: no_extras_def)

text \<open>The value of a parameter that is not displayed is validated all the same, if the property has a type to validate.\<close>

theorem hidden_parameter_validated:
  assumes "displayParameter (il_params lib) node v (pp_displayOptions (np_extras p)) v = Inr False"
    and "pp_validateType (np_extras p) = Some ty" "ty \<noteq> []" "np_options p = None"
    and "validateParameter (il_values lib) p (lib_get (il_params lib) v (np_name p)) ty = [m]"
  shows "getParameterIssues lib node v p [] = Inr (empty_issues\<lparr>ni_parameters := Some [(np_name p, [m])]\<rparr>)"
  using assms by (subst getParameterIssues.simps)
    (cases ty; simp add: own_issues_def displayParameterPath_def getParameterValueByPath_def value_issues_def child_properties_def)

lemma hidden_parameter_validated_witness:
  "\<exists>m. getParameterIssues sample_ilib sample_param_node (Some (JObj [(''mode'', JStr ''a''), (''count'', JStr ''x'')]))
     (Property ''count'' PtString None (no_extras\<lparr>pp_validateType := Some ''number'', pp_displayOptions := show_if ''mode'' (JStr ''b'')\<rparr>) None) []
   = Inr (empty_issues\<lparr>ni_parameters := Some [(''count'', [m])]\<rparr>)"
proof -
  let ?v = "Some (JObj [(''mode'', JStr ''a''), (''count'', JStr ''x'')])"
  let ?p = "Property ''count'' PtString None (no_extras\<lparr>pp_validateType := Some ''number'', pp_displayOptions := show_if ''mode'' (JStr ''b'')\<rparr>) None"
  have hidden: "displayParameter (il_params sample_ilib) sample_param_node ?v (pp_displayOptions (np_extras ?p)) ?v = Inr False"
    by (simp add: displayParameter_def show_if_def truthy_at_def getPropertyValues_def is_expression_def check_rules_def
        checkConditions_def same_value_def)
  have "\<exists>m. validateParameter (il_values sample_ilib) ?p (lib_get (il_params sample_ilib) ?v (np_name ?p)) ''number'' = [m]"
    by (simp add: validateParameter_def text_of_def nullish_def starts_expression_def sample_ilib_def sample_lib_def field_of_def
        of_json_def sample_vlib_def has_prefix_def field_type_of_def or_else_def validateFieldType_def tryToParseNumber_def
        validated_def invalid_message_def quoted_def)
  then obtain m where "validateParameter (il_values sample_ilib) ?p (lib_get (il_params sample_ilib) ?v (np_name ?p)) ''number'' = [m]" ..
  from hidden_parameter_validated[OF hidden _ _ _ this] show ?thesis by auto
qed

end
