(* ===== verification/NodeNaming.thy ===== *)
theory NodeNaming
  imports NodeParameters FieldValidation "HOL-Library.Word"
begin

text \<open>
  What node types tell about their nodes: inputs and outputs, versions, names and descriptions, webhook
  paths, contexts (the rest of \<^verbatim>\<open>packages/workflow/src/node-helpers.ts\<close>, \<^verbatim>\<open>versioned-node-type.ts\<close>,
  \<^verbatim>\<open>tool-helpers.ts\<close>), the cron expressions of \<^verbatim>\<open>cron.ts\<close> and the random numbers of \<^verbatim>\<open>utils.ts\<close>.
\<close>

section \<open>Descriptions of node types\<close>

datatype IOEntry =
    IOName NodeConnectionType
  | IOConfig "NodeConnectionType option" "string option" "string option"

datatype IODeclaration = IOList "IOEntry list" | IOExpr string

record INodeTypeDescription =
  nd_name :: string
  nd_displayName :: string
  nd_description :: string
  nd_defaultName :: "string option"
  nd_group :: "string list"
  nd_inputs :: IODeclaration
  nd_outputs :: IODeclaration
  nd_properties :: "INodeProperties list"

definition getConnectionTypes :: "IOEntry list \<Rightarrow> NodeConnectionType list" where
  "getConnectionTypes entries =
     List.map_filter (\<lambda>e. case e of IOName t \<Rightarrow> Some t | IOConfig t dn cat \<Rightarrow> t) entries"

definition isSubNodeType :: "IODeclaration option \<Rightarrow> bool" where
  "isSubNodeType outputs = (case outputs of
     Some (IOList entries) \<Rightarrow> \<exists>t \<in> set (getConnectionTypes entries). t \<noteq> MainConn
   | _ \<Rightarrow> False)"

text \<open>
  An expression is evaluated for the node by \<open>eval\<close>; \<open>None\<close> stands for an error, which is logged, and a value
  that is not true for the empty list.
\<close>

definition getNodeInputs :: "(INode \<Rightarrow> string \<Rightarrow> IOEntry list option) \<Rightarrow> INode \<Rightarrow> INodeTypeDescription \<Rightarrow> IOEntry list" where
  "getNodeInputs eval node nt = (case nd_inputs nt of
     IOList entries \<Rightarrow> entries
   | IOExpr e \<Rightarrow> or_else (eval node e) [])"

definition success_output :: "IOEntry \<Rightarrow> IOEntry" where
  "success_output e = (case e of
     IOName t \<Rightarrow> IOConfig (Some t) (Some ''Success'') None
   | IOConfig t dn cat \<Rightarrow> IOConfig t (Some ''Success'') cat)"

definition error_output :: IOEntry where
  "error_output = IOConfig (Some MainConn) (Some ''Error'') (Some ''error'')"

definition getNodeOutputs :: "(INode \<Rightarrow> string \<Rightarrow> IOEntry list option) \<Rightarrow> INode \<Rightarrow> INodeTypeDescription \<Rightarrow> IOEntry list" where
  "getNodeOutputs eval node nt =
     (let outputs = (case nd_outputs nt of IOList entries \<Rightarrow> entries | IOExpr e \<Rightarrow> or_else (eval node e) [])
      in if node_onError node = Some ContinueErrorOutput
         then (case outputs of [e] \<Rightarrow> [success_output e] | _ \<Rightarrow> outputs) @ [error_output]
         else outputs)"

definition isTriggerNode :: "INodeTypeDescription \<Rightarrow> bool" where
  "isTriggerNode nt \<longleftrightarrow> ''trigger'' \<in> set (nd_group nt)"

definition isExecutable :: "(INode \<Rightarrow> string \<Rightarrow> IOEntry list option) \<Rightarrow> INode \<Rightarrow> INodeTypeDescription \<Rightarrow> bool" where
  "isExecutable eval node nt =
     (let types = getConnectionTypes (getNodeOutputs eval node nt)
      in MainConn \<in> set types \<or> AiTool \<in> set types \<or> isTriggerNode nt)"

definition isNodeWithWorkflowSelector :: "INode \<Rightarrow> bool" where
  "isNodeWithWorkflowSelector node \<longleftrightarrow>
     node_type node \<in> {''n8n-nodes-base.executeWorkflow'', ''@n8n/n8n-nodes-langchain.toolWorkflow''}"

definition getSubworkflowId :: "INode \<Rightarrow> json option" where
  "getSubworkflowId node =
     (case map_of (node_parameters node) ''workflowId'' of
        Some (JObj fs) \<Rightarrow>
          if isNodeWithWorkflowSelector node \<and> (\<forall>k \<in> {''mode'', ''value'', ''__rl''}. map_of fs k \<noteq> None)
          then map_of fs ''value'' else None
      | _ \<Rightarrow> None)"

section \<open>Merging of properties, versions\<close>

definition mergeNodeProperties :: "INodeProperties list \<Rightarrow> INodeProperties list \<Rightarrow> INodeProperties list" where
  "mergeNodeProperties mainProperties addProperties = fold (\<lambda>p ps.
     if pp_doNotInherit (np_extras p) then ps
     else case findIndex (\<lambda>q. np_name q = np_name p) ps of
       None \<Rightarrow> ps @ [p]
     | Some i \<Rightarrow> ps[i := p]) addProperties mainProperties"

record 'a VersionedNodeType =
  vn_currentVersion :: rat
  vn_nodeVersions :: "(rat \<times> 'a) list"

definition latest_version :: "(rat \<times> 'a) list \<Rightarrow> rat" where
  "latest_version versions = fold max (map fst (tl versions)) (fst (hd versions))"

definition new_versioned_type :: "(rat \<times> 'a) list \<Rightarrow> rat option \<Rightarrow> 'a VersionedNodeType" where
  "new_versioned_type versions defaultVersion =
     \<lparr>vn_currentVersion = or_else defaultVersion (latest_version versions), vn_nodeVersions = versions\<rparr>"

text \<open>Version \<open>0\<close> counts as none.\<close>

definition getNodeType :: "'a VersionedNodeType \<Rightarrow> rat option \<Rightarrow> 'a option" where
  "getNodeType vt version = (case version of
     Some v \<Rightarrow> map_of (vn_nodeVersions vt) (if v \<noteq> 0 then v else vn_currentVersion vt)
   | None \<Rightarrow> map_of (vn_nodeVersions vt) (vn_currentVersion vt))"

datatype 'a AnyNodeType = SingleVersion 'a | Versioned "'a VersionedNodeType"

definition getVersionedNodeType :: "'a AnyNodeType \<Rightarrow> rat option \<Rightarrow> 'a option" where
  "getVersionedNodeType x version = (case x of SingleVersion nt \<Rightarrow> Some nt | Versioned vt \<Rightarrow> getNodeType vt version)"

section \<open>Names and descriptions\<close>

datatype ResolvedOperation = NamedAction string | OperationOf json json | NoOperation

definition names_resource :: "json option \<Rightarrow> INodeProperties \<Rightarrow> bool" where
  "names_resource resource p \<longleftrightarrow> np_name p = ''operation'' \<and>
     (case pp_displayOptions (np_extras p) of
        None \<Rightarrow> False
      | Some opts \<Rightarrow> (case map_of (or_else (do_show opts) []) ''resource'' of
           Some (Some rules) \<Rightarrow> \<exists>r \<in> set rules. case r of RuleValue v \<Rightarrow> same_value v resource | RuleCnd _ \<Rightarrow> False
         | _ \<Rightarrow> False))"

definition resolveResourceAndOperation :: "(string, json) js_map \<Rightarrow> INodeTypeDescription \<Rightarrow> ResolvedOperation" where
  "resolveResourceAndOperation params nt =
     (let resource = map_of params ''resource''; operation = map_of params ''operation'';
          action = (case find (names_resource resource) (nd_properties nt) of
            Some p \<Rightarrow> (case np_options p of
                Some os \<Rightarrow>
                  if \<forall>x \<in> set os. option_value x \<noteq> None
                  then (case find (\<lambda>x. same_value (option_value x) operation) os of
                      Some (OptionValue nm v (Some (c # cs))) \<Rightarrow> Some (c # cs)
                    | _ \<Rightarrow> None)
                  else None
              | None \<Rightarrow> None)
          | None \<Rightarrow> None)
      in case action of
        Some a \<Rightarrow> NamedAction a
      | None \<Rightarrow> if truthy_at resource \<and> truthy_at operation then OperationOf (the operation) (the resource) else NoOperation)"

text \<open>A template with a value in it; \<open>undefined\<close> is written out.\<close>

definition in_template :: "string option \<Rightarrow> string" where
  "in_template s = (case s of None \<Rightarrow> ''undefined'' | Some s \<Rightarrow> s)"

definition makeDescription :: "ValidationLib \<Rightarrow> (string, json) js_map \<Rightarrow> INodeTypeDescription \<Rightarrow> string" where
  "makeDescription lib params nt = (case resolveResourceAndOperation params nt of
     NamedAction a \<Rightarrow> a @ '' in '' @ in_template (nd_defaultName nt)
   | OperationOf op res \<Rightarrow> vl_String lib (Js op) @ '' '' @ vl_String lib (Js res) @ '' in '' @ in_template (nd_defaultName nt)
   | NoOperation \<Rightarrow> nd_description nt)"

definition described_type :: "INodeTypeDescription \<Rightarrow> INodeType" where
  "described_type nt = \<lparr>nt_name = nd_name nt, nt_group = nd_group nt,
     nt_outputs = (case nd_outputs nt of
        IOExpr e \<Rightarrow> OutputExpr e
      | IOList entries \<Rightarrow> OutputList (map (\<lambda>e. case e of IOName t \<Rightarrow> OutputName t | IOConfig t dn cat \<Rightarrow> OutputConf t) entries)),
     nt_trigger = isTriggerNode nt, nt_poll = False\<rparr>"

text \<open>An operation that is no string has no first character.\<close>

definition makeNodeName :: "ValidationLib \<Rightarrow> (string, json) js_map \<Rightarrow> INodeTypeDescription \<Rightarrow> string result" where
  "makeNodeName lib params nt =
     (let postfix = (if isTool (described_type nt) params then '' in '' @ in_template (nd_defaultName nt) else [])
      in case resolveResourceAndOperation params nt of
        NamedAction a \<Rightarrow> Inr (a @ postfix)
      | OperationOf op res \<Rightarrow> (case op of
          JStr s \<Rightarrow> Inr (vl_upper lib (take 1 s) @ drop 1 s @ '' '' @ vl_String lib (Js res) @ postfix)
        | _ \<Rightarrow> Inl TypeError)
      | NoOperation \<Rightarrow> Inr (or_else (nd_defaultName nt) (nd_displayName nt)))"

definition default_name_of :: "string \<Rightarrow> string \<Rightarrow> bool" where
  "default_name_of nm defaultName \<longleftrightarrow> has_prefix defaultName nm \<and> list_all is_digit (drop (length defaultName) nm)"

definition isDefaultNodeName :: "ValidationLib \<Rightarrow> string \<Rightarrow> INodeTypeDescription \<Rightarrow> (string, json) js_map \<Rightarrow> bool result" where
  "isDefaultNodeName lib nm nt params =
     rbind (makeNodeName lib params nt) (\<lambda>current.
     Inr (default_name_of nm (or_else (nd_defaultName nt) (nd_displayName nt)) \<or> default_name_of nm current))"

definition blank_text :: "ValidationLib \<Rightarrow> json option \<Rightarrow> bool" where
  "blank_text lib v \<longleftrightarrow> nullish v \<or> vl_trim lib (vl_String lib (of_json v)) = []"

definition getUpdatedToolDescription :: "ValidationLib \<Rightarrow> INodeTypeDescription option \<Rightarrow> (string, json) js_map option
    \<Rightarrow> (string, json) js_map option \<Rightarrow> string option" where
  "getUpdatedToolDescription lib currentNodeType newParameters currentParameters =
     (case (currentNodeType, newParameters, currentParameters) of
        (Some nt, Some new, Some current) \<Rightarrow>
          let tool = map_of new ''toolDescription''
          in if map_of new ''descriptionType'' = Some (JStr ''manual'')
             \<and> (tool = Some (JStr (makeDescription lib current nt)) \<or> blank_text lib tool \<or> tool = Some (JStr (nd_description nt)))
             then Some (makeDescription lib new nt) else None
      | _ \<Rightarrow> None)"

text \<open>The description of the node itself is a value of any type, which is true.\<close>

definition getToolDescriptionForNode :: "ValidationLib \<Rightarrow> INode \<Rightarrow> INodeTypeDescription \<Rightarrow> json" where
  "getToolDescriptionForNode lib node nt =
     (let params = node_parameters node; tool = map_of params ''toolDescription''
      in if map_of params ''descriptionType'' = Some (JStr ''auto'') \<or> blank_text lib tool
         then JStr (makeDescription lib params nt)
         else if truthy_at tool then the tool
         else JStr (nd_description nt))"

definition is_special :: "char \<Rightarrow> bool" where
  "is_special c \<longleftrightarrow> is_space c \<or> c \<in> set ''.?!=+#@&*()[]{}:;,<>/^%$_'' \<or> c = CHR 92 \<or> c = CHR 39 \<or> c = CHR 34"

text \<open>Runs of special characters become one underscore; the flag tells whether the last character was one.\<close>

fun replace_specials :: "bool \<Rightarrow> string \<Rightarrow> string" where
  "replace_specials after [] = []"
| "replace_specials after (c # cs) =
     (if is_special c then (if after then replace_specials True cs else CHR ''_'' # replace_specials True cs)
      else c # replace_specials False cs)"

definition nodeNameToToolName :: "string \<Rightarrow> string" where
  "nodeNameToToolName nm = replace_specials False nm"

section \<open>Webhooks\<close>

definition getNodeWebhookPath :: "(string \<Rightarrow> string) \<Rightarrow> ValidationLib \<Rightarrow> string \<Rightarrow> INode \<Rightarrow> string \<Rightarrow> bool option \<Rightarrow> bool option \<Rightarrow> string" where
  "getNodeWebhookPath encodeURIComponent lib workflowId node path isFullPath restartWebhook =
     (if restartWebhook = Some True then path
      else case node_webhookId node of
        None \<Rightarrow> workflowId @ ''/'' @ encodeURIComponent (vl_lower lib (node_name node)) @ ''/'' @ path
      | Some hook \<Rightarrow>
          if isFullPath = Some True then (if path \<noteq> [] then path else hook)
          else hook @ ''/'' @ path)"

definition getNodeWebhookUrl :: "(string \<Rightarrow> string) \<Rightarrow> ValidationLib \<Rightarrow> string \<Rightarrow> string \<Rightarrow> INode \<Rightarrow> string \<Rightarrow> bool option \<Rightarrow> string" where
  "getNodeWebhookUrl encodeURIComponent lib baseUrl workflowId node path isFullPath =
     (let isFullPath = (if (has_prefix '':'' path \<or> is_infix ''/:'' path) \<and> (case node_webhookId node of Some (c # cs) \<Rightarrow> True | _ \<Rightarrow> False)
          then Some False else isFullPath);
          path = (if has_prefix ''/'' path then drop 1 path else path)
      in baseUrl @ ''/'' @ getNodeWebhookPath encodeURIComponent lib workflowId node path isFullPath None)"

section \<open>Contexts\<close>

text \<open>\<open>contexts\<close> is the field \<open>contextData\<close>; the result is the key whose object is returned, and the new field.\<close>

definition getContext :: "(string, (string, json) js_map) js_map option \<Rightarrow> string \<Rightarrow> string option
    \<Rightarrow> (string \<times> (string, (string, json) js_map) js_map) result" where
  "getContext contexts type nodeName = (case contexts of
     None \<Rightarrow> Inl (ApplicationError ''`executionData` is not initialized'')
   | Some m \<Rightarrow>
     rbind (if type = ''flow'' then Inr ''flow''
       else if type = ''node''
       then (case nodeName of
           None \<Rightarrow> Inl (ApplicationError ''The request data of context type \"node\" the node parameter has to be set!'')
         | Some nm \<Rightarrow> Inr (''node:'' @ nm))
       else Inl (ApplicationError ''Unknown context type. Only `flow` and `node` are supported.'')) (\<lambda>key.
     Inr (key, if map_of m key = None then js_put key [] m else m)))"

section \<open>Random numbers and cron expressions\<close>

text \<open>\<open>crypto.getRandomValues\<close> gives words of 32 bits.\<close>

definition randomInt :: "32 word \<Rightarrow> nat \<Rightarrow> nat \<Rightarrow> nat" where
  "randomInt r lo hi = lo + unat r mod (hi - lo)"

definition ALPHABET :: string where
  "ALPHABET = ''0123456789ABCDEFGHIJKLMNOPQRSTUVWXYZabcdefghijklmnopqrstuvwxyz''"

text \<open>One more word gives the length, if it is a range.\<close>

definition randomString :: "32 word \<Rightarrow> (nat \<Rightarrow> 32 word) \<Rightarrow> nat \<Rightarrow> nat option \<Rightarrow> string" where
  "randomString r bytes minLength maxLength =
     (let len = (case maxLength of None \<Rightarrow> minLength | Some m \<Rightarrow> randomInt r minLength (m + 1))
      in map (\<lambda>i. ALPHABET ! (unat (bytes i) mod length ALPHABET)) [0..<len])"

datatype TriggerTime =
    CustomTrigger string | EveryMinute | EveryXMinutes nat | EveryHour nat | EveryXHours nat
  | EveryDay nat nat | EveryWeek nat nat nat | EveryMonth nat nat nat

text \<open>
  The arguments of a time are, as far as it has them, the hour, the minute and the day, in this order. The
  two words are the random second and minute.
\<close>

definition toCronExpression :: "ValidationLib \<Rightarrow> 32 word \<Rightarrow> 32 word \<Rightarrow> TriggerTime \<Rightarrow> string" where
  "toCronExpression lib r r' t =
     (let second = nat_str (randomInt r 0 60); minute = nat_str (randomInt r' 0 60); fields = join_with '' ''
      in case t of
        EveryMinute \<Rightarrow> fields [second, ''*'', ''*'', ''*'', ''*'', ''*'']
      | EveryHour m \<Rightarrow> fields [second, nat_str m, ''*'', ''*'', ''*'', ''*'']
      | EveryXMinutes n \<Rightarrow> fields [second, ''*/'' @ nat_str n, ''*'', ''*'', ''*'', ''*'']
      | EveryXHours n \<Rightarrow> fields [second, minute, ''*/'' @ nat_str n, ''*'', ''*'', ''*'']
      | EveryDay h m \<Rightarrow> fields [second, nat_str m, nat_str h, ''*'', ''*'', ''*'']
      | EveryWeek h m d \<Rightarrow> fields [second, nat_str m, nat_str h, ''*'', ''*'', nat_str d]
      | EveryMonth h m d \<Rightarrow> fields [second, nat_str m, nat_str h, nat_str d, ''*'', ''*'']
      | CustomTrigger s \<Rightarrow> vl_trim lib s)"

section \<open>Properties\<close>

text \<open>Overwriting by name keeps one property of each name; the last one added is found.\<close>

lemma findIndex_name:
  assumes "findIndex (\<lambda>q. np_name q = nm) ps = Some i"
  shows "i < length ps" "np_name (ps ! i) = nm"
  using findIndex_SomeD[OF assms] by auto

definition put_property :: "INodeProperties \<Rightarrow> INodeProperties list \<Rightarrow> INodeProperties list" where
  "put_property p ps = (if pp_doNotInherit (np_extras p) then ps
     else case findIndex (\<lambda>q. np_name q = np_name p) ps of None \<Rightarrow> ps @ [p] | Some i \<Rightarrow> ps[i := p])"

lemma put_property_names:
  "map np_name (put_property p ps) =
     (if pp_doNotInherit (np_extras p) \<or> np_name p \<in> np_name ` set ps then map np_name ps else map np_name ps @ [np_name p])"
proof (cases "findIndex (\<lambda>q. np_name q = np_name p) ps")
  case None
  then have "np_name p \<notin> np_name ` set ps" by auto
  then show ?thesis using None by (simp add: put_property_def del: findIndex_None)
next
  case (Some i)
  note i = findIndex_name[OF Some]
  have "map np_name (ps[i := p]) = map np_name ps"
    by (rule nth_equalityI) (use i in \<open>auto simp: nth_list_update\<close>)
  moreover have "np_name p \<in> np_name ` set ps" using i by (metis image_eqI nth_mem)
  ultimately show ?thesis using Some by (simp add: put_property_def)
qed

lemma put_property_mem:
  assumes "distinct (map np_name ps)" "\<not> pp_doNotInherit (np_extras p)"
  shows "set (put_property p ps) = insert p {q \<in> set ps. np_name q \<noteq> np_name p}"
proof (cases "findIndex (\<lambda>q. np_name q = np_name p) ps")
  case None
  then have "{q \<in> set ps. np_name q \<noteq> np_name p} = set ps" by auto
  then show ?thesis using None assms(2) by (simp add: put_property_def del: findIndex_None)
next
  case (Some i)
  note i = findIndex_name[OF Some]
  have uniq: "k = i" if "k < length ps" "np_name (ps ! k) = np_name p" for k
    using assms(1) i that by (metis distinct_conv_nth length_map nth_map)
  have "q \<in> set (ps[i := p]) \<longleftrightarrow> q = p \<or> (q \<in> set ps \<and> np_name q \<noteq> np_name p)" for q
  proof
    assume "q \<in> set (ps[i := p])"
    then obtain k where "k < length ps" "q = ps[i := p] ! k" by (auto simp: in_set_conv_nth)
    then show "q = p \<or> (q \<in> set ps \<and> np_name q \<noteq> np_name p)" using uniq by (cases "k = i") auto
  next
    assume "q = p \<or> (q \<in> set ps \<and> np_name q \<noteq> np_name p)"
    then show "q \<in> set (ps[i := p])"
      using i by (auto simp: in_set_conv_nth nth_list_update intro: exI[of _ i])
  qed
  then show ?thesis using Some assms(2) by (auto simp: put_property_def)
qed

lemma mergeNodeProperties_fold: "mergeNodeProperties ps qs = fold put_property qs ps"
  by (simp add: mergeNodeProperties_def put_property_def[abs_def])

lemma put_property_distinct: "distinct (map np_name ps) \<Longrightarrow> distinct (map np_name (put_property p ps))"
  by (auto simp: put_property_names)

lemma merge_properties_distinct: "distinct (map np_name ps) \<Longrightarrow> distinct (map np_name (fold put_property qs ps))"
  by (induction qs arbitrary: ps) (auto simp: put_property_distinct)

text \<open>Merging into a list with different names gives such a list; it holds the inherited properties, of each
  name the last one, and of the old properties those whose name is not inherited.\<close>

theorem mergeNodeProperties_overrides:
  assumes "distinct (map np_name ps)"
  shows "distinct (map np_name (mergeNodeProperties ps qs))
    \<and> set (mergeNodeProperties ps (qs @ [p])) = (if pp_doNotInherit (np_extras p) then set (mergeNodeProperties ps qs)
        else insert p {q \<in> set (mergeNodeProperties ps qs). np_name q \<noteq> np_name p})"
  using merge_properties_distinct[OF assms, of qs] put_property_mem[OF merge_properties_distinct[OF assms, of qs]]
  by (auto simp: mergeNodeProperties_fold put_property_def)

lemma mergeNodeProperties_overrides_witness:
  "set (mergeNodeProperties sample_properties ([] @ [Property ''resource'' PtHidden None no_extras None])) =
    {Property ''resource'' PtHidden None no_extras None, sample_properties ! 0}"
proof -
  have "distinct (map np_name sample_properties)" by (simp add: sample_properties_def)
  from mergeNodeProperties_overrides[OF this, of "[]" "Property ''resource'' PtHidden None no_extras None"]
  have "set (mergeNodeProperties sample_properties ([] @ [Property ''resource'' PtHidden None no_extras None])) =
    insert (Property ''resource'' PtHidden None no_extras None) {q \<in> set sample_properties. np_name q \<noteq> ''resource''}"
    by (simp add: mergeNodeProperties_def no_extras_def)
  also have "{q \<in> set sample_properties. np_name q \<noteq> ''resource''} = {sample_properties ! 0}"
    by (auto simp: sample_properties_def)
  finally show ?thesis .
qed

lemma success_output_types: "getConnectionTypes [success_output e] = getConnectionTypes [e]"
  by (cases e) (simp_all add: getConnectionTypes_def success_output_def map_filter_simps)

lemma getConnectionTypes_append: "getConnectionTypes (xs @ ys) = getConnectionTypes xs @ getConnectionTypes ys"
  by (simp add: getConnectionTypes_def List.map_filter_def)

text \<open>With the error output switched on, a node has exactly one more output, at the end and of type \<open>main\<close>; the types
  of the others stay.\<close>

theorem error_output_is_last:
  assumes "node_onError node = Some ContinueErrorOutput"
    and "outputs = (case nd_outputs nt of IOList entries \<Rightarrow> entries | IOExpr e \<Rightarrow> or_else (eval node e) [])"
  shows "length (getNodeOutputs eval node nt) = Suc (length outputs)
    \<and> last (getNodeOutputs eval node nt) = error_output
    \<and> getConnectionTypes (getNodeOutputs eval node nt) = getConnectionTypes outputs @ [MainConn]"
proof -
  let ?outs = "case outputs of [e] \<Rightarrow> [success_output e] | _ \<Rightarrow> outputs"
  have "getNodeOutputs eval node nt = ?outs @ [error_output]"
    unfolding getNodeOutputs_def Let_def assms(2) using assms(1) by simp
  moreover have "length ?outs = length outputs" "getConnectionTypes ?outs = getConnectionTypes outputs"
    by (auto simp: success_output_types split: list.split)
  moreover have "getConnectionTypes [error_output] = [MainConn]"
    by (simp add: getConnectionTypes_def error_output_def map_filter_simps)
  ultimately show ?thesis by (simp add: getConnectionTypes_append)
qed

lemma error_output_is_last_witness:
  "getConnectionTypes (getNodeOutputs (\<lambda>_ _. None) ((plain_node 0 ''a'' ''t'')\<lparr>node_onError := Some ContinueErrorOutput\<rparr>)
     \<lparr>nd_name = ''t'', nd_displayName = ''T'', nd_description = [], nd_defaultName = None, nd_group = [],
      nd_inputs = IOList [], nd_outputs = IOList [IOName MainConn], nd_properties = []\<rparr>) = [MainConn, MainConn]"
  by (subst error_output_is_last[where outputs = "[IOName MainConn]", THEN conjunct2, THEN conjunct2])
    (simp_all add: getConnectionTypes_def map_filter_simps)

text \<open>The name that is made for a node is recognised as a default name, with a number after it too.\<close>

theorem made_names_are_default:
  assumes "makeNodeName lib params nt = Inr nm" "list_all is_digit ds"
  shows "isDefaultNodeName lib (nm @ ds) nt params = Inr True"
  using assms by (simp add: isDefaultNodeName_def default_name_of_def has_prefix_def)

lemma made_names_are_default_witness:
  "isDefaultNodeName sample_vlib (''Set'' @ ''12'') \<lparr>nd_name = ''t'', nd_displayName = ''T'', nd_description = [],
     nd_defaultName = Some ''Set'', nd_group = [], nd_inputs = IOList [], nd_outputs = IOList [], nd_properties = []\<rparr> [] = Inr True"
  by (rule made_names_are_default)
    (simp_all add: makeNodeName_def resolveResourceAndOperation_def truthy_at_def or_else_def is_digit_def in_range_def)

lemma underscore_special [simp]: "is_special (CHR ''_'')"
  by (simp add: is_special_def)

lemma replace_specials_again:
  "replace_specials False (replace_specials False s) = replace_specials False s"
  "replace_specials True (replace_specials True s) = replace_specials True s"
proof (induction s)
  case (Cons c s)
  { case 1 show ?case using Cons by simp }
  { case 2 show ?case using Cons by simp }
qed simp_all

fun no_double :: "string \<Rightarrow> bool" where
  "no_double [] = True"
| "no_double [c] = (is_special c \<longrightarrow> c = CHR ''_'')"
| "no_double (c # d # cs) = ((is_special c \<longrightarrow> c = CHR ''_'') \<and> \<not> (is_special c \<and> is_special d) \<and> no_double (d # cs))"

lemma no_double_Cons: "no_double (c # s) \<longleftrightarrow> (is_special c \<longrightarrow> c = CHR ''_'' \<and> (case s of [] \<Rightarrow> True | d # _ \<Rightarrow> \<not> is_special d)) \<and> no_double s"
  by (cases s) auto

lemma replace_specials_no_double:
  "no_double (replace_specials b s) \<and> (b \<longrightarrow> (case replace_specials b s of [] \<Rightarrow> True | d # _ \<Rightarrow> \<not> is_special d))"
  by (induction s arbitrary: b) (auto simp: no_double_Cons)

text \<open>A tool name has no special characters but single underscores, and making a tool name of one changes nothing.\<close>

theorem tool_name_clean:
  "no_double (nodeNameToToolName nm) \<and> nodeNameToToolName (nodeNameToToolName nm) = nodeNameToToolName nm"
  using replace_specials_no_double[of False nm] replace_specials_again(1)[of nm] by (simp add: nodeNameToToolName_def)

lemma randomInt_bounds: "lo < hi \<Longrightarrow> lo \<le> randomInt r lo hi \<and> randomInt r lo hi < hi"
proof -
  assume "lo < hi"
  then have "unat r mod (hi - lo) < hi - lo" by simp
  then show ?thesis unfolding randomInt_def by linarith
qed

text \<open>Random numbers lie in the range that is asked for, the upper bound excluded.\<close>

theorem randomInt_in_range:
  assumes "lo < hi"
  shows "lo \<le> randomInt r lo hi \<and> randomInt r lo hi < hi"
  by (rule randomInt_bounds[OF assms])

lemma randomInt_in_range_witness: "10 \<le> randomInt 4294967295 10 20 \<and> randomInt 4294967295 10 20 < 20"
  by (rule randomInt_in_range) simp

lemma ALPHABET_length: "length ALPHABET = 62"
  by (simp add: ALPHABET_def)

text \<open>A random string has a length within the bounds, both included, and only letters and digits.\<close>

theorem randomString_shape:
  assumes "minLength \<le> or_else maxLength minLength"
  shows "minLength \<le> length (randomString r bytes minLength maxLength)
    \<and> length (randomString r bytes minLength maxLength) \<le> or_else maxLength minLength
    \<and> set (randomString r bytes minLength maxLength) \<subseteq> set ALPHABET"
proof -
  have "ALPHABET ! (n mod length ALPHABET) \<in> set ALPHABET" for n
    by (rule nth_mem) (simp add: ALPHABET_length)
  then show ?thesis
    using assms randomInt_bounds[of minLength "or_else maxLength minLength + 1" r]
    by (auto simp: randomString_def Let_def or_else_def split: option.splits)
qed

lemma randomString_shape_witness:
  "3 \<le> length (randomString 5 (\<lambda>i. word_of_nat i) 3 (Some 8)) \<and> length (randomString 5 (\<lambda>i. word_of_nat i) 3 (Some 8)) \<le> 8
    \<and> set (randomString 5 (\<lambda>i. word_of_nat i) 3 (Some 8)) \<subseteq> set ALPHABET"
  using randomString_shape[of 3 "Some 8" 5 "\<lambda>i. word_of_nat i"] by (simp add: or_else_def)

text \<open>The parts between single separators.\<close>

fun parts :: "char \<Rightarrow> string \<Rightarrow> string list" where
  "parts sep [] = [[]]"
| "parts sep (c # cs) = (if c = sep then [] # parts sep cs else (case parts sep cs of p # ps \<Rightarrow> (c # p) # ps | [] \<Rightarrow> [[c]]))"

lemma parts_not_empty [simp]: "parts sep s \<noteq> []"
  by (induction s) (auto split: list.split)

lemma parts_no_sep: "sep \<notin> set s \<Longrightarrow> parts sep s = [s]"
  by (induction s) auto

lemma parts_append: "sep \<notin> set s \<Longrightarrow> parts sep (s @ sep # t) = s # parts sep t"
  by (induction s) auto

lemma parts_join: "ss \<noteq> [] \<Longrightarrow> \<forall>s \<in> set ss. sep \<notin> set s \<Longrightarrow> parts sep (join_with [sep] ss) = ss"
proof (induction ss)
  case (Cons s ss)
  then show ?case by (cases ss) (auto simp: parts_no_sep parts_append)
qed simp

lemma nat_str_no_space: "CHR '' '' \<notin> set (nat_str n)"
  using nat_str_digits[of "CHR '' ''" n] by auto

text \<open>Every trigger time but a custom one gives a cron expression of six fields; the first, the second, is a
  number below 60.\<close>

theorem cron_expression_fields:
  assumes "\<forall>s. t \<noteq> CustomTrigger s"
  shows "\<exists>second rest. parts (CHR '' '') (toCronExpression lib r r' t) = nat_str second # rest \<and> second < 60 \<and> length rest = 5"
proof -
  have star: "CHR '' '' \<notin> set ''*''" "CHR '' '' \<notin> set (''*/'' @ nat_str n)" for n by (simp_all add: nat_str_no_space)
  have six: "parts (CHR '' '') (join_with '' '' [a, b, c, d, e, f]) = [a, b, c, d, e, f]"
    if "\<forall>s \<in> {a, b, c, d, e, f}. CHR '' '' \<notin> set s" for a b c d e f
    using that by (intro parts_join) auto
  have second: "randomInt r 0 60 < 60" using randomInt_bounds[of 0 60 r] by simp
  show ?thesis using assms second
    by (cases t) (auto simp: toCronExpression_def Let_def six star nat_str_no_space simp del: join_with.simps)
qed

lemma cron_expression_fields_witness:
  "\<exists>second rest. parts (CHR '' '') (toCronExpression sample_vlib 7 8 (EveryDay 9 30)) = nat_str second # rest \<and> second < 60 \<and> length rest = 5"
  by (rule cron_expression_fields) simp

text \<open>The context of a node or of the flow is created once: asking for it again returns the same key and changes
  nothing, and no other context is touched.\<close>

theorem getContext_created_once:
  assumes "getContext contexts type nodeName = Inr (key, m)"
  shows "getContext (Some m) type nodeName = Inr (key, m) \<and> map_of m key \<noteq> None
    \<and> (\<forall>k. k \<noteq> key \<longrightarrow> map_of m k = map_of (the contexts) k)"
  using assms by (auto simp: getContext_def result_simps split: option.splits if_splits)

lemma getContext_created_once_witness:
  "getContext (Some [(''flow'', [(''a'', JNull)]), (''node:Set'', [])]) ''node'' (Some ''Set'') =
    Inr (''node:Set'', [(''flow'', [(''a'', JNull)]), (''node:Set'', [])])"
proof -
  have "getContext (Some [(''flow'', [(''a'', JNull)])]) ''node'' (Some ''Set'') =
    Inr (''node:Set'', [(''flow'', [(''a'', JNull)]), (''node:Set'', [])])"
    by (simp add: getContext_def)
  from getContext_created_once[OF this] show ?thesis by simp
qed

end
