(* ===== verification/WorkflowSetup.thy ===== *)
theory WorkflowSetup
  imports NodeNaming
begin

text \<open>
  The constructor of a workflow with the default values of its nodes: \<open>new_workflow\<close> of the theory
  \<open>Workflow\<close>, whose argument for the parameters is \<open>getNodeParameters\<close> here.
\<close>

definition defined_values :: "param_values \<Rightarrow> (string, json) js_map" where
  "defined_values m = List.map_filter (\<lambda>(k, v). map_option (Pair k) v) m"

definition param_node :: "INode \<Rightarrow> INodeTypeDescription \<Rightarrow> ParamNode" where
  "param_node n d = \<lparr>pn_version = Some (node_typeVersion n), pn_typeName = Some (nd_name d)\<rparr>"

definition type_parameters :: "ParamLib \<Rightarrow> INodeTypeDescription \<Rightarrow> INode \<Rightarrow> param_values result" where
  "type_parameters lib d n =
     getNodeParameters lib (param_node n d) True False no_options (nd_properties d) (Some (JObj (node_parameters n)))"

text \<open>The description of the type of a node, as \<open>getByNameAndVersion\<close> finds it.\<close>

type_synonym Descriptions = "string \<Rightarrow> rat \<Rightarrow> INodeTypeDescription option"

definition with_defaults :: "ParamLib \<Rightarrow> Descriptions \<Rightarrow> INode \<Rightarrow> INode result" where
  "with_defaults lib descr n = (case descr (node_type n) (node_typeVersion n) of
     None \<Rightarrow> Inr n
   | Some d \<Rightarrow> rbind (type_parameters lib d n) (\<lambda>m. Inr (n\<lparr>node_parameters := defined_values m\<rparr>)))"

definition construct_workflow :: "ParamLib \<Rightarrow> Descriptions \<Rightarrow> WorkflowParameters \<Rightarrow> Workflow result" where
  "construct_workflow lib descr p =
     rbind (rfold (\<lambda>n nodes. rbind (with_defaults lib descr n) (\<lambda>n'. Inr (js_put (node_name n) n' nodes))) (wp_nodes p) []) (\<lambda>nodes.
     Inr ((new_workflow (\<lambda>_ _. None) p)\<lparr>w_nodes := nodes\<rparr>))"

text \<open>The argument of \<open>new_workflow\<close> that stands for these values.\<close>

definition known_parameters :: "ParamLib \<Rightarrow> Descriptions \<Rightarrow> INodeType \<Rightarrow> INode \<Rightarrow> (string, json) js_map option" where
  "known_parameters lib descr nt n = (case descr (node_type n) (node_typeVersion n) of
     None \<Rightarrow> None
   | Some d \<Rightarrow> (case type_parameters lib d n of Inl e \<Rightarrow> None | Inr m \<Rightarrow> Some (defined_values m)))"

definition describes :: "Descriptions \<Rightarrow> INodeTypes \<Rightarrow> bool" where
  "describes descr types \<longleftrightarrow> (\<forall>ty v. descr ty v = None \<longleftrightarrow> types ty v = None)"

lemma with_defaults_fill:
  assumes "with_defaults lib descr n = Inr n'" "describes descr types"
  shows "n' = fill_defaults (known_parameters lib descr) types n"
proof (cases "descr (node_type n) (node_typeVersion n)")
  case None
  then show ?thesis using assms by (auto simp: with_defaults_def fill_defaults_def describes_def split: option.splits)
next
  case (Some d)
  have "types (node_type n) (node_typeVersion n) \<noteq> None"
    using Some assms(2) unfolding describes_def by (metis option.distinct(1))
  then obtain nt where "types (node_type n) (node_typeVersion n) = Some nt" by auto
  then show ?thesis using assms(1) Some
    by (auto simp: with_defaults_def fill_defaults_def known_parameters_def result_simps)
qed

lemma nodes_fill:
  assumes "rfold (\<lambda>n nodes. rbind (with_defaults lib descr n) (\<lambda>n'. Inr (js_put (node_name n) n' nodes))) ns nodes = Inr nodes'"
    and "describes descr types"
  shows "nodes' = fold (\<lambda>n m. js_put (node_name n) (fill_defaults (known_parameters lib descr) types n) m) ns nodes"
  using assms(1)
proof (induction ns arbitrary: nodes)
  case (Cons n ns)
  then obtain n' where n': "with_defaults lib descr n = Inr n'"
    and "rfold (\<lambda>n nodes. rbind (with_defaults lib descr n) (\<lambda>n'. Inr (js_put (node_name n) n' nodes))) ns (js_put (node_name n) n' nodes) = Inr nodes'"
    by (auto simp: result_simps)
  from Cons.IH[OF this(2)] with_defaults_fill[OF n' assms(2)] show ?case by simp
qed simp

definition webhook_description :: INodeTypeDescription where
  "webhook_description = \<lparr>nd_name = ''t'', nd_displayName = ''T'', nd_description = [], nd_defaultName = None, nd_group = [],
     nd_inputs = IOList [], nd_outputs = IOList [], nd_properties = sample_properties\<rparr>"

definition one_node :: WorkflowParameters where
  "one_node = \<lparr>wp_id = ''1'', wp_name = None, wp_nodes = [plain_node 0 ''a'' ''t''], wp_connections = [], wp_active = False,
     wp_nodeTypes = (\<lambda>_ _. Some (described_type webhook_description)), wp_staticData = None, wp_settings = None, wp_pinData = None\<rparr>"

text \<open>The constructor refines \<open>new_workflow\<close>: if no parameter throws, the workflow is the one that \<open>new_workflow\<close>
  makes with the values of \<open>getNodeParameters\<close>.\<close>

theorem constructor_refines_new_workflow:
  assumes "construct_workflow lib descr p = Inr w" "describes descr (wp_nodeTypes p)"
  shows "w = new_workflow (known_parameters lib descr) p"
proof -
  obtain nodes where "rfold (\<lambda>n nodes. rbind (with_defaults lib descr n) (\<lambda>n'. Inr (js_put (node_name n) n' nodes))) (wp_nodes p) [] = Inr nodes"
    and w: "w = (new_workflow (\<lambda>_ _. None) p)\<lparr>w_nodes := nodes\<rparr>"
    using assms(1) by (auto simp: construct_workflow_def result_simps)
  from nodes_fill[OF this(1) assms(2)] w show ?thesis by (simp add: new_workflow_def)
qed

lemma with_defaults_sample:
  "with_defaults sample_lib (\<lambda>_ _. Some webhook_description) (plain_node 0 ''a'' ''t'')
   = Inr ((plain_node 0 ''a'' ''t'')\<lparr>node_parameters := [(''operation'', JStr ''get''), (''resource'', JStr ''user'')]\<rparr>)"
proof -
  let ?node = "\<lparr>pn_version = Some 1, pn_typeName = Some ''t''\<rparr>"
  have full: "filled sample_properties (JObj []) = [(''operation'', Some (JStr ''get'')), (''resource'', Some (JStr ''user''))]"
    by (simp add: filled_def sample_properties_def filled_value_def field_of_def)
  have "plain_display sample_lib ?node None sample_properties (JObj []) p = Inr True" if "p \<in> set sample_properties" for p
    using that unfolding plain_display_def full
    by (auto simp: sample_properties_def sample_extras_def show_if_def displayParameter_def values_obj_def map_filter_simps
        truthy_at_def getPropertyValues_def sample_lib_def field_of_def is_expression_def check_rules_def
        checkConditions_def same_value_def is_object_def)
  then have "getNodeParameters sample_lib ?node True False no_options sample_properties (Some (JObj [])) = Inr (filled sample_properties (JObj []))"
    using getNodeParameters_displayed[OF sample_plain sample_properties_closed, of no_options sample_lib ?node "[]" "\<lambda>_. True" True]
    by (simp add: no_options_def)
  then show ?thesis
    by (simp add: with_defaults_def type_parameters_def param_node_def webhook_description_def plain_node_def full defined_values_def map_filter_simps)
qed

lemma constructor_refines_new_workflow_witness:
  "construct_workflow sample_lib (\<lambda>_ _. Some webhook_description) one_node =
    Inr (new_workflow (known_parameters sample_lib (\<lambda>_ _. Some webhook_description)) one_node)"
proof -
  obtain w where w: "construct_workflow sample_lib (\<lambda>_ _. Some webhook_description) one_node = Inr w"
    by (simp add: construct_workflow_def one_node_def with_defaults_sample)
  have "describes (\<lambda>_ _. Some webhook_description) (wp_nodeTypes one_node)" by (simp add: describes_def one_node_def)
  from constructor_refines_new_workflow[OF w this] w show ?thesis by simp
qed

text \<open>C18: Let the names of the nodes differ, and the type of each node be unknown or have plain properties (with different
  names, no collections) whose display rules name only other properties of the list, or of the root, and can be evaluated on the values of
  the node without an error. Then the constructor does not throw, and a node of a known type has as parameters the
  displayed properties of its type, each with its value or default.\<close>

theorem workflow_nodes_have_defaults:
  assumes names: "distinct (map node_name (wp_nodes p))"
    and plain: "\<forall>n \<in> set (wp_nodes p). \<forall>d. descr (node_type n) (node_typeVersion n) = Some d \<longrightarrow>
      plain_properties (nd_properties d) \<and> rules_closed (nd_properties d)
      \<and> (\<forall>q \<in> set (nd_properties d). plain_display lib (param_node n d) None (nd_properties d) (JObj (node_parameters n)) q = Inr (c n q))"
    and n: "n \<in> set (wp_nodes p)" and d: "descr (node_type n) (node_typeVersion n) = Some d"
  shows "\<exists>w. construct_workflow lib descr p = Inr w \<and> w_getNode w (node_name n) =
    Some (n\<lparr>node_parameters := defined_values (filled (filter (c n) (nd_properties d)) (JObj (node_parameters n)))\<rparr>)"
proof -
  let ?fill = "\<lambda>n. case descr (node_type n) (node_typeVersion n) of None \<Rightarrow> n
    | Some d \<Rightarrow> n\<lparr>node_parameters := defined_values (filled (filter (c n) (nd_properties d)) (JObj (node_parameters n)))\<rparr>"
  have fill: "with_defaults lib descr m = Inr (?fill m)" if m: "m \<in> set (wp_nodes p)" for m
  proof (cases "descr (node_type m) (node_typeVersion m)")
    case (Some e)
    have "getNodeParameters lib (param_node m e) True False no_options (nd_properties e) (Some (JObj (node_parameters m)))
      = Inr (filled (filter (c m) (nd_properties e)) (JObj (node_parameters m)))"
      using getNodeParameters_displayed[of "nd_properties e" no_options lib "param_node m e" "node_parameters m" "c m" True] plain m Some
      by (simp add: no_options_def)
    then show ?thesis by (simp add: with_defaults_def type_parameters_def Some)
  qed (simp add: with_defaults_def)
  let ?round = "\<lambda>n nodes. rbind (with_defaults lib descr n) (\<lambda>n'. Inr (js_put (node_name n) n' nodes))"
  have "\<exists>nodes. rfold ?round (wp_nodes p) [] = Inr nodes \<and> (\<forall>m \<in> set (wp_nodes p). map_of nodes (node_name m) = Some (?fill m))"
  proof (rule rfold_total_prefix)
    fix pre x rest nodes
    assume split: "wp_nodes p = pre @ x # rest" and IH: "\<forall>m \<in> set pre. map_of nodes (node_name m) = Some (?fill m)"
    have "?round x nodes = Inr (js_put (node_name x) (?fill x) nodes)" using fill split by simp
    moreover have "\<forall>m \<in> set (pre @ [x]). map_of (js_put (node_name x) (?fill x) nodes) (node_name m) = Some (?fill m)"
    proof
      fix m assume m: "m \<in> set (pre @ [x])"
      have "node_name x \<notin> node_name ` set pre" using names split by auto
      then have "m = x \<or> (m \<in> set pre \<and> node_name m \<noteq> node_name x)" using m by (metis imageI in_set_conv_decomp set_append Un_iff empty_iff empty_set list.set_intros(1) set_ConsD)
      then show "map_of (js_put (node_name x) (?fill x) nodes) (node_name m) = Some (?fill m)" using IH by auto
    qed
    ultimately show "\<exists>s'. ?round x nodes = Inr s' \<and> (\<forall>m \<in> set (pre @ [x]). map_of s' (node_name m) = Some (?fill m))" by blast
  qed simp
  then obtain nodes where "rfold ?round (wp_nodes p) [] = Inr nodes" "map_of nodes (node_name n) = Some (?fill n)" using n by auto
  then show ?thesis using d by (simp add: construct_workflow_def w_getNode_def getNodeByName_def)
qed

lemma workflow_nodes_have_defaults_witness:
  "\<exists>w. construct_workflow sample_lib (\<lambda>_ _. Some (webhook_description\<lparr>nd_properties := [sample_properties ! 1]\<rparr>)) one_node = Inr w
    \<and> w_getNode w ''a'' = Some ((plain_node 0 ''a'' ''t'')\<lparr>node_parameters := [(''resource'', JStr ''user'')]\<rparr>)"
proof -
  let ?d = "webhook_description\<lparr>nd_properties := [sample_properties ! 1]\<rparr>"
  have display: "\<forall>n \<in> set (wp_nodes one_node). \<forall>d. Some ?d = Some d \<longrightarrow> plain_properties (nd_properties d) \<and> rules_closed (nd_properties d)
      \<and> (\<forall>q \<in> set (nd_properties d). plain_display sample_lib (param_node n d) None (nd_properties d) (JObj (node_parameters n)) q = Inr True)"
    by (simp add: plain_properties_def rules_closed_def rule_names_def sample_properties_def sample_extras_def
        is_collection_def plain_display_def displayParameter_def)
  have "distinct (map node_name (wp_nodes one_node))" "plain_node 0 ''a'' ''t'' \<in> set (wp_nodes one_node)"
    by (simp_all add: one_node_def)
  from workflow_nodes_have_defaults[where c = "\<lambda>_ _. True", OF this(1) display this(2) refl]
  show ?thesis by (simp add: plain_node_def sample_properties_def filled_def filled_value_def field_of_def defined_values_def map_filter_simps)
qed

end
