(* ===== verification/ItemLinking.thy ===== *)
theory ItemLinking
  imports RunNode WorkflowPaths
begin

text \<open>
  The data that expressions read (\<^verbatim>\<open>packages/workflow/src/workflow-data-proxy.ts\<close>): \<open>$('node').item\<close>,
  \<open>.pairedItem\<close>, \<open>.itemMatching\<close>, \<open>.first\<close>, \<open>.last\<close> and \<open>.all\<close>, \<open>$input\<close>, \<open>$prevNode\<close>, \<open>$json\<close>, and
  \<open>getPairedItem\<close>, which follows the links between items back to the node that is asked for.

  An item is named by its place: a run or the pin data of a node, an output and an index. The code compares
  found items with \<open>!==\<close>; the argument \<open>obj\<close> gives the identity of the object at a place, since a node may
  output one object at two places. Every call of \<open>getPairedItem\<close> catches what its calls throw, a
  stack overflow included, so the fuel of the model is the depth of the stack and running out of it is the error that
  the deepest call throws. The numbers of a \<open>sourceOverwrite\<close> are natural numbers, and the elements of an
  array of links are numbers or objects, as the type of items says.
\<close>

section \<open>State\<close>

record WorkflowDataProxy =
  px_workflow :: Workflow
  px_runData :: "IRunData option"
  px_runIndex :: nat
  px_itemIndex :: int
  px_activeNodeName :: string
  px_connectionInputData :: "INodeExecutionData list"
  px_mode :: WorkflowExecuteMode
  px_executeSource :: "ITaskDataConnectionsSource option"
  px_defaultReturnRunIndex :: int
  px_contextNodeName :: string

record IPairedItemData =
  pi_item :: "rat option"
  pi_input :: "rat option"
  pi_sourceOverwrite :: "ISourceData option"

datatype TaskPlace = RunPlace string nat | PinPlace string

type_synonym ItemPlace = "TaskPlace \<times> nat \<times> nat"

section \<open>Errors\<close>

record ExpressionErrorOptions =
  eo_causeDetailed :: "string option"
  eo_description :: "string option"
  eo_descriptionKey :: "string option"
  eo_descriptionTemplate :: "string option"
  eo_functionality :: "string option"
  eo_itemIndex :: "int option"
  eo_messageTemplate :: "string option"
  eo_nodeCause :: "string option"
  eo_runIndex :: "nat option"
  eo_type :: "string option"

text \<open>What \<open>createExpressionError\<close> is called with on top of them: message and description for scripting nodes.\<close>

record ErrorContext = ExpressionErrorOptions +
  ec_moreInfoLink :: bool
  ec_functionOverrides :: "(string option \<times> string option) option"

datatype proxy_error =
    Thrown js_error
  | ExpressionError string ExpressionErrorOptions

type_synonym 'a proxied = "proxy_error + 'a"

definition pbind :: "'a proxied \<Rightarrow> ('a \<Rightarrow> 'b proxied) \<Rightarrow> 'b proxied" where
  "pbind m f = (case m of Inl e \<Rightarrow> Inl e | Inr x \<Rightarrow> f x)"

definition thrown :: "'a result \<Rightarrow> 'a proxied" where
  "thrown m = (case m of Inl e \<Rightarrow> Inl (Thrown e) | Inr x \<Rightarrow> Inr x)"

lemma pbind_simps [simp]: "pbind (Inl e) f = Inl e" "pbind (Inr x) f = f x"
  by (simp_all add: pbind_def)

lemma pbind_Inr_iff: "pbind m f = Inr y \<longleftrightarrow> (\<exists>x. m = Inr x \<and> f x = Inr y)"
  by (cases m) auto

lemma thrown_simps [simp]: "thrown (Inl e) = Inl (Thrown e)" "thrown (Inr x) = Inr x"
  by (simp_all add: thrown_def)

lemma thrown_Inr_iff [simp]: "thrown m = Inr x \<longleftrightarrow> m = Inr x"
  by (cases m) auto

definition NODE_NOT_FOUND :: string where
  "NODE_NOT_FOUND = ''Error finding the referenced node''"

definition NODE_REFERENCE_TEMPLATE :: string where
  "NODE_REFERENCE_TEMPLATE =
     ''Make sure the node you referenced is spelled correctly and is a parent of this node''"

definition NO_EXECUTION_DATA :: string where
  "NO_EXECUTION_DATA = ''No execution data available''"

text \<open>The message with a typographic apostrophe, in UTF-8.\<close>

definition CANT_GET_DATA :: string where
  "CANT_GET_DATA = ''Can'' @ [CHR 0xE2, CHR 0x80, CHR 0x99] @ ''t get data for expression''"

definition SCRIPTING_NODE_TYPES :: "string list" where
  "SCRIPTING_NODE_TYPES =
     [''n8n-nodes-base.function'', ''n8n-nodes-base.functionItem'', ''n8n-nodes-base.code'', ''n8n-nodes-base.aiTransform'']"

definition isScriptingNode :: "string \<Rightarrow> Workflow \<Rightarrow> bool" where
  "isScriptingNode nodeName w =
     (case w_getNode w nodeName of None \<Rightarrow> False | Some n \<Rightarrow> node_type n \<in> set SCRIPTING_NODE_TYPES)"

definition getPinDataIfManualExecution :: "Workflow \<Rightarrow> string \<Rightarrow> WorkflowExecuteMode \<Rightarrow> INodeExecutionData list option" where
  "getPinDataIfManualExecution w nodeName mode =
     (if mode \<noteq> ModeManual then None else w_getPinDataOfNode w nodeName)"

definition pinned_for :: "WorkflowDataProxy \<Rightarrow> string \<Rightarrow> INodeExecutionData list option" where
  "pinned_for px nodeName = getPinDataIfManualExecution (px_workflow px) nodeName (px_mode px)"

text \<open>The context of an error before any option is given: the indexes are those of the proxy.\<close>

definition base_context :: "WorkflowDataProxy \<Rightarrow> ErrorContext" where
  "base_context px = \<lparr>eo_causeDetailed = None, eo_description = None, eo_descriptionKey = None, eo_descriptionTemplate = None,
     eo_functionality = None, eo_itemIndex = Some (px_itemIndex px), eo_messageTemplate = None, eo_nodeCause = None,
     eo_runIndex = Some (px_runIndex px), eo_type = None, ec_moreInfoLink = False, ec_functionOverrides = None\<rparr>"

definition new_ExpressionError :: "string \<Rightarrow> ErrorContext \<Rightarrow> proxy_error" where
  "new_ExpressionError message ctxt = ExpressionError message (ExpressionErrorOptions.truncate ctxt)"

definition nonempty :: "string option \<Rightarrow> string option" where
  "nonempty s = (if s = Some [] then None else s)"

definition MORE_INFO_LINK :: string where
  "MORE_INFO_LINK = '' <a target=\"_blank\" href=\"https://docs.n8n.io/data/data-mapping/data-item-linking/item-linking-errors/\">More info</a>''"

definition apply_overrides :: "WorkflowDataProxy \<Rightarrow> string \<times> ErrorContext \<Rightarrow> string \<times> ErrorContext" where
  "apply_overrides px mc = (case mc of (message, ctxt) \<Rightarrow>
     (case ec_functionOverrides ctxt of
        Some (m, d) \<Rightarrow>
          if isScriptingNode (px_activeNodeName px) (px_workflow px)
          then (or_else (nonempty m) message,
                ctxt\<lparr>eo_description := (case nonempty d of None \<Rightarrow> eo_description ctxt | Some d \<Rightarrow> Some d), eo_messageTemplate := None\<rparr>)
          else (message, ctxt)
      | None \<Rightarrow> (message, ctxt)))"

text \<open>\<open>description += link\<close> makes the text \<open>undefined\<close> of a description that is not there.\<close>

definition apply_node_cause :: "WorkflowDataProxy \<Rightarrow> string \<times> ErrorContext \<Rightarrow> string \<times> ErrorContext" where
  "apply_node_cause px mc = (case mc of (message, ctxt) \<Rightarrow>
     (case nonempty (eo_nodeCause ctxt) of
        None \<Rightarrow> (message, ctxt)
      | Some nodeName \<Rightarrow>
          let pinned = (pinned_for px nodeName \<noteq> None);
              (message, ctxt) = (if pinned
                then (''Unpin '' @ [CHR 0x27] @ nodeName @ [CHR 0x27] @ '' to execute'',
                      ctxt\<lparr>eo_messageTemplate := None, eo_descriptionKey := Some ''pairedItemPinned''\<rparr>)
                else (message, ctxt))
          in (message,
              if ec_moreInfoLink ctxt \<and> (pinned \<or> isScriptingNode nodeName (px_workflow px))
              then ctxt\<lparr>eo_description := Some (or_else (eo_description ctxt) ''undefined'' @ MORE_INFO_LINK),
                        eo_descriptionTemplate := (case nonempty (eo_descriptionTemplate ctxt) of
                          None \<Rightarrow> eo_descriptionTemplate ctxt | Some t \<Rightarrow> Some (t @ MORE_INFO_LINK))\<rparr>
              else ctxt)))"

definition createExpressionError :: "WorkflowDataProxy \<Rightarrow> string \<Rightarrow> ErrorContext \<Rightarrow> proxy_error" where
  "createExpressionError px message ctxt =
     (case apply_node_cause px (apply_overrides px (message, ctxt)) of (message, ctxt) \<Rightarrow> new_ExpressionError message ctxt)"

definition createInvalidPairedItemError :: "WorkflowDataProxy \<Rightarrow> string \<Rightarrow> proxy_error" where
  "createInvalidPairedItemError px nodeName = createExpressionError px ''Can't get data for expression''
     ((base_context px)\<lparr>eo_messageTemplate := Some ''Expression info invalid'', eo_functionality := Some ''pairedItem'',
       ec_functionOverrides := Some (Some ''Can't get data'', None), eo_nodeCause := Some nodeName,
       eo_descriptionKey := Some ''pairedItemInvalidInfo'', eo_type := Some ''paired_item_invalid_info''\<rparr>)"

definition in_quotes :: "string \<Rightarrow> string" where
  "in_quotes s = [CHR 0x27] @ s @ [CHR 0x27]"

definition createMissingPairedItemError :: "WorkflowDataProxy \<Rightarrow> string \<Rightarrow> string \<Rightarrow> proxy_error" where
  "createMissingPairedItemError px nodeCause usedMethodName = new_ExpressionError
     (if pinned_for px nodeCause \<noteq> None
      then ''Using the '' @ usedMethodName @ '' method doesn't work with pinned data in this scenario. Please unpin '' @
        in_quotes nodeCause @ '' and try again.''
      else ''Paired item data for '' @ usedMethodName @ '' from node '' @ in_quotes nodeCause @ '' is unavailable. Ensure '' @
        in_quotes nodeCause @ '' is providing the required output.'')
     ((base_context px)\<lparr>eo_functionality := Some ''pairedItem'',
       eo_descriptionKey := Some (if isScriptingNode nodeCause (px_workflow px) then ''pairedItemNoInfoCodeNode'' else ''pairedItemNoInfo''),
       eo_nodeCause := Some nodeCause,
       eo_causeDetailed := Some (''Missing pairedItem data (node '' @ in_quotes nodeCause @ '' probably didn't supply it)''),
       eo_type := Some ''paired_item_no_info''\<rparr>)"

definition no_connection_key :: "WorkflowDataProxy \<Rightarrow> string \<Rightarrow> string" where
  "no_connection_key px nodeName = (if isScriptingNode nodeName (px_workflow px)
     then ''pairedItemNoConnectionCodeNode'' else ''pairedItemNoConnection'')"

definition node_reference_context :: "WorkflowDataProxy \<Rightarrow> string \<Rightarrow> ErrorContext" where
  "node_reference_context px nodeName =
     (base_context px)\<lparr>eo_messageTemplate := Some NODE_REFERENCE_TEMPLATE, eo_functionality := Some ''pairedItem'',
       eo_descriptionKey := Some (no_connection_key px nodeName), eo_type := Some ''paired_item_no_connection'',
       eo_nodeCause := Some nodeName\<rparr>"

definition createNodeReferenceError :: "WorkflowDataProxy \<Rightarrow> string \<Rightarrow> proxy_error" where
  "createNodeReferenceError px nodeCause = createExpressionError px NODE_NOT_FOUND
     ((node_reference_context px nodeCause)\<lparr>ec_moreInfoLink := True\<rparr>)"

text \<open>A number in a message.\<close>

definition rat_str :: "rat option \<Rightarrow> string" where
  "rat_str q = (case q of None \<Rightarrow> ''undefined''
     | Some q \<Rightarrow> if q < 0 then ''-'' @ nat_str (nat \<lfloor>- q\<rfloor>) else nat_str (nat \<lfloor>q\<rfloor>))"

definition createBranchNotFoundError :: "WorkflowDataProxy \<Rightarrow> string \<Rightarrow> rat option \<Rightarrow> string option \<Rightarrow> proxy_error" where
  "createBranchNotFoundError px node it cause = createExpressionError px ''Branch not found''
     ((base_context px)\<lparr>eo_messageTemplate := Some ''Paired item references non-existent branch'',
       eo_functionality := Some ''pairedItem'', eo_nodeCause := cause,
       ec_functionOverrides := Some (Some ''Invalid branch reference'', None),
       eo_description := Some (''Item '' @ rat_str it @ '' in node '' @ node @ '' references a branch that doesn't exist.''),
       eo_type := Some ''paired_item_invalid_info''\<rparr>)"

definition createPairedItemNotFound :: "WorkflowDataProxy \<Rightarrow> string \<Rightarrow> string option \<Rightarrow> proxy_error" where
  "createPairedItemNotFound px destNode cause = createExpressionError px ''Paired item resolution failed''
     ((base_context px)\<lparr>eo_messageTemplate := Some ''Unable to find paired item source'', eo_functionality := Some ''pairedItem'',
       eo_nodeCause := cause, ec_functionOverrides := Some (Some ''Data not found'', None),
       eo_description := Some (''Could not trace back to node '' @ in_quotes destNode),
       eo_type := Some ''paired_item_no_info'', ec_moreInfoLink := True\<rparr>)"

definition createPairedItemMultipleItemsFound :: "WorkflowDataProxy \<Rightarrow> string \<Rightarrow> rat option \<Rightarrow> proxy_error" where
  "createPairedItemMultipleItemsFound px destNode itemIndex = createExpressionError px ''Multiple matches found''
     ((base_context px)\<lparr>eo_messageTemplate := Some (''Multiple matching items for item ['' @ rat_str itemIndex @ '']''),
       eo_functionality := Some ''pairedItem'', ec_functionOverrides := Some (Some ''Multiple matches'', None),
       eo_nodeCause := Some destNode,
       eo_descriptionKey := Some (if isScriptingNode destNode (px_workflow px)
         then ''pairedItemMultipleMatchesCodeNode'' else ''pairedItemMultipleMatches''),
       eo_type := Some ''paired_item_multiple_matches''\<rparr>)"

section \<open>Links\<close>

text \<open>The element at a number; there is none at a negative, broken or undefined one.\<close>

definition array_index :: "rat option \<Rightarrow> nat option" where
  "array_index q = (case q of None \<Rightarrow> None
     | Some q \<Rightarrow> if 0 \<le> q \<and> of_int \<lfloor>q\<rfloor> = q then Some (nat \<lfloor>q\<rfloor>) else None)"

definition at_num :: "'a list \<Rightarrow> rat option \<Rightarrow> 'a option" where
  "at_num xs q = (case array_index q of None \<Rightarrow> None | Some i \<Rightarrow> if i < length xs then Some (xs ! i) else None)"

text \<open>\<open>q >= xs.length\<close>\<close>

definition past_end :: "rat option \<Rightarrow> 'a list \<Rightarrow> bool" where
  "past_end q xs = (case q of None \<Rightarrow> False | Some q \<Rightarrow> of_nat (length xs) \<le> q)"

definition num_of :: "json option \<Rightarrow> rat option" where
  "num_of j = (case j of Some (JNum q) \<Rightarrow> Some q | _ \<Rightarrow> None)"

definition json_source :: "json option \<Rightarrow> ISourceData option" where
  "json_source j = (case j of
     Some (JObj fs) \<Rightarrow> Some \<lparr>previousNode = (case map_of fs ''previousNode'' of Some (JStr s) \<Rightarrow> s | _ \<Rightarrow> ''undefined''),
       previousNodeOutput = array_index (num_of (map_of fs ''previousNodeOutput'')),
       previousNodeRun = array_index (num_of (map_of fs ''previousNodeRun''))\<rparr>
   | _ \<Rightarrow> None)"

text \<open>A link as a number or as an object; anything else has none of the fields.\<close>

definition link_of :: "json \<Rightarrow> IPairedItemData" where
  "link_of j = (case j of
     JNum q \<Rightarrow> \<lparr>pi_item = Some q, pi_input = None, pi_sourceOverwrite = None\<rparr>
   | JObj fs \<Rightarrow> \<lparr>pi_item = num_of (map_of fs ''item''), pi_input = num_of (map_of fs ''input''),
       pi_sourceOverwrite = json_source (map_of fs ''sourceOverwrite'')\<rparr>
   | _ \<Rightarrow> \<lparr>pi_item = None, pi_input = None, pi_sourceOverwrite = None\<rparr>)"

definition normalizePairedItem :: "json option \<Rightarrow> IPairedItemData list" where
  "normalizePairedItem paired = (case paired of
     None \<Rightarrow> [] | Some JNull \<Rightarrow> [] | Some (JArr ps) \<Rightarrow> map link_of ps | Some p \<Rightarrow> [link_of p])"

text \<open>\<open>normalizeInputs\<close>: an overwritten source counts instead of the source of the run.\<close>

definition final_source :: "IPairedItemData \<Rightarrow> ISourceData option \<Rightarrow> ISourceData option" where
  "final_source p sourceData = (case pi_sourceOverwrite p of Some s \<Rightarrow> Some s | None \<Rightarrow> sourceData)"

definition pinDataToTask :: "INodeExecutionData list \<Rightarrow> ITaskData" where
  "pinDataToTask pinData = (plain_task (Some [(MainConn, [Some pinData])]))\<lparr>executionIndex := Some 0\<rparr>"

definition source_run :: "ISourceData \<Rightarrow> nat" where
  "source_run s = or_else (previousNodeRun s) 0"

definition source_output :: "ISourceData \<Rightarrow> nat" where
  "source_output s = or_else (previousNodeOutput s) 0"

definition recorded_run :: "WorkflowDataProxy \<Rightarrow> string \<Rightarrow> nat \<Rightarrow> ITaskData option" where
  "recorded_run px nm k = (case px_runData px of None \<Rightarrow> None
     | Some rd \<Rightarrow> case map_of rd nm of None \<Rightarrow> None
       | Some runs \<Rightarrow> if k < length runs then Some (runs ! k) else None)"

definition getTaskData :: "WorkflowDataProxy \<Rightarrow> ISourceData \<Rightarrow> (TaskPlace \<times> ITaskData) option" where
  "getTaskData px s = (case recorded_run px (previousNode s) (source_run s) of
     Some t \<Rightarrow> Some (RunPlace (previousNode s) (source_run s), t)
   | None \<Rightarrow> map_option (\<lambda>pd. (PinPlace (previousNode s), pinDataToTask pd)) (pinned_for px (previousNode s)))"

definition output_items :: "ITaskData \<Rightarrow> nat \<Rightarrow> INodeExecutionData list option" where
  "output_items t k = (case task_data t of None \<Rightarrow> None
     | Some d \<Rightarrow> case map_of d MainConn of None \<Rightarrow> None
       | Some outs \<Rightarrow> if k < length outs then outs ! k else None)"

definition getNodeOutput ::
    "WorkflowDataProxy \<Rightarrow> ITaskData option \<Rightarrow> ISourceData \<Rightarrow> string option \<Rightarrow> INodeExecutionData list proxied" where
  "getNodeOutput px taskData s nodeCause =
     (case (case taskData of None \<Rightarrow> None | Some t \<Rightarrow> output_items t (source_output s)) of
        Some outputs \<Rightarrow> Inr outputs
      | None \<Rightarrow> Inl (createExpressionError px CANT_GET_DATA
          ((base_context px)\<lparr>eo_messageTemplate := Some ''Missing output data'',
            ec_functionOverrides := Some (Some ''Missing output'', None), eo_nodeCause := nodeCause,
            eo_description := Some (''Expected output #'' @ nat_str (source_output s) @ '' from node '' @ previousNode s),
            eo_type := Some ''internal''\<rparr>)))"

section \<open>getPairedItem\<close>

definition same_object :: "(ItemPlace \<Rightarrow> nat) \<Rightarrow> ItemPlace option \<Rightarrow> ItemPlace option \<Rightarrow> bool" where
  "same_object obj a b = (case a of None \<Rightarrow> b = None
     | Some x \<Rightarrow> (case b of None \<Rightarrow> False | Some y \<Rightarrow> obj x = obj y))"

text \<open>The input and the source of a link of an item, if the run has a source for that input.\<close>

definition next_source :: "ISourceData option list \<Rightarrow> IPairedItemData \<Rightarrow> (IPairedItemData \<times> ISourceData option) option" where
  "next_source sourceArray np =
     (let inputIndex = or_else (pi_input np) 0
      in if past_end (Some inputIndex) sourceArray then None
         else Some (np\<lparr>pi_input := Some inputIndex\<rparr>,
           case pi_sourceOverwrite np of Some s \<Rightarrow> Some s
           | None \<Rightarrow> (case at_num sourceArray (Some inputIndex) of None \<Rightarrow> None | Some s \<Rightarrow> s)))"

text \<open>What becomes of the results of the links of an item.\<close>

definition combine_results ::
    "WorkflowDataProxy \<Rightarrow> (ItemPlace \<Rightarrow> nat) \<Rightarrow> string \<Rightarrow> proxy_error \<Rightarrow> rat option \<Rightarrow> ItemPlace option proxied list \<Rightarrow> ItemPlace option proxied" where
  "combine_results px obj dest no_match it results =
     (if list_all isl results
      then (case results of Inl e # _ \<Rightarrow> Inl e | _ \<Rightarrow> Inl (Thrown TypeError))
      else case map projr (filter (\<lambda>r. \<not> isl r) results) of
        [] \<Rightarrow> Inl no_match
      | first # rest \<Rightarrow>
          if \<exists>r \<in> set rest. \<not> same_object obj r first
          then Inl (createPairedItemMultipleItemsFound px dest it)
          else Inr first)"

fun getPairedItem ::
    "nat \<Rightarrow> WorkflowDataProxy \<Rightarrow> (ItemPlace \<Rightarrow> nat) \<Rightarrow> string \<Rightarrow> ISourceData option \<Rightarrow> IPairedItemData \<Rightarrow> string \<Rightarrow> string option \<Rightarrow>
      ItemPlace option proxied" where
  "getPairedItem 0 px obj dest incoming p meth nodeBeforeLast = Inl (Thrown Diverges)"
| "getPairedItem (Suc fuel) px obj dest incoming p meth nodeBeforeLast =
     (case final_source p incoming of
        None \<Rightarrow> Inl (createPairedItemNotFound px dest nodeBeforeLast)
      | Some sourceData \<Rightarrow>
          pbind (getNodeOutput px (map_option snd (getTaskData px sourceData)) sourceData nodeBeforeLast) (\<lambda>outputData.
            let place = map_option fst (getTaskData px sourceData);
                sourceArray = (case getTaskData px sourceData of None \<Rightarrow> [] | Some (_, t) \<Rightarrow> task_source t)
            in if previousNode sourceData = dest
               then (if past_end (pi_item p) outputData
                     then Inl (createInvalidPairedItemError px (previousNode sourceData))
                     else Inr (case (at_num outputData (pi_item p), array_index (pi_item p)) of
                       (Some _, Some i) \<Rightarrow> Some (the place, source_output sourceData, i) | _ \<Rightarrow> None))
               else case at_num outputData (pi_item p) of
                 None \<Rightarrow> Inl (Thrown TypeError)
               | Some it \<Rightarrow>
                   (case normalizePairedItem (map_of it ''pairedItem'') of
                      [] \<Rightarrow> Inl (createMissingPairedItemError px (previousNode sourceData) meth)
                    | np # nps \<Rightarrow> combine_results px obj dest
                        (if sourceArray = [] then createNodeReferenceError px dest
                         else createBranchNotFoundError px (previousNode sourceData) (pi_item p) nodeBeforeLast)
                        (pi_item p)
                        (map (\<lambda>(np', s). getPairedItem fuel px obj dest s np' meth (Some (previousNode sourceData)))
                          (List.map_filter (next_source sourceArray) (np # nps))))))"

section \<open>The node that an expression asks for\<close>

text \<open>An element of an array at an index that may be negative.\<close>

definition at_int :: "'a list \<Rightarrow> int \<Rightarrow> 'a option" where
  "at_int xs i = (if 0 \<le> i \<and> nat i < length xs then Some (xs ! nat i) else None)"

definition referenced_node :: "WorkflowDataProxy \<Rightarrow> string \<Rightarrow> INode proxied" where
  "referenced_node px nodeName =
     (if nodeName = [] then Inl (createExpressionError px ''When calling $(), please specify a node'' (base_context px))
      else case w_getNode (px_workflow px) nodeName of
        None \<Rightarrow> Inl (createNodeReferenceError px nodeName)
      | Some n \<Rightarrow> Inr n)"

definition isExecuted :: "WorkflowDataProxy \<Rightarrow> string \<Rightarrow> bool" where
  "isExecuted px nodeName = (case px_runData px of None \<Rightarrow> False | Some rd \<Rightarrow> js_has rd nodeName)"

definition ensureNodeExecutionData :: "WorkflowDataProxy \<Rightarrow> string \<Rightarrow> unit proxied" where
  "ensureNodeExecutionData px nodeName =
     (if \<not> isExecuted px nodeName \<and> pinned_for px nodeName = None
      then Inl (new_ExpressionError NO_EXECUTION_DATA ((base_context px)\<lparr>
        eo_messageTemplate := Some (''Execute node \"'' @ nodeName @ ''\" for preview''), eo_nodeCause := Some nodeName\<rparr>))
      else Inr ())"

definition context_node :: "WorkflowDataProxy \<Rightarrow> string proxied" where
  "context_node px = (case w_getNode (px_workflow px) (px_activeNodeName px) of
     None \<Rightarrow> Inr (px_contextNodeName px)
   | Some activeNode \<Rightarrow> thrown (map_sum id node_name (getParentMainInputNode (px_workflow px) activeNode [])))"

definition ensureValidPath :: "WorkflowDataProxy \<Rightarrow> string \<Rightarrow> unit proxied" where
  "ensureValidPath px nodeName =
     pbind (context_node px) (\<lambda>contextNode.
       if contextNode \<in> set (w_getChildNodes (px_workflow px) nodeName (OfType MainConn) (-1)) then Inr ()
       else Inl (createNodeReferenceError px nodeName))"

text \<open>\<open>hasPath\<close> is asked with its default depth.\<close>

definition ensure_linked :: "WorkflowDataProxy \<Rightarrow> string \<Rightarrow> unit proxied" where
  "ensure_linked px nodeName =
     pbind (context_node px) (\<lambda>contextNode.
       if w_hasPath (px_workflow px) nodeName contextNode 50 then Inr ()
       else Inl (createNodeReferenceError px nodeName))"

definition intermediate_text :: "WorkflowDataProxy \<Rightarrow> string \<Rightarrow> string" where
  "intermediate_text px nodeName =
     (let open_quote = [CHR 0xE2, CHR 0x80, CHR 0x98]
      in ''Some intermediate nodes between '' @ open_quote @ ''<strong>'' @ nodeName @ ''</strong>'' @ open_quote @ '' and  '' @
         open_quote @ ''<strong>'' @ px_activeNodeName px @ ''</strong>'' @ open_quote @ '' have not executed yet.'')"

definition intermediate_error :: "WorkflowDataProxy \<Rightarrow> string \<Rightarrow> int \<Rightarrow> proxy_error" where
  "intermediate_error px nodeName itemIndex =
     (let open_quote = [CHR 0xE2, CHR 0x80, CHR 0x98]
      in createExpressionError px CANT_GET_DATA ((base_context px)\<lparr>
        eo_messageTemplate := Some (CANT_GET_DATA @ '' under '' @ open_quote @ ''%%PARAMETER%%'' @ [CHR 0xE2, CHR 0x80, CHR 0x99] @ '' field''),
        eo_functionality := Some ''pairedItem'',
        ec_functionOverrides := Some (Some (take 16 CANT_GET_DATA), Some (intermediate_text px nodeName)),
        eo_description := Some (intermediate_text px nodeName),
        eo_causeDetailed := Some (''pairedItem can'' @ [CHR 0x27] @ ''t be found when intermediate nodes between '' @ open_quote @
          ''<strong>'' @ nodeName @ ''</strong>'' @ open_quote @ '' and  '' @ open_quote @ ''<strong>'' @ px_activeNodeName px @
          ''</strong> have not executed yet.''),
        eo_itemIndex := Some itemIndex, eo_type := Some ''paired_item_intermediate_nodes''\<rparr>))"

definition missing_source_error :: "WorkflowDataProxy \<Rightarrow> int \<Rightarrow> proxy_error" where
  "missing_source_error px itemIndex =
     (let open_quote = [CHR 0xE2, CHR 0x80, CHR 0x98]
      in createExpressionError px CANT_GET_DATA ((base_context px)\<lparr>
        eo_messageTemplate := Some (CANT_GET_DATA @ '' under '' @ open_quote @ ''%%PARAMETER%%'' @ [CHR 0xE2, CHR 0x80, CHR 0x99] @ '' field''),
        eo_functionality := Some ''pairedItem'',
        ec_functionOverrides := Some (Some (take 16 CANT_GET_DATA), None),
        eo_description := Some ''Apologies, this is an internal error. See details for more information'',
        eo_causeDetailed := Some ''Missing sourceData (probably an internal error)'',
        eo_itemIndex := Some itemIndex\<rparr>))"

text \<open>The three methods that follow links. \<open>pairedItem\<close> and \<open>itemMatching\<close> may be called with an index.\<close>

datatype PairedItemMethod = PairedItemM | ItemMatchingM | ItemM

fun method_name :: "PairedItemMethod \<Rightarrow> string" where
  "method_name PairedItemM = ''pairedItem''"
| "method_name ItemMatchingM = ''itemMatching''"
| "method_name ItemM = ''item''"

text \<open>
  The body of \<open>pairedItemMethod\<close> once the index is known. A \<open>pairedItem\<close> of \<open>null\<close> has no field \<open>input\<close>; the main
  sources of the entry must be there.
\<close>

definition follow_input ::
    "nat \<Rightarrow> WorkflowDataProxy \<Rightarrow> (ItemPlace \<Rightarrow> nat) \<Rightarrow> string \<Rightarrow> PairedItemMethod \<Rightarrow> int \<Rightarrow> ItemPlace option proxied" where
  "follow_input fuel px obj nodeName meth itemIndex =
     (case at_int (px_connectionInputData px) itemIndex of
        None \<Rightarrow> Inl (intermediate_error px nodeName itemIndex)
      | Some inp \<Rightarrow>
          (case map_of inp ''pairedItem'' of
             None \<Rightarrow> Inl (createMissingPairedItemError px (px_activeNodeName px) (method_name meth))
           | Some p \<Rightarrow>
               (case px_executeSource px of
                  None \<Rightarrow> Inl (missing_source_error px itemIndex)
                | Some src \<Rightarrow>
                    (case (map_of src MainConn, p = JNull) of
                       (Some sources, False) \<Rightarrow>
                         let input = or_else (pi_input (link_of p)) 0;
                             sourceData = (case at_num sources (Some input) of
                               Some (Some s) \<Rightarrow> Some s | _ \<Rightarrow> (case sources of s # _ \<Rightarrow> s | [] \<Rightarrow> None))
                         in getPairedItem fuel px obj nodeName sourceData (link_of p) (method_name meth) None
                     | _ \<Rightarrow> Inl (Thrown TypeError)))))"

definition pairedItemMethod ::
    "nat \<Rightarrow> WorkflowDataProxy \<Rightarrow> (ItemPlace \<Rightarrow> nat) \<Rightarrow> string \<Rightarrow> PairedItemMethod \<Rightarrow> int option \<Rightarrow> ItemPlace option proxied" where
  "pairedItemMethod fuel px obj nodeName meth itemIndex =
     (if itemIndex = None \<and> meth = ItemMatchingM
      then Inl (createExpressionError px ''Missing item index for .itemMatching()'' ((base_context px)\<lparr>eo_itemIndex := None\<rparr>))
      else let itemIndex = or_else itemIndex (px_itemIndex px)
           in case (px_connectionInputData px, pinned_for px nodeName) of
             ([], Some pinnedData) \<Rightarrow> Inr (map_option (\<lambda>_. (PinPlace nodeName, 0, nat itemIndex)) (at_int pinnedData itemIndex))
           | _ \<Rightarrow> follow_input fuel px obj nodeName meth itemIndex)"

text \<open>\<open>$('node').item\<close>, and the other two methods called at once.\<close>

definition dollar_item ::
    "nat \<Rightarrow> WorkflowDataProxy \<Rightarrow> (ItemPlace \<Rightarrow> nat) \<Rightarrow> string \<Rightarrow> PairedItemMethod \<Rightarrow> int option \<Rightarrow> ItemPlace option proxied" where
  "dollar_item fuel px obj nodeName meth itemIndex =
     pbind (referenced_node px nodeName) (\<lambda>_.
     pbind (ensure_linked px nodeName) (\<lambda>_.
     pbind (ensureNodeExecutionData px nodeName) (\<lambda>_.
       pairedItemMethod fuel px obj nodeName meth (if meth = ItemM then None else itemIndex))))"

section \<open>The items of a node\<close>

definition plain_error :: "WorkflowDataProxy \<Rightarrow> string \<Rightarrow> proxy_error" where
  "plain_error px message = new_ExpressionError message (base_context px)"

definition getNodeExecutionData ::
    "WorkflowDataProxy \<Rightarrow> string \<Rightarrow> bool \<Rightarrow> int option \<Rightarrow> int option \<Rightarrow> INodeExecutionData list option proxied" where
  "getNodeExecutionData px nodeName shortSyntax outputIndex runIndex =
     (if shortSyntax then Inr (Some (px_connectionInputData px))
      else case px_runData px of
        None \<Rightarrow> Inl (plain_error px ''The workflow hasn't been executed yet, so you can't reference any output data'')
      | Some rd \<Rightarrow>
          if w_getNode (px_workflow px) nodeName = None
          then Inl (new_ExpressionError NODE_NOT_FOUND ((base_context px)\<lparr>eo_messageTemplate := Some NODE_REFERENCE_TEMPLATE,
            eo_nodeCause := Some nodeName, eo_descriptionKey := Some ''nodeNotFound'', eo_type := Some ''paired_item_no_connection''\<rparr>))
          else if \<not> js_has rd nodeName \<and> pinned_for px nodeName = None
          then Inl (new_ExpressionError NODE_NOT_FOUND ((base_context px)\<lparr>eo_messageTemplate := Some NODE_REFERENCE_TEMPLATE,
            eo_type := Some ''paired_item_no_connection'', eo_descriptionKey := Some ''noNodeExecutionData'',
            eo_nodeCause := Some nodeName\<rparr>))
          else case map_of rd nodeName of
            None \<Rightarrow> Inl (Thrown TypeError)
          | Some runs \<Rightarrow>
              let runIndex = or_else runIndex (px_defaultReturnRunIndex px);
                  runIndex = (if runIndex = -1 then int (length runs) - 1 else runIndex)
              in if int (length runs) \<le> runIndex
                 then Inl (plain_error px (''Run '' @ rat_str (Some (of_int runIndex)) @ '' of node \"'' @ nodeName @ ''\" not found''))
                 else case at_int runs runIndex of
                   None \<Rightarrow> Inl (Thrown TypeError)
                 | Some t \<Rightarrow> (case task_data t of
                     None \<Rightarrow> Inl (Thrown TypeError)
                   | Some d \<Rightarrow> (case or_else (map_of d MainConn) [] of
                       [] \<Rightarrow> Inl (plain_error px ''No data found from `main` input'')
                     | None # _ \<Rightarrow> Inl (plain_error px ''No data found from `main` input'')
                     | outs \<Rightarrow>
                         pbind (case outputIndex of Some i \<Rightarrow> Inr i
                           | None \<Rightarrow> pbind (thrown (connectionIndexes (px_workflow px) (px_contextNodeName px) nodeName MainConn (-1)))
                               (\<lambda>c. case c of
                                  None \<Rightarrow> Inl (plain_error px (''connect \"'' @ px_contextNodeName px @ ''\" to \"'' @ nodeName @ ''\"''))
                                | Some c \<Rightarrow> Inr (int (sourceIndex c))))
                         (\<lambda>outputIndex.
                           if int (length outs) \<le> outputIndex
                           then Inl (plain_error px (''Node \"'' @ nodeName @ ''\" has no branch with index '' @
                             rat_str (Some (of_int outputIndex)) @ ''.''))
                           else Inr (case at_int outs outputIndex of Some o' \<Rightarrow> o' | None \<Rightarrow> None)))))"

definition getNodeExecutionOrPinnedData ::
    "WorkflowDataProxy \<Rightarrow> string \<Rightarrow> bool \<Rightarrow> int option \<Rightarrow> int option \<Rightarrow> INodeExecutionData list option proxied" where
  "getNodeExecutionOrPinnedData px nodeName shortSyntax branchIndex runIndex =
     (case getNodeExecutionData px nodeName shortSyntax branchIndex runIndex of
        Inr d \<Rightarrow> Inr d
      | Inl e \<Rightarrow> (case pinned_for px nodeName of Some pinData \<Rightarrow> Inr (Some pinData) | None \<Rightarrow> Inl e))"

text \<open>What \<open>first\<close>, \<open>last\<close> and \<open>all\<close> have in common: the checks, the default branch and the data.\<close>

definition dollar_data :: "WorkflowDataProxy \<Rightarrow> string \<Rightarrow> int option \<Rightarrow> int option \<Rightarrow> INodeExecutionData list option proxied" where
  "dollar_data px nodeName branchIndex runIndex =
     pbind (referenced_node px nodeName) (\<lambda>_.
     pbind (ensureValidPath px nodeName) (\<lambda>_.
     pbind (ensureNodeExecutionData px nodeName) (\<lambda>_.
     pbind (case branchIndex of Some i \<Rightarrow> Inr i
       | None \<Rightarrow> thrown (map_sum id (\<lambda>c. case c of None \<Rightarrow> 0 | Some c \<Rightarrow> int (sourceIndex c))
           (connectionIndexes (px_workflow px) (px_activeNodeName px) nodeName MainConn (-1)))) (\<lambda>branchIndex.
       getNodeExecutionOrPinnedData px nodeName False (Some branchIndex) runIndex))))"

definition dollar_all :: "WorkflowDataProxy \<Rightarrow> string \<Rightarrow> int option \<Rightarrow> int option \<Rightarrow> INodeExecutionData list option proxied" where
  "dollar_all = dollar_data"

definition dollar_first :: "WorkflowDataProxy \<Rightarrow> string \<Rightarrow> int option \<Rightarrow> int option \<Rightarrow> INodeExecutionData option proxied" where
  "dollar_first px nodeName branchIndex runIndex =
     pbind (dollar_data px nodeName branchIndex runIndex) (\<lambda>d. case d of
       None \<Rightarrow> Inl (Thrown TypeError) | Some [] \<Rightarrow> Inr None | Some (x # _) \<Rightarrow> Inr (Some x))"

definition dollar_last :: "WorkflowDataProxy \<Rightarrow> string \<Rightarrow> int option \<Rightarrow> int option \<Rightarrow> INodeExecutionData option proxied" where
  "dollar_last px nodeName branchIndex runIndex =
     pbind (dollar_data px nodeName branchIndex runIndex) (\<lambda>d. case d of
       None \<Rightarrow> Inl (Thrown TypeError) | Some [] \<Rightarrow> Inr None | Some xs \<Rightarrow> Inr (Some (last xs)))"

section \<open>The data of the current node\<close>

text \<open>\<open>nodeDataGetter\<close> for \<open>json\<close>: \<open>$json\<close> with the short syntax, \<open>$node['name'].json\<close> without.\<close>

definition node_json :: "WorkflowDataProxy \<Rightarrow> string \<Rightarrow> bool \<Rightarrow> bool \<Rightarrow> json option proxied" where
  "node_json px nodeName shortSyntax throwOnMissingExecutionData =
     (if map_of (w_nodes (px_workflow px)) nodeName = None
      then Inl (new_ExpressionError NODE_NOT_FOUND (node_reference_context px nodeName))
      else pbind (getNodeExecutionOrPinnedData px nodeName shortSyntax None None) (\<lambda>d. case d of
        None \<Rightarrow> Inl (Thrown TypeError)
      | Some executionData \<Rightarrow>
          if executionData = [] \<and> \<not> throwOnMissingExecutionData then Inr None
          else if executionData = []
          then Inl (if w_getParentNodes (px_workflow px) nodeName (OfType MainConn) (-1) = []
            then new_ExpressionError NO_EXECUTION_DATA ((base_context px)\<lparr>
              eo_messageTemplate := Some (''No execution data available to expression under '' @ [CHR 0xE2, CHR 0x80, CHR 0x98] @
                ''%%PARAMETER%%'' @ [CHR 0xE2, CHR 0x80, CHR 0x99]),
              eo_descriptionKey := Some ''noInputConnection'', eo_nodeCause := Some nodeName, eo_type := Some ''no_input_connection''\<rparr>)
            else new_ExpressionError NO_EXECUTION_DATA ((base_context px)\<lparr>eo_type := Some ''no_execution_data''\<rparr>))
          else if int (length executionData) \<le> px_itemIndex px
          then Inl (plain_error px (''No data found for item-index: \"'' @ rat_str (Some (of_int (px_itemIndex px))) @ ''\"''))
          else (case at_int executionData (px_itemIndex px) of
            None \<Rightarrow> Inl (Thrown TypeError) | Some it \<Rightarrow> Inr (map_of it ''json''))))"

datatype InputProperty = InputItem | InputFirst nat | InputLast nat

text \<open>\<open>$input\<close>: the first and the last item take no arguments; the number is how many are given.\<close>

definition dollar_input :: "WorkflowDataProxy \<Rightarrow> InputProperty \<Rightarrow> INodeExecutionData option proxied" where
  "dollar_input px property =
     (let items = px_connectionInputData px
      in if items = [] then Inl (createExpressionError px NO_EXECUTION_DATA ((base_context px)\<lparr>eo_type := Some ''no_execution_data''\<rparr>))
         else case property of
           InputItem \<Rightarrow> Inr (at_int items (px_itemIndex px))
         | InputFirst args \<Rightarrow>
             if args \<noteq> 0 then Inl (createExpressionError px ''$input.first() should have no arguments'' (base_context px))
             else Inr (Some (hd items))
         | InputLast args \<Rightarrow>
             if args \<noteq> 0 then Inl (createExpressionError px ''$input.last() should have no arguments'' (base_context px))
             else Inr (Some (last items)))"

definition input_all :: "WorkflowDataProxy \<Rightarrow> INodeExecutionData list proxied" where
  "input_all px = (if px_connectionInputData px = []
     then Inl (createExpressionError px NO_EXECUTION_DATA ((base_context px)\<lparr>eo_type := Some ''no_execution_data''\<rparr>))
     else Inr (px_connectionInputData px))"

text \<open>\<open>$prevNode\<close> with its name, output and run; \<open>undefined\<close> before the previous node has run.\<close>

definition prevNode :: "WorkflowDataProxy \<Rightarrow> (string \<times> nat \<times> nat) option proxied" where
  "prevNode px = (case px_executeSource px of
     None \<Rightarrow> Inr None
   | Some src \<Rightarrow> (case map_of src MainConn of
       Some (Some s # _) \<Rightarrow> Inr (Some (previousNode s, source_output s, source_run s))
     | _ \<Rightarrow> Inl (Thrown TypeError)))"

text \<open>\<open>$items\<close>: without a name the input of the node, or its first item if the previous node executes once.\<close>

definition dollar_items :: "WorkflowDataProxy \<Rightarrow> string option \<Rightarrow> int option \<Rightarrow> int option \<Rightarrow> INodeExecutionData list option proxied" where
  "dollar_items px nodeName outputIndex runIndex = (case nodeName of
     None \<Rightarrow> pbind (prevNode px) (\<lambda>p. case p of
         None \<Rightarrow> Inl (Thrown TypeError)
       | Some (nm, _) \<Rightarrow> (case map_of (w_nodes (px_workflow px)) nm of
           None \<Rightarrow> Inl (Thrown TypeError)
         | Some n \<Rightarrow> Inr (Some (if node_executeOnce n = Some True then take 1 (px_connectionInputData px) else px_connectionInputData px))))
   | Some nm \<Rightarrow> getNodeExecutionData px nm False (Some (or_else outputIndex 0)) (Some (or_else runIndex (-1))))"


section \<open>Specification: the ancestors of an item\<close>

text \<open>The output a source names, with its place and the sources of the run.\<close>

definition source_data :: "WorkflowDataProxy \<Rightarrow> ISourceData \<Rightarrow> (TaskPlace \<times> INodeExecutionData list \<times> ISourceData option list) option" where
  "source_data px s = (case getTaskData px s of None \<Rightarrow> None
     | Some (pl, t) \<Rightarrow> map_option (\<lambda>items. (pl, items, task_source t)) (output_items t (source_output s)))"

definition place_at :: "TaskPlace \<Rightarrow> ISourceData \<Rightarrow> INodeExecutionData list \<Rightarrow> rat option \<Rightarrow> ItemPlace option" where
  "place_at pl s items q = (case array_index q of None \<Rightarrow> None
     | Some i \<Rightarrow> if i < length items then Some (pl, source_output s, i) else None)"

inductive ancestor :: "WorkflowDataProxy \<Rightarrow> string \<Rightarrow> nat \<Rightarrow> ISourceData option \<Rightarrow> IPairedItemData \<Rightarrow> ItemPlace option \<Rightarrow> bool"
  for px dest where
  here: "final_source p inc = Some s \<Longrightarrow> source_data px s = Some (pl, items, sources) \<Longrightarrow> previousNode s = dest \<Longrightarrow>
     \<not> past_end (pi_item p) items \<Longrightarrow> ancestor px dest n inc p (place_at pl s items (pi_item p))"
| up: "final_source p inc = Some s \<Longrightarrow> source_data px s = Some (pl, items, sources) \<Longrightarrow> previousNode s \<noteq> dest \<Longrightarrow>
     at_num items (pi_item p) = Some it \<Longrightarrow> np \<in> set (normalizePairedItem (map_of it ''pairedItem'')) \<Longrightarrow>
     next_source sources np = Some (np', inc') \<Longrightarrow> ancestor px dest n inc' np' r \<Longrightarrow> ancestor px dest (Suc n) inc p r"

inductive_cases ancestorE: "ancestor px dest n inc p r"

lemma getNodeOutput_Inr:
  "getNodeOutput px (map_option snd (getTaskData px s)) s c = Inr outs \<longleftrightarrow>
   (\<exists>pl t. getTaskData px s = Some (pl, t) \<and> source_data px s = Some (pl, outs, task_source t))"
  by (auto simp: getNodeOutput_def source_data_def split: option.splits prod.splits)

lemma source_dataD: "source_data px s = Some (pl, items, sources) \<Longrightarrow>
    \<exists>t. getTaskData px s = Some (pl, t) \<and> task_source t = sources \<and> output_items t (source_output s) = Some items"
  by (auto simp: source_data_def split: option.splits)

text \<open>One call of \<open>getPairedItem\<close> at the node that is asked for, and below it.\<close>

lemma getPairedItem_here:
  assumes "final_source p inc = Some s" and "source_data px s = Some (pl, items, sources)" and "previousNode s = dest"
  shows "getPairedItem (Suc fuel) px obj dest inc p meth c =
    (if past_end (pi_item p) items then Inl (createInvalidPairedItemError px (previousNode s))
     else Inr (place_at pl s items (pi_item p)))"
proof -
  from source_dataD[OF assms(2)] obtain t where t: "getTaskData px s = Some (pl, t)" "output_items t (source_output s) = Some items" by auto
  show ?thesis
    by (simp add: assms(1,3) t getNodeOutput_def place_at_def at_num_def Let_def split: option.splits)
qed

definition link_results ::
    "nat \<Rightarrow> WorkflowDataProxy \<Rightarrow> (ItemPlace \<Rightarrow> nat) \<Rightarrow> string \<Rightarrow> string \<Rightarrow> string \<Rightarrow> ISourceData option list \<Rightarrow> IPairedItemData list \<Rightarrow>
      ItemPlace option proxied list" where
  "link_results fuel px obj dest meth prev sources nps =
     map (\<lambda>(np', s). getPairedItem fuel px obj dest s np' meth (Some prev)) (List.map_filter (next_source sources) nps)"

lemma getPairedItem_up:
  assumes "final_source p inc = Some s" and "source_data px s = Some (pl, items, sources)" and "previousNode s \<noteq> dest"
    and "at_num items (pi_item p) = Some it" and "normalizePairedItem (map_of it ''pairedItem'') = nps" and "nps \<noteq> []"
  shows "\<exists>e. getPairedItem (Suc fuel) px obj dest inc p meth c =
    combine_results px obj dest e (pi_item p) (link_results fuel px obj dest meth (previousNode s) sources nps)"
proof -
  from source_dataD[OF assms(2)] obtain t where t: "getTaskData px s = Some (pl, t)" "task_source t = sources"
    "output_items t (source_output s) = Some items" by auto
  obtain np rest where nps: "nps = np # rest" using assms(6) by (cases nps) auto
  show ?thesis
    unfolding getPairedItem.simps assms(1) option.case
    by (rule exI) (simp add: assms(3,4,5) t getNodeOutput_def nps link_results_def Let_def del: combine_results_def)
qed


section \<open>What getPairedItem finds\<close>

lemma projr_filter: "Inr r \<in> set rs \<longleftrightarrow> r \<in> set (map projr (filter (\<lambda>x. \<not> isl x) rs))"
proof
  assume "r \<in> set (map projr (filter (\<lambda>x. \<not> isl x) rs))"
  then obtain x where "x \<in> set rs" "\<not> isl x" "r = projr x" by auto
  then show "Inr r \<in> set rs" by (cases x) auto
qed force

lemma same_object_refl [simp]: "same_object obj r r"
  by (simp add: same_object_def split: option.split)

lemma combine_results_Inr:
  assumes "combine_results px obj dest e it rs = Inr r"
  shows "Inr r \<in> set rs \<and> (\<forall>r'. Inr r' \<in> set rs \<longrightarrow> same_object obj r' r)"
proof -
  have "\<not> list_all isl rs" using assms by (auto simp: combine_results_def split: list.splits sum.splits)
  then obtain rest where f: "map projr (filter (\<lambda>x. \<not> isl x) rs) = r # rest" and "\<forall>a \<in> set rest. same_object obj a r"
    using assms by (auto simp: combine_results_def Let_def split: list.splits if_splits)
  then show ?thesis unfolding projr_filter f by auto
qed

lemma combine_results_found:
  assumes "Inr r \<in> set rs" and same: "\<And>a b. Inr a \<in> set rs \<Longrightarrow> Inr b \<in> set rs \<Longrightarrow> same_object obj a b"
  shows "\<exists>r'. combine_results px obj dest e it rs = Inr r'"
proof -
  have "\<not> list_all isl rs" using assms(1) by (auto simp: list_all_iff intro!: bexI[of _ "Inr r"])
  moreover obtain first rest where f: "map projr (filter (\<lambda>x. \<not> isl x) rs) = first # rest"
    using assms(1) by (cases "map projr (filter (\<lambda>x. \<not> isl x) rs)") (auto simp: projr_filter)
  moreover have "same_object obj a first" if "a \<in> set rest" for a
    using same[of a first] that unfolding projr_filter f by simp
  ultimately show ?thesis by (simp add: combine_results_def)
qed

text \<open>The error for links that match nothing cannot be thrown: if no link is found, all results are errors.\<close>

lemma combine_results_no_match: "combine_results px obj dest e it rs = combine_results px obj dest e' it rs"
proof -
  have "list_all isl rs" if "filter (\<lambda>x. \<not> isl x) rs = []"
    using that by (simp add: filter_empty_conv list_all_iff)
  then show ?thesis by (auto simp: combine_results_def Let_def split: list.splits)
qed

lemma set_map_filter: "set (List.map_filter f xs) = {y. \<exists>x \<in> set xs. f x = Some y}"
  by (force simp: List.map_filter_def)

lemma link_results_Inr:
  "Inr r \<in> set (link_results fuel px obj dest meth prev sources nps) \<longleftrightarrow>
   (\<exists>np \<in> set nps. \<exists>np' inc'. next_source sources np = Some (np', inc') \<and> getPairedItem fuel px obj dest inc' np' meth (Some prev) = Inr r)"
  by (force simp: link_results_def set_map_filter image_iff)

lemma getPairedItem_ancestor:
  "getPairedItem fuel px obj dest inc p meth c = Inr r \<Longrightarrow> \<exists>n < fuel. ancestor px dest n inc p r"
proof (induction fuel arbitrary: inc p c r)
  case (Suc fuel)
  obtain s where s: "final_source p inc = Some s" using Suc.prems by (cases "final_source p inc") auto
  obtain pl items sources where d: "source_data px s = Some (pl, items, sources)"
    using Suc.prems s by (auto simp: pbind_Inr_iff getNodeOutput_Inr)
  show ?case
  proof (cases "previousNode s = dest")
    case True
    have "\<not> past_end (pi_item p) items" "r = place_at pl s items (pi_item p)"
      using Suc.prems getPairedItem_here[OF s d True, of fuel obj meth c] by (auto split: if_splits)
    then have "ancestor px dest 0 inc p r" using ancestor.here[OF s d True] by simp
    then show ?thesis by blast
  next
    case False
    from source_dataD[OF d] obtain t where t: "getTaskData px s = Some (pl, t)" "output_items t (source_output s) = Some items" by auto
    obtain it where it: "at_num items (pi_item p) = Some it"
      using Suc.prems s False t by (auto simp: getNodeOutput_def Let_def split: option.splits)
    have nps: "normalizePairedItem (map_of it ''pairedItem'') \<noteq> []"
      using Suc.prems s False t it by (auto simp: getNodeOutput_def Let_def split: option.splits)
    obtain e where "getPairedItem (Suc fuel) px obj dest inc p meth c =
        combine_results px obj dest e (pi_item p)
          (link_results fuel px obj dest meth (previousNode s) sources (normalizePairedItem (map_of it ''pairedItem'')))"
      using getPairedItem_up[OF s d False it refl nps] by blast
    with Suc.prems have "Inr r \<in> set (link_results fuel px obj dest meth (previousNode s) sources (normalizePairedItem (map_of it ''pairedItem'')))"
      using combine_results_Inr by metis
    then obtain np np' inc' where np: "np \<in> set (normalizePairedItem (map_of it ''pairedItem''))"
      "next_source sources np = Some (np', inc')" "getPairedItem fuel px obj dest inc' np' meth (Some (previousNode s)) = Inr r"
      by (auto simp: link_results_Inr)
    from Suc.IH[OF np(3)] obtain n where "n < fuel" "ancestor px dest n inc' np' r" by blast
    with ancestor.up[OF s d False it np(1,2)] show ?thesis by (intro exI[of _ "Suc n"]) simp
  qed
qed simp

lemma getPairedItem_complete:
  assumes "ancestor px dest n inc p r" and "n < fuel"
    and unique: "\<And>m a b. ancestor px dest m inc p a \<Longrightarrow> (\<exists>m. ancestor px dest m inc p b) \<Longrightarrow> same_object obj a b"
  shows "\<exists>r'. getPairedItem fuel px obj dest inc p meth c = Inr r'"
  using assms
proof (induction arbitrary: fuel c rule: ancestor.induct)
  case (here p inc s pl items sources n)
  then show ?case using getPairedItem_here[OF here(1,2,3)] by (cases fuel) auto
next
  case (up p inc s pl items sources it np np' inc' n r)
  obtain fuel' where fuel: "fuel = Suc fuel'" "n < fuel'" using up.prems(1) by (cases fuel) auto
  let ?nps = "normalizePairedItem (map_of it ''pairedItem'')"
  let ?rs = "link_results fuel' px obj dest meth (previousNode s) sources ?nps"
  have lift: "\<exists>m. ancestor px dest m inc p a" if "m' \<in> set ?nps" "next_source sources m' = Some (q, i)" "ancestor px dest k i q a" for m' q i k a
    using ancestor.up[OF up.hyps(1-4) that] by blast
  have "\<exists>r'. getPairedItem fuel' px obj dest inc' np' meth (Some (previousNode s)) = Inr r'"
    by (rule up.IH[OF fuel(2)]) (meson lift up.hyps(5,6) up.prems(2))
  then obtain r' where "Inr r' \<in> set ?rs" using up.hyps(5,6) by (auto simp: link_results_Inr)
  moreover have "same_object obj a b" if "Inr a \<in> set ?rs" "Inr b \<in> set ?rs" for a b
  proof -
    from that obtain m1 q1 i1 m2 q2 i2 where
      a: "m1 \<in> set ?nps" "next_source sources m1 = Some (q1, i1)" "getPairedItem fuel' px obj dest i1 q1 meth (Some (previousNode s)) = Inr a" and
      b: "m2 \<in> set ?nps" "next_source sources m2 = Some (q2, i2)" "getPairedItem fuel' px obj dest i2 q2 meth (Some (previousNode s)) = Inr b"
      by (auto simp: link_results_Inr)
    show ?thesis using lift[OF a(1,2)] lift[OF b(1,2)] getPairedItem_ancestor[OF a(3)] getPairedItem_ancestor[OF b(3)] up.prems(2) by meson
  qed
  ultimately obtain r'' where found: "combine_results px obj dest e (pi_item p) ?rs = Inr r''" for e
    using combine_results_found[of r' ?rs obj px dest] combine_results_no_match by metis
  have "?nps \<noteq> []" using up.hyps(5) by auto
  from getPairedItem_up[OF up.hyps(1-4) refl this, of fuel' obj meth c] found fuel(1) show ?case by metis
qed

text \<open>C5: \<open>getPairedItem\<close> returns only ancestors of the item, found by following links back to the node that is
  asked for. If an item has an ancestor there and all its ancestors there are one object, the call returns
  it as soon as the stack is as deep as the shortest chain of links, however many links are broken.\<close>

theorem getPairedItem_finds_ancestor:
  "(\<forall>r. getPairedItem fuel px obj dest inc p meth c = Inr r \<longrightarrow> (\<exists>n < fuel. ancestor px dest n inc p r)) \<and>
   ((\<forall>n m a b. ancestor px dest n inc p a \<and> ancestor px dest m inc p b \<longrightarrow> same_object obj a b) \<longrightarrow>
    (\<exists>r. getPairedItem fuel px obj dest inc p meth c = Inr r) = (\<exists>n < fuel. \<exists>r. ancestor px dest n inc p r))"
proof (intro conjI allI impI)
  assume unique: "\<forall>n m a b. ancestor px dest n inc p a \<and> ancestor px dest m inc p b \<longrightarrow> same_object obj a b"
  show "(\<exists>r. getPairedItem fuel px obj dest inc p meth c = Inr r) = (\<exists>n < fuel. \<exists>r. ancestor px dest n inc p r)"
  proof
    assume "\<exists>n < fuel. \<exists>r. ancestor px dest n inc p r"
    then obtain n r where "n < fuel" "ancestor px dest n inc p r" by blast
    then show "\<exists>r. getPairedItem fuel px obj dest inc p meth c = Inr r"
      by (intro getPairedItem_complete) (use unique in blast)+
  qed (use getPairedItem_ancestor in metis)
qed (rule getPairedItem_ancestor)


section \<open>Depth of the calls\<close>

text \<open>The sources that the links of a recorded run can lead to.\<close>

definition overwrites :: "INodeExecutionData \<Rightarrow> ISourceData list" where
  "overwrites it = List.map_filter pi_sourceOverwrite (normalizePairedItem (map_of it ''pairedItem''))"

definition main_items :: "ITaskData \<Rightarrow> INodeExecutionData list" where
  "main_items t = (case task_data t of None \<Rightarrow> []
     | Some d \<Rightarrow> concat (List.map_filter id (or_else (map_of d MainConn) [])))"

definition followed_from :: "ITaskData \<Rightarrow> ISourceData list" where
  "followed_from t = List.map_filter id (task_source t) @ concat (map overwrites (main_items t))"

definition source_rank :: "WorkflowDataProxy \<Rightarrow> ISourceData \<Rightarrow> nat" where
  "source_rank px s = (case recorded_run px (previousNode s) (source_run s) of
     None \<Rightarrow> 0 | Some t \<Rightarrow> Suc (or_else (executionIndex t) 0))"

text \<open>Every recorded run leads to runs that were executed before it only, and pinned items name no source.\<close>

definition links_back :: "WorkflowDataProxy \<Rightarrow> bool" where
  "links_back px \<longleftrightarrow>
     (\<forall>(nm, runs) \<in> set (or_else (px_runData px) []). \<forall>t \<in> set runs. \<forall>s \<in> set (followed_from t).
        source_rank px s \<le> or_else (executionIndex t) 0) \<and>
     (\<forall>(nm, items) \<in> set (or_else (w_pinData (px_workflow px)) []). \<forall>it \<in> set items. overwrites it = [])"

lemma createExpressionError_thrown [simp]: "createExpressionError px m ctxt \<noteq> Thrown e"
  by (simp add: createExpressionError_def new_ExpressionError_def split: prod.split)

lemma link_errors_thrown [simp]:
  "createInvalidPairedItemError px nm \<noteq> Thrown e" "createMissingPairedItemError px nm m \<noteq> Thrown e"
  "createNodeReferenceError px nm \<noteq> Thrown e" "createPairedItemNotFound px nm c \<noteq> Thrown e"
  "createPairedItemMultipleItemsFound px nm q \<noteq> Thrown e" "createBranchNotFoundError px nm q c \<noteq> Thrown e"
  by (simp_all add: createInvalidPairedItemError_def createMissingPairedItemError_def createNodeReferenceError_def
      createPairedItemNotFound_def createPairedItemMultipleItemsFound_def createBranchNotFoundError_def new_ExpressionError_def)

lemma getNodeOutput_thrown [simp]: "getNodeOutput px t s c \<noteq> Inl (Thrown e)"
  by (auto simp: getNodeOutput_def split: option.split)

text \<open>The calls that a call of \<open>getPairedItem\<close> makes.\<close>

inductive calls :: "WorkflowDataProxy \<Rightarrow> string \<Rightarrow> ISourceData option \<Rightarrow> IPairedItemData \<Rightarrow> string \<Rightarrow> ISourceData option \<Rightarrow> IPairedItemData \<Rightarrow> bool"
  for px dest where
  "final_source p inc = Some s \<Longrightarrow> source_data px s = Some (pl, items, sources) \<Longrightarrow> previousNode s \<noteq> dest \<Longrightarrow>
   at_num items (pi_item p) = Some it \<Longrightarrow> np \<in> set (normalizePairedItem (map_of it ''pairedItem'')) \<Longrightarrow>
   next_source sources np = Some (np', inc') \<Longrightarrow> calls px dest inc p (previousNode s) inc' np'"

text \<open>Either a call ends by itself, or its result is put together from those of its calls.\<close>

lemma getPairedItem_step:
  obtains (ends) x where "\<And>fuel. getPairedItem (Suc fuel) px obj dest inc p meth c = x" "x \<noteq> Inl (Thrown Diverges)"
  | (combines) nps prev sources e it where
      "\<And>fuel. getPairedItem (Suc fuel) px obj dest inc p meth c =
        combine_results px obj dest e it (link_results fuel px obj dest meth prev sources nps)"
      "\<And>np np' inc'. np \<in> set nps \<Longrightarrow> next_source sources np = Some (np', inc') \<Longrightarrow> calls px dest inc p prev inc' np'"
proof (cases "final_source p inc")
  case None
  then show ?thesis by (intro ends[of "Inl (createPairedItemNotFound px dest c)"]) simp_all
next
  case (Some s)
  show ?thesis
  proof (cases "source_data px s")
    case None
    have err: "getNodeOutput px (map_option snd (getTaskData px s)) s c = Inl e' \<Longrightarrow> ?thesis" for e'
      using Some by (intro ends[of "Inl e'"]) auto
    have "\<exists>e'. getNodeOutput px (map_option snd (getTaskData px s)) s c = Inl e'"
      using None getNodeOutput_Inr[of px s c] by (cases "getNodeOutput px (map_option snd (getTaskData px s)) s c") auto
    with err show ?thesis by blast
  next
    case d: (Some x)
    obtain pl items sources where x: "source_data px s = Some (pl, items, sources)" using d by (cases x) auto
    from source_dataD[OF x] obtain t where t: "getTaskData px s = Some (pl, t)" "output_items t (source_output s) = Some items" by auto
    consider "previousNode s = dest" | "previousNode s \<noteq> dest" "at_num items (pi_item p) = None"
      | it where "previousNode s \<noteq> dest" "at_num items (pi_item p) = Some it" "normalizePairedItem (map_of it ''pairedItem'') = []"
      | it where "previousNode s \<noteq> dest" "at_num items (pi_item p) = Some it" "normalizePairedItem (map_of it ''pairedItem'') \<noteq> []"
      by (cases "at_num items (pi_item p)") auto
    then show ?thesis
    proof cases
      case 1
      show ?thesis by (rule ends, rule getPairedItem_here[OF Some x 1]) simp
    next
      case 2
      show ?thesis by (rule ends[of "Inl (Thrown TypeError)"]) (simp_all add: Some t 2 getNodeOutput_def Let_def)
    next
      case (3 it)
      show ?thesis by (rule ends[of "Inl (createMissingPairedItemError px (previousNode s) meth)"])
        (simp_all add: Some t 3 getNodeOutput_def Let_def)
    next
      case (4 it)
      have "getPairedItem (Suc fuel) px obj dest inc p meth c = combine_results px obj dest (Thrown TypeError) (pi_item p)
          (link_results fuel px obj dest meth (previousNode s) sources (normalizePairedItem (map_of it ''pairedItem'')))" for fuel
        using getPairedItem_up[OF Some x 4(1,2) refl 4(3), of fuel obj meth c]
          combine_results_no_match[of px obj dest _ _ _ "Thrown TypeError"] by metis
      then show ?thesis using combines calls.intros[OF Some x 4(1,2)] by blast
    qed
  qed
qed

lemma combine_results_diverges:
  "combine_results px obj dest e it rs = Inl (Thrown Diverges) \<Longrightarrow> e \<noteq> Thrown Diverges \<Longrightarrow> Inl (Thrown Diverges) \<in> set rs"
  by (cases rs) (auto simp: combine_results_def Let_def split: if_splits list.splits sum.splits)


lemma recorded_run_in: "recorded_run px nm k = Some t \<Longrightarrow>
    \<exists>runs. (nm, runs) \<in> set (or_else (px_runData px) []) \<and> t \<in> set runs"
  by (fastforce simp: recorded_run_def or_else_def split: option.splits if_splits dest: map_of_SomeD)

lemma at_num_in: "at_num xs q = Some x \<Longrightarrow> x \<in> set xs"
  by (auto simp: at_num_def split: option.splits if_splits)

lemma output_items_main:
  assumes "output_items t k = Some items" and "it \<in> set items"
  shows "it \<in> set (main_items t)"
proof -
  from assms(1) obtain d outs where d: "task_data t = Some d" "map_of d MainConn = Some outs" "k < length outs" "outs ! k = Some items"
    by (auto simp: output_items_def split: option.splits if_splits)
  then have "Some items \<in> set outs" by (metis nth_mem)
  with d(1,2) assms(2) show ?thesis by (auto simp: main_items_def or_else_def set_map_filter)
qed

lemma overwrite_in: "np \<in> set (normalizePairedItem (map_of it ''pairedItem'')) \<Longrightarrow> pi_sourceOverwrite np = Some s \<Longrightarrow> s \<in> set (overwrites it)"
  by (auto simp: overwrites_def set_map_filter)

text \<open>Every call is for a source of a smaller rank, or for none.\<close>

lemma calls_rank:
  assumes earlier: "links_back px" and c: "calls px dest inc p prev inc' np'" and s: "final_source p inc = Some s"
    and s': "final_source np' inc' = Some s'"
  shows "source_rank px s' < source_rank px s"
  using c s
proof cases
  case (1 s0 pl items sources it np)
  then have s0: "s0 = s" using s by simp
  from source_dataD[OF 1(3)] obtain t where t: "getTaskData px s = Some (pl, t)" "task_source t = sources"
    "output_items t (source_output s) = Some items" unfolding s0 by auto
  have it: "it \<in> set items" using 1(5) by (rule at_num_in)
  from 1(7) s' have from': "pi_sourceOverwrite np = Some s' \<or> Some s' \<in> set sources"
    by (auto simp: next_source_def final_source_def Let_def split: if_splits option.splits dest: at_num_in)
  show ?thesis
  proof (cases "recorded_run px (previousNode s) (source_run s)")
    case (Some t')
    then have "t' = t" using t(1) by (simp add: getTaskData_def)
    moreover obtain runs where "(previousNode s, runs) \<in> set (or_else (px_runData px) [])" "t' \<in> set runs"
      using recorded_run_in[OF Some] by blast
    moreover have "s' \<in> set (followed_from t)"
      using from' overwrite_in[OF 1(6)] output_items_main[OF t(3) it] t(2) by (auto simp: followed_from_def set_map_filter)
    ultimately have "source_rank px s' \<le> or_else (executionIndex t) 0" using earlier by (fastforce simp: links_back_def)
    then show ?thesis using Some \<open>t' = t\<close> by (simp add: source_rank_def)
  next
    case None
    then obtain pd where pd: "pinned_for px (previousNode s) = Some pd" "t = pinDataToTask pd" using t(1) by (auto simp: getTaskData_def)
    then have "sources = []" "items = pd" using t(2,3)
      by (auto simp: pinDataToTask_def plain_task_def output_items_def split: if_splits)
    moreover have "overwrites it = []" if "it \<in> set pd"
    proof -
      have "\<exists>nm. (nm, pd) \<in> set (or_else (w_pinData (px_workflow px)) [])"
        using pd(1) by (auto simp: pinned_for_def getPinDataIfManualExecution_def w_getPinDataOfNode_def or_else_def
            split: if_splits option.splits dest: map_of_SomeD)
      then show ?thesis using earlier that by (fastforce simp: links_back_def)
    qed
    ultimately show ?thesis using from' overwrite_in[OF 1(6)] it by fastforce
  qed
qed

lemma getPairedItem_unsourced:
  "final_source p inc = None \<Longrightarrow> getPairedItem (Suc fuel) px obj dest inc p meth c = Inl (createPairedItemNotFound px dest c)"
  by simp

lemma depth_enough:
  assumes earlier: "links_back px"
  shows "(\<And>s. final_source p inc = Some s \<Longrightarrow> source_rank px s \<le> k) \<Longrightarrow> k + 2 \<le> f1 \<Longrightarrow> k + 2 \<le> f2 \<Longrightarrow>
    getPairedItem f1 px obj dest inc p meth c = getPairedItem f2 px obj dest inc p meth c \<and>
    getPairedItem f1 px obj dest inc p meth c \<noteq> Inl (Thrown Diverges)"
proof (induction k arbitrary: p inc c f1 f2 rule: less_induct)
  case (less k)
  obtain g1 g2 where g: "f1 = Suc g1" "f2 = Suc g2" "k + 1 \<le> g1" "k + 1 \<le> g2"
    using less.prems(2,3) by (cases f1; cases f2) auto
  show ?case
  proof (cases "final_source p inc")
    case None
    then show ?thesis by (simp add: g getPairedItem_unsourced)
  next
    case (Some s)
    have inner: "getPairedItem g1 px obj dest inc' np' meth (Some prev) = getPairedItem g2 px obj dest inc' np' meth (Some prev) \<and>
        getPairedItem g1 px obj dest inc' np' meth (Some prev) \<noteq> Inl (Thrown Diverges)"
      if c: "calls px dest inc p prev inc' np'" for prev inc' np'
    proof (cases "final_source np' inc'")
      case None
      obtain h1 h2 where "g1 = Suc h1" "g2 = Suc h2" using g(3,4) by (cases g1; cases g2) auto
      then show ?thesis using None by (simp add: getPairedItem_unsourced)
    next
      case s': (Some s')
      from calls_rank[OF earlier c Some s'] less.prems(1)[OF Some] have "source_rank px s' < k" by simp
      then show ?thesis using less.IH[of "source_rank px s'" np' inc' g1 g2 "Some prev"] s' g(3,4) by auto
    qed
    show ?thesis
    proof (rule getPairedItem_step[of px obj dest inc p meth c])
      fix nps prev sources e it
      assume step: "\<And>fuel. getPairedItem (Suc fuel) px obj dest inc p meth c =
          combine_results px obj dest e it (link_results fuel px obj dest meth prev sources nps)"
        and called: "\<And>np np' inc'. np \<in> set nps \<Longrightarrow> next_source sources np = Some (np', inc') \<Longrightarrow> calls px dest inc p prev inc' np'"
      have "link_results g1 px obj dest meth prev sources nps = link_results g2 px obj dest meth prev sources nps"
        unfolding link_results_def by (rule map_cong[OF refl]) (use called inner in \<open>auto simp: set_map_filter\<close>)
      moreover have "Inl (Thrown Diverges) \<notin> set (link_results g1 px obj dest meth prev sources nps)"
        using called inner by (fastforce simp: link_results_def set_map_filter)
      moreover have "combine_results px obj dest (Thrown TypeError) it rs \<noteq> Inl (Thrown Diverges)"
        if "Inl (Thrown Diverges) \<notin> set rs" for rs using combine_results_diverges that by force
      ultimately show ?thesis using step combine_results_no_match[of px obj dest e it _ "Thrown TypeError"] unfolding g(1,2) by metis
    qed (simp add: g)
  qed
qed

text \<open>C21: If the runs lead back to runs that were executed before them only, \<open>getPairedItem\<close> ends: the depth of its
  calls is bounded by the execution index of the run it starts from, the stack does not overflow and the
  result is the same for every deeper stack.\<close>

theorem getPairedItem_terminates:
  assumes "links_back px" and "or_else (map_option (source_rank px) (final_source p inc)) 0 + 2 \<le> fuel" and "fuel \<le> fuel'"
  shows "getPairedItem fuel px obj dest inc p meth c \<noteq> Inl (Thrown Diverges) \<and>
    getPairedItem fuel' px obj dest inc p meth c = getPairedItem fuel px obj dest inc p meth c"
proof -
  let ?k = "or_else (map_option (source_rank px) (final_source p inc)) 0"
  have "source_rank px s \<le> ?k" if "final_source p inc = Some s" for s
    using that by (simp add: or_else_def)
  then show ?thesis
    using depth_enough[OF assms(1), of p inc ?k fuel fuel' obj dest meth c] assms(2,3) by (metis order_trans)
qed


section \<open>The item of the previous node\<close>

lemma array_index_nat [simp]: "array_index (Some (of_nat i)) = Some i"
  by (simp add: array_index_def)

lemma at_num_nat: "at_num xs (Some (of_nat i)) = (if i < length xs then Some (xs ! i) else None)"
  by (simp add: at_num_def)

lemma link_of_paired_item:
  "link_of (paired_item i inp) = \<lparr>pi_item = Some (of_nat i), pi_input = (if inp = 0 then None else Some (of_nat inp)), pi_sourceOverwrite = None\<rparr>"
  by (simp add: link_of_def paired_item_def json_nat_def num_of_def json_source_def)

lemma at_int_pair_items:
  "i < length items \<Longrightarrow> at_int (pair_items inp items) (int i) = Some (js_put ''pairedItem'' (paired_item i inp) (items ! i))"
  by (simp add: at_int_def pair_items_def nth_enumerate_eq)

text \<open>C10: The run loop links every item of an input to its position in the output the input comes from
  (\<open>pair_items\<close>). Hence \<open>$('node').item\<close> of the node an input is connected to is the item at the same position
  of the output that was read, whatever runs and links there are.\<close>

theorem item_of_previous_node:
  assumes "referenced_node px nodeName = Inr n" and "ensure_linked px nodeName = Inr ()" and "isExecuted px nodeName"
    and inputs: "px_connectionInputData px = pair_items inp items" and i: "px_itemIndex px = int i" "i < length items"
    and source: "px_executeSource px = Some src" "map_of src MainConn = Some sources" "inp < length sources" "sources ! inp = Some s"
    and given: "previousNode s = nodeName" "source_data px s = Some (pl, outs, runs)" "length outs = length items"
  shows "dollar_item (Suc fuel) px obj nodeName ItemM None = Inr (Some (pl, source_output s, i))"
proof -
  have executed: "ensureNodeExecutionData px nodeName = Inr ()" by (simp add: ensureNodeExecutionData_def assms(3))
  have item: "at_int (px_connectionInputData px) (int i) = Some (js_put ''pairedItem'' (paired_item i inp) (items ! i))"
    unfolding inputs by (rule at_int_pair_items[OF i(2)])
  let ?p = "link_of (paired_item i inp)"
  have "or_else (pi_input ?p) 0 = of_nat inp" by (simp add: link_of_paired_item or_else_def)
  then have from_source: "at_num sources (Some (or_else (pi_input ?p) 0)) = Some (Some s)"
    using source(3,4) by (simp add: at_num_nat)
  have "final_source ?p (Some s) = Some s" by (simp add: final_source_def link_of_paired_item)
  from getPairedItem_here[OF this given(2,1), of fuel obj "method_name ItemM" None]
  have "getPairedItem (Suc fuel) px obj nodeName (Some s) ?p (method_name ItemM) None = Inr (Some (pl, source_output s, i))"
    using i(2) given(3) by (simp add: link_of_paired_item past_end_def place_at_def)
  moreover have "paired_item i inp \<noteq> JNull" by (simp add: paired_item_def)
  ultimately have "follow_input (Suc fuel) px obj nodeName ItemM (int i) = Inr (Some (pl, source_output s, i))"
    unfolding follow_input_def item source option.case
    by (simp add: source(2) from_source Let_def)
  moreover have "px_connectionInputData px \<noteq> []" using item by (auto simp: at_int_def)
  ultimately show ?thesis
    by (simp add: dollar_item_def assms(1,2) executed pairedItemMethod_def or_else_def i(1) Let_def split: list.split)
qed

section \<open>Lost links and hidden outputs\<close>

text \<open>
  If the run of an item has no source for any of its links, as a pinned run has none, neither of the errors
  for that case is thrown but a \<open>TypeError\<close>: \<open>every\<close> holds of no results, and the first of them is read.
\<close>

theorem lost_links_type_error:
  assumes "final_source p inc = Some s" and "source_data px s = Some (pl, items, sources)" and "previousNode s \<noteq> dest"
    and "at_num items (pi_item p) = Some it" and "normalizePairedItem (map_of it ''pairedItem'') \<noteq> []"
    and "\<forall>np \<in> set (normalizePairedItem (map_of it ''pairedItem'')). next_source sources np = None"
  shows "getPairedItem (Suc fuel) px obj dest inc p meth c = Inl (Thrown TypeError)"
proof -
  have "List.map_filter (next_source sources) nps = []" if "\<forall>np \<in> set nps. next_source sources np = None" for nps
    using that by (induction nps) (simp_all add: List.map_filter_simps)
  then have "link_results fuel px obj dest meth (previousNode s) sources (normalizePairedItem (map_of it ''pairedItem'')) = []"
    using assms(6) by (simp add: link_results_def)
  then show ?thesis
    using getPairedItem_up[OF assms(1-4) refl assms(5), of fuel obj meth c] by (auto simp: combine_results_def)
qed

text \<open>If the first output of a run is \<open>null\<close>, the data of its other outputs cannot be read.\<close>

lemma first_output_hides_others:
  assumes "px_runData px = Some rd" and "w_getNode (px_workflow px) nm = Some n" and "map_of rd nm = Some [t]"
    and "task_data t = Some [(MainConn, None # outs)]" and "px_defaultReturnRunIndex px = -1"
  shows "getNodeExecutionData px nm False branch None = Inl (plain_error px ''No data found from `main` input'')"
proof -
  have "js_has rd nm" using assms(3) by (simp add: js_has_def domI)
  then show ?thesis using assms by (simp add: getNodeExecutionData_def or_else_def at_int_def)
qed

section \<open>Examples\<close>

definition linked_item :: "nat \<Rightarrow> INodeExecutionData" where
  "linked_item i = [(''json'', JObj []), (''pairedItem'', JObj [(''item'', JNum (of_nat i))])]"

definition from_node :: "string \<Rightarrow> ISourceData" where
  "from_node nm = \<lparr>previousNode = nm, previousNodeOutput = None, previousNodeRun = None\<rparr>"

definition sample_run :: "nat \<Rightarrow> ISourceData option list \<Rightarrow> INodeExecutionData list \<Rightarrow> ITaskData" where
  "sample_run k srcs items = (plain_task (Some [(MainConn, [Some items])]))\<lparr>executionIndex := Some k, task_source := srcs\<rparr>"

text \<open>Node \<open>b\<close> turned the two items of \<open>a\<close> around; \<open>c\<close> reads its first input item.\<close>

definition sample_proxy :: WorkflowDataProxy where
  "sample_proxy = \<lparr>px_workflow = line_workflow,
     px_runData = Some [(''a'', [sample_run 0 [] [empty_item, empty_item]]),
       (''b'', [sample_run 1 [Some (from_node ''a'')] [linked_item 1, linked_item 0]])],
     px_runIndex = 0, px_itemIndex = 0, px_activeNodeName = ''c'',
     px_connectionInputData = pair_items 0 [linked_item 1, linked_item 0], px_mode = ModeTrigger,
     px_executeSource = Some [(MainConn, [Some (from_node ''b'')])], px_defaultReturnRunIndex = -1, px_contextNodeName = ''c''\<rparr>"

lemma sample_item_of_a:
  "dollar_item 5 sample_proxy (\<lambda>(pl, k, i). i) ''a'' ItemM None = Inr (Some (RunPlace ''a'' 0, 0, 1))"
  by code_simp

lemma sample_data:
  "source_data sample_proxy (from_node ''b'') = Some (RunPlace ''b'' 0, [linked_item 1, linked_item 0], [Some (from_node ''a'')])"
  "source_data sample_proxy (from_node ''a'') = Some (RunPlace ''a'' 0, [empty_item, empty_item], [])"
  "source_output (from_node nm) = 0"
  by (simp_all add: source_data_def getTaskData_def recorded_run_def sample_proxy_def from_node_def source_run_def source_output_def
      or_else_def sample_run_def plain_task_def output_items_def)

lemma sample_links:
  "normalizePairedItem (map_of (linked_item i) ''pairedItem'') = [\<lparr>pi_item = Some (of_nat i), pi_input = None, pi_sourceOverwrite = None\<rparr>]"
  by (simp add: linked_item_def normalizePairedItem_def link_of_def num_of_def json_source_def)

lemma getPairedItem_finds_ancestor_witness:
  "\<exists>r. getPairedItem 2 sample_proxy (\<lambda>(pl, k, i). i) ''a'' (Some (from_node ''b'')) (link_of (paired_item 0 0)) ''item'' None = Inr r"
proof -
  let ?p = "link_of (paired_item 0 0)" and ?q = "\<lparr>pi_item = Some 1, pi_input = Some 0, pi_sourceOverwrite = None\<rparr>"
  have p: "final_source ?p (Some (from_node ''b'')) = Some (from_node ''b'')" "pi_item ?p = Some 0"
    by (simp_all add: link_of_paired_item final_source_def)
  have q: "final_source ?q (Some (from_node ''a'')) = Some (from_node ''a'')" by (simp add: final_source_def)
  have names: "previousNode (from_node nm) = nm" for nm by (simp add: from_node_def)
  have at: "at_num [linked_item 1, linked_item 0] (pi_item ?p) = Some (linked_item 1)"
    by (simp add: p(2) at_num_def array_index_def)
  have "next": "next_source [Some (from_node ''a'')] \<lparr>pi_item = Some 1, pi_input = None, pi_sourceOverwrite = None\<rparr> =
      Some (?q, Some (from_node ''a''))"
    by (simp add: next_source_def or_else_def past_end_def at_num_def array_index_def)
  have first: "ancestor sample_proxy ''a'' 0 (Some (from_node ''a'')) ?q (place_at (RunPlace ''a'' 0) (from_node ''a'') [empty_item, empty_item] (pi_item ?q))"
    by (rule ancestor.here[OF q sample_data(2)]) (simp_all add: names past_end_def)
  have "ancestor sample_proxy ''a'' (Suc 0) (Some (from_node ''b'')) ?p (place_at (RunPlace ''a'' 0) (from_node ''a'') [empty_item, empty_item] (pi_item ?q))"
    by (rule ancestor.up[OF p(1) sample_data(1) _ at _ "next" first]) (simp_all add: names sample_links)
  then have ex: "\<exists>n < 2. \<exists>r. ancestor sample_proxy ''a'' n (Some (from_node ''b'')) ?p r" by (metis lessI numeral_2_eq_2)
  have only_a: "r = Some (RunPlace ''a'' 0, 0, 1)" if "ancestor sample_proxy ''a'' n (Some (from_node ''a'')) ?q r" for n r
    using that by (rule ancestorE) (auto simp: q names sample_data place_at_def array_index_def)
  have only: "r = Some (RunPlace ''a'' 0, 0, 1)" if "ancestor sample_proxy ''a'' n (Some (from_node ''b'')) ?p r" for n r
    using that
  proof (rule ancestorE)
    fix s pl items sources it np np' inc' m
    assume "final_source ?p (Some (from_node ''b'')) = Some s" "source_data sample_proxy s = Some (pl, items, sources)"
      "at_num items (pi_item ?p) = Some it" "np \<in> set (normalizePairedItem (map_of it ''pairedItem''))"
      "next_source sources np = Some (np', inc')" and r: "ancestor sample_proxy ''a'' m inc' np' r"
    then have "np' = ?q" "inc' = Some (from_node ''a'')" using at "next" by (auto simp: p sample_data sample_links)
    then show ?thesis using only_a r by simp
  qed (auto simp: p names)
  have unique: "\<forall>n m a b. ancestor sample_proxy ''a'' n (Some (from_node ''b'')) ?p a \<and> ancestor sample_proxy ''a'' m (Some (from_node ''b'')) ?p b \<longrightarrow>
      same_object (\<lambda>(pl, k, i). i) a b"
    using only by (metis same_object_refl)
  from getPairedItem_finds_ancestor[of 2 sample_proxy "\<lambda>(pl, k, i). i" "''a''" "Some (from_node ''b'')" ?p "''item''" None] unique ex
  show ?thesis by blast
qed

lemma sample_links_back: "links_back sample_proxy"
  by code_simp

lemma getPairedItem_terminates_witness:
  "getPairedItem 4 sample_proxy (\<lambda>(pl, k, i). i) ''a'' (Some (from_node ''b'')) (link_of (paired_item 0 0)) ''item'' None \<noteq> Inl (Thrown Diverges)"
proof -
  have "or_else (map_option (source_rank sample_proxy) (final_source (link_of (paired_item 0 0)) (Some (from_node ''b'')))) 0 + 2 \<le> (4::nat)"
    by code_simp
  from getPairedItem_terminates[OF sample_links_back this order_refl, where ?obj = "\<lambda>(pl, k, i). i" and ?dest = "''a''" and ?meth = "''item''" and ?c = None]
  show ?thesis by simp
qed

lemma item_of_previous_node_witness:
  "dollar_item 1 sample_proxy (\<lambda>(pl, k, i). i) ''b'' ItemM None = Inr (Some (RunPlace ''b'' 0, 0, 0))"
proof -
  have "case referenced_node sample_proxy ''b'' of Inr n \<Rightarrow> True | _ \<Rightarrow> False" by code_simp
  then obtain n where node: "referenced_node sample_proxy ''b'' = Inr n" by (cases "referenced_node sample_proxy ''b''") auto
  have path: "ensure_linked sample_proxy ''b'' = Inr ()" "isExecuted sample_proxy ''b''" by code_simp+
  have "dollar_item (Suc 0) sample_proxy (\<lambda>(pl, k, i). i) ''b'' ItemM None = Inr (Some (RunPlace ''b'' 0, source_output (from_node ''b''), 0))"
    by (rule item_of_previous_node[OF node path, where ?items = "[linked_item 1, linked_item 0]" and ?inp = 0
          and ?src = "[(MainConn, [Some (from_node ''b'')])]" and ?sources = "[Some (from_node ''b'')]", OF _ _ _ _ _ _ _ _ sample_data(1)])
      (simp_all add: sample_proxy_def from_node_def)
  then show ?thesis by (simp add: sample_data(3))
qed

text \<open>Item \<open>0\<close> of the pin data of \<open>b\<close> is linked to an item of \<open>a\<close>, but pin data has no sources.\<close>

definition pinned_proxy :: WorkflowDataProxy where
  "pinned_proxy = sample_proxy\<lparr>px_workflow := line_workflow\<lparr>w_pinData := Some [(''b'', [linked_item 1])]\<rparr>,
     px_runData := Some [(''a'', [sample_run 0 [] [empty_item, empty_item]])], px_mode := ModeManual\<rparr>"

lemma lost_links_type_error_witness:
  "getPairedItem 2 pinned_proxy (\<lambda>(pl, k, i). i) ''a'' (Some (from_node ''b'')) (link_of (paired_item 0 0)) ''item'' None = Inl (Thrown TypeError)"
proof -
  have "getPairedItem (Suc 1) pinned_proxy (\<lambda>(pl, k, i). i) ''a'' (Some (from_node ''b'')) (link_of (paired_item 0 0)) ''item'' None = Inl (Thrown TypeError)"
    by (rule lost_links_type_error[where ?s = "from_node ''b''" and ?pl = "PinPlace ''b''" and ?items = "[linked_item 1]" and ?sources = "[]" and ?it = "linked_item 1"])
      (simp_all add: final_source_def link_of_paired_item source_data_def getTaskData_def recorded_run_def pinned_proxy_def sample_proxy_def
        pinned_for_def getPinDataIfManualExecution_def w_getPinDataOfNode_def from_node_def source_run_def source_output_def or_else_def
        pinDataToTask_def plain_task_def output_items_def at_num_def array_index_def sample_links next_source_def past_end_def)
  then show ?thesis by (simp add: numeral_2_eq_2)
qed

text \<open>
  A link that leads to two different items counts as broken, so that the other link decides: item \<open>0\<close> of \<open>c\<close> has
  the ancestors \<open>0\<close> and \<open>1\<close> in \<open>a\<close> by its first link and \<open>0\<close> by its second link, and \<open>0\<close> is returned.
\<close>

definition forked_proxy :: WorkflowDataProxy where
  "forked_proxy = sample_proxy\<lparr>px_runData := Some [(''a'', [sample_run 0 [] [empty_item, empty_item]]),
       (''b'', [sample_run 1 [Some (from_node ''a'')]
          [[(''pairedItem'', JArr [JNum 0, JNum 1])], linked_item 0]]),
       (''c'', [sample_run 2 [Some (from_node ''b'')] [[(''pairedItem'', JArr [JNum 0, JNum 1])]]])]\<rparr>"

lemma ambiguous_link_ignored:
  "getPairedItem 2 forked_proxy (\<lambda>(pl, k, i). i) ''a'' (Some (from_node ''b'')) (link_of (JNum 0)) ''item'' None =
     Inl (createPairedItemMultipleItemsFound forked_proxy ''a'' (Some 0)) \<and>
   getPairedItem 3 forked_proxy (\<lambda>(pl, k, i). i) ''a'' (Some (from_node ''c'')) (link_of (JNum 0)) ''item'' None =
     Inr (Some (RunPlace ''a'' 0, 0, 0))"
  by code_simp

end
