(* ===== verification/RunnerProcess.thy ===== *)
theory RunnerProcess
  imports TaskBroker
begin

text \<open>
  The other end of the task broker's protocol: class \<open>TaskRunner\<close> of the runner process
  (\<^verbatim>\<open>packages/@n8n/task-runner/src/task-runner.ts\<close>) and \<open>TaskState\<close> (\<^verbatim>\<open>task-state.ts\<close>).

  Task states are objects that the map of running tasks and the pending executions share, so they live in a
  store and are named by their place. \<open>executeTask\<close> runs user code: it is a list of pending executions,
  each of which ends by an event with a result or an error. The payload of a result or an error is
  \<open>None\<close> when \<open>JSON.stringify\<close> throws on it. A promise of a request keeps what it is settled with until the
  execution goes on. \<open>runner_step\<close> is one event of the process, and the events may come in any order. The calls
  of \<open>nanoid\<close> for offers and requests are the argument \<open>ids\<close>; the clock and \<open>randomInt\<close> are read for each offer.
\<close>

section \<open>State\<close>

datatype TaskStatus = WaitingForSettings | TaskRunning | AbortingCancelled | AbortingTimeout

text \<open>\<open>ts_aborted\<close> is the reason the abort controller was used with; \<open>ts_timer\<close> says that the timeout is set.\<close>

record TaskState =
  ts_status :: TaskStatus
  ts_taskId :: string
  ts_aborted :: "string option"
  ts_timer :: bool

datatype RequestOutcome = Resolved string | Rejected string

record PendingRequest =
  pr_taskId :: string
  pr_outcome :: "RequestOutcome option"

datatype RunnerEffect =
    Sent RunnerMessage
  | ReachedIdleTimeout
  | UnhandledRejection string

datatype StopPhase = NotStopped | WaitingForTasks int | Closing | Stopped | StopFailed

record RunnerState =
  rp_canSendOffers :: bool
  rp_offerInterval :: bool
  rp_store :: "TaskState list"
  rp_runningTasks :: "(string, nat) js_map"
  rp_openOffers :: "(string, int) js_map"
  rp_dataRequests :: "(string, PendingRequest) js_map"
  rp_nodeTypesRequests :: "(string, PendingRequest) js_map"
  rp_rpcCalls :: "(string, RequestOutcome option) js_map"
  rp_executions :: "nat list"
  rp_idleTimer :: bool
  rp_stop :: StopPhase
  rp_issued :: nat
  rp_log :: "RunnerEffect list"

record RunnerConfig =
  rc_name :: string
  rc_taskType :: string
  rc_maxConcurrency :: nat
  rc_taskTimeout :: nat
  rc_idleTimeout :: nat

text \<open>What the process reads of its surroundings: fresh ids, the clock and \<open>randomInt\<close> at each offer.\<close>

record RunnerEnv =
  re_ids :: "nat \<Rightarrow> string"
  re_clock :: "string \<Rightarrow> int"
  re_random :: "string \<Rightarrow> nat"

definition OFFER_VALID_TIME_MS :: int where
  "OFFER_VALID_TIME_MS = 5000"

definition OFFER_VALID_EXTRA_MS :: int where
  "OFFER_VALID_EXTRA_MS = 100"

definition msToNs :: "int \<Rightarrow> int" where
  "msToNs ms = ms * 1000000"

definition runner_effect :: "RunnerEffect \<Rightarrow> RunnerState \<Rightarrow> RunnerState" where
  "runner_effect e s = s\<lparr>rp_log := rp_log s @ [e]\<rparr>"

definition sent :: "RunnerMessage \<Rightarrow> RunnerState \<Rightarrow> RunnerState" where
  "sent m = runner_effect (Sent m)"

section \<open>The idle timer and offers\<close>

definition clearIdleTimer :: "RunnerState \<Rightarrow> RunnerState" where
  "clearIdleTimer s = s\<lparr>rp_idleTimer := False\<rparr>"

definition resetIdleTimer :: "RunnerConfig \<Rightarrow> RunnerState \<Rightarrow> RunnerState" where
  "resetIdleTimer cfg s = (if rc_idleTimeout cfg = 0 then s else (clearIdleTimer s)\<lparr>rp_idleTimer := True\<rparr>)"

definition idle_fires :: "RunnerState \<Rightarrow> RunnerState" where
  "idle_fires s = (let s = s\<lparr>rp_idleTimer := False\<rparr>
     in if rp_runningTasks s = [] then runner_effect ReachedIdleTimeout s else s)"

definition stopTaskOffers :: "RunnerState \<Rightarrow> RunnerState" where
  "stopTaskOffers s = s\<lparr>rp_canSendOffers := False, rp_offerInterval := False\<rparr>"

definition startTaskOffers :: "RunnerState \<Rightarrow> RunnerState" where
  "startTaskOffers s = s\<lparr>rp_canSendOffers := True, rp_offerInterval := True\<rparr>"

definition deleteStaleOffers :: "RunnerEnv \<Rightarrow> RunnerState \<Rightarrow> RunnerState" where
  "deleteStaleOffers env s =
     s\<lparr>rp_openOffers := filter (\<lambda>(key, validUntil). \<not> validUntil < re_clock env key) (rp_openOffers s)\<rparr>"

definition send_offer :: "RunnerConfig \<Rightarrow> RunnerEnv \<Rightarrow> RunnerState \<Rightarrow> RunnerState" where
  "send_offer cfg env s =
     (let oid = re_ids env (rp_issued s);
          validForInMs = OFFER_VALID_TIME_MS + int (re_random env oid);
          validUntil = re_clock env oid + msToNs (validForInMs + OFFER_VALID_EXTRA_MS)
      in sent (Runner_TaskOffer oid (rc_taskType cfg) validForInMs)
           (s\<lparr>rp_issued := Suc (rp_issued s), rp_openOffers := js_put oid validUntil (rp_openOffers s)\<rparr>))"

definition sendOffers :: "RunnerConfig \<Rightarrow> RunnerEnv \<Rightarrow> RunnerState \<Rightarrow> RunnerState" where
  "sendOffers cfg env s =
     (let s = deleteStaleOffers env s
      in if \<not> rp_canSendOffers s then s
         else let offersToSend = rc_maxConcurrency cfg - (length (rp_openOffers s) + length (rp_runningTasks s))
              in (send_offer cfg env ^^ offersToSend) s)"

definition hasOpenTaskSlots :: "RunnerConfig \<Rightarrow> RunnerState \<Rightarrow> bool" where
  "hasOpenTaskSlots cfg s \<longleftrightarrow> length (rp_runningTasks s) < rc_maxConcurrency cfg"

section \<open>The life of a task\<close>

definition new_task_state :: "string \<Rightarrow> TaskState" where
  "new_task_state tid = \<lparr>ts_status = WaitingForSettings, ts_taskId = tid, ts_aborted = None, ts_timer = True\<rparr>"

definition set_state :: "nat \<Rightarrow> (TaskState \<Rightarrow> TaskState) \<Rightarrow> RunnerState \<Rightarrow> RunnerState" where
  "set_state k f s = s\<lparr>rp_store := (rp_store s)[k := f (rp_store s ! k)]\<rparr>"

definition offerAccepted :: "RunnerConfig \<Rightarrow> string \<Rightarrow> string \<Rightarrow> RunnerState \<Rightarrow> RunnerState" where
  "offerAccepted cfg oid tid s =
     (if \<not> hasOpenTaskSlots cfg s
      then sent (Runner_TaskRejected tid ''No open task slots - runner already at capacity'')
        (s\<lparr>rp_openOffers := js_del oid (rp_openOffers s)\<rparr>)
      else case map_of (rp_openOffers s) oid of
        None \<Rightarrow> sent (Runner_TaskRejected tid ''Offer expired - not accepted within validity window'') s
      | Some _ \<Rightarrow>
          (let s = resetIdleTimer cfg (s\<lparr>rp_openOffers := js_del oid (rp_openOffers s)\<rparr>);
               k = length (rp_store s)
           in sent (Runner_TaskAccepted tid)
             (s\<lparr>rp_store := rp_store s @ [new_task_state tid], rp_runningTasks := js_put tid k (rp_runningTasks s)\<rparr>)))"

definition finishTask :: "RunnerConfig \<Rightarrow> RunnerEnv \<Rightarrow> nat \<Rightarrow> RunnerState \<Rightarrow> RunnerState" where
  "finishTask cfg env k s =
     (let s = set_state k (\<lambda>t. t\<lparr>ts_timer := False\<rparr>) s;
          s = s\<lparr>rp_runningTasks := js_del (ts_taskId (rp_store s ! k)) (rp_runningTasks s)\<rparr>
      in resetIdleTimer cfg (sendOffers cfg env s))"

text \<open>Rejecting a promise that is settled does nothing; the entry is deleted either way.\<close>

definition cancelTaskRequests :: "string \<Rightarrow> RunnerState \<Rightarrow> RunnerState" where
  "cancelTaskRequests tid s =
     s\<lparr>rp_dataRequests := filter (\<lambda>(_, r). pr_taskId r \<noteq> tid) (rp_dataRequests s),
        rp_nodeTypesRequests := filter (\<lambda>(_, r). pr_taskId r \<noteq> tid) (rp_nodeTypesRequests s)\<rparr>"

definition abort :: "TaskStatus \<Rightarrow> string \<Rightarrow> TaskState \<Rightarrow> TaskState" where
  "abort st why t = t\<lparr>ts_status := st, ts_aborted := (case ts_aborted t of None \<Rightarrow> Some why | Some w \<Rightarrow> Some w)\<rparr>"

fun status_text :: "TaskStatus \<Rightarrow> string" where
  "status_text WaitingForSettings = ''waitingForSettings''"
| "status_text TaskRunning = ''running''"
| "status_text AbortingCancelled = ''aborting:cancelled''"
| "status_text AbortingTimeout = ''aborting:timeout''"

definition toJSON :: "TaskState \<Rightarrow> string" where
  "toJSON t = ''[Task '' @ ts_taskId t @ '' ('' @ status_text (ts_status t) @ '')]''"

text \<open>\<open>JSON.stringify\<close> puts the text in quotes; a task id has no characters that it escapes.\<close>

definition throwUnexpectedTaskStatus :: "TaskState \<Rightarrow> string" where
  "throwUnexpectedTaskStatus t = ''Unexpected task status: '' @ [CHR 0x22] @ toJSON t @ [CHR 0x22]"

definition status_error :: "nat \<Rightarrow> RunnerState \<Rightarrow> RunnerState" where
  "status_error k s = runner_effect (UnhandledRejection (throwUnexpectedTaskStatus (rp_store s ! k))) s"

definition taskCancelled :: "RunnerConfig \<Rightarrow> RunnerEnv \<Rightarrow> string \<Rightarrow> RunnerState \<Rightarrow> RunnerState" where
  "taskCancelled cfg env tid s = (case map_of (rp_runningTasks s) tid of
     None \<Rightarrow> s
   | Some k \<Rightarrow> (case ts_status (rp_store s ! k) of
       WaitingForSettings \<Rightarrow> finishTask cfg env k s
     | AbortingTimeout \<Rightarrow> s
     | AbortingCancelled \<Rightarrow> s
     | TaskRunning \<Rightarrow> cancelTaskRequests tid (set_state k (abort AbortingCancelled ''cancelled'') s)))"

definition TimeoutError :: "nat \<Rightarrow> string" where
  "TimeoutError taskTimeout = ''Task execution timed out after '' @ nat_str taskTimeout @
     (if taskTimeout = 1 then '' second'' else '' seconds'')"

definition taskTimedOut :: "RunnerConfig \<Rightarrow> RunnerEnv \<Rightarrow> string \<Rightarrow> RunnerState \<Rightarrow> RunnerState" where
  "taskTimedOut cfg env tid s = (case map_of (rp_runningTasks s) tid of
     None \<Rightarrow> s
   | Some k \<Rightarrow> (case ts_status (rp_store s ! k) of
       WaitingForSettings \<Rightarrow> finishTask cfg env k (sent (Runner_TaskError tid (TimeoutError (rc_taskTimeout cfg))) s)
     | AbortingTimeout \<Rightarrow> status_error k s
     | TaskRunning \<Rightarrow> cancelTaskRequests tid (set_state k (abort AbortingTimeout ''timeout'') s)
     | AbortingCancelled \<Rightarrow> s))"

text \<open>Up to the await of \<open>executeTask\<close>; user code gets the settings.\<close>

definition receivedSettings :: "string \<Rightarrow> RunnerState \<Rightarrow> RunnerState" where
  "receivedSettings tid s = (case map_of (rp_runningTasks s) tid of
     None \<Rightarrow> s
   | Some k \<Rightarrow> (case ts_status (rp_store s ! k) of
       WaitingForSettings \<Rightarrow> (set_state k (\<lambda>t. t\<lparr>ts_status := TaskRunning\<rparr>) s)\<lparr>rp_executions := rp_executions s @ [k]\<rparr>
     | _ \<Rightarrow> status_error k s))"

text \<open>What the \<open>try\<close> block throws, if it throws, and the state after \<open>finally\<close>.\<close>

definition taskExecutionSucceeded ::
    "RunnerConfig \<Rightarrow> RunnerEnv \<Rightarrow> nat \<Rightarrow> string option \<Rightarrow> RunnerState \<Rightarrow> string option \<times> RunnerState" where
  "taskExecutionSucceeded cfg env k payload s =
     (let tid = ts_taskId (rp_store s ! k)
      in case (ts_status (rp_store s ! k), payload) of
           (WaitingForSettings, _) \<Rightarrow> (Some (throwUnexpectedTaskStatus (rp_store s ! k)), finishTask cfg env k s)
         | (AbortingCancelled, _) \<Rightarrow> (None, finishTask cfg env k s)
         | (_, Some d) \<Rightarrow> (None, finishTask cfg env k (sent (Runner_TaskDone tid d) s))
         | (_, None) \<Rightarrow> (Some ''TypeError'', finishTask cfg env k s))"

definition taskExecutionFailed ::
    "RunnerConfig \<Rightarrow> RunnerEnv \<Rightarrow> nat \<Rightarrow> string option \<Rightarrow> RunnerState \<Rightarrow> string option \<times> RunnerState" where
  "taskExecutionFailed cfg env k payload s =
     (let tid = ts_taskId (rp_store s ! k)
      in case (ts_status (rp_store s ! k), payload) of
           (WaitingForSettings, _) \<Rightarrow> (Some (throwUnexpectedTaskStatus (rp_store s ! k)), finishTask cfg env k s)
         | (AbortingCancelled, _) \<Rightarrow> (None, finishTask cfg env k s)
         | (_, Some e) \<Rightarrow> (None, finishTask cfg env k (sent (Runner_TaskError tid e) s))
         | (_, None) \<Rightarrow> (Some ''TypeError'', finishTask cfg env k s))"

definition unhandled :: "string option \<times> RunnerState \<Rightarrow> RunnerState" where
  "unhandled r = (case r of (None, s) \<Rightarrow> s | (Some e, s) \<Rightarrow> runner_effect (UnhandledRejection e) s)"

text \<open>The rest of \<open>receivedSettings\<close>: what \<open>taskExecutionSucceeded\<close> throws is caught like an error of the task.\<close>

definition execution_ends ::
    "RunnerConfig \<Rightarrow> RunnerEnv \<Rightarrow> nat \<Rightarrow> (string option, string option) sum \<Rightarrow> RunnerState \<Rightarrow> RunnerState" where
  "execution_ends cfg env k result s =
     (let s = s\<lparr>rp_executions := filter (\<lambda>j. j \<noteq> k) (rp_executions s)\<rparr>
      in case result of
           Inr payload \<Rightarrow> (case taskExecutionSucceeded cfg env k payload s of
             (None, s) \<Rightarrow> s | (Some e, s) \<Rightarrow> unhandled (taskExecutionFailed cfg env k (Some e) s))
         | Inl payload \<Rightarrow> unhandled (taskExecutionFailed cfg env k payload s))"

section \<open>Requests of a task\<close>

definition requestData :: "RunnerEnv \<Rightarrow> string \<Rightarrow> string \<Rightarrow> RunnerState \<Rightarrow> RunnerState" where
  "requestData env tid ps s =
     (let rid = re_ids env (rp_issued s)
      in sent (Runner_TaskDataRequest tid rid ps)
        (s\<lparr>rp_issued := Suc (rp_issued s),
           rp_dataRequests := js_put rid \<lparr>pr_taskId = tid, pr_outcome = None\<rparr> (rp_dataRequests s)\<rparr>))"

definition requestNodeTypes :: "RunnerEnv \<Rightarrow> string \<Rightarrow> string \<Rightarrow> RunnerState \<Rightarrow> RunnerState" where
  "requestNodeTypes env tid ps s =
     (let rid = re_ids env (rp_issued s)
      in sent (Runner_NodeTypesRequest tid rid ps)
        (s\<lparr>rp_issued := Suc (rp_issued s),
           rp_nodeTypesRequests := js_put rid \<lparr>pr_taskId = tid, pr_outcome = None\<rparr> (rp_nodeTypesRequests s)\<rparr>))"

definition makeRpcCall :: "RunnerEnv \<Rightarrow> string \<Rightarrow> string \<Rightarrow> string \<Rightarrow> RunnerState \<Rightarrow> RunnerState" where
  "makeRpcCall env tid nm ps s =
     (let cid = re_ids env (rp_issued s)
      in sent (Runner_RPC tid cid nm ps)
        (s\<lparr>rp_issued := Suc (rp_issued s), rp_rpcCalls := js_put cid None (rp_rpcCalls s)\<rparr>))"

definition settled_with :: "RequestOutcome \<Rightarrow> RequestOutcome option \<Rightarrow> RequestOutcome option" where
  "settled_with out old = (case old of None \<Rightarrow> Some out | Some x \<Rightarrow> Some x)"

definition settle_pending :: "string \<Rightarrow> RequestOutcome \<Rightarrow> (string, PendingRequest) js_map \<Rightarrow> (string, PendingRequest) js_map" where
  "settle_pending rid out m = (case map_of m rid of None \<Rightarrow> m
     | Some r \<Rightarrow> js_put rid (r\<lparr>pr_outcome := settled_with out (pr_outcome r)\<rparr>) m)"

definition processDataResponse :: "string \<Rightarrow> string \<Rightarrow> RunnerState \<Rightarrow> RunnerState" where
  "processDataResponse rid d s = s\<lparr>rp_dataRequests := settle_pending rid (Resolved d) (rp_dataRequests s)\<rparr>"

definition processNodeTypesResponse :: "string \<Rightarrow> string \<Rightarrow> RunnerState \<Rightarrow> RunnerState" where
  "processNodeTypesResponse rid d s = s\<lparr>rp_nodeTypesRequests := settle_pending rid (Resolved d) (rp_nodeTypesRequests s)\<rparr>"

definition handleRpcResponse :: "string \<Rightarrow> string \<Rightarrow> string \<Rightarrow> RunnerState \<Rightarrow> RunnerState" where
  "handleRpcResponse cid st d s = (case map_of (rp_rpcCalls s) cid of
     None \<Rightarrow> s
   | Some old \<Rightarrow> s\<lparr>rp_rpcCalls := js_put cid
       (settled_with (if st = ''success'' then Resolved d else Rejected d) old) (rp_rpcCalls s)\<rparr>)"

text \<open>A settled request is deleted when its execution goes on.\<close>

definition request_resumes :: "string \<Rightarrow> RunnerState \<Rightarrow> RunnerState" where
  "request_resumes rid s =
     s\<lparr>rp_dataRequests := filter (\<lambda>(k, r). k \<noteq> rid \<or> pr_outcome r = None) (rp_dataRequests s),
        rp_nodeTypesRequests := filter (\<lambda>(k, r). k \<noteq> rid \<or> pr_outcome r = None) (rp_nodeTypesRequests s),
        rp_rpcCalls := filter (\<lambda>(k, out). k \<noteq> rid \<or> out = None) (rp_rpcCalls s)\<rparr>"

section \<open>Stopping\<close>

definition begin_stop :: "int \<Rightarrow> RunnerState \<Rightarrow> RunnerState" where
  "begin_stop now s = (stopTaskOffers (clearIdleTimer s))\<lparr>rp_stop := WaitingForTasks now\<rparr>"

text \<open>One round of \<open>waitUntilAllTasksAreDone\<close>.\<close>

definition poll_stop :: "int \<Rightarrow> RunnerState \<Rightarrow> RunnerState" where
  "poll_stop now s = (case rp_stop s of
     WaitingForTasks start \<Rightarrow>
       if rp_runningTasks s = [] then s\<lparr>rp_stop := Closing\<rparr>
       else if now - start > 30000 then s\<lparr>rp_stop := StopFailed\<rparr> else s
   | _ \<Rightarrow> s)"

definition connection_closed :: "RunnerState \<Rightarrow> RunnerState" where
  "connection_closed s = (let s = stopTaskOffers s in if rp_stop s = Closing then s\<lparr>rp_stop := Stopped\<rparr> else s)"

section \<open>Messages and events\<close>

fun onMessage :: "RunnerConfig \<Rightarrow> RunnerEnv \<Rightarrow> ToRunner \<Rightarrow> RunnerState \<Rightarrow> RunnerState" where
  "onMessage cfg env ToRunner_InfoRequest s = sent (Runner_Info (rc_name cfg) [rc_taskType cfg]) s"
| "onMessage cfg env ToRunner_RunnerRegistered s = startTaskOffers s"
| "onMessage cfg env (ToRunner_TaskOfferAccept tid oid) s = offerAccepted cfg oid tid s"
| "onMessage cfg env (ToRunner_TaskCancel tid r) s = taskCancelled cfg env tid s"
| "onMessage cfg env (ToRunner_TaskSettings tid st) s = receivedSettings tid s"
| "onMessage cfg env (ToRunner_TaskDataResponse tid rid d) s = processDataResponse rid d s"
| "onMessage cfg env (ToRunner_RPCResponse tid cid st d) s = handleRpcResponse cid st d s"
| "onMessage cfg env (ToRunner_NodeTypes tid rid d) s = processNodeTypesResponse rid d s"

datatype RunnerEvent =
    Received ToRunner
  | OfferTick
  | TaskTimer nat
  | ExecutionEnds nat "(string option, string option) sum"
  | AsksData nat string
  | AsksNodeTypes nat string
  | CallsRpc nat string string
  | RequestResumes string
  | IdleTimer
  | ConnectionClosed
  | StopCalled int
  | StopPolls int

fun runner_step :: "RunnerConfig \<Rightarrow> RunnerEnv \<Rightarrow> RunnerEvent \<Rightarrow> RunnerState \<Rightarrow> RunnerState" where
  "runner_step cfg env (Received m) s = onMessage cfg env m s"
| "runner_step cfg env OfferTick s = (if rp_offerInterval s then sendOffers cfg env s else s)"
| "runner_step cfg env (TaskTimer k) s =
     (if k < length (rp_store s) \<and> ts_timer (rp_store s ! k)
      then taskTimedOut cfg env (ts_taskId (rp_store s ! k)) (set_state k (\<lambda>t. t\<lparr>ts_timer := False\<rparr>) s) else s)"
| "runner_step cfg env (ExecutionEnds k result) s = (if k \<in> set (rp_executions s) then execution_ends cfg env k result s else s)"
| "runner_step cfg env (AsksData k ps) s =
     (if k \<in> set (rp_executions s) then requestData env (ts_taskId (rp_store s ! k)) ps s else s)"
| "runner_step cfg env (AsksNodeTypes k ps) s =
     (if k \<in> set (rp_executions s) then requestNodeTypes env (ts_taskId (rp_store s ! k)) ps s else s)"
| "runner_step cfg env (CallsRpc k nm ps) s =
     (if k \<in> set (rp_executions s) then makeRpcCall env (ts_taskId (rp_store s ! k)) nm ps s else s)"
| "runner_step cfg env (RequestResumes rid) s = request_resumes rid s"
| "runner_step cfg env IdleTimer s = (if rp_idleTimer s then idle_fires s else s)"
| "runner_step cfg env ConnectionClosed s = connection_closed s"
| "runner_step cfg env (StopCalled now) s = begin_stop now s"
| "runner_step cfg env (StopPolls now) s = poll_stop now s"

text \<open>The state after the constructor.\<close>

definition new_runner :: "RunnerConfig \<Rightarrow> RunnerState" where
  "new_runner cfg = resetIdleTimer cfg
     \<lparr>rp_canSendOffers = False, rp_offerInterval = False, rp_store = [], rp_runningTasks = [], rp_openOffers = [],
      rp_dataRequests = [], rp_nodeTypesRequests = [], rp_rpcCalls = [], rp_executions = [], rp_idleTimer = False,
      rp_stop = NotStopped, rp_issued = 0, rp_log = []\<rparr>"

text \<open>The broker names every task differently: a task id is accepted once.\<close>

fun fresh_task :: "RunnerEvent \<Rightarrow> RunnerState \<Rightarrow> bool" where
  "fresh_task (Received (ToRunner_TaskOfferAccept tid oid)) s = (tid \<notin> ts_taskId ` set (rp_store s))"
| "fresh_task _ s = True"

inductive runner_reachable :: "RunnerConfig \<Rightarrow> (RunnerEvent \<Rightarrow> RunnerState \<Rightarrow> bool) \<Rightarrow> RunnerState \<Rightarrow> bool" for cfg ok where
  init: "runner_reachable cfg ok (new_runner cfg)"
| step: "runner_reachable cfg ok s \<Longrightarrow> ok e s \<Longrightarrow> runner_reachable cfg ok (runner_step cfg env e s)"


section \<open>Capacity\<close>

definition within_capacity :: "RunnerConfig \<Rightarrow> RunnerState \<Rightarrow> bool" where
  "within_capacity cfg s \<longleftrightarrow> length (rp_openOffers s) + length (rp_runningTasks s) \<le> rc_maxConcurrency cfg"

lemma length_js_put: "length (js_put k v m) = (if k \<in> fst ` set m then length m else Suc (length m))"
  unfolding js_put_def by (induction m) auto

lemma length_js_put_le: "length (js_put k v m) \<le> Suc (length m)"
  by (simp add: length_js_put)

lemma length_js_del_le: "length (js_del k m) \<le> length m"
  by (simp add: js_del_def)

lemma length_js_del_less: "map_of m k = Some v \<Longrightarrow> length (js_del k m) < length m"
  unfolding js_del_def by (rule length_filter_less[of "(k, v)"]) (auto dest: map_of_SomeD)

text \<open>The projections that most operations leave alone.\<close>

lemma sent_simps [simp]:
  "rp_openOffers (sent m s) = rp_openOffers s" "rp_runningTasks (sent m s) = rp_runningTasks s" "rp_store (sent m s) = rp_store s"
  "rp_executions (sent m s) = rp_executions s" "rp_issued (sent m s) = rp_issued s" "rp_canSendOffers (sent m s) = rp_canSendOffers s"
  "rp_rpcCalls (sent m s) = rp_rpcCalls s" "rp_log (sent m s) = rp_log s @ [Sent m]" "rp_offerInterval (sent m s) = rp_offerInterval s"
  by (simp_all add: sent_def runner_effect_def)

lemma emit_simps [simp]:
  "rp_openOffers (runner_effect e s) = rp_openOffers s" "rp_runningTasks (runner_effect e s) = rp_runningTasks s" "rp_store (runner_effect e s) = rp_store s"
  "rp_executions (runner_effect e s) = rp_executions s" "rp_issued (runner_effect e s) = rp_issued s" "rp_canSendOffers (runner_effect e s) = rp_canSendOffers s"
  "rp_rpcCalls (runner_effect e s) = rp_rpcCalls s" "rp_log (runner_effect e s) = rp_log s @ [e]"
  by (simp_all add: runner_effect_def)

lemma resetIdleTimer_simps [simp]:
  "rp_openOffers (resetIdleTimer cfg s) = rp_openOffers s" "rp_runningTasks (resetIdleTimer cfg s) = rp_runningTasks s"
  "rp_store (resetIdleTimer cfg s) = rp_store s" "rp_executions (resetIdleTimer cfg s) = rp_executions s"
  "rp_issued (resetIdleTimer cfg s) = rp_issued s" "rp_canSendOffers (resetIdleTimer cfg s) = rp_canSendOffers s"
  "rp_rpcCalls (resetIdleTimer cfg s) = rp_rpcCalls s" "rp_log (resetIdleTimer cfg s) = rp_log s"
  by (simp_all add: resetIdleTimer_def clearIdleTimer_def)

lemma set_state_simps [simp]:
  "rp_openOffers (set_state k f s) = rp_openOffers s" "rp_runningTasks (set_state k f s) = rp_runningTasks s"
  "rp_store (set_state k f s) = (rp_store s)[k := f (rp_store s ! k)]" "rp_executions (set_state k f s) = rp_executions s"
  "rp_issued (set_state k f s) = rp_issued s" "rp_rpcCalls (set_state k f s) = rp_rpcCalls s" "rp_log (set_state k f s) = rp_log s"
  by (simp_all add: set_state_def)

lemma cancelTaskRequests_simps [simp]:
  "rp_openOffers (cancelTaskRequests tid s) = rp_openOffers s" "rp_runningTasks (cancelTaskRequests tid s) = rp_runningTasks s"
  "rp_store (cancelTaskRequests tid s) = rp_store s" "rp_executions (cancelTaskRequests tid s) = rp_executions s"
  "rp_issued (cancelTaskRequests tid s) = rp_issued s" "rp_rpcCalls (cancelTaskRequests tid s) = rp_rpcCalls s"
  "rp_log (cancelTaskRequests tid s) = rp_log s"
  by (simp_all add: cancelTaskRequests_def)

lemma send_offers_simps [simp]:
  "rp_runningTasks ((send_offer cfg env ^^ n) s) = rp_runningTasks s" "rp_store ((send_offer cfg env ^^ n) s) = rp_store s"
  "rp_executions ((send_offer cfg env ^^ n) s) = rp_executions s" "rp_canSendOffers ((send_offer cfg env ^^ n) s) = rp_canSendOffers s"
  "rp_rpcCalls ((send_offer cfg env ^^ n) s) = rp_rpcCalls s" "rp_issued ((send_offer cfg env ^^ n) s) = rp_issued s + n"
  by (induction n) (simp_all add: send_offer_def Let_def)

lemma sendOffers_simps [simp]:
  "rp_runningTasks (sendOffers cfg env s) = rp_runningTasks s" "rp_store (sendOffers cfg env s) = rp_store s"
  "rp_executions (sendOffers cfg env s) = rp_executions s" "rp_rpcCalls (sendOffers cfg env s) = rp_rpcCalls s"
  by (simp_all add: sendOffers_def deleteStaleOffers_def Let_def)

lemma send_offer_length: "length (rp_openOffers (send_offer cfg env s)) \<le> Suc (length (rp_openOffers s))"
  by (simp add: send_offer_def Let_def length_js_put_le)

lemma send_offers_length: "length (rp_openOffers ((send_offer cfg env ^^ n) s)) \<le> length (rp_openOffers s) + n"
proof (induction n)
  case (Suc n)
  from send_offer_length[of cfg env "(send_offer cfg env ^^ n) s"] Suc show ?case by simp
qed simp

lemma within_sendOffers: "within_capacity cfg s \<Longrightarrow> within_capacity cfg (sendOffers cfg env s)"
proof -
  assume ok: "within_capacity cfg s"
  let ?d = "deleteStaleOffers env s"
  have d: "length (rp_openOffers ?d) \<le> length (rp_openOffers s)" "rp_runningTasks ?d = rp_runningTasks s"
    by (simp_all add: deleteStaleOffers_def)
  then show ?thesis
    using ok send_offers_length[where cfg = cfg and env = env and s = ?d and n = "rc_maxConcurrency cfg - (length (rp_openOffers ?d) + length (rp_runningTasks ?d))"]
    by (auto simp: within_capacity_def sendOffers_def Let_def)
qed

lemma within_finishTask:
  assumes "length (rp_openOffers s) + length (rp_runningTasks s) \<le> rc_maxConcurrency cfg"
  shows "within_capacity cfg (finishTask cfg env k s)"
proof -
  have "within_capacity cfg (s'\<lparr>rp_runningTasks := js_del tid (rp_runningTasks s')\<rparr>)"
    if "within_capacity cfg s'" for s' tid
    using that length_js_del_le[of tid "rp_runningTasks s'"] by (simp add: within_capacity_def)
  from within_sendOffers[OF this, of "set_state k (\<lambda>t. t\<lparr>ts_timer := False\<rparr>) s"] assms
  show ?thesis by (simp add: finishTask_def Let_def within_capacity_def)
qed

lemma within_offerAccepted: "within_capacity cfg s \<Longrightarrow> within_capacity cfg (offerAccepted cfg oid tid s)"
proof -
  assume ok: "within_capacity cfg s"
  have 1: "length (js_del oid (rp_openOffers s)) \<le> length (rp_openOffers s)" by (rule length_js_del_le)
  have 2: "length (js_put tid (length (rp_store s)) (rp_runningTasks s)) \<le> Suc (length (rp_runningTasks s))" by (rule length_js_put_le)
  have 3: "length (js_del oid (rp_openOffers s)) < length (rp_openOffers s)" if "map_of (rp_openOffers s) oid = Some v" for v
    using that by (rule length_js_del_less)
  show ?thesis using ok 1 2 3
    by (fastforce simp: within_capacity_def offerAccepted_def Let_def split: option.split)
qed

text \<open>Offers and running tasks are all the capacity depends on.\<close>

lemma within_same:
  "rp_openOffers s' = rp_openOffers s \<Longrightarrow> rp_runningTasks s' = rp_runningTasks s \<Longrightarrow> within_capacity cfg s' = within_capacity cfg s"
  by (simp add: within_capacity_def)

lemma within_ends:
  assumes "within_capacity cfg s"
  shows "within_capacity cfg (snd (taskExecutionSucceeded cfg env k p s))" "within_capacity cfg (snd (taskExecutionFailed cfg env k p s))"
  using within_finishTask assms[unfolded within_capacity_def]
  by (auto simp: taskExecutionSucceeded_def taskExecutionFailed_def Let_def split: TaskStatus.split option.split)

lemma within_unhandled: "within_capacity cfg (snd r) \<Longrightarrow> within_capacity cfg (unhandled r)"
  by (auto simp: unhandled_def within_capacity_def split: prod.split option.split)

lemma within_execution_ends:
  assumes "within_capacity cfg s"
  shows "within_capacity cfg (execution_ends cfg env k result s)"
proof -
  let ?s = "s\<lparr>rp_executions := filter (\<lambda>j. j \<noteq> k) (rp_executions s)\<rparr>"
  have ok: "within_capacity cfg ?s" using assms by (simp add: within_capacity_def)
  show ?thesis
  proof (cases result)
    case (Inl p)
    with within_ends(2)[OF ok] within_unhandled show ?thesis by (simp add: execution_ends_def)
  next
    case (Inr p)
    obtain e s' where r: "taskExecutionSucceeded cfg env k p ?s = (e, s')" by fastforce
    with within_ends(1)[OF ok, of env k p] have "within_capacity cfg s'" by simp
    with Inr r within_ends(2)[of cfg s'] within_unhandled show ?thesis
      by (auto simp: execution_ends_def split: option.split)
  qed
qed

lemma within_step:
  assumes ok: "within_capacity cfg s"
  shows "within_capacity cfg (runner_step cfg env e s)"
proof -
  note ok' = ok[unfolded within_capacity_def]
  have cancelled: "within_capacity cfg (taskCancelled cfg env tid s)" for tid
    using ok within_finishTask[OF ok'] by (auto simp: taskCancelled_def within_capacity_def split: option.split TaskStatus.split)
  have fin: "within_capacity cfg (finishTask cfg env j (sent m (set_state k f s)))" for j m k f
    by (rule within_finishTask) (use ok' in simp)
  have timed_out: "within_capacity cfg (taskTimedOut cfg env tid (set_state k f s))" for tid k f
    using ok' fin
    by (auto simp: taskTimedOut_def within_capacity_def status_error_def split: option.split TaskStatus.split)
  show ?thesis
  proof (cases e)
    case (Received m)
    then show ?thesis
      using ok cancelled within_offerAccepted
      by (cases m) (auto simp: within_capacity_def startTaskOffers_def receivedSettings_def status_error_def processDataResponse_def
          handleRpcResponse_def processNodeTypesResponse_def split: option.split TaskStatus.split)
  qed (use ok timed_out within_sendOffers within_execution_ends in \<open>auto simp: within_capacity_def requestData_def requestNodeTypes_def
      makeRpcCall_def request_resumes_def idle_fires_def connection_closed_def stopTaskOffers_def begin_stop_def clearIdleTimer_def
      poll_stop_def Let_def split: StopPhase.split\<close>)
qed

text \<open>C22: Whatever messages, timers, results of user code and shutdowns come in whatever order, the tasks that a runner
  has accepted and the offers it has open never exceed its \<open>maxConcurrency\<close>. When it is full, it has no
  open offer, so that an acceptance it then rejects is one of an offer that is gone.\<close>

theorem runner_within_capacity:
  assumes "runner_reachable cfg ok s"
  shows "length (rp_openOffers s) + length (rp_runningTasks s) \<le> rc_maxConcurrency cfg \<and>
    (\<not> hasOpenTaskSlots cfg s \<longrightarrow> rp_openOffers s = [])"
proof -
  have "within_capacity cfg s"
    using assms
  proof induction
    case init
    show ?case by (simp add: within_capacity_def new_runner_def)
  next
    case (step s e env)
    show ?case by (rule within_step[OF step.IH])
  qed
  then have "length (rp_openOffers s) + length (rp_runningTasks s) \<le> rc_maxConcurrency cfg" by (simp add: within_capacity_def)
  moreover from this have "length (rp_openOffers s) = 0" if "\<not> hasOpenTaskSlots cfg s"
    using that unfolding hasOpenTaskSlots_def by linarith
  ultimately show ?thesis by simp
qed


section \<open>Tasks are answered once and slots are given back\<close>

text \<open>The messages that end a task at the broker.\<close>

fun answer_for :: "string \<Rightarrow> RunnerEffect \<Rightarrow> bool" where
  "answer_for tid (Sent (Runner_TaskDone t d)) = (t = tid)"
| "answer_for tid (Sent (Runner_TaskError t e)) = (t = tid)"
| "answer_for tid _ = False"

definition answers :: "string \<Rightarrow> RunnerState \<Rightarrow> RunnerEffect list" where
  "answers tid s = filter (answer_for tid) (rp_log s)"

definition in_slot :: "RunnerState \<Rightarrow> nat \<Rightarrow> bool" where
  "in_slot s k \<longleftrightarrow> map_of (rp_runningTasks s) (ts_taskId (rp_store s ! k)) = Some k"

definition task_ok :: "RunnerState \<Rightarrow> nat \<Rightarrow> bool" where
  "task_ok s k \<longleftrightarrow> (let t = rp_store s ! k in
     (in_slot s k \<longleftrightarrow> k \<in> set (rp_executions s) \<or> (ts_status t = WaitingForSettings \<and> ts_timer t)) \<and>
     (k \<in> set (rp_executions s) \<longrightarrow> ts_status t \<noteq> WaitingForSettings) \<and>
     (ts_timer t \<longrightarrow> in_slot s k \<and> ts_status t \<noteq> AbortingTimeout) \<and>
     length (answers (ts_taskId t) s) \<le> (if in_slot s k then 0 else 1) \<and>
     (ts_status t = AbortingCancelled \<longrightarrow> answers (ts_taskId t) s = []))"

definition runner_ok :: "RunnerState \<Rightarrow> bool" where
  "runner_ok s \<longleftrightarrow>
     distinct (map ts_taskId (rp_store s)) \<and>
     (\<forall>tid k. map_of (rp_runningTasks s) tid = Some k \<longrightarrow> k < length (rp_store s) \<and> ts_taskId (rp_store s ! k) = tid) \<and>
     (\<forall>k \<in> set (rp_executions s). k < length (rp_store s)) \<and>
     (\<forall>tid. tid \<notin> ts_taskId ` set (rp_store s) \<longrightarrow> answers tid s = []) \<and>
     (\<forall>k < length (rp_store s). task_ok s k)"

lemma task_ok_cong:
  assumes "rp_store s' ! j = rp_store s ! j" and "in_slot s' j = in_slot s j"
    and "(j \<in> set (rp_executions s')) = (j \<in> set (rp_executions s))" and "answers (ts_taskId (rp_store s ! j)) s' = answers (ts_taskId (rp_store s ! j)) s"
  shows "task_ok s' j = task_ok s j"
  by (simp add: task_ok_def assms)

lemma runner_okD: "runner_ok s \<Longrightarrow> k < length (rp_store s) \<Longrightarrow> task_ok s k"
  by (simp add: runner_ok_def)

text \<open>Operations that leave tasks and answers alone.\<close>

definition same_tasks :: "RunnerState \<Rightarrow> RunnerState \<Rightarrow> bool" where
  "same_tasks s s' \<longleftrightarrow> rp_store s' = rp_store s \<and> rp_runningTasks s' = rp_runningTasks s \<and>
     rp_executions s' = rp_executions s \<and> (\<forall>tid. answers tid s' = answers tid s)"

lemma same_tasks_ok: "same_tasks s s' \<Longrightarrow> runner_ok s' = runner_ok s"
  by (simp add: same_tasks_def runner_ok_def task_ok_def in_slot_def)

lemma same_tasks_refl [simp]: "same_tasks s s"
  by (simp add: same_tasks_def)

lemma same_tasks_trans: "same_tasks a b \<Longrightarrow> same_tasks b c \<Longrightarrow> same_tasks a c"
  by (simp add: same_tasks_def)

lemma same_tasks_emit: "(\<And>tid. \<not> answer_for tid e) \<Longrightarrow> same_tasks s (runner_effect e s)"
  by (simp add: same_tasks_def answers_def)

lemma same_tasks_send_offer: "same_tasks s (send_offer cfg env s)"
  by (simp add: same_tasks_def send_offer_def answers_def Let_def)

lemma same_tasks_sendOffers: "same_tasks s (sendOffers cfg env s)"
proof -
  have "same_tasks s' ((send_offer cfg env ^^ n) s')" for n s'
  proof (induction n)
    case (Suc n)
    then show ?case using same_tasks_trans[OF Suc same_tasks_send_offer] by simp
  qed simp
  moreover have "same_tasks s (deleteStaleOffers env s)"
    by (simp add: same_tasks_def deleteStaleOffers_def answers_def)
  ultimately show ?thesis by (auto simp: sendOffers_def Let_def intro: same_tasks_trans)
qed

lemma answers_simps [simp]:
  "answers tid (sent m s) = answers tid s @ (if answer_for tid (Sent m) then [Sent m] else [])"
  "answers tid (runner_effect (UnhandledRejection x) s) = answers tid s" "answers tid (resetIdleTimer cfg s) = answers tid s"
  "answers tid (sendOffers cfg env s) = answers tid s" "answers tid (set_state k f s) = answers tid s"
  "answers tid (cancelTaskRequests tid' s) = answers tid s" "answers tid (s\<lparr>rp_runningTasks := r\<rparr>) = answers tid s"
  "answers tid (s\<lparr>rp_executions := ex\<rparr>) = answers tid s" "answers tid (s\<lparr>rp_openOffers := offs\<rparr>) = answers tid s"
  "answers tid (s\<lparr>rp_store := st\<rparr>) = answers tid s"
  using same_tasks_sendOffers[of s cfg env] by (simp_all add: answers_def same_tasks_def)

text \<open>What the end of a task does: at most one answer, none for a cancelled task.\<close>

definition finishes :: "nat \<Rightarrow> RunnerState \<Rightarrow> RunnerState \<Rightarrow> bool" where
  "finishes k s s' \<longleftrightarrow>
     rp_store s' = (rp_store s)[k := (rp_store s ! k)\<lparr>ts_timer := False\<rparr>] \<and>
     rp_runningTasks s' = js_del (ts_taskId (rp_store s ! k)) (rp_runningTasks s) \<and>
     rp_executions s' = filter (\<lambda>j. j \<noteq> k) (rp_executions s) \<and>
     (\<exists>ms. length ms \<le> 1 \<and> (ts_status (rp_store s ! k) = AbortingCancelled \<longrightarrow> ms = []) \<and>
       (\<forall>tid. answers tid s' = answers tid s @ (if tid = ts_taskId (rp_store s ! k) then ms else [])))"

lemma taskIds_inj: "runner_ok s \<Longrightarrow> j < length (rp_store s) \<Longrightarrow> k < length (rp_store s) \<Longrightarrow>
    ts_taskId (rp_store s ! j) = ts_taskId (rp_store s ! k) \<Longrightarrow> j = k"
  by (auto simp: runner_ok_def distinct_conv_nth)

lemma list_update_timer: "(map ts_taskId (xs[k := (xs ! k)\<lparr>ts_timer := b\<rparr>])) = map ts_taskId xs"
  by (cases "k < length xs") (simp_all add: map_update list_update_same_conv list_update_beyond not_less)

lemma finishes_ok:
  assumes ok: "runner_ok s" and k: "k < length (rp_store s)" "in_slot s k" and fin: "finishes k s s'"
  shows "runner_ok s'"
proof -
  let ?tid = "ts_taskId (rp_store s ! k)"
  from fin obtain ms where f: "rp_store s' = (rp_store s)[k := (rp_store s ! k)\<lparr>ts_timer := False\<rparr>]"
      "rp_runningTasks s' = js_del ?tid (rp_runningTasks s)" "rp_executions s' = filter (\<lambda>j. j \<noteq> k) (rp_executions s)"
      "length ms \<le> 1" "ts_status (rp_store s ! k) = AbortingCancelled \<longrightarrow> ms = []"
      "\<And>tid. answers tid s' = answers tid s @ (if tid = ?tid then ms else [])"
    unfolding finishes_def by blast
  have ids: "map ts_taskId (rp_store s') = map ts_taskId (rp_store s)" unfolding f(1) by (rule list_update_timer)
  then have id_sets: "ts_taskId ` set (rp_store s') = ts_taskId ` set (rp_store s)" by (metis set_map)
  have len: "length (rp_store s') = length (rp_store s)" by (simp add: f(1))
  have id_at: "ts_taskId (rp_store s' ! j) = ts_taskId (rp_store s ! j)" for j
    unfolding f(1) using k(1) by (cases "j = k") auto
  have other: "rp_store s' ! j = rp_store s ! j" if "j \<noteq> k" for j using that by (simp add: f(1))
  have at_k: "rp_store s' ! k = (rp_store s ! k)\<lparr>ts_timer := False\<rparr>" using k(1) by (simp add: f(1))
  have none: "answers ?tid s = []" using ok k by (auto simp: runner_ok_def task_ok_def Let_def)
  have slot_k: "\<not> in_slot s' k" by (simp add: in_slot_def id_at f(2))
  have slot: "in_slot s' j \<longleftrightarrow> in_slot s j" if "j < length (rp_store s)" "j \<noteq> k" for j
    using taskIds_inj[OF ok that(1) k(1)] that(2) by (auto simp: in_slot_def id_at f(2))
  have "task_ok s' j" if j: "j < length (rp_store s)" for j
  proof (cases "j = k")
    case True
    then show ?thesis using f(4,5) none slot_k by (auto simp: task_ok_def at_k f(3,6) Let_def)
  next
    case False
    then have "ts_taskId (rp_store s ! j) \<noteq> ?tid" using taskIds_inj[OF ok j k(1)] by blast
    with False j show ?thesis using runner_okD[OF ok j] by (subst task_ok_cong[of s' j s]) (simp_all add: slot other f(3,6))
  qed
  moreover have "?tid \<in> ts_taskId ` set (rp_store s)" using k(1) by simp
  ultimately show ?thesis
    using ok unfolding runner_ok_def id_sets len
    by (auto simp: ids f(2,3,6) id_at split: if_splits)
qed

lemma finishes_finishTask:
  assumes "k \<notin> set (rp_executions s)"
  shows "finishes k s (finishTask cfg env k s)"
proof -
  have "filter (\<lambda>j. j \<noteq> k) (rp_executions s) = rp_executions s" using assms by (auto intro: filter_True)
  moreover have "ts_taskId ((rp_store s)[k := (rp_store s ! k)\<lparr>ts_timer := False\<rparr>] ! k) = ts_taskId (rp_store s ! k)"
    by (cases "k < length (rp_store s)") (simp_all add: list_update_beyond not_less)
  ultimately show ?thesis
    by (simp add: finishes_def finishTask_def Let_def exI[of _ "[]"])
qed


text \<open>The other steps that change tasks: a new task, the start of its execution, and an abort.\<close>

lemma runner_ok_accept:
  assumes ok: "runner_ok s" and new: "tid \<notin> ts_taskId ` set (rp_store s)"
    and s': "rp_store s' = rp_store s @ [new_task_state tid]" "rp_runningTasks s' = js_put tid (length (rp_store s)) (rp_runningTasks s)"
      "rp_executions s' = rp_executions s" "\<And>t. answers t s' = answers t s"
  shows "runner_ok s'"
proof -
  let ?n = "length (rp_store s)"
  have old: "rp_store s' ! j = rp_store s ! j" "ts_taskId (rp_store s ! j) \<noteq> tid" if "j < ?n" for j
    using that new by (auto simp: s'(1) nth_append)
  have "task_ok s' j" if "j < ?n" for j
    using runner_okD[OF ok that] old[OF that] by (subst task_ok_cong[of s' j s]) (simp_all add: in_slot_def s'(2,3,4))
  moreover have "task_ok s' ?n"
  proof -
    have "?n \<notin> set (rp_executions s)" using ok by (auto simp: runner_ok_def)
    moreover have "answers tid s = []" using ok new by (simp add: runner_ok_def)
    ultimately show ?thesis by (simp add: task_ok_def in_slot_def s' new_task_state_def)
  qed
  ultimately have "\<forall>k < length (rp_store s'). task_ok s' k" by (auto simp: s'(1) less_Suc_eq)
  then show ?thesis
    using ok new unfolding runner_ok_def
    by (auto simp: s' new_task_state_def nth_append split: if_splits intro: less_SucI)
qed

text \<open>A new status for a task that keeps its slot.\<close>

lemma runner_ok_status:
  assumes ok: "runner_ok s" and k: "k < length (rp_store s)" and t: "ts_taskId t = ts_taskId (rp_store s ! k)"
    and s': "rp_store s' = (rp_store s)[k := t]" "rp_runningTasks s' = rp_runningTasks s"
      "\<And>j. j \<in> set (rp_executions s') \<longleftrightarrow> j \<in> set (rp_executions s) \<or> (j = k \<and> started)" "\<And>tid. answers tid s' = answers tid s"
    and task: "task_ok s' k"
  shows "runner_ok s'"
proof -
  have ids: "map ts_taskId (rp_store s') = map ts_taskId (rp_store s)"
    using k t by (simp add: s'(1) map_update list_update_same_conv)
  then have id_sets: "ts_taskId ` set (rp_store s') = ts_taskId ` set (rp_store s)" by (metis set_map)
  have len: "length (rp_store s') = length (rp_store s)" by (simp add: s'(1))
  have id_at: "ts_taskId (rp_store s' ! j) = ts_taskId (rp_store s ! j)" for j
    unfolding s'(1) using k t by (cases "j = k") auto
  have "task_ok s' j" if j: "j < length (rp_store s)" for j
  proof (cases "j = k")
    case False
    then have "rp_store s' ! j = rp_store s ! j" by (simp add: s'(1))
    with False show ?thesis using runner_okD[OF ok j] by (subst task_ok_cong[of s' j s]) (simp_all add: in_slot_def s'(2,3,4))
  qed (simp add: task)
  then show ?thesis
    using ok k unfolding runner_ok_def id_sets len by (auto simp: ids s'(2,3,4) id_at)
qed

lemma running_task: "runner_ok s \<Longrightarrow> map_of (rp_runningTasks s) tid = Some k \<Longrightarrow>
    k < length (rp_store s) \<and> ts_taskId (rp_store s ! k) = tid \<and> in_slot s k \<and> task_ok s k"
  by (auto simp: runner_ok_def in_slot_def)

lemma offerAccepted_ok:
  assumes "runner_ok s" and "tid \<notin> ts_taskId ` set (rp_store s)"
  shows "runner_ok (offerAccepted cfg oid tid s)"
proof -
  show ?thesis
  proof (cases "hasOpenTaskSlots cfg s \<and> map_of (rp_openOffers s) oid \<noteq> None")
    case True
    then show ?thesis by (intro runner_ok_accept[OF assms]) (auto simp: offerAccepted_def Let_def)
  next
    case False
    then have "same_tasks s (offerAccepted cfg oid tid s)"
      by (auto simp: offerAccepted_def same_tasks_def Let_def split: option.split)
    then show ?thesis using assms(1) same_tasks_ok by blast
  qed
qed

lemma receivedSettings_ok:
  assumes ok: "runner_ok s"
  shows "runner_ok (receivedSettings tid s)"
proof (cases "map_of (rp_runningTasks s) tid")
  case (Some k)
  note t = running_task[OF ok Some]
  show ?thesis
  proof (cases "ts_status (rp_store s ! k) = WaitingForSettings")
    case True
    let ?s = "receivedSettings tid s"
    have s': "rp_store ?s = (rp_store s)[k := (rp_store s ! k)\<lparr>ts_status := TaskRunning\<rparr>]" "rp_runningTasks ?s = rp_runningTasks s"
      "rp_executions ?s = rp_executions s @ [k]" "answers x ?s = answers x s" for x
      by (simp_all add: receivedSettings_def Some True answers_def)
    have "task_ok ?s k" using t by (auto simp: task_ok_def in_slot_def s' Let_def)
    then show ?thesis by (rule runner_ok_status[OF ok, where started = True, rotated -1]) (use t in \<open>auto simp: s'\<close>)
  next
    case False
    have "same_tasks s (status_error k s)" unfolding status_error_def by (rule same_tasks_emit) simp
    with False Some ok show ?thesis
      by (cases "ts_status (rp_store s ! k)") (simp_all add: receivedSettings_def same_tasks_ok)
  qed
qed (simp add: receivedSettings_def ok)

lemma taskCancelled_ok:
  assumes ok: "runner_ok s"
  shows "runner_ok (taskCancelled cfg env tid s)"
proof (cases "map_of (rp_runningTasks s) tid")
  case (Some k)
  note t = running_task[OF ok Some]
  show ?thesis
  proof (cases "ts_status (rp_store s ! k)")
    case WaitingForSettings
    then have "k \<notin> set (rp_executions s)" using t by (auto simp: task_ok_def Let_def)
    from finishes_ok[OF ok _ _ finishes_finishTask[OF this]] t show ?thesis by (simp add: taskCancelled_def Some WaitingForSettings)
  next
    case TaskRunning
    let ?s = "taskCancelled cfg env tid s"
    have s': "rp_store ?s = (rp_store s)[k := abort AbortingCancelled ''cancelled'' (rp_store s ! k)]" "rp_runningTasks ?s = rp_runningTasks s"
      "rp_executions ?s = rp_executions s" "answers x ?s = answers x s" for x
      by (simp_all add: taskCancelled_def Some TaskRunning)
    have "task_ok ?s k" using t TaskRunning by (auto simp: task_ok_def in_slot_def s' abort_def Let_def)
    then show ?thesis by (rule runner_ok_status[OF ok, where started = False, rotated -1]) (use t in \<open>auto simp: s' abort_def\<close>)
  qed (simp_all add: taskCancelled_def Some ok)
qed (simp add: taskCancelled_def ok)

text \<open>The timer of a task fires once, and never for a task that has timed out: its check cannot fail.\<close>

lemma timer_ok:
  assumes ok: "runner_ok s" and k: "k < length (rp_store s)" "ts_timer (rp_store s ! k)"
  shows "runner_ok (taskTimedOut cfg env (ts_taskId (rp_store s ! k)) (set_state k (\<lambda>t. t\<lparr>ts_timer := False\<rparr>) s))"
    and "filter (\<lambda>e. \<exists>x. e = UnhandledRejection x) (rp_log (taskTimedOut cfg env (ts_taskId (rp_store s ! k)) (set_state k (\<lambda>t. t\<lparr>ts_timer := False\<rparr>) s))) =
      filter (\<lambda>e. \<exists>x. e = UnhandledRejection x) (rp_log s)"
proof -
  let ?tid = "ts_taskId (rp_store s ! k)" and ?off = "set_state k (\<lambda>t. t\<lparr>ts_timer := False\<rparr>) s"
  let ?s = "taskTimedOut cfg env ?tid ?off"
  have t: "task_ok s k" "in_slot s k" "ts_status (rp_store s ! k) \<noteq> AbortingTimeout" using ok k by (auto simp: runner_ok_def task_ok_def Let_def)
  have run: "map_of (rp_runningTasks ?off) ?tid = Some k" using t(2) by (simp add: in_slot_def)
  have at_k: "rp_store ?off ! k = (rp_store s ! k)\<lparr>ts_timer := False\<rparr>" using k by simp
  have offers: "filter (\<lambda>e. \<exists>x. e = UnhandledRejection x) (rp_log (sendOffers cfg env x)) = filter (\<lambda>e. \<exists>x. e = UnhandledRejection x) (rp_log x)" for x
  proof -
    have "filter (\<lambda>e. \<exists>x. e = UnhandledRejection x) (rp_log ((send_offer cfg env ^^ n) x)) = filter (\<lambda>e. \<exists>x. e = UnhandledRejection x) (rp_log x)" for n x
      by (induction n) (simp_all add: send_offer_def Let_def)
    then show ?thesis by (simp add: sendOffers_def deleteStaleOffers_def Let_def)
  qed
  have "runner_ok ?s \<and> filter (\<lambda>e. \<exists>x. e = UnhandledRejection x) (rp_log ?s) = filter (\<lambda>e. \<exists>x. e = UnhandledRejection x) (rp_log s)"
  proof (cases "ts_status (rp_store s ! k)")
    case WaitingForSettings
    then have "k \<notin> set (rp_executions s)" using t by (auto simp: task_ok_def Let_def)
    then have "filter (\<lambda>j. j \<noteq> k) (rp_executions s) = rp_executions s" by (auto intro: filter_True)
    moreover have "answers ?tid s = []" using t by (auto simp: task_ok_def Let_def)
    moreover have eq: "?s = finishTask cfg env k (sent (Runner_TaskError ?tid (TimeoutError (rc_taskTimeout cfg))) ?off)"
      using k WaitingForSettings by (simp add: taskTimedOut_def run[simplified])
    ultimately have "finishes k s ?s"
      unfolding eq using k WaitingForSettings
      by (auto simp: finishes_def finishTask_def Let_def
          intro!: exI[of _ "[Sent (Runner_TaskError ?tid (TimeoutError (rc_taskTimeout cfg)))]"])
    from finishes_ok[OF ok k(1) t(2) this] show ?thesis
      unfolding eq by (simp add: finishTask_def Let_def offers)
  next
    case TaskRunning
    define s' where "s' = ?s"
    have s': "rp_store s' = (rp_store s)[k := abort AbortingTimeout ''timeout'' ((rp_store s ! k)\<lparr>ts_timer := False\<rparr>)]"
      "rp_runningTasks s' = rp_runningTasks s" "rp_executions s' = rp_executions s" "answers x s' = answers x s" "rp_log s' = rp_log s" for x
      using k by (simp_all add: s'_def taskTimedOut_def run[simplified] TaskRunning)
    have "task_ok s' k" using t(1) TaskRunning k by (auto simp: task_ok_def in_slot_def s' abort_def Let_def)
    then have "runner_ok s'" by (rule runner_ok_status[OF ok, where started = False, rotated -1]) (use k in \<open>auto simp: s' abort_def\<close>)
    then show ?thesis using s'(5) unfolding s'_def by simp
  next
    case AbortingCancelled
    then have "?s = ?off" using k by (simp add: taskTimedOut_def run[simplified])
    moreover have "runner_ok ?off"
    proof (rule runner_ok_status[OF ok k(1), where started = False])
      show "task_ok ?off k" using t(1) AbortingCancelled k by (auto simp: task_ok_def in_slot_def Let_def)
    qed simp_all
    ultimately show ?thesis by simp
  qed (use t in simp)
  then show "runner_ok ?s" "filter (\<lambda>e. \<exists>x. e = UnhandledRejection x) (rp_log ?s) = filter (\<lambda>e. \<exists>x. e = UnhandledRejection x) (rp_log s)"
    by simp_all
qed


lemma finishTask_simps [simp]:
  "rp_store (finishTask cfg env k s) = (rp_store s)[k := (rp_store s ! k)\<lparr>ts_timer := False\<rparr>]"
  "rp_runningTasks (finishTask cfg env k s) = js_del (ts_taskId (rp_store s ! k)) (rp_runningTasks s)"
  "rp_executions (finishTask cfg env k s) = rp_executions s" "rp_rpcCalls (finishTask cfg env k s) = rp_rpcCalls s"
  "answers tid (finishTask cfg env k s) = answers tid s"
proof -
  have "ts_taskId ((rp_store s)[k := (rp_store s ! k)\<lparr>ts_timer := False\<rparr>] ! k) = ts_taskId (rp_store s ! k)"
    by (cases "k < length (rp_store s)") (simp_all add: list_update_beyond not_less)
  then show "rp_runningTasks (finishTask cfg env k s) = js_del (ts_taskId (rp_store s ! k)) (rp_runningTasks s)"
    by (simp add: finishTask_def Let_def)
qed (simp_all add: finishTask_def Let_def)

lemma js_del_twice [simp]: "js_del k (js_del k m) = js_del k m"
  by (simp add: js_del_def)

lemma finishes_execution:
  assumes "k < length (rp_store s)" and "ts_status (rp_store s ! k) \<noteq> WaitingForSettings"
  shows "finishes k s (execution_ends cfg env k result s)"
proof -
  let ?s = "s\<lparr>rp_executions := filter (\<lambda>j. j \<noteq> k) (rp_executions s)\<rparr>" and ?tid = "ts_taskId (rp_store s ! k)"
  let ?finishes = "\<lambda>ms s'. rp_store s' = (rp_store s)[k := (rp_store s ! k)\<lparr>ts_timer := False\<rparr>] \<and>
     rp_runningTasks s' = js_del ?tid (rp_runningTasks s) \<and> rp_executions s' = filter (\<lambda>j. j \<noteq> k) (rp_executions s) \<and>
     (\<forall>tid. answers tid s' = answers tid s @ (if tid = ?tid then ms else []))"
  have quiet: "?finishes [] (finishTask cfg env k ?s)" by simp
  have with_answer: "?finishes [Sent m] (finishTask cfg env k (sent m ?s))"
    if "m = Runner_TaskDone ?tid d \<or> m = Runner_TaskError ?tid d" for m d using that by auto
  have again: "?finishes [Sent m] (finishTask cfg env k (sent m (finishTask cfg env k ?s)))"
    if "m = Runner_TaskError ?tid d" for m d using that assms(1) by simp
  have emitted: "?finishes ms (runner_effect (UnhandledRejection x) s')" if "?finishes ms s'" for ms x s' using that by simp
  have "\<exists>ms. length ms \<le> 1 \<and> (ts_status (rp_store s ! k) = AbortingCancelled \<longrightarrow> ms = []) \<and> ?finishes ms (execution_ends cfg env k result s)"
  proof (cases "ts_status (rp_store s ! k) = AbortingCancelled")
    case True
    then have "execution_ends cfg env k result s = finishTask cfg env k ?s"
      by (auto simp: execution_ends_def taskExecutionSucceeded_def taskExecutionFailed_def unhandled_def Let_def split: sum.split)
    with quiet show ?thesis by (intro exI[of _ "[]"]) simp
  next
    case False
    then have st: "ts_status (rp_store s ! k) = TaskRunning \<or> ts_status (rp_store s ! k) = AbortingTimeout"
      using assms(2) by (cases "ts_status (rp_store s ! k)") auto
    consider d where "result = Inr (Some d)" | "result = Inr None" | e where "result = Inl (Some e)" | "result = Inl None"
      by (cases result; cases "projl result"; cases "projr result") auto
    then show ?thesis
    proof cases
      case (1 d)
      with st have "execution_ends cfg env k result s = finishTask cfg env k (sent (Runner_TaskDone ?tid d) ?s)"
        by (auto simp: execution_ends_def taskExecutionSucceeded_def Let_def)
      with with_answer[of "Runner_TaskDone ?tid d" d] False show ?thesis by (intro exI[of _ "[Sent (Runner_TaskDone ?tid d)]"]) simp
    next
      case 2
      have "ts_status (rp_store (finishTask cfg env k ?s) ! k) = ts_status (rp_store s ! k)"
        "ts_taskId (rp_store (finishTask cfg env k ?s) ! k) = ?tid" using assms(1) by simp_all
      with st 2 have "execution_ends cfg env k result s =
          finishTask cfg env k (sent (Runner_TaskError ?tid ''TypeError'') (finishTask cfg env k ?s))"
        by (auto simp: execution_ends_def taskExecutionSucceeded_def taskExecutionFailed_def unhandled_def Let_def)
      with again[of "Runner_TaskError ?tid ''TypeError''"] False show ?thesis
        by (intro exI[of _ "[Sent (Runner_TaskError ?tid ''TypeError'')]"]) simp
    next
      case (3 e)
      with st have "execution_ends cfg env k result s = finishTask cfg env k (sent (Runner_TaskError ?tid e) ?s)"
        by (auto simp: execution_ends_def taskExecutionFailed_def unhandled_def Let_def)
      with with_answer[of "Runner_TaskError ?tid e" e] False show ?thesis by (intro exI[of _ "[Sent (Runner_TaskError ?tid e)]"]) simp
    next
      case 4
      with st have "execution_ends cfg env k result s = runner_effect (UnhandledRejection ''TypeError'') (finishTask cfg env k ?s)"
        by (auto simp: execution_ends_def taskExecutionFailed_def unhandled_def Let_def)
      with emitted[OF quiet] show ?thesis by (intro exI[of _ "[]"]) simp
    qed
  qed
  then show ?thesis unfolding finishes_def by blast
qed

lemma runner_step_ok:
  assumes ok: "runner_ok s" and fresh: "fresh_task e s"
  shows "runner_ok (runner_step cfg env e s)"
proof -
  have same: "runner_ok s'" if "same_tasks s s'" for s' using ok same_tasks_ok[OF that] by simp
  have neutral: "same_tasks s (sent (Runner_Info nm tys) s)" "same_tasks s (startTaskOffers s)" "same_tasks s (processDataResponse rid d s)"
    "same_tasks s (processNodeTypesResponse rid d s)" "same_tasks s (handleRpcResponse rid st d s)" "same_tasks s (requestData env tid d s)"
    "same_tasks s (requestNodeTypes env tid d s)" "same_tasks s (makeRpcCall env tid nm d s)" "same_tasks s (request_resumes rid s)"
    "same_tasks s (idle_fires s)" "same_tasks s (connection_closed s)" "same_tasks s (begin_stop now s)" "same_tasks s (poll_stop now s)"
    for nm tys rid d st tid now
    by (auto simp: same_tasks_def answers_def startTaskOffers_def processDataResponse_def processNodeTypesResponse_def handleRpcResponse_def
        requestData_def requestNodeTypes_def makeRpcCall_def request_resumes_def idle_fires_def connection_closed_def stopTaskOffers_def
        begin_stop_def clearIdleTimer_def poll_stop_def Let_def split: option.split StopPhase.split)
  show ?thesis
  proof (cases e)
    case (Received m)
    then show ?thesis
      using fresh offerAccepted_ok[OF ok] receivedSettings_ok[OF ok] taskCancelled_ok[OF ok] same[OF neutral(1)] same[OF neutral(2)]
        same[OF neutral(3)] same[OF neutral(4)] same[OF neutral(5)]
      by (cases m) simp_all
  next
    case OfferTick
    then show ?thesis using ok same[OF same_tasks_sendOffers] by simp
  next
    case (TaskTimer k)
    then show ?thesis using ok timer_ok(1)[OF ok] by simp
  next
    case (ExecutionEnds k result)
    have "runner_ok (execution_ends cfg env k result s)" if k: "k \<in> set (rp_executions s)"
    proof -
      have len: "k < length (rp_store s)" using ok k by (auto simp: runner_ok_def)
      then have t: "in_slot s k" "ts_status (rp_store s ! k) \<noteq> WaitingForSettings"
        using runner_okD[OF ok len] k by (auto simp: task_ok_def Let_def)
      show ?thesis by (rule finishes_ok[OF ok len t(1) finishes_execution[OF len t(2)]])
    qed
    then show ?thesis using ExecutionEnds ok by simp
  qed (use ok same[OF neutral(6)] same[OF neutral(7)] same[OF neutral(8)] same[OF neutral(9)] same[OF neutral(10)] same[OF neutral(11)]
      same[OF neutral(12)] same[OF neutral(13)] in simp_all)
qed

lemma runner_reachable_ok:
  assumes "runner_reachable cfg fresh_task s"
  shows "runner_ok s"
  using assms
proof induction
  case init
  show ?case by (simp add: runner_ok_def new_runner_def answers_def)
next
  case (step s e env)
  show ?case by (rule runner_step_ok[OF step.IH step.hyps(2)])
qed

lemma answers_at_most_once:
  assumes ok: "runner_ok s"
  shows "length (answers tid s) \<le> 1"
proof (cases "tid \<in> ts_taskId ` set (rp_store s)")
  case True
  then obtain k where "k < length (rp_store s)" "ts_taskId (rp_store s ! k) = tid" by (auto simp: in_set_conv_nth)
  then show ?thesis using runner_okD[OF ok, of k] by (auto simp: task_ok_def Let_def split: if_splits)
next
  case False
  then show ?thesis using ok by (simp add: runner_ok_def)
qed

text \<open>C15: As long as the broker does not use a task id twice, every task is answered with a result or an error at most
  once, not before it has given back its slot, and never after it was cancelled while running, whatever
  timeouts, cancellations and results of user code race with each other.\<close>

theorem runner_answers_once:
  assumes "runner_reachable cfg fresh_task s"
  shows "length (answers tid s) \<le> 1 \<and> (js_has (rp_runningTasks s) tid \<longrightarrow> answers tid s = []) \<and>
    (\<forall>k < length (rp_store s). ts_taskId (rp_store s ! k) = tid \<and> ts_status (rp_store s ! k) = AbortingCancelled \<longrightarrow> answers tid s = [])"
proof -
  have ok: "runner_ok s" using assms by (rule runner_reachable_ok)
  have "length (answers tid s) \<le> 1" by (rule answers_at_most_once[OF ok])
  moreover have "answers tid s = []" if run: "js_has (rp_runningTasks s) tid"
  proof -
    obtain k where "map_of (rp_runningTasks s) tid = Some k" using run by auto
    from running_task[OF ok this] show ?thesis by (auto simp: task_ok_def Let_def split: if_splits)
  qed
  moreover have "answers tid s = []" if "k < length (rp_store s)" "ts_taskId (rp_store s ! k) = tid" "ts_status (rp_store s ! k) = AbortingCancelled" for k
    using runner_okD[OF ok that(1)] that(2,3) by (auto simp: task_ok_def Let_def)
  ultimately show ?thesis by blast
qed

text \<open>C39: A task holds a slot exactly as long as user code executes it or as it waits for its settings with its
  timeout set. So no slot is lost: the end of the execution or the timeout gives it back. The timeout itself
  never finds a task that has already timed out, the case the code calls impossible.\<close>

theorem runner_slots_exact:
  assumes "runner_reachable cfg fresh_task s" and k: "k < length (rp_store s)"
  shows "(map_of (rp_runningTasks s) (ts_taskId (rp_store s ! k)) = Some k) =
      (k \<in> set (rp_executions s) \<or> (ts_status (rp_store s ! k) = WaitingForSettings \<and> ts_timer (rp_store s ! k))) \<and>
    (\<not> js_has (rp_runningTasks (runner_step cfg env (ExecutionEnds k result) s)) (ts_taskId (rp_store s ! k)) \<or> k \<notin> set (rp_executions s)) \<and>
    filter (\<lambda>e. \<exists>x. e = UnhandledRejection x) (rp_log (runner_step cfg env (TaskTimer k) s)) =
      filter (\<lambda>e. \<exists>x. e = UnhandledRejection x) (rp_log s)"
proof -
  have ok: "runner_ok s" using assms(1) by (rule runner_reachable_ok)
  have "\<not> js_has (rp_runningTasks (runner_step cfg env (ExecutionEnds k result) s)) (ts_taskId (rp_store s ! k))" if e: "k \<in> set (rp_executions s)"
  proof -
    have "ts_status (rp_store s ! k) \<noteq> WaitingForSettings" using runner_okD[OF ok k] e by (auto simp: task_ok_def Let_def)
    from finishes_execution[OF k this, of cfg env result] e show ?thesis by (simp add: finishes_def)
  qed
  then show ?thesis
    using runner_okD[OF ok k] timer_ok(2)[OF ok k] by (auto simp: task_ok_def in_slot_def Let_def)
qed


section \<open>Offers and calls\<close>

text \<open>A runner that may send offers offers all of its free capacity, as long as the new ids are new.\<close>

lemma send_offers_fill:
  assumes "inj (re_ids env)" and "\<And>i. rp_issued s \<le> i \<Longrightarrow> re_ids env i \<notin> fst ` set (rp_openOffers s)"
  shows "length (rp_openOffers ((send_offer cfg env ^^ n) s)) = length (rp_openOffers s) + n \<and>
    fst ` set (rp_openOffers ((send_offer cfg env ^^ n) s)) = fst ` set (rp_openOffers s) \<union> re_ids env ` {rp_issued s ..< rp_issued s + n}"
proof (induction n)
  case (Suc n)
  let ?s = "(send_offer cfg env ^^ n) s" and ?i = "re_ids env (rp_issued s + n)"
  have new: "?i \<notin> fst ` set (rp_openOffers ?s)"
    using assms Suc by (auto dest: injD)
  have "rp_openOffers (send_offer cfg env ?s) = rp_openOffers ?s @ [(?i, re_clock env ?i + msToNs (OFFER_VALID_TIME_MS + int (re_random env ?i) + OFFER_VALID_EXTRA_MS))]"
    using new by (simp add: send_offer_def Let_def js_put_new)
  moreover have "{rp_issued s ..< rp_issued s + Suc n} = insert (rp_issued s + n) {rp_issued s ..< rp_issued s + n}" by auto
  ultimately show ?case using Suc by simp
qed simp

lemma sendOffers_fills:
  assumes "within_capacity cfg s" and "rp_canSendOffers s" and "inj (re_ids env)"
    and "\<And>i. rp_issued s \<le> i \<Longrightarrow> re_ids env i \<notin> fst ` set (rp_openOffers s)"
  shows "length (rp_openOffers (sendOffers cfg env s)) + length (rp_runningTasks (sendOffers cfg env s)) = rc_maxConcurrency cfg"
proof -
  let ?d = "deleteStaleOffers env s"
  have d: "length (rp_openOffers ?d) \<le> length (rp_openOffers s)" "rp_runningTasks ?d = rp_runningTasks s" "rp_canSendOffers ?d"
    "rp_issued ?d = rp_issued s" "fst ` set (rp_openOffers ?d) \<subseteq> fst ` set (rp_openOffers s)"
    using assms(2) by (auto simp: deleteStaleOffers_def)
  have "re_ids env i \<notin> fst ` set (rp_openOffers ?d)" if "rp_issued ?d \<le> i" for i
    using assms(4)[of i] d(4,5) that by auto
  from send_offers_fill[OF assms(3) this] d(1-3) assms(1) show ?thesis
    by (simp add: sendOffers_def Let_def within_capacity_def)
qed

text \<open>
  The requests for data and node types of a task that is aborted are rejected and forgotten, its calls of methods
  are not: a call the broker does not answer any more stays in the map after its task is gone.
\<close>

lemma cancelled_requests_forgotten:
  assumes "map_of (rp_runningTasks s) tid = Some k" and "ts_status (rp_store s ! k) = TaskRunning"
  shows "\<forall>(rid, q) \<in> set (rp_dataRequests (taskCancelled cfg env tid s)) \<union> set (rp_nodeTypesRequests (taskCancelled cfg env tid s)). pr_taskId q \<noteq> tid"
    and "rp_rpcCalls (taskCancelled cfg env tid s) = rp_rpcCalls s"
  using assms by (auto simp: taskCancelled_def cancelTaskRequests_def)

lemma calls_outlive_task: "rp_rpcCalls (execution_ends cfg env k result s) = rp_rpcCalls s"
  by (auto simp: execution_ends_def taskExecutionSucceeded_def taskExecutionFailed_def unhandled_def Let_def
      split: sum.split TaskStatus.split option.split prod.split)

section \<open>Examples\<close>

definition runner_run :: "RunnerConfig \<Rightarrow> RunnerEnv \<Rightarrow> RunnerEvent list \<Rightarrow> RunnerState \<Rightarrow> RunnerState" where
  "runner_run cfg env es s = fold (runner_step cfg env) es s"

fun all_fresh :: "RunnerConfig \<Rightarrow> RunnerEnv \<Rightarrow> RunnerEvent list \<Rightarrow> RunnerState \<Rightarrow> bool" where
  "all_fresh cfg env [] s = True"
| "all_fresh cfg env (e # es) s = (fresh_task e s \<and> all_fresh cfg env es (runner_step cfg env e s))"

lemma runner_run_reachable:
  "runner_reachable cfg fresh_task s \<Longrightarrow> all_fresh cfg env es s \<Longrightarrow> runner_reachable cfg fresh_task (runner_run cfg env es s)"
  by (induction es arbitrary: s) (simp_all add: runner_run_def runner_reachable.step)

definition sample_config :: RunnerConfig where
  "sample_config = \<lparr>rc_name = ''js'', rc_taskType = ''javascript'', rc_maxConcurrency = 1, rc_taskTimeout = 60, rc_idleTimeout = 0\<rparr>"

definition sample_renv :: RunnerEnv where
  "sample_renv = \<lparr>re_ids = (\<lambda>n. replicate n (CHR ''x'')), re_clock = (\<lambda>_. 0), re_random = (\<lambda>_. 7)\<rparr>"

text \<open>Task \<open>t\<close> runs when it is cancelled, and its code still returns a result; task \<open>u\<close> returns one.\<close>

definition sample_events :: "RunnerEvent list" where
  "sample_events = [Received ToRunner_RunnerRegistered, OfferTick, Received (ToRunner_TaskOfferAccept ''t'' []),
     Received (ToRunner_TaskSettings ''t'' ''code''), Received (ToRunner_TaskCancel ''t'' ''stop''), ExecutionEnds 0 (Inr (Some ''1'')),
     Received (ToRunner_TaskOfferAccept ''u'' ''x''), Received (ToRunner_TaskSettings ''u'' ''code''), ExecutionEnds 1 (Inr (Some ''2''))]"

definition sample_state :: RunnerState where
  "sample_state = runner_run sample_config sample_renv sample_events (new_runner sample_config)"

lemma sample_reachable: "runner_reachable sample_config fresh_task sample_state"
proof -
  have "all_fresh sample_config sample_renv sample_events (new_runner sample_config)" by code_simp
  then show ?thesis unfolding sample_state_def by (rule runner_run_reachable[OF runner_reachable.init])
qed

lemma runner_within_capacity_witness: "length (rp_openOffers sample_state) + length (rp_runningTasks sample_state) \<le> 1"
  using runner_within_capacity[OF sample_reachable] by (simp add: sample_config_def)

lemma runner_answers_once_witness:
  "length (answers ''u'' sample_state) \<le> 1 \<and> answers ''u'' sample_state = [Sent (Runner_TaskDone ''u'' ''2'')] \<and> answers ''t'' sample_state = []"
proof -
  have "0 < length (rp_store sample_state)" "ts_taskId (rp_store sample_state ! 0) = ''t''" "ts_status (rp_store sample_state ! 0) = AbortingCancelled"
    by code_simp+
  then have "answers ''t'' sample_state = []" using runner_answers_once[OF sample_reachable, of "''t''"] by blast
  moreover have "answers ''u'' sample_state = [Sent (Runner_TaskDone ''u'' ''2'')]" by code_simp
  ultimately show ?thesis using runner_answers_once[OF sample_reachable, of "''u''"] by blast
qed

lemma runner_slots_exact_witness:
  "map_of (rp_runningTasks sample_state) ''u'' \<noteq> Some 1"
proof -
  have k: "1 < length (rp_store sample_state)" by code_simp
  have id: "ts_taskId (rp_store sample_state ! 1) = ''u''" by code_simp
  have idle: "\<not> (1 \<in> set (rp_executions sample_state) \<or> (ts_status (rp_store sample_state ! 1) = WaitingForSettings \<and> ts_timer (rp_store sample_state ! 1)))"
    by code_simp
  from runner_slots_exact[OF sample_reachable k, of sample_renv "Inr None"] idle show ?thesis unfolding id by blast
qed

end
