(* ===== verification/RunnerProtocol.thy ===== *)
theory RunnerProtocol
  imports RunnerProcess
begin

text \<open>
  The task broker and a runner process together: what one end sends arrives at the other end in order and once.
  The broker's log of message callbacks and the runner's log of sent messages are the two channels; a
  state of the protocol says how far each has been read. All other events of the broker and of the
  runner may happen at any time, and other runners and requesters may send anything.
\<close>

section \<open>Acceptances the broker sends\<close>

fun acceptance :: "BrokerEffect \<Rightarrow> (string \<times> string) option" where
  "acceptance (MessageRunner r (ToRunner_TaskOfferAccept tid oid)) = Some (r, tid)"
| "acceptance _ = None"

definition acceptances :: "TaskBroker \<Rightarrow> (string \<times> string) list" where
  "acceptances b = List.map_filter acceptance (bk_log b)"

definition proc_offers :: "TaskBroker \<Rightarrow> (string \<times> TaskOffer) list" where
  "proc_offers b = map (\<lambda>p. (ap_taskId p, ap_offer p)) (bk_procs b)"

fun is_accept :: "ToRunner \<Rightarrow> bool" where
  "is_accept (ToRunner_TaskOfferAccept tid oid) = True"
| "is_accept _ = False"

fun job_ok :: "Job \<Rightarrow> bool" where
  "job_ok (SendToRunner r m) = (\<not> is_accept m)"
| "job_ok _ = True"

definition jobs_ok :: "TaskBroker \<Rightarrow> bool" where
  "jobs_ok b \<longleftrightarrow> (\<forall>j \<in> set (bk_jobs b). job_ok j)"

text \<open>Operations that neither accept an offer nor change the acceptances there are.\<close>

definition steady :: "TaskBroker \<Rightarrow> TaskBroker \<Rightarrow> bool" where
  "steady b b' \<longleftrightarrow> proc_offers b' = proc_offers b \<and> (jobs_ok b \<longrightarrow> jobs_ok b') \<and>
     (\<exists>es. bk_log b' = bk_log b @ es \<and> List.map_filter acceptance es = [])"

lemma steady_refl [simp]: "steady b b"
  by (simp add: steady_def List.map_filter_simps)

lemma steady_trans: "steady a b \<Longrightarrow> steady b c \<Longrightarrow> steady a c"
  unfolding steady_def by (auto simp: List.map_filter_def)

lemma steady_same: "bk_log b' = bk_log b \<Longrightarrow> proc_offers b' = proc_offers b \<Longrightarrow> bk_jobs b' = bk_jobs b \<Longrightarrow> steady b b'"
  by (simp add: steady_def jobs_ok_def List.map_filter_simps)

lemma steady_emit: "acceptance e = None \<Longrightarrow> steady b (bk_emit e b)"
  by (simp add: steady_def bk_emit_def proc_offers_def jobs_ok_def List.map_filter_simps)

lemma acceptance_runner: "\<not> is_accept m \<Longrightarrow> acceptance (MessageRunner r m) = None"
  by (cases m) simp_all

lemma steady_messageRunner: "\<not> is_accept m \<Longrightarrow> steady b (messageRunner r m b)"
  by (auto simp: messageRunner_def intro: steady_emit acceptance_runner split: option.split)

lemma steady_messageRequester: "steady b (messageRequester r m b)"
  by (simp add: messageRequester_def steady_emit)

lemma proc_offers_update:
  "ap_taskId p = ap_taskId (bk_procs b ! k) \<Longrightarrow> ap_offer p = ap_offer (bk_procs b ! k) \<Longrightarrow>
   map (\<lambda>p. (ap_taskId p, ap_offer p)) ((bk_procs b)[k := p]) = proc_offers b"
  by (cases "k < length (bk_procs b)")
    (simp_all add: proc_offers_def map_update list_update_same_conv list_update_beyond not_less)

lemma steady_set_phase: "steady b (set_phase k ph b)"
  by (rule steady_same) (simp_all add: set_phase_def proc_offers_update proc_offers_def[of "b\<lparr>bk_procs := x\<rparr>" for x])

lemma steady_settle: "steady b (settle_runner out k b)" "steady b (settle_requester out' k b)"
  by (auto intro!: steady_same simp: settle_runner_def settle_requester_def proc_offers_update proc_offers_def[of "b\<lparr>bk_procs := x\<rparr>" for x]
      split: Phase.split option.split)


lemma steady_fields:
  "steady b (b\<lparr>bk_tasks := t\<rparr>)" "steady b (b\<lparr>bk_requests := r\<rparr>)" "steady b (b\<lparr>bk_store := st\<rparr>)" "steady b (b\<lparr>bk_offers := ofs\<rparr>)"
  "steady b (b\<lparr>bk_runners := rs\<rparr>)" "steady b (b\<lparr>bk_requesters := qs\<rparr>)"
  "steady b (b\<lparr>bk_runnerAccepts := ra\<rparr>)" "steady b (b\<lparr>bk_requesterAccepts := qa\<rparr>)"
  by (rule steady_same; simp add: proc_offers_def)+

lemma steady_answers: "steady b (answer_runner out tid b)" "steady b (answer_requester out' tid b)"
  by (auto simp: answer_runner_def answer_requester_def split: option.split
      intro: steady_trans[OF steady_settle(1) steady_fields(7)] steady_trans[OF steady_settle(2) steady_fields(8)])

lemma steady_cancelTask: "steady b (cancelTask tid r b)"
  by (auto simp: cancelTask_def split: option.split intro: steady_trans[OF steady_fields(1) steady_messageRunner])

lemma steady_failTask: "steady b (failTask tid e b)"
  by (auto simp: failTask_def split: option.split intro: steady_trans[OF steady_fields(1) steady_messageRequester])

lemma steady_deregisterRunner: "steady b (deregisterRunner r e b)"
proof -
  have "steady b' (fold (\<lambda>task b. if tk_runnerId task = r then handleRunnerReject (tk_id task) (msg task) (failTask (tk_id task) e b) else b) ts b')"
    for ts b' msg
  proof (induction ts arbitrary: b')
    case (Cons task ts)
    have "steady b' (handleRunnerReject (tk_id task) (msg task) (failTask (tk_id task) e b'))"
      unfolding handleRunnerReject_def by (rule steady_trans[OF steady_failTask steady_answers(1)])
    then have "steady b' (if tk_runnerId task = r then handleRunnerReject (tk_id task) (msg task) (failTask (tk_id task) e b') else b')" by simp
    from steady_trans[OF this Cons.IH] show ?case by simp
  qed simp
  from steady_trans[OF steady_trans[OF steady_fields(5) steady_fields(4)] this] show ?thesis
    unfolding deregisterRunner_def Let_def .
qed

lemma steady_getRunner: "steady b (snd (getRunnerOrFailTask tid b))"
  by (auto simp: getRunnerOrFailTask_def Let_def split: option.split intro: steady_failTask)

lemma steady_job: "job_ok j \<Longrightarrow> steady b (bk_job j b)"
  by (auto simp: bk_job_def steady_def jobs_ok_def proc_offers_def List.map_filter_simps)

lemma steady_to_runner:
  assumes "\<not> is_accept m"
  shows "steady b (to_runner_of tid m b)"
proof -
  obtain r b' where g: "getRunnerOrFailTask tid b = (r, b')" by fastforce
  with steady_getRunner[of b tid] have "steady b b'" by simp
  then show ?thesis using assms by (auto simp: to_runner_of_def g split: sum.split intro!: steady_trans[OF _ steady_job])
qed

lemma steady_to_requester: "steady b (to_requester_of tid m b)"
  by (auto simp: to_requester_of_def split: option.split intro: steady_messageRequester)

lemma steady_end_task: "steady b (end_task tid m b)"
  by (auto simp: end_task_def split: option.split intro: steady_trans[OF steady_trans[OF steady_fields(1) steady_messageRequester] steady_job])

lemma steady_timeout: "steady b (handleTaskTimeout cfg tid b)"
  by (auto simp: handleTaskTimeout_def taskErrorHandler_def split: option.split TaskRunnerMode.split
      intro: steady_trans[OF steady_emit steady_end_task] steady_trans[OF steady_messageRunner steady_job])

lemma steady_resume: "steady b (resume k b)"
proof -
  have declined: "steady b (runner_declined k out b)" for out
    by (auto simp: runner_declined_def Let_def intro: steady_trans[OF steady_fields(3) steady_set_phase]
        steady_trans[OF steady_trans[OF steady_fields(3) steady_set_phase] steady_fields(2)])
  have failed: "steady b' (requester_failed k e b')" for e b'
    unfolding requester_failed_def by (rule steady_trans[OF steady_trans[OF steady_cancelTask steady_set_phase] steady_emit]) simp
  have accepted: "steady b (runner_accepted k b)"
  proof -
    have "steady b (b\<lparr>bk_tasks := t, bk_requests := r, bk_requesterAccepts := qa\<rparr>)" for t r qa
      using steady_trans[OF steady_trans[OF steady_fields(1) steady_fields(2)] steady_fields(8)] by simp
    moreover have "steady b (b\<lparr>bk_tasks := t\<rparr>)" for t by (rule steady_fields)
    ultimately show ?thesis
      unfolding runner_accepted_def Let_def
      by (auto split: option.split intro: steady_trans[OF steady_trans[OF _ steady_emit] steady_set_phase]
          steady_trans[OF steady_trans[OF _ steady_messageRequester] steady_set_phase])
  qed
  have requester: "steady b (requester_accepted k x b)" for x
  proof -
    obtain r b' where g: "getRunnerOrFailTask (ap_taskId (bk_procs b ! k)) b = (r, b')" by fastforce
    with steady_getRunner[of b "ap_taskId (bk_procs b ! k)"] have "steady b b'" by simp
    then show ?thesis by (auto simp: requester_accepted_def g split: sum.split intro: steady_trans failed steady_set_phase)
  qed
  have settings: "steady b (send_settings k r x b)" for r x
    unfolding send_settings_def Let_def
    by (rule steady_trans[OF _ steady_set_phase])
      (auto split: option.split intro: steady_trans[OF steady_fields(1) steady_messageRunner])
  show ?thesis
    by (auto simp: resume_def declined accepted requester settings failed split: Phase.split option.split RunnerOutcome.split RequesterOutcome.split
        intro: steady_trans[OF steady_cancelTask steady_set_phase])
qed


section \<open>Every task is handed out once\<close>

text \<open>The acceptances sent so far name different tasks; each belongs to a process for an offer of the runner it went to.\<close>

definition accepted_ok :: "(nat \<Rightarrow> string) \<Rightarrow> TaskBroker \<Rightarrow> bool" where
  "accepted_ok ids b \<longleftrightarrow> distinct (map snd (acceptances b)) \<and>
     (\<forall>(r, tid) \<in> set (acceptances b). \<exists>k < length (bk_procs b). tid = ids k \<and> proc_offers b ! k = (tid, ap_offer (bk_procs b ! k)) \<and>
        of_runnerId (ap_offer (bk_procs b ! k)) = r) \<and> jobs_ok b"

definition extends :: "(nat \<Rightarrow> string) \<Rightarrow> TaskBroker \<Rightarrow> TaskBroker \<Rightarrow> bool" where
  "extends ids b b' \<longleftrightarrow> (\<exists>es. bk_log b' = bk_log b @ es) \<and> (accepted_ok ids b \<longrightarrow> accepted_ok ids b')"

lemma extends_trans: "extends ids a b \<Longrightarrow> extends ids b c \<Longrightarrow> extends ids a c"
  by (auto simp: extends_def)

lemma extends_refl [simp]: "extends ids b b"
  by (simp add: extends_def)

lemma proc_offers_nth: "k < length (bk_procs b) \<Longrightarrow> proc_offers b ! k = (ap_taskId (bk_procs b ! k), ap_offer (bk_procs b ! k))"
  by (simp add: proc_offers_def)

lemma proc_offers_length: "length (proc_offers b) = length (bk_procs b)"
  by (simp add: proc_offers_def)

lemma accepted_ok_alt:
  "accepted_ok ids b \<longleftrightarrow> distinct (map snd (acceptances b)) \<and>
     (\<forall>(r, tid) \<in> set (acceptances b). \<exists>k < length (proc_offers b). tid = ids k \<and> fst (proc_offers b ! k) = tid \<and>
        of_runnerId (snd (proc_offers b ! k)) = r) \<and> jobs_ok b"
  unfolding accepted_ok_def proc_offers_length by (simp add: proc_offers_nth case_prod_beta cong: conj_cong)

lemma map_filter_append: "List.map_filter f (xs @ ys) = List.map_filter f xs @ List.map_filter f ys"
  by (simp add: List.map_filter_def)

lemma steady_extends: "steady b b' \<Longrightarrow> extends ids b b'"
proof -
  assume st: "steady b b'"
  then have "acceptances b' = acceptances b" by (auto simp: steady_def acceptances_def map_filter_append)
  with st show ?thesis by (auto simp: steady_def extends_def accepted_ok_alt)
qed

lemma extends_acceptOffer:
  assumes "inj ids"
  shows "extends ids b (acceptOffer ids offer r b)"
proof -
  let ?n = "length (bk_procs b)" and ?b = "acceptOffer ids offer r b"
  have procs: "proc_offers ?b = proc_offers b @ [(ids ?n, offer)]"
    by (auto simp: acceptOffer_def messageRunner_def proc_offers_def bk_emit_def Let_def split: option.split)
  have acc: "acceptances ?b = acceptances b \<or> acceptances ?b = acceptances b @ [(of_runnerId offer, ids ?n)]"
    by (auto simp: acceptOffer_def messageRunner_def acceptances_def bk_emit_def Let_def List.map_filter_def split: option.split)
  have appended: "\<exists>es. bk_log ?b = bk_log b @ es"
    by (auto simp: acceptOffer_def messageRunner_def bk_emit_def Let_def split: option.split)
  have "accepted_ok ids ?b" if ok: "accepted_ok ids b"
  proof -
    have "ids ?n \<notin> snd ` set (acceptances b)"
      using ok assms by (fastforce simp: accepted_ok_alt proc_offers_length dest: injD)
    then have "distinct (map snd (acceptances ?b))" using ok acc by (auto simp: accepted_ok_alt)
    moreover have "\<exists>k < length (proc_offers ?b). tid = ids k \<and> fst (proc_offers ?b ! k) = tid \<and> of_runnerId (snd (proc_offers ?b ! k)) = rn"
      if "(rn, tid) \<in> set (acceptances ?b)" for rn tid
    proof (cases "(rn, tid) \<in> set (acceptances b)")
      case True
      with ok obtain k where "k < length (proc_offers b)" "tid = ids k" "fst (proc_offers b ! k) = tid" "of_runnerId (snd (proc_offers b ! k)) = rn"
        by (auto simp: accepted_ok_alt)
      then show ?thesis unfolding procs by (intro exI[of _ k]) (simp add: nth_append)
    next
      case False
      with that acc have "rn = of_runnerId offer" "tid = ids ?n" by auto
      then show ?thesis unfolding procs by (intro exI[of _ ?n]) (simp add: nth_append proc_offers_length)
    qed
    moreover have "jobs_ok ?b"
      using ok by (auto simp: accepted_ok_def jobs_ok_def acceptOffer_def messageRunner_def bk_emit_def Let_def split: option.split)
    ultimately show ?thesis by (auto simp: accepted_ok_alt)
  qed
  with appended show ?thesis by (simp add: extends_def)
qed

lemma extends_settleTasks:
  assumes "inj ids"
  shows "extends ids b (settleTasks ids now b)"
proof -
  have one: "extends ids b' (settle_request ids r b')" for r b'
  proof -
    have "extends ids b' (b'\<lparr>bk_store := st, bk_offers := ofs\<rparr>)" for st ofs
      by (rule steady_extends) (rule steady_trans[OF steady_fields(3) steady_fields(4)])
    then show ?thesis
      by (auto simp: settle_request_def split: option.split intro: extends_trans[OF _ extends_acceptOffer[OF assms]])
  qed
  have "extends ids b' (fold (settle_request ids) rs b')" for rs b'
  proof (induction rs arbitrary: b')
    case (Cons r rs)
    from extends_trans[OF one Cons.IH] show ?case by simp
  qed simp
  moreover have "extends ids b (expireTasks now b)"
    unfolding expireTasks_def by (rule steady_extends[OF steady_fields(4)])
  ultimately show ?thesis unfolding settleTasks_def Let_def by (rule extends_trans[rotated])
qed

lemma broker_step_extends:
  assumes "inj ids"
  shows "extends ids b (broker_step cfg ids e b)"
proof -
  note ext = steady_extends
  have offered: "extends ids b (taskOffered ids now offer b)" for now offer
    unfolding taskOffered_def by (rule extends_trans[OF ext[OF steady_fields(4)] extends_settleTasks[OF assms]])
  have requested: "extends ids b (taskRequested ids now request b)" for now request
  proof -
    have "steady b (b\<lparr>bk_requests := r, bk_store := st\<rparr>)" for r st
      using steady_trans[OF steady_fields(2) steady_fields(3)] by simp
    then show ?thesis unfolding taskRequested_def by (rule extends_trans[OF ext extends_settleTasks[OF assms]])
  qed
  show ?thesis
  proof (cases e)
    case (RegisterRunner runner)
    have "steady b (registerRunner runner b)"
      unfolding registerRunner_def by (rule steady_trans[OF steady_fields(5) steady_emit]) simp
    then show ?thesis using RegisterRunner ext by simp
  next
    case (FromRunner now later r m)
    then show ?thesis using offered
      by (cases m) (auto simp: onRunnerMessage_def handleRunnerAccept_def handleRunnerReject_def handleRunnerDeferred_def taskDoneHandler_def
          taskErrorHandler_def handleDataRequest_def handleNodeTypesRequest_def handleRpcRequest_def split: option.split
          intro: ext steady_answers steady_end_task steady_to_requester)
  next
    case (FromRequester now r m)
    have to_runner: "extends ids b (to_runner_of tid msg b)" if "\<not> is_accept msg" for tid msg
      by (rule ext[OF steady_to_runner[OF that]])
    show ?thesis using FromRequester requested
      by (cases m) (auto simp: to_runner handleRequesterAccept_def handleRequesterRpcResponse_def handleRequesterDataResponse_def
          handleRequesterNodeTypesResponse_def intro: ext steady_answers steady_cancelTask)
  next
    case (RunJob j)
    have "extends ids b (run_job cfg j b)" if j: "j < length (bk_jobs b)"
    proof (cases "job_ok (bk_jobs b ! j)")
      case True
      let ?b = "b\<lparr>bk_jobs := splice1 j (bk_jobs b)\<rparr>"
      have "set (splice1 j (bk_jobs b)) \<subseteq> set (bk_jobs b)"
        by (auto simp: splice1_def dest: in_set_takeD in_set_dropD)
      then have popped: "steady b ?b" by (auto simp: steady_def jobs_ok_def proc_offers_def List.map_filter_simps)
      have "steady ?b (case bk_jobs b ! j of DeleteTask tid \<Rightarrow> ?b\<lparr>bk_tasks := js_del tid (bk_tasks ?b)\<rparr>
         | FailTimedOut tid \<Rightarrow> taskErrorHandler tid (TaskRunnerExecutionTimeoutError (cfg_taskTimeout cfg)) ?b
         | SendToRunner runnerId msg \<Rightarrow> messageRunner runnerId msg ?b)"
        using True unfolding taskErrorHandler_def
        by (cases "bk_jobs b ! j") (simp_all add: steady_fields steady_end_task steady_messageRunner del: Prelude.js_put_code)
      from ext[OF steady_trans[OF popped this]] show ?thesis by (simp add: run_job_def Let_def)
    next
      case False
      have log: "\<exists>es. bk_log (messageRunner r m b') = bk_log b' @ es" for r m b'
        by (auto simp: messageRunner_def bk_emit_def split: option.split)
      have "\<not> jobs_ok b" using False j by (auto simp: jobs_ok_def)
      moreover obtain r m where "bk_jobs b ! j = SendToRunner r m" using False by (cases "bk_jobs b ! j") auto
      ultimately show ?thesis using log[of r m "b\<lparr>bk_jobs := splice1 j (bk_jobs b)\<rparr>"] by (simp add: extends_def accepted_ok_def run_job_def Let_def)
    qed
    then show ?thesis using RunJob by simp
  qed (auto simp: registerRequester_def deregisterRequester_def handleRequesterReject_def split: option.split
      intro!: ext intro: steady_deregisterRunner steady_fields steady_answers steady_settle steady_resume steady_trans[OF steady_fields(1) steady_timeout])
qed


section \<open>Broker and runner together\<close>

record Protocol =
  pt_broker :: TaskBroker
  pt_runner :: RunnerState
  pt_read :: nat
  pt_sent :: nat

fun from_runner :: "string \<Rightarrow> BrokerEvent \<Rightarrow> bool" where
  "from_runner r (FromRunner now later r' m) = (r' = r)"
| "from_runner r _ = False"

fun is_received :: "RunnerEvent \<Rightarrow> bool" where
  "is_received (Received m) = True"
| "is_received _ = False"

text \<open>The messages at the position that has been read up to, if it is one of this channel.\<close>

definition next_to_runner :: "string \<Rightarrow> Protocol \<Rightarrow> ToRunner option" where
  "next_to_runner r st = (case bk_log (pt_broker st) ! pt_read st of
     MessageRunner r' m \<Rightarrow> if r' = r then Some m else None | _ \<Rightarrow> None)"

definition next_to_broker :: "Protocol \<Rightarrow> RunnerMessage option" where
  "next_to_broker st = (case rp_log (pt_runner st) ! pt_sent st of Sent m \<Rightarrow> Some m | _ \<Rightarrow> None)"

definition deliver_to_runner :: "RunnerConfig \<Rightarrow> RunnerEnv \<Rightarrow> string \<Rightarrow> Protocol \<Rightarrow> Protocol" where
  "deliver_to_runner cfg env r st = (case next_to_runner r st of
     None \<Rightarrow> st\<lparr>pt_read := Suc (pt_read st)\<rparr>
   | Some m \<Rightarrow> st\<lparr>pt_runner := runner_step cfg env (Received m) (pt_runner st), pt_read := Suc (pt_read st)\<rparr>)"

definition deliver_to_broker :: "BrokerConfig \<Rightarrow> (nat \<Rightarrow> string) \<Rightarrow> int \<Rightarrow> int \<Rightarrow> string \<Rightarrow> Protocol \<Rightarrow> Protocol" where
  "deliver_to_broker bcfg ids now later r st = (case next_to_broker st of
     None \<Rightarrow> st\<lparr>pt_sent := Suc (pt_sent st)\<rparr>
   | Some m \<Rightarrow> st\<lparr>pt_broker := broker_step bcfg ids (FromRunner now later r m) (pt_broker st), pt_sent := Suc (pt_sent st)\<rparr>)"

inductive protocol :: "BrokerConfig \<Rightarrow> (nat \<Rightarrow> string) \<Rightarrow> RunnerConfig \<Rightarrow> string \<Rightarrow> Protocol \<Rightarrow> bool" for bcfg ids cfg r where
  start: "protocol bcfg ids cfg r \<lparr>pt_broker = empty_broker, pt_runner = new_runner cfg, pt_read = 0, pt_sent = 0\<rparr>"
| broker: "protocol bcfg ids cfg r st \<Longrightarrow> \<not> from_runner r e \<Longrightarrow>
     protocol bcfg ids cfg r (st\<lparr>pt_broker := broker_step bcfg ids e (pt_broker st)\<rparr>)"
| runner: "protocol bcfg ids cfg r st \<Longrightarrow> \<not> is_received e \<Longrightarrow>
     protocol bcfg ids cfg r (st\<lparr>pt_runner := runner_step cfg env e (pt_runner st)\<rparr>)"
| to_runner: "protocol bcfg ids cfg r st \<Longrightarrow> pt_read st < length (bk_log (pt_broker st)) \<Longrightarrow>
     protocol bcfg ids cfg r (deliver_to_runner cfg env r st)"
| to_broker: "protocol bcfg ids cfg r st \<Longrightarrow> pt_sent st < length (rp_log (pt_runner st)) \<Longrightarrow>
     protocol bcfg ids cfg r (deliver_to_broker bcfg ids now later r st)"

text \<open>Only an acceptance adds a task to the runner.\<close>

lemma map_taskId_update: "ts_taskId t = ts_taskId (xs ! k) \<Longrightarrow> map ts_taskId (xs[k := t]) = map ts_taskId xs"
  by (cases "k < length xs") (simp_all add: map_update list_update_same_conv list_update_beyond not_less)

lemma taskCancelled_ids: "map ts_taskId (rp_store (taskCancelled cfg env tid s)) = map ts_taskId (rp_store s)"
  by (cases "map_of (rp_runningTasks s) tid")
    (auto simp: taskCancelled_def abort_def map_taskId_update split: TaskStatus.split)

lemma finishTask_ids: "map ts_taskId (rp_store (finishTask cfg env k s)) = map ts_taskId (rp_store s)"
  by (simp add: map_taskId_update)

lemma set_state_ids: "(\<And>t. ts_taskId (f t) = ts_taskId t) \<Longrightarrow> map ts_taskId (rp_store (set_state k f s)) = map ts_taskId (rp_store s)"
  by (simp add: map_taskId_update)

lemma ends_ids:
  "map ts_taskId (rp_store (snd (taskExecutionSucceeded cfg env k p s))) = map ts_taskId (rp_store s)"
  "map ts_taskId (rp_store (snd (taskExecutionFailed cfg env k p s))) = map ts_taskId (rp_store s)"
  "map ts_taskId (rp_store (unhandled x)) = map ts_taskId (rp_store (snd x))"
  by (auto simp: taskExecutionSucceeded_def taskExecutionFailed_def unhandled_def Let_def map_taskId_update
      split: TaskStatus.split option.split prod.split)

lemma runner_step_ids:
  "map ts_taskId (rp_store (runner_step cfg env e s)) =
    map ts_taskId (rp_store s) @ (case e of Received (ToRunner_TaskOfferAccept tid oid) \<Rightarrow>
      if hasOpenTaskSlots cfg s \<and> map_of (rp_openOffers s) oid \<noteq> None then [tid] else [] | _ \<Rightarrow> [])"
proof (cases e)
  case (Received m)
  then show ?thesis
    by (cases m) (auto simp: startTaskOffers_def processDataResponse_def handleRpcResponse_def processNodeTypesResponse_def taskCancelled_ids
        offerAccepted_def new_task_state_def receivedSettings_def status_error_def map_taskId_update Let_def
        split: option.split TaskStatus.split)
next
  case (TaskTimer k)
  have "map ts_taskId (rp_store (taskTimedOut cfg env tid x)) = map ts_taskId (rp_store x)" for tid x
    by (cases "map_of (rp_runningTasks x) tid")
      (auto simp: taskTimedOut_def abort_def map_taskId_update status_error_def split: TaskStatus.split)
  then show ?thesis using TaskTimer by (simp add: map_taskId_update)
next
  case (ExecutionEnds k result)
  let ?s = "s\<lparr>rp_executions := filter (\<lambda>j. j \<noteq> k) (rp_executions s)\<rparr>"
  have "map ts_taskId (rp_store (execution_ends cfg env k result s)) = map ts_taskId (rp_store s)"
  proof (cases result)
    case (Inr p)
    obtain x s' where r: "taskExecutionSucceeded cfg env k p ?s = (x, s')" by fastforce
    with ends_ids(1)[of cfg env k p ?s] have "map ts_taskId (rp_store s') = map ts_taskId (rp_store s)" by simp
    then show ?thesis using Inr r by (auto simp: execution_ends_def ends_ids split: option.split)
  qed (simp add: execution_ends_def ends_ids)
  then show ?thesis using ExecutionEnds by simp
qed (auto simp: requestData_def requestNodeTypes_def makeRpcCall_def request_resumes_def idle_fires_def connection_closed_def
    stopTaskOffers_def begin_stop_def clearIdleTimer_def poll_stop_def Let_def split: StopPhase.split)

definition read_acceptances :: "Protocol \<Rightarrow> (string \<times> string) list" where
  "read_acceptances st = List.map_filter acceptance (take (pt_read st) (bk_log (pt_broker st)))"

definition protocol_ok :: "(nat \<Rightarrow> string) \<Rightarrow> RunnerConfig \<Rightarrow> string \<Rightarrow> Protocol \<Rightarrow> bool" where
  "protocol_ok ids cfg r st \<longleftrightarrow> accepted_ok ids (pt_broker st) \<and> runner_reachable cfg fresh_task (pt_runner st) \<and>
     pt_read st \<le> length (bk_log (pt_broker st)) \<and>
     (\<forall>t \<in> set (rp_store (pt_runner st)). (r, ts_taskId t) \<in> set (read_acceptances st))"

lemma acceptances_read:
  "acceptances (pt_broker st) = read_acceptances st @ List.map_filter acceptance (drop (pt_read st) (bk_log (pt_broker st)))"
  by (simp add: acceptances_def read_acceptances_def flip: map_filter_append)

text \<open>A task id that the broker sends next has not been read before.\<close>

lemma next_is_fresh:
  assumes ok: "protocol_ok ids cfg r st" and len: "pt_read st < length (bk_log (pt_broker st))" and m: "next_to_runner r st = Some m"
  shows "fresh_task (Received m) (pt_runner st)"
    and "set (read_acceptances (st\<lparr>pt_read := Suc (pt_read st)\<rparr>)) = set (read_acceptances st) \<union>
      (case m of ToRunner_TaskOfferAccept tid oid \<Rightarrow> {(r, tid)} | _ \<Rightarrow> {})"
proof -
  let ?log = "bk_log (pt_broker st)" and ?p = "pt_read st"
  have at: "?log ! ?p = MessageRunner r m" using m by (auto simp: next_to_runner_def split: BrokerEffect.splits if_splits)
  have split: "?log = take ?p ?log @ ?log ! ?p # drop (Suc ?p) ?log" using len by (simp add: id_take_nth_drop)
  have read: "read_acceptances (st\<lparr>pt_read := Suc ?p\<rparr>) = read_acceptances st @ List.map_filter acceptance [MessageRunner r m]"
    using len by (simp add: read_acceptances_def take_Suc_conv_app_nth map_filter_append at)
  then show "set (read_acceptances (st\<lparr>pt_read := Suc ?p\<rparr>)) = set (read_acceptances st) \<union>
      (case m of ToRunner_TaskOfferAccept tid oid \<Rightarrow> {(r, tid)} | _ \<Rightarrow> {})"
    by (cases m) (simp_all add: List.map_filter_simps)
  show "fresh_task (Received m) (pt_runner st)"
  proof (cases m)
    case (ToRunner_TaskOfferAccept tid oid)
    have "acceptances (pt_broker st) = read_acceptances st @ (r, tid) # List.map_filter acceptance (drop (Suc ?p) ?log)"
      using arg_cong[OF split, of "List.map_filter acceptance"] at ToRunner_TaskOfferAccept
      by (simp add: acceptances_def read_acceptances_def map_filter_append List.map_filter_simps)
    then have "tid \<notin> snd ` set (read_acceptances st)" using ok by (auto simp: protocol_ok_def accepted_ok_def)
    then show ?thesis using ok ToRunner_TaskOfferAccept by (force simp: protocol_ok_def)
  qed simp_all
qed

lemma read_acceptances_mono:
  "bk_log b = bk_log (pt_broker st) @ es \<Longrightarrow> pt_read st \<le> length (bk_log (pt_broker st)) \<Longrightarrow>
   read_acceptances (st\<lparr>pt_broker := b\<rparr>) = read_acceptances st"
  by (simp add: read_acceptances_def)

lemma protocol_ok_broker:
  assumes "inj ids" and ok: "protocol_ok ids cfg r st"
  shows "protocol_ok ids cfg r (st\<lparr>pt_broker := broker_step bcfg ids e (pt_broker st)\<rparr>)"
proof -
  from broker_step_extends[OF assms(1), of "pt_broker st" bcfg e] obtain es where
    "bk_log (broker_step bcfg ids e (pt_broker st)) = bk_log (pt_broker st) @ es" "accepted_ok ids (broker_step bcfg ids e (pt_broker st))"
    using ok by (auto simp: extends_def protocol_ok_def)
  then show ?thesis using ok read_acceptances_mono[of "broker_step bcfg ids e (pt_broker st)" st es] by (simp add: protocol_ok_def)
qed

lemma protocol_ok_invariant:
  assumes inj: "inj ids" and "protocol bcfg ids cfg r st"
  shows "protocol_ok ids cfg r st"
  using assms(2)
proof induction
  case start
  have "rp_store (new_runner cfg) = []" by (simp add: new_runner_def)
  moreover have "accepted_ok ids empty_broker"
    by (simp add: accepted_ok_def acceptances_def empty_broker_def List.map_filter_simps jobs_ok_def)
  ultimately show ?case by (simp add: protocol_ok_def runner_reachable.init)
next
  case (broker st e)
  show ?case by (rule protocol_ok_broker[OF inj broker.IH])
next
  case (runner st e env)
  have fresh: "fresh_task e (pt_runner st)" using runner.hyps by (cases e) simp_all
  have "map ts_taskId (rp_store (runner_step cfg env e (pt_runner st))) = map ts_taskId (rp_store (pt_runner st))"
    unfolding runner_step_ids using runner.hyps by (cases e) simp_all
  then have "ts_taskId ` set (rp_store (runner_step cfg env e (pt_runner st))) = ts_taskId ` set (rp_store (pt_runner st))" by (metis set_map)
  moreover have "\<forall>i \<in> ts_taskId ` set (rp_store (pt_runner st)). (r, i) \<in> set (read_acceptances st)"
    using runner.IH by (simp add: protocol_ok_def)
  ultimately have "\<forall>t \<in> set (rp_store (runner_step cfg env e (pt_runner st))). (r, ts_taskId t) \<in> set (read_acceptances st)" by blast
  then show ?case
    using runner.IH runner_reachable.step[of cfg fresh_task, OF _ fresh] by (simp add: protocol_ok_def read_acceptances_def)
next
  case (to_runner st env)
  show ?case
  proof (cases "next_to_runner r st")
    case None
    have "set (read_acceptances st) \<subseteq> set (read_acceptances (st\<lparr>pt_read := Suc (pt_read st)\<rparr>))"
      using to_runner.hyps by (simp add: read_acceptances_def take_Suc_conv_app_nth map_filter_append)
    then show ?thesis using to_runner.IH to_runner.hyps None by (auto simp: deliver_to_runner_def protocol_ok_def)
  next
    case (Some m)
    note fresh = next_is_fresh[OF to_runner.IH to_runner.hyps(2) Some]
    let ?s = "runner_step cfg env (Received m) (pt_runner st)"
    have "(r, ts_taskId t) \<in> set (read_acceptances (st\<lparr>pt_read := Suc (pt_read st)\<rparr>))" if "t \<in> set (rp_store ?s)" for t
    proof -
      have "ts_taskId t \<in> set (map ts_taskId (rp_store ?s))" using that by simp
      then have "ts_taskId t \<in> ts_taskId ` set (rp_store (pt_runner st)) \<or> (\<exists>oid. m = ToRunner_TaskOfferAccept (ts_taskId t) oid)"
        unfolding runner_step_ids by (cases m) (auto split: if_splits)
      then show ?thesis using to_runner.IH unfolding fresh(2) by (auto simp: protocol_ok_def)
    qed
    then show ?thesis
      using to_runner.IH to_runner.hyps runner_reachable.step[of cfg fresh_task, OF _ fresh(1)] Some
      by (auto simp: deliver_to_runner_def protocol_ok_def read_acceptances_def)
  qed
next
  case (to_broker st now later)
  have sent: "protocol_ok ids cfg r (x\<lparr>pt_sent := n\<rparr>) = protocol_ok ids cfg r x" for x n
    by (simp add: protocol_ok_def read_acceptances_def)
  show ?case
  proof (cases "next_to_broker st")
    case None
    then show ?thesis using to_broker.IH by (simp add: deliver_to_broker_def sent)
  next
    case (Some m)
    then have "deliver_to_broker bcfg ids now later r st =
        (st\<lparr>pt_broker := broker_step bcfg ids (FromRunner now later r m) (pt_broker st)\<rparr>)\<lparr>pt_sent := Suc (pt_sent st)\<rparr>"
      by (simp add: deliver_to_broker_def)
    then show ?thesis unfolding sent using protocol_ok_broker[OF inj to_broker.IH] by (simp only: sent)
  qed
qed

text \<open>C6: In the composition of broker and runner the broker never hands out a task id twice. Hence every task of the
  runner belongs to an acceptance of one of the runner's offers in the broker, and the runner answers it at most once.\<close>

theorem protocol_tasks_answered_once:
  assumes "inj ids" and "protocol bcfg ids cfg r st"
  shows "length (answers tid (pt_runner st)) \<le> 1 \<and>
    (\<forall>t \<in> set (rp_store (pt_runner st)). \<exists>k < length (bk_procs (pt_broker st)).
       ap_taskId (bk_procs (pt_broker st) ! k) = ts_taskId t \<and> of_runnerId (ap_offer (bk_procs (pt_broker st) ! k)) = r)"
proof -
  have ok: "protocol_ok ids cfg r st" by (rule protocol_ok_invariant[OF assms])
  have "\<exists>k < length (bk_procs (pt_broker st)).
       ap_taskId (bk_procs (pt_broker st) ! k) = ts_taskId t \<and> of_runnerId (ap_offer (bk_procs (pt_broker st) ! k)) = r"
    if "t \<in> set (rp_store (pt_runner st))" for t
  proof -
    have "(r, ts_taskId t) \<in> set (acceptances (pt_broker st))"
      using ok that unfolding acceptances_read[of st] protocol_ok_def by simp
    then show ?thesis using ok by (fastforce simp: protocol_ok_def accepted_ok_def proc_offers_nth)
  qed
  moreover have "runner_reachable cfg fresh_task (pt_runner st)" using ok by (simp add: protocol_ok_def)
  then have "runner_ok (pt_runner st)" by (rule runner_reachable_ok)
  then have "length (answers tid (pt_runner st)) \<le> 1" by (rule answers_at_most_once)
  ultimately show ?thesis by blast
qed


section \<open>Example\<close>

text \<open>A runner registers and offers, a requester asks for a task, and the runner accepts it.\<close>

definition x_ids :: "nat \<Rightarrow> string" where
  "x_ids n = replicate n (CHR ''x'')"

definition sample_bcfg :: BrokerConfig where
  "sample_bcfg = \<lparr>cfg_taskTimeout = 60, cfg_mode = Internal\<rparr>"

definition offered_state :: Protocol where
  "offered_state =
     (let st = \<lparr>pt_broker = empty_broker, pt_runner = new_runner sample_config, pt_read = 0, pt_sent = 0\<rparr>;
          st = st\<lparr>pt_broker := broker_step sample_bcfg x_ids (RegisterRunner \<lparr>tr_id = ''r'', tr_taskTypes = [''javascript'']\<rparr>) (pt_broker st)\<rparr>;
          st = deliver_to_runner sample_config sample_renv ''r'' st;
          st = st\<lparr>pt_runner := runner_step sample_config sample_renv OfferTick (pt_runner st)\<rparr>
      in deliver_to_broker sample_bcfg x_ids 0 0 ''r'' st)"

definition accepted_state :: Protocol where
  "accepted_state =
     (let st = offered_state\<lparr>pt_broker := broker_step sample_bcfg x_ids (FromRequester 0 ''q'' (Requester_TaskRequest ''k'' ''javascript'')) (pt_broker offered_state)\<rparr>
      in deliver_to_runner sample_config sample_renv ''r'' st)"

lemma offered_reachable: "protocol sample_bcfg x_ids sample_config ''r'' offered_state"
  unfolding offered_state_def Let_def
  by (intro protocol.to_broker protocol.runner protocol.to_runner protocol.broker protocol.start; code_simp)

lemma accepted_reachable: "protocol sample_bcfg x_ids sample_config ''r'' accepted_state"
  unfolding accepted_state_def Let_def
  by (intro protocol.to_runner protocol.broker offered_reachable; code_simp)

lemma protocol_tasks_answered_once_witness:
  "length (answers [] (pt_runner accepted_state)) \<le> 1 \<and> ts_taskId (rp_store (pt_runner accepted_state) ! 0) = [] \<and>
   (\<exists>k < length (bk_procs (pt_broker accepted_state)). ap_taskId (bk_procs (pt_broker accepted_state) ! k) = [])"
proof -
  have inj: "inj x_ids" by (simp add: inj_def x_ids_def)
  have t: "0 < length (rp_store (pt_runner accepted_state))" "ts_taskId (rp_store (pt_runner accepted_state) ! 0) = []" by code_simp+
  from protocol_tasks_answered_once[OF inj accepted_reachable, of "[]"] nth_mem[OF t(1)] t(2) show ?thesis by metis
qed

end
