(* ===== verification/ExpressionParser.thy ===== *)
theory ExpressionParser
  imports Parameters "HOL-Library.Sublist"
begin

text \<open>
  The parts of an expression (\<^verbatim>\<open>packages/workflow/src/extensions/expression-parser.ts\<close>): \<open>splitExpression\<close> cuts a
  template at its brackets into text and code, \<open>joinExpression\<close> puts the parts together again.
\<close>

section \<open>Definitions\<close>

datatype ExpressionChunk = ExpressionText string | ExpressionCode string bool

datatype Bracket = OpenBracket | CloseBracket

fun bracket_char :: "Bracket \<Rightarrow> char" where
  "bracket_char OpenBracket = CHR ''{''"
| "bracket_char CloseBracket = CHR ''}''"

text \<open>The characters that the two regular expressions match: two brackets, with or without a backslash before them.\<close>

definition plain_bracket :: "Bracket \<Rightarrow> string" where
  "plain_bracket b = [bracket_char b, bracket_char b]"

definition escaped_bracket :: "Bracket \<Rightarrow> string" where
  "escaped_bracket b = CHR 0x5C # plain_bracket b"

text \<open>The index of the first match, and whether it is escaped.\<close>

fun exec_regex :: "Bracket \<Rightarrow> string \<Rightarrow> (nat \<times> bool) option" where
  "exec_regex b [] = None"
| "exec_regex b (c # s) =
     (if has_prefix (escaped_bracket b) (c # s) then Some (0, True)
      else if has_prefix (plain_bracket b) (c # s) then Some (0, False)
      else map_option (\<lambda>(i, escape). (Suc i, escape)) (exec_regex b s))"

text \<open>\<open>replace\<close> with a text replaces its first occurrence only.\<close>

fun replace_first :: "string \<Rightarrow> string \<Rightarrow> string \<Rightarrow> string" where
  "replace_first pat new [] = (if pat = [] then new else [])"
| "replace_first pat new (c # s) =
     (if has_prefix pat (c # s) then new @ drop (length pat) (c # s) else c # replace_first pat new s)"

definition escapeCode :: "string \<Rightarrow> string" where
  "escapeCode s = replace_first (escaped_bracket CloseBracket) (plain_bracket CloseBracket) s"

fun found_chunk :: "Bracket \<Rightarrow> string \<Rightarrow> bool \<Rightarrow> ExpressionChunk" where
  "found_chunk OpenBracket buffer closing = ExpressionText buffer"
| "found_chunk CloseBracket buffer closing = ExpressionCode (escapeCode buffer) closing"

fun other_bracket :: "Bracket \<Rightarrow> Bracket" where
  "other_bracket OpenBracket = CloseBracket"
| "other_bracket CloseBracket = OpenBracket"

text \<open>The loop; \<open>expr\<close> is what is left of the expression.\<close>

function split_loop :: "Bracket \<Rightarrow> string \<Rightarrow> string \<Rightarrow> ExpressionChunk list" where
  "split_loop searchingFor buffer expr =
     (if expr = [] then []
      else case exec_regex searchingFor expr of
        None \<Rightarrow> [found_chunk searchingFor (buffer @ expr) False]
      | Some (i, escape) \<Rightarrow>
          if escape then split_loop searchingFor (buffer @ take (i + 3) expr) (drop (i + 3) expr)
          else found_chunk searchingFor (buffer @ take i expr) True # split_loop (other_bracket searchingFor) [] (drop (i + 2) expr))"
  by pat_completeness auto
termination by (relation "measure (\<lambda>(_, _, expr). length expr)") auto

declare split_loop.simps [simp del]

definition splitExpression :: "string \<Rightarrow> ExpressionChunk list" where
  "splitExpression expression = split_loop OpenBracket [] expression"

definition escapeTmplExpression :: "string \<Rightarrow> string" where
  "escapeTmplExpression part = replace_first (plain_bracket CloseBracket) (escaped_bracket CloseBracket) part"

fun join_chunk :: "ExpressionChunk \<Rightarrow> string" where
  "join_chunk (ExpressionCode code closing) =
     plain_bracket OpenBracket @ escapeTmplExpression code @ (if closing then plain_bracket CloseBracket else [])"
| "join_chunk (ExpressionText txt) = txt"

definition joinExpression :: "ExpressionChunk list \<Rightarrow> string" where
  "joinExpression parts = concat (map join_chunk parts)"

section \<open>Matches\<close>

text \<open>A text occurs at an index; for brackets this is said by the characters.\<close>

definition occurs_at :: "string \<Rightarrow> string \<Rightarrow> nat \<Rightarrow> bool" where
  "occurs_at pat s k \<longleftrightarrow> has_prefix pat (drop k s)"

lemma occurs_at_Suc [simp]: "occurs_at pat (c # s) (Suc k) = occurs_at pat s k" "occurs_at pat s 0 = has_prefix pat s"
  by (simp_all add: occurs_at_def)

lemma occurs_drop: "occurs_at pat s k \<Longrightarrow> drop k s = pat @ drop (length pat) (drop k s)"
  unfolding occurs_at_def has_prefix_def by (metis append_take_drop_id)

lemma take_two: "take (Suc (Suc 0)) xs = [a, b] \<longleftrightarrow> Suc 0 < length xs \<and> xs ! 0 = a \<and> xs ! Suc 0 = b"
  by (cases xs; cases "tl xs") auto

lemma take_three: "take (Suc (Suc (Suc 0))) xs = [a, b, c] \<longleftrightarrow> 2 < length xs \<and> xs ! 0 = a \<and> xs ! Suc 0 = b \<and> xs ! 2 = c"
  by (cases xs; cases "tl xs"; cases "tl (tl xs)") auto

lemma plain_at: "occurs_at (plain_bracket b) s k \<longleftrightarrow> Suc k < length s \<and> s ! k = bracket_char b \<and> s ! Suc k = bracket_char b"
  by (auto simp: occurs_at_def has_prefix_def plain_bracket_def take_two)

lemma escaped_at: "occurs_at (escaped_bracket b) s k \<longleftrightarrow>
    k + 2 < length s \<and> s ! k = CHR 0x5C \<and> s ! Suc k = bracket_char b \<and> s ! (k + 2) = bracket_char b"
  by (auto simp: occurs_at_def has_prefix_def escaped_bracket_def plain_bracket_def take_three)

lemma exec_regex_None: "exec_regex b s = None \<Longrightarrow> \<not> occurs_at (plain_bracket b) s k"
proof (induction s arbitrary: k)
  case (Cons c s)
  then show ?case by (cases k) (auto split: if_splits)
qed (simp add: plain_at)

lemma exec_regex_Some: "exec_regex b s = Some (i, escape) \<Longrightarrow>
    occurs_at (if escape then escaped_bracket b else plain_bracket b) s i \<and> (\<forall>j < i. \<not> occurs_at (plain_bracket b) s j)"
proof (induction s arbitrary: i)
  case (Cons c s)
  show ?case
  proof (cases "has_prefix (escaped_bracket b) (c # s) \<or> has_prefix (plain_bracket b) (c # s)")
    case True
    then show ?thesis using Cons.prems by (auto split: if_splits)
  next
    case False
    then obtain j where j: "exec_regex b s = Some (j, escape)" "i = Suc j" using Cons.prems by auto
    have "\<not> occurs_at (plain_bracket b) (c # s) k" if "k < i" for k
      using Cons.IH[OF j(1)] False that j(2) by (cases k) auto
    then show ?thesis using Cons.IH[OF j(1)] j(2) by simp
  qed
qed simp

lemma replace_first_absent: "pat \<noteq> [] \<Longrightarrow> (\<And>k. \<not> occurs_at pat s k) \<Longrightarrow> replace_first pat new s = s"
proof (induction s)
  case (Cons c s)
  have "\<not> occurs_at pat s k" for k using Cons.prems(2)[of "Suc k"] by simp
  moreover have "\<not> has_prefix pat (c # s)" using Cons.prems(2)[of 0] by simp
  ultimately show ?case using Cons.IH Cons.prems(1) by simp
qed simp

lemma replace_first_at:
  "pat \<noteq> [] \<Longrightarrow> occurs_at pat s k \<Longrightarrow> \<forall>j < k. \<not> occurs_at pat s j \<Longrightarrow>
    replace_first pat new s = take k s @ new @ drop (k + length pat) s"
proof (induction s arbitrary: k)
  case Nil
  then show ?case by (simp add: occurs_at_def has_prefix_def)
next
  case (Cons c s)
  show ?case
  proof (cases k)
    case (Suc j)
    then have "\<not> has_prefix pat (c # s)" "\<forall>i < j. \<not> occurs_at pat s i"
      using Cons.prems(3)[rule_format, of 0] Cons.prems(3)[rule_format, of "Suc i" for i] by auto
    then show ?thesis using Cons.IH[of j] Cons.prems(1,2) Suc by simp
  qed (use Cons.prems in simp)
qed

section \<open>Round trip\<close>

text \<open>The first closing brackets are escaped, or there are none.\<close>

definition code_buffer :: "string \<Rightarrow> bool" where
  "code_buffer s \<longleftrightarrow> (\<forall>j. \<not> occurs_at (plain_bracket CloseBracket) s j) \<or>
     (\<exists>k. occurs_at (escaped_bracket CloseBracket) s k \<and> (\<forall>j < k. \<not> occurs_at (plain_bracket CloseBracket) s j))"

definition bracket_before :: "string \<Rightarrow> bool" where
  "bracket_before s \<longleftrightarrow> sublist (CHR ''}'' # escaped_bracket CloseBracket) s"

lemma bracket_beforeI:
  assumes "occurs_at (escaped_bracket CloseBracket) s (Suc j)" "s ! j = CHR ''}''"
  shows "bracket_before s"
proof -
  have "drop j s = s ! j # drop (Suc j) s" using assms(1) by (simp add: escaped_at Cons_nth_drop_Suc)
  moreover have "drop (Suc j) s = escaped_bracket CloseBracket @ drop (length (escaped_bracket CloseBracket)) (drop (Suc j) s)"
    using assms(1) by (rule occurs_drop)
  ultimately have "s = take j s @ (CHR ''}'' # escaped_bracket CloseBracket) @ drop (length (escaped_bracket CloseBracket)) (drop (Suc j) s)"
    using assms(2) by (metis append_Cons append_take_drop_id)
  then show ?thesis unfolding bracket_before_def sublist_def by blast
qed

lemma escape_again:
  assumes "code_buffer s" and "\<not> bracket_before s"
  shows "escapeTmplExpression (escapeCode s) = s"
  using assms(1) unfolding code_buffer_def
proof (elim disjE exE conjE)
  let ?pl = "plain_bracket CloseBracket" and ?es = "escaped_bracket CloseBracket"
  assume no: "\<forall>j. \<not> occurs_at ?pl s j"
  then have "\<not> occurs_at ?es s j" for j using no[rule_format, of "Suc j"] by (simp add: plain_at escaped_at)
  then show ?thesis using no
    by (simp add: escapeCode_def escapeTmplExpression_def replace_first_absent escaped_bracket_def plain_bracket_def)
next
  let ?pl = "plain_bracket CloseBracket" and ?es = "escaped_bracket CloseBracket"
  fix k assume k: "occurs_at ?es s k" "\<forall>j < k. \<not> occurs_at ?pl s j"
  let ?t = "take k s @ ?pl @ drop (k + 3) s"
  have len: "k + 2 < length s" using k(1) by (simp add: escaped_at)
  have "\<not> occurs_at ?es s j" if "j < k" for j
  proof
    assume at: "occurs_at ?es s j"
    then have "Suc j \<noteq> k" using k(1) by (auto simp: escaped_at)
    then show False using k(2)[rule_format, of "Suc j"] that at by (simp add: plain_at escaped_at)
  qed
  then have 1: "escapeCode s = ?t"
    unfolding escapeCode_def using replace_first_at[of ?es s k ?pl] k(1) by (simp add: escaped_bracket_def plain_bracket_def numeral_3_eq_3)
  have "\<not> occurs_at ?pl ?t j" if j: "j < k" for j
  proof
    assume at: "occurs_at ?pl ?t j"
    show False
    proof (cases "Suc j < k")
      case True
      then show False using at k(2)[rule_format, OF j] len by (simp add: plain_at nth_append)
    next
      case False
      then have "Suc j = k" "s ! j = CHR ''}''" using at j len by (auto simp: plain_at nth_append)
      then show False using bracket_beforeI k(1) assms(2) by blast
    qed
  qed
  moreover have "occurs_at ?pl ?t k" unfolding plain_at using len by (simp add: nth_append plain_bracket_def)
  ultimately have "escapeTmplExpression ?t = take k ?t @ ?es @ drop (k + length ?pl) ?t"
    unfolding escapeTmplExpression_def by (intro replace_first_at) (auto simp: plain_bracket_def)
  also have "\<dots> = take k s @ ?es @ drop (k + 3) s" using len by (simp add: plain_bracket_def)
  also have "take 3 (drop k s) = ?es" using k(1) by (simp add: occurs_at_def has_prefix_def escaped_bracket_def plain_bracket_def numeral_3_eq_3)
  then have "?es @ drop (k + 3) s = drop k s" by (metis append_take_drop_id drop_drop add.commute)
  finally show ?thesis using 1 by simp
qed

lemma not_plain_bracket [simp]: "plain_bracket b \<noteq> []" "escaped_bracket b \<noteq> []" "length (plain_bracket b) = 2" "length (escaped_bracket b) = 3"
  by (simp_all add: plain_bracket_def escaped_bracket_def)

lemma code_buffer_none: "(\<And>j. \<not> occurs_at (plain_bracket CloseBracket) s j) \<Longrightarrow> code_buffer s"
  by (simp add: code_buffer_def)

text \<open>What the buffer holds while the closing brackets are searched for.\<close>

definition closing_buffer :: "string \<Rightarrow> bool" where
  "closing_buffer s \<longleftrightarrow> s = [] \<or>
     (\<exists>k. occurs_at (escaped_bracket CloseBracket) s k \<and> (\<forall>j < k. \<not> occurs_at (plain_bracket CloseBracket) s j))"

lemma closing_buffer_append: "closing_buffer s \<Longrightarrow> s \<noteq> [] \<Longrightarrow> closing_buffer (s @ x)"
  unfolding closing_buffer_def by (auto simp: escaped_at plain_at nth_append)

lemma closing_buffer_code: "closing_buffer s \<Longrightarrow> s \<noteq> [] \<Longrightarrow> code_buffer s"
  by (auto simp: closing_buffer_def code_buffer_def)

lemma take_closing:
  assumes "occurs_at (escaped_bracket CloseBracket) s i" "\<forall>j < i. \<not> occurs_at (plain_bracket CloseBracket) s j"
  shows "closing_buffer (take (i + 3) s)"
proof -
  have "occurs_at (escaped_bracket CloseBracket) (take (i + 3) s) i" using assms(1) by (simp add: escaped_at)
  moreover have "\<forall>j < i. \<not> occurs_at (plain_bracket CloseBracket) (take (i + 3) s) j" using assms(2) by (auto simp: plain_at)
  ultimately show ?thesis unfolding closing_buffer_def by blast
qed

lemma bracket_before_part: "bracket_before x \<Longrightarrow> sublist x y \<Longrightarrow> bracket_before y"
  unfolding bracket_before_def by (rule sublist_order.order_trans)

lemma split_at_match:
  assumes "occurs_at pat s i"
  shows "s = take i s @ pat @ drop (i + length pat) s"
  using occurs_drop[OF assms] by (metis append_take_drop_id drop_drop add.commute)

lemma suffix_of_rest: "suffix x (drop k s) \<Longrightarrow> suffix x s"
  using suffix_drop suffix_order.order_trans by blast

lemma escaped_suffix: "suffix (escaped_bracket b) s \<Longrightarrow> suffix (plain_bracket b) s"
  unfolding escaped_bracket_def by (rule suffix_ConsD)

lemma join_Cons: "joinExpression (c # cs) = join_chunk c @ joinExpression cs"
  by (simp add: joinExpression_def)

lemma join_split_loop:
  assumes "expr \<noteq> [] \<or> m = OpenBracket \<and> buffer = []" and "m = CloseBracket \<Longrightarrow> closing_buffer buffer"
    and "\<not> bracket_before (buffer @ expr)"
    and "\<not> suffix (plain_bracket OpenBracket) expr" and "\<not> suffix (escaped_bracket CloseBracket) expr"
  shows "joinExpression (split_loop m buffer expr) = (if m = CloseBracket then plain_bracket OpenBracket else []) @ buffer @ expr"
  using assms
proof (induction m buffer expr rule: split_loop.induct)
  case (1 m buffer expr)
  show ?case
  proof (cases "expr = []")
    case True
    then show ?thesis using "1.prems"(1) by (simp add: split_loop.simps joinExpression_def)
  next
    case nonempty: False
    have code: "joinExpression [ExpressionCode (escapeCode s) closing] = plain_bracket OpenBracket @ s @ (if closing then plain_bracket CloseBracket else [])"
      if "code_buffer s" "sublist s (buffer @ expr)" for s closing
      using escape_again[OF that(1)] bracket_before_part[OF _ that(2)] "1.prems"(3) by (auto simp: joinExpression_def)
    show ?thesis
    proof (cases "exec_regex m expr")
      case None
      have "code_buffer (buffer @ expr)" if "m = CloseBracket"
      proof (cases "buffer = []")
        case True
        then show ?thesis using exec_regex_None[OF None] that by (simp add: code_buffer_none)
      next
        case False
        then show ?thesis using "1.prems"(2)[OF that] by (intro closing_buffer_code closing_buffer_append) auto
      qed
      moreover have "split_loop m buffer expr = [found_chunk m (buffer @ expr) False]"
        using None nonempty by (simp add: split_loop.simps[of m buffer expr])
      ultimately show ?thesis using code[of "buffer @ expr" False] by (cases m) (simp_all add: joinExpression_def)
    next
      case (Some r)
      obtain i escape where r: "r = (i, escape)" by fastforce
      note found = exec_regex_Some[OF Some[unfolded r]]
      show ?thesis
      proof (cases escape)
        case True
        let ?rest = "drop (i + 3) expr"
        have at: "occurs_at (escaped_bracket m) expr i" using found True by simp
        have parts: "expr = take i expr @ escaped_bracket m @ ?rest" using split_at_match[OF at] by simp
        have "?rest \<noteq> []"
        proof
          assume "?rest = []"
          then have "suffix (escaped_bracket m) expr" using parts by (metis append_Nil2 suffix_def)
          then show False using "1.prems"(4,5) escaped_suffix by (cases m) auto
        qed
        moreover have "closing_buffer (buffer @ take (i + 3) expr)" if "m = CloseBracket"
          using "1.prems"(2)[OF that] take_closing[of expr i] at found that closing_buffer_append
          by (cases "buffer = []") auto
        ultimately have "joinExpression (split_loop m (buffer @ take (i + 3) expr) ?rest) =
            (if m = CloseBracket then plain_bracket OpenBracket else []) @ (buffer @ take (i + 3) expr) @ ?rest"
          using "1.prems"(3-5) suffix_of_rest by (intro "1.IH"(1)[OF nonempty Some r[symmetric] True]) auto
        then show ?thesis using nonempty Some r True by (simp add: split_loop.simps[of m buffer expr])
      next
        case False
        let ?rest = "drop (i + 2) expr"
        have at: "occurs_at (plain_bracket m) expr i" using found False by simp
        have parts: "expr = take i expr @ plain_bracket m @ ?rest" using split_at_match[OF at] by simp
        have "sublist ?rest (buffer @ expr)" by (metis sublist_appendI sublist_order.order_trans suffix_drop suffix_imp_sublist sublist_append_leftI)
        moreover have "?rest \<noteq> []" if "m = OpenBracket"
        proof
          assume "?rest = []"
          then have "suffix (plain_bracket m) expr" using parts by (metis append_Nil2 suffix_def)
          then show False using "1.prems"(4) that by simp
        qed
        moreover have "closing_buffer []" by (simp add: closing_buffer_def)
        ultimately have "?rest \<noteq> [] \<or> other_bracket m = OpenBracket \<and> [] = []" "\<not> bracket_before ([] @ ?rest)" "closing_buffer []"
          using "1.prems"(3) bracket_before_part[of ?rest] by (cases m; simp; blast)+
        moreover have "\<not> suffix (plain_bracket OpenBracket) ?rest" "\<not> suffix (escaped_bracket CloseBracket) ?rest"
          using "1.prems"(4,5) suffix_of_rest by blast+
        ultimately have rest: "joinExpression (split_loop (other_bracket m) [] ?rest) =
            (if other_bracket m = CloseBracket then plain_bracket OpenBracket else []) @ [] @ ?rest"
          by (intro "1.IH"(2)[OF nonempty Some r[symmetric] False])
        have "code_buffer (buffer @ take i expr)" if "m = CloseBracket"
        proof (cases "buffer = []")
          case True
          have "\<not> occurs_at (plain_bracket CloseBracket) (take i expr) j" for j
            using found that by (auto simp: plain_at)
          then show ?thesis using True by (simp add: code_buffer_none)
        next
          case False
          then show ?thesis using "1.prems"(2)[OF that] by (intro closing_buffer_code closing_buffer_append) auto
        qed
        moreover have "sublist (buffer @ take i expr) (buffer @ expr)"
          by (metis append.assoc append_take_drop_id prefixI prefix_imp_sublist)
        ultimately have chunk: "join_chunk (found_chunk m (buffer @ take i expr) True) =
            (if m = CloseBracket then plain_bracket OpenBracket else []) @ buffer @ take i expr @
            (if m = CloseBracket then plain_bracket CloseBracket else [])"
          using code[of "buffer @ take i expr" True] by (cases m) (simp_all add: joinExpression_def)
        have "joinExpression (split_loop m buffer expr) =
            join_chunk (found_chunk m (buffer @ take i expr) True) @ joinExpression (split_loop (other_bracket m) [] ?rest)"
          using nonempty Some r False by (simp add: split_loop.simps[of m buffer expr] join_Cons)
        also have "\<dots> = (if m = CloseBracket then plain_bracket OpenBracket else []) @ buffer @ (take i expr @ plain_bracket m @ ?rest)"
          unfolding rest chunk by (cases m) simp_all
        also note parts[symmetric]
        finally show ?thesis .
      qed
    qed
  qed
qed

text \<open>C24: Joining the parts of a template gives the template back, unless it ends with opening brackets or with escaped
  closing ones, or has a bracket right before escaped closing ones.\<close>

theorem split_join_roundtrip:
  assumes "\<not> suffix ''{{'' expression" and "\<not> suffix (CHR 0x5C # ''}}'') expression"
    and "\<not> sublist (CHR ''}'' # CHR 0x5C # ''}}'') expression"
  shows "joinExpression (splitExpression expression) = expression"
  using join_split_loop[of expression OpenBracket "[]"] assms
  by (auto simp: splitExpression_def bracket_before_def escaped_bracket_def plain_bracket_def)

text \<open>The parts alternate between text and code, and only the last part may be code without its closing brackets.\<close>

fun alternating :: "Bracket \<Rightarrow> ExpressionChunk list \<Rightarrow> bool" where
  "alternating b [] = True"
| "alternating OpenBracket (ExpressionText s # cs) = alternating CloseBracket cs"
| "alternating CloseBracket (ExpressionCode s closing # cs) = (if closing then alternating OpenBracket cs else cs = [])"
| "alternating b (c # cs) = False"

lemma split_loop_alternates: "alternating m (split_loop m buffer expr)"
proof (induction m buffer expr rule: split_loop.induct)
  case (1 m buffer expr)
  show ?case
  proof (cases "expr = [] \<or> exec_regex m expr = None")
    case True
    then show ?thesis by (cases m) (auto simp: split_loop.simps[of _ buffer expr])
  next
    case False
    then obtain i escape where r: "exec_regex m expr = Some (i, escape)" by fastforce
    then show ?thesis using False "1.IH"[OF _ r refl]
      by (cases m; cases escape) (auto simp: split_loop.simps[of _ buffer expr])
  qed
qed

lemma splitExpression_alternates: "alternating OpenBracket (splitExpression expression)"
  unfolding splitExpression_def by (rule split_loop_alternates)

lemma split_join_roundtrip_witness:
  "joinExpression (splitExpression ''a {{ $json.b }} c'') = ''a {{ $json.b }} c''"
  by (rule split_join_roundtrip) (simp_all add: suffix_def sublist_code Cons_eq_append_conv append_eq_Cons_conv)

text \<open>
  The text before escaped or unescaped brackets at the end is lost, only the first escaped closing brackets are
  unescaped, and a bracket before them moves the backslash.
\<close>

lemma end_of_template_lost:
  "splitExpression (''abc '' @ CHR 0x5C # ''{{'') = []"
  "joinExpression (splitExpression ''abc {{'') = ''abc ''"
  by code_simp+

lemma second_escape_kept:
  "splitExpression (''{{ '' @ CHR 0x5C # ''}} '' @ CHR 0x5C # ''}} }}'') =
     [ExpressionText [], ExpressionCode ('' }} '' @ CHR 0x5C # ''}} '') True]"
  by code_simp

lemma backslash_moves:
  "joinExpression (splitExpression (''{{ a}'' @ CHR 0x5C # ''}} }}'')) = ''{{ a'' @ CHR 0x5C # ''}}} }}''"
  by code_simp

end
