(* ===== verification/ActiveWorkflows.thy ===== *)
theory ActiveWorkflows
  imports Workflow NodeNaming
begin

text \<open>
  Active workflows of a process: \<open>ScheduledTaskManager\<close>, \<open>TriggersAndPollers\<close> and \<open>ActiveWorkflows\<close> of
  \<^verbatim>\<open>packages/core/src/execution-engine\<close>, and the queue of activations to try again of
  \<^verbatim>\<open>packages/cli/src/active-workflow-manager.ts\<close>.

  Cron jobs are objects that live in a store; the map of the manager names them by their place. What triggers,
  polls and close functions do, which expressions \<open>CronJob\<close> accepts and the random seconds are given by the
  environment, by the number of the call. \<open>add\<close> and \<open>remove\<close> are run to their end; a thrown error
  comes with the state that it leaves.
\<close>

section \<open>State\<close>

text \<open>A trigger response with its \<open>closeFunction\<close>, if it has one, named by the number of the call of \<open>trigger\<close>.\<close>

record ITriggerResponse =
  tp_id :: nat
  tp_closable :: bool

datatype OnTick = PollsNode INode | OtherTick

record CronJob =
  cj_workflowId :: string
  cj_expression :: string
  cj_onTick :: OnTick
  cj_running :: bool

record CronEntry =
  ce_job :: nat
  ce_displayableCron :: string

record Recurrence =
  rr_activated :: bool
  rr_intervalSize :: nat
  rr_typeInterval :: string

record Cron =
  cr_expression :: string
  cr_recurrence :: "Recurrence option"

datatype ActivationEffect =
    TriggerClosed nat
  | TriggerCloseReported nat
  | EmittedData INode json
  | EmittedError INode string
  | Ticked nat

record ActiveState =
  aw_activeWorkflows :: "(string, ITriggerResponse list) js_map"
  aw_cronMap :: "(string, CronEntry list) js_map"
  aw_jobs :: "CronJob list"
  aw_logging :: bool
  aw_queuedActivations :: "(string, nat) js_map"
  aw_triggers :: nat
  aw_polls :: nat
  aw_log :: "ActivationEffect list"

datatype CloseOutcome = CloseDone | CloseReported | CloseFails string

record ActivationEnv =
  ae_trigger :: "INode \<Rightarrow> nat \<Rightarrow> (string, bool option) sum"
  ae_poll :: "INode \<Rightarrow> nat \<Rightarrow> (string, json option) sum"
  ae_pollTimes :: "INode \<Rightarrow> TriggerTime list"
  ae_random :: "nat \<Rightarrow> 32 word \<times> 32 word"
  ae_cronError :: "string \<Rightarrow> string option"
  ae_close :: "nat \<Rightarrow> CloseOutcome"
  ae_lib :: ValidationLib

datatype activation_error =
    WorkflowActivationError string INode
  | WorkflowDeactivationError string string

type_synonym ('e, 'a) run_to_end = "('e, 'a) sum \<times> ActiveState"

definition aw_emit :: "ActivationEffect \<Rightarrow> ActiveState \<Rightarrow> ActiveState" where
  "aw_emit e s = s\<lparr>aw_log := aw_log s @ [e]\<rparr>"

section \<open>Scheduled tasks\<close>

definition displayableCron :: "Cron \<Rightarrow> string" where
  "displayableCron c = (case cr_recurrence c of
     Some r \<Rightarrow> if rr_activated r
       then cr_expression c @ '' (every '' @ nat_str (rr_intervalSize r) @ '' '' @ rr_typeInterval r @ '')''
       else cr_expression c
   | None \<Rightarrow> cr_expression c)"

definition registerCron :: "ActivationEnv \<Rightarrow> string \<Rightarrow> Cron \<Rightarrow> OnTick \<Rightarrow> ActiveState \<Rightarrow> (string, unit) run_to_end" where
  "registerCron env workflowId c onTick s =
     (case ae_cronError env (cr_expression c) of
        Some e \<Rightarrow> (Inl e, s)
      | None \<Rightarrow>
          let job = \<lparr>cj_workflowId = workflowId, cj_expression = cr_expression c, cj_onTick = onTick, cj_running = True\<rparr>;
              cronEntry = \<lparr>ce_job = length (aw_jobs s), ce_displayableCron = displayableCron c\<rparr>;
              es = (case map_of (aw_cronMap s) workflowId of Some es \<Rightarrow> es @ [cronEntry] | None \<Rightarrow> [cronEntry])
          in (Inr (), s\<lparr>aw_jobs := aw_jobs s @ [job], aw_cronMap := js_put workflowId es (aw_cronMap s)\<rparr>))"

definition stop_job :: "CronEntry \<Rightarrow> CronJob list \<Rightarrow> CronJob list" where
  "stop_job e jobs = jobs[ce_job e := (jobs ! ce_job e)\<lparr>cj_running := False\<rparr>]"

definition deregisterCrons :: "string \<Rightarrow> ActiveState \<Rightarrow> ActiveState" where
  "deregisterCrons workflowId s = (case map_of (aw_cronMap s) workflowId of
     None \<Rightarrow> s
   | Some cronJobs \<Rightarrow>
       if cronJobs = [] then s
       else s\<lparr>aw_jobs := foldr stop_job cronJobs (aw_jobs s), aw_cronMap := js_del workflowId (aw_cronMap s)\<rparr>)"

definition deregisterAllCrons :: "ActiveState \<Rightarrow> ActiveState" where
  "deregisterAllCrons s = (fold deregisterCrons (js_keys (aw_cronMap s)) s)\<lparr>aw_logging := False\<rparr>"

section \<open>Triggers and polls\<close>

definition runTrigger ::
    "ActivationEnv \<Rightarrow> Workflow \<Rightarrow> WorkflowExecuteMode \<Rightarrow> INode \<Rightarrow> ActiveState \<Rightarrow> (string, ITriggerResponse option) run_to_end" where
  "runTrigger env w mode node s =
     (case w_nodeTypes w (node_type node) (node_typeVersion node) of
        None \<Rightarrow> (Inl ''Cannot read properties of undefined'', s)
      | Some nodeType \<Rightarrow>
          if \<not> nt_trigger nodeType then (Inl ''Node type does not have a trigger function defined'', s)
          else let k = aw_triggers s; s = s\<lparr>aw_triggers := Suc k\<rparr>
               in case ae_trigger env node k of
                    Inl e \<Rightarrow> (Inl e, s)
                  | Inr None \<Rightarrow> if mode = ModeManual then (Inl ''Cannot set properties of undefined'', s) else (Inr None, s)
                  | Inr (Some closable) \<Rightarrow> (Inr (Some \<lparr>tp_id = k, tp_closable = closable\<rparr>), s))"

definition runPoll :: "ActivationEnv \<Rightarrow> Workflow \<Rightarrow> INode \<Rightarrow> ActiveState \<Rightarrow> (string, json option) run_to_end" where
  "runPoll env w node s =
     (case w_nodeTypes w (node_type node) (node_typeVersion node) of
        None \<Rightarrow> (Inl ''Cannot read properties of undefined'', s)
      | Some nodeType \<Rightarrow>
          if \<not> nt_poll nodeType then (Inl ''Node type does not have a poll function defined'', s)
          else (ae_poll env node (aw_polls s), s\<lparr>aw_polls := Suc (aw_polls s)\<rparr>))"

section \<open>Active workflows\<close>

definition isActive :: "string \<Rightarrow> ActiveState \<Rightarrow> bool" where
  "isActive workflowId s = js_has (aw_activeWorkflows s) workflowId"

definition allActiveWorkflows :: "ActiveState \<Rightarrow> string list" where
  "allActiveWorkflows s = js_keys (aw_activeWorkflows s)"

definition activation_failed :: "string \<Rightarrow> INode \<Rightarrow> activation_error" where
  "activation_failed message node =
     WorkflowActivationError (''There was a problem activating the workflow: \"'' @ message @ ''\"'') node"

text \<open>\<open>executeTrigger\<close>; the test throws what the poll throws, a tick of the cron emits it.\<close>

definition executeTrigger :: "ActivationEnv \<Rightarrow> Workflow \<Rightarrow> INode \<Rightarrow> bool \<Rightarrow> ActiveState \<Rightarrow> (string, unit) run_to_end" where
  "executeTrigger env w node testingTrigger s =
     (case runPoll env w node s of
        (Inr pollResponse, s) \<Rightarrow> (Inr (), case pollResponse of None \<Rightarrow> s | Some d \<Rightarrow> aw_emit (EmittedData node d) s)
      | (Inl e, s) \<Rightarrow> if testingTrigger then (Inl e, s) else (Inr (), aw_emit (EmittedError node e) s))"

definition too_short :: "string \<Rightarrow> bool" where
  "too_short expression \<longleftrightarrow> CHR ''*'' \<in> set (hd (parts (CHR '' '') expression))"

fun register_expressions :: "ActivationEnv \<Rightarrow> string \<Rightarrow> INode \<Rightarrow> string list \<Rightarrow> ActiveState \<Rightarrow> (string, unit) run_to_end" where
  "register_expressions env workflowId node [] s = (Inr (), s)"
| "register_expressions env workflowId node (expression # rest) s =
     (if too_short expression
      then (Inl ''The polling interval is too short. It has to be at least a minute.'', s)
      else case registerCron env workflowId \<lparr>cr_expression = expression, cr_recurrence = None\<rparr> (PollsNode node) s of
        (Inl e, s) \<Rightarrow> (Inl e, s)
      | (Inr _, s) \<Rightarrow> register_expressions env workflowId node rest s)"

text \<open>The random words are numbered by the polls there were and the position of the time.\<close>

definition poll_expressions :: "ActivationEnv \<Rightarrow> INode \<Rightarrow> nat \<Rightarrow> string list" where
  "poll_expressions env node k =
     map (\<lambda>(i, t). toCronExpression (ae_lib env) (fst (ae_random env (k + i))) (snd (ae_random env (k + i))) t)
       (enumerate 0 (ae_pollTimes env node))"

definition activatePolling :: "ActivationEnv \<Rightarrow> Workflow \<Rightarrow> INode \<Rightarrow> ActiveState \<Rightarrow> (string, unit) run_to_end" where
  "activatePolling env w node s =
     (let cronExpressions = poll_expressions env node (aw_polls s)
      in case executeTrigger env w node True s of
           (Inl e, s) \<Rightarrow> (Inl e, s)
         | (Inr _, s) \<Rightarrow> register_expressions env (w_id w) node cronExpressions s)"

fun run_triggers ::
    "ActivationEnv \<Rightarrow> Workflow \<Rightarrow> WorkflowExecuteMode \<Rightarrow> INode list \<Rightarrow> ITriggerResponse list \<Rightarrow> ActiveState \<Rightarrow>
      (activation_error, ITriggerResponse list) run_to_end" where
  "run_triggers env w mode [] triggerResponses s = (Inr triggerResponses, s)"
| "run_triggers env w mode (triggerNode # rest) triggerResponses s =
     (case runTrigger env w mode triggerNode s of
        (Inl e, s) \<Rightarrow> (Inl (activation_failed e triggerNode), s)
      | (Inr None, s) \<Rightarrow> run_triggers env w mode rest triggerResponses s
      | (Inr (Some r), s) \<Rightarrow> run_triggers env w mode rest (triggerResponses @ [r]) s)"

fun activate_polls ::
    "ActivationEnv \<Rightarrow> Workflow \<Rightarrow> string \<Rightarrow> bool \<Rightarrow> INode list \<Rightarrow> ActiveState \<Rightarrow> (activation_error, unit) run_to_end" where
  "activate_polls env w workflowId noTriggers [] s = (Inr (), s)"
| "activate_polls env w workflowId noTriggers (pollNode # rest) s =
     (case activatePolling env w pollNode s of
        (Inl e, s) \<Rightarrow> (Inl (activation_failed e pollNode),
          if noTriggers then s\<lparr>aw_activeWorkflows := js_del workflowId (aw_activeWorkflows s)\<rparr> else s)
      | (Inr _, s) \<Rightarrow> activate_polls env w workflowId noTriggers rest s)"

definition add_workflow ::
    "ActivationEnv \<Rightarrow> string \<Rightarrow> Workflow \<Rightarrow> WorkflowExecuteMode \<Rightarrow> ActiveState \<Rightarrow> (activation_error, unit) run_to_end" where
  "add_workflow env workflowId w mode s =
     (case run_triggers env w mode (getTriggerNodes w) [] s of
        (Inl e, s) \<Rightarrow> (Inl e, s)
      | (Inr triggerResponses, s) \<Rightarrow>
          activate_polls env w workflowId (triggerResponses = []) (getPollNodes w)
            (s\<lparr>aw_activeWorkflows := js_put workflowId triggerResponses (aw_activeWorkflows s)\<rparr>))"

definition closeTrigger :: "ActivationEnv \<Rightarrow> ITriggerResponse \<Rightarrow> string \<Rightarrow> ActiveState \<Rightarrow> (activation_error, unit) run_to_end" where
  "closeTrigger env response workflowId s =
     (if \<not> tp_closable response then (Inr (), s)
      else let s = aw_emit (TriggerClosed (tp_id response)) s
           in case ae_close env (tp_id response) of
                CloseDone \<Rightarrow> (Inr (), s)
              | CloseReported \<Rightarrow> (Inr (), aw_emit (TriggerCloseReported (tp_id response)) s)
              | CloseFails e \<Rightarrow> (Inl (WorkflowDeactivationError
                  (''Failed to deactivate trigger of workflow ID \"'' @ workflowId @ ''\": \"'' @ e @ ''\"'') workflowId), s))"

fun close_triggers ::
    "ActivationEnv \<Rightarrow> string \<Rightarrow> ITriggerResponse list \<Rightarrow> ActiveState \<Rightarrow> (activation_error, unit) run_to_end" where
  "close_triggers env workflowId [] s = (Inr (), s)"
| "close_triggers env workflowId (r # rest) s =
     (case closeTrigger env r workflowId s of
        (Inl e, s) \<Rightarrow> (Inl e, s) | (Inr _, s) \<Rightarrow> close_triggers env workflowId rest s)"

definition remove_workflow :: "ActivationEnv \<Rightarrow> string \<Rightarrow> ActiveState \<Rightarrow> (activation_error, bool) run_to_end" where
  "remove_workflow env workflowId s = (case map_of (aw_activeWorkflows s) workflowId of
     None \<Rightarrow> (Inr False, s)
   | Some triggerResponses \<Rightarrow>
       (case close_triggers env workflowId triggerResponses (deregisterCrons workflowId s) of
          (Inl e, s) \<Rightarrow> (Inl e, s)
        | (Inr _, s) \<Rightarrow> (Inr True, s\<lparr>aw_activeWorkflows := js_del workflowId (aw_activeWorkflows s)\<rparr>)))"

fun remove_each :: "ActivationEnv \<Rightarrow> string list \<Rightarrow> ActiveState \<Rightarrow> (activation_error, unit) run_to_end" where
  "remove_each env [] s = (Inr (), s)"
| "remove_each env (workflowId # rest) s = (case remove_workflow env workflowId s of
     (Inl e, s) \<Rightarrow> (Inl e, s) | (Inr _, s) \<Rightarrow> remove_each env rest s)"

definition removeAllTriggerAndPollerBasedWorkflows :: "ActivationEnv \<Rightarrow> ActiveState \<Rightarrow> (activation_error, unit) run_to_end" where
  "removeAllTriggerAndPollerBasedWorkflows env s = remove_each env (allActiveWorkflows s) s"

text \<open>A job fires only while it runs, and does something only on the leader.\<close>

definition job_fires :: "ActivationEnv \<Rightarrow> Workflow \<Rightarrow> bool \<Rightarrow> nat \<Rightarrow> ActiveState \<Rightarrow> ActiveState" where
  "job_fires env w isLeader k s =
     (if k < length (aw_jobs s) \<and> cj_running (aw_jobs s ! k) \<and> isLeader
      then case cj_onTick (aw_jobs s ! k) of
        PollsNode node \<Rightarrow> snd (executeTrigger env w node False s)
      | OtherTick \<Rightarrow> aw_emit (Ticked k) s
      else s)"

section \<open>Activations to try again\<close>

definition WORKFLOW_REACTIVATE_INITIAL_TIMEOUT :: nat where
  "WORKFLOW_REACTIVATE_INITIAL_TIMEOUT = 1000"

definition WORKFLOW_REACTIVATE_MAX_TIMEOUT :: nat where
  "WORKFLOW_REACTIVATE_MAX_TIMEOUT = 24 * 60 * 60 * 1000"

definition addQueuedWorkflowActivation :: "string \<Rightarrow> ActiveState \<Rightarrow> ActiveState" where
  "addQueuedWorkflowActivation workflowId s =
     s\<lparr>aw_queuedActivations := js_put workflowId WORKFLOW_REACTIVATE_INITIAL_TIMEOUT (js_del workflowId (aw_queuedActivations s))\<rparr>"

definition removeQueuedWorkflowActivation :: "string \<Rightarrow> ActiveState \<Rightarrow> ActiveState" where
  "removeQueuedWorkflowActivation workflowId s = s\<lparr>aw_queuedActivations := js_del workflowId (aw_queuedActivations s)\<rparr>"

definition removeAllQueuedWorkflowActivations :: "ActiveState \<Rightarrow> ActiveState" where
  "removeAllQueuedWorkflowActivations s = fold removeQueuedWorkflowActivation (js_keys (aw_queuedActivations s)) s"

definition next_timeout :: "nat \<Rightarrow> nat" where
  "next_timeout lastTimeout =
     (if lastTimeout < WORKFLOW_REACTIVATE_MAX_TIMEOUT then min (lastTimeout * 2) WORKFLOW_REACTIVATE_MAX_TIMEOUT else lastTimeout)"

text \<open>The \<open>catch\<close> block of \<open>retryFunction\<close>: without an entry reading its timeout throws.\<close>

definition retry_failed :: "string \<Rightarrow> ActiveState \<Rightarrow> ActiveState result" where
  "retry_failed workflowId s = (case map_of (aw_queuedActivations s) workflowId of
     None \<Rightarrow> Inl TypeError
   | Some lastTimeout \<Rightarrow> Inr (s\<lparr>aw_queuedActivations := js_put workflowId (next_timeout lastTimeout) (aw_queuedActivations s)\<rparr>))"


section \<open>Cron jobs and the map of the manager\<close>

definition cron_entries :: "ActiveState \<Rightarrow> string \<Rightarrow> CronEntry list" where
  "cron_entries s wid = or_else (map_of (aw_cronMap s) wid) []"

definition cron_ids :: "ActiveState \<Rightarrow> string \<Rightarrow> nat list" where
  "cron_ids s wid = map ce_job (cron_entries s wid)"

definition crons_ok :: "ActiveState \<Rightarrow> bool" where
  "crons_ok s \<longleftrightarrow>
     (\<forall>wid. map_of (aw_cronMap s) wid \<noteq> Some []) \<and>
     (\<forall>wid. \<forall>k \<in> set (cron_ids s wid). k < length (aw_jobs s) \<and> cj_workflowId (aw_jobs s ! k) = wid) \<and>
     (\<forall>k < length (aw_jobs s). cj_running (aw_jobs s ! k) = (k \<in> set (cron_ids s (cj_workflowId (aw_jobs s ! k)))))"

text \<open>Operations that leave jobs and map alone, that add jobs of one workflow, and that stop the jobs of one.\<close>

definition same_crons :: "ActiveState \<Rightarrow> ActiveState \<Rightarrow> bool" where
  "same_crons s s' \<longleftrightarrow> aw_jobs s' = aw_jobs s \<and> aw_cronMap s' = aw_cronMap s"

definition adds_crons :: "string \<Rightarrow> ActiveState \<Rightarrow> ActiveState \<Rightarrow> bool" where
  "adds_crons wid s s' \<longleftrightarrow>
     (\<exists>new. aw_jobs s' = aw_jobs s @ new \<and> (\<forall>j \<in> set new. cj_running j \<and> cj_workflowId j = wid)) \<and>
     cron_ids s' wid = cron_ids s wid @ [length (aw_jobs s)..<length (aw_jobs s')] \<and>
     js_del wid (aw_cronMap s') = js_del wid (aw_cronMap s) \<and>
     ((\<forall>v. map_of (aw_cronMap s) v \<noteq> Some []) \<longrightarrow> (\<forall>v. map_of (aw_cronMap s') v \<noteq> Some []))"

definition stops_crons :: "string \<Rightarrow> ActiveState \<Rightarrow> ActiveState \<Rightarrow> bool" where
  "stops_crons wid s s' \<longleftrightarrow> aw_cronMap s' = js_del wid (aw_cronMap s) \<and> length (aw_jobs s') = length (aw_jobs s) \<and>
     (\<forall>k < length (aw_jobs s). aw_jobs s' ! k =
        (if k \<in> set (cron_ids s wid) then (aw_jobs s ! k)\<lparr>cj_running := False\<rparr> else aw_jobs s ! k))"

lemma js_del_put [simp]: "js_del k (js_put k v m) = js_del k m"
  by (induction m) (auto simp: js_del_def)

lemma js_del_absent: "map_of m k = None \<Longrightarrow> js_del k m = m"
  by (induction m) (auto simp: js_del_def split: if_splits)

lemma cron_ids_cong: "js_del wid (aw_cronMap s') = js_del wid (aw_cronMap s) \<Longrightarrow> v \<noteq> wid \<Longrightarrow> cron_ids s' v = cron_ids s v"
  unfolding cron_ids_def cron_entries_def by (metis fun_upd_apply js_get_del)

lemma same_crons_adds: "same_crons s s' \<Longrightarrow> adds_crons wid s s'"
  by (simp add: same_crons_def adds_crons_def cron_ids_def cron_entries_def)

lemma adds_crons_refl [simp]: "adds_crons wid s s"
  by (simp add: same_crons_adds same_crons_def)

lemma adds_crons_trans:
  assumes "adds_crons wid a b" "adds_crons wid b c"
  shows "adds_crons wid a c"
proof -
  have "length (aw_jobs a) \<le> length (aw_jobs b)" "length (aw_jobs b) \<le> length (aw_jobs c)"
    using assms by (auto simp: adds_crons_def)
  then have "[length (aw_jobs a)..<length (aw_jobs b)] @ [length (aw_jobs b)..<length (aw_jobs c)] = [length (aw_jobs a)..<length (aw_jobs c)]"
    by (metis le_Suc_ex upt_add_eq_append)
  then show ?thesis using assms unfolding adds_crons_def by (auto; metis append.assoc)
qed

lemma same_crons_ok: "same_crons s s' \<Longrightarrow> crons_ok s' = crons_ok s"
  by (simp add: same_crons_def crons_ok_def cron_ids_def cron_entries_def)

lemma adds_crons_ok:
  assumes ok: "crons_ok s" and adds: "adds_crons wid s s'"
  shows "crons_ok s'"
proof -
  from adds obtain new where new: "aw_jobs s' = aw_jobs s @ new" "\<forall>j \<in> set new. cj_running j \<and> cj_workflowId j = wid"
    and ids: "cron_ids s' wid = cron_ids s wid @ [length (aw_jobs s)..<length (aw_jobs s')]"
    and other: "\<And>v. v \<noteq> wid \<Longrightarrow> cron_ids s' v = cron_ids s v" and empty: "\<forall>v. map_of (aw_cronMap s') v \<noteq> Some []"
    using ok unfolding adds_crons_def crons_ok_def using cron_ids_cong by metis
  have old: "\<And>v k. k \<in> set (cron_ids s v) \<Longrightarrow> k < length (aw_jobs s) \<and> cj_workflowId (aw_jobs s ! k) = v"
    and running: "\<And>k. k < length (aw_jobs s) \<Longrightarrow> cj_running (aw_jobs s ! k) = (k \<in> set (cron_ids s (cj_workflowId (aw_jobs s ! k))))"
    using ok by (auto simp: crons_ok_def)
  have added: "cj_running (aw_jobs s' ! k) \<and> cj_workflowId (aw_jobs s' ! k) = wid"
    if "length (aw_jobs s) \<le> k" "k < length (aw_jobs s')" for k
    using that new by (auto simp: nth_append)
  have kept: "aw_jobs s' ! k = aw_jobs s ! k" if "k < length (aw_jobs s)" for k using that new(1) by (simp add: nth_append)
  have "k < length (aw_jobs s') \<and> cj_workflowId (aw_jobs s' ! k) = v" if "k \<in> set (cron_ids s' v)" for k v
  proof (cases "v = wid \<and> length (aw_jobs s) \<le> k")
    case True
    then have "k \<in> set [length (aw_jobs s)..<length (aw_jobs s')]" using that ids old[of k wid] by auto
    then show ?thesis using True added[of k] by auto
  next
    case False
    then have "k \<in> set (cron_ids s v)" using that ids other[of v] by (cases "v = wid") auto
    then show ?thesis using old[of k v] kept[of k] new(1) by simp
  qed
  moreover have "cj_running (aw_jobs s' ! k) = (k \<in> set (cron_ids s' (cj_workflowId (aw_jobs s' ! k))))"
    if k: "k < length (aw_jobs s')" for k
  proof (cases "k < length (aw_jobs s)")
    case True
    then show ?thesis using running[OF True] kept[OF True] ids other[of "cj_workflowId (aw_jobs s ! k)"]
      by (cases "cj_workflowId (aw_jobs s ! k) = wid") auto
  next
    case False
    then show ?thesis using added[of k] k ids by auto
  qed
  ultimately show ?thesis using empty unfolding crons_ok_def by blast
qed

lemma stops_crons_ids: "stops_crons wid s s' \<Longrightarrow> cron_ids s' v = (if v = wid then [] else cron_ids s v)"
  by (simp add: stops_crons_def cron_ids_def cron_entries_def or_else_def)

lemma stops_crons_ok:
  assumes "crons_ok s" and "stops_crons wid s s'"
  shows "crons_ok s'"
proof -
  have ids: "\<And>v. cron_ids s' v = (if v = wid then [] else cron_ids s v)" using stops_crons_ids[OF assms(2)] by blast
  have wids: "cj_workflowId (aw_jobs s' ! k) = cj_workflowId (aw_jobs s ! k)" if "k < length (aw_jobs s)" for k
    using assms(2) that by (auto simp: stops_crons_def)
  have run: "cj_running (aw_jobs s' ! k) = (cj_running (aw_jobs s ! k) \<and> k \<notin> set (cron_ids s wid))" if "k < length (aw_jobs s)" for k
    using assms(2) that by (auto simp: stops_crons_def)
  have len: "length (aw_jobs s') = length (aw_jobs s)" and map: "aw_cronMap s' = js_del wid (aw_cronMap s)"
    using assms(2) by (auto simp: stops_crons_def)
  have old: "\<And>v k. k \<in> set (cron_ids s v) \<Longrightarrow> k < length (aw_jobs s) \<and> cj_workflowId (aw_jobs s ! k) = v"
    and running: "\<And>k. k < length (aw_jobs s) \<Longrightarrow> cj_running (aw_jobs s ! k) = (k \<in> set (cron_ids s (cj_workflowId (aw_jobs s ! k))))"
    and empty: "\<And>v. map_of (aw_cronMap s) v \<noteq> Some []"
    using assms(1) by (auto simp: crons_ok_def)
  show ?thesis unfolding crons_ok_def ids len map
    using wids run old running empty by (auto split: if_splits)
qed

lemma foldr_stop:
  "length (foldr stop_job es jobs) = length jobs"
  "k < length jobs \<Longrightarrow> foldr stop_job es jobs ! k = (if k \<in> ce_job ` set es then (jobs ! k)\<lparr>cj_running := False\<rparr> else jobs ! k)"
proof (induction es)
  case (Cons e es)
  { case 1 show ?case using Cons by (simp add: stop_job_def) }
  { case 2 then show ?case using Cons by (cases "k = ce_job e") (auto simp: stop_job_def) }
qed simp_all

lemma deregisterCrons_stops:
  assumes "crons_ok s"
  shows "stops_crons wid s (deregisterCrons wid s)"
proof (cases "map_of (aw_cronMap s) wid")
  case None
  then show ?thesis
    by (simp add: stops_crons_def deregisterCrons_def cron_ids_def cron_entries_def js_del_absent or_else_def)
next
  case (Some es)
  moreover from this have "es \<noteq> []" using assms by (auto simp: crons_ok_def)
  ultimately show ?thesis
    by (simp add: stops_crons_def deregisterCrons_def cron_ids_def cron_entries_def foldr_stop or_else_def)
qed

lemma registerCron_adds: "adds_crons wid s (snd (registerCron env wid c t s))"
proof (cases "ae_cronError env (cr_expression c)")
  case None
  then show ?thesis
    by (cases "map_of (aw_cronMap s) wid")
      (auto simp: registerCron_def adds_crons_def cron_ids_def cron_entries_def or_else_def Let_def)
qed (simp add: registerCron_def)


section \<open>Steps\<close>

text \<open>The operations in any order; an activation that fails leaves the state it has reached.\<close>

datatype ActiveOp =
    RegisterCron string Cron OnTick
  | DeregisterCrons string
  | DeregisterAllCrons
  | AddWorkflow string Workflow WorkflowExecuteMode
  | RemoveWorkflow string
  | RemoveAll
  | JobFires Workflow bool nat
  | QueueActivation string
  | UnqueueActivation string
  | RetryFailed string

fun active_step :: "ActivationEnv \<Rightarrow> ActiveOp \<Rightarrow> ActiveState \<Rightarrow> ActiveState" where
  "active_step env (RegisterCron wid c t) s = snd (registerCron env wid c t s)"
| "active_step env (DeregisterCrons wid) s = deregisterCrons wid s"
| "active_step env DeregisterAllCrons s = deregisterAllCrons s"
| "active_step env (AddWorkflow wid w mode) s = snd (add_workflow env wid w mode s)"
| "active_step env (RemoveWorkflow wid) s = snd (remove_workflow env wid s)"
| "active_step env RemoveAll s = snd (removeAllTriggerAndPollerBasedWorkflows env s)"
| "active_step env (JobFires w isLeader k) s = job_fires env w isLeader k s"
| "active_step env (QueueActivation wid) s = addQueuedWorkflowActivation wid s"
| "active_step env (UnqueueActivation wid) s = removeQueuedWorkflowActivation wid s"
| "active_step env (RetryFailed wid) s = (case retry_failed wid s of Inl e \<Rightarrow> s | Inr s' \<Rightarrow> s')"

definition no_workflows :: ActiveState where
  "no_workflows = \<lparr>aw_activeWorkflows = [], aw_cronMap = [], aw_jobs = [], aw_logging = True, aw_queuedActivations = [],
     aw_triggers = 0, aw_polls = 0, aw_log = []\<rparr>"

inductive active_reachable :: "ActiveState \<Rightarrow> bool" where
  init: "active_reachable no_workflows"
| step: "active_reachable s \<Longrightarrow> active_reachable (active_step env op s)"

lemma same_crons_refl [simp]: "same_crons s s"
  by (simp add: same_crons_def)

lemma same_crons_trans: "same_crons a b \<Longrightarrow> same_crons b c \<Longrightarrow> same_crons a c"
  by (simp add: same_crons_def)

lemma aw_emit_simps [simp]:
  "aw_jobs (aw_emit e s) = aw_jobs s" "aw_cronMap (aw_emit e s) = aw_cronMap s" "aw_activeWorkflows (aw_emit e s) = aw_activeWorkflows s"
  "aw_log (aw_emit e s) = aw_log s @ [e]" "aw_triggers (aw_emit e s) = aw_triggers s" "aw_queuedActivations (aw_emit e s) = aw_queuedActivations s"
  by (simp_all add: aw_emit_def)

text \<open>What does not close triggers: only data and errors are emitted.\<close>

definition closings :: "ActiveState \<Rightarrow> ActivationEffect list" where
  "closings s = filter (\<lambda>e. \<exists>k. e = TriggerClosed k) (aw_log s)"

lemma closings_emit [simp]: "closings (aw_emit e s) = closings s @ (if \<exists>k. e = TriggerClosed k then [e] else [])"
  by (simp add: closings_def)

definition polls_only :: "ActiveState \<Rightarrow> ActiveState \<Rightarrow> bool" where
  "polls_only s s' \<longleftrightarrow> same_crons s s' \<and> aw_activeWorkflows s' = aw_activeWorkflows s \<and> aw_triggers s' = aw_triggers s \<and>
     closings s' = closings s \<and> aw_queuedActivations s' = aw_queuedActivations s"

lemma executeTrigger_polls: "polls_only s (snd (executeTrigger env w node b s))"
  by (auto simp: executeTrigger_def runPoll_def polls_only_def same_crons_def closings_def split: option.split sum.split)

lemma runTrigger_same:
  "same_crons s (snd (runTrigger env w mode n s)) \<and> aw_activeWorkflows (snd (runTrigger env w mode n s)) = aw_activeWorkflows s \<and>
   closings (snd (runTrigger env w mode n s)) = closings s \<and> aw_queuedActivations (snd (runTrigger env w mode n s)) = aw_queuedActivations s"
  by (auto simp: runTrigger_def same_crons_def closings_def Let_def split: option.split sum.split)

lemma run_triggers_same:
  "same_crons s (snd (run_triggers env w mode ns rs s)) \<and> aw_activeWorkflows (snd (run_triggers env w mode ns rs s)) = aw_activeWorkflows s \<and>
   closings (snd (run_triggers env w mode ns rs s)) = closings s \<and> aw_queuedActivations (snd (run_triggers env w mode ns rs s)) = aw_queuedActivations s"
proof (induction ns arbitrary: rs s)
  case (Cons n ns)
  then show ?case using runTrigger_same[of s env w mode n]
    by (auto simp: same_crons_def split: prod.split sum.split option.split)
qed simp

lemma registerCron_fields:
  "aw_activeWorkflows (snd (registerCron env wid c t s)) = aw_activeWorkflows s \<and> aw_triggers (snd (registerCron env wid c t s)) = aw_triggers s \<and>
   closings (snd (registerCron env wid c t s)) = closings s \<and> aw_queuedActivations (snd (registerCron env wid c t s)) = aw_queuedActivations s"
  by (auto simp: registerCron_def closings_def Let_def split: option.split)

lemma register_expressions_adds:
  "adds_crons wid s (snd (register_expressions env wid node es s)) \<and>
   aw_activeWorkflows (snd (register_expressions env wid node es s)) = aw_activeWorkflows s \<and>
   aw_triggers (snd (register_expressions env wid node es s)) = aw_triggers s \<and>
   closings (snd (register_expressions env wid node es s)) = closings s \<and>
   aw_queuedActivations (snd (register_expressions env wid node es s)) = aw_queuedActivations s"
proof (induction es arbitrary: s)
  case (Cons e es)
  let ?r = "registerCron env wid \<lparr>cr_expression = e, cr_recurrence = None\<rparr> (PollsNode node) s"
  show ?case
    using Cons[of "snd ?r"] registerCron_adds[of wid s env "\<lparr>cr_expression = e, cr_recurrence = None\<rparr>" "PollsNode node"]
      registerCron_fields[of env wid "\<lparr>cr_expression = e, cr_recurrence = None\<rparr>" "PollsNode node" s]
    by (cases ?r) (auto split: sum.split intro: adds_crons_trans)
qed simp

lemma activatePolling_adds:
  "adds_crons (w_id w) s (snd (activatePolling env w node s)) \<and>
   aw_activeWorkflows (snd (activatePolling env w node s)) = aw_activeWorkflows s \<and>
   aw_triggers (snd (activatePolling env w node s)) = aw_triggers s \<and>
   closings (snd (activatePolling env w node s)) = closings s \<and>
   aw_queuedActivations (snd (activatePolling env w node s)) = aw_queuedActivations s"
proof -
  obtain r s1 where r: "executeTrigger env w node True s = (r, s1)" by (cases "executeTrigger env w node True s")
  have "polls_only s s1" using executeTrigger_polls[of s env w node True] r by simp
  then have "adds_crons (w_id w) s s1" "aw_activeWorkflows s1 = aw_activeWorkflows s" "aw_triggers s1 = aw_triggers s"
      "closings s1 = closings s" "aw_queuedActivations s1 = aw_queuedActivations s"
    by (auto simp: polls_only_def intro: same_crons_adds)
  then show ?thesis
    using register_expressions_adds[of "w_id w" s1 env node "poll_expressions env node (aw_polls s)"]
    by (cases r) (auto simp: activatePolling_def r Let_def intro: adds_crons_trans)
qed

lemma activate_polls_adds:
  "adds_crons (w_id w) s (snd (activate_polls env w wid b ns s)) \<and>
   aw_triggers (snd (activate_polls env w wid b ns s)) = aw_triggers s \<and>
   closings (snd (activate_polls env w wid b ns s)) = closings s \<and>
   aw_queuedActivations (snd (activate_polls env w wid b ns s)) = aw_queuedActivations s \<and>
   (isl (fst (activate_polls env w wid b ns s)) \<or> aw_activeWorkflows (snd (activate_polls env w wid b ns s)) = aw_activeWorkflows s)"
proof (induction ns arbitrary: s)
  case (Cons n ns)
  obtain r s1 where r: "activatePolling env w n s = (r, s1)" by (cases "activatePolling env w n s")
  have one: "adds_crons (w_id w) s s1" "aw_activeWorkflows s1 = aw_activeWorkflows s" "aw_triggers s1 = aw_triggers s"
      "closings s1 = closings s" "aw_queuedActivations s1 = aw_queuedActivations s"
    using activatePolling_adds[of w s env n] r by auto
  have deleted: "adds_crons (w_id w) s (s1\<lparr>aw_activeWorkflows := m\<rparr>) \<and> closings (s1\<lparr>aw_activeWorkflows := m\<rparr>) = closings s1" for m
    using one(1) by (simp add: adds_crons_def cron_ids_def cron_entries_def closings_def)
  show ?case using Cons[of s1] one deleted r
    by (cases r) (auto intro: adds_crons_trans)
qed simp

lemma add_workflow_adds: "adds_crons (w_id w) s (snd (add_workflow env wid w mode s))"
proof -
  obtain r s1 where r: "run_triggers env w mode (getTriggerNodes w) [] s = (r, s1)" by (cases "run_triggers env w mode (getTriggerNodes w) [] s")
  have "same_crons s s1" using run_triggers_same[of s env w mode "getTriggerNodes w" "[]"] r by simp
  then have "adds_crons (w_id w) s (s1\<lparr>aw_activeWorkflows := m\<rparr>)" "adds_crons (w_id w) s s1" for m
    by (auto intro!: same_crons_adds simp: same_crons_def)
  then show ?thesis using activate_polls_adds[of w] adds_crons_trans
    by (cases r) (auto simp: add_workflow_def r, blast)
qed

lemma closeTrigger_fields:
  "same_crons s (snd (closeTrigger env r wid s)) \<and> aw_activeWorkflows (snd (closeTrigger env r wid s)) = aw_activeWorkflows s \<and>
   aw_queuedActivations (snd (closeTrigger env r wid s)) = aw_queuedActivations s \<and>
   closings (snd (closeTrigger env r wid s)) = closings s @ (if tp_closable r then [TriggerClosed (tp_id r)] else [])"
  by (auto simp: closeTrigger_def same_crons_def Let_def split: CloseOutcome.split)

definition closing_calls :: "ITriggerResponse list \<Rightarrow> ActivationEffect list" where
  "closing_calls rs = map (\<lambda>r. TriggerClosed (tp_id r)) (filter tp_closable rs)"

lemma close_triggers_fields:
  "same_crons s (snd (close_triggers env wid rs s)) \<and> aw_activeWorkflows (snd (close_triggers env wid rs s)) = aw_activeWorkflows s \<and>
   aw_queuedActivations (snd (close_triggers env wid rs s)) = aw_queuedActivations s \<and>
   (isl (fst (close_triggers env wid rs s)) \<or> closings (snd (close_triggers env wid rs s)) = closings s @ closing_calls rs)"
proof (induction rs arbitrary: s)
  case (Cons r rs)
  obtain x s1 where x: "closeTrigger env r wid s = (x, s1)" by (cases "closeTrigger env r wid s")
  then show ?case using closeTrigger_fields[of s env r wid] Cons[of s1]
    by (cases x) (auto simp: closing_calls_def intro: same_crons_trans)
qed (simp add: closing_calls_def)

lemma deregisterCrons_fields:
  "aw_activeWorkflows (deregisterCrons wid s) = aw_activeWorkflows s" "closings (deregisterCrons wid s) = closings s"
  "aw_queuedActivations (deregisterCrons wid s) = aw_queuedActivations s"
  by (auto simp: deregisterCrons_def closings_def split: option.split)

text \<open>\<open>remove\<close> stops the jobs first: they are stopped whether closing the triggers succeeds or not.\<close>

lemma remove_workflow_stops:
  assumes "crons_ok s" and "isActive wid s"
  shows "stops_crons wid s (snd (remove_workflow env wid s))"
proof -
  obtain rs where rs: "map_of (aw_activeWorkflows s) wid = Some rs" using assms(2) by (auto simp: isActive_def)
  obtain x s1 where x: "close_triggers env wid rs (deregisterCrons wid s) = (x, s1)" by (cases "close_triggers env wid rs (deregisterCrons wid s)")
  have "same_crons (deregisterCrons wid s) s1" using close_triggers_fields[of "deregisterCrons wid s" env wid rs] x by simp
  then have "stops_crons wid s s1" using deregisterCrons_stops[OF assms(1), of wid] by (simp add: same_crons_def stops_crons_def)
  then show ?thesis by (cases x) (simp_all add: remove_workflow_def rs x, simp add: stops_crons_def)
qed

lemma remove_workflow_ok: "crons_ok s \<Longrightarrow> crons_ok (snd (remove_workflow env wid s))"
proof (cases "isActive wid s")
  case True
  assume "crons_ok s"
  then show ?thesis using remove_workflow_stops True stops_crons_ok by blast
qed (auto simp: remove_workflow_def isActive_def split: option.split)

lemma remove_workflow_queue: "aw_queuedActivations (snd (remove_workflow env wid s)) = aw_queuedActivations s"
  using close_triggers_fields[of "deregisterCrons wid s" env wid]
  by (auto simp: remove_workflow_def deregisterCrons_fields split: option.split prod.split sum.split) (metis snd_conv)+

lemma remove_each_ok:
  "crons_ok s \<Longrightarrow> crons_ok (snd (remove_each env ids s)) \<and> aw_queuedActivations (snd (remove_each env ids s)) = aw_queuedActivations s"
proof (induction ids arbitrary: s)
  case (Cons wid ids)
  obtain x s1 where x: "remove_workflow env wid s = (x, s1)" by (cases "remove_workflow env wid s")
  then have "crons_ok s1" "aw_queuedActivations s1 = aw_queuedActivations s"
    using remove_workflow_ok[OF Cons.prems, of env wid] remove_workflow_queue[of env wid s] by auto
  then show ?case using Cons.IH[of s1] x by (cases x) auto
qed simp

lemma fold_deregister_ok: "crons_ok s \<Longrightarrow> crons_ok (fold deregisterCrons ids s)"
  by (induction ids arbitrary: s) (auto intro: stops_crons_ok deregisterCrons_stops)

lemma deregisterAllCrons_ok: "crons_ok s \<Longrightarrow> crons_ok (deregisterAllCrons s)"
  using fold_deregister_ok[of s "js_keys (aw_cronMap s)"]
  by (simp add: deregisterAllCrons_def crons_ok_def cron_ids_def cron_entries_def)

lemma active_step_ok:
  assumes "crons_ok s"
  shows "crons_ok (active_step env op s)"
proof (cases op)
  case (JobFires w isLeader k)
  have "same_crons s (job_fires env w isLeader k s)"
    using executeTrigger_polls by (auto simp: job_fires_def polls_only_def same_crons_def split: OnTick.split)
  then show ?thesis using assms JobFires by (simp add: same_crons_ok)
next
  case (RetryFailed wid)
  have "same_crons s (active_step env op s)"
    using RetryFailed by (auto simp: retry_failed_def same_crons_def split: option.split)
  then show ?thesis using assms by (simp add: same_crons_ok)
next
  case (RegisterCron wid c t)
  then show ?thesis using adds_crons_ok[OF assms registerCron_adds] by simp
next
  case (AddWorkflow wid w mode)
  then show ?thesis using adds_crons_ok[OF assms add_workflow_adds] by simp
next
  case (DeregisterCrons wid)
  then show ?thesis using stops_crons_ok[OF assms deregisterCrons_stops[OF assms]] by simp
next
  case (QueueActivation wid)
  have "same_crons s (active_step env op s)" using QueueActivation by (simp add: addQueuedWorkflowActivation_def same_crons_def)
  then show ?thesis using assms by (simp add: same_crons_ok)
next
  case (UnqueueActivation wid)
  have "same_crons s (active_step env op s)" using UnqueueActivation by (simp add: removeQueuedWorkflowActivation_def same_crons_def)
  then show ?thesis using assms by (simp add: same_crons_ok)
qed (use assms remove_workflow_ok deregisterAllCrons_ok remove_each_ok in
     \<open>simp_all add: removeAllTriggerAndPollerBasedWorkflows_def\<close>)

lemma no_workflows_ok: "crons_ok no_workflows"
  by (simp add: no_workflows_def crons_ok_def cron_ids_def cron_entries_def or_else_def)

lemma active_reachable_ok: "active_reachable s \<Longrightarrow> crons_ok s"
  by (induction rule: active_reachable.induct) (simp_all only: active_step_ok no_workflows_ok)

section \<open>Properties\<close>

text \<open>C16: The map of the manager has every running cron job under its workflow, and no other job; so removing an active
  workflow, even if a trigger cannot be closed, stops all of its cron jobs and no job of another workflow.\<close>

theorem cron_jobs_registered:
  assumes "active_reachable s"
  shows "(\<forall>k < length (aw_jobs s). cj_running (aw_jobs s ! k) = (k \<in> set (cron_ids s (cj_workflowId (aw_jobs s ! k))))) \<and>
    (isActive wid s \<longrightarrow> length (aw_jobs (snd (remove_workflow env wid s))) = length (aw_jobs s) \<and>
      (\<forall>k < length (aw_jobs s). cj_running (aw_jobs (snd (remove_workflow env wid s)) ! k) =
        (cj_running (aw_jobs s ! k) \<and> cj_workflowId (aw_jobs s ! k) \<noteq> wid)))"
proof -
  have ok: "crons_ok s" using assms by (rule active_reachable_ok)
  then have running: "\<And>k. k < length (aw_jobs s) \<Longrightarrow> cj_running (aw_jobs s ! k) = (k \<in> set (cron_ids s (cj_workflowId (aw_jobs s ! k))))"
    and own: "\<And>v k. k \<in> set (cron_ids s v) \<Longrightarrow> cj_workflowId (aw_jobs s ! k) = v"
    by (auto simp: crons_ok_def)
  show ?thesis
  proof (intro conjI allI impI)
    assume "isActive wid s"
    note stops = remove_workflow_stops[OF ok this, of env]
    then show "length (aw_jobs (snd (remove_workflow env wid s))) = length (aw_jobs s)" by (simp add: stops_crons_def)
    fix k assume k: "k < length (aw_jobs s)"
    show "cj_running (aw_jobs (snd (remove_workflow env wid s)) ! k) = (cj_running (aw_jobs s ! k) \<and> cj_workflowId (aw_jobs s ! k) \<noteq> wid)"
      using stops k running[OF k] own[of k wid] by (auto simp: stops_crons_def)
  qed (use running in blast)
qed

text \<open>The responses of the triggers that started.\<close>

definition started_triggers :: "ActivationEnv \<Rightarrow> nat \<Rightarrow> INode list \<Rightarrow> ITriggerResponse list" where
  "started_triggers env k ns = List.map_filter (\<lambda>(i, n). case ae_trigger env n i of
     Inr (Some closable) \<Rightarrow> Some \<lparr>tp_id = i, tp_closable = closable\<rparr> | _ \<Rightarrow> None) (enumerate k ns)"

lemma run_triggers_started:
  "run_triggers env w mode ns rs s = (Inr out, s') \<Longrightarrow>
    out = rs @ started_triggers env (aw_triggers s) ns \<and> aw_triggers s' = aw_triggers s + length ns"
proof (induction ns arbitrary: rs s)
  case (Cons n ns)
  obtain x s1 where x: "runTrigger env w mode n s = (x, s1)" by (cases "runTrigger env w mode n s")
  have "\<exists>y. x = Inr y \<and> aw_triggers s1 = Suc (aw_triggers s) \<and>
      y = (case ae_trigger env n (aw_triggers s) of Inr (Some c) \<Rightarrow> Some \<lparr>tp_id = aw_triggers s, tp_closable = c\<rparr> | _ \<Rightarrow> None)"
    using x Cons.prems
    by (auto simp: runTrigger_def Let_def split: option.splits sum.splits if_splits)
  then obtain y where y: "x = Inr y" "aw_triggers s1 = Suc (aw_triggers s)"
      "y = (case ae_trigger env n (aw_triggers s) of Inr (Some c) \<Rightarrow> Some \<lparr>tp_id = aw_triggers s, tp_closable = c\<rparr> | _ \<Rightarrow> None)"
    by blast
  show ?case
  proof (cases y)
    case None
    then show ?thesis using Cons.IH[of rs s1] Cons.prems x y
      by (auto simp: started_triggers_def List.map_filter_simps split: sum.splits option.splits)
  next
    case (Some r)
    then show ?thesis using Cons.IH[of "rs @ [r]" s1] Cons.prems x y
      by (auto simp: started_triggers_def List.map_filter_simps split: sum.splits option.splits)
  qed
qed (simp add: started_triggers_def List.map_filter_simps)

text \<open>C17: Activating and deactivating a workflow that is not active and has no cron jobs gives back the active
  workflows and the map of cron jobs; the jobs that were registered are stopped, the others are as they were,
  and exactly the triggers that started with a close function have it called, once and in order.\<close>

theorem activation_roundtrip:
  assumes "active_reachable s" and "\<not> isActive (w_id w) s" and "cron_ids s (w_id w) = []"
    and add: "add_workflow env (w_id w) w mode s = (Inr (), s1)" and remove: "remove_workflow env (w_id w) s1 = (Inr b, s2)"
  shows "b \<and> aw_activeWorkflows s2 = aw_activeWorkflows s \<and> aw_cronMap s2 = aw_cronMap s \<and>
    take (length (aw_jobs s)) (aw_jobs s2) = aw_jobs s \<and>
    (\<forall>k. length (aw_jobs s) \<le> k \<and> k < length (aw_jobs s2) \<longrightarrow> \<not> cj_running (aw_jobs s2 ! k)) \<and>
    closings s2 = closings s @ closing_calls (started_triggers env (aw_triggers s) (getTriggerNodes w))"
proof -
  let ?wid = "w_id w"
  have ok: "crons_ok s" using assms(1) by (rule active_reachable_ok)
  have none: "map_of (aw_cronMap s) ?wid = None"
    using ok assms(3) by (cases "map_of (aw_cronMap s) ?wid") (auto simp: crons_ok_def cron_ids_def cron_entries_def or_else_def)
  obtain rs s0 where rs: "run_triggers env w mode (getTriggerNodes w) [] s = (Inr rs, s0)"
    using add by (auto simp: add_workflow_def split: prod.splits sum.splits)
  let ?s0 = "s0\<lparr>aw_activeWorkflows := js_put ?wid rs (aw_activeWorkflows s0)\<rparr>"
  have polls: "activate_polls env w ?wid (rs = []) (getPollNodes w) ?s0 = (Inr (), s1)"
    using add rs by (simp add: add_workflow_def)
  note started = run_triggers_started[OF rs]
  have s0: "same_crons s s0" "aw_activeWorkflows s0 = aw_activeWorkflows s" "closings s0 = closings s"
    using run_triggers_same[of s env w mode "getTriggerNodes w" "[]"] rs by auto
  have s1: "aw_activeWorkflows s1 = js_put ?wid rs (aw_activeWorkflows s)" "closings s1 = closings s"
    using activate_polls_adds[of w ?s0 env ?wid "rs = []" "getPollNodes w"] polls s0 by (auto simp: closings_def)
  have adds: "adds_crons ?wid s s1" using add_workflow_adds[of w s env ?wid mode] add by simp
  have ok1: "crons_ok s1" using adds_crons_ok[OF ok adds] .
  have active: "isActive ?wid s1" by (simp add: isActive_def s1)
  have stops: "stops_crons ?wid s1 s2" using remove_workflow_stops[OF ok1 active, of env] remove by simp
  have "aw_cronMap s2 = aw_cronMap s" using stops adds none by (simp add: stops_crons_def adds_crons_def js_del_absent)
  moreover obtain new where new: "aw_jobs s1 = aw_jobs s @ new" using adds by (auto simp: adds_crons_def)
  have ids: "set (cron_ids s1 ?wid) = {length (aw_jobs s)..<length (aw_jobs s1)}"
    using adds assms(3) by (auto simp: adds_crons_def)
  have "take (length (aw_jobs s)) (aw_jobs s2) = aw_jobs s"
    by (rule nth_equalityI) (use stops new ids in \<open>auto simp: stops_crons_def nth_append\<close>)
  moreover have "\<forall>k. length (aw_jobs s) \<le> k \<and> k < length (aw_jobs s2) \<longrightarrow> \<not> cj_running (aw_jobs s2 ! k)"
    using stops ids by (auto simp: stops_crons_def)
  moreover obtain x s3 where x: "close_triggers env ?wid rs (deregisterCrons ?wid s1) = (x, s3)"
    by (cases "close_triggers env ?wid rs (deregisterCrons ?wid s1)")
  moreover have "x = Inr ()" "b" "s2 = s3\<lparr>aw_activeWorkflows := js_del ?wid (aw_activeWorkflows s3)\<rparr>"
    using remove x by (auto simp: remove_workflow_def s1 split: sum.splits)
  moreover have "aw_activeWorkflows s3 = js_put ?wid rs (aw_activeWorkflows s)" "closings s3 = closings s @ closing_calls rs"
    using close_triggers_fields[of "deregisterCrons ?wid s1" env ?wid rs] x \<open>x = Inr ()\<close> by (auto simp: deregisterCrons_fields s1)
  moreover have "js_del ?wid (aw_activeWorkflows s) = aw_activeWorkflows s"
    using assms(2) by (intro js_del_absent) (auto simp: isActive_def)
  ultimately show ?thesis using started by (simp add: closings_def)
qed

text \<open>
  If an activation without triggers fails at a poll, the workflow is not active, but the cron jobs that earlier
  polls registered go on; deactivating the workflow does nothing, and every retry adds them again.
\<close>

theorem failed_activation_keeps_crons:
  assumes "getTriggerNodes w = []" and "\<not> isActive (w_id w) s" and "add_workflow env (w_id w) w mode s = (Inl e, s1)"
  shows "\<not> isActive (w_id w) s1 \<and> remove_workflow env (w_id w) s1 = (Inr False, s1) \<and>
    (\<forall>k. length (aw_jobs s) \<le> k \<and> k < length (aw_jobs s1) \<longrightarrow> cj_running (aw_jobs s1 ! k))"
proof -
  have failed: "map_of (aw_activeWorkflows s') wid = None"
    if "activate_polls env w wid True ns s0 = (Inl e, s')" for wid ns s0 s'
    using that
  proof (induction ns arbitrary: s0)
    case (Cons n ns)
    then show ?case by (cases "activatePolling env w n s0") (auto split: sum.splits)
  qed simp
  have inactive: "map_of (aw_activeWorkflows s1) (w_id w) = None"
    using assms(1,3) failed by (auto simp: add_workflow_def)
  moreover obtain new where "aw_jobs s1 = aw_jobs s @ new" "\<forall>j \<in> set new. cj_running j"
    using add_workflow_adds[of w s env "w_id w" mode] assms(3) by (auto simp: adds_crons_def)
  ultimately show ?thesis by (auto simp: isActive_def remove_workflow_def nth_append)
qed

text \<open>The timeout of an activation that is tried again is doubled up to a day.\<close>

definition timeouts_ok :: "ActiveState \<Rightarrow> bool" where
  "timeouts_ok s \<longleftrightarrow> (\<forall>wid t. map_of (aw_queuedActivations s) wid = Some t \<longrightarrow>
     WORKFLOW_REACTIVATE_INITIAL_TIMEOUT \<le> t \<and> t \<le> WORKFLOW_REACTIVATE_MAX_TIMEOUT)"

lemma next_timeout_bounds:
  "WORKFLOW_REACTIVATE_INITIAL_TIMEOUT \<le> t \<Longrightarrow> t \<le> WORKFLOW_REACTIVATE_MAX_TIMEOUT \<Longrightarrow>
    WORKFLOW_REACTIVATE_INITIAL_TIMEOUT \<le> next_timeout t \<and> next_timeout t \<le> WORKFLOW_REACTIVATE_MAX_TIMEOUT \<and> t \<le> next_timeout t"
  by (auto simp: next_timeout_def min_def WORKFLOW_REACTIVATE_INITIAL_TIMEOUT_def WORKFLOW_REACTIVATE_MAX_TIMEOUT_def)

lemma active_step_timeouts:
  assumes "timeouts_ok s"
  shows "timeouts_ok (active_step env op s)"
proof -
  have same: "timeouts_ok s'" if "aw_queuedActivations s' = aw_queuedActivations s" for s' using assms that by (simp add: timeouts_ok_def)
  show ?thesis
  proof (cases op)
    case (RegisterCron wid c t)
    then show ?thesis using registerCron_fields[of env wid c t s] by (simp add: same)
  next
    case (DeregisterCrons wid)
    then show ?thesis by (simp add: same deregisterCrons_fields)
  next
    case DeregisterAllCrons
    have "aw_queuedActivations (fold deregisterCrons ids s) = aw_queuedActivations s" for ids
      by (induction ids arbitrary: s) (simp_all add: deregisterCrons_fields)
    then show ?thesis using DeregisterAllCrons by (simp add: same deregisterAllCrons_def)
  next
    case (AddWorkflow wid w mode)
    obtain r s1 where r: "run_triggers env w mode (getTriggerNodes w) [] s = (r, s1)" by (cases "run_triggers env w mode (getTriggerNodes w) [] s")
    then have "aw_queuedActivations s1 = aw_queuedActivations s" using run_triggers_same[of s env w mode "getTriggerNodes w" "[]"] by simp
    then have "aw_queuedActivations (snd (add_workflow env wid w mode s)) = aw_queuedActivations s"
      using activate_polls_adds[of w "s1\<lparr>aw_activeWorkflows := js_put wid rs (aw_activeWorkflows s1)\<rparr>" env wid "rs = []" "getPollNodes w" for rs]
      by (cases r) (auto simp: add_workflow_def r)
    then show ?thesis using AddWorkflow by (simp add: same)
  next
    case (RemoveWorkflow wid)
    then show ?thesis by (simp add: same remove_workflow_queue)
  next
    case RemoveAll
    have "aw_queuedActivations (snd (remove_each env ids s)) = aw_queuedActivations s" for ids
    proof (induction ids arbitrary: s)
      case (Cons wid ids)
      then show ?case using remove_workflow_queue[of env wid s] by (auto split: prod.split sum.split)
    qed simp
    then show ?thesis using RemoveAll by (simp add: same removeAllTriggerAndPollerBasedWorkflows_def)
  next
    case (JobFires w isLeader k)
    have "aw_queuedActivations (job_fires env w isLeader k s) = aw_queuedActivations s"
      using executeTrigger_polls by (auto simp: job_fires_def polls_only_def split: OnTick.split)
    then show ?thesis using JobFires by (simp add: same)
  next
    case (RetryFailed wid)
    then show ?thesis using assms next_timeout_bounds
      by (auto simp: retry_failed_def timeouts_ok_def split: option.split)
  qed (use assms in \<open>auto simp: timeouts_ok_def addQueuedWorkflowActivation_def removeQueuedWorkflowActivation_def
      WORKFLOW_REACTIVATE_INITIAL_TIMEOUT_def WORKFLOW_REACTIVATE_MAX_TIMEOUT_def\<close>)
qed

lemma retry_timeouts_bounded: "active_reachable s \<Longrightarrow> timeouts_ok s"
  by (induction rule: active_reachable.induct) (simp_all only: active_step_timeouts, simp add: no_workflows_def timeouts_ok_def)

section \<open>Examples\<close>

definition sample_types :: INodeTypes where
  "sample_types ty v = Some \<lparr>nt_name = ty, nt_group = [''trigger''], nt_outputs = OutputList [],
     nt_trigger = (ty = ''trigger''), nt_poll = (ty = ''poll'')\<rparr>"

definition polling_workflow :: "string list \<Rightarrow> Workflow" where
  "polling_workflow tys = new_workflow (\<lambda>_ _. Some []) \<lparr>wp_id = ''w'', wp_name = None,
     wp_nodes = map (\<lambda>(i, ty). plain_node i (nat_str i) ty) (enumerate 0 tys), wp_connections = [], wp_active = True,
     wp_nodeTypes = sample_types, wp_staticData = None, wp_settings = None, wp_pinData = None\<rparr>"

text \<open>The poll of the second node fails.\<close>

definition sample_activation :: "ValidationLib \<Rightarrow> ActivationEnv" where
  "sample_activation lib = \<lparr>ae_trigger = (\<lambda>n k. Inr (Some True)), ae_poll = (\<lambda>n k. if node_name n = ''1'' then Inl ''no access'' else Inr None),
     ae_pollTimes = (\<lambda>n. [EveryHour 5]), ae_random = (\<lambda>k. (7, 8)), ae_cronError = (\<lambda>_. None), ae_close = (\<lambda>_. CloseDone), ae_lib = lib\<rparr>"

lemma second_poll_leaks:
  "(case add_workflow (sample_activation sample_vlib) ''w'' (polling_workflow [''poll'', ''poll'']) ModeTrigger no_workflows of
     (r, s) \<Rightarrow> isl r \<and> aw_activeWorkflows s = [] \<and> map cj_running (aw_jobs s) = [True] \<and>
       map cj_running (aw_jobs (snd (remove_workflow (sample_activation sample_vlib) ''w'' s))) = [True] \<and>
       map cj_running (aw_jobs (snd (add_workflow (sample_activation sample_vlib) ''w'' (polling_workflow [''poll'', ''poll'']) ModeTrigger s))) =
         [True, True])"
  by code_simp

text \<open>A failing trigger leaves the triggers before it open: nothing is left that could close them.\<close>

lemma failed_trigger_leaks:
  "(case add_workflow ((sample_activation sample_vlib)\<lparr>ae_trigger := (\<lambda>n k. if k = 1 then Inl ''refused'' else Inr (Some True))\<rparr>) ''w''
       (polling_workflow [''trigger'', ''trigger'']) ModeTrigger no_workflows of
     (r, s) \<Rightarrow> isl r \<and> aw_triggers s = 2 \<and> aw_activeWorkflows s = [] \<and>
       aw_log (snd (remove_workflow (sample_activation sample_vlib) ''w'' s)) = [])"
  by code_simp

definition sample_active :: ActiveState where
  "sample_active = snd (add_workflow (sample_activation sample_vlib) ''w'' (polling_workflow [''poll'', ''trigger'']) ModeTrigger no_workflows)"

lemma sample_workflow_id: "w_id (polling_workflow tys) = ''w''"
  by (simp add: polling_workflow_def new_workflow_def)

lemma sample_active_reachable: "active_reachable sample_active"
  unfolding sample_active_def
  using active_reachable.step[OF active_reachable.init, of "sample_activation sample_vlib"
      "AddWorkflow ''w'' (polling_workflow [''poll'', ''trigger'']) ModeTrigger"] by simp

lemma sample_active_crons: "aw_jobs sample_active \<noteq> [] \<and> cron_ids sample_active ''w'' = [0] \<and> isActive ''w'' sample_active"
  by code_simp

lemma cron_jobs_registered_witness:
  "\<not> cj_running (aw_jobs (snd (remove_workflow (sample_activation sample_vlib) ''w'' sample_active)) ! 0)"
proof -
  have "cj_workflowId (aw_jobs sample_active ! 0) = ''w''" by code_simp
  then show ?thesis
    using cron_jobs_registered[OF sample_active_reachable, of "''w''" "sample_activation sample_vlib"] sample_active_crons by auto
qed

lemma activation_roundtrip_witness:
  "\<exists>s1 s2. add_workflow (sample_activation sample_vlib) ''w'' (polling_workflow [''poll'', ''trigger'']) ModeTrigger no_workflows = (Inr (), s1) \<and>
     remove_workflow (sample_activation sample_vlib) ''w'' s1 = (Inr True, s2) \<and> aw_cronMap s2 = [] \<and> closings s2 = [TriggerClosed 0]"
proof -
  let ?env = "sample_activation sample_vlib" and ?w = "polling_workflow [''poll'', ''trigger'']"
  obtain r s1 where r: "add_workflow ?env ''w'' ?w ModeTrigger no_workflows = (r, s1)" by (cases "add_workflow ?env ''w'' ?w ModeTrigger no_workflows")
  obtain b s2 where b: "remove_workflow ?env ''w'' s1 = (b, s2)" by (cases "remove_workflow ?env ''w'' s1")
  have "\<not> isl (fst (add_workflow ?env ''w'' ?w ModeTrigger no_workflows))" by code_simp
  then have inr: "r = Inr ()" by (cases r) (auto simp: r)
  have "\<not> isl (fst (remove_workflow ?env ''w'' (snd (add_workflow ?env ''w'' ?w ModeTrigger no_workflows))))" by code_simp
  then obtain x where x: "b = Inr x" by (cases b) (auto simp: r b)
  have calls: "closing_calls (started_triggers ?env 0 (getTriggerNodes ?w)) = [TriggerClosed 0]" by code_simp
  have "x \<and> aw_activeWorkflows s2 = aw_activeWorkflows no_workflows \<and> aw_cronMap s2 = aw_cronMap no_workflows \<and>
    take (length (aw_jobs no_workflows)) (aw_jobs s2) = aw_jobs no_workflows \<and>
    (\<forall>k. length (aw_jobs no_workflows) \<le> k \<and> k < length (aw_jobs s2) \<longrightarrow> \<not> cj_running (aw_jobs s2 ! k)) \<and>
    closings s2 = closings no_workflows @ closing_calls (started_triggers ?env (aw_triggers no_workflows) (getTriggerNodes ?w))"
    by (rule activation_roundtrip[OF active_reachable.init, where mode = ModeTrigger and ?s1.0 = s1])
      (use r b inr x in \<open>simp_all add: sample_workflow_id no_workflows_def isActive_def cron_ids_def cron_entries_def or_else_def\<close>)
  then show ?thesis using r b inr x calls by (simp add: no_workflows_def closings_def)
qed

lemma failed_activation_keeps_crons_witness:
  "\<exists>s1. \<not> isActive ''w'' s1 \<and> aw_jobs s1 \<noteq> [] \<and> (\<forall>k < length (aw_jobs s1). cj_running (aw_jobs s1 ! k))"
proof -
  let ?env = "sample_activation sample_vlib" and ?w = "polling_workflow [''poll'', ''poll'']"
  obtain r s1 where r: "add_workflow ?env ''w'' ?w ModeTrigger no_workflows = (r, s1)" by (cases "add_workflow ?env ''w'' ?w ModeTrigger no_workflows")
  have "isl (fst (add_workflow ?env ''w'' ?w ModeTrigger no_workflows))" "aw_jobs (snd (add_workflow ?env ''w'' ?w ModeTrigger no_workflows)) \<noteq> []"
    "getTriggerNodes ?w = []" by code_simp+
  then obtain e where e: "r = Inl e" "aw_jobs s1 \<noteq> []" "getTriggerNodes ?w = []" by (cases r) (auto simp: r)
  from failed_activation_keeps_crons[OF e(3), of no_workflows ?env ModeTrigger e s1] r e
  show ?thesis by (auto simp: sample_workflow_id no_workflows_def isActive_def)
qed

end
