(* ===== verification/CodeTaskData.thy ===== *)
theory CodeTaskData
  imports ItemLinking
begin

text \<open>
  The data of a task of the Code node. The runner parses which built-in variables the code uses
  (\<^verbatim>\<open>packages/@n8n/task-runner/src/js-task-runner/built-ins-parser\<close>) and asks for no more than that; the requester
  builds the data of the task (\<^verbatim>\<open>packages/cli/src/task-runners/task-managers/data-request-response-builder.ts\<close>) and
  strips it (\<^verbatim>\<open>data-request-response-stripper.ts\<close>); the runner puts the items together again
  (\<^verbatim>\<open>data-request/data-request-response-reconstruct.ts\<close>).

  The parser and the walk over the syntax tree are libraries (acorn): the code is the list of
  visits that the walk makes, in its order, or \<open>None\<close> if it cannot be parsed.
\<close>

section \<open>The built-in variables of a code\<close>

record BuiltInsParserState =
  bi_neededNodeNames :: "string list"
  bi_needsAllNodes :: bool
  bi_env :: bool
  bi_input :: bool
  bi_execution :: bool
  bi_prevNode :: bool

definition new_parser_state :: BuiltInsParserState where
  "new_parser_state = \<lparr>bi_neededNodeNames = [], bi_needsAllNodes = False, bi_env = False, bi_input = False,
     bi_execution = False, bi_prevNode = False\<rparr>"

definition markNeedsAllNodes :: "BuiltInsParserState \<Rightarrow> BuiltInsParserState" where
  "markNeedsAllNodes st = st\<lparr>bi_needsAllNodes := True, bi_input := True, bi_neededNodeNames := []\<rparr>"

definition markNodeAsNeeded :: "string \<Rightarrow> BuiltInsParserState \<Rightarrow> BuiltInsParserState" where
  "markNodeAsNeeded nodeName st =
     (if bi_needsAllNodes st then st else st\<lparr>bi_neededNodeNames := set_add nodeName (bi_neededNodeNames st)\<rparr>)"

definition newNeedsAllDataState :: BuiltInsParserState where
  "newNeedsAllDataState = (markNeedsAllNodes new_parser_state)\<lparr>bi_env := True, bi_input := True, bi_execution := True, bi_prevNode := True\<rparr>"

text \<open>What the visitors look at: the first argument of a call, and the property if the parent is a member access.\<close>

datatype Argument = StringLiteral string | OtherLiteral | NoLiteral

datatype Property = PropString string | PropLiteral | PropIdentifier string | PropExpression

datatype Parent = MemberExpression bool Property | OtherParent

datatype Visit =
    CallExpression "string option" "Argument list" Parent
  | Identifier string

definition isPairedItemProperty :: "string \<Rightarrow> bool" where
  "isPairedItemProperty property \<longleftrightarrow> property \<in> {''item'', ''pairedItem'', ''itemMatching''}"

definition handlePrevNodeCall :: "Parent \<Rightarrow> BuiltInsParserState \<Rightarrow> BuiltInsParserState" where
  "handlePrevNodeCall directParent st = (case directParent of
     MemberExpression computed accessedProperty \<Rightarrow>
       if computed
       then (case accessedProperty of
           PropString s \<Rightarrow> if isPairedItemProperty s then markNeedsAllNodes st else st
         | PropLiteral \<Rightarrow> st
         | PropIdentifier _ \<Rightarrow> markNeedsAllNodes st
         | PropExpression \<Rightarrow> st)
       else (case accessedProperty of
           PropIdentifier s \<Rightarrow> if isPairedItemProperty s then markNeedsAllNodes st else st
         | _ \<Rightarrow> st)
   | OtherParent \<Rightarrow> markNeedsAllNodes st)"

definition visitDollarCallExpression :: "Argument list \<Rightarrow> Parent \<Rightarrow> BuiltInsParserState \<Rightarrow> BuiltInsParserState" where
  "visitDollarCallExpression args parent st = (case args of
     [] \<Rightarrow> st
   | StringLiteral s # _ \<Rightarrow> handlePrevNodeCall parent (markNodeAsNeeded s st)
   | OtherLiteral # _ \<Rightarrow> st
   | NoLiteral # _ \<Rightarrow> markNeedsAllNodes st)"

definition visitDollarItemsCallExpression :: "Argument list \<Rightarrow> BuiltInsParserState \<Rightarrow> BuiltInsParserState" where
  "visitDollarItemsCallExpression args st = (case args of
     [] \<Rightarrow> st\<lparr>bi_input := True\<rparr>
   | StringLiteral s # _ \<Rightarrow> markNodeAsNeeded s st
   | OtherLiteral # _ \<Rightarrow> st
   | NoLiteral # _ \<Rightarrow> markNeedsAllNodes st)"

definition visitIdentifier :: "string \<Rightarrow> BuiltInsParserState \<Rightarrow> BuiltInsParserState" where
  "visitIdentifier nm st =
     (if nm = ''$env'' then st\<lparr>bi_env := True\<rparr>
      else if nm = ''$item'' then markNeedsAllNodes st
      else if nm \<in> {''$input'', ''$json'', ''items'', ''item''} then st\<lparr>bi_input := True\<rparr>
      else if nm = ''$node'' then markNeedsAllNodes st
      else if nm = ''$execution'' then st\<lparr>bi_execution := True\<rparr>
      else if nm = ''$prevNode'' then st\<lparr>bi_prevNode := True\<rparr>
      else st)"

fun visit :: "Visit \<Rightarrow> BuiltInsParserState \<Rightarrow> BuiltInsParserState" where
  "visit (CallExpression callee args parent) st =
     (if callee = Some ''$'' then visitDollarCallExpression args parent st
      else if callee = Some ''$items'' then visitDollarItemsCallExpression args st
      else st)"
| "visit (Identifier nm) st = visitIdentifier nm st"

text \<open>The built-ins of a code; all of them if it cannot be parsed.\<close>

definition parseUsedBuiltIns :: "Visit list option \<Rightarrow> BuiltInsParserState" where
  "parseUsedBuiltIns code = (case code of
     None \<Rightarrow> newNeedsAllDataState | Some visits \<Rightarrow> fold visit visits new_parser_state)"

section \<open>Requests\<close>

record InputDataChunkDefinition =
  ch_startIndex :: nat
  ch_count :: nat

datatype DataOfNodes = AllNodes | TheseNodes "string list"

record TaskDataRequestParams =
  dp_dataOfNodes :: DataOfNodes
  dp_prevNode :: bool
  dp_include :: bool
  dp_chunk :: "InputDataChunkDefinition option"
  dp_env :: bool

definition toDataRequestParams :: "InputDataChunkDefinition option \<Rightarrow> BuiltInsParserState \<Rightarrow> TaskDataRequestParams" where
  "toDataRequestParams chunk st =
     \<lparr>dp_dataOfNodes = (if bi_needsAllNodes st then AllNodes else TheseNodes (bi_neededNodeNames st)),
      dp_prevNode = bi_prevNode st, dp_include = bi_input st, dp_chunk = chunk, dp_env = bi_env st\<rparr>"

section \<open>The data of a task and the response\<close>

record EnvProviderState =
  ep_isProcessAvailable :: bool
  ep_isEnvAccessBlocked :: bool
  ep_env :: "(string, string) js_map"

text \<open>\<open>waitingExecutionSource\<close> may be \<open>null\<close>.\<close>

record ExecutionContextData =
  xd_contextData :: "(string, json) js_map"
  xd_nodeExecutionStack :: "IExecuteData list"
  xd_metadata :: "(string, ITaskMetadata list) js_map"
  xd_waitingExecution :: IWaitingForExecution
  xd_waitingExecutionSource :: "IWaitingForExecutionSource option"

record IRunExecutionData =
  xr_startData :: "StartData option"
  xr_error :: "json option"
  xr_runData :: IRunData
  xr_pinData :: "IPinData option"
  xr_lastNodeExecuted :: "string option"
  xr_metadata :: "(string, string) js_map option"
  xr_executionData :: "ExecutionContextData option"

record TaskData =
  td_workflow :: Workflow
  td_inputData :: ITaskDataConnections
  td_node :: INode
  td_runExecutionData :: IRunExecutionData
  td_runIndex :: nat
  td_itemIndex :: nat
  td_activeNodeName :: string
  td_siblingParameters :: "(string, json) js_map"
  td_mode :: WorkflowExecuteMode
  td_envProviderState :: EnvProviderState
  td_executeData :: "IExecuteData option"
  td_defaultReturnRunIndex :: int
  td_selfData :: "(string, json) js_map"
  td_contextNodeName :: string
  td_additionalData :: "(string, json) js_map"

record DataRequestResponse =
  dr_workflow :: WorkflowParameters
  dr_inputData :: ITaskDataConnections
  dr_connectionInputSource :: "ITaskDataConnectionsSource option"
  dr_node :: INode
  dr_runExecutionData :: IRunExecutionData
  dr_runIndex :: nat
  dr_itemIndex :: nat
  dr_activeNodeName :: string
  dr_siblingParameters :: "(string, json) js_map"
  dr_mode :: WorkflowExecuteMode
  dr_envProviderState :: EnvProviderState
  dr_defaultReturnRunIndex :: int
  dr_selfData :: "(string, json) js_map"
  dr_contextNodeName :: string
  dr_additionalData :: "(string, json) js_map"

definition ADDITIONAL_DATA_KEYS :: "string list" where
  "ADDITIONAL_DATA_KEYS = [''formWaitingBaseUrl'', ''instanceBaseUrl'', ''restApiUrl'', ''variables'', ''webhookBaseUrl'',
     ''webhookTestBaseUrl'', ''webhookWaitingBaseUrl'', ''currentNodeParameters'', ''executionId'', ''executionTimeoutTimestamp'',
     ''restartExecutionId'', ''userId'']"

text \<open>A key without a value is not in the object.\<close>

definition buildAdditionalData :: "(string, json) js_map \<Rightarrow> (string, json) js_map" where
  "buildAdditionalData d = List.map_filter (\<lambda>k. map_option (Pair k) (map_of d k)) ADDITIONAL_DATA_KEYS"

text \<open>The node types are not sent.\<close>

definition buildWorkflow :: "Workflow \<Rightarrow> WorkflowParameters" where
  "buildWorkflow w = \<lparr>wp_id = w_id w, wp_name = w_name w, wp_nodes = js_values (w_nodes w), wp_connections = w_bySource w,
     wp_active = w_active w, wp_nodeTypes = (\<lambda>_ _. None), wp_staticData = Some (w_staticData w), wp_settings = Some (w_settings w),
     wp_pinData = w_pinData w\<rparr>"

definition buildRunExecutionData :: "IRunExecutionData \<Rightarrow> IRunExecutionData" where
  "buildRunExecutionData d = d\<lparr>xr_executionData := map_option (\<lambda>x. x\<lparr>xd_nodeExecutionStack := [],
     xd_waitingExecution := [], xd_waitingExecutionSource := None\<rparr>) (xr_executionData d)\<rparr>"

definition buildFromTaskData :: "TaskData \<Rightarrow> DataRequestResponse" where
  "buildFromTaskData td =
     \<lparr>dr_workflow = buildWorkflow (td_workflow td), dr_inputData = td_inputData td,
      dr_connectionInputSource = (case td_executeData td of None \<Rightarrow> None | Some x \<Rightarrow> exec_source x),
      dr_node = td_node td, dr_runExecutionData = buildRunExecutionData (td_runExecutionData td), dr_runIndex = td_runIndex td,
      dr_itemIndex = td_itemIndex td, dr_activeNodeName = td_activeNodeName td, dr_siblingParameters = td_siblingParameters td,
      dr_mode = td_mode td, dr_envProviderState = td_envProviderState td, dr_defaultReturnRunIndex = td_defaultReturnRunIndex td,
      dr_selfData = td_selfData td, dr_contextNodeName = td_contextNodeName td,
      dr_additionalData = buildAdditionalData (td_additionalData td)\<rparr>"

section \<open>Stripping\<close>

definition determinePrevNodeName :: "DataRequestResponse \<Rightarrow> string" where
  "determinePrevNodeName dr = (case dr_connectionInputSource dr of
     Some src \<Rightarrow> (case map_of src MainConn of Some (Some s # _) \<Rightarrow> previousNode s | _ \<Rightarrow> [])
   | None \<Rightarrow> [])"

definition requestedNodeNames :: "DataRequestResponse \<Rightarrow> TaskDataRequestParams \<Rightarrow> string list" where
  "requestedNodeNames dr ps = (case dp_dataOfNodes ps of
     AllNodes \<Rightarrow> []
   | TheseNodes names \<Rightarrow> (if dp_prevNode ps then set_add (determinePrevNodeName dr) (set_of_array names) else set_of_array names))"

definition filterObjectByNodeNames :: "DataRequestResponse \<Rightarrow> TaskDataRequestParams \<Rightarrow> (string, 'a) js_map \<Rightarrow> (string, 'a) js_map" where
  "filterObjectByNodeNames dr ps m =
     (if dp_dataOfNodes ps = AllNodes then m else filter (\<lambda>(nm, _). nm \<in> set (requestedNodeNames dr ps)) m)"

definition stripRunExecutionData :: "DataRequestResponse \<Rightarrow> TaskDataRequestParams \<Rightarrow> IRunExecutionData \<Rightarrow> IRunExecutionData" where
  "stripRunExecutionData dr ps d =
     (if dp_dataOfNodes ps = AllNodes then d
      else d\<lparr>xr_runData := filterObjectByNodeNames dr ps (xr_runData d),
             xr_pinData := map_option (filterObjectByNodeNames dr ps) (xr_pinData d)\<rparr>)"

definition stripEnvProviderState :: "TaskDataRequestParams \<Rightarrow> EnvProviderState \<Rightarrow> EnvProviderState" where
  "stripEnvProviderState ps st = (if dp_env ps then st else st\<lparr>ep_env := []\<rparr>)"

definition stripChunkedInputData :: "InputDataChunkDefinition \<Rightarrow> ITaskDataConnections \<Rightarrow> ITaskDataConnections" where
  "stripChunkedInputData chunk inputData = (case map_of inputData MainConn of
     Some (Some inputItems # _) \<Rightarrow>
       js_put MainConn [Some (take (ch_count chunk) (drop (ch_startIndex chunk) inputItems))] inputData
   | _ \<Rightarrow> inputData)"

definition stripInputData :: "TaskDataRequestParams \<Rightarrow> ITaskDataConnections \<Rightarrow> ITaskDataConnections" where
  "stripInputData ps inputData =
     (if \<not> dp_include ps then []
      else case dp_chunk ps of Some chunk \<Rightarrow> stripChunkedInputData chunk inputData | None \<Rightarrow> inputData)"

definition strip_response :: "TaskDataRequestParams \<Rightarrow> DataRequestResponse \<Rightarrow> DataRequestResponse" where
  "strip_response ps dr = dr\<lparr>dr_inputData := stripInputData ps (dr_inputData dr),
     dr_envProviderState := stripEnvProviderState ps (dr_envProviderState dr),
     dr_runExecutionData := stripRunExecutionData dr ps (dr_runExecutionData dr)\<rparr>"

section \<open>Reconstruction\<close>

text \<open>\<open>Array.from\<close> with a length below zero gives an empty array; missing items are undefined.\<close>

definition missing_items :: "int \<Rightarrow> INodeExecutionData option list" where
  "missing_items n = replicate (nat n) None"

definition reconstructConnectionInputItems ::
    "ITaskDataConnections \<Rightarrow> InputDataChunkDefinition option \<Rightarrow> INodeExecutionData option list" where
  "reconstructConnectionInputItems inputData chunk =
     (let inputItems = (case map_of inputData MainConn of Some (Some xs # _) \<Rightarrow> map Some xs | _ \<Rightarrow> [])
      in case chunk of
           None \<Rightarrow> inputItems
         | Some c \<Rightarrow> missing_items (int (ch_startIndex c)) @ inputItems @
             missing_items (int (length inputItems) - int (ch_startIndex c) - int (ch_count c)))"

record JsTaskData =
  jt_response :: DataRequestResponse
  jt_connectionInputData :: "INodeExecutionData option list"

text \<open>\<open>executeData\<close> has the node and the source of the response and these items.\<close>

definition reconstructTaskData :: "DataRequestResponse \<Rightarrow> InputDataChunkDefinition option \<Rightarrow> JsTaskData" where
  "reconstructTaskData dr chunk =
     \<lparr>jt_response = dr, jt_connectionInputData = reconstructConnectionInputItems (dr_inputData dr) chunk\<rparr>"

text \<open>The proxy that \<open>$\<close> of the code reads; the place of an undefined item has an item without fields.\<close>

definition createDataProxy :: "JsTaskData \<Rightarrow> Workflow \<Rightarrow> int \<Rightarrow> WorkflowDataProxy" where
  "createDataProxy data workflow itemIndex =
     (let dr = jt_response data
      in \<lparr>px_workflow = workflow, px_runData = Some (xr_runData (dr_runExecutionData dr)), px_runIndex = dr_runIndex dr,
          px_itemIndex = itemIndex, px_activeNodeName = dr_activeNodeName dr,
          px_connectionInputData = map (\<lambda>x. or_else x []) (jt_connectionInputData data), px_mode = dr_mode dr,
          px_executeSource = dr_connectionInputSource dr, px_defaultReturnRunIndex = dr_defaultReturnRunIndex dr,
          px_contextNodeName = dr_contextNodeName dr\<rparr>)"


text \<open>\<open>new Workflow\<close> in the runner, with the node types that the runner knows.\<close>

definition runner_workflow ::
    "(INodeType \<Rightarrow> INode \<Rightarrow> (string, json) js_map option) \<Rightarrow> INodeTypes \<Rightarrow> JsTaskData \<Rightarrow> Workflow" where
  "runner_workflow params types data = new_workflow params ((dr_workflow (jt_response data))\<lparr>wp_nodeTypes := types\<rparr>)"

text \<open>The data that a code gets: what it needs is parsed, requested, built, stripped and reconstructed.\<close>

definition requested_data :: "Visit list option \<Rightarrow> InputDataChunkDefinition option \<Rightarrow> TaskData \<Rightarrow> JsTaskData" where
  "requested_data code chunk td =
     reconstructTaskData (strip_response (toDataRequestParams chunk (parseUsedBuiltIns code)) (buildFromTaskData td)) chunk"

section \<open>Built-ins\<close>

definition needs_node :: "string \<Rightarrow> BuiltInsParserState \<Rightarrow> bool" where
  "needs_node nm st \<longleftrightarrow> bi_needsAllNodes st \<or> nm \<in> set (bi_neededNodeNames st)"

lemma needs_all [simp]: "needs_node nm (markNeedsAllNodes st)"
  by (simp add: needs_node_def markNeedsAllNodes_def)

lemma needs_mark: "needs_node nm (markNodeAsNeeded nm st)"
  by (simp add: needs_node_def markNodeAsNeeded_def)

lemma needs_kept: "needs_node nm st \<Longrightarrow> needs_node nm (markNodeAsNeeded s st)"
  by (auto simp: needs_node_def markNodeAsNeeded_def)

lemma needs_prev: "needs_node nm st \<Longrightarrow> needs_node nm (handlePrevNodeCall p st)"
  by (auto simp: handlePrevNodeCall_def split: Parent.split Property.split)

lemma needs_input: "needs_node nm (st\<lparr>bi_input := b\<rparr>) = needs_node nm st"
  by (simp add: needs_node_def)

lemma visit_keeps: "needs_node nm st \<Longrightarrow> needs_node nm (visit v st)"
proof (cases v)
  case (CallExpression callee args parent)
  assume "needs_node nm st"
  then show ?thesis unfolding CallExpression
    by (auto simp: visitDollarCallExpression_def visitDollarItemsCallExpression_def needs_input
        intro: needs_kept needs_prev split: list.split Argument.split)
next
  case (Identifier x)
  assume "needs_node nm st"
  then show ?thesis unfolding Identifier
    by (simp add: visitIdentifier_def needs_node_def markNeedsAllNodes_def del: insert_iff)
qed

lemma visits_keep: "needs_node nm st \<Longrightarrow> needs_node nm (fold visit vs st)"
  by (induction vs arbitrary: st) (auto intro: visit_keeps)

lemma named_node_needed:
  assumes "CallExpression (Some f) (StringLiteral nm # args) p \<in> set visits" and "f \<in> {''$'', ''$items''}"
  shows "needs_node nm (parseUsedBuiltIns (Some visits))"
proof -
  from assms(1) obtain xs ys where "visits = xs @ CallExpression (Some f) (StringLiteral nm # args) p # ys"
    using split_list[OF assms(1)] by blast
  moreover have "needs_node nm (visit (CallExpression (Some f) (StringLiteral nm # args) p) st)" for st
    using assms(2) by (auto simp: visitDollarCallExpression_def visitDollarItemsCallExpression_def intro: needs_prev needs_mark)
  ultimately show ?thesis by (simp add: parseUsedBuiltIns_def visits_keep)
qed

section \<open>The data that is needed is there\<close>

lemma requested_all: "dp_dataOfNodes ps = AllNodes \<Longrightarrow> filterObjectByNodeNames dr ps m = m"
  by (simp add: filterObjectByNodeNames_def)

lemma filter_requested:
  assumes "dp_dataOfNodes ps = AllNodes \<or> nm \<in> set (requestedNodeNames dr ps)"
  shows "map_of (filterObjectByNodeNames dr ps m) nm = map_of m nm"
proof (cases "dp_dataOfNodes ps = AllNodes")
  case False
  then have "nm \<in> set (requestedNodeNames dr ps)" using assms by blast
  then show ?thesis using False by (induction m) (auto simp: filterObjectByNodeNames_def)
qed (simp add: requested_all)

lemma needed_requested:
  assumes "needs_node nm st"
  shows "dp_dataOfNodes (toDataRequestParams chunk st) = AllNodes \<or> nm \<in> set (requestedNodeNames dr (toDataRequestParams chunk st))"
  using assms by (auto simp: needs_node_def toDataRequestParams_def requestedNodeNames_def)

text \<open>A node of the workflow is there under its name.\<close>

definition named_nodes :: "Workflow \<Rightarrow> bool" where
  "named_nodes w \<longleftrightarrow> js_wf (w_nodes w) \<and> (\<forall>(nm, n) \<in> set (w_nodes w). node_name n = nm)"

lemma fold_put_named:
  assumes "js_wf xs" and "\<forall>(nm, n) \<in> set xs. node_name n = nm"
  shows "map_of (fold (\<lambda>n m. js_put (node_name n) (f n) m) (map snd xs) m) x =
    (case map_of xs x of None \<Rightarrow> map_of m x | Some n \<Rightarrow> Some (f n))"
  using assms
proof (induction xs arbitrary: m)
  case (Cons p xs)
  obtain nm n where p: "p = (nm, n)" by (cases p)
  with Cons.prems have "map_of xs nm = None" by (auto simp: js_wf_def map_of_eq_None_iff)
  with Cons p show ?case by (auto simp: js_wf_def split: option.split)
qed simp

text \<open>Two workflows with the same connections and pinned data, and nodes that differ in their parameters only.\<close>

definition bare :: "INode \<Rightarrow> INode" where
  "bare n = n\<lparr>node_parameters := []\<rparr>"

definition same_shape :: "Workflow \<Rightarrow> Workflow \<Rightarrow> bool" where
  "same_shape w w' \<longleftrightarrow> w_bySource w = w_bySource w' \<and> w_byDestination w = w_byDestination w' \<and> w_pinData w = w_pinData w' \<and>
     (\<forall>nm. map_option bare (w_getNode w nm) = map_option bare (w_getNode w' nm))"

lemma bare_fields: "bare n = bare n' \<Longrightarrow> node_name n = node_name n' \<and> node_type n = node_type n'"
  by (cases n; cases n') (simp add: bare_def)

lemma same_shape_node:
  assumes "same_shape w w'"
  shows "w_getNode w nm = None \<longleftrightarrow> w_getNode w' nm = None"
    and "w_getNode w nm = Some n \<Longrightarrow> \<exists>n'. w_getNode w' nm = Some n' \<and> node_name n' = node_name n \<and> node_type n' = node_type n"
proof -
  have eq: "map_option bare (w_getNode w nm) = map_option bare (w_getNode w' nm)" using assms by (simp add: same_shape_def)
  then show "w_getNode w nm = None \<longleftrightarrow> w_getNode w' nm = None" by (cases "w_getNode w nm"; cases "w_getNode w' nm") simp_all
  show "\<exists>n'. w_getNode w' nm = Some n' \<and> node_name n' = node_name n \<and> node_type n' = node_type n" if some: "w_getNode w nm = Some n"
  proof -
    obtain n' where "w_getNode w' nm = Some n'" "bare n' = bare n" using eq some by (cases "w_getNode w' nm") simp_all
    then show ?thesis using bare_fields[of n' n] by blast
  qed
qed

lemma runner_same_shape:
  assumes "named_nodes (td_workflow td)" and "w_byDestination (td_workflow td) = mapConnectionsByDestination (w_bySource (td_workflow td))"
  shows "same_shape (runner_workflow params types (requested_data code chunk td)) (td_workflow td)"
proof -
  let ?w = "td_workflow td" and ?w' = "runner_workflow params types (requested_data code chunk td)"
  have "w_nodes ?w' = fold (\<lambda>n m. js_put (node_name n) (fill_defaults params types n) m) (map snd (w_nodes ?w)) []"
    by (simp add: runner_workflow_def requested_data_def reconstructTaskData_def strip_response_def buildFromTaskData_def
        buildWorkflow_def new_workflow_def js_values_def)
  then have "w_getNode ?w' nm = map_option (fill_defaults params types) (w_getNode ?w nm)" for nm
    using assms(1) by (simp add: w_getNode_def getNodeByName_def fold_put_named named_nodes_def split: option.split)
  moreover have "bare (fill_defaults params types n) = bare n" for n by (simp add: bare_def fill_defaults_def split: option.split)
  ultimately have "map_option bare (w_getNode ?w' nm) = map_option bare (w_getNode ?w nm)" for nm
    by (cases "w_getNode ?w nm") simp_all
  then show ?thesis using assms(2)
    by (simp add: same_shape_def runner_workflow_def requested_data_def reconstructTaskData_def strip_response_def buildFromTaskData_def
        buildWorkflow_def new_workflow_def)
qed

text \<open>Such workflows have the same paths.\<close>

lemma indexes_shape:
  assumes "same_shape w w'"
  shows "getNodeConnectionIndexes fuel w nm parent ty depth checked = getNodeConnectionIndexes fuel w' nm parent ty depth checked"
proof (induction fuel arbitrary: nm depth checked)
  case (Suc fuel)
  have dest: "w_byDestination w = w_byDestination w'" using assms by (simp add: same_shape_def)
  show ?case unfolding getNodeConnectionIndexes.simps same_shape_node(1)[OF assms] dest Suc.IH by (rule refl)
qed simp

lemma connectionIndexes_shape:
  assumes "same_shape w w'"
  shows "connectionIndexes w = connectionIndexes w'"
proof -
  have dest: "w_byDestination w = w_byDestination w'" using assms by (simp add: same_shape_def)
  show ?thesis by (intro ext) (simp only: connectionIndexes_def indexes_shape[OF assms] dest)
qed

lemma main_input_shape:
  assumes "same_shape w w'" and "node_name n = node_name n'"
  shows "map_sum id node_name (getParentMainInputNode w n visited) = map_sum id node_name (getParentMainInputNode w' n' visited)"
  using assms
proof (induction w n visited arbitrary: n' rule: getParentMainInputNode.induct)
  case (1 w n visited)
  have src: "w_bySource w' = w_bySource w" using 1(2) by (simp add: same_shape_def)
  show ?case
  proof (cases "node_name n \<in> set visited")
    case False
    show ?thesis
    proof (cases "map_of (w_bySource w) (node_name n)")
      case (Some ic)
      show ?thesis
      proof (cases "first_utility_target ic")
        case (Some t)
        note ic = \<open>map_of (w_bySource w) (node_name n) = Some ic\<close>
        show ?thesis
        proof (cases "w_getNode w t")
          case None
          then have "w_getNode w' t = None" using same_shape_node(1)[OF 1(2)] by blast
          then show ?thesis using None False ic Some src 1(3) by (simp add: getParentMainInputNode.simps)
        next
          case (Some m)
          then obtain m' where m': "w_getNode w' t = Some m'" "node_name m = node_name m'" using same_shape_node(2)[OF 1(2)] by metis
          have "getParentMainInputNode w n visited = getParentMainInputNode w m (set_add (node_name n) visited)"
            by (subst getParentMainInputNode.simps) (simp add: False ic \<open>first_utility_target ic = Some t\<close> Some)
          moreover have "getParentMainInputNode w' n' visited = getParentMainInputNode w' m' (set_add (node_name n) visited)"
            using False ic 1(3) by (subst getParentMainInputNode.simps) (simp add: src \<open>first_utility_target ic = Some t\<close> m')
          ultimately show ?thesis using 1(1)[OF False ic \<open>first_utility_target ic = Some t\<close> Some 1(2) m'(2)] by (simp only:)
        qed
      qed (use False Some src 1(3) in \<open>simp add: getParentMainInputNode.simps\<close>)
    qed (use False src 1(3) in \<open>simp add: getParentMainInputNode.simps\<close>)
  qed (use 1(3) in \<open>simp add: getParentMainInputNode.simps\<close>)
qed

text \<open>The proxy of the node that requests the task.\<close>

definition requester_proxy :: "TaskData \<Rightarrow> INodeExecutionData list \<Rightarrow> int \<Rightarrow> WorkflowDataProxy" where
  "requester_proxy td items itemIndex =
     \<lparr>px_workflow = td_workflow td, px_runData = Some (xr_runData (td_runExecutionData td)), px_runIndex = td_runIndex td,
      px_itemIndex = itemIndex, px_activeNodeName = td_activeNodeName td, px_connectionInputData = items, px_mode = td_mode td,
      px_executeSource = (case td_executeData td of None \<Rightarrow> None | Some x \<Rightarrow> exec_source x),
      px_defaultReturnRunIndex = td_defaultReturnRunIndex td, px_contextNodeName = td_contextNodeName td\<rparr>"

text \<open>Two proxies that agree on a node: what \<open>$('node')\<close> gives through the one and the other.\<close>

definition agree_on :: "string \<Rightarrow> WorkflowDataProxy \<Rightarrow> WorkflowDataProxy \<Rightarrow> bool" where
  "agree_on nm px px' \<longleftrightarrow> same_shape (px_workflow px) (px_workflow px') \<and>
     (\<exists>rd rd'. px_runData px = Some rd \<and> px_runData px' = Some rd' \<and> map_of rd nm = map_of rd' nm) \<and>
     px_runIndex px = px_runIndex px' \<and> px_itemIndex px = px_itemIndex px' \<and> px_activeNodeName px = px_activeNodeName px' \<and>
     px_mode px = px_mode px' \<and> px_defaultReturnRunIndex px = px_defaultReturnRunIndex px' \<and> px_contextNodeName px = px_contextNodeName px'"

lemma agree_basics:
  assumes "agree_on nm px px'"
  shows "base_context px = base_context px'" "plain_error px = plain_error px'" "pinned_for px = pinned_for px'"
    "isScriptingNode x (px_workflow px) = isScriptingNode x (px_workflow px')" "createExpressionError px = createExpressionError px'"
    "createNodeReferenceError px = createNodeReferenceError px'"
proof -
  have shape: "same_shape (px_workflow px) (px_workflow px')" using assms by (simp add: agree_on_def)
  show base: "base_context px = base_context px'" using assms by (simp add: agree_on_def base_context_def)
  then show "plain_error px = plain_error px'" by (simp add: plain_error_def fun_eq_iff)
  show pin: "pinned_for px = pinned_for px'" using assms
    by (simp add: agree_on_def pinned_for_def getPinDataIfManualExecution_def w_getPinDataOfNode_def same_shape_def fun_eq_iff)
  show script: "isScriptingNode y (px_workflow px) = isScriptingNode y (px_workflow px')" for y
  proof (cases "w_getNode (px_workflow px) y")
    case None
    then show ?thesis using same_shape_node(1)[OF shape, of y] by (simp add: isScriptingNode_def)
  next
    case (Some n)
    then show ?thesis using same_shape_node(2)[OF shape Some] by (auto simp: isScriptingNode_def)
  qed
  have "px_activeNodeName px = px_activeNodeName px'" using assms by (simp add: agree_on_def)
  then have "apply_overrides px = apply_overrides px'" by (intro ext) (simp only: apply_overrides_def script)
  moreover have "apply_node_cause px = apply_node_cause px'" by (intro ext) (simp only: apply_node_cause_def script pin)
  ultimately show create: "createExpressionError px = createExpressionError px'" by (intro ext) (simp only: createExpressionError_def)
  have "no_connection_key px = no_connection_key px'" by (intro ext) (simp only: no_connection_key_def script)
  then show "createNodeReferenceError px = createNodeReferenceError px'"
    by (intro ext) (simp only: createNodeReferenceError_def create node_reference_context_def base)
qed

lemma getNodeExecutionData_cong:
  assumes agree: "agree_on nm px px'"
  shows "getNodeExecutionData px nm False b r = getNodeExecutionData px' nm False b r"
proof -
  obtain rd rd' where rd: "px_runData px = Some rd" "px_runData px' = Some rd'" "map_of rd nm = map_of rd' nm"
    using agree by (auto simp: agree_on_def)
  have has: "js_has rd nm = js_has rd' nm" using rd(3) by (simp add: domIff)
  have fields: "px_defaultReturnRunIndex px = px_defaultReturnRunIndex px'" "px_contextNodeName px = px_contextNodeName px'"
    using agree by (simp_all add: agree_on_def)
  have shape: "same_shape (px_workflow px) (px_workflow px')" using agree by (simp add: agree_on_def)
  show ?thesis
    unfolding getNodeExecutionData_def agree_basics[OF agree] rd(1,2) has option.case if_False rd(3) fields
      same_shape_node(1)[OF shape] connectionIndexes_shape[OF shape] by (rule refl)
qed

lemma dollar_data_cong:
  assumes agree: "agree_on nm px px'"
  shows "dollar_data px nm b r = dollar_data px' nm b r"
proof -
  have shape: "same_shape (px_workflow px) (px_workflow px')" and active: "px_activeNodeName px = px_activeNodeName px'"
    "px_contextNodeName px = px_contextNodeName px'"
    using agree by (simp_all add: agree_on_def)
  have node: "pbind (referenced_node px nm) (\<lambda>_. m) = pbind (referenced_node px' nm) (\<lambda>_. m)" for m :: "'z proxied"
    using same_shape_node(1)[OF shape, of nm]
    by (cases "w_getNode (px_workflow px) nm"; cases "w_getNode (px_workflow px') nm")
      (simp_all add: referenced_node_def agree_basics[OF agree])
  have ctx: "context_node px = context_node px'"
  proof (cases "w_getNode (px_workflow px) (px_activeNodeName px)")
    case None
    then show ?thesis using same_shape_node(1)[OF shape, of "px_activeNodeName px"] active by (simp add: context_node_def)
  next
    case (Some n)
    then obtain n' where "w_getNode (px_workflow px') (px_activeNodeName px) = Some n'" "node_name n = node_name n'"
      using same_shape_node(2)[OF shape] by metis
    then show ?thesis using Some active main_input_shape[OF shape] by (simp add: context_node_def)
  qed
  have path: "ensureValidPath px nm = ensureValidPath px' nm"
  proof -
    have "w_bySource (px_workflow px) = w_bySource (px_workflow px')" using shape by (simp add: same_shape_def)
    then show ?thesis by (simp only: ensureValidPath_def ctx agree_basics(6)[OF agree] w_getChildNodes_def)
  qed
  have executed: "ensureNodeExecutionData px nm = ensureNodeExecutionData px' nm"
    using agree by (auto simp: ensureNodeExecutionData_def isExecuted_def agree_basics[OF agree] agree_on_def domIff)
  have data: "getNodeExecutionOrPinnedData px nm False i r = getNodeExecutionOrPinnedData px' nm False i r" for i
    by (simp only: getNodeExecutionOrPinnedData_def getNodeExecutionData_cong[OF agree] agree_basics(3)[OF agree])
  show ?thesis unfolding dollar_data_def node path executed data connectionIndexes_shape[OF shape] active by (rule refl)
qed

text \<open>C11: If a code names a node in a call of \<open>$\<close> or \<open>$items\<close>, then what the task reads of it in the runner with
  \<open>$('node').all()\<close>, \<open>first()\<close> and \<open>last()\<close>, with or without an output and a run, with \<open>$items('node')\<close>, and with
  \<open>$('node').isExecuted\<close>, is what the process of the node would read, the errors included: the request that the parser
  makes is enough, whatever else the code does and whatever the chunk is. The workflow is one that the constructor of
  \<open>Workflow\<close> makes. (\<open>item\<close>, \<open>pairedItem\<close> and \<open>itemMatching\<close>, which need further nodes, are not meant.)\<close>

theorem named_node_data_available:
  assumes "CallExpression (Some f) (StringLiteral nm # args) p \<in> set visits" and "f \<in> {''$'', ''$items''}"
    and "named_nodes (td_workflow td)" and "w_byDestination (td_workflow td) = mapConnectionsByDestination (w_bySource (td_workflow td))"
    and data: "data = requested_data (Some visits) chunk td"
    and px: "px = createDataProxy data (runner_workflow params types data) i" and px': "px' = requester_proxy td items i"
  shows "dollar_all px nm b r = dollar_all px' nm b r \<and> dollar_first px nm b r = dollar_first px' nm b r \<and>
    dollar_last px nm b r = dollar_last px' nm b r \<and> dollar_items px (Some nm) b r = dollar_items px' (Some nm) b r \<and>
    isExecuted px nm = isExecuted px' nm"
proof -
  let ?ps = "toDataRequestParams chunk (parseUsedBuiltIns (Some visits))"
  obtain rd where rd: "px_runData px = Some rd" by (simp add: px createDataProxy_def Let_def)
  have "map_of rd nm = map_of (xr_runData (td_runExecutionData td)) nm"
    using rd filter_requested[OF needed_requested[OF named_node_needed[OF assms(1,2)]]]
    by (auto simp: px createDataProxy_def data requested_data_def reconstructTaskData_def strip_response_def stripRunExecutionData_def
        buildFromTaskData_def buildRunExecutionData_def Let_def)
  then have agree: "agree_on nm px px'"
    using rd runner_same_shape[OF assms(3,4), of params types "Some visits" chunk]
    by (simp add: agree_on_def px px' createDataProxy_def requester_proxy_def data requested_data_def reconstructTaskData_def
        strip_response_def buildFromTaskData_def Let_def)
  then have "isExecuted px nm = isExecuted px' nm" by (auto simp: isExecuted_def agree_on_def domIff)
  then show ?thesis
    by (simp add: dollar_all_def dollar_first_def dollar_last_def dollar_items_def dollar_data_cong[OF agree] getNodeExecutionData_cong[OF agree])
qed

lemma filter_keys:
  "dp_dataOfNodes ps \<noteq> AllNodes \<Longrightarrow> set (js_keys (filterObjectByNodeNames dr ps m)) \<subseteq> set (requestedNodeNames dr ps)"
  by (auto simp: filterObjectByNodeNames_def js_keys_def)

lemma stripped_keys:
  assumes "dp_dataOfNodes ps \<noteq> AllNodes" and "rd = stripRunExecutionData dr ps d"
  shows "set (js_keys (xr_runData rd)) \<subseteq> set (requestedNodeNames dr ps)"
    and "set (js_keys (or_else (xr_pinData rd) [])) \<subseteq> set (requestedNodeNames dr ps)"
proof -
  have e: "set (js_keys (or_else (map_option (filterObjectByNodeNames dr ps) p) [])) \<subseteq> set (requestedNodeNames dr ps)" for p :: "(string, 'a) js_map option"
    using filter_keys[OF assms(1)] by (cases p) (auto simp: or_else_def js_keys_def)
  show "set (js_keys (xr_runData rd)) \<subseteq> set (requestedNodeNames dr ps)"
    using assms filter_keys by (simp add: stripRunExecutionData_def)
  show "set (js_keys (or_else (xr_pinData rd) [])) \<subseteq> set (requestedNodeNames dr ps)"
    using assms e by (simp add: stripRunExecutionData_def)
qed

text \<open>If a task does not request all nodes, then it gets the run data and the pin data of the run of no node that it did
  not request, and the engine's stack of waiting nodes is never sent.\<close>

theorem nothing_else_sent:
  assumes "dp_dataOfNodes ps \<noteq> AllNodes" and "dr = buildFromTaskData td" and "rd = dr_runExecutionData (strip_response ps dr)"
  shows "set (js_keys (xr_runData rd)) \<union> set (js_keys (or_else (xr_pinData rd) [])) \<subseteq> set (requestedNodeNames dr ps) \<and>
    (case xr_executionData rd of None \<Rightarrow> True | Some x \<Rightarrow> xd_nodeExecutionStack x = [] \<and> xd_waitingExecution x = [])"
proof -
  have rd: "rd = stripRunExecutionData dr ps (dr_runExecutionData dr)" using assms(3) by (simp add: strip_response_def)
  have "xr_executionData rd = xr_executionData (dr_runExecutionData dr)" using rd by (simp add: stripRunExecutionData_def)
  also have "case xr_executionData (dr_runExecutionData dr) of None \<Rightarrow> True | Some x \<Rightarrow> xd_nodeExecutionStack x = [] \<and> xd_waitingExecution x = []"
    by (auto simp: assms(2) buildFromTaskData_def buildRunExecutionData_def split: option.split)
  finally show ?thesis using stripped_keys[OF assms(1) rd] by simp
qed

text \<open>The pin data of the workflow is sent as a whole, whatever nodes are requested.\<close>

lemma workflow_pin_data_sent: "wp_pinData (dr_workflow (strip_response ps (buildFromTaskData td))) = w_pinData (td_workflow td)"
  by (simp add: strip_response_def buildFromTaskData_def buildWorkflow_def)

text \<open>No environment variables for a code that does not name \<open>$env\<close>, and no others than the keys of the additional data.\<close>

lemma environment_not_sent: "\<not> dp_env ps \<Longrightarrow> ep_env (dr_envProviderState (strip_response ps dr)) = []"
  by (simp add: strip_response_def stripEnvProviderState_def)

lemma additional_keys: "set (js_keys (dr_additionalData (strip_response ps (buildFromTaskData td)))) \<subseteq> set ADDITIONAL_DATA_KEYS"
  by (auto simp: strip_response_def buildFromTaskData_def buildAdditionalData_def js_keys_def set_map_filter)

section \<open>Chunks of the input\<close>

definition main_items_of :: "ITaskDataConnections \<Rightarrow> INodeExecutionData list" where
  "main_items_of inputData = (case map_of inputData MainConn of Some (Some xs # _) \<Rightarrow> xs | _ \<Rightarrow> [])"

lemma reconstructed_chunk:
  "reconstructConnectionInputItems (stripChunkedInputData c inputData) (Some c) =
     replicate (ch_startIndex c) None @ map Some (take (ch_count c) (drop (ch_startIndex c) (main_items_of inputData)))"
  by (auto simp: reconstructConnectionInputItems_def stripChunkedInputData_def main_items_of_def missing_items_def
      split: option.split list.split)

text \<open>The items of a chunk are at the places they have in the input; what is before the chunk is undefined, and
  nothing is behind it: the undefined items that should fill the array up to the length of the input are missing.\<close>

lemma chunk_in_place:
  assumes "dp_include ps" and "dp_chunk ps = Some c" and "ch_startIndex c + ch_count c \<le> length (main_items_of inputData)"
  shows "let xs = reconstructConnectionInputItems (stripInputData ps inputData) (Some c)
    in length xs = ch_startIndex c + ch_count c \<and>
       (\<forall>k < length xs. xs ! k = (if k < ch_startIndex c then None else Some (main_items_of inputData ! k)))"
  using assms by (auto simp: stripInputData_def reconstructed_chunk Let_def nth_append)

section \<open>Examples\<close>

text \<open>Node \<open>c\<close> of a line of three nodes has a code with \<open>$('a').all()\<close>.\<close>

definition sample_task :: TaskData where
  "sample_task = \<lparr>td_workflow = line_workflow, td_inputData = [(MainConn, [Some [linked_item 1, linked_item 0]])],
     td_node = plain_node 2 ''c'' ''t'',
     td_runExecutionData = \<lparr>xr_startData = None, xr_error = None,
       xr_runData = [(''a'', [sample_run 0 [] [empty_item, empty_item]]),
         (''b'', [sample_run 1 [Some (from_node ''a'')] [linked_item 1, linked_item 0]])],
       xr_pinData = None, xr_lastNodeExecuted = None, xr_metadata = None, xr_executionData = None\<rparr>,
     td_runIndex = 0, td_itemIndex = 0, td_activeNodeName = ''c'', td_siblingParameters = [], td_mode = ModeTrigger,
     td_envProviderState = \<lparr>ep_isProcessAvailable = True, ep_isEnvAccessBlocked = False, ep_env = []\<rparr>,
     td_executeData = None, td_defaultReturnRunIndex = -1, td_selfData = [], td_contextNodeName = ''c'', td_additionalData = []\<rparr>"

definition all_of_a :: "Visit list" where
  "all_of_a = [Identifier ''$'', CallExpression (Some ''$'') [StringLiteral ''a''] (MemberExpression False (PropIdentifier ''all''))]"

lemma sample_request: "parseUsedBuiltIns (Some all_of_a) = new_parser_state\<lparr>bi_neededNodeNames := [''a'']\<rparr>"
  by code_simp

lemma named_node_data_available_witness:
  "dollar_all (createDataProxy (requested_data (Some all_of_a) None sample_task)
     (runner_workflow (\<lambda>_ _. None) (\<lambda>_ _. None) (requested_data (Some all_of_a) None sample_task)) 0) ''a'' None None =
   Inr (Some [empty_item, empty_item])"
proof -
  have "CallExpression (Some ''$'') (StringLiteral ''a'' # []) (MemberExpression False (PropIdentifier ''all'')) \<in> set all_of_a"
    by (simp add: all_of_a_def)
  moreover have "named_nodes (td_workflow sample_task)" by code_simp
  moreover have "w_byDestination (td_workflow sample_task) = mapConnectionsByDestination (w_bySource (td_workflow sample_task))" by code_simp
  moreover have "dollar_all (requester_proxy sample_task [] 0) ''a'' None None = Inr (Some [empty_item, empty_item])"
    by code_simp
  ultimately show ?thesis
    using named_node_data_available[OF _ _ _ _ refl refl refl, where ?f = "''$''" and ?items = "[]"] by simp
qed

lemma nothing_else_sent_witness:
  "set (js_keys (xr_runData (dr_runExecutionData (strip_response (toDataRequestParams None (parseUsedBuiltIns (Some all_of_a)))
     (buildFromTaskData sample_task))))) \<subseteq> {''a''}"
proof -
  let ?ps = "toDataRequestParams None (parseUsedBuiltIns (Some all_of_a))"
  have "dp_dataOfNodes ?ps \<noteq> AllNodes" by (simp add: sample_request toDataRequestParams_def new_parser_state_def)
  moreover have "set (requestedNodeNames (buildFromTaskData sample_task) ?ps) = {''a''}"
    by (simp add: sample_request toDataRequestParams_def new_parser_state_def requestedNodeNames_def set_of_array_def)
  ultimately show ?thesis using nothing_else_sent[OF _ refl refl, of ?ps sample_task] by simp
qed

text \<open>Of ten items the chunk of the items \<open>4\<close> and \<open>5\<close> gives an array of length six.\<close>

lemma padding_lost:
  "length (reconstructConnectionInputItems (stripChunkedInputData \<lparr>ch_startIndex = 4, ch_count = 2\<rparr>
     [(MainConn, [Some (replicate 10 empty_item)])]) (Some \<lparr>ch_startIndex = 4, ch_count = 2\<rparr>)) = 6"
  by code_simp

text \<open>The input is not requested for \<open>$binary\<close>, and not all nodes for a property that is a template.\<close>

lemma binary_not_requested: "bi_input (parseUsedBuiltIns (Some [Identifier ''$binary''])) = False"
  by code_simp

lemma computed_item_not_tracked:
  "toDataRequestParams None (parseUsedBuiltIns (Some [Identifier ''$'',
     CallExpression (Some ''$'') [StringLiteral ''a''] (MemberExpression True PropExpression)])) =
     \<lparr>dp_dataOfNodes = TheseNodes [''a''], dp_prevNode = False, dp_include = False, dp_chunk = None, dp_env = False\<rparr>"
  by code_simp

end
