(* ===== verification/AugmentObject.thy ===== *)
theory AugmentObject
  imports Interfaces
begin

text \<open>
  Copy-on-write views of the data of an execution (\<^verbatim>\<open>packages/workflow/src/augment-object.ts\<close>): \<open>augmentObject\<close> and
  \<open>augmentArray\<close> wrap an object in a proxy, whose traps keep what a code writes in an object of their own.

  Objects live in a heap, at the place of their allocation. Properties are the names of an object, and the
  indexes and the length of an array; inherited members, typed arrays and methods of the data are left out.
\<close>

section \<open>Objects and proxies\<close>

text \<open>A date and a regular expression are given by their text; \<open>BuiltIn\<close> is a constructor of the language.\<close>

datatype Value =
    Undefined
  | Scalar json
  | DateValue string
  | RegExpValue string
  | BuiltIn string
  | Ref nat
  | ProxyRef nat

datatype Key = Name string | Index nat | Length

text \<open>An array may have holes.\<close>

datatype HeapObject = PlainObject "(string, Value) js_map" | ArrayObject "Value option list"

text \<open>The variables that the traps close over: the data, \<open>newData\<close>, which is an object of its own, and the deleted names.\<close>

datatype AugmentedProxy = ObjectProxy nat nat "string list" | ArrayProxy nat "nat option"

record AugmentState =
  ag_heap :: "HeapObject list"
  ag_proxies :: "AugmentedProxy list"

definition own_property :: "HeapObject \<Rightarrow> string \<Rightarrow> Value option" where
  "own_property ob k = (case ob of PlainObject m \<Rightarrow> map_of m k | _ \<Rightarrow> None)"

definition array_values :: "HeapObject \<Rightarrow> Value option list" where
  "array_values ob = (case ob of ArrayObject xs \<Rightarrow> xs | _ \<Rightarrow> [])"

definition num_value :: "nat \<Rightarrow> Value" where
  "num_value n = Scalar (JNum (of_nat n))"

fun array_read :: "Value option list \<Rightarrow> Key \<Rightarrow> Value option" where
  "array_read xs (Index i) = (if i < length xs then xs ! i else None)"
| "array_read xs Length = Some (num_value (length xs))"
| "array_read xs (Name _) = None"

definition put_index :: "nat \<Rightarrow> 'a \<Rightarrow> 'a option list \<Rightarrow> 'a option list" where
  "put_index i v xs = (if i < length xs then xs[i := Some v] else xs @ replicate (i - length xs) None @ [Some v])"

text \<open>\<open>Reflect.set\<close> of the length with anything but a natural number throws or does nothing.\<close>

definition set_length :: "Value \<Rightarrow> 'a option list \<Rightarrow> 'a option list" where
  "set_length v xs = (case v of
     Scalar (JNum q) \<Rightarrow> if q \<ge> 0 \<and> of_int \<lfloor>q\<rfloor> = q
       then take (nat \<lfloor>q\<rfloor>) xs @ replicate (nat \<lfloor>q\<rfloor> - length xs) None else xs
   | _ \<Rightarrow> xs)"

fun array_write :: "Key \<Rightarrow> Value \<Rightarrow> Value option list \<Rightarrow> Value option list" where
  "array_write (Index i) v xs = put_index i v xs"
| "array_write Length v xs = set_length v xs"
| "array_write (Name _) v xs = xs"

fun array_remove :: "Key \<Rightarrow> 'a option list \<Rightarrow> 'a option list" where
  "array_remove (Index i) xs = xs[i := None]"
| "array_remove _ xs = xs"

definition heap_put :: "nat \<Rightarrow> HeapObject \<Rightarrow> AugmentState \<Rightarrow> AugmentState" where
  "heap_put a ob st = st\<lparr>ag_heap := (ag_heap st)[a := ob]\<rparr>"

definition put_own :: "nat \<Rightarrow> string \<Rightarrow> Value \<Rightarrow> AugmentState \<Rightarrow> AugmentState" where
  "put_own a k v st = (case ag_heap st ! a of PlainObject m \<Rightarrow> heap_put a (PlainObject (js_put k v m)) st | _ \<Rightarrow> st)"

definition del_own :: "nat \<Rightarrow> string \<Rightarrow> AugmentState \<Rightarrow> AugmentState" where
  "del_own a k st = (case ag_heap st ! a of PlainObject m \<Rightarrow> heap_put a (PlainObject (js_del k m)) st | _ \<Rightarrow> st)"

section \<open>Wrapping\<close>

definition augmentArray :: "nat \<Rightarrow> AugmentState \<Rightarrow> Value \<times> AugmentState" where
  "augmentArray a st = (ProxyRef (length (ag_proxies st)), st\<lparr>ag_proxies := ag_proxies st @ [ArrayProxy a None]\<rparr>)"

definition augmentObject :: "nat \<Rightarrow> AugmentState \<Rightarrow> Value \<times> AugmentState" where
  "augmentObject a st = (ProxyRef (length (ag_proxies st)),
     st\<lparr>ag_heap := ag_heap st @ [PlainObject []], ag_proxies := ag_proxies st @ [ObjectProxy a (length (ag_heap st)) []]\<rparr>)"

text \<open>The value, whether it is another one than before, and the state. A proxy is in \<open>augmentedObjects\<close>.\<close>

definition augment :: "Value \<Rightarrow> AugmentState \<Rightarrow> Value \<times> bool \<times> AugmentState" where
  "augment v st = (case v of
     Ref a \<Rightarrow> (case ag_heap st ! a of
         ArrayObject _ \<Rightarrow> (let (p, st) = augmentArray a st in (p, True, st))
       | PlainObject _ \<Rightarrow> (let (p, st) = augmentObject a st in (p, True, st)))
   | DateValue s \<Rightarrow> (DateValue s, True, st)
   | _ \<Rightarrow> (v, False, st))"

section \<open>Traps of an array\<close>

text \<open>\<open>[...data]\<close> has \<open>undefined\<close> where the array has holes.\<close>

definition spread :: "Value option list \<Rightarrow> Value option list" where
  "spread xs = map (\<lambda>x. Some (or_else x Undefined)) xs"

definition getData :: "nat \<Rightarrow> AugmentState \<Rightarrow> nat \<times> AugmentState" where
  "getData p st = (case ag_proxies st ! p of
     ArrayProxy a None \<Rightarrow> (length (ag_heap st),
       st\<lparr>ag_heap := ag_heap st @ [ArrayObject (spread (array_values (ag_heap st ! a)))],
          ag_proxies := (ag_proxies st)[p := ArrayProxy a (Some (length (ag_heap st)))]\<rparr>)
   | ArrayProxy a (Some d) \<Rightarrow> (d, st)
   | _ \<Rightarrow> (0, st))"

definition write_new_data :: "nat \<Rightarrow> Key \<Rightarrow> Value \<Rightarrow> AugmentState \<Rightarrow> AugmentState" where
  "write_new_data p key v st = (let (d, st) = getData p st
     in heap_put d (ArrayObject (array_write key v (array_values (ag_heap st ! d)))) st)"

definition array_trap_get :: "nat \<Rightarrow> Key \<Rightarrow> AugmentState \<Rightarrow> Value \<times> AugmentState" where
  "array_trap_get p key st = (case ag_proxies st ! p of
     ArrayProxy a newData \<Rightarrow>
       if key = Name ''constructor'' then (BuiltIn ''Array'', st)
       else let value = or_else (array_read (array_values (ag_heap st ! or_else newData a)) key) Undefined;
                (newValue, changed, st) = augment value st
            in if changed then (newValue, write_new_data p key newValue st) else (value, st)
   | _ \<Rightarrow> (Undefined, st))"

definition array_trap_set :: "nat \<Rightarrow> Key \<Rightarrow> Value \<Rightarrow> AugmentState \<Rightarrow> AugmentState" where
  "array_trap_set p key newValue st =
     (let (d, st) = getData p st; (v, _, st) = augment newValue st
      in heap_put d (ArrayObject (array_write key v (array_values (ag_heap st ! d)))) st)"

definition array_deleteProperty :: "nat \<Rightarrow> Key \<Rightarrow> AugmentState \<Rightarrow> AugmentState" where
  "array_deleteProperty p key st = (let (d, st) = getData p st
     in heap_put d (ArrayObject (array_remove key (array_values (ag_heap st ! d)))) st)"

definition array_data :: "nat \<Rightarrow> AugmentState \<Rightarrow> Value option list" where
  "array_data p st = (case ag_proxies st ! p of
     ArrayProxy a newData \<Rightarrow> array_values (ag_heap st ! or_else newData a) | _ \<Rightarrow> [])"

definition array_ownKeys :: "Value option list \<Rightarrow> Key list" where
  "array_ownKeys xs = map Index (filter (\<lambda>i. xs ! i \<noteq> None) [0..<length xs]) @ [Length]"

text \<open>A descriptor with its value, or the default one without.\<close>

datatype Descriptor = DataDescriptor Value | DefaultDescriptor

definition array_getOwnPropertyDescriptor :: "nat \<Rightarrow> Key \<Rightarrow> AugmentState \<Rightarrow> Descriptor option" where
  "array_getOwnPropertyDescriptor p key st = (case ag_proxies st ! p of
     ArrayProxy a None \<Rightarrow> map_option DataDescriptor (array_read (array_values (ag_heap st ! a)) key)
   | ArrayProxy a (Some d) \<Rightarrow>
       if key = Length then map_option DataDescriptor (array_read (array_values (ag_heap st ! d)) key)
       else (case array_read (array_values (ag_heap st ! a)) key of Some v \<Rightarrow> Some (DataDescriptor v) | None \<Rightarrow> Some DefaultDescriptor)
   | _ \<Rightarrow> None)"

section \<open>Traps of an object\<close>

definition object_trap_get :: "nat \<Rightarrow> string \<Rightarrow> AugmentState \<Rightarrow> Value \<times> AugmentState" where
  "object_trap_get p k st = (case ag_proxies st ! p of
     ObjectProxy a n deleted \<Rightarrow>
       if k = ''constructor'' then (BuiltIn ''Object'', st)
       else if k \<in> set deleted then (Undefined, st)
       else (case own_property (ag_heap st ! n) k of
         Some v \<Rightarrow> (v, st)
       | None \<Rightarrow>
           let value = or_else (own_property (ag_heap st ! a) k) Undefined
           in case value of
                RegExpValue s \<Rightarrow> (Scalar (JStr s), st)
              | DateValue s \<Rightarrow> (Scalar (JStr s), st)
              | _ \<Rightarrow> let (newValue, changed, st) = augment value st
                   in if changed then (newValue, put_own n k newValue st) else (value, st))
   | _ \<Rightarrow> (Undefined, st))"

definition put_proxy :: "nat \<Rightarrow> AugmentedProxy \<Rightarrow> AugmentState \<Rightarrow> AugmentState" where
  "put_proxy p x st = st\<lparr>ag_proxies := (ag_proxies st)[p := x]\<rparr>"

text \<open>What \<open>deleteProperty\<close> does, and \<open>set\<close> with \<open>undefined\<close>.\<close>

definition object_deleteProperty :: "nat \<Rightarrow> string \<Rightarrow> AugmentState \<Rightarrow> AugmentState" where
  "object_deleteProperty p k st = (case ag_proxies st ! p of
     ObjectProxy a n deleted \<Rightarrow>
       let st = (if own_property (ag_heap st ! n) k \<noteq> None then del_own n k st else st)
       in if own_property (ag_heap st ! a) k \<noteq> None then put_proxy p (ObjectProxy a n (set_add k deleted)) st else st
   | _ \<Rightarrow> st)"

definition object_trap_set :: "nat \<Rightarrow> string \<Rightarrow> Value \<Rightarrow> AugmentState \<Rightarrow> AugmentState" where
  "object_trap_set p k newValue st = (case ag_proxies st ! p of
     ObjectProxy a n deleted \<Rightarrow>
       if newValue = Undefined then object_deleteProperty p k st
       else put_proxy p (ObjectProxy a n (set_del k deleted)) (put_own n k newValue st)
   | _ \<Rightarrow> st)"

definition object_trap_has :: "nat \<Rightarrow> string \<Rightarrow> AugmentState \<Rightarrow> bool" where
  "object_trap_has p k st = (case ag_proxies st ! p of
     ObjectProxy a n deleted \<Rightarrow>
       k \<notin> set deleted \<and> own_property (ag_heap st ! (if own_property (ag_heap st ! n) k \<noteq> None then n else a)) k \<noteq> None
   | _ \<Rightarrow> False)"

definition object_keys :: "HeapObject \<Rightarrow> string list" where
  "object_keys ob = (case ob of PlainObject m \<Rightarrow> js_keys m | _ \<Rightarrow> [])"

definition object_ownKeys :: "nat \<Rightarrow> AugmentState \<Rightarrow> string list" where
  "object_ownKeys p st = (case ag_proxies st ! p of
     ObjectProxy a n deleted \<Rightarrow>
       filter (\<lambda>k. k \<notin> set deleted) (set_of_array (object_keys (ag_heap st ! a) @ object_keys (ag_heap st ! n)))
   | _ \<Rightarrow> [])"

definition object_getOwnPropertyDescriptor :: "nat \<Rightarrow> string \<Rightarrow> AugmentState \<Rightarrow> Descriptor option" where
  "object_getOwnPropertyDescriptor p k st = (case ag_proxies st ! p of
     ObjectProxy a n deleted \<Rightarrow>
       if k \<in> set deleted then None
       else map_option DataDescriptor
         (own_property (ag_heap st ! (if own_property (ag_heap st ! n) k \<noteq> None then n else a)) k)
   | _ \<Rightarrow> None)"

section \<open>Any value\<close>

text \<open>Reading, writing and deleting a property of a proxy.\<close>

definition proxy_get :: "nat \<Rightarrow> Key \<Rightarrow> AugmentState \<Rightarrow> Value \<times> AugmentState" where
  "proxy_get p key st = (case (ag_proxies st ! p, key) of
     (ObjectProxy _ _ _, Name k) \<Rightarrow> object_trap_get p k st
   | (ArrayProxy _ _, _) \<Rightarrow> array_trap_get p key st
   | _ \<Rightarrow> (Undefined, st))"

definition proxy_set :: "nat \<Rightarrow> Key \<Rightarrow> Value \<Rightarrow> AugmentState \<Rightarrow> AugmentState" where
  "proxy_set p key v st = (case (ag_proxies st ! p, key) of
     (ObjectProxy _ _ _, Name k) \<Rightarrow> object_trap_set p k v st
   | (ArrayProxy _ _, _) \<Rightarrow> array_trap_set p key v st
   | _ \<Rightarrow> st)"

definition proxy_delete :: "nat \<Rightarrow> Key \<Rightarrow> AugmentState \<Rightarrow> AugmentState" where
  "proxy_delete p key st = (case (ag_proxies st ! p, key) of
     (ObjectProxy _ _ _, Name k) \<Rightarrow> object_deleteProperty p k st
   | (ArrayProxy _ _, _) \<Rightarrow> array_deleteProperty p key st
   | _ \<Rightarrow> st)"

definition proxy_has :: "nat \<Rightarrow> Key \<Rightarrow> AugmentState \<Rightarrow> bool" where
  "proxy_has p key st = (case (ag_proxies st ! p, key) of
     (ObjectProxy _ _ _, Name k) \<Rightarrow> object_trap_has p k st
   | (ArrayProxy _ _, _) \<Rightarrow> array_read (array_data p st) key \<noteq> None
   | _ \<Rightarrow> False)"

definition proxy_ownKeys :: "nat \<Rightarrow> AugmentState \<Rightarrow> Key list" where
  "proxy_ownKeys p st = (case ag_proxies st ! p of
     ObjectProxy _ _ _ \<Rightarrow> map Name (object_ownKeys p st) | ArrayProxy _ _ \<Rightarrow> array_ownKeys (array_data p st))"

section \<open>Plain objects\<close>

text \<open>The same operations on an object itself, as the language has them.\<close>

definition plain_get :: "nat \<Rightarrow> Key \<Rightarrow> HeapObject list \<Rightarrow> Value" where
  "plain_get a key h = or_else (case (h ! a, key) of
     (PlainObject m, Name k) \<Rightarrow> map_of m k | (ArrayObject xs, _) \<Rightarrow> array_read xs key | _ \<Rightarrow> None) Undefined"

definition plain_set :: "nat \<Rightarrow> Key \<Rightarrow> Value \<Rightarrow> HeapObject list \<Rightarrow> HeapObject list" where
  "plain_set a key v h = h[a := (case (h ! a, key) of
     (PlainObject m, Name k) \<Rightarrow> PlainObject (js_put k v m) | (ArrayObject xs, _) \<Rightarrow> ArrayObject (array_write key v xs) | (ob, _) \<Rightarrow> ob)]"

definition plain_delete :: "nat \<Rightarrow> Key \<Rightarrow> HeapObject list \<Rightarrow> HeapObject list" where
  "plain_delete a key h = h[a := (case (h ! a, key) of
     (PlainObject m, Name k) \<Rightarrow> PlainObject (js_del k m) | (ArrayObject xs, _) \<Rightarrow> ArrayObject (array_remove key xs) | (ob, _) \<Rightarrow> ob)]"

definition plain_has :: "nat \<Rightarrow> Key \<Rightarrow> HeapObject list \<Rightarrow> bool" where
  "plain_has a key h = (case (h ! a, key) of
     (PlainObject m, Name k) \<Rightarrow> map_of m k \<noteq> None | (ArrayObject xs, _) \<Rightarrow> array_read xs key \<noteq> None | _ \<Rightarrow> False)"

text \<open>
  A code that starts with one object and reads, writes, deletes and tests properties of the objects it holds;
  it runs on the augmented object and on the object itself.
\<close>

datatype Operand = Held nat | Constant json

datatype AccessOp = GetOp nat Key | SetOp nat Key Operand | DeleteOp nat Key | HasOp nat Key

definition held_at :: "nat \<Rightarrow> Value list \<Rightarrow> Value" where
  "held_at r held = (if r < length held then held ! r else Undefined)"

fun operand :: "Value list \<Rightarrow> Operand \<Rightarrow> Value" where
  "operand held (Held r) = held_at r held"
| "operand held (Constant j) = Scalar j"

type_synonym 's access_session = "'s \<times> Value list \<times> bool list"

fun augmented_step :: "AccessOp \<Rightarrow> AugmentState access_session \<Rightarrow> AugmentState access_session" where
  "augmented_step (GetOp r key) (st, held, seen) = (case held_at r held of
     ProxyRef p \<Rightarrow> (let (v, st) = proxy_get p key st in (st, held @ [v], seen)) | _ \<Rightarrow> (st, held, seen))"
| "augmented_step (SetOp r key x) (st, held, seen) = (case held_at r held of
     ProxyRef p \<Rightarrow> (proxy_set p key (operand held x) st, held, seen) | _ \<Rightarrow> (st, held, seen))"
| "augmented_step (DeleteOp r key) (st, held, seen) = (case held_at r held of
     ProxyRef p \<Rightarrow> (proxy_delete p key st, held, seen) | _ \<Rightarrow> (st, held, seen))"
| "augmented_step (HasOp r key) (st, held, seen) = (case held_at r held of
     ProxyRef p \<Rightarrow> (st, held, seen @ [proxy_has p key st]) | _ \<Rightarrow> (st, held, seen))"

fun plain_step :: "AccessOp \<Rightarrow> HeapObject list access_session \<Rightarrow> HeapObject list access_session" where
  "plain_step (GetOp r key) (h, held, seen) = (case held_at r held of
     Ref a \<Rightarrow> (h, held @ [plain_get a key h], seen) | _ \<Rightarrow> (h, held, seen))"
| "plain_step (SetOp r key x) (h, held, seen) = (case held_at r held of
     Ref a \<Rightarrow> (plain_set a key (operand held x) h, held, seen) | _ \<Rightarrow> (h, held, seen))"
| "plain_step (DeleteOp r key) (h, held, seen) = (case held_at r held of
     Ref a \<Rightarrow> (plain_delete a key h, held, seen) | _ \<Rightarrow> (h, held, seen))"
| "plain_step (HasOp r key) (h, held, seen) = (case held_at r held of
     Ref a \<Rightarrow> (h, held, seen @ [plain_has a key h]) | _ \<Rightarrow> (h, held, seen))"

definition augmented_start :: "HeapObject list \<Rightarrow> nat \<Rightarrow> AugmentState access_session" where
  "augmented_start h start = (let (v, _, st) = augment (Ref start) \<lparr>ag_heap = h, ag_proxies = []\<rparr> in (st, [v], []))"

text \<open>The code reads no \<open>constructor\<close> and writes no \<open>undefined\<close>.\<close>

fun simple_access :: "Value list \<Rightarrow> AccessOp \<Rightarrow> bool" where
  "simple_access held (GetOp r key) = (key \<noteq> Name ''constructor'')"
| "simple_access held (SetOp r key x) = (operand held x \<noteq> Undefined)"
| "simple_access held _ = True"

fun simple_accesses :: "AccessOp list \<Rightarrow> HeapObject list access_session \<Rightarrow> bool" where
  "simple_accesses [] s = True"
| "simple_accesses (x # xs) s = (simple_access (fst (snd s)) x \<and> simple_accesses xs (plain_step x s))"

text \<open>The data is a tree of objects and arrays without holes, with scalars and \<open>undefined\<close> in them.\<close>

definition slots_of :: "HeapObject \<Rightarrow> (Key \<times> Value) list" where
  "slots_of ob = (case ob of
     PlainObject m \<Rightarrow> map (\<lambda>(k, v). (Name k, v)) m
   | ArrayObject xs \<Rightarrow> List.map_filter (\<lambda>(i, x). map_option (Pair (Index i)) x) (enumerate 0 xs))"

definition plain_value :: "nat \<Rightarrow> Value \<Rightarrow> bool" where
  "plain_value n v = (case v of Ref a \<Rightarrow> a < n | Scalar _ \<Rightarrow> True | Undefined \<Rightarrow> True | _ \<Rightarrow> False)"

definition is_ref :: "Value \<Rightarrow> bool" where
  "is_ref v = (case v of Ref _ \<Rightarrow> True | _ \<Rightarrow> False)"

definition data_tree :: "HeapObject list \<Rightarrow> nat \<Rightarrow> bool" where
  "data_tree h start \<longleftrightarrow> start < length h \<and>
     (\<forall>q < length h. \<forall>(k, v) \<in> set (slots_of (h ! q)). plain_value (length h) v \<and> v \<noteq> Ref start \<and>
        (\<forall>q' < length h. \<forall>(k', v') \<in> set (slots_of (h ! q')). is_ref v \<and> v' = v \<longrightarrow> q' = q \<and> k' = k)) \<and>
     (\<forall>q < length h. None \<notin> set (array_values (h ! q)))"

section \<open>Contents\<close>

text \<open>What an object has, and what a proxy shows.\<close>

datatype Content = ObjectContent "string \<Rightarrow> Value option" | ArrayContent "Value option list"

fun slot :: "Content \<Rightarrow> Key \<Rightarrow> Value option" where
  "slot (ObjectContent f) (Name k) = f k"
| "slot (ObjectContent f) _ = None"
| "slot (ArrayContent xs) key = array_read xs key"

fun write_slot :: "Key \<Rightarrow> Value \<Rightarrow> Content \<Rightarrow> Content" where
  "write_slot (Name k) v (ObjectContent f) = ObjectContent (f(k \<mapsto> v))"
| "write_slot _ v (ObjectContent f) = ObjectContent f"
| "write_slot key v (ArrayContent xs) = ArrayContent (array_write key v xs)"

fun remove_slot :: "Key \<Rightarrow> Content \<Rightarrow> Content" where
  "remove_slot (Name k) (ObjectContent f) = ObjectContent (f(k := None))"
| "remove_slot _ (ObjectContent f) = ObjectContent f"
| "remove_slot key (ArrayContent xs) = ArrayContent (array_remove key xs)"

fun content_of :: "HeapObject \<Rightarrow> Content" where
  "content_of (PlainObject m) = ObjectContent (map_of m)"
| "content_of (ArrayObject xs) = ArrayContent xs"

fun map_content :: "(Value \<Rightarrow> Value) \<Rightarrow> Content \<Rightarrow> Content" where
  "map_content g (ObjectContent f) = ObjectContent (\<lambda>k. map_option g (f k))"
| "map_content g (ArrayContent xs) = ArrayContent (map (map_option g) xs)"

fun shown :: "HeapObject list \<Rightarrow> AugmentedProxy \<Rightarrow> Content" where
  "shown h (ObjectProxy a n deleted) = ObjectContent (\<lambda>k. if k \<in> set deleted then None
     else case own_property (h ! n) k of Some v \<Rightarrow> Some v | None \<Rightarrow> own_property (h ! a) k)"
| "shown h (ArrayProxy a newData) = ArrayContent (array_values (h ! or_else newData a))"

definition view :: "AugmentState \<Rightarrow> nat \<Rightarrow> Content" where
  "view st p = shown (ag_heap st) (ag_proxies st ! p)"

fun proxy_target :: "AugmentedProxy \<Rightarrow> nat" where
  "proxy_target (ObjectProxy a _ _) = a"
| "proxy_target (ArrayProxy a _) = a"

fun proxy_data :: "AugmentedProxy \<Rightarrow> nat option" where
  "proxy_data (ObjectProxy _ n _) = Some n"
| "proxy_data (ArrayProxy _ n) = n"

definition target_of :: "AugmentState \<Rightarrow> nat \<Rightarrow> nat" where
  "target_of st p = proxy_target (ag_proxies st ! p)"

text \<open>The value in the copy that a value in the view stands for.\<close>

definition copy_of :: "AugmentState \<Rightarrow> Value \<Rightarrow> Value" where
  "copy_of st v = (case v of ProxyRef p \<Rightarrow> Ref (target_of st p) | _ \<Rightarrow> v)"

lemma put_index_length: "length (put_index i v xs) = max (length xs) (Suc i)"
  by (simp add: put_index_def)

lemma put_index_nth: "k < length (put_index i v xs) \<Longrightarrow>
    put_index i v xs ! k = (if k = i then Some v else if k < length xs then xs ! k else None)"
  by (auto simp: put_index_def nth_append)

lemma set_length_nth: "k < length (set_length v xs) \<Longrightarrow> set_length v xs ! k = (if k < length xs then xs ! k else None)"
  by (auto simp: set_length_def nth_append split: Value.splits json.splits if_splits)

lemma slot_put_index: "slot (ArrayContent (put_index i v xs)) (Index k) =
    (if k = i then Some v else slot (ArrayContent xs) (Index k))"
  using put_index_nth[of k i v xs] by (auto simp: put_index_length)

lemma write_slot_same: "slot c key = Some v \<Longrightarrow> key \<noteq> Length \<Longrightarrow> write_slot key v c = c"
  by (cases c; cases key) (auto simp: put_index_def fun_upd_idem split: if_splits, metis list_update_id)

lemma slot_write_slot: "slot c key = Some w \<Longrightarrow> key \<noteq> Length \<Longrightarrow> slot (write_slot key v c) key = Some v"
  by (cases c; cases key) (auto simp: put_index_length put_index_nth)

lemma slot_write_cases: "slot (write_slot key v c) k = Some u \<Longrightarrow> u = v \<or> (\<exists>j. u = Scalar j) \<or> slot c k = Some u"
  by (cases c; cases key; cases k)
    (auto simp: put_index_length put_index_nth set_length_nth num_value_def split: if_splits)

lemma slot_remove_cases: "slot (remove_slot key c) k = Some u \<Longrightarrow> slot c k = Some u"
proof (cases c)
  case (ArrayContent xs)
  have "xs[i := None] ! j = Some u \<Longrightarrow> j < length xs \<Longrightarrow> xs ! j = Some u" for i j
    by (cases "i = j") auto
  then show "slot (remove_slot key c) k = Some u \<Longrightarrow> slot c k = Some u"
    using ArrayContent by (cases key; cases k) (auto split: if_splits)
qed (cases key; cases k; auto split: if_splits)

text \<open>Maps that leave scalars alone.\<close>

definition keeps_scalars :: "(Value \<Rightarrow> Value) \<Rightarrow> bool" where
  "keeps_scalars g \<longleftrightarrow> (\<forall>v j. g v = Scalar j \<longleftrightarrow> v = Scalar j)"

lemma keeps_num: "keeps_scalars g \<Longrightarrow> g (num_value n) = num_value n"
  by (auto simp: keeps_scalars_def num_value_def)

lemma slot_map_content: "keeps_scalars g \<Longrightarrow> slot (map_content g c) key = map_option g (slot c key)"
  by (cases c; cases key) (auto simp: keeps_num)

lemma map_content_cong: "(\<And>k v. slot c k = Some v \<Longrightarrow> f v = g v) \<Longrightarrow> map_content f c = map_content g c"
proof (cases c)
  case (ObjectContent h)
  assume "\<And>k v. slot c k = Some v \<Longrightarrow> f v = g v"
  from this[of "Name k" v for k v] have "map_option f (h k) = map_option g (h k)" for k
    using ObjectContent by (cases "h k") simp_all
  then show ?thesis using ObjectContent by simp
next
  case (ArrayContent xs)
  assume same: "\<And>k v. slot c k = Some v \<Longrightarrow> f v = g v"
  have "map_option f x = map_option g x" if "x \<in> set xs" for x
  proof (cases x)
    case (Some v)
    then obtain i where "i < length xs" "xs ! i = Some v" using \<open>x \<in> set xs\<close> by (auto simp: in_set_conv_nth)
    then show ?thesis using Some ArrayContent same[of "Index i" v] by simp
  qed simp
  then show ?thesis using ArrayContent by simp
qed

lemma map_content_id: "(\<And>k v. slot c k = Some v \<Longrightarrow> f v = v) \<Longrightarrow> map_content f c = c"
proof -
  assume "\<And>k v. slot c k = Some v \<Longrightarrow> f v = v"
  then have "map_content f c = map_content (\<lambda>v. v) c" by (intro map_content_cong) auto
  also have "\<dots> = c" by (cases c) (simp_all add: option.map_ident map_idI)
  finally show ?thesis .
qed

lemma set_length_other: "(\<And>j. v \<noteq> Scalar j) \<Longrightarrow> set_length v xs = xs"
  by (cases v) (auto simp: set_length_def)

lemma set_length_map:
  fixes f :: "'a option \<Rightarrow> 'b option"
  assumes "keeps_scalars g" and "f None = None"
  shows "set_length (g v) (map f xs) = map f (set_length v xs)"
proof (cases "\<exists>j. v = Scalar j")
  case True
  then obtain j where "v = Scalar j" "g v = Scalar j" using assms(1) by (auto simp: keeps_scalars_def)
  then show ?thesis using assms(2) by (auto simp: set_length_def take_map split: json.split)
next
  case False
  then have "g v \<noteq> Scalar j" for j using assms(1) by (auto simp: keeps_scalars_def)
  then show ?thesis using False by (simp add: set_length_other)
qed

lemma write_map_content: "keeps_scalars g \<Longrightarrow> write_slot key (g v) (map_content g c) = map_content g (write_slot key v c)"
  by (cases c; cases key) (auto simp: put_index_def map_update set_length_map)

lemma remove_map_content: "remove_slot key (map_content g c) = map_content g (remove_slot key c)"
  by (cases c; cases key) (auto simp: map_update)

lemma keeps_copy_of: "keeps_scalars (copy_of st)"
  by (auto simp: keeps_scalars_def copy_of_def split: Value.splits)

section \<open>Plain objects by their contents\<close>

lemma plain_get_slot: "plain_get a key h = or_else (slot (content_of (h ! a)) key) Undefined"
  by (cases "h ! a"; cases key) (auto simp: plain_get_def)

lemma plain_has_slot: "plain_has a key h \<longleftrightarrow> slot (content_of (h ! a)) key \<noteq> None"
  by (cases "h ! a"; cases key) (auto simp: plain_has_def)

lemma plain_set_slot: "a < length h \<Longrightarrow> content_of (plain_set a key v h ! b) =
    (if b = a then write_slot key v (content_of (h ! a)) else content_of (h ! b))"
  by (cases "h ! a"; cases key) (auto simp: plain_set_def)

lemma plain_delete_slot: "a < length h \<Longrightarrow> content_of (plain_delete a key h ! b) =
    (if b = a then remove_slot key (content_of (h ! a)) else content_of (h ! b))"
  by (cases "h ! a"; cases key) (auto simp: plain_delete_def)

lemma plain_length [simp]: "length (plain_set a key v h) = length h" "length (plain_delete a key h) = length h"
  by (simp_all add: plain_set_def plain_delete_def)

section \<open>The shape of the state\<close>

text \<open>The data is not written; every proxy has its own \<open>newData\<close> outside of the data.\<close>

fun proxy_ok :: "HeapObject list \<Rightarrow> HeapObject list \<Rightarrow> AugmentedProxy \<Rightarrow> bool" where
  "proxy_ok h0 h (ObjectProxy a n deleted) \<longleftrightarrow> a < length h0 \<and> (\<exists>m. h0 ! a = PlainObject m) \<and> length h0 \<le> n \<and> n < length h \<and>
     (\<exists>m. h ! n = PlainObject m \<and> (\<forall>k v. map_of m k = Some v \<longrightarrow> \<not> is_ref v))"
| "proxy_ok h0 h (ArrayProxy a newData) \<longleftrightarrow> a < length h0 \<and> (\<exists>xs. h0 ! a = ArrayObject xs) \<and>
     (\<forall>d. newData = Some d \<longrightarrow> length h0 \<le> d \<and> d < length h \<and> (\<exists>xs. h ! d = ArrayObject xs))"

definition shaped :: "HeapObject list \<Rightarrow> AugmentState \<Rightarrow> bool" where
  "shaped h0 st \<longleftrightarrow> take (length h0) (ag_heap st) = h0 \<and> length h0 \<le> length (ag_heap st) \<and>
     (\<forall>x \<in> set (ag_proxies st). proxy_ok h0 (ag_heap st) x) \<and>
     (\<forall>p < length (ag_proxies st). \<forall>q < length (ag_proxies st). p \<noteq> q \<longrightarrow>
        proxy_data (ag_proxies st ! p) \<noteq> None \<longrightarrow> proxy_data (ag_proxies st ! p) \<noteq> proxy_data (ag_proxies st ! q))"

lemma shaped_heap: "shaped h0 st \<Longrightarrow> a < length h0 \<Longrightarrow> ag_heap st ! a = h0 ! a"
  unfolding shaped_def by (metis nth_take)

lemma shaped_proxy: "shaped h0 st \<Longrightarrow> p < length (ag_proxies st) \<Longrightarrow> proxy_ok h0 (ag_heap st) (ag_proxies st ! p)"
  by (simp add: shaped_def)

lemma proxy_ok_target: "proxy_ok h0 h x \<Longrightarrow> proxy_target x < length h0"
  by (cases x) auto

lemma proxy_ok_data: "proxy_ok h0 h x \<Longrightarrow> proxy_data x = Some d \<Longrightarrow> length h0 \<le> d \<and> d < length h"
  by (cases x) auto

lemma shown_cong: "h ! proxy_target x = h' ! proxy_target x \<Longrightarrow> (\<And>d. proxy_data x = Some d \<Longrightarrow> h ! d = h' ! d) \<Longrightarrow> shown h x = shown h' x"
  by (cases x) (auto simp: or_else_def split: option.split)

lemma proxy_ok_cong: "proxy_ok h0 h x \<Longrightarrow> length h \<le> length h' \<Longrightarrow> (\<And>d. proxy_data x = Some d \<Longrightarrow> h ! d = h' ! d) \<Longrightarrow> proxy_ok h0 h' x"
  by (cases x) auto

text \<open>The changes of a trap: one proxy shows something else.\<close>

definition becomes :: "HeapObject list \<Rightarrow> AugmentState \<Rightarrow> nat \<Rightarrow> Content \<Rightarrow> AugmentState \<Rightarrow> bool" where
  "becomes h0 st p c st' \<longleftrightarrow> shaped h0 st' \<and> map proxy_target (ag_proxies st') = map proxy_target (ag_proxies st) \<and>
     view st' p = c \<and> (\<forall>q < length (ag_proxies st). q \<noteq> p \<longrightarrow> view st' q = view st q)"

definition wraps :: "HeapObject list \<Rightarrow> AugmentState \<Rightarrow> nat \<Rightarrow> AugmentState \<Rightarrow> bool" where
  "wraps h0 st a st' \<longleftrightarrow> shaped h0 st' \<and> map proxy_target (ag_proxies st') = map proxy_target (ag_proxies st) @ [a] \<and>
     view st' (length (ag_proxies st)) = content_of (h0 ! a) \<and> (\<forall>q < length (ag_proxies st). view st' q = view st q)"

lemma becomes_same: "shaped h0 st \<Longrightarrow> becomes h0 st p (view st p) st"
  by (simp add: becomes_def)

lemma becomes_trans: "becomes h0 st p c st' \<Longrightarrow> becomes h0 st' p c' st'' \<Longrightarrow> becomes h0 st p c' st''"
  unfolding becomes_def by (metis length_map)

text \<open>A new object in the heap, a write to \<open>newData\<close>, another variable of the traps.\<close>

lemma becomes_alloc:
  assumes "shaped h0 st"
  shows "shaped h0 (st\<lparr>ag_heap := ag_heap st @ [ob]\<rparr>)" and "q < length (ag_proxies st) \<Longrightarrow> view (st\<lparr>ag_heap := ag_heap st @ [ob]\<rparr>) q = view st q"
proof -
  have same: "(ag_heap st @ [ob]) ! d = ag_heap st ! d" if "proxy_ok h0 (ag_heap st) x" "d = proxy_target x \<or> proxy_data x = Some d" for x d
    using that proxy_ok_target[of h0 "ag_heap st" x] proxy_ok_data[of h0 "ag_heap st" x] assms by (auto simp: shaped_def nth_append)
  show "shaped h0 (st\<lparr>ag_heap := ag_heap st @ [ob]\<rparr>)"
    using assms same proxy_ok_cong[of h0 "ag_heap st" _ "ag_heap st @ [ob]"] by (auto simp: shaped_def)
  show "view (st\<lparr>ag_heap := ag_heap st @ [ob]\<rparr>) q = view st q" if "q < length (ag_proxies st)"
    using same[OF shaped_proxy[OF assms that]] unfolding view_def by (auto intro: shown_cong)
qed

lemma becomes_write:
  assumes "shaped h0 st" and "p < length (ag_proxies st)" and "proxy_data (ag_proxies st ! p) = Some d"
    and "proxy_ok h0 ((ag_heap st)[d := ob]) (ag_proxies st ! p)"
  shows "becomes h0 st p (shown ((ag_heap st)[d := ob]) (ag_proxies st ! p)) (heap_put d ob st)"
proof -
  have d: "length h0 \<le> d" using shaped_proxy[OF assms(1,2)] assms(3) proxy_ok_data by blast
  have data: "(ag_heap st)[d := ob] ! proxy_target x = ag_heap st ! proxy_target x" if "proxy_ok h0 (ag_heap st) x" for x
    using proxy_ok_target[OF that] d by simp
  have other: "proxy_data (ag_proxies st ! q) \<noteq> Some d" if "q < length (ag_proxies st)" "q \<noteq> p" for q
    using assms(1-3) that unfolding shaped_def by (metis option.distinct(1))
  have "proxy_ok h0 ((ag_heap st)[d := ob]) x" if x: "x \<in> set (ag_proxies st)" for x
  proof -
    obtain q where q: "q < length (ag_proxies st)" "x = ag_proxies st ! q" using x by (auto simp: in_set_conv_nth)
    show ?thesis
    proof (cases "q = p")
      case True
      then show ?thesis using assms(4) q by simp
    next
      case False
      then have "ag_heap st ! e = (ag_heap st)[d := ob] ! e" if "proxy_data (ag_proxies st ! q) = Some e" for e
        using that other[OF q(1)] by (cases "e = d") auto
      then show ?thesis using proxy_ok_cong[OF shaped_proxy[OF assms(1) q(1)], of "(ag_heap st)[d := ob]"] q(2) by auto
    qed
  qed
  then have "shaped h0 (heap_put d ob st)" using assms(1) d by (simp add: shaped_def heap_put_def)
  moreover have "view (heap_put d ob st) q = view st q" if "q < length (ag_proxies st)" "q \<noteq> p" for q
    unfolding view_def heap_put_def using data[OF shaped_proxy[OF assms(1) that(1)]] other[OF that] by (auto intro!: shown_cong)
  ultimately show ?thesis by (simp add: becomes_def view_def heap_put_def)
qed

lemma becomes_put_proxy:
  assumes "shaped h0 st" and "p < length (ag_proxies st)" and "proxy_ok h0 (ag_heap st) x" and "proxy_target x = proxy_target (ag_proxies st ! p)"
    and "proxy_data x = proxy_data (ag_proxies st ! p)"
  shows "becomes h0 st p (shown (ag_heap st) x) (put_proxy p x st)"
proof -
  have "map proxy_target ((ag_proxies st)[p := x]) = map proxy_target (ag_proxies st)"
    using assms(2,4) by (simp add: map_update list_update_same_conv)
  moreover have "proxy_data ((ag_proxies st)[p := x] ! q) = proxy_data (ag_proxies st ! q)" for q
    using assms(2,5) by (cases "q = p") auto
  moreover have "proxy_ok h0 (ag_heap st) y" if "y \<in> set ((ag_proxies st)[p := x])" for y
    using that assms(1,3) set_update_subset_insert[of "ag_proxies st" p x] by (auto simp: shaped_def)
  ultimately show ?thesis using assms(1,2) by (auto simp: becomes_def shaped_def put_proxy_def view_def)
qed

section \<open>Traps\<close>

definition simple_value :: "Value \<Rightarrow> bool" where
  "simple_value v \<longleftrightarrow> (case v of Ref _ \<Rightarrow> False | DateValue _ \<Rightarrow> False | RegExpValue _ \<Rightarrow> False | _ \<Rightarrow> True)"

lemma augment_simple: "simple_value v \<Longrightarrow> augment v st = (v, False, st)"
  by (cases v) (auto simp: augment_def simple_value_def)

lemma simple_not_ref: "simple_value v \<Longrightarrow> \<not> is_ref v"
  by (cases v) (auto simp: simple_value_def is_ref_def)

lemma shaped_add_proxy:
  assumes "shaped h0 st" and "proxy_ok h0 (ag_heap st) x" and "\<And>q. q < length (ag_proxies st) \<Longrightarrow> proxy_data x \<noteq> None \<Longrightarrow> proxy_data (ag_proxies st ! q) \<noteq> proxy_data x"
    and "shown (ag_heap st) x = content_of (h0 ! proxy_target x)"
  shows "wraps h0 st (proxy_target x) (st\<lparr>ag_proxies := ag_proxies st @ [x]\<rparr>)"
proof -
  have "shaped h0 (st\<lparr>ag_proxies := ag_proxies st @ [x]\<rparr>)"
    using assms(1-3) unfolding shaped_def by (auto simp: nth_append less_Suc_eq; metis option.distinct(1))
  then show ?thesis using assms(4) by (simp add: wraps_def view_def nth_append)
qed

lemma augment_ref:
  assumes "shaped h0 st" and "a < length h0"
  shows "\<exists>st'. augment (Ref a) st = (ProxyRef (length (ag_proxies st)), True, st') \<and> wraps h0 st a st'"
proof (cases "h0 ! a")
  case (ArrayObject xs)
  have "wraps h0 st (proxy_target (ArrayProxy a None)) (st\<lparr>ag_proxies := ag_proxies st @ [ArrayProxy a None]\<rparr>)"
    using assms ArrayObject by (intro shaped_add_proxy) (simp_all add: shaped_heap or_else_def array_values_def)
  then show ?thesis using ArrayObject shaped_heap[OF assms] by (simp add: augment_def augmentArray_def)
next
  case (PlainObject m)
  let ?st = "st\<lparr>ag_heap := ag_heap st @ [PlainObject []]\<rparr>" and ?x = "ObjectProxy a (length (ag_heap st)) []"
  have len: "length h0 \<le> length (ag_heap st)" using assms(1) by (simp add: shaped_def)
  have "wraps h0 ?st (proxy_target ?x) (?st\<lparr>ag_proxies := ag_proxies ?st @ [?x]\<rparr>)"
  proof (rule shaped_add_proxy[OF becomes_alloc(1)[OF assms(1)]])
    show "proxy_ok h0 (ag_heap ?st) ?x" using assms PlainObject len by simp
    show "proxy_data (ag_proxies ?st ! q) \<noteq> proxy_data ?x" if "q < length (ag_proxies ?st)" for q
      using proxy_ok_data[OF shaped_proxy[OF assms(1)], of q] that by force
    show "shown (ag_heap ?st) ?x = content_of (h0 ! proxy_target ?x)"
      using assms PlainObject len shaped_heap[OF assms] by (auto simp: own_property_def nth_append)
  qed
  then have "wraps h0 st a (?st\<lparr>ag_proxies := ag_proxies st @ [?x]\<rparr>)"
    using becomes_alloc(2)[OF assms(1)] by (simp add: wraps_def)
  then show ?thesis using PlainObject shaped_heap[OF assms] by (simp add: augment_def augmentObject_def Let_def)
qed

text \<open>\<open>getData\<close> copies an array without holes.\<close>

lemma spread_id: "None \<notin> set xs \<Longrightarrow> spread xs = xs"
proof (induction xs)
  case (Cons x xs)
  then show ?case by (cases x) (simp_all add: spread_def or_else_def)
qed (simp add: spread_def)

lemma getData_becomes:
  assumes "shaped h0 st" and "p < length (ag_proxies st)" and "ag_proxies st ! p = ArrayProxy a newData" and "None \<notin> set (array_values (h0 ! a))"
  shows "\<exists>d st'. getData p st = (d, st') \<and> becomes h0 st p (view st p) st' \<and> ag_proxies st' ! p = ArrayProxy a (Some d)"
proof (cases newData)
  case (Some d)
  then show ?thesis using assms becomes_same by (auto simp: getData_def)
next
  case None
  let ?n = "length (ag_heap st)" and ?st = "st\<lparr>ag_heap := ag_heap st @ [ArrayObject (array_values (h0 ! a))]\<rparr>"
  let ?st' = "?st\<lparr>ag_proxies := (ag_proxies ?st)[p := ArrayProxy a (Some ?n)]\<rparr>"
  have a: "a < length h0" "length h0 \<le> ?n" using shaped_proxy[OF assms(1,2)] assms(1,3) by (simp_all add: shaped_def)
  have get: "getData p st = (?n, ?st')"
    using assms(3,4) None shaped_heap[OF assms(1) a(1)] by (simp add: getData_def spread_id)
  note st = becomes_alloc[OF assms(1), where ob = "ArrayObject (array_values (h0 ! a))"]
  have fresh: "proxy_data (ag_proxies st ! q) \<noteq> Some ?n" if "q < length (ag_proxies st)" for q
    using proxy_ok_data[OF shaped_proxy[OF assms(1) that]] by force
  have data: "proxy_data (ag_proxies ?st' ! q) = (if q = p then Some ?n else proxy_data (ag_proxies st ! q))" if "q < length (ag_proxies st)" for q
    using that by simp
  have "proxy_ok h0 (ag_heap ?st') x" if "x \<in> set (ag_proxies ?st')" for x
  proof -
    have "x = ArrayProxy a (Some ?n) \<or> x \<in> set (ag_proxies ?st)"
      using that set_update_subset_insert[of "ag_proxies st" p "ArrayProxy a (Some ?n)"] by auto
    moreover have "proxy_ok h0 (ag_heap ?st') (ArrayProxy a (Some ?n))"
      using shaped_proxy[OF assms(1,2)] assms(3) a by simp
    ultimately show ?thesis using st(1) by (auto simp: shaped_def)
  qed
  moreover have "proxy_data (ag_proxies ?st' ! i) \<noteq> proxy_data (ag_proxies ?st' ! j)"
    if "i < length (ag_proxies st)" "j < length (ag_proxies st)" "i \<noteq> j" "proxy_data (ag_proxies ?st' ! i) \<noteq> None" for i j
    using that assms(1) fresh unfolding shaped_def data[OF that(1)] data[OF that(2)] by (metis option.distinct(1))
  ultimately have "shaped h0 ?st'" using st(1) by (simp add: shaped_def)
  moreover have "map proxy_target (ag_proxies ?st') = map proxy_target (ag_proxies st)"
    using assms(2,3) by (simp add: map_update list_update_same_conv)
  moreover have "view ?st' p = view st p"
    using assms(2,3) None shaped_heap[OF assms(1) a(1)] by (simp add: view_def or_else_def array_values_def)
  moreover have "view ?st' q = view st q" if "q < length (ag_proxies st)" "q \<noteq> p" for q
    using st(2)[OF that(1)] that(2) by (simp add: view_def)
  ultimately show ?thesis using get assms(2) by (auto simp: becomes_def)
qed

lemma write_array:
  assumes "shaped h0 st" and "p < length (ag_proxies st)" and "ag_proxies st ! p = ArrayProxy a (Some d)"
  shows "becomes h0 st p (ArrayContent ys) (heap_put d (ArrayObject ys) st)"
proof -
  have ok: "proxy_ok h0 (ag_heap st) (ArrayProxy a (Some d))" using shaped_proxy[OF assms(1,2)] assms(3) by simp
  then have "becomes h0 st p (shown ((ag_heap st)[d := ArrayObject ys]) (ArrayProxy a (Some d))) (heap_put d (ArrayObject ys) st)"
    using becomes_write[OF assms(1,2), of d "ArrayObject ys"] assms(3) by simp
  then show ?thesis using ok by (simp add: or_else_def array_values_def)
qed

lemma becomes_length: "becomes h0 st p c st' \<Longrightarrow> length (ag_proxies st') = length (ag_proxies st)"
  unfolding becomes_def by (metis length_map)

text \<open>An array proxy after \<open>getData\<close> and a write.\<close>

lemma array_updated:
  assumes "shaped h0 st" and "p < length (ag_proxies st)" and "ag_proxies st ! p = ArrayProxy a newData" and "None \<notin> set (array_values (h0 ! a))"
    and "view st p = ArrayContent xs"
  shows "\<exists>d st'. getData p st = (d, st') \<and> array_values (ag_heap st' ! d) = xs \<and> (\<forall>ys. becomes h0 st p (ArrayContent ys) (heap_put d (ArrayObject ys) st'))"
proof -
  obtain d st' where d: "getData p st = (d, st')" "becomes h0 st p (view st p) st'" "ag_proxies st' ! p = ArrayProxy a (Some d)"
    using getData_becomes[OF assms(1-4)] by blast
  then have "becomes h0 st' p (ArrayContent ys) (heap_put d (ArrayObject ys) st')" for ys
    using write_array[of h0 st' p a d ys] assms(2) becomes_length[OF d(2)] by (simp add: becomes_def)
  moreover have "array_values (ag_heap st' ! d) = xs"
    using d(2,3) assms(5) by (simp add: becomes_def view_def or_else_def)
  ultimately show ?thesis using d(1) becomes_trans[OF d(2)] by blast
qed

lemma proxy_kind:
  assumes "shaped h0 st" and "p < length (ag_proxies st)"
  obtains (object) a n deleted m m' where "ag_proxies st ! p = ObjectProxy a n deleted" "h0 ! a = PlainObject m" "ag_heap st ! n = PlainObject m'"
      "a < length h0" "length h0 \<le> n" "n < length (ag_heap st)" "ag_heap st ! a = PlainObject m" "\<And>k v. map_of m' k = Some v \<Longrightarrow> \<not> is_ref v"
      "view st p = ObjectContent (\<lambda>k. if k \<in> set deleted then None else case map_of m' k of Some v \<Rightarrow> Some v | None \<Rightarrow> map_of m k)"
  | (array) a newData xs where "ag_proxies st ! p = ArrayProxy a newData" "view st p = ArrayContent xs" "array_data p st = xs"
proof (cases "ag_proxies st ! p")
  case (ObjectProxy a n deleted)
  then have ok: "proxy_ok h0 (ag_heap st) (ObjectProxy a n deleted)" using shaped_proxy[OF assms] by simp
  then obtain m m' where "h0 ! a = PlainObject m" "ag_heap st ! n = PlainObject m'" "\<And>k v. map_of m' k = Some v \<Longrightarrow> \<not> is_ref v" by auto
  moreover have "ag_heap st ! a = h0 ! a" using ok shaped_heap[OF assms(1)] by simp
  ultimately show ?thesis using ok ObjectProxy by (intro object[of a n deleted m m']) (auto simp: view_def own_property_def fun_eq_iff split: option.split)
next
  case (ArrayProxy a newData)
  then show ?thesis using array by (simp add: view_def array_data_def)
qed

lemma proxy_get_simple:
  assumes "shaped h0 st" and "p < length (ag_proxies st)" and "key \<noteq> Name ''constructor''"
    and "simple_value (or_else (slot (view st p) key) Undefined)"
  shows "proxy_get p key st = (or_else (slot (view st p) key) Undefined, st)"
  using assms(1,2)
proof (cases rule: proxy_kind)
  case (object a n deleted m m')
  show ?thesis
  proof (cases key)
    case (Name k)
    consider "k \<in> set deleted" | "k \<notin> set deleted" "map_of m' k \<noteq> None" | "k \<notin> set deleted" "map_of m' k = None" by blast
    then show ?thesis
    proof cases
      case 3
      let ?w = "or_else (map_of m k) Undefined"
      have "simple_value ?w" using assms(4) object 3 Name by simp
      then show ?thesis using object 3 Name assms(3) augment_simple[of ?w st]
        by (cases ?w) (auto simp: proxy_get_def object_trap_get_def own_property_def simple_value_def)
    qed (use object Name assms(3) in \<open>auto simp: proxy_get_def object_trap_get_def own_property_def or_else_def\<close>)
  qed (use object in \<open>simp_all add: proxy_get_def or_else_def\<close>)
next
  case (array a newData xs)
  have "array_values (ag_heap st ! or_else newData a) = xs" using array by (simp add: array_data_def)
  then show ?thesis using array assms(3,4) by (simp add: proxy_get_def array_trap_get_def augment_simple)
qed

lemma wraps_length: "wraps h0 st a st' \<Longrightarrow> length (ag_proxies st') = Suc (length (ag_proxies st))"
  unfolding wraps_def by (metis length_map length_append_singleton)

lemma proxy_set_becomes:
  assumes "shaped h0 st" and "p < length (ag_proxies st)" and "simple_value v" and "v \<noteq> Undefined"
    and holes: "\<forall>a < length h0. None \<notin> set (array_values (h0 ! a))"
  shows "becomes h0 st p (write_slot key v (view st p)) (proxy_set p key v st)"
  using assms(1,2)
proof (cases rule: proxy_kind)
  case (object a n deleted m m')
  show ?thesis
  proof (cases key)
    case (Name k)
    let ?h = "(ag_heap st)[n := PlainObject (js_put k v m')]" and ?x = "ObjectProxy a n (set_del k deleted)"
    have "a \<noteq> n" using object by simp
    have ok: "proxy_ok h0 ?h (ObjectProxy a n ds)" for ds
      using object simple_not_ref[OF assms(3)] by auto
    have put: "becomes h0 st p (shown ?h (ag_proxies st ! p)) (heap_put n (PlainObject (js_put k v m')) st)"
      using object ok by (intro becomes_write assms) simp_all
    then have "becomes h0 (heap_put n (PlainObject (js_put k v m')) st) p (shown ?h ?x) (put_proxy p ?x (heap_put n (PlainObject (js_put k v m')) st))"
      using becomes_put_proxy[of h0 "heap_put n (PlainObject (js_put k v m')) st" p ?x] object ok assms(2)
      by (simp add: becomes_def heap_put_def)
    then have "becomes h0 st p (shown ?h ?x) (put_proxy p ?x (heap_put n (PlainObject (js_put k v m')) st))"
      using put becomes_trans by blast
    moreover have "shown ?h ?x = write_slot key v (view st p)"
      using object Name \<open>a \<noteq> n\<close> by (auto simp: own_property_def fun_eq_iff split: option.split)
    moreover have "proxy_set p key v st = put_proxy p ?x (heap_put n (PlainObject (js_put k v m')) st)"
      using object Name assms(4) by (simp add: proxy_set_def object_trap_set_def put_own_def)
    ultimately show ?thesis by simp
  qed (use object becomes_same[OF assms(1), of p] in \<open>simp_all add: proxy_set_def\<close>)
next
  case (array a newData xs)
  have "a < length h0" using shaped_proxy[OF assms(1,2)] array by simp
  then obtain d st' where "getData p st = (d, st')" "array_values (ag_heap st' ! d) = xs" "\<forall>ys. becomes h0 st p (ArrayContent ys) (heap_put d (ArrayObject ys) st')"
    using array_updated[OF assms(1,2) array(1) _ array(2)] holes by blast
  then show ?thesis using array by (simp add: proxy_set_def array_trap_set_def augment_simple[OF assms(3)])
qed

lemma proxy_delete_becomes:
  assumes "shaped h0 st" and "p < length (ag_proxies st)" and holes: "\<forall>a < length h0. None \<notin> set (array_values (h0 ! a))"
  shows "becomes h0 st p (remove_slot key (view st p)) (proxy_delete p key st)"
  using assms(1,2)
proof (cases rule: proxy_kind)
  case (object a n deleted m m')
  show ?thesis
  proof (cases key)
    case (Name k)
    let ?h = "(ag_heap st)[n := PlainObject (js_del k m')]" and ?x = "ObjectProxy a n (set_add k deleted)"
    have "a \<noteq> n" using object by simp
    let ?st = "if map_of m' k \<noteq> None then heap_put n (PlainObject (js_del k m')) st else st"
    have ok: "proxy_ok h0 ?h (ObjectProxy a n ds)" "proxy_ok h0 (ag_heap st) (ObjectProxy a n ds)" for ds
      using object by (auto split: if_splits)
    have del: "becomes h0 st p (shown (ag_heap ?st) (ag_proxies st ! p)) ?st"
    proof (cases "map_of m' k = None")
      case True
      then show ?thesis using becomes_same[OF assms(1), of p] by (simp add: view_def)
    next
      case False
      have "becomes h0 st p (shown ?h (ag_proxies st ! p)) (heap_put n (PlainObject (js_del k m')) st)"
        using object ok by (intro becomes_write assms) simp_all
      then show ?thesis using False by (simp add: heap_put_def)
    qed
    have "shaped h0 ?st" "ag_proxies ?st = ag_proxies st" using del by (simp_all add: becomes_def heap_put_def)
    moreover have "proxy_ok h0 (ag_heap ?st) ?x" using ok[of "set_add k deleted"]
      by (cases "map_of m' k") (simp_all add: heap_put_def del: proxy_ok.simps)
    ultimately have "becomes h0 ?st p (shown (ag_heap ?st) ?x) (put_proxy p ?x ?st)"
      using assms(2) object by (intro becomes_put_proxy) simp_all
    then have del': "becomes h0 st p (shown (ag_heap ?st) ?x) (put_proxy p ?x ?st)" using del becomes_trans by blast
    have st: "proxy_delete p key st = (if map_of m k \<noteq> None then put_proxy p ?x ?st else ?st)"
      using object Name by (simp add: proxy_delete_def object_deleteProperty_def own_property_def del_own_def heap_put_def)
    have some: "shown (ag_heap ?st) ?x = remove_slot key (view st p)"
      using object Name \<open>a \<noteq> n\<close> by (auto simp: own_property_def fun_eq_iff heap_put_def split: option.splits)
    have none: "shown (ag_heap ?st) (ag_proxies st ! p) = remove_slot key (view st p)" if "map_of m k = None"
      using object Name \<open>a \<noteq> n\<close> that by (auto simp: own_property_def fun_eq_iff heap_put_def split: option.splits)
    show ?thesis
    proof (cases "map_of m k = None")
      case True
      then have "proxy_delete p key st = ?st" using st by simp
      then show ?thesis using del unfolding none[OF True] by (simp only:)
    next
      case False
      then have "proxy_delete p key st = put_proxy p ?x ?st" using st by simp
      then show ?thesis using del' unfolding some by (simp only:)
    qed
  qed (use object becomes_same[OF assms(1), of p] in \<open>simp_all add: proxy_delete_def\<close>)
next
  case (array a newData xs)
  have "a < length h0" using shaped_proxy[OF assms(1,2)] array by simp
  then obtain d st' where "getData p st = (d, st')" "array_values (ag_heap st' ! d) = xs" "\<forall>ys. becomes h0 st p (ArrayContent ys) (heap_put d (ArrayObject ys) st')"
    using array_updated[OF assms(1,2) array(1) _ array(2)] holes by blast
  then show ?thesis using array by (simp add: proxy_delete_def array_deleteProperty_def)
qed

lemma proxy_has_slot:
  assumes "shaped h0 st" and "p < length (ag_proxies st)"
  shows "proxy_has p key st \<longleftrightarrow> slot (view st p) key \<noteq> None"
  using assms
proof (cases rule: proxy_kind)
  case (object a n deleted m m')
  then show ?thesis by (cases key) (auto simp: proxy_has_def object_trap_has_def own_property_def split: option.splits)
qed (simp add: proxy_has_def)

lemma proxy_ownKeys_slots:
  assumes "shaped h0 st" and "p < length (ag_proxies st)"
  shows "set (proxy_ownKeys p st) = {key. slot (view st p) key \<noteq> None}"
  using assms
proof (cases rule: proxy_kind)
  case (object a n deleted m m')
  have "slot (view st p) key \<noteq> None \<longleftrightarrow> (\<exists>k. key = Name k \<and> k \<notin> set deleted \<and> (map_of m k \<noteq> None \<or> map_of m' k \<noteq> None))" for key
    using object by (cases key) (auto split: option.split)
  moreover have "(map_of ms k \<noteq> None) = (k \<in> set (js_keys ms))" for ms :: "(string, Value) js_map" and k
    by (simp add: js_keys_def map_of_eq_None_iff)
  ultimately show ?thesis using object by (auto simp: proxy_ownKeys_def object_ownKeys_def object_keys_def)
next
  case (array a newData xs)
  have "slot (ArrayContent xs) key \<noteq> None \<longleftrightarrow> key \<in> set (array_ownKeys xs)" for key
    by (cases key) (auto simp: array_ownKeys_def)
  then show ?thesis using array by (auto simp: proxy_ownKeys_def)
qed

lemma proxy_get_ref:
  assumes "shaped h0 st" and "p < length (ag_proxies st)" and "key \<noteq> Name ''constructor''" and slot: "slot (view st p) key = Some (Ref b)"
    and "b < length h0" and holes: "\<forall>a < length h0. None \<notin> set (array_values (h0 ! a))"
  shows "\<exists>st1 st'. proxy_get p key st = (ProxyRef (length (ag_proxies st)), st') \<and> wraps h0 st b st1 \<and>
    becomes h0 st1 p (write_slot key (ProxyRef (length (ag_proxies st))) (view st p)) st'"
proof -
  let ?v = "ProxyRef (length (ag_proxies st))"
  obtain st1 where st1: "augment (Ref b) st = (?v, True, st1)" "wraps h0 st b st1" using augment_ref[OF assms(1,5)] by blast
  have ok: "shaped h0 st1" "p < length (ag_proxies st1)" "view st1 p = view st p"
    using st1(2) assms(2) wraps_length[OF st1(2)] by (auto simp: wraps_def)
  have same: "ag_proxies st1 ! p = ag_proxies st ! p \<and> (\<forall>n < length (ag_heap st). ag_heap st1 ! n = ag_heap st ! n)"
    using st1(1) assms(2) by (auto simp: augment_def augmentArray_def augmentObject_def Let_def nth_append split: HeapObject.splits)
  show ?thesis using assms(1,2)
  proof (cases rule: proxy_kind)
    case (object a n deleted m m')
    have no: "map_of m' k \<noteq> Some (Ref b)" for k using object(8)[of k "Ref b"] by (auto simp: is_ref_def)
    obtain k where k: "key = Name k" "k \<notin> set deleted" "map_of m' k = None" "map_of m k = Some (Ref b)"
      using slot no unfolding object(9) by (cases key) (auto split: if_splits option.splits)
    let ?st' = "heap_put n (PlainObject (js_put k ?v m')) st1"
    have n: "ag_heap st1 ! n = PlainObject m'" "ag_heap st1 ! a = PlainObject m" "a \<noteq> n" "n < length (ag_heap st1)"
      using object same shaped_heap[OF ok(1), of a] shaped_proxy[OF ok(1,2)] by auto
    have "becomes h0 st1 p (shown ((ag_heap st1)[n := PlainObject (js_put k ?v m')]) (ag_proxies st1 ! p)) ?st'"
      using object n same ok(1) by (intro becomes_write[OF ok(1,2)]) (auto simp: is_ref_def split: if_splits)
    moreover have "shown ((ag_heap st1)[n := PlainObject (js_put k ?v m')]) (ag_proxies st1 ! p) = write_slot key ?v (view st p)"
      using object n same k by (auto simp: own_property_def fun_eq_iff split: option.split)
    moreover have "proxy_get p key st = (?v, ?st')"
      using object k assms(3) st1(1) n by (simp add: proxy_get_def object_trap_get_def own_property_def or_else_def put_own_def)
    ultimately show ?thesis using st1(2) by auto
  next
    case (array a newData xs)
    have a: "a < length h0" using shaped_proxy[OF assms(1,2)] array by simp
    have "ag_proxies st1 ! p = ArrayProxy a newData" "view st1 p = ArrayContent xs" using same array ok by auto
    then obtain d st2 where d: "getData p st1 = (d, st2)" "array_values (ag_heap st2 ! d) = xs"
        "\<forall>ys. becomes h0 st1 p (ArrayContent ys) (heap_put d (ArrayObject ys) st2)"
      using array_updated[OF ok(1,2) _ _ \<open>view st1 p = ArrayContent xs\<close>, of a newData] holes a by blast
    have "array_values (ag_heap st ! or_else newData a) = xs" using array by (simp add: array_data_def)
    then have "proxy_get p key st = (?v, heap_put d (ArrayObject (array_write key ?v xs)) st2)"
      using array assms(3) slot st1(1) d(1,2) by (simp add: proxy_get_def array_trap_get_def write_new_data_def or_else_def)
    then show ?thesis using st1(2) d(3) array by auto
  qed
qed

section \<open>The copy\<close>

text \<open>What a proxy shows is what the code may have, or data that was not read yet at its place.\<close>

definition held_ok :: "AugmentState \<Rightarrow> Value \<Rightarrow> bool" where
  "held_ok st v \<longleftrightarrow> (case v of ProxyRef p \<Rightarrow> p < length (ag_proxies st) | Scalar _ \<Rightarrow> True | Undefined \<Rightarrow> True | _ \<Rightarrow> False)"

definition data_slot :: "HeapObject list \<Rightarrow> nat \<Rightarrow> Key \<Rightarrow> Value option" where
  "data_slot h0 a key = slot (content_of (h0 ! a)) key"

definition good_views :: "HeapObject list \<Rightarrow> AugmentState \<Rightarrow> bool" where
  "good_views h0 st \<longleftrightarrow>
     (\<forall>p < length (ag_proxies st). \<forall>key v. slot (view st p) key = Some v \<longrightarrow>
        held_ok st v \<or> (is_ref v \<and> data_slot h0 (target_of st p) key = Some v)) \<and>
     (\<forall>p < length (ag_proxies st). \<forall>q < length (ag_proxies st). target_of st p = target_of st q \<longrightarrow> p = q) \<and>
     (\<forall>p < length (ag_proxies st). \<forall>a < length h0. \<forall>key. data_slot h0 a key = Some (Ref (target_of st p)) \<longrightarrow>
        (\<exists>q < length (ag_proxies st). target_of st q = a \<and> slot (view st q) key \<noteq> Some (Ref (target_of st p))))"

text \<open>The heap on which the code runs without proxies has the contents that the proxies show.\<close>

definition copied :: "HeapObject list \<Rightarrow> AugmentState \<Rightarrow> HeapObject list \<Rightarrow> bool" where
  "copied h0 st h \<longleftrightarrow> length h = length h0 \<and>
     (\<forall>p < length (ag_proxies st). content_of (h ! target_of st p) = map_content (copy_of st) (view st p)) \<and>
     (\<forall>a < length h0. a \<notin> target_of st ` {..<length (ag_proxies st)} \<longrightarrow> h ! a = h0 ! a)"

lemma slot_in_slots: "slot (content_of ob) key = Some v \<Longrightarrow> (\<exists>j. v = Scalar j) \<or> (key, v) \<in> set (slots_of ob)"
proof (cases ob)
  case (PlainObject m)
  then show "slot (content_of ob) key = Some v \<Longrightarrow> ?thesis"
    by (cases key) (force simp: slots_of_def dest: map_of_SomeD)+
next
  case (ArrayObject xs)
  have "(Index i, v) \<in> set (slots_of ob)" if "i < length xs" "xs ! i = Some v" for i
  proof -
    have "(i, xs ! i) \<in> set (enumerate 0 xs)" using that(1) by (simp add: in_set_enumerate_eq)
    then show ?thesis using ArrayObject that(2) by (force simp: slots_of_def map_filter_def)
  qed
  then show "slot (content_of ob) key = Some v \<Longrightarrow> ?thesis"
    using ArrayObject by (cases key) (auto simp: num_value_def split: if_splits)
qed

lemma data_tree_value:
  assumes "data_tree h0 start" and "a < length h0" and "data_slot h0 a key = Some v"
  shows "plain_value (length h0) v \<and> v \<noteq> Ref start"
  using slot_in_slots[OF assms(3)[unfolded data_slot_def]]
proof
  assume "(key, v) \<in> set (slots_of (h0 ! a))"
  then show ?thesis using assms(1,2) unfolding data_tree_def by blast
qed (auto simp: plain_value_def)

lemma data_tree_unique:
  assumes "data_tree h0 start" and "a < length h0" and "data_slot h0 a key = Some (Ref v)" and "b < length h0" and "data_slot h0 b key' = Some (Ref v)"
  shows "b = a \<and> key' = key"
proof -
  have "(key, Ref v) \<in> set (slots_of (h0 ! a))" "(key', Ref v) \<in> set (slots_of (h0 ! b))"
    using slot_in_slots[of "h0 ! a" key "Ref v"] slot_in_slots[of "h0 ! b" key' "Ref v"] assms(3,5) by (auto simp: data_slot_def)
  moreover have "is_ref (Ref v)" by (simp add: is_ref_def)
  ultimately show ?thesis using assms(1,2,4) unfolding data_tree_def by fast
qed

lemma target_of_map: "target_of st p = map proxy_target (ag_proxies st) ! p" if "p < length (ag_proxies st)"
  using that by (simp add: target_of_def)

lemma becomes_targets: "becomes h0 st p c st' \<Longrightarrow> q < length (ag_proxies st) \<Longrightarrow> target_of st' q = target_of st q"
  using target_of_map[of q st] target_of_map[of q st'] becomes_length[of h0 st p c st'] by (simp add: becomes_def)

lemma wraps_targets: "wraps h0 st b st' \<Longrightarrow> q \<le> length (ag_proxies st) \<Longrightarrow> target_of st' q = (if q = length (ag_proxies st) then b else target_of st q)"
  using target_of_map[of q st] target_of_map[of q st'] wraps_length[of h0 st b st']
  by (auto simp: wraps_def nth_append)

lemma held_ok_mono: "held_ok st v \<Longrightarrow> length (ag_proxies st) \<le> length (ag_proxies st') \<Longrightarrow> held_ok st' v"
  by (cases v) (auto simp: held_ok_def)

lemma held_not_ref: "held_ok st v \<Longrightarrow> \<not> is_ref v"
  by (cases v) (auto simp: held_ok_def is_ref_def)

lemma held_simple: "held_ok st v \<Longrightarrow> simple_value v"
  by (cases v) (auto simp: held_ok_def simple_value_def)

lemma is_ref_Ref [simp]: "is_ref (Ref a)"
  by (simp add: is_ref_def)

lemma copy_of_same:
  assumes "\<forall>q < length (ag_proxies st). target_of st' q = target_of st q" and "held_ok st v \<or> is_ref v"
  shows "copy_of st' v = copy_of st v"
  using assms by (cases v) (auto simp: copy_of_def held_ok_def is_ref_def)

lemma good_value: "good_views h0 st \<Longrightarrow> p < length (ag_proxies st) \<Longrightarrow> slot (view st p) key = Some v \<Longrightarrow>
    held_ok st v \<or> (is_ref v \<and> data_slot h0 (target_of st p) key = Some v)"
  by (simp add: good_views_def)

lemma good_targets: "good_views h0 st \<Longrightarrow> p < length (ag_proxies st) \<Longrightarrow> q < length (ag_proxies st) \<Longrightarrow> target_of st p = target_of st q \<Longrightarrow> p = q"
  by (simp add: good_views_def)

lemma good_parent: "good_views h0 st \<Longrightarrow> p < length (ag_proxies st) \<Longrightarrow> a < length h0 \<Longrightarrow>
    data_slot h0 a key = Some (Ref (target_of st p)) \<Longrightarrow>
    \<exists>q < length (ag_proxies st). target_of st q = a \<and> slot (view st q) key \<noteq> Some (Ref (target_of st p))"
  by (simp add: good_views_def)

lemma map_content_same:
  assumes "\<forall>q < length (ag_proxies st). target_of st' q = target_of st q"
    and "\<And>key v. slot c key = Some v \<Longrightarrow> held_ok st v \<or> is_ref v"
  shows "map_content (copy_of st') c = map_content (copy_of st) c"
  using copy_of_same[OF assms(1)] assms(2) by (intro map_content_cong) blast

lemma good_becomes:
  assumes "good_views h0 st" and "becomes h0 st p c st'" and "p < length (ag_proxies st)"
    and "\<And>key v. slot c key = Some v \<Longrightarrow> held_ok st v \<or> slot (view st p) key = Some v"
  shows "good_views h0 st'"
proof -
  have len: "length (ag_proxies st') = length (ag_proxies st)" using becomes_length[OF assms(2)] .
  note targets = becomes_targets[OF assms(2)]
  have views: "view st' q = (if q = p then c else view st q)" if "q < length (ag_proxies st)" for q
    using assms(2) that by (simp add: becomes_def)
  have held: "held_ok st' v = held_ok st v" for v using len by (cases v) (simp_all add: held_ok_def)
  have "held_ok st' v \<or> (is_ref v \<and> data_slot h0 (target_of st' q) key = Some v)"
    if "q < length (ag_proxies st')" "slot (view st' q) key = Some v" for q key v
    using that len views[of q] targets[of q] held assms(4)[of key v] good_value[OF assms(1), of q key v] by (auto split: if_splits)
  moreover have "\<exists>q < length (ag_proxies st'). target_of st' q = a \<and> slot (view st' q) key \<noteq> Some (Ref (target_of st' i))"
    if i: "i < length (ag_proxies st')" "a < length h0" "data_slot h0 a key = Some (Ref (target_of st' i))" for i a key
  proof -
    obtain q where q: "q < length (ag_proxies st)" "target_of st q = a" "slot (view st q) key \<noteq> Some (Ref (target_of st i))"
      using assms(1) i len targets[of i] unfolding good_views_def by metis
    then have "slot (view st' q) key \<noteq> Some (Ref (target_of st' i))"
      using views[OF q(1)] assms(4)[of key "Ref (target_of st i)"] held_not_ref[of st "Ref (target_of st i)"] targets[of i] i(1) len
      by (auto split: if_splits)
    then show ?thesis using q targets len by metis
  qed
  moreover have "target_of st' i = target_of st' j \<longrightarrow> i = j" if "i < length (ag_proxies st')" "j < length (ag_proxies st')" for i j
    using assms(1) that len targets unfolding good_views_def by simp
  ultimately show ?thesis unfolding good_views_def by blast
qed

lemma copied_becomes:
  assumes "copied h0 st h" and "good_views h0 st" and "becomes h0 st p c st'" and "p < length (ag_proxies st)"
    and vals: "\<And>key v. slot c key = Some v \<Longrightarrow> held_ok st v \<or> slot (view st p) key = Some v"
    and "length h' = length h" and "\<And>b. content_of (h' ! b) = (if b = target_of st p then map_content (copy_of st) c else content_of (h ! b))"
    and "\<And>b. b \<noteq> target_of st p \<Longrightarrow> h' ! b = h ! b"
  shows "copied h0 st' h'"
proof -
  have len: "length (ag_proxies st') = length (ag_proxies st)" using becomes_length[OF assms(3)] .
  have targets: "\<forall>q < length (ag_proxies st). target_of st' q = target_of st q" using becomes_targets[OF assms(3)] by blast
  have "content_of (h' ! target_of st' q) = map_content (copy_of st') (view st' q)" if q: "q < length (ag_proxies st)" for q
  proof (cases "q = p")
    case True
    have "map_content (copy_of st') c = map_content (copy_of st) c"
      using map_content_same[OF targets] vals good_value[OF assms(2,4)] by blast
    then show ?thesis using True assms(3,4,7) targets by (simp add: becomes_def)
  next
    case False
    then have "target_of st q \<noteq> target_of st p" using assms(2,4) q unfolding good_views_def by blast
    moreover have "map_content (copy_of st') (view st q) = map_content (copy_of st) (view st q)"
      using map_content_same[OF targets] good_value[OF assms(2) q] by blast
    moreover have "view st' q = view st q" using assms(3) q False by (simp add: becomes_def)
    ultimately show ?thesis using assms(1,7) targets q by (simp add: copied_def)
  qed
  moreover have "target_of st' ` {..<length (ag_proxies st)} = target_of st ` {..<length (ag_proxies st)}" using targets by auto
  ultimately show ?thesis using assms(1,4,6,8) len unfolding copied_def by (metis imageI lessThan_iff)
qed

text \<open>Reading an object that was not read before.\<close>

lemma reading_wraps:
  assumes "shaped h0 st" and good: "good_views h0 st" and "copied h0 st h" and tree: "data_tree h0 start"
    and p: "p < length (ag_proxies st)" and slot: "slot (view st p) key = Some (Ref b)"
    and wraps: "wraps h0 st b st1" and becomes: "becomes h0 st1 p (write_slot key (ProxyRef (length (ag_proxies st))) (view st p)) st'"
  shows "good_views h0 st'" and "copied h0 st' h" and "length (ag_proxies st') = Suc (length (ag_proxies st))"
    and "target_of st' (length (ag_proxies st)) = b" and "\<forall>q < length (ag_proxies st). target_of st' q = target_of st q"
proof -
  let ?N = "length (ag_proxies st)"
  have key: "key \<noteq> Length" using slot by (cases "view st p") (auto simp: num_value_def)
  have tp: "target_of st p < length h0" using shaped_proxy[OF assms(1) p] proxy_ok_target by (simp add: target_of_def)
  have from_data: "data_slot h0 (target_of st p) key = Some (Ref b)"
    using good_value[OF good p slot] held_not_ref[of st "Ref b"] by auto
  have b: "b < length h0" using data_tree_value[OF tree tp from_data] by (simp add: plain_value_def)
  have len: "length (ag_proxies st') = Suc ?N" using becomes_length[OF becomes] wraps_length[OF wraps] by simp
  then show "length (ag_proxies st') = Suc ?N" .
  have targets: "target_of st' q = (if q = ?N then b else target_of st q)" if "q \<le> ?N" for q
    using becomes_targets[OF becomes, of q] wraps_targets[OF wraps that] wraps_length[OF wraps] that by simp
  then show old: "\<forall>q < ?N. target_of st' q = target_of st q" and new: "target_of st' ?N = b" by auto
  have views: "view st' q = (if q = ?N then content_of (h0 ! b) else if q = p then write_slot key (ProxyRef ?N) (view st p) else view st q)"
    if "q \<le> ?N" for q
  proof (cases "q = p")
    case True
    then show ?thesis using becomes p by (simp add: becomes_def)
  next
    case False
    then have "view st' q = view st1 q" using becomes that wraps_length[OF wraps] by (simp add: becomes_def)
    moreover have "view st1 q = (if q = ?N then content_of (h0 ! b) else view st q)" using wraps that by (simp add: wraps_def)
    ultimately show ?thesis using False by simp
  qed
  have fresh: "target_of st q \<noteq> b" if q: "q < ?N" for q
  proof
    assume "target_of st q = b"
    then obtain q' where q': "q' < ?N" "target_of st q' = target_of st p" "slot (view st q') key \<noteq> Some (Ref b)"
      using good_parent[OF good q tp, of key] from_data by auto
    have "q' = p" using good_targets[OF good q'(1) p q'(2)] .
    then show False using slot q'(3) by simp
  qed
  have held: "held_ok st v \<Longrightarrow> held_ok st' v" for v using held_ok_mono[of st v st'] len by simp
  have plain: "held_ok st' v \<or> is_ref v" if "plain_value n v" for v n using that by (cases v) (auto simp: plain_value_def held_ok_def)
  have new_slot: "plain_value (length h0) v" if "slot (content_of (h0 ! b)) key' = Some v" for key' v
    using data_tree_value[OF tree b] that by (simp add: data_slot_def)
  show "good_views h0 st'" unfolding good_views_def
  proof (intro conjI allI impI)
    fix q key' v assume q: "q < length (ag_proxies st')" and v: "slot (view st' q) key' = Some v"
    consider "q = ?N" | "q = p" | "q < ?N" "q \<noteq> p" using q len by linarith
    then show "held_ok st' v \<or> (is_ref v \<and> data_slot h0 (target_of st' q) key' = Some v)"
    proof cases
      case 1
      then show ?thesis using v views[of q] targets[of q] plain new_slot by (auto simp: data_slot_def)
    next
      case 2
      then have "v = ProxyRef ?N \<or> (\<exists>j. v = Scalar j) \<or> slot (view st p) key' = Some v"
        using v views[of p] p slot_write_cases by auto
      then show ?thesis using 2 p len targets[of p] held good_value[OF good p, of key' v] by (auto simp: held_ok_def)
    next
      case 3
      then show ?thesis using v views[of q] targets[of q] held good_value[OF good, of q key' v] by auto
    qed
  next
    fix i j assume "i < length (ag_proxies st')" "j < length (ag_proxies st')" and same: "target_of st' i = target_of st' j"
    then have le: "i \<le> ?N" "j \<le> ?N" using len by simp_all
    have same: "(if i = ?N then b else target_of st i) = (if j = ?N then b else target_of st j)"
      using same unfolding targets[OF le(1)] targets[OF le(2)] .
    show "i = j"
    proof (cases "i = ?N \<or> j = ?N")
      case True
      show ?thesis
      proof (rule ccontr)
        assume "i \<noteq> j"
        then have "(i = ?N \<and> j < ?N) \<or> (j = ?N \<and> i < ?N)" using True le by linarith
        then show False using same fresh[of i] fresh[of j] by (elim disjE) simp_all
      qed
    next
      case False
      then show ?thesis using same le good_targets[OF good, of i j] by simp
    qed
  next
    fix i a key' assume i: "i < length (ag_proxies st')" and a: "a < length h0" and ref: "data_slot h0 a key' = Some (Ref (target_of st' i))"
    show "\<exists>q < length (ag_proxies st'). target_of st' q = a \<and> slot (view st' q) key' \<noteq> Some (Ref (target_of st' i))"
    proof (cases "i = ?N")
      case True
      then have "a = target_of st p" "key' = key" using data_tree_unique[OF tree tp from_data a, of key'] ref new by auto
      moreover have "slot (view st' p) key = Some (ProxyRef ?N)" using views[of p] p slot_write_slot[OF slot key] by simp
      ultimately show ?thesis using p len old by (intro exI[of _ p]) auto
    next
      case False
      then have i': "i < ?N" "target_of st' i = target_of st i" using i len old by auto
      then obtain q where q: "q < ?N" "target_of st q = a" "slot (view st q) key' \<noteq> Some (Ref (target_of st i))"
        using good_parent[OF good i'(1) a, of key'] ref by auto
      have "slot (view st' q) key' \<noteq> Some (Ref (target_of st' i))"
        using views[of q] q i' slot_write_cases[of key "ProxyRef ?N" "view st p" key' "Ref (target_of st i)"] by (auto split: if_splits)
      then show ?thesis using q old len by (intro exI[of _ q]) auto
    qed
  qed
  have same: "map_content (copy_of st') (view st q) = map_content (copy_of st) (view st q)" if "q < ?N" for q
    using map_content_same[OF old] good_value[OF good that] by blast
  have "content_of (h ! target_of st' q) = map_content (copy_of st') (view st' q)" if q: "q < length (ag_proxies st')" for q
  proof -
    consider "q = ?N" | "q = p" | "q < ?N" "q \<noteq> p" using q len by linarith
    then show ?thesis
    proof cases
      case 1
      have "h ! b = h0 ! b" using assms(3) b fresh by (auto simp: copied_def)
      moreover have "map_content (copy_of st') (content_of (h0 ! b)) = content_of (h0 ! b)"
      proof (rule map_content_id)
        fix k v assume "slot (content_of (h0 ! b)) k = Some v"
        from new_slot[OF this] show "copy_of st' v = v" by (cases v) (simp_all add: copy_of_def plain_value_def)
      qed
      ultimately show ?thesis using 1 views[of q] new by simp
    next
      case 2
      have "copy_of st' (ProxyRef ?N) = Ref b" using new by (simp add: copy_of_def)
      then have "map_content (copy_of st') (view st' p) = write_slot key (Ref b) (map_content (copy_of st') (view st p))"
        using views[of p] p write_map_content[OF keeps_copy_of, of key st' "ProxyRef ?N" "view st p"] by simp
      also have "\<dots> = map_content (copy_of st') (view st p)"
        using slot by (intro write_slot_same key) (simp add: slot_map_content keeps_copy_of copy_of_def)
      finally show ?thesis using 2 p same old assms(3) by (simp add: copied_def)
    next
      case 3
      then show ?thesis using views[of q] same old assms(3) by (simp add: copied_def)
    qed
  qed
  moreover have "h ! a = h0 ! a" if "a < length h0" "a \<notin> target_of st' ` {..<length (ag_proxies st')}" for a
  proof -
    have "a \<notin> target_of st ` {..<?N}"
    proof
      assume "a \<in> target_of st ` {..<?N}"
      then obtain q where "q < ?N" "a = target_of st q" by auto
      then show False using that(2) old len by (metis imageI lessThan_iff less_Suc_eq)
    qed
    then show ?thesis using assms(3) that(1) by (simp add: copied_def)
  qed
  ultimately show "copied h0 st' h" using assms(3) by (simp add: copied_def)
qed

section \<open>Sessions\<close>

definition session_ok :: "HeapObject list \<Rightarrow> AugmentState access_session \<Rightarrow> HeapObject list access_session \<Rightarrow> bool" where
  "session_ok h0 s s' \<longleftrightarrow> (case (s, s') of ((st, held, seen), (h, held', seen')) \<Rightarrow>
     shaped h0 st \<and> good_views h0 st \<and> copied h0 st h \<and> (\<forall>v \<in> set held. held_ok st v) \<and> held' = map (copy_of st) held \<and> seen' = seen)"

lemma held_at_copy: "held_at r (map (copy_of st) held) = copy_of st (held_at r held)"
  by (simp add: held_at_def copy_of_def)

lemma held_at_ok: "\<forall>v \<in> set held. held_ok st v \<Longrightarrow> held_ok st (held_at r held)"
  by (simp add: held_at_def held_ok_def)

lemma operand_copy: "operand (map (copy_of st) held) x = copy_of st (operand held x)"
  by (cases x) (auto simp: held_at_copy, simp add: copy_of_def)

lemma operand_ok: "\<forall>v \<in> set held. held_ok st v \<Longrightarrow> held_ok st (operand held x)"
  by (cases x) (simp add: held_at_ok, simp add: held_ok_def)

lemma data_tree_no_holes: "data_tree h0 start \<Longrightarrow> \<forall>a < length h0. None \<notin> set (array_values (h0 ! a))"
  by (simp add: data_tree_def)

text \<open>A write or a delete at a proxy is the same write or delete at its object.\<close>

lemma session_update:
  assumes "shaped h0 st" "good_views h0 st" "copied h0 st h" and held: "\<forall>v \<in> set held. held_ok st v" and p: "p < length (ag_proxies st)"
    and becomes: "becomes h0 st p c st'"
    and vals: "\<And>key v. slot c key = Some v \<Longrightarrow> held_ok st v \<or> slot (view st p) key = Some v"
    and h': "length h' = length h" "content_of (h' ! target_of st p) = map_content (copy_of st) c" "\<And>b. b \<noteq> target_of st p \<Longrightarrow> h' ! b = h ! b"
  shows "session_ok h0 (st', held, seen) (h', map (copy_of st) held, seen)"
proof -
  have "shaped h0 st'" using becomes by (simp add: becomes_def)
  moreover have "good_views h0 st'" using good_becomes[OF assms(2) becomes p vals] .
  moreover have "copied h0 st' h'" using h' by (intro copied_becomes[OF assms(3,2) becomes p vals]) auto
  moreover have "\<forall>v \<in> set held. held_ok st' v" using held held_ok_mono becomes_length[OF becomes] by fastforce
  moreover have "map (copy_of st') held = map (copy_of st) held"
    using held becomes_targets[OF becomes] by (intro map_cong copy_of_same) auto
  ultimately show ?thesis by (simp add: session_ok_def)
qed

lemma copied_slot: "copied h0 st h \<Longrightarrow> p < length (ag_proxies st) \<Longrightarrow>
    slot (content_of (h ! target_of st p)) key = map_option (copy_of st) (slot (view st p) key)"
  by (simp add: copied_def slot_map_content keeps_copy_of)

lemma session_get:
  assumes "shaped h0 st" "good_views h0 st" "copied h0 st h" and held: "\<forall>v \<in> set held. held_ok st v" and p: "p < length (ag_proxies st)"
    and tree: "data_tree h0 start" and key: "key \<noteq> Name ''constructor''" and get: "proxy_get p key st = (v, st')"
  shows "session_ok h0 (st', held @ [v], seen) (h, map (copy_of st) held @ [plain_get (target_of st p) key h], seen)"
proof (cases "\<exists>b. slot (view st p) key = Some (Ref b)")
  case True
  then obtain b where b: "slot (view st p) key = Some (Ref b)" by blast
  have "target_of st p < length h0" using shaped_proxy[OF assms(1) p] proxy_ok_target by (simp add: target_of_def)
  then have "b < length h0"
    using good_value[OF assms(2) p b] held_not_ref[of st "Ref b"] data_tree_value[OF tree, of "target_of st p" key] by (auto simp: plain_value_def)
  then obtain st1 where st1: "v = ProxyRef (length (ag_proxies st))" "wraps h0 st b st1"
      "becomes h0 st1 p (write_slot key (ProxyRef (length (ag_proxies st))) (view st p)) st'"
    using proxy_get_ref[OF assms(1) p key b _ data_tree_no_holes[OF tree]] get by auto
  note reading = reading_wraps[OF assms(1-3) tree p b st1(2,3)]
  have "shaped h0 st'" using st1(3) by (simp add: becomes_def)
  moreover have "\<forall>u \<in> set (held @ [v]). held_ok st' u"
    using held held_ok_mono[of st _ st'] reading(3) st1(1) by (auto simp: held_ok_def)
  moreover have "map (copy_of st') held = map (copy_of st) held" using held reading(5) by (intro map_cong copy_of_same) auto
  moreover have "copy_of st' v = plain_get (target_of st p) key h"
    using copied_slot[OF assms(3) p, of key] b st1(1) reading(4) by (simp add: plain_get_slot copy_of_def or_else_def)
  ultimately show ?thesis using reading(1,2) by (simp add: session_ok_def)
next
  case False
  let ?w = "or_else (slot (view st p) key) Undefined"
  have w: "held_ok st ?w"
  proof (cases "slot (view st p) key")
    case (Some u)
    then show ?thesis using False good_value[OF assms(2) p Some] by (cases u) (auto simp: or_else_def is_ref_def)
  qed (simp add: or_else_def held_ok_def)
  then have "v = ?w" "st' = st" using proxy_get_simple[OF assms(1) p key held_simple] get by auto
  moreover have "plain_get (target_of st p) key h = copy_of st ?w"
    using copied_slot[OF assms(3) p, of key] by (cases "slot (view st p) key") (auto simp: plain_get_slot or_else_def copy_of_def)
  ultimately show ?thesis using assms(1-3) held w by (simp add: session_ok_def)
qed

lemma session_step:
  assumes ok: "session_ok h0 s s'" and tree: "data_tree h0 start" and simple: "simple_access (fst (snd s')) op"
  shows "session_ok h0 (augmented_step op s) (plain_step op s')"
proof -
  obtain st held seen h where s: "s = (st, held, seen)" "s' = (h, map (copy_of st) held, seen)"
    and st: "shaped h0 st" "good_views h0 st" "copied h0 st h" "\<forall>v \<in> set held. held_ok st v"
    using ok by (cases s; cases s') (auto simp: session_ok_def)
  have here: "augmented_step op s = s \<and> plain_step op s' = s'" if "\<forall>p. held_at r held \<noteq> ProxyRef p" "op = GetOp r k \<or> op = SetOp r k x \<or> op = DeleteOp r k \<or> op = HasOp r k" for r k x
    using that held_at_ok[OF st(4), of r] by (cases "held_at r held") (auto simp: s held_at_copy copy_of_def held_ok_def)
  have target: "held_at r (map (copy_of st) held) = Ref (target_of st p) \<and> p < length (ag_proxies st) \<and> target_of st p < length h"
    if "held_at r held = ProxyRef p" for r p
  proof -
    have "p < length (ag_proxies st)" using held_at_ok[OF st(4), of r] that by (simp add: held_ok_def)
    then show ?thesis using that proxy_ok_target[OF shaped_proxy[OF st(1)]] st(3) by (simp add: held_at_copy copy_of_def target_of_def copied_def)
  qed
  show ?thesis
  proof (cases op)
    case (GetOp r key)
    show ?thesis
    proof (cases "\<exists>p. held_at r held = ProxyRef p")
      case True
      then obtain p where p: "held_at r held = ProxyRef p" by blast
      obtain v st' where v: "proxy_get p key st = (v, st')" by (cases "proxy_get p key st")
      have "key \<noteq> Name ''constructor''" using simple GetOp by simp
      from session_get[OF st _ tree this v] show ?thesis using GetOp p v target[OF p] by (simp add: s)
    next
      case False
      then show ?thesis using here[of r key] GetOp ok by simp
    qed
  next
    case (SetOp r key x)
    show ?thesis
    proof (cases "\<exists>p. held_at r held = ProxyRef p")
      case True
      then obtain p where p: "held_at r held = ProxyRef p" by blast
      let ?v = "operand held x"
      have v: "held_ok st ?v" using operand_ok[OF st(4)] .
      have "copy_of st ?v \<noteq> Undefined" using simple SetOp by (simp add: s operand_copy)
      then have "?v \<noteq> Undefined" by (auto simp: copy_of_def)
      then have becomes: "becomes h0 st p (write_slot key ?v (view st p)) (proxy_set p key ?v st)"
        using proxy_set_becomes[OF st(1) _ held_simple[OF v] _ data_tree_no_holes[OF tree]] target[OF p] by blast
      have vals: "held_ok st u \<or> slot (view st p) k = Some u" if "slot (write_slot key ?v (view st p)) k = Some u" for k u
        using slot_write_cases[OF that] v by (auto simp: held_ok_def)
      have "content_of (plain_set (target_of st p) key (copy_of st ?v) h ! target_of st p) = map_content (copy_of st) (write_slot key ?v (view st p))"
        using target[OF p] st(3) by (simp add: plain_set_slot write_map_content keeps_copy_of copied_def)
      then have "session_ok h0 (proxy_set p key ?v st, held, seen) (plain_set (target_of st p) key (copy_of st ?v) h, map (copy_of st) held, seen)"
        using target[OF p] vals by (intro session_update[OF st _ becomes]) (simp_all, simp add: plain_set_def)
      then show ?thesis using SetOp p target[OF p] by (simp add: s operand_copy)
    next
      case False
      then show ?thesis using here[of r key x] SetOp ok by simp
    qed
  next
    case (DeleteOp r key)
    show ?thesis
    proof (cases "\<exists>p. held_at r held = ProxyRef p")
      case True
      then obtain p where p: "held_at r held = ProxyRef p" by blast
      have becomes: "becomes h0 st p (remove_slot key (view st p)) (proxy_delete p key st)"
        using proxy_delete_becomes[OF st(1) _ data_tree_no_holes[OF tree]] target[OF p] by blast
      have "content_of (plain_delete (target_of st p) key h ! target_of st p) = map_content (copy_of st) (remove_slot key (view st p))"
        using target[OF p] st(3) by (simp add: plain_delete_slot remove_map_content copied_def)
      then have "session_ok h0 (proxy_delete p key st, held, seen) (plain_delete (target_of st p) key h, map (copy_of st) held, seen)"
        using target[OF p] slot_remove_cases[of key "view st p"]
        by (intro session_update[OF st _ becomes]) (auto simp: plain_delete_def)
      then show ?thesis using DeleteOp p target[OF p] by (simp add: s)
    next
      case False
      then show ?thesis using here[of r key] DeleteOp ok by simp
    qed
  next
    case (HasOp r key)
    show ?thesis
    proof (cases "\<exists>p. held_at r held = ProxyRef p")
      case True
      then obtain p where p: "held_at r held = ProxyRef p" by blast
      then show ?thesis using HasOp target[OF p] st copied_slot[OF st(3), of p key] proxy_has_slot[OF st(1), of p key]
        by (simp add: s session_ok_def plain_has_slot)
    next
      case False
      then show ?thesis using here[of r key] HasOp ok by simp
    qed
  qed
qed

lemma session_start:
  assumes "data_tree h start"
  shows "session_ok h (augmented_start h start) (h, [Ref start], [])"
proof -
  let ?s = "\<lparr>ag_heap = h, ag_proxies = []\<rparr>"
  have start: "start < length h" using assms by (simp add: data_tree_def)
  have "shaped h ?s" by (simp add: shaped_def)
  then obtain st where st: "augment (Ref start) ?s = (ProxyRef 0, True, st)" "wraps h ?s start st"
    using augment_ref[of h ?s start] start by auto
  have len: "length (ag_proxies st) = 1" using wraps_length[OF st(2)] by simp
  have view: "view st 0 = content_of (h ! start)" and target: "target_of st 0 = start"
    using st(2) wraps_targets[OF st(2), of 0] by (simp_all add: wraps_def)
  have slots: "plain_value (length h) v \<and> v \<noteq> Ref start" if "slot (content_of (h ! a)) key = Some v" "a < length h" for a key v
    using data_tree_value[OF assms that(2)] that(1) by (simp add: data_slot_def)
  have "good_views h st" unfolding good_views_def
  proof (intro conjI allI impI)
    fix p key v assume "p < length (ag_proxies st)" "slot (view st p) key = Some v"
    then show "held_ok st v \<or> (is_ref v \<and> data_slot h (target_of st p) key = Some v)"
      using len view target slots[OF _ start, of key v] by (cases v) (auto simp: plain_value_def held_ok_def data_slot_def)
  next
    fix p a key assume "p < length (ag_proxies st)" "a < length h" "data_slot h a key = Some (Ref (target_of st p))"
    then show "\<exists>q < length (ag_proxies st). target_of st q = a \<and> slot (view st q) key \<noteq> Some (Ref (target_of st p))"
      using len target slots[of a key "Ref start"] by (auto simp: data_slot_def)
  qed (use len in simp)
  moreover have "map_content (copy_of st) (content_of (h ! start)) = content_of (h ! start)"
  proof (rule map_content_id)
    fix k v assume "slot (content_of (h ! start)) k = Some v"
    from slots[OF this start] show "copy_of st v = v" by (cases v) (simp_all add: copy_of_def plain_value_def)
  qed
  then have "copied h st h" using len view target by (simp add: copied_def)
  ultimately show ?thesis using st len target
    by (simp add: session_ok_def augmented_start_def held_ok_def copy_of_def wraps_def)
qed

lemma session_run:
  "session_ok h0 s s' \<Longrightarrow> data_tree h0 start \<Longrightarrow> simple_accesses ops s' \<Longrightarrow> session_ok h0 (fold augmented_step ops s) (fold plain_step ops s')"
proof (induction ops arbitrary: s s')
  case (Cons x ops)
  then show ?case using session_step[OF Cons.prems(1,2), of x] by simp
qed simp

text \<open>C13: Let the data be a tree of plain objects, arrays without holes and scalars (no dates, regular expressions or functions in it). A code
  that reads, writes, deletes and tests properties of the augmented data, that writes no \<open>undefined\<close> (which deletes)
  and does not read \<open>constructor\<close>, gets the values that it would get on an object of its own: the objects it holds
  stand for the objects there, with the same keys, scalars are the same, and the data itself is not changed.\<close>

theorem augmented_as_copied:
  assumes "data_tree h start" and "simple_accesses ops (h, [Ref start], [])"
    and "fold augmented_step ops (augmented_start h start) = (st, held, seen)"
    and "fold plain_step ops (h, [Ref start], []) = (h', held', seen')"
  shows "held' = map (copy_of st) held \<and> seen' = seen \<and> take (length h) (ag_heap st) = h \<and>
    (\<forall>p. ProxyRef p \<in> set held \<longrightarrow> set (proxy_ownKeys p st) = {key. plain_has (target_of st p) key h'})"
proof -
  have ok: "session_ok h (st, held, seen) (h', held', seen')"
    using session_run[OF session_start[OF assms(1)] assms(1,2)] assms(3,4) by simp
  then have st: "shaped h st" "copied h st h'" "\<forall>v \<in> set held. held_ok st v" by (simp_all add: session_ok_def)
  have "set (proxy_ownKeys p st) = {key. plain_has (target_of st p) key h'}" if "ProxyRef p \<in> set held" for p
  proof -
    have p: "p < length (ag_proxies st)" using st(3) that by (auto simp: held_ok_def)
    show ?thesis using proxy_ownKeys_slots[OF st(1) p] copied_slot[OF st(2) p] by (simp add: plain_has_slot)
  qed
  then show ?thesis using ok by (simp add: session_ok_def shaped_def)
qed

section \<open>Examples\<close>

definition sample_data_heap :: "HeapObject list" where
  "sample_data_heap = [PlainObject [(''list'', Ref 1), (''n'', Scalar (JNum 1))], ArrayObject [Some (Ref 2), Some (Scalar JNull)],
     PlainObject [(''s'', Scalar (JStr ''x''))]]"

definition sample_accesses :: "AccessOp list" where
  "sample_accesses = [GetOp 0 (Name ''list''), GetOp 1 (Index 0), SetOp 2 (Name ''s'') (Constant (JStr ''y'')), DeleteOp 0 (Name ''n''),
     HasOp 0 (Name ''n''), SetOp 1 (Index 2) (Held 2), GetOp 1 (Index 2), GetOp 4 (Name ''s''), GetOp 1 Length]"

lemma sample_tree: "data_tree sample_data_heap 0"
  by code_simp

lemma augmented_as_copied_witness:
  "snd (snd (fold augmented_step sample_accesses (augmented_start sample_data_heap 0))) = [False] \<and>
   take 3 (ag_heap (fst (fold augmented_step sample_accesses (augmented_start sample_data_heap 0)))) = sample_data_heap"
proof -
  obtain st held seen where a: "fold augmented_step sample_accesses (augmented_start sample_data_heap 0) = (st, held, seen)"
    by (cases "fold augmented_step sample_accesses (augmented_start sample_data_heap 0)") auto
  obtain h' held' seen' where b: "fold plain_step sample_accesses (sample_data_heap, [Ref 0], []) = (h', held', seen')"
    by (cases "fold plain_step sample_accesses (sample_data_heap, [Ref 0], [])") auto
  have "simple_accesses sample_accesses (sample_data_heap, [Ref 0], [])" by code_simp
  note same = augmented_as_copied[OF sample_tree this a b]
  have "snd (snd (fold plain_step sample_accesses (sample_data_heap, [Ref 0], []))) = [False]" by code_simp
  moreover have "length sample_data_heap = 3" by (simp add: sample_data_heap_def)
  ultimately show ?thesis using a b same by simp
qed

text \<open>The descriptor of a property has the object of the data itself, and so a write to it changes the data.\<close>

lemma descriptor_leaks_data:
  "object_getOwnPropertyDescriptor 0 ''list'' (fst (augmented_start sample_data_heap 0)) = Some (DataDescriptor (Ref 1))"
  by code_simp

text \<open>After a write to an array the descriptor of an index is still that of the data.\<close>

lemma array_descriptor_stale:
  "array_getOwnPropertyDescriptor 1 (Index 1) (fst (fold augmented_step
     [GetOp 0 (Name ''list''), SetOp 1 (Index 1) (Constant (JBool True))] (augmented_start sample_data_heap 0))) = Some (DataDescriptor (Scalar JNull))"
  by code_simp

text \<open>An object that the data has twice has two views: a write to one is not seen in the other.\<close>

lemma shared_object_split:
  "let h = [PlainObject [(''a'', Ref 1), (''b'', Ref 1)], PlainObject [(''n'', Scalar (JNum 1))]];
       ops = [GetOp 0 (Name ''a''), GetOp 0 (Name ''b''), SetOp 1 (Name ''n'') (Constant (JNum 2)), GetOp 2 (Name ''n'')]
   in last (fst (snd (fold augmented_step ops (augmented_start h 0)))) = Scalar (JNum 1) \<and>
      last (fst (snd (fold plain_step ops (h, [Ref 0], [])))) = Scalar (JNum 2)"
  by code_simp

text \<open>The first write to an array turns its holes into \<open>undefined\<close>.\<close>

lemma holes_filled:
  "let h = [ArrayObject [None, Some (Scalar JNull)]]; ops = [HasOp 0 (Index 0), SetOp 0 (Index 1) (Constant (JBool True)), HasOp 0 (Index 0)]
   in snd (snd (fold augmented_step ops (augmented_start h 0))) = [False, True] \<and>
      snd (snd (fold plain_step ops (h, [Ref 0], []))) = [False, False]"
  by code_simp

end
