(* ===== verification/CodeTasks.thy ===== *)
theory CodeTasks
  imports CodeTaskData NodeNaming
begin

text \<open>
  Running the code of a Code node: the node cuts its input into chunks
  (\<^verbatim>\<open>packages/nodes-base/nodes/Code/JsTaskRunnerSandbox.ts\<close>), a task runs the code for the items of its chunk
  (\<^verbatim>\<open>packages/@n8n/task-runner/src/js-task-runner/js-task-runner.ts\<close>), and what the code returns is validated and
  normalised (\<^verbatim>\<open>result-validation.ts\<close>, \<^verbatim>\<open>packages/core/src/execution-engine/node-execution-context/utils/normalize-items.ts\<close>).

  What a code does is a function of its data proxy, its item and a state that it keeps between the items of a
  task; it returns a value of JSON, \<open>undefined\<close>, or throws. Of an error only the message and the item are modelled.
\<close>

section \<open>Errors\<close>

datatype code_error =
    ValidationFailure string "nat option"
  | InconsistentItems
  | CodeThrew string
  | AssertionFailure string

definition validation_message :: "string \<Rightarrow> nat option \<Rightarrow> nat option \<Rightarrow> string" where
  "validation_message message line it = (case (line, it) of
     (Some l, Some i) \<Rightarrow> message @ '' [line '' @ nat_str l @ '', for item '' @ nat_str i @ '']''
   | (Some l, None) \<Rightarrow> message @ '' [line '' @ nat_str l @ '']''
   | (None, Some i) \<Rightarrow> message @ '' [item '' @ nat_str i @ '']''
   | (None, None) \<Rightarrow> message)"

definition new_ValidationError :: "string \<Rightarrow> nat option \<Rightarrow> nat option \<Rightarrow> code_error" where
  "new_ValidationError message line it = ValidationFailure (validation_message message line it) it"

fun code_message :: "code_error \<Rightarrow> string" where
  "code_message (ValidationFailure m _) = m"
| "code_message InconsistentItems = ''Inconsistent item format''"
| "code_message (CodeThrew m) = m"
| "code_message (AssertionFailure m) = m"

type_synonym 'a code_result = "(code_error, 'a) sum"

section \<open>Validation of what a code returns\<close>

fun isObject :: "json option \<Rightarrow> bool" where
  "isObject (Some (JObj _)) = True"
| "isObject _ = False"

definition REQUIRED_N8N_ITEM_KEYS :: "string list" where
  "REQUIRED_N8N_ITEM_KEYS = [''json'', ''binary'', ''pairedItem'', ''error'', ''index'']"

definition validateTopLevelKeys :: "INodeExecutionData \<Rightarrow> nat \<Rightarrow> unit code_result" where
  "validateTopLevelKeys it itemIndex =
     (let reserved = filter (\<lambda>k. k \<in> set REQUIRED_N8N_ITEM_KEYS) (js_keys it);
          unknown = filter (\<lambda>k. k \<notin> set REQUIRED_N8N_ITEM_KEYS) (js_keys it)
      in case unknown of
           [] \<Rightarrow> Inr ()
         | k # _ \<Rightarrow>
             if reserved \<noteq> [] then Inl (new_ValidationError ''Invalid output format'' None (Some itemIndex))
             else Inl (new_ValidationError (''Unknown top-level item key: '' @ k) None (Some itemIndex)))"

definition validateItem :: "INodeExecutionData \<Rightarrow> nat \<Rightarrow> unit code_result" where
  "validateItem it itemIndex =
     (if \<not> isObject (map_of it ''json'')
      then Inl (new_ValidationError ''A 'json' property isn't an object'' None (Some itemIndex))
      else if map_of it ''binary'' \<noteq> None \<and> \<not> isObject (map_of it ''binary'')
      then Inl (new_ValidationError ''A 'binary' property isn't an object'' None (Some itemIndex))
      else Inr ())"

definition non_array_of_objects :: code_error where
  "non_array_of_objects = new_ValidationError ''Code doesn't return items properly'' None None"

definition binary_item :: "INodeExecutionData \<Rightarrow> INodeExecutionData" where
  "binary_item it = [(''json'', JObj (filter (\<lambda>(k, _). k \<noteq> ''binary'') it)),
     (''binary'', or_else (map_of it ''binary'') JNull)]"

definition normalize_list :: "INodeExecutionData list \<Rightarrow> INodeExecutionData list code_result" where
  "normalize_list items =
     (if list_all (\<lambda>i. js_has i ''json'') items then Inr items
      else if list_ex (\<lambda>i. js_has i ''json'') items then Inl InconsistentItems
      else if list_all (\<lambda>i. js_has i ''binary'') items then Inr (map binary_item items)
      else if list_ex (\<lambda>i. js_has i ''binary'') items then Inl InconsistentItems
      else Inr (map (\<lambda>i. [(''json'', JObj i)]) items))"

text \<open>One object is wrapped first: as it is if its \<open>json\<close> is truthy.\<close>

definition normalize_object :: "INodeExecutionData \<Rightarrow> INodeExecutionData list code_result" where
  "normalize_object it = normalize_list (if truthy_at (map_of it ''json'') then [it] else [[(''json'', JObj it)]])"

fun validate_each :: "(INodeExecutionData \<Rightarrow> nat \<Rightarrow> unit code_result) \<Rightarrow> nat \<Rightarrow> INodeExecutionData list \<Rightarrow> unit code_result" where
  "validate_each check k [] = Inr ()"
| "validate_each check k (i # is) = (case check i k of Inl e \<Rightarrow> Inl e | Inr _ \<Rightarrow> validate_each check (Suc k) is)"

fun item_of :: "json \<Rightarrow> INodeExecutionData" where
  "item_of (JObj m) = m"
| "item_of _ = []"

definition validated_items :: "INodeExecutionData list code_result \<Rightarrow> INodeExecutionData list code_result" where
  "validated_items r = (case r of Inl e \<Rightarrow> Inl e
     | Inr returnData \<Rightarrow> (case validate_each validateItem 0 returnData of Inl e \<Rightarrow> Inl e | Inr _ \<Rightarrow> Inr returnData))"

fun validateRunForAllItemsOutput :: "json option \<Rightarrow> INodeExecutionData list code_result" where
  "validateRunForAllItemsOutput (Some (JArr xs)) =
     (if \<not> list_all (\<lambda>x. isObject (Some x)) xs then Inl non_array_of_objects
      else let items = map item_of xs;
               mustHaveTopLevelN8nKey = list_ex (\<lambda>i. list_ex (\<lambda>k. k \<in> set REQUIRED_N8N_ITEM_KEYS) (js_keys i)) items
           in case (if mustHaveTopLevelN8nKey then validate_each validateTopLevelKeys 0 items else Inr ()) of
                Inl e \<Rightarrow> Inl e
              | Inr _ \<Rightarrow> validated_items (normalize_list items))"
| "validateRunForAllItemsOutput (Some (JObj m)) = validated_items (normalize_object m)"
| "validateRunForAllItemsOutput _ = Inl non_array_of_objects"

text \<open>\<open>null\<close> is dealt with before.\<close>

fun validateRunForEachItemOutput :: "json option \<Rightarrow> nat \<Rightarrow> INodeExecutionData code_result" where
  "validateRunForEachItemOutput (Some (JArr _)) itemIndex = Inl (new_ValidationError ''Code doesn't return a single object'' None (Some itemIndex))"
| "validateRunForEachItemOutput (Some (JObj m)) itemIndex =
     (case normalize_list [m] of
        Inl e \<Rightarrow> Inl e
      | Inr items \<Rightarrow>
          let returnData = hd items
          in case validateItem returnData itemIndex of
               Inl e \<Rightarrow> Inl e
             | Inr _ \<Rightarrow> (case validateTopLevelKeys returnData itemIndex of Inl e \<Rightarrow> Inl e | Inr _ \<Rightarrow> Inr returnData))"
| "validateRunForEachItemOutput _ itemIndex = Inl (new_ValidationError ''Code doesn't return an object'' None (Some itemIndex))"

section \<open>Running a code in the runner\<close>

datatype CodeOutcome = Threw string | Gave "json option"

type_synonym 's user_code = "WorkflowDataProxy \<Rightarrow> INodeExecutionData option \<Rightarrow> 's \<Rightarrow> CodeOutcome \<times> 's"

datatype CodeExecutionMode = RunOnceForAllItems | RunOnceForEachItem

record JSExecSettings =
  se_code :: string
  se_nodeMode :: CodeExecutionMode
  se_continueOnFail :: bool
  se_chunk :: "InputDataChunkDefinition option"

definition linked_to :: "nat \<Rightarrow> json" where
  "linked_to k = JObj [(''item'', JNum (of_nat k))]"

definition code_error_item :: "code_error \<Rightarrow> nat \<Rightarrow> INodeExecutionData" where
  "code_error_item e k = [(''json'', JObj [(''error'', JStr (code_message e))]), (''pairedItem'', linked_to k)]"

definition returned_item :: "INodeExecutionData \<Rightarrow> nat \<Rightarrow> INodeExecutionData" where
  "returned_item result k =
     (''json'', or_else (map_of result ''json'') JNull) # (''pairedItem'', linked_to k) #
       (if truthy_at (map_of result ''binary'') then [(''binary'', or_else (map_of result ''binary'') JNull)] else [])"

text \<open>What one item adds to the result.\<close>

definition item_outcome :: "bool \<Rightarrow> nat \<Rightarrow> CodeOutcome \<Rightarrow> INodeExecutionData list code_result" where
  "item_outcome continueOnFail k outcome =
     (let r = (case outcome of
          Threw m \<Rightarrow> Inl (CodeThrew m)
        | Gave v \<Rightarrow>
            if v = Some JNull then Inr []
            else case validateRunForEachItemOutput v k of Inl e \<Rightarrow> Inl e | Inr d \<Rightarrow> Inr [returned_item d k])
      in case r of
           Inl e \<Rightarrow> if continueOnFail then Inr [code_error_item e k] else Inl e
         | Inr xs \<Rightarrow> Inr xs)"

definition item_at :: "'a option list \<Rightarrow> nat \<Rightarrow> 'a option" where
  "item_at xs k = (if k < length xs then xs ! k else None)"

fun run_indices :: "'s user_code \<Rightarrow> bool \<Rightarrow> JsTaskData \<Rightarrow> Workflow \<Rightarrow> nat list \<Rightarrow> 's \<Rightarrow> INodeExecutionData list code_result" where
  "run_indices user continueOnFail data workflow [] s = Inr []"
| "run_indices user continueOnFail data workflow (k # ks) s =
     (case user (createDataProxy data workflow (int k)) (item_at (jt_connectionInputData data) k) s of
        (outcome, s') \<Rightarrow> (case item_outcome continueOnFail k outcome of
          Inl e \<Rightarrow> Inl e
        | Inr xs \<Rightarrow> (case run_indices user continueOnFail data workflow ks s' of Inl e \<Rightarrow> Inl e | Inr ys \<Rightarrow> Inr (xs @ ys))))"

definition runForEachItem :: "'s user_code \<Rightarrow> JSExecSettings \<Rightarrow> JsTaskData \<Rightarrow> Workflow \<Rightarrow> 's \<Rightarrow> INodeExecutionData list code_result" where
  "runForEachItem user settings data workflow s =
     (let chunkStartIdx = (case se_chunk settings of Some c \<Rightarrow> ch_startIndex c | None \<Rightarrow> 0);
          chunkEndIdx = (case se_chunk settings of Some c \<Rightarrow> ch_startIndex c + ch_count c | None \<Rightarrow> length (jt_connectionInputData data))
      in run_indices user (se_continueOnFail settings) data workflow [chunkStartIdx..<chunkEndIdx] s)"

definition runForAllItems :: "'s user_code \<Rightarrow> JSExecSettings \<Rightarrow> JsTaskData \<Rightarrow> Workflow \<Rightarrow> 's \<Rightarrow> INodeExecutionData list code_result" where
  "runForAllItems user settings data workflow s =
     (let r = (case fst (user (createDataProxy data workflow (int (dr_itemIndex (jt_response data)))) None s) of
          Threw m \<Rightarrow> Inl (CodeThrew m)
        | Gave v \<Rightarrow> if v = Some JNull then Inr [] else validateRunForAllItemsOutput v)
      in case r of
           Inl e \<Rightarrow> if se_continueOnFail settings then Inr [[(''json'', JObj [(''error'', JStr (code_message e))])]] else Inl e
         | Inr xs \<Rightarrow> Inr xs)"

definition validateTaskSettings :: "JSExecSettings \<Rightarrow> unit code_result" where
  "validateTaskSettings settings =
     (if se_code settings = [] then Inl (AssertionFailure ''No code to execute'')
      else if se_nodeMode settings = RunOnceForAllItems \<and> se_chunk settings \<noteq> None
      then Inl (AssertionFailure ''Chunking is not supported for runOnceForAllItems'')
      else Inr ())"

text \<open>The parser, the meaning of the code, the node types of the runner and the constructor's parameter defaults.\<close>

record 's CodeEnv =
  co_parse :: "string \<Rightarrow> Visit list option"
  co_run :: "string \<Rightarrow> 's user_code"
  co_state :: 's
  co_nodeTypes :: INodeTypes
  co_getNodeParameters :: "INodeType \<Rightarrow> INode \<Rightarrow> (string, json) js_map option"

definition executeTask :: "'s CodeEnv \<Rightarrow> JSExecSettings \<Rightarrow> TaskData \<Rightarrow> INodeExecutionData list code_result" where
  "executeTask env settings td = (case validateTaskSettings settings of
     Inl e \<Rightarrow> Inl e
   | Inr _ \<Rightarrow>
       let data = requested_data (co_parse env (se_code settings)) (se_chunk settings) td;
           workflow = runner_workflow (co_getNodeParameters env) (co_nodeTypes env) data
       in if se_nodeMode settings = RunOnceForAllItems
          then runForAllItems (co_run env (se_code settings)) settings data workflow (co_state env)
          else runForEachItem (co_run env (se_code settings)) settings data workflow (co_state env))"

section \<open>The Code node\<close>

definition DISALLOWED_METHODS :: "string list" where
  "DISALLOWED_METHODS = [''first'', ''last'', ''all'', ''itemMatching'']"

text \<open>The first match of the regular expression: \<open>$input.\<close> and one of the methods.\<close>

fun disallowed_method :: "string \<Rightarrow> string option" where
  "disallowed_method [] = None"
| "disallowed_method (c # s) =
     (if has_prefix ''$input.'' (c # s)
      then (case List.find (\<lambda>m. has_prefix m (drop 7 (c # s))) DISALLOWED_METHODS of Some m \<Rightarrow> Some m | None \<Rightarrow> disallowed_method s)
      else disallowed_method s)"

definition is_blank :: "char \<Rightarrow> bool" where
  "is_blank c \<longleftrightarrow> c \<in> {CHR '' '', CHR 0x09, CHR 0x0A, CHR 0x0B, CHR 0x0C, CHR 0x0D, CHR 0xA0}"

definition uses_method :: "string \<Rightarrow> string \<Rightarrow> bool" where
  "uses_method m line = (let line = dropWhile is_blank line
     in is_infix m line \<and> \<not> has_prefix ''//'' line \<and> \<not> has_prefix ''/*'' line \<and> \<not> has_prefix ''*'' line)"

definition validateNoDisallowedMethodsInRunForEach :: "string \<Rightarrow> nat \<Rightarrow> unit code_result" where
  "validateNoDisallowedMethodsInRunForEach code itemIndex = (case disallowed_method code of
     None \<Rightarrow> Inr ()
   | Some m \<Rightarrow> (case findIndex (uses_method m) (parts (CHR 0x0A) code) of
         None \<Rightarrow> Inr ()
       | Some k \<Rightarrow> Inl (new_ValidationError (''Can't use .'' @ m @ ''() here'') (Some (Suc k)) (Some itemIndex))))"

definition chunkInputItems :: "nat \<Rightarrow> nat \<Rightarrow> InputDataChunkDefinition list" where
  "chunkInputItems chunkSize numInputItems =
     (let numChunks = (numInputItems + chunkSize - 1) div chunkSize
      in map (\<lambda>i. \<lparr>ch_startIndex = i * chunkSize,
           ch_count = (if i = numChunks - 1 then numInputItems - i * chunkSize else chunkSize)\<rparr>) [0..<numChunks])"

definition runCodeAllItems :: "'s CodeEnv \<Rightarrow> string \<Rightarrow> bool \<Rightarrow> TaskData \<Rightarrow> INodeExecutionData list code_result" where
  "runCodeAllItems env code continueOnFail td =
     executeTask env \<lparr>se_code = code, se_nodeMode = RunOnceForAllItems, se_continueOnFail = continueOnFail, se_chunk = None\<rparr> td"

fun run_chunks :: "'s CodeEnv \<Rightarrow> string \<Rightarrow> bool \<Rightarrow> TaskData \<Rightarrow> InputDataChunkDefinition list \<Rightarrow> INodeExecutionData list code_result" where
  "run_chunks env code continueOnFail td [] = Inr []"
| "run_chunks env code continueOnFail td (c # cs) =
     (case executeTask env \<lparr>se_code = code, se_nodeMode = RunOnceForEachItem, se_continueOnFail = continueOnFail, se_chunk = Some c\<rparr> td of
        Inl e \<Rightarrow> Inl e
      | Inr xs \<Rightarrow> (case run_chunks env code continueOnFail td cs of Inl e \<Rightarrow> Inl e | Inr ys \<Rightarrow> Inr (xs @ ys)))"

definition runCodeForEachItem :: "'s CodeEnv \<Rightarrow> nat \<Rightarrow> string \<Rightarrow> bool \<Rightarrow> TaskData \<Rightarrow> nat \<Rightarrow> INodeExecutionData list code_result" where
  "runCodeForEachItem env chunkSize code continueOnFail td numInputItems =
     (case validateNoDisallowedMethodsInRunForEach code 0 of
        Inl e \<Rightarrow> Inl e
      | Inr _ \<Rightarrow> run_chunks env code continueOnFail td (chunkInputItems chunkSize numInputItems))"

section \<open>Chunks\<close>

lemma chunk_ranges:
  assumes "0 < chunkSize"
  shows "concat (map (\<lambda>c. [ch_startIndex c..<ch_startIndex c + ch_count c]) (chunkInputItems chunkSize n)) = [0..<n]"
proof -
  define k where "k = (n + chunkSize - 1) div chunkSize"
  have k: "n \<le> k * chunkSize" "k = 0 \<or> (k - 1) * chunkSize < n"
  proof -
    have "n + chunkSize - 1 = k * chunkSize + (n + chunkSize - 1) mod chunkSize" unfolding k_def by simp
    moreover have "(n + chunkSize - 1) mod chunkSize < chunkSize" using assms by simp
    ultimately have eq: "n + chunkSize - 1 = k * chunkSize + (n + chunkSize - 1) mod chunkSize" "(n + chunkSize - 1) mod chunkSize < chunkSize" by auto
    then show "n \<le> k * chunkSize" by linarith
    show "k = 0 \<or> (k - 1) * chunkSize < n"
    proof (cases k)
      case (Suc j)
      then have "k * chunkSize = chunkSize + j * chunkSize" by simp
      then show ?thesis using eq(1) assms Suc by simp
    qed simp
  qed
  have full: "concat (map (\<lambda>i. [i * chunkSize..<i * chunkSize + chunkSize]) [0..<j]) = [0..<j * chunkSize]" for j
  proof (induction j)
    case (Suc j)
    have "[0..<Suc j * chunkSize] = [0..<j * chunkSize] @ [j * chunkSize..<Suc j * chunkSize]"
      using upt_add_eq_append[of 0 "j * chunkSize" chunkSize] by (simp add: add.commute)
    then show ?case using Suc by (simp add: add.commute)
  qed simp
  show ?thesis
  proof (cases k)
    case 0
    then show ?thesis using k(1) assms by (simp add: chunkInputItems_def Let_def)
  next
    case (Suc j)
    then have j: "j * chunkSize < n" using k(2) by simp
    let ?f = "\<lambda>i. [i * chunkSize..<i * chunkSize + (if i = j then n - i * chunkSize else chunkSize)]"
    have "map ?f [0..<j] = map (\<lambda>i. [i * chunkSize..<i * chunkSize + chunkSize]) [0..<j]" by (rule map_cong) simp_all
    then have "concat (map ?f [0..<j]) = [0..<j * chunkSize]" using full[of j] by argo
    moreover have "concat (map ?f [0..<k]) = concat (map ?f [0..<j]) @ ?f j" using Suc by simp
    ultimately have "concat (map ?f [0..<k]) = [0..<j * chunkSize] @ [j * chunkSize..<n]" using j by simp
    also have "\<dots> = [0..<n]" using j upt_add_eq_append[of 0 "j * chunkSize" "n - j * chunkSize"] by simp
    finally have ranges: "concat (map ?f [0..<k]) = [0..<n]" .
    have "(n + chunkSize - Suc 0) div chunkSize = Suc j" using Suc by (simp add: k_def)
    then show ?thesis using ranges unfolding Suc by (simp add: chunkInputItems_def Let_def o_def del: upt_Suc)
  qed
qed

text \<open>A code that keeps no state and reads of its input only its own item.\<close>

definition reads_own_item :: "'s user_code \<Rightarrow> bool" where
  "reads_own_item user \<longleftrightarrow> (\<forall>px px' it s s'. px\<lparr>px_connectionInputData := []\<rparr> = px'\<lparr>px_connectionInputData := []\<rparr> \<longrightarrow>
     fst (user px it s) = fst (user px' it s'))"

text \<open>The result from the results of the items.\<close>

fun collect :: "(nat \<Rightarrow> INodeExecutionData list code_result) \<Rightarrow> nat list \<Rightarrow> INodeExecutionData list code_result" where
  "collect f [] = Inr []"
| "collect f (k # ks) = (case f k of Inl e \<Rightarrow> Inl e | Inr xs \<Rightarrow> (case collect f ks of Inl e \<Rightarrow> Inl e | Inr ys \<Rightarrow> Inr (xs @ ys)))"

lemma collect_append: "collect f (ks @ ls) = (case collect f ks of Inl e \<Rightarrow> Inl e
    | Inr xs \<Rightarrow> (case collect f ls of Inl e \<Rightarrow> Inl e | Inr ys \<Rightarrow> Inr (xs @ ys)))"
  by (induction ks) (auto split: sum.split)

lemma collect_cong: "(\<And>k. k \<in> set ks \<Longrightarrow> f k = g k) \<Longrightarrow> collect f ks = collect g ks"
  by (induction ks) (auto split: sum.split)

lemma run_indices_collect:
  assumes "reads_own_item user"
  shows "run_indices user cof data workflow ks s =
    collect (\<lambda>k. item_outcome cof k (fst (user (createDataProxy data workflow (int k)) (item_at (jt_connectionInputData data) k) s0))) ks"
proof (induction ks arbitrary: s)
  case (Cons k ks)
  have "fst (user (createDataProxy data workflow (int k)) (item_at (jt_connectionInputData data) k) s) =
      fst (user (createDataProxy data workflow (int k)) (item_at (jt_connectionInputData data) k) s0)"
    using assms by (simp add: reads_own_item_def)
  then show ?case using Cons by (auto split: prod.split sum.split)
qed simp

text \<open>The data of a chunk differs from all data in the input only, and has the items of the chunk at their places.\<close>

definition input_items :: "Visit list option \<Rightarrow> TaskData \<Rightarrow> INodeExecutionData list" where
  "input_items visits td = (if bi_input (parseUsedBuiltIns visits) then main_items_of (td_inputData td) else [])"

lemma chunk_item:
  assumes "ch_startIndex c \<le> k" and "k < ch_startIndex c + ch_count c"
  shows "item_at (jt_connectionInputData (requested_data visits (Some c) td)) k =
    (if k < length (input_items visits td) then Some (input_items visits td ! k) else None)"
proof (cases "bi_input (parseUsedBuiltIns visits)")
  case True
  let ?items = "main_items_of (td_inputData td)"
  have "jt_connectionInputData (requested_data visits (Some c) td) =
      replicate (ch_startIndex c) None @ map Some (take (ch_count c) (drop (ch_startIndex c) ?items))"
    using True by (simp add: requested_data_def reconstructTaskData_def strip_response_def buildFromTaskData_def stripInputData_def
        toDataRequestParams_def reconstructed_chunk)
  moreover have "map Some (take (ch_count c) (drop (ch_startIndex c) ?items)) ! (k - ch_startIndex c) = Some (?items ! k)" if "k < length ?items"
  proof -
    have "k - ch_startIndex c < length (take (ch_count c) (drop (ch_startIndex c) ?items))" using that assms by simp linarith
    then show ?thesis using assms(1) that by simp
  qed
  ultimately show ?thesis using True assms by (auto simp: item_at_def input_items_def nth_append)
next
  case False
  have "set (jt_connectionInputData (requested_data visits (Some c) td)) \<subseteq> {None}"
    using False by (auto simp: requested_data_def reconstructTaskData_def strip_response_def stripInputData_def
        toDataRequestParams_def reconstructConnectionInputItems_def missing_items_def)
  then show ?thesis using False nth_mem[of k] by (auto simp: item_at_def input_items_def)
qed

lemma chunk_proxy:
  "(createDataProxy (requested_data visits chunk td) (runner_workflow params types (requested_data visits chunk td)) i)\<lparr>px_connectionInputData := []\<rparr> =
   (createDataProxy (requested_data visits chunk' td) (runner_workflow params types (requested_data visits chunk' td)) i)\<lparr>px_connectionInputData := []\<rparr>"
  by (simp add: createDataProxy_def requested_data_def reconstructTaskData_def strip_response_def buildFromTaskData_def Let_def
      runner_workflow_def stripRunExecutionData_def filterObjectByNodeNames_def requestedNodeNames_def toDataRequestParams_def
      determinePrevNodeName_def)

text \<open>What the item at an index gives, without chunks.\<close>

definition item_result :: "'s CodeEnv \<Rightarrow> string \<Rightarrow> bool \<Rightarrow> TaskData \<Rightarrow> nat \<Rightarrow> INodeExecutionData list code_result" where
  "item_result env code cof td k =
     (let visits = co_parse env code; data = requested_data visits None td; items = input_items visits td
      in item_outcome cof k (fst (co_run env code (createDataProxy data (runner_workflow (co_getNodeParameters env) (co_nodeTypes env) data) (int k))
        (if k < length items then Some (items ! k) else None) (co_state env))))"

lemma executeTask_chunk:
  assumes "reads_own_item (co_run env code)" and "code \<noteq> []"
  shows "executeTask env \<lparr>se_code = code, se_nodeMode = RunOnceForEachItem, se_continueOnFail = cof, se_chunk = Some c\<rparr> td =
    collect (item_result env code cof td) [ch_startIndex c..<ch_startIndex c + ch_count c]"
proof -
  let ?data = "\<lambda>chunk. requested_data (co_parse env code) chunk td"
  let ?px = "\<lambda>chunk k. createDataProxy (?data chunk) (runner_workflow (co_getNodeParameters env) (co_nodeTypes env) (?data chunk)) (int k)"
  have same: "fst (co_run env code (?px (Some c) k) it (co_state env)) = fst (co_run env code (?px None k) it (co_state env))" for k it
    using assms(1) chunk_proxy unfolding reads_own_item_def by blast
  have "executeTask env \<lparr>se_code = code, se_nodeMode = RunOnceForEachItem, se_continueOnFail = cof, se_chunk = Some c\<rparr> td =
      run_indices (co_run env code) cof (?data (Some c)) (runner_workflow (co_getNodeParameters env) (co_nodeTypes env) (?data (Some c)))
        [ch_startIndex c..<ch_startIndex c + ch_count c] (co_state env)"
    using assms(2) by (simp add: executeTask_def validateTaskSettings_def runForEachItem_def Let_def)
  also have "\<dots> = collect (\<lambda>k. item_outcome cof k (fst (co_run env code (?px (Some c) k)
      (item_at (jt_connectionInputData (?data (Some c))) k) (co_state env)))) [ch_startIndex c..<ch_startIndex c + ch_count c]"
    by (rule run_indices_collect[OF assms(1)])
  also have "\<dots> = collect (item_result env code cof td) [ch_startIndex c..<ch_startIndex c + ch_count c]"
    by (rule collect_cong) (simp add: item_result_def same chunk_item Let_def)
  finally show ?thesis .
qed

lemma run_chunks_collect:
  assumes "reads_own_item (co_run env code)" and "code \<noteq> []"
  shows "run_chunks env code cof td cs =
    collect (item_result env code cof td) (concat (map (\<lambda>c. [ch_startIndex c..<ch_startIndex c + ch_count c]) cs))"
  by (induction cs) (auto simp: executeTask_chunk[OF assms] collect_append split: sum.split)

text \<open>C12: For a code that keeps no state and reads of its input only its own item, running it in chunks, each one a task
  of its own that requests, receives and puts together its part of the data, gives for every chunk size the
  results of all items in order, or the error of the first item that fails.\<close>

theorem chunks_as_one_run:
  assumes "reads_own_item (co_run env code)" and "code \<noteq> []" and "0 < chunkSize" and "disallowed_method code = None"
  shows "runCodeForEachItem env chunkSize code cof td n = collect (item_result env code cof td) [0..<n]"
  using assms by (simp add: runCodeForEachItem_def validateNoDisallowedMethodsInRunForEach_def run_chunks_collect chunk_ranges)

section \<open>Items of the result\<close>

lemma validated_item:
  assumes "validateRunForEachItemOutput v k = Inr d"
  shows "isObject (map_of d ''json'') \<and> set (js_keys d) \<subseteq> set REQUIRED_N8N_ITEM_KEYS \<and> (map_of d ''binary'' \<noteq> None \<longrightarrow> isObject (map_of d ''binary''))"
proof -
  have "set (js_keys d) \<subseteq> set REQUIRED_N8N_ITEM_KEYS" if "validateTopLevelKeys d k = Inr ()"
  proof -
    have "filter (\<lambda>x. x \<notin> set REQUIRED_N8N_ITEM_KEYS) (js_keys d) = []"
      using that by (auto simp: validateTopLevelKeys_def Let_def split: list.splits if_splits)
    then show ?thesis by (auto simp: filter_empty_conv)
  qed
  then show ?thesis using assms
    by (induction v k rule: validateRunForEachItemOutput.induct) (auto simp: Let_def validateItem_def split: sum.splits if_splits)
qed

text \<open>An item of a result is linked to the item it was made from and has an object as \<open>json\<close>.\<close>

lemma item_outcome_linked:
  assumes "item_outcome cof k out = Inr xs" and "x \<in> set xs"
  shows "map_of x ''pairedItem'' = Some (linked_to k) \<and> isObject (map_of x ''json'')"
proof -
  have "isObject (Some (or_else (map_of d ''json'') JNull))" if "isObject (map_of d ''json'')" for d :: INodeExecutionData
    using that by (cases "map_of d ''json''") (auto simp: or_else_def)
  then show ?thesis using assms validated_item
    by (auto simp: item_outcome_def Let_def code_error_item_def returned_item_def split: CodeOutcome.splits sum.splits if_splits)
qed

lemma collect_items: "collect f ks = Inr ys \<Longrightarrow> y \<in> set ys \<Longrightarrow> \<exists>k \<in> set ks. \<exists>xs. f k = Inr xs \<and> y \<in> set xs"
  by (induction ks arbitrary: ys) (auto split: sum.splits)

text \<open>Every item that a node returns in the mode for each item is linked to an item of its input.\<close>

lemma each_item_linked:
  assumes "reads_own_item (co_run env code)" and "code \<noteq> []" and "0 < chunkSize" and "runCodeForEachItem env chunkSize code cof td n = Inr ys"
    and "y \<in> set ys"
  shows "\<exists>k < n. map_of y ''pairedItem'' = Some (linked_to k) \<and> isObject (map_of y ''json'')"
proof -
  have "run_chunks env code cof td (chunkInputItems chunkSize n) = Inr ys"
    using assms(4) by (auto simp: runCodeForEachItem_def split: sum.splits)
  then have "collect (item_result env code cof td) [0..<n] = Inr ys"
    using assms(1-3) by (simp add: run_chunks_collect chunk_ranges)
  then obtain k xs where "k < n" "item_result env code cof td k = Inr xs" "y \<in> set xs" using collect_items[OF _ assms(5)] by force
  then show ?thesis using item_outcome_linked by (auto simp: item_result_def Let_def)
qed

text \<open>With \<open>continueOnFail\<close> no item stops the others.\<close>

lemma continue_never_fails: "\<exists>xs. item_outcome True k out = Inr xs"
  by (auto simp: item_outcome_def Let_def split: sum.split)

section \<open>Examples\<close>

text \<open>The code returns its item, and throws for the item \<open>2\<close>.\<close>

definition sample_code :: "unit user_code" where
  "sample_code px it s = (if px_itemIndex px = 2 then Threw ''no'' else Gave (map_option JObj it), ())"

definition code_env :: "unit CodeEnv" where
  "code_env = \<lparr>co_parse = (\<lambda>_. Some [Visit.Identifier ''$json'']), co_run = (\<lambda>_. sample_code), co_state = (), co_nodeTypes = (\<lambda>_ _. None),
     co_getNodeParameters = (\<lambda>_ _. None)\<rparr>"

definition three_items :: TaskData where
  "three_items = sample_task\<lparr>td_inputData := [(MainConn, [Some [empty_item, [(''json'', JObj [(''a'', JNum 1)])], empty_item]])]\<rparr>"

lemma chunks_as_one_run_witness:
  "runCodeForEachItem code_env 2 ''return item'' True three_items 3 =
     Inr [[(''json'', JObj []), (''pairedItem'', linked_to 0)], [(''json'', JObj [(''a'', JNum 1)]), (''pairedItem'', linked_to 1)],
       [(''json'', JObj [(''error'', JStr ''no'')]), (''pairedItem'', linked_to 2)]]"
proof -
  have "reads_own_item (co_run code_env ''return item'')"
    unfolding reads_own_item_def
  proof (intro allI impI)
    fix px px' :: WorkflowDataProxy and it :: "INodeExecutionData option" and s s' :: unit
    assume "px\<lparr>px_connectionInputData := []\<rparr> = px'\<lparr>px_connectionInputData := []\<rparr>"
    from arg_cong[OF this, of px_itemIndex] have "px_itemIndex px = px_itemIndex px'" by simp
    then show "fst (co_run code_env ''return item'' px it s) = fst (co_run code_env ''return item'' px' it s')"
      by (simp add: code_env_def sample_code_def)
  qed
  moreover have "disallowed_method ''return item'' = None" by code_simp
  ultimately have "runCodeForEachItem code_env 2 ''return item'' True three_items 3 = collect (item_result code_env ''return item'' True three_items) [0..<3]"
    by (intro chunks_as_one_run) simp_all
  also have "\<dots> = Inr [[(''json'', JObj []), (''pairedItem'', linked_to 0)], [(''json'', JObj [(''a'', JNum 1)]), (''pairedItem'', linked_to 1)],
       [(''json'', JObj [(''error'', JStr ''no'')]), (''pairedItem'', linked_to 2)]]"
    by code_simp
  finally show ?thesis .
qed

text \<open>The keys of one returned object are not checked, unlike those of an array; an object with \<open>binary\<close> only is wrapped.\<close>

lemma single_object_keys_unchecked:
  "validateRunForAllItemsOutput (Some (JObj [(''json'', JObj []), (''a'', JNum 1)])) = Inr [[(''json'', JObj []), (''a'', JNum 1)]]"
  "validateRunForAllItemsOutput (Some (JArr [JObj [(''json'', JObj []), (''a'', JNum 1)]])) = Inl (ValidationFailure ''Invalid output format [item 0]'' (Some 0))"
  by code_simp+

lemma single_binary_wrapped:
  "validateRunForAllItemsOutput (Some (JObj [(''binary'', JObj [])])) = Inr [[(''json'', JObj [(''binary'', JObj [])])]]"
  "validateRunForAllItemsOutput (Some (JArr [JObj [(''binary'', JObj [])]])) = Inr [[(''json'', JObj []), (''binary'', JObj [])]]"
  by code_simp+

text \<open>A comment makes the check of methods that are not allowed look at later lines only; one in a string is reported.\<close>

lemma method_in_text_reported:
  "\<not> isl (validateNoDisallowedMethodsInRunForEach (''// $input.all'' @ [CHR 0x0A] @ ''return {}'') 0)"
  "isl (validateNoDisallowedMethodsInRunForEach (''// $input.all'' @ [CHR 0x0A] @ ''return {all: 1}'') 0)"
  by code_simp+

end
