(* ===== verification/TaskRequester.thy ===== *)
theory TaskRequester
  imports TaskBroker CodeTaskData
begin

text \<open>
  The requester of tasks in the process of a node
  (\<^verbatim>\<open>packages/cli/src/task-runners/task-managers/task-requester.ts\<close>). \<open>startTask\<close> is cut at its two awaits, for the
  task id and for the result; every call has a place in a list and the maps hold the place of the call whose promise
  they settle. The JSON texts of messages are read and written by the environment. The workflow and the run data of an
  execution are objects that calls share with each other and with the execution: they live in two stores and a call
  holds references to them.
\<close>

section \<open>State\<close>

record TaskResultData =
  rs_result :: string
  rs_customData :: "(string, string) js_map option"
  rs_staticData :: "(string, json) js_map option"

datatype TaskOutcome = TaskAnswered TaskResultData | TaskFailed string

datatype CallPhase =
    AwaitTaskId "string option"
  | AwaitResult string "TaskOutcome option"
  | Returned "(string, string) sum"

record StartedTask =
  sk_requestId :: string
  sk_taskType :: string
  sk_settings :: string
  sk_data :: TaskData
  sk_workflow :: nat
  sk_execution :: nat
  sk_phase :: CallPhase

text \<open>A call of a function of the node that was not answered yet.\<close>

record RpcCall =
  rc_taskId :: string
  rc_callId :: string
  rc_open :: bool

record RequesterState =
  rt_requestAcceptRejects :: "(string, nat) js_map"
  rt_taskAcceptRejects :: "(string, nat) js_map"
  rt_tasks :: "(string, nat) js_map"
  rt_calls :: "StartedTask list"
  rt_rpcs :: "RpcCall list"
  rt_sent :: "RequesterMessage list"
  rt_workflows :: "Workflow list"
  rt_executions :: "IRunExecutionData list"

record RequesterEnv =
  re_readParams :: "string \<Rightarrow> TaskDataRequestParams"
  re_writeData :: "DataRequestResponse \<Rightarrow> string"
  re_readResult :: "string \<Rightarrow> TaskResultData"
  re_nodeTypes :: "string \<Rightarrow> string"
  re_hasFunction :: "TaskData \<Rightarrow> string \<Rightarrow> bool"

definition AVAILABLE_RPC_METHODS :: "string list" where
  "AVAILABLE_RPC_METHODS = [''helpers.assertBinaryData'', ''helpers.getBinaryDataBuffer'', ''helpers.prepareBinaryData'',
     ''helpers.setBinaryDataBuffer'', ''helpers.binaryToString'', ''helpers.httpRequest'', ''helpers.request'', ''logNodeOutput'']"

definition requester_send :: "RequesterMessage \<Rightarrow> RequesterState \<Rightarrow> RequesterState" where
  "requester_send m s = s\<lparr>rt_sent := rt_sent s @ [m]\<rparr>"

definition set_call :: "nat \<Rightarrow> CallPhase \<Rightarrow> RequesterState \<Rightarrow> RequesterState" where
  "set_call k ph s = s\<lparr>rt_calls := (rt_calls s)[k := (rt_calls s ! k)\<lparr>sk_phase := ph\<rparr>]\<rparr>"

section \<open>Operations\<close>

text \<open>The data of a call as it is now.\<close>

definition data_of_call :: "RequesterState \<Rightarrow> StartedTask \<Rightarrow> TaskData" where
  "data_of_call s c = (sk_data c)\<lparr>td_workflow := rt_workflows s ! sk_workflow c, td_runExecutionData := rt_executions s ! sk_execution c\<rparr>"

definition startTask :: "string \<Rightarrow> string \<Rightarrow> string \<Rightarrow> TaskData \<Rightarrow> nat \<Rightarrow> nat \<Rightarrow> RequesterState \<Rightarrow> RequesterState" where
  "startTask rid ty stgs td wr xr s =
     requester_send (Requester_TaskRequest rid ty)
       (s\<lparr>rt_calls := rt_calls s @ [\<lparr>sk_requestId = rid, sk_taskType = ty, sk_settings = stgs, sk_data = td,
            sk_workflow = wr, sk_execution = xr, sk_phase = AwaitTaskId None\<rparr>],
          rt_requestAcceptRejects := js_put rid (length (rt_calls s)) (rt_requestAcceptRejects s)\<rparr>)"

text \<open>After the first await.\<close>

definition task_id_arrives :: "nat \<Rightarrow> string \<Rightarrow> RequesterState \<Rightarrow> RequesterState" where
  "task_id_arrives k tid s =
     requester_send (Requester_TaskSettings tid (sk_settings (rt_calls s ! k)))
       (set_call k (AwaitResult tid None)
         (s\<lparr>rt_tasks := js_put tid k (rt_tasks s), rt_taskAcceptRejects := js_put tid k (rt_taskAcceptRejects s)\<rparr>))"

text \<open>\<open>customData\<close> goes into the metadata of the execution, \<open>staticData\<close> into the workflow.\<close>

definition take_customData :: "TaskResultData \<Rightarrow> IRunExecutionData \<Rightarrow> IRunExecutionData" where
  "take_customData r red = (case rs_customData r of
      Some ((k, v) # cs) \<Rightarrow> red\<lparr>xr_metadata := Some (fold (\<lambda>(k, v). js_put k v) ((k, v) # cs) (or_else (xr_metadata red) []))\<rparr>
    | _ \<Rightarrow> red)"

definition take_staticData :: "TaskResultData \<Rightarrow> Workflow \<Rightarrow> Workflow" where
  "take_staticData r w = (case rs_staticData r of Some d \<Rightarrow> overrideStaticData (Some d) w | None \<Rightarrow> w)"

text \<open>After the second await, with the \<open>finally\<close> block.\<close>

definition result_arrives :: "nat \<Rightarrow> string \<Rightarrow> TaskOutcome \<Rightarrow> RequesterState \<Rightarrow> RequesterState" where
  "result_arrives k tid outcome s =
     (let c = rt_calls s ! k;
          s = (case outcome of
              TaskAnswered r \<Rightarrow> set_call k (Returned (Inr (rs_result r)))
                (s\<lparr>rt_executions := (rt_executions s)[sk_execution c := take_customData r (rt_executions s ! sk_execution c)],
                   rt_workflows := (rt_workflows s)[sk_workflow c := take_staticData r (rt_workflows s ! sk_workflow c)]\<rparr>)
            | TaskFailed e \<Rightarrow> set_call k (Returned (Inl e)) s)
      in s\<lparr>rt_tasks := js_del tid (rt_tasks s)\<rparr>)"

definition call_resumes :: "nat \<Rightarrow> RequesterState \<Rightarrow> RequesterState" where
  "call_resumes k s =
     (if k < length (rt_calls s)
      then case sk_phase (rt_calls s ! k) of
          AwaitTaskId (Some tid) \<Rightarrow> task_id_arrives k tid s
        | AwaitResult tid (Some outcome) \<Rightarrow> result_arrives k tid outcome s
        | _ \<Rightarrow> s
      else s)"

definition rejectTask :: "string \<Rightarrow> string \<Rightarrow> RequesterState \<Rightarrow> RequesterState" where
  "rejectTask tid why s = requester_send (Requester_TaskCancel tid why) s"

definition taskReady :: "string \<Rightarrow> string \<Rightarrow> RequesterState \<Rightarrow> RequesterState" where
  "taskReady rid tid s = (case map_of (rt_requestAcceptRejects s) rid of
     None \<Rightarrow> rejectTask tid
       ''Request ID not found. In multi-main setup, it is possible for one of the mains to have reported ready state already.'' s
   | Some k \<Rightarrow> (set_call k (AwaitTaskId (Some tid)) s)\<lparr>rt_requestAcceptRejects := js_del rid (rt_requestAcceptRejects s)\<rparr>)"

definition settle_task :: "string \<Rightarrow> TaskOutcome \<Rightarrow> RequesterState \<Rightarrow> RequesterState" where
  "settle_task tid outcome s = (case map_of (rt_taskAcceptRejects s) tid of
     None \<Rightarrow> s
   | Some k \<Rightarrow> (set_call k (AwaitResult tid (Some outcome)) s)\<lparr>rt_taskAcceptRejects := js_del tid (rt_taskAcceptRejects s)\<rparr>)"

definition sendTaskData :: "RequesterEnv \<Rightarrow> string \<Rightarrow> string \<Rightarrow> string \<Rightarrow> RequesterState \<Rightarrow> RequesterState" where
  "sendTaskData env tid rid ps s = (case map_of (rt_tasks s) tid of
     None \<Rightarrow> s
   | Some k \<Rightarrow>
       let dataRequestResponse = buildFromTaskData (data_of_call s (rt_calls s ! k));
           strippedData = strip_response (re_readParams env ps) dataRequestResponse
       in requester_send (Requester_TaskDataResponse tid rid (re_writeData env strippedData)) s)"

definition sendNodeTypes :: "RequesterEnv \<Rightarrow> string \<Rightarrow> string \<Rightarrow> string \<Rightarrow> RequesterState \<Rightarrow> RequesterState" where
  "sendNodeTypes env tid rid neededNodeTypes s =
     requester_send (Requester_NodeTypesResponse tid rid (re_nodeTypes env neededNodeTypes)) s"

definition handleRpc :: "RequesterEnv \<Rightarrow> string \<Rightarrow> string \<Rightarrow> string \<Rightarrow> RequesterState \<Rightarrow> RequesterState" where
  "handleRpc env tid cid name s = (case map_of (rt_tasks s) tid of
     None \<Rightarrow> s
   | Some k \<Rightarrow>
       if name \<notin> set AVAILABLE_RPC_METHODS
       then requester_send (Requester_RPCResponse tid cid ''error'' ''Method not allowed'') s
       else if \<not> re_hasFunction env (data_of_call s (rt_calls s ! k)) name
       then requester_send (Requester_RPCResponse tid cid ''error'' ''Could not find method'') s
       else s\<lparr>rt_rpcs := rt_rpcs s @ [\<lparr>rc_taskId = tid, rc_callId = cid, rc_open = True\<rparr>]\<rparr>)"

text \<open>A function of the node returns or throws.\<close>

definition rpc_ends :: "nat \<Rightarrow> (string, string) sum \<Rightarrow> RequesterState \<Rightarrow> RequesterState" where
  "rpc_ends i r s =
     (if i < length (rt_rpcs s) \<and> rc_open (rt_rpcs s ! i)
      then requester_send (case r of
            Inr d \<Rightarrow> Requester_RPCResponse (rc_taskId (rt_rpcs s ! i)) (rc_callId (rt_rpcs s ! i)) ''success'' d
          | Inl e \<Rightarrow> Requester_RPCResponse (rc_taskId (rt_rpcs s ! i)) (rc_callId (rt_rpcs s ! i)) ''error'' e)
        (s\<lparr>rt_rpcs := (rt_rpcs s)[i := (rt_rpcs s ! i)\<lparr>rc_open := False\<rparr>]\<rparr>)
      else s)"

fun requester_onMessage :: "RequesterEnv \<Rightarrow> ToRequester \<Rightarrow> RequesterState \<Rightarrow> RequesterState" where
  "requester_onMessage env (ToRequester_TaskReady rid tid) s = taskReady rid tid s"
| "requester_onMessage env (ToRequester_TaskDone tid d) s = settle_task tid (TaskAnswered (re_readResult env d)) s"
| "requester_onMessage env (ToRequester_TaskError tid e) s = settle_task tid (TaskFailed e) s"
| "requester_onMessage env (ToRequester_TaskDataRequest tid rid ps) s = sendTaskData env tid rid ps s"
| "requester_onMessage env (ToRequester_NodeTypesRequest tid rid ps) s = sendNodeTypes env tid rid ps s"
| "requester_onMessage env (ToRequester_RPC tid cid name ps) s = handleRpc env tid cid name s"

section \<open>Steps\<close>

text \<open>
  A new request has an id that no other request has, a task id is reported for one request at most: both are made
  by \<open>nanoid\<close>. The workflow and the run data of a call are objects that exist; the execution makes new ones and changes
  those it has at any time.
\<close>

datatype RequesterEvent =
    StartTask string string string TaskData nat nat
  | ObjectsChange "Workflow list" "IRunExecutionData list"
  | Receives ToRequester
  | CallResumes nat
  | RpcEnds nat "(string, string) sum"

fun requester_step :: "RequesterEnv \<Rightarrow> RequesterEvent \<Rightarrow> RequesterState \<Rightarrow> RequesterState" where
  "requester_step env (StartTask rid ty stgs td wr xr) s = startTask rid ty stgs td wr xr s"
| "requester_step env (ObjectsChange ws xs) s = s\<lparr>rt_workflows := ws, rt_executions := xs\<rparr>"
| "requester_step env (Receives m) s = requester_onMessage env m s"
| "requester_step env (CallResumes k) s = call_resumes k s"
| "requester_step env (RpcEnds i r) s = rpc_ends i r s"

definition task_of_call :: "StartedTask \<Rightarrow> string option" where
  "task_of_call c = (case sk_phase c of AwaitTaskId t \<Rightarrow> t | AwaitResult t _ \<Rightarrow> Some t | Returned _ \<Rightarrow> None)"

definition no_requests :: RequesterState where
  "no_requests = \<lparr>rt_requestAcceptRejects = [], rt_taskAcceptRejects = [], rt_tasks = [], rt_calls = [], rt_rpcs = [], rt_sent = [],
     rt_workflows = [], rt_executions = []\<rparr>"

fun fresh_ids :: "RequesterEvent \<Rightarrow> RequesterState \<Rightarrow> bool" where
  "fresh_ids (StartTask rid ty stgs td wr xr) s =
     (rid \<notin> sk_requestId ` set (rt_calls s) \<and> wr < length (rt_workflows s) \<and> xr < length (rt_executions s))"
| "fresh_ids (ObjectsChange ws xs) s = (length (rt_workflows s) \<le> length ws \<and> length (rt_executions s) \<le> length xs)"
| "fresh_ids (Receives (ToRequester_TaskReady rid tid)) s = (\<forall>c \<in> set (rt_calls s). task_of_call c \<noteq> Some tid)"
| "fresh_ids _ s = True"

inductive requester_reachable :: "RequesterEnv \<Rightarrow> RequesterState \<Rightarrow> bool" for env where
  init: "requester_reachable env no_requests"
| step: "requester_reachable env s \<Longrightarrow> fresh_ids ev s \<Longrightarrow> requester_reachable env (requester_step env ev s)"

section \<open>Invariant\<close>

text \<open>The calls that a map should name.\<close>

definition calls_named :: "(StartedTask \<Rightarrow> string option) \<Rightarrow> (string, nat) js_map \<Rightarrow> StartedTask list \<Rightarrow> bool" where
  "calls_named f m cs \<longleftrightarrow> (\<forall>x k. map_of m x = Some k \<longleftrightarrow> k < length cs \<and> f (cs ! k) = Some x)"

definition waits_for_id :: "StartedTask \<Rightarrow> string option" where
  "waits_for_id c = (if sk_phase c = AwaitTaskId None then Some (sk_requestId c) else None)"

definition waits_for_result :: "StartedTask \<Rightarrow> string option" where
  "waits_for_result c = (case sk_phase c of AwaitResult tid None \<Rightarrow> Some tid | _ \<Rightarrow> None)"

definition has_task :: "StartedTask \<Rightarrow> string option" where
  "has_task c = (case sk_phase c of AwaitResult tid _ \<Rightarrow> Some tid | _ \<Rightarrow> None)"

definition unshared :: "(StartedTask \<Rightarrow> string option) \<Rightarrow> StartedTask list \<Rightarrow> bool" where
  "unshared f cs \<longleftrightarrow> (\<forall>i < length cs. \<forall>j < length cs. f (cs ! i) \<noteq> None \<longrightarrow> f (cs ! i) = f (cs ! j) \<longrightarrow> i = j)"

definition requester_ok :: "RequesterState \<Rightarrow> bool" where
  "requester_ok s \<longleftrightarrow>
     calls_named waits_for_id (rt_requestAcceptRejects s) (rt_calls s) \<and>
     calls_named waits_for_result (rt_taskAcceptRejects s) (rt_calls s) \<and>
     calls_named has_task (rt_tasks s) (rt_calls s) \<and>
     unshared task_of_call (rt_calls s) \<and> distinct (map sk_requestId (rt_calls s))"

text \<open>How a change of one call, and of the name that a map has for it, keeps the map right.\<close>

lemma name_update: "k < length cs \<Longrightarrow> j < length cs \<Longrightarrow> f (cs[k := c] ! j) = (if j = k then f c else f (cs ! j))"
  by simp

lemma calls_named_same: "calls_named f m cs \<Longrightarrow> f c = f (cs ! k) \<Longrightarrow> k < length cs \<Longrightarrow> calls_named f m (cs[k := c])"
  unfolding calls_named_def by (metis length_list_update name_update)

lemma calls_named_leaves:
  assumes "calls_named f m cs" and "f (cs ! k) = Some x" and "f c = None" and k: "k < length cs"
  shows "calls_named f (js_del x m) (cs[k := c])"
  unfolding calls_named_def
proof (intro allI)
  fix y j
  have m: "map_of m y = Some j \<longleftrightarrow> j < length cs \<and> f (cs ! j) = Some y" "map_of m x = Some k"
    using assms(1,2) k unfolding calls_named_def by blast+
  show "map_of (js_del x m) y = Some j \<longleftrightarrow> j < length (cs[k := c]) \<and> f (cs[k := c] ! j) = Some y"
  proof (cases "j < length cs")
    case True
    then show ?thesis using m assms(2,3) name_update[OF k True, of f c] by (cases "y = x"; cases "j = k") auto
  next
    case False
    then show ?thesis using m by auto
  qed
qed

lemma calls_named_enters:
  assumes "calls_named f m cs" and "f (cs ! k) = None" and "f c = Some x" and k: "k < length cs" and none: "\<forall>c \<in> set cs. f c \<noteq> Some x"
  shows "calls_named f (js_put x k m) (cs[k := c])"
  unfolding calls_named_def
proof (intro allI)
  fix y j
  have m: "map_of m y = Some j \<longleftrightarrow> j < length cs \<and> f (cs ! j) = Some y" using assms(1) unfolding calls_named_def by blast
  show "map_of (js_put x k m) y = Some j \<longleftrightarrow> j < length (cs[k := c]) \<and> f (cs[k := c] ! j) = Some y"
  proof (cases "j < length cs")
    case True
    then have "f (cs ! j) \<noteq> Some x" using none by simp
    then show ?thesis using m assms(2,3) True name_update[OF k True, of f c] by (cases "y = x"; cases "j = k") auto
  next
    case False
    then show ?thesis using m k by auto
  qed
qed

lemma calls_named_new: "calls_named f m cs \<Longrightarrow> f c = None \<Longrightarrow> calls_named f m (cs @ [c])"
  unfolding calls_named_def by (auto simp: nth_append less_Suc_eq)

lemma unshared_update:
  assumes "unshared f cs" and k: "k < length cs" and "f c = None \<or> f c = f (cs ! k) \<or> (\<forall>c' \<in> set cs. f c' \<noteq> f c)"
  shows "unshared f (cs[k := c])"
  unfolding unshared_def
proof (intro allI impI)
  fix i j assume i: "i < length (cs[k := c])" and j: "j < length (cs[k := c])" and some: "f (cs[k := c] ! i) \<noteq> None" and eq: "f (cs[k := c] ! i) = f (cs[k := c] ! j)"
  have old: "i = j" if "f (cs ! i) \<noteq> None" "f (cs ! i) = f (cs ! j)" using assms(1) i j that unfolding unshared_def by simp
  have fresh: "f (cs ! n) \<noteq> f c" if "\<forall>c' \<in> set cs. f c' \<noteq> f c" "n < length cs" for n using that by simp
  show "i = j"
    using assms(3) some eq old fresh[of i] fresh[of j] i j name_update[OF k, of i f c] name_update[OF k, of j f c]
    by (cases "i = k"; cases "j = k") auto
qed

lemma map_request_update: "sk_requestId c = sk_requestId (cs ! k) \<Longrightarrow> map sk_requestId (cs[k := c]) = map sk_requestId cs"
  by (cases "k < length cs") (simp_all add: map_update list_update_same_conv list_update_beyond)

lemmas phase_names = waits_for_id_def waits_for_result_def has_task_def task_of_call_def

lemma named_call: "calls_named f m cs \<Longrightarrow> map_of m x = Some k \<Longrightarrow> k < length cs \<and> f (cs ! k) = Some x"
  by (simp add: calls_named_def)

lemma waits_for_id_Some: "waits_for_id c = Some x \<longleftrightarrow> sk_phase c = AwaitTaskId None \<and> sk_requestId c = x"
  by (simp add: waits_for_id_def)

lemma waits_for_result_Some: "waits_for_result c = Some x \<longleftrightarrow> sk_phase c = AwaitResult x None"
  by (auto simp: waits_for_result_def split: CallPhase.splits option.splits)

lemma requester_ok_same: "rt_requestAcceptRejects s' = rt_requestAcceptRejects s \<Longrightarrow> rt_taskAcceptRejects s' = rt_taskAcceptRejects s \<Longrightarrow>
    rt_tasks s' = rt_tasks s \<Longrightarrow> rt_calls s' = rt_calls s \<Longrightarrow> requester_ok s \<Longrightarrow> requester_ok s'"
  by (simp add: requester_ok_def)

lemma startTask_ok:
  assumes "requester_ok s" and "rid \<notin> sk_requestId ` set (rt_calls s)"
  shows "requester_ok (startTask rid ty stgs td wr xr s)"
proof -
  let ?c = "\<lparr>sk_requestId = rid, sk_taskType = ty, sk_settings = stgs, sk_data = td,
      sk_workflow = wr, sk_execution = xr, sk_phase = AwaitTaskId None\<rparr>"
  have ids: "waits_for_id c \<noteq> Some rid" if "c \<in> set (rt_calls s)" for c using assms(2) that by (auto simp: waits_for_id_Some)
  have "calls_named waits_for_id (js_put rid (length (rt_calls s)) (rt_requestAcceptRejects s)) (rt_calls s @ [?c])"
    using assms(1) ids unfolding requester_ok_def calls_named_def by (auto simp: nth_append waits_for_id_Some less_Suc_eq)
  moreover have "unshared task_of_call (rt_calls s @ [?c])"
    using assms(1) by (auto simp: requester_ok_def unshared_def nth_append task_of_call_def less_Suc_eq)
  moreover have "distinct (map sk_requestId (rt_calls s @ [?c]))" using assms by (simp add: requester_ok_def)
  ultimately show ?thesis
    using assms(1) by (simp add: requester_ok_def startTask_def requester_send_def calls_named_new waits_for_result_def has_task_def)
qed

lemma taskReady_ok:
  assumes "requester_ok s" and "\<forall>c \<in> set (rt_calls s). task_of_call c \<noteq> Some tid"
  shows "requester_ok (taskReady rid tid s)"
proof (cases "map_of (rt_requestAcceptRejects s) rid")
  case None
  then show ?thesis using assms(1) by (auto simp: taskReady_def rejectTask_def requester_send_def intro: requester_ok_same)
next
  case (Some k)
  let ?c = "(rt_calls s ! k)\<lparr>sk_phase := AwaitTaskId (Some tid)\<rparr>"
  have k: "k < length (rt_calls s)" "waits_for_id (rt_calls s ! k) = Some rid"
    using assms(1) Some named_call by (auto simp: requester_ok_def)
  then have ph: "sk_phase (rt_calls s ! k) = AwaitTaskId None" by (simp add: waits_for_id_Some)
  have "unshared task_of_call ((rt_calls s)[k := ?c])"
    using assms by (intro unshared_update k(1)) (auto simp: requester_ok_def task_of_call_def)
  then show ?thesis using assms(1) Some k ph
    by (simp add: requester_ok_def taskReady_def set_call_def calls_named_leaves calls_named_same map_request_update
        waits_for_id_def waits_for_result_def has_task_def)
qed

lemma settle_task_ok:
  assumes "requester_ok s"
  shows "requester_ok (settle_task tid outcome s)"
proof (cases "map_of (rt_taskAcceptRejects s) tid")
  case None
  then show ?thesis using assms by (simp add: settle_task_def)
next
  case (Some k)
  let ?c = "(rt_calls s ! k)\<lparr>sk_phase := AwaitResult tid (Some outcome)\<rparr>"
  have k: "k < length (rt_calls s)" "waits_for_result (rt_calls s ! k) = Some tid"
    using assms Some named_call by (auto simp: requester_ok_def)
  then have ph: "sk_phase (rt_calls s ! k) = AwaitResult tid None" by (simp add: waits_for_result_Some)
  have "unshared task_of_call ((rt_calls s)[k := ?c])"
    using assms ph by (intro unshared_update k(1)) (auto simp: requester_ok_def task_of_call_def)
  then show ?thesis using assms Some k ph
    by (simp add: requester_ok_def settle_task_def set_call_def calls_named_leaves calls_named_same map_request_update
        waits_for_id_def waits_for_result_def has_task_def)
qed

lemma task_id_arrives_ok:
  assumes "requester_ok s" and "k < length (rt_calls s)" and ph: "sk_phase (rt_calls s ! k) = AwaitTaskId (Some tid)"
  shows "requester_ok (task_id_arrives k tid s)"
proof -
  let ?c = "(rt_calls s ! k)\<lparr>sk_phase := AwaitResult tid None\<rparr>"
  have other: "j = k" if "j < length (rt_calls s)" "task_of_call (rt_calls s ! j) = Some tid" for j
    using assms that unfolding requester_ok_def unshared_def by (auto simp: task_of_call_def)
  have none: "has_task c \<noteq> Some tid" "waits_for_result c \<noteq> Some tid" if c: "c \<in> set (rt_calls s)" for c
  proof -
    obtain j where j: "j < length (rt_calls s)" "c = rt_calls s ! j" using c by (auto simp: in_set_conv_nth)
    have "sk_phase c \<noteq> AwaitResult tid out" for out
      using other[OF j(1)] j(2) ph by (auto simp: task_of_call_def)
    then show "has_task c \<noteq> Some tid" "waits_for_result c \<noteq> Some tid"
      by (auto simp: has_task_def waits_for_result_def split: CallPhase.splits option.splits)
  qed
  have "unshared task_of_call ((rt_calls s)[k := ?c])"
    using assms ph by (intro unshared_update assms(2)) (auto simp: requester_ok_def task_of_call_def)
  then show ?thesis using assms none
    by (simp add: requester_ok_def task_id_arrives_def requester_send_def set_call_def calls_named_enters calls_named_same map_request_update
        waits_for_id_def waits_for_result_def has_task_def)
qed

lemma result_arrives_ok:
  assumes "requester_ok s" and "k < length (rt_calls s)" and ph: "sk_phase (rt_calls s ! k) = AwaitResult tid (Some out)"
  shows "requester_ok (result_arrives k tid out s)"
proof -
  obtain c where c: "rt_calls (result_arrives k tid out s) = (rt_calls s)[k := c]" "\<exists>r. sk_phase c = Returned r" "sk_requestId c = sk_requestId (rt_calls s ! k)"
    by (cases out) (auto simp: result_arrives_def set_call_def Let_def)
  have maps: "rt_requestAcceptRejects (result_arrives k tid out s) = rt_requestAcceptRejects s"
    "rt_taskAcceptRejects (result_arrives k tid out s) = rt_taskAcceptRejects s" "rt_tasks (result_arrives k tid out s) = js_del tid (rt_tasks s)"
    by (cases out; simp add: result_arrives_def set_call_def Let_def)+
  have "unshared task_of_call ((rt_calls s)[k := c])"
    using assms c(2) by (intro unshared_update assms(2)) (auto simp: requester_ok_def task_of_call_def)
  then show ?thesis using assms c
    by (auto simp: requester_ok_def maps calls_named_same map_request_update
        waits_for_id_def waits_for_result_def has_task_def intro: calls_named_leaves)
qed

lemma requester_step_ok:
  assumes "requester_ok s" and "fresh_ids ev s"
  shows "requester_ok (requester_step env ev s)"
proof (cases ev)
  case (StartTask rid ty stgs td wr xr)
  then show ?thesis using assms startTask_ok by simp
next
  case (ObjectsChange ws xs)
  then show ?thesis using assms by (auto intro: requester_ok_same)
next
  case (Receives m)
  show ?thesis
  proof (cases m)
    case (ToRequester_TaskReady rid tid)
    then show ?thesis using Receives assms taskReady_ok by simp
  qed (use Receives assms settle_task_ok in \<open>auto simp: sendTaskData_def sendNodeTypes_def handleRpc_def requester_send_def Let_def
      split: option.split intro: requester_ok_same\<close>)
next
  case (CallResumes k)
  then show ?thesis using assms task_id_arrives_ok result_arrives_ok by (auto simp: call_resumes_def split: CallPhase.split option.split)
next
  case (RpcEnds i r)
  then show ?thesis using assms by (auto simp: rpc_ends_def requester_send_def intro: requester_ok_same)
qed

lemma no_requests_ok: "requester_ok no_requests"
  by (simp add: no_requests_def requester_ok_def calls_named_def unshared_def)

lemma requester_reachable_ok: "requester_reachable env s \<Longrightarrow> requester_ok s"
  by (induction rule: requester_reachable.induct) (simp_all only: no_requests_ok requester_step_ok)

section \<open>Properties\<close>

text \<open>Nothing is left of calls that have returned.\<close>

lemma no_task_left:
  assumes "requester_reachable env s" and "\<forall>c \<in> set (rt_calls s). \<exists>r. sk_phase c = Returned r"
  shows "rt_requestAcceptRejects s = [] \<and> rt_taskAcceptRejects s = [] \<and> rt_tasks s = []"
proof -
  have ret: "\<exists>r. sk_phase (rt_calls s ! k) = Returned r" if "k < length (rt_calls s)" for k using assms(2) that by simp
  have "m = []" if "calls_named f m (rt_calls s)" "\<And>c r. sk_phase c = Returned r \<Longrightarrow> f c = None" for f m
  proof -
    have none: "f (rt_calls s ! k) = None" if "k < length (rt_calls s)" for k using ret[OF that] \<open>\<And>c r. sk_phase c = Returned r \<Longrightarrow> f c = None\<close> by blast
    have "map_of m x = None" for x
    proof (cases "map_of m x")
      case (Some k)
      then show ?thesis using named_call[OF that(1) Some] none[of k] by simp
    qed
    then show ?thesis by (cases m) (auto split: if_splits, metis option.distinct(1))
  qed
  then show ?thesis using requester_reachable_ok[OF assms(1)] by (auto simp: requester_ok_def phase_names)
qed

text \<open>C14: While \<open>startTask\<close> waits for the result of a task, requests for data of the task are answered with the data of
  that call, its workflow and its run data as they are then, stripped. The result or the error that arrives for the task
  is what the call returns, and a second one is ignored. No other call changes; of the shared objects a result changes
  the workflow and the run data of the call only, and an error changes none. Nothing is left of the task afterwards:
  a result, an error, a request for data or a call of a function that still comes for it changes nothing.\<close>

theorem requester_serves_own_call:
  assumes "requester_reachable env s" and "k < length (rt_calls s)" and "sk_phase (rt_calls s ! k) = AwaitResult tid None"
    and c: "c = rt_calls s ! k" and m: "m = ToRequester_TaskDone tid d \<and> out = TaskAnswered (re_readResult env d) \<or> m = ToRequester_TaskError tid e \<and> out = TaskFailed e"
    and s1: "s1 = requester_onMessage env m s" and s': "s' = call_resumes k s1"
  shows "requester_onMessage env (ToRequester_TaskDataRequest tid rid ps) s =
      requester_send (Requester_TaskDataResponse tid rid
        (re_writeData env (strip_response (re_readParams env ps)
          (buildFromTaskData ((sk_data c)\<lparr>td_workflow := rt_workflows s ! sk_workflow c, td_runExecutionData := rt_executions s ! sk_execution c\<rparr>))))) s \<and>
    rt_calls s' = (rt_calls s)[k := c\<lparr>sk_phase := Returned (case out of TaskAnswered r \<Rightarrow> Inr (rs_result r) | TaskFailed e \<Rightarrow> Inl e)\<rparr>] \<and>
    rt_workflows s' = (case out of TaskAnswered r \<Rightarrow> (rt_workflows s)[sk_workflow c := take_staticData r (rt_workflows s ! sk_workflow c)]
      | TaskFailed e \<Rightarrow> rt_workflows s) \<and>
    rt_executions s' = (case out of TaskAnswered r \<Rightarrow> (rt_executions s)[sk_execution c := take_customData r (rt_executions s ! sk_execution c)]
      | TaskFailed e \<Rightarrow> rt_executions s) \<and>
    (\<forall>d'. requester_onMessage env (ToRequester_TaskDone tid d') s1 = s1 \<and> requester_onMessage env (ToRequester_TaskError tid d') s1 = s1) \<and>
    (\<forall>d' nm. requester_onMessage env (ToRequester_TaskDone tid d') s' = s' \<and> requester_onMessage env (ToRequester_TaskError tid d') s' = s' \<and>
      requester_onMessage env (ToRequester_TaskDataRequest tid rid d') s' = s' \<and> requester_onMessage env (ToRequester_RPC tid rid nm d') s' = s')"
proof -
  have ok: "requester_ok s" using requester_reachable_ok[OF assms(1)] .
  have entry: "map_of (rt_taskAcceptRejects s) tid = Some k" "map_of (rt_tasks s) tid = Some k"
    using ok assms(2,3) by (auto simp: requester_ok_def calls_named_def waits_for_result_def has_task_def)
  have s1': "s1 = (set_call k (AwaitResult tid (Some out)) s)\<lparr>rt_taskAcceptRejects := js_del tid (rt_taskAcceptRejects s)\<rparr>"
    using m entry by (auto simp: s1 settle_task_def)
  then have "s' = result_arrives k tid out s1" using assms(2) by (simp add: s' call_resumes_def set_call_def)
  then show ?thesis
    using assms(2,3) entry by (cases out) (simp_all add: s1' c sendTaskData_def handleRpc_def data_of_call_def Let_def settle_task_def set_call_def result_arrives_def)
qed

text \<open>
  A result that arrives before \<open>startTask\<close> goes on with the task id is dropped.
\<close>

lemma early_result_lost:
  assumes "requester_reachable env s" and "k < length (rt_calls s)" and "sk_phase (rt_calls s ! k) = AwaitTaskId (Some tid)"
  shows "requester_onMessage env (ToRequester_TaskDone tid d) s = s"
proof -
  have ok: "requester_ok s" using requester_reachable_ok[OF assms(1)] .
  have "map_of (rt_taskAcceptRejects s) tid = None"
  proof (cases "map_of (rt_taskAcceptRejects s) tid")
    case (Some j)
    then have j: "j < length (rt_calls s)" "waits_for_result (rt_calls s ! j) = Some tid" using ok named_call by (auto simp: requester_ok_def)
    then have "task_of_call (rt_calls s ! j) = Some tid" by (simp add: waits_for_result_Some task_of_call_def)
    then have "j = k" using ok j(1) assms(2,3) unfolding requester_ok_def unshared_def by (auto simp: task_of_call_def)
    then show ?thesis using j(2) assms(3) by (simp add: waits_for_result_def)
  qed
  then show ?thesis by (simp add: settle_task_def)
qed

section \<open>Examples\<close>

definition sample_requester_env :: RequesterEnv where
  "sample_requester_env = \<lparr>re_readParams = (\<lambda>_. toDataRequestParams None new_parser_state), re_writeData = (\<lambda>_. ''{}''),
     re_readResult = (\<lambda>d. \<lparr>rs_result = d, rs_customData = None, rs_staticData = None\<rparr>), re_nodeTypes = (\<lambda>_. []), re_hasFunction = (\<lambda>_ _. True)\<rparr>"

definition requested_state :: RequesterState where
  "requested_state = requester_step sample_requester_env (StartTask ''r'' ''javascript'' ''{}'' sample_task 0 0)
     (requester_step sample_requester_env (ObjectsChange [td_workflow sample_task] [td_runExecutionData sample_task]) no_requests)"

definition ready_state :: RequesterState where
  "ready_state = requester_step sample_requester_env (Receives (ToRequester_TaskReady ''r'' ''t'')) requested_state"

definition running_state :: RequesterState where
  "running_state = requester_step sample_requester_env (CallResumes 0) ready_state"

lemma running_reachable: "requester_reachable sample_requester_env ready_state" "requester_reachable sample_requester_env running_state"
proof -
  have "requester_reachable sample_requester_env requested_state"
    unfolding requested_state_def
    by (rule requester_reachable.step[OF requester_reachable.step[OF requester_reachable.init]]) (simp_all add: no_requests_def)
  then show "requester_reachable sample_requester_env ready_state"
    unfolding ready_state_def by (rule requester_reachable.step) code_simp
  then show "requester_reachable sample_requester_env running_state"
    unfolding running_state_def by (rule requester_reachable.step) simp
qed

lemma ready_calls: "length (rt_calls ready_state) = 1" "sk_phase (rt_calls ready_state ! 0) = AwaitTaskId (Some ''t'')"
  "length (rt_calls running_state) = 1" "sk_phase (rt_calls running_state ! 0) = AwaitResult ''t'' None"
  by (simp_all add: running_state_def ready_state_def requested_state_def no_requests_def startTask_def requester_send_def taskReady_def
      set_call_def call_resumes_def task_id_arrives_def)

lemma requester_serves_own_call_witness:
  "sk_phase (rt_calls (call_resumes 0 (requester_onMessage sample_requester_env (ToRequester_TaskDone ''t'' ''[]'') running_state)) ! 0) = Returned (Inr ''[]'') \<and>
   sk_phase (rt_calls (call_resumes 0 (requester_onMessage sample_requester_env (ToRequester_TaskError ''t'' ''no'') running_state)) ! 0) = Returned (Inl ''no'')"
  using requester_serves_own_call[OF running_reachable(2) _ _ refl _ refl refl,
      of 0 "''t''" "ToRequester_TaskDone ''t'' ''[]''" "''[]''" "TaskAnswered (re_readResult sample_requester_env ''[]'')"]
    requester_serves_own_call[OF running_reachable(2) _ _ refl _ refl refl,
      of 0 "''t''" "ToRequester_TaskError ''t'' ''no''" "[]" "TaskFailed ''no''" "''no''"] ready_calls
  by (simp add: sample_requester_env_def)

lemma early_result_lost_witness: "requester_onMessage sample_requester_env (ToRequester_TaskDone ''t'' ''[]'') ready_state = ready_state"
  using early_result_lost[OF running_reachable(1), of 0 "''t''" "''[]''"] ready_calls by simp

end
