(* ===== verification/LoopNode.thy ===== *)
theory LoopNode
  imports ItemLinking
begin

text \<open>
  The node that loops over items, \<^verbatim>\<open>packages/nodes-base/nodes/SplitInBatches/v3/SplitInBatchesV3.node.ts\<close>: it keeps
  the items that are left in the context of the node and sends out a batch at each call, what the loop sends back it
  collects, and when no item is left it sends the collected items to its first output.

  A call has its input, the values of its parameters and the source of its input. The links of items are numbers,
  objects, or lists of these, as the type of items says.
\<close>

section \<open>The node\<close>

record LoopContext =
  lc_items :: "INodeExecutionData list option"
  lc_processedItems :: "INodeExecutionData list"
  lc_currentRunIndex :: nat
  lc_maxRunIndex :: "int option"
  lc_sourceData :: "ISourceData option"
  lc_noItemsLeft :: "bool option"
  lc_done :: "bool option"

record LoopCall =
  cl_items :: "INodeExecutionData list"
  cl_batchSize :: rat
  cl_reset :: bool
  cl_source :: ISourceData

definition source_json :: "ISourceData \<Rightarrow> json" where
  "source_json s = JObj ((''previousNode'', JStr (previousNode s)) #
     (case previousNodeOutput s of None \<Rightarrow> [] | Some n \<Rightarrow> [(''previousNodeOutput'', JNum (of_nat n))]) @
     (case previousNodeRun s of None \<Rightarrow> [] | Some n \<Rightarrow> [(''previousNodeRun'', JNum (of_nat n))]))"

definition put_source :: "ISourceData option \<Rightarrow> (string, json) js_map \<Rightarrow> json" where
  "put_source sourceData fs = JObj (case sourceData of
     None \<Rightarrow> js_del ''sourceOverwrite'' fs | Some s \<Rightarrow> js_put ''sourceOverwrite'' (source_json s) fs)"

definition addSourceOverwrite :: "ISourceData option \<Rightarrow> json \<Rightarrow> json" where
  "addSourceOverwrite sourceData pairedItem = (case pairedItem of
     JNum q \<Rightarrow> put_source sourceData [(''item'', JNum q)]
   | JObj fs \<Rightarrow> put_source sourceData fs
   | _ \<Rightarrow> put_source sourceData [])"

definition getPairedItemInformation :: "ISourceData option \<Rightarrow> INodeExecutionData \<Rightarrow> json" where
  "getPairedItemInformation sourceData it = (case map_of it ''pairedItem'' of
     None \<Rightarrow> put_source sourceData [(''item'', JNum 0)]
   | Some (JArr ps) \<Rightarrow> JArr (map (addSourceOverwrite sourceData) ps)
   | Some p \<Rightarrow> addSourceOverwrite sourceData p)"

definition relinked :: "ISourceData option \<Rightarrow> INodeExecutionData \<Rightarrow> INodeExecutionData" where
  "relinked sourceData it = js_put ''pairedItem'' (getPairedItemInformation sourceData it) it"

text \<open>The items that the loop sends back, with their place in the input of the call.\<close>

definition newItems :: "LoopCall \<Rightarrow> INodeExecutionData list" where
  "newItems c = map (\<lambda>(k, it). js_put ''pairedItem'' (JObj [(''sourceOverwrite'', source_json (cl_source c)), (''item'', JNum (of_nat k))]) it)
     (enumerate 0 (cl_items c))"

text \<open>\<open>splice(0, n)\<close> takes as many items as the number says, rounded towards zero; none for a negative one. A quotient
  by zero is no finite number.\<close>

definition splice_count :: "rat \<Rightarrow> nat" where
  "splice_count q = nat \<lfloor>q\<rfloor>"

definition max_run_index :: "nat \<Rightarrow> rat \<Rightarrow> int option" where
  "max_run_index n batchSize = (if batchSize = 0 then None else Some \<lceil>of_nat n / batchSize\<rceil>)"

definition first_batch :: "LoopCall \<Rightarrow> LoopContext \<Rightarrow> INodeExecutionData list \<times> LoopContext" where
  "first_batch c nodeContext =
     (let n = splice_count (cl_batchSize c)
      in (take n (cl_items c), nodeContext\<lparr>lc_currentRunIndex := 0, lc_maxRunIndex := max_run_index (length (cl_items c)) (cl_batchSize c),
           lc_sourceData := Some (cl_source c), lc_items := Some (drop n (cl_items c)), lc_processedItems := []\<rparr>))"

definition next_batch :: "LoopCall \<Rightarrow> INodeExecutionData list \<Rightarrow> LoopContext \<Rightarrow> INodeExecutionData list \<times> LoopContext" where
  "next_batch c left nodeContext =
     (let n = splice_count (cl_batchSize c)
      in (map (relinked (lc_sourceData nodeContext)) (take n left),
          nodeContext\<lparr>lc_currentRunIndex := Suc (lc_currentRunIndex nodeContext), lc_items := Some (drop n left),
            lc_processedItems := lc_processedItems nodeContext @ newItems c\<rparr>))"

definition SplitInBatches_execute :: "LoopCall \<Rightarrow> LoopContext \<Rightarrow> INodeExecutionData list list \<times> LoopContext" where
  "SplitInBatches_execute c nodeContext =
     (let (returnItems, ctx) = (case (lc_items nodeContext, cl_reset c) of
            (Some left, False) \<Rightarrow> next_batch c left nodeContext
          | _ \<Rightarrow> first_batch c nodeContext);
          ctx = ctx\<lparr>lc_noItemsLeft := Some (lc_items ctx = Some [])\<rparr>
      in if returnItems = [] then ([lc_processedItems ctx, []], ctx\<lparr>lc_done := Some True\<rparr>)
         else ([[], returnItems], ctx\<lparr>lc_done := Some False\<rparr>))"

section \<open>A whole loop\<close>










section \<open>Links\<close>

lemma json_source_inverse: "json_source (Some (source_json s)) = Some s"
  by (cases s) (simp add: json_source_def source_json_def num_of_def array_index_def[of None] split: option.split)

text \<open>Every link of an item in a later batch, as expressions read it, leads to the source of the first call, so that the items of all
  batches are found behind the loop.\<close>

lemma later_batches_linked:
  "\<forall>l \<in> set (normalizePairedItem (map_of (relinked (Some s) it) ''pairedItem'')). final_source l sourceData = Some s"
proof -
  have put: "link_of (put_source (Some s) fs) = \<lparr>pi_item = num_of (map_of fs ''item''), pi_input = num_of (map_of fs ''input''),
      pi_sourceOverwrite = Some s\<rparr>" for fs
    by (simp add: put_source_def link_of_def json_source_inverse)
  have obj: "\<exists>fs. addSourceOverwrite (Some s) p = put_source (Some s) fs" for p
    by (cases p) (auto simp: addSourceOverwrite_def)
  then have add: "final_source (link_of (addSourceOverwrite (Some s) p)) sourceData = Some s" for p
    using put by (metis final_source_def IPairedItemData.select_convs(3) option.simps(5))
  have single: "normalizePairedItem (Some (put_source (Some s) fs)) = [link_of (put_source (Some s) fs)]" for fs
    by (simp add: normalizePairedItem_def put_source_def)
  then have one: "\<forall>l \<in> set (normalizePairedItem (Some (addSourceOverwrite (Some s) p))). final_source l sourceData = Some s" for p
    using obj[of p] add[of p] by auto
  have link: "map_of (relinked (Some s) it) ''pairedItem'' = Some (getPairedItemInformation (Some s) it)" by (simp add: relinked_def)
  show ?thesis
  proof (cases "map_of it ''pairedItem''")
    case None
    then show ?thesis unfolding link by (simp add: getPairedItemInformation_def single put final_source_def)
  next
    case (Some p)
    show ?thesis
    proof (cases "\<exists>ps. p = JArr ps")
      case True
      then show ?thesis unfolding link using Some add by (auto simp: getPairedItemInformation_def normalizePairedItem_def)
    next
      case False
      then have "getPairedItemInformation (Some s) it = addSourceOverwrite (Some s) p"
        using Some by (cases p) (simp_all add: getPairedItemInformation_def)
      then show ?thesis unfolding link using one by simp
    qed
  qed
qed

section \<open>Examples\<close>





text \<open>When the loop is over its context still has the empty list of items: new input does not start a loop again, but is sent out
  with what was collected before, unless the parameter \<open>reset\<close> is set.\<close>

lemma finished_loop_goes_on:
  assumes "lc_items ctx = Some []" and "\<not> cl_reset c"
  shows "fst (SplitInBatches_execute c ctx) = [lc_processedItems ctx @ newItems c, []]"
  using assms by (simp add: SplitInBatches_execute_def next_batch_def Let_def)

text \<open>A batch size below one ends the loop at once, and none of the items is output.\<close>

lemma no_batch_size_drops_input:
  assumes "cl_batchSize c < 1" and "lc_items ctx = None"
  shows "fst (SplitInBatches_execute c ctx) = [[], []]"
  using assms by (simp add: SplitInBatches_execute_def first_batch_def splice_count_def Let_def)

end
