(* ===== verification/Spec2Isabelle.thy ===== *)
theory Spec2Isabelle
  imports Prelude Interfaces Connections Workflow DirectedGraph GraphSearch GraphSCC FilterDisabled
    RewireGraph Subgraph StartNodes Cycles SourceGroups ExecutionStack WorkflowQueries WorkflowSearch
    WorkflowPaths PartialExecution GraphUtils Concurrency ActiveExecutions
    TaskBroker NodeScheduling RunNode RunLoop PartialRuns Parameters NodeParameters FieldValidation FilterParameter
    ParameterIssues NodeNaming WorkflowSetup ItemLinking RunnerProcess RunnerProtocol ExpressionParser ActiveWorkflows
    CodeTaskData AugmentObject CodeTasks TaskRequester LoopNode
begin

text \<open>
  This development models the execution engine of n8n: the workflow object, the parameters of its nodes,
  the preparation of partial executions, the run loop, and the parts of the server that admit and distribute
  executions and tasks. All paths are below \<^verbatim>\<open>src/packages\<close>.

  \<^bold>\<open>The program and its theories.\<close> A workflow is a set of nodes with connection tables
  (\<^verbatim>\<open>workflow/src/interfaces.ts\<close>, theory \<open>Interfaces\<close>). Execution starts with a stack of nodes and their
  input; a partial execution reuses the results of an earlier run and computes that stack from them.

  \<^item> \<open>Prelude\<close>: exceptions as \<open>'a result\<close>, JavaScript maps, sets and arrays as lists, walks that avoid
    nodes; the collections \<open>js_simps\<close> and \<open>result_simps\<close>; the locales of the map interface.
  \<^item> \<open>Connections\<close>: the functions on connection tables of \<^verbatim>\<open>workflow/src/common\<close>.
  \<^item> \<open>Workflow\<close>, \<open>WorkflowQueries\<close>, \<open>WorkflowSearch\<close>, \<open>WorkflowPaths\<close>: class \<open>Workflow\<close> of
    \<^verbatim>\<open>workflow/src/workflow.ts\<close>: construction, static data, renaming, start nodes, breadth-first search,
    connection indexes and paths.
  \<^item> \<open>Parameters\<close>, \<open>NodeParameters\<close>: \<^verbatim>\<open>workflow/src/node-helpers.ts\<close>, which parameters of a node are
    displayed, the order in which they are resolved, and \<open>getNodeParameters\<close>, which fills in or takes out their
    default values. \<open>WorkflowSetup\<close>: the constructor of a workflow with these values.
  \<^item> \<open>FieldValidation\<close>, \<open>FilterParameter\<close>, \<open>ParameterIssues\<close>: the validation of values by their type
    (\<^verbatim>\<open>workflow/src/type-validation.ts\<close>), filter conditions
    (\<^verbatim>\<open>workflow/src/node-parameters/filter-parameter.ts\<close>), and the issues of the parameters of a node.
  \<^item> \<open>NodeNaming\<close>: the other helpers on nodes: inputs and outputs, versions, names, descriptions, webhook
    paths, contexts, cron expressions.
  \<^item> \<open>GraphUtils\<close>: \<^verbatim>\<open>workflow/src/graph/graph-utils.ts\<close>, which selections can become a sub-workflow.
  \<^item> \<open>DirectedGraph\<close>, \<open>GraphSearch\<close>, \<open>GraphSCC\<close>: class \<open>DirectedGraph\<close> of
    \<^verbatim>\<open>core/src/execution-engine/partial-execution-utils/directed-graph.ts\<close>.
  \<^item> \<open>FilterDisabled\<close>, \<open>RewireGraph\<close>, \<open>Subgraph\<close>, \<open>StartNodes\<close>, \<open>Cycles\<close>, \<open>SourceGroups\<close>, \<open>ExecutionStack\<close>:
    the other files of that directory, in the order a partial execution calls them.
  \<^item> \<open>PartialExecution\<close>: \<open>run\<close>, \<open>runPartialWorkflow\<close> and \<open>runPartialWorkflow2\<close> of
    \<^verbatim>\<open>core/src/execution-engine/workflow-execute.ts\<close>, which compose these steps.
  \<^item> \<open>NodeScheduling\<close>, \<open>RunNode\<close>, \<open>RunLoop\<close>: the run loop of the same file. \<open>NodeScheduling\<close> is
    \<open>addNodeToBeExecuted\<close> with the waiting tables, \<open>RunNode\<close> one execution of a node with its tries, error
    output and paired items, \<open>RunLoop\<close> is \<open>processRunExecutionData\<close> with its checks and its result. \<open>PartialRuns\<close>: a partial
    execution from its preparation to the end of the loop.
  \<^item> \<open>Concurrency\<close>, \<open>ActiveExecutions\<close>: the limit on concurrent executions and the executions of a
    process (\<^verbatim>\<open>cli/src/concurrency\<close>, \<^verbatim>\<open>cli/src/active-executions.ts\<close>), with the stop of an execution in regular
    mode (\<open>stopInRegularMode\<close> of \<^verbatim>\<open>cli/src/executions/execution.service.ts\<close>).
  \<^item> \<open>TaskBroker\<close>: the broker between nodes and task runners
    (\<^verbatim>\<open>cli/src/task-runners/task-broker/task-broker.service.ts\<close>).
  \<^item> \<open>RunnerProcess\<close>: class \<open>TaskRunner\<close> of the runner process
    (\<^verbatim>\<open>@n8n/task-runner/src/task-runner.ts\<close>, \<^verbatim>\<open>task-state.ts\<close>): offers, the life of a task, timeouts,
    cancellation, requests of user code and stopping. \<open>RunnerProtocol\<close>: broker and runner composed, with a
    channel in each direction that delivers in order and once.
  \<^item> \<open>ItemLinking\<close>: the data that expressions read (\<^verbatim>\<open>workflow/src/workflow-data-proxy.ts\<close>): \<open>getPairedItem\<close>,
    which follows the links between items back to a node, and \<open>$\<close>, \<open>$input\<close>, \<open>$items\<close>, \<open>$json\<close>, \<open>$prevNode\<close>.
  \<^item> \<open>ExpressionParser\<close>: the parts of a template (\<^verbatim>\<open>workflow/src/extensions/expression-parser.ts\<close>).
  \<^item> \<open>ActiveWorkflows\<close>: triggers, polls and cron jobs of active workflows
    (\<^verbatim>\<open>core/src/execution-engine/active-workflows.ts\<close>, \<^verbatim>\<open>scheduled-task-manager.ts\<close>,
    \<^verbatim>\<open>triggers-and-pollers.ts\<close>) and the activations that are tried again.
  \<^item> \<open>CodeTaskData\<close>: the data of a task of the Code node, from the built-in variables that its code uses
    (\<^verbatim>\<open>@n8n/task-runner/src/js-task-runner/built-ins-parser\<close>) to the request, the response of the node's process
    (\<^verbatim>\<open>cli/src/task-runners/task-managers\<close>) and the data proxy in the runner.
  \<^item> \<open>CodeTasks\<close>: running the code: the chunks of the items
    (\<^verbatim>\<open>nodes-base/nodes/Code/JsTaskRunnerSandbox.ts\<close>), the loop of a task over its items
    (\<^verbatim>\<open>@n8n/task-runner/src/js-task-runner/js-task-runner.ts\<close>), the validation and normalisation of what the code
    returns (\<^verbatim>\<open>result-validation.ts\<close>, \<^verbatim>\<open>normalize-items.ts\<close>).
  \<^item> \<open>TaskRequester\<close>: the other end of the broker, which starts tasks and serves their requests
    (\<^verbatim>\<open>cli/src/task-runners/task-managers/task-requester.ts\<close>).
  \<^item> \<open>AugmentObject\<close>: the proxies that let code change execution data without changing the data itself
    (\<^verbatim>\<open>workflow/src/augment-object.ts\<close>), on a heap of objects and arrays.
  \<^item> \<open>LoopNode\<close>: the node that loops over items (\<^verbatim>\<open>nodes-base/nodes/SplitInBatches/v3/SplitInBatchesV3.node.ts\<close>).

  \<^bold>\<open>How the code is read.\<close> Objects are records, and a shared object that is updated in place is updated
  everywhere it is held (\<open>map_nodes\<close>) or lives in a store and is held by its place (requests of the
  task broker, active executions, the workflow and the run data that task requests share). A \<open>Map\<close>, an object used as a map and a \<open>Set\<close> are lists in insertion
  order; object keys that look like array indices, which JavaScript moves to the front, keep their
  insertion order here, and the members that every object inherits (\<open>constructor\<close>) are no keys of it. Holes of an
  array and \<open>null\<close> are one value where the code does not tell them apart; \<open>addNodeToBeExecuted\<close> does in one place,
  which its theory names. Numbers are rational, without \<open>Infinity\<close>, and inputs and outputs have natural numbers.
  A thrown exception is \<open>Inl\<close>. An async function is cut at its awaits, and the
  pieces of concurrent calls may be interleaved in any order, more than the event loop allows. Third-party
  code and code that is not modelled is an argument: node types, \<open>get\<close> and \<open>isEqual\<close> of lodash (\<open>ParamLib\<close>),
  the conversions of JavaScript and the date parsers (\<open>ValidationLib\<close>), \<open>localeCompare\<close>, the sort of the engine where its comparison is inconsistent, \<open>nanoid\<close>, the clock. What a
  node does when it is called is an arbitrary function of the iteration and the call (\<open>RunEnv\<close>), so the
  theorems on the run loop hold for all behaviours of the nodes.

  \<^bold>\<open>What the lemmas show.\<close> For the graph functions: what they compute, as sets and relations on graphs
  (reachability, distances, paths through disabled nodes, strongly connected parts), and that they end.
  For the preparation of a partial execution: each step exactly, and that the stack it leaves stays inside the
  nodes that may run. For the run loop: where the data of a connection goes, what a failing node leaves
  behind, that runs are only appended and only for nodes of the filter, and that the loop ends on
  a workflow without cycles: the names of the pending nodes become smaller in the multiset order of the
  connections. Together with the preparation they show which recorded runs a partial execution keeps, clears
  and adds. For
  the node parameters: the resolve order in closed form, the result of \<open>getNodeParameters\<close> for properties
  that are no collections, that storing without defaults and filling them in again loses nothing, which
  issues are reported, and that validation leaves validated values as they are. For the links between items: \<open>getPairedItem\<close> against
  an inductive relation of ancestors, its termination when runs lead back to earlier runs, and that the item of
  the previous node is the one the run loop linked. For a code task: that the data it asks for is enough for the
  nodes it names, that running it in chunks gives the results of a single run, that its requests are answered
  from its own call, and that reading and writing augmented data is the same as on a copy. For
  the services: invariants of all reachable states, proved by induction
  over the steps, for the task broker, the runner and their composition; how far the executions of a process can
  exceed the limit when waiting ones are stopped; and the refinement of a semaphore by the concurrency queue, used through the
  locale \<open>admission\<close>. Lemmas beside the properties show on concrete inputs where the code departs from its
  documentation. For the loop node: that a loop sees every item of its input once, in batches, and ends.

  \<^bold>\<open>Bounds and fuel.\<close> Loops of the code are functions with a termination proof, except
  \<open>followNode\<close> (\<open>GraphSCC\<close>) and the walks of \<open>GraphSearch\<close>, whose recursion goes over states that change on the
  way: they take fuel, one more than the number of nodes or connections, and the theorems show that
  it is never used up. The fuel of \<open>getPairedItem\<close> is the depth of the stack: the code does recurse until
  it overflows on runs that lead to each other, and a theorem gives a depth that is enough for runs that
  lead back to earlier ones. The resolve order of parameters ends by a measure of four numbers, and
  \<open>getNodeParameters\<close> and \<open>getParameterIssues\<close> by the nesting of the properties. The run loop may run for ever on a workflow with a cycle: \<open>run_loop\<close> takes a number of
  iterations, and a theorem of \<open>RunLoop\<close> shows that some number is enough without one. Indices are natural numbers where the code only counts up from zero and integers where
  it uses negative ones; no claim depends on the size of a number.

  \<^bold>\<open>Not modelled.\<close> In the run loop: life cycle hooks that throw, close functions, the runs that AI sub
  nodes record themselves, and the wait between two tries. A state that an iteration throws in is the one before
  the call that threw. Of expressions
  only the data they read is modelled: their JavaScript is run by a third-party evaluator. The user code of a task, run
  by \<^verbatim>\<open>node:vm\<close> in a context of helpers, is an argument of \<open>CodeTasks\<close>. Of the data proxy \<open>$fromAI\<close>, \<open>$env\<close>, the context and the getters of parameters, which
  evaluate expressions, are left out. Of stopping an execution the checks and rows of the database and the tracker of
  waiting executions are left out. The other nodes, the editor and the REST layer are calls of other systems and libraries. The
  services that the server has beside the modelled ones (waiting executions, recovery, leadership, webhooks)
  mostly keep timers and rows of a database. Message callbacks that throw and the response stream
  are left out.
\<close>

end
